(* ===== verification/Prelude.thy ===== *)
theory Prelude
  imports Main "HOL-Library.Word"
begin

text \<open>
  The parts of the C language and of libc that every component uses, and the generic lemmas
  about them.  A C string is a \<open>string\<close> without the terminating NUL; a byte buffer is a
  \<open>string\<close> that may hold NUL bytes, and \<open>cstr\<close> reads such a buffer the way \<open>strlen\<close> and its
  kin do.  A \<open>while (*p && test) p++\<close> scan is \<open>takeWhile\<close>/\<open>dropWhile\<close>: the end of the list is
  the NUL.  Signed C integers are \<open>int\<close> with the wrap-around written out (\<open>wrap32\<close>), unsigned
  ones are words.
\<close>

named_theorems cstr_simps \<open>rewriting C-string reads and writes\<close>
named_theorems fits_intros \<open>a bounded store fits its array\<close>

section \<open>Characters\<close>

abbreviation NUL :: char where "NUL \<equiv> CHR 0x00"
abbreviation TAB :: char where "TAB \<equiv> CHR 0x09"
abbreviation LF :: char where "LF \<equiv> CHR 0x0A"
abbreviation CR :: char where "CR \<equiv> CHR 0x0D"
abbreviation DQUOTE :: char where "DQUOTE \<equiv> CHR 0x22"
abbreviation BSLASH :: char where "BSLASH \<equiv> CHR 0x5C"

abbreviation crlf :: string where "crlf \<equiv> [CR, LF]"

abbreviation code :: "char \<Rightarrow> nat" where "code c \<equiv> of_char c"

definition isspace :: "char \<Rightarrow> bool" where
  "isspace c \<longleftrightarrow> code c = 32 \<or> (9 \<le> code c \<and> code c \<le> 13)"

definition isdigit :: "char \<Rightarrow> bool" where
  "isdigit c \<longleftrightarrow> 48 \<le> code c \<and> code c \<le> 57"

definition isxdigit :: "char \<Rightarrow> bool" where
  "isxdigit c \<longleftrightarrow> isdigit c \<or> (65 \<le> code c \<and> code c \<le> 70) \<or> (97 \<le> code c \<and> code c \<le> 102)"

definition isalpha :: "char \<Rightarrow> bool" where
  "isalpha c \<longleftrightarrow> (65 \<le> code c \<and> code c \<le> 90) \<or> (97 \<le> code c \<and> code c \<le> 122)"

definition isalnum :: "char \<Rightarrow> bool" where
  "isalnum c \<longleftrightarrow> isalpha c \<or> isdigit c"

definition tolower :: "char \<Rightarrow> char" where
  "tolower c = (if 65 \<le> code c \<and> code c \<le> 90 then char_of (code c + 32) else c)"

text \<open>The value of a hexadecimal digit, \<open>None\<close> for any other character.\<close>

definition hexval :: "char \<Rightarrow> nat option" where
  "hexval c =
     (if isdigit c then Some (code c - 48)
      else if 97 \<le> code c \<and> code c \<le> 102 then Some (code c - 97 + 10)
      else if 65 \<le> code c \<and> code c \<le> 70 then Some (code c - 65 + 10)
      else None)"

text \<open>A lower-case hexadecimal digit, as \<open>printf("%x")\<close> prints it.\<close>

definition hexdigit :: "nat \<Rightarrow> char" where
  "hexdigit n = (if n < 10 then char_of (48 + n) else char_of (87 + n))"

section \<open>Strings\<close>

definition cstr :: "string \<Rightarrow> string" where
  "cstr b = takeWhile (\<lambda>c. c \<noteq> NUL) b"

text \<open>\<open>fits n s\<close>: \<open>s\<close> and its NUL fit an array of \<open>n\<close> bytes.\<close>

definition fits :: "nat \<Rightarrow> string \<Rightarrow> bool" where
  "fits n s \<longleftrightarrow> length s < n \<and> NUL \<notin> set s"

text \<open>\<open>strncasecmp(s, pre, strlen(pre)) == 0\<close>.\<close>

definition ci_prefix :: "string \<Rightarrow> string \<Rightarrow> bool" where
  "ci_prefix pre s \<longleftrightarrow>
     length pre \<le> length s \<and> map tolower (take (length pre) s) = map tolower pre"

text \<open>Two prefixes one string can both have.\<close>

definition ci_clash :: "string \<Rightarrow> string \<Rightarrow> bool" where
  "ci_clash a b \<longleftrightarrow> map tolower (take (length b) a) = map tolower (take (length a) b)"

text \<open>\<open>strcasecmp(s, t) == 0\<close>.\<close>

definition ci_eq :: "string \<Rightarrow> string \<Rightarrow> bool" where
  "ci_eq s t \<longleftrightarrow> map tolower s = map tolower t"

text \<open>\<open>strncmp(s, pre, strlen(pre)) == 0\<close>.\<close>

definition starts_with :: "string \<Rightarrow> string \<Rightarrow> bool" where
  "starts_with pre s \<longleftrightarrow> take (length pre) s = pre"

text \<open>\<open>strchr\<close>: the suffix that starts at the first \<open>c\<close>; \<open>strrchr\<close>: at the last one.\<close>

definition strchr :: "string \<Rightarrow> char \<Rightarrow> string option" where
  "strchr s c = (case dropWhile (\<lambda>x. x \<noteq> c) s of [] \<Rightarrow> None | t \<Rightarrow> Some t)"

definition strrchr :: "string \<Rightarrow> char \<Rightarrow> string option" where
  "strrchr s c = (if c \<in> set s then Some (c # rev (takeWhile (\<lambda>x. x \<noteq> c) (rev s))) else None)"

text \<open>\<open>strstr\<close>: the suffix at the first occurrence of a needle (the whole string for \<open>""\<close>).\<close>

fun strstr :: "string \<Rightarrow> string \<Rightarrow> string option" where
  "strstr [] needle = (if needle = [] then Some [] else None)"
| "strstr (c # s) needle =
     (if take (length needle) (c # s) = needle then Some (c # s) else strstr s needle)"

definition ltrim :: "(char \<Rightarrow> bool) \<Rightarrow> string \<Rightarrow> string" where
  "ltrim p s = dropWhile p s"

definition rtrim :: "(char \<Rightarrow> bool) \<Rightarrow> string \<Rightarrow> string" where
  "rtrim p s = rev (dropWhile p (rev s))"

text \<open>The fields of a separated list.\<close>

fun split_on :: "char \<Rightarrow> string \<Rightarrow> string list" where
  "split_on d [] = [[]]"
| "split_on d (c # s) =
     (if c = d then [] # split_on d s
      else case split_on d s of [] \<Rightarrow> [[c]] | f # fs \<Rightarrow> (c # f) # fs)"

text \<open>The fields of a \<open>d\<close>-separated list with the blanks \<open>b\<close> trimmed, empty fields left out.\<close>

definition csv_fields :: "(char \<Rightarrow> bool) \<Rightarrow> char \<Rightarrow> string \<Rightarrow> string list" where
  "csv_fields b d p = filter (\<lambda>e. e \<noteq> []) (map (\<lambda>e. rtrim b (dropWhile b e)) (split_on d p))"

section \<open>Numbers\<close>

definition LONG_MAX :: int where "LONG_MAX = 2 ^ 63 - 1"
definition LONG_MIN :: int where "LONG_MIN = - (2 ^ 63)"
definition INT_MAX :: int where "INT_MAX = 2 ^ 31 - 1"

text \<open>A signed 32-bit result: the value modulo \<open>2 ^ 32\<close>, read as two's complement.\<close>

definition wrap32 :: "int \<Rightarrow> int" where
  "wrap32 x = (x + 2 ^ 31) mod 2 ^ 32 - 2 ^ 31"

definition wrap64 :: "int \<Rightarrow> int" where
  "wrap64 x = (x + 2 ^ 63) mod 2 ^ 64 - 2 ^ 63"

text \<open>The value of a run of decimal digits.\<close>

definition dec_value :: "string \<Rightarrow> nat" where
  "dec_value ds = foldl (\<lambda>v d. 10 * v + (code d - 48)) 0 ds"

text \<open>
  \<open>strtol(s, &end, 10)\<close>: leading white space, an optional sign, then digits, saturating at the
  bounds of \<open>long\<close>; the second component is \<open>end\<close>, the whole string when there is no digit.
\<close>

definition strtol10 :: "string \<Rightarrow> int \<times> string" where
  "strtol10 s =
     (let t = dropWhile isspace s;
          neg = (t \<noteq> [] \<and> hd t = CHR ''-'');
          u = (if t \<noteq> [] \<and> (hd t = CHR ''-'' \<or> hd t = CHR ''+'') then tl t else t);
          ds = takeWhile isdigit u;
          v = (if neg then - int (dec_value ds) else int (dec_value ds))
      in if ds = [] then (0, s)
         else (max LONG_MIN (min LONG_MAX v), dropWhile isdigit u))"

text \<open>\<open>printf("%d")\<close> of a natural number.\<close>

fun nat_dec :: "nat \<Rightarrow> string" where
  "nat_dec n = (if n < 10 then [char_of (48 + n)] else nat_dec (n div 10) @ [char_of (48 + n mod 10)])"

declare nat_dec.simps [simp del]

definition int_dec :: "int \<Rightarrow> string" where
  "int_dec i = (if i < 0 then CHR ''-'' # nat_dec (nat (- i)) else nat_dec (nat i))"

text \<open>\<open>printf("%x")\<close> of a natural number.\<close>

fun nat_hex :: "nat \<Rightarrow> string" where
  "nat_hex n = (if n < 16 then [hexdigit n] else nat_hex (n div 16) @ [hexdigit (n mod 16)])"

declare nat_hex.simps [simp del]

section \<open>Incremental decoders\<close>

text \<open>
  A reader that is called again with a longer buffer until it stops asking for more: \<open>w\<close> is what
  has arrived, the list holds what each later read adds.
\<close>

primrec feed_pieces ::
  "(string \<Rightarrow> 's \<Rightarrow> 'r \<times> 's) \<Rightarrow> ('r \<Rightarrow> bool) \<Rightarrow> string \<Rightarrow> string list \<Rightarrow> 's \<Rightarrow> 'r \<times> 's" where
  "feed_pieces feed more w [] st = feed w st"
| "feed_pieces feed more w (x # xs) st =
     (case feed w st of (r, st') \<Rightarrow>
        if more r then feed_pieces feed more (w @ x) xs st' else (r, st'))"

text \<open>
  The contract of such a decoder: resuming it on a longer buffer is the same as having called it
  on the longer buffer from the start, as long as the longer buffer is one it can address
  (\<open>addressable\<close>, which a shorter buffer keeps).
\<close>

locale incremental_decoder =
  fixes feed :: "string \<Rightarrow> 's \<Rightarrow> 'r \<times> 's"
    and more :: "'r \<Rightarrow> bool"
    and addressable :: "string \<Rightarrow> bool"
  assumes addressable_front: "addressable (w @ x) \<Longrightarrow> addressable w"
    and feed_extend: "addressable (w @ x) \<Longrightarrow>
      feed (w @ x) st = (case feed w st of (r, st') \<Rightarrow> if more r then feed (w @ x) st' else (r, st'))"
begin

lemma stable:
  "addressable (w @ x) \<Longrightarrow> feed w st = (r, st') \<Longrightarrow> \<not> more r \<Longrightarrow> feed (w @ x) st = (r, st')"
  by (simp add: feed_extend)

lemma pieces_one_shot:
  "addressable (w @ concat xs) \<Longrightarrow> feed_pieces feed more w xs st = feed (w @ concat xs) st"
proof (induction xs arbitrary: w st)
  case (Cons x xs)
  have a: "addressable (w @ x @ concat xs)" using Cons.prems by simp
  obtain r st' where f: "feed w st = (r, st')" by (cases "feed w st")
  show ?case
  proof (cases "more r")
    case True
    then have "feed (w @ x @ concat xs) st = feed (w @ x @ concat xs) st'"
      using feed_extend [OF a, of st] f by simp
    with True f Cons.IH [of "w @ x"] a show ?thesis by simp
  next
    case False
    with stable [OF a f] f show ?thesis by simp
  qed
qed simp

lemma pieces_split_irrelevant:
  "addressable (w @ concat xs) \<Longrightarrow> concat xs = concat ys \<Longrightarrow>
   feed_pieces feed more w xs st = feed_pieces feed more w ys st"
  by (simp add: pieces_one_shot)

end

section \<open>Byte sinks\<close>

text \<open>
  A growing output that can fail: once failed it ignores every write; while it has not failed a
  write appends.
\<close>

locale byte_sink =
  fixes put :: "'b \<Rightarrow> string \<Rightarrow> 'b"
    and written :: "'b \<Rightarrow> string"
    and failed :: "'b \<Rightarrow> bool"
  assumes put_failed: "failed b \<Longrightarrow> put b s = b"
    and put_written: "\<not> failed (put b s) \<Longrightarrow> written (put b s) = written b @ s"
begin

lemma puts_failed: "failed b \<Longrightarrow> foldl put b ss = b"
  by (induction ss) (simp_all add: put_failed)

lemma puts_written: "\<not> failed (foldl put b ss) \<Longrightarrow> written (foldl put b ss) = written b @ concat ss"
proof (induction ss arbitrary: b)
  case (Cons s ss)
  then have "\<not> failed (put b s)" using puts_failed [of "put b s" ss] by auto
  then show ?case using Cons put_written [of b s] by simp
qed simp

end

section \<open>Lemmas\<close>

lemma code_less [simp]: "code c < 256"
  by simp

lemma code_eq_iff: "code c = code d \<longleftrightarrow> c = d"
  by simp

lemma takeWhile_all_set: "c \<in> set (takeWhile P s) \<Longrightarrow> P c \<and> c \<in> set s"
  by (meson set_takeWhileD)

lemma set_ltrim [cstr_simps]: "c \<in> set (ltrim p s) \<Longrightarrow> c \<in> set s"
  by (simp add: ltrim_def set_dropWhileD)

lemma set_rtrim [cstr_simps]: "c \<in> set (rtrim p s) \<Longrightarrow> c \<in> set s"
  by (auto simp add: rtrim_def dest: set_dropWhileD)

lemma length_ltrim [cstr_simps]: "length (ltrim p s) \<le> length s"
  by (simp add: ltrim_def length_dropWhile_le)

lemma length_rtrim [cstr_simps]: "length (rtrim p s) \<le> length s"
  using length_dropWhile_le [of p "rev s"] by (simp add: rtrim_def)

lemma fits_cstr [fits_intros]: "fits n s \<Longrightarrow> cstr s = s"
  by (auto simp: fits_def cstr_def takeWhile_eq_all_conv)

lemma cstr_no_NUL [simp]: "NUL \<notin> set (cstr b)"
  by (auto simp: cstr_def dest: set_takeWhileD)

lemma length_cstr: "length (cstr b) \<le> length b"
  by (simp add: cstr_def length_takeWhile_le)

lemma fits_take [fits_intros]: "NUL \<notin> set s \<Longrightarrow> 0 < n \<Longrightarrow> fits n (take (n - 1) s)"
  by (auto simp: fits_def dest: in_set_takeD)

lemma fits_ltrim [fits_intros]: "fits n s \<Longrightarrow> fits n (ltrim p s)"
  using length_ltrim [of p s] by (auto simp: fits_def dest: set_ltrim)

lemma fits_rtrim [fits_intros]: "fits n s \<Longrightarrow> fits n (rtrim p s)"
  using length_rtrim [of p s] by (auto simp: fits_def dest: set_rtrim)

lemma fits_Nil [fits_intros, simp]: "0 < n \<Longrightarrow> fits n []"
  by (simp add: fits_def)

lemma wrap32_id: "- (2 ^ 31) \<le> x \<Longrightarrow> x < 2 ^ 31 \<Longrightarrow> wrap32 x = x"
  by (simp add: wrap32_def)

lemma wrap32_range: "- (2 ^ 31) \<le> wrap32 x \<and> wrap32 x < 2 ^ 31"
proof -
  have "0 \<le> (x + 2 ^ 31) mod 2 ^ 32" and "(x + 2 ^ 31) mod 2 ^ 32 < (2 ^ 32 :: int)"
    by simp_all
  then show ?thesis by (simp add: wrap32_def)
qed

lemma wrap64_id: "- (2 ^ 63) \<le> x \<Longrightarrow> x < 2 ^ 63 \<Longrightarrow> wrap64 x = x"
  by (simp add: wrap64_def)

lemma wrap64_le: "- (2 ^ 63) \<le> x \<Longrightarrow> wrap64 x \<le> x"
  using zmod_le_nonneg_dividend [of "x + 2 ^ 63" "2 ^ 64"] by (simp add: wrap64_def)

lemma dropWhile_shorter:
  "dropWhile Q s \<noteq> [] \<Longrightarrow> (\<And>c. \<not> Q c \<Longrightarrow> P c) \<Longrightarrow>
   length (dropWhile P (dropWhile Q s)) < length s"
proof (induction s)
  case (Cons c s)
  show ?case
  proof (cases "Q c")
    case True
    with Cons show ?thesis by (simp add: less_Suc_eq)
  next
    case False
    with Cons.prems(2) have "P c" by blast
    with False show ?thesis by (simp add: length_dropWhile_le le_imp_less_Suc)
  qed
qed simp

lemma split_on_not_Nil [simp]: "split_on d s \<noteq> []"
  by (induction s) (auto split: list.splits)

lemma split_on_unfold:
  "split_on d s = takeWhile (\<lambda>c. c \<noteq> d) s #
     (case dropWhile (\<lambda>c. c \<noteq> d) s of [] \<Rightarrow> [] | _ # t \<Rightarrow> split_on d t)"
proof (induction s)
  case (Cons c s)
  then show ?case by (cases "c = d") auto
qed simp

lemma rtrim_Nil_iff: "rtrim p s = [] \<longleftrightarrow> (\<forall>c\<in>set s. p c)"
  by (simp add: rtrim_def)

lemma rtrim_Nil [simp]: "rtrim p [] = []"
  by (simp add: rtrim_def)

lemma csv_fields_Nil [simp]: "csv_fields b d [] = []"
  by (simp add: csv_fields_def)

lemma csv_fields_delim [simp]: "csv_fields b d (d # p) = csv_fields b d p"
  by (simp add: csv_fields_def)

lemma csv_fields_blank: "b c \<Longrightarrow> c \<noteq> d \<Longrightarrow> csv_fields b d (c # p) = csv_fields b d p"
  by (cases "split_on d p") (simp_all add: csv_fields_def)

lemma csv_fields_skip: "csv_fields b d (dropWhile (\<lambda>c. b c \<or> c = d) p) = csv_fields b d p"
proof (induction p)
  case (Cons c p)
  then show ?case by (cases "c = d"; cases "b c") (simp_all add: csv_fields_blank)
qed simp

lemma csv_fields_none: "dropWhile (\<lambda>c. b c \<or> c = d) p = [] \<Longrightarrow> csv_fields b d p = []"
  using csv_fields_skip [of b d p] by (simp only: csv_fields_Nil)

text \<open>The field a scanner that skips blanks and separators finds next, and what it has left.\<close>

lemma csv_fields_first:
  assumes "q = dropWhile (\<lambda>c. b c \<or> c = d) p" and "q \<noteq> []"
  shows "csv_fields b d p = rtrim b (takeWhile (\<lambda>c. c \<noteq> d) q) # csv_fields b d (dropWhile (\<lambda>c. c \<noteq> d) q)"
proof -
  obtain c q' where q: "q = c # q'" using assms(2) by (cases q) simp_all
  have c: "\<not> b c" "c \<noteq> d"
    using hd_dropWhile [of "\<lambda>c. b c \<or> c = d" p] assms(2)
    unfolding assms(1) [symmetric] q by simp_all
  have rest: "csv_fields b d (dropWhile (\<lambda>c. c \<noteq> d) q) =
      (case dropWhile (\<lambda>c. c \<noteq> d) q of [] \<Rightarrow> [] | _ # t \<Rightarrow> csv_fields b d t)"
  proof -
    have "csv_fields b d r = (case r of [] \<Rightarrow> [] | _ # t \<Rightarrow> csv_fields b d t)"
      if "r \<noteq> [] \<Longrightarrow> hd r = d" for r
      using that by (cases r) simp_all
    then show ?thesis using hd_dropWhile [of "\<lambda>c. c \<noteq> d" q] by blast
  qed
  have "rtrim b (takeWhile (\<lambda>c. c \<noteq> d) q) \<noteq> []"
    using c q by (simp add: rtrim_Nil_iff)
  then have "csv_fields b d q =
      rtrim b (takeWhile (\<lambda>c. c \<noteq> d) q) # csv_fields b d (dropWhile (\<lambda>c. c \<noteq> d) q)"
    unfolding rest unfolding csv_fields_def split_on_unfold [of _ q] using c q
    by (simp split: list.split del: dropWhile_eq_Nil_conv)
  then show ?thesis using assms(1) csv_fields_skip by metis
qed

lemma ci_prefix_clash:
  assumes "ci_prefix a s" and "\<not> ci_clash b a"
  shows "\<not> ci_prefix b s"
proof
  assume b: "ci_prefix b s"
  let ?n = "min (length a) (length b)"
  have A: "take (length a) (map tolower s) = map tolower a"
    using assms(1) by (simp add: ci_prefix_def take_map)
  have B: "take (length b) (map tolower s) = map tolower b"
    using b by (simp add: ci_prefix_def take_map)
  have "map tolower (take ?n b) = take ?n (take (length b) (map tolower s))"
    unfolding B by (rule take_map [symmetric])
  then have "map tolower (take ?n b) = take ?n (map tolower s)" by (simp only: take_take min.assoc min.idem)
  moreover have "map tolower (take ?n a) = take ?n (take (length a) (map tolower s))"
    unfolding A by (rule take_map [symmetric])
  then have "map tolower (take ?n a) = take ?n (map tolower s)"
    by (simp only: take_take min.assoc min.commute [of "length b"] min.left_idem)
  moreover have "take ?n b = take (length a) b" "take ?n a = take (length b) a"
    by (cases "length a \<le> length b"; simp)+
  ultimately have "ci_clash b a" by (simp add: ci_clash_def)
  with assms(2) show False ..
qed

lemma strchr_Some: "strchr s c = Some t \<Longrightarrow> \<exists>pre u. s = pre @ c # u \<and> t = c # u \<and> c \<notin> set pre"
proof -
  assume *: "strchr s c = Some t"
  then have t: "t = dropWhile (\<lambda>x. x \<noteq> c) s" and ne: "t \<noteq> []"
    by (auto simp: strchr_def split: list.splits)
  then have hd: "hd t = c" by (metis (mono_tags, lifting) hd_dropWhile)
  have "s = takeWhile (\<lambda>x. x \<noteq> c) s @ c # tl t"
    using t ne hd by (metis list.collapse takeWhile_dropWhile_id)
  moreover have "c \<notin> set (takeWhile (\<lambda>x. x \<noteq> c) s)" by (auto dest: set_takeWhileD)
  ultimately show ?thesis using ne hd by (metis list.collapse)
qed

lemma strchr_None: "strchr s c = None \<longleftrightarrow> c \<notin> set s"
  by (induction s) (auto simp: strchr_def)

lemma hexval_hexdigit [simp]: "n < 16 \<Longrightarrow> hexval (hexdigit n) = Some n"
  by (auto simp: hexval_def hexdigit_def isdigit_def)

lemma hexval_less: "hexval c = Some v \<Longrightarrow> v < 16"
  by (auto simp: hexval_def isdigit_def split: if_splits)

lemma hexval_isxdigit: "isxdigit c \<longleftrightarrow> hexval c \<noteq> None"
  by (auto simp: hexval_def isxdigit_def)

lemma hexval_xdigit_cases: "isxdigit c \<Longrightarrow> \<exists>v. hexval c = Some v \<and> v < 16"
  using hexval_isxdigit hexval_less by blast

text \<open>Reading back a printed number.\<close>

lemma dec_value_snoc: "dec_value (ds @ [d]) = 10 * dec_value ds + (code d - 48)"
  by (simp add: dec_value_def)

lemma nat_dec_value: "dec_value (nat_dec n) = n \<and> list_all isdigit (nat_dec n) \<and> nat_dec n \<noteq> []"
proof (induction n rule: nat_dec.induct)
  case (1 n)
  show ?case
  proof (cases "n < 10")
    case True
    then show ?thesis by (simp add: nat_dec.simps [of n] dec_value_def isdigit_def)
  next
    case False
    have d: "isdigit (char_of (48 + n mod 10))" by (simp add: isdigit_def)
    have v: "code (char_of (48 + n mod 10)) - 48 = n mod 10" by simp
    from False 1 d v show ?thesis
      unfolding nat_dec.simps [of n] by (simp add: dec_value_snoc del: of_char_of)
  qed
qed

lemma takeWhile_digits: "list_all P ds \<Longrightarrow> r = [] \<or> \<not> P (hd r) \<Longrightarrow> takeWhile P (ds @ r) = ds \<and> dropWhile P (ds @ r) = r"
  by (cases r; induction ds) auto

lemma isdigit_plain: "isdigit c \<Longrightarrow> \<not> isspace c \<and> c \<noteq> CHR ''-'' \<and> c \<noteq> CHR ''+''"
  by (auto simp: isdigit_def isspace_def)

lemma strtol10_nat_dec:
  assumes "r = [] \<or> \<not> isdigit (hd r)" and "int n \<le> LONG_MAX"
  shows "strtol10 (nat_dec n @ r) = (int n, r)"
proof -
  note v = nat_dec_value [of n]
  obtain c s where c: "nat_dec n = c # s" using v by (cases "nat_dec n") auto
  then have p: "\<not> isspace c" "c \<noteq> CHR ''-''" "c \<noteq> CHR ''+''" using v isdigit_plain by auto
  have "takeWhile isdigit (nat_dec n @ r) = nat_dec n" "dropWhile isdigit (nat_dec n @ r) = r"
    using takeWhile_digits [of isdigit "nat_dec n" r] v assms(1) by simp_all
  moreover have "LONG_MIN \<le> int n" by (simp add: LONG_MIN_def)
  ultimately show ?thesis using c p v assms(2) by (simp add: strtol10_def Let_def)
qed

lemma length_nat_dec: "n < 10 ^ Suc k \<Longrightarrow> length (nat_dec n) \<le> Suc k"
proof (induction k arbitrary: n)
  case (Suc k)
  then have "n div 10 < 10 ^ Suc k" by (simp add: div_less_iff_less_mult mult.commute)
  with Suc.IH [of "n div 10"] show ?case by (simp add: nat_dec.simps [of n])
qed (simp add: nat_dec.simps)

lemma nat_dec_chars: "c \<in> set (nat_dec n) \<Longrightarrow> isdigit c"
  using nat_dec_value [of n] by (auto simp: list_all_iff)

lemma split_on_length: "e \<in> set (split_on d s) \<Longrightarrow> length e \<le> length s"
proof (induction s arbitrary: e)
  case (Cons c s)
  show ?case
  proof (cases "split_on d s")
    case (Cons f fs)
    then show ?thesis using Cons.prems Cons.IH [of e] Cons.IH [of f] by (cases "c = d") auto
  qed simp
qed simp

end
