(* ===== verification/Httpd_Types.thy ===== *)
theory Httpd_Types
  imports Prelude
begin

text \<open>
  The two structures every stage of the request pipeline passes on (\<open>src/src/httpd.h\<close>):
  \<open>HttpRequest\<close> and \<open>HttpResponse\<close>.  A fixed-size \<open>char\<close> array is the C string it holds; its
  size is a constant \<open>sz_...\<close> and \<open>request_wf\<close> says every field fits its array.  A nullable
  pointer is an \<open>option\<close>, a flag is a \<open>bool\<close>.
\<close>

definition MAX_REQUEST_SIZE :: nat where "MAX_REQUEST_SIZE = 65536"
definition MAX_RESPONSE_SIZE :: nat where "MAX_RESPONSE_SIZE = 262144"
definition MAX_PATH_SIZE :: nat where "MAX_PATH_SIZE = 1024"
definition MAX_KEEPALIVE_REQUESTS :: nat where "MAX_KEEPALIVE_REQUESTS = 100"
definition HTTP_EXTRA_HEADERS_MAX :: nat where "HTTP_EXTRA_HEADERS_MAX = 4096"
definition HTTP_EXTRA_RESP_HEADERS_MAX :: nat where "HTTP_EXTRA_RESP_HEADERS_MAX = 1024"
definition HTTP_PATH_PARAMS_MAX :: nat where "HTTP_PATH_PARAMS_MAX = 8"

record HttpRequest =
  rq_method :: string
  rq_path :: string
  rq_protocol :: string
  rq_host :: string
  rq_user_agent :: string
  rq_referer :: string
  rq_origin :: string
  rq_sec_fetch_site :: string
  rq_accept :: string
  rq_accept_encoding :: string
  rq_connection :: string
  rq_content_type :: string
  rq_authorization :: string
  rq_cookie :: string
  rq_if_none_match :: string
  rq_if_modified_since :: string
  rq_expect :: string
  rq_range :: string
  rq_remote_addr :: string
  rq_x_forwarded_for :: string
  rq_content_length :: int
  rq_chunked :: bool
  rq_te_unsupported :: bool
  rq_body_too_large :: bool
  rq_body :: "string option"
  rq_body_temp_path :: "string option"
  rq_extra_headers :: string
  rq_path_params :: "(string \<times> string) list"

text \<open>\<open>memset(&request, 0, sizeof request)\<close>.\<close>

definition zero_request :: HttpRequest where
  "zero_request =
     \<lparr> rq_method = [], rq_path = [], rq_protocol = [], rq_host = [], rq_user_agent = [],
       rq_referer = [], rq_origin = [], rq_sec_fetch_site = [], rq_accept = [],
       rq_accept_encoding = [], rq_connection = [], rq_content_type = [],
       rq_authorization = [], rq_cookie = [], rq_if_none_match = [],
       rq_if_modified_since = [], rq_expect = [], rq_range = [], rq_remote_addr = [],
       rq_x_forwarded_for = [], rq_content_length = 0, rq_chunked = False,
       rq_te_unsupported = False, rq_body_too_large = False, rq_body = None,
       rq_body_temp_path = None, rq_extra_headers = [], rq_path_params = [] \<rparr>"

text \<open>Every array field holds a terminated string shorter than the array.\<close>

definition request_wf :: "HttpRequest \<Rightarrow> bool" where
  "request_wf r \<longleftrightarrow>
     fits 16 (rq_method r) \<and> fits MAX_PATH_SIZE (rq_path r) \<and> fits 16 (rq_protocol r) \<and>
     fits 256 (rq_host r) \<and> fits 512 (rq_user_agent r) \<and> fits 512 (rq_referer r) \<and>
     fits 256 (rq_origin r) \<and> fits 16 (rq_sec_fetch_site r) \<and> fits 512 (rq_accept r) \<and>
     fits 256 (rq_accept_encoding r) \<and> fits 32 (rq_connection r) \<and>
     fits 128 (rq_content_type r) \<and> fits 512 (rq_authorization r) \<and>
     fits 1024 (rq_cookie r) \<and> fits 256 (rq_if_none_match r) \<and>
     fits 64 (rq_if_modified_since r) \<and> fits 32 (rq_expect r) \<and> fits 64 (rq_range r) \<and>
     fits 64 (rq_remote_addr r) \<and> fits 256 (rq_x_forwarded_for r) \<and>
     fits HTTP_EXTRA_HEADERS_MAX (rq_extra_headers r)"

text \<open>
  The response.  \<open>stream_fn\<close>/\<open>stream_data\<close> (a hook the embedding layer installs) are kept as
  whether a hook is present.
\<close>

record HttpResponse =
  rs_status_code :: int
  rs_status_text :: string
  rs_content_type :: string
  rs_content_encoding :: string
  rs_location :: string
  rs_retry_after :: int
  rs_body :: "string option"
  rs_body_length :: int
  rs_stream_path :: "string option"
  rs_stream_is_temp :: bool
  rs_stream_offset :: int
  rs_auth_realm :: "string option"
  rs_auth_login_hint :: string
  rs_set_cookie :: string
  rs_etag :: string
  rs_last_modified :: string
  rs_cache_control :: string
  rs_content_range :: string
  rs_allow :: string
  rs_extra_headers :: string
  rs_handled :: bool
  rs_stream_fn :: bool

definition zero_response :: HttpResponse where
  "zero_response =
     \<lparr> rs_status_code = 0, rs_status_text = [], rs_content_type = [],
       rs_content_encoding = [], rs_location = [], rs_retry_after = 0, rs_body = None,
       rs_body_length = 0, rs_stream_path = None, rs_stream_is_temp = False,
       rs_stream_offset = 0, rs_auth_realm = None, rs_auth_login_hint = [],
       rs_set_cookie = [], rs_etag = [], rs_last_modified = [], rs_cache_control = [],
       rs_content_range = [], rs_allow = [], rs_extra_headers = [], rs_handled = False,
       rs_stream_fn = False \<rparr>"

lemma zero_request_wf [simp]: "request_wf zero_request"
  by (simp add: request_wf_def zero_request_def MAX_PATH_SIZE_def HTTP_EXTRA_HEADERS_MAX_def)

end
