(* ===== verification/Util.thy ===== *)
theory Util
  imports Httpd_Types
begin

text \<open>
  \<open>src/src/core/util.c\<close>: the environment getter, the bounded string setters, the URL and HTML
  helpers, the dot-file guard, and the Host allowlist and same-origin predicates of the request
  pipeline.  Reads outside an allocation are results of their own (\<open>None\<close>,
  \<open>Overrun\<close>), so that a theorem can say when they occur.
\<close>

section \<open>Definitions\<close>

text \<open>\<open>env_int\<close>: the variable's value as an argument, \<open>None\<close> when it is unset.\<close>

definition env_int :: "string option \<Rightarrow> int \<Rightarrow> int" where
  "env_int v dflt =
     (case v of None \<Rightarrow> dflt
      | Some s \<Rightarrow>
          if s = [] then dflt
          else let (r, end') = strtol10 s
               in if end' = s \<or> r < 0 \<or> r > 86400 then dflt else r)"

definition utf8_width :: "nat \<Rightarrow> nat" where
  "utf8_width b =
     (if b \<ge> 0xF0 then 4 else if b \<ge> 0xE0 then 3 else if b \<ge> 0xC2 then 2 else 1)"

text \<open>
  The scan over the allocation \<open>mem\<close> that holds the string and its NUL; \<open>None\<close> is a read past
  the end of the allocation.
\<close>

function utf8_prefix_loop :: "string \<Rightarrow> nat \<Rightarrow> nat \<Rightarrow> nat \<Rightarrow> nat option" where
  "utf8_prefix_loop mem mx pos end' =
     (if pos < mx then
        if pos < length mem then
          if mem ! pos = NUL then Some end'
          else if pos + utf8_width (code (mem ! pos)) > mx then Some end'
          else utf8_prefix_loop mem mx (pos + utf8_width (code (mem ! pos)))
                 (pos + utf8_width (code (mem ! pos)))
        else None
      else Some end')"
  by pat_completeness auto
termination
  by (relation "measure (\<lambda>(mem, mx, pos, e). mx - pos)") (auto simp: utf8_width_def)

declare utf8_prefix_loop.simps [simp del]

definition utf8_valid_prefix :: "string option \<Rightarrow> nat \<Rightarrow> nat option" where
  "utf8_valid_prefix s mx =
     (case s of None \<Rightarrow> Some 0 | Some mem \<Rightarrow> utf8_prefix_loop mem mx 0 0)"

text \<open>\<open>set_str_utf8\<close>: the bytes stored before the NUL; a zero-sized destination is not written.\<close>

definition set_str_utf8 :: "nat \<Rightarrow> string option \<Rightarrow> string option" where
  "set_str_utf8 dst_size src =
     (if dst_size = 0 then Some []
      else case utf8_valid_prefix src (dst_size - 1) of
             None \<Rightarrow> None
           | Some n \<Rightarrow> Some (case src of None \<Rightarrow> [] | Some mem \<Rightarrow> take n mem))"

definition trim_whitespace :: "string \<Rightarrow> string" where
  "trim_whitespace s = rtrim isspace (ltrim isspace s)"

definition get_content_type :: "string \<Rightarrow> string" where
  "get_content_type path =
     (case strrchr path (CHR ''.'') of
        None \<Rightarrow> ''application/octet-stream''
      | Some ext \<Rightarrow>
          if ext = ''.html'' \<or> ext = ''.htm'' then ''text/html''
          else if ext = ''.css'' then ''text/css''
          else if ext = ''.js'' then ''application/javascript''
          else if ext = ''.json'' then ''application/json''
          else if ext = ''.png'' then ''image/png''
          else if ext = ''.jpg'' \<or> ext = ''.jpeg'' then ''image/jpeg''
          else if ext = ''.gif'' then ''image/gif''
          else if ext = ''.webp'' then ''image/webp''
          else if ext = ''.ico'' then ''image/x-icon''
          else if ext = ''.svg'' then ''image/svg+xml''
          else if ext = ''.txt'' \<or> ext = ''.text'' then ''text/plain''
          else if ext = ''.xml'' then ''application/xml''
          else if ext = ''.pdf'' then ''application/pdf''
          else if ext = ''.cgi'' then ''application/x-executable''
          else if ext = ''.webmanifest'' then ''application/manifest+json''
          else if ext = ''.wasm'' then ''application/wasm''
          else if ext = ''.woff'' then ''font/woff''
          else if ext = ''.woff2'' then ''font/woff2''
          else if ext = ''.mjs'' then ''application/javascript''
          else ''application/octet-stream'')"

text \<open>
  \<open>sscanf(s, "%2x", &hex)\<close> into a zero-initialised \<open>hex\<close>, cut to a byte: white space is skipped
  and not counted, a sign and a \<open>0x\<close> prefix are part of the field of two, and \<open>hex\<close> stays 0 on
  a matching failure.
\<close>

definition sscanf_2x :: "string \<Rightarrow> nat" where
  "sscanf_2x s =
     (case dropWhile isspace s of
        [] \<Rightarrow> 0
      | c # t \<Rightarrow>
          let d2 = (case t of [] \<Rightarrow> None | d # _ \<Rightarrow> hexval d)
          in if c = CHR ''+'' then (case d2 of None \<Rightarrow> 0 | Some v \<Rightarrow> v)
             else if c = CHR ''-'' then (case d2 of None \<Rightarrow> 0 | Some v \<Rightarrow> (256 - v) mod 256)
             else (case hexval c of
                     None \<Rightarrow> 0
                   | Some v1 \<Rightarrow> (case d2 of None \<Rightarrow> v1 | Some v2 \<Rightarrow> 16 * v1 + v2)))"

fun url_decode :: "string \<Rightarrow> string" where
  "url_decode [] = []"
| "url_decode (c # s) =
     (if c = CHR ''%'' \<and> 2 \<le> length s then char_of (sscanf_2x s) # url_decode (drop 2 s)
      else if c = CHR ''+'' then CHR '' '' # url_decode s
      else c # url_decode s)"

definition html_entity :: "char \<Rightarrow> string option" where
  "html_entity c =
     (if c = CHR ''&'' then Some ''&amp;''
      else if c = CHR ''<'' then Some ''&lt;''
      else if c = CHR ''>'' then Some ''&gt;''
      else if c = DQUOTE then Some ''&quot;''
      else None)"

text \<open>
  \<open>html_escape\<close> into a buffer of \<open>dst_size\<close> bytes.  \<open>p\<close> is the write cursor, \<open>out\<close> what the
  buffer holds below \<open>min p lim\<close>.  \<open>snprintf\<close> stores what fits before \<open>lim\<close> and returns the
  length it wanted, so the cursor can pass \<open>lim\<close>; the last store \<open>*p = 0\<close> is then outside the
  buffer.
\<close>

fun html_escape_loop :: "string \<Rightarrow> nat \<Rightarrow> nat \<Rightarrow> string \<Rightarrow> nat \<times> string" where
  "html_escape_loop [] lim p out = (p, out)"
| "html_escape_loop (c # s) lim p out =
     (if p < lim then
        case html_entity c of
          Some e \<Rightarrow> html_escape_loop s lim (p + length e) (out @ take (lim - p) e)
        | None \<Rightarrow> html_escape_loop s lim (Suc p) (out @ [c])
      else (p, out))"

datatype escape_result = Escaped string | Overrun nat

definition html_escape :: "string \<Rightarrow> nat \<Rightarrow> escape_result" where
  "html_escape src dst_size =
     (let (p, out) = html_escape_loop src (dst_size - 1) 0 []
      in if p < dst_size then Escaped out else Overrun p)"

definition set_str :: "nat \<Rightarrow> string \<Rightarrow> string" where
  "set_str dst_size src = (if length src \<ge> dst_size then take (dst_size - 1) src else src)"

function path_has_dot_component :: "string \<Rightarrow> bool" where
  "path_has_dot_component p =
     (if p = [] then False
      else let seg = takeWhile (\<lambda>c. c \<noteq> CHR ''/'') p;
               rest = dropWhile (\<lambda>c. c \<noteq> CHR ''/'') p
           in if seg \<noteq> [] \<and> hd seg = CHR ''.'' then True
              else path_has_dot_component (if rest \<noteq> [] then tl rest else rest))"
  by pat_completeness auto
termination
proof (relation "measure length", simp, goal_cases)
  case (1 p seg rest)
  have "length rest \<le> length p" using 1 by (simp add: length_dropWhile_le)
  moreover have "rest = [] \<Longrightarrow> 0 < length p" using 1 by simp
  ultimately show ?case by (cases rest) auto
qed

declare path_has_dot_component.simps [simp del]

definition lower_ascii :: "char \<Rightarrow> char" where
  "lower_ascii c =
     (if 65 \<le> code c \<and> code c \<le> 90 then char_of (code c - 65 + 97) else c)"

text \<open>The hostname of a \<open>Host:\<close> value and its port text; \<open>None\<close> is the error return \<open>-1\<close>.\<close>

definition split_host :: "string \<Rightarrow> nat \<Rightarrow> (string \<times> string option) option" where
  "split_host s outsz =
     (let parts =
        (if s \<noteq> [] \<and> hd s = CHR ''['' then
           case strchr s (CHR '']'') of
             None \<Rightarrow> None
           | Some br \<Rightarrow>
               Some (takeWhile (\<lambda>c. c \<noteq> CHR '']'') (tl s),
                     (if tl br \<noteq> [] \<and> hd (tl br) = CHR '':'' then Some (tl (tl br)) else None))
         else
           case strchr s (CHR '':'') of
             Some colon \<Rightarrow>
               (if strchr (tl colon) (CHR '':'') = None
                then Some (takeWhile (\<lambda>c. c \<noteq> CHR '':'') s, Some (tl colon))
                else Some (s, None))
           | None \<Rightarrow> Some (s, None))
      in case parts of
           None \<Rightarrow> None
         | Some (h, port) \<Rightarrow>
             let n = (if length h \<ge> outsz then outsz - 1 else length h)
             in Some (rtrim (\<lambda>c. c = CHR ''.'') (map lower_ascii (take n h)), port))"

definition host_blank :: "char \<Rightarrow> bool" where
  "host_blank c \<longleftrightarrow> c = CHR '' '' \<or> c = TAB"

text \<open>One allowlist entry against the request's host and port.\<close>

definition host_entry_matches :: "string \<Rightarrow> string option \<Rightarrow> string \<Rightarrow> bool" where
  "host_entry_matches hname hport ebuf =
     (case split_host ebuf 256 of
        None \<Rightarrow> False
      | Some (ename, eport) \<Rightarrow>
          hname = ename \<and>
          (case eport of None \<Rightarrow> True | Some ep \<Rightarrow> hport = Some ep))"

function host_list_loop :: "string \<Rightarrow> string option \<Rightarrow> string \<Rightarrow> bool" where
  "host_list_loop hname hport p =
     (let q = dropWhile (\<lambda>c. host_blank c \<or> c = CHR '','') p
      in if q = [] then False
         else let entry = rtrim host_blank (takeWhile (\<lambda>c. c \<noteq> CHR '','') q);
                  rest = dropWhile (\<lambda>c. c \<noteq> CHR '','') q
              in if host_entry_matches hname hport (take 255 entry) then True
                 else host_list_loop hname hport rest)"
  by pat_completeness auto
termination
  by (relation "measure (\<lambda>(h, hp, p). length p)") (auto intro!: dropWhile_shorter)

declare host_list_loop.simps [simp del]

definition host_is_allowed :: "string \<Rightarrow> string \<Rightarrow> bool" where
  "host_is_allowed g_allowed_hosts host =
     (if g_allowed_hosts = [] then True
      else if host = [] then False
      else case split_host host 256 of
             None \<Rightarrow> False
           | Some (hname, hport) \<Rightarrow> host_list_loop hname hport g_allowed_hosts)"

definition request_is_same_origin :: "HttpRequest \<Rightarrow> bool" where
  "request_is_same_origin req =
     (if rq_sec_fetch_site req \<noteq> [] then
        rq_sec_fetch_site req = ''same-origin'' \<or> rq_sec_fetch_site req = ''none''
      else if rq_origin req \<noteq> [] then
        let oh = (case strstr (rq_origin req) ''://'' of
                    Some t \<Rightarrow> drop 3 t | None \<Rightarrow> rq_origin req)
        in case split_host oh 256 of
             None \<Rightarrow> False
           | Some (ohost, oport) \<Rightarrow>
               (case split_host (rq_host req) 256 of
                  None \<Rightarrow> False
                | Some (hhost, hport) \<Rightarrow>
                    if ohost \<noteq> hhost then False
                    else (case oport of
                            Some op \<Rightarrow> hport = Some op
                          | None \<Rightarrow>
                              (case hport of
                                 None \<Rightarrow> True
                               | Some hp \<Rightarrow> hp = ''80'' \<or> hp = ''443'')))
      else True)"

section \<open>Percent-decoding\<close>

lemma isspace_hexdigit: "n < 16 \<Longrightarrow> \<not> isspace (hexdigit n)"
  by (auto simp: isspace_def hexdigit_def)

lemma hexdigit_not_sign: "n < 16 \<Longrightarrow> hexdigit n \<noteq> CHR ''+'' \<and> hexdigit n \<noteq> CHR ''-''"
  using hexval_hexdigit [of n] by (auto simp: hexval_def isdigit_def split: if_splits)

lemma sscanf_2x_hexdigits:
  "h < 16 \<Longrightarrow> l < 16 \<Longrightarrow> sscanf_2x (hexdigit h # hexdigit l # s) = 16 * h + l"
  by (simp add: sscanf_2x_def isspace_hexdigit hexdigit_not_sign)

lemma length_url_decode: "length (url_decode s) \<le> length s"
  by (induction s rule: url_decode.induct) auto

lemma url_decode_plain: "CHR ''%'' \<notin> set s \<Longrightarrow> CHR ''+'' \<notin> set s \<Longrightarrow> url_decode s = s"
  by (induction s) auto

text \<open>A reference encoder: characters in \<open>keep\<close> stay, every other one becomes \<open>%xx\<close>.\<close>

definition pct_encode :: "(char \<Rightarrow> bool) \<Rightarrow> string \<Rightarrow> string" where
  "pct_encode keep s =
     concat (map (\<lambda>c. if keep c then [c]
                      else [CHR ''%'', hexdigit (code c div 16), hexdigit (code c mod 16)]) s)"

lemma url_decode_pct_encode_keep:
  assumes "\<And>c. keep c \<Longrightarrow> c \<noteq> CHR ''%'' \<and> c \<noteq> CHR ''+''"
  shows "url_decode (pct_encode keep s) = s"
proof (induction s)
  case (Cons c s)
  have div16: "code c div 16 < 16" by (simp add: less_mult_imp_div_less)
  show ?case
  proof (cases "keep c")
    case True
    with assms [OF True] Cons show ?thesis by (simp add: pct_encode_def)
  next
    case False
    then show ?thesis using Cons div16
      by (simp add: pct_encode_def sscanf_2x_hexdigits)
  qed
qed (simp add: pct_encode_def)

section \<open>The dot-file guard\<close>

lemma path_has_dot_component_iff:
  "path_has_dot_component p \<longleftrightarrow>
   (\<exists>seg \<in> set (split_on (CHR ''/'') p). seg \<noteq> [] \<and> hd seg = CHR ''.'')"
proof (induction p rule: path_has_dot_component.induct)
  case (1 p)
  let ?seg = "takeWhile (\<lambda>c. c \<noteq> CHR ''/'') p" and ?rest = "dropWhile (\<lambda>c. c \<noteq> CHR ''/'') p"
  show ?case
  proof (cases "p = [] \<or> (?seg \<noteq> [] \<and> hd ?seg = CHR ''.'')")
    case True
    then show ?thesis
      unfolding path_has_dot_component.simps [of p] Let_def split_on_unfold [of _ p] by auto
  next
    case False
    then have IH: "path_has_dot_component (if ?rest \<noteq> [] then tl ?rest else ?rest) \<longleftrightarrow>
        (\<exists>seg \<in> set (split_on (CHR ''/'') (if ?rest \<noteq> [] then tl ?rest else ?rest)).
           seg \<noteq> [] \<and> hd seg = CHR ''.'')"
      by (intro "1" [OF _ refl refl]) (use False in \<open>simp_all only: de_Morgan_disj simp_thms\<close>)
    from False have "path_has_dot_component p \<longleftrightarrow>
        path_has_dot_component (if ?rest \<noteq> [] then tl ?rest else ?rest)"
      unfolding path_has_dot_component.simps [of p] Let_def
      by (simp only: if_False de_Morgan_disj simp_thms split: if_split)
    with IH have eq: "path_has_dot_component p \<longleftrightarrow>
        (\<exists>seg \<in> set (split_on (CHR ''/'') (if ?rest \<noteq> [] then tl ?rest else ?rest)).
           seg \<noteq> [] \<and> hd seg = CHR ''.'')"
      by simp
    show ?thesis
      unfolding eq split_on_unfold [of _ p] using False
      by (cases ?rest) (simp_all only: list.case list.sel list.set bex_simps simp_thms if_True if_False not_False_eq_True split_on.simps list.distinct de_Morgan_disj)
  qed
qed

section \<open>HTML escaping\<close>

definition html_escaped :: "string \<Rightarrow> string" where
  "html_escaped s = concat (map (\<lambda>c. case html_entity c of Some e \<Rightarrow> e | None \<Rightarrow> [c]) s)"

lemma html_escaped_simps [simp]:
  "html_escaped [] = []"
  "html_escaped (c # s) = (case html_entity c of Some e \<Rightarrow> e | None \<Rightarrow> [c]) @ html_escaped s"
  by (simp_all add: html_escaped_def)

lemma html_escape_loop_fits:
  "p + length (html_escaped s) \<le> lim \<Longrightarrow> length out = p \<Longrightarrow>
   html_escape_loop s lim p out = (p + length (html_escaped s), out @ html_escaped s)"
proof (induction s arbitrary: p out)
  case (Cons c s)
  have ne: "html_entity c = Some e \<Longrightarrow> 0 < length e" for e
    by (auto simp: html_entity_def split: if_splits)
  show ?case
  proof (cases "html_entity c")
    case None
    with Cons show ?thesis by simp
  next
    case (Some e)
    with Cons.prems ne [OF Some] have "p < lim" and "take (lim - p) e = e"
      by (simp_all del: length_greater_0_conv)
    with Some Cons show ?thesis by simp
  qed
qed simp

lemma html_escape_loop_bound:
  "html_escape_loop s lim p out = (p', out') \<Longrightarrow> p \<le> lim + 5 \<Longrightarrow> length out = min p lim \<Longrightarrow>
   p' \<le> lim + 5 \<and> length out' = min p' lim \<and>
   (\<exists>rest. out @ (if p \<le> lim then html_escaped s else []) = out' @ rest)"
proof (induction s arbitrary: p out)
  case (Cons c s)
  show ?case
  proof (cases "p < lim")
    case False
    with Cons.prems show ?thesis by auto
  next
    case True
    have len: "html_entity c = Some e \<Longrightarrow> length e \<le> 6" for e
      by (auto simp: html_entity_def split: if_splits)
    show ?thesis
    proof (cases "html_entity c")
      case None
      then show ?thesis using True Cons.prems Cons.IH [of "Suc p" "out @ [c]"] by auto
    next
      case (Some e)
      have "p + length e \<le> lim + 5" using True len [OF Some] by simp
      moreover have "length (out @ take (lim - p) e) = min (p + length e) lim"
        using True Cons.prems(3) by simp
      ultimately have IH: "p' \<le> lim + 5 \<and> length out' = min p' lim \<and>
          (\<exists>rest. (out @ take (lim - p) e) @
             (if p + length e \<le> lim then html_escaped s else []) = out' @ rest)"
        using True Some Cons.prems(1) by (intro Cons.IH) simp_all
      show ?thesis
      proof (cases "p + length e \<le> lim")
        case True
        with IH Some Cons.prems \<open>p < lim\<close> show ?thesis by auto
      next
        case False
        then obtain rest where "out @ take (lim - p) e = out' @ rest" using IH by auto
        then have "out @ e @ html_escaped s = out' @ (rest @ drop (lim - p) e @ html_escaped s)"
          by (metis append.assoc append_take_drop_id)
        then have "\<exists>r. out @ e @ html_escaped s = out' @ r" by (rule exI)
        with IH Some \<open>p < lim\<close> show ?thesis by simp
      qed
    qed
  qed
qed auto

lemma html_escaped_clean:
  "c \<in> set (html_escaped s) \<Longrightarrow> c \<noteq> CHR ''<'' \<and> c \<noteq> CHR ''>'' \<and> c \<noteq> DQUOTE"
  by (induction s) (auto simp: html_entity_def split: if_splits)

section \<open>UTF-8 prefixes\<close>

abbreviation utf8_cont :: "char \<Rightarrow> bool" where
  "utf8_cont c \<equiv> 0x80 \<le> code c \<and> code c < 0xC0"

text \<open>
  Well-formed UTF-8, without the NUL character: whole sequences, each lead byte followed by the
  continuation bytes it announces.
\<close>

inductive utf8_wf :: "string \<Rightarrow> bool" where
  wf_Nil: "utf8_wf []"
| wf_1: "0 < code a \<Longrightarrow> code a < 0x80 \<Longrightarrow> utf8_wf s \<Longrightarrow> utf8_wf (a # s)"
| wf_2: "0xC2 \<le> code a \<Longrightarrow> code a < 0xE0 \<Longrightarrow> utf8_cont b \<Longrightarrow> utf8_wf s \<Longrightarrow> utf8_wf (a # b # s)"
| wf_3: "0xE0 \<le> code a \<Longrightarrow> code a < 0xF0 \<Longrightarrow> utf8_cont b \<Longrightarrow> utf8_cont c \<Longrightarrow> utf8_wf s \<Longrightarrow>
     utf8_wf (a # b # c # s)"
| wf_4: "0xF0 \<le> code a \<Longrightarrow> code a < 0xF5 \<Longrightarrow> utf8_cont b \<Longrightarrow> utf8_cont c \<Longrightarrow> utf8_cont d \<Longrightarrow>
     utf8_wf s \<Longrightarrow> utf8_wf (a # b # c # d # s)"

inductive_cases utf8_wf_ConsE: "utf8_wf (a # s)"

lemma utf8_wf_seq:
  assumes "utf8_wf (a # s)"
  shows "utf8_width (code a) \<le> length (a # s) \<and> utf8_wf (drop (utf8_width (code a)) (a # s)) \<and>
    (\<forall>u. utf8_wf u \<longrightarrow> utf8_wf (take (utf8_width (code a)) (a # s) @ u))"
  using assms
  by (cases rule: utf8_wf_ConsE)
    (auto simp: utf8_width_def not_le intro: wf_1 wf_2 wf_3 wf_4)

lemma utf8_wf_no_NUL: "utf8_wf s \<Longrightarrow> NUL \<notin> set s"
  by (induction rule: utf8_wf.induct) auto

lemma utf8_wf_take_short:
  "utf8_wf (take m (a # s)) \<Longrightarrow> 0 < m \<Longrightarrow>
   utf8_width (code a) \<le> m \<and> utf8_wf (take (m - utf8_width (code a)) (drop (utf8_width (code a)) (a # s)))"
  using utf8_wf_seq [of a "take (m - 1) s"] 
  by (cases m) (auto simp: drop_take simp flip: take_Suc_Cons)

text \<open>The number of bytes of the whole sequences of \<open>s\<close> that fit in \<open>k\<close> bytes.\<close>

lemma utf8_prefix_loop_wf:
  assumes "utf8_wf s"
  shows "\<exists>n. utf8_prefix_loop (pre @ s @ [NUL]) (length pre + k) (length pre) (length pre)
             = Some (length pre + n) \<and> n \<le> k \<and> n \<le> length s \<and> utf8_wf (take n s) \<and>
           (\<forall>m. utf8_wf (take m s) \<and> m \<le> k \<and> m \<le> length s \<longrightarrow> m \<le> n)"
  using assms
proof (induction "length s" arbitrary: pre s k rule: less_induct)
  case less
  show ?case
  proof (cases s)
    case Nil
    then show ?thesis
      by (subst utf8_prefix_loop.simps) (auto simp: nth_append wf_Nil)
  next
    case (Cons a s')
    define seq where "seq = take (utf8_width (code a)) s"
    define t where "t = drop (utf8_width (code a)) s"
    have st: "s = seq @ t" "length seq = utf8_width (code a)" "utf8_wf t"
      "\<And>u. utf8_wf u \<Longrightarrow> utf8_wf (seq @ u)"
      using utf8_wf_seq [of a s'] less.prems Cons by (simp_all add: seq_def t_def)
    have a: "a \<noteq> NUL" using utf8_wf_no_NUL [OF less.prems] Cons by auto
    have w: "0 < utf8_width (code a)" by (simp add: utf8_width_def)
    show ?thesis
    proof (cases "utf8_width (code a) \<le> k")
      case False
      then have "utf8_prefix_loop (pre @ s @ [NUL]) (length pre + k) (length pre) (length pre)
          = Some (length pre)"
        using Cons a by (subst utf8_prefix_loop.simps) (simp add: nth_append)
      moreover have "m = 0" if "utf8_wf (take m s)" "m \<le> k" for m
        using utf8_wf_take_short [of m a s'] that False Cons by (cases m) auto
      ultimately show ?thesis by (intro exI [of _ 0]) (auto simp: wf_Nil)
    next
      case True
      let ?w = "utf8_width (code a)"
      have "length t < length s" using st w by simp
      from less.hyps [OF this st(3), of "pre @ seq" "k - ?w"] obtain n where
        n: "utf8_prefix_loop (pre @ s @ [NUL]) (length pre + k) (length pre + ?w) (length pre + ?w)
              = Some (length pre + ?w + n)" "n \<le> k - ?w" "n \<le> length t" "utf8_wf (take n t)"
           "\<forall>m. utf8_wf (take m t) \<and> m \<le> k - ?w \<and> m \<le> length t \<longrightarrow> m \<le> n"
        using True st by (auto simp: add.assoc)
      have loop: "utf8_prefix_loop (pre @ s @ [NUL]) (length pre + k) (length pre) (length pre)
          = Some (length pre + (?w + n))"
        using n(1) Cons a True w
        by (subst utf8_prefix_loop.simps) (simp add: nth_append add.assoc)
      have wf: "utf8_wf (take (?w + n) s)" using st n(4) by simp
      have "m \<le> ?w + n" if m: "utf8_wf (take m s)" "m \<le> k" "m \<le> length s" for m
      proof (cases "m = 0")
        case False
        have wm: "?w \<le> m" and "utf8_wf (take (m - ?w) t)"
          using utf8_wf_take_short [of m a s'] m(1) Cons False by (simp_all add: t_def)
        then have "m - ?w \<le> n" using n(5) m wm st by auto
        then show ?thesis using wm by simp
      qed simp
      then show ?thesis using loop wf n True st
        by (intro exI [of _ "?w + n"]) auto
    qed
  qed
qed

section \<open>The Host allowlist\<close>

lemma host_list_loop_iff:
  "host_list_loop hname hport p \<longleftrightarrow>
   (\<exists>e \<in> set (csv_fields host_blank (CHR '','') p). host_entry_matches hname hport (take 255 e))"
proof (induction hname hport p rule: host_list_loop.induct)
  case (1 hname hport p)
  let ?q = "dropWhile (\<lambda>c. host_blank c \<or> c = CHR '','') p"
  show ?case
  proof (cases "?q = []")
    case True
    then have "csv_fields host_blank (CHR '','') p = []" by (rule csv_fields_none)
    with True show ?thesis by (subst host_list_loop.simps) simp
  next
    case False
    let ?e = "rtrim host_blank (takeWhile (\<lambda>c. c \<noteq> CHR '','') ?q)"
    have IH: "\<not> host_entry_matches hname hport (take 255 ?e) \<Longrightarrow>
        host_list_loop hname hport (dropWhile (\<lambda>c. c \<noteq> CHR '','') ?q) \<longleftrightarrow>
        (\<exists>e \<in> set (csv_fields host_blank (CHR '','') (dropWhile (\<lambda>c. c \<noteq> CHR '','') ?q)).
           host_entry_matches hname hport (take 255 e))"
      by (rule "1" [OF refl False refl refl])
    have unf: "host_list_loop hname hport p \<longleftrightarrow>
        host_entry_matches hname hport (take 255 ?e) \<or>
        host_list_loop hname hport (dropWhile (\<lambda>c. c \<noteq> CHR '','') ?q)"
      using False by (subst host_list_loop.simps) (simp only: Let_def if_False simp_thms split: if_split, blast)
    show ?thesis
      unfolding unf csv_fields_first [OF refl False] using IH by (simp only: list.set bex_simps) blast
  qed
qed

section \<open>The bounded setters\<close>

text \<open>
  What the rest of the program relies on when it stores a string in a fixed array: the stored
  string fits, it is a prefix of the source, and a source that fits is stored whole.
\<close>

locale bounded_setter =
  fixes store :: "nat \<Rightarrow> string \<Rightarrow> string"
    and valid :: "string \<Rightarrow> bool"
  assumes store_fits: "valid s \<Longrightarrow> 0 < n \<Longrightarrow> fits n (store n s)"
    and store_prefix: "valid s \<Longrightarrow> 0 < n \<Longrightarrow> \<exists>rest. s = store n s @ rest"
    and store_exact: "valid s \<Longrightarrow> length s < n \<Longrightarrow> store n s = s"
    and store_valid: "valid s \<Longrightarrow> 0 < n \<Longrightarrow> valid (store n s)"
begin

lemma store_idem:
  assumes "valid s" and "0 < n"
  shows "store n (store n s) = store n s"
proof -
  have "length (store n s) < n" using store_fits [OF assms] by (simp add: fits_def)
  then show ?thesis using store_valid [OF assms] by (intro store_exact)
qed

lemma store_whole_iff:
  assumes "valid s" and "0 < n"
  shows "store n s = s \<longleftrightarrow> length s < n"
  using store_fits [OF assms] store_exact [OF assms(1)] by (auto simp: fits_def)

lemma store_length_le: "valid s \<Longrightarrow> 0 < n \<Longrightarrow> length (store n s) \<le> length s"
  using store_prefix by (metis length_append le_add1)

end

lemma set_str_fits [fits_intros]: "NUL \<notin> set s \<Longrightarrow> 0 < n \<Longrightarrow> fits n (set_str n s)"
  by (auto simp: set_str_def fits_def dest: in_set_takeD)

interpretation plain: bounded_setter set_str "\<lambda>s. NUL \<notin> set s"
proof
  show "\<exists>rest. s = set_str n s @ rest" for s n
    by (cases "length s < n") (auto simp: set_str_def intro!: exI [of _ "drop (n - 1) s"])
qed (auto simp: set_str_def fits_def dest: in_set_takeD)

text \<open>
  The UTF-8 setter meets the same contract on well-formed UTF-8, and what it stores is
  well-formed again; \<open>the\<close> is justified by the first lemma.
\<close>

lemma set_str_utf8_wf:
  assumes "utf8_wf s" and "0 < n"
  shows "\<exists>k. set_str_utf8 n (Some (s @ [NUL])) = Some (take k s) \<and> k < n \<and> k \<le> length s \<and>
     utf8_wf (take k s) \<and> (\<forall>m. utf8_wf (take m s) \<and> m < n \<and> m \<le> length s \<longrightarrow> m \<le> k)"
proof -
  from utf8_prefix_loop_wf [OF assms(1), of "[]" "n - 1"] obtain k where
    k: "utf8_prefix_loop (s @ [NUL]) (n - 1) 0 0 = Some k" "k \<le> n - 1" "k \<le> length s"
       "utf8_wf (take k s)" "\<forall>m. utf8_wf (take m s) \<and> m \<le> n - 1 \<and> m \<le> length s \<longrightarrow> m \<le> k"
    by auto
  have "set_str_utf8 n (Some (s @ [NUL])) = Some (take k s)"
    using k assms(2) by (simp add: set_str_utf8_def utf8_valid_prefix_def)
  moreover have "m \<le> k" if "utf8_wf (take m s)" "m < n" "m \<le> length s" for m
    using k(5) that by auto
  ultimately show ?thesis using k assms(2) by (intro exI [of _ k]) auto
qed

interpretation utf8: bounded_setter
  "\<lambda>n s. the (set_str_utf8 n (Some (s @ [NUL])))" utf8_wf
proof
  fix s :: string and n :: nat
  assume s: "utf8_wf s"
  {
    assume n: "0 < n"
    from set_str_utf8_wf [OF s n] obtain k where
      k: "set_str_utf8 n (Some (s @ [NUL])) = Some (take k s)" "k < n" "k \<le> length s"
        "utf8_wf (take k s)" by blast
    show "fits n (the (set_str_utf8 n (Some (s @ [NUL]))))"
      using k utf8_wf_no_NUL [OF k(4)] by (simp add: fits_def)
    show "\<exists>rest. s = the (set_str_utf8 n (Some (s @ [NUL]))) @ rest"
      using k by (intro exI [of _ "drop k s"]) simp
    show "utf8_wf (the (set_str_utf8 n (Some (s @ [NUL]))))" using k by simp
  }
  assume "length s < n"
  then have n: "0 < n" by simp
  from set_str_utf8_wf [OF s n] obtain k where
    k: "set_str_utf8 n (Some (s @ [NUL])) = Some (take k s)" "k \<le> length s"
       "\<forall>m. utf8_wf (take m s) \<and> m < n \<and> m \<le> length s \<longrightarrow> m \<le> k" by blast
  have "length s \<le> k" using k(3) s \<open>length s < n\<close> by simp
  with k show "the (set_str_utf8 n (Some (s @ [NUL]))) = s" by simp
qed

section \<open>Same origin\<close>

lemma split_host_plain:
  "h \<noteq> [] \<Longrightarrow> hd h \<noteq> CHR ''['' \<Longrightarrow> CHR '':'' \<notin> set h \<Longrightarrow> length h < 256 \<Longrightarrow>
   split_host h 256 = Some (rtrim (\<lambda>c. c = CHR ''.'') (map lower_ascii h), None)"
  by (simp add: split_host_def strchr_None [THEN iffD2])

section \<open>Properties\<close>

text \<open>
  On a well-formed UTF-8 source \<open>set_str_utf8\<close> stores, within the destination's size, the
  longest prefix that is itself well-formed: it never cuts a character and never drops one that
  would have fitted, and it never reads past the source's terminating NUL.
\<close>

theorem set_str_utf8_longest_prefix:
  assumes "utf8_wf s" and "0 < n"
  shows "\<exists>k. set_str_utf8 n (Some (s @ [NUL])) = Some (take k s) \<and> k < n \<and> k \<le> length s \<and>
     utf8_wf (take k s) \<and> (\<forall>m. utf8_wf (take m s) \<and> m < n \<and> m \<le> length s \<longrightarrow> m \<le> k)"
  using assms by (rule set_str_utf8_wf)

theorem set_str_utf8_longest_prefix_witness:
  "\<exists>k. set_str_utf8 3 (Some ([CHR ''a'', CHR 0xC3, CHR 0xA9, CHR ''b''] @ [NUL]))
         = Some (take k [CHR ''a'', CHR 0xC3, CHR 0xA9, CHR ''b''])"
proof -
  have "utf8_wf [CHR ''a'', CHR 0xC3, CHR 0xA9, CHR ''b'']"
    by (intro wf_1 wf_2 wf_Nil) simp_all
  from set_str_utf8_longest_prefix [OF this, of 3] show ?thesis by auto
qed

text \<open>
  \<open>utf8_valid_prefix\<close> trusts the width the lead byte announces.  A source that was cut inside
  a character (the case its comment says it handles) makes the scan step over the terminating
  NUL: for every truncated three-byte character at the end of a string of other characters, with
  room in the destination, the next read is outside the source's allocation.
\<close>

theorem utf8_valid_prefix_overreads_truncated:
  assumes "0xE0 \<le> code a" and "code a < 0xF0" and "b \<noteq> NUL" and "4 \<le> mx"
  shows "utf8_valid_prefix (Some [a, b, NUL]) mx = None"
proof -
  have "a \<noteq> NUL" and w: "utf8_width (code a) = 3" using assms by (auto simp: utf8_width_def)
  then show ?thesis using assms
    by (simp add: utf8_valid_prefix_def utf8_prefix_loop.simps [of _ mx 0]
        utf8_prefix_loop.simps [of _ mx 3])
qed

theorem utf8_valid_prefix_overreads_truncated_witness:
  "utf8_valid_prefix (Some [CHR 0xE4, CHR 0xB8, NUL]) 63 = None"
  by (rule utf8_valid_prefix_overreads_truncated) simp_all

text \<open>
  When the escaped text fits the buffer, \<open>html_escape\<close> stores exactly the escaped text, and
  no \<open><\<close>, \<open>>\<close> or double quote survives in it.
\<close>

theorem html_escape_complete:
  assumes "length (html_escaped s) < n"
  shows "html_escape s n = Escaped (html_escaped s) \<and>
    CHR ''<'' \<notin> set (html_escaped s) \<and> CHR ''>'' \<notin> set (html_escaped s) \<and> DQUOTE \<notin> set (html_escaped s)"
proof -
  have "html_escape_loop s (n - 1) 0 [] = (length (html_escaped s), html_escaped s)"
    using html_escape_loop_fits [of 0 s "n - 1" "[]"] assms by simp
  then have "html_escape s n = Escaped (html_escaped s)"
    using assms by (simp add: html_escape_def)
  then show ?thesis using html_escaped_clean [of _ s] by blast
qed

theorem html_escape_complete_witness: "html_escape ''<a>'' 64 = Escaped ''&lt;a&gt;''"
proof -
  have e: "html_escaped ''<a>'' = ''&lt;a&gt;''" by (simp add: html_entity_def)
  show ?thesis using html_escape_complete [of "''<a>''" 64] unfolding e by simp
qed

text \<open>
  When the text does not fit, the store of the terminating NUL can land outside the
  destination: for every destination of at least two bytes there is a source whose last entity
  straddles the end, and the cursor \<open>html_escape\<close> then dereferences is beyond the buffer (by at
  most five bytes).
\<close>

theorem html_escape_overruns:
  assumes "2 \<le> n"
  shows "\<exists>s p. html_escape s n = Overrun p \<and> n \<le> p \<and> p \<le> n + 4"
proof -
  let ?pad = "replicate (n - 2) (CHR ''a'')"
  have esc: "html_escaped ?pad = ?pad"
    by (induction "n - 2") (auto simp: html_escaped_def html_entity_def)
  have app: "html_escape_loop (s @ t) lim p out =
      html_escape_loop t lim (p + length (html_escaped s)) (out @ html_escaped s)"
    if "p + length (html_escaped s) \<le> lim" "length out = p" for s t lim p out
    using that
  proof (induction s arbitrary: p out)
    case (Cons c s)
    then show ?case
      by (cases "html_entity c") (auto simp: html_entity_def split: if_splits)
  qed simp
  have "html_escape_loop (?pad @ [DQUOTE]) (n - 1) 0 [] = (n - 2 + 6, ?pad @ take 1 ''&quot;'')"
  proof -
    obtain m where "n = Suc (Suc m)" using assms by (metis add_2_eq_Suc le_Suc_ex)
    then show ?thesis
      using app [of 0 ?pad "n - 1" "[]" "[DQUOTE]"] esc by (simp add: html_entity_def)
  qed
  then have "html_escape (?pad @ [DQUOTE]) n = Overrun (n - 2 + 6)"
    using assms by (simp add: html_escape_def)
  then show ?thesis using assms by (intro exI [of _ "?pad @ [DQUOTE]"] exI [of _ "n - 2 + 6"]) simp
qed

theorem html_escape_overruns_witness: "\<exists>s p. html_escape s 256 = Overrun p \<and> 256 \<le> p \<and> p \<le> 256 + 4"
  by (rule html_escape_overruns) simp

text \<open>
  \<open>url_decode\<close> inverts percent-encoding: whatever characters an encoder leaves as they are
  (any set without \<open>%\<close> and \<open>+\<close>), decoding gives back the original bytes.
\<close>

theorem url_decode_inverts_encoding:
  assumes "\<And>c. keep c \<Longrightarrow> c \<noteq> CHR ''%'' \<and> c \<noteq> CHR ''+''"
  shows "url_decode (pct_encode keep s) = s"
  using assms by (rule url_decode_pct_encode_keep)

theorem url_decode_inverts_encoding_witness:
  "url_decode (pct_encode isalnum ''a b%+/'') = ''a b%+/''"
  by (rule url_decode_inverts_encoding) (auto simp: isalnum_def isalpha_def isdigit_def)

text \<open>
  The dot-file guard accepts a decoded path exactly when no component of it, split at the
  slashes, begins with a dot; in particular no accepted path has a \<open>..\<close> component.
\<close>

theorem path_guard_exact:
  "path_has_dot_component p = (\<exists>seg. seg \<in> set (split_on (CHR ''/'') p) \<and> seg \<noteq> [] \<and> hd seg = CHR ''.'')"
  by (auto simp: path_has_dot_component_iff)

text \<open>
  With a policy set, a request's Host is accepted exactly when it is well-formed and one of
  the comma-separated entries, trimmed, names the same host (lower-cased, trailing dots removed)
  and, if the entry carries a port, the same port.
\<close>

theorem host_allowlist_exact:
  assumes "g \<noteq> []"
  shows "host_is_allowed g host =
    (host \<noteq> [] \<and> (\<exists>hname hport. split_host host 256 = Some (hname, hport) \<and>
       (\<exists>e. e \<in> set (csv_fields host_blank (CHR '','') g) \<and>
            (\<exists>ename eport. split_host (take 255 e) 256 = Some (ename, eport) \<and> ename = hname \<and>
               (eport = None \<or> eport = hport)))))"
proof (cases "split_host host 256")
  case None
  then show ?thesis using assms by (simp add: host_is_allowed_def)
next
  case (Some hp)
  obtain hname hport where hp: "hp = (hname, hport)" by (cases hp)
  have m: "host_entry_matches hname hport e =
      (\<exists>ename eport. split_host e 256 = Some (ename, eport) \<and> ename = hname \<and>
         (eport = None \<or> eport = hport))" for e
    by (auto simp: host_entry_matches_def split: option.splits)
  show ?thesis using assms Some hp
    by (auto simp: host_is_allowed_def host_list_loop_iff m)
qed

theorem host_allowlist_exact_witness:
  "host_is_allowed ''a.example, b.example:8080'' ''A.Example.:99''"
proof -
  have h: "split_host ''A.Example.:99'' 256 = Some (''a.example'', Some ''99'')"
    by code_simp
  have e: "split_host (take 255 ''a.example'') 256 = Some (''a.example'', None)"
    by code_simp
  have f: "''a.example'' \<in> set (csv_fields host_blank (CHR '','') ''a.example, b.example:8080'')"
    by code_simp
  show ?thesis
    by (subst host_allowlist_exact) (use h e f in auto)
qed

text \<open>
  The state-changing gate: a request that carries browser signals passes only if the
  browser itself calls it same-origin (or user-initiated), or, when only an \<open>Origin\<close> is present,
  if that origin's hostname equals the requested Host's, with equal ports or with no port in the
  origin and a default one (or none) in the Host.
\<close>

theorem same_origin_gate:
  assumes "request_is_same_origin req" and "rq_sec_fetch_site req \<noteq> [] \<or> rq_origin req \<noteq> []"
  shows "rq_sec_fetch_site req \<in> {''same-origin'', ''none''} \<or>
    (rq_sec_fetch_site req = [] \<and>
     (\<exists>oh h oport hport.
        oh = (case strstr (rq_origin req) ''://'' of Some t \<Rightarrow> drop 3 t | None \<Rightarrow> rq_origin req) \<and>
        split_host oh 256 = Some (h, oport) \<and> split_host (rq_host req) 256 = Some (h, hport) \<and>
        (oport = hport \<or> (oport = None \<and> hport \<in> {Some ''80'', Some ''443''}))))"
proof (cases "rq_sec_fetch_site req = []")
  case False
  then show ?thesis using assms by (simp add: request_is_same_origin_def)
next
  case True
  define oh where
    "oh = (case strstr (rq_origin req) ''://'' of Some t \<Rightarrow> drop 3 t | None \<Rightarrow> rq_origin req)"
  have so: "case split_host oh 256 of None \<Rightarrow> False
      | Some (ohost, oport) \<Rightarrow>
          (case split_host (rq_host req) 256 of None \<Rightarrow> False
           | Some (hhost, hport) \<Rightarrow>
               if ohost \<noteq> hhost then False
               else (case oport of Some op \<Rightarrow> hport = Some op
                     | None \<Rightarrow> (case hport of None \<Rightarrow> True
                               | Some hp \<Rightarrow> hp = ''80'' \<or> hp = ''443'')))"
    using assms True unfolding request_is_same_origin_def Let_def oh_def by simp
  then obtain ohost oport hhost hport where
    sp: "split_host oh 256 = Some (ohost, oport)" "split_host (rq_host req) 256 = Some (hhost, hport)"
    by (auto split: option.splits)
  with so have "ohost = hhost \<and> (oport = hport \<or> (oport = None \<and> hport \<in> {Some ''80'', Some ''443''}))"
    by (cases oport; cases hport) (auto split: if_splits)
  with sp True show ?thesis unfolding oh_def by blast
qed

theorem same_origin_gate_witness:
  "\<exists>h oport hport. split_host ''example.org'' 256 = Some (h, oport) \<and>
     split_host ''example.org:80'' 256 = Some (h, hport)"
proof -
  let ?r = "zero_request\<lparr>rq_origin := ''http://example.org'', rq_host := ''example.org:80''\<rparr>"
  have "request_is_same_origin ?r"
    by code_simp
  then have "rq_sec_fetch_site ?r \<in> {''same-origin'', ''none''} \<or>
    (rq_sec_fetch_site ?r = [] \<and>
     (\<exists>oh h oport hport.
        oh = (case strstr (rq_origin ?r) ''://'' of Some t \<Rightarrow> drop 3 t | None \<Rightarrow> rq_origin ?r) \<and>
        split_host oh 256 = Some (h, oport) \<and> split_host (rq_host ?r) 256 = Some (h, hport) \<and>
        (oport = hport \<or> (oport = None \<and> hport \<in> {Some ''80'', Some ''443''}))))"
    by (rule same_origin_gate) (simp add: zero_request_def)
  then show ?thesis by (auto simp: zero_request_def)
qed

end
