(* ===== verification/Chunked.thy ===== *)
theory Chunked
  imports Prelude
begin

text \<open>
  \<open>src/src/http/http_chunk.c\<close>: the chunked transfer-coding decoder, a pure state machine that
  the body-read loop feeds with a growing wire buffer.  The cursor, phase and counters are
  \<open>HttpChunkState\<close>; the decoded payload is the list \<open>out\<close> (its length is \<open>ck_written\<close>); the
  return codes 1, 0, -1, -2 are \<open>NeedMore\<close>, \<open>Decoded\<close>, \<open>Malformed\<close>, \<open>TooLarge\<close>.  The sums
  \<open>written + sz\<close> and \<open>pending + 2\<close> are \<open>long\<close> in the code: they are taken modulo \<open>2 ^ 64\<close> here, and a
  \<open>memcpy\<close> that would leave the wire or the output buffer is the code \<open>ChunkOverrun\<close>.
\<close>

section \<open>Definitions\<close>

datatype chunk_phase = SizeLine | Payload | Trailer | Finished

record HttpChunkState =
  ck_p :: nat
  ck_phase :: chunk_phase
  ck_pending :: nat
  ck_written :: nat

datatype chunk_code = NeedMore | Decoded | Malformed | TooLarge | ChunkOverrun

definition find_lf :: "string \<Rightarrow> nat \<Rightarrow> nat option" where
  "find_lf wire p =
     (let i = p + length (takeWhile (\<lambda>c. c \<noteq> LF) (drop p wire))
      in if i < length wire then Some i else None)"

text \<open>
  The digits of the size line: stops at the first character that is no hexadecimal digit;
  \<open>None\<close> is the malformed return (the value would exceed \<open>LONG_MAX\<close>, or over 16 digits).
\<close>

fun chunk_digits :: "string \<Rightarrow> int \<Rightarrow> nat \<Rightarrow> int option" where
  "chunk_digits [] sz digits = Some sz"
| "chunk_digits (d # ds) sz digits =
     (case hexval d of
        None \<Rightarrow> Some sz
      | Some v \<Rightarrow>
          if sz > (LONG_MAX - int v) div 16 then None
          else if Suc digits > 16 then None
          else chunk_digits ds (sz * 16 + int v) (Suc digits))"

definition chunk_blank :: "char \<Rightarrow> bool" where
  "chunk_blank c \<longleftrightarrow> c = CHR '' '' \<or> c = TAB"

definition chunk_size :: "string \<Rightarrow> int option" where
  "chunk_size line =
     (let t = dropWhile chunk_blank line
      in if t \<noteq> [] \<and> hd t = CHR ''+'' then chunk_digits (tl t) 0 0
         else if t \<noteq> [] \<and> hd t = CHR ''-'' then map_option uminus (chunk_digits (tl t) 0 0)
         else chunk_digits t 0 0)"

definition size_line :: "string \<Rightarrow> nat \<Rightarrow> nat \<Rightarrow> string" where
  "size_line wire p ls = take (ls - p) (drop p wire)"

text \<open>
  One pass through the loop of \<open>http_dechunk_feed\<close>: the return code, if the pass returns, and
  the state and output it leaves.
\<close>

definition dechunk_step ::
  "string \<Rightarrow> nat \<Rightarrow> HttpChunkState \<Rightarrow> string \<Rightarrow> chunk_code option \<times> HttpChunkState \<times> string" where
  "dechunk_step wire cap st out =
     (case ck_phase st of
        SizeLine \<Rightarrow>
          (case find_lf wire (ck_p st) of
             None \<Rightarrow> (Some NeedMore, st, out)
           | Some ls \<Rightarrow>
               (case chunk_size (size_line wire (ck_p st) ls) of
                  None \<Rightarrow> (Some Malformed, st, out)
                | Some sz \<Rightarrow>
                    let st1 = st\<lparr>ck_p := ls + 1\<rparr>
                    in if sz < 0 then (Some Malformed, st1, out)
                       else if sz = 0 then (None, st1\<lparr>ck_phase := Trailer\<rparr>, out)
                       else if wrap64 (int (ck_written st) + sz) > int cap then (Some TooLarge, st1, out)
                       else (None, st1\<lparr>ck_pending := nat sz, ck_phase := Payload\<rparr>, out)))
      | Payload \<Rightarrow>
          (if int (length wire) - int (ck_p st) < wrap64 (int (ck_pending st) + 2)
           then (Some NeedMore, st, out)
           else if length wire < ck_p st + (ck_pending st + 2) \<or> cap < ck_written st + ck_pending st
           then (Some ChunkOverrun, st, out)
           else (None,
                 st\<lparr>ck_written := ck_written st + ck_pending st,
                    ck_p := ck_p st + (ck_pending st + 2), ck_pending := 0, ck_phase := SizeLine\<rparr>,
                 out @ take (ck_pending st) (drop (ck_p st) wire)))
      | Trailer \<Rightarrow>
          (case find_lf wire (ck_p st) of
             None \<Rightarrow> (Some NeedMore, st, out)
           | Some ts \<Rightarrow>
               if ts = ck_p st \<or> (ts = ck_p st + 1 \<and> wire ! (ck_p st) = CR)
               then (Some Decoded, st\<lparr>ck_phase := Finished\<rparr>, out)
               else (None, st\<lparr>ck_p := ts + 1\<rparr>, out))
      | Finished \<Rightarrow> (Some Decoded, st, out))"

lemma find_lf_bounds: "find_lf wire p = Some i \<Longrightarrow> p \<le> i \<and> i < length wire"
  by (auto simp: find_lf_def Let_def split: if_splits)

lemma dechunk_step_advances:
  "dechunk_step wire cap st out = (None, st', out') \<Longrightarrow> length wire - ck_p st' < length wire - ck_p st"
  by (auto simp: dechunk_step_def Let_def dest!: find_lf_bounds
      split: chunk_phase.splits option.splits if_splits)

function http_dechunk_feed ::
  "string \<Rightarrow> nat \<Rightarrow> HttpChunkState \<Rightarrow> string \<Rightarrow> chunk_code \<times> HttpChunkState \<times> string" where
  "http_dechunk_feed wire cap st out =
     (case dechunk_step wire cap st out of
        (Some r, st', out') \<Rightarrow> (r, st', out')
      | (None, st', out') \<Rightarrow> http_dechunk_feed wire cap st' out')"
  by pat_completeness auto
termination
  by (relation "measure (\<lambda>(wire, cap, st, out). length wire - ck_p st)")
    (auto dest: dechunk_step_advances [OF sym])

declare http_dechunk_feed.simps [simp del]

definition chunk_state0 :: HttpChunkState where
  "chunk_state0 = \<lparr>ck_p = 0, ck_phase = SizeLine, ck_pending = 0, ck_written = 0\<rparr>"

definition http_dechunk :: "string \<Rightarrow> nat \<Rightarrow> chunk_code \<times> HttpChunkState \<times> string" where
  "http_dechunk wire cap = http_dechunk_feed wire cap chunk_state0 []"

section \<open>Resuming\<close>

lemma find_lf_append: "find_lf w p = Some i \<Longrightarrow> find_lf (w @ x) p = Some i"
proof -
  assume a: "find_lf w p = Some i"
  then have i: "i = p + length (takeWhile (\<lambda>c. c \<noteq> LF) (drop p w))" "i < length w"
    by (auto simp: find_lf_def Let_def split: if_splits)
  then have "p \<le> length w" by simp
  moreover have "\<exists>c \<in> set (drop p w). c = LF"
  proof (rule ccontr)
    assume "\<not> ?thesis"
    then have "takeWhile (\<lambda>c. c \<noteq> LF) (drop p w) = drop p w" by (intro takeWhile_eq_all_conv [THEN iffD2]) blast
    with i \<open>p \<le> length w\<close> show False by simp
  qed
  ultimately have "takeWhile (\<lambda>c. c \<noteq> LF) (drop p (w @ x)) = takeWhile (\<lambda>c. c \<noteq> LF) (drop p w)"
    by (auto simp: takeWhile_append1)
  with i show ?thesis by (simp add: find_lf_def)
qed

lemma size_line_append: "ls < length w \<Longrightarrow> size_line (w @ x) p ls = size_line w p ls"
  by (cases "p \<le> ls") (simp_all add: size_line_def)

lemma dechunk_step_append:
  assumes "dechunk_step w cap st out = (r, st', out')" and "r \<noteq> Some NeedMore"
    and "int (length (w @ x)) \<le> LONG_MAX"
  shows "dechunk_step (w @ x) cap st out = (r, st', out')"
proof (cases "ck_phase st")
  case SizeLine
  then obtain ls where ls: "find_lf w (ck_p st) = Some ls"
    using assms by (cases "find_lf w (ck_p st)") (auto simp: dechunk_step_def)
  with SizeLine assms show ?thesis
    using find_lf_append [OF ls] size_line_append find_lf_bounds [OF ls]
    by (simp add: dechunk_step_def)
next
  case Payload
  let ?need = "int (ck_pending st) + 2"
  have "length w < ck_p st + (ck_pending st + 2) \<Longrightarrow>
      wrap64 ?need \<le> int (length w) - int (ck_p st) \<Longrightarrow> length (w @ x) < ck_p st + (ck_pending st + 2)"
    using assms(3) wrap64_id [of ?need] by (cases "?need < 2 ^ 63") (auto simp: LONG_MAX_def)
  with Payload assms(1,2) show ?thesis by (auto simp: dechunk_step_def split: if_splits)
next
  case Trailer
  then obtain ls where ls: "find_lf w (ck_p st) = Some ls"
    using assms by (cases "find_lf w (ck_p st)") (auto simp: dechunk_step_def)
  with Trailer assms show ?thesis
    using find_lf_append [OF ls] find_lf_bounds [OF ls] by (simp add: dechunk_step_def nth_append)
next
  case Finished
  then show ?thesis using assms by (simp add: dechunk_step_def)
qed

lemma http_dechunk_feed_extend:
  "int (length (w @ x)) \<le> LONG_MAX \<Longrightarrow> http_dechunk_feed (w @ x) cap st out =
     (case http_dechunk_feed w cap st out of (r, st', out') \<Rightarrow>
        if r = NeedMore then http_dechunk_feed (w @ x) cap st' out' else (r, st', out'))"
proof (induction w cap st out rule: http_dechunk_feed.induct)
  case (1 w cap st out)
  obtain r st' out' where step: "dechunk_step w cap st out = (r, st', out')" by (metis prod_cases3)
  show ?case
  proof (cases r)
    case None
    with step dechunk_step_append [OF step _ "1.prems"] have "http_dechunk_feed (w @ x) cap st out =
        http_dechunk_feed (w @ x) cap st' out'" by (subst http_dechunk_feed.simps) simp
    moreover have "http_dechunk_feed w cap st out = http_dechunk_feed w cap st' out'"
      using step None by (subst http_dechunk_feed.simps) simp
    ultimately show ?thesis using "1.IH" [OF step [symmetric] None refl "1.prems"] by simp
  next
    case (Some c)
    have f: "http_dechunk_feed w cap st out = (c, st', out')"
      using step Some by (subst http_dechunk_feed.simps) simp
    show ?thesis
    proof (cases "c = NeedMore")
      case True
      then have "st' = st \<and> out' = out"
        using step Some by (auto simp: dechunk_step_def Let_def
            split: chunk_phase.splits option.splits if_splits)
      with True f show ?thesis by simp
    next
      case False
      with dechunk_step_append [OF step _ "1.prems"] Some f show ?thesis
        by (subst http_dechunk_feed.simps) simp
    qed
  qed
qed

text \<open>The decoder as the caller uses it, with its state and output as one value.\<close>

definition dechunk_feed ::
  "nat \<Rightarrow> string \<Rightarrow> HttpChunkState \<times> string \<Rightarrow> chunk_code \<times> HttpChunkState \<times> string" where
  "dechunk_feed cap w s = http_dechunk_feed w cap (fst s) (snd s)"

text \<open>\<open>wire_len\<close> is a \<open>long\<close>: the buffers the decoder can be called on.\<close>

definition wire_fits :: "string \<Rightarrow> bool" where
  "wire_fits w \<longleftrightarrow> int (length w) \<le> LONG_MAX"

interpretation dechunk: incremental_decoder "dechunk_feed cap" "\<lambda>r. r = NeedMore" wire_fits for cap
  by unfold_locales
    (simp_all add: dechunk_feed_def wire_fits_def http_dechunk_feed_extend [of _ _ cap] split: prod.split)

section \<open>The cap and the cursor\<close>

definition chunk_inv :: "string \<Rightarrow> nat \<Rightarrow> HttpChunkState \<Rightarrow> string \<Rightarrow> bool" where
  "chunk_inv wire cap st out \<longleftrightarrow>
     ck_p st \<le> length wire \<and> ck_written st = length out \<and> length out \<le> cap"

lemma dechunk_step_inv:
  assumes "chunk_inv wire cap st out" and "dechunk_step wire cap st out = (r, st', out')"
  shows "chunk_inv wire cap st' out'"
  using assms
  by (auto simp: chunk_inv_def dechunk_step_def Let_def dest!: find_lf_bounds
      split: chunk_phase.splits option.splits if_splits)

lemma http_dechunk_feed_inv:
  "chunk_inv wire cap st out \<Longrightarrow> http_dechunk_feed wire cap st out = (r, st', out') \<Longrightarrow>
   chunk_inv wire cap st' out'"
proof (induction wire cap st out rule: http_dechunk_feed.induct)
  case (1 wire cap st out)
  obtain c st1 out1 where step: "dechunk_step wire cap st out = (c, st1, out1)" by (metis prod_cases3)
  with "1.prems" have inv: "chunk_inv wire cap st1 out1" by (meson dechunk_step_inv)
  have unf: "http_dechunk_feed wire cap st out =
      (case c of Some r \<Rightarrow> (r, st1, out1) | None \<Rightarrow> http_dechunk_feed wire cap st1 out1)"
    using step by (subst http_dechunk_feed.simps) (simp split: option.split)
  show ?case
  proof (cases c)
    case None
    with "1.IH" [OF step [symmetric] None refl inv] "1.prems"(2) unf show ?thesis by simp
  next
    case (Some c')
    with inv "1.prems"(2) unf show ?thesis by simp
  qed
qed

lemma chunk_state0_inv: "chunk_inv wire cap chunk_state0 []"
  by (simp add: chunk_inv_def chunk_state0_def)

section \<open>Decoding what a sender encodes\<close>

text \<open>The reference encoding of a body: chunks, the last chunk, trailer lines, the blank line.\<close>

definition chunk_enc :: "string \<Rightarrow> string" where
  "chunk_enc d = nat_hex (length d) @ crlf @ d @ crlf"

definition body_enc :: "string list \<Rightarrow> string list \<Rightarrow> string" where
  "body_enc ds trailers =
     concat (map chunk_enc ds) @ ''0'' @ crlf @ concat (map (\<lambda>t. t @ crlf) trailers) @ crlf"

lemma find_lf_at: "LF \<notin> set l \<Longrightarrow> find_lf (pre @ l @ LF # rest) (length pre) = Some (length pre + length l)"
proof -
  assume "LF \<notin> set l"
  then have "takeWhile (\<lambda>c. c \<noteq> LF) (l @ LF # rest) = l"
    by (subst takeWhile_append2) auto
  then show ?thesis by (simp add: find_lf_def)
qed

lemma size_line_at: "size_line (pre @ l @ rest) (length pre) (length pre + length l) = l"
  by (simp add: size_line_def)

lemma length_nat_hex: "n < 16 ^ k \<Longrightarrow> 0 < k \<Longrightarrow> length (nat_hex n) \<le> k"
proof (induction k arbitrary: n)
  case (Suc k)
  show ?case
  proof (cases "n < 16")
    case False
    then have "0 < k" using Suc.prems by (cases k) auto
    moreover have "n div 16 < 16 ^ k" using Suc.prems(1) by (simp add: less_mult_imp_div_less mult.commute)
    ultimately have "length (nat_hex (n div 16)) \<le> k" by (intro Suc.IH)
    with False show ?thesis by (subst nat_hex.simps) simp
  qed (subst nat_hex.simps, simp)
qed simp

lemma nat_hex_xdigits: "c \<in> set (nat_hex n) \<Longrightarrow> \<exists>v < 16. c = hexdigit v"
proof (induction n rule: nat_hex.induct)
  case (1 n)
  show ?case
  proof (cases "n < 16")
    case True
    with "1.prems" show ?thesis by (auto simp: nat_hex.simps [of n])
  next
    case False
    with "1.prems" have "c \<in> set (nat_hex (n div 16)) \<or> c = hexdigit (n mod 16)"
      by (simp add: nat_hex.simps [of n]) blast
    with "1.IH" [OF False] show ?thesis by force
  qed
qed

lemma hexdigit_neq: "v < 16 \<Longrightarrow> hexval d = None \<Longrightarrow> hexdigit v \<noteq> d"
  using hexval_hexdigit [of v] by auto

lemma nat_hex_notin: "hexval d = None \<Longrightarrow> d \<notin> set (nat_hex n)"
  using nat_hex_xdigits hexdigit_neq by blast

lemma chunk_digits_nat_hex:
  "int n \<le> LONG_MAX \<Longrightarrow> k + length (nat_hex n) \<le> 16 \<Longrightarrow>
   chunk_digits (nat_hex n @ t) 0 k = chunk_digits t (int n) (k + length (nat_hex n))"
proof (induction n arbitrary: t rule: nat_hex.induct)
  case (1 n)
  show ?case
  proof (cases "n < 16")
    case True
    then have "\<not> 0 > (LONG_MAX - int n) div 16" by (simp add: LONG_MAX_def not_less)
    with True show ?thesis using "1.prems" by (simp add: nat_hex.simps [of n])
  next
    case False
    let ?v = "n mod 16" and ?q = "n div 16"
    have n: "int n = int ?q * 16 + int ?v"
      by (metis div_mult_mod_eq of_nat_add of_nat_mult of_nat_numeral)
    have len: "length (nat_hex n) = Suc (length (nat_hex ?q))"
      using False by (simp add: nat_hex.simps [of n])
    have "int ?q \<le> (LONG_MAX - int ?v) div 16"
      using "1.prems"(1) n by (simp add: zdiv_mono1 [of "int ?q * 16" _ 16, simplified])
    then have ov: "\<not> int ?q > (LONG_MAX - int ?v) div 16" by simp
    have "chunk_digits (nat_hex ?q @ hexdigit ?v # t) 0 k =
        chunk_digits (hexdigit ?v # t) (int ?q) (k + length (nat_hex ?q))"
      using "1.prems" len by (intro "1.IH" [OF False]) simp_all
    also have "\<dots> = chunk_digits t (int n) (k + length (nat_hex n))"
      using ov "1.prems"(2) len n by simp
    finally show ?thesis using False by (simp add: nat_hex.simps [of n])
  qed
qed

lemma chunk_size_nat_hex:
  assumes "int n \<le> LONG_MAX"
  shows "chunk_size (nat_hex n @ [CR]) = Some (int n)"
proof -
  have "n < 16 ^ 16" using assms by (simp add: LONG_MAX_def)
  then have len: "length (nat_hex n) \<le> 16" by (rule length_nat_hex) simp
  obtain v t where vt: "nat_hex n = hexdigit v # t" "v < 16"
  proof (cases "nat_hex n")
    case Nil
    then show ?thesis by (simp add: nat_hex.simps [of n] split: if_splits)
  next
    case (Cons c t)
    then show ?thesis using that nat_hex_xdigits [of c n] by auto
  qed
  have ne: "hexdigit v \<noteq> CHR ''+''" "hexdigit v \<noteq> CHR ''-''" "\<not> chunk_blank (hexdigit v)"
    using hexdigit_neq [OF vt(2)] by (simp_all add: chunk_blank_def hexval_def isdigit_def)
  have "chunk_size (nat_hex n @ [CR]) = chunk_digits (nat_hex n @ [CR]) 0 0"
    using vt ne by (simp add: chunk_size_def)
  also have "\<dots> = chunk_digits [CR] (int n) (length (nat_hex n))"
    using chunk_digits_nat_hex [OF assms, of 0] len by simp
  finally show ?thesis by (simp add: hexval_def isdigit_def)
qed

lemma dechunk_one:
  assumes "d \<noteq> []" and "int (length d) \<le> LONG_MAX" and "length out + length d \<le> cap"
  shows "http_dechunk_feed (pre @ chunk_enc d @ rest) cap
      \<lparr>ck_p = length pre, ck_phase = SizeLine, ck_pending = 0, ck_written = length out\<rparr> out =
    http_dechunk_feed ((pre @ chunk_enc d) @ rest) cap
      \<lparr>ck_p = length (pre @ chunk_enc d), ck_phase = SizeLine, ck_pending = 0,
       ck_written = length (out @ d)\<rparr> (out @ d)"
proof -
  let ?l = "nat_hex (length d) @ [CR]"
  have "LF \<notin> set ?l" using nat_hex_notin [of LF] by (simp add: hexval_def isdigit_def)
  from find_lf_at [OF this, of pre "d @ crlf @ rest"]
  have lf: "find_lf (pre @ chunk_enc d @ rest) (length pre) = Some (length pre + length ?l)"
    by (simp add: chunk_enc_def)
  have sl: "size_line (pre @ chunk_enc d @ rest) (length pre) (length pre + length ?l) = ?l"
    using size_line_at [of pre ?l "LF # d @ crlf @ rest"] by (simp add: chunk_enc_def)
  have cs: "chunk_size ?l = Some (int (length d))" by (rule chunk_size_nat_hex [OF assms(2)])
  have rest: "take (length d) (drop (length pre + length ?l + 1) (pre @ chunk_enc d @ rest)) = d"
    by (simp add: chunk_enc_def)
  have ov: "\<not> int cap < wrap64 (int (length out) + int (length d))"
    "\<not> int (length d + 2 + length rest) < wrap64 (int (length d) + 2)"
    using wrap64_le [of "int (length out) + int (length d)"] wrap64_le [of "int (length d) + 2"]
      assms(3) by simp_all
  show ?thesis
    using assms(1,3) lf sl cs rest ov
    by (subst http_dechunk_feed.simps, simp add: dechunk_step_def,
        subst http_dechunk_feed.simps, simp add: dechunk_step_def chunk_enc_def add.assoc)
qed

lemma dechunk_chunks:
  "\<forall>d \<in> set ds. d \<noteq> [] \<and> int (length d) \<le> LONG_MAX \<Longrightarrow> length out + length (concat ds) \<le> cap \<Longrightarrow>
   http_dechunk_feed (pre @ concat (map chunk_enc ds) @ rest) cap
      \<lparr>ck_p = length pre, ck_phase = SizeLine, ck_pending = 0, ck_written = length out\<rparr> out =
    http_dechunk_feed (pre @ concat (map chunk_enc ds) @ rest) cap
      \<lparr>ck_p = length (pre @ concat (map chunk_enc ds)), ck_phase = SizeLine, ck_pending = 0,
       ck_written = length (out @ concat ds)\<rparr> (out @ concat ds)"
proof (induction ds arbitrary: pre out)
  case (Cons d ds)
  have "http_dechunk_feed (pre @ chunk_enc d @ concat (map chunk_enc ds) @ rest) cap
      \<lparr>ck_p = length pre, ck_phase = SizeLine, ck_pending = 0, ck_written = length out\<rparr> out =
    http_dechunk_feed ((pre @ chunk_enc d) @ concat (map chunk_enc ds) @ rest) cap
      \<lparr>ck_p = length (pre @ chunk_enc d), ck_phase = SizeLine, ck_pending = 0,
       ck_written = length (out @ d)\<rparr> (out @ d)"
    using Cons.prems by (intro dechunk_one) auto
  moreover have "length (out @ d) + length (concat ds) \<le> cap" using Cons.prems(2) by simp
  moreover have "\<forall>d \<in> set ds. d \<noteq> [] \<and> int (length d) \<le> LONG_MAX" using Cons.prems(1) by simp
  ultimately show ?case using Cons.IH [of "out @ d" "pre @ chunk_enc d"] by simp
qed simp

lemma dechunk_trailers:
  assumes "\<forall>t \<in> set ts. LF \<notin> set t \<and> t \<noteq> []"
  shows "\<exists>p. http_dechunk_feed (pre @ concat (map (\<lambda>t. t @ crlf) ts) @ crlf @ rest) cap
      \<lparr>ck_p = length pre, ck_phase = Trailer, ck_pending = 0, ck_written = n\<rparr> out =
      (Decoded, \<lparr>ck_p = p, ck_phase = Finished, ck_pending = 0, ck_written = n\<rparr>, out)"
  using assms
proof (induction ts arbitrary: pre)
  case Nil
  have "find_lf (pre @ crlf @ rest) (length pre) = Some (length pre + 1)"
    using find_lf_at [of "[CR]" pre rest] by simp
  then show ?case
    by (subst http_dechunk_feed.simps) (simp add: dechunk_step_def nth_append)
next
  case (Cons t ts)
  let ?w = "pre @ concat (map (\<lambda>t. t @ crlf) (t # ts)) @ crlf @ rest"
  have t: "t \<noteq> []" "LF \<notin> set (t @ [CR])" using Cons.prems by auto
  have lf: "find_lf ?w (length pre) = Some (length pre + Suc (length t))"
    using find_lf_at [OF t(2), of pre "concat (map (\<lambda>t. t @ crlf) ts) @ crlf @ rest"] by simp
  have "http_dechunk_feed ?w cap
      \<lparr>ck_p = length pre, ck_phase = Trailer, ck_pending = 0, ck_written = n\<rparr> out =
    http_dechunk_feed ?w cap
      \<lparr>ck_p = length (pre @ t @ crlf), ck_phase = Trailer, ck_pending = 0, ck_written = n\<rparr> out"
    using lf t(1) by (subst http_dechunk_feed.simps) (simp add: dechunk_step_def)
  then show ?case using Cons.IH [of "pre @ t @ crlf"] Cons.prems by simp
qed

lemma dechunk_body_enc:
  assumes "\<forall>d \<in> set ds. d \<noteq> [] \<and> int (length d) \<le> LONG_MAX" and "length (concat ds) \<le> cap"
    and "\<forall>t \<in> set ts. LF \<notin> set t \<and> t \<noteq> []"
  shows "\<exists>st. http_dechunk_feed (pre @ body_enc ds ts @ rest) cap
      (chunk_state0\<lparr>ck_p := length pre\<rparr>) [] = (Decoded, st, concat ds)"
proof -
  let ?pre = "pre @ concat (map chunk_enc ds)"
  let ?tail = "concat (map (\<lambda>t. t @ crlf) ts) @ crlf @ rest"
  let ?st = "\<lparr>ck_p = length ?pre, ck_phase = SizeLine, ck_pending = 0, ck_written = length (concat ds)\<rparr>"
  have lf: "find_lf (?pre @ ''0'' @ crlf @ ?tail) (length ?pre) = Some (length ?pre + 2)"
    using find_lf_at [of "[CHR ''0'', CR]" ?pre ?tail] by simp
  have sl: "size_line (?pre @ ''0'' @ crlf @ ?tail) (length ?pre) (length ?pre + 2) = [CHR ''0'', CR]"
    using size_line_at [of ?pre "[CHR ''0'', CR]" "LF # ?tail"] by simp
  have cs: "chunk_size [CHR ''0'', CR] = Some 0"
    by code_simp
  have "http_dechunk_feed (pre @ body_enc ds ts @ rest) cap (chunk_state0\<lparr>ck_p := length pre\<rparr>) [] =
      http_dechunk_feed (?pre @ ''0'' @ crlf @ ?tail) cap ?st (concat ds)"
    using dechunk_chunks [OF assms(1), of "[]" cap pre "''0'' @ crlf @ ?tail"] assms(2)
    by (simp add: body_enc_def chunk_state0_def)
  also have "\<dots> = http_dechunk_feed ((?pre @ ''0'' @ crlf) @ ?tail) cap
      \<lparr>ck_p = length (?pre @ ''0'' @ crlf), ck_phase = Trailer, ck_pending = 0,
       ck_written = length (concat ds)\<rparr> (concat ds)"
    using lf sl cs by (subst http_dechunk_feed.simps) (simp add: dechunk_step_def)
  finally show ?thesis using dechunk_trailers [OF assms(3), of "?pre @ ''0'' @ crlf" rest cap] by fastforce
qed

section \<open>Properties\<close>

text \<open>
  (C3) Decoding inverts encoding.  For any split of a body into non-empty chunks whose total fits
  the cap, and any trailer lines, the decoder started at the body's offset in the buffer returns
  0 with exactly the body, whatever bytes follow on the connection.
\<close>

theorem dechunk_decodes_encoding:
  assumes "\<forall>d \<in> set ds. d \<noteq> [] \<and> int (length d) \<le> LONG_MAX" and "length (concat ds) \<le> cap"
    and "\<forall>t \<in> set ts. LF \<notin> set t \<and> t \<noteq> []"
  shows "\<exists>st. http_dechunk_feed (pre @ body_enc ds ts @ rest) cap
      (chunk_state0\<lparr>ck_p := length pre\<rparr>) [] = (Decoded, st, concat ds)"
  using assms by (rule dechunk_body_enc)

theorem dechunk_decodes_encoding_witness:
  "\<exists>st. http_dechunk_feed (''H'' @ body_enc [''hello'', ''w''] [''X: y''] @ ''GET'') 64
      (chunk_state0\<lparr>ck_p := length ''H''\<rparr>) [] = (Decoded, st, concat [''hello'', ''w''])"
  by (rule dechunk_decodes_encoding) (simp_all add: LONG_MAX_def)

text \<open>
  (C12) How the network splits the body does not matter: feeding the decoder after every read with
  the bytes that have arrived so far gives the same code, state and output as one call on the
  whole wire, for every sequence of reads whose bytes together have a length that a \<open>long\<close> holds
  (the type of \<open>wire_len\<close>).
\<close>

theorem dechunk_split_independent:
  assumes "int (length (w @ concat pieces)) \<le> LONG_MAX"
  shows "feed_pieces (dechunk_feed cap) (\<lambda>r. r = NeedMore) w pieces s = dechunk_feed cap (w @ concat pieces) s"
  using assms by (intro dechunk.pieces_one_shot) (simp add: wire_fits_def)

theorem dechunk_split_independent_witness:
  "feed_pieces (dechunk_feed 64) (\<lambda>r. r = NeedMore) ''5'' [crlf @ ''he'', ''llo'' @ crlf, ''0'' @ crlf @ crlf]
     (chunk_state0, []) =
   dechunk_feed 64 (''5'' @ concat [crlf @ ''he'', ''llo'' @ crlf, ''0'' @ crlf @ crlf]) (chunk_state0, [])"
  by (rule dechunk_split_independent) (simp add: LONG_MAX_def)

text \<open>
  The decoder never writes past the cap and never moves its cursor past the wire before it
  reports \<open>ChunkOverrun\<close>: after any call from a state that satisfies the invariant (the initial one
  does), the output is at most \<open>cap\<close> bytes, \<open>written\<close> is its length, and the cursor is inside the
  buffer.
\<close>

theorem dechunk_stays_in_bounds:
  assumes "chunk_inv wire cap st out"
  shows "case http_dechunk_feed wire cap st out of (r, st', out') \<Rightarrow>
    length out' \<le> cap \<and> ck_written st' = length out' \<and> ck_p st' \<le> length wire"
proof -
  obtain r st' out' where f: "http_dechunk_feed wire cap st out = (r, st', out')" by (metis prod_cases3)
  have "chunk_inv wire cap st' out'" using http_dechunk_feed_inv [OF assms f] .
  with f show ?thesis by (simp add: chunk_inv_def)
qed

theorem dechunk_stays_in_bounds_witness:
  "case http_dechunk_feed ''5'' 3 chunk_state0 [] of (r, st', out') \<Rightarrow>
    length out' \<le> 3 \<and> ck_written st' = length out' \<and> ck_p st' \<le> length ''5''"
  by (rule dechunk_stays_in_bounds) (simp add: chunk_state0_inv)

text \<open>
  The overflow.  Behind a first chunk of one byte the size line \<open>7fffffffffffffff\<close> passes the test of
  the digits, \<open>written + sz\<close> wraps to a negative number that is no larger than any cap,
  \<open>pending + 2\<close> wraps as well, and the decoder copies \<open>LONG_MAX\<close> bytes.
\<close>

theorem chunk_size_overflow_overruns:
  "\<exists>st. http_dechunk (''1'' @ crlf @ ''x'' @ crlf @ ''7fffffffffffffff'' @ crlf) 1000 = (ChunkOverrun, st, ''x'')"
proof -
  have sizes: "chunk_size [CHR ''1'', CR] = Some 1"
    "chunk_size (''7fffffffffffffff'' @ [CR]) = Some 9223372036854775807"
    by code_simp+
  have w: "wrap64 2 = 2" "wrap64 1 = 1" "wrap64 3 = 3" "wrap64 9223372036854775808 = - 9223372036854775808"
    "wrap64 9223372036854775809 = - 9223372036854775807"
    by (simp_all add: wrap64_def)
  show ?thesis
    unfolding http_dechunk_def chunk_state0_def
    by (simp add: http_dechunk_feed.simps dechunk_step_def size_line_def find_lf_def sizes [simplified] w)
qed

text \<open>
  Two framing errors the decoder does not report.  The two bytes after a chunk's payload are
  skipped unread, so they need not be CRLF; and a size line with no hexadecimal digit at all is
  taken for the last chunk (size 0) and not for a malformed one.
\<close>

theorem dechunk_lax_framing:
  "(\<exists>st. http_dechunk (''1'' @ crlf @ ''x'' @ [a, b] @ ''0'' @ crlf @ crlf) 8 = (Decoded, st, ''x'')) \<and>
   (\<exists>st. http_dechunk (''zz'' @ crlf @ crlf) 8 = (Decoded, st, []))"
proof -
  have sizes: "chunk_size [CHR ''1'', CR] = Some 1" "chunk_size [CHR ''0'', CR] = Some 0"
    "chunk_size [CHR ''z'', CHR ''z'', CR] = Some 0"
    by code_simp+
  have w: "wrap64 1 = 1" "wrap64 3 = 3" by (simp_all add: wrap64_def)
  show ?thesis
    unfolding http_dechunk_def chunk_state0_def
    by (simp add: http_dechunk_feed.simps dechunk_step_def size_line_def find_lf_def sizes w)
qed

end
