(* ===== verification/Http_Parse.thy ===== *)
theory Http_Parse
  imports Util
begin

text \<open>
  \<open>src/src/http/http_parse.c\<close>: from the raw header block to a bounded \<open>HttpRequest\<close>.  A read
  position in the buffer is the suffix that starts there; the buffer is what \<open>strnlen\<close> saw, so
  it holds no NUL.  The line-ending policy \<open>g_lenient_crlf\<close> and the spool cap
  \<open>g_body_spool_bytes\<close> are arguments.
\<close>

section \<open>Definitions\<close>

definition is_eol :: "char \<Rightarrow> bool" where
  "is_eol c \<longleftrightarrow> c = CR \<or> c = LF"

fun consume_eol :: "bool \<Rightarrow> string \<Rightarrow> string option" where
  "consume_eol lenient [] = Some []"
| "consume_eol lenient (c # s) =
     (if c = CR then
        if s \<noteq> [] \<and> hd s = LF then Some (tl s)
        else if lenient then Some s
        else None
      else if c = LF then
        if lenient then Some s else None
      else Some (c # s))"

fun find_ci :: "string \<Rightarrow> string \<Rightarrow> bool" where
  "find_ci [] needle = False"
| "find_ci (c # hay) needle = (if ci_prefix needle (c # hay) then True else find_ci hay needle)"

definition capture_extra_header :: "string \<Rightarrow> HttpRequest \<Rightarrow> HttpRequest" where
  "capture_extra_header line r =
     (if length (rq_extra_headers r) + length line + 3 > HTTP_EXTRA_HEADERS_MAX then r
      else r\<lparr>rq_extra_headers := rq_extra_headers r @ line @ crlf\<rparr>)"

text \<open>\<open>set_str(dst, sizeof dst, line + k)\<close> followed by \<open>trim_whitespace(dst)\<close>.\<close>

definition hdr_value :: "nat \<Rightarrow> nat \<Rightarrow> string \<Rightarrow> string" where
  "hdr_value n k line = trim_whitespace (set_str n (drop k line))"

definition parse_content_length :: "int \<Rightarrow> string \<Rightarrow> HttpRequest \<Rightarrow> HttpRequest" where
  "parse_content_length spool line r =
     (let cl = fst (strtol10 (drop 15 line))
      in if cl > 0 \<and> cl \<le> int MAX_REQUEST_SIZE then r\<lparr>rq_content_length := cl\<rparr>
         else if cl > int MAX_REQUEST_SIZE \<and> cl \<le> spool then r\<lparr>rq_content_length := cl\<rparr>
         else if cl > spool then r\<lparr>rq_body_too_large := True\<rparr>
         else r\<lparr>rq_content_length := 0\<rparr>)"

definition parse_transfer_encoding :: "string \<Rightarrow> HttpRequest \<Rightarrow> HttpRequest" where
  "parse_transfer_encoding line r =
     (let v = drop 18 line
      in if find_ci v ''chunked'' \<and> \<not> find_ci v ''gzip'' \<and> \<not> find_ci v ''deflate'' \<and>
            \<not> find_ci v ''compress'' \<and> \<not> find_ci v ''identity''
         then r\<lparr>rq_chunked := True\<rparr> else r\<lparr>rq_te_unsupported := True\<rparr>)"

definition parse_header_line :: "int \<Rightarrow> string \<Rightarrow> HttpRequest \<Rightarrow> HttpRequest" where
  "parse_header_line spool line r =
     (if ci_prefix ''Host:'' line then r\<lparr>rq_host := hdr_value 256 5 line\<rparr>
      else if ci_prefix ''User-Agent:'' line then r\<lparr>rq_user_agent := hdr_value 512 11 line\<rparr>
      else if ci_prefix ''Referer:'' line then r\<lparr>rq_referer := hdr_value 512 8 line\<rparr>
      else if ci_prefix ''Origin:'' line then r\<lparr>rq_origin := hdr_value 256 7 line\<rparr>
      else if ci_prefix ''Sec-Fetch-Site:'' line then r\<lparr>rq_sec_fetch_site := hdr_value 16 15 line\<rparr>
      else if ci_prefix ''Accept:'' line then r\<lparr>rq_accept := hdr_value 512 7 line\<rparr>
      else if ci_prefix ''Accept-Encoding:'' line then r\<lparr>rq_accept_encoding := hdr_value 256 16 line\<rparr>
      else if ci_prefix ''Content-Type:'' line then r\<lparr>rq_content_type := hdr_value 128 13 line\<rparr>
      else if ci_prefix ''Connection:'' line then r\<lparr>rq_connection := hdr_value 32 11 line\<rparr>
      else if ci_prefix ''Authorization:'' line then r\<lparr>rq_authorization := hdr_value 512 14 line\<rparr>
      else if ci_prefix ''Cookie:'' line then r\<lparr>rq_cookie := hdr_value 1024 7 line\<rparr>
      else if ci_prefix ''X-Forwarded-For:'' line then r\<lparr>rq_x_forwarded_for := hdr_value 256 16 line\<rparr>
      else if ci_prefix ''If-None-Match:'' line then r\<lparr>rq_if_none_match := hdr_value 256 14 line\<rparr>
      else if ci_prefix ''If-Modified-Since:'' line then
        r\<lparr>rq_if_modified_since := hdr_value 64 18 line\<rparr>
      else if ci_prefix ''Expect:'' line then r\<lparr>rq_expect := hdr_value 32 7 line\<rparr>
      else if ci_prefix ''Range:'' line then r\<lparr>rq_range := hdr_value 64 6 line\<rparr>
      else if ci_prefix ''Content-Length:'' line then parse_content_length spool line r
      else if ci_prefix ''Transfer-Encoding:'' line then parse_transfer_encoding line r
      else if line = [] \<or> (hd line \<noteq> CHR '' '' \<and> hd line \<noteq> TAB) then capture_extra_header line r
      else r)"

text \<open>One \<open>%Ns\<close> conversion of \<open>sscanf\<close>: skip white space, then up to \<open>n\<close> other characters.\<close>

definition scan_word :: "nat \<Rightarrow> string \<Rightarrow> (string \<times> string) option" where
  "scan_word n s =
     (let t = dropWhile isspace s; w = take n (takeWhile (\<lambda>c. \<not> isspace c) t)
      in if w = [] then None else Some (w, drop (length w) t))"

text \<open>
  \<open>sscanf(reqline, "%15s %1023s %15s", method, path, protocol)\<close>: the fields converted so far are
  stored, and the flag says whether all three were.
\<close>

definition scan_request_line :: "string \<Rightarrow> HttpRequest \<Rightarrow> bool \<times> HttpRequest" where
  "scan_request_line reqline r =
     (case scan_word 15 reqline of
        None \<Rightarrow> (False, r)
      | Some (m, s1) \<Rightarrow>
          (case scan_word 1023 s1 of
             None \<Rightarrow> (False, r\<lparr>rq_method := m\<rparr>)
           | Some (p, s2) \<Rightarrow>
               (case scan_word 15 s2 of
                  None \<Rightarrow> (False, r\<lparr>rq_method := m, rq_path := p\<rparr>)
                | Some (v, _) \<Rightarrow> (True, r\<lparr>rq_method := m, rq_path := p, rq_protocol := v\<rparr>))))"

text \<open>The header lines; \<open>Some rest\<close> is the position of the body, \<open>None\<close> the malformed return.\<close>

function parse_header_lines ::
  "bool \<Rightarrow> int \<Rightarrow> string \<Rightarrow> HttpRequest \<Rightarrow> string option \<times> HttpRequest" where
  "parse_header_lines lenient spool s r =
     (if s = [] then (None, r)
      else if is_eol (hd s) then
        (case consume_eol lenient s of
           None \<Rightarrow> (None, r)
         | Some t \<Rightarrow>
             if t \<noteq> [] \<and> is_eol (hd t) then (consume_eol lenient t, r)
             else parse_header_lines lenient spool t r)
      else
        let line = takeWhile (\<lambda>c. \<not> is_eol c) s; t = dropWhile (\<lambda>c. \<not> is_eol c) s
        in if t = [] then (None, r)
           else parse_header_lines lenient spool t
                  (parse_header_line spool (take (MAX_PATH_SIZE - 1) line) r))"
  by pat_completeness auto
termination
proof (relation "measure (\<lambda>(len, sp, s, r). length s)", simp, goal_cases)
  case (1 lenient spool s r t)
  then show ?case by (cases s) (auto simp: is_eol_def split: if_splits)
next
  case (2 lenient spool s r line t)
  then show ?case by (cases s) (auto simp: length_dropWhile_le le_imp_less_Suc)
qed

declare parse_header_lines.simps [simp del]

definition parse_headers ::
  "bool \<Rightarrow> int \<Rightarrow> string \<Rightarrow> HttpRequest \<Rightarrow> string option \<times> HttpRequest" where
  "parse_headers lenient spool raw r =
     (let line = takeWhile (\<lambda>c. \<not> is_eol c) raw; s = dropWhile (\<lambda>c. \<not> is_eol c) raw
      in if line = [] \<or> s = [] then (None, r)
         else case scan_request_line (take MAX_PATH_SIZE line) r of
                (False, r1) \<Rightarrow> (None, r1)
              | (True, r1) \<Rightarrow> parse_header_lines lenient spool s r1)"

definition parse_request :: "bool \<Rightarrow> int \<Rightarrow> string \<Rightarrow> HttpRequest \<Rightarrow> bool \<times> HttpRequest" where
  "parse_request lenient spool buffer r =
     (case parse_headers lenient spool (take MAX_REQUEST_SIZE (cstr buffer)) r of
        (p, r') \<Rightarrow> (p \<noteq> None, r'))"

section \<open>Every field fits its array\<close>

lemma trim_whitespace_fits [fits_intros]: "fits n s \<Longrightarrow> fits n (trim_whitespace s)"
  by (simp add: trim_whitespace_def fits_ltrim fits_rtrim)

lemma hdr_value_fits [fits_intros]: "NUL \<notin> set line \<Longrightarrow> 0 < n \<Longrightarrow> fits n (hdr_value n k line)"
  unfolding hdr_value_def
  by (intro trim_whitespace_fits set_str_fits) (auto dest: in_set_dropD)

lemma capture_extra_header_wf:
  "request_wf r \<Longrightarrow> NUL \<notin> set line \<Longrightarrow> request_wf (capture_extra_header line r)"
  by (auto simp: capture_extra_header_def request_wf_def fits_def)

lemma parse_content_length_wf: "request_wf r \<Longrightarrow> request_wf (parse_content_length spool line r)"
  by (simp add: parse_content_length_def Let_def request_wf_def)

lemma parse_transfer_encoding_wf: "request_wf r \<Longrightarrow> request_wf (parse_transfer_encoding line r)"
  by (simp add: parse_transfer_encoding_def Let_def request_wf_def)

lemma parse_header_line_wf:
  assumes "request_wf r" and "NUL \<notin> set line"
  shows "request_wf (parse_header_line spool line r)"
proof -
  have v: "0 < n \<Longrightarrow> fits n (hdr_value n k line)" for n k
    using assms(2) by (rule hdr_value_fits)
  note wf = assms(1) [unfolded request_wf_def]
  have updates:
    "request_wf (r\<lparr>rq_host := hdr_value 256 5 line\<rparr>)"
    "request_wf (r\<lparr>rq_user_agent := hdr_value 512 11 line\<rparr>)"
    "request_wf (r\<lparr>rq_referer := hdr_value 512 8 line\<rparr>)"
    "request_wf (r\<lparr>rq_origin := hdr_value 256 7 line\<rparr>)"
    "request_wf (r\<lparr>rq_sec_fetch_site := hdr_value 16 15 line\<rparr>)"
    "request_wf (r\<lparr>rq_accept := hdr_value 512 7 line\<rparr>)"
    "request_wf (r\<lparr>rq_accept_encoding := hdr_value 256 16 line\<rparr>)"
    "request_wf (r\<lparr>rq_content_type := hdr_value 128 13 line\<rparr>)"
    "request_wf (r\<lparr>rq_connection := hdr_value 32 11 line\<rparr>)"
    "request_wf (r\<lparr>rq_authorization := hdr_value 512 14 line\<rparr>)"
    "request_wf (r\<lparr>rq_cookie := hdr_value 1024 7 line\<rparr>)"
    "request_wf (r\<lparr>rq_x_forwarded_for := hdr_value 256 16 line\<rparr>)"
    "request_wf (r\<lparr>rq_if_none_match := hdr_value 256 14 line\<rparr>)"
    "request_wf (r\<lparr>rq_if_modified_since := hdr_value 64 18 line\<rparr>)"
    "request_wf (r\<lparr>rq_expect := hdr_value 32 7 line\<rparr>)"
    "request_wf (r\<lparr>rq_range := hdr_value 64 6 line\<rparr>)"
    by (simp_all add: request_wf_def v wf)
  have wf_if: "request_wf a \<Longrightarrow> request_wf b \<Longrightarrow> request_wf (if c then a else b)" for a b c
    by simp
  show ?thesis
    unfolding parse_header_line_def
    by (intro wf_if updates parse_content_length_wf parse_transfer_encoding_wf
        capture_extra_header_wf assms)
qed

lemma scan_word_fits:
  "scan_word n s = Some (w, t) \<Longrightarrow> NUL \<notin> set s \<Longrightarrow> fits (Suc n) w \<and> NUL \<notin> set t"
  by (auto simp: scan_word_def Let_def fits_def split: if_splits
      dest!: in_set_takeD in_set_dropD set_takeWhileD set_dropWhileD)

lemma scan_request_line_wf:
  assumes "request_wf r" and "NUL \<notin> set l" and "scan_request_line l r = (ok, r')"
  shows "request_wf r'"
proof (cases "scan_word 15 l")
  case None
  then show ?thesis using assms by (simp add: scan_request_line_def)
next
  case (Some a)
  obtain m s1 where a: "a = (m, s1)" by (cases a)
  have m: "fits 16 m" "NUL \<notin> set s1" using scan_word_fits [of 15 l m s1] Some a assms by simp_all
  show ?thesis
  proof (cases "scan_word 1023 s1")
    case None
    with Some a m assms show ?thesis by (auto simp: scan_request_line_def request_wf_def)
  next
    case (Some b)
    obtain p s2 where b: "b = (p, s2)" by (cases b)
    have p: "fits MAX_PATH_SIZE p" "NUL \<notin> set s2"
      using scan_word_fits [of 1023 s1 p s2] Some b m by (simp_all add: MAX_PATH_SIZE_def)
    have "scan_word 15 s2 = Some (v, s3) \<Longrightarrow> fits 16 v" for v s3
      using scan_word_fits [of 15 s2 v s3] p by simp
    with \<open>scan_word 15 l = Some a\<close> a b m p Some assms show ?thesis
      by (auto simp: scan_request_line_def request_wf_def split: option.splits)
  qed
qed

lemma consume_eol_set: "consume_eol lenient s = Some t \<Longrightarrow> set t \<subseteq> set s"
  by (cases s; cases "tl s") (auto split: if_splits)

text \<open>
  What every header line keeps, and the request line keeps, the parser keeps; the two lemmas
  after it are instances.
\<close>

lemma parse_header_lines_preserves:
  assumes line: "\<And>l r. P r \<Longrightarrow> NUL \<notin> set l \<Longrightarrow> P (parse_header_line spool l r)"
  shows "P r \<Longrightarrow> NUL \<notin> set s \<Longrightarrow> P (snd (parse_header_lines lenient spool s r))"
  using line
proof (induction lenient spool s r rule: parse_header_lines.induct)
  case (1 lenient spool s r)
  note line = "1.prems"(3)
  show ?case
  proof (cases "s = [] \<or> is_eol (hd s)")
    case True
    show ?thesis
    proof (cases "s = [] \<or> consume_eol lenient s = None")
      case True
      then show ?thesis using "1.prems"(1) \<open>s = [] \<or> is_eol (hd s)\<close>
        by (subst parse_header_lines.simps) auto
    next
      case False
      then obtain t where t: "consume_eol lenient s = Some t" by auto
      then have "NUL \<notin> set t" using consume_eol_set "1.prems"(2) by blast
      with "1.IH"(1) [OF _ _ t] False True "1.prems"(1) line t show ?thesis
        by (subst parse_header_lines.simps) auto
    qed
  next
    case False
    let ?line = "takeWhile (\<lambda>c. \<not> is_eol c) s" and ?t = "dropWhile (\<lambda>c. \<not> is_eol c) s"
    have "NUL \<notin> set (take (MAX_PATH_SIZE - 1) ?line)" and t: "NUL \<notin> set ?t"
      using "1.prems"(2) by (auto dest!: in_set_takeD set_takeWhileD set_dropWhileD)
    then have P: "P (parse_header_line spool (take (MAX_PATH_SIZE - 1) ?line) r)"
      using "1.prems"(1) by (intro line)
    from False have ne: "s \<noteq> []" "\<not> is_eol (hd s)" by auto
    have "?t \<noteq> [] \<Longrightarrow> P (snd (parse_header_lines lenient spool ?t
        (parse_header_line spool (take (MAX_PATH_SIZE - 1) ?line) r)))"
      using "1.IH"(2) [OF ne refl refl _ P t line] .
    then show ?thesis using ne "1.prems"(1)
      by (subst parse_header_lines.simps) (simp add: Let_def del: dropWhile_eq_Nil_conv)
  qed
qed

lemma parse_headers_preserves:
  assumes line: "\<And>l r. P r \<Longrightarrow> NUL \<notin> set l \<Longrightarrow> P (parse_header_line spool l r)"
    and reqline: "\<And>l r ok r'. P r \<Longrightarrow> NUL \<notin> set l \<Longrightarrow> scan_request_line l r = (ok, r') \<Longrightarrow> P r'"
    and "P r" and "NUL \<notin> set raw"
  shows "P (snd (parse_headers lenient spool raw r))"
proof -
  let ?line = "takeWhile (\<lambda>c. \<not> is_eol c) raw" and ?s = "dropWhile (\<lambda>c. \<not> is_eol c) raw"
  have n: "NUL \<notin> set (take MAX_PATH_SIZE ?line)" "NUL \<notin> set ?s"
    using assms(4) by (auto dest!: in_set_takeD set_takeWhileD set_dropWhileD)
  obtain ok r1 where sc: "scan_request_line (take MAX_PATH_SIZE ?line) r = (ok, r1)" by fastforce
  have P: "P r1" using reqline [OF assms(3) n(1) sc] .
  have "P (snd (parse_header_lines lenient spool ?s r1))"
    using line P n(2) by (rule parse_header_lines_preserves)
  then show ?thesis
    using sc P assms(3) by (cases ok) (simp_all add: parse_headers_def Let_def)
qed

lemma parse_headers_wf:
  "request_wf r \<Longrightarrow> NUL \<notin> set raw \<Longrightarrow> request_wf (snd (parse_headers lenient spool raw r))"
  by (rule parse_headers_preserves [of request_wf])
    (simp_all add: parse_header_line_wf scan_request_line_wf)

text \<open>The framing fields: the accepted length is bounded, and an error flag is never cleared.\<close>

definition framing_inv :: "int \<Rightarrow> HttpRequest \<Rightarrow> HttpRequest \<Rightarrow> bool" where
  "framing_inv spool r0 r \<longleftrightarrow>
     0 \<le> rq_content_length r \<and> rq_content_length r \<le> max (int MAX_REQUEST_SIZE) spool \<and>
     (rq_body_too_large r0 \<longrightarrow> rq_body_too_large r) \<and>
     (rq_te_unsupported r0 \<longrightarrow> rq_te_unsupported r) \<and> (rq_chunked r0 \<longrightarrow> rq_chunked r)"

lemma framing_inv_refl:
  "0 \<le> rq_content_length r \<Longrightarrow> rq_content_length r \<le> max (int MAX_REQUEST_SIZE) spool \<Longrightarrow>
   framing_inv spool r r"
  by (simp add: framing_inv_def)

lemma framing_inv_trans:
  "framing_inv spool r0 r1 \<Longrightarrow> framing_inv spool r1 r2 \<Longrightarrow> framing_inv spool r0 r2"
  by (simp add: framing_inv_def)

lemma parse_header_line_framing:
  assumes "framing_inv spool r0 r"
  shows "framing_inv spool r0 (parse_header_line spool l r)"
proof -
  have inv_if: "framing_inv spool r0 a \<Longrightarrow> framing_inv spool r0 b \<Longrightarrow>
      framing_inv spool r0 (if c then a else b)" for a b c by simp
  have cl: "framing_inv spool r0 (parse_content_length spool l r)"
    using assms by (simp add: parse_content_length_def Let_def framing_inv_def le_max_iff_disj)
  have te: "framing_inv spool r0 (parse_transfer_encoding l r)"
    using assms by (simp add: parse_transfer_encoding_def Let_def framing_inv_def)
  have ex: "framing_inv spool r0 (capture_extra_header l r)"
    using assms by (simp add: capture_extra_header_def framing_inv_def)
  note fi = assms [unfolded framing_inv_def]
  show ?thesis
    unfolding parse_header_line_def
    by (intro inv_if cl te ex assms) (simp_all add: framing_inv_def fi)
qed

lemma scan_request_line_framing:
  "framing_inv spool r0 r \<Longrightarrow> scan_request_line l r = (ok, r') \<Longrightarrow> framing_inv spool r0 r'"
  by (auto simp: scan_request_line_def framing_inv_def split: option.splits)

lemma parse_headers_framing:
  "framing_inv spool r0 r \<Longrightarrow> NUL \<notin> set raw \<Longrightarrow>
   framing_inv spool r0 (snd (parse_headers lenient spool raw r))"
  by (rule parse_headers_preserves [of "framing_inv spool r0"])
    (simp_all add: parse_header_line_framing scan_request_line_framing)

section \<open>The grammar the strict parser accepts\<close>

definition header_text :: "string list \<Rightarrow> string \<Rightarrow> string" where
  "header_text ls body = concat (map (\<lambda>l. l @ crlf) ls) @ crlf @ body"

definition plain_line :: "string \<Rightarrow> bool" where
  "plain_line l \<longleftrightarrow> l \<noteq> [] \<and> (\<forall>c \<in> set l. \<not> is_eol c)"

definition apply_headers :: "int \<Rightarrow> string list \<Rightarrow> HttpRequest \<Rightarrow> HttpRequest" where
  "apply_headers spool ls r =
     foldl (\<lambda>r l. parse_header_line spool (take (MAX_PATH_SIZE - 1) l) r) r ls"

lemma is_eol_simps [simp]: "is_eol CR" "is_eol LF"
  by (simp_all add: is_eol_def)

lemma plain_line_span:
  assumes "plain_line l"
  shows "takeWhile (\<lambda>c. \<not> is_eol c) (l @ crlf @ x) = l"
    and "dropWhile (\<lambda>c. \<not> is_eol c) (l @ crlf @ x) = crlf @ x"
  using assms by (simp_all add: plain_line_def takeWhile_append dropWhile_append)

lemma parse_header_lines_complete:
  "\<forall>l \<in> set ls. plain_line l \<Longrightarrow>
   parse_header_lines False spool (crlf @ header_text ls body) r = (Some body, apply_headers spool ls r)"
proof (induction ls arbitrary: r)
  case Nil
  show ?case
    by (subst parse_header_lines.simps) (simp add: header_text_def apply_headers_def)
next
  case (Cons l ls)
  then have l: "plain_line l" and ls: "\<forall>l \<in> set ls. plain_line l" by simp_all
  let ?x = "header_text ls body" and ?r = "parse_header_line spool (take (MAX_PATH_SIZE - 1) l) r"
  have ht: "header_text (l # ls) body = l @ crlf @ ?x" by (simp add: header_text_def)
  have hd: "l \<noteq> []" "\<not> is_eol (hd l)" using l by (auto simp: plain_line_def)
  have "parse_header_lines False spool (crlf @ l @ crlf @ ?x) r =
      parse_header_lines False spool (l @ crlf @ ?x) r"
    using hd by (subst parse_header_lines.simps) simp
  also have "\<dots> = parse_header_lines False spool (crlf @ ?x) ?r"
    using hd plain_line_span [OF l, of ?x] by (subst parse_header_lines.simps) (simp add: Let_def)
  also have "\<dots> = (Some body, apply_headers spool ls ?r)" by (rule Cons.IH [OF ls])
  finally show ?case by (simp add: ht apply_headers_def)
qed

lemma consume_eol_strict:
  "consume_eol False s = Some t \<Longrightarrow> s \<noteq> [] \<Longrightarrow> is_eol (hd s) \<Longrightarrow> s = crlf @ t"
  by (cases s; cases "tl s") (auto simp: is_eol_def split: if_splits)

lemma parse_header_lines_sound:
  "parse_header_lines False spool s r = (Some body, r') \<Longrightarrow> s \<noteq> [] \<Longrightarrow>
   \<exists>ls. (\<forall>l \<in> set ls. plain_line l) \<and> r' = apply_headers spool ls r \<and>
        s = (if is_eol (hd s) then crlf else []) @ header_text ls body"
proof (induction "False" spool s r rule: parse_header_lines.induct)
  case (1 spool s r)
  show ?case
  proof (cases "is_eol (hd s)")
    case True
    then obtain t where t: "consume_eol False s = Some t"
      using "1.prems" by (subst (asm) parse_header_lines.simps) (auto split: option.splits)
    have s: "s = crlf @ t" using consume_eol_strict [OF t "1.prems"(2) True] .
    show ?thesis
    proof (cases "t \<noteq> [] \<and> is_eol (hd t)")
      case te: True
      have "parse_header_lines False spool s r = (consume_eol False t, r)"
        using te "1.prems"(2) True t by (subst parse_header_lines.simps) simp
      then have "consume_eol False t = Some body" and r: "r' = r" using "1.prems"(1) by simp_all
      then have "t = crlf @ body" using te consume_eol_strict by blast
      with s r True show ?thesis
        by (intro exI [of _ "[]"]) (simp add: header_text_def apply_headers_def)
    next
      case False
      then have p: "parse_header_lines False spool t r = (Some body, r')"
        using "1.prems" True t by (subst (asm) parse_header_lines.simps) (auto split: if_splits)
      have "t \<noteq> []" using p
        by (cases t) (simp_all add: parse_header_lines.simps [of False spool "[]"])
      with "1.hyps"(1) [OF "1.prems"(2) True t False p \<open>t \<noteq> []\<close>] False True s show ?thesis by auto
    qed
  next
    case False
    let ?line = "takeWhile (\<lambda>c. \<not> is_eol c) s" and ?t = "dropWhile (\<lambda>c. \<not> is_eol c) s"
    let ?r = "parse_header_line spool (take (MAX_PATH_SIZE - 1) ?line) r"
    have unf: "parse_header_lines False spool s r =
        (if ?t = [] then (None, r) else parse_header_lines False spool ?t ?r)"
      using "1.prems"(2) False by (subst parse_header_lines.simps) (simp only: Let_def if_False simp_thms)
    then have t: "?t \<noteq> []" and p: "parse_header_lines False spool ?t ?r = (Some body, r')"
      using "1.prems"(1) by (auto simp del: dropWhile_eq_Nil_conv split: if_splits)
    have eol: "is_eol (hd ?t)" using hd_dropWhile [OF t] by simp
    from "1.hyps"(2) [OF "1.prems"(2) False refl refl t p t] eol obtain ls where
      ls: "\<forall>l \<in> set ls. plain_line l" "r' = apply_headers spool ls ?r" "?t = crlf @ header_text ls body"
      by auto
    have "plain_line ?line"
      using False "1.prems"(2) by (cases s) (auto simp: plain_line_def dest: set_takeWhileD)
    moreover have "s = ?line @ ?t" by simp
    ultimately show ?thesis using ls False
      by (intro exI [of _ "?line # ls"]) (simp add: header_text_def apply_headers_def)
  qed
qed

lemma parse_headers_render:
  assumes "plain_line reqline" and "\<forall>l \<in> set ls. plain_line l"
    and "scan_request_line (take MAX_PATH_SIZE reqline) r = (True, r1)"
  shows "parse_headers False spool (reqline @ crlf @ header_text ls body) r =
    (Some body, apply_headers spool ls r1)"
proof -
  have "reqline \<noteq> []" using assms(1) by (simp add: plain_line_def)
  then show ?thesis
    using plain_line_span [OF assms(1), of "header_text ls body"] assms(3)
      parse_header_lines_complete [OF assms(2)]
    by (simp add: parse_headers_def)
qed

lemma parse_headers_iff:
  "parse_headers False spool raw r = (Some body, r') \<longleftrightarrow>
   (\<exists>reqline ls r1. raw = reqline @ crlf @ header_text ls body \<and> plain_line reqline \<and>
      (\<forall>l \<in> set ls. plain_line l) \<and> scan_request_line (take MAX_PATH_SIZE reqline) r = (True, r1) \<and>
      r' = apply_headers spool ls r1)" (is "?L \<longleftrightarrow> ?R")
proof
  assume ?R
  then obtain reqline ls r1 where R: "raw = reqline @ crlf @ header_text ls body" "plain_line reqline"
    "\<forall>l \<in> set ls. plain_line l" "scan_request_line (take MAX_PATH_SIZE reqline) r = (True, r1)"
    "r' = apply_headers spool ls r1" by blast
  from parse_headers_render [OF R(2-4)] R(1,5) show ?L by simp
next
  assume L: ?L
  let ?line = "takeWhile (\<lambda>c. \<not> is_eol c) raw" and ?s = "dropWhile (\<lambda>c. \<not> is_eol c) raw"
  obtain ok r1 where sc: "scan_request_line (take MAX_PATH_SIZE ?line) r = (ok, r1)" by fastforce
  have ne: "?line \<noteq> []" "?s \<noteq> []"
    using L by (auto simp: parse_headers_def Let_def simp del: dropWhile_eq_Nil_conv split: if_splits)
  have "ok" and p: "parse_header_lines False spool ?s r1 = (Some body, r')"
    using L ne sc by (cases ok, simp_all add: parse_headers_def Let_def del: dropWhile_eq_Nil_conv)+
  have eol: "is_eol (hd ?s)" using hd_dropWhile [OF ne(2)] by simp
  from parse_header_lines_sound [OF p ne(2)] eol obtain ls where
    ls: "\<forall>l \<in> set ls. plain_line l" "r' = apply_headers spool ls r1" "?s = crlf @ header_text ls body"
    by auto
  have "plain_line ?line" using ne(1) by (auto simp: plain_line_def dest: set_takeWhileD)
  moreover have "raw = ?line @ crlf @ header_text ls body"
    using ls(3) takeWhile_dropWhile_id [of "\<lambda>c. \<not> is_eol c" raw] by simp
  ultimately show ?R using ls sc \<open>ok\<close> by (intro exI [of _ ?line] exI [of _ ls] exI [of _ r1]) simp
qed

lemma apply_headers_framing:
  "framing_inv spool r0 r \<Longrightarrow> framing_inv spool r0 (apply_headers spool ls r)"
  unfolding apply_headers_def
  by (induction ls arbitrary: r) (simp_all add: parse_header_line_framing)

lemma content_length_line:
  assumes "ci_prefix ''Content-Length:'' l"
  shows "parse_header_line spool l r = parse_content_length spool l r"
proof -
  have clashes: "\<not> ci_clash ''Host:'' ''Content-Length:''"
    "\<not> ci_clash ''User-Agent:'' ''Content-Length:''" "\<not> ci_clash ''Referer:'' ''Content-Length:''"
    "\<not> ci_clash ''Origin:'' ''Content-Length:''" "\<not> ci_clash ''Sec-Fetch-Site:'' ''Content-Length:''"
    "\<not> ci_clash ''Accept:'' ''Content-Length:''" "\<not> ci_clash ''Accept-Encoding:'' ''Content-Length:''"
    "\<not> ci_clash ''Content-Type:'' ''Content-Length:''" "\<not> ci_clash ''Connection:'' ''Content-Length:''"
    "\<not> ci_clash ''Authorization:'' ''Content-Length:''" "\<not> ci_clash ''Cookie:'' ''Content-Length:''"
    "\<not> ci_clash ''X-Forwarded-For:'' ''Content-Length:''"
    "\<not> ci_clash ''If-None-Match:'' ''Content-Length:''"
    "\<not> ci_clash ''If-Modified-Since:'' ''Content-Length:''"
    "\<not> ci_clash ''Expect:'' ''Content-Length:''" "\<not> ci_clash ''Range:'' ''Content-Length:''"
    by code_simp+
  show ?thesis
    unfolding parse_header_line_def
    by (simp only: assms clashes [THEN ci_prefix_clash [OF assms]] if_True if_False)
qed

section \<open>Properties\<close>

text \<open>
  (C13) Whatever bytes arrive and whichever line-ending policy is set, parsing leaves every field
  of the request a terminated string inside its array, and the body length it accepts is between
  0 and the larger of the read buffer and the spool cap.
\<close>

theorem parse_request_bounded:
  assumes "request_wf r" and "framing_inv spool r r"
  shows "request_wf (snd (parse_request lenient spool buffer r)) \<and>
    0 \<le> rq_content_length (snd (parse_request lenient spool buffer r)) \<and>
    rq_content_length (snd (parse_request lenient spool buffer r)) \<le> max (int MAX_REQUEST_SIZE) spool"
proof -
  let ?raw = "take MAX_REQUEST_SIZE (cstr buffer)"
  have "NUL \<notin> set ?raw" by (auto dest: in_set_takeD)
  from parse_headers_wf [OF assms(1) this, of lenient spool]
    parse_headers_framing [OF assms(2) this, of lenient]
  show ?thesis
    by (cases "parse_headers lenient spool ?raw r") (simp add: parse_request_def framing_inv_def)
qed

theorem parse_request_bounded_witness:
  "request_wf (snd (parse_request False 8388608 ''GET / HTTP/1.1'' zero_request))"
proof -
  have "framing_inv 8388608 zero_request zero_request"
    by (simp add: framing_inv_def zero_request_def)
  then show ?thesis using parse_request_bounded [OF zero_request_wf] by blast
qed

text \<open>
  (C1) Under the default strict policy the parser accepts exactly the CRLF grammar: a request
  line, header lines, each ended by CRLF and none holding a CR or LF of its own, and an empty
  line; it returns the text after that empty line as the body and the request the header lines
  produce in order.  A bare LF or a lone CR anywhere in the header block is a rejection.
\<close>

theorem strict_parser_accepts_crlf_grammar:
  "(parse_headers False spool raw r = (Some body, r')) =
   (\<exists>reqline ls r1. raw = reqline @ crlf @ header_text ls body \<and> plain_line reqline \<and>
      list_all plain_line ls \<and> scan_request_line (take MAX_PATH_SIZE reqline) r = (True, r1) \<and>
      r' = apply_headers spool ls r1)"
  unfolding parse_headers_iff list_all_iff by (rule refl)

text \<open>
  An oversized declared body cannot be hidden: if any header line is a Content-Length above
  the caps, the request the parser returns is flagged \<open>body_too_large\<close>, whatever the other
  header lines, before or after it, say.
\<close>

theorem oversized_body_always_flagged:
  assumes "parse_headers False spool raw r = (Some body, r')"
    and "raw = reqline @ crlf @ header_text (ls1 @ [l] @ ls2) body"
    and "plain_line reqline" and "list_all plain_line (ls1 @ [l] @ ls2)" and "length l < MAX_PATH_SIZE"
    and "ci_prefix ''Content-Length:'' l" and "fst (strtol10 (drop 15 l)) > max (int MAX_REQUEST_SIZE) spool"
    and "framing_inv spool r r"
  shows "rq_body_too_large r'"
proof -
  obtain ok r1 where sc: "scan_request_line (take MAX_PATH_SIZE reqline) r = (ok, r1)" by fastforce
  have "ok"
  proof (rule ccontr)
    assume "\<not> ok"
    then have "fst (parse_headers False spool raw r) = None"
      using sc assms(2,3) plain_line_span [OF assms(3)] by (simp add: parse_headers_def)
    with assms(1) show False by simp
  qed
  with sc assms(2-4) have "parse_headers False spool raw r =
      (Some body, apply_headers spool (ls1 @ [l] @ ls2) r1)"
    using parse_headers_render [OF assms(3), of "ls1 @ [l] @ ls2"] by (simp add: list_all_iff)
  with assms(1) have r': "r' = apply_headers spool (ls1 @ [l] @ ls2) r1" by simp
  have f1: "framing_inv spool r (apply_headers spool ls1 r1)"
    using scan_request_line_framing [OF assms(8) sc] by (rule apply_headers_framing)
  define r2 where "r2 = parse_header_line spool l (apply_headers spool ls1 r1)"
  have "rq_body_too_large r2"
    using assms(7) by (simp add: r2_def content_length_line [OF assms(6)] parse_content_length_def Let_def)
  moreover have "framing_inv spool r2 r2"
    using parse_header_line_framing [OF f1, of l] by (simp add: r2_def framing_inv_def)
  then have "framing_inv spool r2 (apply_headers spool ls2 r2)" by (rule apply_headers_framing)
  ultimately show ?thesis
    using assms(5) by (simp add: r' r2_def apply_headers_def framing_inv_def)
qed

theorem oversized_body_always_flagged_witness:
  "rq_body_too_large (snd (parse_headers False 70000
     (''P / H'' @ crlf @ header_text ([''Content-Length: 99999''] @ [''Content-Length: 99999''] @ [''Content-Length: 1'']) [])
     zero_request))"
proof -
  let ?ls = "[''Content-Length: 99999''] @ [''Content-Length: 99999''] @ [''Content-Length: 1'']"
  let ?raw = "''P / H'' @ crlf @ header_text ?ls []"
  have pl: "plain_line ''P / H''" "list_all plain_line ?ls" by code_simp+
  define r1 where "r1 = snd (scan_request_line (take MAX_PATH_SIZE ''P / H'') zero_request)"
  have "fst (scan_request_line (take MAX_PATH_SIZE ''P / H'') zero_request)" by code_simp
  then have sc: "scan_request_line (take MAX_PATH_SIZE ''P / H'') zero_request = (True, r1)"
    unfolding r1_def prod_eq_iff by simp
  have parsed: "parse_headers False 70000 ?raw zero_request = (Some [], apply_headers 70000 ?ls r1)"
    by (rule parse_headers_render [OF pl(1) _ sc]) (use pl(2) in \<open>simp only: list_all_iff\<close>)
  have "rq_body_too_large (apply_headers 70000 ?ls r1)"
  proof (rule oversized_body_always_flagged [OF parsed refl pl])
    show "ci_prefix ''Content-Length:'' ''Content-Length: 99999''" by code_simp
    have "fst (strtol10 (drop 15 ''Content-Length: 99999'')) = 99999"
      by (simp add: strtol10_def dec_value_def isspace_def isdigit_def LONG_MAX_def LONG_MIN_def)
    then show "max (int MAX_REQUEST_SIZE) 70000 < fst (strtol10 (drop 15 ''Content-Length: 99999''))"
      by (simp add: MAX_REQUEST_SIZE_def)
    show "length ''Content-Length: 99999'' < MAX_PATH_SIZE" by (simp add: MAX_PATH_SIZE_def)
    show "framing_inv 70000 zero_request zero_request" by (simp add: framing_inv_def zero_request_def)
  qed
  then show ?thesis unfolding parsed by simp
qed

text \<open>
  Conflicting or unreadable declarations below the caps are not rejected: the last
  Content-Length decides, and one that is negative or not a number makes the request body-less
  with no flag raised, although an earlier header announced bytes.
\<close>

theorem last_content_length_wins:
  "\<exists>r'. parse_headers False 8388608
      (''POST / HTTP/1.1'' @ crlf @ header_text [''Content-Length: 5'', ''Content-Length: -1''] ''hello'')
      zero_request = (Some ''hello'', r') \<and>
     rq_content_length r' = 0 \<and> \<not> rq_body_too_large r' \<and> \<not> rq_chunked r' \<and> \<not> rq_te_unsupported r'"
proof -
  let ?ls = "[''Content-Length: 5'', ''Content-Length: -1'']" and ?l = "''POST / HTTP/1.1''"
  have pl: "plain_line ?l" "\<forall>l \<in> set ?ls. plain_line l" by code_simp+
  define sc where "sc = scan_request_line (take MAX_PATH_SIZE ?l) zero_request"
  have ok: "fst sc" unfolding sc_def by code_simp
  then have sc: "scan_request_line (take MAX_PATH_SIZE ?l) zero_request = (True, snd sc)"
    by (simp add: sc_def prod_eq_iff)
  have "parse_headers False 8388608 (?l @ crlf @ header_text ?ls ''hello'') zero_request =
      (Some ''hello'', apply_headers 8388608 ?ls (snd sc))"
    using pl sc by (rule parse_headers_render)
  moreover have "ci_prefix ''Content-Length:'' ''Content-Length: 5''"
    "ci_prefix ''Content-Length:'' ''Content-Length: -1''" by code_simp+
  moreover have "fst (strtol10 (drop 15 ''Content-Length: 5'')) = 5"
    "fst (strtol10 (drop 15 ''Content-Length: -1'')) = - 1" by code_simp+
  moreover have "\<not> rq_body_too_large (snd sc) \<and> \<not> rq_chunked (snd sc) \<and> \<not> rq_te_unsupported (snd sc)"
    unfolding sc_def by code_simp
  ultimately show ?thesis
    by (simp add: apply_headers_def MAX_PATH_SIZE_def MAX_REQUEST_SIZE_def content_length_line
        parse_content_length_def)
qed

end
