(* ===== verification/Slot_Table.thy ===== *)
theory Slot_Table
  imports Prelude
begin

text \<open>
  The open-addressing tables of the two limiters (\<open>ratelimit.c\<close>, \<open>loginlimit.c\<close>): a fixed array
  in shared memory, a probe sequence of a few consecutive slots per key, and a loop that stops at
  the first slot that is free or already the key's.  The locale states what both tables have in
  common; each limiter interprets it on its own buckets.
\<close>

definition probe_slots :: "nat \<Rightarrow> nat \<Rightarrow> nat \<Rightarrow> nat list" where
  "probe_slots base probes size' = map (\<lambda>i. (base + i) mod size') [0..<probes]"

text \<open>The probe loop: the first slot, in probe order, that satisfies the test.\<close>

primrec first_slot :: "('b \<Rightarrow> bool) \<Rightarrow> 'b list \<Rightarrow> nat list \<Rightarrow> nat option" where
  "first_slot test tbl [] = None"
| "first_slot test tbl (j # js) = (if test (tbl ! j) then Some j else first_slot test tbl js)"

lemma first_slot_Some:
  "first_slot test tbl js = Some j \<Longrightarrow> j \<in> set js \<and> test (tbl ! j)"
  by (induction js) (auto split: if_splits)

lemma first_slot_None: "first_slot test tbl js = None \<longleftrightarrow> (\<forall>j \<in> set js. \<not> test (tbl ! j))"
  by (induction js) auto

lemma first_slot_cong:
  "(\<And>j. j \<in> set js \<Longrightarrow> test (tbl ! j) = test (tbl' ! j)) \<Longrightarrow>
   first_slot test tbl js = first_slot test tbl' js"
  by (induction js) auto

lemma set_probe_slots: "0 < n \<Longrightarrow> j \<in> set (probe_slots base probes n) \<Longrightarrow> j < n"
  by (auto simp: probe_slots_def)

lemma hd_probe_slots: "base < n \<Longrightarrow> 0 < probes \<Longrightarrow> probe_slots base probes n = base # tl (probe_slots base probes n)"
  by (cases probes) (simp_all add: probe_slots_def upt_conv_Cons del: upt_Suc)

locale slot_table =
  fixes slots :: "'k \<Rightarrow> nat list"
    and free :: "'b \<Rightarrow> bool"
    and owner :: "'b \<Rightarrow> 'k"
    and size' :: nat
  assumes slots_in_range: "j \<in> set (slots k) \<Longrightarrow> j < size'"
begin

definition lookup :: "'k \<Rightarrow> 'b list \<Rightarrow> nat option" where
  "lookup k tbl = first_slot (\<lambda>b. free b \<or> owner b = k) tbl (slots k)"

text \<open>A write to the slot the lookup of \<open>k\<close> found touches no bucket another key owns.\<close>

lemma update_keeps_others:
  assumes "lookup k tbl = Some j" and "\<not> free (tbl ! i)" and "owner (tbl ! i) \<noteq> k"
  shows "tbl[j := b] ! i = tbl ! i"
  using assms first_slot_Some [of "\<lambda>b. free b \<or> owner b = k" tbl "slots k" j]
  by (cases "i = j") (auto simp: lookup_def)

text \<open>Storing a bucket of \<open>k\<close> there makes it what the next lookup of \<open>k\<close> finds.\<close>

lemma lookup_after_store:
  assumes "lookup k tbl = Some j" and "length tbl = size'" and "owner b = k"
  shows "lookup k (tbl[j := b]) = Some j"
proof -
  have "first_slot (\<lambda>b. free b \<or> owner b = k) (tbl[j := b]) js = Some j"
    if "first_slot (\<lambda>b. free b \<or> owner b = k) tbl js = Some j" "j < length tbl" for js
    using that assms(3)
  proof (induction js)
    case (Cons i js)
    then show ?case by (cases "i = j") (auto split: if_splits)
  qed simp
  moreover have "j < length tbl"
    using assms(1,2) slots_in_range first_slot_Some by (fastforce simp: lookup_def)
  ultimately show ?thesis using assms(1) by (simp add: lookup_def)
qed

text \<open>A store that leaves the slot owned never changes where another owned key is found.\<close>

lemma store_keeps_lookup:
  assumes "lookup k tbl = Some j" and "length tbl = size'" and "owner b = k" and "\<not> free b"
    and "lookup k' tbl = Some i" and "\<not> free (tbl ! i)" and "k' \<noteq> k"
  shows "lookup k' (tbl[j := b]) = Some i"
proof -
  have own: "owner (tbl ! i) = k'"
    using assms(5,6) first_slot_Some by (fastforce simp: lookup_def)
  have ij: "i \<noteq> j" using assms(1,6,7) own first_slot_Some by (fastforce simp: lookup_def)
  have "first_slot (\<lambda>b. free b \<or> owner b = k') (tbl[j := b]) js = Some i"
    if "first_slot (\<lambda>b. free b \<or> owner b = k') tbl js = Some i" for js
    using that
  proof (induction js)
    case (Cons l js)
    show ?case
    proof (cases "l = i")
      case True
      with Cons.prems ij own show ?thesis by auto
    next
      case False
      then have n: "\<not> (free (tbl ! l) \<or> owner (tbl ! l) = k')"
        "first_slot (\<lambda>b. free b \<or> owner b = k') tbl js = Some i"
        using Cons.prems by (auto split: if_splits)
      have "\<not> (free (tbl[j := b] ! l) \<or> owner (tbl[j := b] ! l) = k')"
        using n(1) assms(3,4,7) by (cases "l = j"; cases "j < length tbl") (auto simp: list_update_beyond)
      with Cons.IH [OF n(2)] show ?thesis by simp
    qed
  qed simp
  with assms(5) show ?thesis by (simp add: lookup_def)
qed

end

end
