(* ===== verification/Login_Limit.thy ===== *)
theory Login_Limit
  imports Slot_Table
begin

unbundle bit_operations_syntax

text \<open>
  \<open>src/src/security/loginlimit.c\<close>: the failure counter per (user, ip) that guards the login
  form.  The shared table is a list of buckets; the clock is the argument \<open>now\<close>; \<open>None\<close> for the table
  is the state before \<open>login_limiter_init\<close> or after a failed \<open>mmap\<close>.  Each operation is one call of the
  limiter; how the calls of several workers interleave is the relation \<open>guess_run\<close>.
\<close>

section \<open>Definitions\<close>

definition LOGIN_TABLE_SIZE :: nat where "LOGIN_TABLE_SIZE = 1024"
definition LOGIN_MAX_PROBES :: nat where "LOGIN_MAX_PROBES = 8"
definition LOGIN_MAX_FAILURES :: int where "LOGIN_MAX_FAILURES = 5"
definition LOGIN_BACKOFF_BASE :: int where "LOGIN_BACKOFF_BASE = 30"
definition LOGIN_MAX_LOCKOUT :: int where "LOGIN_MAX_LOCKOUT = 900"
definition LOGIN_RESET_SECONDS :: int where "LOGIN_RESET_SECONDS = 900"

record login_bucket =
  lb_key :: "32 word"
  lb_fail_count :: int
  lb_first_fail :: int
  lb_lock_until :: int

definition zero_login_bucket :: login_bucket where
  "zero_login_bucket = \<lparr>lb_key = 0, lb_fail_count = 0, lb_first_fail = 0, lb_lock_until = 0\<rparr>"

definition fnv_byte :: "32 word \<Rightarrow> nat \<Rightarrow> 32 word" where
  "fnv_byte h b = (h XOR word_of_nat b) * 0x01000193"

definition login_key :: "string \<Rightarrow> string \<Rightarrow> 32 word" where
  "login_key user ip =
     (let h1 = foldl (\<lambda>h c. fnv_byte h (code c)) 0x811c9dc5 user;
          h2 = fnv_byte h1 0xff;
          h3 = foldl (\<lambda>h c. fnv_byte h (code c)) h2 ip
      in if h3 \<noteq> 0 then h3 else 1)"

type_synonym login_table = "login_bucket list option"

definition login_limiter_init :: "login_table \<Rightarrow> bool \<Rightarrow> login_table" where
  "login_limiter_init tbl mmap_ok =
     (case tbl of
        Some t \<Rightarrow> Some t
      | None \<Rightarrow> if mmap_ok then Some (replicate LOGIN_TABLE_SIZE zero_login_bucket) else None)"

definition login_slots :: "32 word \<Rightarrow> nat list" where
  "login_slots key = probe_slots (unat key mod LOGIN_TABLE_SIZE) LOGIN_MAX_PROBES LOGIN_TABLE_SIZE"

text \<open>The probe loop of the three operations: the first slot that is free or the pair's own.\<close>

definition login_probe :: "32 word \<Rightarrow> login_bucket list \<Rightarrow> nat option" where
  "login_probe key t = first_slot (\<lambda>b. lb_key b = 0 \<or> lb_key b = key) t (login_slots key)"

definition login_blocked_key :: "login_bucket list \<Rightarrow> 32 word \<Rightarrow> int \<Rightarrow> int" where
  "login_blocked_key t key now =
     (case login_probe key t of
        None \<Rightarrow> 0
      | Some j \<Rightarrow>
          if lb_key (t ! j) \<noteq> key then 0
          else if lb_lock_until (t ! j) > now then lb_lock_until (t ! j) - now else 0)"

definition login_limiter_blocked_for :: "login_table \<Rightarrow> string \<Rightarrow> string \<Rightarrow> int \<Rightarrow> int" where
  "login_limiter_blocked_for tbl user ip now =
     (case tbl of None \<Rightarrow> 0 | Some t \<Rightarrow> login_blocked_key t (login_key user ip) now)"

text \<open>The bucket of a pair that is already tracked, after one more failure.\<close>

definition login_bucket_fail :: "login_bucket \<Rightarrow> int \<Rightarrow> login_bucket" where
  "login_bucket_fail b now =
     (let b1 = (if now - lb_first_fail b > LOGIN_RESET_SECONDS
                then b\<lparr>lb_first_fail := now, lb_fail_count := 1\<rparr>
                else b\<lparr>lb_fail_count := wrap32 (lb_fail_count b + 1)\<rparr>)
      in if lb_fail_count b1 \<ge> LOGIN_MAX_FAILURES then
           let backoff = wrap64 (LOGIN_BACKOFF_BASE * 2 ^ nat (lb_fail_count b1 - LOGIN_MAX_FAILURES));
               backoff' = (if backoff > LOGIN_MAX_LOCKOUT then LOGIN_MAX_LOCKOUT else backoff)
           in b1\<lparr>lb_lock_until := now + backoff'\<rparr>
         else b1)"

definition login_fail_key :: "login_bucket list \<Rightarrow> 32 word \<Rightarrow> int \<Rightarrow> login_bucket list" where
  "login_fail_key t key now =
     (case login_probe key t of
        None \<Rightarrow> t
      | Some j \<Rightarrow>
          if lb_key (t ! j) = 0
          then t[j := (t ! j)\<lparr>lb_key := key, lb_first_fail := now, lb_fail_count := 1\<rparr>]
          else t[j := login_bucket_fail (t ! j) now])"

definition login_limiter_fail :: "login_table \<Rightarrow> string \<Rightarrow> string \<Rightarrow> int \<Rightarrow> login_table" where
  "login_limiter_fail tbl user ip now =
     (case tbl of None \<Rightarrow> None | Some t \<Rightarrow> Some (login_fail_key t (login_key user ip) now))"

definition login_success_key :: "login_bucket list \<Rightarrow> 32 word \<Rightarrow> login_bucket list" where
  "login_success_key t key =
     (case login_probe key t of
        None \<Rightarrow> t
      | Some j \<Rightarrow>
          if lb_key (t ! j) = key
          then t[j := (t ! j)\<lparr>lb_key := 0, lb_fail_count := 0, lb_lock_until := 0\<rparr>]
          else t)"

definition login_limiter_success :: "login_table \<Rightarrow> string \<Rightarrow> string \<Rightarrow> login_table" where
  "login_limiter_success tbl user ip =
     (case tbl of None \<Rightarrow> None | Some t \<Rightarrow> Some (login_success_key t (login_key user ip)))"

section \<open>The table as a slot table\<close>

lemma login_slots_range: "j \<in> set (login_slots key) \<Longrightarrow> j < LOGIN_TABLE_SIZE"
  unfolding login_slots_def by (rule set_probe_slots) (simp_all add: LOGIN_TABLE_SIZE_def)

interpretation logins: slot_table login_slots "\<lambda>b. lb_key b = 0" lb_key LOGIN_TABLE_SIZE
  by unfold_locales (rule login_slots_range)

lemma login_probe_lookup: "login_probe key t = logins.lookup key t"
  by (simp add: login_probe_def logins.lookup_def)

lemma login_key_nonzero: "login_key user ip \<noteq> 0"
  by (simp add: login_key_def Let_def)

lemma login_probe_Some:
  "login_probe key t = Some j \<Longrightarrow> j < LOGIN_TABLE_SIZE \<and> (lb_key (t ! j) = 0 \<or> lb_key (t ! j) = key)"
  using first_slot_Some login_slots_range by (fastforce simp: login_probe_def)

lemma login_bucket_fail_key [simp]: "lb_key (login_bucket_fail b now) = lb_key b"
  by (simp add: login_bucket_fail_def Let_def)

section \<open>The backoff\<close>

text \<open>Up to 63 failures the shifted backoff does not overflow; from the tenth on the cap holds.\<close>

lemma login_backoff_exact_power:
  "5 \<le> c \<Longrightarrow> c \<le> (63::int) \<Longrightarrow>
   wrap64 (LOGIN_BACKOFF_BASE * 2 ^ nat (c - LOGIN_MAX_FAILURES)) = 30 * 2 ^ nat (c - 5)"
proof -
  assume c: "5 \<le> c" "c \<le> 63"
  define x :: int where "x = 2 ^ nat (c - 5)"
  have "nat (c - 5) \<le> 58" using c by simp
  then have "x \<le> 2 ^ 58" unfolding x_def by (intro power_increasing) simp_all
  moreover have "0 \<le> x" by (simp add: x_def)
  ultimately have "wrap64 (30 * x) = 30 * x" by (intro wrap64_id) simp_all
  then show ?thesis by (simp add: LOGIN_BACKOFF_BASE_def LOGIN_MAX_FAILURES_def x_def)
qed

definition login_backoff :: "int \<Rightarrow> int" where
  "login_backoff c = min 900 (30 * 2 ^ nat (c - 5))"

lemma login_backoff_cap: "10 \<le> c \<Longrightarrow> login_backoff c = 900"
proof -
  assume "10 \<le> c"
  then have "(2::int) ^ 5 \<le> 2 ^ nat (c - 5)" by (intro power_increasing) simp_all
  then show ?thesis by (simp add: login_backoff_def)
qed

text \<open>A failure inside the streak window, and one behind it.\<close>

lemma login_bucket_fail_in_window:
  assumes "now - lb_first_fail b \<le> LOGIN_RESET_SECONDS" and "1 \<le> lb_fail_count b" and "lb_fail_count b \<le> 62"
  shows "login_bucket_fail b now =
    b\<lparr>lb_fail_count := lb_fail_count b + 1,
      lb_lock_until := (if lb_fail_count b < 4 then lb_lock_until b
                        else now + login_backoff (lb_fail_count b + 1))\<rparr>"
proof -
  have wrap: "wrap32 (lb_fail_count b + 1) = lb_fail_count b + 1"
    using assms(2,3) by (intro wrap32_id) simp_all
  show ?thesis
  proof (cases "lb_fail_count b < 4")
    case True
    with wrap assms(1) show ?thesis
      by (simp add: login_bucket_fail_def LOGIN_MAX_FAILURES_def)
  next
    case False
    with login_backoff_exact_power [of "lb_fail_count b + 1"] assms
    have "wrap64 (LOGIN_BACKOFF_BASE * 2 ^ nat (lb_fail_count b + 1 - LOGIN_MAX_FAILURES)) =
        30 * 2 ^ nat (lb_fail_count b + 1 - 5)"
      by simp
    with wrap assms(1) False show ?thesis
      by (simp add: login_bucket_fail_def Let_def login_backoff_def LOGIN_MAX_LOCKOUT_def min_def
          LOGIN_MAX_FAILURES_def [symmetric])
        (simp add: LOGIN_MAX_FAILURES_def)
  qed
qed

lemma login_bucket_fail_restarts:
  "now - lb_first_fail b > LOGIN_RESET_SECONDS \<Longrightarrow>
   login_bucket_fail b now = b\<lparr>lb_first_fail := now, lb_fail_count := 1\<rparr>"
  by (simp add: login_bucket_fail_def LOGIN_MAX_FAILURES_def)

section \<open>Guessing runs of the login endpoint\<close>

text \<open>
  How the workers use the limiter while somebody guesses passwords (\<open>handle_login\<close>, \<open>http_route.c\<close>): a worker
  asks \<open>login_limiter_blocked_for\<close>, and if the pair is not locked it compares the password and then calls
  \<open>login_limiter_fail\<close>.  These are separate calls, and other workers run between them: \<open>flight\<close> holds the
  pairs of the attempts that have passed the check and are not recorded yet (at most \<open>N\<close>, one per
  worker), \<open>guesses\<close> those of all attempts that have passed it, that is every password that was compared.  The
  clock of a call may lag up to \<open>L\<close> seconds behind the instant \<open>T\<close> the call takes effect.  In a guessing run no
  login succeeds, so a slot once taken stays taken and each probe loop, which locks one slot at a
  time, has the effect it has when it runs alone at the moment it locks its last slot.
\<close>

inductive guess_run ::
  "nat \<Rightarrow> int \<Rightarrow> int \<Rightarrow> int \<Rightarrow> login_bucket list \<Rightarrow> 32 word list \<Rightarrow> 32 word list \<Rightarrow> bool" for N L T0 where
  start: "guess_run N L T0 T0 (replicate LOGIN_TABLE_SIZE zero_login_bucket) [] []"
| clock: "guess_run N L T0 T t flight guesses \<Longrightarrow> T \<le> T' \<Longrightarrow> guess_run N L T0 T' t flight guesses"
| check: "guess_run N L T0 T t flight guesses \<Longrightarrow> T - L \<le> now \<Longrightarrow> now \<le> T \<Longrightarrow> key \<noteq> 0 \<Longrightarrow>
    length flight < N \<Longrightarrow> login_blocked_key t key now = 0 \<Longrightarrow>
    guess_run N L T0 T t (key # flight) (key # guesses)"
| fail: "guess_run N L T0 T t flight guesses \<Longrightarrow> T - L \<le> now \<Longrightarrow> now \<le> T \<Longrightarrow> key \<in> set flight \<Longrightarrow>
    guess_run N L T0 T (login_fail_key t key now) (remove1 key flight) guesses"

section \<open>The invariant of a streak\<close>

text \<open>
  A tracked bucket with \<open>p\<close> of its attempts in flight and \<open>g\<close> passwords compared in all.  Inside the window
  the recorded failures and the attempts in flight are at most \<open>9 + 2 N\<close>: at most nine failures are needed to
  lock the pair up to the end of the window, the attempts that passed the check before are at most \<open>N\<close>, and at most
  \<open>N\<close> more pass it at the very end of the window, before the first of them locks the pair again.
\<close>

definition streak_ok :: "int \<Rightarrow> int \<Rightarrow> int \<Rightarrow> int \<Rightarrow> login_bucket \<Rightarrow> int \<Rightarrow> int \<Rightarrow> bool" where
  "streak_ok N L T0 T b p g \<longleftrightarrow>
     1 \<le> lb_fail_count b \<and> lb_fail_count b \<le> 9 + 2 * N \<and> T0 - L \<le> lb_first_fail b \<and> lb_first_fail b \<le> T \<and>
     (T - L \<le> lb_first_fail b + 900 \<longrightarrow>
        lb_fail_count b + p \<le> 9 + 2 * N \<and> (lb_fail_count b + p \<le> 9 + N \<or> lb_first_fail b + 900 \<le> T + L)) \<and>
     (10 \<le> lb_fail_count b \<longrightarrow> lb_first_fail b - L + 900 \<le> lb_lock_until b) \<and>
     (9 + N < lb_fail_count b \<longrightarrow> lb_first_fail b + 900 + L < lb_lock_until b) \<and>
     g \<le> (9 + 2 * N) * ((lb_first_fail b - (T0 - L)) div 901) + lb_fail_count b + p"

lemma streak_clock: "streak_ok N L T0 T b p g \<Longrightarrow> T \<le> T' \<Longrightarrow> streak_ok N L T0 T' b p g"
  by (auto simp: streak_ok_def)

lemma streak_check:
  "streak_ok N L T0 T b p g \<Longrightarrow> lb_lock_until b \<le> now \<Longrightarrow> now \<le> T \<Longrightarrow> p + 1 \<le> N \<Longrightarrow>
   streak_ok N L T0 T b (p + 1) (g + 1)"
  by (auto simp: streak_ok_def)

lemma streak_first:
  "T0 \<le> T \<Longrightarrow> T - L \<le> now \<Longrightarrow> now \<le> T \<Longrightarrow> 0 \<le> L \<Longrightarrow> p \<le> N \<Longrightarrow> 0 \<le> p \<Longrightarrow> 0 \<le> N \<Longrightarrow>
   streak_ok N L T0 T (b\<lparr>lb_key := k, lb_first_fail := now, lb_fail_count := 1\<rparr>) p (p + 1)"
  by (auto simp: streak_ok_def pos_imp_zdiv_nonneg_iff)

lemma streak_fail:
  assumes "streak_ok N L T0 T b p g" and "1 \<le> p" and "p \<le> N" and "N \<le> 27"
    and "T - L \<le> now" and "now \<le> T" and "0 \<le> L" and "L < 300" and "T0 \<le> T"
  shows "streak_ok N L T0 T (login_bucket_fail b now) (p - 1) g"
proof (cases "now - lb_first_fail b > LOGIN_RESET_SECONDS")
  case True
  let ?d = "\<lambda>f. (f - (T0 - L)) div 901"
  have late: "lb_first_fail b + 901 \<le> now" using True by (simp add: LOGIN_RESET_SECONDS_def)
  then have "?d (lb_first_fail b) + 1 \<le> ?d now"
    using zdiv_mono1 [of "lb_first_fail b - (T0 - L) + 901" "now - (T0 - L)" 901] by simp
  then have "(9 + 2 * N) * (?d (lb_first_fail b) + 1) \<le> (9 + 2 * N) * ?d now"
    using assms(2,3) by (intro mult_left_mono) simp_all
  then have "g \<le> (9 + 2 * N) * ?d now + p"
    using assms(1) by (simp add: streak_ok_def algebra_simps)
  then show ?thesis
    using assms late by (auto simp: login_bucket_fail_restarts [OF True] streak_ok_def)
next
  case False
  let ?c = "lb_fail_count b"
  have win: "T - L \<le> lb_first_fail b + 900" using False assms(5) by (simp add: LOGIN_RESET_SECONDS_def)
  have c: "1 \<le> ?c" "?c + p \<le> 9 + 2 * N" "?c + p \<le> 9 + N \<or> lb_first_fail b + 900 \<le> T + L"
    "lb_first_fail b \<le> T"
    using assms(1) win by (simp_all add: streak_ok_def)
  have "login_bucket_fail b now = b\<lparr>lb_fail_count := ?c + 1,
      lb_lock_until := (if ?c < 4 then lb_lock_until b else now + login_backoff (?c + 1))\<rparr>"
    using False c assms(2,4) by (intro login_bucket_fail_in_window) simp_all
  moreover have "9 \<le> ?c \<Longrightarrow> login_backoff (?c + 1) = 900" by (simp add: login_backoff_cap)
  ultimately show ?thesis using assms c win by (auto simp: streak_ok_def)
qed

lemma streak_total:
  assumes s: "streak_ok N L T0 T b p g" and p: "p \<le> N" and L: "0 \<le> L"
  shows "g \<le> (9 + 2 * N) * (1 + (T - T0 + L) div 901)"
proof -
  let ?f = "lb_first_fail b" and ?c = "lb_fail_count b"
  let ?q = "(?f - (T0 - L)) div 901" and ?D = "(T - T0 + L) div 901"
  have g: "g \<le> (9 + 2 * N) * ?q + ?c + p" and c: "1 \<le> ?c" "?c \<le> 9 + 2 * N" and f: "?f \<le> T"
    using s by (simp_all add: streak_ok_def)
  show ?thesis
  proof (cases "T - L \<le> ?f + 900")
    case True
    then have "?c + p \<le> 9 + 2 * N" using s by (simp add: streak_ok_def)
    then have "g \<le> (9 + 2 * N) * (1 + ?q)" using g by (simp add: algebra_simps)
    moreover have "?q \<le> ?D" using f by (intro zdiv_mono1) simp_all
    then have "(9 + 2 * N) * (1 + ?q) \<le> (9 + 2 * N) * (1 + ?D)" using c by (intro mult_left_mono) simp_all
    ultimately show ?thesis by simp
  next
    case False
    then have "?q + 1 \<le> ?D" using L zdiv_mono1 [of "?f - (T0 - L) + 901" "T - T0 + L" 901] by simp
    then have "(9 + 2 * N) * (?q + 1) \<le> (9 + 2 * N) * ?D" using c by (intro mult_left_mono) simp_all
    moreover have "?c + p \<le> 2 * (9 + 2 * N)" using c p by simp
    ultimately show ?thesis using g by (simp add: algebra_simps)
  qed
qed

section \<open>The invariant of a guessing run\<close>

definition key_ok :: "nat \<Rightarrow> int \<Rightarrow> int \<Rightarrow> int \<Rightarrow> login_bucket list \<Rightarrow> 32 word list \<Rightarrow> 32 word list \<Rightarrow> 32 word \<Rightarrow> bool" where
  "key_ok N L T0 T t flight guesses k \<longleftrightarrow>
     (case login_probe k t of
        None \<Rightarrow> True
      | Some j \<Rightarrow>
          if lb_key (t ! j) = 0 then (\<forall>b \<in> set t. lb_key b \<noteq> k) \<and> count_list guesses k = count_list flight k
          else streak_ok (int N) L T0 T (t ! j) (int (count_list flight k)) (int (count_list guesses k)))"

definition run_ok :: "nat \<Rightarrow> int \<Rightarrow> int \<Rightarrow> login_bucket list \<Rightarrow> 32 word list \<Rightarrow> bool" where
  "run_ok N T0 T t flight \<longleftrightarrow> length t = LOGIN_TABLE_SIZE \<and> length flight \<le> N \<and> T0 \<le> T \<and> 0 \<notin> set flight"

lemma count_remove1: "count_list (remove1 a xs) k = (if k = a \<and> a \<in> set xs then count_list xs k - 1 else count_list xs k)"
  by (induction xs) (auto simp: count_list_0_iff)

lemma login_fail_key_stores:
  assumes "login_probe key t = Some j" and "key \<noteq> 0"
  obtains b where "login_fail_key t key now = t[j := b]" and "lb_key b = key"
    and "b = (if lb_key (t ! j) = 0 then (t ! j)\<lparr>lb_key := key, lb_first_fail := now, lb_fail_count := 1\<rparr>
              else login_bucket_fail (t ! j) now)"
  using assms login_probe_Some [OF assms(1)] by (cases "lb_key (t ! j) = 0") (auto simp: login_fail_key_def)

lemma key_ok_check:
  assumes "key_ok N L T0 T t flight guesses k" and "now \<le> T" and "length flight < N" and "login_blocked_key t key now = 0"
  shows "key_ok N L T0 T t (key # flight) (key # guesses) k"
proof (cases "key = k")
  case True
  show ?thesis
  proof (cases "login_probe k t")
    case (Some j)
    have "int (count_list flight k) + 1 \<le> int N" using count_le_length [of flight k] assms(3) by simp
    moreover have "lb_key (t ! j) \<noteq> 0 \<Longrightarrow> lb_lock_until (t ! j) \<le> now"
      using assms(4) True Some login_probe_Some [OF Some] by (auto simp: login_blocked_key_def split: if_splits)
    ultimately show ?thesis
      using assms(1,2) True Some streak_check [of "int N" L T0 T "t ! j" "int (count_list flight k)" "int (count_list guesses k)" now]
      by (auto simp: key_ok_def add.commute)
  qed (simp add: key_ok_def)
qed (use assms(1) in \<open>simp add: key_ok_def split: option.splits\<close>)

lemma key_ok_own_fail:
  assumes "key_ok N L T0 T t flight guesses k" and "run_ok N T0 T t flight" and "T - L \<le> now" and "now \<le> T"
    and "k \<in> set flight" and "N \<le> 27" and "0 \<le> L" and "L < 300"
  shows "key_ok N L T0 T (login_fail_key t k now) (remove1 k flight) guesses k"
proof (cases "login_probe k t")
  case None
  then show ?thesis by (simp add: login_fail_key_def key_ok_def)
next
  case (Some j)
  have k: "k \<noteq> 0" using assms(2,5) by (auto simp: run_ok_def)
  obtain b where b: "login_fail_key t k now = t[j := b]" "lb_key b = k"
    "b = (if lb_key (t ! j) = 0 then (t ! j)\<lparr>lb_key := k, lb_first_fail := now, lb_fail_count := 1\<rparr>
          else login_bucket_fail (t ! j) now)"
    using login_fail_key_stores [OF Some k] by blast
  have pr: "login_probe k (t[j := b]) = Some j"
    using logins.lookup_after_store [of k t j b] Some b(2) assms(2) by (simp add: login_probe_lookup run_ok_def)
  have j: "j < length t" using login_probe_Some [OF Some] assms(2) by (simp add: run_ok_def)
  define p where "p = int (count_list flight k)"
  have "count_list flight k \<noteq> 0" using assms(5) by (simp add: count_list_0_iff)
  moreover have "count_list flight k \<le> N" using count_le_length [of flight k] assms(2) by (simp add: run_ok_def)
  ultimately have p: "1 \<le> p" "p \<le> int N" "int (count_list flight k - 1) = p - 1" by (simp_all add: p_def)
  have T: "T0 \<le> T" using assms(2) by (simp add: run_ok_def)
  have "streak_ok (int N) L T0 T b (p - 1) (int (count_list guesses k))"
  proof (cases "lb_key (t ! j) = 0")
    case True
    then have "int (count_list guesses k) = p" using assms(1) Some by (simp add: key_ok_def p_def)
    with True b(3) p T assms(3,4,7) streak_first [of T0 T L now "p - 1" "int N" k "t ! j"] show ?thesis by simp
  next
    case False
    then have "streak_ok (int N) L T0 T (t ! j) p (int (count_list guesses k))"
      using assms(1) Some by (simp add: key_ok_def p_def)
    from streak_fail [OF this p(1,2) _ assms(3,4,7,8) T] False b(3) assms(6) show ?thesis by simp
  qed
  then show ?thesis
    using b(1,2) pr j k p(3) assms(5) by (simp add: key_ok_def count_remove1)
qed

lemma key_ok_other_fail:
  assumes "key_ok N L T0 T t flight guesses k" and "run_ok N T0 T t flight" and "key \<in> set flight" and "key \<noteq> k" and "k \<noteq> 0"
  shows "key_ok N L T0 T (login_fail_key t key now) (remove1 key flight) guesses k"
proof (cases "login_probe key t")
  case None
  then show ?thesis using assms by (simp add: login_fail_key_def key_ok_def count_remove1 split: option.splits)
next
  case (Some j)
  have key: "key \<noteq> 0" and len: "length t = LOGIN_TABLE_SIZE" using assms(2,3) by (auto simp: run_ok_def)
  obtain b where b: "login_fail_key t key now = t[j := b]" "lb_key b = key"
    using login_fail_key_stores [OF Some key] by blast
  have j: "j < length t" using login_probe_Some [OF Some] len by simp
  show ?thesis
  proof (cases "\<exists>i. login_probe k t = Some i \<and> lb_key (t ! i) \<noteq> 0")
    case True
    then obtain i where i: "login_probe k t = Some i" "lb_key (t ! i) \<noteq> 0" by blast
    have own: "lb_key (t ! i) = k" using login_probe_Some [OF i(1)] i(2) by simp
    have "login_probe k (t[j := b]) = Some i"
      using logins.store_keeps_lookup [of key t j b k i] Some assms(4) key len b(2) i by (simp add: login_probe_lookup)
    moreover have "t[j := b] ! i = t ! i"
      using logins.update_keeps_others [of key t j i b] Some assms(4) i(2) own by (simp add: login_probe_lookup)
    ultimately show ?thesis using assms(1,4) i b(1) by (simp add: key_ok_def count_remove1)
  next
    case False
    have none: "\<forall>b' \<in> set (t[j := b]). lb_key b' \<noteq> k" if "login_probe k t = Some i" for i
      using that False assms(1,4) b(2) by (auto simp: key_ok_def dest!: set_update_subset_insert [THEN subsetD])
    have stays: "login_probe k (t[j := b]) = None" if "login_probe k t = None"
      using that key assms(4) b(2) j by (auto simp: login_probe_def first_slot_None nth_list_update)
    show ?thesis
    proof (cases "login_probe k (t[j := b])")
      case (Some i)
      then obtain i' where i': "login_probe k t = Some i'" using stays by (cases "login_probe k t") auto
      have "i < length (t[j := b])" using login_probe_Some [OF Some] len by simp
      then have "lb_key (t[j := b] ! i) \<noteq> k" using none [OF i'] nth_mem by blast
      then have "lb_key (t[j := b] ! i) = 0" using login_probe_Some [OF Some] by blast
      moreover have "count_list guesses k = count_list flight k" using False i' assms(1) by (auto simp: key_ok_def)
      ultimately show ?thesis using Some none [OF i'] b(1) assms(4) by (simp add: key_ok_def count_remove1)
    qed (simp add: key_ok_def b(1))
  qed
qed

lemma key_ok_clock: "key_ok N L T0 T t flight guesses k \<Longrightarrow> T \<le> T' \<Longrightarrow> key_ok N L T0 T' t flight guesses k"
  by (auto simp: key_ok_def intro: streak_clock split: option.splits)

lemma key_ok_start: "k \<noteq> 0 \<Longrightarrow> key_ok N L T0 T0 (replicate LOGIN_TABLE_SIZE zero_login_bucket) [] [] k"
  using login_probe_Some by (fastforce simp: key_ok_def zero_login_bucket_def split: option.splits)

lemma length_login_fail_key [simp]: "length (login_fail_key t key now) = length t"
  by (simp add: login_fail_key_def split: option.split)

lemma guess_run_ok:
  "guess_run N L T0 T t flight guesses \<Longrightarrow> N \<le> 27 \<Longrightarrow> 0 \<le> L \<Longrightarrow> L < 300 \<Longrightarrow> k \<noteq> 0 \<Longrightarrow>
   run_ok N T0 T t flight \<and> key_ok N L T0 T t flight guesses k"
proof (induction rule: guess_run.induct)
  case start
  then show ?case by (simp add: run_ok_def key_ok_start)
next
  case (clock T t flight guesses T')
  then show ?case using key_ok_clock by (auto simp: run_ok_def)
next
  case (check T t flight guesses now key)
  then show ?case using key_ok_check by (auto simp: run_ok_def)
next
  case (fail T t flight guesses now key)
  then have ok: "run_ok N T0 T t flight" "key_ok N L T0 T t flight guesses k" by simp_all
  have "length (remove1 key flight) \<le> length flight" by (simp add: length_remove1)
  then have "run_ok N T0 T (login_fail_key t key now) (remove1 key flight)"
    using ok(1) notin_set_remove1 by (auto simp: run_ok_def)
  moreover have "key_ok N L T0 T (login_fail_key t key now) (remove1 key flight) guesses k"
  proof (cases "key = k")
    case True
    then show ?thesis using key_ok_own_fail [OF ok(2,1) fail.hyps(2,3)] fail.hyps(4) fail.prems by blast
  qed (use key_ok_other_fail [OF ok(2,1)] fail in blast)
  ultimately show ?case ..
qed

section \<open>Properties\<close>

text \<open>
  (C6) The guess budget.  In a guessing run (no login succeeds) of at most \<open>N\<close> overlapping workers, in which the
  checks and the recorded failures of all pairs interleave in any order, the password of one pair is
  compared at most \<open>9 + 2 N\<close> times for every 901 seconds begun since the start: each lockout holds against
  the attempts of the other workers too, except for those that had passed the check before it was set.
  The bound is on the passwords compared, not on a counter.  It holds for a pair that the table tracks or has a
  free slot for (a full probe chain drops failures), for \<open>N \<le> 27\<close> (beyond, the shifted backoff may
  overflow: \<open>overlapping_failures_unlock\<close>) and for a clock that lags less than 300 seconds; a successful login
  of another pair may end a streak (\<open>login_success_unlocks_neighbour\<close>).
\<close>

theorem login_guess_budget:
  assumes "guess_run N L T0 T t flight guesses" and "N \<le> 27" and "0 \<le> L" and "L < 300"
    and "login_probe (login_key user ip) t \<noteq> None"
  shows "int (count_list guesses (login_key user ip)) \<le> (9 + 2 * int N) * (1 + (T - T0 + L) div 901)"
proof -
  let ?k = "login_key user ip" and ?B = "9 + 2 * int N" and ?D = "(T - T0 + L) div 901"
  have ok: "run_ok N T0 T t flight" "key_ok N L T0 T t flight guesses ?k"
    using guess_run_ok [OF assms(1-4) login_key_nonzero] by auto
  have p: "int (count_list flight ?k) \<le> int N" using count_le_length [of flight ?k] ok(1) by (simp add: run_ok_def)
  have D: "0 \<le> ?D" using ok(1) assms(3) by (simp add: run_ok_def pos_imp_zdiv_nonneg_iff)
  then have B: "?B \<le> ?B * (1 + ?D)" by (simp add: algebra_simps)
  obtain j where j: "login_probe ?k t = Some j" using assms(5) by auto
  show ?thesis
  proof (cases "lb_key (t ! j) = 0")
    case True
    then have "count_list guesses ?k = count_list flight ?k" using ok(2) j by (simp add: key_ok_def)
    with p B show ?thesis by linarith
  next
    case False
    then have "streak_ok (int N) L T0 T (t ! j) (int (count_list flight ?k)) (int (count_list guesses ?k))"
      using ok(2) j by (simp add: key_ok_def)
    from streak_total [OF this p assms(3)] show ?thesis .
  qed
qed

lemma login_slots_small: "login_slots 5 = 5 # 6 # map (\<lambda>i. i) [7..<13]"
  "login_slots 1029 = 5 # 6 # map (\<lambda>i. i) [7..<13]"
  by (simp_all add: login_slots_def probe_slots_def LOGIN_TABLE_SIZE_def LOGIN_MAX_PROBES_def upt_rec)

abbreviation "login_t0 \<equiv> replicate LOGIN_TABLE_SIZE zero_login_bucket"
abbreviation "pair_bucket k c u \<equiv> \<lparr>lb_key = k, lb_fail_count = c, lb_first_fail = 0, lb_lock_until = u\<rparr>"

lemma login_fail_first:
  "login_fail_key login_t0 5 0 = login_t0[5 := pair_bucket 5 1 0]"
  by (simp add: login_fail_key_def login_probe_def login_slots_small LOGIN_TABLE_SIZE_def
      zero_login_bucket_def)

lemma login_fail_second:
  "login_fail_key (login_t0[5 := pair_bucket 5 1 0]) 1029 0 =
   login_t0[5 := pair_bucket 5 1 0, 6 := pair_bucket 1029 1 0]"
  by (simp add: login_fail_key_def login_probe_def login_slots_small LOGIN_TABLE_SIZE_def
      zero_login_bucket_def)

lemma login_fail_more:
  "0 < c \<Longrightarrow> c < 9 \<Longrightarrow>
   login_fail_key (login_t0[5 := pair_bucket 5 1 0, 6 := pair_bucket 1029 c 0]) 1029 0 =
   login_t0[5 := pair_bucket 5 1 0,
            6 := pair_bucket 1029 (c + 1) (if c < 4 then 0 else login_backoff (c + 1))]"
  by (simp add: login_fail_key_def login_probe_def login_slots_small LOGIN_TABLE_SIZE_def
      login_bucket_fail_in_window LOGIN_RESET_SECONDS_def)

lemma login_blocked_second:
  "login_blocked_key (login_t0[5 := pair_bucket 5 1 0, 6 := pair_bucket 1029 c u]) 1029 0 = max 0 u"
  by (simp add: login_blocked_key_def login_probe_def login_slots_small LOGIN_TABLE_SIZE_def)

lemma login_probe_first: "login_probe key login_t0 = Some (unat key mod LOGIN_TABLE_SIZE)"
proof -
  have "login_slots key = (unat key mod LOGIN_TABLE_SIZE) # tl (login_slots key)"
    unfolding login_slots_def by (rule hd_probe_slots) (simp_all add: LOGIN_TABLE_SIZE_def LOGIN_MAX_PROBES_def)
  moreover have "lb_key (login_t0 ! (unat key mod LOGIN_TABLE_SIZE)) = 0"
    by (simp add: LOGIN_TABLE_SIZE_def zero_login_bucket_def)
  then have "first_slot (\<lambda>b. lb_key b = 0 \<or> lb_key b = key) login_t0 ((unat key mod LOGIN_TABLE_SIZE) # tl (login_slots key)) =
      Some (unat key mod LOGIN_TABLE_SIZE)" by (subst first_slot.simps) (simp only: simp_thms if_True)
  ultimately show ?thesis unfolding login_probe_def by argo
qed

lemma login_blocked_free: "login_probe key t = Some j \<Longrightarrow> lb_key (t ! j) = 0 \<Longrightarrow> key \<noteq> 0 \<Longrightarrow> login_blocked_key t key now = 0"
  by (simp add: login_blocked_key_def)

lemma login_unblocked_first: "key \<noteq> 0 \<Longrightarrow> login_blocked_key login_t0 key now = 0"
  by (rule login_blocked_free [OF login_probe_first]) (simp_all add: LOGIN_TABLE_SIZE_def zero_login_bucket_def)

text \<open>Two workers check the same pair before either has recorded its failure.\<close>

theorem login_guess_budget_witness:
  "int (count_list [login_key ''al'' ''1'', login_key ''al'' ''1''] (login_key ''al'' ''1'')) \<le> (9 + 2 * int 2) * (1 + (7 - 0 + 1) div 901)"
proof -
  let ?k = "login_key ''al'' ''1''"
  let ?t = "login_fail_key login_t0 ?k 0"
  have k: "?k \<noteq> 0" by (rule login_key_nonzero)
  have "guess_run 2 1 0 0 login_t0 [?k] [?k]"
    by (rule guess_run.check [OF guess_run.start, of 0 1 0]) (simp_all add: k login_unblocked_first)
  from guess_run.check [OF this, of 0 ?k] k login_unblocked_first [of ?k]
  have "guess_run 2 1 0 0 login_t0 [?k, ?k] [?k, ?k]" by simp
  from guess_run.fail [OF this, of 0 ?k] have "guess_run 2 1 0 0 ?t [?k] [?k, ?k]" by simp
  then have run: "guess_run 2 1 0 7 ?t [?k] [?k, ?k]" by (rule guess_run.clock) simp
  obtain b where b: "?t = login_t0[unat ?k mod LOGIN_TABLE_SIZE := b]" "lb_key b = ?k"
    using login_fail_key_stores [OF login_probe_first k] by blast
  have "login_probe ?k ?t \<noteq> None"
    unfolding b(1) login_probe_lookup
    using logins.lookup_after_store [of ?k login_t0 _ b] login_probe_first [of ?k] b(2) by (simp add: login_probe_lookup)
  from login_guess_budget [OF run _ _ _ this] show ?thesis by simp
qed

text \<open>One worker alone: a guess is checked and then recorded.\<close>

lemma guess_alone:
  "guess_run 1 0 0 0 t [] gs \<Longrightarrow> key \<noteq> 0 \<Longrightarrow> login_blocked_key t key 0 = 0 \<Longrightarrow>
   guess_run 1 0 0 0 (login_fail_key t key 0) [] (key # gs)"
  using guess_run.fail [OF guess_run.check, of 1 0 0 0 t "[]" gs 0 key 0 key] by simp

lemma guess_run_pair:
  "\<exists>gs. guess_run 1 0 0 0 (login_t0[5 := pair_bucket 5 1 0, 6 := pair_bucket 1029 5 30]) [] gs"
proof -
  let ?r = "\<lambda>t. \<exists>gs. guess_run 1 0 0 0 t [] gs"
  have step: "?r t \<Longrightarrow> key \<noteq> 0 \<Longrightarrow> login_blocked_key t key 0 = 0 \<Longrightarrow> ?r (login_fail_key t key 0)" for t key
    using guess_alone by blast
  have "?r login_t0" using guess_run.start by blast
  from step [OF this, of 5] have "?r (login_t0[5 := pair_bucket 5 1 0])"
    by (simp add: login_fail_first login_unblocked_first)
  moreover have "login_blocked_key (login_t0[5 := pair_bucket 5 1 0]) 1029 0 = 0"
    by (simp add: login_blocked_key_def login_probe_def login_slots_small LOGIN_TABLE_SIZE_def
        zero_login_bucket_def)
  ultimately have "?r (login_t0[5 := pair_bucket 5 1 0, 6 := pair_bucket 1029 1 0])"
    using step [of "login_t0[5 := pair_bucket 5 1 0]" 1029] by (simp add: login_fail_second)
  then have "?r (login_t0[5 := pair_bucket 5 1 0, 6 := pair_bucket 1029 2 0])"
    using step [OF _ _ login_blocked_second [of 1 0, simplified]] by (simp add: login_fail_more)
  then have "?r (login_t0[5 := pair_bucket 5 1 0, 6 := pair_bucket 1029 3 0])"
    using step [OF _ _ login_blocked_second [of 2 0, simplified]] by (simp add: login_fail_more)
  then have "?r (login_t0[5 := pair_bucket 5 1 0, 6 := pair_bucket 1029 4 0])"
    using step [OF _ _ login_blocked_second [of 3 0, simplified]] by (simp add: login_fail_more)
  then show ?thesis
    using step [OF _ _ login_blocked_second [of 4 0, simplified]] by (simp add: login_fail_more login_backoff_def)
qed

text \<open>
  The backoff.  One more recorded failure of a tracked, unlocked pair inside its streak window
  locks it for \<open>30 * 2^(n-5)\<close> seconds, at most 900, when it is the \<open>n\<close>-th with \<open>5 \<le> n \<le> 63\<close>, and leaves it
  unlocked before that.
\<close>

theorem login_backoff_exact:
  assumes "length t = LOGIN_TABLE_SIZE" and "key \<noteq> 0" and "login_probe key t = Some j"
    and "lb_key (t ! j) = key" and "login_blocked_key t key now = 0"
    and "now - lb_first_fail (t ! j) \<le> LOGIN_RESET_SECONDS"
    and "1 \<le> lb_fail_count (t ! j)" and "lb_fail_count (t ! j) \<le> 62"
  shows "login_blocked_key (login_fail_key t key now) key now =
    (if lb_fail_count (t ! j) < 4 then 0 else min 900 (30 * 2 ^ nat (lb_fail_count (t ! j) - 4)))"
proof -
  let ?b = "t ! j" and ?c = "lb_fail_count (t ! j)"
  have lock: "lb_lock_until ?b \<le> now"
    using assms(3-5) by (simp add: login_blocked_key_def split: if_splits)
  have f: "login_fail_key t key now = t[j := login_bucket_fail ?b now]"
    using assms(2-4) by (simp add: login_fail_key_def)
  have pr: "login_probe key (t[j := login_bucket_fail ?b now]) = Some j"
    using logins.lookup_after_store [of key t j "login_bucket_fail ?b now"] assms(1,3,4)
    by (simp add: login_probe_lookup)
  have j: "j < length t" using login_probe_Some [OF assms(3)] assms(1) by simp
  have "?c + 1 - 5 = ?c - 4" by simp
  then have bk: "login_backoff (?c + 1) = min 900 (30 * 2 ^ nat (?c - 4))" unfolding login_backoff_def by (simp only:)
  show ?thesis
    unfolding f login_blocked_key_def pr
    using j assms(4) lock login_bucket_fail_in_window [OF assms(6-8)] bk by (simp add: min_def)
qed

theorem login_backoff_exact_witness:
  "login_blocked_key (login_fail_key (login_t0[5 := pair_bucket 5 1 0, 6 := pair_bucket 1029 5 30]) 1029 30)
     1029 30 = 60"
proof -
  let ?t = "login_t0[5 := pair_bucket 5 1 0, 6 := pair_bucket 1029 5 30]"
  have pr: "login_probe 1029 ?t = Some 6"
    by (simp add: login_probe_def login_slots_small LOGIN_TABLE_SIZE_def)
  have b: "?t ! 6 = pair_bucket 1029 5 30" by (simp add: LOGIN_TABLE_SIZE_def)
  show ?thesis
    using login_backoff_exact [of ?t 1029 6 30] pr b
    by (simp add: login_blocked_key_def LOGIN_RESET_SECONDS_def)
qed

text \<open>
  The limit is not atomic.  Sixty-four attempts of one pair that all pass the check before the first
  is recorded are all compared, and the sixty-fourth failure shifts the backoff out of the range of
  \<open>long long\<close>: the wrapped value is negative, so the lockout the earlier failures had set is
  gone and the next attempt passes at once.
\<close>

definition overlapping :: "login_bucket list \<Rightarrow> nat \<Rightarrow> bool" where
  "overlapping t n \<longleftrightarrow> guess_run 64 0 0 0 t (replicate n 5) (replicate 64 5)"

lemma overlapping_checks: "n \<le> 64 \<Longrightarrow> guess_run 64 0 0 0 login_t0 (replicate n 5) (replicate n 5)"
proof (induction n)
  case 0
  show ?case by (simp add: guess_run.start)
next
  case (Suc n)
  from guess_run.check [OF Suc.IH, of 0 5] Suc.prems login_unblocked_first [of 5] show ?case by simp
qed

lemma overlapping_fail: "overlapping t (Suc n) \<Longrightarrow> overlapping (login_fail_key t 5 0) n"
  using guess_run.fail [of 64 0 0 0 t "replicate (Suc n) 5" "replicate 64 5" 0 5] by (simp add: overlapping_def)

lemma overlapping_counts:
  "n \<le> 62 \<Longrightarrow> \<exists>u. overlapping (login_t0[5 := pair_bucket 5 (int n + 1) u]) (63 - n)"
proof (induction n)
  case 0
  have "overlapping login_t0 (Suc 63)" using overlapping_checks [of 64] by (simp add: overlapping_def)
  from overlapping_fail [OF this] show ?case by (auto simp: login_fail_first)
next
  case (Suc n)
  have "Suc (63 - Suc n) = 63 - n" using Suc.prems by simp
  then obtain u where "overlapping (login_t0[5 := pair_bucket 5 (int n + 1) u]) (Suc (63 - Suc n))"
    using Suc by auto
  from overlapping_fail [OF this] show ?case
    using Suc.prems
    by (auto simp: login_fail_key_def login_probe_def login_slots_small LOGIN_TABLE_SIZE_def
        login_bucket_fail_in_window LOGIN_RESET_SECONDS_def)
qed

theorem overlapping_failures_unlock:
  "\<exists>t. guess_run 64 0 0 0 t [] (replicate 64 5) \<and> login_blocked_key t 5 0 = 0"
proof -
  obtain u where "overlapping (login_t0[5 := pair_bucket 5 63 u]) (Suc 0)" using overlapping_counts [of 62] by auto
  from overlapping_fail [OF this] have r: "overlapping (login_fail_key (login_t0[5 := pair_bucket 5 63 u]) 5 0) 0" .
  have "wrap32 64 = 64" "wrap64 (30 * 2 ^ 59) < 0" by (simp_all add: wrap32_def wrap64_def)
  then have "lb_lock_until (login_bucket_fail (pair_bucket 5 63 u) 0) < 0"
    by (simp add: login_bucket_fail_def Let_def LOGIN_RESET_SECONDS_def LOGIN_MAX_FAILURES_def LOGIN_BACKOFF_BASE_def LOGIN_MAX_LOCKOUT_def)
  then have "login_blocked_key (login_fail_key (login_t0[5 := pair_bucket 5 63 u]) 5 0) 5 0 = 0"
    by (simp add: login_fail_key_def login_blocked_key_def login_probe_def login_slots_small LOGIN_TABLE_SIZE_def)
  with r show ?thesis by (auto simp: overlapping_def)
qed

text \<open>
  A failure of one pair never changes the lockout of another pair that is tracked.
\<close>

theorem login_fail_isolated:
  assumes "length t = LOGIN_TABLE_SIZE" and "key \<noteq> 0" and "login_probe key' t = Some i"
    and "lb_key (t ! i) = key'" and "key' \<noteq> 0" and "key' \<noteq> key"
  shows "login_blocked_key (login_fail_key t key now) key' now' = login_blocked_key t key' now'"
proof (cases "login_probe key t")
  case None
  then show ?thesis by (simp add: login_fail_key_def)
next
  case (Some j)
  obtain b where f: "login_fail_key t key now = t[j := b]" and b: "lb_key b = key"
    using Some login_probe_Some [OF Some]
    by (cases "lb_key (t ! j) = 0") (auto simp: login_fail_key_def)
  have "login_probe key' (t[j := b]) = Some i"
    using logins.store_keeps_lookup [of key t j b key' i] Some assms b by (simp add: login_probe_lookup)
  moreover have "t[j := b] ! i = t ! i"
    using logins.update_keeps_others [of key t j i b] Some assms by (simp add: login_probe_lookup)
  ultimately show ?thesis using assms(3) f by (simp add: login_blocked_key_def)
qed

theorem login_fail_isolated_witness:
  "login_blocked_key (login_fail_key (login_t0[5 := pair_bucket 5 1 0, 6 := pair_bucket 1029 5 30]) 5 0) 1029 0 = 30"
proof -
  let ?t = "login_t0[5 := pair_bucket 5 1 0, 6 := pair_bucket 1029 5 30]"
  have pr: "login_probe 1029 ?t = Some 6"
    by (simp add: login_probe_def login_slots_small LOGIN_TABLE_SIZE_def)
  have b: "lb_key (?t ! 6) = 1029" by (simp add: LOGIN_TABLE_SIZE_def)
  have "login_blocked_key (login_fail_key ?t 5 0) 1029 0 = login_blocked_key ?t 1029 0"
    by (rule login_fail_isolated [OF _ _ pr b]) simp_all
  then show ?thesis using login_blocked_second [of 5 30] by simp
qed

text \<open>
  A successful login of one pair can lift the lockout of another.  Releasing a slot writes
  key 0 into the probe chain, and the lookup of a pair stored behind it stops at the hole: there
  is a reachable state in which a pair is locked for 30 seconds and, after another pair's
  success at the same instant, is not locked at all.
\<close>

theorem login_success_unlocks_neighbour:
  "\<exists>t key key'. (\<exists>gs. guess_run 1 0 0 0 t [] gs) \<and> key \<noteq> key' \<and> login_blocked_key t key' 0 = 30 \<and>
     login_blocked_key (login_success_key t key) key' 0 = 0"
proof -
  let ?t = "login_t0[5 := pair_bucket 5 1 0, 6 := pair_bucket 1029 5 30]"
  have "login_blocked_key (login_success_key ?t 5) 1029 0 = 0"
    by (simp add: login_success_key_def login_blocked_key_def login_probe_def login_slots_small
        LOGIN_TABLE_SIZE_def)
  then show ?thesis
    using guess_run_pair login_blocked_second [of 5 30]
    by (intro exI [of _ ?t] exI [of _ 5] exI [of _ 1029]) simp
qed

end
