(* ===== verification/Rate_Limit.thy ===== *)
theory Rate_Limit
  imports Slot_Table Httpd_Types
begin

unbundle bit_operations_syntax

text \<open>
  \<open>src/src/security/ratelimit.c\<close>: per-client token buckets in a shared open-addressing table, and
  the resolution of the client key from the peer address and, for trusted proxies, from
  X-Forwarded-For.  Addresses are byte lists in network order.  The system's address parsers
  \<open>inet_aton\<close> and \<open>inet_pton\<close> are the arguments \<open>aton\<close> and \<open>pton6\<close>.  The clock is the argument
  \<open>now\<close>; the bucket mutex makes each call's bucket update one step.
\<close>

section \<open>Trusted proxies and client keys\<close>

datatype addr_family = AF_INET | AF_INET6

datatype sockaddr = Sin "8 word list" | Sin6 "8 word list" | SaOther

record trusted_net =
  tn_family :: addr_family
  tn_addr :: "8 word list"
  tn_mask :: "8 word list"

fun mask_bytes :: "nat \<Rightarrow> nat \<Rightarrow> 8 word list" where
  "mask_bytes prefix 0 = []"
| "mask_bytes prefix (Suc n) =
     (if prefix \<ge> 8 then 255 # mask_bytes (prefix - 8) n
      else if prefix > 0 then push_bit (8 - prefix) 255 # mask_bytes 0 n
      else 0 # mask_bytes 0 n)"

definition build_mask :: "nat \<Rightarrow> nat \<Rightarrow> 8 word list" where
  "build_mask prefix nbytes = mask_bytes prefix nbytes @ replicate (16 - nbytes) 0"

fun parse_prefix_loop :: "string \<Rightarrow> nat \<Rightarrow> nat option" where
  "parse_prefix_loop [] v = Some v"
| "parse_prefix_loop (c # s) v =
     (if \<not> isdigit c then None
      else let v' = v * 10 + (code c - 48)
           in if v' > 128 then None else parse_prefix_loop s v')"

definition parse_prefix :: "string \<Rightarrow> nat option" where
  "parse_prefix s = (if s = [] then None else parse_prefix_loop s 0)"

definition rl_blank :: "char \<Rightarrow> bool" where
  "rl_blank c \<longleftrightarrow> c = CHR '' '' \<or> c = TAB"

text \<open>
  The literal and the prefix text of one entry, after trimming and after the optional brackets:
  \<open>None\<close> is a malformed entry, \<open>Some (lit, None)\<close> an entry with no prefix.
\<close>

definition cidr_split :: "string \<Rightarrow> (string \<times> nat option) option" where
  "cidr_split s =
     (let t = rtrim rl_blank (dropWhile rl_blank (take 63 (takeWhile (\<lambda>c. c \<noteq> CHR '','') s)))
      in if t = [] then None
         else if hd t = CHR ''['' then
           (case strchr t (CHR '']'') of
              None \<Rightarrow> None
            | Some close \<Rightarrow>
                let lit = takeWhile (\<lambda>c. c \<noteq> CHR '']'') (tl t); tail = tl close
                in if tail = [] then Some (lit, None)
                   else if hd tail \<noteq> CHR ''/'' then None
                   else (case parse_prefix (tl tail) of None \<Rightarrow> None | Some n \<Rightarrow> Some (lit, Some n)))
         else
           (case strchr t (CHR ''/'') of
              None \<Rightarrow> Some (t, None)
            | Some slash \<Rightarrow>
                (case parse_prefix (tl slash) of
                   None \<Rightarrow> None
                 | Some n \<Rightarrow> Some (takeWhile (\<lambda>c. c \<noteq> CHR ''/'') t, Some n))))"

text \<open>The family, address bytes and prefix length of an entry.\<close>

definition cidr_entry ::
  "(string \<Rightarrow> 8 word list option) \<Rightarrow> (string \<Rightarrow> 8 word list option) \<Rightarrow> string \<Rightarrow>
   (addr_family \<times> 8 word list \<times> nat) option" where
  "cidr_entry aton pton6 s =
     (case cidr_split s of
        None \<Rightarrow> None
      | Some (lit, prefix) \<Rightarrow>
          if CHR '':'' \<in> set lit then
            (case pton6 lit of
               None \<Rightarrow> None
             | Some a6 \<Rightarrow>
                 let p = (case prefix of None \<Rightarrow> 128 | Some n \<Rightarrow> n)
                 in if p > 128 then None else Some (AF_INET6, a6, p))
          else
            (case aton lit of
               None \<Rightarrow> None
             | Some a4 \<Rightarrow>
                 let p = (case prefix of None \<Rightarrow> 32 | Some n \<Rightarrow> n)
                 in if p > 32 then None else Some (AF_INET, a4, p)))"

definition addr_bytes :: "addr_family \<Rightarrow> nat" where
  "addr_bytes f = (case f of AF_INET \<Rightarrow> 4 | AF_INET6 \<Rightarrow> 16)"

definition make_net :: "addr_family \<Rightarrow> 8 word list \<Rightarrow> nat \<Rightarrow> trusted_net" where
  "make_net f a p =
     (let m = build_mask p (addr_bytes f)
      in \<lparr>tn_family = f,
          tn_addr = map2 (AND) (take (addr_bytes f) a) m @ replicate (16 - addr_bytes f) 0,
          tn_mask = m\<rparr>)"

definition parse_cidr ::
  "(string \<Rightarrow> 8 word list option) \<Rightarrow> (string \<Rightarrow> 8 word list option) \<Rightarrow> string \<Rightarrow> trusted_net option" where
  "parse_cidr aton pton6 s = map_option (\<lambda>(f, a, p). make_net f a p) (cidr_entry aton pton6 s)"

definition RATE_TRUSTED_MAX :: nat where "RATE_TRUSTED_MAX = 32"

lemma trusted_rest_shorter:
  assumes "x \<in> set p" and "x \<noteq> CHR '' ''" and "x \<noteq> CHR '',''"
  shows "length (dropWhile (\<lambda>c. c \<noteq> CHR '','') (dropWhile (\<lambda>c. c = CHR '' '' \<or> c = CHR '','') p)) < length p"
    and "length (dropWhile (\<lambda>c. c \<noteq> CHR '','') (dropWhile (\<lambda>c. c = CHR '' '' \<or> c = CHR '','') p)) - Suc 0
         < length p"
proof -
  have "dropWhile (\<lambda>c. c = CHR '' '' \<or> c = CHR '','') p \<noteq> []" using assms by auto
  from dropWhile_shorter [OF this, of "\<lambda>c. c \<noteq> CHR '',''"]
  show "length (dropWhile (\<lambda>c. c \<noteq> CHR '','') (dropWhile (\<lambda>c. c = CHR '' '' \<or> c = CHR '','') p)) < length p"
    by simp
  then show "length (dropWhile (\<lambda>c. c \<noteq> CHR '','') (dropWhile (\<lambda>c. c = CHR '' '' \<or> c = CHR '','') p)) - Suc 0
         < length p"
    by simp
qed

function trusted_loop ::
  "(string \<Rightarrow> 8 word list option) \<Rightarrow> (string \<Rightarrow> 8 word list option) \<Rightarrow> string \<Rightarrow>
   trusted_net list \<Rightarrow> trusted_net list" where
  "trusted_loop aton pton6 p nets =
     (if p = [] \<or> length nets \<ge> RATE_TRUSTED_MAX then nets
      else let q = dropWhile (\<lambda>c. c = CHR '' '' \<or> c = CHR '','') p
           in if q = [] then nets
              else let entry = takeWhile (\<lambda>c. c \<noteq> CHR '','') q;
                       rest = dropWhile (\<lambda>c. c \<noteq> CHR '','') q;
                       rest' = (if rest \<noteq> [] then tl rest else rest)
                   in if length entry \<ge> 64 then trusted_loop aton pton6 rest' nets
                      else (case parse_cidr aton pton6 entry of
                              Some net \<Rightarrow> trusted_loop aton pton6 rest' (nets @ [net])
                            | None \<Rightarrow> trusted_loop aton pton6 rest' nets))"
  by pat_completeness auto
termination
  by (relation "measure (\<lambda>(a, q, p, nets). length p)") (auto intro: trusted_rest_shorter)

declare trusted_loop.simps [simp del]

definition rate_limit_set_trusted_proxies ::
  "(string \<Rightarrow> 8 word list option) \<Rightarrow> (string \<Rightarrow> 8 word list option) \<Rightarrow> string option \<Rightarrow>
   trusted_net list" where
  "rate_limit_set_trusted_proxies aton pton6 csv =
     (case csv of None \<Rightarrow> [] | Some p \<Rightarrow> trusted_loop aton pton6 p [])"

definition net_matches :: "trusted_net \<Rightarrow> addr_family \<Rightarrow> 8 word list \<Rightarrow> bool" where
  "net_matches net f bytes \<longleftrightarrow>
     tn_family net = f \<and>
     list_all (\<lambda>j. (bytes ! j AND tn_mask net ! j) = tn_addr net ! j) [0..<addr_bytes f]"

definition rate_limit_is_trusted :: "trusted_net list \<Rightarrow> sockaddr option \<Rightarrow> bool" where
  "rate_limit_is_trusted nets sa =
     (case sa of
        None \<Rightarrow> False
      | Some (Sin b) \<Rightarrow> list_ex (\<lambda>n. net_matches n AF_INET b) nets
      | Some (Sin6 b) \<Rightarrow> list_ex (\<lambda>n. net_matches n AF_INET6 b) nets
      | Some SaOther \<Rightarrow> False)"

text \<open>
  The bucket key: the four IPv4 bytes as the little-endian \<open>unsigned int\<close> that \<open>memcpy\<close> makes of
  them, or an FNV-1a hash of the IPv6 address.
\<close>

definition load32 :: "8 word list \<Rightarrow> 32 word" where
  "load32 b = word_of_nat (unat (b ! 0) + 256 * unat (b ! 1) + 65536 * unat (b ! 2) + 16777216 * unat (b ! 3))"

definition key_from_addr :: "addr_family \<Rightarrow> 8 word list \<Rightarrow> 32 word" where
  "key_from_addr f b =
     (case f of
        AF_INET \<Rightarrow> load32 b
      | AF_INET6 \<Rightarrow>
          let h = foldl (\<lambda>h x. (h XOR word_of_nat (unat x)) * 0x01000193) 0x811c9dc5 (take 16 b)
          in if h \<noteq> 0 then h else 1)"

definition rate_limit_parse_xff ::
  "(string \<Rightarrow> 8 word list option) \<Rightarrow> (string \<Rightarrow> 8 word list option) \<Rightarrow> string \<Rightarrow> 32 word" where
  "rate_limit_parse_xff aton pton6 xff =
     (let buf = take 127 (filter (\<lambda>c. \<not> rl_blank c) (takeWhile (\<lambda>c. c \<noteq> CHR '','') xff));
          v6 = (\<lambda>lit. case pton6 lit of None \<Rightarrow> 0 | Some a \<Rightarrow> key_from_addr AF_INET6 a);
          colons = length (filter (\<lambda>c. c = CHR '':'') buf)
      in if buf = [] then 0
         else if hd buf = CHR ''['' then
           (if CHR '']'' \<notin> set buf then 0 else v6 (takeWhile (\<lambda>c. c \<noteq> CHR '']'') (tl buf)))
         else if colons > 1 then v6 buf
         else (case aton (if colons = 1 then takeWhile (\<lambda>c. c \<noteq> CHR '':'') buf else buf) of
                 None \<Rightarrow> 0
               | Some a \<Rightarrow> key_from_addr AF_INET a))"

definition sockaddr_key :: "sockaddr option \<Rightarrow> 32 word" where
  "sockaddr_key sa =
     (case sa of
        None \<Rightarrow> 0
      | Some (Sin b) \<Rightarrow> key_from_addr AF_INET b
      | Some (Sin6 b) \<Rightarrow> key_from_addr AF_INET6 b
      | Some SaOther \<Rightarrow> 0)"

definition rate_limit_key_from_peer ::
  "(string \<Rightarrow> 8 word list option) \<Rightarrow> (string \<Rightarrow> 8 word list option) \<Rightarrow> trusted_net list \<Rightarrow>
   sockaddr option \<Rightarrow> HttpRequest option \<Rightarrow> 32 word" where
  "rate_limit_key_from_peer aton pton6 nets sa req =
     (let peer = sockaddr_key sa
      in case req of
           None \<Rightarrow> peer
         | Some r \<Rightarrow>
             if peer \<noteq> 0 \<and> rq_x_forwarded_for r \<noteq> [] \<and> rate_limit_is_trusted nets sa
             then let x = rate_limit_parse_xff aton pton6 (rq_x_forwarded_for r)
                  in if x \<noteq> 0 then x else peer
             else peer)"

section \<open>The token buckets\<close>

definition RATE_TABLE_SIZE :: nat where "RATE_TABLE_SIZE = 4096"
definition RATE_MAX_PROBES :: nat where "RATE_MAX_PROBES = 8"

record rate_bucket =
  rb_ip :: "32 word"
  rb_ts :: int
  rb_tokens :: int
  rb_used :: bool

definition mix_ip :: "32 word \<Rightarrow> 32 word" where
  "mix_ip x =
     (let x1 = (x XOR drop_bit 16 x) * 0x7feb352d;
          x2 = (x1 XOR drop_bit 15 x1) * 0x846ca68b
      in x2 XOR drop_bit 16 x2)"

definition zero_rate_bucket :: rate_bucket where
  "zero_rate_bucket = \<lparr>rb_ip = 0, rb_ts = 0, rb_tokens = 0, rb_used = False\<rparr>"

definition rate_limit_init :: "int \<Rightarrow> bool \<Rightarrow> rate_bucket list option \<Rightarrow> rate_bucket list option" where
  "rate_limit_init rps mmap_ok old =
     (if rps \<le> 0 then old
      else if mmap_ok then Some (replicate RATE_TABLE_SIZE zero_rate_bucket) else None)"

text \<open>Refill and spend; \<open>(int)(now - ts) * cap\<close> and the sum are 32-bit signed.\<close>

definition bucket_spend :: "rate_bucket \<Rightarrow> int \<Rightarrow> int \<Rightarrow> bool \<times> rate_bucket" where
  "bucket_spend b cap now =
     (let b1 = (if now > rb_ts b then
                  let t = wrap32 (rb_tokens b + wrap32 (wrap32 (now - rb_ts b) * cap))
                  in b\<lparr>rb_tokens := (if t > cap then cap else t), rb_ts := now\<rparr>
                else b)
      in if rb_tokens b1 \<ge> 1 then (True, b1\<lparr>rb_tokens := rb_tokens b1 - 1\<rparr>) else (False, b1))"

definition rate_base :: "32 word \<Rightarrow> nat" where
  "rate_base ip = unat (mix_ip ip) mod RATE_TABLE_SIZE"

definition rate_slots :: "32 word \<Rightarrow> nat list" where
  "rate_slots ip = probe_slots (rate_base ip) RATE_MAX_PROBES RATE_TABLE_SIZE"

definition rate_probe :: "32 word \<Rightarrow> rate_bucket list \<Rightarrow> nat option" where
  "rate_probe ip t = first_slot (\<lambda>b. \<not> rb_used b \<or> rb_ip b = ip) t (rate_slots ip)"

definition rate_allow_in :: "int \<Rightarrow> rate_bucket list \<Rightarrow> 32 word \<Rightarrow> int \<Rightarrow> bool \<times> rate_bucket list" where
  "rate_allow_in cap t ip now =
     (case rate_probe ip t of
        Some j \<Rightarrow>
          if \<not> rb_used (t ! j) then
            (True, t[j := \<lparr>rb_ip = ip, rb_ts = now, rb_tokens = cap - 1, rb_used = True\<rparr>])
          else (case bucket_spend (t ! j) cap now of (ok, b) \<Rightarrow> (ok, t[j := b]))
      | None \<Rightarrow>
          (case bucket_spend (t ! rate_base ip) cap now of (ok, b) \<Rightarrow> (ok, t[rate_base ip := b])))"

definition rate_limit_allow ::
  "int \<Rightarrow> rate_bucket list option \<Rightarrow> 32 word \<Rightarrow> int \<Rightarrow> bool \<times> rate_bucket list option" where
  "rate_limit_allow rps tbl ip now =
     (case tbl of
        None \<Rightarrow> (True, None)
      | Some t \<Rightarrow>
          if rps \<le> 0 then (True, Some t)
          else (case rate_allow_in rps t ip now of (ok, t') \<Rightarrow> (ok, Some t')))"

section \<open>Networks match by their first bits\<close>

definition addr_bit :: "8 word list \<Rightarrow> nat \<Rightarrow> bool" where
  "addr_bit b i = bit (b ! (i div 8)) (7 - i mod 8)"

lemma length_mask_bytes [simp]: "length (mask_bytes p n) = n"
  by (induction p n rule: mask_bytes.induct) auto

lemma bit_255: "bit (255 :: 8 word) k \<longleftrightarrow> k < 8"
proof -
  have "(255 :: 8 word) = - 1" by simp
  then show ?thesis by (simp only: bit_minus_1_iff) simp
qed

lemma mask_bytes_0 [simp]: "mask_bytes 0 n = replicate n 0"
  by (induction n) auto

lemma bit_mask_bytes:
  "j < n \<Longrightarrow> k < 8 \<Longrightarrow> bit (mask_bytes p n ! j) k \<longleftrightarrow> 8 * j + (7 - k) < p"
proof (induction p n arbitrary: j rule: mask_bytes.induct)
  case (2 p n)
  show ?case
  proof (cases j)
    case 0
    then show ?thesis using 2(5)
      by (auto simp: bit_255 bit_push_bit_iff simp del: bit_numeral_word_iff)
  next
    case (Suc i)
    then show ?thesis using 2 by (cases "p \<ge> 8") auto
  qed
qed simp

lemma masked_eq_iff:
  fixes x a m :: "8 word"
  shows "(x AND m) = (a AND m) \<longleftrightarrow> (\<forall>k < 8. bit m k \<longrightarrow> bit x k = bit a k)"
  by (auto simp: bit_eq_iff bit_and_iff dest: bit_imp_le_length)

lemma mask_byte_eq:
  assumes "j < n"
  shows "(x AND mask_bytes p n ! j) = (a AND mask_bytes p n ! j) \<longleftrightarrow>
    (\<forall>k < 8. 8 * j + k < p \<longrightarrow> bit x (7 - k) = bit a (7 - k))"
proof -
  have flip: "(\<forall>k < 8. P k) \<longleftrightarrow> (\<forall>k < 8. P (7 - k))" for P :: "nat \<Rightarrow> bool"
  proof (intro iffI allI impI)
    fix k :: nat assume h: "\<forall>k < 8. P (7 - k)" and k: "k < 8"
    have "P (7 - (7 - k))" using h by (rule allE [of _ "7 - k"]) simp
    with k show "P k" by simp
  next
    fix k :: nat assume h: "\<forall>k < 8. P k" and "k < 8"
    show "P (7 - k)" using h by (rule allE [of _ "7 - k"]) simp
  qed
  show ?thesis
    unfolding masked_eq_iff flip [of "\<lambda>k. bit (mask_bytes p n ! j) k \<longrightarrow> bit x k = bit a k"]
    using assms by (auto simp: bit_mask_bytes)
qed

lemma make_net_matches:
  assumes "length a = addr_bytes f" and "p \<le> 8 * addr_bytes f"
  shows "net_matches (make_net f a p) f' b \<longleftrightarrow> f' = f \<and> (\<forall>i < p. addr_bit b i = addr_bit a i)"
proof -
  let ?n = "addr_bytes f"
  have bytes: "(\<forall>j < ?n. \<forall>k < 8. 8 * j + k < p \<longrightarrow> bit (b ! j) (7 - k) = bit (a ! j) (7 - k)) \<longleftrightarrow>
      (\<forall>i < p. addr_bit b i = addr_bit a i)"
  proof (rule iffI; intro allI impI)
    fix i assume h: "\<forall>j < ?n. \<forall>k < 8. 8 * j + k < p \<longrightarrow> bit (b ! j) (7 - k) = bit (a ! j) (7 - k)"
      and "i < p"
    with assms(2) have "i div 8 < ?n" "i mod 8 < 8" "8 * (i div 8) + i mod 8 < p" by auto
    with h show "addr_bit b i = addr_bit a i" by (simp only: addr_bit_def)
  next
    fix j k :: nat assume h: "\<forall>i < p. addr_bit b i = addr_bit a i" and "j < ?n" "k < 8" "8 * j + k < p"
    then have "addr_bit b (8 * j + k) = addr_bit a (8 * j + k)" by simp
    with \<open>k < 8\<close> show "bit (b ! j) (7 - k) = bit (a ! j) (7 - k)" by (simp add: addr_bit_def)
  qed
  have "(b ! j AND tn_mask (make_net f a p) ! j) = tn_addr (make_net f a p) ! j \<longleftrightarrow>
      (b ! j AND mask_bytes p ?n ! j) = (a ! j AND mask_bytes p ?n ! j)" if "j < ?n" for j
    using that assms(1) by (simp add: make_net_def Let_def build_mask_def nth_append)
  then have "list_all (\<lambda>j. (b ! j AND tn_mask (make_net f a p) ! j) = tn_addr (make_net f a p) ! j) [0..<?n] \<longleftrightarrow>
      (\<forall>i < p. addr_bit b i = addr_bit a i)"
    unfolding bytes [symmetric] by (simp add: list_all_iff mask_byte_eq atLeast0LessThan lessThan_def)
  then show ?thesis
    by (cases "f' = f") (auto simp: net_matches_def make_net_def Let_def)
qed

lemma cidr_entry_lengths:
  assumes "cidr_entry aton pton6 e = Some (f, a, p)"
    and "\<forall>s x. aton s = Some x \<longrightarrow> length x = 4" and "\<forall>s x. pton6 s = Some x \<longrightarrow> length x = 16"
  shows "length a = addr_bytes f" and "p \<le> 8 * addr_bytes f"
  using assms by (auto simp: cidr_entry_def addr_bytes_def Let_def split: option.splits prod.splits if_splits)

text \<open>Each stored network comes from a comma-delimited piece of the configuration.\<close>

definition csv_entry :: "string \<Rightarrow> string \<Rightarrow> bool" where
  "csv_entry e csv \<longleftrightarrow> (\<exists>xs ys. csv = xs @ e @ ys \<and> CHR '','' \<notin> set e \<and> (ys = [] \<or> hd ys = CHR '',''))"

lemma csv_entry_suffix: "csv_entry e s \<Longrightarrow> csv_entry e (xs @ s)"
  unfolding csv_entry_def by (metis append.assoc)

lemma csv_entry_takeWhile: "csv_entry (takeWhile (\<lambda>c. c \<noteq> CHR '','') q) q"
proof -
  let ?P = "\<lambda>c. c \<noteq> CHR '',''"
  have "q = [] @ takeWhile ?P q @ dropWhile ?P q" by simp
  moreover have "CHR '','' \<notin> set (takeWhile ?P q)" using set_takeWhileD by fast
  moreover have "dropWhile ?P q = [] \<or> hd (dropWhile ?P q) = CHR '',''"
    using hd_dropWhile [of ?P q] by blast
  ultimately show ?thesis unfolding csv_entry_def by blast
qed

lemma trusted_loop_sound:
  "net \<in> set (trusted_loop aton pton6 p nets) \<Longrightarrow>
   net \<in> set nets \<or> (\<exists>e. csv_entry e p \<and> parse_cidr aton pton6 e = Some net)"
proof (induction aton pton6 p nets rule: trusted_loop.induct)
  case (1 aton pton6 p nets)
  define q where "q = dropWhile (\<lambda>c. c = CHR '' '' \<or> c = CHR '','') p"
  define e where "e = takeWhile (\<lambda>c. c \<noteq> CHR '','') q"
  define r where "r = dropWhile (\<lambda>c. c \<noteq> CHR '','') q"
  define r' where "r' = (if r \<noteq> [] then tl r else r)"
  note IH = 1(1-3) [OF _ q_def _ e_def r_def r'_def]
  have q: "p = takeWhile (\<lambda>c. c = CHR '' '' \<or> c = CHR '','') p @ q"
    unfolding q_def by simp
  have r: "q = (e @ (if r \<noteq> [] then [hd r] else [])) @ r'" by (simp add: e_def r_def r'_def)
  have sub: "csv_entry x r' \<Longrightarrow> csv_entry x p" for x
    using csv_entry_suffix [OF csv_entry_suffix, of x r'] by (subst q, subst r)
  have e: "csv_entry e p"
    unfolding e_def by (subst q) (rule csv_entry_suffix [OF csv_entry_takeWhile])
  show ?case
  proof (cases "p = [] \<or> length nets \<ge> RATE_TRUSTED_MAX \<or> q = []")
    case True
    then have "trusted_loop aton pton6 p nets = nets"
      by (simp only: trusted_loop.simps [of aton pton6 p] Let_def q_def [symmetric]) auto
    then show ?thesis using 1(4) by simp
  next
    case False
    then have step: "trusted_loop aton pton6 p nets =
        (if length e \<ge> 64 then trusted_loop aton pton6 r' nets
         else case parse_cidr aton pton6 e of
                Some net \<Rightarrow> trusted_loop aton pton6 r' (nets @ [net])
              | None \<Rightarrow> trusted_loop aton pton6 r' nets)"
      by (simp only: trusted_loop.simps [of aton pton6 p] Let_def q_def [symmetric] e_def [symmetric]
          r_def [symmetric] r'_def [symmetric]) simp
    have in': "\<not> (p = [] \<or> RATE_TRUSTED_MAX \<le> length nets)" "q \<noteq> []" using False by auto
    show ?thesis
    proof (cases "length e \<ge> 64")
      case True
      then show ?thesis using IH(1) [OF in' True] 1(4) sub unfolding step by auto
    next
      case small: False
      show ?thesis
      proof (cases "parse_cidr aton pton6 e")
        case None
        then show ?thesis using IH(2) [OF in' small None] 1(4) sub small unfolding step by auto
      next
        case (Some n)
        have "net \<in> set (nets @ [n]) \<or> (\<exists>e. csv_entry e r' \<and> parse_cidr aton pton6 e = Some net)"
          using 1(4) small Some unfolding step by (intro IH(3) [OF in' small Some]) simp
        then show ?thesis using sub e Some by auto
      qed
    qed
  qed
qed

section \<open>The bound on admitted calls\<close>

interpretation buckets: slot_table rate_slots "\<lambda>b. \<not> rb_used b" rb_ip RATE_TABLE_SIZE
  by unfold_locales (auto simp: rate_slots_def RATE_TABLE_SIZE_def intro: set_probe_slots)

lemma rate_probe_lookup: "rate_probe ip t = buckets.lookup ip t"
  by (simp add: rate_probe_def buckets.lookup_def)

lemma rate_probe_Some:
  "rate_probe ip t = Some j \<Longrightarrow> j < RATE_TABLE_SIZE \<and> (rb_used (t ! j) \<longrightarrow> rb_ip (t ! j) = ip)"
  using first_slot_Some buckets.slots_in_range by (fastforce simp: rate_probe_def)

lemma rate_base_less: "rate_base ip < RATE_TABLE_SIZE"
  by (simp add: rate_base_def RATE_TABLE_SIZE_def)

text \<open>The bucket a call of \<open>ip\<close> uses: the probed one, or the base slot when every probe is taken.\<close>

definition rate_slot :: "32 word \<Rightarrow> rate_bucket list \<Rightarrow> nat" where
  "rate_slot ip t = (case rate_probe ip t of Some j \<Rightarrow> j | None \<Rightarrow> rate_base ip)"

definition slot_call :: "int \<Rightarrow> 32 word \<Rightarrow> int \<Rightarrow> rate_bucket \<Rightarrow> bool \<times> rate_bucket" where
  "slot_call cap ip now b =
     (if \<not> rb_used b then (True, \<lparr>rb_ip = ip, rb_ts = now, rb_tokens = cap - 1, rb_used = True\<rparr>)
      else bucket_spend b cap now)"

lemma rate_slot_less: "rate_slot ip t < RATE_TABLE_SIZE"
  using rate_probe_Some rate_base_less by (fastforce simp: rate_slot_def split: option.split)

lemma rate_probe_None_used:
  "rate_probe ip t = None \<Longrightarrow> rb_used (t ! rate_base ip)"
proof -
  assume none: "rate_probe ip t = None"
  have "rate_base ip \<in> set (rate_slots ip)"
    unfolding rate_slots_def by (subst hd_probe_slots) (simp_all add: rate_base_less RATE_MAX_PROBES_def)
  with none show ?thesis by (auto simp: rate_probe_def first_slot_None)
qed

lemma rate_allow_in_slot:
  "rate_allow_in cap t ip now =
   (fst (slot_call cap ip now (t ! rate_slot ip t)),
    t[rate_slot ip t := snd (slot_call cap ip now (t ! rate_slot ip t))])"
  using rate_probe_None_used [of ip t]
  by (auto simp: rate_allow_in_def rate_slot_def slot_call_def split: option.split prod.split)

lemma bucket_spend_frame:
  "rb_used (snd (bucket_spend b cap now)) = rb_used b"
  "rb_ip (snd (bucket_spend b cap now)) = rb_ip b"
  "rb_ts (snd (bucket_spend b cap now)) = max (rb_ts b) now"
  by (auto simp: bucket_spend_def Let_def)

lemma bucket_spend_tokens:
  assumes "rb_tokens b \<le> cap"
  shows "rb_tokens (snd (bucket_spend b cap now)) + of_bool (fst (bucket_spend b cap now)) \<le> cap"
    and "fst (bucket_spend b cap now) \<Longrightarrow> 0 \<le> rb_tokens (snd (bucket_spend b cap now))"
    and "now \<le> rb_ts b \<Longrightarrow>
      rb_tokens (snd (bucket_spend b cap now)) + of_bool (fst (bucket_spend b cap now)) = rb_tokens b"
  using assms by (auto simp: bucket_spend_def Let_def)

text \<open>
  \<open>n\<close> calls counted against a bucket since \<open>t0\<close>: what was admitted and what is still in the bucket
  is at most one capacity per second that has begun.
\<close>

definition charged :: "int \<Rightarrow> int \<Rightarrow> int \<Rightarrow> rate_bucket \<Rightarrow> bool" where
  "charged cap t0 n b \<longleftrightarrow>
     n = 0 \<or> rb_used b \<and> t0 \<le> rb_ts b \<and> n + max 0 (rb_tokens b) \<le> cap * (rb_ts b - t0 + 1)"

lemma charged_spend:
  assumes "charged cap t0 n b" and "0 \<le> n" and "rb_used b" and "rb_tokens b \<le> cap" and "1 \<le> cap" and "t0 \<le> now"
    and "m = n \<or> m = n + of_bool (fst (bucket_spend b cap now))"
  shows "charged cap t0 m (snd (bucket_spend b cap now))"
proof -
  obtain ok b' where s: "bucket_spend b cap now = (ok, b')" by force
  have fr: "rb_used b'" "rb_ts b' = max (rb_ts b) now"
    using bucket_spend_frame [of b cap now] assms(3) s by simp_all
  have tok: "rb_tokens b' + of_bool ok \<le> cap" "ok \<Longrightarrow> 0 \<le> rb_tokens b'"
    "now \<le> rb_ts b \<Longrightarrow> rb_tokens b' + of_bool ok = rb_tokens b"
    using bucket_spend_tokens [OF assms(4), of now] s by simp_all
  have m: "m \<le> n + of_bool ok" "n \<le> m" using assms(7) s by auto
  have mono: "t0 \<le> x \<Longrightarrow> x < y \<Longrightarrow> cap * (x - t0 + 1) + cap \<le> cap * (y - t0 + 1)" for x y
  proof -
    assume "t0 \<le> x" "x < y"
    then have "cap * (x - t0 + 2) \<le> cap * (y - t0 + 1)" using assms(5) by (intro mult_left_mono) auto
    then show ?thesis by (simp add: algebra_simps)
  qed
  have one: "t0 \<le> x \<Longrightarrow> cap \<le> cap * (x - t0 + 1)" for x
    using assms(5) mult_left_mono [of 1 "x - t0 + 1" cap] by simp
  show ?thesis
  proof (cases "m = 0")
    case False
    have t: "t0 \<le> rb_ts b'" using fr assms(6) by simp
    have left: "of_bool ok + max 0 (rb_tokens b') \<le> cap"
      using tok(1,2) assms(5) by (cases ok) auto
    have "m + max 0 (rb_tokens b') \<le> cap * (rb_ts b' - t0 + 1)"
    proof (cases "n = 0")
      case True
      then show ?thesis using m left one [OF t] by simp
    next
      case False
      then have old: "t0 \<le> rb_ts b" "n + max 0 (rb_tokens b) \<le> cap * (rb_ts b - t0 + 1)"
        using assms(1) by (simp_all add: charged_def)
      show ?thesis
      proof (cases "now \<le> rb_ts b")
        case True
        then have "of_bool ok + max 0 (rb_tokens b') \<le> max 0 (rb_tokens b)"
          using tok(2,3) by (cases ok) auto
        then show ?thesis using old m fr True by (simp add: max_absorb1)
      next
        case False
        then have "rb_ts b' = now" "rb_ts b < now" using fr by simp_all
        then show ?thesis using old m left mono [OF old(1)] by fastforce
      qed
    qed
    then show ?thesis using fr(1) t by (simp add: charged_def s)
  qed (simp add: charged_def s)
qed

text \<open>A sequence of calls, from any clients at any times, and its verdicts.\<close>

primrec rate_run :: "int \<Rightarrow> rate_bucket list \<Rightarrow> (32 word \<times> int) list \<Rightarrow> bool list" where
  "rate_run cap t [] = []"
| "rate_run cap t (c # cs) =
     (case rate_allow_in cap t (fst c) (snd c) of (ok, t') \<Rightarrow> ok # rate_run cap t' cs)"

definition admitted :: "32 word \<Rightarrow> (32 word \<times> int) list \<Rightarrow> bool list \<Rightarrow> nat" where
  "admitted ip cs oks = length (filter (\<lambda>(c, ok). fst c = ip \<and> ok) (zip cs oks))"

definition tokens_bounded :: "int \<Rightarrow> int \<Rightarrow> rate_bucket list \<Rightarrow> bool" where
  "tokens_bounded cap t1 t \<longleftrightarrow>
     length t = RATE_TABLE_SIZE \<and> (\<forall>b \<in> set t. rb_tokens b \<le> cap \<and> rb_ts b \<le> t1)"

text \<open>Claimed slots stay claimed by their owner, so a client that has a bucket keeps it.\<close>

lemma probe_stable:
  assumes "\<And>i. i \<in> set js \<Longrightarrow> rb_used (t ! i) \<Longrightarrow> rb_used (t' ! i) \<and> rb_ip (t' ! i) = rb_ip (t ! i)"
    and "case first_slot (\<lambda>b. \<not> rb_used b \<or> rb_ip b = ip) t js of Some j \<Rightarrow> rb_used (t ! j) | None \<Rightarrow> True"
  shows "first_slot (\<lambda>b. \<not> rb_used b \<or> rb_ip b = ip) t' js =
         first_slot (\<lambda>b. \<not> rb_used b \<or> rb_ip b = ip) t js"
  using assms
proof (induction js)
  case (Cons i js)
  then show ?case by (cases "\<not> rb_used (t ! i) \<or> rb_ip (t ! i) = ip") (auto split: option.splits)
qed simp

lemma slot_call_frame:
  "rb_used (snd (slot_call cap ip now b))"
  "rb_used b \<Longrightarrow> rb_ip (snd (slot_call cap ip now b)) = rb_ip b"
  by (auto simp: slot_call_def bucket_spend_frame)

lemma rate_slot_stable:
  assumes "length t = RATE_TABLE_SIZE" and "rb_used (t ! rate_slot ip t)"
  shows "rate_slot ip (snd (rate_allow_in cap t k now)) = rate_slot ip t"
proof -
  have "rate_probe ip (snd (rate_allow_in cap t k now)) = rate_probe ip t"
    unfolding rate_probe_def
  proof (rule probe_stable)
    fix i assume "rb_used (t ! i)"
    then show "rb_used (snd (rate_allow_in cap t k now) ! i) \<and>
        rb_ip (snd (rate_allow_in cap t k now) ! i) = rb_ip (t ! i)"
      using assms(1) rate_slot_less [of k t] slot_call_frame
      by (cases "i = rate_slot k t") (simp_all add: rate_allow_in_slot)
  next
    show "case first_slot (\<lambda>b. \<not> rb_used b \<or> rb_ip b = ip) t (rate_slots ip) of
        None \<Rightarrow> True | Some j \<Rightarrow> rb_used (t ! j)"
      using assms(2) by (auto simp: rate_slot_def rate_probe_def split: option.splits)
  qed
  then show ?thesis by (simp add: rate_slot_def)
qed

lemma slot_call_charged:
  assumes "charged cap t0 n b" and "0 \<le> n" and "rb_tokens b \<le> cap" and "1 \<le> cap" and "t0 \<le> now"
    and "m = n \<or> m = n + of_bool (fst (slot_call cap ip now b))"
  shows "charged cap t0 m (snd (slot_call cap ip now b))"
proof (cases "rb_used b")
  case True
  then show ?thesis using charged_spend [of cap t0 n b now m] assms by (simp add: slot_call_def)
next
  case False
  then have "n = 0" using assms(1) by (simp add: charged_def)
  moreover have "cap \<le> cap * (now - t0 + 1)"
    using assms(4,5) mult_left_mono [of 1 "now - t0 + 1" cap] by simp
  ultimately show ?thesis using assms False by (auto simp: charged_def slot_call_def)
qed

lemma tokens_bounded_step:
  assumes "tokens_bounded cap t1 t" and "now \<le> t1" and "1 \<le> cap"
  shows "tokens_bounded cap t1 (snd (rate_allow_in cap t k now))"
proof -
  let ?b = "t ! rate_slot k t"
  have b: "rb_tokens ?b \<le> cap" "rb_ts ?b \<le> t1"
    using assms(1) rate_slot_less [of k t] by (simp_all add: tokens_bounded_def)
  have "rb_tokens (snd (slot_call cap k now ?b)) \<le> cap \<and> rb_ts (snd (slot_call cap k now ?b)) \<le> t1"
    using bucket_spend_tokens(1) [OF b(1), of now] bucket_spend_frame(3) [of ?b cap now] b(2) assms(2,3)
    by (auto simp: slot_call_def of_bool_def split: if_splits)
  then show ?thesis
    using assms(1) by (auto simp: tokens_bounded_def rate_allow_in_slot dest!: set_update_subset_insert [THEN subsetD])
qed

lemma rate_step_charged:
  assumes tb: "tokens_bounded cap t1 t" and ch: "charged cap t0 n (t ! rate_slot ip t)" and n: "0 \<le> n"
    and cap: "1 \<le> cap" and now: "t0 \<le> now" and a: "rate_allow_in cap t k now = (ok, t')"
    and m: "m = n + (if k = ip then of_bool ok else 0)" and rel: "n \<noteq> 0 \<or> k = ip"
  shows "charged cap t0 m (t' ! rate_slot ip t')"
proof -
  let ?s = "rate_slot ip t"
  have len: "length t = RATE_TABLE_SIZE" using tb by (simp add: tokens_bounded_def)
  have cap_s: "rb_tokens (t ! ?s) \<le> cap" using tb rate_slot_less [of ip t] by (simp add: tokens_bounded_def)
  have keep: "rate_slot ip t' = ?s" if "rb_used (t ! ?s)"
    using rate_slot_stable [OF len that, of cap k now] a by simp
  show ?thesis
  proof (cases "rate_slot k t = ?s")
    case True
    have t': "t' = t[?s := snd (slot_call cap k now (t ! ?s))]" "ok = fst (slot_call cap k now (t ! ?s))"
      using a True by (simp_all add: rate_allow_in_slot)
    have "charged cap t0 m (t' ! ?s)"
      using slot_call_charged [OF ch n cap_s cap now, of m k] rate_slot_less [of ip t] len t'
      by (auto simp: m)
    moreover have "rate_slot ip t' = ?s"
    proof (cases "rb_used (t ! ?s)")
      case free: False
      then have "k = ip" using rel ch by (auto simp: charged_def)
      moreover have "rate_probe ip t = Some ?s"
        using free rate_probe_None_used [of ip t] by (auto simp: rate_slot_def split: option.splits)
      ultimately have "rate_probe ip t' = Some ?s"
        using buckets.lookup_after_store [of ip t ?s] len free t'
        by (auto simp: rate_probe_lookup slot_call_def)
      then show ?thesis by (simp add: rate_slot_def [of ip t'])
    qed (rule keep)
    ultimately show ?thesis by simp
  next
    case other: False
    then have "k \<noteq> ip" "n \<noteq> 0" using rel by auto
    then have "rate_slot ip t' = ?s" using ch by (auto simp: charged_def intro: keep)
    moreover have "t' ! ?s = t ! ?s" using a other by (auto simp: rate_allow_in_slot)
    ultimately show ?thesis using ch \<open>k \<noteq> ip\<close> by (simp add: m)
  qed
qed

lemma rate_run_charged:
  assumes "tokens_bounded cap t1 t" and "charged cap t0 n (t ! rate_slot ip t)" and "0 \<le> n"
    and "1 \<le> cap" and "\<forall>c \<in> set cs. t0 \<le> snd c \<and> snd c \<le> t1" and "t0 \<le> t1"
  shows "n + int (admitted ip cs (rate_run cap t cs)) \<le> cap * (t1 - t0 + 1)"
  using assms
proof (induction cs arbitrary: t n)
  case Nil
  have "rb_ts (t ! rate_slot ip t) \<le> t1"
    using Nil(1) rate_slot_less [of ip t] by (simp add: tokens_bounded_def)
  then have "cap * (rb_ts (t ! rate_slot ip t) - t0 + 1) \<le> cap * (t1 - t0 + 1)"
    using Nil(4) by (intro mult_left_mono) auto
  moreover have "0 \<le> cap * (t1 - t0 + 1)" using Nil(4,6) by simp
  ultimately show ?case using Nil(2) by (auto simp: charged_def admitted_def)
next
  case (Cons c cs)
  obtain k now where c: "c = (k, now)" by force
  obtain ok t' where a: "rate_allow_in cap t k now = (ok, t')" by force
  define m where "m = n + (if k = ip then of_bool ok else 0)"
  have now: "t0 \<le> now" "now \<le> t1" using Cons(6) c by simp_all
  have tb: "tokens_bounded cap t1 t'"
    using tokens_bounded_step [OF Cons(2) now(2) Cons(5), of k] a by simp
  have "charged cap t0 m (t' ! rate_slot ip t')"
    using rate_step_charged [OF Cons(2-5) now(1) a m_def]
    by (cases "n \<noteq> 0 \<or> k = ip") (simp_all add: charged_def m_def)
  then have "m + int (admitted ip cs (rate_run cap t' cs)) \<le> cap * (t1 - t0 + 1)"
    using Cons(1) [OF tb, of m] Cons(4-7) c by (simp add: m_def)
  then show ?case by (cases ok) (simp_all add: c a admitted_def m_def split: if_splits)
qed

section \<open>Properties\<close>

text \<open>
  A configured network covers exactly the addresses that share its prefix.  When an entry of
  the trusted-proxy list parses as an address \<open>a\<close> of family \<open>f\<close> with prefix length \<open>p\<close>, the stored
  network matches a peer address iff the families agree and the first \<open>p\<close> bits are equal.  The
  address parsers return 4 and 16 bytes.
\<close>

theorem trusted_net_exact:
  assumes "cidr_entry aton pton6 e = Some (f, a, p)"
    and "\<forall>s x. aton s = Some x \<longrightarrow> length x = 4" and "\<forall>s x. pton6 s = Some x \<longrightarrow> length x = 16"
  shows "\<exists>net. parse_cidr aton pton6 e = Some net \<and>
    (\<forall>f' b. net_matches net f' b \<longleftrightarrow> f' = f \<and> (\<forall>i < p. addr_bit b i = addr_bit a i))"
  using cidr_entry_lengths [OF assms] assms(1) make_net_matches by (simp add: parse_cidr_def)

definition demo_aton :: "string \<Rightarrow> 8 word list option" where
  "demo_aton s = (if s = ''10.1.0.0'' then Some [10, 1, 0, 0] else None)"

definition demo_pton6 :: "string \<Rightarrow> 8 word list option" where
  "demo_pton6 s = None"

lemma demo_parsers:
  "demo_aton s = Some x \<longrightarrow> length x = 4" "demo_pton6 s = Some x \<longrightarrow> length x = 16"
  by (auto simp: demo_aton_def demo_pton6_def)

lemma demo_entry: "cidr_entry demo_aton demo_pton6 ''10.1.0.0/12'' = Some (AF_INET, [10, 1, 0, 0], 12)"
  by code_simp

lemma demo_bits: "addr_bit [10, 15, 3, 4] i = addr_bit [10, 1, 0, 0] i" if "i < 12"
proof -
  have "list_all (\<lambda>i. addr_bit [10, 15, 3, 4] i = addr_bit [10, 1, 0, 0] i) [0..<12]" by code_simp
  with that show ?thesis by (auto simp: list_all_iff)
qed

theorem trusted_net_exact_witness:
  "\<exists>net. parse_cidr demo_aton demo_pton6 ''10.1.0.0/12'' = Some net \<and> net_matches net AF_INET [10, 15, 3, 4]"
  using trusted_net_exact [OF demo_entry] demo_parsers demo_bits by blast

text \<open>
  A client cannot choose its own rate-limit key.  If the peer's address is in none of the
  networks of the trusted-proxy configuration, its key is that of its socket address whatever the
  request carries, X-Forwarded-For included.
\<close>

theorem forwarded_for_ignored_from_untrusted:
  assumes "\<forall>e a p. csv_entry e csv \<and> cidr_entry aton pton6 e = Some (AF_INET, a, p) \<longrightarrow>
      (\<exists>i < p. addr_bit peer i \<noteq> addr_bit a i)"
    and "\<forall>s x. aton s = Some x \<longrightarrow> length x = 4" and "\<forall>s x. pton6 s = Some x \<longrightarrow> length x = 16"
  shows "rate_limit_key_from_peer aton pton6 (rate_limit_set_trusted_proxies aton pton6 (Some csv))
           (Some (Sin peer)) (Some req) = load32 peer"
proof -
  have "\<not> net_matches net AF_INET peer"
    if mem: "net \<in> set (trusted_loop aton pton6 csv [])" for net
  proof -
    obtain e f a p where e: "csv_entry e csv" "cidr_entry aton pton6 e = Some (f, a, p)" "net = make_net f a p"
      using trusted_loop_sound [OF mem] by (auto simp: parse_cidr_def)
    then have "net_matches net AF_INET peer \<longleftrightarrow> AF_INET = f \<and> (\<forall>i < p. addr_bit peer i = addr_bit a i)"
      using make_net_matches cidr_entry_lengths [OF e(2) assms(2,3)] by simp
    then show ?thesis using assms(1) e(1,2) by (cases f) auto
  qed
  then have "\<not> rate_limit_is_trusted (trusted_loop aton pton6 csv []) (Some (Sin peer))"
    by (auto simp: rate_limit_is_trusted_def list_ex_iff)
  then show ?thesis
    by (simp add: rate_limit_key_from_peer_def rate_limit_set_trusted_proxies_def sockaddr_key_def
        key_from_addr_def)
qed


lemma demo_csv_entries:
  assumes "csv_entry e ''10.1.0.0/12''" and "cidr_entry demo_aton demo_pton6 e = Some (AF_INET, a, p)"
  shows "\<exists>i < p. addr_bit [9, 9, 9, 9] i \<noteq> addr_bit a i"
proof -
  let ?s = "''10.1.0.0/12''"
  have "\<exists>xs. ?s = xs @ e"
    using assms(1) unfolding csv_entry_def
  proof (elim exE conjE disjE)
    fix xs ys assume "?s = xs @ e @ ys" "hd ys = CHR '',''"
    moreover have "CHR '','' \<notin> set ?s" by code_simp
    ultimately show ?thesis by (cases ys) auto
  qed auto
  then obtain xs where s: "?s = xs @ e" ..
  from arg_cong [OF s, of length] have "length xs < 12" by simp
  moreover have "e = drop (length xs) ?s" unfolding s by simp
  ultimately have e: "e \<in> set (map (\<lambda>n. drop n ?s) [0..<12])" unfolding set_map by fastforce
  have "list_all (\<lambda>e. case cidr_entry demo_aton demo_pton6 e of
       Some (AF_INET, a, p) \<Rightarrow> list_ex (\<lambda>i. addr_bit [9, 9, 9, 9] i \<noteq> addr_bit a i) [0..<p]
     | _ \<Rightarrow> True) (map (\<lambda>n. drop n ?s) [0..<12])" by code_simp
  with e assms(2) show ?thesis by (force simp: list_all_iff list_ex_iff)
qed

theorem forwarded_for_ignored_witness:
  "rate_limit_key_from_peer demo_aton demo_pton6
     (rate_limit_set_trusted_proxies demo_aton demo_pton6 (Some ''10.1.0.0/12''))
     (Some (Sin [9, 9, 9, 9])) (Some (zero_request\<lparr>rq_x_forwarded_for := ''10.1.0.0''\<rparr>)) = 0x09090909"
proof -
  have "rate_limit_key_from_peer demo_aton demo_pton6
     (rate_limit_set_trusted_proxies demo_aton demo_pton6 (Some ''10.1.0.0/12''))
     (Some (Sin [9, 9, 9, 9])) (Some (zero_request\<lparr>rq_x_forwarded_for := ''10.1.0.0''\<rparr>)) = load32 [9, 9, 9, 9]"
    using demo_csv_entries demo_parsers by (intro forwarded_for_ignored_from_untrusted) blast+
  then show ?thesis by (simp add: load32_def)
qed

text \<open>
  (C7) The global rate bound.  Whatever calls arrive, from any clients in any interleaving and
  with the clock anywhere in the seconds \<open>t0 .. t1\<close> (even running backwards there), one client is
  admitted at most \<open>cap\<close> times per second of the span, also when it has to share another client's
  bucket and when the refill product overflows.
\<close>

theorem rate_limit_bound:
  assumes "1 \<le> cap" and "t0 \<le> t1" and "tokens_bounded cap t1 t"
    and "\<forall>c \<in> set cs. t0 \<le> snd c \<and> snd c \<le> t1"
  shows "int (admitted ip cs (rate_run cap t cs)) \<le> cap * (t1 - t0 + 1)"
  using rate_run_charged [OF assms(3) _ _ assms(1,4,2), of 0 ip] by (simp add: charged_def)

theorem rate_limit_bound_witness:
  "int (admitted 7 [(7, 100), (7, 100), (7, 100)]
     (rate_run 2 (replicate RATE_TABLE_SIZE zero_rate_bucket) [(7, 100), (7, 100), (7, 100)])) \<le> 2"
  using rate_limit_bound [of 2 100 100 "replicate RATE_TABLE_SIZE zero_rate_bucket"
      "[(7, 100), (7, 100), (7, 100)]" 7]
  by (simp add: tokens_bounded_def zero_rate_bucket_def)

lemma burst_same_second:
  assumes "length t = RATE_TABLE_SIZE" and "rate_probe ip t = Some j" and "rb_used (t ! j)"
    and "rb_ts (t ! j) = now" and "0 \<le> rb_tokens (t ! j)"
  shows "rate_run cap t (replicate n (ip, now)) =
    replicate (min n (nat (rb_tokens (t ! j)))) True @ replicate (n - nat (rb_tokens (t ! j))) False"
  using assms
proof (induction n arbitrary: t)
  case (Suc n)
  let ?b = "t ! j" and ?b' = "snd (bucket_spend (t ! j) cap now)"
  have j: "j < RATE_TABLE_SIZE" "rb_ip ?b = ip" using rate_probe_Some [OF Suc(3)] Suc(4) by simp_all
  have step: "rate_allow_in cap t ip now = (fst (bucket_spend ?b cap now), t[j := ?b'])"
    using Suc(3,4) by (simp add: rate_allow_in_def split: prod.split)
  have sp: "bucket_spend ?b cap now =
      (if rb_tokens ?b \<ge> 1 then (True, ?b\<lparr>rb_tokens := rb_tokens ?b - 1\<rparr>) else (False, ?b))"
    using Suc(5) by (simp add: bucket_spend_def Let_def)
  have "rate_probe ip (t[j := ?b']) = Some j"
    using buckets.lookup_after_store [of ip t j ?b'] Suc(2,3) j(2) bucket_spend_frame(2)
    by (simp add: rate_probe_lookup)
  then have IH: "rate_run cap (t[j := ?b']) (replicate n (ip, now)) =
      replicate (min n (nat (rb_tokens ?b'))) True @ replicate (n - nat (rb_tokens ?b')) False"
    using Suc(1) [of "t[j := ?b']"] Suc(2-6) j sp by (simp split: if_splits)
  show ?case
  proof (cases "rb_tokens ?b \<ge> 1")
    case True
    then have "nat (rb_tokens ?b) = Suc (nat (rb_tokens ?b - 1))" by simp
    then show ?thesis using step sp True IH by simp
  next
    case False
    then show ?thesis using step sp IH Suc(6) by simp
  qed
qed simp

text \<open>
  The full rate is available.  A client with a bucket that was idle for \<open>g \<ge> 1\<close> seconds and
  sends \<open>n\<close> requests in one second has exactly the first \<open>cap\<close> of them admitted, provided the refill
  \<open>g * cap\<close> fits the 32-bit counter.
\<close>

theorem rate_limit_full_burst:
  assumes "length t = RATE_TABLE_SIZE" and "rate_probe ip t = Some j" and "rb_used (t ! j)"
    and "1 \<le> cap" and "0 \<le> rb_tokens (t ! j)" and "rb_ts (t ! j) < now"
    and "rb_tokens (t ! j) + (now - rb_ts (t ! j)) * cap < 2 ^ 31"
  shows "rate_run cap t (replicate n (ip, now)) =
    replicate (min n (nat cap)) True @ replicate (n - nat cap) False"
proof (cases n)
  case (Suc m)
  let ?b = "t ! j" and ?b' = "snd (bucket_spend (t ! j) cap now)"
  define g where "g = now - rb_ts ?b"
  define x where "x = g * cap"
  have "1 \<le> g" using assms(6) by (simp add: g_def)
  moreover have "cap \<le> x" "g \<le> x"
    using mult_right_mono [of 1 g cap] mult_left_mono [of 1 cap g] \<open>1 \<le> g\<close> assms(4) by (simp_all add: x_def)
  moreover have "rb_tokens ?b + x < 2 ^ 31" using assms(7) by (simp add: x_def g_def)
  ultimately have gc: "cap \<le> x" and w: "wrap32 g = g" "wrap32 x = x" "wrap32 (rb_tokens ?b + x) = rb_tokens ?b + x"
    using assms(4,5) by (simp_all add: wrap32_id)
  have sp: "bucket_spend ?b cap now = (True, ?b\<lparr>rb_tokens := cap - 1, rb_ts := now\<rparr>)"
    using assms(4-6) gc w by (simp add: bucket_spend_def Let_def g_def [symmetric] x_def [symmetric])
  have j: "j < RATE_TABLE_SIZE" "rb_ip ?b = ip" using rate_probe_Some [OF assms(2)] assms(3) by simp_all
  have step: "rate_allow_in cap t ip now = (True, t[j := ?b'])"
    using assms(2,3) sp by (simp add: rate_allow_in_def)
  have "rate_probe ip (t[j := ?b']) = Some j"
    using buckets.lookup_after_store [of ip t j ?b'] assms(1,2) j(2) sp by (simp add: rate_probe_lookup)
  then have "rate_run cap (t[j := ?b']) (replicate m (ip, now)) =
      replicate (min m (nat (cap - 1))) True @ replicate (m - nat (cap - 1)) False"
    using burst_same_second [of "t[j := ?b']" ip j now cap m] assms(1,3,4) j sp by simp
  moreover have "nat cap = Suc (nat (cap - 1))" using assms(4) by simp
  ultimately show ?thesis using Suc step by simp
qed simp

abbreviation "rate_t0 \<equiv> replicate RATE_TABLE_SIZE zero_rate_bucket"

lemma rate_slots_0: "rate_slots 0 = [0..<8]"
  by (simp add: rate_slots_def probe_slots_def rate_base_def mix_ip_def RATE_TABLE_SIZE_def
      RATE_MAX_PROBES_def upt_rec)

abbreviation "used_bucket ts tok \<equiv> \<lparr>rb_ip = 0, rb_ts = ts, rb_tokens = tok, rb_used = True\<rparr>"

lemma rate_probe_demo: "rate_probe 0 (rate_t0[0 := used_bucket ts tok]) = Some 0"
  by (simp add: rate_probe_def rate_slots_0 RATE_TABLE_SIZE_def upt_rec)

lemma rate_allow_demo:
  "rate_allow_in cap (rate_t0[0 := used_bucket ts tok]) 0 now =
   (fst (bucket_spend (used_bucket ts tok) cap now),
    rate_t0[0 := snd (bucket_spend (used_bucket ts tok) cap now)])"
  unfolding rate_allow_in_def rate_probe_demo by (simp add: RATE_TABLE_SIZE_def split: prod.split)

theorem rate_limit_full_burst_witness:
  "rate_run 3 (rate_t0[0 := used_bucket 0 0]) (replicate 5 (0, 10)) = [True, True, True, False, False]"
proof -
  have "rate_run 3 (rate_t0[0 := used_bucket 0 0]) (replicate 5 (0, 10)) =
      replicate (min 5 (nat 3)) True @ replicate (5 - nat 3) False"
    by (rule rate_limit_full_burst [OF _ rate_probe_demo]) (simp_all add: RATE_TABLE_SIZE_def)
  then show ?thesis by (simp add: numeral_eq_Suc)
qed

text \<open>
  Clients do not disturb each other.  A call of one client leaves the verdict and the state
  of the next call of another client that has a bucket unchanged, unless all eight probe slots of
  the first client belong to others.
\<close>

theorem rate_limit_isolated:
  assumes "length t = RATE_TABLE_SIZE" and "rate_probe ip' t = Some i" and "rb_used (t ! i)" and "ip \<noteq> ip'"
    and "rate_probe ip t \<noteq> None" and "rate_allow_in cap t ip now = (ok, t')"
  shows "fst (rate_allow_in cap t' ip' now') = fst (rate_allow_in cap t ip' now') \<and>
         snd (rate_allow_in cap t' ip' now') ! i = snd (rate_allow_in cap t ip' now') ! i"
proof -
  obtain j where j: "rate_probe ip t = Some j" using assms(5) by auto
  define b where "b = snd (slot_call cap ip now (t ! j))"
  have t': "t' = t[j := b]" using assms(6) j by (simp add: rate_allow_in_slot rate_slot_def b_def)
  have b: "rb_used b" "rb_ip b = ip"
    using slot_call_frame rate_probe_Some [OF j] by (auto simp: b_def slot_call_def bucket_spend_frame)
  have own: "rb_ip (t ! i) = ip'" "i < RATE_TABLE_SIZE" using rate_probe_Some [OF assms(2)] assms(3) by simp_all
  have "rate_probe ip' t' = Some i"
    using buckets.store_keeps_lookup [of ip t j b ip' i] assms j b t' by (simp add: rate_probe_lookup)
  moreover have "t' ! i = t ! i"
    using buckets.update_keeps_others [of ip t j i b] assms j own t' by (simp add: rate_probe_lookup)
  ultimately show ?thesis
    using assms(1-3) own(2) t' by (simp add: rate_allow_in_def split: prod.split)
qed

lemma rate_slots_1: "rate_slots 1 = [192..<200]"
  by (simp add: rate_slots_def probe_slots_def rate_base_def mix_ip_def RATE_TABLE_SIZE_def
      RATE_MAX_PROBES_def upt_rec)

theorem rate_limit_isolated_witness:
  "fst (rate_allow_in 3 (snd (rate_allow_in 3 (rate_t0[0 := used_bucket 0 0]) 1 0)) 0 0) = False"
proof -
  obtain ok t' where a: "rate_allow_in 3 (rate_t0[0 := used_bucket 0 0]) 1 0 = (ok, t')" by force
  have p: "rate_probe 1 (rate_t0[0 := used_bucket 0 0]) = Some 192"
    by (simp add: rate_probe_def rate_slots_1 RATE_TABLE_SIZE_def upt_rec zero_rate_bucket_def)
  have "fst (rate_allow_in 3 t' 0 0) = fst (rate_allow_in 3 (rate_t0[0 := used_bucket 0 0]) 0 0)"
    by (rule conjunct1 [OF rate_limit_isolated [OF _ rate_probe_demo _ _ _ a]])
      (simp_all add: p, simp_all add: RATE_TABLE_SIZE_def)
  then show ?thesis by (simp add: a rate_allow_demo bucket_spend_def)
qed

text \<open>
  An idle client can be locked out.  With 1000 requests per second allowed, a client whose
  bucket was last used 2147484 seconds (24.8 days) ago is refused: the refill product wraps
  around to a negative token count.  It is still refused two million seconds later.
\<close>

theorem rate_limit_idle_lockout:
  "rate_run 1000 (rate_t0[0 := used_bucket 0 999]) [(0, 2147484), (0, 2147485), (0, 4147485)] =
   [False, False, False]"
  by (simp add: rate_allow_demo bucket_spend_def wrap32_def)

end
