(* ===== verification/Minijson.thy ===== *)
theory Minijson
  imports Prelude
begin

text \<open>
  \<open>src/src/core/minijson.c\<close>: the growable string buffer, the JSON string writer and the tolerant
  JSON reader.  A position in the text is the rest of the text; its end is the NUL.  \<open>realloc\<close> is the
  argument \<open>alloc\<close>: whether a block of the given size can be had.
\<close>

section \<open>The growable buffer\<close>

record sbuf =
  sb_p :: "string option"
  sb_cap :: nat
  sb_oom :: bool

definition zero_sbuf :: sbuf where
  "zero_sbuf = \<lparr>sb_p = None, sb_cap = 0, sb_oom = False\<rparr>"

definition sb_text :: "sbuf \<Rightarrow> string" where
  "sb_text b = (case sb_p b of None \<Rightarrow> [] | Some s \<Rightarrow> s)"

text \<open>\<open>while (cap < need) cap *= 2\<close>, for a positive capacity.\<close>

function grow_cap :: "nat \<Rightarrow> nat \<Rightarrow> nat" where
  "grow_cap cap need = (if cap = 0 \<or> need \<le> cap then cap else grow_cap (cap * 2) need)"
  by pat_completeness auto
termination by (relation "measure (\<lambda>(cap, need). need - cap)") auto

declare grow_cap.simps [simp del]

definition sb_reserve :: "(nat \<Rightarrow> bool) \<Rightarrow> sbuf \<Rightarrow> nat \<Rightarrow> sbuf" where
  "sb_reserve alloc b extra =
     (let len = length (sb_text b)
      in if sb_oom b then b
         else if sb_p b \<noteq> None \<and> len + extra + 1 \<le> sb_cap b then b
         else let cap = grow_cap (if sb_cap b \<noteq> 0 then sb_cap b else 256) (len + extra + 1)
              in if alloc cap then b\<lparr>sb_p := Some (sb_text b), sb_cap := cap\<rparr>
                 else b\<lparr>sb_oom := True\<rparr>)"

definition sb_mem :: "(nat \<Rightarrow> bool) \<Rightarrow> sbuf \<Rightarrow> string \<Rightarrow> sbuf" where
  "sb_mem alloc b s =
     (let b1 = sb_reserve alloc b (length s)
      in if sb_oom b1 then b1 else b1\<lparr>sb_p := Some (sb_text b1 @ s)\<rparr>)"

definition sb_str :: "(nat \<Rightarrow> bool) \<Rightarrow> sbuf \<Rightarrow> string \<Rightarrow> sbuf" where
  "sb_str alloc b s = sb_mem alloc b s"

definition sb_chr :: "(nat \<Rightarrow> bool) \<Rightarrow> sbuf \<Rightarrow> char \<Rightarrow> sbuf" where
  "sb_chr alloc b c = sb_mem alloc b [c]"

definition hex04 :: "nat \<Rightarrow> string" where
  "hex04 n = [hexdigit (n div 4096 mod 16), hexdigit (n div 256 mod 16), hexdigit (n div 16 mod 16), hexdigit (n mod 16)]"

definition json_esc :: "char \<Rightarrow> string" where
  "json_esc c =
     (if c = DQUOTE then [BSLASH, DQUOTE]
      else if c = BSLASH then [BSLASH, BSLASH]
      else if c = CHR 0x08 then [BSLASH, CHR ''b'']
      else if c = CHR 0x0C then [BSLASH, CHR ''f'']
      else if c = LF then [BSLASH, CHR ''n'']
      else if c = CR then [BSLASH, CHR ''r'']
      else if c = TAB then [BSLASH, CHR ''t'']
      else if code c < 32 then BSLASH # CHR ''u'' # hex04 (code c)
      else [c])"

definition sb_json_str :: "(nat \<Rightarrow> bool) \<Rightarrow> sbuf \<Rightarrow> string \<Rightarrow> sbuf" where
  "sb_json_str alloc b s =
     sb_chr alloc (foldl (\<lambda>b c. sb_str alloc b (json_esc c)) (sb_chr alloc b DQUOTE) s) DQUOTE"

section \<open>The reader\<close>

definition json_ws :: "char \<Rightarrow> bool" where
  "json_ws c \<longleftrightarrow> c = CHR '' '' \<or> c = TAB \<or> c = LF \<or> c = CR"

definition jws :: "string \<Rightarrow> string" where
  "jws p = dropWhile json_ws p"

definition hex4 :: "string \<Rightarrow> nat" where
  "hex4 q = foldl (\<lambda>v c. 16 * v + (case hexval c of Some d \<Rightarrow> d | None \<Rightarrow> 0)) 0 (take 4 q)"

definition utf8_bytes :: "nat \<Rightarrow> string" where
  "utf8_bytes cp =
     (if cp < 0x80 then [char_of cp]
      else if cp < 0x800 then [char_of (0xC0 + cp div 64), char_of (0x80 + cp mod 64)]
      else if cp < 0x10000 then
        [char_of (0xE0 + cp div 4096), char_of (0x80 + cp div 64 mod 64), char_of (0x80 + cp mod 64)]
      else
        [char_of (0xF0 + cp div 262144), char_of (0x80 + cp div 4096 mod 64),
         char_of (0x80 + cp div 64 mod 64), char_of (0x80 + cp mod 64)])"

text \<open>Bytes go to the output while it has room for them and the NUL.\<close>

definition put_byte :: "nat \<Rightarrow> string \<Rightarrow> char \<Rightarrow> string" where
  "put_byte out_size out c = (if length out + 1 < out_size then out @ [c] else out)"

definition utf8_put :: "nat \<Rightarrow> string \<Rightarrow> nat \<Rightarrow> string" where
  "utf8_put out_size out cp = foldl (put_byte out_size) out (utf8_bytes cp)"

definition xdigits4 :: "string \<Rightarrow> bool" where
  "xdigits4 q \<longleftrightarrow> 4 \<le> length q \<and> list_all isxdigit (take 4 q)"

text \<open>After \<open>\u\<close>: the code point, a surrogate pair joined, and the rest of the text.\<close>

definition jread_unicode :: "string \<Rightarrow> (nat \<times> string) option" where
  "jread_unicode q =
     (if \<not> xdigits4 q then None
      else let cp = hex4 q; r = drop 4 q
           in if 0xD800 \<le> cp \<and> cp \<le> 0xDBFF \<and> take 2 r = [BSLASH, CHR ''u''] \<and> xdigits4 (drop 2 r) then
                let lo = hex4 (drop 2 r)
                in if 0xDC00 \<le> lo \<and> lo \<le> 0xDFFF
                   then Some (0x10000 + (cp - 0xD800) * 1024 + (lo - 0xDC00), drop 6 r)
                   else Some (0xFFFD, r)
              else if 0xD800 \<le> cp \<and> cp \<le> 0xDFFF then Some (0xFFFD, r)
              else Some (cp, r))"

text \<open>After a backslash.\<close>

definition jread_escape :: "string \<Rightarrow> (nat \<times> string) option" where
  "jread_escape p =
     (case p of
        [] \<Rightarrow> None
      | c # q \<Rightarrow>
          if c = DQUOTE then Some (34, q)
          else if c = BSLASH then Some (92, q)
          else if c = CHR ''/'' then Some (47, q)
          else if c = CHR ''b'' then Some (8, q)
          else if c = CHR ''f'' then Some (12, q)
          else if c = CHR ''n'' then Some (10, q)
          else if c = CHR ''r'' then Some (13, q)
          else if c = CHR ''t'' then Some (9, q)
          else if c = CHR ''u'' then jread_unicode q
          else None)"

lemma jread_unicode_shorter: "jread_unicode q = Some (cp, r) \<Longrightarrow> length r \<le> length q"
  by (auto simp: jread_unicode_def Let_def split: if_splits)

lemma jread_escape_shorter: "jread_escape p = Some (cp, r) \<Longrightarrow> length r < length p"
  by (auto simp: jread_escape_def dest: jread_unicode_shorter split: list.splits if_splits)

function jread_loop :: "nat \<Rightarrow> string \<Rightarrow> string \<Rightarrow> (string \<times> string) option" where
  "jread_loop out_size [] out = None"
| "jread_loop out_size (c # p) out =
     (if c = DQUOTE then Some (out, p)
      else if c = BSLASH then
        (case jread_escape p of
           None \<Rightarrow> None
         | Some (cp, r) \<Rightarrow> jread_loop out_size r (utf8_put out_size out cp))
      else jread_loop out_size p (put_byte out_size out c))"
  by pat_completeness auto
termination
  by (relation "measure (\<lambda>(n, p, out). length p)") (auto dest: jread_escape_shorter)

text \<open>The bytes stored (before their NUL) and the text after the closing quote.\<close>

definition jread_string :: "nat \<Rightarrow> string \<Rightarrow> (string \<times> string) option" where
  "jread_string out_size p =
     (case p of
        [] \<Rightarrow> None
      | c # q \<Rightarrow> if c \<noteq> DQUOTE then None else jread_loop out_size q [])"

lemma jread_loop_shorter: "jread_loop n p out = Some (s, r) \<Longrightarrow> length r < length p"
  by (induction n p out rule: jread_loop.induct)
    (fastforce dest!: jread_escape_shorter split: if_splits option.splits)+

lemma jread_string_shorter: "jread_string n p = Some (s, r) \<Longrightarrow> length r < length p"
  by (auto simp: jread_string_def dest: jread_loop_shorter split: list.splits if_splits)

text \<open>The bracket loop of \<open>jskip_value\<close>; \<open>None\<close> is its \<open>-1\<close>.\<close>

function jskip_nest :: "char \<Rightarrow> char \<Rightarrow> string \<Rightarrow> int \<Rightarrow> string option" where
  "jskip_nest open_c close_c [] depth = (if depth \<noteq> 0 then None else Some [])"
| "jskip_nest open_c close_c (c # p) depth =
     (if c = DQUOTE then
        (case jread_string 8 (c # p) of
           None \<Rightarrow> None
         | Some (_, r) \<Rightarrow> jskip_nest open_c close_c r depth)
      else if c = open_c then jskip_nest open_c close_c p (depth + 1)
      else if c = close_c then
        (if depth - 1 = 0 then Some p else jskip_nest open_c close_c p (depth - 1))
      else jskip_nest open_c close_c p depth)"
  by pat_completeness auto
termination
  by (relation "measure (\<lambda>(a, b, p, d). length p)") (auto dest: jread_string_shorter)

definition json_stop :: "char \<Rightarrow> bool" where
  "json_stop c \<longleftrightarrow> c = CHR '','' \<or> c = CHR ''}'' \<or> c = CHR '']''"

definition jskip_value :: "string \<Rightarrow> string option" where
  "jskip_value pp =
     (let p = jws pp
      in case p of
           [] \<Rightarrow> None
         | c # _ \<Rightarrow>
             if c = DQUOTE then map_option snd (jread_string 8 p)
             else if c = CHR ''{'' then jskip_nest CHR ''{'' CHR ''}'' p 0
             else if c = CHR ''['' then jskip_nest CHR ''['' CHR '']'' p 0
             else let r = dropWhile (\<lambda>c. \<not> json_stop c) p
                  in if length r = length p then None else Some r)"

lemma jskip_nest_shorter: "jskip_nest a b p d = Some r \<Longrightarrow> length r \<le> length p"
  by (induction a b p d rule: jskip_nest.induct)
    (fastforce dest!: jread_string_shorter split: if_splits option.splits)+

lemma length_jws: "length (jws p) \<le> length p"
  by (simp add: jws_def length_dropWhile_le)

lemma jskip_value_shorter: "jskip_value p = Some r \<Longrightarrow> length r \<le> length p"
  using length_jws [of p] length_dropWhile_le [of "\<lambda>c. \<not> json_stop c" "jws p"]
  by (auto simp: jskip_value_def Let_def dest!: jskip_nest_shorter jread_string_shorter
      split: list.splits if_splits)

text \<open>One member of the object at \<open>p\<close>: its key as read into \<open>kbuf\<close>, and the text of its value.\<close>

definition jmember :: "string \<Rightarrow> (string \<times> string) option" where
  "jmember p =
     (if p = [] \<or> hd p = CHR ''}'' then None
      else case jread_string 64 p of
             None \<Rightarrow> None
           | Some (kbuf, q) \<Rightarrow>
               (case jws q of
                  [] \<Rightarrow> None
                | c # r \<Rightarrow> if c \<noteq> CHR '':'' then None else Some (cstr kbuf, jws r)))"

lemma jmember_shorter: "jmember p = Some (k, v) \<Longrightarrow> length v < length p"
proof -
  assume "jmember p = Some (k, v)"
  then obtain kbuf q c r where "jread_string 64 p = Some (kbuf, q)" "jws q = c # r" "v = jws r"
    by (auto simp: jmember_def split: if_splits option.splits list.splits)
  then show ?thesis
    using jread_string_shorter [of 64 p kbuf q] length_jws [of q] length_jws [of r] by simp
qed

function jfind_loop :: "string \<Rightarrow> string \<Rightarrow> string option" where
  "jfind_loop pp key =
     (case jmember (jws pp) of
        None \<Rightarrow> None
      | Some (k, v) \<Rightarrow>
          if k = key then Some v
          else (case jskip_value v of
                  None \<Rightarrow> None
                | Some q \<Rightarrow>
                    (case jws q of
                       [] \<Rightarrow> None
                     | c # r \<Rightarrow> if c = CHR '','' then jfind_loop r key else None)))"
  by pat_completeness auto
termination
proof (relation "measure (\<lambda>(p, key). length p)", simp, goal_cases)
  case (1 pp key kv k v q c r)
  then show ?case
    using jmember_shorter [of "jws pp" k v] jskip_value_shorter [of v q] length_jws [of pp] length_jws [of q]
    by simp
qed

declare jfind_loop.simps [simp del]

definition jfind_value :: "string \<Rightarrow> string \<Rightarrow> string option" where
  "jfind_value obj key =
     (case jws obj of
        [] \<Rightarrow> None
      | c # p \<Rightarrow> if c \<noteq> CHR ''{'' then None else jfind_loop p key)"

section \<open>Facts about the buffer\<close>

text \<open>The block holds the text and its NUL.\<close>

definition sb_wf :: "sbuf \<Rightarrow> bool" where
  "sb_wf b \<longleftrightarrow> sb_p b = None \<or> length (sb_text b) + 1 \<le> sb_cap b"

lemma grow_cap_ge: "0 < cap \<Longrightarrow> need \<le> grow_cap cap need"
proof (induction cap need rule: grow_cap.induct)
  case (1 cap need)
  then show ?case by (cases "need \<le> cap") (simp_all add: grow_cap.simps [of cap])
qed

lemma sb_text_upd [simp]: "sb_text (b\<lparr>sb_p := Some s\<rparr>) = s" "sb_text (b\<lparr>sb_oom := o'\<rparr>) = sb_text b"
  "sb_text (b\<lparr>sb_p := Some s, sb_cap := c\<rparr>) = s"
  by (simp_all add: sb_text_def)

lemma sb_reserve_text: "sb_text (sb_reserve alloc b n) = sb_text b"
  by (simp add: sb_reserve_def Let_def)

lemma sb_reserve_room:
  "\<not> sb_oom (sb_reserve alloc b n) \<Longrightarrow> length (sb_text b) + n + 1 \<le> sb_cap (sb_reserve alloc b n)"
  using grow_cap_ge [of "if sb_cap b \<noteq> 0 then sb_cap b else 256" "length (sb_text b) + n + 1"]
  by (auto simp: sb_reserve_def Let_def split: if_splits)

interpretation sb: byte_sink "sb_mem alloc" sb_text sb_oom for alloc
  by unfold_locales (auto simp: sb_mem_def Let_def sb_reserve_text, auto simp: sb_reserve_def)

lemma sb_mem_wf: "sb_wf b \<Longrightarrow> sb_wf (sb_mem alloc b s)"
  using sb_reserve_room [of alloc b "length s"]
  by (auto simp: sb_mem_def sb_wf_def Let_def sb_reserve_text, auto simp: sb_reserve_def Let_def split: if_splits)

definition json_quote :: "string \<Rightarrow> string" where
  "json_quote s = DQUOTE # concat (map json_esc s) @ [DQUOTE]"

lemma sb_json_str_puts:
  "sb_json_str alloc b s = foldl (sb_mem alloc) b ([[DQUOTE]] @ map json_esc s @ [[DQUOTE]])"
  by (simp add: sb_json_str_def sb_chr_def sb_str_def foldl_map)

lemma sb_json_str_text:
  "\<not> sb_oom (sb_json_str alloc b s) \<Longrightarrow> sb_text (sb_json_str alloc b s) = sb_text b @ json_quote s"
  unfolding sb_json_str_puts by (subst sb.puts_written) (simp_all add: json_quote_def)

section \<open>Reading back what was written\<close>

lemma length_put_byte: "length out < n \<Longrightarrow> length (put_byte n out c) < n"
  by (simp add: put_byte_def)

lemma length_utf8_put: "length out < n \<Longrightarrow> length (utf8_put n out cp) < n"
proof -
  have "length out < n \<Longrightarrow> length (foldl (put_byte n) out bs) < n" for bs
    by (induction bs arbitrary: out) (simp_all add: length_put_byte)
  then show "length out < n \<Longrightarrow> ?thesis" by (simp add: utf8_put_def)
qed

lemma jread_loop_bound:
  "jread_loop n p out = Some (s, r) \<Longrightarrow> length out < n \<Longrightarrow> length s < n"
proof (induction n p out rule: jread_loop.induct)
  case (2 n c p out)
  show ?case
  proof (cases "c = DQUOTE")
    case False
    then show ?thesis using 2 length_put_byte [of out n c] length_utf8_put [of out n]
      by (fastforce split: if_splits option.splits)
  qed (use 2 in simp)
qed simp

lemma jread_string_bound: "jread_string n p = Some (s, r) \<Longrightarrow> 0 < n \<Longrightarrow> length s < n"
  by (auto simp: jread_string_def dest!: jread_loop_bound split: list.splits if_splits)

lemma put_byte_take: "put_byte n (take (n - 1) s) c = take (n - 1) (s @ [c])"
  by (cases "length s + 1 < n") (auto simp: put_byte_def)

lemma utf8_put_ascii: "cp < 128 \<Longrightarrow> utf8_put n out cp = put_byte n out (char_of cp)"
  by (simp add: utf8_put_def utf8_bytes_def)

lemma isxdigit_hexdigit [simp]: "n < 16 \<Longrightarrow> isxdigit (hexdigit n)"
  by (simp add: hexval_isxdigit)

lemma xdigits4_hex04: "xdigits4 (hex04 k @ p)"
  by (simp add: xdigits4_def hex04_def)

lemma hex4_hex04:
  assumes "k < 256"
  shows "hex4 (hex04 k @ p) = k"
proof -
  have t: "take 4 (hex04 k @ p) = hex04 k" by (simp add: hex04_def)
  have z: "k div 4096 mod 16 = 0" "k div 256 mod 16 = 0" "k div 16 mod 16 = k div 16" using assms by auto
  show ?thesis
    unfolding hex4_def t hex04_def z using hexval_hexdigit [of "k div 16"] assms by simp
qed

lemma jread_unicode_hex04: "k < 256 \<Longrightarrow> jread_unicode (hex04 k @ p) = Some (k, p)"
  by (simp add: jread_unicode_def xdigits4_hex04 hex4_hex04) (simp add: hex04_def)

lemma esc_chars:
  "char_of (34::nat) = DQUOTE" "char_of (92::nat) = BSLASH" "char_of (8::nat) = CHR 0x08"
  "char_of (12::nat) = CHR 0x0C" "char_of (10::nat) = LF" "char_of (13::nat) = CR" "char_of (9::nat) = TAB"
  by code_simp+

lemma jread_loop_escaped:
  "jread_loop n (json_esc c @ p) out = jread_loop n p (put_byte n out c)"
proof (cases "c \<in> {DQUOTE, BSLASH, CHR 0x08, CHR 0x0C, LF, CR, TAB}")
  case True
  then show ?thesis
    by (elim insertE emptyE; hypsubst; simp add: json_esc_def jread_escape_def utf8_put_ascii esc_chars)
next
  case False
  show ?thesis
  proof (cases "code c < 32")
    case True
    then have "json_esc c = BSLASH # CHR ''u'' # hex04 (code c)" using False by (simp add: json_esc_def)
    with True show ?thesis by (simp add: jread_escape_def jread_unicode_hex04 utf8_put_ascii)
  next
    case big: False
    then have "json_esc c = [c]" using False by (simp add: json_esc_def)
    with False show ?thesis by simp
  qed
qed

lemma jread_loop_quoted:
  "jread_loop n (concat (map json_esc s) @ DQUOTE # p) (take (n - 1) pre) = Some (take (n - 1) (pre @ s), p)"
proof (induction s arbitrary: pre)
  case (Cons c s)
  then show ?case
    using Cons [of "pre @ [c]"] by (simp only: list.map concat.simps append_assoc jread_loop_escaped put_byte_take) simp
qed simp

lemma jread_string_quoted: "jread_string n (json_quote s @ p) = Some (take (n - 1) s, p)"
  using jread_loop_quoted [of n s p "[]"] by (simp add: jread_string_def json_quote_def)

section \<open>Printed JSON values\<close>

text \<open>JSON values as the reader meets them, printed without white space; an atom is a number or a word.\<close>

datatype json = JAtom string | JStr string | JArr "json list" | JObj "(string \<times> json) list"

primrec join :: "string list \<Rightarrow> string" where
  "join [] = []"
| "join (x # xs) = (if xs = [] then x else x @ CHR '','' # join xs)"

fun jprint :: "json \<Rightarrow> string" where
  "jprint (JAtom a) = a"
| "jprint (JStr s) = json_quote s"
| "jprint (JArr vs) = CHR ''['' # join (map jprint vs) @ [CHR '']'']"
| "jprint (JObj kvs) = CHR ''{'' # join (map (\<lambda>kv. json_quote (fst kv) @ CHR '':'' # jprint (snd kv)) kvs) @ [CHR ''}'']"

definition atom_char :: "char \<Rightarrow> bool" where
  "atom_char c \<longleftrightarrow> isalnum c \<or> code c = 43 \<or> code c = 45 \<or> code c = 46"

fun json_wf :: "json \<Rightarrow> bool" where
  "json_wf (JAtom a) = (a \<noteq> [] \<and> list_all atom_char a)"
| "json_wf (JStr s) = (NUL \<notin> set s)"
| "json_wf (JArr vs) = list_all json_wf vs"
| "json_wf (JObj kvs) = list_all (\<lambda>kv. NUL \<notin> set (fst kv) \<and> json_wf (snd kv)) kvs"

text \<open>Text the bracket loop passes over without ending or changing its depth.\<close>

definition neutral :: "char \<Rightarrow> char \<Rightarrow> string \<Rightarrow> bool" where
  "neutral o' c xs \<longleftrightarrow> (\<forall>rest d. 1 \<le> d \<longrightarrow> jskip_nest o' c (xs @ rest) d = jskip_nest o' c rest d)"

definition brackets :: "char \<Rightarrow> char \<Rightarrow> bool" where
  "brackets o' c \<longleftrightarrow> (o', c) = (CHR ''{'', CHR ''}'') \<or> (o', c) = (CHR ''['', CHR '']'')"

lemma neutral_append: "neutral o' c xs \<Longrightarrow> neutral o' c ys \<Longrightarrow> neutral o' c (xs @ ys)"
  by (simp add: neutral_def)

lemma neutral_Nil [simp]: "neutral o' c []"
  by (simp add: neutral_def)

lemma neutral_Cons: "x \<noteq> DQUOTE \<Longrightarrow> x \<noteq> o' \<Longrightarrow> x \<noteq> c \<Longrightarrow> neutral o' c xs \<Longrightarrow> neutral o' c (x # xs)"
  by (simp add: neutral_def)

lemma neutral_quote: "neutral o' c (json_quote s)"
proof -
  have "jskip_nest o' c (json_quote s @ rest) d = jskip_nest o' c rest d" for rest d
    using jread_string_quoted [of 8 s rest] by (simp add: json_quote_def)
  then show ?thesis by (simp add: neutral_def)
qed

lemma neutral_join:
  "brackets o' c \<Longrightarrow> \<forall>x \<in> set xs. neutral o' c x \<Longrightarrow> neutral o' c (join xs)"
proof (induction xs)
  case (Cons x xs)
  then have "neutral o' c (CHR '','' # join xs)"
    by (intro neutral_Cons) (auto simp: brackets_def)
  with Cons show ?case by (auto intro: neutral_append)
qed simp

text \<open>A bracketed neutral text is neutral: it either nests one level or is of the other kind.\<close>

lemma neutral_nested:
  assumes "brackets o' c" "brackets a b" "neutral o' c xs"
  shows "neutral o' c (a # xs @ [b])"
proof (cases "a = o'")
  case True
  then have "b = c" using assms(1,2) by (auto simp: brackets_def)
  with True assms(1,3) show ?thesis by (auto simp: neutral_def brackets_def)
next
  case False
  then have "a \<noteq> DQUOTE" "b \<noteq> DQUOTE" "a \<noteq> c" "b \<noteq> o'" "b \<noteq> c" using assms(1,2) by (auto simp: brackets_def)
  with False assms(3) show ?thesis by (intro neutral_Cons neutral_append) auto
qed

lemma atom_char_plain: "atom_char x \<Longrightarrow> x \<noteq> DQUOTE \<and> \<not> json_ws x \<and> \<not> json_stop x \<and> x \<noteq> CHR ''{'' \<and> x \<noteq> CHR ''[''"
  by (auto simp: atom_char_def isalnum_def isalpha_def isdigit_def json_ws_def json_stop_def)

lemma neutral_atom: "brackets o' c \<Longrightarrow> list_all atom_char a \<Longrightarrow> neutral o' c a"
proof (induction a)
  case (Cons x a)
  then show ?case using atom_char_plain [of x] by (intro neutral_Cons) (auto simp: brackets_def json_stop_def)
qed simp

lemma neutral_jprint: "brackets o' c \<Longrightarrow> json_wf v \<Longrightarrow> neutral o' c (jprint v)"
proof (induction v rule: jprint.induct)
  case (3 vs)
  then show ?case unfolding jprint.simps
    by (intro neutral_nested neutral_join) (auto simp: list_all_iff brackets_def)
next
  case (4 kvs)
  have "neutral o' c (json_quote (fst kv) @ CHR '':'' # jprint (snd kv))" if "kv \<in> set kvs" for kv
    using 4 that by (intro neutral_append neutral_quote neutral_Cons) (auto simp: brackets_def list_all_iff)
  then show ?case using 4(2) unfolding jprint.simps
    by (intro neutral_nested neutral_join) (auto simp: brackets_def)
qed (simp_all add: neutral_atom neutral_quote)

lemma jws_id: "p \<noteq> [] \<Longrightarrow> \<not> json_ws (hd p) \<Longrightarrow> jws p = p"
  by (cases p) (simp_all add: jws_def)

lemma jskip_nested:
  assumes "brackets a b" and "neutral a b xs"
  shows "jskip_nest a b (a # xs @ b # rest) 0 = Some rest"
  using assms by (auto simp: neutral_def brackets_def)

lemma jprint_hd:
  assumes "json_wf v"
  shows "jprint v \<noteq> [] \<and> \<not> json_ws (hd (jprint v))"
proof (cases v)
  case (JAtom a)
  then show ?thesis using assms atom_char_plain by (cases a) auto
qed (auto simp: json_ws_def json_quote_def)

text \<open>Skipping a printed value lands right behind it when a delimiter follows.\<close>

lemma jskip_value_jprint:
  assumes "json_wf v" and "json_stop d"
  shows "jskip_value (jprint v @ d # rest) = Some (d # rest)"
proof -
  have ws: "jws (jprint v @ d # rest) = jprint v @ d # rest"
    using jprint_hd [OF assms(1)] by (intro jws_id) auto
  have br: "brackets CHR ''['' CHR '']''" "brackets CHR ''{'' CHR ''}''" by (simp_all add: brackets_def)
  show ?thesis
  proof (cases v)
    case (JAtom a)
    then obtain x a' where a: "a = x # a'" using assms(1) by (cases a) auto
    have all: "y \<in> set a \<Longrightarrow> \<not> json_stop y" for y
      using assms(1) JAtom atom_char_plain by (auto simp: list_all_iff)
    have "dropWhile (\<lambda>c. \<not> json_stop c) (a @ d # rest) = d # rest"
      using all assms(2) by (simp add: dropWhile_append2)
    moreover have "x \<noteq> DQUOTE \<and> x \<noteq> CHR ''{'' \<and> x \<noteq> CHR ''[''"
      using assms(1) JAtom a atom_char_plain by simp
    ultimately show ?thesis using ws JAtom a by (simp add: jskip_value_def Let_def)
  next
    case (JStr s)
    then show ?thesis using ws jread_string_quoted [of 8 s "d # rest"]
      by (simp add: jskip_value_def Let_def json_quote_def)
  next
    case (JArr vs)
    have "neutral CHR ''['' CHR '']'' (join (map jprint vs))"
      using assms(1) JArr by (intro neutral_join br) (auto simp: list_all_iff intro: neutral_jprint br)
    from jskip_nested [OF br(1) this, of "d # rest"] show ?thesis
      using ws JArr by (simp add: jskip_value_def Let_def del: jskip_nest.simps)
  next
    case (JObj kvs)
    have "neutral CHR ''{'' CHR ''}'' (json_quote (fst kv) @ CHR '':'' # jprint (snd kv))"
      if "kv \<in> set kvs" for kv
      using assms(1) JObj that br(2)
      by (intro neutral_append neutral_quote neutral_Cons neutral_jprint) (auto simp: list_all_iff)
    then have "neutral CHR ''{'' CHR ''}'' (join (map (\<lambda>kv. json_quote (fst kv) @ CHR '':'' # jprint (snd kv)) kvs))"
      by (intro neutral_join br) auto
    from jskip_nested [OF br(2) this, of "d # rest"] show ?thesis
      using ws JObj by (simp add: jskip_value_def Let_def del: jskip_nest.simps)
  qed
qed

lemma jmember_printed:
  assumes "json_wf v" and "NUL \<notin> set k"
  shows "jmember (json_quote k @ CHR '':'' # jprint v @ rest) = Some (take 63 k, jprint v @ rest)"
proof -
  have "jws (jprint v @ rest) = jprint v @ rest"
    using jprint_hd [OF assms(1)] by (intro jws_id) auto
  moreover have "cstr (take 63 k) = take 63 k"
    using assms(2) by (auto simp: cstr_def takeWhile_eq_all_conv dest: in_set_takeD)
  moreover have "hd (json_quote k @ CHR '':'' # jprint v @ rest) = DQUOTE" by (simp add: json_quote_def)
  ultimately show ?thesis
    using jread_string_quoted [of 64 k] jws_id [of "CHR '':'' # jprint v @ rest"]
    by (simp add: jmember_def json_ws_def json_quote_def)
qed

definition jmembers :: "(string \<times> json) list \<Rightarrow> string" where
  "jmembers kvs = join (map (\<lambda>kv. json_quote (fst kv) @ CHR '':'' # jprint (snd kv)) kvs)"

definition members_wf :: "(string \<times> json) list \<Rightarrow> bool" where
  "members_wf kvs \<longleftrightarrow> list_all (\<lambda>kv. NUL \<notin> set (fst kv) \<and> length (fst kv) < 64 \<and> json_wf (snd kv)) kvs"

lemma jfind_loop_member:
  assumes "json_wf v" and "NUL \<notin> set k" and "length k < 64" and "tail \<noteq> []" and "json_stop (hd tail)"
  shows "jfind_loop (json_quote k @ CHR '':'' # jprint v @ tail) key =
    (if k = key then Some (jprint v @ tail)
     else if hd tail = CHR '','' then jfind_loop (tl tail) key else None)"
proof -
  have ws: "jws (json_quote k @ CHR '':'' # jprint v @ tail) = json_quote k @ CHR '':'' # jprint v @ tail"
    by (simp add: json_quote_def jws_id json_ws_def)
  have skip: "jskip_value (jprint v @ tail) = Some tail"
    using jskip_value_jprint [OF assms(1,5), of "tl tail"] assms(4) by simp
  have "\<not> json_ws (hd tail)" using assms(5) by (auto simp: json_stop_def json_ws_def)
  then have "jws tail = hd tail # tl tail" using assms(4) by (simp add: jws_id)
  moreover have "take 63 k = k" using assms(3) by simp
  ultimately show ?thesis
    by (subst jfind_loop.simps) (simp only: ws jmember_printed [OF assms(1,2)] skip prod.case option.case list.case)
qed

lemma jfind_loop_printed:
  assumes "members_wf kvs"
  shows "case map_of kvs key of
      None \<Rightarrow> jfind_loop (jmembers kvs @ CHR ''}'' # rest) key = None
    | Some v \<Rightarrow> \<exists>tail. jfind_loop (jmembers kvs @ CHR ''}'' # rest) key = Some (jprint v @ tail) \<and>
        tail \<noteq> [] \<and> json_stop (hd tail)"
  using assms
proof (induction kvs)
  case Nil
  then show ?case by (simp add: jmembers_def jfind_loop.simps jws_id json_ws_def jmember_def)
next
  case (Cons kv kvs)
  obtain k v where kv: "kv = (k, v)" by force
  define tail where "tail = (if kvs = [] then CHR ''}'' # rest else CHR '','' # jmembers kvs @ CHR ''}'' # rest)"
  have shape: "jmembers (kv # kvs) @ CHR ''}'' # rest = json_quote k @ CHR '':'' # jprint v @ tail"
    by (simp add: kv tail_def jmembers_def)
  have tl: "tail \<noteq> []" "json_stop (hd tail)" by (simp_all add: tail_def json_stop_def)
  have wf: "json_wf v" "NUL \<notin> set k" "length k < 64" "members_wf kvs"
    using Cons(2) kv by (simp_all add: members_wf_def)
  note step = jfind_loop_member [OF wf(1-3) tl, of key]
  show ?case
  proof (cases "k = key")
    case True
    then show ?thesis unfolding shape step using tl kv by auto
  next
    case False
    then have m: "map_of (kv # kvs) key = map_of kvs key" using kv by simp
    have "jfind_loop (jmembers (kv # kvs) @ CHR ''}'' # rest) key = jfind_loop (jmembers kvs @ CHR ''}'' # rest) key"
      if "kvs \<noteq> []" unfolding shape step using False that by (simp add: tail_def)
    moreover have "jfind_loop (jmembers (kv # kvs) @ CHR ''}'' # rest) key = None" if "kvs = []"
      unfolding shape step using False that by (simp add: tail_def)
    ultimately show ?thesis unfolding m using Cons(1) wf(4)
      by (cases "kvs = []"; cases "map_of kvs key") simp_all
  qed
qed

lemma jfind_value_printed:
  assumes "members_wf kvs"
  shows "case map_of kvs key of
      None \<Rightarrow> jfind_value (jprint (JObj kvs) @ rest) key = None
    | Some v \<Rightarrow> \<exists>tail. jfind_value (jprint (JObj kvs) @ rest) key = Some (jprint v @ tail) \<and>
        jskip_value (jprint v @ tail) = Some tail"
proof -
  have open': "jfind_value (jprint (JObj kvs) @ rest) key = jfind_loop (jmembers kvs @ CHR ''}'' # rest) key"
    by (simp add: jfind_value_def jws_id json_ws_def jmembers_def)
  have skip: "jskip_value (jprint v @ tail) = Some tail"
    if "map_of kvs key = Some v" "tail \<noteq> []" "json_stop (hd tail)" for v tail
    using jskip_value_jprint [of v "hd tail" "tl tail"] that map_of_SomeD [OF that(1)] assms
    by (auto simp: list_all_iff members_wf_def)
  show ?thesis
    unfolding open' using jfind_loop_printed [OF assms, of rest key] skip
    by (cases "map_of kvs key") auto
qed

section \<open>Properties\<close>

text \<open>
  A string survives the trip through the writer and the reader.  Whatever was in the buffer,
  writing a C string as JSON appends a text that the reader, given an output of \<open>n\<close> bytes, reads
  back as that string cut to the \<open>n - 1\<close> bytes that fit, ending exactly behind the text written.
\<close>

theorem json_string_roundtrip:
  assumes "\<not> sb_oom (sb_json_str alloc b s)"
  shows "\<exists>q. sb_text (sb_json_str alloc b s) = sb_text b @ q \<and>
    (\<forall>n rest. jread_string n (q @ rest) = Some (take (n - 1) s, rest))"
  using sb_json_str_text [OF assms] jread_string_quoted by blast

theorem json_string_roundtrip_witness:
  "\<exists>q. sb_text (sb_json_str (\<lambda>_. True) zero_sbuf [LF, DQUOTE]) = sb_text zero_sbuf @ q \<and>
     (\<forall>n rest. jread_string n (q @ rest) = Some (take (n - 1) [LF, DQUOTE], rest))"
  by (rule json_string_roundtrip) code_simp

text \<open>
  The growable buffer never writes past its block.  Any sequence of appends keeps the text
  and its NUL within the capacity, whichever allocations fail; if none fails, the buffer holds all
  that was appended.
\<close>

theorem sbuf_appends_in_bounds:
  assumes "sb_wf b" and "\<not> sb_oom b"
  shows "sb_wf (foldl (sb_mem alloc) b ss) \<and>
    ((\<forall>n. alloc n) \<longrightarrow> sb_text (foldl (sb_mem alloc) b ss) = sb_text b @ concat ss)"
proof -
  have "sb_wf (foldl (sb_mem alloc) b ss)"
    using assms(1) by (induction ss arbitrary: b) (simp_all add: sb_mem_wf)
  moreover have "\<not> sb_oom (foldl (sb_mem alloc) b ss)" if "\<forall>n. alloc n"
    using assms(2) by (induction ss arbitrary: b) (simp_all add: sb_mem_def sb_reserve_def Let_def that)
  ultimately show ?thesis using sb.puts_written by blast
qed

theorem sbuf_appends_witness:
  "sb_text (foldl (sb_mem (\<lambda>_. True)) zero_sbuf [''ab'', ''c'']) = ''abc''"
  using sbuf_appends_in_bounds [of zero_sbuf "\<lambda>_. True" "[''ab'', ''c'']"]
  by (simp add: sb_wf_def zero_sbuf_def sb_text_def)

text \<open>
  Looking up a member of a JSON object.  On the text of any object with well-formed values
  and keys shorter than 64 bytes (nested to any depth, with any strings inside), the lookup
  returns the text of the first member's value with that key, or nothing if there is none.
\<close>

theorem jfind_value_finds_member:
  assumes "members_wf kvs"
  shows "case map_of kvs key of
      None \<Rightarrow> jfind_value (jprint (JObj kvs) @ rest) key = None
    | Some v \<Rightarrow> \<exists>tail. jfind_value (jprint (JObj kvs) @ rest) key = Some (jprint v @ tail) \<and>
        jskip_value (jprint v @ tail) = Some tail"
  by (rule jfind_value_printed [OF assms])

theorem jfind_value_finds_member_witness:
  "\<exists>tail. jfind_value (jprint (JObj [(''a'', JArr [JStr ''}'', JAtom ''1'']), (''b'', JAtom ''27'')])) ''b'' =
     Some (''27'' @ tail)"
  using jfind_value_finds_member [where kvs = "[(''a'', JArr [JStr ''}'', JAtom ''1'']), (''b'', JAtom ''27'')]"
      and key = "''b''" and rest = "[]"]
  by (auto simp: members_wf_def atom_char_def isalnum_def isdigit_def)

end
