(* ===== verification/Chatio.thy ===== *)
theory Chatio
  imports Minijson
begin

text \<open>
  \<open>src/src/http/chatio.c\<close>: the SSE output of the chat endpoint.  The results of \<open>send\<close> come from
  a schedule, one entry per call; the bytes a call accepts are appended to \<open>co_wire\<close>.  A schedule
  that ends while bytes are left is a call that has not returned yet (\<open>None\<close>).
\<close>

datatype send_result = Sent nat | Interrupted | SendFailed

definition CHAT_SSE_HEAD :: string where
  "CHAT_SSE_HEAD =
     ''HTTP/1.1 200 OK'' @ crlf @ ''Content-Type: text/event-stream'' @ crlf @
     ''Cache-Control: no-cache'' @ crlf @ ''X-Accel-Buffering: no'' @ crlf @
     ''Connection: close'' @ crlf @ crlf"

text \<open>The return value, the bytes the peer was sent, and what is left of the schedule.\<close>

fun net_write_all :: "send_result list \<Rightarrow> string \<Rightarrow> int option \<times> string \<times> send_result list" where
  "net_write_all rs [] = (Some 0, [], rs)"
| "net_write_all [] buf = (None, [], [])"
| "net_write_all (r # rs) buf =
     (case r of
        Interrupted \<Rightarrow> net_write_all rs buf
      | SendFailed \<Rightarrow> (Some (- 1), [], rs)
      | Sent k \<Rightarrow>
          if k = 0 then (Some (- 1), [], rs)
          else (case net_write_all rs (drop k buf) of (x, d, rs') \<Rightarrow> (x, take k buf @ d, rs')))"

record ChatOut =
  co_ok :: bool
  co_bytes :: int
  co_cap_on :: bool
  co_cap :: sbuf
  co_wire :: string
  co_sched :: "send_result list"

definition chat_send :: "ChatOut \<Rightarrow> string \<Rightarrow> ChatOut option" where
  "chat_send out msg =
     (if \<not> co_ok out then Some out
      else case net_write_all (co_sched out) msg of
             (res, d, rs) \<Rightarrow>
               (case res of
                  None \<Rightarrow> None
                | Some r \<Rightarrow>
                    let o1 = out\<lparr>co_wire := co_wire out @ d, co_sched := rs\<rparr>
                    in Some (if r = 0 then o1\<lparr>co_bytes := wrap32 (co_bytes o1 + int (length msg))\<rparr>
                             else o1\<lparr>co_ok := False\<rparr>)))"

text \<open>The event text that \<open>sse_event\<close> builds in its buffer.\<close>

definition sse_frame :: "(nat \<Rightarrow> bool) \<Rightarrow> string \<Rightarrow> string option \<Rightarrow> sbuf" where
  "sse_frame alloc type data =
     (let b0 = sb_str alloc zero_sbuf (''data: {'' @ [DQUOTE] @ ''t'' @ [DQUOTE] @ '':'' @ [DQUOTE]);
          b1 = sb_str alloc (sb_str alloc b0 type) [DQUOTE];
          b2 = (case data of
                  None \<Rightarrow> b1
                | Some d \<Rightarrow> sb_json_str alloc (sb_str alloc b1 ('','' @ [DQUOTE] @ ''d'' @ [DQUOTE] @ '':'')) d)
      in sb_str alloc b2 (''}'' @ [LF, LF]))"

definition sse_event :: "(nat \<Rightarrow> bool) \<Rightarrow> ChatOut \<Rightarrow> string \<Rightarrow> string option \<Rightarrow> ChatOut option" where
  "sse_event alloc out type data =
     (let b = sse_frame alloc type data;
          out1 = (if sb_oom b then Some (out\<lparr>co_ok := False\<rparr>) else chat_send out (sb_text b))
      in case out1 of
           None \<Rightarrow> None
         | Some o1 \<Rightarrow>
             (case data of
                None \<Rightarrow> Some o1
              | Some d \<Rightarrow>
                  Some (if \<not> sb_oom b \<and> type = ''delta'' \<and> co_cap_on o1
                        then o1\<lparr>co_cap := sb_str alloc (co_cap o1) d\<rparr> else o1)))"

definition sse_heartbeat :: "ChatOut \<Rightarrow> ChatOut option" where
  "sse_heartbeat out = chat_send out ('':'' @ [LF, LF])"

section \<open>What the peer receives\<close>

lemma net_write_all_prefix:
  "net_write_all rs buf = (res, d, rs') \<Longrightarrow> \<exists>e. buf = d @ e \<and> (res = Some 0 \<longrightarrow> e = [])"
proof (induction rs buf arbitrary: d rule: net_write_all.induct)
  case (3 r rs c buf)
  show ?case
  proof (cases r)
    case (Sent k)
    show ?thesis
    proof (cases "k = 0")
      case False
      obtain d1 where n: "net_write_all rs (drop k (c # buf)) = (res, d1, rs')"
        and d: "d = take k (c # buf) @ d1"
        using 3(3) Sent False by (auto split: prod.splits)
      from 3(1) [OF Sent False n] obtain e where "drop k (c # buf) = d1 @ e" "res = Some 0 \<longrightarrow> e = []" by blast
      then have "c # buf = d @ e" using append_take_drop_id [of k "c # buf"] d by simp
      then show ?thesis using \<open>res = Some 0 \<longrightarrow> e = []\<close> by blast
    qed (use 3 Sent in auto)
  qed (use 3 in auto)
qed simp_all

text \<open>The text of an event: the envelope is a JSON object on one line.\<close>

definition sse_json :: "string \<Rightarrow> string option \<Rightarrow> string" where
  "sse_json type data =
     jprint (JObj ((''t'', JStr type) # (case data of None \<Rightarrow> [] | Some d \<Rightarrow> [(''d'', JStr d)])))"

lemma json_quote_plain:
  assumes "list_all isalpha s"
  shows "json_quote s = DQUOTE # s @ [DQUOTE]"
proof -
  have "json_esc c = [c]" if "isalpha c" for c
  proof -
    have "c \<notin> {DQUOTE, BSLASH, CHR 0x08, CHR 0x0C, LF, CR, TAB}" "\<not> code c < 32"
      using that by (auto simp: isalpha_def)
    then show ?thesis by (simp add: json_esc_def)
  qed
  with assms have "concat (map json_esc s) = s" by (induction s) simp_all
  then show ?thesis by (simp add: json_quote_def)
qed

lemma LF_not_escaped: "LF \<notin> set (json_esc c)"
proof -
  have "hexdigit n \<noteq> LF" if "n < 16" for n
    using hexval_hexdigit [OF that] by (auto simp: hexval_def isdigit_def)
  then have "LF \<notin> set (hex04 k)" for k by (simp add: hex04_def eq_commute [of LF])
  then show ?thesis by (auto simp: json_esc_def)
qed

lemma LF_not_quoted: "LF \<notin> set (json_quote s)"
  using LF_not_escaped by (auto simp: json_quote_def)

lemma sse_json_line: "LF \<notin> set (sse_json type data)"
  using LF_not_quoted by (auto simp: sse_json_def split: option.split)

lemma sse_frame_text:
  assumes "list_all isalpha type" and "\<not> sb_oom (sse_frame alloc type data)"
  shows "sb_text (sse_frame alloc type data) = ''data: '' @ sse_json type data @ [LF, LF]"
proof -
  define pieces where "pieces =
    [''data: {'' @ [DQUOTE] @ ''t'' @ [DQUOTE] @ '':'' @ [DQUOTE], type, [DQUOTE]] @
    (case data of None \<Rightarrow> []
     | Some d \<Rightarrow> ('','' @ [DQUOTE] @ ''d'' @ [DQUOTE] @ '':'') # [[DQUOTE]] @ map json_esc d @ [[DQUOTE]]) @
    [''}'' @ [LF, LF]]"
  have b: "sse_frame alloc type data = foldl (sb_mem alloc) zero_sbuf pieces"
    by (cases data) (simp_all add: sse_frame_def Let_def pieces_def sb_json_str_puts sb_str_def)
  have "list_all isalpha ''t''" "list_all isalpha ''d''" by code_simp+
  then have "concat pieces = ''data: '' @ sse_json type data @ [LF, LF]"
    using assms(1) by (cases data) (simp_all add: pieces_def sse_json_def json_quote_plain, simp add: json_quote_def)
  moreover have "sb_text zero_sbuf = []" by (simp add: sb_text_def zero_sbuf_def)
  ultimately show ?thesis using sb.puts_written [of alloc zero_sbuf pieces] assms(2) unfolding b by simp
qed

lemma chat_send_ok: "chat_send out msg = Some o1 \<Longrightarrow> co_ok o1 \<Longrightarrow> co_wire o1 = co_wire out @ msg"
  using net_write_all_prefix
  by (fastforce simp: chat_send_def Let_def split: if_splits option.splits prod.splits)

lemma sse_event_sent:
  assumes "list_all isalpha type" and "sse_event alloc out type data = Some out'" and "co_ok out'"
  shows "co_wire out' = co_wire out @ ''data: '' @ sse_json type data @ [LF, LF]"
proof -
  let ?b = "sse_frame alloc type data"
  obtain o1 where o1: "(if sb_oom ?b then Some (out\<lparr>co_ok := False\<rparr>) else chat_send out (sb_text ?b)) = Some o1"
    "co_ok o1" "co_wire out' = co_wire o1"
    using assms(2,3) unfolding sse_event_def Let_def by (auto split: option.splits if_splits)
  then have "\<not> sb_oom ?b" and "chat_send out (sb_text ?b) = Some o1" by (auto split: if_splits)
  then show ?thesis using sse_frame_text [OF assms(1)] chat_send_ok o1(2,3) by simp
qed

section \<open>Properties\<close>

text \<open>
  Event framing cannot be broken by the data.  When an event is reported as sent, the peer got
  exactly one line \<open>data: <json>\<close> and the empty line that ends the event; the JSON text has no
  line feed of its own, whatever the data are, and reading its member \<open>d\<close> gives back the data.
\<close>

theorem sse_event_framed:
  assumes "list_all isalpha type" and "NUL \<notin> set d" and "sse_event alloc out type (Some d) = Some out'"
    and "co_ok out'"
  shows "\<exists>json. co_wire out' = co_wire out @ ''data: '' @ json @ [LF, LF] \<and> LF \<notin> set json \<and>
    (\<exists>v rest. jfind_value json ''d'' = Some v \<and> (\<forall>n. jread_string n v = Some (take (n - 1) d, rest)))"
proof -
  let ?kvs = "[(''t'', JStr type), (''d'', JStr d)]"
  have "NUL \<notin> set type" using assms(1) by (auto simp: list_all_iff isalpha_def)
  then have "members_wf ?kvs" using assms(2) by (simp add: members_wf_def)
  from jfind_value_printed [OF this, of "[]" "''d''"]
  obtain tail where "jfind_value (sse_json type (Some d)) ''d'' = Some (json_quote d @ tail)"
    by (auto simp: sse_json_def)
  then show ?thesis
    using sse_event_sent [OF assms(1,3,4)] sse_json_line jread_string_quoted by blast
qed

abbreviation "demo_out \<equiv>
  \<lparr>co_ok = True, co_bytes = 0, co_cap_on = False, co_cap = zero_sbuf, co_wire = [],
   co_sched = [Interrupted, Sent 10, Sent 20]\<rparr>"

theorem sse_event_framed_witness:
  "\<exists>out' json. sse_event (\<lambda>_. True) demo_out ''delta'' (Some [LF]) = Some out' \<and>
     co_wire out' = ''data: '' @ json @ [LF, LF] \<and> LF \<notin> set json"
proof -
  have "case sse_event (\<lambda>_. True) demo_out ''delta'' (Some [LF]) of None \<Rightarrow> False | Some o' \<Rightarrow> co_ok o'"
    by code_simp
  then obtain o' where o': "sse_event (\<lambda>_. True) demo_out ''delta'' (Some [LF]) = Some o'" "co_ok o'"
    by (auto split: option.splits)
  have "list_all isalpha ''delta''" "NUL \<notin> set [LF]" by code_simp+
  from sse_event_framed [OF this o'] o'(1) show ?thesis by auto
qed

end
