(* ===== verification/Auth_Basic.thy ===== *)
theory Auth_Basic
  imports Util
begin

unbundle bit_operations_syntax

text \<open>
  \<open>src/src/security/auth.c\<close>, first half: base64, the htpasswd table with its reload on change, the
  Basic Auth gate, the logout record and the exempt paths.  \<open>crypt\<close> (libc) and the bundled bcrypt
  verifier are the arguments \<open>crypt\<close> and \<open>bcrypt\<close>; the clock is \<open>now\<close>.  The htpasswd file is what
  \<open>stat\<close> and \<open>fopen\<close> see: \<open>None\<close> when \<open>stat\<close> fails, else its modification time and, if it can be
  opened, its content.
\<close>

section \<open>Base64\<close>

definition b64_alpha :: string where
  "b64_alpha = ''ABCDEFGHIJKLMNOPQRSTUVWXYZabcdefghijklmnopqrstuvwxyz0123456789+/''"

text \<open>The table \<open>T\<close>: the position in the alphabet, \<open>None\<close> for the sentinel -1.\<close>

definition b64_val :: "char \<Rightarrow> nat option" where
  "b64_val c =
     (let n = code c
      in if 65 \<le> n \<and> n \<le> 90 then Some (n - 65)
         else if 97 \<le> n \<and> n \<le> 122 then Some (n - 71)
         else if 48 \<le> n \<and> n \<le> 57 then Some (n + 4)
         else if n = 43 then Some 62
         else if n = 47 then Some 63
         else None)"

text \<open>\<open>acc\<close> is an \<open>unsigned\<close>: the shift drops its top bits.\<close>

fun b64_loop :: "string \<Rightarrow> nat \<Rightarrow> nat \<Rightarrow> nat \<Rightarrow> string \<Rightarrow> string" where
  "b64_loop [] out_size acc bits out = out"
| "b64_loop (c # s) out_size acc bits out =
     (if c = CHR ''='' \<or> \<not> length out + 1 < out_size then out
      else case b64_val c of
             None \<Rightarrow> out
           | Some v \<Rightarrow>
               let acc' = (acc * 64 + v) mod 2 ^ 32; bits' = bits + 6
               in if bits' \<ge> 8
                  then b64_loop s out_size acc' (bits' - 8) (out @ [char_of (acc' div 2 ^ (bits' - 8) mod 256)])
                  else b64_loop s out_size acc' bits' out)"

definition b64_decode :: "string \<Rightarrow> nat \<Rightarrow> string" where
  "b64_decode s out_size = b64_loop s out_size 0 0 []"

section \<open>Secrets\<close>

text \<open>
  \<open>ct_eq\<close>: the lengths' exclusive or, cut to 32 bits, or-ed with the exclusive or of every pair of
  bytes of the common prefix; 0 is equality.
\<close>

definition ct_eq :: "string \<Rightarrow> string \<Rightarrow> bool" where
  "ct_eq a b \<longleftrightarrow>
     foldl (or) ((word_of_nat (length a) XOR word_of_nat (length b)) :: 32 word)
       (map2 (\<lambda>x y. word_of_nat (code x) XOR word_of_nat (code y)) a b) = 0"

definition is_strong_hash :: "string \<Rightarrow> bool" where
  "is_strong_hash s \<longleftrightarrow>
     starts_with ''$5$'' s \<or> starts_with ''$6$'' s \<or>
     starts_with ''$2a$'' s \<or> starts_with ''$2b$'' s \<or> starts_with ''$2y$'' s"

definition crypt_char :: "char \<Rightarrow> bool" where
  "crypt_char c \<longleftrightarrow> code c = 46 \<or> code c = 47 \<or> isalnum c"

definition bcrypt_is_hash :: "string \<Rightarrow> bool" where
  "bcrypt_is_hash s \<longleftrightarrow>
     take 2 s = ''$2'' \<and>
     (case drop 2 s of
        v # d # _ \<Rightarrow> (v = CHR ''a'' \<or> v = CHR ''b'' \<or> v = CHR ''x'' \<or> v = CHR ''y'') \<and> d = CHR ''$''
      | _ \<Rightarrow> False)"

definition secret_matches ::
  "(string \<Rightarrow> string \<Rightarrow> string option) \<Rightarrow> (string \<Rightarrow> string \<Rightarrow> bool) \<Rightarrow> string \<Rightarrow> string \<Rightarrow> bool" where
  "secret_matches crypt bcrypt supplied stored =
     (let stored_is_hash =
            (stored \<noteq> [] \<and> hd stored = CHR ''$'') \<or> (length stored = 13 \<and> list_all crypt_char stored)
      in if \<not> stored_is_hash then ct_eq supplied stored
         else if bcrypt_is_hash stored then bcrypt supplied stored
         else case crypt supplied stored of None \<Rightarrow> False | Some got \<Rightarrow> ct_eq got stored)"

section \<open>The htpasswd table\<close>

definition HTPASSWD_MAX_ENTRIES :: nat where "HTPASSWD_MAX_ENTRIES = 64"

record htpasswd_entry =
  hp_user :: string
  hp_secret :: string
  hp_roles :: string

text \<open>\<open>fgets(line, size, f)\<close>: up to \<open>size - 1\<close> bytes, through the next line feed; and the rest.\<close>

definition fgets :: "nat \<Rightarrow> string \<Rightarrow> string \<times> string" where
  "fgets sz s =
     (let n = min (sz - 1) (length (takeWhile (\<lambda>c. c \<noteq> LF) s) + 1) in (take n s, drop n s))"

function fgets_lines :: "nat \<Rightarrow> string \<Rightarrow> string list" where
  "fgets_lines sz s = (if s = [] \<or> sz < 2 then [] else fst (fgets sz s) # fgets_lines sz (snd (fgets sz s)))"
  by pat_completeness auto
termination
  by (relation "measure (\<lambda>(sz, s). length s)") (auto simp: fgets_def Let_def)

declare fgets_lines.simps [simp del]

definition htpasswd_line :: "bool \<Rightarrow> htpasswd_entry list \<Rightarrow> string \<Rightarrow> htpasswd_entry list" where
  "htpasswd_line weak_allowed tbl buf =
     (let line = takeWhile (\<lambda>c. c \<noteq> CR \<and> c \<noteq> LF) (cstr buf)
      in if line = [] \<or> hd line = CHR ''#'' then tbl
         else case strchr line (CHR '':'') of
                None \<Rightarrow> tbl
              | Some colon \<Rightarrow>
                  let user = takeWhile (\<lambda>c. c \<noteq> CHR '':'') line
                  in if user = [] \<or> length user \<ge> 64 \<or> length tbl \<ge> HTPASSWD_MAX_ENTRIES then tbl
                     else let rest = tl colon;
                              secret = takeWhile (\<lambda>c. c \<noteq> CHR '':'') rest;
                              roles = (case strchr rest (CHR '':'') of None \<Rightarrow> [] | Some r2 \<Rightarrow> tl r2)
                          in if length secret \<ge> 256 \<or> length roles \<ge> 128 then tbl
                             else if \<not> is_strong_hash secret \<and> \<not> weak_allowed then tbl
                             else tbl @ [\<lparr>hp_user = user, hp_secret = secret, hp_roles = roles\<rparr>])"

type_synonym htpasswd_file = "((int \<times> int) \<times> string option) option"

record auth_state =
  au_table :: "htpasswd_entry list"
  au_mtime :: "int \<times> int"
  au_realm_n :: "string option"

text \<open>\<open>load_htpasswd\<close>: the return value and the table with its recorded modification time.\<close>

definition load_htpasswd :: "bool \<Rightarrow> htpasswd_file \<Rightarrow> auth_state \<Rightarrow> int \<times> auth_state" where
  "load_htpasswd weak_allowed file st =
     (case file of
        None \<Rightarrow> (- 1, st)
      | Some (mtime, None) \<Rightarrow> (- 1, st)
      | Some (mtime, Some content) \<Rightarrow>
          let tbl = foldl (htpasswd_line weak_allowed) [] (fgets_lines 512 content)
          in if tbl = [] then (- 1, st\<lparr>au_table := []\<rparr>)
             else (0, st\<lparr>au_table := tbl, au_mtime := mtime\<rparr>))"

definition htpasswd_reload_if_changed :: "bool \<Rightarrow> htpasswd_file \<Rightarrow> auth_state \<Rightarrow> auth_state" where
  "htpasswd_reload_if_changed weak_allowed file st =
     (case file of
        None \<Rightarrow> st
      | Some (mtime, _) \<Rightarrow>
          if mtime \<noteq> au_mtime st then snd (load_htpasswd weak_allowed file st) else st)"

definition htpasswd_find :: "htpasswd_entry list \<Rightarrow> string \<Rightarrow> htpasswd_entry option" where
  "htpasswd_find tbl user = find (\<lambda>e. hp_user e = user) tbl"

definition htpasswd_has_user :: "htpasswd_entry list \<Rightarrow> string \<Rightarrow> bool" where
  "htpasswd_has_user tbl user \<longleftrightarrow> list_ex (\<lambda>e. user = hp_user e) tbl"

section \<open>Logout record and realm counter\<close>

text \<open>
  The file named by AUTH_REALM_FILE: \<open>au_realm_n\<close> is its content, \<open>None\<close> when it does not exist.
  \<open>cfg\<close> says whether the variable is set, \<open>wr\<close> whether the file can be opened for writing.
\<close>

definition scan_d :: "string \<Rightarrow> int" where
  "scan_d s = wrap32 (fst (strtol10 s))"

definition realm_file_read :: "string option \<Rightarrow> int \<times> int" where
  "realm_file_read file = (case file of None \<Rightarrow> (- 1, 0) | Some s \<Rightarrow> (0, scan_d s))"

definition auth_realm_current :: "bool \<Rightarrow> string \<Rightarrow> auth_state \<Rightarrow> string" where
  "auth_realm_current cfg realm st =
     (case realm_file_read (au_realm_n st) of
        (r, n) \<Rightarrow>
          if \<not> cfg \<or> r \<noteq> 0 \<or> n \<le> 0 then realm
          else take 127 (realm @ ''#'' @ int_dec n))"

definition auth_logout_realm_bump ::
  "bool \<Rightarrow> bool \<Rightarrow> int \<Rightarrow> auth_state \<Rightarrow> string option \<Rightarrow> int \<times> auth_state" where
  "auth_logout_realm_bump cfg wr now st user =
     (if \<not> cfg then (- 1, st)
      else let n = (case realm_file_read (au_realm_n st) of (r, n) \<Rightarrow> if r = 0 then wrap32 (n + 1) else 1)
           in if \<not> wr then (- 1, st)
              else (n, st\<lparr>au_realm_n := Some (int_dec n @ [LF] @
                       (case user of
                          None \<Rightarrow> []
                        | Some u \<Rightarrow> if u = [] then [] else u @ ''|'' @ int_dec now @ [LF]))\<rparr>))"

text \<open>\<open>sscanf(line2, "%63[^|]|%ld", lu, &ts) == 2\<close>.\<close>

definition scan_logout_record :: "string \<Rightarrow> (string \<times> int) option" where
  "scan_logout_record line2 =
     (let lu = take 63 (takeWhile (\<lambda>c. c \<noteq> CHR ''|'') line2); r = drop (length lu) line2
      in if lu = [] \<or> r = [] \<or> hd r \<noteq> CHR ''|'' then None
         else case strtol10 (tl r) of
                (ts, e) \<Rightarrow> if e = tl r then None else Some (lu, ts))"

definition auth_logout_consume ::
  "bool \<Rightarrow> bool \<Rightarrow> int \<Rightarrow> auth_state \<Rightarrow> string \<Rightarrow> bool \<times> auth_state" where
  "auth_logout_consume cfg wr now st user =
     (if \<not> cfg \<or> user = [] then (False, st)
      else case au_realm_n st of
             None \<Rightarrow> (False, st)
           | Some content \<Rightarrow>
               (case fgets 32 content of
                  (line1, r) \<Rightarrow>
                    let line2 = fst (fgets 160 r)
                    in if line2 = [] then (False, st)
                       else case scan_logout_record line2 of
                              None \<Rightarrow> (False, st)
                            | Some (lu, ts) \<Rightarrow>
                                if lu \<noteq> user then (False, st)
                                else (now - ts < 30,
                                      if wr then st\<lparr>au_realm_n := Some (int_dec (scan_d line1) @ [LF])\<rparr> else st)))"

section \<open>The gate\<close>

record auth_env =
  ae_auth_file :: string
  ae_weak :: bool
  ae_file :: htpasswd_file
  ae_realm_cfg :: bool
  ae_realm_wr :: bool
  ae_crypt :: "string \<Rightarrow> string \<Rightarrow> string option"
  ae_bcrypt :: "string \<Rightarrow> string \<Rightarrow> bool"

text \<open>The credentials of a header: the decoded text split at its first colon.\<close>

definition basic_credentials :: "string \<Rightarrow> (string \<times> string) option" where
  "basic_credentials hdr =
     (if \<not> ci_prefix ''Basic '' hdr then None
      else let creds = cstr (b64_decode (drop 6 hdr) (256 + 128 + 2))
           in case strchr creds (CHR '':'') of
                None \<Rightarrow> None
              | Some colon \<Rightarrow> Some (takeWhile (\<lambda>c. c \<noteq> CHR '':'') creds, tl colon))"

definition table_accepts :: "auth_env \<Rightarrow> htpasswd_entry list \<Rightarrow> string \<Rightarrow> string \<Rightarrow> bool" where
  "table_accepts env tbl user pass =
     (case htpasswd_find tbl user of
        None \<Rightarrow> False
      | Some e \<Rightarrow> secret_matches (ae_crypt env) (ae_bcrypt env) pass (hp_secret e))"

definition check_basic_auth :: "auth_env \<Rightarrow> int \<Rightarrow> auth_state \<Rightarrow> string option \<Rightarrow> bool \<times> auth_state" where
  "check_basic_auth env now st hdr =
     (if ae_auth_file env = [] then (True, st)
      else let st1 = htpasswd_reload_if_changed (ae_weak env) (ae_file env) st
           in case hdr of
                None \<Rightarrow> (False, st1)
              | Some h \<Rightarrow>
                  (case basic_credentials h of
                     None \<Rightarrow> (False, st1)
                   | Some (user, pass) \<Rightarrow>
                       (case auth_logout_consume (ae_realm_cfg env) (ae_realm_wr env) now st1 user of
                          (refused, st2) \<Rightarrow>
                            if refused then (False, st2)
                            else (table_accepts env (au_table st2) user pass, st2))))"

definition auth_check_credentials ::
  "auth_env \<Rightarrow> auth_state \<Rightarrow> string option \<Rightarrow> string option \<Rightarrow> bool \<times> auth_state" where
  "auth_check_credentials env st user pass =
     (if ae_auth_file env = [] then (True, st)
      else case (user, pass) of
             (Some u, Some p) \<Rightarrow>
               if u = [] \<or> p = [] then (False, st)
               else let st1 = htpasswd_reload_if_changed (ae_weak env) (ae_file env) st
                    in (table_accepts env (au_table st1) u p, st1)
           | _ \<Rightarrow> (False, st))"

definition auth_user_roles :: "auth_env \<Rightarrow> auth_state \<Rightarrow> string \<Rightarrow> nat \<Rightarrow> string option \<times> auth_state" where
  "auth_user_roles env st user out_size =
     (if out_size = 0 then (None, st)
      else let st1 = htpasswd_reload_if_changed (ae_weak env) (ae_file env) st
           in (map_option (\<lambda>e. take (out_size - 1) (hp_roles e)) (htpasswd_find (au_table st1) user), st1))"

section \<open>Exempt paths\<close>

definition path_part :: "string \<Rightarrow> string" where
  "path_part path = takeWhile (\<lambda>c. c \<noteq> CHR ''?'') path"

definition is_logout_path :: "string \<Rightarrow> bool" where
  "is_logout_path path \<longleftrightarrow> length (path_part path) = 7 \<and> take 7 path = ''/logout''"

text \<open>
  One entry of AUTH_PUBLIC_PATHS.  The character after the entry's length is the NUL when the path
  ends there; the guard \<open>plen >= len\<close> keeps the read inside the path.
\<close>

definition public_entry :: "string \<Rightarrow> string \<Rightarrow> bool" where
  "public_entry entry path \<longleftrightarrow>
     entry \<noteq> [] \<and> length entry \<le> length (path_part path) \<and> take (length entry) path = entry \<and>
     (length entry \<ge> MAX_PATH_SIZE \<or>
      (case drop (length entry) path of [] \<Rightarrow> True | c # _ \<Rightarrow> c = CHR ''/'' \<or> c = CHR ''?''))"

definition is_public_path :: "string \<Rightarrow> string option \<Rightarrow> bool" where
  "is_public_path public_paths path =
     (case path of
        None \<Rightarrow> False
      | Some p \<Rightarrow> list_ex (\<lambda>e. public_entry e p) (split_on (CHR '';'') (take (MAX_PATH_SIZE * 2 - 1) public_paths)))"

section \<open>Base64 decoding inverts encoding\<close>

text \<open>The encoder of RFC 4648, as clients apply it.\<close>

fun b64_encode :: "string \<Rightarrow> string" where
  "b64_encode [] = []"
| "b64_encode [a] = [b64_alpha ! (code a div 4), b64_alpha ! (code a mod 4 * 16), CHR ''='', CHR ''='']"
| "b64_encode [a, b] =
     [b64_alpha ! (code a div 4), b64_alpha ! (code a mod 4 * 16 + code b div 16),
      b64_alpha ! (code b mod 16 * 4), CHR ''='']"
| "b64_encode (a # b # c # s) =
     b64_alpha ! (code a div 4) # b64_alpha ! (code a mod 4 * 16 + code b div 16) #
     b64_alpha ! (code b mod 16 * 4 + code c div 64) # b64_alpha ! (code c mod 64) # b64_encode s"

lemma b64_alpha_val: "v < 64 \<Longrightarrow> b64_val (b64_alpha ! v) = Some v \<and> b64_alpha ! v \<noteq> CHR ''=''"
proof -
  assume v: "v < 64"
  have len: "length b64_alpha = 64" by (simp add: b64_alpha_def)
  have m: "map b64_val b64_alpha = map Some [0..<64]" by code_simp
  have "map b64_val b64_alpha ! v = map Some [0..<64] ! v" unfolding m ..
  moreover have "CHR ''='' \<notin> set b64_alpha" by code_simp
  then have "b64_alpha ! v \<noteq> CHR ''=''" using v len nth_mem [of v b64_alpha] by metis
  ultimately show ?thesis using v len by simp
qed

lemma b64_step:
  assumes "v < 64" and "length out + 1 < n" and "Y = X * 64 + v"
  shows "b64_loop (b64_alpha ! v # s) n (X mod 2 ^ 32) 0 out = b64_loop s n (Y mod 2 ^ 32) 6 out"
    and "2 \<le> bits \<Longrightarrow> Y mod 2 ^ 32 div 2 ^ (bits - 2) mod 256 = code c \<Longrightarrow>
      b64_loop (b64_alpha ! v # s) n (X mod 2 ^ 32) bits out = b64_loop s n (Y mod 2 ^ 32) (bits - 2) (out @ [c])"
proof -
  have Y: "(X mod 2 ^ 32 * 64 + v) mod 2 ^ 32 = Y mod 2 ^ 32"
    unfolding assms(3) by (metis mod_add_left_eq mod_mult_left_eq)
  show "b64_loop (b64_alpha ! v # s) n (X mod 2 ^ 32) 0 out = b64_loop s n (Y mod 2 ^ 32) 6 out"
    unfolding b64_loop.simps Let_def using b64_alpha_val [OF assms(1)] assms(2) by (simp add: Y [simplified])
  assume bits: "2 \<le> bits" and c: "Y mod 2 ^ 32 div 2 ^ (bits - 2) mod 256 = code c"
  have b: "8 \<le> bits + 6" "bits + 6 - 8 = bits - 2" using bits by simp_all
  have g: "\<not> (b64_alpha ! v = CHR ''='' \<or> \<not> length out + 1 < n)" using b64_alpha_val [OF assms(1)] assms(2) by simp
  show "b64_loop (b64_alpha ! v # s) n (X mod 2 ^ 32) bits out = b64_loop s n (Y mod 2 ^ 32) (bits - 2) (out @ [c])"
    unfolding b64_loop.simps Let_def b64_alpha_val [OF assms(1), THEN conjunct1] option.case Y b(2) c
    using b(1) g by simp
qed

lemma b64_cut: "(k * (256 * m) :: nat) = 2 ^ 32 \<Longrightarrow> Y mod 2 ^ 32 div k mod 256 = Y div k mod 256"
proof -
  assume k: "k * (256 * m) = 2 ^ 32"
  then have "k \<noteq> 0" by (cases k) auto
  then have "Y mod (k * (256 * m)) div k = Y div k mod (256 * m)"
    by (simp add: mod_mult2_eq)
  then show ?thesis unfolding k by (simp add: mod_mod_cancel)
qed

lemma b64_byte1:
  assumes "a < 256" "r < (16::nat)"
  shows "((X * 256 + a) * 16 + r) mod 2 ^ 32 div 2 ^ 4 mod 256 = a"
    and "(X * 64 + a div 4) * 64 + (a mod 4 * 16 + r) = (X * 256 + a) * 16 + r"
proof -
  show e: "(X * 64 + a div 4) * 64 + (a mod 4 * 16 + r) = (X * 256 + a) * 16 + r"
    by presburger
  have "((X * 256 + a) * 16 + r) div 16 = X * 256 + a" using assms(2) by simp
  then show "((X * 256 + a) * 16 + r) mod 2 ^ 32 div 2 ^ 4 mod 256 = a"
    using b64_cut [of 16 1048576] assms(1) by simp
qed

lemma b64_byte2:
  assumes "b < 256" "r < (4::nat)"
  shows "((X * 256 + b) * 4 + r) mod 2 ^ 32 div 2 ^ 2 mod 256 = b"
    and "(X * 16 + b div 16) * 64 + (b mod 16 * 4 + r) = (X * 256 + b) * 4 + r"
proof -
  show e: "(X * 16 + b div 16) * 64 + (b mod 16 * 4 + r) = (X * 256 + b) * 4 + r"
    by presburger
  have "((X * 256 + b) * 4 + r) div 4 = X * 256 + b" using assms(2) by simp
  then show "((X * 256 + b) * 4 + r) mod 2 ^ 32 div 2 ^ 2 mod 256 = b"
    using b64_cut [of 4 4194304] assms(1) by simp
qed

lemma b64_byte3:
  assumes "c < (256::nat)"
  shows "(X * 256 + c) mod 2 ^ 32 div 2 ^ 0 mod 256 = c"
    and "(X * 4 + c div 64) * 64 + c mod 64 = X * 256 + c"
proof -
  show e: "(X * 4 + c div 64) * 64 + c mod 64 = X * 256 + c"
    using div_mult_mod_eq [of c 64] by (simp add: algebra_simps)
  show "(X * 256 + c) mod 2 ^ 32 div 2 ^ 0 mod 256 = c"
    using b64_cut [of 1 16777216] assms by simp
qed

lemma b64_ranges:
  "code a div 4 < 64" "code a mod 4 * 16 + code b div 16 < 64" "code b mod 16 * 4 + code c div 64 < 64"
  "code c mod 64 < 64" "code a mod 4 * 16 < 64" "code b mod 16 * 4 < 64" "code b div 16 < 16" "code c div 64 < 4"
proof -
  have "code a < 256" "code b < 256" "code c < 256" by simp_all
  then show "code a div 4 < 64" "code a mod 4 * 16 + code b div 16 < 64" "code b mod 16 * 4 + code c div 64 < 64"
    "code c mod 64 < 64" "code a mod 4 * 16 < 64" "code b mod 16 * 4 < 64" "code b div 16 < 16" "code c div 64 < 4"
    using mod_less_divisor [of 4 "code a"] mod_less_divisor [of 16 "code b"] by linarith+
qed

text \<open>The three phases of a group, from the one with no bits pending.\<close>

lemma b64_phase1:
  assumes "length out + 1 < n" and "r < 16"
  shows "b64_loop (b64_alpha ! (code a div 4) # b64_alpha ! (code a mod 4 * 16 + r) # s) n (X mod 2 ^ 32) 0 out =
    b64_loop s n (((X * 256 + code a) * 16 + r) mod 2 ^ 32) 4 (out @ [a])"
proof -
  have r: "code a mod 4 * 16 + r < 64" using assms(2) mod_less_divisor [of 4 "code a"] by linarith
  note b = b64_byte1 [of "code a" r X, OF code_less assms(2)]
  have "b64_loop (b64_alpha ! (code a mod 4 * 16 + r) # s) n ((X * 64 + code a div 4) mod 2 ^ 32) 6 out =
      b64_loop s n (((X * 256 + code a) * 16 + r) mod 2 ^ 32) (6 - 2) (out @ [a])"
    by (rule b64_step(2) [OF r assms(1) b(2) [symmetric]]) (use b(1) in simp_all)
  then show ?thesis using b64_step(1) [OF b64_ranges(1) assms(1) refl] by simp
qed

lemma b64_phase2:
  assumes "length out + 1 < n" and "r < 4"
  shows "b64_loop (b64_alpha ! (code b mod 16 * 4 + r) # s) n ((X * 16 + code b div 16) mod 2 ^ 32) 4 out =
    b64_loop s n (((X * 256 + code b) * 4 + r) mod 2 ^ 32) 2 (out @ [b])"
proof -
  have r: "code b mod 16 * 4 + r < 64" using assms(2) mod_less_divisor [of 16 "code b"] by linarith
  note b = b64_byte2 [of "code b" r X, OF code_less assms(2)]
  have "b64_loop (b64_alpha ! (code b mod 16 * 4 + r) # s) n ((X * 16 + code b div 16) mod 2 ^ 32) 4 out =
      b64_loop s n (((X * 256 + code b) * 4 + r) mod 2 ^ 32) (4 - 2) (out @ [b])"
    by (rule b64_step(2) [OF r assms(1) b(2) [symmetric]]) (use b(1) in simp_all)
  then show ?thesis by simp
qed

lemma b64_phase3:
  assumes "length out + 1 < n"
  shows "b64_loop (b64_alpha ! (code c mod 64) # s) n ((X * 4 + code c div 64) mod 2 ^ 32) 2 out =
    b64_loop s n ((X * 256 + code c) mod 2 ^ 32) 0 (out @ [c])"
proof -
  note b = b64_byte3 [of "code c" X, OF code_less]
  have "b64_loop (b64_alpha ! (code c mod 64) # s) n ((X * 4 + code c div 64) mod 2 ^ 32) 2 out =
      b64_loop s n ((X * 256 + code c) mod 2 ^ 32) (2 - 2) (out @ [c])"
    by (rule b64_step(2) [OF b64_ranges(4) assms b(2) [symmetric]]) (use b(1) in simp_all)
  then show ?thesis by simp
qed

lemma b64_loop_encode:
  "length out + length s < n \<Longrightarrow> b64_loop (b64_encode s) n (X mod 2 ^ 32) 0 out = out @ s"
proof (induction s arbitrary: X out rule: b64_encode.induct)
  case (2 a)
  then have "b64_loop (b64_encode [a]) n (X mod 2 ^ 32) 0 out =
      b64_loop [CHR ''='', CHR ''=''] n ((X * 256 + code a) * 16 mod 2 ^ 32) 4 (out @ [a])"
    using b64_phase1 [of out n 0 a _ X] by (simp del: b64_loop.simps)
  then show ?case by simp
next
  case (3 a b)
  then have "b64_loop (b64_encode [a, b]) n (X mod 2 ^ 32) 0 out =
      b64_loop [CHR ''=''] n (((X * 256 + code a) * 256 + code b) * 4 mod 2 ^ 32) 2 (out @ [a, b])"
    unfolding b64_encode.simps
    using b64_phase1 [of out n "code b div 16" a _ X, OF _ b64_ranges(7)]
      b64_phase2 [of "out @ [a]" n 0 b "[CHR ''='']" "X * 256 + code a"] by (simp del: b64_loop.simps)
  then show ?case by simp
next
  case (4 a b c s)
  then have "b64_loop (b64_encode (a # b # c # s)) n (X mod 2 ^ 32) 0 out =
      b64_loop (b64_encode s) n ((((X * 256 + code a) * 256 + code b) * 256 + code c) mod 2 ^ 32) 0 (out @ [a, b, c])"
    unfolding b64_encode.simps
    using b64_phase1 [of out n "code b div 16" a _ X, OF _ b64_ranges(7)]
      b64_phase2 [of "out @ [a]" n "code c div 64" b _ "X * 256 + code a", OF _ b64_ranges(8)]
      b64_phase3 [of "out @ [a, b]" n c "b64_encode s" "(X * 256 + code a) * 256 + code b"]
    by (simp del: b64_loop.simps)
  then show ?case using 4(1) [of "out @ [a, b, c]"] 4(2) by simp
qed simp

lemma b64_decode_encode: "length s < n \<Longrightarrow> b64_decode (b64_encode s) n = s"
  using b64_loop_encode [of "[]" s n 0] by (simp add: b64_decode_def)

section \<open>Facts about the table\<close>

lemma foldl_or_0: "foldl (or) (x :: 32 word) ys = 0 \<longleftrightarrow> x = 0 \<and> (\<forall>y \<in> set ys. y = 0)"
  by (induction ys arbitrary: x) (auto simp: or_eq_0_iff)

lemma word_of_nat_eq32: "m < 2 ^ 32 \<Longrightarrow> n < 2 ^ 32 \<Longrightarrow> (word_of_nat m = (word_of_nat n :: 32 word)) \<longleftrightarrow> m = n"
  by (auto simp: word_of_nat_eq_iff take_bit_nat_eq_self)

lemma zip_all_eq: "length a = length b \<and> (\<forall>p \<in> set (zip a b). fst p = snd p) \<longleftrightarrow> a = b"
proof (induction a arbitrary: b)
  case (Cons x a)
  then show ?case by (cases b) auto
qed auto

lemma ct_eq_iff:
  assumes "length a < 2 ^ 32" and "length b < 2 ^ 32"
  shows "ct_eq a b \<longleftrightarrow> a = b"
proof -
  have x: "(x XOR y) = 0 \<longleftrightarrow> x = y" for x y :: "32 word"
    by (metis xor.assoc xor_self_eq xor.right_neutral xor.left_neutral)
  have c: "(word_of_nat (code c) = (word_of_nat (code d) :: 32 word)) \<longleftrightarrow> c = d" for c d
    using less_trans [OF code_less [of c], of "2 ^ 32"] less_trans [OF code_less [of d], of "2 ^ 32"]
    by (subst word_of_nat_eq32) simp_all
  have p: "(case p of (x, y) \<Rightarrow> word_of_nat (code x) XOR word_of_nat (code y)) = (0 :: 32 word) \<longleftrightarrow> fst p = snd p" for p
    by (cases p) (simp add: x c)
  have "ct_eq a b \<longleftrightarrow> length a = length b \<and> (\<forall>p \<in> set (zip a b). fst p = snd p)"
    unfolding ct_eq_def foldl_or_0 x word_of_nat_eq32 [OF assms] set_map ball_simps p ..
  also have "\<dots> \<longleftrightarrow> a = b" by (rule zip_all_eq)
  finally show ?thesis .
qed

definition table_ok :: "bool \<Rightarrow> htpasswd_entry list \<Rightarrow> bool" where
  "table_ok weak tbl \<longleftrightarrow>
     length tbl \<le> HTPASSWD_MAX_ENTRIES \<and>
     (\<forall>e \<in> set tbl. fits 64 (hp_user e) \<and> fits 256 (hp_secret e) \<and> fits 128 (hp_roles e) \<and>
        hp_user e \<noteq> [] \<and> (is_strong_hash (hp_secret e) \<or> weak))"

lemma strchr_set: "strchr s c = Some t \<Longrightarrow> set (tl t) \<subseteq> set s"
  using strchr_Some by fastforce

lemma table_ok_if: "table_ok w t \<Longrightarrow> (\<not> P \<Longrightarrow> table_ok w u) \<Longrightarrow> table_ok w (if P then t else u)"
  by simp

lemma table_ok_append:
  "table_ok w t \<Longrightarrow> length t < HTPASSWD_MAX_ENTRIES \<Longrightarrow> fits 64 u \<Longrightarrow> u \<noteq> [] \<Longrightarrow> fits 256 s \<Longrightarrow>
   fits 128 r \<Longrightarrow> is_strong_hash s \<or> w \<Longrightarrow> table_ok w (t @ [\<lparr>hp_user = u, hp_secret = s, hp_roles = r\<rparr>])"
  by (auto simp: table_ok_def)

lemma htpasswd_line_ok: "table_ok weak tbl \<Longrightarrow> table_ok weak (htpasswd_line weak tbl buf)"
proof -
  assume ok: "table_ok weak tbl"
  define line where "line = takeWhile (\<lambda>c. c \<noteq> CR \<and> c \<noteq> LF) (cstr buf)"
  have nul: "NUL \<notin> set line" using cstr_no_NUL [of buf] set_takeWhileD unfolding line_def by metis
  have sub: "NUL \<notin> set s \<Longrightarrow> NUL \<notin> set (takeWhile P s)" for P s by (meson set_takeWhileD)
  show ?thesis
  proof (cases "strchr line (CHR '':'')")
    case None
    then show ?thesis using ok by (simp add: htpasswd_line_def line_def [symmetric] Let_def)
  next
    case (Some colon)
    have c: "NUL \<notin> set (tl colon)" using strchr_set [OF Some] nul by blast
    define roles where "roles = (case strchr (tl colon) (CHR '':'') of None \<Rightarrow> [] | Some r2 \<Rightarrow> tl r2)"
    have r: "NUL \<notin> set roles"
      using strchr_set [of "tl colon" "CHR '':''"] c
      by (cases "strchr (tl colon) (CHR '':'')") (auto simp: roles_def)
    show ?thesis
      unfolding htpasswd_line_def line_def [symmetric] Let_def Some option.case roles_def [symmetric]
      by (intro table_ok_if table_ok_append ok) (use sub [OF nul] sub [OF c] r in \<open>auto simp: fits_def\<close>)
  qed
qed

lemma load_htpasswd_ok:
  assumes "table_ok weak (au_table st)"
  shows "table_ok weak (au_table (snd (load_htpasswd weak file st)))"
proof -
  have "table_ok weak tbl \<Longrightarrow> table_ok weak (foldl (htpasswd_line weak) tbl ls)" for tbl ls
    by (induction ls arbitrary: tbl) (simp_all add: htpasswd_line_ok)
  moreover have "table_ok weak []" by (simp add: table_ok_def)
  ultimately show ?thesis
    using assms by (auto simp: load_htpasswd_def Let_def split: option.split)
qed

lemma reload_ok:
  "table_ok weak (au_table st) \<Longrightarrow> table_ok weak (au_table (htpasswd_reload_if_changed weak file st))"
  by (auto simp: htpasswd_reload_if_changed_def load_htpasswd_ok split: option.split)

lemma logout_consume_table: "au_table (snd (auth_logout_consume cfg wr now st user)) = au_table st"
  by (auto simp: auth_logout_consume_def Let_def split: option.split prod.split)

lemma htpasswd_find_Some: "htpasswd_find tbl u = Some e \<Longrightarrow> e \<in> set tbl \<and> hp_user e = u"
  by (auto simp: htpasswd_find_def find_Some_iff)

lemma secret_matches_strong:
  assumes "secret_matches crypt bcrypt p s" and "is_strong_hash s"
  shows "bcrypt_is_hash s \<and> bcrypt p s \<or> (\<exists>got. crypt p s = Some got \<and> ct_eq got s)"
proof -
  have "s \<noteq> [] \<and> hd s = CHR ''$''" using assms(2) by (cases s) (auto simp: is_strong_hash_def starts_with_def)
  then show ?thesis
    using assms(1) by (auto simp: secret_matches_def Let_def split: if_splits option.splits)
qed

lemma basic_credentials_encode:
  assumes "CHR '':'' \<notin> set user" and "NUL \<notin> set (user @ pass)" and "length (user @ '':'' @ pass) \<le> 385"
  shows "basic_credentials (''Basic '' @ b64_encode (user @ '':'' @ pass)) = Some (user, pass)"
proof -
  let ?c = "user @ CHR '':'' # pass"
  have d: "b64_decode (b64_encode ?c) 386 = ?c" using assms(3) by (intro b64_decode_encode) simp
  have n: "cstr ?c = ?c" using assms(2) by (auto simp: cstr_def takeWhile_eq_all_conv)
  have u: "takeWhile (\<lambda>c. c \<noteq> CHR '':'') ?c = user" "dropWhile (\<lambda>c. c \<noteq> CHR '':'') ?c = CHR '':'' # pass"
    using assms(1) by (subst takeWhile_append2 dropWhile_append2; auto)+
  have "ci_prefix ''Basic '' (''Basic '' @ b64_encode ?c)" by (simp add: ci_prefix_def)
  then show ?thesis
    by (simp add: basic_credentials_def d n u strchr_def)
qed

section \<open>Properties\<close>

text \<open>
  Clients' credentials reach the gate unchanged.  A header \<open>Basic\<close> plus the base64 text of
  \<open>user:password\<close> (no colon in the user, at most 385 bytes in all, no NUL) decodes to exactly that
  user and password.
\<close>

theorem basic_credentials_roundtrip:
  assumes "CHR '':'' \<notin> set user" and "NUL \<notin> set (user @ pass)" and "length (user @ '':'' @ pass) \<le> 385"
  shows "basic_credentials (''Basic '' @ b64_encode (user @ '':'' @ pass)) = Some (user, pass)"
  by (rule basic_credentials_encode [OF assms])

theorem basic_credentials_roundtrip_witness:
  "basic_credentials (''Basic '' @ b64_encode (''al'' @ '':'' @ ''p:w'')) = Some (''al'', ''p:w'')"
  by (rule basic_credentials_roundtrip) simp_all

text \<open>
  (C11) The Basic Auth gate is sound and fails closed.  With an htpasswd file configured and weak
  secrets not allowed, a request passes only with a well-formed header whose user is in the table
  with a strong hash that the bcrypt verifier or \<open>crypt\<close> confirms for the password sent, and the
  table stays well formed whatever the file has become in the meantime.
\<close>

theorem basic_auth_sound:
  assumes "ae_auth_file env \<noteq> []" and "\<not> ae_weak env" and "table_ok False (au_table st)"
    and "check_basic_auth env now st hdr = (ok, st')"
  shows "table_ok False (au_table st') \<and>
    (ok \<longrightarrow> (\<exists>h user pass e. hdr = Some h \<and> basic_credentials h = Some (user, pass) \<and>
       e \<in> set (au_table st') \<and> hp_user e = user \<and> is_strong_hash (hp_secret e) \<and>
       (ae_bcrypt env pass (hp_secret e) \<or>
        (\<exists>got. ae_crypt env pass (hp_secret e) = Some got \<and> ct_eq got (hp_secret e)))))"
proof -
  let ?st1 = "htpasswd_reload_if_changed (ae_weak env) (ae_file env) st"
  have ok1: "table_ok False (au_table ?st1)" using assms(2) reload_ok [OF assms(3)] by simp
  show ?thesis
  proof (cases "\<exists>h user pass. hdr = Some h \<and> basic_credentials h = Some (user, pass)")
    case False
    then have "ok = False" "st' = ?st1"
      using assms(1,4) by (auto simp: check_basic_auth_def Let_def split: option.splits)
    with ok1 show ?thesis by simp
  next
    case True
    then obtain h user pass where h: "hdr = Some h" "basic_credentials h = Some (user, pass)" by blast
    let ?c = "auth_logout_consume (ae_realm_cfg env) (ae_realm_wr env) now ?st1 user"
    have r: "ok = (\<not> fst ?c \<and> table_accepts env (au_table (snd ?c)) user pass)" "st' = snd ?c"
      using assms(1,4) h by (auto simp: check_basic_auth_def Let_def split: prod.splits if_splits)
    have ok': "table_ok False (au_table st')" using ok1 r(2) logout_consume_table by simp
    show ?thesis
    proof (intro conjI impI ok')
      assume ok
      then obtain e where e: "htpasswd_find (au_table st') user = Some e"
        "secret_matches (ae_crypt env) (ae_bcrypt env) pass (hp_secret e)"
        using r by (auto simp: table_accepts_def split: option.splits)
      have "is_strong_hash (hp_secret e)" using ok' htpasswd_find_Some [OF e(1)] by (auto simp: table_ok_def)
      with secret_matches_strong [OF e(2)] htpasswd_find_Some [OF e(1)] h
      show "\<exists>h user pass e. hdr = Some h \<and> basic_credentials h = Some (user, pass) \<and>
         e \<in> set (au_table st') \<and> hp_user e = user \<and> is_strong_hash (hp_secret e) \<and>
         (ae_bcrypt env pass (hp_secret e) \<or>
          (\<exists>got. ae_crypt env pass (hp_secret e) = Some got \<and> ct_eq got (hp_secret e)))" by blast
    qed
  qed
qed

definition demo_secret :: string where
  "demo_secret = ''$2b$x''"

definition demo_env :: auth_env where
  "demo_env = \<lparr>ae_auth_file = ''f'', ae_weak = False, ae_file = Some ((1, 0), Some (''al:$2b$x'' @ [LF] @ ''bob:plain'')),
     ae_realm_cfg = True, ae_realm_wr = True, ae_crypt = (\<lambda>_ _. None), ae_bcrypt = (\<lambda>p s. p = ''pw'')\<rparr>"

definition demo_auth :: auth_state where
  "demo_auth = \<lparr>au_table = [], au_mtime = (0, 0), au_realm_n = None\<rparr>"

lemma demo_reload:
  "htpasswd_reload_if_changed (ae_weak demo_env) (ae_file demo_env) demo_auth =
   demo_auth\<lparr>au_table := [\<lparr>hp_user = ''al'', hp_secret = demo_secret, hp_roles = []\<rparr>], au_mtime := (1, 0)\<rparr>"
  by code_simp

lemma demo_header: "basic_credentials (''Basic '' @ b64_encode (''al'' @ '':'' @ ''pw'')) = Some (''al'', ''pw'')"
  by (rule basic_credentials_encode) simp_all

theorem basic_auth_sound_witness:
  "\<exists>st'. check_basic_auth demo_env 0 demo_auth (Some (''Basic '' @ b64_encode (''al'' @ '':'' @ ''pw''))) = (True, st') \<and>
     table_ok False (au_table st') \<and> (\<exists>e \<in> set (au_table st'). hp_user e = ''al'' \<and> is_strong_hash (hp_secret e))"
proof -
  let ?h = "''Basic '' @ b64_encode (''al'' @ '':'' @ ''pw'')"
  let ?st1 = "htpasswd_reload_if_changed (ae_weak demo_env) (ae_file demo_env) demo_auth"
  have "auth_logout_consume (ae_realm_cfg demo_env) (ae_realm_wr demo_env) 0 ?st1 ''al'' = (False, ?st1)"
    "table_accepts demo_env (au_table ?st1) ''al'' ''pw''" unfolding demo_reload by code_simp+
  moreover have "ae_auth_file demo_env \<noteq> []" "\<not> ae_weak demo_env" "table_ok False (au_table demo_auth)"
    by (simp_all add: demo_env_def demo_auth_def table_ok_def)
  ultimately have c: "check_basic_auth demo_env 0 demo_auth (Some ?h) = (True, ?st1)"
    unfolding check_basic_auth_def Let_def demo_header option.case prod.case by simp
  show ?thesis
    using basic_auth_sound [OF _ _ _ c] c demo_header \<open>ae_auth_file demo_env \<noteq> []\<close> \<open>\<not> ae_weak demo_env\<close>
      \<open>table_ok False (au_table demo_auth)\<close> by fastforce
qed

lemma fgets_line:
  assumes "length l + 1 < sz" and "LF \<notin> set l"
  shows "fgets sz (l @ LF # r) = (l @ [LF], r)"
proof -
  have "takeWhile (\<lambda>c. c \<noteq> LF) (l @ LF # r) = l"
    using assms(2) by (subst takeWhile_append2) auto
  then have "min (sz - 1) (length (takeWhile (\<lambda>c. c \<noteq> LF) (l @ LF # r)) + 1) = length (l @ [LF])"
    using assms(1) by simp
  then show ?thesis unfolding fgets_def Let_def by (metis append.assoc append_Cons append_Nil append_eq_conv_conj)
qed

lemma int_dec_line:
  assumes "- (2 ^ 31) \<le> n" and "n < 2 ^ 31"
  shows "length (int_dec n) + 1 < 32 \<and> LF \<notin> set (int_dec n)"
proof -
  have "nat \<bar>n\<bar> < 10 ^ Suc 9" using assms by auto
  from length_nat_dec [OF this] have "length (nat_dec (nat \<bar>n\<bar>)) \<le> 10" by simp
  moreover have "LF \<notin> set (nat_dec m)" for m using nat_dec_chars [of LF m] by (auto simp: isdigit_def)
  ultimately show ?thesis by (auto simp: int_dec_def split: if_splits)
qed

lemma scan_logout_line:
  assumes "user \<noteq> []" and "length user < 64" and "CHR ''|'' \<notin> set user" and "0 \<le> t" and "t \<le> LONG_MAX"
  shows "scan_logout_record (user @ CHR ''|'' # int_dec t @ [LF]) = Some (user, t)"
proof -
  have "takeWhile (\<lambda>c. c \<noteq> CHR ''|'') (user @ CHR ''|'' # int_dec t @ [LF]) = user"
    using assms(3) by (subst takeWhile_append2) auto
  moreover have "strtol10 (int_dec t @ [LF]) = (t, [LF])"
    using strtol10_nat_dec [of "[LF]" "nat t"] assms(4,5) by (simp add: int_dec_def isdigit_def)
  moreover have "int_dec t @ [LF] \<noteq> [LF]" using nat_dec_value [of "nat t"] assms(4) by (simp add: int_dec_def)
  ultimately show ?thesis using assms(1,2) by (simp add: scan_logout_record_def Let_def)
qed

lemma logout_record_line:
  assumes "length user < 64" and "LF \<notin> set user" and "0 \<le> t" and "t \<le> LONG_MAX"
  shows "fgets 160 (user @ CHR ''|'' # int_dec t @ [LF]) = (user @ CHR ''|'' # int_dec t @ [LF], [])"
proof -
  have "nat t < 10 ^ Suc 18" using assms(3,4) by (simp add: LONG_MAX_def nat_less_iff)
  from length_nat_dec [OF this] have "length (int_dec t) \<le> 19" using assms(3) by (simp add: int_dec_def)
  moreover have "LF \<notin> set (int_dec t)"
    using nat_dec_chars [of LF] assms(3) by (auto simp: int_dec_def isdigit_def)
  ultimately show ?thesis
    using fgets_line [of "user @ CHR ''|'' # int_dec t" 160 "[]"] assms(1,2) by simp
qed

lemma logout_consume_fresh:
  assumes "user \<noteq> []" and "length user < 64" and "CHR ''|'' \<notin> set user" and "LF \<notin> set user"
    and "0 \<le> t" and "t \<le> LONG_MAX" and "- (2 ^ 31) \<le> n" and "n < 2 ^ 31" and "now - t < 30"
    and "au_realm_n st = Some (int_dec n @ [LF] @ user @ ''|'' @ int_dec t @ [LF])"
  shows "\<exists>m. - (2 ^ 31) \<le> m \<and> m < 2 ^ 31 \<and>
    auth_logout_consume True True now st user = (True, st\<lparr>au_realm_n := Some (int_dec m @ [LF])\<rparr>)"
proof -
  have "fgets 32 (int_dec n @ [LF] @ user @ ''|'' @ int_dec t @ [LF]) =
      (int_dec n @ [LF], user @ CHR ''|'' # int_dec t @ [LF])"
    using fgets_line [of "int_dec n" 32] int_dec_line [OF assms(7,8)] by simp
  then show ?thesis
    using assms(1,9,10) logout_record_line [OF assms(2,4,5,6)] scan_logout_line [OF assms(1-3,5,6)]
    by (intro exI [of _ "scan_d (int_dec n @ [LF])"])
      (simp add: auth_logout_consume_def Let_def scan_d_def wrap32_range [simplified])
qed

lemma logout_consume_none:
  assumes "- (2 ^ 31) \<le> m" and "m < 2 ^ 31" and "au_realm_n st = Some (int_dec m @ [LF])"
  shows "auth_logout_consume True True now st user = (False, st)"
  using assms fgets_line [of "int_dec m" 32 "[]"] int_dec_line [OF assms(1,2)]
  by (simp add: auth_logout_consume_def Let_def fgets_def [of 160])

lemma reload_realm: "au_realm_n (htpasswd_reload_if_changed w f st) = au_realm_n st"
  by (auto simp: htpasswd_reload_if_changed_def load_htpasswd_def Let_def split: option.split)

text \<open>
  Logging out refuses the cached credentials exactly once.  After \<open>/logout\<close> has recorded a
  user at time \<open>t\<close>, the user's next request within 30 seconds is refused whatever password it
  carries; that request removes the record, so the one after it is decided by the table alone.
\<close>

theorem logout_refuses_once:
  assumes "ae_auth_file env \<noteq> []" and "ae_realm_cfg env" and "ae_realm_wr env"
    and "basic_credentials h = Some (user, pass)" and "user \<noteq> []" and "length user < 64"
    and "CHR ''|'' \<notin> set user" and "LF \<notin> set user"
    and "0 \<le> t" and "t \<le> LONG_MAX" and "now < t + 30"
    and "auth_logout_realm_bump True True t st (Some user) = (n, st1)"
    and "check_basic_auth env now st1 (Some h) = (ok, st2)"
    and "check_basic_auth env now' st2 (Some h) = (ok', st3)"
  shows "\<not> ok \<and> ok' = table_accepts env (au_table st3) user pass"
proof -
  let ?r = "htpasswd_reload_if_changed (ae_weak env) (ae_file env)"
  obtain k where k: "- (2 ^ 31) \<le> k" "k < 2 ^ 31"
    "au_realm_n st1 = Some (int_dec k @ [LF] @ user @ ''|'' @ int_dec t @ [LF])"
  proof
    define k where "k = (case realm_file_read (au_realm_n st) of (r, n) \<Rightarrow> if r = 0 then wrap32 (n + 1) else 1)"
    show "- (2 ^ 31) \<le> k" "k < 2 ^ 31"
      using wrap32_range by (simp_all add: k_def split: prod.split)
    show "au_realm_n st1 = Some (int_dec k @ [LF] @ user @ ''|'' @ int_dec t @ [LF])"
      using assms(5,12) by (auto simp: auth_logout_realm_bump_def Let_def k_def [symmetric])
  qed
  have "au_realm_n (?r st1) = Some (int_dec k @ [LF] @ user @ ''|'' @ int_dec t @ [LF])"
    using k(3) reload_realm by simp
  from logout_consume_fresh [OF assms(5-10) k(1,2) _ this, of now] assms(11)
  obtain m where m: "- (2 ^ 31) \<le> m" "m < 2 ^ 31"
    "auth_logout_consume True True now (?r st1) user = (True, (?r st1)\<lparr>au_realm_n := Some (int_dec m @ [LF])\<rparr>)"
    by auto
  then have 2: "\<not> ok" "st2 = (?r st1)\<lparr>au_realm_n := Some (int_dec m @ [LF])\<rparr>"
    using assms(1-4,13) by (simp_all add: check_basic_auth_def Let_def)
  then have "au_realm_n (?r st2) = Some (int_dec m @ [LF])" using reload_realm by simp
  from logout_consume_none [OF m(1,2) this] show ?thesis
    using assms(1-4,14) 2(1) by (auto simp: check_basic_auth_def Let_def)
qed

theorem logout_refuses_once_witness:
  "\<not> fst (check_basic_auth demo_env 100
        (snd (auth_logout_realm_bump True True 90 demo_auth (Some ''al'')))
        (Some (''Basic '' @ b64_encode (''al'' @ '':'' @ ''pw''))))"
proof -
  let ?h = "''Basic '' @ b64_encode (''al'' @ '':'' @ ''pw'')"
  obtain n st1 where b: "auth_logout_realm_bump True True 90 demo_auth (Some ''al'') = (n, st1)" by force
  obtain ok st2 where c: "check_basic_auth demo_env 100 st1 (Some ?h) = (ok, st2)" by force
  obtain ok' st3 where d: "check_basic_auth demo_env 101 st2 (Some ?h) = (ok', st3)" by force
  have "ae_auth_file demo_env \<noteq> []" "ae_realm_cfg demo_env" "ae_realm_wr demo_env" by (simp_all add: demo_env_def)
  then have "\<not> ok"
    using logout_refuses_once [OF _ _ _ demo_header _ _ _ _ _ _ _ b c d] by (simp add: LONG_MAX_def)
  then show ?thesis unfolding b snd_conv c by simp
qed

lemma path_part_drop:
  assumes "length e \<le> length (path_part p)"
  shows "take (length e) p = take (length e) (path_part p)"
    and "case drop (length e) p of
        [] \<Rightarrow> path_part p = take (length e) p
      | c # _ \<Rightarrow> (c = CHR ''?'' \<longleftrightarrow> path_part p = take (length e) p) \<and>
          (c \<noteq> CHR ''?'' \<longrightarrow> (\<exists>s. path_part p = take (length e) p @ c # s))"
proof -
  obtain a b where p: "p = a @ b" "length a = length e"
    using assms that [of "take (length e) p" "drop (length e) p"] length_takeWhile_le [of "\<lambda>c. c \<noteq> CHR ''?''" p]
    by (simp add: path_part_def)
  have all: "\<forall>c \<in> set a. c \<noteq> CHR ''?''"
  proof (rule ccontr)
    assume "\<not> ?thesis"
    then obtain x y where "a = x @ CHR ''?'' # y" "CHR ''?'' \<notin> set x" by (auto dest: split_list_first)
    then have "path_part p = x" using p by (auto simp: path_part_def takeWhile_append2 takeWhile_tail)
    with assms p(2) \<open>a = x @ CHR ''?'' # y\<close> show False by simp
  qed
  then have pp: "path_part p = a @ takeWhile (\<lambda>c. c \<noteq> CHR ''?'') b"
    using p by (simp add: path_part_def takeWhile_append2)
  show "take (length e) p = take (length e) (path_part p)" using p pp by simp
  show "case drop (length e) p of
        [] \<Rightarrow> path_part p = take (length e) p
      | c # _ \<Rightarrow> (c = CHR ''?'' \<longleftrightarrow> path_part p = take (length e) p) \<and>
          (c \<noteq> CHR ''?'' \<longrightarrow> (\<exists>s. path_part p = take (length e) p @ c # s))"
    using p pp by (cases b) auto
qed

lemma public_entry_iff:
  assumes "length e < MAX_PATH_SIZE"
  shows "public_entry e p \<longleftrightarrow> e \<noteq> [] \<and> (path_part p = e \<or> (\<exists>s. path_part p = e @ CHR ''/'' # s))"
proof (cases "length e \<le> length (path_part p)")
  case False
  then show ?thesis by (auto simp: public_entry_def)
next
  case True
  note d = path_part_drop [OF True]
  show ?thesis
  proof (cases "take (length e) p = e")
    case False
    then have "path_part p \<noteq> e \<and> (\<forall>s. path_part p \<noteq> e @ CHR ''/'' # s)" using d(1) by auto
    with False show ?thesis by (simp add: public_entry_def)
  next
    case eq: True
    show ?thesis
    proof (cases "drop (length e) p")
      case Nil
      then show ?thesis using d(2) eq True assms by (simp add: public_entry_def)
    next
      case (Cons c r)
      then show ?thesis using d(2) eq True assms by (auto simp: public_entry_def)
    qed
  qed
qed

text \<open>
  The public-path exemption is exact.  A path is exempt iff one of the configured entries is
  the path up to its query, or a proper segment prefix of it; \<open>/accounts\<close> never exempts
  \<open>/accounting\<close>.
\<close>

theorem public_path_exact:
  assumes "length paths < MAX_PATH_SIZE"
  shows "is_public_path paths (Some p) \<longleftrightarrow>
    (\<exists>e \<in> set (split_on (CHR '';'') paths). e \<noteq> [] \<and>
       (path_part p = e \<or> (\<exists>s. path_part p = e @ CHR ''/'' # s)))"
proof -
  have len: "length e < MAX_PATH_SIZE" if "e \<in> set (split_on (CHR '';'') paths)" for e
    using split_on_length [OF that] assms by simp
  have "take (MAX_PATH_SIZE * 2 - 1) paths = paths" using assms by simp
  then show ?thesis
    unfolding is_public_path_def using public_entry_iff [OF len] by (auto simp: list_ex_iff)
qed

theorem public_path_exact_witness:
  "is_public_path ''/accounts;/health'' (Some ''/accounts/list?x=1'') \<and>
   \<not> is_public_path ''/accounts;/health'' (Some ''/accounting'')"
proof -
  have "length ''/accounts;/health'' < MAX_PATH_SIZE" by (simp add: MAX_PATH_SIZE_def)
  then show ?thesis
    using public_path_exact [of "''/accounts;/health''" "''/accounts/list?x=1''"]
      public_path_exact [of "''/accounts;/health''" "''/accounting''"]
    by (simp add: path_part_def)
qed

text \<open>
  A reload that finds no valid entry empties the table.  The log message of the reload says the
  previous table is kept; instead every user is refused until the file has a valid entry again.
\<close>

theorem reload_without_entries_empties_table:
  assumes "foldl (htpasswd_line weak) [] (fgets_lines 512 content) = []" and "mtime \<noteq> au_mtime st"
  shows "au_table (htpasswd_reload_if_changed weak (Some (mtime, Some content)) st) = [] \<and>
    \<not> table_accepts env (au_table (htpasswd_reload_if_changed weak (Some (mtime, Some content)) st)) user pass"
  using assms by (simp add: htpasswd_reload_if_changed_def load_htpasswd_def table_accepts_def htpasswd_find_def)

theorem reload_without_entries_witness:
  "au_table (htpasswd_reload_if_changed False (Some ((2, 0), Some ''bob:plain''))
     (demo_auth\<lparr>au_table := [\<lparr>hp_user = ''al'', hp_secret = demo_secret, hp_roles = []\<rparr>]\<rparr>)) = []"
proof -
  have "foldl (htpasswd_line False) [] (fgets_lines 512 ''bob:plain'') = []" by code_simp
  then show ?thesis
    using reload_without_entries_empties_table [where content = "''bob:plain''" and weak = False and mtime = "(2, 0)"]
    by (simp add: demo_auth_def)
qed

end
