(* ===== verification/Auth_Session.thy ===== *)
theory Auth_Session
  imports Auth_Basic
begin

text \<open>
  \<open>src/src/security/auth.c\<close>, second half: session cookies.  The session file is its content, \<open>None\<close>
  when it cannot be opened or locked; the exclusive lock makes each read-modify-write one step, and a
  write is taken to reach the disk whole.  The 16 bytes from \<open>/dev/urandom\<close> are an argument, \<open>None\<close>
  when the source fails.
\<close>

definition SESSION_TOKEN_HEX_LEN :: nat where "SESSION_TOKEN_HEX_LEN = 32"
definition SESSION_BUF :: nat where "SESSION_BUF = 512 * 96"
definition MAX_SESSION_COOKIES :: nat where "MAX_SESSION_COOKIES = 8"

section \<open>Configuration\<close>

record session_cfg =
  sc_file :: string
  sc_cookie :: string
  sc_ttl_days :: int
  sc_secure :: bool

definition cookie_name_char :: "char \<Rightarrow> bool" where
  "cookie_name_char c \<longleftrightarrow> isalnum c \<or> c \<in> set ''-_.!~''"

definition is_safe_cookie_name :: "string \<Rightarrow> bool" where
  "is_safe_cookie_name s \<longleftrightarrow> s \<noteq> [] \<and> list_all cookie_name_char s"

text \<open>\<open>session_lazy_init\<close> on an environment; \<open>usable\<close> says whether the file can be opened.\<close>

definition session_lazy_init :: "(string \<Rightarrow> string option) \<Rightarrow> (string \<Rightarrow> bool) \<Rightarrow> session_cfg" where
  "session_lazy_init getenv usable =
     (let file = (case getenv ''AUTH_SESSION_FILE'' of
                    None \<Rightarrow> []
                  | Some e \<Rightarrow> let f = take (MAX_PATH_SIZE - 1) e in if usable f then f else []);
          cookie = (case getenv ''AUTH_SESSION_COOKIE'' of
                      None \<Rightarrow> ''lume_session''
                    | Some e \<Rightarrow> if e \<noteq> [] \<and> length e + 1 \<le> 64 \<and> is_safe_cookie_name e then e else ''lume_session'');
          ttl = (case getenv ''AUTH_SESSION_TTL_DAYS'' of
                   None \<Rightarrow> 30
                 | Some e \<Rightarrow> if e = [] then 30
                            else let d = fst (strtol10 e) in if d > 0 \<and> d \<le> 3650 then d else 30);
          secure = (case getenv ''AUTH_COOKIE_SECURE'' of
                      None \<Rightarrow> False
                    | Some e \<Rightarrow> e \<noteq> [] \<and> hd e \<noteq> CHR ''0'' \<and> \<not> ci_eq e ''false'' \<and> \<not> ci_eq e ''no'')
      in \<lparr>sc_file = file, sc_cookie = cookie, sc_ttl_days = ttl, sc_secure = secure\<rparr>)"

definition auth_session_enabled :: "session_cfg \<Rightarrow> string \<Rightarrow> bool" where
  "auth_session_enabled cfg auth_file \<longleftrightarrow> sc_file cfg \<noteq> [] \<and> auth_file \<noteq> []"

definition is_login_path :: "session_cfg \<Rightarrow> string \<Rightarrow> string \<Rightarrow> bool" where
  "is_login_path cfg auth_file path \<longleftrightarrow>
     auth_session_enabled cfg auth_file \<and> length (path_part path) = 6 \<and> take 6 path = ''/login''"

definition auth_session_cookie_line :: "session_cfg \<Rightarrow> string option \<Rightarrow> nat \<Rightarrow> int \<times> string" where
  "auth_session_cookie_line cfg token out_size =
     (let secure = (if sc_secure cfg then ''Secure; '' else []);
          max_age = sc_ttl_days cfg * 86400
      in case token of
           Some (c # t) \<Rightarrow>
             (wrap32 max_age,
              take (out_size - 1) (sc_cookie cfg @ ''='' @ (c # t) @ ''; Path=/; HttpOnly; SameSite=Lax; '' @
                secure @ ''Max-Age='' @ int_dec max_age))
         | _ \<Rightarrow>
             (0, take (out_size - 1) (sc_cookie cfg @ ''=; Path=/; HttpOnly; SameSite=Lax; '' @ secure @ ''Max-Age=0'')))"

definition random_token_hex :: "8 word list option \<Rightarrow> string option" where
  "random_token_hex entropy =
     (case entropy of
        None \<Rightarrow> None
      | Some b \<Rightarrow> if length b < 16 then None
                 else Some (concat (map (\<lambda>x. [hexdigit (unat x div 16), hexdigit (unat x mod 16)]) (take 16 b))))"

section \<open>Cookies\<close>

definition ck_blank :: "char \<Rightarrow> bool" where
  "ck_blank c \<longleftrightarrow> c = CHR '' '' \<or> c = TAB"

text \<open>The value part of a matching segment, after the optional quotes.\<close>

definition cookie_value :: "string \<Rightarrow> string" where
  "cookie_value v0 =
     (let v1 = dropWhile ck_blank v0;
          v2 = (if v1 \<noteq> [] \<and> hd v1 = DQUOTE then tl v1 else v1);
          v3 = (if v2 \<noteq> [] \<and> last v2 = DQUOTE then butlast v2 else v2)
      in if v3 \<noteq> [] \<and> last v3 = CHR '';'' then butlast v3 else v3)"

text \<open>
  \<open>cookie_next\<close> from a position: the value it copied out (if it returns 1) and the cursor it leaves,
  \<open>None\<close> for NULL.
\<close>

function cookie_next :: "string \<Rightarrow> nat \<Rightarrow> string \<Rightarrow> string option \<times> string option" where
  "cookie_next name out_size p =
     (if p = [] then (None, Some p)
      else let seg = dropWhile ck_blank (takeWhile (\<lambda>c. c \<noteq> CHR '';'') p);
               semi = strchr p (CHR '';'');
               nm = takeWhile (\<lambda>c. c \<noteq> CHR ''='') seg
           in if CHR ''='' \<in> set seg \<and> nm = name then
                let v = cookie_value (drop (length nm + 1) seg);
                    cursor = map_option tl semi
                in if v \<noteq> [] \<and> length v < out_size then (Some v, cursor) else (None, cursor)
              else case semi of
                     None \<Rightarrow> (None, None)
                   | Some s \<Rightarrow> cookie_next name out_size (tl s))"
  by pat_completeness auto
termination
proof (relation "measure (\<lambda>(a, b, p). length p)", simp, goal_cases)
  case (1 name out_size p seg semi nm s)
  then obtain pre u where "p = pre @ CHR '';'' # u" "s = CHR '';'' # u" using strchr_Some by blast
  then show ?case by simp
qed

declare cookie_next.simps [simp del]

lemma cookie_next_shorter: "cookie_next name n p = (Some v, Some c) \<Longrightarrow> length c < length p"
proof (induction name n p rule: cookie_next.induct)
  case (1 name n p)
  have tl: "length (tl s) < length p" if "strchr p (CHR '';'') = Some s" for s
    using strchr_Some [OF that] by auto
  show ?case
  proof (cases "strchr p (CHR '';'')")
    case None
    then show ?thesis using 1(2) by (subst (asm) cookie_next.simps) (auto simp: Let_def split: if_splits)
  next
    case (Some s)
    have IH: "length c < length (tl s)" if "cookie_next name n (tl s) = (Some v, Some c)" "p \<noteq> []"
      "\<not> (CHR ''='' \<in> set (dropWhile ck_blank (takeWhile (\<lambda>c. c \<noteq> CHR '';'') p)) \<and>
         takeWhile (\<lambda>c. c \<noteq> CHR ''='') (dropWhile ck_blank (takeWhile (\<lambda>c. c \<noteq> CHR '';'') p)) = name)"
      using 1(1) [OF that(2) refl refl refl that(3) Some that(1)] .
    show ?thesis
      using 1(2) IH tl [OF Some] Some
      by (subst (asm) cookie_next.simps) (force simp: Let_def split: if_splits)
  qed
qed

function cookie_tokens_loop :: "string \<Rightarrow> string \<Rightarrow> string list \<Rightarrow> string list" where
  "cookie_tokens_loop name cursor toks =
     (if length toks \<ge> MAX_SESSION_COOKIES then toks
      else case cookie_next name (SESSION_TOKEN_HEX_LEN + 1) cursor of
             (None, _) \<Rightarrow> toks
           | (Some tok, next) \<Rightarrow>
               let toks' = (if length tok = SESSION_TOKEN_HEX_LEN then toks @ [tok] else toks)
               in case next of None \<Rightarrow> toks' | Some c \<Rightarrow> cookie_tokens_loop name c toks')"
  by pat_completeness auto
termination
  by (relation "measure (\<lambda>(a, c, t). length c)") (auto dest!: cookie_next_shorter [OF sym])

declare cookie_tokens_loop.simps [simp del]

definition session_cookie_tokens :: "session_cfg \<Rightarrow> string \<Rightarrow> string list" where
  "session_cookie_tokens cfg cookie_header =
     (if cookie_header = [] then [] else cookie_tokens_loop (sc_cookie cfg) cookie_header [])"

section \<open>The session file\<close>

text \<open>One \<open>%ns\<close> conversion: the word and the rest of the text.\<close>

definition scanf_word :: "nat \<Rightarrow> string \<Rightarrow> (string \<times> string) option" where
  "scanf_word n s =
     (let t = dropWhile isspace s; w = take n (takeWhile (\<lambda>c. \<not> isspace c) t)
      in if w = [] then None else Some (w, drop (length w) t))"

definition scan_session :: "string \<Rightarrow> (string \<times> string \<times> string) option" where
  "scan_session line =
     (case scanf_word 32 line of
        None \<Rightarrow> None
      | Some (tok, r1) \<Rightarrow>
          (case scanf_word 127 r1 of
             None \<Rightarrow> None
           | Some (user, r2) \<Rightarrow>
               (case scanf_word 31 r2 of
                  None \<Rightarrow> None
                | Some (ex, _) \<Rightarrow> Some (tok, user, ex))))"

text \<open>What \<open>session_lock_read\<close> leaves in the buffer, cut into lines by \<open>strtok_r\<close>.\<close>

definition session_lines :: "string \<Rightarrow> string list" where
  "session_lines file = filter (\<lambda>l. l \<noteq> []) (split_on LF (cstr (take (SESSION_BUF - 1) file)))"

definition session_line :: "string \<times> string \<times> string \<Rightarrow> string" where
  "session_line e = (case e of (tok, user, ex) \<Rightarrow> tok @ '' '' @ user @ '' '' @ ex @ [LF])"

text \<open>\<open>snprintf(keep + strlen(keep), ...)\<close>.\<close>

definition keep_add :: "string \<Rightarrow> string \<Rightarrow> string" where
  "keep_add keep s = take (SESSION_BUF - 1) (keep @ s)"

definition atol :: "string \<Rightarrow> int" where
  "atol s = fst (strtol10 s)"

record verify_acc =
  va_keep :: string
  va_found :: "string option"
  va_dropped :: bool

definition verify_entry ::
  "htpasswd_entry list \<Rightarrow> int \<Rightarrow> string list \<Rightarrow> nat \<Rightarrow> verify_acc \<Rightarrow> (string \<times> string \<times> string) option \<Rightarrow>
   verify_acc" where
  "verify_entry tbl now toks out_size a entry =
     (case entry of
        None \<Rightarrow> a\<lparr>va_dropped := True\<rparr>
      | Some (tok, user, ex) \<Rightarrow>
          if atol ex > now \<and> htpasswd_has_user tbl user then
            a\<lparr>va_keep := keep_add (va_keep a) (session_line (tok, user, ex)),
              va_found := (if list_ex (ct_eq tok) toks then Some (take (out_size - 1) user) else va_found a)\<rparr>
          else a\<lparr>va_dropped := True\<rparr>)"

definition verify_line ::
  "htpasswd_entry list \<Rightarrow> int \<Rightarrow> string list \<Rightarrow> nat \<Rightarrow> verify_acc \<Rightarrow> string \<Rightarrow> verify_acc" where
  "verify_line tbl now toks out_size a line = verify_entry tbl now toks out_size a (scan_session line)"

text \<open>The user found (or \<open>None\<close> for the result 0), the authentication state and the session file.\<close>

definition auth_session_verify ::
  "session_cfg \<Rightarrow> auth_env \<Rightarrow> int \<Rightarrow> auth_state \<Rightarrow> string option \<Rightarrow> string \<Rightarrow> nat \<Rightarrow>
   string option \<times> auth_state \<times> string option" where
  "auth_session_verify cfg env now st file cookie_header out_size =
     (if \<not> auth_session_enabled cfg (ae_auth_file env) \<or> out_size = 0 then (None, st, file)
      else let toks = session_cookie_tokens cfg cookie_header
           in if toks = [] then (None, st, file)
              else case file of
                     None \<Rightarrow> (None, st, file)
                   | Some text \<Rightarrow>
                       let st1 = htpasswd_reload_if_changed (ae_weak env) (ae_file env) st;
                           a = foldl (verify_line (au_table st1) now toks out_size)
                                 \<lparr>va_keep = [], va_found = None, va_dropped = False\<rparr> (session_lines text)
                       in (va_found a, st1, Some (if va_dropped a then va_keep a else text)))"

definition auth_session_valid ::
  "session_cfg \<Rightarrow> auth_env \<Rightarrow> int \<Rightarrow> auth_state \<Rightarrow> string option \<Rightarrow> string \<Rightarrow> bool \<times> auth_state \<times> string option" where
  "auth_session_valid cfg env now st file cookie_header =
     (case auth_session_verify cfg env now st file cookie_header 128 of
        (u, st1, file1) \<Rightarrow> (u \<noteq> None, st1, file1))"

definition create_line :: "int \<Rightarrow> string \<Rightarrow> string \<Rightarrow> string" where
  "create_line now keep line =
     (case scan_session line of
        Some (tok, u, ex) \<Rightarrow> if atol ex > now then keep_add keep (session_line (tok, u, ex)) else keep
      | None \<Rightarrow> keep)"

text \<open>The token handed out, the authentication state and the session file.\<close>

definition auth_session_create ::
  "session_cfg \<Rightarrow> auth_env \<Rightarrow> int \<Rightarrow> 8 word list option \<Rightarrow> auth_state \<Rightarrow> string option \<Rightarrow> string option \<Rightarrow>
   string option \<times> auth_state \<times> string option" where
  "auth_session_create cfg env now entropy st file user =
     (case user of
        None \<Rightarrow> (None, st, file)
      | Some u \<Rightarrow>
          if \<not> auth_session_enabled cfg (ae_auth_file env) \<or> u = [] then (None, st, file)
          else if CHR '' '' \<in> set u \<or> TAB \<in> set u \<or> LF \<in> set u then (None, st, file)
          else if length u + 1 > 64 then (None, st, file)
          else let st1 = htpasswd_reload_if_changed (ae_weak env) (ae_file env) st
               in if \<not> htpasswd_has_user (au_table st1) u then (None, st1, file)
                  else case random_token_hex entropy of
                         None \<Rightarrow> (None, st1, file)
                       | Some token \<Rightarrow>
                           (case file of
                              None \<Rightarrow> (None, st1, file)
                            | Some text \<Rightarrow>
                                let keep = foldl (create_line now) [] (session_lines text)
                                in (Some token, st1,
                                    Some (keep_add keep (session_line
                                      (token, u, int_dec (now + sc_ttl_days cfg * 86400)))))))"

definition delete_line :: "int \<Rightarrow> string list \<Rightarrow> string \<times> bool \<Rightarrow> string \<Rightarrow> string \<times> bool" where
  "delete_line now toks a line =
     (case scan_session line of
        Some (tok, u, ex) \<Rightarrow>
          if atol ex > now then
            if list_ex (ct_eq tok) toks then (fst a, True)
            else (keep_add (fst a) (session_line (tok, u, ex)), snd a)
          else a
      | None \<Rightarrow> a)"

definition auth_session_delete ::
  "session_cfg \<Rightarrow> string \<Rightarrow> int \<Rightarrow> string option \<Rightarrow> string \<Rightarrow> bool \<times> string option" where
  "auth_session_delete cfg auth_file now file cookie_header =
     (if \<not> auth_session_enabled cfg auth_file then (False, file)
      else let toks = session_cookie_tokens cfg cookie_header
           in if toks = [] then (False, file)
              else case file of
                     None \<Rightarrow> (False, file)
                   | Some text \<Rightarrow>
                       (case foldl (delete_line now toks) ([], False) (session_lines text) of
                          (keep, removed) \<Rightarrow> (removed, Some keep)))"

definition auth_401_as_json :: "session_cfg \<Rightarrow> string \<Rightarrow> HttpResponse \<Rightarrow> string option \<Rightarrow> HttpResponse" where
  "auth_401_as_json cfg auth_file r path =
     (case path of
        None \<Rightarrow> r
      | Some p \<Rightarrow>
          if \<not> auth_session_enabled cfg auth_file \<or> \<not> starts_with ''/api/'' p then r
          else let json = CHR ''{'' # DQUOTE # ''error'' @ DQUOTE # CHR '':'' # DQUOTE # ''unauthorized'' @ [DQUOTE, CHR ''}'']
               in r\<lparr>rs_body := Some json, rs_body_length := int (length json), rs_content_type := ''application/json''\<rparr>)"

section \<open>The file as a list of sessions\<close>

text \<open>
  The abstract view: a session is a token, a user and an expiry text, and the file is the sequence
  of their lines.
\<close>

type_synonym session = "string \<times> string \<times> string"

definition plain_word :: "nat \<Rightarrow> string \<Rightarrow> bool" where
  "plain_word n w \<longleftrightarrow> w \<noteq> [] \<and> length w \<le> n \<and> (\<forall>c \<in> set w. \<not> isspace c \<and> c \<noteq> NUL)"

definition session_wf :: "session \<Rightarrow> bool" where
  "session_wf e \<longleftrightarrow> (case e of (tok, user, ex) \<Rightarrow>
     plain_word 32 tok \<and> length tok = 32 \<and> plain_word 127 user \<and> plain_word 31 ex)"

definition render :: "session list \<Rightarrow> string" where
  "render es = concat (map session_line es)"

definition store_wf :: "session list \<Rightarrow> bool" where
  "store_wf es \<longleftrightarrow> (\<forall>e \<in> set es. session_wf e) \<and> length (render es) < SESSION_BUF"

lemma isspace_LF [simp]: "isspace LF" "isspace CHR '' ''"
  by (simp_all add: isspace_def)

lemma scanf_word_plain:
  assumes "plain_word n w" and "r = [] \<or> isspace (hd r)"
  shows "scanf_word n (w @ r) = Some (w, r)"
proof -
  obtain c s where w: "w = c # s" using assms(1) by (cases w) (auto simp: plain_word_def)
  have ns: "list_all (\<lambda>c. \<not> isspace c) w" using assms(1) by (simp add: plain_word_def list_all_iff)
  then have "dropWhile isspace (w @ r) = w @ r" using w by simp
  moreover have "takeWhile (\<lambda>c. \<not> isspace c) (w @ r) = w"
    using takeWhile_digits [OF ns, of r] assms(2) by simp
  ultimately show ?thesis using assms(1) w by (simp add: scanf_word_def plain_word_def)
qed

lemma scanf_word_blank: "scanf_word n (CHR '' '' # s) = scanf_word n s"
  by (simp add: scanf_word_def)

lemma scan_session_line:
  assumes "session_wf (tok, user, ex)"
  shows "scan_session (tok @ '' '' @ user @ '' '' @ ex) = Some (tok, user, ex)"
proof -
  have w: "plain_word 32 tok" "plain_word 127 user" "plain_word 31 ex" using assms by (simp_all add: session_wf_def)
  show ?thesis
    using scanf_word_plain [OF w(1), of "CHR '' '' # user @ CHR '' '' # ex"]
      scanf_word_plain [OF w(2), of "CHR '' '' # ex"] scanf_word_plain [OF w(3), of "[]"]
    by (simp add: scan_session_def scanf_word_blank)
qed

lemma split_on_line: "d \<notin> set l \<Longrightarrow> split_on d (l @ d # r) = l # split_on d r"
  by (induction l) auto

lemma session_text:
  assumes "session_wf e"
  shows "\<exists>l. session_line e = l @ [LF] \<and> l \<noteq> [] \<and> LF \<notin> set l \<and> NUL \<notin> set (session_line e) \<and> scan_session l = Some e"
proof -
  obtain tok user ex where e: "e = (tok, user, ex)" by (cases e)
  let ?l = "tok @ '' '' @ user @ '' '' @ ex"
  have w: "plain_word 32 tok" "plain_word 127 user" "plain_word 31 ex" using assms e by (simp_all add: session_wf_def)
  then have "LF \<notin> set ?l" "NUL \<notin> set ?l" using isspace_LF(1) by (auto simp: plain_word_def simp del: isspace_LF)
  then show ?thesis
    using scan_session_line [of tok user ex] assms e w(1)
    by (intro exI [of _ ?l]) (simp add: session_line_def plain_word_def)
qed

lemma render_lines:
  "\<forall>e \<in> set es. session_wf e \<Longrightarrow>
   NUL \<notin> set (render es) \<and> map scan_session (filter (\<lambda>l. l \<noteq> []) (split_on LF (render es))) = map Some es"
proof (induction es)
  case (Cons e es)
  obtain l where l: "session_line e = l @ [LF]" "l \<noteq> []" "LF \<notin> set l" "NUL \<notin> set (session_line e)" "scan_session l = Some e"
    using session_text [of e] Cons(2) by auto
  have "render (e # es) = l @ LF # render es" by (simp add: render_def l(1))
  then show ?case using Cons l split_on_line [OF l(3), of "render es"] by (auto simp: render_def)
qed (simp add: render_def)

lemma session_lines_render:
  assumes "store_wf es"
  shows "map scan_session (session_lines (render es)) = map Some es"
proof -
  have "cstr (take (SESSION_BUF - 1) (render es)) = render es"
    using assms render_lines [of es] by (auto simp: store_wf_def cstr_def takeWhile_eq_all_conv)
  then show ?thesis using render_lines [of es] assms by (simp add: session_lines_def store_wf_def)
qed

lemma render_append: "render (es @ fs) = render es @ render fs"
  by (simp add: render_def)

lemma render_filter_le: "length (render (filter P es)) \<le> length (render es)"
  by (induction es) (simp_all add: render_def)

lemma keep_add_render:
  "length (render (es @ [e])) < SESSION_BUF \<Longrightarrow> keep_add (render es) (session_line e) = render (es @ [e])"
  by (simp add: keep_add_def render_def)

lemma store_wf_filter: "store_wf es \<Longrightarrow> store_wf (filter P es)"
  using render_filter_le [of P es] by (auto simp: store_wf_def)

definition unexpired :: "int \<Rightarrow> session \<Rightarrow> bool" where
  "unexpired now e \<longleftrightarrow> atol (snd (snd e)) > now"

definition live :: "htpasswd_entry list \<Rightarrow> int \<Rightarrow> session \<Rightarrow> bool" where
  "live tbl now e \<longleftrightarrow> unexpired now e \<and> htpasswd_has_user tbl (fst (snd e))"

text \<open>The user of the last session in the file that passes a test.\<close>

definition newest_user :: "(session \<Rightarrow> bool) \<Rightarrow> session list \<Rightarrow> string option" where
  "newest_user P es = (if filter P es = [] then None else Some (fst (snd (last (filter P es)))))"

lemma newest_user_snoc: "newest_user P (es @ [e]) = (if P e then Some (fst (snd e)) else newest_user P es)"
  by (simp add: newest_user_def)

lemma cookie_tokens_length:
  "\<forall>t \<in> set toks. length t = SESSION_TOKEN_HEX_LEN \<Longrightarrow>
   t \<in> set (cookie_tokens_loop name c toks) \<Longrightarrow> length t = SESSION_TOKEN_HEX_LEN"
proof (induction name c toks rule: cookie_tokens_loop.induct)
  case (1 name c toks)
  show ?case
  proof (cases "length toks \<ge> MAX_SESSION_COOKIES")
    case True
    then show ?thesis using 1(2,3) by (simp add: cookie_tokens_loop.simps [of name c])
  next
    case False
    obtain v next' where n: "cookie_next name (SESSION_TOKEN_HEX_LEN + 1) c = (v, next')" by force
    show ?thesis
    proof (cases v)
      case None
      then show ?thesis using 1(2,3) n False by (simp add: cookie_tokens_loop.simps [of name c])
    next
      case (Some tok)
      define toks' where "toks' = (if length tok = SESSION_TOKEN_HEX_LEN then toks @ [tok] else toks)"
      have ok: "\<forall>t \<in> set toks'. length t = SESSION_TOKEN_HEX_LEN" using 1(2) by (auto simp: toks'_def)
      have s: "cookie_tokens_loop name c toks = (case next' of None \<Rightarrow> toks' | Some c \<Rightarrow> cookie_tokens_loop name c toks')"
        unfolding toks'_def using n False Some by (simp add: cookie_tokens_loop.simps [of name c] Let_def)
      show ?thesis
      proof (cases next')
        case None
        then show ?thesis using ok s 1(3) by simp
      next
        case (Some c')
        then show ?thesis
          using 1(1) [OF False n [symmetric] \<open>v = Some tok\<close> toks'_def Some ok] s 1(3) by simp
      qed
    qed
  qed
qed

lemma ct_eq_tokens:
  assumes "session_wf e" and "\<forall>t \<in> set toks. length t = SESSION_TOKEN_HEX_LEN"
  shows "list_ex (ct_eq (fst e)) toks \<longleftrightarrow> fst e \<in> set toks"
proof -
  have "length (fst e) < 2 ^ 32" using assms(1) by (cases e) (simp add: session_wf_def)
  moreover have "length t < 2 ^ 32" if "t \<in> set toks" for t using assms(2) that by (simp add: SESSION_TOKEN_HEX_LEN_def)
  ultimately show ?thesis using ct_eq_iff by (auto simp: list_ex_iff)
qed

lemma foldl_scan:
  assumes "\<And>a l. f a l = g a (scan_session l)"
  shows "foldl f a ls = foldl g a (map scan_session ls)"
  by (induction ls arbitrary: a) (simp_all add: assms)

lemma foldl_sessions:
  assumes "store_wf es" and "\<And>a l. f a l = g a (scan_session l)"
  shows "foldl f a (session_lines (render es)) = foldl (\<lambda>a e. g a (Some e)) a es"
  using session_lines_render [OF assms(1)]
  by (simp add: foldl_scan [of f g, OF assms(2)] foldl_map)

definition verify_state :: "htpasswd_entry list \<Rightarrow> int \<Rightarrow> string list \<Rightarrow> session list \<Rightarrow> verify_acc" where
  "verify_state tbl now toks ks =
     \<lparr>va_keep = render (filter (live tbl now) ks),
      va_found = newest_user (\<lambda>e. live tbl now e \<and> fst e \<in> set toks) ks,
      va_dropped = (\<exists>e \<in> set ks. \<not> live tbl now e)\<rparr>"

lemma verify_entry_step:
  assumes "store_wf (ks @ [e])" and "\<forall>t \<in> set toks. length t = SESSION_TOKEN_HEX_LEN" and "128 \<le> n"
  shows "verify_entry tbl now toks n (verify_state tbl now toks ks) (Some e) = verify_state tbl now toks (ks @ [e])"
proof -
  obtain tok user ex where e: "e = (tok, user, ex)" by (cases e)
  have wf: "session_wf e" using assms(1) by (simp add: store_wf_def)
  have "length user \<le> 127" using wf e by (simp add: session_wf_def plain_word_def)
  then have short: "take (n - 1) user = user" using assms(3) by simp
  have tok: "list_ex (ct_eq tok) toks \<longleftrightarrow> tok \<in> set toks" using ct_eq_tokens [OF wf assms(2)] e by simp
  have "length (render (filter (live tbl now) (ks @ [e]))) < SESSION_BUF"
    using render_filter_le [of "live tbl now" "ks @ [e]"] assms(1) by (simp add: store_wf_def)
  then have keep: "live tbl now e \<Longrightarrow>
      keep_add (render (filter (live tbl now) ks)) (session_line e) = render (filter (live tbl now) ks @ [e])"
    using keep_add_render [of "filter (live tbl now) ks" e] by simp
  have lv: "atol ex > now \<and> htpasswd_has_user tbl user \<longleftrightarrow> live tbl now e" by (simp add: e live_def unexpired_def)
  show ?thesis
    unfolding verify_entry_def option.case e prod.case lv [unfolded e] tok short
    using keep e by (auto simp: verify_state_def newest_user_snoc)
qed

lemma verify_fold:
  assumes "store_wf (ks @ es)" and "\<forall>t \<in> set toks. length t = SESSION_TOKEN_HEX_LEN" and "128 \<le> n"
  shows "foldl (\<lambda>a e. verify_entry tbl now toks n a (Some e)) (verify_state tbl now toks ks) es =
    verify_state tbl now toks (ks @ es)"
  using assms(1)
proof (induction es arbitrary: ks)
  case (Cons e es)
  then have "store_wf ((ks @ [e]) @ es)" "store_wf (ks @ [e])" by (simp_all add: store_wf_def render_def)
  with Cons(1) [of "ks @ [e]"] show ?case by (simp add: verify_entry_step [OF _ assms(2,3)])
qed simp

lemma session_tokens_length: "\<forall>t \<in> set (session_cookie_tokens cfg h). length t = SESSION_TOKEN_HEX_LEN"
  using cookie_tokens_length [of "[]"] by (auto simp: session_cookie_tokens_def)

lemma verify_text:
  assumes "store_wf es" and "128 \<le> n"
  shows "foldl (verify_line tbl now (session_cookie_tokens cfg h) n)
      \<lparr>va_keep = [], va_found = None, va_dropped = False\<rparr> (session_lines (render es)) =
    verify_state tbl now (session_cookie_tokens cfg h) es"
proof -
  have "\<lparr>va_keep = [], va_found = None, va_dropped = False\<rparr> = verify_state tbl now (session_cookie_tokens cfg h) []"
    by (simp add: verify_state_def render_def newest_user_def)
  then show ?thesis
    using foldl_sessions [OF assms(1), of "verify_line tbl now (session_cookie_tokens cfg h) n"
        "verify_entry tbl now (session_cookie_tokens cfg h) n"] verify_line_def
      verify_fold [of "[]" es, OF _ session_tokens_length assms(2)] assms(1) by simp
qed

lemma session_verify_list:
  assumes "auth_session_enabled cfg (ae_auth_file env)" and "128 \<le> n" and "store_wf es"
    and "session_cookie_tokens cfg h \<noteq> []" and "st1 = htpasswd_reload_if_changed (ae_weak env) (ae_file env) st"
  shows "auth_session_verify cfg env now st (Some (render es)) h n =
    (newest_user (\<lambda>e. live (au_table st1) now e \<and> fst e \<in> set (session_cookie_tokens cfg h)) es, st1,
     Some (render (filter (live (au_table st1) now) es)))"
proof -
  have "filter (live (au_table st1) now) es = es" if "\<not> (\<exists>e \<in> set es. \<not> live (au_table st1) now e)"
    using that by (simp add: filter_True)
  then show ?thesis
    using assms by (simp add: auth_session_verify_def Let_def verify_text verify_state_def)
qed

lemma filter_line_step:
  assumes "store_wf (ks @ [e])"
  shows "(if P e then keep_add (render (filter P ks)) (session_line e) else render (filter P ks)) =
    render (filter P (ks @ [e]))"
proof -
  have "length (render (filter P (ks @ [e]))) < SESSION_BUF"
    using render_filter_le [of P "ks @ [e]"] assms by (simp add: store_wf_def)
  then show ?thesis using keep_add_render [of "filter P ks" e] by (cases "P e") simp_all
qed

lemma create_text:
  assumes "store_wf es"
  shows "foldl (create_line now) [] (session_lines (render es)) = render (filter (unexpired now) es)"
proof -
  let ?g = "\<lambda>keep entry. case entry of
      Some (tok, u, ex) \<Rightarrow> if atol ex > now then keep_add keep (session_line (tok, u, ex)) else keep | None \<Rightarrow> keep"
  have step: "?g (render (filter (unexpired now) ks)) (Some e) = render (filter (unexpired now) (ks @ [e]))"
    if "store_wf (ks @ [e])" for ks e
    using filter_line_step [OF that, of "unexpired now"]
    by (cases "unexpired now e"; cases e) (simp_all add: unexpired_def)
  have "foldl (\<lambda>a e. ?g a (Some e)) (render (filter (unexpired now) ks)) es = render (filter (unexpired now) (ks @ es))"
    if "store_wf (ks @ es)" for ks
    using that
  proof (induction es arbitrary: ks)
    case (Cons e es)
    then have "store_wf ((ks @ [e]) @ es)" "store_wf (ks @ [e])" by (simp_all add: store_wf_def render_def)
    with Cons(1) [of "ks @ [e]"] step [of ks e] show ?case by (simp only: foldl.simps append_assoc append.simps)
  qed simp
  from this [of "[]"] show ?thesis
    using foldl_sessions [OF assms, of "create_line now" ?g] assms by (simp add: create_line_def render_def)
qed

lemma delete_text:
  assumes "store_wf es"
  shows "foldl (delete_line now (session_cookie_tokens cfg h)) ([], False) (session_lines (render es)) =
    (render (filter (\<lambda>e. unexpired now e \<and> fst e \<notin> set (session_cookie_tokens cfg h)) es),
     \<exists>e \<in> set es. unexpired now e \<and> fst e \<in> set (session_cookie_tokens cfg h))"
proof -
  let ?t = "session_cookie_tokens cfg h"
  let ?P = "\<lambda>e. unexpired now e \<and> fst e \<notin> set ?t"
  let ?g = "\<lambda>a entry. case entry of
      Some (tok, u, ex) \<Rightarrow>
        if atol ex > now then
          if list_ex (ct_eq tok) ?t then (fst a, True) else (keep_add (fst a) (session_line (tok, u, ex)), snd a)
        else a
    | None \<Rightarrow> a"
  let ?st = "\<lambda>ks. (render (filter ?P ks), \<exists>e \<in> set ks. unexpired now e \<and> fst e \<in> set ?t)"
  have step: "?g (?st ks) (Some e) = ?st (ks @ [e])" if "store_wf (ks @ [e])" for ks e
    using filter_line_step [OF that, of ?P] ct_eq_tokens [of e ?t] session_tokens_length [of cfg h] that
    by (cases e) (auto simp: unexpired_def store_wf_def split: if_splits)
  have "foldl (\<lambda>a e. ?g a (Some e)) (?st ks) es = ?st (ks @ es)" if "store_wf (ks @ es)" for ks
    using that
  proof (induction es arbitrary: ks)
    case (Cons e es)
    then have "store_wf ((ks @ [e]) @ es)" "store_wf (ks @ [e])" by (simp_all add: store_wf_def render_def)
    with Cons(1) [of "ks @ [e]"] step [of ks e] show ?case by (simp only: foldl.simps append_assoc append.simps)
  qed simp
  from this [of "[]"] show ?thesis
    using foldl_sessions [OF assms, of "delete_line now ?t" ?g] assms by (simp add: delete_line_def render_def)
qed

lemma random_token_wf: "random_token_hex ent = Some tok \<Longrightarrow> plain_word 32 tok \<and> length tok = 32"
proof -
  assume h: "random_token_hex ent = Some tok"
  then obtain b where e: "ent = Some b" by (cases ent) (auto simp: random_token_hex_def)
  then have b: "length b \<ge> 16"
    "tok = concat (map (\<lambda>x. [hexdigit (unat x div 16), hexdigit (unat x mod 16)]) (take 16 b))"
    using h by (auto simp: random_token_hex_def split: if_splits)
  have dig: "\<not> isspace (hexdigit k) \<and> hexdigit k \<noteq> NUL" if "k < 16" for k
    using hexval_hexdigit [OF that] by (auto simp: hexval_def isspace_def isdigit_def split: if_splits)
  have "unat x div 16 < 16" for x :: "8 word"
  proof -
    have "unat x < 2 ^ 8" using unsigned_less [of x] by simp
    then show ?thesis by simp
  qed
  then have "\<forall>c \<in> set tok. \<not> isspace c \<and> c \<noteq> NUL" using dig b(2) by auto
  moreover have "length tok = 32"
  proof -
    have "length (concat (map (\<lambda>x. [hexdigit (unat x div 16), hexdigit (unat x mod 16)]) ys)) = 2 * length ys"
      for ys :: "8 word list" by (induction ys) simp_all
    then show ?thesis using b by simp
  qed
  moreover from this have "tok \<noteq> []" by (metis list.size(3) zero_neq_numeral)
  ultimately show ?thesis unfolding plain_word_def by (metis order_refl)
qed

lemma expiry_word:
  assumes "0 \<le> x" and "x \<le> LONG_MAX"
  shows "plain_word 31 (int_dec x) \<and> length (int_dec x) \<le> 19 \<and> atol (int_dec x) = x"
proof -
  have "nat x < 10 ^ Suc 18" using assms by (simp add: LONG_MAX_def nat_less_iff)
  from length_nat_dec [OF this] have "length (int_dec x) \<le> 19" using assms(1) by (simp add: int_dec_def)
  moreover have "\<not> isspace c \<and> c \<noteq> NUL" if "c \<in> set (int_dec x)" for c
    using nat_dec_chars [of c "nat x"] isdigit_plain [of c] that assms(1) by (auto simp: int_dec_def isdigit_def)
  moreover have "int_dec x \<noteq> []" using nat_dec_value [of "nat x"] assms(1) by (simp add: int_dec_def)
  moreover have "atol (int_dec x) = x"
    using strtol10_nat_dec [of "[]" "nat x"] assms by (simp add: atol_def int_dec_def)
  ultimately show ?thesis by (simp add: plain_word_def)
qed

lemma session_create_list:
  assumes "store_wf es" and "length (render es) + 120 < SESSION_BUF"
    and "auth_session_create cfg env now ent st (Some (render es)) (Some u) = (Some tok, st1, file')"
    and "\<forall>c \<in> set u. \<not> isspace c \<and> c \<noteq> NUL"
    and "0 \<le> now + sc_ttl_days cfg * 86400" and "now + sc_ttl_days cfg * 86400 \<le> LONG_MAX"
  shows "\<exists>new. new = (tok, u, int_dec (now + sc_ttl_days cfg * 86400)) \<and>
    file' = Some (render (filter (unexpired now) es @ [new])) \<and> store_wf (filter (unexpired now) es @ [new]) \<and>
    length tok = 32 \<and> htpasswd_has_user (au_table st1) u"
proof -
  let ?x = "now + sc_ttl_days cfg * 86400"
  let ?new = "(tok, u, int_dec ?x)"
  have g: "u \<noteq> []" "length u + 1 \<le> 64" "random_token_hex ent = Some tok" "htpasswd_has_user (au_table st1) u"
    "file' = Some (keep_add (render (filter (unexpired now) es)) (session_line ?new))"
    using assms(3) create_text [OF assms(1), of now]
    by (auto simp: auth_session_create_def Let_def split: if_splits option.splits)
  note x = expiry_word [OF assms(5,6)]
  have wf: "session_wf ?new"
    using g(1,2) random_token_wf [OF g(3)] x assms(4) by (simp add: session_wf_def plain_word_def)
  have "length (session_line ?new) \<le> 118"
    using g(2) random_token_wf [OF g(3)] x by (simp add: session_line_def)
  then have "length (render (filter (unexpired now) es @ [?new])) < SESSION_BUF"
    using render_filter_le [of "unexpired now" es] assms(2) by (simp add: render_def)
  then show ?thesis
    using keep_add_render [of "filter (unexpired now) es" ?new] g(4,5) wf assms(1) random_token_wf [OF g(3)]
    by (auto simp: store_wf_def)
qed

section \<open>Properties\<close>

text \<open>
  (C5) The session check implements a list of sessions.  On a file that holds a list of sessions,
  the check returns the user of the newest session that has not expired, whose user is still in
  the htpasswd table and whose token the Cookie header carries, in whatever order the cookies
  come; the file afterwards holds exactly the sessions that are still live.
\<close>

theorem session_verify_refines:
  assumes "auth_session_enabled cfg (ae_auth_file env)" and "store_wf es"
    and "session_cookie_tokens cfg h \<noteq> []"
    and "auth_session_verify cfg env now st (Some (render es)) h 128 = (found, st1, file')"
  shows "found = newest_user (\<lambda>e. live (au_table st1) now e \<and> fst e \<in> set (session_cookie_tokens cfg h)) es \<and>
    file' = Some (render (filter (live (au_table st1) now) es)) \<and>
    st1 = htpasswd_reload_if_changed (ae_weak env) (ae_file env) st"
  using session_verify_list [OF assms(1) le_refl assms(2,3) refl, of now st] assms(4) by simp

definition demo_cfg :: session_cfg where
  "demo_cfg = \<lparr>sc_file = ''s'', sc_cookie = ''sid'', sc_ttl_days = 1, sc_secure = False\<rparr>"

definition demo_token :: string where "demo_token = replicate 32 (CHR ''0'')"

definition demo_session :: session where "demo_session = (demo_token, ''al'', ''90'')"

definition demo_cookie :: string where "demo_cookie = ''x=1; sid='' @ demo_token"

lemma demo_tokens: "session_cookie_tokens demo_cfg demo_cookie = [demo_token]"
  by code_simp

lemma demo_enabled: "auth_session_enabled demo_cfg (ae_auth_file demo_env)"
  by (simp add: auth_session_enabled_def demo_cfg_def demo_env_def)

lemma demo_store: "store_wf [demo_session]"
proof -
  have "session_wf demo_session" by code_simp
  moreover have "length (render [demo_session]) = 39" by code_simp
  ultimately show ?thesis by (simp add: store_wf_def SESSION_BUF_def)
qed

lemma demo_table: "au_table (htpasswd_reload_if_changed (ae_weak demo_env) (ae_file demo_env) demo_auth) =
  [\<lparr>hp_user = ''al'', hp_secret = demo_secret, hp_roles = []\<rparr>]"
  by (simp add: demo_reload)

lemma demo_newest: "newest_user (\<lambda>e. live [\<lparr>hp_user = ''al'', hp_secret = demo_secret, hp_roles = []\<rparr>] 10 e \<and>
    fst e \<in> set [demo_token]) [demo_session] = Some ''al''"
  by code_simp

theorem session_verify_refines_witness:
  "fst (auth_session_verify demo_cfg demo_env 10 demo_auth (Some (render [demo_session])) demo_cookie 128) = Some ''al''"
proof -
  obtain found st1 file' where v:
    "auth_session_verify demo_cfg demo_env 10 demo_auth (Some (render [demo_session])) demo_cookie 128 = (found, st1, file')"
    by (metis prod_cases3)
  have "session_cookie_tokens demo_cfg demo_cookie \<noteq> []" by (simp add: demo_tokens)
  from session_verify_refines [OF demo_enabled demo_store this v] show ?thesis
    using v demo_table demo_newest by (simp add: demo_tokens)
qed

text \<open>
  Logging in works until the session expires.  When a session has been created for a user,
  every later check whose Cookie header carries the new token, before the expiry and while the
  user is in the htpasswd table, identifies that user.
\<close>

theorem session_login_identifies:
  assumes "store_wf es" and "length (render es) + 120 < SESSION_BUF"
    and "auth_session_create cfg env now ent st (Some (render es)) (Some u) = (Some tok, st1, file1)"
    and "\<forall>c \<in> set u. \<not> isspace c \<and> c \<noteq> NUL"
    and "0 \<le> now + sc_ttl_days cfg * 86400" and "now + sc_ttl_days cfg * 86400 \<le> LONG_MAX"
    and "tok \<in> set (session_cookie_tokens cfg h)" and "now' < now + sc_ttl_days cfg * 86400"
    and "auth_session_verify cfg env now' st1 file1 h 128 = (found, st2, file2)"
    and "htpasswd_has_user (au_table st2) u"
  shows "found = Some u"
proof -
  obtain new where n: "new = (tok, u, int_dec (now + sc_ttl_days cfg * 86400))"
    "file1 = Some (render (filter (unexpired now) es @ [new]))" "store_wf (filter (unexpired now) es @ [new])"
    using session_create_list [OF assms(1-6)] by blast
  have en: "auth_session_enabled cfg (ae_auth_file env)"
    using assms(3) by (auto simp: auth_session_create_def split: if_splits)
  have toks: "session_cookie_tokens cfg h \<noteq> []" using assms(7) by auto
  define st' where "st' = htpasswd_reload_if_changed (ae_weak env) (ae_file env) st1"
  note v = session_verify_list [OF en le_refl n(3) toks st'_def, of now']
  have st2: "st' = st2"
    "found = newest_user (\<lambda>e. live (au_table st') now' e \<and> fst e \<in> set (session_cookie_tokens cfg h))
       (filter (unexpired now) es @ [new])"
    using trans [OF v [symmetric] assms(9) [unfolded n(2)]] by auto
  have "live (au_table st2) now' new"
    using n(1) expiry_word [OF assms(5,6)] assms(8,10) by (simp add: live_def unexpired_def)
  then show ?thesis using st2 n(1) assms(7) by (simp add: newest_user_snoc)
qed

lemma demo_create:
  "\<exists>file1. auth_session_create demo_cfg demo_env 0 (Some (replicate 16 0)) demo_auth (Some (render [])) (Some ''al'') =
     (Some demo_token, demo_auth\<lparr>au_table := [\<lparr>hp_user = ''al'', hp_secret = demo_secret, hp_roles = []\<rparr>], au_mtime := (1, 0)\<rparr>, file1)"
proof -
  have "random_token_hex (Some (replicate 16 0)) = Some demo_token" by code_simp
  then show ?thesis
    using demo_enabled by (simp add: auth_session_create_def demo_reload Let_def htpasswd_has_user_def)
qed

theorem session_login_identifies_witness:
  "\<exists>st1 file1. auth_session_create demo_cfg demo_env 0 (Some (replicate 16 0)) demo_auth (Some (render [])) (Some ''al'') =
       (Some demo_token, st1, file1) \<and>
     fst (auth_session_verify demo_cfg demo_env 5 st1 file1 demo_cookie 128) = Some ''al''"
proof -
  let ?st1 = "demo_auth\<lparr>au_table := [\<lparr>hp_user = ''al'', hp_secret = demo_secret, hp_roles = []\<rparr>], au_mtime := (1, 0)\<rparr>"
  obtain file1 where c:
    "auth_session_create demo_cfg demo_env 0 (Some (replicate 16 0)) demo_auth (Some (render [])) (Some ''al'') =
       (Some demo_token, ?st1, file1)" using demo_create by blast
  obtain found st2 file2 where v:
    "auth_session_verify demo_cfg demo_env 5 ?st1 file1 demo_cookie 128 = (found, st2, file2)"
    by (metis prod_cases3)
  have "htpasswd_reload_if_changed (ae_weak demo_env) (ae_file demo_env) ?st1 = ?st1"
    by (simp add: htpasswd_reload_if_changed_def demo_env_def)
  then have st2: "st2 = ?st1"
    using v by (auto simp: auth_session_verify_def Let_def split: if_splits option.splits)
  have "found = Some ''al''"
    by (rule session_login_identifies [OF _ _ c _ _ _ _ _ v])
      (simp_all add: st2 demo_tokens, simp_all add: store_wf_def render_def SESSION_BUF_def demo_cfg_def LONG_MAX_def
        isspace_def htpasswd_has_user_def)
  with c v show ?thesis by auto
qed

text \<open>
  (C14) Logging out revokes.  After \<open>auth_session_delete\<close> on a Cookie header, no check with that header
  finds a user, at any later or earlier clock reading, whatever the htpasswd table holds.
\<close>

theorem session_logout_revokes:
  assumes "auth_session_enabled cfg (ae_auth_file env)" and "store_wf es"
    and "auth_session_delete cfg (ae_auth_file env) now (Some (render es)) h = (removed, file1)"
    and "auth_session_verify cfg env now' st file1 h 128 = (found, st1, file2)"
  shows "found = None"
proof (cases "session_cookie_tokens cfg h = []")
  case True
  then show ?thesis using assms(4) by (auto simp: auth_session_verify_def Let_def split: if_splits)
next
  case False
  let ?P = "\<lambda>e. unexpired now e \<and> fst e \<notin> set (session_cookie_tokens cfg h)"
  have "file1 = Some (render (filter ?P es))"
    using assms(1,3) False delete_text [OF assms(2), of now cfg h]
    by (simp add: auth_session_delete_def Let_def)
  then have "found = newest_user (\<lambda>e. live (au_table st1) now' e \<and> fst e \<in> set (session_cookie_tokens cfg h)) (filter ?P es)"
    using session_verify_list [OF assms(1) le_refl store_wf_filter [OF assms(2)] False refl, of now' st] assms(4) by auto
  moreover have "filter (\<lambda>e. live (au_table st1) now' e \<and> fst e \<in> set (session_cookie_tokens cfg h)) (filter ?P es) = []"
    by (auto simp: filter_empty_conv)
  ultimately show ?thesis by (simp add: newest_user_def)
qed

theorem session_logout_revokes_witness:
  "fst (auth_session_verify demo_cfg demo_env 10 demo_auth
     (snd (auth_session_delete demo_cfg (ae_auth_file demo_env) 5 (Some (render [demo_session])) demo_cookie))
     demo_cookie 128) = None"
proof -
  obtain removed file1 where d:
    "auth_session_delete demo_cfg (ae_auth_file demo_env) 5 (Some (render [demo_session])) demo_cookie = (removed, file1)"
    by force
  obtain found st1 file' where v:
    "auth_session_verify demo_cfg demo_env 10 demo_auth file1 demo_cookie 128 = (found, st1, file')"
    by (metis prod_cases3)
  show ?thesis using session_logout_revokes [OF demo_enabled demo_store d v] d v by simp
qed

text \<open>
  A broken duplicate cookie hides the live session.  The comment on the cookie scan promises that
  a stale duplicate cannot shadow the live session, but the scan stops at the first session cookie
  whose value is empty or too long: behind one, a valid token is not seen, so the caller is not
  recognised and \<open>/logout\<close> does not revoke the session.
\<close>

theorem empty_cookie_hides_session:
  assumes "is_safe_cookie_name (sc_cookie cfg)"
  shows "session_cookie_tokens cfg (sc_cookie cfg @ ''=; '' @ sc_cookie cfg @ ''='' @ tok) = []"
proof -
  let ?n = "sc_cookie cfg"
  have plain: "c \<noteq> CHR '';'' \<and> c \<noteq> CHR ''='' \<and> \<not> ck_blank c" if "c \<in> set ?n" for c
    using assms that by (auto simp: is_safe_cookie_name_def list_all_iff cookie_name_char_def isalnum_def
        isalpha_def isdigit_def ck_blank_def)
  have tw: "takeWhile (\<lambda>c. c \<noteq> CHR '';'') (?n @ ''=; '' @ ?n @ ''='' @ tok) = ?n @ ''=''"
    using plain by (subst takeWhile_append2) auto
  have "dropWhile ck_blank (?n @ ''='') = ?n @ ''=''" using assms plain
    by (cases ?n) (auto simp: is_safe_cookie_name_def)
  moreover have "takeWhile (\<lambda>c. c \<noteq> CHR ''='') (?n @ ''='') = ?n"
    using plain by (subst takeWhile_append2) auto
  ultimately have "fst (cookie_next ?n (SESSION_TOKEN_HEX_LEN + 1) (?n @ ''=; '' @ ?n @ ''='' @ tok)) = None"
    by (subst cookie_next.simps) (simp add: Let_def tw [simplified] cookie_value_def)
  then show ?thesis
    by (cases "cookie_next ?n (SESSION_TOKEN_HEX_LEN + 1) (?n @ ''=; '' @ ?n @ ''='' @ tok)")
      (simp add: session_cookie_tokens_def cookie_tokens_loop.simps [of _ _ "[]"])
qed

theorem empty_cookie_hides_session_witness:
  "session_cookie_tokens demo_cfg (''sid=; sid='' @ demo_token) = [] \<and>
   session_cookie_tokens demo_cfg (''sid='' @ demo_token) = [demo_token]"
proof -
  have "is_safe_cookie_name (sc_cookie demo_cfg)" by code_simp
  from empty_cookie_hides_session [OF this, of demo_token] show ?thesis
    by (intro conjI, simp add: demo_cfg_def) code_simp
qed

end
