(* ===== verification/Http_Date.thy ===== *)
theory Http_Date
  imports Util
begin

text \<open>
  HTTP dates as \<open>src/src/http/static.c\<close> uses them: the libc calendar functions \<open>gmtime_r\<close>,
  \<open>strftime("%a, %d %b %Y %H:%M:%S GMT")\<close> and \<open>timegm\<close>, the ETag text, and the two validators of
  conditional requests.  Times are seconds since the epoch.
\<close>

section \<open>The calendar\<close>

definition leap_year :: "int \<Rightarrow> bool" where
  "leap_year y \<longleftrightarrow> y mod 4 = 0 \<and> (y mod 100 \<noteq> 0 \<or> y mod 400 = 0)"

text \<open>Days from 1970-01-01 to the first of January of a year.\<close>

definition year_start :: "int \<Rightarrow> int" where
  "year_start y = 365 * (y - 1970) + ((y - 1) div 4 - (y - 1) div 100 + (y - 1) div 400) - 477"

lemma div_pred: "0 < (n::int) \<Longrightarrow> (y - 1) div n = y div n - of_bool (n dvd y)"
proof (cases "n dvd y")
  case True
  assume "0 < n"
  with True show ?thesis by (intro int_div_pos_eq [where r = "n - 1"]) (auto simp: algebra_simps elim!: dvdE)
next
  case False
  assume n: "0 < n"
  with False have "y mod n \<noteq> 0" "0 \<le> y mod n" "y mod n < n" by (simp_all add: dvd_eq_mod_eq_0)
  then show ?thesis using False mult_div_mod_eq [of n y] by (intro int_div_pos_eq [where r = "y mod n - 1"]) auto
qed

lemma year_start_step: "365 \<le> year_start (y + 1) - year_start y" "year_start (y + 1) - year_start y \<le> 366"
proof -
  have "400 dvd y \<Longrightarrow> 100 dvd y" "100 dvd y \<Longrightarrow> 4 dvd y" by (auto elim: dvd_trans [rotated])
  then show "365 \<le> year_start (y + 1) - year_start y" "year_start (y + 1) - year_start y \<le> 366"
    by (auto simp: year_start_def div_pred)
qed

function year_down :: "int \<Rightarrow> int \<Rightarrow> int" where
  "year_down d y = (if d < year_start y then year_down d (y - 1) else y)"
  by pat_completeness auto
termination
proof (relation "measure (\<lambda>(d, y). nat (year_start y - d))", simp, goal_cases)
  case (1 d y)
  then show ?case using year_start_step(1) [of "y - 1"] by simp
qed

function year_up :: "int \<Rightarrow> int \<Rightarrow> int" where
  "year_up d y = (if year_start (y + 1) \<le> d then year_up d (y + 1) else y)"
  by pat_completeness auto
termination
proof (relation "measure (\<lambda>(d, y). nat (d - year_start y))", simp, goal_cases)
  case (1 d y)
  then show ?case using year_start_step(1) [of y] by simp
qed

declare year_down.simps [simp del] year_up.simps [simp del]

definition year_of :: "int \<Rightarrow> int" where
  "year_of d = year_up d (year_down d 1970)"

definition month_lengths :: "bool \<Rightarrow> int list" where
  "month_lengths leap = [31, if leap then 29 else 28, 31, 30, 31, 30, 31, 31, 30, 31, 30, 31]"

text \<open>The month (from 0) and the day of the month (from 0) of a day of the year.\<close>

fun month_of :: "int list \<Rightarrow> int \<Rightarrow> nat \<times> int" where
  "month_of [] n = (0, n)"
| "month_of (m # ms) n = (if n < m \<or> ms = [] then (0, n) else case month_of ms (n - m) of (k, r) \<Rightarrow> (Suc k, r))"

record tm =
  tm_year :: int
  tm_mon :: nat
  tm_mday :: int
  tm_hour :: int
  tm_min :: int
  tm_sec :: int
  tm_wday :: nat

definition gmtime :: "int \<Rightarrow> tm" where
  "gmtime t =
     (let d = t div 86400; s = t mod 86400; y = year_of d;
          (m, r) = month_of (month_lengths (leap_year y)) (d - year_start y)
      in \<lparr>tm_year = y, tm_mon = m, tm_mday = r + 1, tm_hour = s div 3600, tm_min = s div 60 mod 60,
          tm_sec = s mod 60, tm_wday = nat ((d + 4) mod 7)\<rparr>)"

text \<open>\<open>timegm\<close>, which lets the day of the month and the time run past their ranges.\<close>

definition timegm :: "int \<Rightarrow> nat \<Rightarrow> int \<Rightarrow> int \<Rightarrow> int \<Rightarrow> int \<Rightarrow> int" where
  "timegm y mon mday h m s =
     (year_start y + sum_list (take mon (month_lengths (leap_year y))) + (mday - 1)) * 86400 + h * 3600 + m * 60 + s"

section \<open>Text\<close>

definition month_names :: "string list" where
  "month_names = [''Jan'', ''Feb'', ''Mar'', ''Apr'', ''May'', ''Jun'', ''Jul'', ''Aug'', ''Sep'', ''Oct'', ''Nov'', ''Dec'']"

definition day_names :: "string list" where
  "day_names = [''Sun'', ''Mon'', ''Tue'', ''Wed'', ''Thu'', ''Fri'', ''Sat'']"

definition dec2 :: "int \<Rightarrow> string" where
  "dec2 n = (if n < 10 then CHR ''0'' # int_dec n else int_dec n)"

definition format_http_date :: "int \<Rightarrow> string" where
  "format_http_date t =
     (let g = gmtime t
      in day_names ! tm_wday g @ '', '' @ dec2 (tm_mday g) @ '' '' @ month_names ! tm_mon g @ '' '' @
         int_dec (tm_year g) @ '' '' @ dec2 (tm_hour g) @ '':'' @ dec2 (tm_min g) @ '':'' @ dec2 (tm_sec g) @ '' GMT'')"

text \<open>One \<open>%d\<close> conversion.\<close>

definition scan_int :: "string \<Rightarrow> (int \<times> string) option" where
  "scan_int s = (case strtol10 s of (v, e) \<Rightarrow> if e = s then None else Some (wrap32 v, e))"

definition scan_alpha15 :: "string \<Rightarrow> (string \<times> string) option" where
  "scan_alpha15 s =
     (let t = dropWhile isspace s; w = take 15 (takeWhile isalpha t)
      in if w = [] then None else Some (w, drop (length w) t))"

definition scan_colon_int :: "string \<Rightarrow> (int \<times> string) option" where
  "scan_colon_int s = (case s of [] \<Rightarrow> None | c # r \<Rightarrow> if c = CHR '':'' then scan_int r else None)"

text \<open>
  \<open>sscanf(p, " %d %15[a-zA-Z] %d %d:%d:%d", ...)\<close>: the values when three or six conversions
  succeed, the clock being zero for three, and \<open>None\<close> for any other count.
\<close>

definition scan_date :: "string \<Rightarrow> (int \<times> string \<times> int \<times> int \<times> int \<times> int) option" where
  "scan_date p =
     (case scan_int p of
        None \<Rightarrow> None
      | Some (day, r1) \<Rightarrow>
          (case scan_alpha15 r1 of
             None \<Rightarrow> None
           | Some (mon, r2) \<Rightarrow>
               (case scan_int r2 of
                  None \<Rightarrow> None
                | Some (year, r3) \<Rightarrow>
                    (case scan_int r3 of
                       None \<Rightarrow> Some (day, mon, year, 0, 0, 0)
                     | Some (hour, r4) \<Rightarrow>
                         (case scan_colon_int r4 of
                            None \<Rightarrow> None
                          | Some (minute, r5) \<Rightarrow>
                              (case scan_colon_int r5 of
                                 None \<Rightarrow> None
                               | Some (second, _) \<Rightarrow> Some (day, mon, year, hour, minute, second)))))))"

definition month_index :: "string \<Rightarrow> nat option" where
  "month_index mon =
     (case filter (\<lambda>i. ci_prefix (month_names ! i) mon) [0..<12] of [] \<Rightarrow> None | i # _ \<Rightarrow> Some i)"

definition not_modified_since :: "string \<Rightarrow> int \<Rightarrow> bool" where
  "not_modified_since header mtime =
     (if header = [] then False
      else let p = (case strchr header (CHR '','') of None \<Rightarrow> header | Some s \<Rightarrow> tl s)
           in case scan_date p of
                None \<Rightarrow> False
              | Some (day, mon, year, hour, minute, second) \<Rightarrow>
                  (case month_index mon of
                     None \<Rightarrow> False
                   | Some mon_idx \<Rightarrow>
                       if day < 1 \<or> day > 31 \<or> year < 1970 then False
                       else if hour > 23 \<or> minute > 59 \<or> second > 60 then False
                       else let year' = (if year < 100 then year + (if year < 50 then 2000 else 1900) else year);
                                vtime = timegm year' mon_idx day hour minute second
                            in if vtime = - 1 then False else mtime \<le> vtime))"

definition compute_etag :: "nat \<Rightarrow> nat \<Rightarrow> string" where
  "compute_etag sz mtime = ''W/'' @ [DQUOTE] @ nat_hex sz @ ''-'' @ nat_hex mtime @ [DQUOTE]"

definition etag_strip :: "string \<Rightarrow> string" where
  "etag_strip s = (if take 2 s = ''W/'' then drop 2 s else s)"

function etag_loop :: "string \<Rightarrow> string \<Rightarrow> bool" where
  "etag_loop p etag =
     (if p = [] then False
      else let q = dropWhile (\<lambda>c. c = CHR '' '' \<or> c = CHR '','') p;
               item = rtrim (\<lambda>c. c = CHR '' '' \<or> c = CR) (takeWhile (\<lambda>c. c \<noteq> CHR '','') q);
               rest = dropWhile (\<lambda>c. c \<noteq> CHR '','') q;
               item' = (if length item > 2 then etag_strip item else item)
           in if item' = etag_strip etag then True else etag_loop rest etag)"
  by pat_completeness auto
termination
proof (relation "measure (\<lambda>(p, e). length p)", simp, goal_cases)
  case (1 p etag q item rest item')
  show ?case
  proof (cases "q = []")
    case True
    then show ?thesis using 1(1,4) by simp
  next
    case False
    then show ?thesis using 1(1,2,4) dropWhile_shorter [of "\<lambda>c. c = CHR '' '' \<or> c = CHR '',''" p "\<lambda>c. c \<noteq> CHR '',''"] by simp
  qed
qed

declare etag_loop.simps [simp del]

definition etag_matches :: "string \<Rightarrow> string \<Rightarrow> bool" where
  "etag_matches header etag \<longleftrightarrow> header \<noteq> [] \<and> (header = ''*'' \<or> etag_loop header etag)"

section \<open>A date printed and read back\<close>

lemma year_down_le: "year_start (year_down d y) \<le> d"
proof (induction d y rule: year_down.induct)
  case (1 d y)
  then show ?case by (cases "d < year_start y") (simp_all add: year_down.simps [of d y])
qed

lemma year_up_bounds:
  "year_start y \<le> d \<Longrightarrow> year_start (year_up d y) \<le> d \<and> d < year_start (year_up d y + 1) \<and> y \<le> year_up d y"
proof (induction d y rule: year_up.induct)
  case (1 d y)
  then show ?case by (cases "year_start (y + 1) \<le> d") (auto simp: year_up.simps [of d y])
qed

lemma year_of_bounds: "year_start (year_of d) \<le> d" "d < year_start (year_of d + 1)"
  using year_up_bounds [OF year_down_le] by (simp_all add: year_of_def)

lemma year_of_ge: "0 \<le> d \<Longrightarrow> 1970 \<le> year_of d"
proof -
  assume "0 \<le> d"
  moreover have "year_start 1970 = 0" by (simp add: year_start_def)
  ultimately show ?thesis
    using year_up_bounds [of 1970 d] by (simp add: year_of_def year_down.simps [of d 1970])
qed

lemma month_of_inverse:
  "month_of ms n = (k, r) \<Longrightarrow> ms \<noteq> [] \<Longrightarrow> sum_list (take k ms) + r = n \<and> k < length ms"
proof (induction ms n arbitrary: k rule: month_of.induct)
  case (2 m ms n)
  show ?case
  proof (cases "n < m \<or> ms = []")
    case True
    then show ?thesis using 2(2) by simp
  next
    case False
    then obtain k' where "month_of ms (n - m) = (k', r)" "k = Suc k'" using 2(2) by (auto split: prod.splits)
    then show ?thesis using 2(1) [of k'] False by simp
  qed
qed simp

lemma month_of_range:
  "month_of ms n = (k, r) \<Longrightarrow> ms \<noteq> [] \<Longrightarrow> 0 \<le> n \<Longrightarrow> n < sum_list ms \<Longrightarrow> \<forall>m \<in> set ms. m \<le> 31 \<Longrightarrow> 0 \<le> r \<and> r < 31"
proof (induction ms n arbitrary: k rule: month_of.induct)
  case (2 m ms n)
  show ?case
  proof (cases "n < m \<or> ms = []")
    case True
    then show ?thesis using 2 by auto
  next
    case False
    then obtain k' where "month_of ms (n - m) = (k', r)" using 2(2) by (auto split: prod.splits)
    then show ?thesis using 2(1) [of k'] 2(4-6) False by simp
  qed
qed simp

lemma year_length: "sum_list (month_lengths (leap_year y)) = year_start (y + 1) - year_start y"
proof -
  have "400 dvd y \<Longrightarrow> 100 dvd y" "100 dvd y \<Longrightarrow> 4 dvd y" by (auto elim: dvd_trans [rotated])
  moreover have "leap_year y \<longleftrightarrow> 4 dvd y \<and> (\<not> 100 dvd y \<or> 400 dvd y)"
    by (simp add: leap_year_def dvd_eq_mod_eq_0)
  ultimately show ?thesis
    by (cases "400 dvd y"; cases "100 dvd y"; cases "4 dvd y") (simp_all add: month_lengths_def year_start_def div_pred)
qed

lemma day_seconds:
  fixes s :: int
  assumes "0 \<le> s" and "s < 86400"
  shows "s div 3600 * 3600 + s div 60 mod 60 * 60 + s mod 60 = s" and "0 \<le> s div 3600" and "s div 3600 \<le> 23"
proof -
  have "s div 3600 = s div 60 div 60" using zdiv_zmult2_eq [of 60 s 60] by simp
  then show "s div 3600 * 3600 + s div 60 mod 60 * 60 + s mod 60 = s"
    using div_mult_mod_eq [of "s div 60" 60] div_mult_mod_eq [of s 60] by linarith
  show "0 \<le> s div 3600" using assms(1) by (simp add: pos_imp_zdiv_nonneg_iff)
  have "s div 3600 \<le> 86399 div 3600" using assms(2) by (intro zdiv_mono1) simp_all
  then show "s div 3600 \<le> 23" by simp
qed

lemma gmtime_fields:
  assumes "0 \<le> t"
  shows "timegm (tm_year (gmtime t)) (tm_mon (gmtime t)) (tm_mday (gmtime t)) (tm_hour (gmtime t))
      (tm_min (gmtime t)) (tm_sec (gmtime t)) = t"
    and "1970 \<le> tm_year (gmtime t)" and "tm_mon (gmtime t) < 12"
    and "1 \<le> tm_mday (gmtime t)" and "tm_mday (gmtime t) \<le> 31"
    and "0 \<le> tm_hour (gmtime t)" and "tm_hour (gmtime t) \<le> 23"
    and "0 \<le> tm_min (gmtime t)" and "tm_min (gmtime t) \<le> 59"
    and "0 \<le> tm_sec (gmtime t)" and "tm_sec (gmtime t) \<le> 59" and "tm_wday (gmtime t) < 7"
proof -
  let ?d = "t div 86400" and ?s = "t mod 86400" and ?y = "year_of (t div 86400)"
  let ?ms = "month_lengths (leap_year ?y)"
  obtain m r where m: "month_of ?ms (?d - year_start ?y) = (m, r)" by force
  have ms: "?ms \<noteq> []" "length ?ms = 12" "\<forall>m \<in> set ?ms. m \<le> 31" by (simp_all add: month_lengths_def)
  have inv: "sum_list (take m ?ms) + r = ?d - year_start ?y" "m < 12"
    using month_of_inverse [OF m ms(1)] ms(2) by simp_all
  have rng: "0 \<le> r \<and> r < 31"
    using month_of_range [OF m ms(1) _ _ ms(3)] year_of_bounds [of ?d] year_length [of ?y] by simp
  have g: "gmtime t = \<lparr>tm_year = ?y, tm_mon = m, tm_mday = r + 1, tm_hour = ?s div 3600, tm_min = ?s div 60 mod 60,
      tm_sec = ?s mod 60, tm_wday = nat ((?d + 4) mod 7)\<rparr>" by (simp add: gmtime_def Let_def m)
  have "0 \<le> ?s" "?s < 86400" by simp_all
  note hms = day_seconds [OF this]
  have e: "year_start ?y + sum_list (take m ?ms) + (r + 1 - 1) = ?d" using inv(1) by simp
  show "timegm (tm_year (gmtime t)) (tm_mon (gmtime t)) (tm_mday (gmtime t)) (tm_hour (gmtime t))
      (tm_min (gmtime t)) (tm_sec (gmtime t)) = t"
    unfolding g timegm_def tm.select_convs e using hms(1) div_mult_mod_eq [of t 86400] by linarith
  show "1970 \<le> tm_year (gmtime t)" unfolding g using year_of_ge [of ?d] assms by (simp add: pos_imp_zdiv_nonneg_iff)
  show "tm_mon (gmtime t) < 12" "1 \<le> tm_mday (gmtime t)" "tm_mday (gmtime t) \<le> 31"
    unfolding g using inv(2) rng by simp_all
  show "0 \<le> tm_hour (gmtime t)" "tm_hour (gmtime t) \<le> 23" unfolding g using hms(2,3) by simp_all
  show "0 \<le> tm_min (gmtime t)" "tm_min (gmtime t) \<le> 59" "0 \<le> tm_sec (gmtime t)" "tm_sec (gmtime t) \<le> 59"
    unfolding g by simp_all
  show "tm_wday (gmtime t) < 7" unfolding g by (simp add: nat_less_iff)
qed

lemma scan_int_digits:
  assumes "list_all isdigit ds" and "ds \<noteq> []" and "r = [] \<or> \<not> isdigit (hd r)" and "dec_value ds < 2 ^ 31"
    and "list_all isspace b"
  shows "scan_int (b @ ds @ r) = Some (int (dec_value ds), r)"
proof -
  obtain c s where c: "ds = c # s" using assms(2) by (cases ds) auto
  have p: "\<not> isspace c" "c \<noteq> CHR ''-''" "c \<noteq> CHR ''+''" using isdigit_plain assms(1) c by auto
  have "dropWhile isspace (b @ ds @ r) = ds @ r"
    using assms(5) c p(1) by (simp add: list_all_iff dropWhile_append2)
  moreover have "takeWhile isdigit (ds @ r) = ds" "dropWhile isdigit (ds @ r) = r"
    using takeWhile_digits [OF assms(1,3)] by simp_all
  moreover have "LONG_MIN \<le> int (dec_value ds)" "int (dec_value ds) \<le> LONG_MAX"
    using assms(4) by (simp_all add: LONG_MIN_def LONG_MAX_def)
  ultimately have "strtol10 (b @ ds @ r) = (int (dec_value ds), r)" using c p by (simp add: strtol10_def Let_def)
  moreover have "r \<noteq> b @ ds @ r" using c by auto
  moreover have "wrap32 (int (dec_value ds)) = int (dec_value ds)" using assms(4) by (intro wrap32_id) simp_all
  ultimately show ?thesis by (simp add: scan_int_def)
qed

lemma dec2_digits:
  assumes "0 \<le> n"
  shows "list_all isdigit (dec2 n) \<and> dec2 n \<noteq> [] \<and> dec_value (dec2 n) = nat n"
proof -
  have "dec_value (CHR ''0'' # ds) = dec_value ds" for ds by (simp add: dec_value_def)
  moreover have "isdigit CHR ''0''" by (simp add: isdigit_def)
  ultimately show ?thesis using nat_dec_value [of "nat n"] assms by (simp add: dec2_def int_dec_def)
qed

lemma scan_dec2:
  assumes "0 \<le> n" and "n < 2 ^ 31" and "r = [] \<or> \<not> isdigit (hd r)" and "list_all isspace b"
  shows "scan_int (b @ dec2 n @ r) = Some (n, r)"
  using scan_int_digits [of "dec2 n" r b] dec2_digits [OF assms(1)] assms by (simp add: nat_less_iff)

lemma scan_int_dec:
  assumes "0 \<le> n" and "n < 2 ^ 31" and "r = [] \<or> \<not> isdigit (hd r)" and "list_all isspace b"
  shows "scan_int (b @ int_dec n @ r) = Some (n, r)"
  using scan_int_digits [of "int_dec n" r b] nat_dec_value [of "nat n"] assms by (simp add: int_dec_def nat_less_iff)

lemma filter_eq_single: "i < n \<Longrightarrow> filter (\<lambda>j. j = i) [0..<n] = [i]"
proof (induction n)
  case (Suc n)
  then show ?case by (cases "i < n") (auto simp: filter_empty_conv)
qed simp

lemma month_names_ok:
  assumes "i < 12"
  shows "list_all isalpha (month_names ! i) \<and> length (month_names ! i) = 3 \<and> month_index (month_names ! i) = Some i"
proof -
  have len: "length month_names = 12" by (simp add: month_names_def)
  have "list_all (\<lambda>m. list_all isalpha m \<and> length m = 3) month_names" by code_simp
  then have ok: "list_all isalpha (month_names ! j) \<and> length (month_names ! j) = 3" if "j < 12" for j
    using that len by (simp add: list_all_length)
  have "distinct (map (map tolower) month_names)" by code_simp
  then have "ci_prefix (month_names ! j) (month_names ! i) \<longleftrightarrow> j = i" if "j < 12" for j
    using that assms len ok [OF that] ok [OF assms] nth_eq_iff_index_eq [of "map (map tolower) month_names" j i]
    by (auto simp: ci_prefix_def)
  then have "filter (\<lambda>j. ci_prefix (month_names ! j) (month_names ! i)) [0..<12] = filter (\<lambda>j. j = i) [0..<12]"
    by (intro filter_cong) auto
  also have "\<dots> = [i]" using assms by (simp add: filter_eq_single)
  finally show ?thesis using ok [OF assms] by (simp add: month_index_def)
qed

lemma day_names_ok: "i < 7 \<Longrightarrow> CHR '','' \<notin> set (day_names ! i)"
proof -
  have "list_all (\<lambda>i. CHR '','' \<notin> set (day_names ! i)) [0..<7]" by code_simp
  then show "i < 7 \<Longrightarrow> ?thesis" by (auto simp: list_all_iff)
qed

lemma scan_month:
  assumes "i < 12"
  shows "scan_alpha15 (CHR '' '' # month_names ! i @ CHR '' '' # r) = Some (month_names ! i, CHR '' '' # r)"
proof -
  let ?m = "month_names ! i"
  have m: "list_all isalpha ?m" "length ?m = 3" using month_names_ok [OF assms] by simp_all
  then obtain c s where c: "?m = c # s" by (cases ?m) auto
  have "\<not> isspace c" using m(1) c by (auto simp: isalpha_def isspace_def)
  moreover have "isspace CHR '' ''" by (simp add: isspace_def)
  ultimately have "dropWhile isspace (CHR '' '' # ?m @ CHR '' '' # r) = ?m @ CHR '' '' # r" using c by simp
  moreover have "takeWhile isalpha (?m @ CHR '' '' # r) = ?m"
    using takeWhile_digits [OF m(1), of "CHR '' '' # r"] by (simp add: isalpha_def)
  ultimately show ?thesis using m(2) c by (simp add: scan_alpha15_def)
qed

lemma scan_http_date:
  assumes "0 \<le> t" and "tm_year (gmtime t) < 2 ^ 31"
  shows "scan_date (CHR '' '' # dec2 (tm_mday (gmtime t)) @ '' '' @ month_names ! tm_mon (gmtime t) @ '' '' @
      int_dec (tm_year (gmtime t)) @ '' '' @ dec2 (tm_hour (gmtime t)) @ '':'' @ dec2 (tm_min (gmtime t)) @ '':'' @
      dec2 (tm_sec (gmtime t)) @ '' GMT'') =
    Some (tm_mday (gmtime t), month_names ! tm_mon (gmtime t), tm_year (gmtime t), tm_hour (gmtime t),
      tm_min (gmtime t), tm_sec (gmtime t))"
proof -
  note f = gmtime_fields [OF assms(1)]
  have sp: "list_all isspace '' ''" "list_all isspace []" by (simp_all add: isspace_def)
  have nd: "\<not> isdigit CHR '' ''" "\<not> isdigit CHR '':''" by (simp_all add: isdigit_def)
  show ?thesis
    using scan_dec2 [of "tm_mday (gmtime t)" _ "'' ''"] scan_month [OF f(3)]
      scan_int_dec [of "tm_year (gmtime t)" _ "'' ''"] scan_dec2 [of "tm_hour (gmtime t)" _ "'' ''"]
      scan_dec2 [of "tm_min (gmtime t)" _ "[]"] scan_dec2 [of "tm_sec (gmtime t)" _ "[]"] f sp nd assms(2)
    by (simp add: scan_date_def scan_colon_int_def)
qed

section \<open>Properties\<close>

text \<open>
  Last-Modified works as a validator.  When a client sends back the date the server printed for
  a modification time \<open>t\<close>, the conditional request is answered "not modified" exactly when the file's
  modification time is not after \<open>t\<close>, to the second.
\<close>

theorem last_modified_roundtrip:
  assumes "0 \<le> t" and "tm_year (gmtime t) < 2 ^ 31"
  shows "not_modified_since (format_http_date t) mtime \<longleftrightarrow> mtime \<le> t"
proof -
  let ?g = "gmtime t"
  note f = gmtime_fields [OF assms(1)]
  let ?rest = "CHR '' '' # dec2 (tm_mday ?g) @ '' '' @ month_names ! tm_mon ?g @ '' '' @ int_dec (tm_year ?g) @
      '' '' @ dec2 (tm_hour ?g) @ '':'' @ dec2 (tm_min ?g) @ '':'' @ dec2 (tm_sec ?g) @ '' GMT''"
  have fmt: "format_http_date t = day_names ! tm_wday ?g @ CHR '','' # ?rest"
    by (simp add: format_http_date_def Let_def)
  have "strchr (format_http_date t) (CHR '','') = Some (CHR '','' # ?rest)"
    unfolding fmt strchr_def using day_names_ok [OF f(12)] by (subst dropWhile_append2) auto
  then have "not_modified_since (format_http_date t) mtime = (if t = - 1 then False else mtime \<le> t)"
    unfolding not_modified_since_def Let_def
    using scan_http_date [OF assms] month_names_ok [OF f(3)] f by (simp add: fmt)
  then show ?thesis using assms(1) by simp
qed

lemma demo_year: "tm_year (gmtime 100000) = 1970"
  by code_simp

theorem last_modified_roundtrip_witness:
  "not_modified_since (format_http_date 100000) 100000 \<and> \<not> not_modified_since (format_http_date 100000) 100001"
  using last_modified_roundtrip [of 100000 100000] last_modified_roundtrip [of 100000 100001]
  by (simp add: demo_year)

end
