(* ===== verification/Http_Resp.thy ===== *)
theory Http_Resp
  imports Http_Date
begin

text \<open>
  \<open>src/src/http/http_resp.c\<close>: serialising a response and the error pages; with it the file access of
  \<open>read_file_into_response\<close> (\<open>static.c\<close>).  The file system is the record \<open>fs\<close>: what \<open>stat\<close>,
  \<open>fopen\<close>/\<open>fread\<close>, \<open>realpath\<close> and \<open>readdir\<close> see.
\<close>

record stat_rec =
  st_isdir :: bool
  st_isreg :: bool
  st_rusr :: bool
  st_size :: nat
  st_mtime :: nat

record fs =
  fs_stat :: "string \<Rightarrow> stat_rec option"
  fs_read :: "string \<Rightarrow> string option"
  fs_realpath :: "string \<Rightarrow> string option"
  fs_readdir :: "string \<Rightarrow> string list option"

definition SERVER_VERSION :: string where "SERVER_VERSION = ''AgentHTTPD''"
definition WEB_ROOT :: string where "WEB_ROOT = ''./www''"

definition read_file_into_response :: "fs \<Rightarrow> string \<Rightarrow> HttpResponse \<Rightarrow> HttpResponse" where
  "read_file_into_response fs path r =
     (case fs_stat fs path of
        None \<Rightarrow> r\<lparr>rs_body := None, rs_body_length := 0\<rparr>
      | Some st \<Rightarrow>
          if \<not> st_isreg st then r\<lparr>rs_body := None, rs_body_length := 0\<rparr>
          else (case fs_read fs path of
                  None \<Rightarrow> r\<lparr>rs_body := None, rs_body_length := 0\<rparr>
                | Some content \<Rightarrow>
                    let b = take (st_size st) content
                    in r\<lparr>rs_body := Some b, rs_body_length := wrap32 (int (length b))\<rparr>))"

definition copy_status_text :: "HttpResponse \<Rightarrow> string \<Rightarrow> HttpResponse" where
  "copy_status_text r src = r\<lparr>rs_status_text := take 63 src\<rparr>"

definition error_page :: "int \<Rightarrow> string \<Rightarrow> string" where
  "error_page code' text' =
     take (MAX_REQUEST_SIZE - 1)
       (''<!DOCTYPE html>'' @ [LF] @ ''<html>'' @ [LF] @ ''<head><title>'' @ int_dec code' @ '' '' @ text' @
        ''</title></head>'' @ [LF] @ ''<body>'' @ [LF] @ ''<h1>'' @ int_dec code' @ '' '' @ text' @ ''</h1>'' @ [LF] @
        ''<p>'' @ text' @ ''</p>'' @ [LF] @ ''<hr>'' @ [LF] @ ''<p>'' @ SERVER_VERSION @ ''</p>'' @ [LF] @
        ''</body>'' @ [LF] @ ''</html>'' @ [LF])"

definition set_error_response :: "fs \<Rightarrow> HttpResponse \<Rightarrow> int \<Rightarrow> string \<Rightarrow> HttpResponse" where
  "set_error_response fs r status_code status_text =
     (let page_path = take (MAX_PATH_SIZE - 1) (WEB_ROOT @ ''/error/'' @ int_dec status_code @ ''.html'');
          r1 = (copy_status_text (r\<lparr>rs_status_code := status_code\<rparr>) status_text)\<lparr>rs_content_type := ''text/html''\<rparr>;
          r2 = read_file_into_response fs page_path r1
      in if rs_body r2 \<noteq> None then r2
         else let page = error_page status_code status_text
              in r2\<lparr>rs_body := Some page, rs_body_length := int (length page)\<rparr>)"

definition purge_client_cache :: "string option \<Rightarrow> bool" where
  "purge_client_cache v = (case v of None \<Rightarrow> False | Some s \<Rightarrow> s \<noteq> [] \<and> s \<noteq> ''0'')"

text \<open>Does a line of the verbatim header block carry \<open>name\<close>?\<close>

definition header_line_named :: "string \<Rightarrow> string \<Rightarrow> bool" where
  "header_line_named name line \<longleftrightarrow>
     length line > length name \<and> ci_prefix name line \<and>
     (case dropWhile (\<lambda>c. c = CHR '' '' \<or> c = TAB) (drop (length name) line) of [] \<Rightarrow> False | c # _ \<Rightarrow> c = CHR '':'')"

definition has_extra_header :: "string \<Rightarrow> string \<Rightarrow> bool" where
  "has_extra_header extra name \<longleftrightarrow> extra \<noteq> [] \<and> list_ex (header_line_named name) (split_on LF extra)"

record resp_env =
  re_now :: int
  re_purge :: "string option"
  re_csp :: string
  re_csp_img :: "string option"

text \<open>The \<open>Date\<close> text in its array of 40 bytes.\<close>

definition date_str :: "int \<Rightarrow> string" where
  "date_str now = (let s = format_http_date now in if length s < 40 then s else [])"

definition squoted :: "string \<Rightarrow> string" where
  "squoted s = CHR 0x27 # s @ [CHR 0x27]"

definition csp_line :: "resp_env \<Rightarrow> string" where
  "csp_line env =
     (if re_csp env \<noteq> [] then ''Content-Security-Policy: '' @ re_csp env
      else let img = (case re_csp_img env of
                        None \<Rightarrow> []
                      | Some e \<Rightarrow> if e \<noteq> [] \<and> CR \<notin> set e \<and> LF \<notin> set e then '' '' @ e else []);
               self = squoted ''self''
           in ''Content-Security-Policy: default-src '' @ self @ ''; script-src '' @ self @ ''; style-src '' @ self @ '' '' @
              squoted ''unsafe-inline'' @ ''; img-src '' @ self @ '' data:'' @ img @ ''; font-src '' @ self @
              ''; connect-src '' @ self @ ''; frame-ancestors '' @ squoted ''none'' @ ''; base-uri '' @ self @
              ''; form-action '' @ self @ ''; object-src '' @ squoted ''none'')"

text \<open>The head, in the order \<open>build_response\<close> emits it: each line with the condition it is emitted under.\<close>

definition head_lines :: "resp_env \<Rightarrow> HttpResponse \<Rightarrow> (bool \<times> string) list" where
  "head_lines env r =
     [(True, (''HTTP/1.1 '' @ int_dec (rs_status_code r) @ '' '' @ rs_status_text r)),
      (True, (''Date: '' @ date_str (re_now env))),
      (rs_status_code r \<noteq> 304, (''Content-Type: '' @ (if rs_content_type r \<noteq> [] then rs_content_type r else ''text/html''))),
      (rs_status_code r \<noteq> 304, (''Content-Length: '' @ int_dec (rs_body_length r))),
      (rs_content_encoding r \<noteq> [], (''Content-Encoding: '' @ rs_content_encoding r)),
      (rs_cache_control r \<noteq> [], (''Cache-Control: '' @ rs_cache_control r)),
      (purge_client_cache (re_purge env) \<and> take 9 (rs_content_type r) = ''text/html'', (''Clear-Site-Data: '' @ [DQUOTE] @ ''cache'' @ [DQUOTE])),
      (rs_location r \<noteq> [], (''Location: '' @ rs_location r)),
      (rs_set_cookie r \<noteq> [], (''Set-Cookie: '' @ rs_set_cookie r)),
      (rs_status_code r = 401 \<and> rs_auth_realm r \<noteq> None, (''WWW-Authenticate: Basic realm='' @ [DQUOTE] @ (case rs_auth_realm r of None \<Rightarrow> [] | Some x \<Rightarrow> x) @ [DQUOTE] @
        '', charset='' @ [DQUOTE] @ ''UTF-8'' @ [DQUOTE])),
      (rs_auth_login_hint r \<noteq> [], (''X-Auth-Login: '' @ rs_auth_login_hint r)),
      (rs_status_code r = 429 \<and> rs_retry_after r > 0, (''Retry-After: '' @ int_dec (rs_retry_after r))),
      (rs_allow r \<noteq> [], (''Allow: '' @ rs_allow r))]"

definition tail_lines :: "resp_env \<Rightarrow> HttpResponse \<Rightarrow> bool \<Rightarrow> (bool \<times> string) list" where
  "tail_lines env r keep_alive =
     [(rs_etag r \<noteq> [], (''ETag: '' @ rs_etag r)),
      (rs_etag r \<noteq> [], ''Vary: Accept-Encoding''),
      (rs_status_code r = 206 \<or> rs_etag r \<noteq> [] \<and> rs_status_code r \<noteq> 304, ''Accept-Ranges: bytes''),
      (rs_content_range r \<noteq> [] \<and> (rs_status_code r = 206 \<or> rs_status_code r = 416), (''Content-Range: '' @ rs_content_range r)),
      (rs_last_modified r \<noteq> [], (''Last-Modified: '' @ rs_last_modified r)),
      (True, ''Server: AgentHTTPD''),
      (\<not> has_extra_header (rs_extra_headers r) ''X-Content-Type-Options'', ''X-Content-Type-Options: nosniff''),
      (\<not> has_extra_header (rs_extra_headers r) ''X-Frame-Options'', ''X-Frame-Options: DENY''),
      (\<not> has_extra_header (rs_extra_headers r) ''Referrer-Policy'', ''Referrer-Policy: strict-origin-when-cross-origin''),
      (\<not> has_extra_header (rs_extra_headers r) ''Content-Security-Policy'', (csp_line env)),
      (True, ''Cross-Origin-Opener-Policy: same-origin''),
      (True, ''Cross-Origin-Resource-Policy: same-origin''),
      (True, ''X-Permitted-Cross-Domain-Policies: none''),
      (True, (if keep_alive then ''Connection: keep-alive'' else ''Connection: close''))]"

definition emit_lines :: "(bool \<times> string) list \<Rightarrow> string" where
  "emit_lines ls = concat (map (\<lambda>(c, s). if c then s @ crlf else []) ls)"

definition response_head :: "resp_env \<Rightarrow> HttpResponse \<Rightarrow> bool \<Rightarrow> string" where
  "response_head env r keep_alive =
     emit_lines (head_lines env r) @ rs_extra_headers r @ emit_lines (tail_lines env r keep_alive) @ crlf"

text \<open>
  \<open>build_response\<close>: the bytes in the buffer and the number of body bytes among them; \<open>None\<close> when
  the sum of the \<open>snprintf\<close> results takes the cursor past the buffer, or when the copy reads behind
  the NUL of the body.
\<close>

definition build_response :: "resp_env \<Rightarrow> HttpResponse \<Rightarrow> bool \<Rightarrow> bool \<Rightarrow> (string \<times> int) option" where
  "build_response env r head_only keep_alive =
     (let head = response_head env r keep_alive; room = MAX_RESPONSE_SIZE - 1 - length head
      in if length head > MAX_RESPONSE_SIZE - 1 then None
         else case rs_body r of
                Some body \<Rightarrow>
                  if \<not> head_only \<and> rs_body_length r > 0 then
                    let to_copy = min (nat (rs_body_length r)) room
                    in if to_copy > length body + 1 then None
                       else Some (head @ take to_copy (body @ [NUL]), int to_copy)
                  else Some (head, 0)
              | None \<Rightarrow> Some (head, 0))"

section \<open>The buffer is large enough\<close>

definition response_wf :: "HttpResponse \<Rightarrow> bool" where
  "response_wf r \<longleftrightarrow>
     length (rs_status_text r) < 64 \<and> length (rs_content_type r) < 128 \<and> length (rs_content_encoding r) < 64 \<and>
     length (rs_location r) < 512 \<and> length (rs_auth_login_hint r) < 32 \<and> length (rs_set_cookie r) < 256 \<and>
     length (rs_etag r) < 80 \<and> length (rs_last_modified r) < 40 \<and> length (rs_cache_control r) < 64 \<and>
     length (rs_content_range r) < 80 \<and> length (rs_allow r) < 96 \<and>
     length (rs_extra_headers r) < HTTP_EXTRA_RESP_HEADERS_MAX \<and>
     (case rs_auth_realm r of None \<Rightarrow> True | Some s \<Rightarrow> length s < 128) \<and>
     - (2 ^ 31) \<le> rs_status_code r \<and> rs_status_code r < 2 ^ 31 \<and>
     - (2 ^ 31) \<le> rs_body_length r \<and> rs_body_length r < 2 ^ 31 \<and>
     - (2 ^ 31) \<le> rs_retry_after r \<and> rs_retry_after r < 2 ^ 31"

lemma length_emit_lines: "length (emit_lines ls) \<le> sum_list (map (\<lambda>p. length (snd p) + 2) ls)"
  by (induction ls) (auto simp: emit_lines_def)

lemma length_int_dec32: "- (2 ^ 31) \<le> n \<Longrightarrow> n < 2 ^ 31 \<Longrightarrow> length (int_dec n) \<le> 11"
proof -
  assume "- (2 ^ 31) \<le> n" "n < 2 ^ 31"
  then have "nat \<bar>n\<bar> < 10 ^ Suc 9" by auto
  from length_nat_dec [OF this] show ?thesis by (auto simp: int_dec_def split: if_splits)
qed

lemma length_csp_line:
  "length (re_csp env) < 256 \<Longrightarrow> (case re_csp_img env of None \<Rightarrow> 0 | Some e \<Rightarrow> length e) \<le> n \<Longrightarrow>
   length (csp_line env) \<le> 500 + n"
  by (auto simp: csp_line_def Let_def squoted_def split: option.splits)

lemma length_response_head:
  assumes "response_wf r" and "length (re_csp env) < 256" and "(case re_csp_img env of None \<Rightarrow> 0 | Some e \<Rightarrow> length e) \<le> n"
  shows "length (response_head env r keep_alive) \<le> 4096 + n"
proof -
  have d: "length (date_str (re_now env)) \<le> 40" by (simp add: date_str_def Let_def)
  have i: "length (int_dec (rs_status_code r)) \<le> 11" "length (int_dec (rs_body_length r)) \<le> 11"
    "length (int_dec (rs_retry_after r)) \<le> 11"
    using assms(1) by (auto simp: response_wf_def intro!: length_int_dec32)
  have realm: "length (case rs_auth_realm r of None \<Rightarrow> [] | Some x \<Rightarrow> x) < 128"
    using assms(1) by (auto simp: response_wf_def split: option.splits)
  have f: "length (rs_status_text r) < 64" "length (rs_content_type r) < 128" "length (rs_content_encoding r) < 64"
    "length (rs_location r) < 512" "length (rs_auth_login_hint r) < 32" "length (rs_set_cookie r) < 256"
    "length (rs_etag r) < 80" "length (rs_last_modified r) < 40" "length (rs_cache_control r) < 64"
    "length (rs_content_range r) < 80" "length (rs_allow r) < 96" "length (rs_extra_headers r) < 1024"
    using assms(1) by (simp_all add: response_wf_def HTTP_EXTRA_RESP_HEADERS_MAX_def)
  have "sum_list (map (\<lambda>p. length (snd p) + 2) (head_lines env r)) \<le> 1900"
    using d i realm f by (cases "rs_content_type r = []") (simp_all add: head_lines_def)
  note h = order_trans [OF length_emit_lines this]
  have "sum_list (map (\<lambda>p. length (snd p) + 2) (tail_lines env r keep_alive)) \<le> 1100 + n"
    using f length_csp_line [OF assms(2,3)] by (cases keep_alive) (simp_all add: tail_lines_def)
  note t = order_trans [OF length_emit_lines this]
  show ?thesis using h t f(12) by (simp add: response_head_def)
qed

section \<open>Properties\<close>

text \<open>
  (C15) A response always fits its buffer, whatever the length of its body.  For a response whose fields fit their arrays and
  whose body length is that of its body, with any Content-Security-Policy below 256 bytes and up to
  100000 bytes of configured image origins, the serialised response is the head followed by as many bytes of
  the body as the buffer has room for (none for a HEAD request), and it stays below the size of the buffer; the
  byte count returned is that of the body bytes written; and a body of up to 150000 bytes is written completely, so
  that the bytes on the wire match the Content-Length announced.
\<close>

theorem build_response_complete:
  assumes "response_wf r" and "length (re_csp env) < 256"
    and "(case re_csp_img env of None \<Rightarrow> 0 | Some e \<Rightarrow> length e) \<le> 100000"
    and "rs_body r = Some body" and "rs_body_length r = int (length body)"
  shows "\<exists>head n. head = response_head env r keep_alive \<and>
    n = (if head_only then 0 else min (length body) (MAX_RESPONSE_SIZE - 1 - length head)) \<and>
    build_response env r head_only keep_alive = Some (head @ take n body, int n) \<and>
    length (head @ take n body) < MAX_RESPONSE_SIZE \<and>
    (\<not> head_only \<and> length body \<le> 150000 \<longrightarrow> take n body = body)"
proof -
  define head where "head = response_head env r keep_alive"
  define n where "n = (if head_only then 0 else min (length body) (MAX_RESPONSE_SIZE - 1 - length head))"
  have h: "length head \<le> 104096"
    using length_response_head [OF assms(1-3), of keep_alive] by (simp add: head_def)
  have "length (head @ take n body) < MAX_RESPONSE_SIZE" using h by (auto simp: n_def MAX_RESPONSE_SIZE_def min_def)
  moreover have "\<not> head_only \<and> length body \<le> 150000 \<longrightarrow> take n body = body" using h by (auto simp: n_def MAX_RESPONSE_SIZE_def)
  moreover have "build_response env r head_only keep_alive = Some (head @ take n body, int n)"
  proof (cases "head_only \<or> body = []")
    case True
    then show ?thesis using h assms(4,5) by (auto simp: build_response_def Let_def n_def MAX_RESPONSE_SIZE_def simp flip: head_def)
  next
    case False
    then have k: "n = min (nat (rs_body_length r)) (MAX_RESPONSE_SIZE - 1 - length head)" "n \<le> length body" "\<not> head_only"
      "rs_body_length r > 0" using assms(5) by (simp_all add: n_def)
    have "take n (body @ [NUL]) = take n body" using k(2) by simp
    moreover have "\<not> length head > MAX_RESPONSE_SIZE - 1" using h by (simp add: MAX_RESPONSE_SIZE_def)
    ultimately show ?thesis
      using k assms(4) unfolding build_response_def Let_def head_def [symmetric] k(1) [symmetric]
      by (simp only: option.case if_False if_True simp_thms) simp
  qed
  ultimately show ?thesis using head_def n_def by blast
qed

definition demo_response :: HttpResponse where
  "demo_response = zero_response\<lparr>rs_status_code := 200, rs_status_text := ''OK'', rs_body := Some ''hi'', rs_body_length := 2\<rparr>"

definition demo_resp_env :: resp_env where
  "demo_resp_env = \<lparr>re_now = 100000, re_purge = None, re_csp = [], re_csp_img = None\<rparr>"

theorem build_response_complete_witness:
  "\<exists>head n. build_response demo_resp_env (demo_response\<lparr>rs_body := Some (replicate 300000 CHR ''x''), rs_body_length := 300000\<rparr>) False True =
     Some (head @ take n (replicate 300000 CHR ''x''), int n) \<and> length (head @ take n (replicate 300000 CHR ''x'')) < MAX_RESPONSE_SIZE"
proof -
  let ?r = "demo_response\<lparr>rs_body := Some (replicate 300000 CHR ''x''), rs_body_length := 300000\<rparr>"
  have wf: "response_wf ?r"
    by (simp add: response_wf_def demo_response_def zero_response_def HTTP_EXTRA_RESP_HEADERS_MAX_def)
  have "length (re_csp demo_resp_env) < 256" "(case re_csp_img demo_resp_env of None \<Rightarrow> 0 | Some e \<Rightarrow> length e) \<le> 100000"
    "rs_body ?r = Some (replicate 300000 CHR ''x'')" "rs_body_length ?r = int (length (replicate 300000 CHR ''x''))"
    by (simp_all add: demo_resp_env_def)
  from build_response_complete [OF wf this, of True False] show ?thesis by blast
qed

end
