(* ===== verification/Static_Files.thy ===== *)
theory Static_Files
  imports Http_Resp
begin

text \<open>
  \<open>src/src/http/static.c\<close>: static files.  Resolution inside a root, directory listings, gzip
  negotiation, conditional and range requests.  The local time text of a listing row is the argument
  \<open>sf_ltime\<close>; \<open>sf_junk\<close> is what the uninitialised \<open>struct stat\<close> of a listing row holds when \<open>stat\<close>
  fails, and \<open>sf_stack\<close> what follows the first byte of the uninitialised \<open>decoded_path\<close> (an empty
  path gets its NUL overwritten with a slash).
  A handler's result is \<open>None\<close> when \<open>html_escape\<close> runs past its buffer.
\<close>

definition MAX_MEM_BODY_SIZE :: nat where "MAX_MEM_BODY_SIZE = 60000"
definition MAX_LISTING_SIZE :: nat where "MAX_LISTING_SIZE = 65536"
definition STATIC_CACHE_CONTROL :: string where "STATIC_CACHE_CONTROL = ''no-cache''"

record static_cfg =
  sf_root :: string
  sf_views :: string
  sf_no_listing :: bool
  sf_spa :: bool
  sf_ltime :: "nat \<Rightarrow> string"
  sf_junk :: stat_rec
  sf_stack :: string

definition is_cgi_request :: "string \<Rightarrow> bool" where
  "is_cgi_request path \<longleftrightarrow>
     starts_with ''/cgi-bin'' path \<and> (case drop 8 path of [] \<Rightarrow> True | c # _ \<Rightarrow> c = CHR ''/'')"

definition cut_query :: "string \<Rightarrow> string" where
  "cut_query path = takeWhile (\<lambda>c. c \<noteq> CHR ''?'') (take (MAX_PATH_SIZE - 1) path)"

definition resolve_within :: "fs \<Rightarrow> string \<Rightarrow> string \<Rightarrow> nat \<Rightarrow> string option" where
  "resolve_within fs base_real decoded_path out_size =
     (let full = take (MAX_PATH_SIZE - 1) (base_real @ cut_query decoded_path)
      in case fs_realpath fs full of
           None \<Rightarrow> None
         | Some rp \<Rightarrow>
             if take (length base_real) rp \<noteq> base_real then None
             else (case drop (length base_real) rp of
                     [] \<Rightarrow> Some (take (out_size - 1) rp)
                   | c # _ \<Rightarrow> if c \<noteq> CHR ''/'' then None else Some (take (out_size - 1) rp)))"

section \<open>Listings\<close>

text \<open>LIST_APPEND: the text so far and whether the cursor has been put behind the end.\<close>

definition list_append :: "string \<times> bool \<Rightarrow> string \<Rightarrow> string \<times> bool" where
  "list_append st s =
     (case st of (out, over) \<Rightarrow>
        if over then (out, over)
        else if length (out @ s) \<le> MAX_LISTING_SIZE - 1 then (out @ s, False)
        else (take (MAX_LISTING_SIZE - 1) (out @ s), True))"

definition escape_path :: "string \<Rightarrow> string option" where
  "escape_path s = (case html_escape s MAX_PATH_SIZE of Escaped t \<Rightarrow> Some t | Overrun _ \<Rightarrow> None)"

definition listing_row :: "static_cfg \<Rightarrow> fs \<Rightarrow> string \<Rightarrow> string \<Rightarrow> string \<Rightarrow> string" where
  "listing_row cfg fs real_path d_name escaped_name =
     (let entry_path = take (MAX_PATH_SIZE - 1) (real_path @ ''/'' @ d_name);
          sto = fs_stat fs entry_path;
          st = (case sto of None \<Rightarrow> sf_junk cfg | Some s \<Rightarrow> s);
          is_dir = (case sto of None \<Rightarrow> False | Some s \<Rightarrow> st_isdir s);
          time_str = (if is_dir then ''-'' else take 31 (sf_ltime cfg (st_mtime st)));
          size_str = (if is_dir then ''-'' else nat_dec (st_size st))
      in ''<tr><td><a href='' @ [DQUOTE] @ escaped_name @ (if is_dir then ''/'' else []) @ [DQUOTE] @ ''>'' @
         escaped_name @ ''</a></td><td>'' @ time_str @ ''</td><td>'' @ size_str @ ''</td></tr>'' @ [LF])"

fun listing_rows :: "static_cfg \<Rightarrow> fs \<Rightarrow> string \<Rightarrow> string list \<Rightarrow> string \<times> bool \<Rightarrow> (string \<times> bool) option" where
  "listing_rows cfg fs real_path [] st = Some st"
| "listing_rows cfg fs real_path (d # ds) st =
     (if snd st then Some st
      else if d \<noteq> [] \<and> hd d = CHR ''.'' then listing_rows cfg fs real_path ds st
      else case escape_path d of
             None \<Rightarrow> None
           | Some e \<Rightarrow> listing_rows cfg fs real_path ds (list_append st (listing_row cfg fs real_path d e)))"

definition handle_directory ::
  "static_cfg \<Rightarrow> fs \<Rightarrow> string \<Rightarrow> string \<Rightarrow> HttpResponse \<Rightarrow> (int \<times> HttpResponse) option" where
  "handle_directory cfg fs real_path request_path r =
     (case fs_readdir fs real_path of
        None \<Rightarrow> Some (- 1, r\<lparr>rs_status_code := 403, rs_status_text := ''Forbidden''\<rparr>)
      | Some names \<Rightarrow>
          (case escape_path request_path of
             None \<Rightarrow> None
           | Some ep \<Rightarrow>
               let s0 = list_append ([], False)
                     (''<!DOCTYPE html>'' @ [LF] @ ''<html>'' @ [LF] @ ''<head><title>Index of '' @ ep @ ''</title></head>'' @ [LF] @
                      ''<body>'' @ [LF] @ ''<h1>Index of '' @ ep @ ''</h1>'' @ [LF] @ ''<hr>'' @ [LF] @ ''<table>'' @ [LF] @
                      ''<tr><th align='' @ [DQUOTE] @ ''left'' @ [DQUOTE] @ ''>Name</th><th>Last modified</th><th>Size</th></tr>'' @ [LF]);
                   s1 = list_append s0
                     (''<tr><td><a href='' @ [DQUOTE] @ ''../'' @ [DQUOTE] @ ''>Parent Directory</a></td><td>-</td><td>-</td></tr>'' @ [LF])
               in (case listing_rows cfg fs real_path names s1 of
                     None \<Rightarrow> None
                   | Some s2 \<Rightarrow>
                       let s3 = list_append s2
                             (''</table>'' @ [LF] @ ''<hr>'' @ [LF] @ ''<p>'' @ SERVER_VERSION @ ''</p>'' @ [LF] @ ''</body>'' @ [LF] @ ''</html>'' @ [LF])
                       in Some (0, r\<lparr>rs_status_code := 200, rs_status_text := ''OK'', rs_content_type := ''text/html'',
                                     rs_body := Some (fst s3), rs_body_length := int (length (fst s3))\<rparr>))))"

section \<open>Ranges and encodings\<close>

text \<open>\<open>parse_range\<close>: 1 with start and length, 0 to ignore the header, -1 for unsatisfiable.\<close>

definition parse_range :: "string \<Rightarrow> int \<Rightarrow> int \<times> int \<times> int" where
  "parse_range header sz =
     (if \<not> starts_with ''bytes='' header then (0, 0, 0)
      else let spec = drop 6 header
           in if CHR '','' \<in> set spec then (0, 0, 0)
              else if spec \<noteq> [] \<and> hd spec = CHR ''-'' then
                (case strtol10 (tl spec) of
                   (n, e) \<Rightarrow>
                     if e = tl spec \<or> e \<noteq> [] \<or> n \<le> 0 then (0, 0, 0)
                     else let n' = min n sz in (if n' > 0 then 1 else 0, sz - n', n'))
              else
                (case strchr spec (CHR ''-'') of
                   None \<Rightarrow> (0, 0, 0)
                 | Some dash \<Rightarrow>
                     (case strtol10 spec of
                        (s, e) \<Rightarrow>
                          if e \<noteq> dash \<or> s < 0 then (0, 0, 0)
                          else if s \<ge> sz then (- 1, 0, 0)
                          else let last' = (if tl dash = [] then Some (- 1)
                                            else case strtol10 (tl dash) of
                                                   (l, le) \<Rightarrow> if le = tl dash \<or> le \<noteq> [] \<or> l < 0 then None else Some l)
                               in case last' of
                                    None \<Rightarrow> (0, 0, 0)
                                  | Some l \<Rightarrow>
                                      let l' = (if l < 0 \<or> l \<ge> sz then sz - 1 else l)
                                      in if l' < s then (0, 0, 0)
                                         else (if l' - s + 1 > 0 then 1 else 0, s, l' - s + 1))))"

definition codings_match :: "string \<Rightarrow> string \<Rightarrow> bool" where
  "codings_match tok coding \<longleftrightarrow> length tok = length coding \<and> map tolower tok = coding"

definition atoi :: "string \<Rightarrow> int" where
  "atoi s = wrap32 (fst (strtol10 s))"

text \<open>One round of the loop of \<open>accepts_gzip\<close>: the token, its \<open>q\<close> and the rest of the header.\<close>

definition coding_item :: "string \<Rightarrow> string \<times> int \<times> string" where
  "coding_item p0 =
     (let p1 = dropWhile (\<lambda>c. c = CHR '' '' \<or> c = TAB) p0;
          tok = takeWhile (\<lambda>c. c \<noteq> CHR '','' \<and> c \<noteq> CHR '';'') p1;
          p2 = drop (length tok) p1;
          (q, p3) = (case p2 of
             c # r \<Rightarrow>
               if c = CHR '';'' then
                 let r1 = dropWhile (\<lambda>c. c = CHR '' '') r
                 in if (take 2 r1 = ''q='' \<or> take 2 r1 = ''Q='')
                    then (atoi (drop 2 r1), dropWhile (\<lambda>c. c \<noteq> CHR '','') (drop 2 r1))
                    else (100, r1)
               else (100, p2)
           | [] \<Rightarrow> (100, p2));
          p4 = dropWhile (\<lambda>c. c = CHR '' '') p3;
          p5 = (if p4 \<noteq> [] \<and> hd p4 = CHR '','' then tl p4 else p4)
      in (tok, q, p5))"

lemma coding_item_shorter:
  assumes "p \<noteq> []" and "coding_item p = (tok, q, r)"
  shows "length r < length p"
proof -
  define p1 where "p1 = dropWhile (\<lambda>c. c = CHR '' '' \<or> c = TAB) p"
  define tk where "tk = takeWhile (\<lambda>c. c \<noteq> CHR '','' \<and> c \<noteq> CHR '';'') p1"
  define p2 where "p2 = drop (length tk) p1"
  define qp where "qp = (case p2 of
      c # r \<Rightarrow>
        if c = CHR '';'' then
          let r1 = dropWhile (\<lambda>c. c = CHR '' '') r
          in if (take 2 r1 = ''q='' \<or> take 2 r1 = ''Q='')
             then (atoi (drop 2 r1), dropWhile (\<lambda>c. c \<noteq> CHR '','') (drop 2 r1))
             else (100, r1)
        else (100, p2)
    | [] \<Rightarrow> (100, p2))"
  define p4 where "p4 = dropWhile (\<lambda>c. c = CHR '' '') (snd qp)"
  have r: "r = (if p4 \<noteq> [] \<and> hd p4 = CHR '','' then tl p4 else p4)"
    using assms(2) unfolding coding_item_def Let_def p1_def [symmetric] tk_def [symmetric] p2_def [symmetric]
      qp_def [unfolded Let_def, symmetric] p4_def
    by (cases qp) (auto simp del: dropWhile_eq_Nil_conv split del: if_split cong: if_cong)
  have l1: "length p1 \<le> length p" unfolding p1_def by (rule length_dropWhile_le)
  have l4: "length p4 \<le> length (snd qp)" unfolding p4_def by (rule length_dropWhile_le)
  have lr: "length r \<le> length p4" using r by simp
  have lq: "length (snd qp) \<le> length p2" "p2 \<noteq> [] \<Longrightarrow> hd p2 = CHR '';'' \<Longrightarrow> length (snd qp) < length p2"
  proof -
    have "length (snd (let r1 = dropWhile (\<lambda>c. c = CHR '' '') s
          in if (take 2 r1 = ''q='' \<or> take 2 r1 = ''Q='')
             then (atoi (drop 2 r1), dropWhile (\<lambda>c. c \<noteq> CHR '','') (drop 2 r1)) else (100, r1))) \<le> length s" for s
      using length_dropWhile_le [of "\<lambda>c. c = CHR '' ''" s]
        length_dropWhile_le [of "\<lambda>c. c \<noteq> CHR '',''" "drop 2 (dropWhile (\<lambda>c. c = CHR '' '') s)"]
      by (auto simp: Let_def)
    then show "length (snd qp) \<le> length p2" "p2 \<noteq> [] \<Longrightarrow> hd p2 = CHR '';'' \<Longrightarrow> length (snd qp) < length p2"
      unfolding qp_def by (cases p2; simp add: le_Suc_eq le_imp_less_Suc)+
  qed
  show ?thesis
  proof (cases p1)
    case Nil
    then have "p2 = []" by (simp add: p2_def)
    then have "length r = 0" using lr l4 lq(1) by simp
    then show ?thesis using assms(1) by simp
  next
    case (Cons c s)
    show ?thesis
    proof (cases "tk = []")
      case False
      then have "length p2 < length p1" using Cons by (simp add: p2_def)
      then show ?thesis using lr l4 lq(1) l1 by simp
    next
      case True
      then have p2: "p2 = p1" by (simp add: p2_def)
      have c: "c = CHR '','' \<or> c = CHR '';''" using True Cons by (auto simp: tk_def split: if_splits)
      show ?thesis
      proof (cases "c = CHR '';''")
        case True
        then show ?thesis using lq(2) lr l4 l1 p2 Cons by simp
      next
        case False
        with c p2 Cons have "snd qp = p1" "c = CHR '',''" by (simp_all add: qp_def)
        then have "p4 = p1" using Cons by (simp add: p4_def)
        then show ?thesis using r Cons \<open>c = CHR '',''\<close> l1 by simp
      qed
    qed
  qed
qed

function gzip_loop :: "string \<Rightarrow> int \<Rightarrow> int \<Rightarrow> int \<times> int" where
  "gzip_loop p gzip_q star_q =
     (if p = [] then (gzip_q, star_q)
      else case coding_item p of
             (tok, q, rest) \<Rightarrow>
               if tok = [] then gzip_loop rest gzip_q star_q
               else if codings_match tok ''gzip'' \<or> codings_match tok ''x-gzip'' then gzip_loop rest q star_q
               else if tok = ''*'' then gzip_loop rest gzip_q q
               else gzip_loop rest gzip_q star_q)"
  by pat_completeness auto
termination
  by (relation "measure (\<lambda>(p, g, s). length p)") (auto intro: coding_item_shorter [OF _ sym])

declare gzip_loop.simps [simp del]

definition accepts_gzip :: "string \<Rightarrow> bool" where
  "accepts_gzip s =
     (if s = [] then False
      else case gzip_loop s (- 1) (- 1) of
             (gzip_q, star_q) \<Rightarrow> if gzip_q > 0 then True else if gzip_q = 0 then False else star_q > 0)"

section \<open>Serving\<close>

definition resolve_static_path :: "string \<Rightarrow> fs \<Rightarrow> string \<Rightarrow> HttpRequest \<Rightarrow> string option" where
  "resolve_static_path stack fs root_real req =
     (let d0 = cstr (url_decode (cut_query (rq_path req)));
          d1 = (if d0 = ''/'' then ''/index.html'' else d0);
          decoded = (if d1 = [] then CHR ''/'' # stack else if hd d1 \<noteq> CHR ''/'' then CHR ''/'' # tl d1 else d1)
      in if path_has_dot_component decoded then None
         else case resolve_within fs root_real decoded MAX_PATH_SIZE of
                Some p \<Rightarrow> Some p
              | None \<Rightarrow>
                  let base = (case strrchr decoded (CHR ''/'') of None \<Rightarrow> decoded | Some s \<Rightarrow> tl s)
                  in if base \<noteq> [] \<and> CHR ''.'' \<notin> set base
                     then resolve_within fs root_real (decoded @ ''.html'') MAX_PATH_SIZE
                     else None)"

definition partial_content :: "HttpResponse \<Rightarrow> string \<Rightarrow> string \<Rightarrow> nat \<Rightarrow> int \<Rightarrow> int \<Rightarrow> HttpResponse" where
  "partial_content r ctype serve_path sz start len =
     r\<lparr>rs_status_code := 206, rs_status_text := ''Partial Content'', rs_content_type := set_str 128 ctype,
       rs_body_length := wrap32 len,
       rs_content_range := take 79 (''bytes '' @ int_dec start @ ''-'' @ int_dec (start + len - 1) @ ''/'' @ nat_dec sz),
       rs_cache_control := STATIC_CACHE_CONTROL, rs_stream_offset := start, rs_stream_path := Some serve_path\<rparr>"

definition streamed_file :: "HttpResponse \<Rightarrow> string \<Rightarrow> string \<Rightarrow> stat_rec \<Rightarrow> HttpResponse" where
  "streamed_file r ctype serve_path st =
     r\<lparr>rs_status_code := 200, rs_status_text := ''OK'', rs_content_type := set_str 128 ctype,
       rs_body_length := wrap32 (int (st_size st)), rs_etag := set_str 80 (compute_etag (st_size st) (st_mtime st)),
       rs_last_modified := date_str (int (st_mtime st)), rs_cache_control := STATIC_CACHE_CONTROL,
       rs_stream_offset := 0, rs_stream_path := Some serve_path\<rparr>"

definition serve_file :: "fs \<Rightarrow> HttpRequest \<Rightarrow> HttpResponse \<Rightarrow> string \<Rightarrow> stat_rec \<Rightarrow> int \<times> HttpResponse" where
  "serve_file fs req r0 real_path st0 =
     (let gz_path = real_path @ ''.gz'';
          gz = (if accepts_gzip (rq_accept_encoding req) then
                  (case fs_stat fs gz_path of Some g \<Rightarrow> if st_isreg g then Some g else None | None \<Rightarrow> None)
                else None);
          serve_path = (case gz of None \<Rightarrow> real_path | Some _ \<Rightarrow> gz_path);
          st = (case gz of None \<Rightarrow> st0 | Some g \<Rightarrow> g);
          r = (case gz of None \<Rightarrow> r0 | Some _ \<Rightarrow> r0\<lparr>rs_content_encoding := ''gzip''\<rparr>);
          ctype = get_content_type real_path;
          etag = compute_etag (st_size st) (st_mtime st)
      in if etag_matches (rq_if_none_match req) etag then
           (0, r\<lparr>rs_status_code := 304, rs_status_text := ''Not Modified'', rs_content_type := set_str 128 ctype,
                 rs_body_length := 0, rs_etag := set_str 80 etag, rs_cache_control := STATIC_CACHE_CONTROL\<rparr>)
         else if rq_if_none_match req = [] \<and> not_modified_since (rq_if_modified_since req) (int (st_mtime st)) then
           (0, r\<lparr>rs_status_code := 304, rs_status_text := ''Not Modified'', rs_content_type := set_str 128 ctype,
                 rs_body_length := 0, rs_last_modified := date_str (int (st_mtime st)),
                 rs_cache_control := STATIC_CACHE_CONTROL\<rparr>)
         else
           (case (if rq_range req \<noteq> [] \<and> rs_content_encoding r \<noteq> ''gzip''
                  then parse_range (rq_range req) (int (st_size st)) else (0, 0, 0)) of
              (rv, start, len) \<Rightarrow>
                if rv = - 1 then
                  (- 1, r\<lparr>rs_status_code := 416, rs_status_text := ''Range Not Satisfiable'',
                          rs_content_range := take 79 (''bytes */'' @ nat_dec (st_size st)), rs_body_length := 0\<rparr>)
                else if rv = 1 then (0, partial_content r ctype serve_path (st_size st) start len)
                else if st_size st > MAX_MEM_BODY_SIZE then (0, streamed_file r ctype serve_path st)
                else let r1 = read_file_into_response fs serve_path r
                     in if rs_body r1 = None then
                          (- 1, r1\<lparr>rs_status_code := 403, rs_status_text := ''Forbidden''\<rparr>)
                        else (0, r1\<lparr>rs_status_code := 200, rs_status_text := ''OK'', rs_content_type := set_str 128 ctype,
                                    rs_etag := set_str 80 etag, rs_last_modified := date_str (int (st_mtime st)),
                                    rs_cache_control := STATIC_CACHE_CONTROL\<rparr>)))"

definition serve_resolved_static ::
  "static_cfg \<Rightarrow> fs \<Rightarrow> HttpRequest \<Rightarrow> HttpResponse \<Rightarrow> string \<Rightarrow> (int \<times> HttpResponse) option" where
  "serve_resolved_static cfg fs req r real_path =
     (case fs_stat fs real_path of
        None \<Rightarrow> Some (- 1, r\<lparr>rs_status_code := 404, rs_status_text := ''Not Found''\<rparr>)
      | Some st \<Rightarrow>
          let path_only = cut_query (rq_path req)
          in if st_isdir st then
               (if path_only = [] \<or> last path_only \<noteq> CHR ''/'' then
                  Some (0, r\<lparr>rs_status_code := 301, rs_status_text := ''Moved Permanently'',
                             rs_location := take 510 (rq_path req) @ ''/''\<rparr>)
                else
                  let index_path = real_path @ ''/index.html'';
                      r1 = (case fs_stat fs index_path of
                              Some ist \<Rightarrow> if st_isreg ist then read_file_into_response fs index_path r else r
                            | None \<Rightarrow> r);
                      indexed = (case fs_stat fs index_path of Some ist \<Rightarrow> st_isreg ist | None \<Rightarrow> False)
                  in if indexed \<and> rs_body r1 \<noteq> None then
                       Some (0, r1\<lparr>rs_status_code := 200, rs_status_text := ''OK'', rs_content_type := ''text/html''\<rparr>)
                     else if sf_no_listing cfg then
                       Some (0, r1\<lparr>rs_status_code := 404, rs_status_text := ''Not Found'', rs_body := None, rs_body_length := 0\<rparr>)
                     else handle_directory cfg fs real_path path_only r1)
             else if \<not> st_rusr st then
               Some (- 1, r\<lparr>rs_status_code := 403, rs_status_text := ''Forbidden''\<rparr>)
             else Some (serve_file fs req r real_path st))"

definition handle_static_file ::
  "static_cfg \<Rightarrow> fs \<Rightarrow> HttpRequest \<Rightarrow> HttpResponse \<Rightarrow> (int \<times> HttpResponse) option" where
  "handle_static_file cfg fs req r =
     (case resolve_static_path (sf_stack cfg) fs (sf_root cfg) req of
        Some p \<Rightarrow> serve_resolved_static cfg fs req r p
      | None \<Rightarrow>
          if sf_spa cfg \<and> rq_method req = ''GET'' \<and> strstr (rq_accept req) ''text/html'' \<noteq> None
          then serve_resolved_static cfg fs req r (sf_root cfg @ ''/index.html'')
          else Some (- 1, r\<lparr>rs_status_code := 404, rs_status_text := ''Not Found''\<rparr>))"

definition handle_views_file ::
  "static_cfg \<Rightarrow> fs \<Rightarrow> HttpRequest \<Rightarrow> HttpResponse \<Rightarrow> (int \<times> HttpResponse) option" where
  "handle_views_file cfg fs req r =
     (if sf_views cfg = [] then Some (1, r)
      else case resolve_static_path (sf_stack cfg) fs (sf_views cfg) req of
             None \<Rightarrow> Some (1, r)
           | Some p \<Rightarrow>
               (case serve_resolved_static cfg fs req r p of
                  None \<Rightarrow> None
                | Some (rv, r1) \<Rightarrow> Some (if rv = 0 then 0 else - 1, r1)))"

section \<open>Confinement\<close>

definition inside_root :: "string \<Rightarrow> string \<Rightarrow> bool" where
  "inside_root root p \<longleftrightarrow> p = root \<or> starts_with (root @ ''/'') p"

text \<open>Two file systems a client confined to \<open>root\<close> cannot tell apart.\<close>

definition same_inside :: "string \<Rightarrow> fs \<Rightarrow> fs \<Rightarrow> bool" where
  "same_inside root f1 f2 \<longleftrightarrow>
     (\<forall>p. inside_root root p \<longrightarrow>
        fs_stat f1 p = fs_stat f2 p \<and> fs_read f1 p = fs_read f2 p \<and> fs_readdir f1 p = fs_readdir f2 p)"

lemma same_insideD:
  assumes "same_inside root f1 f2" and "inside_root root p"
  shows "fs_stat f1 p = fs_stat f2 p" "fs_read f1 p = fs_read f2 p" "fs_readdir f1 p = fs_readdir f2 p"
  using assms by (auto simp: same_inside_def)

lemma inside_root_iff: "inside_root root p \<longleftrightarrow> p = root \<or> (\<exists>s. p = root @ CHR ''/'' # s)"
proof -
  have "p = root @ CHR ''/'' # drop (Suc (length root)) p" if "take (Suc (length root)) p = root @ ''/''"
    using append_take_drop_id [of "Suc (length root)" p] that by simp
  then show ?thesis by (auto simp: inside_root_def starts_with_def)
qed

lemma inside_root_under:
  "inside_root root p \<Longrightarrow> inside_root root (p @ CHR ''/'' # s)"
  by (auto simp: inside_root_iff)

lemma inside_root_take:
  assumes "inside_root root p" and "length root \<le> n"
  shows "inside_root root (take n p)"
proof (cases "p = root")
  case True
  then show ?thesis using assms(2) by (simp add: inside_root_def)
next
  case False
  then obtain s where p: "p = root @ CHR ''/'' # s"
    using assms(1) by (auto simp: inside_root_iff)
  show ?thesis
    by (cases "n - length root") (use p assms(2) in \<open>auto simp: inside_root_iff\<close>)
qed

lemma inside_root_suffix:
  assumes "inside_root root p" and "p \<noteq> root"
  shows "inside_root root (p @ s)"
  using assms by (auto simp: inside_root_iff)

lemma resolve_within_inside:
  assumes "resolve_within fs root d n = Some p" and "length root < n"
  shows "inside_root root p"
proof -
  obtain rp where rp: "take (length root) rp = root"
      "drop (length root) rp = [] \<or> (\<exists>s. drop (length root) rp = CHR ''/'' # s)" "p = take (n - 1) rp"
    using assms(1) unfolding resolve_within_def Let_def
    by (auto simp del: drop_eq_Nil2 drop_eq_Nil split: option.splits if_splits list.splits)
  have "rp = root @ drop (length root) rp"
    using append_take_drop_id [of "length root" rp] rp(1) by simp
  then have "inside_root root rp" using rp(2) by (auto simp: inside_root_iff)
  then show ?thesis using inside_root_take [of root rp "n - 1"] assms(2) rp(3) by simp
qed

lemma resolve_static_inside:
  assumes "resolve_static_path stk fs root req = Some p" and "length root < MAX_PATH_SIZE"
  shows "inside_root root p"
  using assms resolve_within_inside [of fs root _ MAX_PATH_SIZE p]
  by (auto simp: resolve_static_path_def Let_def split: if_splits option.splits)

lemma listing_rows_same:
  assumes "same_inside root f1 f2" and "inside_root root p" and "length root < MAX_PATH_SIZE"
  shows "listing_rows cfg f1 p ds st = listing_rows cfg f2 p ds st"
proof (induction ds arbitrary: st)
  case (Cons d ds)
  have "inside_root root (take (MAX_PATH_SIZE - 1) (p @ ''/'' @ d))"
    using inside_root_take [OF inside_root_under [OF assms(2)], of "MAX_PATH_SIZE - 1" d] assms(3)
    by (simp del: take_append)
  then have "listing_row cfg f1 p d e = listing_row cfg f2 p d e" for e
    using same_insideD(1) [OF assms(1)] by (simp add: listing_row_def Let_def)
  then show ?case by (simp only: listing_rows.simps Cons.IH)
qed simp

lemma handle_directory_same:
  assumes "same_inside root f1 f2" and "inside_root root p" and "length root < MAX_PATH_SIZE"
  shows "handle_directory cfg f1 p q r = handle_directory cfg f2 p q r"
  using same_insideD(3) [OF assms(1,2)] listing_rows_same [OF assms]
  by (simp add: handle_directory_def cong: option.case_cong)

lemma read_file_same:
  assumes "same_inside root f1 f2" and "inside_root root p"
  shows "read_file_into_response f1 p r = read_file_into_response f2 p r"
  using same_insideD [OF assms] by (simp add: read_file_into_response_def split: option.split)

lemma serve_file_same:
  assumes "same_inside root f1 f2" and "inside_root root p" and "p \<noteq> root"
  shows "serve_file f1 req r p st = serve_file f2 req r p st"
proof -
  have gz: "inside_root root (p @ ''.gz'')" by (rule inside_root_suffix [OF assms(2,3)])
  have rd: "read_file_into_response f1 (case g of None \<Rightarrow> p | Some _ \<Rightarrow> p @ ''.gz'') r' =
        read_file_into_response f2 (case g of None \<Rightarrow> p | Some _ \<Rightarrow> p @ ''.gz'') r'" for g :: "stat_rec option" and r'
    using read_file_same [OF assms(1,2)] read_file_same [OF assms(1) gz] by (cases g) simp_all
  show ?thesis unfolding serve_file_def Let_def same_insideD(1) [OF assms(1) gz] rd ..
qed

lemma serve_resolved_same:
  assumes s: "same_inside root f1 f2" and p: "inside_root root p" and l: "length root < MAX_PATH_SIZE"
    and root: "\<exists>st. fs_stat f2 root = Some st \<and> st_isdir st"
  shows "serve_resolved_static cfg f1 req r p = serve_resolved_static cfg f2 req r p"
proof -
  have "st_isdir st \<or> serve_file f1 req r p st = serve_file f2 req r p st" if "fs_stat f2 p = Some st" for st
    using serve_file_same [OF s p] root that by (cases "p = root") auto
  moreover have "inside_root root (p @ ''/index.html'')" using inside_root_under [OF p] by simp
  ultimately show ?thesis
    using same_insideD(1) [OF s] p read_file_same [OF s] handle_directory_same [OF s p l]
    by (auto simp: serve_resolved_static_def Let_def split: option.split)
qed

text \<open>A configured root: a directory with a name that fits a path buffer, the same in both file systems.\<close>

definition servable_root :: "string \<Rightarrow> fs \<Rightarrow> fs \<Rightarrow> bool" where
  "servable_root root f1 f2 \<longleftrightarrow>
     same_inside root f1 f2 \<and> length root < MAX_PATH_SIZE \<and> (\<exists>st. fs_stat f2 root = Some st \<and> st_isdir st)"

lemma serve_servable:
  "servable_root root f1 f2 \<Longrightarrow> inside_root root p \<Longrightarrow>
   serve_resolved_static cfg f1 req r p = serve_resolved_static cfg f2 req r p"
  unfolding servable_root_def by (blast intro: serve_resolved_same)

lemma resolve_servable:
  "servable_root root f1 f2 \<Longrightarrow> resolve_static_path stk f root req = Some p \<Longrightarrow> inside_root root p"
  unfolding servable_root_def by (blast intro: resolve_static_inside)

text \<open>
  (C4) Static serving is confined to its root.  For every request and every content of the
  uninitialised stack bytes, \<open>handle_static_file\<close> and \<open>handle_views_file\<close> give the same response on two
  file systems that agree on the root directory and below it and resolve paths alike: nothing a client
  sends makes the answer depend on a file whose name lies outside (no traversal by \<open>..\<close>, by encoding,
  by truncation at the path limit, by a symbolic link \<open>realpath\<close> resolves, or by a sibling directory
  with the root as a name prefix).
\<close>

theorem static_confined_to_root:
  assumes "servable_root (sf_root cfg) f1 f2"
    and "sf_views cfg = [] \<or> servable_root (sf_views cfg) f1 f2"
    and "fs_realpath f1 = fs_realpath f2"
  shows "handle_static_file cfg f1 req r = handle_static_file cfg f2 req r \<and>
         handle_views_file cfg f1 req r = handle_views_file cfg f2 req r"
proof
  have rs: "resolve_static_path stk f1 root q = resolve_static_path stk f2 root q" for stk root q
    unfolding resolve_static_path_def resolve_within_def assms(3) ..
  have ix: "inside_root (sf_root cfg) (sf_root cfg @ ''/index.html'')" by (simp add: inside_root_iff)
  show "handle_static_file cfg f1 req r = handle_static_file cfg f2 req r"
    using serve_servable [OF assms(1)] resolve_servable [OF assms(1)] ix
    by (auto simp: handle_static_file_def rs split: option.split)
  show "handle_views_file cfg f1 req r = handle_views_file cfg f2 req r"
    using serve_servable [of "sf_views cfg" f1 f2] resolve_servable [of "sf_views cfg" f1 f2] assms(2)
    by (auto simp: handle_views_file_def rs split: option.split)
qed

definition demo_static_cfg :: static_cfg where
  "demo_static_cfg = \<lparr>sf_root = ''/w'', sf_views = [], sf_no_listing = False, sf_spa = False, sf_ltime = (\<lambda>_. []),
     sf_junk = \<lparr>st_isdir = False, st_isreg = False, st_rusr = False, st_size = 0, st_mtime = 0\<rparr>, sf_stack = []\<rparr>"

definition demo_static_fs :: "string \<Rightarrow> fs" where
  "demo_static_fs secret = \<lparr>
     fs_stat = (\<lambda>p. if p = ''/w'' then Some \<lparr>st_isdir = True, st_isreg = False, st_rusr = True, st_size = 0, st_mtime = 0\<rparr>
                    else if p = ''/w/a'' \<or> p = ''/s''
                    then Some \<lparr>st_isdir = False, st_isreg = True, st_rusr = True, st_size = 2, st_mtime = 5\<rparr> else None),
     fs_read = (\<lambda>p. if p = ''/w/a'' then Some ''hi'' else if p = ''/s'' then Some secret else None),
     fs_realpath = (\<lambda>p. if p = ''/w/a'' then Some ''/w/a'' else if p = ''/w/x/../../s'' then Some ''/s'' else None),
     fs_readdir = (\<lambda>_. None)\<rparr>"

theorem static_confined_witness:
  "servable_root ''/w'' (demo_static_fs ''k1'') (demo_static_fs ''k2'') \<and>
   handle_static_file demo_static_cfg (demo_static_fs ''k1'') (zero_request\<lparr>rq_path := ''/x/%2e%2e/../s''\<rparr>) zero_response =
   handle_static_file demo_static_cfg (demo_static_fs ''k2'') (zero_request\<lparr>rq_path := ''/x/%2e%2e/../s''\<rparr>) zero_response"
proof -
  have a: "servable_root ''/w'' (demo_static_fs ''k1'') (demo_static_fs ''k2'')"
    by (auto simp: servable_root_def same_inside_def demo_static_fs_def inside_root_def starts_with_def MAX_PATH_SIZE_def)
  moreover have "fs_realpath (demo_static_fs ''k1'') = fs_realpath (demo_static_fs ''k2'')"
    by (simp add: demo_static_fs_def)
  ultimately show ?thesis
    using static_confined_to_root [of demo_static_cfg "demo_static_fs ''k1''" "demo_static_fs ''k2''"]
    by (simp add: demo_static_cfg_def)
qed

section \<open>Ranges\<close>

lemma parse_range_in_file:
  assumes "parse_range h sz = (1, s, l)"
  shows "0 \<le> s \<and> 0 < l \<and> s + l \<le> sz"
  using assms by (auto simp: parse_range_def Let_def split: if_splits option.splits prod.splits)

text \<open>
  Byte ranges.  Whatever the \<open>Range\<close> header says, a range \<open>parse_range\<close> accepts lies inside the
  file and is not empty; and \<open>bytes=a-b\<close> with \<open>a \<le> b\<close> and \<open>a\<close> inside the file selects exactly the bytes
  \<open>a\<close> to \<open>b\<close>, cut at the end of the file, \<open>bytes=a-\<close> everything from \<open>a\<close>, \<open>bytes=-n\<close> the last \<open>n\<close>
  bytes, and a start at or behind the end is unsatisfiable.
\<close>

theorem parse_range_exact:
  fixes a b n :: nat
  assumes "a \<le> b" and "int a < sz" and "int b \<le> LONG_MAX" and "0 < n" and "int n \<le> LONG_MAX" and "sz \<le> LONG_MAX"
  shows "(\<forall>h s l. parse_range h sz = (1, s, l) \<longrightarrow> 0 \<le> s \<and> 0 < l \<and> s + l \<le> sz) \<and>
    parse_range (''bytes='' @ nat_dec a @ ''-'' @ nat_dec b) sz = (1, int a, min (int b) (sz - 1) - int a + 1) \<and>
    parse_range (''bytes='' @ nat_dec a @ ''-'') sz = (1, int a, sz - int a) \<and>
    parse_range (''bytes=-'' @ nat_dec n) sz = (1, sz - min (int n) sz, min (int n) sz) \<and>
    fst (parse_range (''bytes='' @ nat_dec b @ ''-'') (int b)) = - 1"
proof -
  have first: "nat_dec m \<noteq> []" "hd (nat_dec m) \<noteq> CHR ''-''" "CHR ''-'' \<notin> set (nat_dec m)" "CHR '','' \<notin> set (nat_dec m)" for m
    using nat_dec_value [of m] by (cases "nat_dec m"; auto simp: list_all_iff isdigit_def)+
  have dash: "strchr (nat_dec m @ CHR ''-'' # r) (CHR ''-'') = Some (CHR ''-'' # r)" for m r
    using first(3) [of m] by (subst strchr_def, subst dropWhile_append2) auto
  have num: "strtol10 (nat_dec m @ CHR ''-'' # r) = (int m, CHR ''-'' # r)" "strtol10 (nat_dec m) = (int m, [])"
    if "int m \<le> LONG_MAX" for m r
    using strtol10_nat_dec [of "CHR ''-'' # r" m] strtol10_nat_dec [of "[]" m] that by (simp_all add: isdigit_def)
  have am: "int a \<le> LONG_MAX" using assms(2,6) by simp
  show ?thesis
    using assms first first(1) [symmetric] dash num am
    by (intro conjI allI impI parse_range_in_file) (auto simp: parse_range_def starts_with_def Let_def)
qed

theorem parse_range_exact_witness:
  "parse_range (''bytes='' @ nat_dec 2 @ ''-'' @ nat_dec 9) 5 = (1, 2, 3)"
  using parse_range_exact [of 2 9 5 1] by (simp add: LONG_MAX_def)

text \<open>
  The quality of a coding is read with \<open>atoi\<close>, which stops at the decimal point: a client that prefers
  gzip with \<open>q=0.5\<close> is treated as one that refuses it.
\<close>

theorem fractional_gzip_quality_refused:
  "\<not> accepts_gzip ''gzip;q=0.5'' \<and> accepts_gzip ''gzip;q=1.0'' \<and> accepts_gzip ''X-GZIP''"
  by code_simp

text \<open>The length of a streamed file goes through an \<open>int\<close>: three gigabytes become a negative length.\<close>

theorem streamed_length_wraps:
  "rs_body_length (streamed_file r c p \<lparr>st_isdir = False, st_isreg = True, st_rusr = True, st_size = 3221225472, st_mtime = t\<rparr>)
     = - 1073741824"
  by (simp add: streamed_file_def wrap32_def)

end
