(* ===== verification/Framework.thy ===== *)
theory Framework
  imports Util Minijson
begin

text \<open>
  \<open>src/src/core/framework.c\<close>: the embedding layer.  The React relay's URL space, the table of custom
  routes with its dispatch, and the output of exec tools.  A registered handler is the embedder's
  code: a function of the request and the response that returns its verdict and both updated.
\<close>

definition HTTP_PATH_PARAM_NAME_MAX :: nat where "HTTP_PATH_PARAM_NAME_MAX = 64"
definition HTTP_PATH_PARAM_VALUE_MAX :: nat where "HTTP_PATH_PARAM_VALUE_MAX = 128"
definition FRAMEWORK_ROUTES_MAX :: nat where "FRAMEWORK_ROUTES_MAX = 256"
definition TOOL_EXEC_OUT_MAX :: nat where "TOOL_EXEC_OUT_MAX = 262144"

section \<open>The React relay's paths\<close>

text \<open>What may follow a path prefix: the end, a slash or a query.\<close>

definition segment_end :: "string \<Rightarrow> bool" where
  "segment_end r = (case r of [] \<Rightarrow> True | c # _ \<Rightarrow> c = CHR ''/'' \<or> c = CHR ''?'')"

definition is_react_prefix_path :: "string \<Rightarrow> string \<Rightarrow> bool" where
  "is_react_prefix_path react_prefix path =
     (let pfx = (if react_prefix \<noteq> [] then react_prefix else ''/react'')
      in pfx = ''/'' \<or> (starts_with pfx path \<and> segment_end (drop (length pfx) path)))"

definition is_react_reserved_path :: "string \<Rightarrow> bool" where
  "is_react_reserved_path path \<longleftrightarrow>
     list_ex (\<lambda>p. starts_with p path) [''/api/'', ''/assets/'', ''/js/''] \<or>
     list_ex (\<lambda>e. starts_with e path \<and> segment_end (drop (length e) path))
       [''/api'', ''/assets'', ''/js'', ''/cgi-bin'', ''/health'', ''/metrics'', ''/login'', ''/logout'', ''/favicon.ico'']"

section \<open>Custom routes\<close>

type_synonym handler = "HttpRequest \<Rightarrow> HttpResponse \<Rightarrow> int \<times> HttpRequest \<times> HttpResponse"

record FrameworkRoute =
  fr_method :: string
  fr_path :: string
  fr_fn :: handler

record framework =
  fw_routes :: "FrameworkRoute list"
  fw_started :: bool

text \<open>
  Registration.  \<open>None\<close> is a store or a read outside an array: the scan of the pattern leaves it, or
  the pattern is as long as the array and its NUL is stored behind it.
\<close>

definition agenthttpd_route ::
  "framework \<Rightarrow> string option \<Rightarrow> string option \<Rightarrow> handler option \<Rightarrow> (int \<times> framework) option" where
  "agenthttpd_route fw meth path fn =
     (case (meth, path, fn) of
        (Some m, Some p, Some f) \<Rightarrow>
          if fw_started fw then Some (- 1, fw)
          else if length (fw_routes fw) \<ge> FRAMEWORK_ROUTES_MAX then Some (- 1, fw)
          else if length m \<ge> 16 then Some (- 1, fw)
          else (case utf8_valid_prefix (Some (p @ [NUL])) MAX_PATH_SIZE of
                  None \<Rightarrow> None
                | Some n \<Rightarrow>
                    if n \<noteq> length p then Some (- 1, fw)
                    else if length p \<ge> MAX_PATH_SIZE then None
                    else Some (0, fw\<lparr>fw_routes := fw_routes fw @ [\<lparr>fr_method = m, fr_path = p, fr_fn = f\<rparr>]\<rparr>))
      | _ \<Rightarrow> Some (- 1, fw))"

definition route_kind :: "string \<Rightarrow> nat" where
  "route_kind pattern =
     (if pattern \<noteq> [] \<and> last pattern = CHR ''*'' then 2 else if CHR '':'' \<in> set pattern then 1 else 0)"

text \<open>The walk over the segments of pattern and path, writing captures as it goes.\<close>

definition capture :: "string \<Rightarrow> string \<Rightarrow> string \<times> string" where
  "capture p c =
     (take (HTTP_PATH_PARAM_NAME_MAX - 1) (tl p),
      take (HTTP_PATH_PARAM_VALUE_MAX - 1) (cstr (url_decode (take (HTTP_PATH_PARAM_VALUE_MAX - 1) c))))"

fun seg_walk :: "string list \<Rightarrow> string list \<Rightarrow> (string \<times> string) list \<Rightarrow> nat \<Rightarrow> bool \<times> (string \<times> string) list" where
  "seg_walk (p # ps) (c # cs) params got =
     (let capt = length p > 1 \<and> hd p = CHR '':'' \<and> length params < HTTP_PATH_PARAMS_MAX;
          params' = (if capt then params @ [capture p c] else params)
      in if \<not> capt \<and> p \<noteq> c then (False, params)
         else if ps = [] \<and> cs = [] then (Suc got > 0, params')
         else if ps = [] \<or> cs = [] then (False, params')
         else seg_walk ps cs params' (Suc got))"
| "seg_walk _ _ params got = (False, params)"

definition route_path_matches :: "string \<Rightarrow> string \<Rightarrow> HttpRequest \<Rightarrow> bool \<times> HttpRequest" where
  "route_path_matches pattern path request =
     (let clean = takeWhile (\<lambda>c. c \<noteq> CHR ''?'') path
      in if length clean \<ge> MAX_PATH_SIZE then (False, request)
         else if pattern \<noteq> [] \<and> last pattern = CHR ''*'' then (starts_with (butlast pattern) clean, request)
         else if clean = pattern then (True, request)
         else if CHR '':'' \<notin> set pattern then (False, request)
         else case seg_walk (split_on (CHR ''/'') pattern) (split_on (CHR ''/'') clean) (rq_path_params request) 0 of
                (ok, params) \<Rightarrow> (ok, request\<lparr>rq_path_params := params\<rparr>))"

definition route_method_ok :: "FrameworkRoute \<Rightarrow> HttpRequest \<Rightarrow> bool" where
  "route_method_ok r request \<longleftrightarrow>
     fr_method r = ''*'' \<or> fr_method r = rq_method request \<or> (rq_method request = ''HEAD'' \<and> fr_method r = ''GET'')"

text \<open>One pass over the table: the first route of the pass that matches, and the request with what the tries wrote.\<close>

fun route_pass :: "nat \<Rightarrow> FrameworkRoute list \<Rightarrow> HttpRequest \<Rightarrow> FrameworkRoute option \<times> HttpRequest" where
  "route_pass pass [] request = (None, request)"
| "route_pass pass (r # rs) request =
     (if \<not> route_method_ok r request \<or> route_kind (fr_path r) \<noteq> pass then route_pass pass rs request
      else case route_path_matches (fr_path r) (rq_path request) (request\<lparr>rq_path_params := []\<rparr>) of
             (ok, request') \<Rightarrow> if ok then (Some r, request') else route_pass pass rs request')"

fun route_passes :: "nat list \<Rightarrow> FrameworkRoute list \<Rightarrow> HttpRequest \<Rightarrow> FrameworkRoute option \<times> HttpRequest" where
  "route_passes [] rs request = (None, request)"
| "route_passes (p # ps) rs request =
     (case route_pass p rs request of
        (Some r, request') \<Rightarrow> (Some r, request')
      | (None, request') \<Rightarrow> route_passes ps rs request')"

definition framework_route_dispatch ::
  "framework \<Rightarrow> HttpRequest \<Rightarrow> HttpResponse \<Rightarrow> bool \<times> HttpRequest \<times> HttpResponse" where
  "framework_route_dispatch fw request response =
     (case route_passes [0, 1, 2] (fw_routes fw) request of
        (None, request') \<Rightarrow> (False, request', response)
      | (Some r, request') \<Rightarrow>
          (case fr_fn r request' response of (v, request'', response') \<Rightarrow> (v = 0, request'', response')))"

section \<open>Exec tools\<close>

text \<open>
  What the parent sees of a tool: the results of its \<open>read\<close> calls, and the exit code when \<open>waitpid\<close>
  returned the child and it exited normally.  \<open>alloc\<close> says which sizes \<open>realloc\<close> can provide.
\<close>

datatype read_result = Got string | ReadIntr | ReadFailed | ReadEof

datatype exec_start = PipeFailed | ForkFailed | Running "read_result list" "nat option"

fun exec_read :: "(nat \<Rightarrow> bool) \<Rightarrow> read_result list \<Rightarrow> string \<Rightarrow> string \<times> bool" where
  "exec_read alloc [] buf = (buf, False)"
| "exec_read alloc (r # rs) buf =
     (case r of
        ReadIntr \<Rightarrow> exec_read alloc rs buf
      | ReadFailed \<Rightarrow> (buf, False)
      | ReadEof \<Rightarrow> (buf, False)
      | Got chunk \<Rightarrow>
          if length buf + length chunk > TOOL_EXEC_OUT_MAX then
            (if \<not> alloc (TOOL_EXEC_OUT_MAX + 1) then (buf, True)
             else (buf @ take (TOOL_EXEC_OUT_MAX - length buf) chunk, True))
          else if \<not> alloc (length buf + length chunk + 1) then (buf, True)
          else exec_read alloc rs (buf @ chunk))"

definition exec_tool_run :: "(nat \<Rightarrow> bool) \<Rightarrow> exec_start \<Rightarrow> sbuf \<Rightarrow> sbuf" where
  "exec_tool_run alloc start out =
     (case start of
        PipeFailed \<Rightarrow> sb_str alloc out ''error: pipe failed''
      | ForkFailed \<Rightarrow> sb_str alloc out ''error: fork failed''
      | Running reads status \<Rightarrow>
          (case exec_read alloc reads [] of
             (buf, truncated) \<Rightarrow>
               if buf = [] then
                 (case status of
                    None \<Rightarrow> sb_str alloc out ''(no output)''
                  | Some c \<Rightarrow>
                      if c = 127 then sb_str alloc out ''error: command not found''
                      else if c \<noteq> 0 then sb_str alloc (sb_str alloc out ''error: exit code '') (nat_dec c)
                      else sb_str alloc out ''(no output)'')
               else
                 (let out1 = sb_str alloc out (cstr buf);
                      out2 = (if truncated then sb_str alloc out1 (LF # ''[output truncated]'') else out1)
                  in case status of
                       None \<Rightarrow> out2
                     | Some c \<Rightarrow>
                         if c \<noteq> 0 then sb_str alloc out2 (LF # ''[exit code '' @ nat_dec c @ '']'') else out2)))"

lemma exec_read_bounded: "length buf \<le> TOOL_EXEC_OUT_MAX \<Longrightarrow> length (fst (exec_read alloc rs buf)) \<le> TOOL_EXEC_OUT_MAX"
  by (induction alloc rs buf rule: exec_read.induct) (auto split: read_result.split)

section \<open>Dispatch against its specification\<close>

definition is_param :: "string \<Rightarrow> bool" where
  "is_param p \<longleftrightarrow> length p > 1 \<and> hd p = CHR '':''"

definition clean_path :: "string \<Rightarrow> string" where
  "clean_path path = takeWhile (\<lambda>c. c \<noteq> CHR ''?'') path"

text \<open>
  What a pattern means: a prefix with a final star, otherwise segment by segment, a parameter
  segment standing for any one segment.
\<close>

definition route_applies :: "string \<Rightarrow> string \<Rightarrow> bool" where
  "route_applies pattern path \<longleftrightarrow>
     length (clean_path path) < MAX_PATH_SIZE \<and>
     (if route_kind pattern = 2 then starts_with (butlast pattern) (clean_path path)
      else if route_kind pattern = 0 then clean_path path = pattern
      else list_all2 (\<lambda>p c. is_param p \<or> p = c)
             (split_on (CHR ''/'') pattern) (split_on (CHR ''/'') (clean_path path)))"

definition route_captures :: "string \<Rightarrow> string \<Rightarrow> (string \<times> string) list" where
  "route_captures pattern path =
     (if route_kind pattern \<noteq> 1 \<or> clean_path path = pattern then []
      else map (\<lambda>(p, c). capture p c)
             (filter (\<lambda>(p, c). is_param p) (zip (split_on (CHR ''/'') pattern) (split_on (CHR ''/'') (clean_path path)))))"

definition few_params :: "string \<Rightarrow> bool" where
  "few_params pattern \<longleftrightarrow> length (filter is_param (split_on (CHR ''/'') pattern)) \<le> HTTP_PATH_PARAMS_MAX"

lemma seg_walk_spec:
  assumes "length params + length (filter is_param ps) \<le> HTTP_PATH_PARAMS_MAX" and "ps \<noteq> []" and "cs \<noteq> []"
  shows "(fst (seg_walk ps cs params got) \<longleftrightarrow> list_all2 (\<lambda>p c. is_param p \<or> p = c) ps cs) \<and>
         (fst (seg_walk ps cs params got) \<longrightarrow>
          snd (seg_walk ps cs params got) = params @ map (\<lambda>(p, c). capture p c) (filter (\<lambda>(p, c). is_param p) (zip ps cs)))"
  using assms
proof (induction ps cs params got rule: seg_walk.induct)
  case (1 p ps c cs params got)
  define params' where "params' = (if is_param p then params @ [capture p c] else params)"
  have capt: "(length p > 1 \<and> hd p = CHR '':'' \<and> length params < HTTP_PATH_PARAMS_MAX) = is_param p"
    using "1.prems" by (auto simp: is_param_def split: if_splits)
  have step: "seg_walk (p # ps) (c # cs) params got =
     (if \<not> is_param p \<and> p \<noteq> c then (False, params)
      else if ps = [] \<and> cs = [] then (True, params')
      else if ps = [] \<or> cs = [] then (False, params')
      else seg_walk ps cs params' (Suc got))"
    unfolding seg_walk.simps Let_def capt params'_def by simp
  show ?case
  proof (cases "(\<not> is_param p \<and> p \<noteq> c) \<or> ps = [] \<or> cs = []")
    case True
    then show ?thesis unfolding step by (auto simp: params'_def)
  next
    case False
    have "length params' + length (filter is_param ps) \<le> HTTP_PATH_PARAMS_MAX"
      using "1.prems"(1) by (auto simp: params'_def split: if_splits)
    then have "(fst (seg_walk ps cs params' (Suc got)) \<longleftrightarrow> list_all2 (\<lambda>p c. is_param p \<or> p = c) ps cs) \<and>
       (fst (seg_walk ps cs params' (Suc got)) \<longrightarrow>
        snd (seg_walk ps cs params' (Suc got)) = params' @ map (\<lambda>(p, c). capture p c) (filter (\<lambda>(p, c). is_param p) (zip ps cs)))"
      using "1.IH" [OF refl refl] False unfolding capt params'_def by auto
    with False show ?thesis unfolding step by (auto simp: params'_def)
  qed
qed simp_all

lemma route_kind_cases: "route_kind p = 0 \<or> route_kind p = 1 \<or> route_kind p = 2"
  by (simp add: route_kind_def)

lemma list_all2_same: "(\<And>x. P x x) \<Longrightarrow> list_all2 P xs xs"
  by (induction xs) auto

lemma route_kind_star: "route_kind p = 2 \<longleftrightarrow> p \<noteq> [] \<and> last p = CHR ''*''"
  by (simp add: route_kind_def)

lemma route_kind_param: "route_kind p = 1 \<longleftrightarrow> \<not> (p \<noteq> [] \<and> last p = CHR ''*'') \<and> CHR '':'' \<in> set p"
  by (simp add: route_kind_def)

lemma route_path_matches_unfold:
  "route_path_matches pattern path (rq\<lparr>rq_path_params := []\<rparr>) =
     (let w = seg_walk (split_on (CHR ''/'') pattern) (split_on (CHR ''/'') (clean_path path)) [] 0
      in if length (clean_path path) \<ge> MAX_PATH_SIZE then (False, rq\<lparr>rq_path_params := []\<rparr>)
         else if route_kind pattern = 2 then (starts_with (butlast pattern) (clean_path path), rq\<lparr>rq_path_params := []\<rparr>)
         else if clean_path path = pattern then (True, rq\<lparr>rq_path_params := []\<rparr>)
         else if route_kind pattern \<noteq> 1 then (False, rq\<lparr>rq_path_params := []\<rparr>)
         else (fst w, rq\<lparr>rq_path_params := snd w\<rparr>))"
  unfolding route_path_matches_def clean_path_def [symmetric] Let_def route_kind_star route_kind_param
  by (simp add: case_prod_beta)

lemma route_path_matches_spec:
  assumes "few_params pattern"
  shows "fst (route_path_matches pattern path (rq\<lparr>rq_path_params := []\<rparr>)) \<longleftrightarrow> route_applies pattern path"
    and "route_applies pattern path \<Longrightarrow>
         snd (route_path_matches pattern path (rq\<lparr>rq_path_params := []\<rparr>)) = rq\<lparr>rq_path_params := route_captures pattern path\<rparr>"
    and "\<exists>x. snd (route_path_matches pattern path (rq\<lparr>rq_path_params := []\<rparr>)) = rq\<lparr>rq_path_params := x\<rparr>"
proof -
  define sw where "sw = seg_walk (split_on (CHR ''/'') pattern) (split_on (CHR ''/'') (clean_path path)) [] 0"
  define seg where "seg \<longleftrightarrow> list_all2 (\<lambda>p c. is_param p \<or> p = c)
    (split_on (CHR ''/'') pattern) (split_on (CHR ''/'') (clean_path path))"
  have w: "fst sw = seg"
    "fst sw \<Longrightarrow> snd sw = map (\<lambda>(p, c). capture p c)
       (filter (\<lambda>(p, c). is_param p) (zip (split_on (CHR ''/'') pattern) (split_on (CHR ''/'') (clean_path path))))"
    using seg_walk_spec [of "[]" "split_on (CHR ''/'') pattern" "split_on (CHR ''/'') (clean_path path)" 0] assms
    unfolding sw_def seg_def few_params_def by auto
  have self: "clean_path path = pattern \<Longrightarrow> seg" unfolding seg_def by (simp add: list_all2_same)
  have m: "route_path_matches pattern path (rq\<lparr>rq_path_params := []\<rparr>) =
     (if length (clean_path path) \<ge> MAX_PATH_SIZE then (False, rq\<lparr>rq_path_params := []\<rparr>)
      else if route_kind pattern = 2 then (starts_with (butlast pattern) (clean_path path), rq\<lparr>rq_path_params := []\<rparr>)
      else if clean_path path = pattern then (True, rq\<lparr>rq_path_params := []\<rparr>)
      else if route_kind pattern \<noteq> 1 then (False, rq\<lparr>rq_path_params := []\<rparr>)
      else (fst sw, rq\<lparr>rq_path_params := snd sw\<rparr>))"
    unfolding sw_def by (simp only: route_path_matches_unfold Let_def)
  have ap: "route_applies pattern path \<longleftrightarrow> length (clean_path path) < MAX_PATH_SIZE \<and>
     (if route_kind pattern = 2 then starts_with (butlast pattern) (clean_path path)
      else if route_kind pattern = 0 then clean_path path = pattern else seg)"
    unfolding route_applies_def seg_def ..
  show "fst (route_path_matches pattern path (rq\<lparr>rq_path_params := []\<rparr>)) \<longleftrightarrow> route_applies pattern path"
    using route_kind_cases [of pattern] unfolding m ap
    by (cases "clean_path path = pattern"; elim disjE; simp add: w(1) self)
  show "snd (route_path_matches pattern path (rq\<lparr>rq_path_params := []\<rparr>)) = rq\<lparr>rq_path_params := route_captures pattern path\<rparr>"
    if "route_applies pattern path"
    using that route_kind_cases [of pattern] unfolding m ap route_captures_def
    by (cases "clean_path path = pattern"; elim disjE; simp add: w)
  show "\<exists>x. snd (route_path_matches pattern path (rq\<lparr>rq_path_params := []\<rparr>)) = rq\<lparr>rq_path_params := x\<rparr>"
    unfolding m by (split if_split | intro conjI impI | (simp only: snd_conv, rule exI, rule refl))+
qed

definition route_wants :: "HttpRequest \<Rightarrow> FrameworkRoute \<Rightarrow> bool" where
  "route_wants rq r \<longleftrightarrow> route_method_ok r rq \<and> route_applies (fr_path r) (rq_path rq)"

text \<open>The outcome of a search: the route with its captures, or the request with whatever the tries left.\<close>

definition picked :: "HttpRequest \<Rightarrow> FrameworkRoute option \<Rightarrow> FrameworkRoute option \<times> HttpRequest \<Rightarrow> bool" where
  "picked rq want got \<longleftrightarrow>
     (case want of
        None \<Rightarrow> \<exists>x. got = (None, rq\<lparr>rq_path_params := x\<rparr>)
      | Some r \<Rightarrow> got = (Some r, rq\<lparr>rq_path_params := route_captures (fr_path r) (rq_path rq)\<rparr>))"

lemma route_pass_spec:
  assumes "\<forall>r\<in>set rs. few_params (fr_path r)"
  shows "picked rq (find (route_wants rq) (filter (\<lambda>r. route_kind (fr_path r) = p) rs))
           (route_pass p rs (rq\<lparr>rq_path_params := y\<rparr>))"
  using assms
proof (induction rs arbitrary: y)
  case Nil
  show ?case by (simp add: picked_def, blast)
next
  case (Cons r rs)
  define m where "m = route_path_matches (fr_path r) (rq_path rq) (rq\<lparr>rq_path_params := []\<rparr>)"
  have few: "few_params (fr_path r)" "\<forall>r\<in>set rs. few_params (fr_path r)" using Cons.prems by auto
  note spec = route_path_matches_spec [OF few(1), of "rq_path rq" rq, folded m_def]
  obtain x where x: "snd m = rq\<lparr>rq_path_params := x\<rparr>" using spec(3) by blast
  have mo: "route_method_ok r (rq\<lparr>rq_path_params := y\<rparr>) = route_method_ok r rq" by (simp add: route_method_ok_def)
  have unf: "route_pass p (r # rs) (rq\<lparr>rq_path_params := y\<rparr>) =
     (if \<not> route_method_ok r rq \<or> route_kind (fr_path r) \<noteq> p then route_pass p rs (rq\<lparr>rq_path_params := y\<rparr>)
      else if fst m then (Some r, snd m) else route_pass p rs (snd m))"
    by (simp add: mo m_def case_prod_beta)
  show ?case
  proof (cases "route_wants rq r \<and> route_kind (fr_path r) = p")
    case True
    then have "fst m" "snd m = rq\<lparr>rq_path_params := route_captures (fr_path r) (rq_path rq)\<rparr>"
      using spec(1,2) by (auto simp: route_wants_def)
    with True show ?thesis unfolding unf by (simp add: picked_def route_wants_def)
  next
    case False
    then have f: "find (route_wants rq) (filter (\<lambda>r. route_kind (fr_path r) = p) (r # rs)) =
        find (route_wants rq) (filter (\<lambda>r. route_kind (fr_path r) = p) rs)" by auto
    have "\<exists>z. route_pass p (r # rs) (rq\<lparr>rq_path_params := y\<rparr>) = route_pass p rs (rq\<lparr>rq_path_params := z\<rparr>)"
      using False spec(1) unfolding unf x route_wants_def by auto
    then show ?thesis using Cons.IH [OF few(2)] unfolding f by metis
  qed
qed

lemma route_passes_spec:
  assumes "\<forall>r\<in>set rs. few_params (fr_path r)"
  shows "picked rq (find (route_wants rq) (concat (map (\<lambda>p. filter (\<lambda>r. route_kind (fr_path r) = p) rs) ps)))
           (route_passes ps rs (rq\<lparr>rq_path_params := y\<rparr>))"
proof (induction ps arbitrary: y)
  case Nil
  show ?case by (simp add: picked_def, blast)
next
  case (Cons p ps)
  let ?l = "filter (\<lambda>r. route_kind (fr_path r) = p) rs"
  note one = route_pass_spec [OF assms, of rq p y]
  have fa: "find P (xs @ ys) = (case find P xs of None \<Rightarrow> find P ys | Some z \<Rightarrow> Some z)" for P :: "FrameworkRoute \<Rightarrow> bool" and xs ys
    by (induction xs) auto
  show ?case
  proof (cases "find (route_wants rq) ?l")
    case None
    then obtain x where "route_pass p rs (rq\<lparr>rq_path_params := y\<rparr>) = (None, rq\<lparr>rq_path_params := x\<rparr>)"
      using one unfolding picked_def by auto
    then show ?thesis using Cons.IH [of x] None by (simp add: fa)
  next
    case (Some r)
    then show ?thesis using one by (simp add: fa picked_def)
  qed
qed

text \<open>
  (C16) Custom routes are dispatched by priority.  For a table whose patterns have at most eight
  parameters each, the route that runs is the first registered one that wants the request, literal
  patterns before parameter patterns before star patterns (so \<open>/api/me\<close> is never shadowed by
  \<open>/api/:id\<close>): it wants a request when its method fits (\<open>*\<close>, the same, or GET for HEAD) and the path
  without its query matches segment by segment.  The handler sees exactly the decoded captures of its
  own pattern, and its verdict 0 decides whether the request counts as handled.  With no such route the
  response is untouched and the dispatch falls through.
\<close>

theorem dispatch_by_priority:
  assumes "\<forall>r\<in>set (fw_routes fw). few_params (fr_path r)"
  shows "case find (route_wants rq)
           (filter (\<lambda>r. route_kind (fr_path r) = 0) (fw_routes fw) @
            filter (\<lambda>r. route_kind (fr_path r) = 1) (fw_routes fw) @
            filter (\<lambda>r. route_kind (fr_path r) = 2) (fw_routes fw)) of
           None \<Rightarrow> \<exists>x. framework_route_dispatch fw rq rs = (False, rq\<lparr>rq_path_params := x\<rparr>, rs)
         | Some r \<Rightarrow> framework_route_dispatch fw rq rs =
             (case fr_fn r (rq\<lparr>rq_path_params := route_captures (fr_path r) (rq_path rq)\<rparr>) rs of
                (v, rq', rs') \<Rightarrow> (v = 0, rq', rs'))"
  using route_passes_spec [OF assms, of rq "[0, 1, 2]" "rq_path_params rq"]
  by (auto simp: picked_def framework_route_dispatch_def split: option.splits)

definition demo_handler :: "string \<Rightarrow> handler" where
  "demo_handler s rq rs = (0, rq, rs\<lparr>rs_status_text := s @ concat (map snd (rq_path_params rq))\<rparr>)"

definition demo_framework :: framework where
  "demo_framework = \<lparr>fw_routes = [
     \<lparr>fr_method = ''GET'', fr_path = ''/a/*'', fr_fn = demo_handler ''star''\<rparr>,
     \<lparr>fr_method = ''GET'', fr_path = ''/a/:id'', fr_fn = demo_handler ''param''\<rparr>,
     \<lparr>fr_method = ''*'', fr_path = ''/a/me'', fr_fn = demo_handler ''literal''\<rparr>], fw_started = True\<rparr>"

theorem dispatch_by_priority_witness:
  "rs_status_text (snd (snd (framework_route_dispatch demo_framework
     (zero_request\<lparr>rq_method := ''GET'', rq_path := ''/a/x%79?q''\<rparr>) zero_response))) = ''paramxy''"
proof -
  have few: "\<forall>r\<in>set (fw_routes demo_framework). few_params (fr_path r)"
    by (simp add: demo_framework_def few_params_def is_param_def HTTP_PATH_PARAMS_MAX_def)
  let ?rq = "zero_request\<lparr>rq_method := ''GET'', rq_path := ''/a/x%79?q''\<rparr>"
  have "find (route_wants ?rq)
           (filter (\<lambda>r. route_kind (fr_path r) = 0) (fw_routes demo_framework) @
            filter (\<lambda>r. route_kind (fr_path r) = 1) (fw_routes demo_framework) @
            filter (\<lambda>r. route_kind (fr_path r) = 2) (fw_routes demo_framework))
        = Some \<lparr>fr_method = ''GET'', fr_path = ''/a/:id'', fr_fn = demo_handler ''param''\<rparr>"
    by (simp add: demo_framework_def route_wants_def route_applies_def route_kind_def route_method_ok_def clean_path_def
        is_param_def MAX_PATH_SIZE_def)
  with dispatch_by_priority [OF few, of ?rq zero_response]
  have d: "framework_route_dispatch demo_framework ?rq zero_response =
      (case demo_handler ''param'' (?rq\<lparr>rq_path_params := route_captures ''/a/:id'' (rq_path ?rq)\<rparr>) zero_response of
         (v, rq', rs') \<Rightarrow> (v = 0, rq', rs'))" by simp
  have "concat (map snd (route_captures ''/a/:id'' ''/a/x%79?q'')) = ''xy''" by code_simp
  then show ?thesis unfolding d by (simp add: demo_handler_def)
qed

end
