(* ===== verification/Cgi.thy ===== *)
theory Cgi
  imports Static_Files Auth_Basic
begin

text \<open>
  \<open>src/src/cgi/cgi.c\<close>: CGI scripts.  Which program runs, with which environment, how its output is
  collected and how its header block becomes the response.  The script itself is the argument
  \<open>run\<close>: from the path of the program and its environment to what the server sees of it (whether
  pipes and \<open>fork\<close> worked, the events of the read loop, the exit status if it was reaped).
  \<open>mktemp\<close> is the temporary file the spooling code gets, if any.
\<close>

section \<open>The environment\<close>

definition cgi_env_allow :: "string list" where
  "cgi_env_allow =
     [''REQUEST_METHOD'', ''QUERY_STRING'', ''CONTENT_TYPE'', ''CONTENT_LENGTH'', ''SERVER_NAME'', ''SERVER_PORT'',
      ''SCRIPT_NAME'', ''REQUEST_URI'', ''SERVER_PROTOCOL'', ''GATEWAY_INTERFACE'', ''SERVER_SOFTWARE'',
      ''REMOTE_ADDR'', ''REMOTE_USER'', ''HTTP_HOST'', ''HTTP_USER_AGENT'', ''HTTP_X_FORWARDED_FOR'',
      ''PATH'', ''HOME'', ''LANG'', ''LC_ALL'', ''TMPDIR'', ''TZ'']"

definition env_name :: "string \<Rightarrow> string" where
  "env_name entry = takeWhile (\<lambda>c. c \<noteq> CHR ''='') entry"

definition cgi_env_allowed :: "string \<Rightarrow> bool" where
  "cgi_env_allowed entry \<longleftrightarrow> CHR ''='' \<in> set entry \<and> env_name entry \<in> set cgi_env_allow"

text \<open>\<open>setenv(name, value, 1)\<close> on the list of \<open>name=value\<close> entries.\<close>

definition setenv :: "string \<Rightarrow> string \<Rightarrow> string list \<Rightarrow> string list" where
  "setenv name val env =
     (let entry = name @ ''='' @ val
      in if list_ex (\<lambda>e. env_name e = name) env then map (\<lambda>e. if env_name e = name then entry else e) env
         else env @ [entry])"

definition cgi_remote_user :: "string \<Rightarrow> string" where
  "cgi_remote_user authorization =
     (if ci_prefix ''Basic '' authorization
      then set_str 64 (takeWhile (\<lambda>c. c \<noteq> CHR '':'') (cstr (b64_decode (drop 6 authorization) 384))) else [])"

definition cgi_environ :: "int \<Rightarrow> string \<Rightarrow> HttpRequest \<Rightarrow> string \<Rightarrow> string list \<Rightarrow> string list" where
  "cgi_environ port auth_file req query env0 =
     (let e1 = setenv ''REQUEST_METHOD'' (rq_method req) env0;
          e2 = setenv ''QUERY_STRING'' query e1;
          e3 = setenv ''CONTENT_TYPE'' (rq_content_type req) e2;
          e4 = setenv ''CONTENT_LENGTH'' (int_dec (rq_content_length req)) e3;
          e5 = setenv ''SERVER_NAME'' ''localhost'' e4;
          e6 = setenv ''SERVER_PORT'' (int_dec port) e5;
          e7 = setenv ''SCRIPT_NAME'' (rq_path req) e6;
          e8 = setenv ''REQUEST_URI'' (rq_path req) e7;
          e9 = setenv ''SERVER_PROTOCOL'' ''HTTP/1.1'' e8;
          e10 = setenv ''GATEWAY_INTERFACE'' ''CGI/1.1'' e9;
          e11 = setenv ''SERVER_SOFTWARE'' SERVER_VERSION e10;
          e12 = setenv ''REMOTE_ADDR'' (rq_remote_addr req) e11;
          e13 = setenv ''HTTP_HOST'' (rq_host req) e12;
          e14 = setenv ''HTTP_USER_AGENT'' (rq_user_agent req) e13;
          e15 = (if rq_x_forwarded_for req \<noteq> [] then setenv ''HTTP_X_FORWARDED_FOR'' (rq_x_forwarded_for req) e14 else e14);
          e16 = (if auth_file \<noteq> [] then setenv ''REMOTE_USER'' (cgi_remote_user (rq_authorization req)) e15 else e15)
      in take 63 (filter cgi_env_allowed e16))"

section \<open>Collecting the output\<close>

text \<open>
  One round of the read loop: \<open>select\<close> timed out; the script closed its output; or bytes came, after
  which the deadline may have passed or the client may have gone.
\<close>

datatype cgi_event = CgiTimeout | CgiEof | CgiData string bool bool

fun cgi_collect :: "(nat \<Rightarrow> bool) \<Rightarrow> nat \<Rightarrow> cgi_event list \<Rightarrow> string \<Rightarrow> string \<times> bool" where
  "cgi_collect alloc cap [] out = (out, False)"
| "cgi_collect alloc cap (e # es) out =
     (if length out + 1 \<ge> cap \<and> \<not> alloc (cap * 2) then (out, False)
      else let cap' = (if length out + 1 \<ge> cap then cap * 2 else cap)
           in case e of
                CgiTimeout \<Rightarrow> (out, True)
              | CgiEof \<Rightarrow> (out, False)
              | CgiData s late gone \<Rightarrow>
                  if late \<or> gone then (out @ s, True) else cgi_collect alloc cap' es (out @ s))"

section \<open>The header block\<close>

fun strcasestr :: "string \<Rightarrow> string \<Rightarrow> string option" where
  "strcasestr [] needle = (if needle = [] then Some [] else None)"
| "strcasestr (c # s) needle = (if ci_prefix needle (c # s) then Some (c # s) else strcasestr s needle)"

text \<open>The value after a header name of length \<open>k\<close>: to the first CR anywhere, or else to the first LF.\<close>

definition cgi_value :: "nat \<Rightarrow> string \<Rightarrow> string" where
  "cgi_value k s = dropWhile (\<lambda>c. c = CHR '' '') (drop k s)"

definition cgi_line :: "string \<Rightarrow> string option" where
  "cgi_line v =
     (if CR \<in> set v then Some (takeWhile (\<lambda>c. c \<noteq> CR) v)
      else if LF \<in> set v then Some (takeWhile (\<lambda>c. c \<noteq> LF) v) else None)"

text \<open>A match of \<open>strstr\<close>/\<open>strcasestr\<close> that lies before the body.\<close>

definition in_head :: "string \<Rightarrow> nat \<Rightarrow> string option \<Rightarrow> string option" where
  "in_head out hdr_len m =
     (case m of None \<Rightarrow> None | Some s \<Rightarrow> if length out - length s < hdr_len then Some s else None)"

definition cgi_content_type :: "string \<Rightarrow> nat \<Rightarrow> HttpResponse \<Rightarrow> HttpResponse" where
  "cgi_content_type out hdr_len r =
     (case in_head out hdr_len (strstr out ''Content-Type:'') of
        None \<Rightarrow> r\<lparr>rs_content_type := ''text/html''\<rparr>
      | Some s \<Rightarrow>
          (case cgi_line (cgi_value 13 s) of
             None \<Rightarrow> r
           | Some v \<Rightarrow> if length v < 128 then r\<lparr>rs_content_type := v\<rparr> else r))"

definition cgi_location :: "string \<Rightarrow> nat \<Rightarrow> HttpResponse \<Rightarrow> HttpResponse" where
  "cgi_location out hdr_len r =
     (case in_head out hdr_len (strcasestr out ''Location:'') of
        None \<Rightarrow> r
      | Some s \<Rightarrow>
          (case cgi_line (cgi_value 9 s) of
             None \<Rightarrow> r
           | Some v \<Rightarrow>
               if 0 < length v \<and> length v < 512 then
                 let r1 = r\<lparr>rs_location := v\<rparr>
                 in if hd v = CHR ''/'' \<or> strstr v ''://'' \<noteq> None
                    then r1\<lparr>rs_status_code := 302, rs_status_text := ''Found''\<rparr> else r1
               else r))"

definition cgi_status :: "string \<Rightarrow> nat \<Rightarrow> HttpResponse \<Rightarrow> HttpResponse" where
  "cgi_status out hdr_len r =
     (case in_head out hdr_len (strcasestr out ''Status:'') of
        None \<Rightarrow> r
      | Some s \<Rightarrow>
          let v = cgi_value 7 s; sc = atoi v
          in if 100 \<le> sc \<and> sc \<le> 599 then
               (case strchr v (CHR '' '') of
                  None \<Rightarrow> r\<lparr>rs_status_code := sc\<rparr>
                | Some sp \<Rightarrow>
                    if tl sp = [] then r\<lparr>rs_status_code := sc\<rparr>
                    else let t = take 63 (tl sp)
                         in r\<lparr>rs_status_code := sc,
                              rs_status_text := (case cgi_line t of None \<Rightarrow> t | Some l \<Rightarrow> l)\<rparr>)
             else r)"

definition cgi_cache_control :: "string \<Rightarrow> nat \<Rightarrow> HttpResponse \<Rightarrow> HttpResponse" where
  "cgi_cache_control out hdr_len r =
     (case in_head out hdr_len (strcasestr out ''Cache-Control:'') of
        None \<Rightarrow> r\<lparr>rs_cache_control := ''no-store''\<rparr>
      | Some s \<Rightarrow>
          (case cgi_line (cgi_value 14 s) of
             None \<Rightarrow> r
           | Some v \<Rightarrow> if 0 < length v \<and> length v < 64 then r\<lparr>rs_cache_control := v\<rparr> else r))"

definition cgi_body_start :: "string \<Rightarrow> nat option" where
  "cgi_body_start out =
     (case strstr out (crlf @ crlf) of
        Some s \<Rightarrow> Some (length out - length s + 4)
      | None \<Rightarrow> (case strstr out [LF, LF] of Some s \<Rightarrow> Some (length out - length s + 2) | None \<Rightarrow> None))"

section \<open>Running a script\<close>

record cgi_cfg =
  cg_root :: string
  cg_port :: int
  cg_auth_file :: string
  cg_threshold :: int
  cg_environ :: "string list"
  cg_xusr :: "string \<Rightarrow> bool"
  cg_alloc :: "nat \<Rightarrow> bool"
  cg_mktemp :: "string option"

datatype cgi_run = CgiPipeFailed | CgiForkFailed | CgiRun "cgi_event list" "bool option"

record cgi_result =
  cr_ret :: int
  cr_resp :: HttpResponse
  cr_temp :: "(string \<times> string) option"
  cr_killed :: bool

definition cgi_fail :: "HttpResponse \<Rightarrow> int \<Rightarrow> string \<Rightarrow> cgi_result" where
  "cgi_fail r sc st =
     \<lparr>cr_ret = - 1, cr_resp = r\<lparr>rs_status_code := sc, rs_status_text := st\<rparr>, cr_temp = None, cr_killed = False\<rparr>"

definition cgi_response :: "cgi_cfg \<Rightarrow> fs \<Rightarrow> string \<Rightarrow> HttpResponse \<Rightarrow> cgi_result" where
  "cgi_response cfg fs output r0 =
     (let out = cstr output
      in case cgi_body_start out of
           None \<Rightarrow> cgi_fail r0 500 ''Internal Server Error''
         | Some hdr_len \<Rightarrow>
             let r1 = r0\<lparr>rs_body_length := wrap32 (int (length output) - int hdr_len)\<rparr>;
                 r2 = cgi_cache_control out hdr_len (cgi_status out hdr_len (cgi_location out hdr_len (cgi_content_type out hdr_len r1)));
                 r3 = (if rs_status_code r2 = 0 then r2\<lparr>rs_status_code := 200, rs_status_text := ''OK''\<rparr> else r2)
             in if rs_body_length r3 > cg_threshold cfg then
                  (case cg_mktemp cfg of
                     Some tmp \<Rightarrow>
                       \<lparr>cr_ret = 0, cr_resp = r3\<lparr>rs_stream_path := Some tmp, rs_stream_is_temp := True\<rparr>,
                        cr_temp = Some (tmp, drop hdr_len output), cr_killed = False\<rparr>
                   | None \<Rightarrow>
                       if rs_stream_path r3 = None
                       then \<lparr>cr_ret = - 1, cr_resp = set_error_response fs r3 507 ''Insufficient Storage'', cr_temp = None, cr_killed = False\<rparr>
                       else \<lparr>cr_ret = 0, cr_resp = r3, cr_temp = None, cr_killed = False\<rparr>)
                else \<lparr>cr_ret = 0, cr_resp = r3\<lparr>rs_body := Some (drop hdr_len out)\<rparr>, cr_temp = None, cr_killed = False\<rparr>)"

definition execute_cgi ::
  "cgi_cfg \<Rightarrow> fs \<Rightarrow> (string \<Rightarrow> string list \<Rightarrow> cgi_run) \<Rightarrow> HttpRequest \<Rightarrow> HttpResponse \<Rightarrow> cgi_result" where
  "execute_cgi cfg fs run req r =
     (let path = set_str MAX_PATH_SIZE (rq_path req);
          script = takeWhile (\<lambda>c. c \<noteq> CHR ''?'') path;
          query = (case strchr path (CHR ''?'') of None \<Rightarrow> [] | Some q \<Rightarrow> tl q)
      in if path_has_dot_component script then cgi_fail r 404 ''Not Found''
         else case resolve_within fs (cg_root cfg) (drop 8 script) MAX_PATH_SIZE of
                None \<Rightarrow> cgi_fail r 404 ''Not Found''
              | Some p \<Rightarrow>
                  let script_path = set_str MAX_PATH_SIZE p
                  in if fs_stat fs script_path = None \<or> \<not> cg_xusr cfg script_path then cgi_fail r 403 ''Forbidden''
                     else case run script_path (cgi_environ (cg_port cfg) (cg_auth_file cfg) req query (cg_environ cfg)) of
                            CgiPipeFailed \<Rightarrow> cgi_fail r 500 ''Internal Server Error''
                          | CgiForkFailed \<Rightarrow> cgi_fail r 500 ''Internal Server Error''
                          | CgiRun events ok \<Rightarrow>
                              if \<not> cg_alloc cfg MAX_RESPONSE_SIZE then cgi_fail r 500 ''Internal Server Error''
                              else case cgi_collect (cg_alloc cfg) MAX_RESPONSE_SIZE events [] of
                                     (output, killed) \<Rightarrow>
                                       if killed then
                                         \<lparr>cr_ret = - 1, cr_resp = set_error_response fs r 504 ''Gateway Timeout'',
                                          cr_temp = None, cr_killed = True\<rparr>
                                       else if ok = Some False then cgi_fail r 500 ''Internal Server Error''
                                       else cgi_response cfg fs output r)"

section \<open>Properties\<close>

lemma cgi_environ_allowed: "e \<in> set (cgi_environ port auth req query env0) \<Longrightarrow> cgi_env_allowed e"
  unfolding cgi_environ_def Let_def by (drule in_set_takeD) simp

lemma resolve_within_fits: "resolve_within fs root d n = Some p \<Longrightarrow> length p \<le> n - 1"
  by (auto simp: resolve_within_def Let_def split: option.splits if_splits list.splits)

text \<open>
  (C17) CGI is confined.  Whatever the request, the server runs a program only if its resolved path lies
  inside the CGI directory and is executable for its owner, and gives it an environment in which
  every variable is on the allowlist, whatever the server's own environment holds: two script
  behaviours that agree on such programs and environments give the same response.  So no request can
  start another program, and no credential or path of the server outside the list reaches a script.
\<close>

theorem cgi_confined:
  assumes "length (cg_root cfg) < MAX_PATH_SIZE"
    and "\<forall>p env. inside_root (cg_root cfg) p \<and> cg_xusr cfg p \<and> list_all (\<lambda>e. env_name e \<in> set cgi_env_allow) env
           \<longrightarrow> run1 p env = run2 p env"
  shows "execute_cgi cfg fs run1 req r = execute_cgi cfg fs run2 req r"
proof -
  have env: "list_all (\<lambda>e. env_name e \<in> set cgi_env_allow) (cgi_environ port auth req query env0)" for port auth query env0
    using cgi_environ_allowed by (fastforce simp: list_all_iff cgi_env_allowed_def)
  have "run1 (set_str MAX_PATH_SIZE p) (cgi_environ (cg_port cfg) (cg_auth_file cfg) req q (cg_environ cfg)) =
        run2 (set_str MAX_PATH_SIZE p) (cgi_environ (cg_port cfg) (cg_auth_file cfg) req q (cg_environ cfg))"
    if "resolve_within fs (cg_root cfg) d MAX_PATH_SIZE = Some p" "cg_xusr cfg (set_str MAX_PATH_SIZE p)" for d p q
  proof -
    have "set_str MAX_PATH_SIZE p = p"
      using resolve_within_fits [OF that(1)] by (simp add: set_str_def MAX_PATH_SIZE_def)
    then show ?thesis
      using assms(2) env that resolve_within_inside [OF that(1) assms(1)] by auto
  qed
  then show ?thesis by (auto simp: execute_cgi_def Let_def split: option.split)
qed

definition demo_cgi_cfg :: cgi_cfg where
  "demo_cgi_cfg = \<lparr>cg_root = ''/c'', cg_port = 80, cg_auth_file = [], cg_threshold = 524288,
     cg_environ = [''LLM_API_KEY=secret'', ''PATH=/bin''], cg_xusr = (\<lambda>p. p = ''/c/s''), cg_alloc = (\<lambda>_. True), cg_mktemp = None\<rparr>"

definition demo_cgi_fs :: fs where
  "demo_cgi_fs = \<lparr>
     fs_stat = (\<lambda>p. Some \<lparr>st_isdir = False, st_isreg = True, st_rusr = True, st_size = 2, st_mtime = 5\<rparr>),
     fs_read = (\<lambda>_. None), fs_realpath = (\<lambda>p. Some p), fs_readdir = (\<lambda>_. None)\<rparr>"

text \<open>A script that prints what it can see of the key, and one that does not look.\<close>

definition demo_script :: "bool \<Rightarrow> string \<Rightarrow> string list \<Rightarrow> cgi_run" where
  "demo_script nosy p env =
     CgiRun [CgiData (''Status: 200 OK'' @ [LF, LF] @
                      (if nosy \<and> list_ex (\<lambda>e. env_name e = ''LLM_API_KEY'') env then ''leak'' else ''ok'')) False False, CgiEof] None"

theorem cgi_confined_witness:
  "execute_cgi demo_cgi_cfg demo_cgi_fs (demo_script True) (zero_request\<lparr>rq_path := ''/cgi-bin/s''\<rparr>) zero_response =
   execute_cgi demo_cgi_cfg demo_cgi_fs (demo_script False) (zero_request\<lparr>rq_path := ''/cgi-bin/s''\<rparr>) zero_response"
proof (rule cgi_confined)
  show "length (cg_root demo_cgi_cfg) < MAX_PATH_SIZE" by (simp add: demo_cgi_cfg_def MAX_PATH_SIZE_def)
  have "''LLM_API_KEY'' \<notin> set cgi_env_allow" by code_simp
  then show "\<forall>p env. inside_root (cg_root demo_cgi_cfg) p \<and> cg_xusr demo_cgi_cfg p \<and>
      list_all (\<lambda>e. env_name e \<in> set cgi_env_allow) env \<longrightarrow> demo_script True p env = demo_script False p env"
    by (fastforce simp: demo_script_def list_ex_iff list_all_iff)
qed

lemmas cgi_response_evals =
  cgi_response_def cgi_body_start_def cgi_content_type_def cgi_location_def cgi_status_def cgi_cache_control_def
  in_head_def cgi_line_def cgi_value_def cstr_def ci_prefix_def tolower_def Let_def zero_response_def wrap32_def
  atoi_def strtol10_def isspace_def isdigit_def dec_value_def LONG_MAX_def LONG_MIN_def strchr_def starts_with_def

text \<open>
  The header block is searched for substrings.  A status without a reason phrase takes its text from
  the next line, and \<open>Content-Location\<close> is read as a redirect.
\<close>

theorem cgi_status_text_from_next_line:
  "rs_status_text (cgi_status (''Status: 404'' @ [LF] @ ''Content-Type: text/plain'' @ [LF, LF]) 38 zero_response) = ''text/plain''"
  by code_simp

theorem cgi_content_location_redirects:
  "rs_status_code (cgi_location (''Content-Location: /x'' @ [LF, LF]) 22 zero_response) = 302"
  by code_simp

text \<open>
  A script that prints a NUL: the body is copied as a C string but announced with its full length, so
  \<open>build_response\<close> copies bytes behind the copy.
\<close>

theorem cgi_binary_body_overread:
  "(let r = cr_resp (cgi_response demo_cgi_cfg demo_cgi_fs
      (''Content-Type: image/png'' @ [LF, LF] @ ''a'' @ [NUL] @ ''bcd'') zero_response)
    in rs_body r = Some ''a'' \<and> rs_body_length r = 5)"
  by (simp add: cgi_response_evals demo_cgi_cfg_def)

end
