(* ===== verification/Metrics.thy ===== *)
theory Metrics
  imports Prelude "HOL-Library.Word"
begin

text \<open>
  \<open>src/src/core/metrics.c\<close>: the shared counters and the \<open>/metrics\<close> page.  The table is absent
  (\<open>None\<close>) when it could not be mapped.
\<close>

record MetricsCounters =
  mc_requests :: "64 word list"
  mc_responses :: "64 word list"
  mc_workers_busy :: "64 word"
  mc_slots_taken :: "64 word"
  mc_slots_free :: "64 word"
  mc_retries :: "64 word"
  mc_cgi_errors :: "64 word"

definition zero_metrics :: MetricsCounters where
  "zero_metrics = \<lparr>mc_requests = [0, 0], mc_responses = [0, 0, 0, 0, 0], mc_workers_busy = 0, mc_slots_taken = 0,
     mc_slots_free = 0, mc_retries = 0, mc_cgi_errors = 0\<rparr>"

type_synonym metrics = "MetricsCounters option"

definition metrics_init :: "metrics \<Rightarrow> bool \<Rightarrow> metrics" where
  "metrics_init m mmap_ok = (case m of Some c \<Rightarrow> Some c | None \<Rightarrow> if mmap_ok then Some zero_metrics else None)"

definition metrics_up :: "metrics \<Rightarrow> bool" where
  "metrics_up m \<longleftrightarrow> m \<noteq> None"

definition metrics_inc_request :: "nat \<Rightarrow> metrics \<Rightarrow> metrics" where
  "metrics_inc_request i m = map_option (\<lambda>c. c\<lparr>mc_requests := (mc_requests c)[i := mc_requests c ! i + 1]\<rparr>) m"

definition metrics_inc_response :: "nat \<Rightarrow> metrics \<Rightarrow> metrics" where
  "metrics_inc_response i m = map_option (\<lambda>c. c\<lparr>mc_responses := (mc_responses c)[i := mc_responses c ! i + 1]\<rparr>) m"

definition metrics_inc_cgi_errors :: "metrics \<Rightarrow> metrics" where
  "metrics_inc_cgi_errors m = map_option (\<lambda>c. c\<lparr>mc_cgi_errors := mc_cgi_errors c + 1\<rparr>) m"

section \<open>The page\<close>

definition u64 :: "64 word \<Rightarrow> string" where
  "u64 w = nat_dec (unat w)"

definition help_line :: "string \<Rightarrow> string \<Rightarrow> string" where
  "help_line name what = ''# HELP agenthttpd_'' @ name @ '' '' @ what @ [LF]"

definition type_line :: "string \<Rightarrow> string \<Rightarrow> string" where
  "type_line name kind = ''# TYPE agenthttpd_'' @ name @ '' '' @ kind @ [LF]"

definition metric_line :: "string \<Rightarrow> string \<Rightarrow> 64 word \<Rightarrow> string" where
  "metric_line name labels v = ''agenthttpd_'' @ name @ labels @ '' '' @ u64 v @ [LF]"

definition label :: "string \<Rightarrow> string \<Rightarrow> string" where
  "label k v = ''{'' @ k @ ''='' @ [DQUOTE] @ v @ [DQUOTE] @ ''}''"

text \<open>The texts of the EMIT calls in order.\<close>

definition metrics_lines :: "MetricsCounters \<Rightarrow> 64 word \<Rightarrow> string list" where
  "metrics_lines c up =
     [help_line ''uptime_seconds'' ''Seconds since server start.'', type_line ''uptime_seconds'' ''gauge'',
      metric_line ''uptime_seconds'' [] up @ [LF],
      help_line ''requests_total'' ''Requests served, by dispatch path.'', type_line ''requests_total'' ''counter'',
      metric_line ''requests_total'' (label ''path'' ''fast'') (mc_requests c ! 0),
      metric_line ''requests_total'' (label ''path'' ''slow'') (mc_requests c ! 1), [LF],
      help_line ''responses_total'' ''Responses by status class.'', type_line ''responses_total'' ''counter'',
      metric_line ''responses_total'' (label ''status'' ''1xx'') (mc_responses c ! 0),
      metric_line ''responses_total'' (label ''status'' ''2xx'') (mc_responses c ! 1),
      metric_line ''responses_total'' (label ''status'' ''3xx'') (mc_responses c ! 2),
      metric_line ''responses_total'' (label ''status'' ''4xx'') (mc_responses c ! 3),
      metric_line ''responses_total'' (label ''status'' ''5xx'') (mc_responses c ! 4), [LF],
      help_line ''workers_busy'' ''Pool workers currently busy.'', type_line ''workers_busy'' ''gauge'',
      metric_line ''workers_busy'' [] (mc_workers_busy c) @ [LF],
      help_line ''agent_slots_taken'' ''Agent concurrency slots in use.'', type_line ''agent_slots_taken'' ''gauge''] @
     (if mc_slots_taken c + mc_slots_free c > 0 then
        [metric_line ''agent_slots_taken'' [] (mc_slots_taken c), type_line ''agent_slots_max'' ''gauge'',
         metric_line ''agent_slots_max'' [] (mc_slots_taken c + mc_slots_free c) @ [LF]]
      else [metric_line ''agent_slots_taken'' [] 0 @ [LF]]) @
     [help_line ''chat_upstream_retries_total'' ''Transient upstream failures retried.'',
      type_line ''chat_upstream_retries_total'' ''counter'',
      metric_line ''chat_upstream_retries_total'' [] (mc_retries c) @ [LF],
      help_line ''cgi_errors_total'' ''CGI children killed (timeout/disconnect).'',
      type_line ''cgi_errors_total'' ''counter'', metric_line ''cgi_errors_total'' [] (mc_cgi_errors c)]"

text \<open>EMIT: the text in the buffer and the cursor, which advances by what \<open>snprintf\<close> wanted to write.\<close>

definition emit :: "nat \<Rightarrow> string \<times> nat \<Rightarrow> string \<Rightarrow> string \<times> nat" where
  "emit bufsize st s =
     (case st of (text', p) \<Rightarrow>
        if p \<ge> bufsize - 1 then (text', p) else (take (bufsize - 1) (text' @ s), p + length s))"

definition metrics_render :: "metrics \<Rightarrow> 64 word \<Rightarrow> nat \<Rightarrow> string \<times> nat" where
  "metrics_render m up bufsize =
     (case m of
        None \<Rightarrow> (let s = ''# metrics disabled (shared memory unavailable)'' @ [LF] in (take (bufsize - 1) s, length s))
      | Some c \<Rightarrow> foldl (emit bufsize) ([], 0) (metrics_lines c up))"

section \<open>Properties\<close>

lemma length_u64: "length (u64 w) \<le> 20"
proof -
  have "unat w < 2 ^ LENGTH(64)" by (rule unsigned_less)
  then have "unat w < 10 ^ Suc 19" by simp
  then show ?thesis unfolding u64_def using length_nat_dec by fastforce
qed

lemma length_metric_line: "length (metric_line name labels v) \<le> 33 + length name + length labels"
  using length_u64 [of v] by (simp add: metric_line_def)

lemma emit_fits:
  "length t + sum_list (map length ls) < bufsize - 1 \<Longrightarrow>
   foldl (emit bufsize) (t, length t) ls = (t @ concat ls, length t + sum_list (map length ls))"
proof (induction ls arbitrary: t)
  case (Cons l ls)
  have "emit bufsize (t, length t) l = (t @ l, length (t @ l))" using Cons.prems by (simp add: emit_def)
  then show ?case using Cons.IH [of "t @ l"] Cons.prems by (simp add: add.assoc)
qed simp

lemma sum_list_le: "list_all (\<lambda>l. f l \<le> m) ls \<Longrightarrow> sum_list (map f ls) \<le> length ls * (m :: nat)"
  by (induction ls) auto

lemma metrics_lines_length: "sum_list (map length (metrics_lines c up)) \<le> 3000"
proof -
  have u: "length (u64 w) \<le> k" if "20 \<le> k" for w k using length_u64 [of w] that by simp
  have "list_all (\<lambda>l. length l \<le> 100) (metrics_lines c up)"
    by (simp add: metrics_lines_def help_line_def type_line_def metric_line_def label_def u)
  moreover have "length (metrics_lines c up) \<le> 30" by (simp add: metrics_lines_def)
  ultimately show ?thesis using sum_list_le [of length 100 "metrics_lines c up"] by linarith
qed

text \<open>
  The metrics page is never cut.  For all counter values and every buffer of at least 4096 bytes
  the page is rendered completely, and the length returned is the number of bytes in the buffer.
\<close>

theorem metrics_render_complete:
  assumes "4096 \<le> bufsize"
  shows "metrics_render (Some c) up bufsize = (concat (metrics_lines c up), length (concat (metrics_lines c up)))"
  using emit_fits [of "[]" "metrics_lines c up" bufsize] metrics_lines_length [of c up] assms
  by (simp add: metrics_render_def length_concat)

theorem metrics_render_complete_witness:
  "snd (metrics_render (Some zero_metrics) 7 8192) = length (concat (metrics_lines zero_metrics 7))"
  using metrics_render_complete [of 8192 zero_metrics 7] by simp

end
