(* ===== verification/Login_Form.thy ===== *)
theory Login_Form
  imports Login_Limit Auth_Session Http_Resp
begin

text \<open>
  The \<open>/login\<close> endpoint of \<open>src/src/http/http_route.c\<close>: the page, the urlencoded form and the login
  itself, which puts together the login limiter, the password table and the session store.  The
  clock and the entropy are read once per request.  \<open>None\<close> as a handler's result is a store outside
  a buffer by \<open>html_escape\<close>.
\<close>

definition LOGIN_PAGE_MAX :: nat where "LOGIN_PAGE_MAX = 65536"

section \<open>The page\<close>

text \<open>The template: the file of AUTH_LOGIN_PAGE when it can be read and fits, otherwise empty.\<close>

definition load_login_template :: "string option \<Rightarrow> (string \<Rightarrow> string option) \<Rightarrow> string" where
  "load_login_template e file =
     (case e of
        None \<Rightarrow> []
      | Some path \<Rightarrow>
          if path = [] then []
          else case file path of
                 None \<Rightarrow> []
               | Some content \<Rightarrow> if length content \<ge> LOGIN_PAGE_MAX then [] else cstr content)"

text \<open>
  \<open>subst\<close>: every occurrence of the key in the rest of the buffer; an occurrence whose value does not
  fit cuts the text there.
\<close>

lemma strstr_shorter: "strstr s key = Some t \<Longrightarrow> length t \<le> length s"
  by (induction s key rule: strstr.induct) (auto split: if_splits)

function subst_from :: "nat \<Rightarrow> string \<Rightarrow> string \<Rightarrow> string \<Rightarrow> string \<Rightarrow> string" where
  "subst_from buf_size key val front rest =
     (case (if key = [] then None else strstr rest key) of
        None \<Rightarrow> front @ rest
      | Some t \<Rightarrow>
          let s = front @ take (length rest - length t) rest; tail = drop (length key) t
          in if length s + length val < buf_size \<and> length tail + length val + 1 \<le> buf_size - length s
             then subst_from buf_size key val (s @ val) tail
             else s)"
  by pat_completeness auto
termination
proof (relation "measure (\<lambda>(b, k, v, f, r). length r)", goal_cases)
  case (2 buf_size key val front rest t s tail)
  have k: "key \<noteq> []" and st: "strstr rest key = Some t" using 2(1) by (auto split: if_splits)
  have "t \<noteq> []" using st k by (induction rest key rule: strstr.induct) (auto split: if_splits)
  then show ?case using strstr_shorter [OF st] k 2(3) by (cases t; cases key; simp)
qed simp

declare subst_from.simps [simp del]

definition subst :: "nat \<Rightarrow> string \<Rightarrow> string \<Rightarrow> string \<Rightarrow> string" where
  "subst buf_size key val s = subst_from buf_size key val [] s"

definition put_str :: "string \<Rightarrow> nat \<Rightarrow> nat \<Rightarrow> string \<Rightarrow> string" where
  "put_str dst cap off src = (if off + length src + 1 > cap then dst else take off dst @ src)"

definition builtin_login_page :: string where
  "builtin_login_page =
     ''<!doctype html><html><head><meta charset='' @ [DQUOTE] @ ''utf-8'' @ [DQUOTE] @ ''>'' @
     ''<meta name='' @ [DQUOTE] @ ''viewport'' @ [DQUOTE] @ '' content='' @ [DQUOTE] @ ''width=device-width,initial-scale=1'' @ [DQUOTE] @ ''>'' @
     ''<title>@@TITLE@@</title>'' @
     ''<style>body{font:16px/1.5 system-ui,-apple-system,sans-serif;'' @
     ''display:grid;place-items:center;min-height:100vh;margin:0;'' @
     ''background:#f6f7f9;color:#111827}.box{background:#fff;border:'' @
     ''1px solid #e5e7eb;border-radius:12px;padding:28px;width:min(340px,90vw);}'' @
     ''h1{font-size:17px;margin:0 0 2px}p{color:#6b7280;font-size:13px;'' @
     ''margin:0 0 18px}label{display:block;font-size:13px;color:#374151;'' @
     ''margin-bottom:4px}input{width:100%;box-sizing:border-box;padding:9px 10px;'' @
     ''border:1px solid #d1d5db;border-radius:8px;font:inherit;margin-bottom:14px;}'' @
     ''button{width:100%;padding:10px;border:0;border-radius:8px;background:#111827;'' @
     ''color:#fff;font:inherit;font-weight:600;cursor:pointer}.err{background:#fef2f2;'' @
     ''color:#b91c1c;border:1px solid #fecaca;border-radius:8px;padding:8px 10px;'' @
     ''font-size:13px;margin-bottom:14px}'' @
     ''</style></head><body><div class='' @ [DQUOTE] @ ''box'' @ [DQUOTE] @ ''><h1>@@REALM@@</h1>'' @
     ''<p>Sign in to continue.</p>'' @
     ''<div>@@ERROR@@</div>'' @
     ''<form method='' @ [DQUOTE] @ ''POST'' @ [DQUOTE] @ '' action='' @ [DQUOTE] @ ''/login'' @ [DQUOTE] @ ''>'' @
     ''<input type='' @ [DQUOTE] @ ''hidden'' @ [DQUOTE] @ '' name='' @ [DQUOTE] @ ''back'' @ [DQUOTE] @ '' value='' @ [DQUOTE] @ ''@@BACK@@'' @ [DQUOTE] @ ''>'' @
     ''<label for='' @ [DQUOTE] @ ''u'' @ [DQUOTE] @ ''>Username</label>'' @
     ''<input id='' @ [DQUOTE] @ ''u'' @ [DQUOTE] @ '' name='' @ [DQUOTE] @ ''username'' @ [DQUOTE] @ '' autocomplete='' @ [DQUOTE] @ ''username'' @ [DQUOTE] @ '' autofocus required>'' @
     ''<label for='' @ [DQUOTE] @ ''p'' @ [DQUOTE] @ ''>Password</label>'' @
     ''<input id='' @ [DQUOTE] @ ''p'' @ [DQUOTE] @ '' name='' @ [DQUOTE] @ ''password'' @ [DQUOTE] @ '' type='' @ [DQUOTE] @ ''password'' @ [DQUOTE] @
     '' autocomplete='' @ [DQUOTE] @ ''current-password'' @ [DQUOTE] @ '' required>'' @
     ''<button type='' @ [DQUOTE] @ ''submit'' @ [DQUOTE] @ ''>Sign in</button></form></div></body></html>''"

definition is_safe_back :: "string \<Rightarrow> bool" where
  "is_safe_back s =
     (case s of
        [] \<Rightarrow> False
      | c # r \<Rightarrow>
          if c \<noteq> CHR ''/'' \<or> (r \<noteq> [] \<and> hd r = CHR ''/'') \<or> BSLASH \<in> set s then False
          else list_all (\<lambda>c. \<not> (code c < 32 \<or> code c = 127)) s)"

definition escaped :: "string \<Rightarrow> string option" where
  "escaped s = (case html_escape s (LOGIN_PAGE_MAX div 4) of Escaped t \<Rightarrow> Some t | Overrun _ \<Rightarrow> None)"

definition render_login_page :: "string \<Rightarrow> string \<Rightarrow> HttpResponse \<Rightarrow> string \<Rightarrow> string \<Rightarrow> HttpResponse option" where
  "render_login_page template realm r err back =
     (let src = (if template \<noteq> [] then template else builtin_login_page);
          t0 = put_str [] LOGIN_PAGE_MAX 0 src
      in case (escaped realm, escaped back, escaped err) of
           (Some er, Some eb, Some ee) \<Rightarrow>
             let t1 = subst LOGIN_PAGE_MAX ''@@TITLE@@'' er t0;
                 t2 = subst LOGIN_PAGE_MAX ''@@REALM@@'' er t1;
                 t3 = subst LOGIN_PAGE_MAX ''@@BACK@@'' eb t2;
                 t4 = subst LOGIN_PAGE_MAX ''@@ERROR@@'' ee t3
             in Some (r\<lparr>rs_status_code := 200, rs_status_text := ''OK'', rs_content_type := ''text/html; charset=utf-8'',
                        rs_body := Some t4, rs_body_length := int (length t4), rs_cache_control := ''no-store''\<rparr>)
         | _ \<Rightarrow> None)"

section \<open>The form\<close>

text \<open>The value of a field, into a buffer of \<open>room + 1\<close> bytes.\<close>

fun field_decode :: "nat \<Rightarrow> string \<Rightarrow> string" where
  "field_decode 0 v = []"
| "field_decode (Suc room) [] = []"
| "field_decode (Suc room) (c # v) =
     (if c = CHR ''+'' then CHR '' '' # field_decode room v
      else if c = CHR ''%'' \<and> length v \<ge> 2 then
        (case (hexval (v ! 0), hexval (v ! 1)) of
           (Some a, Some b) \<Rightarrow> char_of (16 * a + b)
         | _ \<Rightarrow> CHR ''%'') # field_decode room (drop 2 v)
      else c # field_decode room v)"

fun form_segments :: "string list \<Rightarrow> string \<Rightarrow> nat \<Rightarrow> string option" where
  "form_segments [] name out_size = None"
| "form_segments (seg # segs) name out_size =
     (if CHR ''='' \<in> set seg \<and> takeWhile (\<lambda>c. c \<noteq> CHR ''='') seg = name
      then Some (cstr (field_decode (out_size - 1) (tl (dropWhile (\<lambda>c. c \<noteq> CHR ''='') seg))))
      else form_segments segs name out_size)"

definition form_field :: "string option \<Rightarrow> int \<Rightarrow> string \<Rightarrow> nat \<Rightarrow> string option" where
  "form_field body len name out_size =
     (case body of
        None \<Rightarrow> None
      | Some b \<Rightarrow> if len \<le> 0 then None else form_segments (split_on (CHR ''&'') (take (nat len) b)) name out_size)"

section \<open>The login\<close>

record login_env =
  le_now :: int
  le_entropy :: "8 word list option"
  le_fs :: fs
  le_template :: string
  le_realm :: string
  le_auth :: auth_env
  le_session :: session_cfg

record login_state =
  ls_auth :: auth_state
  ls_sessions :: "string option"
  ls_limiter :: login_table

text \<open>Where to go after the login.\<close>

definition login_back :: "string \<Rightarrow> string" where
  "login_back path =
     (case strchr path (CHR ''?'') of
        None \<Rightarrow> ''/''
      | Some q \<Rightarrow>
          if tl q = [] then ''/''
          else (case form_field (Some (tl q)) (int (length (tl q))) ''back'' 256 of
                  Some b \<Rightarrow> if is_safe_back b then b else ''/''
                | None \<Rightarrow> ''/''))"

definition login_page :: "login_env \<Rightarrow> login_state \<Rightarrow> HttpResponse \<Rightarrow> string \<Rightarrow> string \<Rightarrow> (HttpResponse \<times> login_state) option" where
  "login_page env st r err back =
     (case render_login_page (le_template env) (auth_realm_current (ae_realm_cfg (le_auth env)) (le_realm env) (ls_auth st)) r err back of
        None \<Rightarrow> None
      | Some r' \<Rightarrow> Some (r', st))"

definition handle_login :: "login_env \<Rightarrow> login_state \<Rightarrow> HttpRequest \<Rightarrow> HttpResponse \<Rightarrow> (HttpResponse \<times> login_state) option" where
  "handle_login env st req r =
     (let back = login_back (rq_path req)
      in if rq_method req = ''GET'' \<or> rq_method req = ''HEAD'' then login_page env st r [] back
         else
           let bl = (if rq_content_length req > 0 then rq_content_length req else 0)
           in case (form_field (rq_body req) bl ''username'' 128, form_field (rq_body req) bl ''password'' 256) of
                (Some user, Some pass) \<Rightarrow>
                  let ip = (if rq_remote_addr req \<noteq> [] then rq_remote_addr req else ''-'');
                      lock_for = login_limiter_blocked_for (ls_limiter st) user ip (le_now env)
                  in if lock_for > 0 then
                       Some ((set_error_response (le_fs env) r 429 ''Too Many Requests'')
                               \<lparr>rs_retry_after := (if lock_for > 2147483647 then 2147483647 else lock_for)\<rparr>, st)
                     else
                       (case auth_check_credentials (le_auth env) (ls_auth st) (Some user) (Some pass) of
                          (ok, au) \<Rightarrow>
                            let st1 = st\<lparr>ls_auth := au\<rparr>
                            in if \<not> ok then
                                 login_page env (st1\<lparr>ls_limiter := login_limiter_fail (ls_limiter st) user ip (le_now env)\<rparr>)
                                   r ''Invalid username or password.'' back
                               else
                                 let st2 = st1\<lparr>ls_limiter := login_limiter_success (ls_limiter st) user ip\<rparr>
                                 in (case auth_session_create (le_session env) (le_auth env) (le_now env) (le_entropy env)
                                            (ls_auth st2) (ls_sessions st2) (Some user) of
                                       (None, au2, file2) \<Rightarrow>
                                         Some (set_error_response (le_fs env) r 500 ''Internal Server Error'',
                                               st2\<lparr>ls_auth := au2, ls_sessions := file2\<rparr>)
                                     | (Some token, au2, file2) \<Rightarrow>
                                         let file3 = snd (auth_session_delete (le_session env) (ae_auth_file (le_auth env))
                                                        (le_now env) file2 (rq_cookie req))
                                         in Some (r\<lparr>rs_set_cookie := snd (auth_session_cookie_line (le_session env) (Some token) 256),
                                                    rs_status_code := 303, rs_status_text := ''See Other'',
                                                    rs_location := take 511 back\<rparr>,
                                                  st2\<lparr>ls_auth := au2, ls_sessions := file3\<rparr>)))
              | _ \<Rightarrow> login_page env st r ''Missing username or password.'' back)"

section \<open>Properties\<close>

lemma field_decode_length: "length (field_decode n v) \<le> n"
  by (induction n v rule: field_decode.induct) auto

lemma form_segments_length: "form_segments segs name n = Some v \<Longrightarrow> 0 < n \<Longrightarrow> length v < n"
proof (induction segs)
  case (Cons seg segs)
  show ?case
  proof (cases "CHR ''='' \<in> set seg \<and> takeWhile (\<lambda>c. c \<noteq> CHR ''='') seg = name")
    case True
    then have "v = cstr (field_decode (n - 1) (tl (dropWhile (\<lambda>c. c \<noteq> CHR ''='') seg)))" using Cons.prems(1) by auto
    moreover have "length (cstr w) \<le> length w" for w by (rule length_cstr)
    ultimately have "length v \<le> n - 1" using field_decode_length le_trans by metis
    then show ?thesis using Cons.prems(2) by simp
  next
    case False
    then show ?thesis using Cons by auto
  qed
qed simp

lemma login_back_safe: "is_safe_back (login_back path) \<and> length (login_back path) < 256"
proof -
  have "is_safe_back ''/''" by (simp add: is_safe_back_def)
  moreover have "length v < 256" if "form_field b l ''back'' 256 = Some v" for b l v
    using that form_segments_length [of _ "''back''" 256 v] by (auto simp: form_field_def split: option.splits if_splits)
  ultimately show ?thesis by (auto simp: login_back_def split: option.splits)
qed

text \<open>The one place that sets a Location, and what an error page leaves alone.\<close>

lemma set_error_location [simp]: "rs_location (set_error_response fs r c s) = rs_location r"
  "rs_set_cookie (set_error_response fs r c s) = rs_set_cookie r" "rs_status_code (set_error_response fs r c s) = c"
  by (auto simp: set_error_response_def read_file_into_response_def copy_status_text_def Let_def split: option.splits)

lemma login_page_keeps:
  "login_page env st r err back = Some (r', st') \<Longrightarrow>
   rs_location r' = rs_location r \<and> rs_set_cookie r' = rs_set_cookie r \<and> st' = st"
  by (auto simp: login_page_def render_login_page_def Let_def split: option.splits)

text \<open>
  The login redirect stays on this site.  Whatever a request to the login endpoint contains, the
  response either has no Location or one that is a same-origin absolute path: it starts with a single
  slash and has no backslash and no control byte, so it cannot point at another host nor split the
  response header.
\<close>

theorem login_redirect_safe:
  assumes "handle_login env st req r = Some (r', st')" and "rs_location r = []"
  shows "rs_location r' = [] \<or>
         (\<exists>rest. rs_location r' = CHR ''/'' # rest \<and> (rest = [] \<or> hd rest \<noteq> CHR ''/'') \<and>
            (\<forall>c\<in>set (rs_location r'). c \<noteq> BSLASH \<and> 32 \<le> code c \<and> code c \<noteq> 127))"
proof -
  have "rs_location r' = [] \<or> rs_location r' = login_back (rq_path req)"
  proof (cases "rq_method req = ''GET'' \<or> rq_method req = ''HEAD''")
    case True
    then show ?thesis using assms login_page_keeps by (fastforce simp: handle_login_def Let_def)
  next
    case False
    have long: "take 511 (login_back (rq_path req)) = login_back (rq_path req)" using login_back_safe [of "rq_path req"] by simp
    show ?thesis
      using assms False long
      by (auto simp: handle_login_def Let_def split: option.splits prod.splits if_splits dest: login_page_keeps)
  qed
  then show ?thesis
    using login_back_safe [of "rq_path req"]
    by (auto simp: is_safe_back_def list_all_iff not_less split: list.splits if_splits)
qed

lemma render_login_page_total:
  "escaped realm \<noteq> None \<Longrightarrow> escaped back \<noteq> None \<Longrightarrow> escaped err \<noteq> None \<Longrightarrow> render_login_page template realm r err back \<noteq> None"
  by (auto simp: render_login_page_def Let_def)

definition demo_login_env :: login_env where
  "demo_login_env = \<lparr>le_now = 1000, le_entropy = None, le_fs = \<lparr>fs_stat = (\<lambda>_. None), fs_read = (\<lambda>_. None), fs_realpath = (\<lambda>_. None),
     fs_readdir = (\<lambda>_. None)\<rparr>, le_template = ''@@BACK@@'', le_realm = ''r'', le_auth = demo_env, le_session = demo_cfg\<rparr>"

definition demo_login_state :: login_state where
  "demo_login_state = \<lparr>ls_auth = demo_auth, ls_sessions = Some [], ls_limiter = None\<rparr>"

theorem login_redirect_safe_witness:
  "\<exists>r' st'. handle_login demo_login_env demo_login_state
      (zero_request\<lparr>rq_method := ''GET'', rq_path := ''/login?back=//evil''\<rparr>) zero_response = Some (r', st') \<and>
      (rs_location r' = [] \<or> hd (rs_location r') = CHR ''/'')"
proof -
  let ?rq = "zero_request\<lparr>rq_method := ''GET'', rq_path := ''/login?back=//evil''\<rparr>"
  have "escaped s \<noteq> None" if "length (html_escaped s) < 16384" for s
    using html_escape_complete [of s 16384] that by (simp add: escaped_def LOGIN_PAGE_MAX_def)
  then have e: "escaped ''/'' \<noteq> None" "escaped ''r'' \<noteq> None" "escaped [] \<noteq> None"
    by (simp_all add: html_escaped_def html_entity_def)
  have "login_back ''/login?back=//evil'' = ''/''" by code_simp
  moreover have "auth_realm_current (ae_realm_cfg demo_env) ''r'' demo_auth = ''r''" by code_simp
  ultimately have "handle_login demo_login_env demo_login_state ?rq zero_response =
      (case render_login_page ''@@BACK@@'' ''r'' zero_response [] ''/'' of None \<Rightarrow> None | Some r' \<Rightarrow> Some (r', demo_login_state))"
    by (simp add: handle_login_def login_page_def demo_login_env_def demo_login_state_def split: option.split)
  moreover obtain r' where "render_login_page ''@@BACK@@'' ''r'' zero_response [] ''/'' = Some r'"
    using render_login_page_total [OF e(2,1,3), of "''@@BACK@@''" zero_response] by blast
  ultimately have h: "handle_login demo_login_env demo_login_state ?rq zero_response = Some (r', demo_login_state)"
    by (simp only: option.case)
  have "rs_location zero_response = []" by (simp add: zero_response_def)
  from login_redirect_safe [OF h this] have "rs_location r' = [] \<or> hd (rs_location r') = CHR ''/''"
    by (elim disjE exE conjE) simp_all
  with h show ?thesis by blast
qed

text \<open>
  The endpoint drives the limiter as specified.  A login form for a user from an address asks whether the
  pair is locked; if not, the verdict of the password table is recorded as a failure or a success of that pair,
  exactly once.  While the pair is locked the table is not even consulted: whatever the password, the answer is
  429 with the remaining seconds, no cookie is set and nothing of the state changes.
\<close>

theorem login_endpoint_uses_limiter:
  assumes "ls_limiter st = Some t" and "rq_method req \<noteq> ''GET''" and "rq_method req \<noteq> ''HEAD''"
    and "form_field (rq_body req) (rq_content_length req) ''username'' 128 = Some user"
    and "form_field (rq_body req) (rq_content_length req) ''password'' 256 = Some pass"
    and "rq_remote_addr req = ip" and "ip \<noteq> []"
    and "handle_login env st req r = Some (r', st')"
  shows "ls_limiter st' = Some
           (if login_blocked_key t (login_key user ip) (le_now env) > 0 then t
            else if fst (auth_check_credentials (le_auth env) (ls_auth st) (Some user) (Some pass))
            then login_success_key t (login_key user ip) else login_fail_key t (login_key user ip) (le_now env)) \<and>
         (login_blocked_key t (login_key user ip) (le_now env) > 0 \<longrightarrow>
            st' = st \<and> rs_status_code r' = 429 \<and> rs_set_cookie r' = rs_set_cookie r \<and>
            rs_retry_after r' = min 2147483647 (login_blocked_key t (login_key user ip) (le_now env)))"
proof -
  have cl: "rq_content_length req > 0" using assms(4) by (auto simp: form_field_def split: option.splits if_splits)
  show ?thesis
  proof (cases "login_blocked_key t (login_key user ip) (le_now env) > 0")
    case True
    then show ?thesis
      using assms cl by (auto simp: handle_login_def Let_def login_limiter_blocked_for_def)
  next
    case False
    obtain ok au where c: "auth_check_credentials (le_auth env) (ls_auth st) (Some user) (Some pass) = (ok, au)"
      by fastforce
    show ?thesis
    proof (cases ok)
      case True
      then show ?thesis
        using assms cl False c
        by (auto simp: handle_login_def Let_def login_limiter_blocked_for_def login_limiter_success_def split: prod.splits option.splits)
    next
      case ok: False
      then show ?thesis
        using assms cl False c
        by (auto simp: handle_login_def Let_def login_limiter_blocked_for_def login_limiter_fail_def dest!: login_page_keeps)
    qed
  qed
qed

definition demo_locked :: "login_bucket list" where
  "demo_locked = (replicate LOGIN_TABLE_SIZE zero_login_bucket)[unat (login_key ''al'' ''1'') mod LOGIN_TABLE_SIZE :=
     \<lparr>lb_key = login_key ''al'' ''1'', lb_fail_count = 5, lb_first_fail = 990, lb_lock_until = 1020\<rparr>]"

theorem login_endpoint_uses_limiter_witness:
  "\<exists>r' st'. handle_login demo_login_env (demo_login_state\<lparr>ls_limiter := Some demo_locked\<rparr>)
      (zero_request\<lparr>rq_method := ''POST'', rq_path := ''/login'', rq_body := Some ''username=al&password=pw'',
         rq_content_length := 23, rq_remote_addr := ''1''\<rparr>) zero_response = Some (r', st') \<and>
    rs_status_code r' = 429 \<and> rs_retry_after r' = 20"
proof -
  let ?st = "demo_login_state\<lparr>ls_limiter := Some demo_locked\<rparr>"
  let ?rq = "zero_request\<lparr>rq_method := ''POST'', rq_path := ''/login'', rq_body := Some ''username=al&password=pw'',
    rq_content_length := 23, rq_remote_addr := ''1''\<rparr>"
  let ?k = "login_key ''al'' ''1''"
  have u: "form_field (Some ''username=al&password=pw'') 23 ''username'' 128 = Some ''al''" by code_simp
  have p: "form_field (Some ''username=al&password=pw'') 23 ''password'' 256 = Some ''pw''" by code_simp
  have "hd (login_slots ?k) = unat ?k mod LOGIN_TABLE_SIZE" "login_slots ?k \<noteq> []"
    by (simp_all add: login_slots_def probe_slots_def LOGIN_MAX_PROBES_def upt_rec LOGIN_TABLE_SIZE_def)
  then have "login_probe ?k demo_locked = Some (unat ?k mod LOGIN_TABLE_SIZE)"
    by (cases "login_slots ?k") (simp_all add: login_probe_def demo_locked_def LOGIN_TABLE_SIZE_def)
  then have b: "login_blocked_key demo_locked ?k 1000 = 20"
    by (simp add: login_blocked_key_def demo_locked_def LOGIN_TABLE_SIZE_def)
  have "handle_login demo_login_env ?st ?rq zero_response \<noteq> None"
    using u p b by (simp add: handle_login_def demo_login_env_def login_limiter_blocked_for_def Let_def)
  then obtain r' st' where h: "handle_login demo_login_env ?st ?rq zero_response = Some (r', st')" by auto
  show ?thesis
    using login_endpoint_uses_limiter [OF _ _ _ _ _ _ _ h, of demo_locked "''al''" "''pw''" "''1''"] u p b h
    by (simp add: demo_login_env_def)
qed

text \<open>
  The form reader takes the first value of a repeated field and drops the two characters after an
  invalid escape.
\<close>

theorem form_field_first_value_wins:
  "form_field (Some ''a=1&a=2'') 7 ''a'' 8 = Some ''1'' \<and> form_field (Some ''p=1%zz2'') 7 ''p'' 8 = Some ''1%2''"
  by code_simp

end
