(* ===== verification/Route.thy ===== *)
theory Route
  imports Login_Form Framework Cgi Metrics
begin

text \<open>
  \<open>src/src/http/http_route.c\<close>: which requests the event loop may serve itself, the Vite and WebSocket
  predicates, and \<open>process_request\<close>, the dispatch of a parsed request to the built-in endpoints, the
  custom routes, CGI and static files.  With them the route predicates of \<open>llm.c\<close> and \<open>tools_api.c\<close>.
\<close>

section \<open>Classification\<close>

text \<open>
  \<open>strncmp(path, "/react/api/chat", 16)\<close> compares through the NUL of the literal, so only the bare path
  passes; the byte behind the NUL it then tests is zero, since the request was cleared before.
\<close>

definition llm_is_chat_route :: "string \<Rightarrow> string \<Rightarrow> bool" where
  "llm_is_chat_route path meth \<longleftrightarrow> path = ''/react/api/chat'' \<and> meth = ''POST''"

definition llm_is_pse_route :: "string \<Rightarrow> string \<Rightarrow> bool" where
  "llm_is_pse_route path meth \<longleftrightarrow> path = ''/react/api/pse'' \<and> meth = ''POST''"

definition tools_api_is_route :: "string \<Rightarrow> string \<Rightarrow> bool" where
  "tools_api_is_route path meth \<longleftrightarrow>
     (path = ''/react/api/tools'' \<and> meth = ''GET'') \<or> (path = ''/react/api/tools/call'' \<and> meth = ''POST'')"

definition tools_api_is_reserved :: "string \<Rightarrow> bool" where
  "tools_api_is_reserved path \<longleftrightarrow>
     starts_with ''/react/api/tools'' path \<and> (case drop 16 path of [] \<Rightarrow> True | c # _ \<Rightarrow> c = CHR ''/'')"

definition is_vite_proxy_route :: "int \<Rightarrow> HttpRequest \<Rightarrow> bool" where
  "is_vite_proxy_route vite_port req =
     (let p = rq_path req
      in if vite_port \<le> 0 then False
         else if rq_content_length req > 0 then False
         else starts_with ''/@'' p \<or> p = ''/react/react-ssr.tsx'' \<or>
              (starts_with ''/react'' p \<and> (case drop 6 p of [] \<Rightarrow> True | c # _ \<Rightarrow> c = CHR ''/'') \<and> p \<noteq> ''/react/api/chat'') \<or>
              starts_with ''/src/'' p)"

definition is_fast_request :: "int \<Rightarrow> string \<Rightarrow> HttpRequest \<Rightarrow> bool" where
  "is_fast_request vite_port react_prefix req =
     (if rq_method req \<noteq> ''GET'' \<and> rq_method req \<noteq> ''HEAD'' \<and> rq_method req \<noteq> ''OPTIONS'' then False
      else if rq_content_length req > 0 then False
      else if llm_is_chat_route (rq_path req) (rq_method req) then False
      else if tools_api_is_route (rq_path req) (rq_method req) then False
      else if is_react_prefix_path react_prefix (rq_path req) \<and> \<not> is_react_reserved_path (rq_path req) then False
      else if is_cgi_request (rq_path req) then False
      else \<not> (vite_port > 0 \<and> is_vite_proxy_route vite_port req))"

text \<open>
  The scan for an upgrade.  The lines are those of the \<open>len\<close> bytes received, but \<open>strstr\<close> looks on
  from the start of a line to the next NUL: \<open>rest\<close> is the memory behind the bytes.
\<close>

fun ws_lines :: "string \<Rightarrow> string \<Rightarrow> bool \<Rightarrow> bool \<Rightarrow> nat \<Rightarrow> bool \<times> bool" where
  "ws_lines p rest up conn 0 = (up, conn)"
| "ws_lines p rest up conn (Suc fuel) =
     (let ll = (if LF \<in> set p then length (takeWhile (\<lambda>c. c \<noteq> LF) p) + 1 else length p);
          mem = cstr (p @ rest);
          is_up = ll > 2 \<and> ci_prefix ''Upgrade:'' (p @ rest) \<and> strstr mem ''websocket'' \<noteq> None;
          is_conn = \<not> is_up \<and> ll > 2 \<and> ci_prefix ''Connection:'' (p @ rest) \<and>
                    (strstr mem ''upgrade'' \<noteq> None \<or> strstr mem ''Upgrade'' \<noteq> None)
      in if ll \<ge> length p then (up \<or> is_up, conn \<or> is_conn)
         else ws_lines (drop ll p) rest (up \<or> is_up) (conn \<or> is_conn) fuel)"

definition is_websocket_upgrade :: "string \<Rightarrow> string \<Rightarrow> bool" where
  "is_websocket_upgrade raw rest =
     (if length raw < 16 then False
      else if \<not> ci_prefix ''GET'' raw then False
      else case ws_lines raw rest False False (length raw) of (up, conn) \<Rightarrow> up \<and> conn)"

section \<open>Dispatch\<close>

record route_env =
  rt_login :: login_env
  rt_static :: static_cfg
  rt_cgi :: cgi_cfg
  rt_run :: "string \<Rightarrow> string list \<Rightarrow> cgi_run"
  rt_framework :: framework
  rt_stream :: "HttpRequest \<Rightarrow> int \<times> bool"
  rt_up :: "64 word"

record httpd_state =
  hs_login :: login_state
  hs_metrics :: metrics

text \<open>A path with nothing or a query behind it.\<close>

definition exact_or_query :: "string \<Rightarrow> string \<Rightarrow> bool" where
  "exact_or_query name path \<longleftrightarrow>
     starts_with name path \<and> (case drop (length name) path of [] \<Rightarrow> True | c # _ \<Rightarrow> c = CHR ''?'')"

definition handle_logout :: "route_env \<Rightarrow> httpd_state \<Rightarrow> HttpRequest \<Rightarrow> HttpResponse \<Rightarrow> HttpResponse \<times> httpd_state" where
  "handle_logout env st req r =
     (let le = rt_login env; ae = le_auth le; ls = hs_login st;
          (verified, cu, au1) =
            (case (if rq_authorization req = [] then None else basic_credentials (rq_authorization req)) of
               None \<Rightarrow> (False, [], ls_auth ls)
             | Some (user, pass) \<Rightarrow>
                 if user \<noteq> [] \<and> pass \<noteq> [] then
                   (case auth_check_credentials ae (ls_auth ls) (Some user) (Some pass) of
                      (ok, au) \<Rightarrow> (ok, (if ok then take 127 user else []), au))
                 else (False, [], ls_auth ls));
          (n, au2) = auth_logout_realm_bump (ae_realm_cfg ae) (ae_realm_wr ae) (le_now le) au1 (Some (if verified then cu else []));
          (removed, file) = auth_session_delete (le_session le) (ae_auth_file ae) (le_now le) (ls_sessions ls) (rq_cookie req);
          r1 = (if removed then r\<lparr>rs_set_cookie := snd (auth_session_cookie_line (le_session le) (Some []) 256)\<rparr> else r);
          q = (\<lambda>s. DQUOTE # s @ [DQUOTE]);
          out = (if n > 0 then ''{'' @ q ''ok'' @ '':true,'' @ q ''realm'' @ '':'' @ int_dec n @ '','' @ q ''user'' @ '':'' @
                   q (if verified then cu else []) @ ''}'' @ [LF]
                 else ''{'' @ q ''ok'' @ '':false,'' @ q ''detail'' @ '':'' @ q ''AUTH_REALM_FILE unset or unwritable'' @ ''}'' @ [LF])
      in (r1\<lparr>rs_status_code := 200, rs_status_text := ''OK'', rs_content_type := ''application/json'',
             rs_body := Some (take 191 out), rs_body_length := int (length out)\<rparr>,
          st\<lparr>hs_login := ls\<lparr>ls_auth := au2, ls_sessions := file\<rparr>\<rparr>))"

definition handle_metrics :: "route_env \<Rightarrow> httpd_state \<Rightarrow> HttpResponse \<Rightarrow> HttpResponse" where
  "handle_metrics env st r =
     (case metrics_render (hs_metrics st) (rt_up env) 8192 of
        (t, n) \<Rightarrow> r\<lparr>rs_status_code := 200, rs_status_text := ''OK'', rs_content_type := ''text/plain; version=0.0.4; charset=utf-8'',
                     rs_body := Some t, rs_body_length := int n\<rparr>)"

definition READ_METHODS :: string where "READ_METHODS = ''GET, HEAD, OPTIONS''"
definition ALL_METHODS :: string where "ALL_METHODS = ''GET, HEAD, POST, PUT, PATCH, DELETE, OPTIONS''"

definition writer_method :: "string \<Rightarrow> bool" where
  "writer_method m \<longleftrightarrow> m = ''POST'' \<or> m = ''PUT'' \<or> m = ''PATCH'' \<or> m = ''DELETE''"

text \<open>After the built-in endpoints and the custom routes: methods, then CGI or static files.\<close>

definition serve_resource ::
  "route_env \<Rightarrow> httpd_state \<Rightarrow> HttpRequest \<Rightarrow> HttpResponse \<Rightarrow> (int \<times> HttpResponse \<times> httpd_state) option" where
  "serve_resource env st req r =
     (let fs = le_fs (rt_login env)
      in if is_cgi_request (rq_path req) then
           (if drop 8 (rq_path req) = [] then
              Some (0, r\<lparr>rs_status_code := 301, rs_status_text := ''Moved Permanently'', rs_location := ''/cgi-bin/''\<rparr>, st)
            else if drop 8 (rq_path req) = ''/'' then
              (case handle_directory (rt_static env) fs (cg_root (rt_cgi env)) ''/cgi-bin/'' r of
                 None \<Rightarrow> None
               | Some (_, r') \<Rightarrow> Some (0, r', st))
            else
              let c = execute_cgi (rt_cgi env) fs (rt_run env) req r
              in Some (0, cr_resp c, if cr_killed c then st\<lparr>hs_metrics := metrics_inc_cgi_errors (hs_metrics st)\<rparr> else st))
         else
           (case handle_views_file (rt_static env) fs req r of
              None \<Rightarrow> None
            | Some (v, r1) \<Rightarrow>
                if v \<noteq> 1 then Some (0, r1, st)
                else (case handle_static_file (rt_static env) fs req r1 of
                        None \<Rightarrow> None
                      | Some (_, r2) \<Rightarrow> Some (0, r2, st))))"

definition process_request ::
  "route_env \<Rightarrow> httpd_state \<Rightarrow> HttpRequest \<Rightarrow> HttpResponse \<Rightarrow> (int \<times> HttpResponse \<times> httpd_state) option" where
  "process_request env st req r =
     (let le = rt_login env; fs = le_fs le
      in if exact_or_query ''/health'' (rq_path req) then
           Some (0, r\<lparr>rs_status_code := 200, rs_status_text := ''OK'', rs_content_type := ''text/plain'',
                      rs_body := Some (''ok'' @ [LF]), rs_body_length := 3\<rparr>, st)
         else if is_logout_path (rq_path req) then
           (case handle_logout env st req r of (r', st') \<Rightarrow> Some (0, r', st'))
         else if is_login_path (le_session le) (ae_auth_file (le_auth le)) (rq_path req) then
           (case handle_login le (hs_login st) req r of
              None \<Rightarrow> None
            | Some (r', ls) \<Rightarrow> Some (0, r', st\<lparr>hs_login := ls\<rparr>))
         else if exact_or_query ''/metrics'' (rq_path req) then Some (0, handle_metrics env st r, st)
         else if writer_method (rq_method req) \<and> \<not> request_is_same_origin req then
           Some (- 1, set_error_response fs r 403 ''Forbidden'', st)
         else
           (case framework_route_dispatch (rt_framework env) req r of
              (hit, req1, r1) \<Rightarrow>
                if hit then
                  (if rs_stream_fn r1 then
                     (case rt_stream env req1 of
                        (sent, streamed) \<Rightarrow>
                          let r2 = (if sent > 0 then r1\<lparr>rs_body_length := wrap32 sent\<rparr> else r1)
                          in Some (0, r2\<lparr>rs_handled := streamed, rs_stream_fn := False\<rparr>, st))
                   else Some (0, r1, st))
                else if rq_method req1 = ''GET'' \<or> rq_method req1 = ''HEAD'' then serve_resource env st req1 r1
                else if writer_method (rq_method req1) then
                  (if \<not> is_cgi_request (rq_path req1) then
                     Some (- 1, (set_error_response fs r1 405 ''Method Not Allowed'')\<lparr>rs_allow := READ_METHODS\<rparr>, st)
                   else serve_resource env st req1 r1)
                else if rq_method req1 = ''OPTIONS'' then
                  Some (0, r1\<lparr>rs_status_code := 200, rs_status_text := ''OK'', rs_body := Some (''ok'' @ [LF]), rs_body_length := 3,
                             rs_allow := (if is_cgi_request (rq_path req1) then ALL_METHODS else READ_METHODS)\<rparr>, st)
                else Some (- 1, set_error_response fs r1 501 ''Not Implemented'', st)))"

section \<open>The cross-origin gate\<close>

text \<open>The paths that are answered before the gate.\<close>

definition built_in_path :: "route_env \<Rightarrow> string \<Rightarrow> bool" where
  "built_in_path env path \<longleftrightarrow>
     exact_or_query ''/health'' path \<or> is_logout_path path \<or>
     is_login_path (le_session (rt_login env)) (ae_auth_file (le_auth (rt_login env))) path \<or>
     exact_or_query ''/metrics'' path"

lemma foreign_origin:
  assumes "rq_sec_fetch_site req = []" and "rq_origin req = scheme @ ''://'' @ oh"
    and "CHR '':'' \<notin> set scheme"
    and "split_host oh 256 = Some (ohost, oport)" and "split_host (rq_host req) 256 = Some (hhost, hport)"
    and "ohost \<noteq> hhost"
  shows "\<not> request_is_same_origin req"
proof -
  have "strstr (scheme @ ''://'' @ oh) ''://'' = Some (''://'' @ oh)"
    using assms(3) by (induction scheme) auto
  then show ?thesis
    using assms by (simp add: request_is_same_origin_def Let_def)
qed


definition demo_route_env :: route_env where
  "demo_route_env = \<lparr>rt_login = demo_login_env,
     rt_static = demo_static_cfg, rt_cgi = demo_cgi_cfg,
     rt_run = demo_script True, rt_framework = demo_framework, rt_stream = (\<lambda>_. (0, False)), rt_up = 0\<rparr>"


end
