(* ===== verification/Worker_Pool.thy ===== *)
theory Worker_Pool
  imports Prelude "HOL-Library.Word"
begin

text \<open>
  \<open>src/src/core/worker.c\<close>: the prefork pool.  The pipe of tokens is a counting semaphore, the UNIX
  socket pair a queue of connections on their way to a worker.  A worker waits for a connection,
  serves it, puts its token back and, when SIGTERM has come meanwhile, exits.  With it the slots of
  the agent loop (\<open>agent_init\<close>, \<open>agent_slot_take\<close>, \<open>agent_slot_give\<close> in \<open>src/src/agent/agent.c\<close>), a second
  pipe used the same way.
\<close>

section \<open>The interface of a token pipe\<close>

locale semaphore =
  fixes up :: "'s \<Rightarrow> bool" and avail :: "'s \<Rightarrow> nat" and take_tok :: "'s \<Rightarrow> 's option" and give_tok :: "'s \<Rightarrow> 's"
  assumes take_none: "up s \<Longrightarrow> take_tok s = None \<longleftrightarrow> avail s = 0"
    and take_some: "up s \<Longrightarrow> take_tok s = Some s' \<Longrightarrow> up s' \<and> avail s = Suc (avail s')"
    and give_some: "up s \<Longrightarrow> up (give_tok s) \<and> avail (give_tok s) = Suc (avail s)"
begin

text \<open>Clients that take a token before they enter and give it back when they leave.\<close>

fun visit :: "bool list \<Rightarrow> 's \<times> nat \<Rightarrow> 's \<times> nat" where
  "visit [] st = st"
| "visit (enter # ops) (s, inside) =
     (if enter then (case take_tok s of None \<Rightarrow> visit ops (s, inside) | Some s' \<Rightarrow> visit ops (s', Suc inside))
      else if inside = 0 then visit ops (s, inside)
      else visit ops (give_tok s, inside - 1))"

lemma visit_conserves:
  "up s \<Longrightarrow> avail (fst (visit ops (s, inside))) + snd (visit ops (s, inside)) = avail s + inside"
proof (induction ops arbitrary: s inside)
  case (Cons enter ops)
  show ?case
    using Cons take_some [of s] give_some [of s] by (auto split: option.split)
qed simp

lemma visitors_bounded: "up s \<Longrightarrow> snd (visit ops (s, inside)) \<le> avail s + inside"
  using visit_conserves [of s ops inside] by simp

end

section \<open>The pool\<close>

definition FDPASS_MAX_N :: nat where "FDPASS_MAX_N = 64"

datatype wstate = Waiting | Serving int | Gone

record worker =
  wk_state :: wstate
  wk_term :: bool

record pool =
  pl_tokens :: nat
  pl_sock :: "int list"
  pl_workers :: "worker list"
  pl_busy :: "64 word"

text \<open>
  Starting: the size is clamped, the pipe filled, and workers are forked until a \<open>fork\<close> fails
  (\<open>forks\<close> are the results).  \<open>None\<close> when no resources can be had or no worker started.
\<close>

definition clamp_workers :: "int \<Rightarrow> nat" where
  "clamp_workers n = (if n < 1 then 1 else if n > int FDPASS_MAX_N then FDPASS_MAX_N else nat n)"

definition start_worker_pool :: "int \<Rightarrow> bool \<Rightarrow> bool list \<Rightarrow> pool option" where
  "start_worker_pool n resources forks =
     (let m = clamp_workers n; started = length (takeWhile id (take m forks))
      in if \<not> resources then None
         else if started = 0 then None
         else Some \<lparr>pl_tokens = m, pl_sock = [], pl_workers = replicate started \<lparr>wk_state = Waiting, wk_term = False\<rparr>,
                    pl_busy = 0\<rparr>)"

text \<open>The blocking claim, on the results of its system calls; \<open>None\<close> while it waits.\<close>

datatype claim_event = TokenRead | PipeClosed | ClaimIntr bool | ClaimAgain bool bool | ClaimError

fun pool_claim_slot :: "claim_event list \<Rightarrow> pool \<Rightarrow> (bool \<times> pool) option" where
  "pool_claim_slot [] p = None"
| "pool_claim_slot (e # es) p =
     (case e of
        TokenRead \<Rightarrow> Some (True, p\<lparr>pl_tokens := pl_tokens p - 1, pl_busy := pl_busy p + 1\<rparr>)
      | PipeClosed \<Rightarrow> Some (False, p)
      | ClaimIntr running \<Rightarrow> if \<not> running then Some (False, p) else pool_claim_slot es p
      | ClaimAgain running poll_ok \<Rightarrow>
          if \<not> running then Some (False, p) else if \<not> poll_ok then Some (False, p) else pool_claim_slot es p
      | ClaimError \<Rightarrow> Some (False, p))"

definition pool_claim_slot_nb :: "pool \<Rightarrow> pool option" where
  "pool_claim_slot_nb p = (if pl_tokens p = 0 then None else Some (p\<lparr>pl_tokens := pl_tokens p - 1\<rparr>))"

definition pool_return_token :: "pool \<Rightarrow> pool" where
  "pool_return_token p = p\<lparr>pl_tokens := Suc (pl_tokens p), pl_busy := pl_busy p - 1\<rparr>"

definition pool_dispatch_fd :: "bool \<Rightarrow> int \<Rightarrow> pool \<Rightarrow> int \<times> pool" where
  "pool_dispatch_fd sent fd p = (if sent then (0, p\<lparr>pl_sock := pl_sock p @ [fd]\<rparr>) else (- 1, p))"

text \<open>One connection of the event loop's slow queue: claim, hand over, give back when that fails.\<close>

definition hand_over :: "bool \<Rightarrow> int \<Rightarrow> pool \<Rightarrow> pool option" where
  "hand_over sent fd p =
     (case pool_claim_slot_nb p of
        None \<Rightarrow> None
      | Some p1 \<Rightarrow> (case pool_dispatch_fd sent fd p1 of (r, p2) \<Rightarrow> Some (if r < 0 then pool_return_token p2 else p2)))"

text \<open>The worker's side.\<close>

definition worker_recv :: "nat \<Rightarrow> pool \<Rightarrow> pool" where
  "worker_recv i p =
     (case pl_sock p of
        fd # rest \<Rightarrow>
          if i < length (pl_workers p) \<and> wk_state (pl_workers p ! i) = Waiting
          then p\<lparr>pl_sock := rest, pl_workers := (pl_workers p)[i := (pl_workers p ! i)\<lparr>wk_state := Serving fd\<rparr>]\<rparr>
          else p
      | [] \<Rightarrow> p)"

definition worker_done :: "nat \<Rightarrow> pool \<Rightarrow> pool" where
  "worker_done i p =
     (if i < length (pl_workers p) then
        (case wk_state (pl_workers p ! i) of
           Serving fd \<Rightarrow>
             p\<lparr>pl_tokens := Suc (pl_tokens p),
               pl_workers := (pl_workers p)[i := (pl_workers p ! i)
                 \<lparr>wk_state := (if wk_term (pl_workers p ! i) then Gone else Waiting)\<rparr>]\<rparr>
         | _ \<Rightarrow> p)
      else p)"

definition worker_term_handler :: "nat \<Rightarrow> pool \<Rightarrow> pool" where
  "worker_term_handler i p =
     (if i < length (pl_workers p) then
        let w = pl_workers p ! i
        in p\<lparr>pl_workers := (pl_workers p)[i := w\<lparr>wk_term := True,
               wk_state := (if wk_state w = Waiting then Gone else wk_state w)\<rparr>]\<rparr>
      else p)"

text \<open>SIGTERM to all, then SIGKILL to those past the deadline; the descriptors are closed.\<close>

definition pool_shutdown :: "pool option \<Rightarrow> pool option" where
  "pool_shutdown p =
     (case p of None \<Rightarrow> None | Some q \<Rightarrow> if pl_workers q = [] then Some q else None)"

section \<open>Agent slots\<close>

record slots =
  sl_pipe :: "nat option"
  sl_taken :: "64 word"
  sl_free :: "64 word"

definition agent_max_concurrent :: "int \<Rightarrow> int \<Rightarrow> int" where
  "agent_max_concurrent dflt v = (if v > 0 \<and> v \<le> 32 then v else dflt)"

definition agent_init :: "bool \<Rightarrow> nat \<Rightarrow> slots" where
  "agent_init pipe_ok n =
     (if \<not> pipe_ok then \<lparr>sl_pipe = None, sl_taken = 0, sl_free = 0\<rparr>
      else \<lparr>sl_pipe = Some n, sl_taken = 0, sl_free = of_nat n\<rparr>)"

text \<open>A slot, or not within the waiting time (\<open>None\<close>).\<close>

definition agent_slot_take :: "slots \<Rightarrow> slots option" where
  "agent_slot_take s =
     (case sl_pipe s of
        None \<Rightarrow> Some s
      | Some n \<Rightarrow> if n = 0 then None
                 else Some (s\<lparr>sl_pipe := Some (n - 1), sl_taken := sl_taken s + 1, sl_free := sl_free s - 1\<rparr>))"

definition agent_slot_give :: "slots \<Rightarrow> slots" where
  "agent_slot_give s =
     (case sl_pipe s of
        None \<Rightarrow> s
      | Some n \<Rightarrow> s\<lparr>sl_pipe := Some (Suc n), sl_taken := sl_taken s - 1, sl_free := sl_free s + 1\<rparr>)"

section \<open>The pipes are semaphores\<close>

interpretation tokens: semaphore "\<lambda>_. True" pl_tokens pool_claim_slot_nb pool_return_token
  by unfold_locales (auto simp: pool_claim_slot_nb_def pool_return_token_def split: if_splits)

definition slots_left :: "slots \<Rightarrow> nat" where
  "slots_left s = (case sl_pipe s of None \<Rightarrow> 0 | Some n \<Rightarrow> n)"

interpretation agents: semaphore "\<lambda>s. sl_pipe s \<noteq> None" slots_left agent_slot_take agent_slot_give
  by unfold_locales (auto simp: agent_slot_take_def agent_slot_give_def slots_left_def split: if_splits)

section \<open>The pool as a state machine\<close>

text \<open>
  The master hands a connection over, or a worker moves: it takes a connection, finishes one, or
  gets the signal.  The order of the moves is the scheduler's.
\<close>

inductive worker_step :: "pool \<Rightarrow> pool \<Rightarrow> bool" where
  recv: "i < length (pl_workers p) \<Longrightarrow> wk_state (pl_workers p ! i) = Waiting \<Longrightarrow> pl_sock p \<noteq> [] \<Longrightarrow>
         worker_step p (worker_recv i p)"
| finish: "i < length (pl_workers p) \<Longrightarrow> wk_state (pl_workers p ! i) = Serving fd \<Longrightarrow>
         worker_step p (worker_done i p)"

inductive pool_reach :: "int \<Rightarrow> bool list \<Rightarrow> bool \<Rightarrow> pool \<Rightarrow> bool" for n forks where
  start: "start_worker_pool n True forks = Some p \<Longrightarrow> pool_reach n forks False p"
| hand: "pool_reach n forks sg p \<Longrightarrow> hand_over sent fd p = Some q \<Longrightarrow> pool_reach n forks sg q"
| work: "pool_reach n forks sg p \<Longrightarrow> worker_step p q \<Longrightarrow> pool_reach n forks sg q"
| signal: "pool_reach n forks sg p \<Longrightarrow> pool_reach n forks True (worker_term_handler i p)"

definition is_serving :: "worker \<Rightarrow> bool" where
  "is_serving w = (case wk_state w of Serving _ \<Rightarrow> True | _ \<Rightarrow> False)"

definition serving :: "pool \<Rightarrow> nat" where
  "serving p = length (filter is_serving (pl_workers p))"

definition waiting :: "pool \<Rightarrow> nat" where
  "waiting p = length (filter (\<lambda>w. wk_state w = Waiting) (pl_workers p))"

lemma length_filter_update:
  assumes "i < length xs"
  shows "length (filter P (xs[i := y])) + (if P (xs ! i) then 1 else 0) = length (filter P xs) + (if P y then 1 else 0)"
  using assms
proof (induction xs arbitrary: i)
  case (Cons x xs)
  show ?case
  proof (cases i)
    case (Suc j)
    then have "length (filter P (xs[j := y])) + (if P (xs ! j) then 1 else 0) = length (filter P xs) + (if P y then 1 else 0)"
      using Cons by simp
    then show ?thesis using Suc by (simp split: if_splits)
  qed simp
qed simp

lemma length_filter_pos: "i < length xs \<Longrightarrow> P (xs ! i) \<Longrightarrow> 0 < length (filter P xs)"
  by (metis filter_empty_conv length_greater_0_conv nth_mem)

text \<open>Tokens are neither lost nor made: each is in the pipe, on the way with a connection, or with a serving worker.\<close>

definition pool_load :: "pool \<Rightarrow> nat" where
  "pool_load p = pl_tokens p + length (pl_sock p) + serving p"

lemma worker_recv_eq:
  assumes "i < length (pl_workers p)" "wk_state (pl_workers p ! i) = Waiting" "pl_sock p \<noteq> []"
  shows "length (pl_sock p) = Suc (length (pl_sock (worker_recv i p)))"
    and "serving (worker_recv i p) = Suc (serving p)"
    and "pl_tokens (worker_recv i p) = pl_tokens p"
  using assms length_filter_update [OF assms(1), of is_serving]
  by (auto simp: worker_recv_def serving_def is_serving_def neq_Nil_conv)

lemma worker_done_eq:
  assumes "i < length (pl_workers p)" "wk_state (pl_workers p ! i) = Serving fd"
  shows "pl_sock (worker_done i p) = pl_sock p"
    and "serving p = Suc (serving (worker_done i p))"
    and "pl_tokens (worker_done i p) = Suc (pl_tokens p)"
  using assms length_filter_update [OF assms(1), of is_serving "(pl_workers p ! i)\<lparr>wk_state := Gone\<rparr>"]
    length_filter_update [OF assms(1), of is_serving "(pl_workers p ! i)\<lparr>wk_state := Waiting\<rparr>"]
  by (auto simp: worker_done_def serving_def is_serving_def)

lemma worker_step_load: "worker_step p q \<Longrightarrow> pool_load q = pool_load p"
  by (induction rule: worker_step.induct) (auto simp: pool_load_def worker_recv_eq worker_done_eq dest: worker_recv_eq(1))

lemma hand_over_load: "hand_over sent fd p = Some q \<Longrightarrow> pool_load q = pool_load p"
  by (auto simp: hand_over_def pool_claim_slot_nb_def pool_dispatch_fd_def pool_return_token_def pool_load_def serving_def
      split: if_splits)

lemma worker_term_load: "pool_load (worker_term_handler i p) = pool_load p"
proof (cases "i < length (pl_workers p)")
  case True
  let ?w = "pl_workers p ! i"
  have "is_serving (?w\<lparr>wk_term := True, wk_state := (if wk_state ?w = Waiting then Gone else wk_state ?w)\<rparr>) = is_serving ?w"
    by (auto simp: is_serving_def split: wstate.split)
  with length_filter_update [OF True, of is_serving
      "?w\<lparr>wk_term := True, wk_state := (if wk_state ?w = Waiting then Gone else wk_state ?w)\<rparr>"]
  show ?thesis using True by (simp add: worker_term_handler_def pool_load_def serving_def Let_def split: if_splits)
qed (simp add: worker_term_handler_def)

lemma pool_start_load: "start_worker_pool n True forks = Some p \<Longrightarrow> pool_load p = clamp_workers n"
  by (auto simp: start_worker_pool_def pool_load_def serving_def is_serving_def Let_def split: if_splits)

lemma reach_load: "pool_reach n forks sg p \<Longrightarrow> pool_load p = clamp_workers n"
  by (induction rule: pool_reach.induct) (simp_all add: pool_start_load hand_over_load worker_step_load worker_term_load)

lemma worker_step_work: "worker_step p q \<Longrightarrow> 2 * length (pl_sock p) + serving p = Suc (2 * length (pl_sock q) + serving q)"
  by (induction rule: worker_step.induct) (auto simp: worker_recv_eq worker_done_eq dest: worker_recv_eq(1))

lemma worker_steps_work:
  "(worker_step ^^ k) p q \<Longrightarrow> 2 * length (pl_sock p) + serving p = k + 2 * length (pl_sock q) + serving q"
proof (induction k arbitrary: q)
  case (Suc k)
  then obtain r where "(worker_step ^^ k) p r" "worker_step r q" by auto
  then show ?case using Suc.IH [of r] worker_step_work [of r q] by simp
qed simp

text \<open>Without a signal every worker that was started waits or serves.\<close>

definition alive :: "pool \<Rightarrow> bool" where
  "alive p \<longleftrightarrow> list_all (\<lambda>w. \<not> wk_term w \<and> wk_state w \<noteq> Gone) (pl_workers p)"

lemma alive_update: "alive p \<Longrightarrow> \<not> wk_term w \<Longrightarrow> wk_state w \<noteq> Gone \<Longrightarrow>
    alive (p\<lparr>pl_tokens := t, pl_sock := s, pl_workers := (pl_workers p)[i := w]\<rparr>)"
  by (auto simp: alive_def list_all_iff dest!: set_update_subset_insert [THEN subsetD])

lemma worker_step_alive: "worker_step p q \<Longrightarrow> alive p \<Longrightarrow> alive q \<and> length (pl_workers q) = length (pl_workers p)"
proof (induction rule: worker_step.induct)
  case (recv i p)
  have "\<not> wk_term (pl_workers p ! i)" using recv by (auto simp: alive_def list_all_length)
  then show ?case
    using recv alive_update [of p "(pl_workers p ! i)\<lparr>wk_state := Serving (hd (pl_sock p))\<rparr>" i "tl (pl_sock p)" "pl_tokens p"]
    by (auto simp: worker_recv_def neq_Nil_conv)
next
  case (finish i p fd)
  have "\<not> wk_term (pl_workers p ! i)" using finish by (auto simp: alive_def list_all_length)
  then show ?case
    using finish alive_update [of p "(pl_workers p ! i)\<lparr>wk_state := Waiting\<rparr>" i "pl_sock p" "Suc (pl_tokens p)"]
    by (auto simp: worker_done_def)
qed

lemma hand_over_alive: "hand_over sent fd p = Some q \<Longrightarrow> alive q = alive p \<and> pl_workers q = pl_workers p"
  by (auto simp: hand_over_def pool_claim_slot_nb_def pool_dispatch_fd_def pool_return_token_def alive_def split: if_splits)

definition forked :: "int \<Rightarrow> bool list \<Rightarrow> nat" where
  "forked n forks = length (takeWhile id (take (clamp_workers n) forks))"

lemma reach_alive: "pool_reach n forks sg p \<Longrightarrow> \<not> sg \<Longrightarrow> alive p \<and> length (pl_workers p) = forked n forks"
proof (induction rule: pool_reach.induct)
  case (start p)
  then show ?case by (auto simp: start_worker_pool_def forked_def alive_def Let_def list_all_iff split: if_splits)
next
  case (hand sg p sent fd q)
  then show ?case using hand_over_alive by metis
next
  case (work sg p q)
  then show ?case using worker_step_alive by metis
qed simp

lemma steps_alive: "(worker_step ^^ k) p q \<Longrightarrow> alive p \<Longrightarrow> alive q \<and> length (pl_workers q) = length (pl_workers p)"
proof (induction k arbitrary: q)
  case (Suc k)
  then obtain r where "(worker_step ^^ k) p r" "worker_step r q" by auto
  then show ?case using Suc worker_step_alive by metis
qed simp

lemma steps_load: "(worker_step ^^ k) p q \<Longrightarrow> pool_load q = pool_load p"
  by (induction k arbitrary: q) (auto dest: worker_step_load)

lemma alive_count: "alive p \<Longrightarrow> waiting p + serving p = length (pl_workers p)"
proof -
  have "length (filter (\<lambda>w. wk_state w = Waiting) ws) + length (filter is_serving ws) = length ws"
    if "list_all (\<lambda>w. \<not> wk_term w \<and> wk_state w \<noteq> Gone) ws" for ws
    using that by (induction ws) (auto simp: is_serving_def split: wstate.splits)
  then show "alive p \<Longrightarrow> waiting p + serving p = length (pl_workers p)"
    by (simp add: alive_def waiting_def serving_def)
qed

lemma stuck_workers: "\<nexists>r. worker_step q r \<Longrightarrow> serving q = 0 \<and> (pl_sock q = [] \<or> waiting q = 0)"
proof -
  assume stuck: "\<nexists>r. worker_step q r"
  have "\<not> is_serving w" if "w \<in> set (pl_workers q)" for w
    using that stuck worker_step.finish by (auto simp: in_set_conv_nth is_serving_def split: wstate.splits)
  moreover have "wk_state w \<noteq> Waiting" if "w \<in> set (pl_workers q)" "pl_sock q \<noteq> []" for w
    using that stuck worker_step.recv by (auto simp: in_set_conv_nth)
  ultimately show ?thesis by (auto simp: serving_def waiting_def filter_empty_conv)
qed

section \<open>Properties\<close>

text \<open>
  (C39) The concurrency cap.  In every state the pool can reach, whatever connections are handed over,
  however the workers are scheduled, whichever hand-overs fail and whenever workers are told to stop,
  the tokens in the pipe, the connections on their way and the workers at work add up to the clamped
  pool size: no token is lost or duplicated, and at most that many connections are in the pool.
\<close>

theorem pool_tokens_conserved:
  assumes "pool_reach n forks sg p"
  shows "pl_tokens p + length (pl_sock p) + serving p = clamp_workers n \<and>
         length (pl_sock p) + serving p \<le> clamp_workers n \<and> clamp_workers n \<le> FDPASS_MAX_N"
  using reach_load [OF assms] by (auto simp: pool_load_def clamp_workers_def FDPASS_MAX_N_def)

text \<open>
  (C40) Every connection is served.  When all workers could be forked and none was told to stop, then
  from any reachable state every run of the workers, in any order, has at most two moves per
  connection on its way and one per connection being served, and it can only stop with nothing left
  on the way, nobody serving and all tokens back in the pipe.
\<close>

theorem pool_serves_everything:
  assumes "pool_reach n forks False p" and "forked n forks = clamp_workers n" and "(worker_step ^^ k) p q"
  shows "k \<le> 2 * length (pl_sock p) + serving p \<and>
         ((\<nexists>r. worker_step q r) \<longleftrightarrow> pl_sock q = [] \<and> serving q = 0 \<and> pl_tokens q = clamp_workers n)"
proof
  show "k \<le> 2 * length (pl_sock p) + serving p" using worker_steps_work [OF assms(3)] by simp
  have a: "alive q" "length (pl_workers q) = clamp_workers n"
    using steps_alive [OF assms(3)] reach_alive [OF assms(1)] assms(2) by auto
  have l: "pl_tokens q + length (pl_sock q) + serving q = clamp_workers n"
    using steps_load [OF assms(3)] reach_load [OF assms(1)] by (simp add: pool_load_def)
  have "clamp_workers n > 0" by (simp add: clamp_workers_def FDPASS_MAX_N_def)
  then show "(\<nexists>r. worker_step q r) \<longleftrightarrow> pl_sock q = [] \<and> serving q = 0 \<and> pl_tokens q = clamp_workers n"
    using stuck_workers [of q] alive_count [OF a(1)] a(2) l worker_step_work [of q] by fastforce
qed

definition demo_pool :: pool where
  "demo_pool = \<lparr>pl_tokens = 2, pl_sock = [], pl_workers = replicate 2 \<lparr>wk_state = Waiting, wk_term = False\<rparr>, pl_busy = 0\<rparr>"

definition demo_pool1 :: pool where
  "demo_pool1 = demo_pool\<lparr>pl_tokens := 1, pl_sock := [7]\<rparr>"

lemma demo_pool_reach: "pool_reach 2 [True, True] False demo_pool1"
proof -
  have "start_worker_pool 2 True [True, True] = Some demo_pool" by code_simp
  moreover have "hand_over True 7 demo_pool = Some demo_pool1"
    by (simp add: hand_over_def pool_claim_slot_nb_def pool_dispatch_fd_def demo_pool_def demo_pool1_def)
  ultimately show ?thesis using pool_reach.start pool_reach.hand by blast
qed

theorem pool_tokens_conserved_witness:
  "pl_tokens demo_pool1 + length (pl_sock demo_pool1) + serving demo_pool1 = 2"
  using pool_tokens_conserved [OF demo_pool_reach] by (simp add: clamp_workers_def FDPASS_MAX_N_def)

theorem pool_serves_everything_witness:
  "worker_step demo_pool1 (worker_recv 1 demo_pool1) \<and>
   \<not> (\<nexists>r. worker_step (worker_recv 1 demo_pool1) r)"
proof -
  have s: "worker_step demo_pool1 (worker_recv 1 demo_pool1)"
    by (rule worker_step.recv) (simp_all add: demo_pool_def demo_pool1_def)
  have "serving (worker_recv 1 demo_pool1) = 1"
    by (simp add: demo_pool_def demo_pool1_def worker_recv_def serving_def is_serving_def nth_Cons' numeral_2_eq_2)
  moreover have "forked 2 [True, True] = clamp_workers 2"
    by (simp add: forked_def clamp_workers_def FDPASS_MAX_N_def)
  moreover have "(worker_step ^^ Suc 0) demo_pool1 (worker_recv 1 demo_pool1)"
    using s by (auto intro: relpowp_Suc_I)
  ultimately show ?thesis
    using pool_serves_everything [OF demo_pool_reach, of "Suc 0" "worker_recv 1 demo_pool1"] s by simp
qed

text \<open>
  The pipe is filled before the workers are forked: when a \<open>fork\<close> fails, it holds more tokens than
  there are workers, so the master hands out connections nobody is waiting for.
\<close>

theorem partial_fork_overcommits:
  "\<exists>p. start_worker_pool 8 True [True, False] = Some p \<and> pl_tokens p = 8 \<and> length (pl_workers p) = 1"
  by (simp add: start_worker_pool_def clamp_workers_def FDPASS_MAX_N_def Let_def)

text \<open>
  The gauge of busy workers only ever moves on the paths that fail: the event loop's claim does not
  raise it, the worker that gives its token back does not lower it, and a failed hand-over lowers it
  below zero.
\<close>

theorem busy_gauge_wraps: "map_option pl_busy (hand_over False 7 demo_pool) = Some (2 ^ 64 - 1)"
  by (simp add: hand_over_def pool_claim_slot_nb_def pool_dispatch_fd_def pool_return_token_def demo_pool_def)

text \<open>The agent's slots: however requests come and go, no more than the configured number run at once.\<close>

lemma agent_slots_bounded: "snd (agents.visit ops (agent_init True n, 0)) \<le> n"
  using agents.visitors_bounded [of "agent_init True n" ops 0] by (simp add: agent_init_def slots_left_def)

end
