(* ===== verification/Http_Log.thy ===== *)
theory Http_Log
  imports Http_Parse Metrics
begin

text \<open>
  \<open>src/src/http/http_log.c\<close>: the access log.  Every response is counted by its status class and, when
  a log is open, written as one line in the Combined Log Format.
\<close>

definition log_field :: "string \<Rightarrow> nat \<Rightarrow> string" where
  "log_field src n = take (n - 1) (map (\<lambda>c. if code c < 32 \<or> code c = 127 then CHR ''?'' else c) src)"

text \<open>The path is logged without its query string.\<close>

definition log_path :: "string \<Rightarrow> string" where
  "log_path path = take (MAX_PATH_SIZE - 1) (takeWhile (\<lambda>c. c \<noteq> CHR ''?'') path)"

definition or_dash :: "string \<Rightarrow> string" where
  "or_dash s = (if s = [] then ''-'' else s)"

definition log_line :: "string \<Rightarrow> string \<Rightarrow> HttpRequest \<Rightarrow> int \<Rightarrow> int \<Rightarrow> string" where
  "log_line client_ip time_str req status_code bytes =
     client_ip @ '' - - ['' @ time_str @ ''] '' @ [DQUOTE] @ rq_method req @ '' '' @ log_path (rq_path req) @ '' '' @
     or_dash (rq_protocol req) @ [DQUOTE] @ '' '' @ int_dec status_code @ '' '' @ int_dec bytes @ '' '' @
     [DQUOTE] @ or_dash (log_field (rq_referer req) 512) @ [DQUOTE] @ '' '' @
     [DQUOTE] @ or_dash (log_field (rq_user_agent req) 512) @ [DQUOTE] @ [LF]"

text \<open>The counters and the open log (\<open>None\<close> without one), each entry the text of one \<open>fprintf\<close>.\<close>

type_synonym access_log = "string list option"

definition log_request ::
  "string \<Rightarrow> string \<Rightarrow> HttpRequest \<Rightarrow> int \<Rightarrow> int \<Rightarrow> metrics \<times> access_log \<Rightarrow> metrics \<times> access_log" where
  "log_request client_ip time_str req status_code bytes s =
     (let m = (if status_code \<ge> 100 \<and> status_code < 600
               then metrics_inc_response (nat (status_code div 100 - 1)) (fst s) else fst s)
      in (m, map_option (\<lambda>ls. ls @ [log_line client_ip time_str req status_code bytes]) (snd s)))"

section \<open>One line per response\<close>

text \<open>The words of the request line hold no white space, whatever is received.\<close>

definition no_space :: "string \<Rightarrow> bool" where
  "no_space s \<longleftrightarrow> list_all (\<lambda>c. \<not> isspace c) s"

definition words_ok :: "HttpRequest \<Rightarrow> bool" where
  "words_ok r \<longleftrightarrow> no_space (rq_method r) \<and> no_space (rq_path r) \<and>
     no_space (rq_protocol r)"

lemma scan_word_plain: "scan_word n s = Some (w, t) \<Longrightarrow> no_space w"
  by (auto simp: scan_word_def Let_def no_space_def list_all_iff split: if_splits dest!: in_set_takeD set_takeWhileD)

lemma parse_header_line_words:
  assumes "words_ok r"
  shows "words_ok (parse_header_line spool l r)"
proof -
  have wi: "words_ok a \<Longrightarrow> words_ok b \<Longrightarrow> words_ok (if c then a else b)" for a b c by simp
  have "words_ok (parse_content_length spool l r)" "words_ok (parse_transfer_encoding l r)" "words_ok (capture_extra_header l r)"
    using assms
    by (simp_all add: parse_content_length_def parse_transfer_encoding_def capture_extra_header_def words_ok_def Let_def)
  then show ?thesis
    unfolding parse_header_line_def
    by (intro wi assms; (assumption | simp add: assms [unfolded words_ok_def] words_ok_def))
qed

lemma scan_request_line_words: "words_ok r \<Longrightarrow> scan_request_line l r = (ok, r') \<Longrightarrow> words_ok r'"
  by (auto simp: scan_request_line_def words_ok_def split: option.splits) (erule scan_word_plain)+

lemma parse_request_words: "words_ok r \<Longrightarrow> words_ok (snd (parse_request lenient spool buf r))"
proof -
  assume w: "words_ok r"
  have n: "NUL \<notin> set (take MAX_REQUEST_SIZE (cstr buf))" using cstr_no_NUL in_set_takeD by metis
  have "words_ok (snd (parse_headers lenient spool (take MAX_REQUEST_SIZE (cstr buf)) r))"
    using w n by (intro parse_headers_preserves [of words_ok])
      (auto intro: parse_header_line_words scan_request_line_words)
  then show ?thesis by (cases "parse_headers lenient spool (take MAX_REQUEST_SIZE (cstr buf)) r") (simp add: parse_request_def)
qed

lemma space_LF [simp]: "isspace LF"
  by (simp add: isspace_def)

lemma plain_LF: "no_space s \<Longrightarrow> LF \<notin> set s"
  by (auto simp: no_space_def list_all_iff)

lemma nat_dec_LF: "LF \<notin> set (nat_dec n)"
  using nat_dec_chars [of LF n] by (auto simp: isdigit_def)

lemma int_dec_LF: "LF \<notin> set (int_dec i)"
  by (simp add: int_dec_def nat_dec_LF)

lemma log_field_LF: "LF \<notin> set (log_field s n)"
proof -
  have "LF \<noteq> (if code c < 32 \<or> code c = 127 then CHR ''?'' else c)" for c
    by (cases "c = LF") auto
  then show ?thesis by (auto simp: log_field_def dest!: in_set_takeD)
qed

lemma or_dash_LF: "LF \<notin> set s \<Longrightarrow> LF \<notin> set (or_dash s)"
  by (simp add: or_dash_def)

lemma log_path_LF: "LF \<notin> set p \<Longrightarrow> LF \<notin> set (log_path p)"
  by (auto simp: log_path_def dest!: in_set_takeD set_takeWhileD)

text \<open>
  Nobody can forge an access-log entry: whatever bytes a client sends, parsed under either line-ending
  policy, logging the request with any status and size appends exactly one entry, and that entry holds a
  single line feed, its last byte (the address and the time stamp hold none); the query string
  is not part of it.
\<close>

theorem log_entry_unforgeable:
  assumes "LF \<notin> set client_ip" and "LF \<notin> set time_str" and "words_ok r0"
    and "r = snd (parse_request lenient spool buf r0)"
  shows "\<exists>entry m'. log_request client_ip time_str r status bytes (m, Some ls) = (m', Some (ls @ [entry @ [LF]])) \<and>
    LF \<notin> set entry \<and> CHR ''?'' \<notin> set (log_path (rq_path r))"
proof -
  have w: "words_ok r" unfolding assms(4) by (rule parse_request_words [OF assms(3)])
  then have LFs: "LF \<notin> set (rq_method r)" "LF \<notin> set (log_path (rq_path r))" "LF \<notin> set (or_dash (rq_protocol r))"
    by (simp_all add: words_ok_def log_path_LF or_dash_LF plain_LF)
  define entry where "entry = client_ip @ '' - - ['' @ time_str @ ''] '' @ [DQUOTE] @ rq_method r @ '' '' @ log_path (rq_path r) @ '' '' @
     or_dash (rq_protocol r) @ [DQUOTE] @ '' '' @ int_dec status @ '' '' @ int_dec bytes @ '' '' @
     [DQUOTE] @ or_dash (log_field (rq_referer r) 512) @ [DQUOTE] @ '' '' @
     [DQUOTE] @ or_dash (log_field (rq_user_agent r) 512) @ [DQUOTE]"
  have "LF \<notin> set entry"
    unfolding entry_def using assms(1,2) LFs int_dec_LF or_dash_LF [OF log_field_LF] by simp
  moreover have "log_line client_ip time_str r status bytes = entry @ [LF]"
    by (simp add: log_line_def entry_def)
  moreover have "CHR ''?'' \<notin> set (log_path (rq_path r))"
    by (auto simp: log_path_def dest!: in_set_takeD set_takeWhileD)
  ultimately show ?thesis by (simp add: log_request_def Let_def)
qed

theorem log_entry_unforgeable_witness:
  "\<exists>entry m'. log_request ''10.0.0.7'' ''01/Jan/2026'' (snd (parse_request True 0 (''GET /a?k=1 HTTP/1.1'' @ [LF, LF]) zero_request)) 200 3 (None, Some []) =
     (m', Some [entry @ [LF]]) \<and> LF \<notin> set entry"
  using log_entry_unforgeable [of "''10.0.0.7''" "''01/Jan/2026''" zero_request _ True 0 "''GET /a?k=1 HTTP/1.1'' @ [LF, LF]" 200 3 None "[]"]
  by (simp add: words_ok_def no_space_def zero_request_def) blast

end
