(* ===== verification/Vite.thy ===== *)
theory Vite
  imports Prelude "HOL-Library.Sublist"
begin

text \<open>
  \<open>src/src/cgi/vite.c\<close>: the header block the development proxy sends to the Vite server.
\<close>

definition line_has_embedded_crlf :: "string \<Rightarrow> bool" where
  "line_has_embedded_crlf line \<longleftrightarrow>
     (if length line < 2 then False else list_ex (\<lambda>c. c = CR \<or> c = LF) (take (length line - 2) line))"

definition strip_pfx :: "string list" where
  "strip_pfx =
     [''Host:'', ''Connection:'', ''Transfer-Encoding:'', ''TE:'', ''Keep-Alive:'', ''Proxy-Connection:'',
      ''Proxy-Authenticate:'', ''Proxy-Authorization:'', ''Upgrade:'', ''Trailer:'', ''Expect:'']"

text \<open>A line with its line feed, if it has one, and what follows it.\<close>

definition first_line :: "string \<Rightarrow> string" where
  "first_line s = takeWhile (\<lambda>c. c \<noteq> LF) s @ (if LF \<in> set s then [LF] else [])"

definition rest_lines :: "string \<Rightarrow> string" where
  "rest_lines s = drop (length (first_line s)) s"

lemma first_line_Cons: "first_line (c # s) = (if c = LF then [LF] else c # first_line s)"
  by (simp add: first_line_def)

lemma rest_lines_Cons: "rest_lines (c # s) = (if c = LF then s else rest_lines s)"
  by (simp add: rest_lines_def first_line_Cons)

lemma first_line_append: "first_line s @ rest_lines s = s"
  by (induction s) (simp_all add: first_line_Cons rest_lines_Cons, simp add: first_line_def rest_lines_def)

lemma first_line_Nil [simp]: "first_line s = [] \<longleftrightarrow> s = []"
  by (cases s) (auto simp: first_line_def)

text \<open>The loop over the header lines: the bytes copied, given how many there are already.\<close>

function vite_lines :: "nat \<Rightarrow> nat \<Rightarrow> string \<Rightarrow> string" where
  "vite_lines bufsz blen s =
     (if s = [] then []
      else
        let line = first_line s; rest = rest_lines s; ll = length line;
            dropped = list_ex (\<lambda>p. ci_prefix p s) strip_pfx
        in if ll = 1 \<or> (ll = 2 \<and> hd line = CR) then []
           else if \<not> dropped \<and> line_has_embedded_crlf line then []
           else if \<not> dropped \<and> blen + ll + 64 \<le> bufsz then line @ vite_lines bufsz (blen + ll) rest
           else vite_lines bufsz blen rest)"
  by pat_completeness auto
termination
proof (relation "measure (\<lambda>(b, l, s). length s)", simp, goal_cases)
  case (1 bufsz blen s line rest ll dropped)
  then show ?case by (cases s) (auto simp: rest_lines_def first_line_def)
next
  case (2 bufsz blen s line rest ll dropped)
  then show ?case by (cases s) (auto simp: rest_lines_def first_line_def)
qed

declare vite_lines.simps [simp del]

definition vite_tail :: "int \<Rightarrow> string" where
  "vite_tail port = ''Host: 127.0.0.1:'' @ int_dec port @ crlf @ ''Connection: close'' @ crlf @ crlf"

text \<open>The bytes handed to \<open>send\<close>; \<open>snprintf\<close> keeps the last byte of the buffer for its NUL.\<close>

definition vite_build_headers :: "nat \<Rightarrow> string \<Rightarrow> int \<Rightarrow> string" where
  "vite_build_headers bufsz raw port =
     (let kept = vite_lines bufsz 0 (rest_lines raw); room = bufsz - length kept; tail = vite_tail port
      in kept @ take (min (length tail) room) (take (room - 1) tail @ [NUL]))"

section \<open>What reaches the upstream server\<close>

text \<open>A line that may be forwarded: one line with its line feed, not blank, not owned by the proxy.\<close>

definition forwardable :: "string \<Rightarrow> bool" where
  "forwardable l \<longleftrightarrow> l \<noteq> [] \<and> LF \<notin> set (butlast l) \<and> l \<noteq> [LF] \<and> l \<noteq> crlf \<and>
     CR \<notin> set (take (length l - 2) l) \<and> list_all (\<lambda>p. \<not> ci_prefix p l) strip_pfx"

lemma first_line_LF: "LF \<notin> set (butlast (first_line s))"
  by (induction s) (auto simp: first_line_Cons, simp add: first_line_def)

lemma ci_prefix_append: "ci_prefix p l \<Longrightarrow> ci_prefix p (l @ x)"
  by (simp add: ci_prefix_def)

text \<open>The header lines of a block, in order.\<close>

function block_lines :: "string \<Rightarrow> string list" where
  "block_lines s = (if s = [] then [] else first_line s # block_lines (rest_lines s))"
  by pat_completeness auto
termination
proof (relation "measure length", simp, goal_cases)
  case (1 s)
  then show ?case by (cases s) (auto simp: rest_lines_def first_line_def)
qed

declare block_lines.simps [simp del]

lemma vite_lines_spec:
  "64 \<le> bufsz \<Longrightarrow> blen + 64 \<le> bufsz \<Longrightarrow>
   \<exists>kept. vite_lines bufsz blen s = concat kept \<and> list_all forwardable kept \<and>
     subseq kept (block_lines s) \<and> blen + length (concat kept) + 64 \<le> bufsz"
proof (induction bufsz blen s rule: vite_lines.induct)
  case (1 bufsz blen s)
  let ?l = "first_line s" and ?r = "rest_lines s"
  let ?dropped = "list_ex (\<lambda>p. ci_prefix p s) strip_pfx"
  note IH = "1.IH" [OF _ refl refl refl refl]
  consider (stop) "s = [] \<or> length ?l = 1 \<or> (length ?l = 2 \<and> hd ?l = CR) \<or> (\<not> ?dropped \<and> line_has_embedded_crlf ?l)"
    | (copy) "s \<noteq> []" "\<not> (length ?l = 1 \<or> (length ?l = 2 \<and> hd ?l = CR))" "\<not> ?dropped" "\<not> line_has_embedded_crlf ?l"
        "blen + length ?l + 64 \<le> bufsz"
    | (skip) "s \<noteq> []" "\<not> (length ?l = 1 \<or> (length ?l = 2 \<and> hd ?l = CR))" "\<not> (\<not> ?dropped \<and> line_has_embedded_crlf ?l)"
        "\<not> (\<not> ?dropped \<and> blen + length ?l + 64 \<le> bufsz)"
    by blast
  then show ?case
  proof cases
    case stop
    then have "vite_lines bufsz blen s = []"
      by (subst vite_lines.simps) (auto simp: Let_def)
    then show ?thesis using "1.prems" by (intro exI [of _ "[]"]) simp
  next
    case copy
    have e: "vite_lines bufsz blen s = ?l @ vite_lines bufsz (blen + length ?l) ?r"
      using copy by (subst vite_lines.simps) (simp add: Let_def)
    obtain kept where k: "vite_lines bufsz (blen + length ?l) ?r = concat kept" "list_all forwardable kept"
      "subseq kept (block_lines ?r)" "blen + length ?l + length (concat kept) + 64 \<le> bufsz"
      using IH(1) copy "1.prems" by auto
    have "CR \<notin> set (take (length ?l - 2) ?l)"
      using copy(4) unfolding line_has_embedded_crlf_def list_ex_iff by (cases "length ?l < 2") auto
    then have "forwardable ?l"
      using copy first_line_LF [of s] ci_prefix_append [of _ ?l ?r] first_line_append [of s]
      by (auto simp: forwardable_def list_ex_iff list_all_iff)
    with e k have "vite_lines bufsz blen s = concat (?l # kept) \<and> list_all forwardable (?l # kept) \<and>
        subseq (?l # kept) (block_lines s) \<and> blen + length (concat (?l # kept)) + 64 \<le> bufsz"
      using copy(1) by (simp add: block_lines.simps [of s])
    then show ?thesis by blast
  next
    case skip
    have e: "vite_lines bufsz blen s = vite_lines bufsz blen ?r"
      using skip by (subst vite_lines.simps) (auto simp: Let_def)
    obtain kept where "vite_lines bufsz blen ?r = concat kept" "list_all forwardable kept"
      "subseq kept (block_lines ?r)" "blen + length (concat kept) + 64 \<le> bufsz"
      using IH(2) skip "1.prems" by auto
    then show ?thesis using e skip(1) by (intro exI [of _ kept]) (simp add: block_lines.simps [of s] list_emb_Cons)
  qed
qed

text \<open>
  Nothing the proxy is responsible for can be smuggled to the upstream server: for every header
  block and every port, the bytes sent fit the buffer and are a selection, in order, of the client's header
  lines followed by the proxy's own \<open>Host\<close> and \<open>Connection\<close> lines and the blank line; no selected line names a
  hop-by-hop header or the host, none is blank, and none holds a line break before its end.
\<close>

theorem vite_headers_filtered:
  assumes "64 \<le> bufsz" and "0 \<le> port" and "port \<le> 65535"
  shows "length (vite_build_headers bufsz raw port) \<le> bufsz \<and>
    (\<exists>kept. vite_build_headers bufsz raw port = concat kept @ vite_tail port \<and> list_all forwardable kept \<and>
       subseq kept (block_lines (rest_lines raw)))"
proof -
  obtain kept where k: "vite_lines bufsz 0 (rest_lines raw) = concat kept" "list_all forwardable kept"
    "subseq kept (block_lines (rest_lines raw))" "length (concat kept) + 64 \<le> bufsz"
    using vite_lines_spec [of bufsz 0 "rest_lines raw"] assms(1) by auto
  have "length (nat_dec (nat port)) \<le> 5"
    using length_nat_dec [of "nat port" 4] assms by simp
  then have "length (vite_tail port) < 64"
    using assms(2) by (simp add: vite_tail_def int_dec_def)
  then have "length (vite_tail port) < bufsz - length (concat kept)" using k(4) by simp
  then have "vite_build_headers bufsz raw port = concat kept @ vite_tail port"
    using k(1) by (simp add: vite_build_headers_def Let_def min_def)
  then show ?thesis using k \<open>length (vite_tail port) < 64\<close> by auto
qed

theorem vite_headers_filtered_witness:
  "\<exists>kept. vite_build_headers 160 (''GET /src/a.ts HTTP/1.1'' @ crlf @ ''Host: evil'' @ crlf @ ''Accept: x'' @ crlf @ crlf) 5173 =
     concat kept @ vite_tail 5173 \<and> list_all forwardable kept"
proof -
  define raw where "raw = ''GET /src/a.ts HTTP/1.1'' @ crlf @ ''Host: evil'' @ crlf @ ''Accept: x'' @ crlf @ crlf"
  have "length (vite_build_headers 160 raw 5173) \<le> 160 \<and>
      (\<exists>kept. vite_build_headers 160 raw 5173 = concat kept @ vite_tail 5173 \<and> list_all forwardable kept \<and>
         subseq kept (block_lines (rest_lines raw)))"
    by (rule vite_headers_filtered) simp_all
  then show ?thesis unfolding raw_def by blast
qed

end
