(* ===== verification/Gate.thy ===== *)
theory Gate
  imports Route Rate_Limit Http_Log
begin

text \<open>
  The checks every request passes between the parser and the dispatch, and the steps every response
  passes before it is serialised.  The event loop (\<open>src/src/core/event.c\<close>) and the connection handler
  (\<open>src/src/http/http.c\<close>) write them out separately, in the same words.
\<close>

record server_env =
  se_route :: route_env
  se_lenient :: bool
  se_spool :: int
  se_hosts :: string
  se_rps :: int
  se_aton :: "string \<Rightarrow> 8 word list option"
  se_pton6 :: "string \<Rightarrow> 8 word list option"
  se_nets :: "trusted_net list"
  se_public :: string
  se_resp :: resp_env
  se_time_str :: string
  se_shutdown :: bool
  se_vite :: int
  se_prefix :: string
  se_react_sock :: string

record server_state =
  sv_httpd :: httpd_state
  sv_rate :: "rate_bucket list option"
  sv_log :: access_log

abbreviation se_login :: "server_env \<Rightarrow> login_env" where "se_login env \<equiv> rt_login (se_route env)"
abbreviation se_fs :: "server_env \<Rightarrow> fs" where "se_fs env \<equiv> le_fs (se_login env)"
abbreviation se_auth :: "server_env \<Rightarrow> auth_env" where "se_auth env \<equiv> le_auth (se_login env)"

section \<open>Rate limit and authentication\<close>

definition rate_gate :: "server_env \<Rightarrow> int \<Rightarrow> sockaddr option \<Rightarrow> HttpRequest \<Rightarrow> server_state \<Rightarrow> bool \<times> server_state" where
  "rate_gate env now peer req s =
     (if se_rps env > 0 then
        (case rate_limit_allow (se_rps env) (sv_rate s)
                (rate_limit_key_from_peer (se_aton env) (se_pton6 env) (se_nets env) peer (Some req)) now of
           (ok, t) \<Rightarrow> (ok, s\<lparr>sv_rate := t\<rparr>))
      else (True, s))"

definition put_auth :: "auth_state \<Rightarrow> string option \<Rightarrow> server_state \<Rightarrow> server_state" where
  "put_auth au sessions s =
     s\<lparr>sv_httpd := (sv_httpd s)\<lparr>hs_login := (hs_login (sv_httpd s))\<lparr>ls_auth := au, ls_sessions := sessions\<rparr>\<rparr>\<rparr>"

definition exempt_path :: "server_env \<Rightarrow> string \<Rightarrow> bool" where
  "exempt_path env path \<longleftrightarrow>
     is_login_path (le_session (se_login env)) (ae_auth_file (se_auth env)) path \<or> is_logout_path path \<or>
     is_public_path (se_public env) (Some path)"

definition auth_gate :: "server_env \<Rightarrow> int \<Rightarrow> HttpRequest \<Rightarrow> server_state \<Rightarrow> bool \<times> server_state" where
  "auth_gate env now req s =
     (if exempt_path env (rq_path req) then (True, s)
      else let ls = hs_login (sv_httpd s)
           in case auth_session_valid (le_session (se_login env)) (se_auth env) now (ls_auth ls) (ls_sessions ls) (rq_cookie req) of
                (ok, au, file) \<Rightarrow>
                  if ok then (True, put_auth au file s)
                  else (case check_basic_auth (se_auth env) now au (Some (rq_authorization req)) of
                          (ok2, au2) \<Rightarrow> (ok2, put_auth au2 file s)))"

definition challenge_401 :: "server_env \<Rightarrow> server_state \<Rightarrow> HttpRequest \<Rightarrow> HttpResponse \<Rightarrow> HttpResponse" where
  "challenge_401 env s req r =
     (let le = se_login env;
          r1 = (set_error_response (le_fs le) r 401 ''Unauthorized'')
                 \<lparr>rs_auth_realm := Some (auth_realm_current (ae_realm_cfg (le_auth le)) (le_realm le) (ls_auth (hs_login (sv_httpd s))))\<rparr>;
          r2 = (if auth_session_enabled (le_session le) (ae_auth_file (le_auth le))
                then r1\<lparr>rs_location := take 511 (''/login?back='' @ rq_path req), rs_auth_login_hint := ''1''\<rparr>
                else r1)
      in auth_401_as_json (le_session le) (ae_auth_file (le_auth le)) r2 (Some (rq_path req)))"

section \<open>Before serialisation\<close>

definition fill_response :: "fs \<Rightarrow> HttpResponse \<Rightarrow> HttpResponse" where
  "fill_response fs r =
     (let r1 = (if rs_body r = None \<and> rs_stream_path r = None \<and> rs_status_code r \<noteq> 0 \<and> rs_status_code r \<noteq> 304
                then set_error_response fs r (rs_status_code r) (rs_status_text r) else r)
      in if rs_content_type r1 = [] then r1\<lparr>rs_content_type := ''text/html''\<rparr> else r1)"

definition want_keep_alive :: "HttpRequest \<Rightarrow> bool" where
  "want_keep_alive req =
     (let ka = starts_with ''HTTP/1.1'' (rq_protocol req)
      in if rq_connection req \<noteq> [] then
           (if ci_prefix ''close'' (rq_connection req) then False
            else if ci_prefix ''keep-alive'' (rq_connection req) then True
            else ka)
         else ka)"

definition log_and_count :: "server_env \<Rightarrow> string \<Rightarrow> HttpRequest \<Rightarrow> int \<Rightarrow> int \<Rightarrow> server_state \<Rightarrow> server_state" where
  "log_and_count env ip req status bytes s =
     (case log_request ip (se_time_str env) req status bytes (hs_metrics (sv_httpd s), sv_log s) of
        (m, l) \<Rightarrow> s\<lparr>sv_httpd := (sv_httpd s)\<lparr>hs_metrics := m\<rparr>, sv_log := l\<rparr>)"

definition count_request :: "nat \<Rightarrow> server_state \<Rightarrow> server_state" where
  "count_request i s = s\<lparr>sv_httpd := (sv_httpd s)\<lparr>hs_metrics := metrics_inc_request i (hs_metrics (sv_httpd s))\<rparr>\<rparr>"

section \<open>The gates are independent\<close>

text \<open>What a gate may touch: the rate limiter only its buckets, the authentication only its tables.\<close>

lemma rate_gate_frame: "rate_gate env now peer req s = (ok, s') \<Longrightarrow> sv_httpd s' = sv_httpd s \<and> sv_log s' = sv_log s"
  by (auto simp: rate_gate_def split: if_splits prod.splits)

lemma put_auth_frame [simp]:
  "sv_rate (put_auth au f s) = sv_rate s" "sv_log (put_auth au f s) = sv_log s"
  "hs_metrics (sv_httpd (put_auth au f s)) = hs_metrics (sv_httpd s)"
  "ls_limiter (hs_login (sv_httpd (put_auth au f s))) = ls_limiter (hs_login (sv_httpd s))"
  by (simp_all add: put_auth_def)

lemma auth_gate_frame: "auth_gate env now req s = (ok, s') \<Longrightarrow>
  sv_rate s' = sv_rate s \<and> sv_log s' = sv_log s \<and> hs_metrics (sv_httpd s') = hs_metrics (sv_httpd s) \<and>
  ls_limiter (hs_login (sv_httpd s')) = ls_limiter (hs_login (sv_httpd s))"
  by (auto simp: auth_gate_def Let_def split: if_splits prod.splits)

text \<open>Who passes the authentication.\<close>

lemma auth_gate_passes:
  assumes "auth_gate env now req s = (True, s')"
  shows "exempt_path env (rq_path req) \<or>
    fst (auth_session_valid (le_session (se_login env)) (se_auth env) now (ls_auth (hs_login (sv_httpd s)))
      (ls_sessions (hs_login (sv_httpd s))) (rq_cookie req)) \<or>
    (\<exists>au. fst (check_basic_auth (se_auth env) now au (Some (rq_authorization req))))"
  using assms unfolding auth_gate_def Let_def
  by (auto split: if_splits prod.splits) (metis fst_conv)+

lemma log_and_count_frame [simp]:
  "sv_rate (log_and_count env ip req c b s) = sv_rate s"
  "hs_login (sv_httpd (log_and_count env ip req c b s)) = hs_login (sv_httpd s)"
  by (simp_all add: log_and_count_def split: prod.splits)

lemma count_request_frame [simp]:
  "sv_rate (count_request i s) = sv_rate s" "sv_log (count_request i s) = sv_log s"
  "hs_login (sv_httpd (count_request i s)) = hs_login (sv_httpd s)"
  by (simp_all add: count_request_def)

lemma build_response_total:
  assumes "response_wf r" and "length (re_csp env) < 256"
    and "(case re_csp_img env of None \<Rightarrow> 0 | Some e \<Rightarrow> length e) \<le> 100000"
    and "\<And>b. rs_body r = Some b \<Longrightarrow> rs_body_length r \<le> int (length b)"
  shows "\<exists>raw n. build_response env r ho ka = Some (raw, n)"
proof -
  have "length (response_head env r ka) \<le> 104096"
    using length_response_head [OF assms(1-3), of ka] by simp
  then show ?thesis
    using assms(4) by (auto simp: build_response_def Let_def MAX_RESPONSE_SIZE_def split: option.splits)
qed

end
