(* ===== verification/Event.thy ===== *)
theory Event
  imports Gate Worker_Pool
begin

text \<open>
  \<open>src/src/core/event.c\<close>: the master loop.  It peeks at the header of every connection, serves what
  it can serve itself and parks the rest on a ring buffer from which connections are handed to the
  worker pool.  A connection is an index into the table \<open>g_conns\<close>; \<open>el_in\<close> is what the kernel holds for a
  descriptor, \<open>el_out\<close> the bytes sent and \<open>el_closed\<close> the descriptors closed, in order.
\<close>

definition EVENT_MAX_CONN :: nat where "EVENT_MAX_CONN = 1024"
definition KEEPALIVE_TIMEOUT_SECONDS :: int where "KEEPALIVE_TIMEOUT_SECONDS = 5"

section \<open>A bounded queue\<close>

locale bounded_fifo =
  fixes ok :: "'q \<Rightarrow> bool" and items :: "'q \<Rightarrow> 'a list" and cap :: nat
    and full :: "'q \<Rightarrow> bool" and empty :: "'q \<Rightarrow> bool"
    and push :: "'a \<Rightarrow> 'q \<Rightarrow> 'q" and front :: "'q \<Rightarrow> 'a" and pop :: "'q \<Rightarrow> 'q"
  assumes full_iff: "ok q \<Longrightarrow> full q \<longleftrightarrow> length (items q) = cap"
    and empty_iff: "ok q \<Longrightarrow> empty q \<longleftrightarrow> items q = []"
    and push_items: "ok q \<Longrightarrow> \<not> full q \<Longrightarrow> ok (push x q) \<and> items (push x q) = items q @ [x]"
    and pop_items: "ok q \<Longrightarrow> \<not> empty q \<Longrightarrow> ok (pop q) \<and> items q = front q # items (pop q)"
    and bounded: "ok q \<Longrightarrow> length (items q) \<le> cap"
begin

text \<open>Producers and a consumer: \<open>Some x\<close> is pushed unless the queue is full, \<open>None\<close> takes the front.\<close>

fun run :: "'a option list \<Rightarrow> 'q \<Rightarrow> 'a list \<times> 'a list \<times> 'q" where
  "run [] q = ([], [], q)"
| "run (Some x # es) q =
     (if full q then run es q else case run es (push x q) of (ins, outs, q') \<Rightarrow> (x # ins, outs, q'))"
| "run (None # es) q =
     (if empty q then run es q else case run es (pop q) of (ins, outs, q') \<Rightarrow> (ins, front q # outs, q'))"

lemma run_fifo: "ok q \<Longrightarrow> run es q = (ins, outs, q') \<Longrightarrow> ok q' \<and> items q @ ins = outs @ items q'"
proof (induction es q arbitrary: ins outs rule: run.induct)
  case (2 x es q)
  then show ?case
    using push_items [of q x] by (auto split: if_splits prod.splits)
next
  case (3 es q)
  then show ?case
    using pop_items [of q] by (auto split: if_splits prod.splits)
qed simp

end

text \<open>\<open>g_slow_queue\<close> with its two cursors; one slot stays free to tell full from empty.\<close>

record ring =
  rg_buf :: "nat list"
  rg_head :: nat
  rg_tail :: nat

definition ring_full :: "ring \<Rightarrow> bool" where
  "ring_full q \<longleftrightarrow> (rg_tail q + 1) mod EVENT_MAX_CONN = rg_head q"

definition ring_empty :: "ring \<Rightarrow> bool" where
  "ring_empty q \<longleftrightarrow> rg_head q = rg_tail q"

definition ring_push :: "nat \<Rightarrow> ring \<Rightarrow> ring" where
  "ring_push c q = q\<lparr>rg_buf := (rg_buf q)[rg_tail q := c], rg_tail := (rg_tail q + 1) mod EVENT_MAX_CONN\<rparr>"

definition ring_front :: "ring \<Rightarrow> nat" where
  "ring_front q = rg_buf q ! rg_head q"

definition ring_pop :: "ring \<Rightarrow> ring" where
  "ring_pop q = q\<lparr>rg_head := (rg_head q + 1) mod EVENT_MAX_CONN\<rparr>"

definition ring_ok :: "ring \<Rightarrow> bool" where
  "ring_ok q \<longleftrightarrow> length (rg_buf q) = EVENT_MAX_CONN \<and> rg_head q < EVENT_MAX_CONN \<and> rg_tail q < EVENT_MAX_CONN"

definition ring_len :: "ring \<Rightarrow> nat" where
  "ring_len q = (rg_tail q + EVENT_MAX_CONN - rg_head q) mod EVENT_MAX_CONN"

definition ring_items :: "ring \<Rightarrow> nat list" where
  "ring_items q = map (\<lambda>k. rg_buf q ! ((rg_head q + k) mod EVENT_MAX_CONN)) [0..<ring_len q]"

lemma max_conn_pos: "1 < EVENT_MAX_CONN"
  by (simp add: EVENT_MAX_CONN_def)

lemma ring_len_less: "ring_len q < EVENT_MAX_CONN"
  using max_conn_pos by (simp add: ring_len_def)

lemma ring_len_cases:
  "ring_ok q \<Longrightarrow> ring_len q = (if rg_head q \<le> rg_tail q then rg_tail q - rg_head q else rg_tail q + EVENT_MAX_CONN - rg_head q)"
  by (auto simp: ring_len_def ring_ok_def mod_if)

lemma ring_full_iff: "ring_ok q \<Longrightarrow> ring_full q \<longleftrightarrow> length (ring_items q) = EVENT_MAX_CONN - 1"
  using ring_len_cases [of q] max_conn_pos
  by (auto simp: ring_items_def ring_full_def ring_ok_def mod_if split: if_splits)

lemma ring_empty_iff: "ring_ok q \<Longrightarrow> ring_empty q \<longleftrightarrow> ring_items q = []"
  using ring_len_cases [of q] by (auto simp: ring_items_def ring_empty_def ring_ok_def split: if_splits)

lemma ring_push_ok: "ring_ok q \<Longrightarrow> ring_ok (ring_push c q)"
  using max_conn_pos by (simp add: ring_ok_def ring_push_def)

lemma ring_push_len: "ring_ok q \<Longrightarrow> \<not> ring_full q \<Longrightarrow> ring_len (ring_push c q) = Suc (ring_len q)"
  using ring_len_cases [of q] ring_len_cases [OF ring_push_ok, of q c] max_conn_pos
  by (auto simp: ring_push_def ring_full_def ring_ok_def mod_if split: if_splits)

lemma ring_index_tail:
  "ring_ok q \<Longrightarrow> k \<le> ring_len q \<Longrightarrow> (rg_head q + k) mod EVENT_MAX_CONN = rg_tail q \<longleftrightarrow> k = ring_len q"
  using ring_len_cases [of q] ring_len_less [of q] by (auto simp: ring_ok_def mod_if split: if_splits)

lemma ring_push_items:
  assumes "ring_ok q" and "\<not> ring_full q"
  shows "ring_items (ring_push c q) = ring_items q @ [c]"
proof -
  have "rg_buf (ring_push c q) ! ((rg_head q + k) mod EVENT_MAX_CONN) =
      (if k = ring_len q then c else rg_buf q ! ((rg_head q + k) mod EVENT_MAX_CONN))" if "k \<le> ring_len q" for k
    using ring_index_tail [OF assms(1) that] assms(1) by (auto simp: ring_push_def ring_ok_def nth_list_update)
  moreover have "rg_head (ring_push c q) = rg_head q" by (simp add: ring_push_def)
  ultimately show ?thesis
    using ring_push_len [OF assms] by (simp add: ring_items_def)
qed

lemma ring_pop_items:
  assumes "ring_ok q" and "\<not> ring_empty q"
  shows "ring_ok (ring_pop q) \<and> ring_items q = ring_front q # ring_items (ring_pop q)"
proof -
  have ok: "ring_ok (ring_pop q)" using assms max_conn_pos by (simp add: ring_ok_def ring_pop_def)
  have len: "ring_len q = Suc (ring_len (ring_pop q))"
    using ring_len_cases [OF assms(1)] ring_len_cases [OF ok] assms max_conn_pos
    by (auto simp: ring_pop_def ring_empty_def ring_ok_def mod_if split: if_splits)
  have idx: "(rg_head q + Suc k) mod EVENT_MAX_CONN = (rg_head (ring_pop q) + k) mod EVENT_MAX_CONN" for k
    by (simp add: ring_pop_def mod_add_left_eq)
  have "[0..<Suc n] = 0 # map Suc [0..<n]" for n by (simp add: map_Suc_upt upt_conv_Cons del: upt_Suc)
  then have "ring_items q = rg_buf q ! (rg_head q mod EVENT_MAX_CONN) #
      map (\<lambda>k. rg_buf q ! ((rg_head q + Suc k) mod EVENT_MAX_CONN)) [0..<ring_len (ring_pop q)]"
    by (simp add: ring_items_def len o_def)
  then show ?thesis
    using ok assms(1) idx by (simp add: ring_items_def ring_front_def ring_ok_def) (simp add: ring_pop_def)
qed

interpretation slow_queue: bounded_fifo ring_ok ring_items "EVENT_MAX_CONN - 1" ring_full ring_empty ring_push ring_front ring_pop
proof unfold_locales
  fix q :: ring and x :: nat
  assume q: "ring_ok q"
  show "ring_full q \<longleftrightarrow> length (ring_items q) = EVENT_MAX_CONN - 1" by (rule ring_full_iff [OF q])
  show "ring_empty q \<longleftrightarrow> ring_items q = []" by (rule ring_empty_iff [OF q])
  show "ring_ok (ring_push x q) \<and> ring_items (ring_push x q) = ring_items q @ [x]" if "\<not> ring_full q"
    using ring_push_ok [OF q] ring_push_items [OF q that] by (rule conjI)
  show "ring_ok (ring_pop q) \<and> ring_items q = ring_front q # ring_items (ring_pop q)" if "\<not> ring_empty q"
    by (rule ring_pop_items [OF q that])
  show "length (ring_items q) \<le> EVENT_MAX_CONN - 1"
    using ring_len_less [of q] by (simp add: ring_items_def)
qed

section \<open>Connections\<close>

datatype ConnState = S_READ_HEADER | S_SLOW_PENDING

record Conn =
  cn_fd :: int
  cn_state :: ConnState
  cn_peer :: "sockaddr option"
  cn_ip :: string
  cn_deadline :: int
  cn_served :: int
  cn_in_use :: bool

record event_loop =
  el_conns :: "Conn list"
  el_queue :: ring
  el_watched :: "int list"
  el_pool :: pool
  el_srv :: server_state
  el_in :: "int \<Rightarrow> string"
  el_out :: "(int \<times> string) list"
  el_closed :: "int list"

definition ev_register :: "int \<Rightarrow> event_loop \<Rightarrow> event_loop" where
  "ev_register fd el = el\<lparr>el_watched := List.insert fd (el_watched el)\<rparr>"

definition ev_deregister :: "int \<Rightarrow> event_loop \<Rightarrow> event_loop" where
  "ev_deregister fd el = el\<lparr>el_watched := removeAll fd (el_watched el)\<rparr>"

definition close_fd :: "int \<Rightarrow> event_loop \<Rightarrow> event_loop" where
  "close_fd fd el = el\<lparr>el_closed := el_closed el @ [fd]\<rparr>"

text \<open>The position of the first blank line.\<close>

fun find_header_end :: "string \<Rightarrow> nat option" where
  "find_header_end [] = None"
| "find_header_end (c # s) =
     (if take 4 (c # s) = crlf @ crlf then Some 0 else map_option Suc (find_header_end s))"

definition index_of :: "(Conn \<Rightarrow> bool) \<Rightarrow> Conn list \<Rightarrow> nat option" where
  "index_of P cs = (let k = length (takeWhile (\<lambda>c. \<not> P c) cs) in if k < length cs then Some k else None)"

definition conn_by_fd :: "int \<Rightarrow> event_loop \<Rightarrow> nat option" where
  "conn_by_fd fd el = index_of (\<lambda>c. cn_in_use c \<and> cn_fd c = fd) (el_conns el)"

definition put_conn :: "nat \<Rightarrow> Conn \<Rightarrow> event_loop \<Rightarrow> event_loop" where
  "put_conn i c el = el\<lparr>el_conns := (el_conns el)[i := c]\<rparr>"

definition conn_release :: "nat \<Rightarrow> event_loop \<Rightarrow> event_loop" where
  "conn_release i el = put_conn i ((el_conns el ! i)\<lparr>cn_in_use := False, cn_fd := - 1\<rparr>) el"

definition conn_close :: "nat \<Rightarrow> event_loop \<Rightarrow> event_loop" where
  "conn_close i el = conn_release i (close_fd (cn_fd (el_conns el ! i)) (ev_deregister (cn_fd (el_conns el ! i)) el))"

text \<open>
  Handing parked connections to the pool, oldest first, while there are tokens.  \<open>sent fd\<close> says whether the
  descriptor can be passed.  The bound on the passes is the size of the ring, which is never exhausted
  (\<open>drain_spec\<close>).
\<close>

fun drain :: "nat \<Rightarrow> (int \<Rightarrow> bool) \<Rightarrow> event_loop \<Rightarrow> event_loop" where
  "drain 0 sent el = el"
| "drain (Suc fuel) sent el =
     (if ring_empty (el_queue el) then el
      else let i = ring_front (el_queue el); fd = cn_fd (el_conns el ! i)
           in case hand_over (sent fd) fd (el_pool el) of
                None \<Rightarrow> el
              | Some p \<Rightarrow>
                  let el1 = conn_release i (close_fd fd (el\<lparr>el_pool := p\<rparr>))
                  in drain fuel sent (el1\<lparr>el_queue := ring_pop (el_queue el1)\<rparr>))"

definition drain_slow_queue :: "(int \<Rightarrow> bool) \<Rightarrow> event_loop \<Rightarrow> event_loop" where
  "drain_slow_queue sent el = drain EVENT_MAX_CONN sent el"

definition go_slow :: "(int \<Rightarrow> bool) \<Rightarrow> nat \<Rightarrow> event_loop \<Rightarrow> event_loop" where
  "go_slow sent i el =
     (let fd = cn_fd (el_conns el ! i);
          el1 = ev_deregister fd (el\<lparr>el_srv := count_request 1 (el_srv el)\<rparr>);
          el2 = put_conn i ((el_conns el1 ! i)\<lparr>cn_state := S_SLOW_PENDING\<rparr>) el1
      in if ring_full (el_queue el2) then conn_close i el2
         else drain_slow_queue sent (el2\<lparr>el_queue := ring_push i (el_queue el2)\<rparr>))"

section \<open>Serving\<close>

definition recv_consume :: "int \<Rightarrow> nat \<Rightarrow> event_loop \<Rightarrow> event_loop" where
  "recv_consume fd n el = el\<lparr>el_in := (el_in el)(fd := drop n (el_in el fd))\<rparr>"

text \<open>
  The results of \<open>send\<close> on the non-blocking socket: bytes taken, no room but room after waiting, a
  stalled client, an error.  The bytes sent and whether all were; \<open>None\<close> when the schedule ends first.
\<close>

datatype fast_event = FSent nat | FRoom | FStalled | FError

fun fast_send :: "fast_event list \<Rightarrow> string \<Rightarrow> (string \<times> bool) option" where
  "fast_send es [] = Some ([], True)"
| "fast_send [] (c # buf) = None"
| "fast_send (e # es) (c # buf) =
     (case e of
        FSent k \<Rightarrow>
          if k = 0 then Some ([], False)
          else map_option (\<lambda>(d, done). (take k (c # buf) @ d, done)) (fast_send es (drop k (c # buf)))
      | FRoom \<Rightarrow> fast_send es (c # buf)
      | FStalled \<Rightarrow> Some ([], False)
      | FError \<Rightarrow> Some ([], False))"

definition fast_serve ::
  "server_env \<Rightarrow> int \<Rightarrow> fast_event list \<Rightarrow> nat \<Rightarrow> HttpRequest \<Rightarrow> HttpResponse \<Rightarrow> nat \<Rightarrow> bool \<Rightarrow> event_loop \<Rightarrow> event_loop option" where
  "fast_serve env now es i req resp hdr_len force_close el =
     (let r = fill_response (se_fs env) resp; c = el_conns el ! i; fd = cn_fd c;
          ka = want_keep_alive req \<and> \<not> force_close
      in case build_response (se_resp env) r (rq_method req = ''HEAD'') ka of
           None \<Rightarrow> None
         | Some (raw, body_sent) \<Rightarrow>
             let el1 = recv_consume fd hdr_len el
             in (case fast_send es raw of
                   None \<Rightarrow> None
                 | Some (d, done) \<Rightarrow>
                     let el2 = el1\<lparr>el_out := el_out el1 @ [(fd, d)],
                                   el_srv := count_request 0 (log_and_count env (cn_ip c) req (rs_status_code r)
                                               (if done then body_sent else 0) (el_srv el1))\<rparr>;
                         served = wrap32 (cn_served c + 1);
                         el3 = put_conn i (c\<lparr>cn_served := served\<rparr>) el2
                     in Some (if \<not> (ka \<and> done) \<or> served \<ge> int MAX_KEEPALIVE_REQUESTS \<or> rs_status_code r \<ge> 500 \<or> se_shutdown env
                              then conn_close i el3
                              else put_conn i (c\<lparr>cn_served := served, cn_state := S_READ_HEADER,
                                                 cn_deadline := now + KEEPALIVE_TIMEOUT_SECONDS\<rparr>) el3)))"

text \<open>An authenticated request: to the pool, or served here.\<close>

definition conn_dispatch ::
  "server_env \<Rightarrow> int \<Rightarrow> fast_event list \<Rightarrow> string \<Rightarrow> string \<Rightarrow> (int \<Rightarrow> bool) \<Rightarrow> nat \<Rightarrow> HttpRequest \<Rightarrow> nat \<Rightarrow> event_loop \<Rightarrow> event_loop option" where
  "conn_dispatch env now es tmp junk sent i req hdr_len el =
     (if se_vite env > 0 \<and> is_websocket_upgrade tmp junk then Some (go_slow sent i el)
      else if \<not> is_fast_request (se_vite env) (se_prefix env) req then Some (go_slow sent i el)
      else (case process_request (se_route env) (sv_httpd (el_srv el)) req zero_response of
              None \<Rightarrow> None
            | Some (_, resp, h) \<Rightarrow>
                let el1 = el\<lparr>el_srv := (el_srv el)\<lparr>sv_httpd := h\<rparr>\<rparr>
                in if rs_stream_path resp \<noteq> None then Some (go_slow sent i el1)
                   else fast_serve env now es i req resp hdr_len False el1))"

text \<open>A parsed request: the rate limit, then the authentication.\<close>

definition conn_request ::
  "server_env \<Rightarrow> int \<Rightarrow> fast_event list \<Rightarrow> string \<Rightarrow> string \<Rightarrow> (int \<Rightarrow> bool) \<Rightarrow> nat \<Rightarrow> HttpRequest \<Rightarrow> nat \<Rightarrow> event_loop \<Rightarrow> event_loop option" where
  "conn_request env now es tmp junk sent i req hdr_len el =
     (case rate_gate env now (cn_peer (el_conns el ! i)) req (el_srv el) of
        (allowed, s1) \<Rightarrow>
          if \<not> allowed then
            fast_serve env now es i req
              ((set_error_response (se_fs env) zero_response 429 ''Too Many Requests'')\<lparr>rs_retry_after := 1\<rparr>) hdr_len True
              (el\<lparr>el_srv := s1\<rparr>)
          else
            (case auth_gate env now req s1 of
               (auth_ok, s2) \<Rightarrow>
                 if \<not> auth_ok then
                   fast_serve env now es i req (challenge_401 env s2 req zero_response) hdr_len True (el\<lparr>el_srv := s2\<rparr>)
                 else conn_dispatch env now es tmp junk sent i req hdr_len (el\<lparr>el_srv := s2\<rparr>)))"

text \<open>
  A readable connection.  \<open>junk\<close> is what the stack buffer \<open>tmp\<close> holds behind the bytes peeked; the string
  functions read on into it.
\<close>

definition conn_readable ::
  "server_env \<Rightarrow> int \<Rightarrow> fast_event list \<Rightarrow> string \<Rightarrow> (int \<Rightarrow> bool) \<Rightarrow> nat \<Rightarrow> event_loop \<Rightarrow> event_loop option" where
  "conn_readable env now es junk sent i el =
     (let c = el_conns el ! i; fs = se_fs env;
          tmp = take MAX_REQUEST_SIZE (el_in el (cn_fd c));
          blank = zero_request\<lparr>rq_remote_addr := take 63 (cn_ip c)\<rparr>
      in if tmp = [] then Some (conn_close i el)
         else (case find_header_end tmp of
            None \<Rightarrow>
              if length tmp \<ge> MAX_REQUEST_SIZE then
                fast_serve env now es i (blank\<lparr>rq_method := ''GET''\<rparr>)
                  (set_error_response fs zero_response 431 ''Request Header Fields Too Large'') (length tmp) True el
              else Some el
          | Some k \<Rightarrow>
              if now \<ge> cn_deadline c then
                fast_serve env now es i (blank\<lparr>rq_method := ''GET''\<rparr>)
                  (set_error_response fs zero_response 408 ''Request Timeout'') (k + 4) True el
              else (case parse_request (se_lenient env) (se_spool env) (tmp @ junk) blank of
                (ok, req) \<Rightarrow>
                  if \<not> ok then
                    fast_serve env now es i req (set_error_response fs zero_response 400 ''Bad Request'') (k + 4) False el
                  else conn_request env now es tmp junk sent i req (k + 4) el)))"

section \<open>Accepting and the idle sweep\<close>

definition accept_http :: "server_env \<Rightarrow> int \<Rightarrow> int \<Rightarrow> int \<times> sockaddr option \<times> string \<Rightarrow> event_loop \<Rightarrow> event_loop" where
  "accept_http env now timeout new el =
     (case new of
        (fd, peer, ip) \<Rightarrow>
          (case index_of (\<lambda>c. \<not> cn_in_use c) (el_conns el) of
             None \<Rightarrow> close_fd fd el
           | Some i \<Rightarrow>
               ev_register fd (put_conn i \<lparr>cn_fd = fd, cn_state = S_READ_HEADER, cn_peer = peer, cn_ip = ip,
                 cn_deadline = now + timeout, cn_served = 0, cn_in_use = True\<rparr> el)))"

definition sweep_conn :: "int \<Rightarrow> nat \<Rightarrow> event_loop \<Rightarrow> event_loop" where
  "sweep_conn now i el =
     (let c = el_conns el ! i
      in if cn_in_use c \<and> cn_deadline c \<noteq> 0 \<and> now \<ge> cn_deadline c then conn_close i el else el)"

definition sweep :: "int \<Rightarrow> event_loop \<Rightarrow> event_loop" where
  "sweep now el = fold (sweep_conn now) [0..<EVENT_MAX_CONN] el"

text \<open>One entry of the batch of events: a hang-up, new connections, or bytes to read.\<close>

datatype loop_event = HangUp int | Incoming "(int \<times> sockaddr option \<times> string) list" | Readable int "fast_event list" string

definition handle_event :: "server_env \<Rightarrow> int \<Rightarrow> int \<Rightarrow> (int \<Rightarrow> bool) \<Rightarrow> loop_event \<Rightarrow> event_loop \<Rightarrow> event_loop option" where
  "handle_event env now timeout sent ev el =
     (case ev of
        HangUp fd \<Rightarrow> Some (case conn_by_fd fd el of None \<Rightarrow> el | Some i \<Rightarrow> conn_close i el)
      | Incoming new \<Rightarrow> Some (fold (accept_http env now timeout) new el)
      | Readable fd es junk \<Rightarrow>
          (case conn_by_fd fd el of
             None \<Rightarrow> Some el
           | Some i \<Rightarrow> if cn_state (el_conns el ! i) = S_READ_HEADER then conn_readable env now es junk sent i el else Some el))"

fun handle_events :: "server_env \<Rightarrow> int \<Rightarrow> int \<Rightarrow> (int \<Rightarrow> bool) \<Rightarrow> loop_event list \<Rightarrow> event_loop \<Rightarrow> event_loop option" where
  "handle_events env now timeout sent [] el = Some el"
| "handle_events env now timeout sent (ev # evs) el =
     (case handle_event env now timeout sent ev el of None \<Rightarrow> None | Some el' \<Rightarrow> handle_events env now timeout sent evs el')"

text \<open>One turn of the loop; \<open>now'\<close> is the clock at the sweep.\<close>

definition loop_turn :: "server_env \<Rightarrow> int \<Rightarrow> int \<Rightarrow> int \<Rightarrow> (int \<Rightarrow> bool) \<Rightarrow> loop_event list \<Rightarrow> event_loop \<Rightarrow> event_loop option" where
  "loop_turn env now now' timeout sent evs el =
     map_option (sweep now') (handle_events env now timeout sent evs (drain_slow_queue sent el))"

lemma fast_send_prefix: "fast_send es buf = Some (d, fin) \<Longrightarrow> \<exists>e. buf = d @ e"
proof (induction es buf arbitrary: d fin rule: fast_send.induct)
  case (3 ev es c buf)
  show ?case
  proof (cases ev)
    case (FSent k)
    show ?thesis
    proof (cases "k = 0")
      case False
      then obtain d1 where d1: "fast_send es (drop k (c # buf)) = Some (d1, fin)" "d = take k (c # buf) @ d1"
        using 3(3) FSent by auto
      obtain e where "drop k (c # buf) = d1 @ e" using 3(1) [OF FSent False d1(1)] by blast
      then have "c # buf = d @ e" using d1(2) append_take_drop_id [of k "c # buf"] by simp
      then show ?thesis by blast
    qed (use 3(3) FSent in simp)
  qed (use 3 in auto)
qed simp_all

section \<open>Parked connections\<close>

lemmas loop_ops = ev_register_def ev_deregister_def close_fd_def put_conn_def conn_release_def conn_close_def recv_consume_def

text \<open>
  What the loop relies on in every state: the table has its size, the cursors are in range, every entry of
  the ring is an index into the table, and every connection that waits for a worker has an entry.  The
  converse does not hold: the idle sweep and a hang-up close a waiting connection and leave its entry
  (\<open>sweep_leaves_stale_entry\<close>).
\<close>

definition slots_inv :: "event_loop \<Rightarrow> bool" where
  "slots_inv el \<longleftrightarrow> length (el_conns el) = EVENT_MAX_CONN \<and> ring_ok (el_queue el) \<and>
     (\<forall>i\<in>set (ring_items (el_queue el)). i < EVENT_MAX_CONN)"

definition queue_inv :: "event_loop \<Rightarrow> bool" where
  "queue_inv el \<longleftrightarrow> slots_inv el \<and>
     (\<forall>i < EVENT_MAX_CONN. cn_in_use (el_conns el ! i) \<and> cn_state (el_conns el ! i) = S_SLOW_PENDING \<longrightarrow>
        i \<in> set (ring_items (el_queue el)))"

lemma queue_inv_update:
  assumes "queue_inv el" and "el_queue el' = el_queue el" and "el_conns el' = (el_conns el)[i := c]"
    and "\<not> (cn_in_use c \<and> cn_state c = S_SLOW_PENDING)"
  shows "queue_inv el'"
proof -
  have "el_conns el' ! k = (if k = i \<and> i < length (el_conns el) then c else el_conns el ! k)" for k
    using assms(3) by (cases "i < length (el_conns el)") (auto simp: nth_list_update list_update_beyond)
  then show ?thesis using assms by (auto simp: queue_inv_def slots_inv_def)
qed

lemma queue_inv_other:
  "queue_inv el \<Longrightarrow> el_queue el' = el_queue el \<Longrightarrow> el_conns el' = el_conns el \<Longrightarrow> queue_inv el'"
  by (simp add: queue_inv_def slots_inv_def)

lemma conn_close_inv: "queue_inv el \<Longrightarrow> queue_inv (conn_close i el)"
  by (erule queue_inv_update) (simp_all add: loop_ops, simp)

lemma drain_step_inv:
  assumes inv: "queue_inv el" and ne: "\<not> ring_empty (el_queue el)"
    and q: "el_queue el' = ring_pop (el_queue el)" and c: "el_conns el' = (el_conns el)[ring_front (el_queue el) := x]"
    and x: "\<not> cn_in_use x"
  shows "queue_inv el'"
proof -
  have "ring_ok (ring_pop (el_queue el))" "ring_items (el_queue el) = ring_front (el_queue el) # ring_items (ring_pop (el_queue el))"
    using ring_pop_items [of "el_queue el"] inv ne by (simp_all add: queue_inv_def slots_inv_def)
  then show ?thesis using inv q c x by (auto simp: queue_inv_def slots_inv_def nth_list_update)
qed

lemma drain_step_slots:
  assumes "slots_inv el" and "\<not> ring_empty (el_queue el)"
    and "el_queue el' = ring_pop (el_queue el)" and "el_conns el' = (el_conns el)[i := x]"
  shows "slots_inv el'"
  using assms ring_pop_items [of "el_queue el"] by (simp add: slots_inv_def)

text \<open>One pass of the draining loop.\<close>

definition drain_one :: "pool \<Rightarrow> event_loop \<Rightarrow> event_loop" where
  "drain_one p el =
     (let i = ring_front (el_queue el)
      in (conn_release i (close_fd (cn_fd (el_conns el ! i)) (el\<lparr>el_pool := p\<rparr>)))\<lparr>el_queue := ring_pop (el_queue el)\<rparr>)"

lemma drain_one_fields:
  "el_queue (drain_one p el) = ring_pop (el_queue el)" "el_pool (drain_one p el) = p"
  "el_conns (drain_one p el) = (el_conns el)[ring_front (el_queue el) :=
     (el_conns el ! ring_front (el_queue el))\<lparr>cn_in_use := False, cn_fd := - 1\<rparr>]"
  "el_closed (drain_one p el) = el_closed el @ [cn_fd (el_conns el ! ring_front (el_queue el))]"
  by (simp_all add: drain_one_def Let_def loop_ops)

lemma hand_over_None: "hand_over s fd p = None \<longleftrightarrow> pl_tokens p = 0"
  by (simp add: hand_over_def pool_claim_slot_nb_def split: option.splits prod.splits)

lemma hand_over_sock: "hand_over s fd p = Some p' \<Longrightarrow> pl_sock p' = pl_sock p @ (if s then [fd] else [])"
  by (auto simp: hand_over_def pool_claim_slot_nb_def pool_dispatch_fd_def pool_return_token_def split: if_splits)

lemma drain_stops: "ring_empty (el_queue el) \<or> pl_tokens (el_pool el) = 0 \<Longrightarrow> drain fuel sent el = el"
  by (cases fuel) (auto simp: Let_def hand_over_None [THEN iffD2])

lemma drain_goes_on:
  assumes "\<not> (ring_empty (el_queue el) \<or> pl_tokens (el_pool el) = 0)" and "fd = cn_fd (el_conns el ! ring_front (el_queue el))"
  obtains p where "hand_over (sent fd) fd (el_pool el) = Some p"
    and "drain (Suc fuel) sent el = drain fuel sent (drain_one p el)"
proof -
  obtain p where p: "hand_over (sent fd) fd (el_pool el) = Some p"
    using assms(1) hand_over_None [of "sent fd" fd "el_pool el"] by auto
  have "drain (Suc fuel) sent el = drain fuel sent (drain_one p el)"
    using assms p by (simp add: Let_def drain_one_def loop_ops)
  with p show ?thesis by (rule that)
qed

lemma drain_inv: "queue_inv el \<Longrightarrow> queue_inv (drain fuel sent el)"
proof (induction fuel arbitrary: el)
  case (Suc fuel)
  show ?case
  proof (cases "ring_empty (el_queue el) \<or> pl_tokens (el_pool el) = 0")
    case True
    then show ?thesis using Suc.prems by (simp add: drain_stops del: drain.simps)
  next
    case False
    then obtain p where "drain (Suc fuel) sent el = drain fuel sent (drain_one p el)"
      using drain_goes_on [OF False refl] by blast
    moreover have "queue_inv (drain_one p el)"
      using False by (intro drain_step_inv [OF Suc.prems _ drain_one_fields(1,3)]) simp_all
    ultimately show ?thesis using Suc.IH by simp
  qed
qed simp

lemma go_slow_inv:
  assumes inv: "queue_inv el" and i: "i < EVENT_MAX_CONN"
  shows "queue_inv (go_slow sent i el)"
proof -
  define el2 where "el2 = put_conn i ((el_conns el ! i)\<lparr>cn_state := S_SLOW_PENDING\<rparr>)
    (ev_deregister (cn_fd (el_conns el ! i)) (el\<lparr>el_srv := count_request 1 (el_srv el)\<rparr>))"
  have g: "go_slow sent i el = (if ring_full (el_queue el2) then conn_close i el2
      else drain_slow_queue sent (el2\<lparr>el_queue := ring_push i (el_queue el2)\<rparr>))"
    unfolding go_slow_def el2_def Let_def by (simp add: loop_ops)
  have q: "el_queue el2 = el_queue el" "el_conns el2 = (el_conns el)[i := (el_conns el ! i)\<lparr>cn_state := S_SLOW_PENDING\<rparr>]"
    by (simp_all add: el2_def loop_ops)
  have ok: "ring_ok (el_queue el)" using inv by (simp add: queue_inv_def slots_inv_def)
  have "queue_inv (el2\<lparr>el_queue := ring_push i (el_queue el2)\<rparr>)" if "\<not> ring_full (el_queue el2)"
    using inv i q ring_push_ok [OF ok] ring_push_items [OF ok] that by (auto simp: queue_inv_def slots_inv_def nth_list_update)
  moreover have "queue_inv (conn_close i el2)"
  proof (rule queue_inv_update [OF inv])
    show "el_conns (conn_close i el2) = (el_conns el)[i := (el_conns el2 ! i)\<lparr>cn_in_use := False, cn_fd := - 1\<rparr>]"
      by (simp add: loop_ops q)
  qed (simp_all add: loop_ops q)
  ultimately show ?thesis using g drain_inv by (simp add: drain_slow_queue_def)
qed

lemma fast_serve_conns:
  assumes "fast_serve env now es i req resp n fc el = Some el'" and "cn_state (el_conns el ! i) = S_READ_HEADER"
  shows "el_queue el' = el_queue el \<and> (\<exists>c. el_conns el' = (el_conns el)[i := c] \<and> \<not> (cn_in_use c \<and> cn_state c = S_SLOW_PENDING))"
proof -
  have u: "xs[i := (xs[i := c] ! i)\<lparr>cn_in_use := False, cn_fd := - 1\<rparr>] =
      xs[i := (if i < length xs then c else xs ! i)\<lparr>cn_in_use := False, cn_fd := - 1\<rparr>]" for xs and c :: Conn
    by (cases "i < length xs") (simp_all add: list_update_beyond)
  show ?thesis
    using assms unfolding fast_serve_def Let_def
    by (auto simp: loop_ops u split: option.splits prod.splits if_splits)
qed

lemma fast_serve_inv:
  "fast_serve env now es i req resp n fc el = Some el' \<Longrightarrow> queue_inv el \<Longrightarrow> cn_state (el_conns el ! i) = S_READ_HEADER \<Longrightarrow> queue_inv el'"
  using fast_serve_conns queue_inv_update by metis

text \<open>What a readable event can do to a connection.\<close>

inductive readable_outcome ::
  "server_env \<Rightarrow> int \<Rightarrow> fast_event list \<Rightarrow> (int \<Rightarrow> bool) \<Rightarrow> nat \<Rightarrow> event_loop \<Rightarrow> event_loop \<Rightarrow> bool"
  for env now es sent i el where
  closed: "readable_outcome env now es sent i el (conn_close i el)"
| waits: "readable_outcome env now es sent i el el"
| refused: "fast_serve env now es i req resp n fc el = Some el' \<Longrightarrow> readable_outcome env now es sent i el el'"
| served: "fast_serve env now es i req resp n fc (el\<lparr>el_srv := s\<rparr>) = Some el' \<Longrightarrow> readable_outcome env now es sent i el el'"
| parks: "readable_outcome env now es sent i el (go_slow sent i (el\<lparr>el_srv := s\<rparr>))"

lemma conn_dispatch_outcome:
  assumes "conn_dispatch env now es tmp junk sent i req n (el\<lparr>el_srv := s\<rparr>) = Some el'"
  shows "readable_outcome env now es sent i el el'"
proof (cases "(se_vite env > 0 \<and> is_websocket_upgrade tmp junk) \<or> \<not> is_fast_request (se_vite env) (se_prefix env) req")
  case True
  then have "el' = go_slow sent i (el\<lparr>el_srv := s\<rparr>)" using assms by (auto simp: conn_dispatch_def split: if_splits)
  then show ?thesis using readable_outcome.parks by simp
next
  case False
  then obtain x resp h where p: "process_request (se_route env) (sv_httpd s) req zero_response = Some (x, resp, h)"
    using assms by (auto simp: conn_dispatch_def split: if_splits option.splits)
  show ?thesis
  proof (cases "rs_stream_path resp = None")
    case True
    then have "fast_serve env now es i req resp n False (el\<lparr>el_srv := s\<lparr>sv_httpd := h\<rparr>\<rparr>) = Some el'"
      using assms False p by (auto simp: conn_dispatch_def Let_def split: if_splits)
    then show ?thesis by (rule readable_outcome.served)
  next
    case fs: False
    then have "el' = go_slow sent i (el\<lparr>el_srv := s\<lparr>sv_httpd := h\<rparr>\<rparr>)"
      using assms False p by (auto simp: conn_dispatch_def Let_def split: if_splits)
    then show ?thesis using readable_outcome.parks by simp
  qed
qed

lemma conn_request_outcome:
  "conn_request env now es tmp junk sent i req n el = Some el' \<Longrightarrow> readable_outcome env now es sent i el el'"
  unfolding conn_request_def
  by (auto split: prod.splits if_splits intro: readable_outcome.served conn_dispatch_outcome)

lemma conn_readable_outcome:
  "conn_readable env now es junk sent i el = Some el' \<Longrightarrow> readable_outcome env now es sent i el el'"
  unfolding conn_readable_def Let_def
  by (auto split: option.splits prod.splits if_splits
      intro: readable_outcome.closed readable_outcome.waits readable_outcome.refused conn_request_outcome)

lemma readable_outcome_inv:
  assumes "readable_outcome env now es sent i el el'" and inv: "queue_inv el"
    and i: "i < EVENT_MAX_CONN" "cn_state (el_conns el ! i) = S_READ_HEADER"
  shows "queue_inv el'"
  using assms(1)
proof cases
  case (served req resp n fc s)
  then show ?thesis
    by (rule fast_serve_inv) (use inv i in \<open>simp_all add: queue_inv_def slots_inv_def\<close>)
next
  case (parks s)
  have "queue_inv (el\<lparr>el_srv := s\<rparr>)" using inv by (rule queue_inv_other) simp_all
  then show ?thesis unfolding parks(1) using i(1) by (rule go_slow_inv)
qed (use inv i conn_close_inv fast_serve_inv in auto)

lemma index_of_Some: "index_of P cs = Some k \<Longrightarrow> k < length cs \<and> P (cs ! k)"
  using nth_length_takeWhile [of "\<lambda>c. \<not> P c" cs] by (auto simp: index_of_def Let_def split: if_splits)

lemma accept_inv: "queue_inv el \<Longrightarrow> queue_inv (accept_http env now timeout new el)"
proof -
  assume inv: "queue_inv el"
  obtain fd peer ip where n: "new = (fd, peer, ip)" by (cases new)
  show ?thesis
  proof (cases "index_of (\<lambda>c. \<not> cn_in_use c) (el_conns el)")
    case None
    then show ?thesis using inv n by (auto simp: accept_http_def loop_ops intro: queue_inv_other)
  next
    case (Some k)
    show ?thesis using inv by (rule queue_inv_update) (simp_all add: n Some accept_http_def loop_ops, simp)
  qed
qed

lemma accepts_inv: "queue_inv el \<Longrightarrow> queue_inv (fold (accept_http env now timeout) news el)"
  by (induction news arbitrary: el) (simp_all add: accept_inv)

lemma handle_event_inv:
  assumes inv: "queue_inv el" and "handle_event env now timeout sent ev el = Some el'"
  shows "queue_inv el'"
proof (cases ev)
  case (HangUp fd)
  then show ?thesis using assms conn_close_inv by (auto simp: handle_event_def split: option.splits)
next
  case (Incoming news)
  then show ?thesis using assms accepts_inv by (auto simp: handle_event_def)
next
  case (Readable fd es junk)
  show ?thesis
  proof (cases "\<exists>i. conn_by_fd fd el = Some i \<and> cn_state (el_conns el ! i) = S_READ_HEADER")
    case True
    then obtain i where i: "conn_by_fd fd el = Some i" "cn_state (el_conns el ! i) = S_READ_HEADER" by blast
    have "i < EVENT_MAX_CONN"
      using i(1) index_of_Some [of _ "el_conns el" i] inv by (auto simp: conn_by_fd_def queue_inv_def slots_inv_def)
    moreover have "conn_readable env now es junk sent i el = Some el'"
      using assms(2) Readable i by (simp add: handle_event_def)
    ultimately show ?thesis using conn_readable_outcome readable_outcome_inv inv i(2) by blast
  qed (use assms Readable in \<open>auto simp: handle_event_def split: option.splits\<close>)
qed

lemma sweep_inv: "queue_inv el \<Longrightarrow> queue_inv (sweep now el)"
proof -
  have "queue_inv el \<Longrightarrow> queue_inv (fold (sweep_conn now) ks el)" for ks
    by (induction ks arbitrary: el) (simp_all add: sweep_conn_def Let_def conn_close_inv)
  then show "queue_inv el \<Longrightarrow> queue_inv (sweep now el)" by (simp add: sweep_def)
qed

section \<open>The loop as a transition system\<close>

text \<open>
  The states the loop can get into, while bytes arrive and workers run: from a table of unused connections and an
  empty ring, any event, any draining, a sweep at any time, and any change the network makes to the
  bytes received or the workers make to the pool.
\<close>

definition empty_ring :: ring where
  "empty_ring = \<lparr>rg_buf = replicate EVENT_MAX_CONN 0, rg_head = 0, rg_tail = 0\<rparr>"

inductive loop_reach :: "server_env \<Rightarrow> event_loop \<Rightarrow> bool" for env where
  start: "length (el_conns el) = EVENT_MAX_CONN \<Longrightarrow> \<forall>c\<in>set (el_conns el). \<not> cn_in_use c \<Longrightarrow> el_queue el = empty_ring \<Longrightarrow>
    loop_reach env el"
| drained: "loop_reach env el \<Longrightarrow> loop_reach env (drain_slow_queue sent el)"
| handled: "loop_reach env el \<Longrightarrow> handle_event env now timeout sent ev el = Some el' \<Longrightarrow> loop_reach env el'"
| swept: "loop_reach env el \<Longrightarrow> loop_reach env (sweep now el)"
| received: "loop_reach env el \<Longrightarrow> loop_reach env (el\<lparr>el_in := inp\<rparr>)"
| worked: "loop_reach env el \<Longrightarrow> loop_reach env (el\<lparr>el_pool := p\<rparr>)"

lemma empty_ring_items: "ring_ok empty_ring \<and> ring_items empty_ring = []"
  using max_conn_pos by (simp add: empty_ring_def ring_ok_def ring_items_def ring_len_def)

lemma loop_reach_inv: "loop_reach env el \<Longrightarrow> queue_inv el"
proof (induction rule: loop_reach.induct)
  case (start el)
  then show ?case using empty_ring_items by (simp add: queue_inv_def slots_inv_def)
next
  case (drained el sent)
  then show ?case by (simp add: drain_slow_queue_def drain_inv)
next
  case (handled el now timeout sent ev el')
  then show ?case using handle_event_inv by blast
next
  case (swept el now)
  then show ?case using sweep_inv by blast
qed (auto intro: queue_inv_other)

text \<open>
  (C8) No connection that waits for a worker is forgotten: in every state the loop can reach, whatever the events,
  the hang-ups, the arriving bytes, the activity of the workers and the times of the idle sweeps, the cursors
  of the ring buffer are in range, it holds at most 1023 entries, every entry is a slot of the connection
  table, and every connection in use that waits for a worker has an entry, so a later drain reaches it.
  (An entry may outlive its connection: \<open>sweep_leaves_stale_entry\<close>.)
\<close>

theorem waiting_connections_queued:
  assumes "loop_reach env el"
  shows "rg_head (el_queue el) < EVENT_MAX_CONN \<and> rg_tail (el_queue el) < EVENT_MAX_CONN \<and>
    length (ring_items (el_queue el)) \<le> EVENT_MAX_CONN - 1 \<and>
    (\<forall>i\<in>set (ring_items (el_queue el)). i < length (el_conns el)) \<and>
    (\<forall>i < length (el_conns el). cn_in_use (el_conns el ! i) \<and> cn_state (el_conns el ! i) = S_SLOW_PENDING \<longrightarrow>
       i \<in> set (ring_items (el_queue el)))"
  using loop_reach_inv [OF assms] slow_queue.bounded [of "el_queue el"]
  by (simp add: queue_inv_def slots_inv_def ring_ok_def)

section \<open>Draining\<close>

text \<open>
  The descriptors a run of entries stands for: an entry's own the first time its slot is handed over, -1 when
  the slot was released by an earlier entry (\<open>seen\<close>).
\<close>

primrec handed_fds :: "Conn list \<Rightarrow> nat list \<Rightarrow> nat list \<Rightarrow> int list" where
  "handed_fds cs seen [] = []"
| "handed_fds cs seen (i # is) =
     (if i \<in> set seen then - 1 else cn_fd (cs ! i)) # handed_fds cs (i # seen) is"

lemma handed_fds_seen: "set seen = set seen' \<Longrightarrow> handed_fds cs seen is = handed_fds cs seen' is"
proof (induction "is" arbitrary: seen seen')
  case (Cons i "is")
  then show ?case using Cons.IH [of "i # seen" "i # seen'"] by simp
qed simp

lemma handed_fds_released:
  assumes "i < length cs"
  shows "handed_fds (cs[i := c\<lparr>cn_fd := - 1\<rparr>]) seen is = handed_fds cs (i # seen) is"
proof (induction "is" arbitrary: seen)
  case (Cons j "is")
  have "handed_fds cs (i # j # seen) is = handed_fds cs (j # i # seen) is"
    by (rule handed_fds_seen) auto
  then show ?case using Cons.IH [of "j # seen"] assms by (auto simp: nth_list_update)
qed simp

lemma handed_fds_distinct:
  "distinct is \<Longrightarrow> set is \<inter> set seen = {} \<Longrightarrow> handed_fds cs seen is = map (\<lambda>i. cn_fd (cs ! i)) is"
  by (induction "is" arbitrary: seen) auto

lemma drain_spec:
  "slots_inv el \<Longrightarrow> length (ring_items (el_queue el)) \<le> fuel \<Longrightarrow>
   \<exists>gone. ring_items (el_queue el) = gone @ ring_items (el_queue (drain fuel sent el)) \<and>
     (ring_items (el_queue (drain fuel sent el)) = [] \<or> pl_tokens (el_pool (drain fuel sent el)) = 0) \<and>
     el_closed (drain fuel sent el) = el_closed el @ handed_fds (el_conns el) [] gone \<and>
     pl_sock (el_pool (drain fuel sent el)) = pl_sock (el_pool el) @ filter sent (handed_fds (el_conns el) [] gone) \<and>
     (\<forall>i. i \<notin> set gone \<longrightarrow> el_conns (drain fuel sent el) ! i = el_conns el ! i)"
proof (induction fuel arbitrary: el)
  case (Suc fuel)
  have ok: "ring_ok (el_queue el)" using Suc.prems(1) by (simp add: slots_inv_def)
  let ?f = "ring_front (el_queue el)"
  show ?case
  proof (cases "ring_empty (el_queue el) \<or> pl_tokens (el_pool el) = 0")
    case True
    then show ?thesis
      using drain_stops [OF True, of "Suc fuel" sent] ring_empty_iff [OF ok] by (intro exI [of _ "[]"]) (auto simp del: drain.simps)
  next
    case False
    then have ne: "\<not> ring_empty (el_queue el)" by simp
    obtain p where p: "hand_over (sent (cn_fd (el_conns el ! ?f))) (cn_fd (el_conns el ! ?f)) (el_pool el) = Some p"
      and d: "drain (Suc fuel) sent el = drain fuel sent (drain_one p el)"
      using drain_goes_on [OF False refl] by blast
    note fl = drain_one_fields [of p el]
    have pk: "ring_items (el_queue el) = ?f # ring_items (el_queue (drain_one p el))"
      using ring_pop_items [OF ok ne] fl(1) by simp
    have inv1: "slots_inv (drain_one p el)" by (rule drain_step_slots [OF Suc.prems(1) ne fl(1,3)])
    have i: "?f < length (el_conns el)" using Suc.prems(1) pk by (simp add: slots_inv_def)
    obtain gone where g: "ring_items (el_queue (drain_one p el)) = gone @ ring_items (el_queue (drain fuel sent (drain_one p el)))"
      "ring_items (el_queue (drain fuel sent (drain_one p el))) = [] \<or> pl_tokens (el_pool (drain fuel sent (drain_one p el))) = 0"
      "el_closed (drain fuel sent (drain_one p el)) = el_closed (drain_one p el) @ handed_fds (el_conns (drain_one p el)) [] gone"
      "pl_sock (el_pool (drain fuel sent (drain_one p el))) =
         pl_sock (el_pool (drain_one p el)) @ filter sent (handed_fds (el_conns (drain_one p el)) [] gone)"
      "\<forall>i. i \<notin> set gone \<longrightarrow> el_conns (drain fuel sent (drain_one p el)) ! i = el_conns (drain_one p el) ! i"
      using Suc.IH [OF inv1] Suc.prems(2) pk by auto
    have h: "handed_fds (el_conns (drain_one p el)) [] gone = handed_fds (el_conns el) [?f] gone"
      using handed_fds_released [OF i, of "(el_conns el ! ?f)\<lparr>cn_in_use := False\<rparr>" "[]" gone] fl(3) by simp
    show ?thesis
      unfolding d using g pk h fl hand_over_sock [OF p] by (intro exI [of _ "?f # gone"]) simp
  qed
qed simp

text \<open>
  (C9) Draining takes the entries of the queue from its front, in the order they were put there, and loses none.
  For any state of the loop whose ring has its cursors in range and its entries inside the table (every
  reachable state, and with stale or repeated entries too): the entries that leave the queue are a front part of it; the
  descriptor of each is put on the pool's socket (unless passing it fails) and the master's copy is closed, in that order,
  where an entry whose slot an earlier entry has released stands for -1; no other connection changes; and
  draining stops only when the queue is empty or the pool has no free worker left.
\<close>

theorem parked_connections_in_order:
  assumes "ring_ok (el_queue el)" and "length (el_conns el) = EVENT_MAX_CONN"
    and "\<forall>i\<in>set (ring_items (el_queue el)). i < EVENT_MAX_CONN"
    and "el' = drain_slow_queue sent el"
  shows "\<exists>gone. ring_items (el_queue el) = gone @ ring_items (el_queue el') \<and>
     (ring_items (el_queue el') = [] \<or> pl_tokens (el_pool el') = 0) \<and>
     el_closed el' = el_closed el @ handed_fds (el_conns el) [] gone \<and>
     pl_sock (el_pool el') = pl_sock (el_pool el) @ filter sent (handed_fds (el_conns el) [] gone) \<and>
     (\<forall>i. i \<notin> set gone \<longrightarrow> el_conns el' ! i = el_conns el ! i)"
proof -
  have inv: "slots_inv el" using assms(1-3) by (simp add: slots_inv_def)
  have "length (ring_items (el_queue el)) \<le> EVENT_MAX_CONN"
    using ring_len_less [of "el_queue el"] by (simp add: ring_items_def)
  from drain_spec [OF inv this, of sent] show ?thesis
    by (simp add: assms(4) drain_slow_queue_def)
qed

definition idle_conn :: Conn where
  "idle_conn = \<lparr>cn_fd = 0, cn_state = S_READ_HEADER, cn_peer = None, cn_ip = [], cn_deadline = 0, cn_served = 0, cn_in_use = False\<rparr>"

definition demo_server :: server_state where
  "demo_server = \<lparr>sv_httpd = \<lparr>hs_login = demo_login_state, hs_metrics = None\<rparr>, sv_rate = None, sv_log = None\<rparr>"

definition demo_loop :: event_loop where
  "demo_loop = \<lparr>el_conns = replicate EVENT_MAX_CONN idle_conn, el_queue = empty_ring, el_watched = [], el_pool = demo_pool,
     el_srv = demo_server, el_in = (\<lambda>_. []), el_out = [], el_closed = []\<rparr>"

text \<open>Two connections are parked and the pool has two workers: both leave, in order.\<close>

definition two_parked :: event_loop where
  "two_parked = demo_loop\<lparr>el_conns := (el_conns demo_loop)[3 := idle_conn\<lparr>cn_fd := 13, cn_state := S_SLOW_PENDING, cn_in_use := True\<rparr>,
       5 := idle_conn\<lparr>cn_fd := 15, cn_state := S_SLOW_PENDING, cn_in_use := True\<rparr>],
     el_queue := ring_push 3 (ring_push 5 empty_ring)\<rparr>"

lemma two_parked_ring: "ring_ok (ring_push 3 (ring_push 5 empty_ring)) \<and> ring_items (ring_push 3 (ring_push 5 empty_ring)) = [5, 3]"
proof -
  have e: "ring_ok empty_ring" "ring_items empty_ring = []" using empty_ring_items by simp_all
  have f: "\<not> ring_full empty_ring" by (simp add: ring_full_iff [OF e(1)] e(2) EVENT_MAX_CONN_def)
  have o: "ring_ok (ring_push 5 empty_ring)" "ring_items (ring_push 5 empty_ring) = [5]"
    using ring_push_ok [OF e(1)] ring_push_items [OF e(1) f] e(2) by simp_all
  have "\<not> ring_full (ring_push 5 empty_ring)" by (simp add: ring_full_iff [OF o(1)] o(2) EVENT_MAX_CONN_def)
  then show ?thesis using ring_push_ok [OF o(1)] ring_push_items [OF o(1)] o(2) by simp
qed

theorem parked_connections_in_order_witness:
  "\<exists>gone. [5, 3] = gone @ ring_items (el_queue (drain_slow_queue (\<lambda>_. True) two_parked)) \<and>
     pl_sock (el_pool (drain_slow_queue (\<lambda>_. True) two_parked)) = handed_fds (el_conns two_parked) [] gone"
proof -
  have q: "ring_ok (el_queue two_parked)" "ring_items (el_queue two_parked) = [5, 3]"
    using two_parked_ring by (simp_all add: two_parked_def)
  have c: "length (el_conns two_parked) = EVENT_MAX_CONN" by (simp add: two_parked_def demo_loop_def)
  have s: "pl_sock (el_pool two_parked) = []" by (simp add: two_parked_def demo_loop_def demo_pool_def)
  have "\<forall>i\<in>set (ring_items (el_queue two_parked)). i < EVENT_MAX_CONN" by (simp add: q EVENT_MAX_CONN_def)
  then obtain gone where "ring_items (el_queue two_parked) = gone @ ring_items (el_queue (drain_slow_queue (\<lambda>_. True) two_parked))"
    "pl_sock (el_pool (drain_slow_queue (\<lambda>_. True) two_parked)) =
       pl_sock (el_pool two_parked) @ filter (\<lambda>_. True) (handed_fds (el_conns two_parked) [] gone)"
    using parked_connections_in_order [OF q(1) c _ refl, of "\<lambda>_. True"] by blast
  then show ?thesis using q(2) s by auto
qed

section \<open>Refused requests\<close>

lemma fast_serve_forced:
  assumes "fast_serve env now es i req resp n True el = Some el'" and "i < length (el_conns el)"
  shows "\<exists>raw b d. build_response (se_resp env) (fill_response (se_fs env) resp) (rq_method req = ''HEAD'') False = Some (raw, b) \<and>
    el_out el' = el_out el @ [(cn_fd (el_conns el ! i), d)] \<and> (\<exists>e. raw = d @ e) \<and>
    el_closed el' = el_closed el @ [cn_fd (el_conns el ! i)] \<and> \<not> cn_in_use (el_conns el' ! i) \<and>
    el_queue el' = el_queue el \<and> el_pool el' = el_pool el \<and> hs_login (sv_httpd (el_srv el')) = hs_login (sv_httpd (el_srv el))"
proof -
  obtain raw b where b: "build_response (se_resp env) (fill_response (se_fs env) resp) (rq_method req = ''HEAD'') False = Some (raw, b)"
    using assms(1) by (auto simp: fast_serve_def Let_def split: option.splits)
  obtain d fin where d: "fast_send es raw = Some (d, fin)"
    using assms(1) b by (auto simp: fast_serve_def Let_def split: option.splits)
  have pre: "\<exists>e. raw = d @ e" using d by (rule fast_send_prefix)
  have "el_out el' = el_out el @ [(cn_fd (el_conns el ! i), d)] \<and>
      el_closed el' = el_closed el @ [cn_fd (el_conns el ! i)] \<and> \<not> cn_in_use (el_conns el' ! i) \<and>
      el_queue el' = el_queue el \<and> el_pool el' = el_pool el \<and> hs_login (sv_httpd (el_srv el')) = hs_login (sv_httpd (el_srv el))"
    using assms b d by (auto simp: fast_serve_def Let_def loop_ops)
  with b pre show ?thesis by blast
qed

text \<open>
  (C10) A request that fails the authentication gets its challenge and nothing else: when the event loop has
  parsed a complete request that the rate limit admits but that neither is for an exempt path nor carries a live
  session or valid credentials, then the only bytes sent are (a front part of) the serialised 401
  response, the connection is closed, it is neither parked nor handed to a worker, and no lockout, session or
  password state changes beyond what the check itself reloaded.
\<close>

theorem unauthenticated_gets_challenge_only:
  assumes "i < length (el_conns el)" and "c = el_conns el ! i"
    and "tmp = take MAX_REQUEST_SIZE (el_in el (cn_fd c))" and "tmp \<noteq> []"
    and "find_header_end tmp = Some k" and "now < cn_deadline c"
    and "parse_request (se_lenient env) (se_spool env) (tmp @ junk) (zero_request\<lparr>rq_remote_addr := take 63 (cn_ip c)\<rparr>) = (True, req)"
    and "rate_gate env now (cn_peer c) req (el_srv el) = (True, s1)" and "auth_gate env now req s1 = (False, s2)"
    and "conn_readable env now es junk sent i el = Some el'"
  shows "(\<exists>raw b d e. build_response (se_resp env) (fill_response (se_fs env) (challenge_401 env s2 req zero_response))
              (rq_method req = ''HEAD'') False = Some (raw, b) \<and> raw = d @ e \<and> el_out el' = el_out el @ [(cn_fd c, d)]) \<and>
    el_closed el' = el_closed el @ [cn_fd c] \<and> \<not> cn_in_use (el_conns el' ! i) \<and>
    el_queue el' = el_queue el \<and> el_pool el' = el_pool el \<and>
    hs_login (sv_httpd (el_srv el')) = hs_login (sv_httpd s2) \<and>
    ls_limiter (hs_login (sv_httpd s2)) = ls_limiter (hs_login (sv_httpd (el_srv el)))"
proof -
  have "conn_readable env now es junk sent i el = conn_request env now es tmp junk sent i req (k + 4) el"
    using assms(2-7) by (simp add: conn_readable_def Let_def)
  then have "fast_serve env now es i req (challenge_401 env s2 req zero_response) (k + 4) True (el\<lparr>el_srv := s2\<rparr>) = Some el'"
    using assms(2,8-10) by (simp add: conn_request_def)
  from fast_serve_forced [OF this] have "\<exists>raw b d. build_response (se_resp env) (fill_response (se_fs env) (challenge_401 env s2 req zero_response)) (rq_method req = ''HEAD'') False = Some (raw, b) \<and>
    el_out el' = el_out el @ [(cn_fd c, d)] \<and> (\<exists>e. raw = d @ e) \<and>
    el_closed el' = el_closed el @ [cn_fd c] \<and> \<not> cn_in_use (el_conns el' ! i) \<and>
    el_queue el' = el_queue el \<and> el_pool el' = el_pool el \<and> hs_login (sv_httpd (el_srv el')) = hs_login (sv_httpd s2)"
    using assms(1,2) by simp
  moreover have "ls_limiter (hs_login (sv_httpd s2)) = ls_limiter (hs_login (sv_httpd (el_srv el)))"
    using rate_gate_frame [OF assms(8)] auth_gate_frame [OF assms(9)] by simp
  ultimately show ?thesis by blast
qed

section \<open>Where the fast path differs from the connection handler\<close>

text \<open>The Host allowlist plays no part in it.\<close>

theorem fast_path_ignores_allowlist:
  "conn_readable (env\<lparr>se_hosts := h\<rparr>) now es junk sent i el = conn_readable env now es junk sent i el"
proof -
  have g: "rate_gate (env\<lparr>se_hosts := h\<rparr>) = rate_gate env" "auth_gate (env\<lparr>se_hosts := h\<rparr>) = auth_gate env"
    "challenge_401 (env\<lparr>se_hosts := h\<rparr>) = challenge_401 env" "log_and_count (env\<lparr>se_hosts := h\<rparr>) = log_and_count env"
    by (intro ext, simp add: rate_gate_def auth_gate_def exempt_path_def challenge_401_def log_and_count_def Let_def cong: if_cong)+
  have s: "se_route (env\<lparr>se_hosts := h\<rparr>) = se_route env" "se_resp (env\<lparr>se_hosts := h\<rparr>) = se_resp env"
    "se_shutdown (env\<lparr>se_hosts := h\<rparr>) = se_shutdown env" "se_vite (env\<lparr>se_hosts := h\<rparr>) = se_vite env"
    "se_prefix (env\<lparr>se_hosts := h\<rparr>) = se_prefix env" "se_lenient (env\<lparr>se_hosts := h\<rparr>) = se_lenient env"
    "se_spool (env\<lparr>se_hosts := h\<rparr>) = se_spool env"
    by simp_all
  have f: "fast_serve (env\<lparr>se_hosts := h\<rparr>) = fast_serve env"
    by (intro ext) (unfold fast_serve_def g s, rule refl)
  have d: "conn_dispatch (env\<lparr>se_hosts := h\<rparr>) = conn_dispatch env"
    by (intro ext) (unfold conn_dispatch_def f s, rule refl)
  have r: "conn_request (env\<lparr>se_hosts := h\<rparr>) = conn_request env"
    by (intro ext) (unfold conn_request_def f g d s, rule refl)
  show ?thesis by (unfold conn_readable_def f s r) (rule refl)
qed

text \<open>Neither do the framing headers: a GET with a chunked or refused body counts as one without a body.\<close>

theorem fast_path_ignores_framing:
  "is_fast_request vp pre (req\<lparr>rq_chunked := a, rq_te_unsupported := b, rq_body_too_large := t\<rparr>) = is_fast_request vp pre req"
  by (simp add: is_fast_request_def is_vite_proxy_route_def Let_def)

text \<open>A sweep past the deadline of a parked connection leaves its entry in the queue.\<close>

theorem sweep_leaves_stale_entry:
  assumes "k < length (el_conns el)" and "cn_in_use (el_conns el ! k)" and "k \<in> set (ring_items (el_queue el))"
    and "cn_deadline (el_conns el ! k) \<noteq> 0" and "cn_deadline (el_conns el ! k) \<le> now"
  shows "k \<in> set (ring_items (el_queue (sweep_conn now k el))) \<and> cn_fd (el_conns (sweep_conn now k el) ! k) = - 1 \<and>
    \<not> cn_in_use (el_conns (sweep_conn now k el) ! k)"
  using assms by (simp add: sweep_conn_def Let_def loop_ops)

definition demo_server_env :: server_env where
  "demo_server_env = \<lparr>se_route = demo_route_env, se_lenient = False, se_spool = 0, se_hosts = [], se_rps = 0, se_aton = (\<lambda>_. None),
     se_pton6 = (\<lambda>_. None), se_nets = [], se_public = [], se_resp = demo_resp_env, se_time_str = [], se_shutdown = False,
     se_vite = 0, se_prefix = ''/react'', se_react_sock = []\<rparr>"

definition demo_conn :: Conn where
  "demo_conn = idle_conn\<lparr>cn_fd := 7, cn_in_use := True, cn_deadline := 9, cn_ip := ''10.0.0.7''\<rparr>"

definition demo_get :: string where
  "demo_get = ''GET / HTTP/1.1'' @ crlf @ crlf"

definition demo_loop1 :: event_loop where
  "demo_loop1 = demo_loop\<lparr>el_conns := (el_conns demo_loop)[0 := demo_conn], el_in := (\<lambda>_. []) (7 := demo_get)\<rparr>"

lemma demo_auth_refuses:
  assumes "rq_path req = ''/''" and "rq_cookie req = []" and "rq_authorization req = []"
  shows "\<exists>s2. auth_gate demo_server_env 1 req demo_server = (False, s2)"
proof -
  have "\<not> exempt_path demo_server_env ''/''"
    unfolding exempt_path_def demo_server_env_def demo_route_env_def demo_login_env_def by code_simp
  moreover have "basic_credentials [] = None" by code_simp
  moreover have "fst (auth_session_valid demo_cfg demo_env 1 demo_auth (Some []) []) = False" by code_simp
  ultimately show ?thesis
    using assms by (auto simp: auth_gate_def demo_server_env_def demo_route_env_def demo_login_env_def demo_server_def demo_login_state_def
        check_basic_auth_def demo_env_def Let_def split: prod.splits)
qed

lemma demo_challenge:
  assumes "rq_path req = ''/''"
  shows "\<exists>raw n. build_response demo_resp_env (fill_response (se_fs demo_server_env) (challenge_401 demo_server_env s req zero_response)) ho False = Some (raw, n)"
proof (rule build_response_total)
  define r where "r = challenge_401 demo_server_env s req zero_response"
  have l: "length (auth_realm_current c ''r'' a) < 128" for c a
    by (auto simp: auth_realm_current_def min_def split: prod.split)
  have b: "\<not> starts_with ''/api/'' ''/''" by code_simp
  define pg where "pg = error_page 401 ''Unauthorized''"
  have pg: "length pg < 65536" by (simp add: pg_def error_page_def MAX_REQUEST_SIZE_def)
  have r: "r = zero_response\<lparr>rs_status_code := 401, rs_status_text := rs_status_text r, rs_content_type := ''text/html'',
      rs_body := Some pg, rs_body_length := int (length pg), rs_auth_realm := rs_auth_realm r,
      rs_location := ''/login?back=/'', rs_auth_login_hint := ''1''\<rparr>"
    and w: "length (rs_status_text r) < 64" "\<exists>a. rs_auth_realm r = Some (auth_realm_current True ''r'' a)"
    using assms b by (auto simp: r_def pg_def challenge_401_def demo_server_env_def demo_route_env_def demo_login_env_def set_error_response_def
        copy_status_text_def read_file_into_response_def zero_response_def auth_401_as_json_def Let_def auth_session_enabled_def demo_cfg_def demo_env_def)
  have fb: "rs_body r = Some pg" "rs_content_type r \<noteq> []" "rs_body_length r = int (length pg)" by (subst r, simp)+
  then have f: "fill_response (se_fs demo_server_env) r = r" by (simp add: fill_response_def)
  show "response_wf (fill_response (se_fs demo_server_env) (challenge_401 demo_server_env s req zero_response))"
    unfolding r_def [symmetric] f
    by (subst r) (use w l pg in \<open>auto simp: response_wf_def zero_response_def HTTP_EXTRA_RESP_HEADERS_MAX_def\<close>)
  show "rs_body_length (fill_response (se_fs demo_server_env) (challenge_401 demo_server_env s req zero_response)) \<le> int (length bd)"
    if "rs_body (fill_response (se_fs demo_server_env) (challenge_401 demo_server_env s req zero_response)) = Some bd" for bd
    using that fb unfolding r_def [symmetric] f by simp
qed (simp_all add: demo_resp_env_def)

theorem unauthenticated_gets_challenge_only_witness:
  "\<exists>el'. conn_readable demo_server_env 1 [FError] [] (\<lambda>_. True) 0 demo_loop1 = Some el' \<and>
     el_closed el' = [7] \<and> \<not> cn_in_use (el_conns el' ! 0) \<and> el_pool el' = demo_pool"
proof -
  define rq where "rq = zero_request\<lparr>rq_remote_addr := ''10.0.0.7'', rq_method := ''GET'', rq_path := ''/'', rq_protocol := ''HTTP/1.1''\<rparr>"
  have len: "0 < length (el_conns demo_loop1)" using max_conn_pos by (simp add: demo_loop1_def demo_loop_def)
  then have c: "el_conns demo_loop1 ! 0 = demo_conn" by (simp add: demo_loop1_def)
  have f: "cn_fd demo_conn = 7" "cn_deadline demo_conn = 9" "take 63 (cn_ip demo_conn) = ''10.0.0.7''"
    by (simp_all add: demo_conn_def)
  have i: "el_in demo_loop1 7 = demo_get" by (simp add: demo_loop1_def)
  have t: "take MAX_REQUEST_SIZE demo_get = demo_get" "demo_get \<noteq> []" by (simp_all add: demo_get_def MAX_REQUEST_SIZE_def)
  have h: "find_header_end demo_get = Some 14" by code_simp
  have sc: "scan_request_line (take MAX_PATH_SIZE ''GET / HTTP/1.1'') (zero_request\<lparr>rq_remote_addr := ''10.0.0.7''\<rparr>) = (True, rq)"
    unfolding rq_def by code_simp
  have d: "demo_get = ''GET / HTTP/1.1'' @ crlf @ header_text [] []" "cstr demo_get = demo_get" "plain_line ''GET / HTTP/1.1''"
    by code_simp+
  have "parse_headers False 0 demo_get (zero_request\<lparr>rq_remote_addr := ''10.0.0.7''\<rparr>) = (Some [], apply_headers 0 [] rq)"
    unfolding d(1) by (rule parse_headers_render [OF d(3) _ sc]) simp
  then have p: "parse_request False 0 demo_get (zero_request\<lparr>rq_remote_addr := ''10.0.0.7''\<rparr>) = (True, rq)"
    by (simp add: parse_request_def d(2) t apply_headers_def)
  have q: "rq_path rq = ''/''" "rq_cookie rq = []" "rq_authorization rq = []"
    by (simp_all add: rq_def zero_request_def)
  have e: "se_lenient demo_server_env = False" "se_spool demo_server_env = 0" "se_resp demo_server_env = demo_resp_env"
    by (simp_all add: demo_server_env_def)
  have s: "el_srv demo_loop1 = demo_server" by (simp add: demo_loop1_def demo_loop_def)
  have g: "rate_gate demo_server_env 1 (cn_peer demo_conn) rq demo_server = (True, demo_server)"
    by (simp add: rate_gate_def demo_server_env_def)
  obtain s2 where a: "auth_gate demo_server_env 1 rq demo_server = (False, s2)" using demo_auth_refuses [OF q] by blast
  obtain raw n where b: "build_response demo_resp_env (fill_response (se_fs demo_server_env) (challenge_401 demo_server_env s2 rq zero_response))
      (rq_method rq = ''HEAD'') False = Some (raw, n)"
    using demo_challenge [OF q(1)] by blast
  have m: "MAX_REQUEST_SIZE \<noteq> 0" by (simp add: MAX_REQUEST_SIZE_def)
  have "conn_readable demo_server_env 1 [FError] [] (\<lambda>_. True) 0 demo_loop1 =
      conn_request demo_server_env 1 [FError] demo_get [] (\<lambda>_. True) 0 rq (14 + 4) demo_loop1"
    by (simp add: conn_readable_def Let_def c f i t h p e m)
  also have "\<dots> = fast_serve demo_server_env 1 [FError] 0 rq (challenge_401 demo_server_env s2 rq zero_response) (14 + 4) True
      (demo_loop1\<lparr>el_srv := s2\<rparr>)"
    by (simp add: conn_request_def c s g a)
  finally have r: "conn_readable demo_server_env 1 [FError] [] (\<lambda>_. True) 0 demo_loop1 = \<dots>" .
  have "fast_send [FError] raw = Some ([], raw = [])" by (cases raw) simp_all
  then obtain el' where el': "conn_readable demo_server_env 1 [FError] [] (\<lambda>_. True) 0 demo_loop1 = Some el'"
    using b e unfolding r by (simp add: fast_serve_def Let_def)
  have "(\<exists>raw b d e. build_response (se_resp demo_server_env) (fill_response (se_fs demo_server_env) (challenge_401 demo_server_env s2 rq zero_response))
              (rq_method rq = ''HEAD'') False = Some (raw, b) \<and> raw = d @ e \<and> el_out el' = el_out demo_loop1 @ [(cn_fd demo_conn, d)]) \<and>
    el_closed el' = el_closed demo_loop1 @ [cn_fd demo_conn] \<and> \<not> cn_in_use (el_conns el' ! 0) \<and>
    el_queue el' = el_queue demo_loop1 \<and> el_pool el' = el_pool demo_loop1 \<and>
    hs_login (sv_httpd (el_srv el')) = hs_login (sv_httpd s2) \<and>
    ls_limiter (hs_login (sv_httpd s2)) = ls_limiter (hs_login (sv_httpd (el_srv demo_loop1)))"
    by (rule unauthenticated_gets_challenge_only [OF len c [symmetric] refl _ _ _ _ _ _ el', where k = 14 and ?s1.0 = demo_server])
      (use f i t h p g a e s in simp_all)
  then show ?thesis using el' f by (simp add: demo_loop1_def demo_loop_def)
qed

section \<open>A connection that waits\<close>

text \<open>
  The server without authentication accepts a connection, its POST is not for the fast path, and every
  worker is busy: the connection stays parked.
\<close>

definition demo_open_env :: server_env where
  "demo_open_env = demo_server_env\<lparr>se_route := demo_route_env\<lparr>rt_login := demo_login_env\<lparr>le_auth := demo_env\<lparr>ae_auth_file := []\<rparr>\<rparr>\<rparr>\<rparr>"

definition demo_post :: string where
  "demo_post = ''POST / HTTP/1.1'' @ crlf @ crlf"

definition busy_loop :: event_loop where
  "busy_loop = demo_loop\<lparr>el_pool := demo_pool\<lparr>pl_tokens := 0\<rparr>\<rparr>"

definition busy_loop1 :: event_loop where
  "busy_loop1 = (accept_http demo_open_env 1 8 (7, None, ''10.0.0.7'') busy_loop)\<lparr>el_in := (\<lambda>_. []) (7 := demo_post)\<rparr>"

lemma busy_loop1_reach: "loop_reach demo_open_env busy_loop1"
proof -
  have "loop_reach demo_open_env busy_loop"
    by (rule loop_reach.start) (simp_all add: busy_loop_def demo_loop_def idle_conn_def)
  then have "loop_reach demo_open_env (accept_http demo_open_env 1 8 (7, None, ''10.0.0.7'') busy_loop)"
    by (rule loop_reach.handled [where ev = "Incoming [(7, None, ''10.0.0.7'')]" and now = 1 and timeout = 8]) (simp add: handle_event_def)
  then show ?thesis unfolding busy_loop1_def by (rule loop_reach.received)
qed

lemma busy_loop1_fields:
  "el_conns busy_loop1 = (el_conns demo_loop)[0 := demo_conn]" "el_queue busy_loop1 = empty_ring"
  "el_in busy_loop1 7 = demo_post" "pl_tokens (el_pool busy_loop1) = 0" "el_srv busy_loop1 = demo_server"
proof -
  have "index_of (\<lambda>c. \<not> cn_in_use c) (el_conns busy_loop) = Some 0"
    using max_conn_pos by (cases EVENT_MAX_CONN) (simp_all add: index_of_def busy_loop_def demo_loop_def idle_conn_def)
  moreover have "el_conns busy_loop = el_conns demo_loop" "el_queue busy_loop = empty_ring"
    "pl_tokens (el_pool busy_loop) = 0" "el_srv busy_loop = demo_server"
    by (simp_all add: busy_loop_def demo_loop_def)
  ultimately show "el_conns busy_loop1 = (el_conns demo_loop)[0 := demo_conn]" "el_queue busy_loop1 = empty_ring"
    "el_in busy_loop1 7 = demo_post" "pl_tokens (el_pool busy_loop1) = 0" "el_srv busy_loop1 = demo_server"
    by (simp_all add: busy_loop1_def accept_http_def loop_ops demo_conn_def idle_conn_def)
qed

lemma demo_open_auth: "\<exists>s'. auth_gate demo_open_env 1 req s = (True, s')"
  by (auto simp: auth_gate_def demo_open_env_def check_basic_auth_def Let_def split: prod.splits)

lemma demo_post_parks: "\<exists>s. conn_readable demo_open_env 1 [] [] (\<lambda>_. True) 0 busy_loop1 = Some (go_slow (\<lambda>_. True) 0 (busy_loop1\<lparr>el_srv := s\<rparr>))"
proof -
  define rq where "rq = zero_request\<lparr>rq_remote_addr := ''10.0.0.7'', rq_method := ''POST'', rq_path := ''/'', rq_protocol := ''HTTP/1.1''\<rparr>"
  have len: "0 < length (el_conns demo_loop)" using max_conn_pos by (simp add: demo_loop_def)
  then have c: "el_conns busy_loop1 ! 0 = demo_conn" by (simp add: busy_loop1_fields)
  have f: "cn_fd demo_conn = 7" "cn_deadline demo_conn = 9" "take 63 (cn_ip demo_conn) = ''10.0.0.7''"
    by (simp_all add: demo_conn_def)
  have t: "take MAX_REQUEST_SIZE demo_post = demo_post" "demo_post \<noteq> []" by (simp_all add: demo_post_def MAX_REQUEST_SIZE_def)
  have h: "find_header_end demo_post = Some 15" by code_simp
  have sc: "scan_request_line (take MAX_PATH_SIZE ''POST / HTTP/1.1'') (zero_request\<lparr>rq_remote_addr := ''10.0.0.7''\<rparr>) = (True, rq)"
    unfolding rq_def by code_simp
  have d: "demo_post = ''POST / HTTP/1.1'' @ crlf @ header_text [] []" "cstr demo_post = demo_post" "plain_line ''POST / HTTP/1.1''"
    by code_simp+
  have "parse_headers False 0 demo_post (zero_request\<lparr>rq_remote_addr := ''10.0.0.7''\<rparr>) = (Some [], apply_headers 0 [] rq)"
    unfolding d(1) by (rule parse_headers_render [OF d(3) _ sc]) simp
  then have p: "parse_request False 0 demo_post (zero_request\<lparr>rq_remote_addr := ''10.0.0.7''\<rparr>) = (True, rq)"
    by (simp add: parse_request_def d(2) t apply_headers_def)
  have e: "se_lenient demo_open_env = False" "se_spool demo_open_env = 0" "se_vite demo_open_env = 0"
    by (simp_all add: demo_open_env_def demo_server_env_def)
  have g: "rate_gate demo_open_env 1 (cn_peer demo_conn) rq demo_server = (True, demo_server)"
    by (simp add: rate_gate_def demo_open_env_def demo_server_env_def)
  obtain s where a: "auth_gate demo_open_env 1 rq demo_server = (True, s)" using demo_open_auth by blast
  have nf: "\<not> is_fast_request vp pre rq" for vp pre by (simp add: is_fast_request_def rq_def)
  have m: "MAX_REQUEST_SIZE \<noteq> 0" by (simp add: MAX_REQUEST_SIZE_def)
  have "conn_readable demo_open_env 1 [] [] (\<lambda>_. True) 0 busy_loop1 =
      conn_request demo_open_env 1 [] demo_post [] (\<lambda>_. True) 0 rq (15 + 4) busy_loop1"
    by (simp add: conn_readable_def Let_def c f busy_loop1_fields(3) t h p e m)
  also have "\<dots> = conn_dispatch demo_open_env 1 [] demo_post [] (\<lambda>_. True) 0 rq (15 + 4) (busy_loop1\<lparr>el_srv := s\<rparr>)"
    by (simp add: conn_request_def c busy_loop1_fields(5) g a)
  also have "\<dots> = Some (go_slow (\<lambda>_. True) 0 (busy_loop1\<lparr>el_srv := s\<rparr>))"
    using nf by (simp add: conn_dispatch_def e)
  finally show ?thesis by blast
qed

theorem waiting_connections_queued_witness:
  "\<exists>el. loop_reach demo_open_env el \<and> cn_in_use (el_conns el ! 0) \<and> cn_state (el_conns el ! 0) = S_SLOW_PENDING \<and>
     0 \<in> set (ring_items (el_queue el))"
proof -
  obtain s where r: "conn_readable demo_open_env 1 [] [] (\<lambda>_. True) 0 busy_loop1 = Some (go_slow (\<lambda>_. True) 0 (busy_loop1\<lparr>el_srv := s\<rparr>))"
    using demo_post_parks by blast
  define el where "el = go_slow (\<lambda>_. True) 0 (busy_loop1\<lparr>el_srv := s\<rparr>)"
  have len: "0 < length (el_conns demo_loop)" using max_conn_pos by (simp add: demo_loop_def)
  then have c0: "(el_conns demo_loop)[0 := demo_conn] ! 0 = demo_conn" by simp
  then have c: "el_conns busy_loop1 ! 0 = demo_conn" by (simp add: busy_loop1_fields)
  have dc: "cn_state demo_conn = S_READ_HEADER" "cn_in_use demo_conn" "cn_fd demo_conn = 7" by (simp_all add: demo_conn_def idle_conn_def)
  have "conn_by_fd 7 busy_loop1 = Some 0"
    using len dc by (cases "el_conns demo_loop") (simp_all add: conn_by_fd_def index_of_def busy_loop1_fields(1))
  then have "handle_event demo_open_env 1 8 (\<lambda>_. True) (Readable 7 [] []) busy_loop1 = Some el"
    using r c dc by (simp add: handle_event_def el_def)
  with busy_loop1_reach have reach: "loop_reach demo_open_env el" by (rule loop_reach.handled)
  have "\<not> ring_full empty_ring" using empty_ring_items ring_full_iff [of empty_ring] by (simp add: EVENT_MAX_CONN_def)
  then have w: "el_conns el = (el_conns demo_loop)[0 := demo_conn\<lparr>cn_state := S_SLOW_PENDING\<rparr>]"
    unfolding el_def go_slow_def Let_def drain_slow_queue_def
    by (subst drain_stops) (simp_all add: loop_ops busy_loop1_fields c0)
  then have p: "cn_in_use (el_conns el ! 0)" "cn_state (el_conns el ! 0) = S_SLOW_PENDING" "0 < length (el_conns el)"
    using len dc by simp_all
  then have "0 \<in> set (ring_items (el_queue el))" using waiting_connections_queued [OF reach] by blast
  with reach p show ?thesis by blast
qed

end
