(* ===== verification/Connection.thy ===== *)
theory Connection
  imports Gate Chunked Chatio
begin

text \<open>
  \<open>src/src/http/http.c\<close>: \<open>handle_client\<close>, the persistent-connection loop of a worker.  A round reads one
  request (header block, then a chunked, buffered or spooled body), checks it, dispatches it and sends the
  response; bytes of a pipelined request behind it are carried into the next round.

  A socket is the list of what its next reads find: bytes, the end of the stream, a \<open>select\<close> that
  times out, or the overall deadline that has passed.  A read takes at most the room it asks for; the
  rest stays in the socket.  A list that ends is a read that has not returned.
\<close>

datatype sock_event = Bytes string | Hangup | SelTimeout | Expired

type_synonym socket = "sock_event list"

fun wire :: "socket \<Rightarrow> string" where
  "wire [] = []"
| "wire (Bytes s # es) = (if s = [] then [] else s @ wire es)"
| "wire (_ # es) = []"

fun sock_size :: "socket \<Rightarrow> nat" where
  "sock_size [] = 0"
| "sock_size (Bytes s # es) = Suc (length s) + sock_size es"
| "sock_size (_ # es) = Suc (sock_size es)"

text \<open>What is left of a socket after the first \<open>n\<close> of the bytes \<open>s\<close> at its front were read.\<close>

definition unread :: "nat \<Rightarrow> string \<Rightarrow> socket \<Rightarrow> socket" where
  "unread n s es = (if drop n s = [] then es else Bytes (drop n s) # es)"

lemma wire_unread [simp]: "wire (unread n s es) = drop n s @ wire es"
  by (simp add: unread_def del: drop_eq_Nil)

lemma sock_size_unread: "0 < n \<Longrightarrow> s \<noteq> [] \<Longrightarrow> sock_size (unread n s es) < Suc (length s + sock_size es)"
  by (auto simp: unread_def)

section \<open>Reading the header block\<close>

text \<open>The length of the header block: through the first blank line.\<close>

definition header_end_len :: "string \<Rightarrow> nat option" where
  "header_end_len buf = (case strstr (cstr buf) (crlf @ crlf) of None \<Rightarrow> None | Some t \<Rightarrow> Some (length (cstr buf) - length t + 4))"

datatype head_result = Head nat string socket | HeadTooLarge string socket | HeadGone | HeadWaits

function read_head :: "socket \<Rightarrow> string \<Rightarrow> head_result" where
  "read_head sock buf =
     (case header_end_len buf of
        Some n \<Rightarrow> Head n buf sock
      | None \<Rightarrow>
          if length buf \<ge> MAX_REQUEST_SIZE - 1 then HeadTooLarge buf sock
          else (case sock of
                  [] \<Rightarrow> HeadWaits
                | Bytes s # es \<Rightarrow>
                    if s = [] then HeadGone
                    else read_head (unread (MAX_REQUEST_SIZE - 1 - length buf) s es)
                           (buf @ take (MAX_REQUEST_SIZE - 1 - length buf) s)
                | _ # es \<Rightarrow> HeadGone))"
  by pat_completeness auto
termination
  by (relation "measure (\<lambda>(sock, buf). sock_size sock)") (auto simp: sock_size_unread)

declare read_head.simps [simp del]

section \<open>The checks before the body\<close>

text \<open>
  The chain of checks of one request: whether it is admitted, the request as parsed, the response so far
  (status 0 when admitted), whether the connection must be closed, and the server state.
\<close>

definition admit ::
  "server_env \<Rightarrow> int \<Rightarrow> bool \<Rightarrow> sockaddr option \<Rightarrow> bool \<Rightarrow> string \<Rightarrow> HttpRequest \<Rightarrow> server_state \<Rightarrow>
   bool \<times> HttpRequest \<times> HttpResponse \<times> bool \<times> server_state" where
  "admit env now expired peer oversized buf req0 s =
     (let err = set_error_response (se_fs env) zero_response
      in if oversized then (False, req0, err 431 ''Request Header Fields Too Large'', True, s)
         else (case parse_request (se_lenient env) (se_spool env) buf req0 of
            (ok, req) \<Rightarrow>
              if \<not> ok then (False, req, err 400 ''Bad Request'', False, s)
              else if se_hosts env \<noteq> [] \<and> \<not> host_is_allowed (se_hosts env) (rq_host req) then
                (False, req, err 421 ''Misdirected Request'', True, s)
              else if expired then (False, req, err 408 ''Request Timeout'', False, s)
              else (case rate_gate env now peer req s of
                 (allowed, s1) \<Rightarrow>
                   if \<not> allowed then (False, req, (err 429 ''Too Many Requests'')\<lparr>rs_retry_after := 1\<rparr>, True, s1)
                   else (case auth_gate env now req s1 of
                      (auth_ok, s2) \<Rightarrow>
                        if \<not> auth_ok then (False, req, challenge_401 env s2 req zero_response, True, s2)
                        else (True, req, zero_response, False, s2)))))"

section \<open>Reading the body\<close>

text \<open>
  The buffered read of a declared length: \<open>need\<close> is the header block and the body.  The error status (0 for
  none), the buffer and the socket; \<open>None\<close> while it waits.
\<close>

function read_body :: "socket \<Rightarrow> string \<Rightarrow> nat \<Rightarrow> (int \<times> string \<times> socket) option" where
  "read_body sock buf need =
     (if length buf \<ge> need then Some (0, buf, sock)
      else (case sock of
              [] \<Rightarrow> None
            | Bytes s # es \<Rightarrow>
                if take (MAX_REQUEST_SIZE - 1 - length buf) s = [] then Some (0, buf, sock)
                else read_body (unread (MAX_REQUEST_SIZE - 1 - length buf) s es)
                       (buf @ take (MAX_REQUEST_SIZE - 1 - length buf) s) need
            | Hangup # es \<Rightarrow> Some (0, buf, sock)
            | _ # es \<Rightarrow> Some (408, buf, sock)))"
  by pat_completeness auto
termination
  by (relation "measure (\<lambda>(sock, buf, need). sock_size sock)") (auto simp: sock_size_unread)

declare read_body.simps [simp del]

text \<open>
  The chunked read.  The error status (0 and the body when decoded), the buffer and the socket; \<open>None\<close> while
  it waits, and when the decoder copies outside its buffers (the process dies).
\<close>

function read_chunked :: "socket \<Rightarrow> string \<Rightarrow> HttpChunkState \<Rightarrow> string \<Rightarrow> (int \<times> string \<times> string \<times> socket) option" where
  "read_chunked sock buf st body =
     (case http_dechunk_feed buf MAX_REQUEST_SIZE st body of
        (r, st', body') \<Rightarrow>
          (case r of
             Decoded \<Rightarrow> Some (0, body', buf, sock)
           | Malformed \<Rightarrow> Some (400, [], buf, sock)
           | TooLarge \<Rightarrow> Some (413, [], buf, sock)
           | ChunkOverrun \<Rightarrow> None
           | NeedMore \<Rightarrow>
               (case sock of
                  [] \<Rightarrow> if length buf \<ge> MAX_REQUEST_SIZE - 1 then Some (431, [], buf, sock) else None
                | Expired # es \<Rightarrow> Some (408, [], buf, sock)
                | e # es \<Rightarrow>
                    if length buf \<ge> MAX_REQUEST_SIZE - 1 then Some (431, [], buf, sock)
                    else (case e of
                            Bytes s \<Rightarrow>
                              if s = [] then Some (400, [], buf, sock)
                              else read_chunked (unread (MAX_REQUEST_SIZE - 1 - length buf) s es)
                                     (buf @ take (MAX_REQUEST_SIZE - 1 - length buf) s) st' body'
                          | Hangup \<Rightarrow> Some (400, [], buf, sock)
                          | _ \<Rightarrow> Some (408, [], buf, sock)))))"
  by pat_completeness auto
termination
  by (relation "measure (\<lambda>(sock, buf, st, body). sock_size sock)") (auto simp: sock_size_unread)

declare read_chunked.simps [simp del]

text \<open>
  Spooling.  \<open>mk\<close> is the temporary file (\<open>None\<close> when it cannot be made), \<open>wr k\<close> whether the write that brings
  the file to \<open>k\<close> bytes succeeds, \<open>fin\<close> whether closing the file and copying its name do.  The return
  code, the content of the file and the socket.
\<close>

record spool_io =
  sp_mk :: "string option"
  sp_wr :: "nat \<Rightarrow> bool"
  sp_fin :: bool

function spool_loop :: "spool_io \<Rightarrow> socket \<Rightarrow> string \<Rightarrow> nat \<Rightarrow> (int \<times> string \<times> socket) option" where
  "spool_loop io sock file left =
     (if left = 0 then Some (if sp_fin io then (0, file, sock) else (- 1, [], sock))
      else (case sock of
              [] \<Rightarrow> None
            | Bytes s # es \<Rightarrow>
                let k = min left 65536; d = take k s
                in if d = [] then Some (- 3, [], sock)
                   else if \<not> sp_wr io (length file + length d) then Some (- 1, [], unread k s es)
                   else spool_loop io (unread k s es) (file @ d) (left - length d)
            | Hangup # es \<Rightarrow> Some (- 3, [], sock)
            | _ # es \<Rightarrow> Some (- 2, [], sock)))"
  by pat_completeness auto
termination
  by (relation "measure (\<lambda>(io, sock, file, left). sock_size sock)") (auto simp: sock_size_unread)

declare spool_loop.simps [simp del]

definition spool_request_body :: "spool_io \<Rightarrow> socket \<Rightarrow> string \<Rightarrow> nat \<Rightarrow> (int \<times> string \<times> socket) option" where
  "spool_request_body io sock have cl =
     (case sp_mk io of
        None \<Rightarrow> Some (- 1, [], sock)
      | Some path \<Rightarrow>
          if have \<noteq> [] \<and> \<not> sp_wr io (length have) then Some (- 1, [], sock)
          else spool_loop io sock have (cl - length have))"

text \<open>
  From the admitted request to the point of dispatch.  \<open>bo_carry\<close> are the bytes of the next request;
  \<open>bo_continue\<close> says whether the interim 100 Continue was sent; \<open>bo_spooled\<close> is the content of the
  temporary file.
\<close>

record body_out =
  bo_req :: HttpRequest
  bo_resp :: HttpResponse
  bo_close :: bool
  bo_carry :: string
  bo_buf :: string
  bo_sock :: socket
  bo_continue :: bool
  bo_spooled :: "string option"

record client_env =
  ce_srv :: server_env
  ce_now :: int
  ce_expired :: bool
  ce_peer :: "sockaddr option"
  ce_ip :: string
  ce_alloc :: "nat \<Rightarrow> bool"
  ce_spool :: spool_io
  ce_sched :: "send_result list"
  ce_sendfile :: "send_result list"
  ce_chat :: "HttpRequest \<Rightarrow> HttpResponse \<Rightarrow> HttpResponse"
  ce_tools :: "HttpRequest \<Rightarrow> HttpResponse \<Rightarrow> HttpResponse"
  ce_relay :: "HttpRequest \<Rightarrow> int \<times> int"

definition wants_continue :: "HttpRequest \<Rightarrow> string \<Rightarrow> nat \<Rightarrow> bool" where
  "wants_continue req buf hl \<longleftrightarrow>
     (rq_content_length req > 0 \<or> rq_chunked req) \<and> ci_prefix ''100-continue'' (rq_expect req) \<and>
     (rq_chunked req \<or> int (length buf) - int hl < rq_content_length req)"

definition spool_status :: "int \<Rightarrow> int \<times> string" where
  "spool_status sr = (if sr = - 2 then (408, ''Request Timeout'') else if sr = - 3 then (400, ''Bad Request'')
                      else (500, ''Internal Server Error''))"

text \<open>A body of declared length, \<open>hl\<close> the length of the header block.\<close>

definition body_by_length :: "client_env \<Rightarrow> HttpRequest \<Rightarrow> string \<Rightarrow> socket \<Rightarrow> nat \<Rightarrow> bool \<Rightarrow> body_out option" where
  "body_by_length ce req buf sock hl cont =
     (let err = set_error_response (se_fs (ce_srv ce)) zero_response; cl = nat (rq_content_length req); avail = length buf - hl;
          b0 = \<lparr>bo_req = req, bo_resp = zero_response, bo_close = False, bo_carry = [], bo_buf = buf, bo_sock = sock, bo_continue = cont, bo_spooled = None\<rparr>
      in if rq_body_too_large req then Some (b0\<lparr>bo_resp := err 413 ''Request Entity Too Large'', bo_close := True\<rparr>)
         else if cl > MAX_REQUEST_SIZE \<or> (avail < cl \<and> cl - avail > MAX_REQUEST_SIZE - 1 - length buf) then
           (case spool_request_body (ce_spool ce) sock (drop hl buf) cl of
              None \<Rightarrow> None
            | Some (sr, file, sock1) \<Rightarrow>
                if sr = 0 then Some (b0\<lparr>bo_req := req\<lparr>rq_body_temp_path := sp_mk (ce_spool ce)\<rparr>, bo_sock := sock1, bo_spooled := Some file\<rparr>)
                else Some (b0\<lparr>bo_resp := err (fst (spool_status sr)) (snd (spool_status sr)), bo_close := True, bo_sock := sock1\<rparr>))
         else
           (case read_body sock buf (hl + cl) of
              None \<Rightarrow> None
            | Some (st, buf1, sock1) \<Rightarrow>
                let b1 = b0\<lparr>bo_buf := buf1, bo_sock := sock1\<rparr>
                in if st \<noteq> 0 then Some (b1\<lparr>bo_resp := err 408 ''Request Timeout''\<rparr>)
                   else if length buf1 < hl + cl then Some b1
                   else if cl > 0 \<and> \<not> ce_alloc ce (cl + 1) then
                     Some (b1\<lparr>bo_resp := err 500 ''Internal Server Error'', bo_close := True, bo_carry := drop (hl + cl) buf1\<rparr>)
                   else Some (b1\<lparr>bo_req := (if cl > 0 then req\<lparr>rq_body := Some (take cl (drop hl buf1))\<rparr> else req),
                                 bo_carry := drop (hl + cl) buf1\<rparr>)))"

definition chunk_status :: "int \<Rightarrow> string" where
  "chunk_status st = (if st = 400 then ''Bad Request'' else if st = 413 then ''Request Entity Too Large''
                      else if st = 408 then ''Request Timeout'' else ''Request Header Fields Too Large'')"

definition take_body :: "client_env \<Rightarrow> HttpRequest \<Rightarrow> string \<Rightarrow> socket \<Rightarrow> nat \<Rightarrow> body_out option" where
  "take_body ce req buf sock hl =
     (let err = set_error_response (se_fs (ce_srv ce)) zero_response; cont = wants_continue req buf hl;
          b0 = \<lparr>bo_req = req, bo_resp = zero_response, bo_close = False, bo_carry = [], bo_buf = buf, bo_sock = sock, bo_continue = cont, bo_spooled = None\<rparr>
      in if rq_chunked req \<and> rq_content_length req > 0 then Some (b0\<lparr>bo_resp := err 400 ''Bad Request'', bo_close := True\<rparr>)
         else if rq_te_unsupported req \<and> \<not> rq_chunked req then Some (b0\<lparr>bo_resp := err 501 ''Not Implemented'', bo_close := True\<rparr>)
         else if rq_chunked req then
           (if \<not> ce_alloc ce (MAX_REQUEST_SIZE + 1) then Some (b0\<lparr>bo_resp := err 500 ''Internal Server Error''\<rparr>)
            else (case read_chunked sock buf (chunk_state0\<lparr>ck_p := hl\<rparr>) [] of
                    None \<Rightarrow> None
                  | Some (st, body, buf1, sock1) \<Rightarrow>
                      if st = 0 then Some (b0\<lparr>bo_req := req\<lparr>rq_body := Some body, rq_content_length := int (length body)\<rparr>, bo_buf := buf1, bo_sock := sock1\<rparr>)
                      else Some (b0\<lparr>bo_resp := err st (chunk_status st), bo_close := True, bo_buf := buf1, bo_sock := sock1\<rparr>)))
         else body_by_length ce req buf sock hl cont)"

section \<open>Dispatch\<close>

text \<open>Static stand-ins for the pages of the \<open>/react\<close> prefix when no backend is configured.\<close>

definition degrade_path :: "string \<Rightarrow> string \<Rightarrow> string" where
  "degrade_path react_prefix path =
     (if react_prefix \<noteq> ''/react'' then path
      else if path = ''/react/chat'' then ''/chat.html''
      else if path = ''/react'' \<or> path = ''/react/'' then ''/react/home.html''
      else if starts_with ''/react/'' path then
        (let rest = drop 7 path;
             leaf = (if rest \<noteq> [] \<and> last rest = CHR ''/'' then butlast rest else rest)
         in if length leaf < 256 \<and> 7 + length leaf + 5 < MAX_PATH_SIZE \<and> CHR ''/'' \<notin> set leaf \<and> CHR ''.'' \<notin> set leaf
            then ''/react/'' @ leaf @ ''.html'' else path)
      else path)"

datatype target = Answered | Tunnel | ViteProxy | ChatRoute | ToolsRoute | Relay | Pages HttpRequest

definition client_target :: "server_env \<Rightarrow> string \<Rightarrow> nat \<Rightarrow> HttpRequest \<Rightarrow> HttpResponse \<Rightarrow> target" where
  "client_target env buf hl req resp =
     (if rs_status_code resp \<noteq> 0 then Answered
      else if se_vite env > 0 \<and> is_websocket_upgrade (take hl buf) (drop hl buf) then Tunnel
      else if se_vite env > 0 \<and> is_vite_proxy_route (se_vite env) req then ViteProxy
      else if llm_is_pse_route (rq_path req) (rq_method req) then ChatRoute
      else if llm_is_chat_route (rq_path req) (rq_method req) then ChatRoute
      else if tools_api_is_route (rq_path req) (rq_method req) then ToolsRoute
      else if is_react_prefix_path (se_prefix env) (rq_path req) \<and> \<not> is_react_reserved_path (rq_path req) then
        (if se_react_sock env \<noteq> [] then Relay
         else Pages (req\<lparr>rq_path := degrade_path (se_prefix env) (rq_path req)\<rparr>))
      else Pages req)"

section \<open>A round\<close>

text \<open>
  \<open>sendfile\<close> of the bytes \<open>dat\<close> of the file from the offset on, until \<open>remaining\<close> bytes are sent: whether they
  were, and the bytes sent.
\<close>

fun send_stream :: "send_result list \<Rightarrow> string \<Rightarrow> nat \<Rightarrow> (bool \<times> string) option" where
  "send_stream rs dat 0 = Some (True, [])"
| "send_stream [] dat (Suc n) = None"
| "send_stream (r # rs) dat (Suc n) =
     (case r of
        Interrupted \<Rightarrow> send_stream rs dat (Suc n)
      | SendFailed \<Rightarrow> Some (False, [])
      | Sent k \<Rightarrow>
          let d = take (min k (Suc n)) dat
          in if d = [] then Some (False, [])
             else map_option (\<lambda>(okay, e). (okay, d @ e)) (send_stream rs (drop (length d) dat) (Suc n - length d)))"

definition stream_body :: "client_env \<Rightarrow> HttpResponse \<Rightarrow> (bool \<times> string) option" where
  "stream_body ce r =
     (case rs_stream_path r of
        None \<Rightarrow> Some (True, [])
      | Some p \<Rightarrow>
          (case fs_read (se_fs (ce_srv ce)) p of
             None \<Rightarrow> Some (False, [])
           | Some content \<Rightarrow> send_stream (ce_sendfile ce) (drop (nat (rs_stream_offset r)) content) (nat (rs_body_length r mod 2 ^ 64))))"

text \<open>
  The result of a round: the connection is closed, or kept (with the bytes sent, the status, the carried bytes
  and the rest of the socket), or a system call has not returned, or a buffer was overrun.
\<close>

datatype round = RoundClosed string server_state | RoundKept string int string socket server_state | RoundWaits | RoundBroken

definition finish_round ::
  "client_env \<Rightarrow> nat \<Rightarrow> HttpRequest \<Rightarrow> HttpResponse \<Rightarrow> bool \<Rightarrow> string \<Rightarrow> socket \<Rightarrow> server_state \<Rightarrow> string \<Rightarrow> round" where
  "finish_round ce served req resp force_close carry sock s out =
     (if rs_handled resp then
        RoundClosed out (log_and_count (ce_srv ce) (ce_ip ce) req (rs_status_code resp) (rs_body_length resp) s)
      else
        let r = fill_response (se_fs (ce_srv ce)) resp; head_only = (rq_method req = ''HEAD'');
            ka = want_keep_alive req \<and> \<not> force_close \<and> \<not> rq_chunked req
        in case build_response (se_resp (ce_srv ce)) r head_only ka of
             None \<Rightarrow> RoundBroken
           | Some (raw, body_sent) \<Rightarrow>
               (case net_write_all (ce_sched ce) raw of
                  (None, _, _) \<Rightarrow> RoundWaits
                | (Some w, d, _) \<Rightarrow>
                    (case (if head_only then Some (True, []) else stream_body ce r) of
                       None \<Rightarrow> RoundWaits
                     | Some (sent_ok, e) \<Rightarrow>
                         let streamed = \<not> head_only \<and> rs_stream_path r \<noteq> None;
                             s1 = log_and_count (ce_srv ce) (ce_ip ce) req (rs_status_code r)
                                    (if streamed \<and> sent_ok then body_sent + rs_body_length r else body_sent) s
                         in if \<not> (ka \<and> w = 0 \<and> sent_ok) \<or> Suc served \<ge> MAX_KEEPALIVE_REQUESTS \<or>
                               rs_status_code r \<ge> 500 \<or> se_shutdown (ce_srv ce)
                            then RoundClosed (out @ d @ e) s1
                            else RoundKept (out @ d @ e) (rs_status_code r) carry sock s1)))"

definition CONTINUE :: string where
  "CONTINUE = ''HTTP/1.1 100 Continue'' @ crlf @ crlf"

definition dispatch_round :: "client_env \<Rightarrow> nat \<Rightarrow> body_out \<Rightarrow> nat \<Rightarrow> server_state \<Rightarrow> round" where
  "dispatch_round ce served b hl s =
     (let env = ce_srv ce; req = bo_req b; resp = bo_resp b; out = (if bo_continue b then CONTINUE else []);
          fin = (\<lambda>rq rp st. finish_round ce served rq rp (bo_close b) (bo_carry b) (bo_sock b) st out)
      in case client_target env (bo_buf b) hl req resp of
           Answered \<Rightarrow> fin req resp s
         | Tunnel \<Rightarrow> RoundClosed out s
         | ViteProxy \<Rightarrow> RoundClosed out s
         | ChatRoute \<Rightarrow> fin req (ce_chat ce req resp) s
         | ToolsRoute \<Rightarrow> fin req (ce_tools ce req resp) s
         | Relay \<Rightarrow>
             (case ce_relay ce req of
                (status, n) \<Rightarrow>
                  if status < 0 then fin req (set_error_response (se_fs env) resp 502 ''Bad Gateway'') s
                  else RoundClosed out (log_and_count env (ce_ip ce) req status n s))
         | Pages rq \<Rightarrow>
             (case process_request (se_route env) (sv_httpd s) rq resp of
                None \<Rightarrow> RoundBroken
              | Some (_, rp, h) \<Rightarrow> fin rq rp (s\<lparr>sv_httpd := h\<rparr>)))"

definition client_round :: "client_env \<Rightarrow> nat \<Rightarrow> string \<Rightarrow> socket \<Rightarrow> server_state \<Rightarrow> round" where
  "client_round ce served carry sock s =
     (let req0 = zero_request\<lparr>rq_remote_addr := take 63 (ce_ip ce)\<rparr>;
          check = (\<lambda>oversized buf. admit (ce_srv ce) (ce_now ce) (ce_expired ce) (ce_peer ce) oversized buf req0 s)
      in case read_head sock carry of
           HeadWaits \<Rightarrow> RoundWaits
         | HeadGone \<Rightarrow> RoundClosed [] s
         | HeadTooLarge buf sock1 \<Rightarrow>
             (case check True buf of (_, req, resp, fc, s1) \<Rightarrow> finish_round ce served req resp fc [] sock1 s1 [])
         | Head hl buf sock1 \<Rightarrow>
             (case check False buf of
                (passed, req, resp, fc, s1) \<Rightarrow>
                  if \<not> passed then finish_round ce served req resp fc [] sock1 s1 []
                  else (case take_body ce req buf sock1 hl of
                          None \<Rightarrow> RoundWaits
                        | Some b \<Rightarrow> dispatch_round ce served b hl s1)))"

text \<open>
  The loop over the requests of a connection; the bytes sent and the final state, \<open>None\<close> while it waits.  The
  number of rounds is bounded by the keep-alive cap (\<open>last_round_closes\<close>).
\<close>

fun client_loop :: "(nat \<Rightarrow> client_env) \<Rightarrow> nat \<Rightarrow> nat \<Rightarrow> string \<Rightarrow> socket \<Rightarrow> server_state \<Rightarrow> string \<Rightarrow> (string \<times> server_state) option" where
  "client_loop ces 0 served carry sock s out = None"
| "client_loop ces (Suc left) served carry sock s out =
     (case client_round (ces served) served carry sock s of
        RoundClosed d s' \<Rightarrow> Some (out @ d, s')
      | RoundKept d status carry' sock' s' \<Rightarrow> client_loop ces left (Suc served) carry' sock' s' (out @ d)
      | _ \<Rightarrow> None)"

definition handle_client :: "(nat \<Rightarrow> client_env) \<Rightarrow> socket \<Rightarrow> server_state \<Rightarrow> (string \<times> server_state) option" where
  "handle_client ces sock s = client_loop ces MAX_KEEPALIVE_REQUESTS 0 [] sock (count_request 1 s) []"

section \<open>Reading loses nothing\<close>

lemma read_head_wire:
  "read_head sock buf = Head hl buf' sock' \<Longrightarrow>
   buf' @ wire sock' = buf @ wire sock \<and> header_end_len buf' = Some hl \<and> (\<exists>more. buf' = buf @ more)"
proof (induction sock buf rule: read_head.induct)
  case (1 sock buf)
  show ?case
  proof (cases "header_end_len buf")
    case (Some n)
    then show ?thesis using "1.prems" by (subst (asm) read_head.simps) simp
  next
    case None
    then obtain s es where s: "sock = Bytes s # es" "s \<noteq> []" "length buf < MAX_REQUEST_SIZE - 1"
      and r: "read_head (unread (MAX_REQUEST_SIZE - 1 - length buf) s es) (buf @ take (MAX_REQUEST_SIZE - 1 - length buf) s) = Head hl buf' sock'"
      using "1.prems" by (subst (asm) read_head.simps) (auto split: if_splits list.splits sock_event.splits)
    have "\<not> MAX_REQUEST_SIZE - 1 \<le> length buf" using s(3) by simp
    from "1.IH" [OF None this s(1) refl s(2) r] show ?thesis using s by auto
  qed
qed

lemma read_body_wire:
  "read_body sock buf need = Some (st, buf', sock') \<Longrightarrow>
   buf' @ wire sock' = buf @ wire sock \<and> (\<exists>more. buf' = buf @ more) \<and>
   (st = 0 \<longrightarrow> need < MAX_REQUEST_SIZE \<longrightarrow> length buf' < need \<longrightarrow> wire sock' = [])"
proof (induction sock buf need rule: read_body.induct)
  case (1 sock buf need)
  let ?room = "MAX_REQUEST_SIZE - 1 - length buf"
  show ?case
  proof (cases "length buf \<ge> need")
    case True
    then show ?thesis using "1.prems" by (subst (asm) read_body.simps) simp
  next
    case False
    show ?thesis
    proof (cases "\<exists>s es. sock = Bytes s # es \<and> take ?room s \<noteq> []")
      case True
      then obtain s es where s: "sock = Bytes s # es" "take ?room s \<noteq> []" by blast
      then have r: "read_body (unread ?room s es) (buf @ take ?room s) need = Some (st, buf', sock')"
        using "1.prems" False by (subst (asm) read_body.simps) (simp del: take_eq_Nil2 take_eq_Nil)
      have "s \<noteq> []" using s(2) by auto
      from "1.IH" [OF False s(1) refl s(2) r] show ?thesis using s(1) \<open>s \<noteq> []\<close> by auto
    next
      case none: False
      then have "buf' = buf \<and> sock' = sock \<and> (st = 0 \<longrightarrow> (\<exists>s es. sock = Bytes s # es) \<or> (\<exists>es. sock = Hangup # es))"
        using "1.prems" False by (subst (asm) read_body.simps) (auto split: list.splits sock_event.splits if_splits)
      then show ?thesis using none by auto
    qed
  qed
qed

lemma spool_loop_wire:
  "spool_loop io sock dst left = Some (0, dst', sock') \<Longrightarrow>
   \<exists>d. dst' = dst @ d \<and> length d = left \<and> d @ wire sock' = wire sock"
proof (induction io sock dst left rule: spool_loop.induct)
  case (1 io sock dst left)
  show ?case
  proof (cases "left = 0")
    case True
    then show ?thesis using "1.prems" by (subst (asm) spool_loop.simps) (simp split: if_splits)
  next
    case False
    then obtain s es where s: "sock = Bytes s # es" "take (min left 65536) s \<noteq> []"
      "sp_wr io (length dst + length (take (min left 65536) s))"
      and r: "spool_loop io (unread (min left 65536) s es) (dst @ take (min left 65536) s) (left - length (take (min left 65536) s)) =
        Some (0, dst', sock')"
      using "1.prems" by (subst (asm) spool_loop.simps) (auto simp: Let_def split: if_splits list.splits sock_event.splits)
    from "1.IH" [OF False s(1) refl refl refl s(2)] s(3) r obtain d where
      d: "dst' = (dst @ take (min left 65536) s) @ d" "length d = left - length (take (min left 65536) s)"
        "d @ wire sock' = wire (unread (min left 65536) s es)"
      by blast
    have "length (take (min left 65536) s) \<le> left" by simp
    moreover have "s \<noteq> []" using s(2) by auto
    ultimately show ?thesis
      using d s(1) by (intro exI [of _ "take (min left 65536) s @ d"]) (simp del: length_take)
  qed
qed

lemma body_by_length_sync:
  assumes b: "body_by_length ce req buf sock hl cont = Some b" and open': "\<not> bo_close b" and st: "rs_status_code (bo_resp b) \<noteq> 408"
    and hl: "hl \<le> length buf" and buf: "length buf < MAX_REQUEST_SIZE"
  defines "cl \<equiv> nat (rq_content_length req)" and "w \<equiv> buf @ wire sock"
  shows "bo_carry b @ wire (bo_sock b) = drop (hl + cl) w \<and>
    (0 < cl \<longrightarrow> hl + cl \<le> length w \<longrightarrow> rq_body (bo_req b) = Some (take cl (drop hl w)) \<or> bo_spooled b = Some (take cl (drop hl w)))"
proof -
  have nb: "\<not> rq_body_too_large req" using b open' by (auto simp: body_by_length_def Let_def)
  let ?sp = "cl > MAX_REQUEST_SIZE \<or> (length buf - hl < cl \<and> cl - (length buf - hl) > MAX_REQUEST_SIZE - 1 - length buf)"
  show ?thesis
  proof (cases ?sp)
    case True
    then have lt: "length buf - hl < cl" using buf by auto
    obtain dst sock1 where sp: "spool_request_body (ce_spool ce) sock (drop hl buf) cl = Some (0, dst, sock1)"
      and r: "bo_carry b = []" "bo_sock b = sock1" "bo_spooled b = Some dst"
      using b open' nb True by (auto simp: body_by_length_def Let_def cl_def split: option.splits if_splits)
    have "spool_loop (ce_spool ce) sock (drop hl buf) (cl - length (drop hl buf)) = Some (0, dst, sock1)"
      using sp by (auto simp: spool_request_body_def split: option.splits if_splits)
    from spool_loop_wire [OF this] obtain d where d: "dst = drop hl buf @ d" "length d = cl - (length buf - hl)" "d @ wire sock1 = wire sock"
      by auto
    have "drop hl w = dst @ wire sock1" using d hl unfolding w_def by (simp flip: d(3))
    moreover have "length dst = cl" using d lt by simp
    ultimately have "drop (hl + cl) w = wire sock1" "take cl (drop hl w) = dst"
      by (metis add.commute append_eq_conv_conj drop_drop, simp)
    then show ?thesis using r by simp
  next
    case False
    then have fit: "hl + cl < MAX_REQUEST_SIZE" using hl buf by auto
    obtain st1 buf1 sock1 where rb: "read_body sock buf (hl + cl) = Some (st1, buf1, sock1)"
      using b nb False by (auto simp: body_by_length_def Let_def cl_def split: option.splits)
    have rest: "st1 = 0 \<and> bo_sock b = sock1 \<and> bo_carry b = drop (hl + cl) buf1 \<and>
        (0 < cl \<longrightarrow> length buf1 \<ge> hl + cl \<longrightarrow> rq_body (bo_req b) = Some (take cl (drop hl buf1)))"
      using b nb False rb open' st
      by (auto simp: body_by_length_def Let_def cl_def set_error_response_def read_file_into_response_def copy_status_text_def split: if_splits option.splits)
    have rw: "buf1 @ wire sock1 = w" "length buf1 < hl + cl \<longrightarrow> wire sock1 = []"
      using read_body_wire [OF rb] rest fit unfolding w_def by auto
    show ?thesis
    proof (cases "length buf1 < hl + cl")
      case True
      then show ?thesis using rw rest by auto
    next
      case False
      then have "drop (hl + cl) w = drop (hl + cl) buf1 @ wire sock1" "take cl (drop hl w) = take cl (drop hl buf1)"
        unfolding rw(1) [symmetric] by simp_all
      then show ?thesis using rest False by simp
    qed
  qed
qed

text \<open>A body that does not arrive in time: what was read of it is dropped.\<close>

lemma body_by_length_timeout:
  assumes "body_by_length ce req buf sock hl cont = Some b" and "\<not> bo_close b" and "rs_status_code (bo_resp b) = 408"
  shows "bo_carry b = [] \<and> (\<exists>m. buf @ wire sock = buf @ m @ wire (bo_sock b))"
proof -
  obtain st1 buf1 sock1 where r: "read_body sock buf (hl + nat (rq_content_length req)) = Some (st1, buf1, sock1)"
    and b: "bo_carry b = []" "bo_sock b = sock1"
    using assms by (auto simp: body_by_length_def Let_def zero_response_def set_error_response_def read_file_into_response_def
        copy_status_text_def split: option.splits if_splits prod.splits)
  from read_body_wire [OF r] obtain m where "buf1 = buf @ m" "buf1 @ wire sock1 = buf @ wire sock" by blast
  then have "buf @ wire sock = buf @ m @ wire sock1" by simp
  with b show ?thesis by blast
qed

section \<open>Staying in step with the client\<close>

lemma strstr_suffix: "strstr s key = Some t \<Longrightarrow> \<exists>p. s = p @ t \<and> take (length key) t = key"
proof (induction s)
  case (Cons c s)
  show ?case
  proof (cases "take (length key) (c # s) = key")
    case True
    then show ?thesis using Cons.prems by (intro exI [of _ "[]"]) auto
  next
    case False
    then obtain p where "s = p @ t" "take (length key) t = key" using Cons by auto
    then show ?thesis by (intro exI [of _ "c # p"]) simp
  qed
qed (auto split: if_splits)

lemma header_end_len_le: "header_end_len buf = Some hl \<Longrightarrow> hl \<le> length buf"
proof -
  assume "header_end_len buf = Some hl"
  then obtain t where t: "strstr (cstr buf) (crlf @ crlf) = Some t" "hl = length (cstr buf) - length t + 4"
    by (auto simp: header_end_len_def split: option.splits)
  obtain p where p: "cstr buf = p @ t" "take (length (crlf @ crlf)) t = crlf @ crlf" using strstr_suffix [OF t(1)] by blast
  have "length (take (length (crlf @ crlf)) t) = 4" unfolding p(2) by simp
  then have "4 \<le> length t" by simp
  then show ?thesis using t(2) p(1) length_cstr [of buf] by simp
qed

lemma read_head_length:
  "read_head sock buf = Head hl buf' sock' \<Longrightarrow> length buf < MAX_REQUEST_SIZE \<Longrightarrow> length buf' < MAX_REQUEST_SIZE"
proof (induction sock buf rule: read_head.induct)
  case (1 sock buf)
  show ?case
  proof (cases "header_end_len buf")
    case (Some n)
    then show ?thesis using "1.prems" by (subst (asm) read_head.simps) simp
  next
    case None
    then obtain s es where s: "sock = Bytes s # es" "s \<noteq> []" "length buf < MAX_REQUEST_SIZE - 1"
      and r: "read_head (unread (MAX_REQUEST_SIZE - 1 - length buf) s es) (buf @ take (MAX_REQUEST_SIZE - 1 - length buf) s) = Head hl buf' sock'"
      using "1.prems"(1) by (subst (asm) read_head.simps) (auto split: if_splits list.splits sock_event.splits)
    have "\<not> MAX_REQUEST_SIZE - 1 \<le> length buf" using s(3) by simp
    then show ?thesis by (rule "1.IH" [OF None _ s(1) refl s(2) r]) (use s(3) in auto)
  qed
qed

lemma error_status [simp]: "rs_status_code (set_error_response fs r c t) = c"
  by (simp add: set_error_response_def Let_def read_file_into_response_def copy_status_text_def split: option.splits)

lemma fill_status [simp]: "rs_status_code (fill_response fs r) = rs_status_code r"
  by (simp add: fill_response_def Let_def)

lemma finish_round_kept:
  assumes "finish_round ce served req resp fc carry sock s out = RoundKept d status carry' sock' s'"
  shows "\<not> fc \<and> \<not> rq_chunked req \<and> carry' = carry \<and> sock' = sock \<and> status = rs_status_code resp"
  using assms unfolding finish_round_def Let_def by (auto split: if_splits option.splits prod.splits)

lemma dispatch_round_kept:
  assumes "dispatch_round ce served b hl s = RoundKept d status carry' sock' s'"
  shows "\<not> bo_close b \<and> \<not> rq_chunked (bo_req b) \<and> carry' = bo_carry b \<and> sock' = bo_sock b \<and>
    (rs_status_code (bo_resp b) \<noteq> 0 \<longrightarrow> status = rs_status_code (bo_resp b))"
proof (cases "client_target (ce_srv ce) (bo_buf b) hl (bo_req b) (bo_resp b)")
  case Answered
  then show ?thesis using assms finish_round_kept by (fastforce simp: dispatch_round_def Let_def)
next
  case (Pages rq)
  then have z: "rs_status_code (bo_resp b) = 0" and c: "rq_chunked rq = rq_chunked (bo_req b)"
    by (auto simp: client_target_def split: if_splits)
  obtain x rp h where "process_request (se_route (ce_srv ce)) (sv_httpd s) rq (bo_resp b) = Some (x, rp, h)"
    using assms Pages by (auto simp: dispatch_round_def Let_def split: option.splits)
  then have "finish_round ce served rq rp (bo_close b) (bo_carry b) (bo_sock b) (s\<lparr>sv_httpd := h\<rparr>) (if bo_continue b then CONTINUE else []) =
      RoundKept d status carry' sock' s'"
    using assms Pages by (simp add: dispatch_round_def Let_def)
  from finish_round_kept [OF this] show ?thesis using z c by simp
next
  case Relay
  then have "rs_status_code (bo_resp b) = 0" by (auto simp: client_target_def split: if_splits)
  with Relay show ?thesis using assms
    by (auto simp: dispatch_round_def Let_def split: prod.splits if_splits dest!: finish_round_kept)
next
  case ChatRoute
  then have "rs_status_code (bo_resp b) = 0" by (auto simp: client_target_def split: if_splits)
  with ChatRoute show ?thesis using assms by (auto simp: dispatch_round_def Let_def dest!: finish_round_kept)
next
  case ToolsRoute
  then have "rs_status_code (bo_resp b) = 0" by (auto simp: client_target_def split: if_splits)
  with ToolsRoute show ?thesis using assms by (auto simp: dispatch_round_def Let_def dest!: finish_round_kept)
qed (use assms in \<open>simp_all add: dispatch_round_def Let_def\<close>)

lemma take_body_kept:
  assumes "take_body ce req buf sock hl = Some b" and "\<not> bo_close b" and "\<not> rq_chunked (bo_req b)"
  shows "\<not> rq_chunked req \<and> (\<exists>cont. body_by_length ce req buf sock hl cont = Some b)"
  using assms by (auto simp: take_body_def Let_def split: if_splits option.splits prod.splits)

lemma admit_passed:
  assumes "admit env now ex peer ov buf req0 s = (passed, req, resp, fc, s1)"
  shows "(passed \<longrightarrow> \<not> ov \<and> parse_request (se_lenient env) (se_spool env) buf req0 = (True, req)) \<and>
    (\<not> passed \<longrightarrow> fc \<or> rs_status_code resp = 408 \<or>
       rs_status_code resp = 400 \<and> \<not> fst (parse_request (se_lenient env) (se_spool env) buf req0))"
  using assms by (auto simp: admit_def Let_def split: if_splits prod.splits)

text \<open>
  (C2) A connection that is kept open stays in step with the client.  Whatever the client sends and however
  its bytes are split over the reads, if a round ends with the connection kept open, then a request was parsed from
  the front of the bytes and the bytes the next round starts from (those carried over, then those still in the
  socket) are exactly what follows the header block and the declared body of that request; nothing of the body
  is taken for a request and no byte of a pipelined request is lost.  There is one exception, which the
  statement names: after the answer 400 to a header block that does not parse, and after an answer 408 that is given
  before the body is complete, the code keeps the connection as well, drops what it has read (the
  header block, \<open>m\<close> bytes behind it) and goes on with the bytes that are still in the socket, so the rest of a body
  is read as the next request (\<open>timed_out_body_left_unread\<close>).
\<close>

theorem kept_connection_in_sync:
  assumes "client_round ce served carry sock s = RoundKept out status carry' sock' s'" and "length carry < MAX_REQUEST_SIZE"
  shows "\<exists>buf rest hl ok req. carry @ wire sock = buf @ rest \<and> header_end_len buf = Some hl \<and>
    parse_request (se_lenient (ce_srv ce)) (se_spool (ce_srv ce)) buf (zero_request\<lparr>rq_remote_addr := take 63 (ce_ip ce)\<rparr>) = (ok, req) \<and>
    (ok \<and> \<not> rq_chunked req \<and> carry' @ wire sock' = drop (hl + nat (rq_content_length req)) (carry @ wire sock) \<or>
     (status = 400 \<and> \<not> ok \<or> status = 408) \<and> carry' = [] \<and> (\<exists>m. carry @ wire sock = buf @ m @ wire sock'))"
proof -
  let ?req0 = "zero_request\<lparr>rq_remote_addr := take 63 (ce_ip ce)\<rparr>"
  let ?check = "\<lambda>ov buf. admit (ce_srv ce) (ce_now ce) (ce_expired ce) (ce_peer ce) ov buf ?req0 s"
  let ?parse = "\<lambda>buf. parse_request (se_lenient (ce_srv ce)) (se_spool (ce_srv ce)) buf ?req0"
  show ?thesis
  proof (cases "read_head sock carry")
    case (Head hl buf sock1)
    obtain passed req resp fc s1 where a: "?check False buf = (passed, req, resp, fc, s1)" by (metis prod_cases5)
    note ap = admit_passed [OF a]
    have w: "buf @ wire sock1 = carry @ wire sock" "header_end_len buf = Some hl" using read_head_wire [OF Head] by auto
    have parse: "\<exists>rq. ?parse buf = (fst (?parse buf), rq)" by (metis prod.collapse)
    show ?thesis
    proof (cases passed)
      case False
      then have "finish_round ce served req resp fc [] sock1 s1 [] = RoundKept out status carry' sock' s'"
        using assms(1) Head a by (simp add: client_round_def Let_def)
      from finish_round_kept [OF this] ap False
      have "status = 400 \<and> \<not> fst (?parse buf) \<or> status = 408" "carry' = []" "sock' = sock1" by auto
      then show ?thesis using w parse by (metis append_Nil)
    next
      case True
      then obtain b where b: "take_body ce req buf sock1 hl = Some b" "dispatch_round ce served b hl s1 = RoundKept out status carry' sock' s'"
        using assms(1) Head a by (auto simp: client_round_def Let_def split: option.splits)
      note dk = dispatch_round_kept [OF b(2)]
      have p: "?parse buf = (True, req)" using ap True by simp
      obtain cont where bl: "body_by_length ce req buf sock1 hl cont = Some b" and nc: "\<not> rq_chunked req"
        using take_body_kept [OF b(1)] dk by blast
      show ?thesis
      proof (cases "rs_status_code (bo_resp b) = 408")
        case True
        then have "status = 408" "carry' = []" "\<exists>m. carry @ wire sock = buf @ m @ wire sock'"
          using dk body_by_length_timeout [OF bl] w(1) by auto
        then show ?thesis using w p by metis
      next
        case False
        then have "bo_carry b @ wire (bo_sock b) = drop (hl + nat (rq_content_length req)) (buf @ wire sock1)"
          using body_by_length_sync [OF bl _ _ header_end_len_le [OF w(2)] read_head_length [OF Head assms(2)]] dk by blast
        then have "carry' @ wire sock' = drop (hl + nat (rq_content_length req)) (carry @ wire sock)" using dk w(1) by simp
        then show ?thesis using w p nc by metis
      qed
    qed
  next
    case (HeadTooLarge buf sock1)
    obtain passed req resp fc s1 where a: "?check True buf = (passed, req, resp, fc, s1)" by (metis prod_cases5)
    then have f: "finish_round ce served req resp fc [] sock1 s1 [] = RoundKept out status carry' sock' s'"
      using assms(1) HeadTooLarge by (simp add: client_round_def Let_def)
    have "fc" using a by (simp add: admit_def Let_def)
    with finish_round_kept [OF f] show ?thesis by simp
  qed (use assms(1) in \<open>simp_all add: client_round_def Let_def\<close>)
qed

lemma build_response_fits: "build_response env r ho ka = Some (raw, n) \<Longrightarrow> length raw < MAX_RESPONSE_SIZE"
  by (auto simp: build_response_def Let_def MAX_RESPONSE_SIZE_def simp del: take_append split: if_splits option.splits)

lemma net_write_whole: "length raw \<le> k \<Longrightarrow> 0 < k \<Longrightarrow> \<exists>rs. net_write_all [Sent k] raw = (Some 0, raw, rs)"
  by (cases raw) simp_all

definition open_server_env :: server_env where
  "open_server_env = \<lparr>se_route = demo_route_env\<lparr>rt_login := demo_login_env\<lparr>le_auth := demo_env\<lparr>ae_auth_file := []\<rparr>\<rparr>\<rparr>,
     se_lenient = False, se_spool = 0, se_hosts = [], se_rps = 0, se_aton = (\<lambda>_. None), se_pton6 = (\<lambda>_. None), se_nets = [],
     se_public = [], se_resp = demo_resp_env, se_time_str = [], se_shutdown = False, se_vite = 0, se_prefix = ''/react'', se_react_sock = []\<rparr>"

definition demo_client :: client_env where
  "demo_client = \<lparr>ce_srv = open_server_env, ce_now = 1, ce_expired = False, ce_peer = None, ce_ip = ''10.0.0.7'', ce_alloc = (\<lambda>_. True),
     ce_spool = \<lparr>sp_mk = None, sp_wr = (\<lambda>_. True), sp_fin = True\<rparr>, ce_sched = [Sent MAX_RESPONSE_SIZE], ce_sendfile = [],
     ce_chat = (\<lambda>_ r. r), ce_tools = (\<lambda>_ r. r), ce_relay = (\<lambda>_. (- 1, 0))\<rparr>"

definition health_get :: string where
  "health_get = ''GET /health HTTP/1.1'' @ crlf @ crlf"

definition health_req :: HttpRequest where
  "health_req = zero_request\<lparr>rq_remote_addr := ''10.0.0.7'', rq_method := ''GET'', rq_path := ''/health'', rq_protocol := ''HTTP/1.1''\<rparr>"

definition demo_srv_state :: server_state where
  "demo_srv_state = \<lparr>sv_httpd = \<lparr>hs_login = demo_login_state, hs_metrics = None\<rparr>, sv_rate = None, sv_log = None\<rparr>"

lemma health_parsed:
  "parse_request False 0 (health_get @ rest) (zero_request\<lparr>rq_remote_addr := ''10.0.0.7''\<rparr>) = (True, health_req)"
  if "length rest < 1000" and "NUL \<notin> set rest"
proof -
  have sc: "scan_request_line (take MAX_PATH_SIZE ''GET /health HTTP/1.1'') (zero_request\<lparr>rq_remote_addr := ''10.0.0.7''\<rparr>) = (True, health_req)"
    unfolding health_req_def by code_simp
  have d: "health_get @ rest = ''GET /health HTTP/1.1'' @ crlf @ header_text [] rest" by (simp add: health_get_def header_text_def)
  have pl: "plain_line ''GET /health HTTP/1.1''" by code_simp
  have "parse_headers False 0 (health_get @ rest) (zero_request\<lparr>rq_remote_addr := ''10.0.0.7''\<rparr>) = (Some rest, apply_headers 0 [] health_req)"
    unfolding d by (rule parse_headers_render [OF pl _ sc]) simp
  moreover have "take MAX_REQUEST_SIZE (cstr (health_get @ rest)) = health_get @ rest"
  proof -
    have r: "takeWhile (\<lambda>c. c \<noteq> NUL) rest = rest" using that(2) by (auto simp: takeWhile_eq_all_conv)
    show ?thesis using that(1) by (simp add: cstr_def health_get_def MAX_REQUEST_SIZE_def r)
  qed
  ultimately show ?thesis by (simp add: parse_request_def apply_headers_def)
qed

lemma open_auth: "\<exists>s'. auth_gate open_server_env 1 req s = (True, s')"
  by (auto simp: auth_gate_def open_server_env_def check_basic_auth_def Let_def split: prod.splits)

text \<open>Two pipelined requests: the first is answered, the second is what the next round starts from.\<close>

lemma health_round:
  "\<exists>out s'. client_round demo_client 0 (health_get @ health_get) [] demo_srv_state = RoundKept out 200 health_get [] s'"
proof -
  have h: "header_end_len (health_get @ health_get) = Some 24" by code_simp
  have rh: "read_head [] (health_get @ health_get) = Head 24 (health_get @ health_get) []"
    by (subst read_head.simps) (simp add: h)
  have p: "parse_request False 0 (health_get @ health_get) (zero_request\<lparr>rq_remote_addr := ''10.0.0.7''\<rparr>) = (True, health_req)"
    by (rule health_parsed) (simp_all add: health_get_def)
  obtain s1 where a: "auth_gate open_server_env 1 health_req demo_srv_state = (True, s1)" using open_auth by blast
  have e: "ce_srv demo_client = open_server_env" "se_lenient open_server_env = False" "se_spool open_server_env = 0"
    "se_hosts open_server_env = []" "ce_now demo_client = 1" "ce_expired demo_client = False" "take 63 (ce_ip demo_client) = ''10.0.0.7''"
    "se_vite open_server_env = 0" "se_prefix open_server_env = ''/react''" "se_shutdown open_server_env = False"
    "se_resp open_server_env = demo_resp_env" "ce_sched demo_client = [Sent MAX_RESPONSE_SIZE]"
    by (simp_all add: demo_client_def open_server_env_def)
  have g: "rate_gate open_server_env 1 q health_req demo_srv_state = (True, demo_srv_state)" for q
    by (simp add: rate_gate_def open_server_env_def)
  have ad: "admit open_server_env 1 False q False (health_get @ health_get) (zero_request\<lparr>rq_remote_addr := ''10.0.0.7''\<rparr>) demo_srv_state =
      (True, health_req, zero_response, False, s1)" for q
    by (simp add: admit_def Let_def e p g a)
  have f: "rq_content_length health_req = 0" "\<not> rq_chunked health_req" "\<not> rq_te_unsupported health_req" "\<not> rq_body_too_large health_req"
    "rq_method health_req = ''GET''" "rq_path health_req = ''/health''" "want_keep_alive health_req"
    by (simp_all add: health_req_def zero_request_def want_keep_alive_def starts_with_def)
  have l: "length (health_get @ health_get) = 48" by (simp add: health_get_def)
  have rb: "read_body [] (health_get @ health_get) 24 = Some (0, health_get @ health_get, [])"
    using l by (subst read_body.simps) simp
  have dr: "drop 24 (health_get @ health_get) = health_get" by (simp add: health_get_def)
  define b where "b = \<lparr>bo_req = health_req, bo_resp = zero_response, bo_close = False, bo_carry = health_get, bo_buf = health_get @ health_get,
    bo_sock = [], bo_continue = False, bo_spooled = None\<rparr>"
  have tb: "take_body demo_client health_req (health_get @ health_get) [] 24 = Some b"
    using f rb dr l by (simp add: take_body_def body_by_length_def Let_def wants_continue_def b_def MAX_REQUEST_SIZE_def)
  have "\<not> is_react_prefix_path ''/react'' ''/health''" "exact_or_query ''/health'' ''/health''" by code_simp+
  then have tg: "client_target open_server_env (health_get @ health_get) 24 health_req zero_response = Pages health_req"
    and pr: "process_request (se_route open_server_env) h health_req zero_response =
      Some (0, zero_response\<lparr>rs_status_code := 200, rs_status_text := ''OK'', rs_content_type := ''text/plain'',
              rs_body := Some (''ok'' @ [LF]), rs_body_length := 3\<rparr>, h)" for h
    using f by (simp_all add: client_target_def e llm_is_pse_route_def llm_is_chat_route_def tools_api_is_route_def zero_response_def process_request_def)
  define r where "r = zero_response\<lparr>rs_status_code := 200, rs_status_text := ''OK'', rs_content_type := ''text/plain'',
              rs_body := Some (''ok'' @ [LF]), rs_body_length := 3\<rparr>"
  have fr: "fill_response (se_fs open_server_env) r = r" "rs_stream_path r = None" "rs_handled r = False" "rs_status_code r = 200"
    by (simp_all add: r_def fill_response_def zero_response_def)
  obtain raw n where br: "build_response demo_resp_env r False True = Some (raw, n)"
  proof -
    have "response_wf r" by (simp add: r_def response_wf_def zero_response_def HTTP_EXTRA_RESP_HEADERS_MAX_def)
    from build_response_total [OF this, of demo_resp_env False True] that show ?thesis
      by (auto simp: demo_resp_env_def r_def)
  qed
  have "length raw \<le> MAX_RESPONSE_SIZE" "0 < MAX_RESPONSE_SIZE" using build_response_fits [OF br] by simp_all
  then obtain rs where nw: "net_write_all [Sent MAX_RESPONSE_SIZE] raw = (Some 0, raw, rs)" using net_write_whole by blast
  have k: "\<not> MAX_KEEPALIVE_REQUESTS \<le> Suc 0" by (simp add: MAX_KEEPALIVE_REQUESTS_def)
  have fin: "\<exists>s'. finish_round demo_client 0 health_req r False health_get [] s2 [] = RoundKept raw 200 health_get [] s'" for s2
    by (simp add: finish_round_def Let_def e f fr br nw stream_body_def k)
  have "\<exists>s'. dispatch_round demo_client 0 b 24 s1 = RoundKept raw 200 health_get [] s'"
    using fin by (simp add: dispatch_round_def Let_def b_def e tg pr r_def)
  moreover have "client_round demo_client 0 (health_get @ health_get) [] demo_srv_state = dispatch_round demo_client 0 b 24 s1"
    by (simp add: client_round_def Let_def rh e ad tb)
  ultimately show ?thesis by auto
qed

theorem kept_connection_in_sync_witness:
  "\<exists>buf rest hl (req :: HttpRequest). health_get @ health_get = buf @ rest \<and> header_end_len buf = Some hl \<and> \<not> rq_chunked req \<and>
     health_get = drop (hl + nat (rq_content_length req)) (health_get @ health_get)"
proof -
  obtain out s' where r: "client_round demo_client 0 (health_get @ health_get) [] demo_srv_state = RoundKept out 200 health_get [] s'"
    using health_round by blast
  have l: "length (health_get @ health_get) < MAX_REQUEST_SIZE" by (simp add: health_get_def MAX_REQUEST_SIZE_def)
  have n: "\<not> ((200 :: int) = 400 \<and> x \<or> (200 :: int) = 408)" for x by simp
  from kept_connection_in_sync [OF r l] show ?thesis
    unfolding wire.simps append_Nil2 using n by (elim exE conjE disjE) (intro exI conjI, assumption+, blast+)
qed

section \<open>The two exceptions\<close>

text \<open>
  A body that is not complete in time is answered 408, but the connection is not marked for closing and
  the rest of the body stays in the socket.
\<close>

theorem timed_out_body_left_unread:
  assumes "\<not> rq_body_too_large req" and "length buf < hl + cl" and "hl + cl < MAX_REQUEST_SIZE" and "hl \<le> length buf"
    and "rq_content_length req = int cl"
  shows "\<exists>b. body_by_length ce req buf (SelTimeout # es) hl cont = Some b \<and> rs_status_code (bo_resp b) = 408 \<and>
    \<not> bo_close b \<and> bo_carry b = [] \<and> bo_sock b = SelTimeout # es"
proof -
  have n: "\<not> (cl > MAX_REQUEST_SIZE \<or> (length buf - hl < cl \<and> cl - (length buf - hl) > MAX_REQUEST_SIZE - 1 - length buf))"
    using assms by auto
  show ?thesis using assms n by (subst body_by_length_def) (simp only: Let_def nat_int if_False, simp add: read_body.simps)
qed

text \<open>A client that hangs up inside the body has its request dispatched without a body.\<close>

theorem truncated_body_dispatched:
  assumes "\<not> rq_body_too_large req" and "length buf < hl + cl" and "hl + cl < MAX_REQUEST_SIZE" and "hl \<le> length buf"
    and "rq_content_length req = int cl"
  shows "\<exists>b. body_by_length ce req buf (Hangup # es) hl cont = Some b \<and> rs_status_code (bo_resp b) = 0 \<and>
    bo_req b = req \<and> \<not> bo_close b"
proof -
  have n: "\<not> (cl > MAX_REQUEST_SIZE \<or> (length buf - hl < cl \<and> cl - (length buf - hl) > MAX_REQUEST_SIZE - 1 - length buf))"
    using assms by auto
  show ?thesis using assms n by (subst body_by_length_def) (simp only: Let_def nat_int if_False, simp add: read_body.simps zero_response_def)
qed

lemma last_round_closes: "client_round ce served carry sock s = RoundKept d st c k s' \<Longrightarrow> Suc served < MAX_KEEPALIVE_REQUESTS"
proof -
  have f: "finish_round ce served req resp fc carry sock s out = RoundKept d st c k s' \<Longrightarrow> Suc served < MAX_KEEPALIVE_REQUESTS"
    for req resp fc carry sock s out
    unfolding finish_round_def Let_def by (auto split: if_splits option.splits prod.splits)
  have g: "dispatch_round ce served b hl s1 = RoundKept d st c k s' \<Longrightarrow> Suc served < MAX_KEEPALIVE_REQUESTS" for b hl s1
    unfolding dispatch_round_def Let_def by (auto split: target.splits prod.splits option.splits if_splits dest: f)
  show "client_round ce served carry sock s = RoundKept d st c k s' \<Longrightarrow> Suc served < MAX_KEEPALIVE_REQUESTS"
    unfolding client_round_def Let_def by (auto split: head_result.splits prod.splits option.splits if_splits dest: f g)
qed

end
