(* ===== verification/Fastcgi.thy ===== *)
theory Fastcgi
  imports Gate
begin

text \<open>
  \<open>src/src/cgi/fastcgi.c\<close>: the FastCGI wire protocol, the relay of a request to a resident backend
  (\<open>forward_to_fcgi\<close>) and the server side (\<open>fastcgi_handle_connection\<close>).  A byte is a \<open>char\<close>; a stream
  is the bytes the peer sends until it closes.
\<close>

definition FCGI_BEGIN_REQUEST :: nat where "FCGI_BEGIN_REQUEST = 1"
definition FCGI_END_REQUEST :: nat where "FCGI_END_REQUEST = 3"
definition FCGI_PARAMS :: nat where "FCGI_PARAMS = 4"
definition FCGI_STDIN :: nat where "FCGI_STDIN = 5"
definition FCGI_STDOUT :: nat where "FCGI_STDOUT = 6"
definition FCGI_PAD :: nat where "FCGI_PAD = 8"

section \<open>Records on the wire\<close>

definition recv_n :: "nat \<Rightarrow> string \<Rightarrow> (string \<times> string) option" where
  "recv_n n s = (if n \<le> length s then Some (take n s, drop n s) else None)"

definition be16 :: "char \<Rightarrow> char \<Rightarrow> nat" where
  "be16 a b = code a * 256 + code b"

definition put_be16 :: "nat \<Rightarrow> string" where
  "put_be16 v = [char_of (v div 256 mod 256), char_of (v mod 256)]"

record FcgHeader =
  fh_version :: nat
  fh_type :: nat
  fh_request_id :: nat
  fh_content_length :: nat
  fh_padding_length :: nat

definition recv_header :: "string \<Rightarrow> (FcgHeader \<times> string) option" where
  "recv_header s =
     (case recv_n 8 s of
        None \<Rightarrow> None
      | Some (h, rest) \<Rightarrow>
          Some (\<lparr>fh_version = code (h ! 0), fh_type = code (h ! 1), fh_request_id = be16 (h ! 2) (h ! 3),
                 fh_content_length = be16 (h ! 4) (h ! 5), fh_padding_length = code (h ! 6)\<rparr>, rest))"

text \<open>
  Skipping content and padding.  The padding is read into an array of 8 bytes with the length the peer gave:
  more than that is a write behind the array.
\<close>

datatype drained = Drained string | ShortRead | Overrun

definition drain_frame_body :: "nat \<Rightarrow> nat \<Rightarrow> string \<Rightarrow> drained" where
  "drain_frame_body content_len padding_len s =
     (case recv_n content_len s of
        None \<Rightarrow> ShortRead
      | Some (_, s1) \<Rightarrow>
          if padding_len = 0 then Drained s1
          else if padding_len > FCGI_PAD then Overrun
          else (case recv_n padding_len s1 of None \<Rightarrow> ShortRead | Some (_, s2) \<Rightarrow> Drained s2))"

definition pad_length :: "nat \<Rightarrow> nat" where
  "pad_length len = (FCGI_PAD - len mod FCGI_PAD) mod FCGI_PAD"

text \<open>The bytes of a record; the length field holds 16 bits.\<close>

definition send_frame :: "nat \<Rightarrow> nat \<Rightarrow> string \<Rightarrow> string" where
  "send_frame typ req_id dat =
     [CHR 0x01, char_of typ] @ put_be16 req_id @ put_be16 (length dat mod 65536) @ [char_of (pad_length (length dat)), NUL] @
     dat @ replicate (pad_length (length dat)) NUL"

section \<open>Name-value pairs\<close>

type_synonym fcg_param = "string \<times> string"

definition param_get :: "fcg_param list \<Rightarrow> string \<Rightarrow> string option" where
  "param_get ps name = map_option (\<lambda>p. cstr (snd p)) (find (\<lambda>p. cstr (fst p) = name) ps)"

text \<open>A length of one or four bytes, and what follows it; \<open>None\<close> when it is cut off.\<close>

definition get_len :: "string \<Rightarrow> (nat \<times> string) option" where
  "get_len s =
     (case s of
        [] \<Rightarrow> None
      | a # r \<Rightarrow>
          if code a < 128 then Some (code a, r)
          else (case r of
                  b # c # d # r' \<Rightarrow> Some ((code a - 128) * 16777216 + code b * 65536 + code c * 256 + code d, r')
                | _ \<Rightarrow> None))"

lemma get_len_shorter: "get_len s = Some (n, r) \<Longrightarrow> length r < length s"
  by (auto simp: get_len_def split: list.splits if_splits)

text \<open>\<open>alloc nl vl\<close>: whether the table slot, the name and the value of a pair can be allocated.\<close>

function parse_params :: "(nat \<Rightarrow> nat \<Rightarrow> bool) \<Rightarrow> string \<Rightarrow> fcg_param list" where
  "parse_params alloc s =
     (case get_len s of
        None \<Rightarrow> []
      | Some (nl, s1) \<Rightarrow>
          (case get_len s1 of
             None \<Rightarrow> []
           | Some (vl, s2) \<Rightarrow>
               if nl + vl > length s2 then []
               else if \<not> alloc nl vl then []
               else (take nl s2, take vl (drop nl s2)) # parse_params alloc (drop (nl + vl) s2)))"
  by pat_completeness auto
termination
proof (relation "measure (\<lambda>(a, s). length s)", simp, goal_cases)
  case (1 alloc s a nl s1 b vl s2)
  then show ?case using get_len_shorter [of s nl s1] get_len_shorter [of s1 vl s2] by auto
qed

declare parse_params.simps [simp del]

definition param_long :: "fcg_param list \<Rightarrow> string \<Rightarrow> int \<Rightarrow> int" where
  "param_long ps name dflt =
     (case param_get ps name of
        None \<Rightarrow> dflt
      | Some v \<Rightarrow> (case strtol10 v of (r, rest) \<Rightarrow> if rest = v then dflt else r))"

definition fcgi_put_len :: "nat \<Rightarrow> string" where
  "fcgi_put_len len =
     (if len < 128 then [char_of len]
      else [char_of (128 + len div 16777216 mod 128), char_of (len div 65536 mod 256), char_of (len div 256 mod 256), char_of (len mod 256)])"

section \<open>The relay to a backend\<close>

definition relay_uri :: "string \<Rightarrow> string" where
  "relay_uri path = take (MAX_PATH_SIZE - 1) (takeWhile (\<lambda>c. c \<noteq> CHR ''?'') path)"

definition relay_query :: "string \<Rightarrow> string" where
  "relay_query path = (case strchr path (CHR ''?'') of None \<Rightarrow> [] | Some q \<Rightarrow> take (MAX_PATH_SIZE - 1) (tl q))"

definition relay_pairs :: "HttpRequest \<Rightarrow> string \<Rightarrow> fcg_param list" where
  "relay_pairs req remote_addr =
     [(''REQUEST_METHOD'', rq_method req), (''REQUEST_URI'', relay_uri (rq_path req)), (''QUERY_STRING'', relay_query (rq_path req)),
      (''CONTENT_TYPE'', rq_content_type req), (''CONTENT_LENGTH'', int_dec (rq_content_length req)), (''HTTP_HOST'', rq_host req),
      (''HTTP_USER_AGENT'', rq_user_agent req), (''HTTP_ACCEPT_ENCODING'', rq_accept_encoding req),
      (''HTTP_IF_NONE_MATCH'', rq_if_none_match req), (''REMOTE_ADDR'', remote_addr)]"

definition put_pair :: "fcg_param \<Rightarrow> string" where
  "put_pair p = fcgi_put_len (length (fst p)) @ fcgi_put_len (length (snd p)) @ fst p @ snd p"

fun put_pairs :: "fcg_param list \<Rightarrow> string \<Rightarrow> string option" where
  "put_pairs [] acc = Some acc"
| "put_pairs (p # ps) acc =
     (if snd p = [] then put_pairs ps acc
      else if length acc + 4 + length (fst p) + 4 + length (snd p) + 1 > 4096 then None
      else put_pairs ps (acc @ put_pair p))"

text \<open>A spooled body goes out in records of up to 65536 bytes.\<close>

function spool_frames :: "string \<Rightarrow> nat \<Rightarrow> string option" where
  "spool_frames dat left =
     (if left = 0 then Some []
      else let d = take (min left 65536) dat
           in if d = [] then None
              else map_option (\<lambda>r. send_frame FCGI_STDIN 1 d @ r) (spool_frames (drop (length d) dat) (left - length d)))"
  by pat_completeness auto
termination by (relation "measure snd") (auto simp: min_def split: if_splits)

declare spool_frames.simps [simp del]

text \<open>Everything sent to the backend; \<open>spooled\<close> is the content of the temporary file.\<close>

definition relay_stdin :: "HttpRequest \<Rightarrow> string option \<Rightarrow> string option" where
  "relay_stdin req spooled =
     (case rq_body req of
        Some b \<Rightarrow> if rq_content_length req > 0 then Some (send_frame FCGI_STDIN 1 (take (nat (rq_content_length req)) b)) else Some []
      | None \<Rightarrow>
          if rq_body_temp_path req \<noteq> None \<and> rq_content_length req > 0 then
            (case spooled of None \<Rightarrow> None | Some content \<Rightarrow> spool_frames content (nat (rq_content_length req)))
          else Some [])"

definition relay_request :: "HttpRequest \<Rightarrow> string \<Rightarrow> string option \<Rightarrow> string option" where
  "relay_request req remote_addr spooled =
     (case put_pairs (relay_pairs req remote_addr) [] of
        None \<Rightarrow> None
      | Some ps \<Rightarrow>
          (case relay_stdin req spooled of
             None \<Rightarrow> None
           | Some stdin \<Rightarrow>
               Some (send_frame FCGI_BEGIN_REQUEST 1 (put_be16 1 @ replicate 6 NUL) @ send_frame FCGI_PARAMS 1 ps @
                     send_frame FCGI_PARAMS 1 [] @ stdin @ send_frame FCGI_STDIN 1 [])))"

text \<open>
  The relay of the answer: records until END_REQUEST, STDOUT content straight to the client.  \<open>sends\<close>
  tells how many bytes of the STDOUT records the client takes before the connection breaks (\<open>None\<close>: all).
\<close>

record relay_state =
  rl_status :: "int option"
  rl_scanned :: bool
  rl_header :: "nat option"
  rl_any :: bool
  rl_out :: string

datatype relay_result = Relayed relay_state | RelayFailed relay_state | RelayOverrun

fun find_status :: "string \<Rightarrow> int option" where
  "find_status [] = None"
| "find_status (c # s) =
     (if take 9 (c # s) = ''HTTP/1.1 '' then Some (wrap32 (fst (strtol10 (drop 9 (c # s))))) else find_status s)"

fun find_blank :: "string \<Rightarrow> nat option" where
  "find_blank [] = None"
| "find_blank (c # s) = (if take 4 (c # s) = crlf @ crlf then Some 4 else map_option Suc (find_blank s))"

definition relay_frame :: "string \<Rightarrow> relay_state \<Rightarrow> relay_state" where
  "relay_frame frame st =
     st\<lparr>rl_status := (if rl_status st = None then find_status frame else rl_status st),
        rl_header := (if rl_scanned st then rl_header st else find_blank frame), rl_scanned := True\<rparr>"

definition relay_stop :: "relay_state \<Rightarrow> relay_result" where
  "relay_stop st = (if rl_any st then Relayed st else RelayFailed st)"

lemma recv_header_shorter: "recv_header s = Some (h, r) \<Longrightarrow> length r < length s"
  by (auto simp: recv_header_def recv_n_def split: if_splits)

lemma recv_n_shorter: "recv_n n s = Some (d, r) \<Longrightarrow> length r \<le> length s"
  by (auto simp: recv_n_def split: if_splits)

function relay_loop :: "nat option \<Rightarrow> string \<Rightarrow> relay_state \<Rightarrow> relay_result" where
  "relay_loop sends s st =
     (case recv_header s of
        None \<Rightarrow> relay_stop st
      | Some (h, s1) \<Rightarrow>
          if fh_version h \<noteq> 1 then relay_stop st
          else (case recv_n (fh_content_length h) s1 of
             None \<Rightarrow> if fh_type h = FCGI_STDOUT then relay_stop st else RelayFailed st
           | Some (d, s2) \<Rightarrow>
               let st1 = (if fh_type h = FCGI_STDOUT then relay_frame d st else st);
                   d1 = (if fh_type h = FCGI_STDOUT then d else []);
                   fits = (case sends of None \<Rightarrow> True | Some k \<Rightarrow> length d1 \<le> k)
               in if \<not> fits then Relayed (st1\<lparr>rl_out := rl_out st1 @ take (the sends) d1\<rparr>)
                  else
                    let st2 = st1\<lparr>rl_out := rl_out st1 @ d1, rl_any := rl_any st1 \<or> fh_type h = FCGI_STDOUT\<rparr>; sends2 = map_option (\<lambda>k. k - length d1) sends
                    in if fh_padding_length h > 8 then RelayOverrun
                       else (case recv_n (fh_padding_length h) s2 of
                               None \<Rightarrow> RelayFailed st2
                             | Some (_, s3) \<Rightarrow>
                                 if fh_type h = FCGI_END_REQUEST then Relayed st2 else relay_loop sends2 s3 st2)))"
  by pat_completeness auto
termination
proof (relation "measure (\<lambda>(k, s, st). length s)", simp, goal_cases)
  case (1 sends s st a h s1 b d s2 st1 d1 fits st2 sends2 c e s3)
  then show ?case
    using recv_header_shorter [of s h s1] recv_n_shorter [of "fh_content_length h" s1 d s2] recv_n_shorter [of "fh_padding_length h" s2 e s3]
    by auto
qed

declare relay_loop.simps [simp del]

text \<open>
  The status and the number of body bytes that are logged, and the bytes the client got; \<open>None\<close> for an
  overrun.  \<open>connected\<close>: the backend accepts the connection and takes the whole request.
\<close>

definition forward_to_fcgi :: "HttpRequest \<Rightarrow> string \<Rightarrow> string option \<Rightarrow> bool \<Rightarrow> nat option \<Rightarrow> string \<Rightarrow> (int \<times> int \<times> string) option" where
  "forward_to_fcgi req remote_addr spooled connected sends reply =
     (if \<not> connected then Some (- 1, 0, [])
      else case relay_request req remote_addr spooled of
             None \<Rightarrow> Some (- 1, 0, [])
           | Some _ \<Rightarrow>
               (case relay_loop sends reply \<lparr>rl_status = None, rl_scanned = False, rl_header = None, rl_any = False, rl_out = []\<rparr> of
                  RelayOverrun \<Rightarrow> None
                | RelayFailed st \<Rightarrow> Some (- 1, 0, rl_out st)
                | Relayed st \<Rightarrow>
                    let total = length (rl_out st)
                    in Some (case rl_status st of None \<Rightarrow> 200 | Some c \<Rightarrow> c,
                             case rl_header st of Some n \<Rightarrow> if total > n then wrap32 (int (total - n)) else wrap32 (int total)
                                                | None \<Rightarrow> wrap32 (int total),
                             rl_out st)))"

section \<open>The server side\<close>

text \<open>
  The records of a request: the parameters of the last PARAMS record, and the body (\<open>None\<close> for an oversized
  one).  The reading ends with the end of STDIN or because something is wrong.
\<close>

datatype records = Records "fcg_param list" "string option" | Abandoned | RecordOverrun

function read_records :: "(nat \<Rightarrow> nat \<Rightarrow> bool) \<Rightarrow> string \<Rightarrow> fcg_param list \<Rightarrow> string \<Rightarrow> records" where
  "read_records alloc s ps body =
     (case recv_header s of
        None \<Rightarrow> Records ps (Some body)
      | Some (h, s1) \<Rightarrow>
          let len = fh_content_length h; pad = fh_padding_length h
          in if fh_type h = FCGI_PARAMS then
               (case (if len > 0 \<and> \<not> alloc len 0 then None else recv_n len s1) of
                  None \<Rightarrow> Abandoned
                | Some (d, s2) \<Rightarrow>
                    (case drain_frame_body 0 pad s2 of
                       ShortRead \<Rightarrow> Abandoned
                     | Overrun \<Rightarrow> RecordOverrun
                     | Drained s3 \<Rightarrow> read_records alloc s3 (if len = 0 then ps else parse_params alloc d) body))
             else if fh_type h = FCGI_STDIN then
               (if len = 0 then (if drain_frame_body 0 pad s1 = Overrun then RecordOverrun else Records ps (Some body))
                else if length body + len > MAX_REQUEST_SIZE then
                  (if drain_frame_body len pad s1 = Overrun then RecordOverrun else Records ps None)
                else (case recv_n len s1 of
                        None \<Rightarrow> Records ps (Some body)
                      | Some (d, s2) \<Rightarrow>
                          (case drain_frame_body 0 pad s2 of
                             Overrun \<Rightarrow> RecordOverrun
                           | ShortRead \<Rightarrow> Records ps (Some (body @ d))
                           | Drained s3 \<Rightarrow> read_records alloc s3 ps (body @ d))))
             else if drain_frame_body len pad s1 = Overrun then RecordOverrun else Records ps (Some body))"
  by pat_completeness auto
termination
proof (relation "measure (\<lambda>(a, s, ps, b). length s)", simp, goal_cases)
  case (1 alloc s ps body a h s1 len pad b d s2 s3)
  then show ?case
    using recv_header_shorter [of s h s1] recv_n_shorter [of len s1 d s2]
    by (auto simp: drain_frame_body_def recv_n_def split: if_splits)
next
  case (2 alloc s ps body a h s1 len pad b d s2 s3)
  then show ?case
    using recv_header_shorter [of s h s1] recv_n_shorter [of len s1 d s2]
    by (auto simp: drain_frame_body_def recv_n_def split: if_splits)
qed

declare read_records.simps [simp del]

definition text_field :: "fcg_param list \<Rightarrow> string \<Rightarrow> nat \<Rightarrow> string" where
  "text_field ps name n = (case param_get ps name of None \<Rightarrow> [] | Some v \<Rightarrow> take (n - 1) v)"

text \<open>The request the parameters describe; \<open>peer\<close> is the path of the peer socket, if it has one.\<close>

definition populate :: "fcg_param list \<Rightarrow> string \<Rightarrow> string option \<Rightarrow> HttpRequest" where
  "populate ps body peer =
     zero_request\<lparr>
       rq_method := (case param_get ps ''REQUEST_METHOD'' of None \<Rightarrow> ''GET'' | Some m \<Rightarrow> take 15 m),
       rq_path := (case param_get ps ''REQUEST_URI'' of None \<Rightarrow> ''/'' | Some u \<Rightarrow> take (MAX_PATH_SIZE - 1) u),
       rq_protocol := ''HTTP/1.1'',
       rq_host := text_field ps ''HTTP_HOST'' 256, rq_user_agent := text_field ps ''HTTP_USER_AGENT'' 512,
       rq_referer := text_field ps ''HTTP_REFERER'' 512, rq_accept := text_field ps ''HTTP_ACCEPT'' 512,
       rq_content_type := text_field ps ''CONTENT_TYPE'' 128,
       rq_content_length := (let cl = param_long ps ''CONTENT_LENGTH'' (- 1) in wrap32 (if cl \<ge> 0 then cl else int (length body))),
       rq_remote_addr := (case param_get ps ''REMOTE_ADDR'' of
                            Some (c # ra) \<Rightarrow> take 63 (c # ra)
                          | _ \<Rightarrow> (case peer of None \<Rightarrow> [] | Some p \<Rightarrow> if p = [] then [] else take 63 (''unix:'' @ take 58 p))),
       rq_body := (if body = [] then None else Some body)\<rparr>"

fun stdout_frames :: "nat \<Rightarrow> string \<Rightarrow> string" where
  "stdout_frames req_id [] = []"
| "stdout_frames req_id (c # s) =
     send_frame FCGI_STDOUT req_id (take 65535 (c # s)) @ stdout_frames req_id (drop 65535 (c # s))"

text \<open>A file is read in pieces of 65536 bytes and each piece sent in records of up to 65535.\<close>

fun file_frames :: "nat \<Rightarrow> string \<Rightarrow> string" where
  "file_frames req_id [] = []"
| "file_frames req_id (c # s) = stdout_frames req_id (take 65536 (c # s)) @ file_frames req_id (drop 65536 (c # s))"

definition fcgi_stream :: "server_env \<Rightarrow> HttpResponse \<Rightarrow> string" where
  "fcgi_stream env r =
     (case rs_stream_path r of
        None \<Rightarrow> []
      | Some p \<Rightarrow> (case fs_read (se_fs env) p of None \<Rightarrow> [] | Some content \<Rightarrow> content))"

definition end_request :: "nat \<Rightarrow> string" where
  "end_request req_id = send_frame FCGI_END_REQUEST req_id (replicate 8 NUL)"

text \<open>The answer to one request: the STDOUT records and the new state; \<open>None\<close> when a buffer is overrun.\<close>

definition fcgi_answer :: "server_env \<Rightarrow> nat \<Rightarrow> fcg_param list \<Rightarrow> HttpRequest \<Rightarrow> server_state \<Rightarrow> (string \<times> server_state) option" where
  "fcgi_answer env req_id ps req s =
     (case process_request (se_route env) (sv_httpd s) req zero_response of
        None \<Rightarrow> None
      | Some (_, resp, h) \<Rightarrow>
          let r1 = (if rs_body resp = None \<and> rs_stream_path resp = None \<and> rs_status_code resp \<noteq> 0
                    then set_error_response (se_fs env) resp (rs_status_code resp) (rs_status_text resp) else resp);
              r = (if rs_content_type r1 = [] then r1\<lparr>rs_content_type := ''text/html''\<rparr> else r1);
              head_only = (rq_method req = ''HEAD'')
          in case build_response (se_resp env) r head_only False of
               None \<Rightarrow> None
             | Some (raw, body_sent) \<Rightarrow>
                 let stream = (if head_only then [] else fcgi_stream env r);
                     ra = (case param_get ps ''REMOTE_ADDR'' of None \<Rightarrow> ''-'' | Some a \<Rightarrow> a)
                 in Some (stdout_frames req_id raw @ file_frames req_id stream,
                          log_and_count env ra req (rs_status_code r) (wrap32 (body_sent + int (length stream))) (s\<lparr>sv_httpd := h\<rparr>)))"

definition fastcgi_handle_connection ::
  "server_env \<Rightarrow> (nat \<Rightarrow> nat \<Rightarrow> bool) \<Rightarrow> string option \<Rightarrow> string \<Rightarrow> server_state \<Rightarrow> (string \<times> server_state) option" where
  "fastcgi_handle_connection env alloc peer input s =
     (case recv_header input of
        None \<Rightarrow> Some (end_request 0, s)
      | Some (h, s1) \<Rightarrow>
          if fh_version h \<noteq> 1 \<or> fh_type h \<noteq> FCGI_BEGIN_REQUEST then Some (end_request 0, s)
          else (case drain_frame_body (fh_content_length h) (fh_padding_length h) s1 of
                  Overrun \<Rightarrow> None
                | ShortRead \<Rightarrow> Some (end_request (fh_request_id h), s)
                | Drained s2 \<Rightarrow>
                    (case read_records alloc s2 [] [] of
                       RecordOverrun \<Rightarrow> None
                     | Abandoned \<Rightarrow> Some (end_request (fh_request_id h), s)
                     | Records ps body \<Rightarrow>
                         let b = (case body of None \<Rightarrow> [] | Some x \<Rightarrow> x)
                         in if b \<noteq> [] \<and> \<not> alloc (length b) 0 then Some (end_request (fh_request_id h), s)
                            else map_option (\<lambda>(out, s'). (out @ end_request (fh_request_id h), s'))
                              (fcgi_answer env (fh_request_id h) ps (populate ps b peer) s))))"

section \<open>The codecs invert each other\<close>

lemma be16_put: "v < 65536 \<Longrightarrow> be16 (char_of (v div 256 mod 256)) (char_of (v mod 256)) = v"
  by (simp add: be16_def mult.commute [of _ 256])

lemma pad_length_less: "pad_length n < 8"
  by (simp add: pad_length_def FCGI_PAD_def)

lemma recv_n_append [simp]: "recv_n (length d) (d @ r) = Some (d, r)"
  by (simp add: recv_n_def)

lemma recv_frame:
  assumes "typ < 256" and "rid < 65536" and "length dat < 65536"
  shows "recv_header (send_frame typ rid dat @ rest) =
    Some (\<lparr>fh_version = 1, fh_type = typ, fh_request_id = rid, fh_content_length = length dat, fh_padding_length = pad_length (length dat)\<rparr>,
      dat @ replicate (pad_length (length dat)) NUL @ rest)"
proof -
  have p: "pad_length (length dat) mod 256 = pad_length (length dat)" using pad_length_less [of "length dat"] by simp
  show ?thesis
    using assms be16_put [OF assms(2)] be16_put [OF assms(3)]
    by (simp add: recv_header_def recv_n_def send_frame_def put_be16_def p)
qed

lemma drain_padding: "k < 8 \<Longrightarrow> drain_frame_body 0 k (replicate k NUL @ rest) = Drained rest"
  using recv_n_append [of "replicate k NUL" rest] by (auto simp: drain_frame_body_def recv_n_def FCGI_PAD_def)

lemma drain_content: "k < 8 \<Longrightarrow> drain_frame_body (length d) k (d @ replicate k NUL @ rest) = Drained rest"
  using recv_n_append [of "replicate k NUL" rest] by (auto simp: drain_frame_body_def recv_n_def FCGI_PAD_def)

lemma get_len_put: "n < 2 ^ 31 \<Longrightarrow> get_len (fcgi_put_len n @ rest) = Some (n, rest)"
proof (cases "n < 128")
  case False
  assume n: "n < 2 ^ 31"
  then have a: "n div 16777216 < 128" by (simp add: div_less_dividend less_mult_imp_div_less)
  have "n = n div 16777216 * 16777216 + n mod 16777216" by simp
  moreover have "n mod 16777216 = n div 65536 mod 256 * 65536 + n mod 65536"
    using mod_mult2_eq [of n 65536 256] by (simp add: mult.commute)
  moreover have "n mod 65536 = n div 256 mod 256 * 256 + n mod 256"
    using mod_mult2_eq [of n 256 256] by (simp add: mult.commute)
  ultimately have "n div 16777216 * 16777216 + n div 65536 mod 256 * 65536 + n div 256 mod 256 * 256 + n mod 256 = n" by linarith
  then show ?thesis using False a by (simp add: get_len_def fcgi_put_len_def)
qed (simp add: get_len_def fcgi_put_len_def)

definition pair_ok :: "fcg_param \<Rightarrow> bool" where
  "pair_ok p \<longleftrightarrow> length (fst p) < 2 ^ 31 \<and> length (snd p) < 2 ^ 31"

lemma parse_params_Nil: "parse_params alloc [] = []"
  by (simp add: parse_params.simps get_len_def)

lemma parse_put_pairs: "list_all pair_ok ps \<Longrightarrow> parse_params (\<lambda>_ _. True) (concat (map put_pair ps)) = ps"
proof (induction ps)
  case (Cons p ps)
  then have g: "get_len (put_pair p @ x) = Some (length (fst p), fcgi_put_len (length (snd p)) @ fst p @ snd p @ x)"
    "get_len (fcgi_put_len (length (snd p)) @ y) = Some (length (snd p), y)" for x y
    by (simp_all add: pair_ok_def put_pair_def get_len_put)
  show ?case
    using Cons by (subst parse_params.simps) (simp add: g del: get_len_def)
qed (simp add: parse_params_Nil)

lemma put_pairs_spec: "put_pairs ps acc = Some r \<Longrightarrow>
  r = acc @ concat (map put_pair (filter (\<lambda>p. snd p \<noteq> []) ps)) \<and> (length acc \<le> 4096 \<longrightarrow> length r \<le> 4096)"
proof (induction ps arbitrary: acc)
  case (Cons p ps)
  have l: "length (fcgi_put_len n) \<le> 4" for n by (simp add: fcgi_put_len_def)
  show ?case
  proof (cases "snd p = []")
    case False
    then have fit: "length acc + 4 + length (fst p) + 4 + length (snd p) + 1 \<le> 4096" and r: "put_pairs ps (acc @ put_pair p) = Some r"
      using Cons.prems by (auto split: if_splits)
    have "length (acc @ put_pair p) \<le> 4096" using fit l [of "length (fst p)"] l [of "length (snd p)"] by (simp add: put_pair_def)
    then show ?thesis using Cons.IH [OF r] False by auto
  qed (use Cons in auto)
qed simp

text \<open>The relay of STDOUT records gives their contents back.\<close>

definition took_frame :: "string \<Rightarrow> relay_state \<Rightarrow> relay_state" where
  "took_frame d st = (relay_frame d st)\<lparr>rl_out := rl_out st @ d, rl_any := True\<rparr>"

lemma relay_stdout_step:
  assumes "rid < 65536" and "length d < 65536"
  shows "relay_loop None (send_frame FCGI_STDOUT rid d @ rest) st = relay_loop None rest (took_frame d st)"
proof -
  have h: "recv_header (send_frame FCGI_STDOUT rid d @ rest) =
    Some (\<lparr>fh_version = 1, fh_type = FCGI_STDOUT, fh_request_id = rid, fh_content_length = length d, fh_padding_length = pad_length (length d)\<rparr>,
      d @ replicate (pad_length (length d)) NUL @ rest)"
    by (rule recv_frame) (use assms in \<open>simp_all add: FCGI_STDOUT_def\<close>)
  have p: "\<not> 8 < pad_length (length d)" using pad_length_less [of "length d"] by simp
  have r: "recv_n (pad_length (length d)) (replicate (pad_length (length d)) NUL @ rest) = Some (replicate (pad_length (length d)) NUL, rest)"
    using recv_n_append [of "replicate (pad_length (length d)) NUL" rest] by simp
  have e: "(FCGI_STDOUT = FCGI_END_REQUEST) = False" by (simp add: FCGI_STDOUT_def FCGI_END_REQUEST_def)
  have o: "rl_out (relay_frame d st) = rl_out st" by (simp add: relay_frame_def)
  show ?thesis by (subst relay_loop.simps) (simp add: h p r e o Let_def took_frame_def)
qed

lemma relay_end:
  assumes "rid < 65536"
  shows "relay_loop None (end_request rid) st = Relayed st"
proof -
  have h: "recv_header (send_frame FCGI_END_REQUEST rid (replicate 8 NUL) @ []) =
    Some (\<lparr>fh_version = 1, fh_type = FCGI_END_REQUEST, fh_request_id = rid, fh_content_length = length (replicate 8 NUL),
        fh_padding_length = pad_length (length (replicate 8 NUL))\<rparr>,
      replicate 8 NUL @ replicate (pad_length (length (replicate 8 NUL))) NUL @ [])"
    by (rule recv_frame) (use assms in \<open>simp_all add: FCGI_END_REQUEST_def\<close>)
  have p: "pad_length 8 = 0" by (simp add: pad_length_def FCGI_PAD_def)
  have e: "FCGI_END_REQUEST \<noteq> FCGI_STDOUT" by (simp add: FCGI_STDOUT_def FCGI_END_REQUEST_def)
  show ?thesis
    using h e by (subst relay_loop.simps) (simp add: end_request_def p Let_def recv_n_def)
qed

text \<open>The contents of the STDOUT records the server writes for a response.\<close>

fun out_pieces :: "string \<Rightarrow> string list" where
  "out_pieces [] = []"
| "out_pieces (c # s) = take 65535 (c # s) # out_pieces (drop 65535 (c # s))"

lemma concat_out_pieces [simp]: "concat (out_pieces raw) = raw"
  by (induction raw rule: out_pieces.induct) simp_all

lemma relay_stdout:
  "rid < 65536 \<Longrightarrow> relay_loop None (stdout_frames rid raw @ rest) st = relay_loop None rest (fold took_frame (out_pieces raw) st)"
proof (induction raw arbitrary: st rule: out_pieces.induct)
  case (2 c s)
  let ?d = "take 65535 (c # s)" and ?r = "drop 65535 (c # s)"
  have "length ?d < 65536" by simp
  from relay_stdout_step [OF "2.prems" this, of "stdout_frames rid ?r @ rest" st] "2.IH" [OF "2.prems", of "took_frame ?d st"]
  show ?case by (simp only: stdout_frames.simps out_pieces.simps append_assoc fold.simps o_apply)
qed simp

lemma took_frames:
  "rl_out (fold took_frame ds st) = rl_out st @ concat ds \<and>
   rl_status (fold took_frame ds st) =
     (case rl_status st of Some c \<Rightarrow> Some c
      | None \<Rightarrow> (case List.map_filter find_status ds of [] \<Rightarrow> None | c # _ \<Rightarrow> Some c)) \<and>
   rl_header (fold took_frame ds st) = (if rl_scanned st \<or> ds = [] then rl_header st else find_blank (hd ds))"
  by (induction ds arbitrary: st)
    (auto simp: took_frame_def relay_frame_def List.map_filter_simps split: option.splits list.splits)

section \<open>The relay is transparent\<close>

lemma find_status_line: "c < 2 ^ 31 \<Longrightarrow> find_status (''HTTP/1.1 '' @ nat_dec c @ CHR '' '' # rest) = Some (int c)"
proof -
  assume c: "c < 2 ^ 31"
  have "strtol10 (nat_dec c @ CHR '' '' # rest) = (int c, CHR '' '' # rest)"
    by (rule strtol10_nat_dec) (use c in \<open>simp_all add: LONG_MAX_def isdigit_def\<close>)
  then show ?thesis using c wrap32_id [of "int c"] by simp
qed

lemma find_blank_first: "strstr (h @ [CR, LF, CR]) (crlf @ crlf) = None \<Longrightarrow> find_blank (h @ crlf @ crlf @ r) = Some (length h + 4)"
proof (induction h)
  case (Cons c h)
  have n: "take 4 ((c # h) @ [CR, LF, CR]) \<noteq> crlf @ crlf" "strstr (h @ [CR, LF, CR]) (crlf @ crlf) = None"
    using Cons.prems by (simp_all only: append_Cons strstr.simps split: if_splits) (simp_all add: numeral_eq_Suc)
  have "take 4 ((c # h) @ crlf @ crlf @ r) = take 4 ((c # h) @ [CR, LF, CR])"
    using take_append [of 4 "(c # h) @ [CR, LF, CR]" "LF # r"] by simp
  with n(1) have "take 4 ((c # h) @ crlf @ crlf @ r) \<noteq> crlf @ crlf" by argo
  then have "find_blank (c # (h @ crlf @ crlf @ r)) = map_option Suc (find_blank (h @ crlf @ crlf @ r))"
    by (subst find_blank.simps, subst if_not_P) (simp_all only: append_Cons)
  then show ?case using Cons.IH [OF n(2)] by (metis add_Suc append_Cons length_Cons option.map(2))
qed simp


lemma records_params:
  assumes "rid < 65536" and "length d < 65536"
  shows "read_records (\<lambda>_ _. True) (send_frame FCGI_PARAMS rid d @ rest) ps body =
    read_records (\<lambda>_ _. True) rest (if d = [] then ps else parse_params (\<lambda>_ _. True) d) body"
proof -
  have "FCGI_PARAMS < 256" by (simp add: FCGI_PARAMS_def)
  from recv_frame [OF this assms, of rest] show ?thesis
    by (subst read_records.simps) (simp add: Let_def drain_padding pad_length_less)
qed

lemma records_stdin:
  assumes "rid < 65536" and "length d < 65536" and "length body + length d \<le> MAX_REQUEST_SIZE" and "d \<noteq> []"
  shows "read_records (\<lambda>_ _. True) (send_frame FCGI_STDIN rid d @ rest) ps body = read_records (\<lambda>_ _. True) rest ps (body @ d)"
proof -
  have t: "FCGI_STDIN < 256" "FCGI_STDIN \<noteq> FCGI_PARAMS" by (simp_all add: FCGI_STDIN_def FCGI_PARAMS_def)
  from recv_frame [OF t(1) assms(1,2), of rest] show ?thesis
    using assms(3,4) t(2) by (subst read_records.simps) (simp add: Let_def drain_padding pad_length_less)
qed

lemma records_end:
  assumes "rid < 65536"
  shows "read_records (\<lambda>_ _. True) (send_frame FCGI_STDIN rid []) ps body = Records ps (Some body)"
proof -
  have t: "FCGI_STDIN < 256" "FCGI_STDIN \<noteq> FCGI_PARAMS" by (simp_all add: FCGI_STDIN_def FCGI_PARAMS_def)
  have "length ([] :: string) < 65536" by simp
  from recv_frame [OF t(1) assms this, of "[]"] show ?thesis
    using t(2) drain_padding [OF pad_length_less, of 0 "[]"] by (subst read_records.simps) (simp add: Let_def)
qed

text \<open>A parameter that was sent is found; one with an empty value is left out.\<close>

lemma param_get_find:
  assumes "\<forall>p\<in>set ps. NUL \<notin> set (fst p) \<and> NUL \<notin> set (snd p)"
  shows "param_get ps name = map_of ps name"
  using assms
proof (induction ps)
  case (Cons p ps)
  have c: "cstr (fst p) = fst p" "cstr (snd p) = snd p"
    using Cons.prems by (auto simp: cstr_def takeWhile_eq_all_conv)
  show ?case using Cons c by (cases p) (auto simp: param_get_def)
qed (simp add: param_get_def)

lemma strtol10_int_dec: "0 \<le> n \<Longrightarrow> n < 2 ^ 31 \<Longrightarrow> strtol10 (int_dec n) = (n, [])"
  using strtol10_nat_dec [of "[]" "nat n"] by (simp add: int_dec_def LONG_MAX_def)

lemma map_of_nonempty:
  assumes "distinct (map fst ps)"
  shows "map_of (filter (\<lambda>p. snd p \<noteq> []) ps) k = (case map_of ps k of None \<Rightarrow> None | Some v \<Rightarrow> if v = [] then None else Some v)"
  using assms
proof (induction ps)
  case (Cons p ps)
  have "map_of ps (fst p) = None" using Cons.prems by (simp add: map_of_eq_None_iff)
  then show ?case using Cons by (cases p) (auto split: option.splits)
qed simp

definition relayed_params :: "HttpRequest \<Rightarrow> string \<Rightarrow> fcg_param list" where
  "relayed_params req addr = filter (\<lambda>p. snd p \<noteq> []) (relay_pairs req addr)"

definition relay_names :: "string list" where
  "relay_names = [''REQUEST_METHOD'', ''REQUEST_URI'', ''QUERY_STRING'', ''CONTENT_TYPE'', ''CONTENT_LENGTH'', ''HTTP_HOST'',
     ''HTTP_USER_AGENT'', ''HTTP_ACCEPT_ENCODING'', ''HTTP_IF_NONE_MATCH'', ''REMOTE_ADDR'']"

lemma relay_names_ok: "distinct relay_names" "list_all (\<lambda>n. NUL \<notin> set n \<and> length n < 50) relay_names"
  by code_simp+

lemma relay_pairs_names: "map fst (relay_pairs req addr) = relay_names"
  by (simp add: relay_pairs_def relay_names_def)

lemma relay_pairs_nth:
  "map_of (relay_pairs req addr) ''REQUEST_METHOD'' = Some (rq_method req)"
  "map_of (relay_pairs req addr) ''REQUEST_URI'' = Some (relay_uri (rq_path req))"
  "map_of (relay_pairs req addr) ''CONTENT_TYPE'' = Some (rq_content_type req)"
  "map_of (relay_pairs req addr) ''CONTENT_LENGTH'' = Some (int_dec (rq_content_length req))"
  "map_of (relay_pairs req addr) ''HTTP_HOST'' = Some (rq_host req)"
  "map_of (relay_pairs req addr) ''HTTP_USER_AGENT'' = Some (rq_user_agent req)"
  "map_of (relay_pairs req addr) ''REMOTE_ADDR'' = Some addr"
  by (simp_all add: relay_pairs_def)

text \<open>What may stand in a parameter.\<close>

definition relayable :: "HttpRequest \<Rightarrow> string \<Rightarrow> bool" where
  "relayable req addr \<longleftrightarrow> request_wf req \<and> rq_method req \<noteq> [] \<and> relay_uri (rq_path req) \<noteq> [] \<and>
     addr \<noteq> [] \<and> fits 64 addr \<and>
     (case rq_body req of
        None \<Rightarrow> rq_content_length req = 0 \<and> rq_body_temp_path req = None
      | Some b \<Rightarrow> b \<noteq> [] \<and> length b < MAX_REQUEST_SIZE \<and> rq_content_length req = int (length b))"

lemma relayable_length: "relayable req addr \<Longrightarrow> 0 \<le> rq_content_length req \<and> rq_content_length req < 2 ^ 31"
  by (auto simp: relayable_def MAX_REQUEST_SIZE_def split: option.splits)

lemma relay_values:
  assumes "relayable req addr" and "p \<in> set (relay_pairs req addr)"
  shows "NUL \<notin> set (fst p) \<and> NUL \<notin> set (snd p) \<and> length (fst p) < 2 ^ 31 \<and> length (snd p) < 2 ^ 31"
proof -
  have n: "fst p \<in> set relay_names" using assms(2) relay_pairs_names [of req addr] by (metis imageI list.set_map)
  have f: "fits 2147483648 v" if "v \<in> snd ` set (relay_pairs req addr)" for v
  proof -
    have w: "fits 16 (rq_method req)" "fits MAX_PATH_SIZE (rq_path req)" "fits 128 (rq_content_type req)" "fits 256 (rq_host req)"
      "fits 512 (rq_user_agent req)" "fits 256 (rq_accept_encoding req)" "fits 256 (rq_if_none_match req)" "fits 64 addr"
      using assms(1) by (simp_all add: relayable_def request_wf_def)
    have u: "fits MAX_PATH_SIZE (relay_uri (rq_path req))"
      using w(2) by (auto simp: fits_def relay_uri_def MAX_PATH_SIZE_def dest!: in_set_takeD set_takeWhileD)
    have q: "fits MAX_PATH_SIZE (relay_query (rq_path req))"
      using w(2) by (auto simp: fits_def relay_query_def MAX_PATH_SIZE_def split: option.splits dest!: in_set_takeD strchr_Some)
    have "rq_content_length req < 2 ^ 31" "0 \<le> rq_content_length req" using relayable_length [OF assms(1)] by simp_all
    then have "length (nat_dec (nat (rq_content_length req))) \<le> 10" using length_nat_dec [of "nat (rq_content_length req)" 9] by simp
    moreover have "NUL \<notin> set (nat_dec m)" for m using nat_dec_chars [of NUL m] by (auto simp: isdigit_def)
    ultimately have c: "fits 2147483648 (int_dec (rq_content_length req))"
      using \<open>0 \<le> rq_content_length req\<close> by (simp add: fits_def int_dec_def)
    have m: "fits k v \<Longrightarrow> k \<le> 2147483648 \<Longrightarrow> fits 2147483648 v" for k v by (simp add: fits_def)
    have "v = rq_method req \<or> v = relay_uri (rq_path req) \<or> v = relay_query (rq_path req) \<or> v = rq_content_type req \<or>
        v = int_dec (rq_content_length req) \<or> v = rq_host req \<or> v = rq_user_agent req \<or> v = rq_accept_encoding req \<or>
        v = rq_if_none_match req \<or> v = addr"
      using that by (simp add: relay_pairs_def)
    then show ?thesis
      using m [OF w(1)] m [OF u] m [OF q] m [OF w(3)] c m [OF w(4)] m [OF w(5)] m [OF w(6)] m [OF w(7)] m [OF w(8)]
      by (elim disjE) (simp_all add: MAX_PATH_SIZE_def)
  qed
  have "fits 2147483648 (snd p)" using f assms(2) by blast
  then show ?thesis using n relay_names_ok(2) by (auto simp: fits_def list_all_iff)
qed

lemma relayed_params_get:
  assumes "relayable req addr"
  shows "param_get (relayed_params req addr) n = (case map_of (relay_pairs req addr) n of None \<Rightarrow> None | Some v \<Rightarrow> if v = [] then None else Some v)"
proof -
  have "\<forall>p\<in>set (relayed_params req addr). NUL \<notin> set (fst p) \<and> NUL \<notin> set (snd p)"
    using relay_values [OF assms] by (auto simp: relayed_params_def)
  then have "param_get (relayed_params req addr) n = map_of (relayed_params req addr) n" by (rule param_get_find)
  also have "\<dots> = (case map_of (relay_pairs req addr) n of None \<Rightarrow> None | Some v \<Rightarrow> if v = [] then None else Some v)"
    unfolding relayed_params_def by (rule map_of_nonempty) (simp add: relay_pairs_names relay_names_ok)
  finally show ?thesis .
qed

lemma text_field_relayed:
  assumes "relayable req addr" and "map_of (relay_pairs req addr) name = Some v" and "length v < n"
  shows "text_field (relayed_params req addr) name n = v"
  using relayed_params_get [OF assms(1), of name] assms(2,3) by (auto simp: text_field_def)

lemma relayed_records:
  assumes "relayable req addr" and "relay_request req addr None = Some sent"
  shows "\<exists>h s1 s2. recv_header sent = Some (h, s1) \<and> fh_version h = 1 \<and> fh_type h = FCGI_BEGIN_REQUEST \<and> fh_request_id h = 1 \<and>
    drain_frame_body (fh_content_length h) (fh_padding_length h) s1 = Drained s2 \<and>
    read_records (\<lambda>_ _. True) s2 [] [] = Records (relayed_params req addr) (Some (case rq_body req of None \<Rightarrow> [] | Some b \<Rightarrow> b))"
proof -
  obtain ps stdin where ps: "put_pairs (relay_pairs req addr) [] = Some ps" and sd: "relay_stdin req None = Some stdin"
    and s: "sent = send_frame FCGI_BEGIN_REQUEST 1 (put_be16 1 @ replicate 6 NUL) @ send_frame FCGI_PARAMS 1 ps @
              send_frame FCGI_PARAMS 1 [] @ stdin @ send_frame FCGI_STDIN 1 []"
    using assms(2) by (auto simp: relay_request_def split: option.splits)
  let ?s2 = "send_frame FCGI_PARAMS 1 ps @ send_frame FCGI_PARAMS 1 [] @ stdin @ send_frame FCGI_STDIN 1 []"
  have p: "ps = concat (map put_pair (relayed_params req addr))" "length ps \<le> 4096"
    using put_pairs_spec [OF ps] by (auto simp: relayed_params_def)
  have ok: "list_all pair_ok (relayed_params req addr)"
    using relay_values [OF assms(1)] by (auto simp: list_all_iff pair_ok_def relayed_params_def)
  have "(''REQUEST_METHOD'', rq_method req) \<in> set (relayed_params req addr)"
    using assms(1) by (simp add: relayed_params_def relay_pairs_def relayable_def)
  then have ne: "ps \<noteq> []" unfolding p(1) by (auto simp: put_pair_def fcgi_put_len_def)
  have bl: "length (put_be16 v) = 2" for v by (simp add: put_be16_def)
  let ?d = "put_be16 1 @ replicate 6 NUL"
  have h: "recv_header sent = Some (\<lparr>fh_version = 1, fh_type = FCGI_BEGIN_REQUEST, fh_request_id = 1,
      fh_content_length = length ?d, fh_padding_length = pad_length (length ?d)\<rparr>, ?d @ replicate (pad_length (length ?d)) NUL @ ?s2)"
    unfolding s by (rule recv_frame) (simp_all add: FCGI_BEGIN_REQUEST_def bl)
  have dr: "drain_frame_body (length ?d) (pad_length (length ?d)) (?d @ replicate (pad_length (length ?d)) NUL @ ?s2) = Drained ?s2"
    by (rule drain_content [OF pad_length_less])
  have "read_records (\<lambda>_ _. True) ?s2 [] [] = read_records (\<lambda>_ _. True) (stdin @ send_frame FCGI_STDIN 1 []) (relayed_params req addr) []"
  proof -
    have pp: "parse_params (\<lambda>_ _. True) ps = relayed_params req addr" unfolding p(1) by (rule parse_put_pairs [OF ok])
    show ?thesis using p(2) ne pp by (simp add: records_params)
  qed
  also have "\<dots> = Records (relayed_params req addr) (Some (case rq_body req of None \<Rightarrow> [] | Some b \<Rightarrow> b))"
  proof (cases "rq_body req")
    case None
    then have "stdin = []" using sd assms(1) by (auto simp: relay_stdin_def relayable_def split: if_splits)
    then show ?thesis using None by (simp add: records_end)
  next
    case (Some b)
    then have bb: "b \<noteq> []" "length b < MAX_REQUEST_SIZE" "rq_content_length req = int (length b)" using assms(1) by (simp_all add: relayable_def)
    then have st: "stdin = send_frame FCGI_STDIN 1 b" using sd Some by (auto simp: relay_stdin_def)
    show ?thesis unfolding st using Some bb by (simp add: records_stdin records_end MAX_REQUEST_SIZE_def)
  qed
  finally have "read_records (\<lambda>_ _. True) ?s2 [] [] = Records (relayed_params req addr) (Some (case rq_body req of None \<Rightarrow> [] | Some b \<Rightarrow> b))" .
  with h dr show ?thesis
    by (intro exI conjI) (assumption | simp)+
qed

text \<open>
  (C18) The two sides of the FastCGI code agree: a request with a body below 64 KiB that the relay sends is
  rebuilt by the server side with the same method, path (without the query string), Host, User-Agent,
  Content-Type, Content-Length, client address and body, and goes on to the same dispatch.
\<close>

theorem fcgi_request_roundtrip:
  assumes "relayable req addr" and "relay_request req addr None = Some sent"
  shows "\<exists>ps rq. fastcgi_handle_connection env (\<lambda>_ _. True) peer sent s =
      map_option (\<lambda>(out, s'). (out @ end_request 1, s')) (fcgi_answer env 1 ps rq s) \<and>
    rq_method rq = rq_method req \<and> rq_path rq = relay_uri (rq_path req) \<and> rq_host rq = rq_host req \<and>
    rq_user_agent rq = rq_user_agent req \<and> rq_content_type rq = rq_content_type req \<and>
    rq_content_length rq = rq_content_length req \<and> rq_remote_addr rq = addr \<and> rq_body rq = rq_body req"
proof -
  let ?ps = "relayed_params req addr" and ?b = "case rq_body req of None \<Rightarrow> [] | Some b \<Rightarrow> b"
  obtain h s1 s2 where h: "recv_header sent = Some (h, s1)" "fh_version h = 1" "fh_type h = FCGI_BEGIN_REQUEST" "fh_request_id h = 1"
    and d: "drain_frame_body (fh_content_length h) (fh_padding_length h) s1 = Drained s2"
    and r: "read_records (\<lambda>_ _. True) s2 [] [] = Records ?ps (Some ?b)"
    using relayed_records [OF assms] by blast
  have f: "fastcgi_handle_connection env (\<lambda>_ _. True) peer sent s =
      map_option (\<lambda>(out, s'). (out @ end_request 1, s')) (fcgi_answer env 1 ?ps (populate ?ps ?b peer) s)"
    by (simp add: fastcgi_handle_connection_def h d r Let_def)
  note g = relayed_params_get [OF assms(1)] and n = relay_pairs_nth [of req addr]
  have w: "length (rq_method req) < 16" "length (rq_host req) < 256" "length (rq_user_agent req) < 512" "length (rq_content_type req) < 128"
    "length addr < 64" "rq_method req \<noteq> []" "relay_uri (rq_path req) \<noteq> []" "addr \<noteq> []"
    using assms(1) by (simp_all add: relayable_def request_wf_def fits_def)
  have cl: "param_long ?ps ''CONTENT_LENGTH'' (- 1) = rq_content_length req"
    using g [of "''CONTENT_LENGTH''"] n(4) strtol10_int_dec [of "rq_content_length req"] relayable_length [OF assms(1)]
      nat_dec_value [of "nat (rq_content_length req)"]
    by (auto simp: param_long_def int_dec_def)
  have l: "wrap32 (rq_content_length req) = rq_content_length req" using relayable_length [OF assms(1)] by (intro wrap32_id) simp_all
  have u: "length (relay_uri (rq_path req)) \<le> MAX_PATH_SIZE - Suc 0" "length (rq_method req) \<le> 15" using w(1) by (simp_all add: relay_uri_def)
  have m: "param_get ?ps ''REQUEST_METHOD'' = Some (rq_method req)" "param_get ?ps ''REQUEST_URI'' = Some (relay_uri (rq_path req))"
    "param_get ?ps ''REMOTE_ADDR'' = Some addr"
    using g n w by simp_all
  have a: "(case addr of [] \<Rightarrow> y | c # ra \<Rightarrow> take 63 (c # ra)) = addr" for y
    using w(5,8) by (cases addr) simp_all
  have b: "(if ?b = [] then None else Some ?b) = rq_body req"
    using assms(1) by (auto simp: relayable_def split: option.splits)
  show ?thesis
    by (intro exI conjI, rule f)
      (simp_all add: populate_def m a b cl l u w relayable_length [OF assms(1)] text_field_relayed [OF assms(1) n(3)]
        text_field_relayed [OF assms(1) n(5)] text_field_relayed [OF assms(1) n(6)])
qed

definition demo_relay_req :: HttpRequest where
  "demo_relay_req = zero_request\<lparr>rq_method := ''GET'', rq_path := ''/a?b''\<rparr>"

lemma demo_relayable: "relayable demo_relay_req ''10.0.0.7''"
  by (simp add: relayable_def demo_relay_req_def zero_request_def request_wf_def fits_def relay_uri_def MAX_PATH_SIZE_def HTTP_EXTRA_HEADERS_MAX_def)

lemma demo_relay_sent: "\<exists>sent. relay_request demo_relay_req ''10.0.0.7'' None = Some sent"
proof -
  have "\<exists>ps. put_pairs (relay_pairs demo_relay_req ''10.0.0.7'') [] = Some ps"
    by (simp add: relay_pairs_def demo_relay_req_def zero_request_def relay_uri_def relay_query_def strchr_def put_pair_def fcgi_put_len_def
        int_dec_def nat_dec.simps MAX_PATH_SIZE_def)
  then show ?thesis by (auto simp: relay_request_def relay_stdin_def demo_relay_req_def zero_request_def)
qed

theorem fcgi_request_roundtrip_witness:
  "\<exists>sent ps rq. relay_request demo_relay_req ''10.0.0.7'' None = Some sent \<and>
     fastcgi_handle_connection undefined (\<lambda>_ _. True) None sent undefined =
       map_option (\<lambda>(out, s'). (out @ end_request 1, s')) (fcgi_answer undefined 1 ps rq undefined) \<and> rq_method rq = ''GET''"
proof -
  obtain sent where s: "relay_request demo_relay_req ''10.0.0.7'' None = Some sent" using demo_relay_sent by blast
  have "rq_method demo_relay_req = ''GET''" by (simp add: demo_relay_req_def)
  with fcgi_request_roundtrip [OF demo_relayable s, of undefined None undefined] s show ?thesis by metis
qed


section \<open>Limits of the protocol code\<close>

text \<open>A record of 65536 bytes announces an empty one: a body or spool piece of that size cuts the stream.\<close>

theorem full_frame_announced_empty:
  assumes "length dat = 65536"
  shows "map_option (\<lambda>(h, _). fh_content_length h) (recv_header (send_frame FCGI_STDIN 1 dat @ rest)) = Some 0"
  using assms by (simp add: recv_header_def recv_n_def send_frame_def put_be16_def be16_def)

text \<open>Padding above eight bytes is read into an array of eight.\<close>

theorem long_padding_overruns: "8 < k \<Longrightarrow> drain_frame_body 0 k s = Overrun"
  by (simp add: drain_frame_body_def recv_n_def FCGI_PAD_def)

text \<open>Parameters that arrive in two records: only those of the second are kept.\<close>

theorem second_params_record_replaces_first:
  assumes "d1 \<noteq> []" "d2 \<noteq> []" "length d1 < 65536" "length d2 < 65536"
  shows "read_records (\<lambda>_ _. True) (send_frame FCGI_PARAMS 1 d1 @ send_frame FCGI_PARAMS 1 d2 @ send_frame FCGI_STDIN 1 []) [] [] =
    Records (parse_params (\<lambda>_ _. True) d2) (Some [])"
  using assms by (simp add: records_params records_end)

text \<open>A backend that breaks off inside the padding makes the relay report failure although the client has bytes of a response.\<close>

theorem relay_failure_after_streaming:
  "relay_loop None [CHR 0x01, CHR 0x06, NUL, CHR 0x01, NUL, CHR 0x01, CHR 0x07, NUL, CHR ''x''] \<lparr>rl_status = None, rl_scanned = False, rl_header = None, rl_any = False, rl_out = []\<rparr> =
   RelayFailed \<lparr>rl_status = None, rl_scanned = True, rl_header = None, rl_any = True, rl_out = ''x''\<rparr>"
  by code_simp

text \<open>The length a client declares is taken over however short the body is.\<close>

theorem declared_length_exceeds_body:
  "rq_content_length (populate [(''CONTENT_LENGTH'', ''100'')] ''x'' None) = 100 \<and> rq_body (populate [(''CONTENT_LENGTH'', ''100'')] ''x'' None) = Some ''x''"
  by code_simp

end
