(* ===== verification/Sql_Guard.thy ===== *)
theory Sql_Guard
  imports Minijson
begin

text \<open>
  The statement guard of \<open>src/src/agent/sqlite_tool.c\<close>: which SQL text the agent may hand to SQLite.  A
  pointer into a statement is the suffix it points at.  A check returns the error message the source
  returns, \<open>None\<close> for its \<open>NULL\<close>.
\<close>

definition SQL_MAX :: nat where "SQL_MAX = 8192"

definition k_hidden_tables :: "string list" where
  "k_hidden_tables = [''lost_and_found'']"

definition sql_blank :: "char \<Rightarrow> bool" where
  "sql_blank c \<longleftrightarrow> c = CHR '' '' \<or> c = TAB \<or> c = CR \<or> c = LF"

definition word_char :: "char \<Rightarrow> bool" where
  "word_char c \<longleftrightarrow> isalnum c \<or> c = CHR ''_''"

text \<open>Whether the character a pointer is at ends a word; the NUL does.\<close>

definition sql_break :: "string \<Rightarrow> bool" where
  "sql_break p \<longleftrightarrow> (case p of [] \<Rightarrow> True | c # _ \<Rightarrow> \<not> word_char c)"

section \<open>Searching for words\<close>

definition table_hidden :: "string \<Rightarrow> bool" where
  "table_hidden name \<longleftrightarrow> list_ex (ci_eq name) k_hidden_tables"

definition kw_at :: "string \<Rightarrow> string \<Rightarrow> bool" where
  "kw_at s w \<longleftrightarrow> ci_prefix w s \<and> sql_break (drop (length w) s)"

fun ci_strstr :: "string \<Rightarrow> string \<Rightarrow> string option" where
  "ci_strstr [] needle = (if needle = [] then Some [] else None)"
| "ci_strstr (c # s) needle = (if needle = [] \<or> ci_prefix needle (c # s) then Some (c # s) else ci_strstr s needle)"

text \<open>
  The search for a whole word.  \<open>before\<close> is whether the character to the left of \<open>s\<close> is a word character;
  a hit inside a longer word moves the search behind the hit.  No caller searches for the empty word.
\<close>

lemma ci_strstr_shorter: "ci_strstr s w = Some t \<Longrightarrow> length t \<le> length s"
  by (induction s) (auto split: if_splits)

lemma ci_strstr_found: "ci_strstr s w = Some t \<Longrightarrow> ci_prefix w t"
  by (induction s) (auto simp: ci_prefix_def split: if_splits)

definition left_word :: "bool \<Rightarrow> string \<Rightarrow> bool" where
  "left_word before pre \<longleftrightarrow> (if pre = [] then before else word_char (last pre))"

function kw_search :: "string \<Rightarrow> bool \<Rightarrow> string \<Rightarrow> bool" where
  "kw_search w before s =
     (case ci_strstr s w of
        None \<Rightarrow> False
      | Some p \<Rightarrow>
          if w = [] then False
          else if \<not> left_word before (take (length s - length p) s) \<and> sql_break (drop (length w) p) then True
          else kw_search w (left_word before (take (length s - length p) s @ take (length w) p)) (drop (length w) p))"
  by pat_completeness auto
termination
proof (relation "measure (\<lambda>(w, b, s). length s)", simp, goal_cases)
  case (1 w before s p)
  then show ?case using ci_strstr_shorter [of s w p] ci_strstr_found [of s w p] by (cases w) (auto simp: ci_prefix_def)
qed

declare kw_search.simps [simp del]

definition kw_anywhere :: "string \<Rightarrow> string \<Rightarrow> bool" where
  "kw_anywhere s w = kw_search w False s"

definition sql_touches_hidden :: "string \<Rightarrow> bool" where
  "sql_touches_hidden sql \<longleftrightarrow> list_ex (kw_anywhere sql) k_hidden_tables"

section \<open>Scanning\<close>

text \<open>Leading comments, at most 64 of them; \<open>None\<close> for one that does not end.\<close>

primrec strip_loop :: "nat \<Rightarrow> string \<Rightarrow> string option" where
  "strip_loop 0 s = Some s"
| "strip_loop (Suc k) s =
     (let t = dropWhile sql_blank s
      in if take 2 t = ''--'' then (case strchr t LF of None \<Rightarrow> None | Some nl \<Rightarrow> strip_loop k (tl nl))
         else if take 2 t = ''/*'' then (case strstr (drop 2 t) ''*/'' of None \<Rightarrow> None | Some e \<Rightarrow> strip_loop k (drop 2 e))
         else Some t)"

definition strip_comments :: "string \<Rightarrow> nat \<Rightarrow> string" where
  "strip_comments sql n = (case strip_loop 64 sql of None \<Rightarrow> [] | Some s \<Rightarrow> take (n - 1) s)"

definition sql_scan_ident :: "string \<Rightarrow> string option" where
  "sql_scan_ident p =
     (case p of
        [] \<Rightarrow> None
      | c # r \<Rightarrow>
          if c = DQUOTE then map_option tl (strchr r DQUOTE)
          else if word_char c then Some (dropWhile word_char p) else None)"

lemma strchr_shorter: "strchr s c = Some t \<Longrightarrow> t \<noteq> [] \<and> length t \<le> length s"
  using length_dropWhile_le [of "\<lambda>x. x \<noteq> c" s] by (cases "dropWhile (\<lambda>x. x \<noteq> c) s") (auto simp: strchr_def)

lemma strstr_length: "strstr s key = Some t \<Longrightarrow> length t \<le> length s"
  by (induction s) (auto split: if_splits)

lemma take2_length: "take 2 q = [a, b] \<Longrightarrow> 2 \<le> length q"
  by (cases q; cases "tl q") auto

function sql_skip_ws_comment :: "string \<Rightarrow> string" where
  "sql_skip_ws_comment p =
     (let q = dropWhile sql_blank p
      in if take 2 q = ''--'' then (case strchr q LF of None \<Rightarrow> [] | Some nl \<Rightarrow> sql_skip_ws_comment (tl nl))
         else if take 2 q = ''/*'' then
           (case strstr (drop 2 q) ''*/'' of None \<Rightarrow> [] | Some e \<Rightarrow> sql_skip_ws_comment (drop 2 e))
         else q)"
  by pat_completeness auto
termination
proof (relation "measure length", simp, goal_cases)
  case (1 p q nl)
  then have "nl \<noteq> []" "length nl \<le> length p"
    using strchr_shorter [of q LF nl] length_dropWhile_le [of sql_blank p] by auto
  then show ?case by (cases nl) auto
next
  case (2 p q e)
  then have "2 \<le> length q" by (metis take2_length)
  with 2 have "length e \<le> length q - 2" "2 \<le> length q" "length q \<le> length p"
    using strstr_length [of "drop 2 q" "''*/''" e] length_dropWhile_le [of sql_blank p]
    by auto
  then show ?case by auto
qed

declare sql_skip_ws_comment.simps [simp del]

text \<open>Behind the literal whose opening quote \<open>q\<close> was just read; a doubled quote stays inside.\<close>

fun skip_quoted :: "char \<Rightarrow> string \<Rightarrow> string" where
  "skip_quoted q [] = []"
| "skip_quoted q [c] = []"
| "skip_quoted q (c # d # s) =
     (if c = q then (if d = q then skip_quoted q s else d # s) else skip_quoted q (d # s))"

definition sql_skip_string :: "string \<Rightarrow> string" where
  "sql_skip_string p = (case p of [] \<Rightarrow> [] | q # r \<Rightarrow> skip_quoted q r)"

definition sql_quote :: "char \<Rightarrow> bool" where
  "sql_quote c \<longleftrightarrow> c = CHR 0x27 \<or> c = DQUOTE"

lemma skip_quoted_shorter: "length (skip_quoted q s) \<le> length s"
  by (induction q s rule: skip_quoted.induct) auto

lemma skip_string_shorter: "p \<noteq> [] \<Longrightarrow> length (sql_skip_string p) < length p"
  using skip_quoted_shorter [of "hd p" "tl p"] by (cases p) (simp_all add: sql_skip_string_def)

text \<open>The suffix at the parenthesis that closes the one the scan starts at.\<close>

function match_loop :: "int \<Rightarrow> string \<Rightarrow> string option" where
  "match_loop depth [] = None"
| "match_loop depth (c # p) =
     (if sql_quote c then match_loop depth (sql_skip_string (c # p))
      else if take 2 (c # p) = ''--'' then
        (case strchr (c # p) LF of None \<Rightarrow> None | Some nl \<Rightarrow> match_loop depth (tl nl))
      else if take 2 (c # p) = ''/*'' then
        (case strstr (drop 1 p) ''*/'' of None \<Rightarrow> None | Some e \<Rightarrow> match_loop depth (drop 2 e))
      else if c = CHR ''('' then match_loop (depth + 1) p
      else if c = CHR '')'' then (if depth - 1 = 0 then Some (c # p) else match_loop (depth - 1) p)
      else match_loop depth p)"
  by pat_completeness auto
termination
proof (relation "measure (\<lambda>(d, s). length s)", goal_cases)
  case (2 depth c p)
  then show ?case using skip_string_shorter [of "c # p"] by simp
next
  case (3 depth c p nl)
  then show ?case using strchr_shorter [of "c # p" LF nl] by (cases nl) auto
next
  case (4 depth c p e)
  then show ?case using strstr_length [of "drop 1 p" "''*/''" e] by auto
qed auto

definition sql_match_paren :: "string \<Rightarrow> string option" where
  "sql_match_paren p = match_loop 0 p"

section \<open>Reading statements\<close>

text \<open>Leading blanks are gone, and the only semicolon may be the last character.\<close>

definition single_statement :: "string \<Rightarrow> string option" where
  "single_statement t =
     (if t = [] then Some ''empty SQL''
      else if CHR '';'' \<in> set (if last t = CHR '';'' then butlast t else t) then Some ''multiple statements are not allowed''
      else None)"

definition db_validate_read :: "string \<Rightarrow> nat \<Rightarrow> string option \<times> string" where
  "db_validate_read sql n =
     (let t = dropWhile sql_blank sql
      in case single_statement t of
           Some e \<Rightarrow> (Some e, [])
         | None \<Rightarrow>
             let body = strip_comments t n; b = dropWhile sql_blank body
             in if ci_prefix ''select'' b \<and> 6 < length b \<and> sql_blank (b ! 6) then (None, body)
                else (Some ''only SELECT statements are allowed'', body))"

section \<open>Writing statements\<close>

definition gap :: "string \<Rightarrow> string" where
  "gap p = dropWhile (\<lambda>c. c = CHR '' '' \<or> c = TAB) p"

definition typedef_char :: "char \<Rightarrow> bool" where
  "typedef_char c \<longleftrightarrow> word_char c \<or> c \<in> set [CHR '' '', TAB, CHR ''('', CHR '')'', CHR '','']"

definition sql_validate_alter_add :: "string \<Rightarrow> string option" where
  "sql_validate_alter_add b =
     (let p1 = gap (drop 5 b)
      in if \<not> kw_at p1 ''table'' then Some ''only ALTER TABLE ... ADD COLUMN is allowed''
         else case sql_scan_ident (gap (drop 5 p1)) of
                None \<Rightarrow> Some ''ALTER TABLE needs a table name''
              | Some p2 \<Rightarrow>
                  if \<not> kw_at (gap p2) ''add'' then Some ''only ALTER TABLE ... ADD COLUMN is allowed''
                  else
                    let p3 = gap (drop 3 (gap p2));
                        p4 = (if kw_at p3 ''column'' then gap (drop 6 p3) else p3)
                    in case sql_scan_ident p4 of
                         None \<Rightarrow> Some ''ALTER TABLE ADD needs a column name''
                       | Some p5 \<Rightarrow>
                           if gap p5 = [] then Some ''ALTER TABLE ADD needs a column type''
                           else if list_all typedef_char (gap p5) then None
                           else Some ''unsafe column type in ALTER TABLE'')"

definition sql_dangerous :: string where
  "sql_dangerous = ''dangerous statement rejected (DROP/TRUNCATE/'' @ [CHR 0xE2, CHR 0x80, CHR 0xA6, CHR '')'']"

definition dangerous_words :: "string list" where
  "dangerous_words =
     [''drop'', ''truncate'', ''vacuum'', ''attach'', ''detach'', ''reindex'', ''pragma'', ''grant'', ''revoke'', ''copy'']"

definition dml_words :: "string list" where
  "dml_words = [''insert'', ''update'', ''delete'']"

definition cte_forbidden :: "string list" where
  "cte_forbidden = dangerous_words @ [''alter'', ''create'', ''begin'', ''commit'', ''rollback'']"

definition db_validate_write_stmt :: "string \<Rightarrow> string option" where
  "db_validate_write_stmt b =
     (if list_ex (kw_at b) dangerous_words then Some sql_dangerous
      else if ci_strstr b ''portfolio'' \<noteq> None then
        Some (''rejected '' @ [CHR 0xE2, CHR 0x80, CHR 0x94] @ '' the portfolio mirror table is read-only'')
      else if kw_at b ''alter'' then sql_validate_alter_add b
      else if list_ex (kw_at b) dml_words then
        (if (kw_at b ''update'' \<or> kw_at b ''delete'') \<and> \<not> kw_anywhere b ''where''
         then Some ''UPDATE/DELETE must include a WHERE clause'' else None)
      else if ci_prefix ''create'' b \<and> 6 < length b \<and> sql_blank (b ! 6) then
        (if ci_prefix ''table'' (drop 7 b) \<and> 12 < length b \<and> sql_blank (b ! 12) then None
         else Some ''only CREATE TABLE DDL is allowed (new tables only)'')
      else Some ''only INSERT / UPDATE / DELETE / CREATE TABLE allowed'')"

text \<open>
  The body of one WITH subquery: the text from \<open>s\<close> up to the suffix \<open>stop\<close> at its closing parenthesis.
  \<open>p >= end\<close> is that no more than \<open>stop\<close> is left.
\<close>

lemma length_skip_ws: "length (sql_skip_ws_comment p) \<le> length p"
proof (induction p rule: sql_skip_ws_comment.induct)
  case (1 p)
  define q where "q = dropWhile sql_blank p"
  have q: "length q \<le> length p" by (simp add: q_def length_dropWhile_le)
  show ?case
  proof (cases "take 2 q = ''--''")
    case True
    with 1 q show ?thesis
      using strchr_shorter [of q LF]
      by (auto simp: sql_skip_ws_comment.simps [of p] q_def [symmetric] split: option.split) fastforce
  next
    case False
    with 1 q show ?thesis
      using strstr_length [of "drop 2 q" "''*/''"]
      by (auto simp: sql_skip_ws_comment.simps [of p] q_def [symmetric] split: option.split) fastforce
  qed
qed

lemma scan_ident_shorter: "sql_scan_ident p = Some q \<Longrightarrow> length q < length p"
proof -
  assume a: "sql_scan_ident p = Some q"
  then obtain c r where p: "p = c # r" by (cases p) (auto simp: sql_scan_ident_def)
  show ?thesis
  proof (cases "c = DQUOTE")
    case True
    with a p obtain t where "strchr r DQUOTE = Some t" "q = tl t" by (auto simp: sql_scan_ident_def)
    with p show ?thesis using strchr_shorter [of r DQUOTE t] by (cases t) auto
  next
    case False
    with a p have "word_char c" "q = dropWhile word_char r" by (auto simp: sql_scan_ident_def split: if_splits)
    with p show ?thesis by (simp add: length_dropWhile_le le_imp_less_Suc)
  qed
qed

function cte_scan :: "string \<Rightarrow> string \<Rightarrow> string option" where
  "cte_scan stop p0 =
     (if length p0 \<le> length stop then None
      else
        let p = sql_skip_ws_comment p0
        in if length p \<le> length stop then None
           else if sql_quote (hd p) then cte_scan stop (sql_skip_string p)
           else if \<not> word_char (hd p) then cte_scan stop (tl p)
           else if list_ex (kw_at p) dml_words then Some ''write keyword in read-only WITH subquery''
           else if list_ex (kw_at p) cte_forbidden then Some sql_dangerous
           else case sql_scan_ident p of
                  None \<Rightarrow> Some ''bad token in WITH subquery''
                | Some q \<Rightarrow> cte_scan stop q)"
  by pat_completeness auto
termination
proof (relation "measure (\<lambda>(e, p). length p)", simp, goal_cases)
  case (1 stop p0 p)
  then have "p \<noteq> []" by auto
  with 1 show ?case using length_skip_ws [of p0] skip_string_shorter [of p] by auto
next
  case (2 stop p0 p)
  then show ?case using length_skip_ws [of p0] by (cases p) auto
next
  case (3 stop p0 p q)
  then show ?case using length_skip_ws [of p0] scan_ident_shorter [of p q] by auto
qed

declare cte_scan.simps [simp del]

definition sql_cte_body_ok :: "string \<Rightarrow> string \<Rightarrow> string option" where
  "sql_cte_body_ok s stop =
     (let p = sql_skip_ws_comment s
      in if length p \<le> length stop then Some ''empty WITH subquery''
         else if \<not> kw_at p ''select'' \<and> \<not> kw_at p ''values'' \<and> \<not> kw_at p ''with''
           then Some ''WITH subquery must be a read-only SELECT/VALUES query''
         else cte_scan stop s)"

text \<open>The column list behind a CTE name: the suffix where it stops, \<open>None\<close> for a bad identifier.\<close>

function cte_columns :: "string \<Rightarrow> string option" where
  "cte_columns q0 =
     (let q = sql_skip_ws_comment q0
      in if q = [] \<or> hd q = CHR '')'' then Some q
         else case sql_scan_ident q of
                None \<Rightarrow> None
              | Some r0 \<Rightarrow>
                  let r = sql_skip_ws_comment r0
                  in if r \<noteq> [] \<and> hd r = CHR '','' then cte_columns (tl r) else Some r)"
  by pat_completeness auto
termination
proof (relation "measure length", simp, goal_cases)
  case (1 q0 q r0 r)
  then show ?case
    using length_skip_ws [of q0] length_skip_ws [of r0] scan_ident_shorter [of q r0] by (cases r) auto
qed

declare cte_columns.simps [simp del]

text \<open>One element \<open>name [(columns)] AS (body)\<close> of the WITH list: the suffix behind it.\<close>

definition cte_alias :: "string \<Rightarrow> string + string" where
  "cte_alias p =
     (if p \<noteq> [] \<and> hd p = CHR ''('' then
        (case cte_columns (tl p) of
           None \<Rightarrow> Inl ''bad WITH column list''
         | Some q \<Rightarrow> if q \<noteq> [] \<and> hd q = CHR '')'' then Inr (sql_skip_ws_comment (tl q)) else Inl ''bad WITH column list'')
      else Inr p)"

definition cte_item :: "string \<Rightarrow> string + string" where
  "cte_item p0 =
     (case sql_scan_ident (sql_skip_ws_comment p0) of
        None \<Rightarrow> Inl ''WITH needs a CTE name''
      | Some name \<Rightarrow>
          (case cte_alias (sql_skip_ws_comment name) of
             Inl e \<Rightarrow> Inl e
           | Inr p \<Rightarrow>
               if \<not> kw_at p ''as'' then Inl ''WITH CTE needs AS (...)''
               else
                 let q = sql_skip_ws_comment (drop 2 p)
                 in if q = [] \<or> hd q \<noteq> CHR ''('' then Inl ''WITH CTE body must be parenthesized''
                    else (case sql_match_paren q of
                            None \<Rightarrow> Inl ''unbalanced parentheses in WITH subquery''
                          | Some close \<Rightarrow>
                              (case sql_cte_body_ok (tl q) close of
                                 Some e \<Rightarrow> Inl e
                               | None \<Rightarrow> Inr (sql_skip_ws_comment (tl close))))))"

lemma match_loop_shorter: "match_loop d p = Some r \<Longrightarrow> length r \<le> length p \<and> r \<noteq> []"
proof (induction d p rule: match_loop.induct)
  case (2 d c p)
  then show ?case
    using skip_string_shorter [of "c # p"] strchr_shorter [of "c # p" LF] strstr_length [of "drop 1 p" "''*/''"]
    by (auto split: if_splits option.splits)
qed simp

lemma cte_columns_shorter: "cte_columns q = Some r \<Longrightarrow> length r \<le> length q"
proof (induction q rule: cte_columns.induct)
  case (1 q)
  define q1 where "q1 = sql_skip_ws_comment q"
  show ?case
  proof (cases "q1 = [] \<or> hd q1 = CHR '')''")
    case True
    with 1(2) have "r = q1" by (simp add: cte_columns.simps [of q] q1_def [symmetric] Let_def)
    then show ?thesis using length_skip_ws [of q] by (simp add: q1_def)
  next
    case False
    with 1(2) obtain r0 where r0: "sql_scan_ident q1 = Some r0"
      by (auto simp: cte_columns.simps [of q] q1_def [symmetric] Let_def split: option.splits if_splits)
    have len: "length (sql_skip_ws_comment r0) < length q"
      using scan_ident_shorter [OF r0] length_skip_ws [of q] length_skip_ws [of r0] by (simp add: q1_def)
    show ?thesis
    proof (cases "sql_skip_ws_comment r0 \<noteq> [] \<and> hd (sql_skip_ws_comment r0) = CHR '',''")
      case True
      with 1(2) False r0 have "cte_columns (tl (sql_skip_ws_comment r0)) = Some r"
        by (simp add: cte_columns.simps [of q] q1_def [symmetric] Let_def)
      with 1(1) [OF q1_def False r0 refl True] len show ?thesis by simp
    next
      case no: False
      with 1(2) False r0 have "r = sql_skip_ws_comment r0"
        by (simp only: cte_columns.simps [of q] q1_def [symmetric] Let_def) auto
      with len show ?thesis by simp
    qed
  qed
qed

lemma cte_alias_shorter: "cte_alias p = Inr q \<Longrightarrow> length q \<le> length p"
proof -
  assume a: "cte_alias p = Inr q"
  show ?thesis
  proof (cases "p \<noteq> [] \<and> hd p = CHR ''(''")
    case True
    with a obtain r where r: "cte_columns (tl p) = Some r" "q = sql_skip_ws_comment (tl r)"
      by (auto simp: cte_alias_def split: option.splits if_splits)
    then show ?thesis using cte_columns_shorter [OF r(1)] length_skip_ws [of "tl r"] by simp
  next
    case False
    with a show ?thesis by (auto simp: cte_alias_def)
  qed
qed

text \<open>What an accepted element consists of.\<close>

definition cte_parts :: "string \<Rightarrow> string \<Rightarrow> string \<Rightarrow> bool" where
  "cte_parts p q close \<longleftrightarrow>
     (\<exists>name a. sql_scan_ident (sql_skip_ws_comment p) = Some name \<and> cte_alias (sql_skip_ws_comment name) = Inr a \<and>
        kw_at a ''as'' \<and> q = sql_skip_ws_comment (drop 2 a) \<and> q \<noteq> [] \<and> hd q = CHR ''('' \<and> sql_match_paren q = Some close)"

lemma cte_item_parts:
  assumes "cte_item p = Inr r"
  obtains q close where "cte_parts p q close" "sql_cte_body_ok (tl q) close = None" "r = sql_skip_ws_comment (tl close)"
proof -
  from assms obtain name a where n: "sql_scan_ident (sql_skip_ws_comment p) = Some name"
      "cte_alias (sql_skip_ws_comment name) = Inr a"
    by (auto simp: cte_item_def split: option.splits sum.splits)
  define q where "q = sql_skip_ws_comment (drop 2 a)"
  have k: "kw_at a ''as''" "q \<noteq> []" "hd q = CHR ''(''"
    using assms by (simp_all add: cte_item_def n q_def Let_def split: if_splits)
  have "case sql_match_paren q of None \<Rightarrow> False
      | Some close \<Rightarrow> sql_cte_body_ok (tl q) close = None \<and> r = sql_skip_ws_comment (tl close)"
    using assms k by (simp add: cte_item_def n q_def [symmetric] Let_def split: option.splits)
  then obtain close where "sql_match_paren q = Some close" "sql_cte_body_ok (tl q) close = None"
      "r = sql_skip_ws_comment (tl close)"
    by (auto split: option.splits)
  with n k show ?thesis by (intro that [of q close]) (auto simp: cte_parts_def q_def)
qed

lemma cte_parts_shorter: "cte_parts p q close \<Longrightarrow> length q < length p \<and> length close \<le> length q \<and> close \<noteq> []"
proof -
  assume "cte_parts p q close"
  then obtain name a where n: "sql_scan_ident (sql_skip_ws_comment p) = Some name" "cte_alias (sql_skip_ws_comment name) = Inr a"
      "q = sql_skip_ws_comment (drop 2 a)" "sql_match_paren q = Some close"
    by (auto simp: cte_parts_def)
  show ?thesis
    using scan_ident_shorter [OF n(1)] cte_alias_shorter [OF n(2)] length_skip_ws [of p] length_skip_ws [of name]
      length_skip_ws [of "drop 2 a"] match_loop_shorter [of 0 q close] n(3,4)
    by (auto simp: sql_match_paren_def)
qed

lemma cte_item_shorter: "cte_item p = Inr r \<Longrightarrow> length r < length p"
proof (erule cte_item_parts)
  fix q close
  assume "cte_parts p q close" "r = sql_skip_ws_comment (tl close)"
  then show ?thesis using cte_parts_shorter [of p q close] length_skip_ws [of "tl close"] by auto
qed

function cte_list :: "string \<Rightarrow> string + string" where
  "cte_list p =
     (case cte_item p of
        Inl e \<Rightarrow> Inl e
      | Inr r \<Rightarrow> if r \<noteq> [] \<and> hd r = CHR '','' then cte_list (tl r) else Inr r)"
  by pat_completeness auto
termination
proof (relation "measure length", simp, goal_cases)
  case (1 p r)
  then show ?case using cte_item_shorter [of p r] by auto
qed

declare cte_list.simps [simp del]

definition db_validate_write_cte :: "string \<Rightarrow> string option" where
  "db_validate_write_cte b =
     (let p0 = sql_skip_ws_comment (drop 4 b);
          p1 = (if kw_at p0 ''recursive'' then sql_skip_ws_comment (drop 9 p0) else p0)
      in case cte_list p1 of
           Inl e \<Rightarrow> Some e
         | Inr p \<Rightarrow>
             if p = [] then Some ''WITH needs a write statement after the CTE list''
             else if kw_at p ''alter'' \<or> kw_at p ''create'' then Some ''WITH can only prefix INSERT / UPDATE / DELETE''
             else db_validate_write_stmt p)"

definition db_validate_write :: "string \<Rightarrow> nat \<Rightarrow> string option \<times> string" where
  "db_validate_write sql n =
     (let t = dropWhile sql_blank sql
      in case single_statement t of
           Some e \<Rightarrow> (Some e, [])
         | None \<Rightarrow>
             let body = strip_comments t n; b = dropWhile sql_blank body
             in (if kw_at b ''with'' then db_validate_write_cte b else db_validate_write_stmt b, body))"

section \<open>Whole words\<close>

text \<open>The word \<open>w\<close> occurs in \<open>s\<close> with a word boundary on both sides.\<close>

definition word_in :: "bool \<Rightarrow> string \<Rightarrow> string \<Rightarrow> bool" where
  "word_in before s w \<longleftrightarrow> (\<exists>u v. s = u @ v \<and> kw_at v w \<and> \<not> left_word before u)"

definition plain_word :: "string \<Rightarrow> bool" where
  "plain_word w \<longleftrightarrow> w \<noteq> [] \<and> list_all word_char w"

lemma tolower_word: "word_char (tolower c) = word_char c"
proof (cases "65 \<le> code c \<and> code c \<le> 90")
  case True
  then have "code (tolower c) = code c + 32" by (simp add: tolower_def)
  with True show ?thesis by (auto simp: word_char_def isalnum_def isalpha_def isdigit_def)
next
  case False
  then have "tolower c = c" unfolding tolower_def by argo
  then show ?thesis by simp
qed

lemma ci_prefix_words:
  assumes "ci_prefix w s" "list_all word_char w"
  shows "list_all word_char (take (length w) s)"
  unfolding list_all_length
proof (intro allI impI)
  fix i
  assume "i < length (take (length w) s)"
  then have i: "i < length w" "i < length s" by simp_all
  with assms(1) have "tolower (s ! i) = tolower (w ! i)"
    by (metis ci_prefix_def length_take min.absorb2 nth_map nth_take)
  with assms(2) i show "word_char (take (length w) s ! i)"
    using tolower_word [of "s ! i"] tolower_word [of "w ! i"] by (simp add: list_all_length)
qed

lemma ci_strstr_first:
  "ci_strstr s w = Some p \<Longrightarrow> w \<noteq> [] \<Longrightarrow> \<exists>u. s = u @ p \<and> (\<forall>x y. u = x @ y \<and> y \<noteq> [] \<longrightarrow> \<not> ci_prefix w (y @ p))"
proof (induction s)
  case (Cons c s)
  show ?case
  proof (cases "ci_prefix w (c # s)")
    case True
    with Cons show ?thesis by (intro exI [of _ "[]"]) simp
  next
    case False
    with Cons obtain u where u: "s = u @ p" "\<forall>x y. u = x @ y \<and> y \<noteq> [] \<longrightarrow> \<not> ci_prefix w (y @ p)" by auto
    have "\<forall>x y. c # u = x @ y \<and> y \<noteq> [] \<longrightarrow> \<not> ci_prefix w (y @ p)"
      using u False by (auto simp: Cons_eq_append_conv)
    with u show ?thesis by (intro exI [of _ "c # u"]) simp
  qed
qed simp

lemma ci_strstr_none: "ci_strstr s w = None \<Longrightarrow> s = u @ v \<Longrightarrow> \<not> ci_prefix w v"
proof (induction s arbitrary: u)
  case Nil
  then show ?case by (auto simp: ci_prefix_def split: if_splits)
next
  case (Cons c s)
  then show ?case by (cases u) (auto split: if_splits)
qed

lemma left_word_append: "left_word (left_word before u) v = left_word before (u @ v)"
  by (simp add: left_word_def)

lemma word_in_behind:
  assumes s: "s = u @ h @ r" and h: "h \<noteq> []" "list_all word_char h"
    and no: "\<not> (\<not> left_word before u \<and> kw_at (h @ r) w)"
    and first: "\<forall>x y. u = x @ y \<and> y \<noteq> [] \<longrightarrow> \<not> ci_prefix w (y @ h @ r)"
  shows "word_in before s w \<longleftrightarrow> word_in (left_word before (u @ h)) r w"
proof
  assume "word_in (left_word before (u @ h)) r w"
  then obtain x v where "r = x @ v" "kw_at v w" "\<not> left_word before (u @ h @ x)"
    by (auto simp: word_in_def left_word_append)
  then show "word_in before s w" unfolding word_in_def using s by (intro exI [of _ "u @ h @ x"] exI [of _ v]) simp
next
  assume "word_in before s w"
  then obtain x v where x: "s = x @ v" "kw_at v w" "\<not> left_word before x" by (auto simp: word_in_def)
  have "\<not> (\<exists>y. u = x @ y \<and> y \<noteq> [])"
  proof
    assume "\<exists>y. u = x @ y \<and> y \<noteq> []"
    then obtain y where y: "u = x @ y" "y \<noteq> []" by blast
    then have "v = y @ h @ r" using x(1) s by simp
    with first y x(2) show False unfolding kw_at_def by blast
  qed
  moreover have "x \<noteq> u" using no x s by auto
  moreover have "\<not> (\<exists>h1 h2. h1 \<noteq> [] \<and> h2 \<noteq> [] \<and> h = h1 @ h2 \<and> x = u @ h1)"
    using x(3) h(2) by (auto simp: left_word_def list_all_iff)
  ultimately obtain z where z: "x = (u @ h) @ z" using x(1) s h(1) by (auto simp: append_eq_append_conv2)
  then show "word_in (left_word before (u @ h)) r w"
    unfolding word_in_def using x s by (intro exI [of _ z] exI [of _ v]) (simp add: left_word_append)
qed

lemma kw_search_iff: "plain_word w \<Longrightarrow> kw_search w before s \<longleftrightarrow> word_in before s w"
proof (induction w before s rule: kw_search.induct)
  case (1 w before s)
  show ?case
  proof (cases "ci_strstr s w")
    case None
    then have "\<not> word_in before s w" using ci_strstr_none [OF None] unfolding word_in_def kw_at_def by blast
    with None show ?thesis by (simp add: kw_search.simps [of w before s])
  next
    case (Some p)
    obtain u where u: "s = u @ p" "\<forall>x y. u = x @ y \<and> y \<noteq> [] \<longrightarrow> \<not> ci_prefix w (y @ p)"
      using ci_strstr_first [OF Some] 1(2) by (auto simp: plain_word_def)
    have pre: "ci_prefix w p" by (rule ci_strstr_found [OF Some])
    define h r where "h = take (length w) p" and "r = drop (length w) p"
    have h: "p = h @ r" "h \<noteq> []" "list_all word_char h"
      using ci_prefix_words [OF pre] 1(2) pre by (simp_all add: h_def r_def plain_word_def ci_prefix_def, auto)
    have tk: "take (length s - length p) s = u" using u by simp
    have w: "w \<noteq> []" using 1(2) by (simp add: plain_word_def)
    show ?thesis
    proof (cases "\<not> left_word before u \<and> sql_break r")
      case True
      then have "word_in before s w" unfolding word_in_def kw_at_def
        using u pre by (intro exI [of _ u] exI [of _ p]) (simp add: r_def)
      with True Some w show ?thesis by (simp add: kw_search.simps [of w before s] tk r_def [symmetric])
    next
      case False
      then have "kw_search w before s = kw_search w (left_word before (u @ h)) r"
        using Some w by (subst kw_search.simps) (simp only: option.case tk r_def [symmetric] h_def [symmetric] if_False)
      also have "\<dots> = word_in (left_word before (u @ h)) r w"
        using 1(1) [OF Some w] False 1(2) by (simp only: tk r_def [symmetric] h_def [symmetric]) blast
      also have "\<dots> = word_in before s w"
      proof (rule word_in_behind [symmetric])
        show "s = u @ h @ r" using u(1) by (simp only: h(1) [symmetric])
        have "kw_at p w \<longleftrightarrow> ci_prefix w p \<and> sql_break r" by (simp only: kw_at_def r_def)
        then show "\<not> (\<not> left_word before u \<and> kw_at (h @ r) w)" using False by (simp only: h(1) [symmetric]) blast
        show "\<forall>x y. u = x @ y \<and> y \<noteq> [] \<longrightarrow> \<not> ci_prefix w (y @ h @ r)" using u(2) by (simp only: h(1) [symmetric])
      qed (rule h)+
      finally show ?thesis .
    qed
  qed
qed

section \<open>The tokens of a statement\<close>

text \<open>
  The lexical grammar the guard assumes: blanks and both kinds of comments separate, a literal runs to its
  closing quote with doubled quotes inside, a word is as long as possible, anything else is a symbol.
\<close>

datatype sql_tok = Word string | Literal string | Symbol char

definition quoted :: "char \<Rightarrow> string \<Rightarrow> string" where
  "quoted q x = concat (map (\<lambda>c. if c = q then [q, q] else [c]) x)"

inductive sql_lex :: "string \<Rightarrow> sql_tok list \<Rightarrow> bool" where
  lex_Nil: "sql_lex [] []"
| lex_blank: "sql_blank c \<Longrightarrow> sql_lex s ts \<Longrightarrow> sql_lex (c # s) ts"
| lex_line: "LF \<notin> set x \<Longrightarrow> sql_lex s ts \<Longrightarrow> sql_lex (''--'' @ x @ LF # s) ts"
| lex_block: "strstr (x @ ''*/'') ''*/'' = Some ''*/'' \<Longrightarrow> sql_lex s ts \<Longrightarrow> sql_lex (''/*'' @ x @ ''*/'' @ s) ts"
| lex_literal: "sql_quote q \<Longrightarrow> s = [] \<or> hd s \<noteq> q \<Longrightarrow> sql_lex s ts \<Longrightarrow> sql_lex (q # quoted q x @ q # s) (Literal x # ts)"
| lex_word: "plain_word w \<Longrightarrow> sql_break s \<Longrightarrow> sql_lex s ts \<Longrightarrow> sql_lex (w @ s) (Word w # ts)"
| lex_symbol: "\<not> sql_blank c \<Longrightarrow> \<not> word_char c \<Longrightarrow> \<not> sql_quote c \<Longrightarrow> take 2 (c # s) \<noteq> ''--'' \<Longrightarrow> take 2 (c # s) \<noteq> ''/*'' \<Longrightarrow>
    sql_lex s ts \<Longrightarrow> sql_lex (c # s) (Symbol c # ts)"

lemma char_kinds:
  "word_char c \<Longrightarrow> \<not> sql_blank c" "word_char c \<Longrightarrow> \<not> sql_quote c" "sql_blank c \<Longrightarrow> \<not> sql_quote c"
  "word_char c \<Longrightarrow> c \<noteq> CHR ''-''" "word_char c \<Longrightarrow> c \<noteq> CHR ''/''" "sql_quote c \<Longrightarrow> c \<noteq> CHR ''-''"
  "sql_quote c \<Longrightarrow> c \<noteq> CHR ''/''" "sql_blank c \<Longrightarrow> c \<noteq> CHR ''-''" "sql_blank c \<Longrightarrow> c \<noteq> CHR ''/''"
  by (auto simp: word_char_def sql_blank_def sql_quote_def isalnum_def isalpha_def isdigit_def)

lemma skip_quoted_literal: "s = [] \<or> hd s \<noteq> q \<Longrightarrow> skip_quoted q (quoted q x @ q # s) = s"
proof (induction x)
  case Nil
  then show ?case by (cases s) (auto simp: quoted_def)
next
  case (Cons c x)
  then show ?case by (cases "quoted q x @ q # s") (auto simp: quoted_def)
qed

text \<open>Conversely, a skipped literal is closed unless the text ends.\<close>

lemma skip_quoted_split:
  "skip_quoted q s = r \<Longrightarrow> r \<noteq> [] \<Longrightarrow> \<exists>x. s = quoted q x @ q # r \<and> hd r \<noteq> q"
proof (induction q s rule: skip_quoted.induct)
  case (3 q c d s)
  show ?case
  proof (cases "c = q")
    case True
    show ?thesis
    proof (cases "d = q")
      case dq: True
      with True 3 obtain x where "s = quoted q x @ q # r" "hd r \<noteq> q" by auto
      with True dq show ?thesis by (intro exI [of _ "q # x"]) (simp add: quoted_def)
    next
      case False
      with True 3 show ?thesis by (intro exI [of _ "[]"]) (auto simp: quoted_def)
    qed
  next
    case False
    with 3 obtain x where "d # s = quoted q x @ q # r" "hd r \<noteq> q" by auto
    with False show ?thesis by (intro exI [of _ "c # x"]) (simp add: quoted_def)
  qed
qed simp_all

lemma strchr_line: "LF \<notin> set x \<Longrightarrow> strchr (x @ LF # s) LF = Some (LF # s)"
  by (induction x) (auto simp: strchr_def)

lemma strstr_star: "strstr (c # s) ''*/'' = (if take 2 (c # s) = ''*/'' then Some (c # s) else strstr s ''*/'')"
  by (simp add: numeral_2_eq_2)

lemma strstr_block: "strstr (x @ ''*/'') ''*/'' = Some ''*/'' \<Longrightarrow> strstr (x @ ''*/'' @ s) ''*/'' = Some (''*/'' @ s)"
proof (induction x)
  case (Cons c x)
  have t: "take 2 (c # x @ ''*/'' @ s) = take 2 (c # x @ ''*/'')" by (cases x) auto
  show ?case
  proof (cases "take 2 (c # x @ ''*/'') = ''*/''")
    case True
    with Cons(2) have "c # x @ ''*/'' = ''*/''" by (simp only: append_Cons strstr_star if_True option.inject simp_thms)
    then show ?thesis by simp
  next
    case False
    with Cons(2) have "strstr (x @ ''*/'') ''*/'' = Some ''*/''" by (simp only: append_Cons strstr_star if_False)
    with Cons(1) False t show ?thesis by (simp only: append_Cons strstr_star if_False)
  qed
qed simp

lemma strstr_split:
  "strstr s ''*/'' = Some e \<Longrightarrow> \<exists>x r. s = x @ ''*/'' @ r \<and> e = ''*/'' @ r \<and> strstr (x @ ''*/'') ''*/'' = Some ''*/''"
proof (induction s)
  case (Cons c s)
  show ?case
  proof (cases "take 2 (c # s) = ''*/''")
    case True
    then obtain r where "c # s = ''*/'' @ r" by (metis append_take_drop_id)
    with Cons(2) show ?thesis by (intro exI [of _ "[]"] exI [of _ r]) simp
  next
    case False
    with Cons(2) have "strstr s ''*/'' = Some e" by (simp only: strstr_star if_False)
    with Cons(1) obtain x r where x: "s = x @ ''*/'' @ r" "e = ''*/'' @ r" "strstr (x @ ''*/'') ''*/'' = Some ''*/''" by blast
    have "take 2 (c # x @ ''*/'') = take 2 (c # s)" using x(1) by (cases x) auto
    with False have "strstr ((c # x) @ ''*/'') ''*/'' = strstr (x @ ''*/'') ''*/''" by (simp only: append_Cons strstr_star if_False)
    with x show ?thesis by (intro exI [of _ "c # x"] exI [of _ r]) simp
  qed
qed simp

lemma skip_ws_blank: "sql_blank c \<Longrightarrow> sql_skip_ws_comment (c # s) = sql_skip_ws_comment s"
  by (simp add: sql_skip_ws_comment.simps [of "c # s"] sql_skip_ws_comment.simps [of s])

lemma skip_ws_line: "LF \<notin> set x \<Longrightarrow> sql_skip_ws_comment (''--'' @ x @ LF # s) = sql_skip_ws_comment s"
  using strchr_line [of "''--'' @ x" s] by (subst sql_skip_ws_comment.simps) (simp add: sql_blank_def Let_def)

lemma skip_ws_block:
  "strstr (x @ ''*/'') ''*/'' = Some ''*/'' \<Longrightarrow> sql_skip_ws_comment (''/*'' @ x @ ''*/'' @ s) = sql_skip_ws_comment s"
  using strstr_block [of x s] by (subst sql_skip_ws_comment.simps) (simp add: sql_blank_def Let_def)

lemma skip_ws_stop:
  "\<not> sql_blank c \<Longrightarrow> take 2 (c # s) \<noteq> ''--'' \<Longrightarrow> take 2 (c # s) \<noteq> ''/*'' \<Longrightarrow> sql_skip_ws_comment (c # s) = c # s"
  by (subst sql_skip_ws_comment.simps) (simp only: dropWhile.simps if_False Let_def)

subsection \<open>A matched parenthesis encloses tokens\<close>

lemma sql_lex_word_hd:
  assumes "sql_lex (c # s) ts" "word_char c"
  obtains w s' ts' where "c # s = w @ s'" "plain_word w" "sql_break s'" "sql_lex s' ts'" "ts = Word w # ts'"
  using assms by (cases rule: sql_lex.cases) (auto dest: char_kinds simp: sql_quote_def)

lemma sql_lex_Cons_word:
  assumes "sql_lex s ts" "word_char c"
  shows "\<exists>ts'. sql_lex (c # s) ts'"
proof (cases s)
  case Nil
  then show ?thesis using assms lex_word [of "[c]" "[]" "[]"] lex_Nil by (auto simp: plain_word_def sql_break_def)
next
  case (Cons d s1)
  show ?thesis
  proof (cases "word_char d")
    case True
    with assms Cons obtain w s' ts' where w: "d # s1 = w @ s'" "plain_word w" "sql_break s'" "sql_lex s' ts'"
      by (auto elim: sql_lex_word_hd)
    then show ?thesis using Cons assms(2) lex_word [of "c # w" s' ts'] by (auto simp: plain_word_def)
  next
    case False
    then show ?thesis using Cons assms lex_word [of "[c]" s ts] by (auto simp: plain_word_def sql_break_def)
  qed
qed

lemma match_loop_lex:
  "match_loop d p = Some close \<Longrightarrow> \<exists>t ts. p = t @ close \<and> sql_lex t ts \<and> close \<noteq> [] \<and> hd close = CHR '')''"
proof (induction d p rule: match_loop.induct)
  case (2 d c p)
  consider (q) "sql_quote c" | (line) "\<not> sql_quote c" "take 2 (c # p) = ''--''"
    | (block) "\<not> sql_quote c" "take 2 (c # p) \<noteq> ''--''" "take 2 (c # p) = ''/*''"
    | (other) "\<not> sql_quote c" "take 2 (c # p) \<noteq> ''--''" "take 2 (c # p) \<noteq> ''/*''" by blast
  then show ?case
  proof cases
    case q
    with 2 have m: "match_loop d (skip_quoted c p) = Some close" by (simp add: sql_skip_string_def)
    with 2(1) q obtain t ts where t: "skip_quoted c p = t @ close" "sql_lex t ts" "close \<noteq> []" "hd close = CHR '')''"
      by (auto simp: sql_skip_string_def)
    then obtain x where x: "p = quoted c x @ c # t @ close" "hd (t @ close) \<noteq> c"
      using skip_quoted_split [OF t(1)] by auto
    then have "sql_lex (c # quoted c x @ c # t) (Literal x # ts)"
      using q t by (intro lex_literal) (cases t, auto)
    with x t show ?thesis by (intro exI [of _ "c # quoted c x @ c # t"] exI [of _ "Literal x # ts"]) simp
  next
    case line
    from 2(7) line obtain nl where nl: "strchr (c # p) LF = Some nl" "match_loop d (tl nl) = Some close"
      by (simp only: match_loop.simps if_False if_True split: option.splits) auto
    with 2(2) line obtain t ts where t: "tl nl = t @ close" "sql_lex t ts" "close \<noteq> []" "hd close = CHR '')''" by blast
    from strchr_Some [OF nl(1)] obtain x where x: "c # p = x @ LF # t @ close" "LF \<notin> set x" using t(1) by auto
    then have "take 2 x = ''--''" using line(2) by (cases x; cases "tl x") auto
    then obtain y where "x = ''--'' @ y" by (metis append_take_drop_id)
    with x t lex_line [of y t ts] show ?thesis by (intro exI [of _ "''--'' @ y @ LF # t"] exI [of _ ts]) auto
  next
    case block
    from 2(7) block obtain e where e: "strstr (drop 1 p) ''*/'' = Some e" "match_loop d (drop 2 e) = Some close"
      by (simp only: match_loop.simps if_False if_True split: option.splits) auto
    with 2(3) block obtain t ts where t: "drop 2 e = t @ close" "sql_lex t ts" "close \<noteq> []" "hd close = CHR '')''" by blast
    from strstr_split [OF e(1)] obtain x r where x: "drop 1 p = x @ ''*/'' @ r" "e = ''*/'' @ r"
        "strstr (x @ ''*/'') ''*/'' = Some ''*/''" by blast
    have "c # p = ''/*'' @ drop 1 p" using block(3) by (cases p) auto
    with x t lex_block [of x t ts] show ?thesis by (intro exI [of _ "''/*'' @ x @ ''*/'' @ t"] exI [of _ ts]) auto
  next
    case other
    have tail: "\<exists>t ts. c # p = t @ close \<and> sql_lex t ts \<and> close \<noteq> [] \<and> hd close = CHR '')''"
      if "\<exists>t ts. p = t @ close \<and> sql_lex t ts \<and> close \<noteq> [] \<and> hd close = CHR '')''"
    proof -
      from that obtain t ts where t: "p = t @ close" "sql_lex t ts" "close \<noteq> []" "hd close = CHR '')''" by blast
      have "\<exists>ts'. sql_lex (c # t) ts'"
      proof (cases "sql_blank c \<or> word_char c")
        case True
        then show ?thesis using t(2) lex_blank sql_lex_Cons_word by blast
      next
        case False
        have "take 2 (c # t) \<noteq> ''--''" "take 2 (c # t) \<noteq> ''/*''" using other(2,3) t(1) by (cases t; auto)+
        with False other(1) t(2) show ?thesis using lex_symbol [of c t ts] by blast
      qed
      with t show ?thesis by auto
    qed
    show ?thesis
    proof (cases "c = CHR '')'' \<and> d - 1 = 0")
      case True
      with 2(7) other have "close = c # p" by (simp only: match_loop.simps if_False if_True) auto
      with True lex_Nil show ?thesis by auto
    next
      case False
      with 2(7) other have "match_loop (if c = CHR ''('' then d + 1 else if c = CHR '')'' then d - 1 else d) p = Some close"
        by (simp only: match_loop.simps if_False) (auto split: if_splits)
      with 2(4-6) other False show ?thesis by (intro tail) (auto split: if_splits)
    qed
  qed
qed simp

subsection \<open>The scan of a WITH body sees its words\<close>

definition tok_in :: "string list \<Rightarrow> sql_tok \<Rightarrow> bool" where
  "tok_in ws t \<longleftrightarrow> (case t of Word w \<Rightarrow> list_ex (ci_eq w) ws | _ \<Rightarrow> False)"

lemma tok_in_simps [simp]:
  "tok_in ws (Word w) = list_ex (ci_eq w) ws" "\<not> tok_in ws (Literal x)" "\<not> tok_in ws (Symbol c)"
  by (simp_all add: tok_in_def)

lemma word_lists_plain:
  "list_all plain_word dml_words" "list_all plain_word cte_forbidden" "list_all plain_word dangerous_words"
  by code_simp+

lemma kw_at_word:
  assumes "plain_word w" "plain_word k" "sql_break s"
  shows "kw_at (w @ s) k \<longleftrightarrow> ci_eq w k"
proof
  assume k: "kw_at (w @ s) k"
  then have c: "ci_prefix k (w @ s)" "sql_break (drop (length k) (w @ s))" by (simp_all add: kw_at_def)
  have "length k \<le> length w"
  proof (rule ccontr)
    assume n: "\<not> length k \<le> length w"
    then obtain d s' where s: "s = d # s'" using c(1) by (cases s) (auto simp: ci_prefix_def)
    have "list_all word_char (take (length k) (w @ s))" using ci_prefix_words [OF c(1)] assms(2) by (simp add: plain_word_def)
    moreover have "d \<in> set (take (length k) (w @ s))" using n s by (cases "length k - length w") auto
    ultimately show False using assms(3) s by (auto simp: list_all_iff sql_break_def)
  qed
  moreover have "\<not> length k < length w"
  proof
    assume "length k < length w"
    then have "sql_break (drop (length k) w @ s)" "drop (length k) w \<noteq> []" using c(2) by simp_all
    then have "\<not> word_char (hd (drop (length k) w))" by (cases "drop (length k) w") (auto simp: sql_break_def)
    moreover have "hd (drop (length k) w) \<in> set w"
      using \<open>drop (length k) w \<noteq> []\<close> by (meson hd_in_set in_set_dropD)
    ultimately show False using assms(1) by (auto simp: plain_word_def list_all_iff)
  qed
  ultimately show "ci_eq w k" using c(1) by (simp add: ci_prefix_def ci_eq_def)
next
  assume e: "ci_eq w k"
  then have "length w = length k" by (metis ci_eq_def length_map)
  with e assms(3) show "kw_at (w @ s) k" by (simp add: kw_at_def ci_prefix_def ci_eq_def)
qed

lemma kw_list_word:
  assumes "plain_word w" "sql_break s" "list_all plain_word ks"
  shows "list_ex (kw_at (w @ s)) ks \<longleftrightarrow> list_ex (ci_eq w) ks"
  using kw_at_word [OF assms(1) _ assms(2)] assms(3) by (auto simp: list_ex_iff list_all_iff)

lemma cte_scan_unfold:
  "cte_scan stop p0 =
     (let p = sql_skip_ws_comment p0
      in if length p \<le> length stop then None
         else if sql_quote (hd p) then cte_scan stop (sql_skip_string p)
         else if \<not> word_char (hd p) then cte_scan stop (tl p)
         else if list_ex (kw_at p) dml_words then Some ''write keyword in read-only WITH subquery''
         else if list_ex (kw_at p) cte_forbidden then Some sql_dangerous
         else case sql_scan_ident p of None \<Rightarrow> Some ''bad token in WITH subquery'' | Some q \<Rightarrow> cte_scan stop q)"
proof (cases "length p0 \<le> length stop")
  case True
  then have "length (sql_skip_ws_comment p0) \<le> length stop" using length_skip_ws [of p0] by simp
  with True show ?thesis by (simp add: cte_scan.simps [of stop p0] Let_def)
next
  case False
  then show ?thesis by (subst cte_scan.simps) (simp only: if_False)
qed

lemma cte_scan_cong: "sql_skip_ws_comment p = sql_skip_ws_comment p' \<Longrightarrow> cte_scan stop p = cte_scan stop p'"
  by (subst (1 2) cte_scan_unfold) (simp only:)

lemma scan_ident_word: "plain_word w \<Longrightarrow> sql_break s \<Longrightarrow> sql_scan_ident (w @ s) = Some s"
proof -
  assume w: "plain_word w" and s: "sql_break s"
  then obtain c w' where c: "w = c # w'" "word_char c" by (cases w) (auto simp: plain_word_def)
  have "dropWhile word_char (w @ s) = dropWhile word_char s" using w by (auto simp: plain_word_def list_all_iff)
  also have "\<dots> = s" using s by (cases s) (auto simp: sql_break_def)
  finally show ?thesis using c char_kinds(2) [OF c(2)] by (simp add: sql_scan_ident_def sql_quote_def)
qed

lemma take2_append: "take 2 (c # s) \<noteq> [a, b] \<Longrightarrow> b \<noteq> hd stop \<Longrightarrow> stop \<noteq> [] \<Longrightarrow> take 2 (c # s @ stop) \<noteq> [a, b]"
  by (cases s; cases stop) auto

lemma skip_ws_word: "word_char c \<Longrightarrow> sql_skip_ws_comment (c # s) = c # s"
  using char_kinds(1,4,5) [of c] by (intro skip_ws_stop) auto

lemma skip_ws_quote: "sql_quote c \<Longrightarrow> sql_skip_ws_comment (c # s) = c # s"
  using char_kinds(3,6,7) [of c] by (intro skip_ws_stop) auto

lemma cte_scan_lex:
  "sql_lex t ts \<Longrightarrow> stop = CHR '')'' # r \<Longrightarrow>
   cte_scan stop (t @ stop) = None \<longleftrightarrow> \<not> list_ex (tok_in (dml_words @ cte_forbidden)) ts"
proof (induction rule: sql_lex.induct)
  case lex_Nil
  then show ?case by (subst cte_scan.simps) simp
next
  case (lex_blank c s ts)
  then show ?case using cte_scan_cong [OF skip_ws_blank [of c "s @ stop"]] by simp
next
  case (lex_line x s ts)
  then show ?case using cte_scan_cong [OF skip_ws_line [of x "s @ stop"]] by simp
next
  case (lex_block x s ts)
  then show ?case using cte_scan_cong [OF skip_ws_block [of x "s @ stop"]] by simp
next
  case (lex_literal q s ts x)
  have "skip_quoted q (quoted q x @ q # s @ stop) = s @ stop"
    using lex_literal(1,2) \<open>stop = _\<close> by (intro skip_quoted_literal) (cases s, auto simp: sql_quote_def)
  then have "cte_scan stop (q # quoted q x @ q # s @ stop) = cte_scan stop (s @ stop)"
    using lex_literal(1) by (subst cte_scan_unfold) (simp add: skip_ws_quote Let_def sql_skip_string_def)
  with lex_literal show ?case by simp
next
  case (lex_word w s ts)
  then obtain c w' where c: "w = c # w'" "word_char c" by (cases w) (auto simp: plain_word_def)
  have b: "sql_break (s @ stop)" using lex_word(2,5) by (cases s) (auto simp: sql_break_def word_char_def isalnum_def isalpha_def isdigit_def)
  define p where "p = w @ s @ stop"
  have p: "sql_skip_ws_comment p = p" "\<not> length p \<le> length stop" "\<not> sql_quote (hd p)" "word_char (hd p)"
    using c char_kinds(2) [OF c(2)] by (simp_all add: p_def skip_ws_word)
  have k: "list_ex (kw_at p) dml_words = list_ex (ci_eq w) dml_words" "list_ex (kw_at p) cte_forbidden = list_ex (ci_eq w) cte_forbidden"
    "sql_scan_ident p = Some (s @ stop)"
    using kw_list_word [OF lex_word(1) b] word_lists_plain scan_ident_word [OF lex_word(1) b] by (simp_all add: p_def)
  have "cte_scan stop p = None \<longleftrightarrow> \<not> list_ex (ci_eq w) (dml_words @ cte_forbidden) \<and> cte_scan stop (s @ stop) = None"
    by (subst cte_scan_unfold) (simp add: p k Let_def)
  with lex_word show ?case by (simp add: p_def)
next
  case (lex_symbol c s ts)
  have "sql_skip_ws_comment (c # s @ stop) = c # s @ stop"
    using lex_symbol(1,4,5) take2_append [of c s] \<open>stop = _\<close> by (intro skip_ws_stop) auto
  then have "cte_scan stop (c # s @ stop) = cte_scan stop (s @ stop)"
    using lex_symbol(2,3) by (subst cte_scan_unfold) (simp add: Let_def)
  with lex_symbol show ?case by simp
qed

text \<open>What the guard calls a read-only query.\<close>

definition read_only_query :: "sql_tok list \<Rightarrow> bool" where
  "read_only_query ts \<longleftrightarrow>
     ts \<noteq> [] \<and> tok_in [''select'', ''values'', ''with''] (hd ts) \<and> \<not> list_ex (tok_in (dml_words @ cte_forbidden)) ts"

lemma kw_at_nonword: "plain_word k \<Longrightarrow> \<not> word_char c \<Longrightarrow> \<not> kw_at (c # y) k"
proof
  assume k: "plain_word k" and c: "\<not> word_char c" and "kw_at (c # y) k"
  then have "list_all word_char (take (length k) (c # y))"
    using ci_prefix_words [of k "c # y"] by (simp add: kw_at_def plain_word_def)
  with k c show False by (cases k) (auto simp: plain_word_def)
qed

lemma cte_head_lex:
  "sql_lex t ts \<Longrightarrow> stop = CHR '')'' # r \<Longrightarrow>
   (\<not> length (sql_skip_ws_comment (t @ stop)) \<le> length stop \<and> list_ex (kw_at (sql_skip_ws_comment (t @ stop))) ks) \<longleftrightarrow>
   ts \<noteq> [] \<and> tok_in ks (hd ts)" if ks: "list_all plain_word ks"
proof (induction rule: sql_lex.induct)
  case lex_Nil
  then show ?case using skip_ws_stop [of "CHR '')''" r] by (simp add: sql_blank_def)
next
  case (lex_literal q s ts x)
  have "\<not> kw_at (q # y) k" if "plain_word k" for k y
    using kw_at_nonword char_kinds(2) [of q] lex_literal(1) that by blast
  with ks lex_literal show ?case by (simp add: skip_ws_quote list_ex_iff list_all_iff)
next
  case (lex_word w s ts)
  then obtain c w' where c: "w = c # w'" "word_char c" by (cases w) (auto simp: plain_word_def)
  have b: "sql_break (s @ stop)" using lex_word(2,5) by (cases s) (auto simp: sql_break_def word_char_def isalnum_def isalpha_def isdigit_def)
  have "sql_skip_ws_comment (w @ s @ stop) = w @ s @ stop" using c by (simp add: skip_ws_word)
  with c show ?case using kw_list_word [OF lex_word(1) b ks] by simp
next
  case (lex_symbol c s ts)
  have sk: "sql_skip_ws_comment (c # s @ stop) = c # s @ stop"
    using lex_symbol(1,4,5) take2_append [of c s] \<open>stop = _\<close> by (intro skip_ws_stop) auto
  have "\<not> kw_at (c # y) k" if "plain_word k" for k y
    using kw_at_nonword lex_symbol(2) that by blast
  with ks lex_symbol sk show ?case by (simp add: list_ex_iff list_all_iff)
qed (simp_all add: skip_ws_blank skip_ws_line [simplified] skip_ws_block [simplified])

lemma cte_body_lex:
  assumes "sql_lex t ts" "stop = CHR '')'' # r"
  shows "sql_cte_body_ok (t @ stop) stop = None \<longleftrightarrow> read_only_query ts"
proof -
  have "list_all plain_word [''select'', ''values'', ''with'']" by code_simp
  from cte_head_lex [OF this assms] cte_scan_lex [OF assms]
  show ?thesis by (auto simp: sql_cte_body_ok_def read_only_query_def Let_def)
qed

section \<open>Accepted statements\<close>

text \<open>A WITH list whose bodies are read-only queries, and the statement behind it.\<close>

inductive read_only_ctes :: "string \<Rightarrow> string \<Rightarrow> bool" where
  last_cte: "cte_parts p (CHR ''('' # t @ CHR '')'' # r) (CHR '')'' # r) \<Longrightarrow> sql_lex t ts \<Longrightarrow> read_only_query ts \<Longrightarrow>
    sql_skip_ws_comment r = st \<Longrightarrow> st = [] \<or> hd st \<noteq> CHR '','' \<Longrightarrow> read_only_ctes p st"
| more_ctes: "cte_parts p (CHR ''('' # t @ CHR '')'' # r) (CHR '')'' # r) \<Longrightarrow> sql_lex t ts \<Longrightarrow> read_only_query ts \<Longrightarrow>
    sql_skip_ws_comment r = CHR '','' # p' \<Longrightarrow> read_only_ctes p' st \<Longrightarrow> read_only_ctes p st"

lemma match_paren_lex:
  assumes "sql_match_paren q = Some close" "q \<noteq> []" "hd q = CHR ''(''"
  obtains t ts r where "q = CHR ''('' # t @ CHR '')'' # r" "close = CHR '')'' # r" "sql_lex t ts"
proof -
  obtain q' where q: "q = CHR ''('' # q'" using assms(2,3) by (cases q) auto
  have "match_loop 1 q' = Some close"
    using assms(1) q by (simp add: sql_match_paren_def sql_quote_def)
  from match_loop_lex [OF this] obtain t ts where t: "q' = t @ close" "sql_lex t ts" "close \<noteq> []" "hd close = CHR '')''" by blast
  then obtain r where "close = CHR '')'' # r" by (cases close) auto
  with t q that show ?thesis by blast
qed

lemma cte_list_read_only: "cte_list p = Inr st \<Longrightarrow> read_only_ctes p st"
proof (induction p rule: cte_list.induct)
  case (1 p)
  from 1(2) obtain r0 where r0: "cte_item p = Inr r0" by (auto simp: cte_list.simps [of p] split: sum.splits)
  from cte_item_parts [OF r0] obtain q close where c: "cte_parts p q close" "sql_cte_body_ok (tl q) close = None"
      "r0 = sql_skip_ws_comment (tl close)" by blast
  from c(1) have "sql_match_paren q = Some close" "q \<noteq> []" "hd q = CHR ''(''" by (auto simp: cte_parts_def)
  then obtain t ts r where q: "q = CHR ''('' # t @ CHR '')'' # r" "close = CHR '')'' # r" "sql_lex t ts"
    by (rule match_paren_lex)
  have ro: "read_only_query ts" using c(2) cte_body_lex [OF q(3) refl, of r] q(1,2) by simp
  show ?case
  proof (cases "r0 \<noteq> [] \<and> hd r0 = CHR '',''")
    case True
    then have "read_only_ctes (tl r0) st" using 1 r0 by (simp add: cte_list.simps [of p])
    moreover have "sql_skip_ws_comment r = CHR '','' # tl r0" using True c(3) q(2) by (metis list.collapse list.sel(3))
    ultimately show ?thesis using c(1) q ro by (intro more_ctes [of p t r ts "tl r0"]) auto
  next
    case False
    then have "st = r0" using 1(2) r0 by (auto simp: cte_list.simps [of p])
    with False c q ro show ?thesis by (intro last_cte [of p t r ts]) auto
  qed
qed

text \<open>The shapes of a statement that may change the database.\<close>

definition alter_add_shape :: "string \<Rightarrow> bool" where
  "alter_add_shape b \<longleftrightarrow>
     (\<exists>p2 p4 typ. kw_at b ''alter'' \<and> kw_at (gap (drop 5 b)) ''table'' \<and> sql_scan_ident (gap (drop 5 (gap (drop 5 b)))) = Some p2 \<and>
        kw_at (gap p2) ''add'' \<and> sql_scan_ident p4 = Some typ \<and> gap typ \<noteq> [] \<and> list_all typedef_char (gap typ) \<and>
        (p4 = gap (drop 3 (gap p2)) \<or>
         kw_at (gap (drop 3 (gap p2))) ''column'' \<and> p4 = gap (drop 6 (gap (drop 3 (gap p2))))))"

definition create_table_shape :: "string \<Rightarrow> bool" where
  "create_table_shape b \<longleftrightarrow>
     (\<exists>k c k' c' rest. b = k @ [c] @ k' @ [c'] @ rest \<and> ci_eq k ''create'' \<and> sql_blank c \<and> ci_eq k' ''table'' \<and> sql_blank c')"

definition mentions :: "string \<Rightarrow> string \<Rightarrow> bool" where
  "mentions s w \<longleftrightarrow> (\<exists>u v. s = u @ v \<and> ci_prefix w v)"

definition allowed_dml :: "string \<Rightarrow> bool" where
  "allowed_dml b \<longleftrightarrow> \<not> mentions b ''portfolio'' \<and>
     (kw_at b ''insert'' \<or> (kw_at b ''update'' \<or> kw_at b ''delete'') \<and> word_in False b ''where'')"

definition allowed_ddl :: "string \<Rightarrow> bool" where
  "allowed_ddl b \<longleftrightarrow> \<not> mentions b ''portfolio'' \<and> (create_table_shape b \<or> alter_add_shape b)"

definition with_list :: "string \<Rightarrow> string" where
  "with_list b =
     (let p = sql_skip_ws_comment (drop 4 b) in if kw_at p ''recursive'' then sql_skip_ws_comment (drop 9 p) else p)"

lemma mentions_iff: "w \<noteq> [] \<Longrightarrow> mentions s w \<longleftrightarrow> ci_strstr s w \<noteq> None"
proof
  assume "w \<noteq> []" "ci_strstr s w \<noteq> None"
  then obtain p where "ci_strstr s w = Some p" by blast
  with ci_strstr_first [of s w p] ci_strstr_found [of s w p] \<open>w \<noteq> []\<close> show "mentions s w"
    unfolding mentions_def by blast
next
  assume "mentions s w"
  then obtain u v where "s = u @ v" "ci_prefix w v" unfolding mentions_def by blast
  with ci_strstr_none [of s w u v] show "ci_strstr s w \<noteq> None" by blast
qed

lemma alter_add_ok: "kw_at b ''alter'' \<Longrightarrow> sql_validate_alter_add b = None \<Longrightarrow> alter_add_shape b"
proof -
  assume a: "kw_at b ''alter''" and v: "sql_validate_alter_add b = None"
  define p1 where "p1 = gap (drop 5 b)"
  have t: "kw_at p1 ''table''" using v by (auto simp: sql_validate_alter_add_def p1_def [symmetric] Let_def split: if_splits)
  with v obtain p2 where p2: "sql_scan_ident (gap (drop 5 p1)) = Some p2" "kw_at (gap p2) ''add''"
    by (auto simp: sql_validate_alter_add_def p1_def [symmetric] Let_def split: option.splits if_splits)
  define p3 p4 where "p3 = gap (drop 3 (gap p2))" and "p4 = (if kw_at p3 ''column'' then gap (drop 6 p3) else p3)"
  have "case sql_scan_ident p4 of None \<Rightarrow> False | Some p5 \<Rightarrow> gap p5 \<noteq> [] \<and> list_all typedef_char (gap p5)"
    using v t p2 by (simp add: sql_validate_alter_add_def p1_def [symmetric] p3_def [symmetric] p4_def [symmetric] Let_def
        split: option.splits if_splits)
  then obtain p5 where "sql_scan_ident p4 = Some p5" "gap p5 \<noteq> []" "list_all typedef_char (gap p5)"
    by (auto split: option.splits)
  with a t p2 show ?thesis unfolding alter_add_shape_def p1_def p3_def [symmetric]
    by (intro exI [of _ p2] exI [of _ p4] exI [of _ p5]) (simp add: p1_def [symmetric] p3_def p4_def)
qed

lemma create_shape_kw: "create_table_shape b \<Longrightarrow> kw_at b ''create''"
proof -
  assume "create_table_shape b"
  then obtain k c r where b: "b = k @ c # r" "ci_eq k ''create''" "sql_blank c" by (auto simp: create_table_shape_def)
  from b(2) have "length (map tolower k) = length (map tolower ''create'')" by (simp only: ci_eq_def)
  then have "length k = 6" by simp
  with b char_kinds(1) [of c] show ?thesis by (auto simp: kw_at_def ci_prefix_def ci_eq_def sql_break_def)
qed

lemma ci_prefix_take: "ci_prefix k b \<Longrightarrow> ci_eq (take (length k) b) k"
  by (simp add: ci_prefix_def ci_eq_def)

lemma create_table_ok:
  assumes "ci_prefix ''create'' b" "6 < length b" "sql_blank (b ! 6)" "ci_prefix ''table'' (drop 7 b)" "12 < length b" "sql_blank (b ! 12)"
  shows "create_table_shape b"
proof -
  have e1: "b = take 6 b @ [b ! 6] @ drop 7 b" using id_take_nth_drop [of 6 b] assms(2) by simp
  have e2: "drop 7 b = take 5 (drop 7 b) @ [b ! 12] @ drop 13 b"
    using id_take_nth_drop [of 5 "drop 7 b"] assms(5) by simp
  have "take 6 b @ [b ! 6] @ take 5 (drop 7 b) @ [b ! 12] @ drop 13 b = b"
    by (simp only: e2 [symmetric] e1 [symmetric])
  moreover have "length ''create'' = 6" "length ''table'' = 5" by simp_all
  then have "ci_eq (take 6 b) ''create''" "ci_eq (take 5 (drop 7 b)) ''table''"
    using ci_prefix_take [OF assms(1)] ci_prefix_take [OF assms(4)] \<open>length ''create'' = 6\<close> \<open>length ''table'' = 5\<close> by (simp_all only:)
  ultimately show ?thesis unfolding create_table_shape_def using assms(3,6) by metis
qed

lemma write_stmt_ok: "db_validate_write_stmt b = None \<Longrightarrow> allowed_dml b \<or> allowed_ddl b"
proof -
  assume v: "db_validate_write_stmt b = None"
  then have p: "ci_strstr b ''portfolio'' = None" by (auto simp: db_validate_write_stmt_def split: if_splits)
  then have m: "\<not> mentions b ''portfolio''" by (simp add: mentions_iff)
  have w: "kw_anywhere b ''where'' = word_in False b ''where''"
    unfolding kw_anywhere_def by (rule kw_search_iff) code_simp
  consider "kw_at b ''alter''" "sql_validate_alter_add b = None"
    | "list_ex (kw_at b) dml_words" "kw_at b ''update'' \<or> kw_at b ''delete'' \<longrightarrow> kw_anywhere b ''where''"
    | "ci_prefix ''create'' b" "6 < length b" "sql_blank (b ! 6)" "ci_prefix ''table'' (drop 7 b)" "12 < length b" "sql_blank (b ! 12)"
    using v unfolding db_validate_write_stmt_def by (metis (no_types, lifting) option.distinct(1))
  then show ?thesis
  proof cases
    case 1
    then show ?thesis using m alter_add_ok by (simp add: allowed_ddl_def)
  next
    case 2
    then show ?thesis using m w by (auto simp: allowed_dml_def dml_words_def)
  next
    case 3
    then show ?thesis using m create_table_ok by (simp add: allowed_ddl_def)
  qed
qed

subsection \<open>Leading comments\<close>

lemma sql_lex_prepend: "sql_lex pre ps \<Longrightarrow> ps = [] \<Longrightarrow> sql_lex s ts \<Longrightarrow> sql_lex (pre @ s) ts"
proof (induction rule: sql_lex.induct)
  case (lex_line x s' ps)
  then show ?case using sql_lex.lex_line [of x "s' @ s" ts] by simp
next
  case (lex_block x s' ps)
  then show ?case using sql_lex.lex_block [of x "s' @ s" ts] by simp
qed (auto intro: sql_lex.intros)

lemma sql_lex_blanks: "sql_lex (takeWhile sql_blank s) []"
  by (induction s) (auto intro: sql_lex.intros)

lemma strip_loop_lex: "strip_loop k s = Some t \<Longrightarrow> \<exists>pre. s = pre @ t \<and> sql_lex pre []"
proof (induction k arbitrary: s)
  case 0
  then show ?case by (intro exI [of _ "[]"]) (simp add: lex_Nil)
next
  case (Suc k)
  define b u where "b = takeWhile sql_blank s" and "u = dropWhile sql_blank s"
  have s: "s = b @ u" and b: "sql_lex b []" by (simp_all add: b_def u_def sql_lex_blanks)
  have step: "\<exists>pre. s = pre @ t \<and> sql_lex pre []" if "u = c @ v" "sql_lex c []" "strip_loop k v = Some t" for c v
  proof -
    from Suc(1) [OF that(3)] obtain pre where "v = pre @ t" "sql_lex pre []" by blast
    with that s show ?thesis
      using sql_lex_prepend [OF b refl sql_lex_prepend [OF that(2) refl \<open>sql_lex pre []\<close>]] by (intro exI [of _ "b @ c @ pre"]) simp
  qed
  show ?case
  proof (cases "take 2 u = ''--''")
    case True
    with Suc(2) obtain nl where nl: "strchr u LF = Some nl" "strip_loop k (tl nl) = Some t"
      by (auto simp: u_def [symmetric] Let_def split: option.splits)
    from strchr_Some [OF nl(1)] obtain x v where x: "u = x @ LF # v" "nl = LF # v" "LF \<notin> set x" by blast
    with True have "take 2 x = ''--''" by (cases x; cases "tl x") auto
    then obtain y where "x = ''--'' @ y" by (metis append_take_drop_id)
    with x nl(2) show ?thesis using lex_line [OF _ lex_Nil, of y] by (intro step [of "''--'' @ y @ [LF]" v]) auto
  next
    case False
    show ?thesis
    proof (cases "take 2 u = ''/*''")
      case True
      with False Suc(2) obtain e where e: "strstr (drop 2 u) ''*/'' = Some e" "strip_loop k (drop 2 e) = Some t"
        by (auto simp: u_def [symmetric] Let_def split: option.splits)
      from strstr_split [OF e(1)] obtain x r where x: "drop 2 u = x @ ''*/'' @ r" "e = ''*/'' @ r" "strstr (x @ ''*/'') ''*/'' = Some ''*/''" by blast
      have "u = ''/*'' @ drop 2 u" using True by (metis append_take_drop_id)
      with x e(2) show ?thesis using lex_block [OF x(3) lex_Nil] by (intro step [of "''/*'' @ x @ ''*/''" r]) auto
    next
      case no: False
      with False Suc(2) have "u = t" by (simp add: u_def [symmetric] Let_def)
      with s b show ?thesis by blast
    qed
  qed
qed

text \<open>A body is the statement behind its leading comments, cut to the buffer.\<close>

lemma stripped_body:
  assumes "body = strip_comments (dropWhile sql_blank sql) n" "body \<noteq> []" "single_statement (dropWhile sql_blank sql) = None"
  shows "CHR '';'' \<notin> set (butlast body) \<and> (\<exists>pre st. sql = pre @ st \<and> sql_lex pre [] \<and> body = take (n - 1) st)"
proof -
  define t where "t = dropWhile sql_blank sql"
  obtain st where st: "strip_loop 64 t = Some st" "body = take (n - 1) st"
    using assms(1,2) by (auto simp: strip_comments_def t_def [symmetric] split: option.splits)
  from strip_loop_lex [OF st(1)] obtain pre where pre: "t = pre @ st" "sql_lex pre []" by blast
  have "CHR '';'' \<notin> set (butlast t)"
    using assms(3) by (cases t rule: rev_cases) (auto simp: single_statement_def t_def [symmetric] split: if_splits)
  moreover have "set (butlast body) \<subseteq> set (butlast t)"
  proof -
    have "st \<noteq> []" using assms(2) st(2) by auto
    then have "butlast t = pre @ butlast st" using pre(1) by (simp add: butlast_append)
    moreover have "set (butlast body) \<subseteq> set (butlast st)"
      unfolding st(2) butlast_conv_take take_take by (intro set_take_subset_set_take) auto
    ultimately show ?thesis by auto
  qed
  moreover have "sql = (takeWhile sql_blank sql @ pre) @ st" by (metis append.assoc pre(1) t_def takeWhile_dropWhile_id)
  moreover have "sql_lex (takeWhile sql_blank sql @ pre) []" using sql_lex_prepend [OF sql_lex_blanks refl pre(2)] .
  ultimately show ?thesis using st(2) by blast
qed

section \<open>Properties\<close>

lemma left_word_False: "\<not> left_word False u \<longleftrightarrow> u = [] \<or> \<not> word_char (last u)"
  by (simp add: left_word_def)

text \<open>
  The read tool runs one SELECT.  A statement the read guard accepts goes to SQLite without its leading
  blanks and comments (and cut to the buffer, if it is too long), it begins with the word SELECT, and no
  semicolon but a final one is left in it, so nothing can follow the query.
\<close>

theorem sql_read_guard:
  assumes "db_validate_read sql n = (None, body)"
  shows "(\<exists>pre st. sql = pre @ st \<and> sql_lex pre [] \<and> body = take (n - 1) st) \<and> CHR '';'' \<notin> set (butlast body) \<and>
    (\<exists>k c rest. dropWhile sql_blank body = k @ c # rest \<and> ci_eq k ''select'' \<and> sql_blank c)"
proof -
  define b where "b = dropWhile sql_blank body"
  have s: "single_statement (dropWhile sql_blank sql) = None" and body: "body = strip_comments (dropWhile sql_blank sql) n"
    and b: "ci_prefix ''select'' b" "6 < length b" "sql_blank (b ! 6)"
    using assms by (auto simp: db_validate_read_def Let_def b_def split: option.splits if_splits)
  have "b = take 6 b @ b ! 6 # drop 7 b" using id_take_nth_drop [OF b(2)] by simp
  moreover have "length ''select'' = 6" by simp
  then have "ci_eq (take 6 b) ''select''" using ci_prefix_take [OF b(1)] by (simp only:)
  ultimately have "\<exists>k c rest. b = k @ c # rest \<and> ci_eq k ''select'' \<and> sql_blank c" using b(3) by blast
  moreover have "body \<noteq> []" using b(2) by (auto simp: b_def)
  ultimately show ?thesis using stripped_body [OF body _ s] unfolding b_def by blast
qed

theorem sql_read_guard_witness:
  "\<exists>k c rest. dropWhile sql_blank ''select 1;'' = k @ c # rest \<and> ci_eq k ''select'' \<and> sql_blank c"
proof -
  have a: "db_validate_read ''/*x*/ select 1;'' 64 = (None, ''select 1;'')" by code_simp
  from sql_read_guard [OF a] show ?thesis by blast
qed

text \<open>
  (C20) The write tool changes the database only in the allowed ways.  A statement the write guard accepts has
  no semicolon but a final one, and it either is an INSERT, an UPDATE or DELETE in which WHERE occurs as a
  word, a CREATE TABLE or an ALTER TABLE ADD whose column type holds no quote, operator or semicolon; or it is
  such an INSERT, UPDATE or DELETE behind a WITH list in which every parenthesised body begins with SELECT,
  VALUES or WITH and has no writing, schema-changing or transaction word among its tokens, however literals
  and comments are nested in it.  The statement that writes (the whole statement, or the one behind the WITH list) does not
  mention the portfolio table; the read-only bodies of the WITH list may (\<open>portfolio_read_in_write\<close>), and the word WHERE may
  stand in a literal or a comment (\<open>where_in_literal_accepted\<close>).
\<close>

theorem sql_write_guard:
  assumes "db_validate_write sql n = (None, body)"
  defines "b \<equiv> dropWhile sql_blank body"
  shows "CHR '';'' \<notin> set (butlast body) \<and>
    (if kw_at b ''with'' then \<exists>st. read_only_ctes (with_list b) st \<and> allowed_dml st else allowed_dml b \<or> allowed_ddl b)"
proof -
  have s: "single_statement (dropWhile sql_blank sql) = None" and body: "body = strip_comments (dropWhile sql_blank sql) n"
    and v: "(if kw_at b ''with'' then db_validate_write_cte b else db_validate_write_stmt b) = None"
    using assms(1) by (auto simp: db_validate_write_def Let_def b_def split: option.splits)
  have "CHR '';'' \<notin> set (butlast body)"
    using stripped_body [OF body _ s] by (cases "body = []") auto
  moreover have "\<exists>st. read_only_ctes (with_list b) st \<and> allowed_dml st" if "kw_at b ''with''"
  proof -
    from v that have "db_validate_write_cte b = None" by simp
    then obtain st where st: "cte_list (with_list b) = Inr st" "\<not> kw_at st ''alter''" "\<not> kw_at st ''create''"
        "db_validate_write_stmt st = None"
      by (auto simp: db_validate_write_cte_def with_list_def Let_def split: sum.splits if_splits)
    then have "\<not> allowed_ddl st" using create_shape_kw [of st] by (auto simp: allowed_ddl_def alter_add_shape_def)
    with st write_stmt_ok [of st] cte_list_read_only show ?thesis by blast
  qed
  moreover have "allowed_dml b \<or> allowed_ddl b" if "\<not> kw_at b ''with''" using v that write_stmt_ok by simp
  ultimately show ?thesis by auto
qed

theorem sql_write_guard_witness:
  "\<exists>st. read_only_ctes (with_list ''with a as (select 'drop') delete from t where 1'') st \<and> allowed_dml st"
proof -
  have a: "db_validate_write ''with a as (select 'drop') delete from t where 1'' 64 = (None, ''with a as (select 'drop') delete from t where 1'')"
    by code_simp
  have d: "dropWhile sql_blank ''with a as (select 'drop') delete from t where 1'' = ''with a as (select 'drop') delete from t where 1''"
    by code_simp
  have k: "kw_at ''with a as (select 'drop') delete from t where 1'' ''with''" by code_simp
  from sql_write_guard [OF a] show ?thesis by (simp only: d k if_True)
qed

text \<open>
  A hidden table is refused exactly when it is named.  The check on a query finds the hidden name iff it
  occurs somewhere with a word boundary on both sides, in any case of letters: the jump behind a hit inside a
  longer word misses no later occurrence.
\<close>

theorem hidden_table_exact:
  "sql_touches_hidden sql \<longleftrightarrow> (\<exists>u v. sql = u @ v \<and> kw_at v ''lost_and_found'' \<and> (u = [] \<or> \<not> word_char (last u)))"
proof -
  have "plain_word ''lost_and_found''" by code_simp
  from kw_search_iff [OF this, of False sql]
  have "sql_touches_hidden sql \<longleftrightarrow> word_in False sql ''lost_and_found''"
    by (simp only: sql_touches_hidden_def k_hidden_tables_def kw_anywhere_def list_ex_Cons_iff list_ex_Nil_iff simp_thms)
  then show ?thesis by (simp only: word_in_def left_word_False)
qed

text \<open>
  The rule on the portfolio table covers the statement that writes only: a WITH list may read the table, so a
  statement that mentions it is accepted.
\<close>

theorem portfolio_read_in_write:
  "fst (db_validate_write ''with a as (select * from portfolio) delete from t where 1'' 64) = None"
  by code_simp

text \<open>The WHERE rule is met by the word in a comment or a literal: such an UPDATE changes every row.\<close>

theorem where_in_literal_accepted:
  "fst (db_validate_write ''update t set a='where' '' 64) = None" "fst (db_validate_write ''delete from t --where'' 64) = None"
  by code_simp+

text \<open>A final semicolon followed by a blank counts as a second statement.\<close>

theorem semicolon_blank_refused: "fst (db_validate_read ''select 1; '' n) = Some ''multiple statements are not allowed''"
  by (simp add: db_validate_read_def single_statement_def sql_blank_def)

end
