(* ===== verification/Sql_Tools.thy ===== *)
theory Sql_Tools
  imports Sql_Guard
begin

text \<open>
  The SQLite tools of \<open>src/src/agent/sqlite_tool.c\<close>: \<open>sql_query\<close>, \<open>sql_write\<close>, \<open>sql_tables\<close>, \<open>sql_schema\<close>, the
  entry points for the scripting language and the schema text of the system prompt.  SQLite itself is a
  parameter; a tool's result is the text it appends to its result buffer.
\<close>

definition ROW_CAP :: nat where "ROW_CAP = 200"
definition SAMPLE_ROWS :: nat where "SAMPLE_ROWS = 3"
definition SAMPLE_VALUES :: nat where "SAMPLE_VALUES = 3"
definition SCHEMA_CHARS :: nat where "SCHEMA_CHARS = 8000"

section \<open>The engine\<close>

text \<open>
  A cell as the column functions see it; a float carries its \<open>%g\<close> text and the text SQLite gives for it.
\<close>

datatype sql_cell = CInt int | CFloat string string | CNull | CText string

definition column_text :: "sql_cell \<Rightarrow> string option" where
  "column_text c = (case c of CInt i \<Rightarrow> Some (int_dec i) | CFloat _ t \<Rightarrow> Some t | CNull \<Rightarrow> None | CText s \<Rightarrow> Some s)"

text \<open>
  \<open>sq_open rw\<close>: the database can be opened.  \<open>sq_query\<close>: preparing a statement gives an error message or the
  column names and the rows that stepping it returns.  \<open>sq_exec\<close>: preparing, binding and running a statement that
  may write gives the new database with an error message, or the number of changed rows.
\<close>

record 'db sqlite =
  sq_open :: "bool \<Rightarrow> string \<Rightarrow> 'db \<Rightarrow> bool"
  sq_query :: "string \<Rightarrow> string option list \<Rightarrow> 'db \<Rightarrow> string + (string option list \<times> sql_cell list list)"
  sq_exec :: "string \<Rightarrow> string option list \<Rightarrow> 'db \<Rightarrow> 'db \<times> (string + int)"

section \<open>Rows as JSON\<close>

definition json_cell :: "sql_cell \<Rightarrow> string" where
  "json_cell c =
     (case c of
        CInt i \<Rightarrow> int_dec i
      | CFloat g _ \<Rightarrow> take 63 g
      | CNull \<Rightarrow> ''null''
      | CText s \<Rightarrow> json_quote s)"

text \<open>A column name goes between quotes as it is, cut to the 160 bytes of its buffer.\<close>

definition json_key :: "string option \<Rightarrow> string" where
  "json_key name = take 159 (DQUOTE # (case name of None \<Rightarrow> ''col'' | Some n \<Rightarrow> n) @ [DQUOTE, CHR '':''])"

definition json_row :: "string option list \<Rightarrow> sql_cell list \<Rightarrow> string" where
  "json_row names row = CHR ''{'' # join (map2 (\<lambda>n c. json_key n @ json_cell c) names row) @ [CHR ''}'']"

definition dump_rows :: "string option list \<Rightarrow> sql_cell list list \<Rightarrow> string \<times> bool" where
  "dump_rows names rows =
     (CHR ''['' # join (map (json_row names) (take ROW_CAP rows)) @ [CHR '']''], length rows > ROW_CAP)"

section \<open>The tools\<close>

text \<open>The \<open>query\<close> argument; a value that is not a string, or a missing one, is empty.\<close>

definition query_arg :: "string \<Rightarrow> string" where
  "query_arg args =
     (case jfind_value args ''query'' of
        Some v \<Rightarrow> if v \<noteq> [] \<and> hd v = DQUOTE then (case jread_string SQL_MAX v of None \<Rightarrow> [] | Some (s, _) \<Rightarrow> cstr s) else []
      | None \<Rightarrow> [])"

definition emdash :: string where "emdash = [CHR 0xE2, CHR 0x80, CHR 0x94]"
definition ellipsis :: string where "ellipsis = [CHR 0xE2, CHR 0x80, CHR 0xA6]"

definition tool_sql_query :: "'db sqlite \<Rightarrow> string option \<Rightarrow> string \<Rightarrow> 'db \<Rightarrow> string" where
  "tool_sql_query eng path args db =
     (case path of
        None \<Rightarrow> ''sql_query: SQLITE_DB not set '' @ emdash @ '' no local database''
      | Some p \<Rightarrow>
          let query = query_arg args
          in if query = [] then ''sql_query: missing query''
             else case db_validate_read query SQL_MAX of
                    (Some e, _) \<Rightarrow> ''sql_query: '' @ e
                  | (None, body) \<Rightarrow>
                      if sql_touches_hidden body then ''sql_query: that table is not exposed to the agent''
                      else if \<not> sq_open eng False p db then ''sql_query: cannot open database read-only''
                      else case sq_query eng body [] db of
                             Inl e \<Rightarrow> ''sql_query: '' @ e
                           | Inr (names, rows) \<Rightarrow>
                               (case dump_rows names rows of
                                  (out, lost) \<Rightarrow> if lost then out @ '' '' @ ellipsis @ '' (rows truncated at 200)'' else out))"

definition tool_sql_write :: "'db sqlite \<Rightarrow> string option \<Rightarrow> string \<Rightarrow> 'db \<Rightarrow> string \<times> 'db" where
  "tool_sql_write eng path args db =
     (case path of
        None \<Rightarrow> (''sql_write: SQLITE_DB not set '' @ emdash @ '' no local database'', db)
      | Some p \<Rightarrow>
          let query = query_arg args
          in if query = [] then (''sql_write: missing query'', db)
             else case db_validate_write query SQL_MAX of
                    (Some e, _) \<Rightarrow> (''sql_write: '' @ e, db)
                  | (None, body) \<Rightarrow>
                      if \<not> sq_open eng True p db then (''sql_write: cannot open database for writing'', db)
                      else case sq_exec eng body [] db of
                             (db', Inl e) \<Rightarrow> (''sql_write: '' @ e, db')
                           | (db', Inr ch) \<Rightarrow>
                               (if ci_prefix ''create'' body \<or> ci_prefix ''alter'' body then ''ok: statement executed (0 rows; DDL)''
                                else ''ok: '' @ int_dec ch @ '' row(s) affected'', db'))"

text \<open>The same operations for scripts: a path of their own, bound parameters, results as values.\<close>

definition script_path :: "string option \<Rightarrow> string option \<Rightarrow> string option" where
  "script_path db path = (case db of Some (c # d) \<Rightarrow> Some (c # d) | _ \<Rightarrow> path)"

definition sqlite_query_json ::
  "'db sqlite \<Rightarrow> string option \<Rightarrow> string option \<Rightarrow> string option \<Rightarrow> string option list \<Rightarrow> nat \<Rightarrow> 'db \<Rightarrow> string + string" where
  "sqlite_query_json eng path dbname sql params errsz db =
     map_sum (take (errsz - 1)) id
       (case script_path dbname path of
          None \<Rightarrow> Inl ''no database (set SQLITE_DB or pass a path)''
        | Some p \<Rightarrow>
            if sql = None \<or> sql = Some [] then Inl ''empty SQL''
            else case db_validate_read (the sql) SQL_MAX of
                   (Some e, _) \<Rightarrow> Inl e
                 | (None, body) \<Rightarrow>
                     if \<not> sq_open eng False p db then Inl (''cannot open '' @ [CHR 0x27] @ p @ [CHR 0x27] @ '' read-only'')
                     else case sq_query eng body params db of
                            Inl e \<Rightarrow> Inl e
                          | Inr (names, rows) \<Rightarrow> Inr (fst (dump_rows names rows)))"

definition sqlite_write_exec ::
  "'db sqlite \<Rightarrow> string option \<Rightarrow> string option \<Rightarrow> string option \<Rightarrow> string option list \<Rightarrow> nat \<Rightarrow> 'db \<Rightarrow> (string + int) \<times> 'db" where
  "sqlite_write_exec eng path dbname sql params errsz db =
     (case script_path dbname path of
        None \<Rightarrow> (Inl (take (errsz - 1) ''no database (set SQLITE_DB or pass a path)''), db)
      | Some p \<Rightarrow>
          if sql = None \<or> sql = Some [] then (Inl (take (errsz - 1) ''empty SQL''), db)
          else case db_validate_write (the sql) SQL_MAX of
                 (Some e, _) \<Rightarrow> (Inl (take (errsz - 1) e), db)
               | (None, body) \<Rightarrow>
                   if \<not> sq_open eng True p db
                   then (Inl (take (errsz - 1) (''cannot open '' @ [CHR 0x27] @ p @ [CHR 0x27] @ '' for writing'')), db)
                   else case sq_exec eng body params db of
                          (db', Inl e) \<Rightarrow> (Inl (take (errsz - 1) e), db')
                        | (db', Inr ch) \<Rightarrow> (Inr (if ci_prefix ''create'' body then 0 else ch), db'))"

section \<open>The schema\<close>

definition tables_sql :: string where
  "tables_sql = ''SELECT name FROM sqlite_master WHERE type='table' AND name NOT LIKE 'sqlite_%' ORDER BY name''"

definition first_column :: "sql_cell list \<Rightarrow> string" where
  "first_column row = (case row of [] \<Rightarrow> [] | c # _ \<Rightarrow> (case column_text c of None \<Rightarrow> [] | Some t \<Rightarrow> t))"

definition visible_tables :: "sql_cell list list \<Rightarrow> string list" where
  "visible_tables rows = filter (\<lambda>t. \<not> table_hidden t) (map first_column rows)"

definition tool_sql_tables :: "'db sqlite \<Rightarrow> string option \<Rightarrow> 'db \<Rightarrow> string" where
  "tool_sql_tables eng path db =
     (case path of
        None \<Rightarrow> ''sql_tables: SQLITE_DB not set''
      | Some p \<Rightarrow>
          if \<not> sq_open eng False p db then ''sql_tables: cannot open database''
          else CHR ''['' # join (map json_quote (case sq_query eng tables_sql [] db of Inl _ \<Rightarrow> [] | Inr (_, rows) \<Rightarrow> visible_tables rows))
               @ [CHR '']''])"

text \<open>Text by code points, for the messages that are not ASCII.\<close>

definition uni :: "nat list \<Rightarrow> string" where
  "uni cps = concat (map utf8_bytes cps)"

record schema_out =
  so_text :: string
  so_chars :: nat
  so_truncated :: bool

definition push_line :: "string \<Rightarrow> schema_out \<Rightarrow> schema_out" where
  "push_line text out =
     (let line = take 4095 text
      in if so_chars out + length line + 1 > SCHEMA_CHARS then out\<lparr>so_truncated := True\<rparr>
         else out\<lparr>so_text := so_text out @ line @ [LF], so_chars := so_chars out + length line + 1\<rparr>)"

definition nth_text :: "sql_cell list \<Rightarrow> nat \<Rightarrow> string option" where
  "nth_text row i = (if i < length row then column_text (row ! i) else None)"

definition nth_int :: "sql_cell list \<Rightarrow> nat \<Rightarrow> int" where
  "nth_int row i = (if i < length row then (case row ! i of CInt k \<Rightarrow> k | _ \<Rightarrow> 0) else 0)"

text \<open>The columns of a table, while they fit the 2048 bytes of \<open>head\<close>.\<close>

fun head_columns :: "sql_cell list list \<Rightarrow> string \<Rightarrow> nat \<Rightarrow> string \<times> nat" where
  "head_columns [] head ncol = (head, ncol)"
| "head_columns (row # rows) head ncol =
     (let add = (if ncol = 0 then [] else '', '') @ (case nth_text row 1 of None \<Rightarrow> ''?'' | Some n \<Rightarrow> n) @
                (case nth_text row 2 of None \<Rightarrow> [] | Some t \<Rightarrow> t) @ (if nth_int row 5 \<noteq> 0 then '' PK'' else [])
      in if length add \<ge> 2048 - length head then (head, ncol) else head_columns rows (head @ add) (ncol + 1))"

definition table_head :: "sql_cell list list \<Rightarrow> string \<times> nat" where
  "table_head rows =
     (case head_columns rows ''('' 0 of
        (head, ncol) \<Rightarrow> (if length head + 1 < 2048 then head @ '')'' else head, ncol))"

text \<open>Sample values of one column: at most three, while they fit 1024 bytes; the one that does not is cut.\<close>

fun sample_values :: "string option list \<Rightarrow> string \<Rightarrow> nat \<Rightarrow> string \<times> nat" where
  "sample_values [] vals seen = (vals, seen)"
| "sample_values (v # vs) vals seen =
     (case v of
        None \<Rightarrow> sample_values vs vals seen
      | Some [] \<Rightarrow> sample_values vs vals seen
      | Some (c # t) \<Rightarrow>
          let add = (if seen = 0 then c # t else '' | '' @ c # t)
          in if length add \<ge> 1024 - length vals then (take 1023 (vals @ add), seen)
             else if seen + 1 \<ge> SAMPLE_VALUES then (vals @ add, seen + 1)
             else sample_values vs (vals @ add) (seen + 1))"

definition sample_line :: "sql_cell list list \<Rightarrow> string option \<Rightarrow> nat \<Rightarrow> schema_out \<Rightarrow> schema_out" where
  "sample_line rows name c out =
     (case sample_values (map (\<lambda>row. nth_text row c) (take SAMPLE_ROWS rows)) [] 0 of
        (vals, seen) \<Rightarrow>
          if seen = 0 then out
          else push_line (take 1399 (''  - '' @ (case name of None \<Rightarrow> ''?'' | Some n \<Rightarrow> n) @ '': '' @ uni [0x793A, 0x4F8B, 0x503C] @ '' '' @ vals)) out)"

definition sample_lines :: "'db sqlite \<Rightarrow> string \<Rightarrow> 'db \<Rightarrow> schema_out \<Rightarrow> schema_out" where
  "sample_lines eng qt db out =
     (case sq_query eng (take 511 (''SELECT * FROM '' @ qt @ '' LIMIT '' @ nat_dec SAMPLE_ROWS)) [] db of
        Inl _ \<Rightarrow> out
      | Inr (names, rows) \<Rightarrow>
          fold (\<lambda>(c, name). sample_line rows name c) (enumerate 0 (take 64 names)) out)"

definition count_text :: "'db sqlite \<Rightarrow> string \<Rightarrow> 'db \<Rightarrow> string" where
  "count_text eng qt db =
     (case sq_query eng (take 511 (''SELECT COUNT(*) FROM '' @ qt)) [] db of
        Inr (_, row # _) \<Rightarrow> take 63 ('' '' @ uni [0xB7] @ '' '' @ int_dec (nth_int row 0) @ '' '' @ uni [0x884C])
      | _ \<Rightarrow> [])"

definition introspect_table :: "'db sqlite \<Rightarrow> 'db \<Rightarrow> string \<Rightarrow> schema_out \<Rightarrow> schema_out" where
  "introspect_table eng db tname out =
     (let qt = take 255 ([DQUOTE] @ tname @ [DQUOTE]);
          cols = (case sq_query eng (take 511 (''PRAGMA table_info('' @ qt @ '')'')) [] db of Inl _ \<Rightarrow> [] | Inr (_, rows) \<Rightarrow> rows)
      in case table_head cols of
           (head, ncol) \<Rightarrow>
             let out1 = push_line (take 4095 (uni [0x8868] @ '' '' @ tname @ head @ count_text eng qt db)) out
             in if ncol > 0 \<and> so_chars out1 < SCHEMA_CHARS then sample_lines eng qt db out1 else out1)"

fun introspect_tables :: "'db sqlite \<Rightarrow> 'db \<Rightarrow> string list \<Rightarrow> schema_out \<Rightarrow> schema_out" where
  "introspect_tables eng db [] out = out"
| "introspect_tables eng db (t # ts) out =
     (if so_truncated out then out
      else if table_hidden t then introspect_tables eng db ts out
      else introspect_tables eng db ts (introspect_table eng db t out))"

definition cut_note :: string where
  "cut_note = ellipsis @ '' (schema '' @ uni [0x8FC7, 0x957F, 0x5DF2, 0x622A, 0x65AD] @ '')'' @ [LF]"

definition sqlite_introspect_text :: "'db sqlite \<Rightarrow> string \<Rightarrow> 'db \<Rightarrow> string" where
  "sqlite_introspect_text eng path db =
     (if \<not> sq_open eng False path db then ''(no SQLite database)''
      else case sq_query eng tables_sql [] db of
             Inl _ \<Rightarrow> ''(cannot introspect)''
           | Inr (_, rows) \<Rightarrow>
               let out = introspect_tables eng db (map first_column rows) \<lparr>so_text = [], so_chars = 0, so_truncated = False\<rparr>
               in if so_truncated out then so_text out @ cut_note else so_text out)"

definition tool_sql_schema :: "'db sqlite \<Rightarrow> string option \<Rightarrow> 'db \<Rightarrow> string" where
  "tool_sql_schema eng path db =
     (case path of None \<Rightarrow> ''sql_schema: SQLITE_DB not set'' | Some p \<Rightarrow> sqlite_introspect_text eng p db)"

section \<open>The schema text fits the prompt\<close>

definition schema_ok :: "schema_out \<Rightarrow> bool" where
  "schema_ok out \<longleftrightarrow> length (so_text out) = so_chars out \<and> so_chars out \<le> SCHEMA_CHARS"

lemma push_line_ok: "schema_ok out \<Longrightarrow> schema_ok (push_line s out)"
  by (auto simp: schema_ok_def push_line_def Let_def)

lemma sample_line_ok: "schema_ok out \<Longrightarrow> schema_ok (sample_line rows name c out)"
  by (simp add: sample_line_def push_line_ok split: prod.splits)

lemma sample_lines_ok: "schema_ok out \<Longrightarrow> schema_ok (sample_lines eng qt db out)"
proof -
  have "schema_ok out \<Longrightarrow> schema_ok (fold (\<lambda>(c, name). sample_line rows name c) cs out)" for rows cs
    by (induction cs arbitrary: out) (auto simp: sample_line_ok)
  then show "schema_ok out \<Longrightarrow> schema_ok (sample_lines eng qt db out)"
    by (simp add: sample_lines_def split: sum.splits)
qed

lemma introspect_table_ok: "schema_ok out \<Longrightarrow> schema_ok (introspect_table eng db t out)"
  by (simp add: introspect_table_def Let_def sample_lines_ok push_line_ok split: prod.splits)

lemma introspect_tables_ok: "schema_ok out \<Longrightarrow> schema_ok (introspect_tables eng db ts out)"
  by (induction ts arbitrary: out) (auto simp: introspect_table_ok)

lemma introspect_tables_cut: "so_truncated out \<Longrightarrow> introspect_tables eng db ts out = out"
  by (cases ts) auto

lemma introspect_hides: "introspect_tables eng db ts out = introspect_tables eng db (filter (\<lambda>t. \<not> table_hidden t) ts) out"
  by (induction ts arbitrary: out) (auto simp: introspect_tables_cut)

text \<open>The same engine, except that its list of tables leaves the hidden ones out.\<close>

definition without_hidden :: "'db sqlite \<Rightarrow> 'db sqlite" where
  "without_hidden eng = eng\<lparr>sq_query := (\<lambda>sql ps db.
     if sql = tables_sql then map_sum id (map_prod id (filter (\<lambda>row. \<not> table_hidden (first_column row)))) (sq_query eng sql ps db)
     else sq_query eng sql ps db)\<rparr>"

lemma not_tables_sql:
  "take 511 (''SELECT * FROM '' @ x) \<noteq> tables_sql" "take 511 (''SELECT COUNT(*) FROM '' @ x) \<noteq> tables_sql"
  "take 511 (''PRAGMA table_info('' @ x) \<noteq> tables_sql"
proof -
  have n: "s ! 7 \<noteq> tables_sql ! 7 \<Longrightarrow> s \<noteq> tables_sql" for s :: string by auto
  have "tables_sql ! 7 = CHR ''n''" by code_simp
  then show "take 511 (''SELECT * FROM '' @ x) \<noteq> tables_sql" "take 511 (''SELECT COUNT(*) FROM '' @ x) \<noteq> tables_sql"
    "take 511 (''PRAGMA table_info('' @ x) \<noteq> tables_sql" by (intro n; simp)+
qed

lemma without_hidden_other: "sql \<noteq> tables_sql \<Longrightarrow> sq_query (without_hidden eng) sql ps db = sq_query eng sql ps db"
  by (simp add: without_hidden_def)

lemma introspect_table_hidden: "introspect_table (without_hidden eng) db t out = introspect_table eng db t out"
  by (simp only: introspect_table_def sample_lines_def count_text_def not_tables_sql [THEN without_hidden_other])

lemma introspect_tables_hidden: "introspect_tables (without_hidden eng) db ts out = introspect_tables eng db ts out"
  by (induction ts arbitrary: out) (auto simp: introspect_table_hidden)

text \<open>
  The schema text stays within the budget of the prompt and does not depend on hidden tables.  Whatever the
  database holds, the text has at most 8000 bytes, plus the note when it was cut; and an engine that lists
  no hidden table but answers everything else alike gives the same text.
\<close>

theorem schema_text_bounded:
  "length (sqlite_introspect_text eng path db) \<le> SCHEMA_CHARS + length cut_note \<and>
   sqlite_introspect_text (without_hidden eng) path db = sqlite_introspect_text eng path db"
proof (intro conjI)
  define z :: schema_out where "z = \<lparr>so_text = [], so_chars = 0, so_truncated = False\<rparr>"
  have "length (so_text (introspect_tables eng db ts z)) \<le> SCHEMA_CHARS" for ts
    using introspect_tables_ok [of z eng db ts] by (simp add: schema_ok_def z_def)
  moreover have "length ''(no SQLite database)'' \<le> SCHEMA_CHARS" "length ''(cannot introspect)'' \<le> SCHEMA_CHARS"
    by (simp_all add: SCHEMA_CHARS_def)
  ultimately show "length (sqlite_introspect_text eng path db) \<le> SCHEMA_CHARS + length cut_note"
    unfolding sqlite_introspect_text_def z_def [symmetric] by (auto simp: Let_def trans_le_add1 split: sum.split)
  have "map first_column (filter (\<lambda>row. \<not> table_hidden (first_column row)) rows) = filter (\<lambda>t. \<not> table_hidden t) (map first_column rows)" for rows
    by (simp add: filter_map comp_def)
  then show "sqlite_introspect_text (without_hidden eng) path db = sqlite_introspect_text eng path db"
    unfolding sqlite_introspect_text_def introspect_tables_hidden z_def [symmetric]
    by (auto simp: without_hidden_def Let_def introspect_hides [of eng db "map first_column _" z, symmetric] split: sum.split)
qed

section \<open>Rows as JSON\<close>

definition plain_name :: "string option \<Rightarrow> bool" where
  "plain_name n \<longleftrightarrow> (case n of None \<Rightarrow> True | Some s \<Rightarrow> length s \<le> 156 \<and> list_all (\<lambda>c. 32 \<le> code c \<and> c \<noteq> DQUOTE \<and> c \<noteq> BSLASH) s)"

definition cell_json :: "sql_cell \<Rightarrow> json" where
  "cell_json c = (case c of CInt i \<Rightarrow> JAtom (int_dec i) | CFloat g _ \<Rightarrow> JAtom (take 63 g) | CNull \<Rightarrow> JAtom ''null'' | CText s \<Rightarrow> JStr s)"

definition row_json :: "string option list \<Rightarrow> sql_cell list \<Rightarrow> json" where
  "row_json names row = JObj (zip (map (\<lambda>n. case n of None \<Rightarrow> ''col'' | Some s \<Rightarrow> s) names) (map cell_json row))"

lemma plain_quote: "list_all (\<lambda>c. 32 \<le> code c \<and> c \<noteq> DQUOTE \<and> c \<noteq> BSLASH) s \<Longrightarrow> json_quote s = DQUOTE # s @ [DQUOTE]"
proof -
  have "32 \<le> code c \<Longrightarrow> c \<noteq> DQUOTE \<Longrightarrow> c \<noteq> BSLASH \<Longrightarrow> json_esc c = [c]" for c
    by (auto simp: json_esc_def)
  then have "list_all (\<lambda>c. 32 \<le> code c \<and> c \<noteq> DQUOTE \<and> c \<noteq> BSLASH) s \<Longrightarrow> concat (map json_esc s) = s"
    by (induction s) auto
  then show "list_all (\<lambda>c. 32 \<le> code c \<and> c \<noteq> DQUOTE \<and> c \<noteq> BSLASH) s \<Longrightarrow> json_quote s = DQUOTE # s @ [DQUOTE]"
    by (simp add: json_quote_def)
qed

lemma json_key_quote: "plain_name n \<Longrightarrow> json_key n = json_quote (case n of None \<Rightarrow> ''col'' | Some s \<Rightarrow> s) @ '':''"
  by (auto simp: json_key_def plain_name_def plain_quote split: option.splits)

lemma json_cell_print: "json_cell c = jprint (cell_json c)"
  by (simp add: json_cell_def cell_json_def split: sql_cell.split)

lemma json_row_print: "list_all plain_name names \<Longrightarrow> json_row names row = jprint (row_json names row)"
proof -
  assume n: "list_all plain_name names"
  have "map2 (\<lambda>n c. json_key n @ json_cell c) names row =
      map (\<lambda>kv. json_quote (fst kv) @ CHR '':'' # jprint (snd kv)) (zip (map (\<lambda>n. case n of None \<Rightarrow> ''col'' | Some s \<Rightarrow> s) names) (map cell_json row))"
    using n by (induction names row rule: list_induct2') (simp_all add: json_key_quote json_cell_print)
  then show ?thesis by (simp add: json_row_def row_json_def)
qed

text \<open>
  Query results are JSON.  When no column name needs escaping or is longer than its buffer, the text of a
  result is the printed JSON array of one object per row, at most 200 of them, and the flag says exactly
  when rows were left out.
\<close>

theorem dump_rows_prints_json:
  assumes "list_all plain_name names"
  shows "dump_rows names rows = (jprint (JArr (map (row_json names) (take 200 rows))), 200 < length rows)"
proof -
  have "json_row names = (\<lambda>row. jprint (row_json names row))" using json_row_print [OF assms] by blast
  then show ?thesis by (simp add: dump_rows_def ROW_CAP_def comp_def)
qed

theorem dump_rows_prints_json_witness:
  "dump_rows [Some ''n''] [[CInt 7], [CText ''x'']] = (jprint (JArr (map (row_json [Some ''n'']) (take 200 [[CInt 7], [CText ''x'']]))), 200 < length [[CInt 7], [CText ''x'']])"
  by (rule dump_rows_prints_json) code_simp

text \<open>A column name is not escaped: an alias with a quote adds a member to every row.\<close>

theorem column_name_injects_member:
  "json_row [Some (''a'' @ [DQUOTE] @ '':1,'' @ [DQUOTE] @ ''b'')] [CNull] =
   jprint (JObj [(''a'', JAtom ''1''), (''b'', JAtom ''null'')])"
  by code_simp

text \<open>The scripting entry point reads a hidden table the tool refuses.\<close>

theorem script_query_reads_hidden:
  "sql_touches_hidden ''select * from lost_and_found''"
  "sq_open eng False p db \<Longrightarrow> sq_query eng ''select * from lost_and_found'' ps db = Inr (names, rows) \<Longrightarrow>
   sqlite_query_json eng None (Some p) (Some ''select * from lost_and_found'') ps n db = Inr (fst (dump_rows names rows))" if "p \<noteq> []"
proof -
  show "sql_touches_hidden ''select * from lost_and_found''" by code_simp
  have strip: "strip_loop 64 ''select * from lost_and_found'' = Some ''select * from lost_and_found''" by code_simp
  have body: "db_validate_read ''select * from lost_and_found'' SQL_MAX = (None, ''select * from lost_and_found'')"
    by (simp add: db_validate_read_def single_statement_def strip_comments_def strip SQL_MAX_def sql_blank_def ci_prefix_def tolower_def)
  show "sqlite_query_json eng None (Some p) (Some ''select * from lost_and_found'') ps n db = Inr (fst (dump_rows names rows))"
    if "sq_open eng False p db" "sq_query eng ''select * from lost_and_found'' ps db = Inr (names, rows)"
    using that \<open>p \<noteq> []\<close> by (cases p) (simp_all add: sqlite_query_json_def script_path_def body)
qed

end
