(* ===== verification/Agent_Memory.thy ===== *)
theory Agent_Memory
  imports Minijson Util
begin

text \<open>
  \<open>src/src/agent/session.c\<close>: the memory of a conversation (transcript and facts), kept as one JSON file per
  session id.  The files are a map from paths; the loader works on the text of a file, a pointer into
  it being the suffix it points at.
\<close>

definition SESSION_ID_MAX :: nat where "SESSION_ID_MAX = 64"
definition SESSION_MSG_MAX :: nat where "SESSION_MSG_MAX = 10"
definition SESSION_FACTS_MAX :: nat where "SESSION_FACTS_MAX = 24"
definition SESSION_KEY_MAX :: nat where "SESSION_KEY_MAX = 64"
definition SESSION_VAL_MAX :: nat where "SESSION_VAL_MAX = 768"
definition SESSION_CONTENT_MAX :: nat where "SESSION_CONTENT_MAX = 2000"

text \<open>A message is its role and content, a fact its key and value; the lists are the used array slots.\<close>

record Session =
  ss_id :: string
  ss_msgs :: "(string \<times> string) list"
  ss_facts :: "(string \<times> string) list"

datatype stored = NoFile | NoAccess | Stored string

type_synonym memory_files = "string \<Rightarrow> stored"

section \<open>Names\<close>

definition session_path :: "string \<Rightarrow> string" where
  "session_path id' = take (MAX_PATH_SIZE - 1) (if id' = [] then ''.data/memory.json'' else ''.data/sessions/'' @ id' @ ''.json'')"

definition id_char :: "char \<Rightarrow> bool" where
  "id_char c \<longleftrightarrow> isalnum c \<or> c = CHR ''-'' \<or> c = CHR ''_'' \<or> c = CHR ''+''"

definition session_id_valid :: "string \<Rightarrow> bool" where
  "session_id_valid id' \<longleftrightarrow>
     id' \<noteq> [] \<and> length id' \<le> SESSION_ID_MAX \<and> list_all id_char id' \<and> \<not> (length id' = 1 \<and> hd id' = CHR ''.'')"

text \<open>The bytes each read of \<open>/dev/urandom\<close> returns; \<open>None\<close> when it cannot be opened.\<close>

fun gather :: "nat \<Rightarrow> string list \<Rightarrow> string \<Rightarrow> string option" where
  "gather n [] got = (if length got \<ge> n then Some (take n got) else None)"
| "gather n (r # rs) got =
     (if length got \<ge> n then Some (take n got) else if r = [] then None else gather n rs (got @ take (n - length got) r))"

definition session_id_new :: "string list option \<Rightarrow> nat \<Rightarrow> string option" where
  "session_id_new reads sz =
     (if sz < 33 then None
      else case reads of
             None \<Rightarrow> None
           | Some rs \<Rightarrow>
               map_option (\<lambda>b. concat (map (\<lambda>c. [hexdigit (code c div 16), hexdigit (code c mod 16)]) b)) (gather 16 rs []))"

section \<open>Loading\<close>

definition empty_session :: "string \<Rightarrow> Session" where
  "empty_session id' = \<lparr>ss_id = set_str (SESSION_ID_MAX + 1) id', ss_msgs = [], ss_facts = []\<rparr>"

text \<open>A key, its colon, and the text of the value.\<close>

definition member_start :: "nat \<Rightarrow> string \<Rightarrow> (string \<times> string) option" where
  "member_start n p =
     (case jread_string n p of
        None \<Rightarrow> None
      | Some (k, q) \<Rightarrow> (case jws q of [] \<Rightarrow> None | c # r \<Rightarrow> if c = CHR '':'' then Some (cstr k, jws r) else None))"

definition skip_comma :: "string \<Rightarrow> string" where
  "skip_comma p = (case jws p of c # r \<Rightarrow> if c = CHR '','' then r else c # r | [] \<Rightarrow> [])"

lemma member_start_shorter: "member_start n p = Some (k, v) \<Longrightarrow> length v < length p"
proof -
  assume "member_start n p = Some (k, v)"
  then obtain kb q c r where "jread_string n p = Some (kb, q)" "jws q = c # r" "v = jws r"
    by (auto simp: member_start_def split: option.splits list.splits if_splits)
  then show ?thesis using jread_string_shorter [of n p kb q] length_jws [of q] length_jws [of r] by simp
qed

lemma length_skip_comma: "length (skip_comma p) \<le> length p"
  using length_jws [of p] by (auto simp: skip_comma_def split: list.split)

text \<open>The members of one message, behind its opening brace: role, content and the rest of the text.\<close>

function msg_members :: "string \<Rightarrow> string \<Rightarrow> string \<Rightarrow> (string \<times> string \<times> string) option" where
  "msg_members p0 role content =
     (case jws p0 of
        [] \<Rightarrow> None
      | c # p \<Rightarrow>
          if c = CHR ''}'' then Some (role, content, p)
          else (case member_start 24 (c # p) of
                  None \<Rightarrow> None
                | Some (mk, v) \<Rightarrow>
                    if mk = ''role'' then
                      (case jread_string 16 v of None \<Rightarrow> None | Some (s, q) \<Rightarrow> msg_members (skip_comma q) (cstr s) content)
                    else if mk = ''content'' then
                      (case jread_string (SESSION_CONTENT_MAX + 1) v of None \<Rightarrow> None | Some (s, q) \<Rightarrow> msg_members (skip_comma q) role (cstr s))
                    else (case jskip_value v of None \<Rightarrow> None | Some q \<Rightarrow> msg_members (skip_comma q) role content)))"
  by pat_completeness auto
termination
proof (relation "measure (\<lambda>(p, r, c). length p)", simp, goal_cases)
  case (1 p0 role content c p mv mk v sq s q)
  then show ?case
    using length_jws [of p0] member_start_shorter [of 24 "c # p" mk v] jread_string_shorter [of 16 v s q] length_skip_comma [of q] by auto
next
  case (2 p0 role content c p mv mk v sq s q)
  then show ?case
    using length_jws [of p0] member_start_shorter [of 24 "c # p" mk v] jread_string_shorter [of "SESSION_CONTENT_MAX + 1" v s q]
      length_skip_comma [of q] by auto
next
  case (3 p0 role content c p mv mk v q)
  then show ?case
    using length_jws [of p0] member_start_shorter [of 24 "c # p" mk v] jskip_value_shorter [of v q] length_skip_comma [of q] by auto
qed

declare msg_members.simps [simp del]

text \<open>One turn of the loop: it ends, or goes on behind a member.\<close>

lemma msg_members_cases:
  assumes "msg_members p0 role content = Some (r, c, q)"
  obtains (stop) "jws p0 = CHR ''}'' # q" "r = role" "c = content"
  | (turn) d p mk v role' content' q' where "jws p0 = d # p" "member_start 24 (d # p) = Some (mk, v)" "length q' \<le> length v"
      "msg_members (skip_comma q') role' content' = Some (r, c, q)" "content' = content \<or> NUL \<notin> set content'"
proof -
  from assms obtain d p where p: "jws p0 = d # p" by (auto simp: msg_members.simps [of p0] split: list.splits)
  show ?thesis
  proof (cases "d = CHR ''}''")
    case True
    with assms p stop show ?thesis by (simp add: msg_members.simps [of p0])
  next
    case False
    with assms p obtain mk v where m: "member_start 24 (d # p) = Some (mk, v)"
      by (auto simp: msg_members.simps [of p0] split: option.splits)
    consider (role) s' q' where "mk = ''role''" "jread_string 16 v = Some (s', q')" "msg_members (skip_comma q') (cstr s') content = Some (r, c, q)"
      | (content) s' q' where "mk \<noteq> ''role''" "mk = ''content''" "jread_string (SESSION_CONTENT_MAX + 1) v = Some (s', q')"
          "msg_members (skip_comma q') role (cstr s') = Some (r, c, q)"
      | (other) q' where "mk \<noteq> ''role''" "mk \<noteq> ''content''" "jskip_value v = Some q'" "msg_members (skip_comma q') role content = Some (r, c, q)"
      using assms p m False by (auto simp: msg_members.simps [of p0] split: option.splits if_splits)
    then show ?thesis
    proof cases
      case role
      then show ?thesis using turn [OF p m _ role(3)] jread_string_shorter [OF role(2)] by simp
    next
      case content
      then show ?thesis using turn [OF p m _ content(4)] jread_string_shorter [OF content(3)] by simp
    next
      case other
      then show ?thesis using turn [OF p m _ other(4)] jskip_value_shorter [OF other(3)] by simp
    qed
  qed
qed

lemma msg_members_shorter: "msg_members p role content = Some (r, c, q) \<Longrightarrow> length q < length p"
proof (induction "length p" arbitrary: p role content rule: less_induct)
  case less
  from less.prems show ?case
  proof (cases rule: msg_members_cases)
    case stop
    then show ?thesis using length_jws [of p] by simp
  next
    case (turn d p1 mk v role' content' q')
    have "length (skip_comma q') < length p"
      using turn(1,3) member_start_shorter [OF turn(2)] length_jws [of p] length_skip_comma [of q'] by simp
    with less.hyps [OF this turn(4)] show ?thesis by simp
  qed
qed

text \<open>
  The elements of \<open>messages\<close>, behind the opening bracket: what was stored so far and the rest of the
  text, \<open>None\<close> for a malformed element.
\<close>

definition add_msg :: "string \<Rightarrow> string \<Rightarrow> Session \<Rightarrow> Session" where
  "add_msg role content s =
     (if length (ss_msgs s) < SESSION_MSG_MAX \<and> (role = ''user'' \<or> role = ''assistant'')
      then s\<lparr>ss_msgs := ss_msgs s @ [(set_str 16 role, set_str (SESSION_CONTENT_MAX + 1) (if content = [] then ''(no text)'' else content))]\<rparr>
      else s)"

function load_messages :: "string \<Rightarrow> Session \<Rightarrow> Session \<times> string option" where
  "load_messages p0 s =
     (case jws p0 of
        [] \<Rightarrow> (s, None)
      | c # p \<Rightarrow>
          if c = CHR '']'' then (s, Some p)
          else if c = CHR '','' then load_messages p s
          else if c \<noteq> CHR ''{'' then (s, None)
          else (case msg_members p [] [] of
                  None \<Rightarrow> (s, None)
                | Some (role, content, q) \<Rightarrow> load_messages (skip_comma q) (add_msg role content s)))"
  by pat_completeness auto
termination
proof (relation "measure (\<lambda>(p, s). length p)", simp, goal_cases)
  case (1 p0 s c p)
  then show ?case using length_jws [of p0] by auto
next
  case (2 p0 s c p rcq role cq content q)
  then show ?case using length_jws [of p0] msg_members_shorter [of p "[]" "[]" role content q] length_skip_comma [of q] by auto
qed

declare load_messages.simps [simp del]

definition add_fact :: "string \<Rightarrow> string \<Rightarrow> Session \<Rightarrow> Session" where
  "add_fact k v s =
     (if length (ss_facts s) < SESSION_FACTS_MAX \<and> k \<noteq> [] \<and> v \<noteq> []
      then s\<lparr>ss_facts := ss_facts s @ [(set_str (SESSION_KEY_MAX + 1) k, set_str (SESSION_VAL_MAX + 1) v)]\<rparr> else s)"

function load_facts :: "string \<Rightarrow> Session \<Rightarrow> Session \<times> string option" where
  "load_facts p0 s =
     (case jws p0 of
        [] \<Rightarrow> (s, None)
      | c # p \<Rightarrow>
          if c = CHR ''}'' then (s, Some p)
          else if c = CHR '','' then load_facts p s
          else (case member_start (SESSION_KEY_MAX + 1) (c # p) of
                  None \<Rightarrow> (s, None)
                | Some (fk, v) \<Rightarrow>
                    (case jread_string (SESSION_VAL_MAX + 1) v of
                       None \<Rightarrow> (s, None)
                     | Some (fv, q) \<Rightarrow> load_facts (skip_comma q) (add_fact fk (cstr fv) s))))"
  by pat_completeness auto
termination
proof (relation "measure (\<lambda>(p, s). length p)", simp, goal_cases)
  case (1 p0 s c p)
  then show ?case using length_jws [of p0] by auto
next
  case (2 p0 s c p mv fk v vq fv q)
  then show ?case
    using length_jws [of p0] member_start_shorter [of "SESSION_KEY_MAX + 1" "c # p" fk v]
      jread_string_shorter [of "SESSION_VAL_MAX + 1" v fv q] length_skip_comma [of q] by auto
qed

declare load_facts.simps [simp del]

definition load_value :: "string \<Rightarrow> string \<Rightarrow> Session \<Rightarrow> Session \<times> string option" where
  "load_value key p s =
     (if key = ''messages'' \<and> p \<noteq> [] \<and> hd p = CHR ''['' then load_messages (tl p) s
      else if key = ''facts'' \<and> p \<noteq> [] \<and> hd p = CHR ''{'' then load_facts (tl p) s
      else (s, jskip_value p))"

lemma load_messages_shorter: "load_messages p s = (s', Some q) \<Longrightarrow> length q < length p"
proof (induction p s rule: load_messages.induct)
  case (1 p0 s)
  from 1(3) obtain c p where p: "jws p0 = c # p" by (auto simp: load_messages.simps [of p0] split: list.splits)
  have len: "length (c # p) \<le> length p0" using length_jws [of p0] p by simp
  consider "c = CHR '']''" "q = p" | "c \<noteq> CHR '']''" "c = CHR '',''" "load_messages p s = (s', Some q)"
    | ro co r where "c \<noteq> CHR '']''" "c \<noteq> CHR '',''" "\<not> c \<noteq> CHR ''{''" "msg_members p [] [] = Some (ro, co, r)"
        "load_messages (skip_comma r) (add_msg ro co s) = (s', Some q)"
    using 1(3) p by (auto simp: load_messages.simps [of p0] split: if_splits option.splits)
  then show ?case
  proof cases
    case 2
    from 1(1) [OF p 2(1,2,3)] len show ?thesis by simp
  next
    case 3
    from 1(2) [OF p 3(1,2,3,4) refl refl 3(5)] len msg_members_shorter [OF 3(4)] length_skip_comma [of r] show ?thesis by simp
  qed (use len in simp)
qed

lemma load_facts_shorter: "load_facts p s = (s', Some q) \<Longrightarrow> length q < length p"
proof (induction p s rule: load_facts.induct)
  case (1 p0 s)
  from 1(3) obtain c p where p: "jws p0 = c # p" by (auto simp: load_facts.simps [of p0] split: list.splits)
  have len: "length (c # p) \<le> length p0" using length_jws [of p0] p by simp
  consider "c = CHR ''}''" "q = p" | "c \<noteq> CHR ''}''" "c = CHR '',''" "load_facts p s = (s', Some q)"
    | fk v fv r where "c \<noteq> CHR ''}''" "c \<noteq> CHR '',''" "member_start (SESSION_KEY_MAX + 1) (c # p) = Some (fk, v)"
        "jread_string (SESSION_VAL_MAX + 1) v = Some (fv, r)" "load_facts (skip_comma r) (add_fact fk (cstr fv) s) = (s', Some q)"
    using 1(3) p by (auto simp: load_facts.simps [of p0] split: if_splits option.splits)
  then show ?case
  proof cases
    case 2
    from 1(1) [OF p 2(1,2,3)] len show ?thesis by simp
  next
    case 3
    from 1(2) [OF p 3(1,2,3) refl 3(4) refl 3(5)] len member_start_shorter [OF 3(3)] jread_string_shorter [OF 3(4)] length_skip_comma [of r]
    show ?thesis by simp
  qed (use len in simp)
qed

lemma load_value_shorter: "load_value k p s = (s', Some q) \<Longrightarrow> length q \<le> length p"
  using load_messages_shorter [of "tl p" s s' q] load_facts_shorter [of "tl p" s s' q] jskip_value_shorter [of p q]
  by (cases p) (auto simp: load_value_def split: if_splits)

text \<open>The members of the file; the flag is the return code 0.\<close>

function load_members :: "string \<Rightarrow> Session \<Rightarrow> Session \<times> bool" where
  "load_members p0 s =
     (case jws p0 of
        [] \<Rightarrow> (s, False)
      | c # p \<Rightarrow>
          if c = CHR ''}'' then (s, True)
          else (case member_start 24 (c # p) of
                  None \<Rightarrow> (s, False)
                | Some (key, v) \<Rightarrow>
                    (case load_value key v s of
                       (s1, None) \<Rightarrow> (s1, False)
                     | (s1, Some q) \<Rightarrow>
                         (case jws q of
                            [] \<Rightarrow> (s1, False)
                          | d # r \<Rightarrow> if d = CHR '','' then load_members r s1 else (s1, d = CHR ''}'')))))"
  by pat_completeness auto
termination
proof (relation "measure (\<lambda>(p, s). length p)", simp, goal_cases)
  case (1 p0 s c p mv key v s1 qo q d r)
  then show ?case
    using length_jws [of p0] member_start_shorter [of 24 "c # p" key v] load_value_shorter [of key v s s1 q] length_jws [of q] by auto
qed

declare load_members.simps [simp del]

text \<open>
  The return code and the session; \<open>alloc\<close> says which allocations of the file buffer succeed (a file is read in
  pieces of 4096 bytes).
\<close>

fun file_pieces :: "string \<Rightarrow> string list" where
  "file_pieces [] = []"
| "file_pieces (c # s) = take 4096 (c # s) # file_pieces (drop 4096 (c # s))"

definition session_load :: "(nat \<Rightarrow> bool) \<Rightarrow> memory_files \<Rightarrow> string \<Rightarrow> int \<times> Session" where
  "session_load alloc files id' =
     (if id' \<noteq> [] \<and> \<not> session_id_valid id' then (- 1, empty_session id')
      else case files (session_path id') of
             NoFile \<Rightarrow> (1, empty_session id')
           | NoAccess \<Rightarrow> (- 1, empty_session id')
           | Stored content \<Rightarrow>
               let b = foldl (sb_mem alloc) zero_sbuf (file_pieces content); p = cstr (sb_text b)
               in if p \<noteq> [] \<and> hd p = CHR ''{'' \<and> \<not> sb_oom b
                  then (case load_members (tl p) (empty_session id') of (s, ok) \<Rightarrow> (if ok then 0 else - 1, s))
                  else (0, empty_session id'))"

section \<open>Saving\<close>

definition json_pieces :: "string \<Rightarrow> string list" where
  "json_pieces x = [[DQUOTE]] @ map json_esc x @ [[DQUOTE]]"

definition jkey :: "string \<Rightarrow> string" where
  "jkey k = DQUOTE # k @ [DQUOTE, CHR '':'']"

text \<open>Groups of pieces with a comma written before every group but the first.\<close>

primrec comma_sep :: "string list list \<Rightarrow> string list" where
  "comma_sep [] = []"
| "comma_sep (x # xs) = (if xs = [] then x else x @ [CHR '',''] # comma_sep xs)"

definition msg_pieces :: "string \<times> string \<Rightarrow> string list" where
  "msg_pieces m =
     [CHR ''{'' # jkey ''role''] @ json_pieces (fst m) @ [CHR '','' # jkey ''content''] @ json_pieces (snd m) @ [''}'']"

definition fact_pieces :: "string \<times> string \<Rightarrow> string list" where
  "fact_pieces f = json_pieces (fst f) @ ['':''] @ json_pieces (snd f)"

definition session_pieces :: "Session \<Rightarrow> string list" where
  "session_pieces s =
     [CHR ''{'' # jkey ''id''] @ json_pieces (ss_id s) @ [CHR '','' # jkey ''messages'' @ ''[''] @
     comma_sep (map msg_pieces (ss_msgs s)) @ ['']'' @ CHR '','' # jkey ''facts'' @ ''{''] @
     comma_sep (map fact_pieces (ss_facts s)) @ [''}}'' @ [LF]]"

text \<open>\<open>io\<close>: the temporary file is opened, written, flushed, closed and renamed without an error.\<close>

definition session_save :: "(nat \<Rightarrow> bool) \<Rightarrow> bool \<Rightarrow> Session \<Rightarrow> memory_files \<Rightarrow> int \<times> memory_files" where
  "session_save alloc io s files =
     (if ss_id s \<noteq> [] \<and> \<not> session_id_valid (ss_id s) then (- 1, files)
      else
        let b = foldl (sb_mem alloc) zero_sbuf (session_pieces s)
        in if sb_oom b \<or> \<not> io then (- 1, files) else (0, files(session_path (ss_id s) := Stored (sb_text b))))"

text \<open>
  The names of the session directory with their modification times (\<open>None\<close>: \<open>stat\<close> fails); the names that are
  removed.  \<open>limit\<close> is the age in seconds.
\<close>

definition session_prune_old :: "int \<Rightarrow> int \<Rightarrow> (string \<times> int option) list \<Rightarrow> string list" where
  "session_prune_old now limit entries =
     map fst (filter (\<lambda>(name, mtime).
       5 \<le> length name \<and> length name \<le> SESSION_ID_MAX + 5 \<and> name \<noteq> ''memory.json'' \<and>
       drop (length name - 5) name = ''.json'' \<and> (case mtime of None \<Rightarrow> False | Some t \<Rightarrow> now - t > limit)) entries)"

section \<open>The transcript and the facts\<close>

text \<open>\<open>None\<close> when the UTF-8 copy reads behind the source.\<close>

definition session_append :: "Session \<Rightarrow> string \<Rightarrow> string \<Rightarrow> Session option" where
  "session_append s role content =
     (let kept = (if length (ss_msgs s) \<ge> SESSION_MSG_MAX then tl (ss_msgs s) else ss_msgs s)
      in map_option (\<lambda>c. s\<lparr>ss_msgs := kept @ [(set_str 16 role, c)]\<rparr>)
           (set_str_utf8 (SESSION_CONTENT_MAX + 1) (Some (content @ [NUL]))))"

definition bad_key :: "string \<Rightarrow> bool" where
  "bad_key key \<longleftrightarrow> key = [] \<or> list_ex (\<lambda>c. c \<in> set [CHR ''{'', CHR ''}'', CHR '':'', DQUOTE, CHR '','', LF, CR]) key"

primrec set_fact :: "string \<Rightarrow> string \<Rightarrow> (string \<times> string) list \<Rightarrow> (string \<times> string) list" where
  "set_fact key v [] = []"
| "set_fact key v (f # fs) = (if fst f = key then (fst f, v) # fs else f # set_fact key v fs)"

definition session_fact_set :: "Session \<Rightarrow> string \<Rightarrow> string option \<Rightarrow> (int \<times> Session) option" where
  "session_fact_set s key val =
     (if bad_key key then Some (- 1, s)
      else
        let v = set_str (SESSION_VAL_MAX + 1) (case val of None \<Rightarrow> [] | Some x \<Rightarrow> x)
        in if list_ex (\<lambda>f. fst f = key) (ss_facts s) then
             map_option (\<lambda>v'. (0, s\<lparr>ss_facts := set_fact key v' (ss_facts s)\<rparr>)) (set_str_utf8 (SESSION_VAL_MAX + 1) (Some (v @ [NUL])))
           else if length (ss_facts s) \<ge> SESSION_FACTS_MAX then Some (- 1, s)
           else (case set_str_utf8 (SESSION_KEY_MAX + 1) (Some (key @ [NUL])) of
                   None \<Rightarrow> None
                 | Some k \<Rightarrow>
                     map_option (\<lambda>v'. (0, s\<lparr>ss_facts := ss_facts s @ [(k, v')]\<rparr>)) (set_str_utf8 (SESSION_VAL_MAX + 1) (Some (v @ [NUL])))))"

definition session_fact_get :: "Session \<Rightarrow> string \<Rightarrow> string option" where
  "session_fact_get s key = map_of (ss_facts s) key"

definition session_fact_set_file ::
  "(nat \<Rightarrow> bool) \<Rightarrow> bool \<Rightarrow> string \<Rightarrow> string \<Rightarrow> string option \<Rightarrow> memory_files \<Rightarrow> (int \<times> memory_files) option" where
  "session_fact_set_file alloc io id' key val files =
     (case session_load alloc files id' of
        (rc, s) \<Rightarrow>
          if rc < 0 then Some (- 1, files)
          else (case session_fact_set s key val of
                  None \<Rightarrow> None
                | Some (rc', s') \<Rightarrow> if rc' \<noteq> 0 then Some (- 1, files) else Some (session_save alloc io s' files)))"

definition session_fact_get_file :: "(nat \<Rightarrow> bool) \<Rightarrow> memory_files \<Rightarrow> string \<Rightarrow> string \<Rightarrow> nat \<Rightarrow> string option" where
  "session_fact_get_file alloc files id' key outsz =
     (case session_load alloc files id' of
        (rc, s) \<Rightarrow> if rc \<noteq> 0 then None else map_option (set_str outsz) (session_fact_get s key))"

text \<open>The memory block of the system prompt: facts, then the last four messages, newest first.\<close>

definition render_msg :: "string \<times> string \<Rightarrow> string option" where
  "render_msg m = map_option (\<lambda>c. LF # fst m @ '': '' @ c) (set_str_utf8 1201 (Some (snd m @ [NUL])))"

fun render_msgs :: "(string \<times> string) list \<Rightarrow> string option" where
  "render_msgs [] = Some []"
| "render_msgs (m # ms) =
     (case render_msg m of None \<Rightarrow> None | Some x \<Rightarrow> map_option ((@) x) (render_msgs ms))"

definition session_render_extra :: "Session \<Rightarrow> string option" where
  "session_render_extra s =
     (if ss_id s = [] then Some []
      else
        let head = ''[session memory '' @ ss_id s @ '']'';
            facts = (if ss_facts s = [] then [] else LF # ''Facts:'' @ concat (map (\<lambda>f. LF # ''- '' @ fst f @ '': '' @ snd f) (ss_facts s)))
        in if ss_msgs s = [] then Some (head @ facts)
           else map_option (\<lambda>ms. head @ facts @ LF # ''Recent exchange (most recent first):'' @ ms)
                  (render_msgs (take 4 (rev (ss_msgs s)))))"

section \<open>What is saved is loaded\<close>

text \<open>A session the loader can produce: every field fits its array, and nothing in it would be left out.\<close>

definition msg_wf :: "string \<times> string \<Rightarrow> bool" where
  "msg_wf m \<longleftrightarrow> (fst m = ''user'' \<or> fst m = ''assistant'') \<and> snd m \<noteq> [] \<and> fits (SESSION_CONTENT_MAX + 1) (snd m)"

definition fact_wf :: "string \<times> string \<Rightarrow> bool" where
  "fact_wf f \<longleftrightarrow> fst f \<noteq> [] \<and> fits (SESSION_KEY_MAX + 1) (fst f) \<and> snd f \<noteq> [] \<and> fits (SESSION_VAL_MAX + 1) (snd f)"

definition session_wf :: "Session \<Rightarrow> bool" where
  "session_wf s \<longleftrightarrow> (ss_id s = [] \<or> session_id_valid (ss_id s)) \<and> length (ss_msgs s) \<le> SESSION_MSG_MAX \<and> list_all msg_wf (ss_msgs s) \<and>
     length (ss_facts s) \<le> SESSION_FACTS_MAX \<and> list_all fact_wf (ss_facts s)"

text \<open>
  A session the writer can be given: every field fits its array.  Besides the sessions above these have texts that are
  empty; \<open>reloaded\<close> is what the loader makes of them: an empty message gets the text \<open>(no text)\<close>, and a fact with
  an empty key or value is left out.
\<close>

definition msg_fits :: "string \<times> string \<Rightarrow> bool" where
  "msg_fits m \<longleftrightarrow> (fst m = ''user'' \<or> fst m = ''assistant'') \<and> fits (SESSION_CONTENT_MAX + 1) (snd m)"

definition fact_fits :: "string \<times> string \<Rightarrow> bool" where
  "fact_fits f \<longleftrightarrow> fits (SESSION_KEY_MAX + 1) (fst f) \<and> fits (SESSION_VAL_MAX + 1) (snd f)"

definition session_fits :: "Session \<Rightarrow> bool" where
  "session_fits s \<longleftrightarrow> (ss_id s = [] \<or> session_id_valid (ss_id s)) \<and> length (ss_msgs s) \<le> SESSION_MSG_MAX \<and> list_all msg_fits (ss_msgs s) \<and>
     length (ss_facts s) \<le> SESSION_FACTS_MAX \<and> list_all fact_fits (ss_facts s)"

definition reload_msg :: "string \<times> string \<Rightarrow> string \<times> string" where
  "reload_msg m = (fst m, if snd m = [] then ''(no text)'' else snd m)"

definition kept_fact :: "string \<times> string \<Rightarrow> bool" where
  "kept_fact f \<longleftrightarrow> fst f \<noteq> [] \<and> snd f \<noteq> []"

definition reloaded :: "Session \<Rightarrow> Session" where
  "reloaded s = s\<lparr>ss_msgs := map reload_msg (ss_msgs s), ss_facts := filter kept_fact (ss_facts s)\<rparr>"

lemma reloaded_wf:
  assumes "session_wf s"
  shows "session_fits s \<and> reloaded s = s"
proof -
  have "map reload_msg (ss_msgs s) = ss_msgs s" using assms
    by (intro map_idI) (auto simp: session_wf_def list_all_iff msg_wf_def reload_msg_def)
  moreover have "filter kept_fact (ss_facts s) = ss_facts s" using assms
    by (intro filter_True) (auto simp: session_wf_def list_all_iff fact_wf_def kept_fact_def)
  moreover have "session_fits s" using assms
    by (auto simp: session_wf_def session_fits_def list_all_iff msg_wf_def msg_fits_def fact_wf_def fact_fits_def)
  ultimately show ?thesis by (simp add: reloaded_def)
qed

lemma id_char_not_NUL: "list_all id_char x \<Longrightarrow> NUL \<notin> set x"
  by (induction x) (auto simp: id_char_def isalnum_def isalpha_def isdigit_def)

lemma valid_id_fits: "session_id_valid x \<Longrightarrow> set_str (SESSION_ID_MAX + 1) x = x"
  by (simp add: session_id_valid_def set_str_def)

lemma set_str_whole: "fits n x \<Longrightarrow> set_str n x = x"
  by (simp add: set_str_def fits_def)

lemma cstr_whole: "NUL \<notin> set x \<Longrightarrow> cstr x = x"
  by (induction x) (auto simp: cstr_def)

lemma jread_fits: "fits n x \<Longrightarrow> jread_string n (json_quote x @ p) = Some (x, p)"
  by (auto simp add: jread_string_quoted fits_def)

lemma jws_quote: "jws (json_quote x @ p) = json_quote x @ p"
  by (rule jws_id) (simp_all add: json_quote_def json_ws_def)

lemma jkey_quote: "jkey ''id'' = json_quote ''id'' @ '':''" "jkey ''messages'' = json_quote ''messages'' @ '':''"
  "jkey ''facts'' = json_quote ''facts'' @ '':''" "jkey ''role'' = json_quote ''role'' @ '':''"
  "jkey ''content'' = json_quote ''content'' @ '':''"
  by code_simp+

lemma member_start_quote: "fits n k \<Longrightarrow> member_start n (json_quote k @ CHR '':'' # v) = Some (k, jws v)"
proof -
  assume k: "fits n k"
  have "jws (CHR '':'' # v) = CHR '':'' # v" by (simp add: jws_def json_ws_def)
  then show ?thesis using k by (simp add: member_start_def jread_fits cstr_whole fits_def)
qed

lemma skip_comma_simps [simp]:
  "skip_comma (CHR '','' # r) = r" "skip_comma (CHR ''}'' # r) = CHR ''}'' # r" "skip_comma (CHR '']'' # r) = CHR '']'' # r"
  by (simp_all add: skip_comma_def jws_def json_ws_def)

definition msg_text :: "string \<times> string \<Rightarrow> string" where
  "msg_text m = CHR ''{'' # json_quote ''role'' @ CHR '':'' # json_quote (fst m) @ CHR '','' # json_quote ''content'' @ CHR '':'' #
     json_quote (snd m) @ ''}''"

definition fact_text :: "string \<times> string \<Rightarrow> string" where
  "fact_text f = json_quote (fst f) @ CHR '':'' # json_quote (snd f)"

lemma role_fits: "fst m = ''user'' \<or> fst m = ''assistant'' \<Longrightarrow> fits 16 (fst m)"
  by (auto simp: fits_def)

lemma fits_names: "fits 24 ''role''" "fits 24 ''content''" "fits 24 ''id''" "fits 24 ''messages''" "fits 24 ''facts''"
  by (simp_all add: fits_def)

lemma jws_char: "\<not> json_ws c \<Longrightarrow> jws (c # p) = c # p"
  by (simp add: jws_def)

lemma json_quote_Cons: "\<exists>q. json_quote x = DQUOTE # q"
  by (simp add: json_quote_def)

lemma msg_members_quote:
  assumes "fits 24 k"
  shows "msg_members (json_quote k @ CHR '':'' # json_quote x @ rest) role content =
    (if k = ''role'' then (case jread_string 16 (json_quote x @ rest) of None \<Rightarrow> None | Some (s, q) \<Rightarrow> msg_members (skip_comma q) (cstr s) content)
     else if k = ''content'' then
       (case jread_string (SESSION_CONTENT_MAX + 1) (json_quote x @ rest) of None \<Rightarrow> None | Some (s, q) \<Rightarrow> msg_members (skip_comma q) role (cstr s))
     else (case jskip_value (json_quote x @ rest) of None \<Rightarrow> None | Some q \<Rightarrow> msg_members (skip_comma q) role content))"
proof -
  obtain q where q: "json_quote k = DQUOTE # q" using json_quote_Cons by blast
  define p where "p = json_quote k @ CHR '':'' # json_quote x @ rest"
  have p: "jws p = DQUOTE # q @ CHR '':'' # json_quote x @ rest" unfolding p_def jws_quote by (simp add: q)
  have m: "member_start 24 (DQUOTE # q @ CHR '':'' # json_quote x @ rest) = Some (k, json_quote x @ rest)"
    using member_start_quote [OF assms, of "json_quote x @ rest"] by (simp add: q jws_quote)
  show ?thesis unfolding p_def [symmetric]
    by (subst msg_members.simps) (simp only: p list.case m option.case prod.case char.inject simp_thms if_False)
qed

lemma msg_members_text:
  assumes "msg_fits m"
  shows "msg_members (tl (msg_text m) @ rest) [] [] = Some (fst m, snd m, rest)"
proof -
  have r: "fits 16 (fst m)" "cstr (fst m) = fst m" and c: "fits (SESSION_CONTENT_MAX + 1) (snd m)" "cstr (snd m) = snd m"
    using assms by (auto simp: msg_fits_def fits_def intro!: cstr_whole)
  have "msg_members (json_quote ''content'' @ CHR '':'' # json_quote (snd m) @ CHR ''}'' # rest) (fst m) [] =
      msg_members (CHR ''}'' # rest) (fst m) (snd m)"
    using c by (simp add: msg_members_quote [OF fits_names(2)] jread_fits)
  also have "\<dots> = Some (fst m, snd m, rest)" by (subst msg_members.simps) (simp add: jws_char json_ws_def)
  finally show ?thesis
    using r by (simp add: msg_text_def msg_members_quote [OF fits_names(1)] jread_fits)
qed

lemma load_messages_one:
  assumes "msg_fits m" "length (ss_msgs s) < SESSION_MSG_MAX"
  shows "load_messages (msg_text m @ rest) s = load_messages (skip_comma rest) (s\<lparr>ss_msgs := ss_msgs s @ [reload_msg m]\<rparr>)"
proof -
  have t: "msg_text m @ rest = CHR ''{'' # tl (msg_text m) @ rest" by (simp add: msg_text_def)
  have "set_str (SESSION_CONTENT_MAX + 1) ''(no text)'' = ''(no text)''" by (simp add: set_str_def SESSION_CONTENT_MAX_def)
  then have "add_msg (fst m) (snd m) s = s\<lparr>ss_msgs := ss_msgs s @ [reload_msg m]\<rparr>"
    using assms role_fits [of m] by (cases m) (auto simp: add_msg_def msg_fits_def reload_msg_def set_str_whole)
  then show ?thesis
    unfolding t by (subst load_messages.simps) (simp add: jws_char json_ws_def msg_members_text [OF assms(1)])
qed

lemma load_messages_text:
  assumes "list_all msg_fits ms" "length (ss_msgs s) + length ms \<le> SESSION_MSG_MAX"
  shows "load_messages (join (map msg_text ms) @ CHR '']'' # rest) s = (s\<lparr>ss_msgs := ss_msgs s @ map reload_msg ms\<rparr>, Some rest)"
  using assms
proof (induction ms arbitrary: s)
  case Nil
  then show ?case by (subst load_messages.simps) (simp add: jws_char json_ws_def)
next
  case (Cons m ms)
  then show ?case
    by (cases "ms = []") (auto simp: load_messages_one Cons.IH [of "s\<lparr>ss_msgs := ss_msgs s @ [reload_msg m]\<rparr>"])
qed

lemma load_facts_one:
  assumes "fact_fits f" "length (ss_facts s) < SESSION_FACTS_MAX"
  shows "load_facts (fact_text f @ rest) s = load_facts (skip_comma rest) (s\<lparr>ss_facts := ss_facts s @ filter kept_fact [f]\<rparr>)"
proof -
  have f: "fits (SESSION_KEY_MAX + 1) (fst f)" "fits (SESSION_VAL_MAX + 1) (snd f)" "cstr (snd f) = snd f"
    using assms(1) by (auto simp: fact_fits_def fits_def intro!: cstr_whole)
  define p where "p = fact_text f @ rest"
  obtain q where q: "p = DQUOTE # q" using json_quote_Cons [of "fst f"] by (auto simp: p_def fact_text_def)
  have "jws p = DQUOTE # q" unfolding q by (simp add: jws_def json_ws_def)
  moreover have "member_start (SESSION_KEY_MAX + 1) (DQUOTE # q) = Some (fst f, json_quote (snd f) @ rest)"
    using member_start_quote [OF f(1), of "json_quote (snd f) @ rest"] by (simp add: q [symmetric] p_def fact_text_def jws_quote)
  moreover have "add_fact (fst f) (snd f) s = s\<lparr>ss_facts := ss_facts s @ filter kept_fact [f]\<rparr>"
    using assms f by (cases f) (simp add: add_fact_def kept_fact_def set_str_whole)
  ultimately show ?thesis
    unfolding p_def [symmetric] using f by (subst load_facts.simps) (simp add: jread_fits)
qed

lemma load_facts_text:
  assumes "list_all fact_fits fs" "length (ss_facts s) + length fs \<le> SESSION_FACTS_MAX"
  shows "load_facts (join (map fact_text fs) @ CHR ''}'' # rest) s = (s\<lparr>ss_facts := ss_facts s @ filter kept_fact fs\<rparr>, Some rest)"
  using assms
proof (induction fs arbitrary: s)
  case Nil
  then show ?case by (subst load_facts.simps) (simp add: jws_char json_ws_def)
next
  case (Cons f fs)
  then have "load_facts (join (map fact_text fs) @ CHR ''}'' # rest) (s\<lparr>ss_facts := ss_facts s @ filter kept_fact [f]\<rparr>) =
      (s\<lparr>ss_facts := ss_facts s @ filter kept_fact (f # fs)\<rparr>, Some rest)"
    by (subst Cons.IH) auto
  then show ?case using Cons.prems by (cases "fs = []") (simp_all add: load_facts_one)
qed

lemma load_members_one:
  assumes "fits 24 k" "load_value k v s = (s1, Some q)" "jws v = v"
  shows "load_members (json_quote k @ CHR '':'' # v) s =
    (case jws q of [] \<Rightarrow> (s1, False) | d # r \<Rightarrow> if d = CHR '','' then load_members r s1 else (s1, d = CHR ''}''))"
proof -
  obtain kq where q: "json_quote k = DQUOTE # kq" using json_quote_Cons by blast
  define p where "p = json_quote k @ CHR '':'' # v"
  have p: "jws p = DQUOTE # kq @ CHR '':'' # v" unfolding p_def jws_quote by (simp add: q)
  have m: "member_start 24 (DQUOTE # kq @ CHR '':'' # v) = Some (k, v)"
    using member_start_quote [OF assms(1), of v] assms(3) by (simp add: q)
  show ?thesis unfolding p_def [symmetric] using assms(2) by (subst load_members.simps) (simp add: p m)
qed

definition session_text :: "Session \<Rightarrow> string" where
  "session_text s =
     CHR ''{'' # json_quote ''id'' @ CHR '':'' # json_quote (ss_id s) @ CHR '','' # json_quote ''messages'' @ CHR '':'' # CHR ''['' #
     join (map msg_text (ss_msgs s)) @ CHR '']'' # CHR '','' # json_quote ''facts'' @ CHR '':'' # CHR ''{'' #
     join (map fact_text (ss_facts s)) @ CHR ''}'' # CHR ''}'' # [LF]"

lemma concat_json_pieces: "concat (json_pieces x) = json_quote x"
  by (simp add: json_pieces_def json_quote_def)

lemma concat_comma_sep: "concat (comma_sep xs) = join (map concat xs)"
  by (induction xs) auto

lemma concat_session_pieces: "concat (session_pieces s) = session_text s"
proof -
  have "concat (msg_pieces m) = msg_text m" "concat (fact_pieces f) = fact_text f" for m f
    by (simp_all add: msg_pieces_def msg_text_def fact_pieces_def fact_text_def concat_json_pieces jkey_quote)
  then have "concat \<circ> msg_pieces = msg_text" "concat \<circ> fact_pieces = fact_text" by (simp_all add: fun_eq_iff)
  then show ?thesis
    by (simp add: session_pieces_def session_text_def concat_json_pieces concat_comma_sep jkey_quote del: comma_sep.simps)
qed

lemma load_session_text:
  assumes "session_fits s"
  shows "load_members (tl (session_text s)) (empty_session (ss_id s)) = (reloaded s, True)"
proof -
  define e where "e = empty_session (ss_id s)"
  have e: "e = \<lparr>ss_id = ss_id s, ss_msgs = [], ss_facts = []\<rparr>"
    using assms valid_id_fits [of "ss_id s"] by (auto simp: e_def empty_session_def session_fits_def set_str_def)
  define t3 where "t3 = join (map fact_text (ss_facts s)) @ CHR ''}'' # CHR ''}'' # [LF]"
  define t2 where "t2 = join (map msg_text (ss_msgs s)) @ CHR '']'' # CHR '','' # json_quote ''facts'' @ CHR '':'' # CHR ''{'' # t3"
  have fct: "load_members (json_quote ''facts'' @ CHR '':'' # CHR ''{'' # t3) (e\<lparr>ss_msgs := map reload_msg (ss_msgs s)\<rparr>) = (reloaded s, True)"
  proof -
    have "load_value ''facts'' (CHR ''{'' # t3) (e\<lparr>ss_msgs := map reload_msg (ss_msgs s)\<rparr>) = (reloaded s, Some (CHR ''}'' # [LF]))"
      using assms load_facts_text [of "ss_facts s" "e\<lparr>ss_msgs := map reload_msg (ss_msgs s)\<rparr>" "CHR ''}'' # [LF]"]
      by (simp add: load_value_def t3_def e session_fits_def reloaded_def)
    from load_members_one [OF fits_names(5) this] show ?thesis by (simp add: jws_char json_ws_def)
  qed
  have msg: "load_members (json_quote ''messages'' @ CHR '':'' # CHR ''['' # t2) e = (reloaded s, True)"
  proof -
    have "load_value ''messages'' (CHR ''['' # t2) e = (e\<lparr>ss_msgs := map reload_msg (ss_msgs s)\<rparr>, Some (CHR '','' # json_quote ''facts'' @ CHR '':'' # CHR ''{'' # t3))"
      using assms load_messages_text [of "ss_msgs s" e] by (simp add: load_value_def t2_def e session_fits_def)
    from load_members_one [OF fits_names(4) this] fct show ?thesis by (simp add: jws_char json_ws_def)
  qed
  have "load_value ''id'' (json_quote (ss_id s) @ CHR '','' # json_quote ''messages'' @ CHR '':'' # CHR ''['' # t2) e =
      (e, Some (CHR '','' # json_quote ''messages'' @ CHR '':'' # CHR ''['' # t2))"
    by (simp add: load_value_def jskip_value_def jws_quote Let_def jread_string_quoted json_quote_Cons [THEN exE] split: list.split)
      (use json_quote_Cons [of "ss_id s"] in \<open>auto simp: jread_string_quoted\<close>)
  from load_members_one [OF fits_names(3) this jws_quote] msg show ?thesis
    by (simp add: session_text_def t2_def t3_def e_def [symmetric] jws_char json_ws_def)
qed

text \<open>Files are read whole when memory suffices.\<close>

lemma sb_mem_alloc: "\<not> sb_oom b \<Longrightarrow> \<not> sb_oom (sb_mem (\<lambda>_. True) b x)"
  by (simp add: sb_mem_def sb_reserve_def Let_def)

lemma sb_puts_alloc: "\<not> sb_oom b \<Longrightarrow> \<not> sb_oom (foldl (sb_mem (\<lambda>_. True)) b xs)"
  by (induction xs arbitrary: b) (simp_all add: sb_mem_alloc)

lemma zero_sbuf_simps [simp]: "\<not> sb_oom zero_sbuf" "sb_text zero_sbuf = []"
  by (simp_all add: zero_sbuf_def sb_text_def)

lemma concat_file_pieces: "concat (file_pieces x) = x"
  by (induction x rule: file_pieces.induct) (simp_all del: take_Suc_Cons drop_Suc_Cons)

lemma read_file_whole:
  "\<not> sb_oom (foldl (sb_mem (\<lambda>_. True)) zero_sbuf (file_pieces x))" "sb_text (foldl (sb_mem (\<lambda>_. True)) zero_sbuf (file_pieces x)) = x"
proof -
  show "\<not> sb_oom (foldl (sb_mem (\<lambda>_. True)) zero_sbuf (file_pieces x))" by (simp add: sb_puts_alloc)
  from sb.puts_written [OF this] show "sb_text (foldl (sb_mem (\<lambda>_. True)) zero_sbuf (file_pieces x)) = x"
    by (simp add: concat_file_pieces)
qed

lemma json_quote_no_NUL: "NUL \<notin> set (json_quote x)"
proof -
  have "hexdigit n \<noteq> NUL" if "n < 16" for n
    using hexval_hexdigit [OF that] by (auto simp: hexval_def isdigit_def)
  then have "NUL \<notin> set (hex04 k)" for k by (simp add: hex04_def eq_commute [of NUL])
  then have "NUL \<notin> set (json_esc c)" for c by (auto simp: json_esc_def)
  then show ?thesis by (simp add: json_quote_def)
qed

lemma join_no_NUL: "\<forall>x \<in> set xs. NUL \<notin> set x \<Longrightarrow> NUL \<notin> set (join xs)"
  by (induction xs) auto

lemma session_text_no_NUL: "NUL \<notin> set (session_text s)"
  by (simp add: session_text_def json_quote_no_NUL join_no_NUL msg_text_def fact_text_def)

lemma session_save_text:
  assumes "session_save alloc io s files = (0, files')"
  shows "files' = files(session_path (ss_id s) := Stored (session_text s)) \<and> (ss_id s = [] \<or> session_id_valid (ss_id s))"
  using assms sb.puts_written [of alloc zero_sbuf "session_pieces s"]
  by (auto simp: session_save_def Let_def concat_session_pieces split: if_splits)

lemma session_load_fits:
  assumes "session_fits s"
  shows "session_load (\<lambda>_. True) (files(session_path (ss_id s) := Stored (session_text s))) (ss_id s) = (0, reloaded s)"
proof -
  have "cstr (session_text s) = session_text s" using session_text_no_NUL by (rule cstr_whole)
  moreover have "session_text s \<noteq> []" "hd (session_text s) = CHR ''{''" by (simp_all add: session_text_def)
  ultimately show ?thesis
    using assms load_session_text [OF assms]
    by (simp add: session_load_def session_fits_def read_file_whole Let_def)
qed

lemma session_load_saved:
  "session_wf s \<Longrightarrow> session_load (\<lambda>_. True) (files(session_path (ss_id s) := Stored (session_text s))) (ss_id s) = (0, s)"
  using session_load_fits [of s] reloaded_wf [of s] by simp

section \<open>The loader only produces well-formed sessions\<close>

definition body_wf :: "Session \<Rightarrow> bool" where
  "body_wf s \<longleftrightarrow> length (ss_msgs s) \<le> SESSION_MSG_MAX \<and> list_all msg_wf (ss_msgs s) \<and>
     length (ss_facts s) \<le> SESSION_FACTS_MAX \<and> list_all fact_wf (ss_facts s)"

lemma session_wf_body: "session_wf s \<longleftrightarrow> (ss_id s = [] \<or> session_id_valid (ss_id s)) \<and> body_wf s"
  by (simp add: session_wf_def body_wf_def)

lemma set_str_nonempty: "x \<noteq> [] \<Longrightarrow> 1 < n \<Longrightarrow> set_str n x \<noteq> []"
  by (auto simp: set_str_def)

lemma add_msg_wf: "body_wf s \<Longrightarrow> NUL \<notin> set content \<Longrightarrow> body_wf (add_msg role content s) \<and> ss_id (add_msg role content s) = ss_id s"
  by (auto simp: body_wf_def add_msg_def msg_wf_def set_str_whole [OF role_fits] SESSION_CONTENT_MAX_def set_str_nonempty set_str_fits
      dest: in_set_takeD simp: fits_def set_str_def)

lemma add_fact_wf: "body_wf s \<Longrightarrow> NUL \<notin> set k \<Longrightarrow> NUL \<notin> set v \<Longrightarrow> body_wf (add_fact k v s) \<and> ss_id (add_fact k v s) = ss_id s"
  by (auto simp: body_wf_def add_fact_def fact_wf_def SESSION_KEY_MAX_def SESSION_VAL_MAX_def set_str_nonempty set_str_fits)

lemma msg_members_no_NUL:
  "msg_members p role content = Some (r, c, q) \<Longrightarrow> NUL \<notin> set content \<Longrightarrow> NUL \<notin> set c"
proof (induction "length p" arbitrary: p role content rule: less_induct)
  case less
  from less.prems(1) show ?case
  proof (cases rule: msg_members_cases)
    case stop
    with less.prems(2) show ?thesis by simp
  next
    case (turn d p1 mk v role' content' q')
    have "length (skip_comma q') < length p"
      using turn(1,3) member_start_shorter [OF turn(2)] length_jws [of p] length_skip_comma [of q'] by simp
    with less.hyps [OF this turn(4)] turn(5) less.prems(2) show ?thesis by auto
  qed
qed

lemma member_start_no_NUL: "member_start n p = Some (k, v) \<Longrightarrow> NUL \<notin> set k"
  by (auto simp: member_start_def split: option.splits list.splits if_splits)

lemma load_messages_wf: "load_messages p s = (s', q) \<Longrightarrow> body_wf s \<Longrightarrow> body_wf s' \<and> ss_id s' = ss_id s"
proof (induction p s rule: load_messages.induct)
  case (1 p0 s)
  show ?case
  proof (cases "jws p0")
    case Nil
    with 1(3,4) show ?thesis by (simp add: load_messages.simps [of p0])
  next
    case (Cons c p)
    consider "s' = s" | "c \<noteq> CHR '']''" "c = CHR '',''" "load_messages p s = (s', q)"
      | ro co r where "c \<noteq> CHR '']''" "c \<noteq> CHR '',''" "\<not> c \<noteq> CHR ''{''" "msg_members p [] [] = Some (ro, co, r)"
          "load_messages (skip_comma r) (add_msg ro co s) = (s', q)"
      using 1(3) Cons by (auto simp: load_messages.simps [of p0] split: if_splits option.splits)
    then show ?thesis
    proof cases
      case 2
      from 1(1) [OF Cons 2(1,2,3) 1(4)] show ?thesis .
    next
      case 3
      have "NUL \<notin> set co" using msg_members_no_NUL [OF 3(4)] by simp
      with add_msg_wf [OF 1(4)] have "body_wf (add_msg ro co s) \<and> ss_id (add_msg ro co s) = ss_id s" by blast
      with 1(2) [OF Cons 3(1,2,3,4) refl refl 3(5)] show ?thesis by simp
    qed (use 1(4) in simp)
  qed
qed

lemma load_facts_wf: "load_facts p s = (s', q) \<Longrightarrow> body_wf s \<Longrightarrow> body_wf s' \<and> ss_id s' = ss_id s"
proof (induction p s rule: load_facts.induct)
  case (1 p0 s)
  show ?case
  proof (cases "jws p0")
    case Nil
    with 1(3,4) show ?thesis by (simp add: load_facts.simps [of p0])
  next
    case (Cons c p)
    consider "s' = s" | "c \<noteq> CHR ''}''" "c = CHR '',''" "load_facts p s = (s', q)"
      | fk v fv r where "c \<noteq> CHR ''}''" "c \<noteq> CHR '',''" "member_start (SESSION_KEY_MAX + 1) (c # p) = Some (fk, v)"
          "jread_string (SESSION_VAL_MAX + 1) v = Some (fv, r)" "load_facts (skip_comma r) (add_fact fk (cstr fv) s) = (s', q)"
      using 1(3) Cons by (auto simp: load_facts.simps [of p0] split: if_splits option.splits)
    then show ?thesis
    proof cases
      case 2
      from 1(1) [OF Cons 2(1,2,3) 1(4)] show ?thesis .
    next
      case 3
      have "body_wf (add_fact fk (cstr fv) s) \<and> ss_id (add_fact fk (cstr fv) s) = ss_id s"
        using add_fact_wf [OF 1(4) member_start_no_NUL [OF 3(3)] cstr_no_NUL] .
      with 1(2) [OF Cons 3(1,2,3) refl 3(4) refl 3(5)] show ?thesis by simp
    qed (use 1(4) in simp)
  qed
qed

lemma load_value_wf: "load_value k p s = (s', q) \<Longrightarrow> body_wf s \<Longrightarrow> body_wf s' \<and> ss_id s' = ss_id s"
  using load_messages_wf [of "tl p" s s' q] load_facts_wf [of "tl p" s s' q] by (auto simp: load_value_def split: if_splits)

lemma load_members_wf: "load_members p s = (s', ok) \<Longrightarrow> body_wf s \<Longrightarrow> body_wf s' \<and> ss_id s' = ss_id s"
proof (induction p s rule: load_members.induct)
  case (1 p0 s)
  show ?case
  proof (cases "jws p0")
    case Nil
    with 1(2,3) show ?thesis by (simp add: load_members.simps [of p0])
  next
    case (Cons c p)
    consider "s' = s" | k v s1 q where "c \<noteq> CHR ''}''" "member_start 24 (c # p) = Some (k, v)" "load_value k v s = (s1, q)" "s' = s1"
      | k v s1 q r where "c \<noteq> CHR ''}''" "member_start 24 (c # p) = Some (k, v)" "load_value k v s = (s1, Some q)"
          "jws q = CHR '','' # r" "load_members r s1 = (s', ok)"
      using 1(2) Cons by (auto simp: load_members.simps [of p0] split: if_splits option.splits prod.splits list.splits)
    then show ?thesis
    proof cases
      case 2
      with load_value_wf [OF 2(3) 1(3)] show ?thesis by simp
    next
      case 3
      from load_value_wf [OF 3(3) 1(3)] have w: "body_wf s1" "ss_id s1 = ss_id s" by auto
      from 1(1) [OF Cons 3(1,2) refl 3(3) [symmetric] refl 3(4) refl 3(5) w(1)] w(2) show ?thesis by simp
    qed (use 1(3) in simp)
  qed
qed

lemma empty_session_wf: "id' = [] \<or> session_id_valid id' \<Longrightarrow> session_wf (empty_session id') \<and> ss_id (empty_session id') = id'"
  using valid_id_fits [of id'] by (auto simp: empty_session_def session_wf_def set_str_def)

lemma session_load_wf: "session_load alloc files id' = (rc, s) \<Longrightarrow> 0 \<le> rc \<Longrightarrow> session_wf s \<and> ss_id s = id'"
proof -
  assume l: "session_load alloc files id' = (rc, s)" and rc: "0 \<le> rc"
  then have i: "id' = [] \<or> session_id_valid id'" by (auto simp: session_load_def split: if_splits)
  note e = empty_session_wf [OF i]
  have "s = empty_session id' \<or> (\<exists>p ok. load_members p (empty_session id') = (s, ok))"
    using l i by (auto simp: session_load_def Let_def split: stored.splits if_splits prod.splits)
  then show ?thesis
  proof (elim disjE exE)
    fix p ok
    assume "load_members p (empty_session id') = (s, ok)"
    from load_members_wf [OF this] e i show ?thesis by (auto simp: session_wf_body)
  qed (use e in simp)
qed

section \<open>A store that survives restarts\<close>

text \<open>
  What the tools that remember and recall facts rely on: loading what was saved gives it back, loading
  gives well-formed states only, and saving one state leaves the others alone.
\<close>

locale persistent_store =
  fixes load :: "'files \<Rightarrow> 'i \<Rightarrow> 's option"
    and save :: "'s \<Rightarrow> 'files \<Rightarrow> 'files option"
    and key :: "'s \<Rightarrow> 'i"
    and wf :: "'s \<Rightarrow> bool"
  assumes load_saved: "wf s \<Longrightarrow> save s f = Some f' \<Longrightarrow> load f' (key s) = Some s"
    and load_wf: "load f i = Some s \<Longrightarrow> wf s \<and> key s = i"
    and load_other: "save s f = Some f' \<Longrightarrow> wf s \<Longrightarrow> i \<noteq> key s \<Longrightarrow> load f' i = load f i"
begin

lemma update_load:
  assumes "load f i = Some s" "save (g s) f = Some f'" "wf s \<Longrightarrow> wf (g s)" "key (g s) = key s"
  shows "load f' j = (if j = i then Some (g s) else load f j)"
proof -
  from load_wf [OF assms(1)] have "wf (g s)" "key (g s) = i" using assms(3,4) by auto
  then show ?thesis using load_saved [OF _ assms(2)] load_other [OF assms(2)] by auto
qed

lemma save_twice:
  assumes "wf s" "wf t" "key s = key t" "save s f = Some f1" "save t f1 = Some f2"
  shows "load f2 (key s) = Some t"
  using load_saved [OF assms(2,5)] assms(3) by simp

end

definition memory_load :: "memory_files \<Rightarrow> string \<Rightarrow> Session option" where
  "memory_load files id' = (case session_load (\<lambda>_. True) files id' of (rc, s) \<Rightarrow> if rc < 0 then None else Some s)"

definition memory_save :: "bool \<Rightarrow> Session \<Rightarrow> memory_files \<Rightarrow> memory_files option" where
  "memory_save io s files = (case session_save (\<lambda>_. True) io s files of (rc, f) \<Rightarrow> if rc = 0 then Some f else None)"

lemma session_path_inj:
  assumes "session_path i = session_path j" "i = [] \<or> session_id_valid i" "j = [] \<or> session_id_valid j"
  shows "i = j"
proof -
  have "length i \<le> 64" "length j \<le> 64" using assms(2,3) by (auto simp: session_id_valid_def SESSION_ID_MAX_def)
  then show ?thesis using assms(1) by (auto simp: session_path_def MAX_PATH_SIZE_def split: if_splits)
qed

lemma session_load_other:
  assumes "session_save alloc io s f = (0, f')" "j \<noteq> ss_id s"
  shows "session_load a f' j = session_load a f j"
proof (cases "j = [] \<or> session_id_valid j")
  case True
  then have "session_path j \<noteq> session_path (ss_id s)" using session_path_inj session_save_text [OF assms(1)] assms(2) by blast
  then have "f' (session_path j) = f (session_path j)" using session_save_text [OF assms(1)] by simp
  then show ?thesis by (simp only: session_load_def)
next
  case False
  then show ?thesis by (simp add: session_load_def)
qed

lemma memory_save_text: "memory_save io s f = Some f' \<Longrightarrow>
    f' = f(session_path (ss_id s) := Stored (session_text s)) \<and> (ss_id s = [] \<or> session_id_valid (ss_id s))"
  using session_save_text [of "\<lambda>_. True" io s f] by (auto simp: memory_save_def split: prod.splits if_splits)

interpretation memory: persistent_store memory_load "memory_save io" ss_id session_wf for io
proof
  show "memory_load f' (ss_id s) = Some s" if "session_wf s" "memory_save io s f = Some f'" for s f f'
    using session_load_saved [OF that(1)] memory_save_text [OF that(2)] by (simp add: memory_load_def)
  show "session_wf s \<and> ss_id s = i" if "memory_load f i = Some s" for f i s
    using that session_load_wf by (auto simp: memory_load_def split: prod.splits if_splits)
  show "memory_load f' i = memory_load f i" if "memory_save io s f = Some f'" "session_wf s" "i \<noteq> ss_id s" for s f f' i
    using that session_load_other [of "\<lambda>_. True" io s f f' i] by (auto simp: memory_save_def memory_load_def split: prod.splits if_splits)
qed

section \<open>Facts\<close>

lemma set_str_utf8_whole: "utf8_wf x \<Longrightarrow> length x < n \<Longrightarrow> set_str_utf8 n (Some (x @ [NUL])) = Some x"
  using utf8.store_exact [of x n] set_str_utf8_wf [of x n] by auto

lemma set_fact_map: "list_ex (\<lambda>f. fst f = key) fs \<Longrightarrow> map_of (set_fact key v fs) k = (if k = key then Some v else map_of fs k)"
  by (induction fs) auto

lemma set_fact_set: "x \<in> set (set_fact key v fs) \<Longrightarrow> x \<in> set fs \<or> x = (key, v)"
  by (induction fs) (auto split: if_splits)

lemma length_set_fact [simp]: "length (set_fact key v fs) = length fs"
  by (induction fs) auto

lemma fact_set_map:
  assumes "session_fact_set s key (Some val) = Some (0, s')" "utf8_wf key" "length key \<le> SESSION_KEY_MAX" "utf8_wf val"
    "val \<noteq> []" "length val \<le> SESSION_VAL_MAX" "session_wf s"
  shows "session_fact_get s' k = (if k = key then Some val else session_fact_get s k) \<and> session_wf s' \<and> ss_id s' = ss_id s"
proof -
  have v: "set_str (SESSION_VAL_MAX + 1) val = val" "set_str_utf8 (SESSION_VAL_MAX + 1) (Some (val @ [NUL])) = Some val"
    "set_str_utf8 (SESSION_KEY_MAX + 1) (Some (key @ [NUL])) = Some key"
    using assms(2-6) set_str_utf8_whole [of val] set_str_utf8_whole [of key] by (simp_all add: set_str_def)
  have kv: "fact_wf (key, val)"
    using assms utf8_wf_no_NUL by (auto simp: fact_wf_def fits_def session_fact_set_def bad_key_def split: if_splits)
  show ?thesis
  proof (cases "list_ex (\<lambda>f. fst f = key) (ss_facts s)")
    case True
    with assms(1) v have s': "s' = s\<lparr>ss_facts := set_fact key val (ss_facts s)\<rparr>" by (auto simp: session_fact_set_def Let_def split: if_splits)
    moreover have "list_all fact_wf (set_fact key val (ss_facts s))"
      using assms(7) kv set_fact_set by (fastforce simp: session_wf_def list_all_iff)
    ultimately show ?thesis using assms(7) set_fact_map [OF True] by (simp add: session_fact_get_def session_wf_def)
  next
    case False
    with assms(1) v have s': "s' = s\<lparr>ss_facts := ss_facts s @ [(key, val)]\<rparr>" "length (ss_facts s) < SESSION_FACTS_MAX"
      by (auto simp: session_fact_set_def Let_def split: if_splits)
    have "map_of (ss_facts s) key = None" using False by (auto simp: map_of_eq_None_iff list_ex_iff)
    with s' kv assms(7) show ?thesis by (auto simp: session_fact_get_def session_wf_def map_add_def split: option.split)
  qed
qed

section \<open>Properties\<close>

text \<open>
  (C21) A saved conversation comes back unchanged.  After a save that reports success, loading the same id gives
  the session that was saved (messages with their roles, and facts, in order), whatever bytes the texts hold: exactly
  that session when none of its texts is empty; otherwise an empty message comes back as \<open>(no text)\<close> and a fact with an
  empty key or value is left out.  And every session the loader returns is of the kind that comes back exactly, whatever
  the file holds.
\<close>

theorem session_roundtrip:
  assumes "session_fits s" "session_save alloc io s files = (0, files')"
  shows "session_load (\<lambda>_. True) files' (ss_id s) = (0, reloaded s) \<and> (session_wf s \<longrightarrow> reloaded s = s) \<and>
    (\<forall>alloc' files'' i. 0 \<le> fst (session_load alloc' files'' i) \<longrightarrow> session_wf (snd (session_load alloc' files'' i)))"
  using session_load_fits [OF assms(1)] session_save_text [OF assms(2)] session_load_wf reloaded_wf by (metis prod.collapse)

definition demo_session :: Session where
  "demo_session = \<lparr>ss_id = ''s-1'', ss_msgs = [(''user'', [DQUOTE, LF])], ss_facts = [(''k'', ''v'')]\<rparr>"

lemma session_save_ok:
  "ss_id s = [] \<or> session_id_valid (ss_id s) \<Longrightarrow>
   session_save (\<lambda>_. True) True s files = (0, files(session_path (ss_id s) := Stored (session_text s)))"
  using sb_puts_alloc [of zero_sbuf "session_pieces s"] sb.puts_written [of "\<lambda>_. True" zero_sbuf "session_pieces s"]
  by (auto simp: session_save_def Let_def concat_session_pieces)

lemma demo_session_wf: "session_wf demo_session"
  by (simp add: session_wf_def demo_session_def msg_wf_def fact_wf_def fits_def session_id_valid_def id_char_def isalnum_def isalpha_def
      isdigit_def SESSION_ID_MAX_def SESSION_MSG_MAX_def SESSION_FACTS_MAX_def SESSION_KEY_MAX_def SESSION_VAL_MAX_def SESSION_CONTENT_MAX_def)

theorem session_roundtrip_witness:
  "session_load (\<lambda>_. True) ((\<lambda>_. NoFile)(session_path ''s-1'' := Stored (session_text demo_session))) ''s-1'' = (0, demo_session)"
proof -
  have s: "session_save (\<lambda>_. True) True demo_session (\<lambda>_. NoFile) =
      (0, (\<lambda>_. NoFile)(session_path ''s-1'' := Stored (session_text demo_session)))"
    using session_save_ok [of demo_session "\<lambda>_. NoFile"] demo_session_wf by (auto simp: session_wf_def demo_session_def)
  have "session_fits demo_session" using reloaded_wf [OF demo_session_wf] by simp
  from session_roundtrip [OF this s] demo_session_wf show ?thesis by (simp add: demo_session_def)
qed

text \<open>A fact with an empty value: \<open>session_fact_set\<close> stores it and reports success, and the next load leaves it out.\<close>

theorem empty_fact_forgotten:
  "session_fact_set (empty_session ''s-1'') ''k'' (Some []) = Some (0, \<lparr>ss_id = ''s-1'', ss_msgs = [], ss_facts = [(''k'', [])]\<rparr>)"
  "reloaded \<lparr>ss_id = ''s-1'', ss_msgs = [], ss_facts = [(''k'', [])]\<rparr> = empty_session ''s-1''"
  by code_simp+

text \<open>
  What the agent remembers it can recall.  When \<open>remember\<close> reports success for a key and a non-empty value within
  the limits, \<open>recall\<close> with the same session id returns that value from the file, every other fact of the
  session is as before, and no other session is touched.
\<close>

theorem remembered_fact_recalled:
  assumes "session_fact_set_file (\<lambda>_. True) io id' key (Some val) files = Some (0, files')"
    and "utf8_wf key" "length key \<le> SESSION_KEY_MAX" "utf8_wf val" "val \<noteq> []" "length val \<le> SESSION_VAL_MAX"
  shows "session_fact_get_file (\<lambda>_. True) files' id' key (SESSION_VAL_MAX + 1) = Some val \<and>
    (\<forall>j k n. j \<noteq> id' \<or> k \<noteq> key \<longrightarrow> session_fact_get_file (\<lambda>_. True) files' j k n = session_fact_get_file (\<lambda>_. True) files j k n)"
proof -
  obtain rc s where l: "session_load (\<lambda>_. True) files id' = (rc, s)" by (cases "session_load (\<lambda>_. True) files id'")
  with assms(1) obtain s' where s': "\<not> rc < 0" "session_fact_set s key (Some val) = Some (0, s')" "session_save (\<lambda>_. True) io s' files = (0, files')"
    by (auto simp: session_fact_set_file_def split: option.splits if_splits)
  then have ld: "memory_load files id' = Some s" "memory_save io s' files = Some files'" using l by (simp_all add: memory_load_def memory_save_def)
  have wf: "session_wf s" "ss_id s = id'" using memory.load_wf [OF ld(1)] by simp_all
  note fs = fact_set_map [OF s'(2) assms(2-6) wf(1)]
  have after: "session_load (\<lambda>_. True) files' id' = (0, s')"
    using session_load_saved [of s' files] session_save_text [OF s'(3)] fs wf by simp
  have "session_fact_get_file (\<lambda>_. True) files' id' key (SESSION_VAL_MAX + 1) = Some val"
    using after fs [of key] assms(6) by (simp add: session_fact_get_file_def set_str_def)
  moreover have "session_fact_get_file (\<lambda>_. True) files' j k n = session_fact_get_file (\<lambda>_. True) files j k n" if "j \<noteq> id'" for j k n
    using session_load_other [OF s'(3), of j] that fs wf by (simp add: session_fact_get_file_def)
  moreover have "session_fact_get_file (\<lambda>_. True) files' id' k n = session_fact_get_file (\<lambda>_. True) files id' k n" if "k \<noteq> key" for k n
  proof (cases "rc = 0")
    case True
    then show ?thesis using l after fs [of k] that by (simp add: session_fact_get_file_def)
  next
    case False
    then have "s = empty_session id'" using l s'(1) by (auto simp: session_load_def Let_def split: stored.splits if_splits prod.splits)
    then show ?thesis using False l after fs [of k] that by (simp add: session_fact_get_file_def session_fact_get_def empty_session_def)
  qed
  ultimately show ?thesis by metis
qed

theorem remembered_fact_recalled_witness:
  "session_fact_get_file (\<lambda>_. True) ((\<lambda>_. NoFile)(session_path ''s1'' :=
     Stored (session_text \<lparr>ss_id = ''s1'', ss_msgs = [], ss_facts = [(''k'', ''v'')]\<rparr>))) ''s1'' ''k'' (SESSION_VAL_MAX + 1) = Some ''v''"
proof -
  have id': "session_id_valid ''s1''" by code_simp
  have e: "empty_session ''s1'' = \<lparr>ss_id = ''s1'', ss_msgs = [], ss_facts = []\<rparr>"
    using valid_id_fits [OF id'] by (simp add: empty_session_def)
  have u: "utf8_wf ''k''" "utf8_wf ''v''" by (auto intro!: utf8_wf.intros)
  have "bad_key ''k'' = False" by code_simp
  then have "session_fact_set (empty_session ''s1'') ''k'' (Some ''v'') = Some (0, \<lparr>ss_id = ''s1'', ss_msgs = [], ss_facts = [(''k'', ''v'')]\<rparr>)"
    using set_str_utf8_whole [OF u(1), of "SESSION_KEY_MAX + 1"] set_str_utf8_whole [OF u(2), of "SESSION_VAL_MAX + 1"]
    by (simp add: session_fact_set_def e set_str_def SESSION_KEY_MAX_def SESSION_VAL_MAX_def SESSION_FACTS_MAX_def)
  moreover have "session_load (\<lambda>_. True) (\<lambda>_. NoFile) ''s1'' = (1, empty_session ''s1'')" by (simp add: session_load_def id')
  ultimately have "session_fact_set_file (\<lambda>_. True) True ''s1'' ''k'' (Some ''v'') (\<lambda>_. NoFile) =
      Some (0, (\<lambda>_. NoFile)(session_path ''s1'' := Stored (session_text \<lparr>ss_id = ''s1'', ss_msgs = [], ss_facts = [(''k'', ''v'')]\<rparr>)))"
    using session_save_ok [of "\<lparr>ss_id = ''s1'', ss_msgs = [], ss_facts = [(''k'', ''v'')]\<rparr>" "\<lambda>_. NoFile"] id'
    by (simp add: session_fact_set_file_def)
  from remembered_fact_recalled [OF this u(1) _ u(2)] show ?thesis by (simp add: SESSION_KEY_MAX_def SESSION_VAL_MAX_def)
qed

text \<open>
  An id that passes the check names a file directly inside the session directory: it has no slash and no
  dot, and the path is not cut.
\<close>

lemma session_path_confined:
  assumes "session_id_valid id'"
  shows "session_path id' = ''.data/sessions/'' @ id' @ ''.json'' \<and> CHR ''/'' \<notin> set id' \<and> CHR ''.'' \<notin> set id'"
proof -
  have "list_all id_char id'" "length id' \<le> 64" "id' \<noteq> []" using assms by (auto simp: session_id_valid_def SESSION_ID_MAX_def)
  then show ?thesis
    by (auto simp: session_path_def MAX_PATH_SIZE_def list_all_iff id_char_def isalnum_def isalpha_def isdigit_def)
qed

section \<open>Findings\<close>

text \<open>A file that cannot be held in memory is loaded as an empty session, with success: the next save overwrites it.\<close>

theorem failed_read_loads_empty:
  "session_id_valid id' \<Longrightarrow> files (session_path id') = Stored (c # x) \<Longrightarrow> session_load (\<lambda>_. False) files id' = (0, empty_session id')"
proof -
  assume i: "session_id_valid id'" and f: "files (session_path id') = Stored (c # x)"
  have z: "sb_mem (\<lambda>_. False) zero_sbuf y = zero_sbuf\<lparr>sb_oom := True\<rparr>" for y
    by (simp add: sb_mem_def sb_reserve_def Let_def zero_sbuf_def)
  have "sb_oom (foldl (sb_mem (\<lambda>_. False)) zero_sbuf (file_pieces (c # x)))"
    using sb.puts_failed [of "zero_sbuf\<lparr>sb_oom := True\<rparr>" "\<lambda>_. False" "file_pieces (drop 4096 (c # x))"]
    by (simp add: z del: take_Suc_Cons drop_Suc_Cons)
  with i f show ?thesis by (simp add: session_load_def Let_def del: file_pieces.simps)
qed

text \<open>So is a file that is not an object at all.\<close>

theorem garbage_loads_empty: "session_load (\<lambda>_. True) (\<lambda>_. Stored ''[]'') ''s1'' = (0, empty_session ''s1'')"
  by code_simp

text \<open>A key longer than 64 bytes is stored cut, is not found again under its name, and takes a new slot on every set.\<close>

theorem long_key_not_found:
  assumes "session_wf s" "\<not> bad_key key" "utf8_wf key" "SESSION_KEY_MAX < length key" "length (ss_facts s) < SESSION_FACTS_MAX"
    "utf8_wf val" "length val \<le> SESSION_VAL_MAX"
  shows "\<exists>s'. session_fact_set s key (Some val) = Some (0, s') \<and> session_fact_get s' key = None \<and> length (ss_facts s') = length (ss_facts s) + 1"
proof -
  have short: "fst f \<noteq> key" if "f \<in> set (ss_facts s)" for f
    using assms(1,4) that by (auto simp: session_wf_def list_all_iff fact_wf_def fits_def)
  obtain k where k: "set_str_utf8 (SESSION_KEY_MAX + 1) (Some (key @ [NUL])) = Some (take k key)" "k < SESSION_KEY_MAX + 1"
    using set_str_utf8_wf [OF assms(3), of "SESSION_KEY_MAX + 1"] by auto
  have "length (take k key) \<noteq> length key" using k(2) assms(4) by simp
  then have "key \<noteq> take k key" by metis
  moreover have "map_of (ss_facts s) key = None" using short by (auto simp: map_of_eq_None_iff)
  moreover have "\<not> list_ex (\<lambda>f. fst f = key) (ss_facts s)" using short by (auto simp: list_ex_iff)
  ultimately show ?thesis
    using assms k set_str_utf8_whole [OF assms(6), of "SESSION_VAL_MAX + 1"]
    by (simp add: session_fact_set_def session_fact_get_def set_str_def map_add_def Let_def)
qed

text \<open>The pruning removes files that no session id could have.\<close>

theorem prune_removes_foreign_files:
  "session_prune_old 100 10 [(''a.b.json'', Some 0), (''.json'', Some 0)] = [''a.b.json'', ''.json'']" "\<not> session_id_valid ''a.b''"
  by code_simp+

end
