(* ===== verification/Fetch_Guard.thy ===== *)
theory Fetch_Guard
  imports Rate_Limit Minijson Util
begin

text \<open>
  The \<open>fetch_url\<close> tool of \<open>src/src/agent/tools.c\<close>: the model chooses a URL, the server fetches it with \<open>curl\<close>.
  Before every request, the first and each redirect, the target is checked against the ranges of
  loopback, private and reserved addresses.  \<open>inet_pton\<close>, \<open>getaddrinfo\<close> and \<open>curl\<close> are parameters.
\<close>

unbundle bit_operations_syntax

definition TOOL_FETCH_MAX :: nat where "TOOL_FETCH_MAX = 16384"
definition TOOL_FETCH_MAX_HOPS :: nat where "TOOL_FETCH_MAX_HOPS = 5"
definition TOOL_FETCH_READ_MAX :: nat where "TOOL_FETCH_READ_MAX = TOOL_FETCH_MAX + 4096"

section \<open>Blocked addresses\<close>

definition v4_blocked :: "8 word list \<Rightarrow> bool" where
  "v4_blocked b \<longleftrightarrow>
     b ! 0 = 0 \<or> b ! 0 = 10 \<or> b ! 0 = 127 \<or>
     (b ! 0 = 100 \<and> b ! 1 AND 0xc0 = 64) \<or>
     (b ! 0 = 169 \<and> b ! 1 = 254) \<or>
     (b ! 0 = 172 \<and> b ! 1 AND 0xf0 = 16) \<or>
     (b ! 0 = 192 \<and> (b ! 1 = 0 \<or> b ! 1 = 2 \<or> b ! 1 = 168)) \<or>
     (b ! 0 = 198 \<and> b ! 1 AND 0xfe = 18) \<or>
     (b ! 0 = 198 \<and> b ! 1 = 51 \<and> b ! 2 = 100) \<or>
     (b ! 0 = 203 \<and> b ! 1 = 0 \<and> b ! 2 = 113)"

text \<open>The address classes of \<open>netinet/in.h\<close>.\<close>

definition in6_unspecified :: "8 word list \<Rightarrow> bool" where
  "in6_unspecified b \<longleftrightarrow> take 16 b = replicate 16 0"

definition in6_loopback :: "8 word list \<Rightarrow> bool" where
  "in6_loopback b \<longleftrightarrow> take 16 b = replicate 15 0 @ [1]"

definition in6_linklocal :: "8 word list \<Rightarrow> bool" where
  "in6_linklocal b \<longleftrightarrow> b ! 0 = 0xfe \<and> b ! 1 AND 0xc0 = 0x80"

definition in6_sitelocal :: "8 word list \<Rightarrow> bool" where
  "in6_sitelocal b \<longleftrightarrow> b ! 0 = 0xfe \<and> b ! 1 AND 0xc0 = 0xc0"

definition in6_v4mapped :: "8 word list \<Rightarrow> bool" where
  "in6_v4mapped b \<longleftrightarrow> take 12 b = replicate 10 0 @ [0xff, 0xff]"

definition in6_v4compat :: "8 word list \<Rightarrow> bool" where
  "in6_v4compat b \<longleftrightarrow> take 12 b = replicate 12 0 \<and> \<not> in6_unspecified b \<and> \<not> in6_loopback b"

definition addr_is_blocked :: "sockaddr \<Rightarrow> bool" where
  "addr_is_blocked sa =
     (case sa of
        Sin b \<Rightarrow> v4_blocked b
      | Sin6 b \<Rightarrow>
          if in6_unspecified b \<or> in6_loopback b \<or> in6_linklocal b \<or> in6_sitelocal b \<or> b ! 0 AND 0xfe = 0xfc then True
          else if in6_v4mapped b \<or> in6_v4compat b then v4_blocked (drop 12 b)
          else False
      | SaOther \<Rightarrow> False)"

section \<open>The target of a URL\<close>

text \<open>The host part that is looked up: \<open>None\<close> without a scheme separator, empty for an empty authority.\<close>

definition url_host :: "string \<Rightarrow> string option" where
  "url_host url =
     (case strstr url ''://'' of
        None \<Rightarrow> None
      | Some scheme \<Rightarrow>
          let auth = drop 3 scheme;
              at = dropWhile (\<lambda>c. c \<notin> set ''/?#@'') auth;
              host = (if at \<noteq> [] \<and> hd at = CHR ''@'' then tl at else auth)
          in Some (take 511
               (if host \<noteq> [] \<and> hd host = CHR ''['' then
                  (case strchr host (CHR '']'') of None \<Rightarrow> host | Some cb \<Rightarrow> take (length host - length cb + 1) host)
                else takeWhile (\<lambda>c. c \<notin> set ''/:?#'') host)))"

text \<open>The text tried as an address literal, without brackets.\<close>

definition host_literal :: "string \<Rightarrow> string" where
  "host_literal hbuf =
     (let lit = (if hbuf \<noteq> [] \<and> hd hbuf = CHR ''['' then tl hbuf else hbuf)
      in if lit \<noteq> [] \<and> last lit = CHR '']'' then butlast lit else lit)"

record resolver =
  rv_pton4 :: "string \<Rightarrow> 8 word list option"
  rv_pton6 :: "string \<Rightarrow> 8 word list option"
  rv_lookup :: "string \<Rightarrow> sockaddr list option"

text \<open>The addresses a host stands for: its literal value, or everything the lookup returns.\<close>

definition host_addresses :: "resolver \<Rightarrow> string \<Rightarrow> sockaddr list option" where
  "host_addresses rv hbuf =
     (let ip = host_literal hbuf;
          literal = (if length ip < 64 then
                       (case rv_pton4 rv ip of
                          Some a \<Rightarrow> Some [Sin a]
                        | None \<Rightarrow> (case rv_pton6 rv ip of Some a \<Rightarrow> Some [Sin6 a] | None \<Rightarrow> None))
                     else None)
      in case literal of Some as \<Rightarrow> Some as | None \<Rightarrow> rv_lookup rv hbuf)"

definition fetch_url_blocked :: "resolver \<Rightarrow> string \<Rightarrow> bool" where
  "fetch_url_blocked rv url =
     (case url_host url of
        None \<Rightarrow> False
      | Some hbuf \<Rightarrow>
          if hbuf = [] then False
          else (case host_addresses rv hbuf of
                  None \<Rightarrow> True
                | Some as \<Rightarrow> if as = [] then True else list_ex addr_is_blocked as))"

section \<open>Redirects\<close>

fun header_search :: "string \<Rightarrow> char \<Rightarrow> string \<Rightarrow> string option" where
  "header_search name prev [] = None"
| "header_search name prev (c # p) =
     (if ci_prefix name (c # p) then
        (if prev = LF \<and> drop (length name) (c # p) \<noteq> [] \<and> hd (drop (length name) (c # p)) = CHR '':''
         then Some (drop (length name + 1) (c # p))
         else if name = [] then None
         else header_search name (last (take (length name) (c # p))) (drop (length name) (c # p)))
      else header_search name c p)"

definition http_header_value :: "string \<Rightarrow> string \<Rightarrow> nat \<Rightarrow> string option" where
  "http_header_value hdr name outsz =
     map_option (\<lambda>v. take (outsz - 1) (takeWhile (\<lambda>c. c \<noteq> CR \<and> c \<noteq> LF) (dropWhile (\<lambda>c. c = CHR '' '' \<or> c = TAB) v)))
       (header_search name LF hdr)"

definition http_status_code :: "string \<Rightarrow> int" where
  "http_status_code hdr =
     (let sp = dropWhile (\<lambda>c. c \<noteq> CHR '' '' \<and> c \<noteq> TAB) hdr
      in if sp = [] \<or> tl sp = [] \<or> \<not> isdigit (hd (tl sp)) then 0
         else let code = wrap32 (fst (strtol10 (tl sp))) in if 100 \<le> code \<and> code < 600 then code else 0)"

definition url_origin :: "string \<Rightarrow> nat \<Rightarrow> string" where
  "url_origin url outsz =
     (case strstr url ''://'' of
        None \<Rightarrow> take (outsz - 1) ''http://''
      | Some s \<Rightarrow>
          take (outsz - 1) (take (length url - length s + 3) url @ takeWhile (\<lambda>c. c \<notin> set ''/?#'') (drop 3 s)))"

definition resolve_redirect :: "string \<Rightarrow> string \<Rightarrow> nat \<Rightarrow> string" where
  "resolve_redirect base loc outsz =
     take (outsz - 1)
       (if ci_prefix ''http://'' loc \<or> ci_prefix ''https://'' loc then loc
        else if take 2 loc = ''//'' then
          (case strstr base ''://'' of None \<Rightarrow> ''http:'' | Some s \<Rightarrow> take (length base - length s + 3) base) @ loc
        else if loc \<noteq> [] \<and> hd loc = CHR ''/'' then url_origin base 1024 @ loc
        else url_origin base 1024 @ ''/'' @ loc)"

section \<open>The tool\<close>

text \<open>
  One run of \<open>curl\<close>: what it wrote, and how the child ended (\<open>None\<close>: it was reaped elsewhere; \<open>Some None\<close>: by a
  signal).
\<close>

datatype curl_run = PipeFailed | ForkFailed | OutOfMemory | Ran string "nat option option"

definition split_body :: "string \<Rightarrow> string" where
  "split_body buf =
     (case strstr (cstr buf) (crlf @ crlf) of
        Some h \<Rightarrow> drop (length (cstr buf) - length h + 4) buf
      | None \<Rightarrow>
          (case strstr (cstr buf) [LF, LF] of
             Some h \<Rightarrow> drop (length (cstr buf) - length h + 2) buf
           | None \<Rightarrow> []))"

definition fetch_reply :: "string \<Rightarrow> nat option option \<Rightarrow> string" where
  "fetch_reply buf ended =
     (let body = split_body buf
      in if body \<noteq> [] then
           take TOOL_FETCH_MAX body @ (if length body > TOOL_FETCH_MAX then LF # ''...[truncated at 16KB]'' else [])
         else case ended of
                None \<Rightarrow> []
              | Some e \<Rightarrow>
                  if http_status_code (cstr buf) = 0 \<or> e \<noteq> Some 0 then
                    (if e = Some 127 then ''error: curl(1) not found in PATH''
                     else ''error: fetch returned no body (curl exit code in tool output above)'')
                  else [])"

definition blocked_message :: string where
  "blocked_message = ''error: url is blocked '' @ [CHR 0xE2, CHR 0x80, CHR 0x94] @ '' unresolvable or targets a loopback/private network''"

text \<open>
  The redirect loop: the text for the model, the URLs \<open>curl\<close> was started with, and whether the reply buffer is
  freed twice.  \<open>freed\<close>: the buffer pointer is still the one the previous round has freed.
\<close>

record fetch_result =
  fr_text :: string
  fr_urls :: "string list"
  fr_double_free :: bool

definition fetch_next :: "string \<Rightarrow> nat \<Rightarrow> string \<Rightarrow> string option" where
  "fetch_next cur hop buf =
     (let code = http_status_code (cstr buf)
      in if 300 \<le> code \<and> code < 400 \<and> hop < TOOL_FETCH_MAX_HOPS
         then map_option (\<lambda>loc. resolve_redirect cur loc 2048) (http_header_value (cstr buf) ''location'' 2048)
         else None)"

function fetch_loop :: "resolver \<Rightarrow> (string \<Rightarrow> curl_run) \<Rightarrow> nat \<Rightarrow> bool \<Rightarrow> string \<Rightarrow> fetch_result" where
  "fetch_loop rv curl hop freed cur =
     (if fetch_url_blocked rv cur then \<lparr>fr_text = blocked_message, fr_urls = [], fr_double_free = freed\<rparr>
      else case curl cur of
             PipeFailed \<Rightarrow> \<lparr>fr_text = ''error: pipe failed'', fr_urls = [], fr_double_free = freed\<rparr>
           | ForkFailed \<Rightarrow> \<lparr>fr_text = ''error: fork failed'', fr_urls = [], fr_double_free = freed\<rparr>
           | OutOfMemory \<Rightarrow> \<lparr>fr_text = ''error: out of memory'', fr_urls = [cur], fr_double_free = False\<rparr>
           | Ran output ended \<Rightarrow>
               let buf = take TOOL_FETCH_READ_MAX output
               in case fetch_next cur hop buf of
                    Some nxt \<Rightarrow>
                      let r = fetch_loop rv curl (hop + 1) (buf \<noteq> []) nxt in r\<lparr>fr_urls := cur # fr_urls r\<rparr>
                  | None \<Rightarrow> \<lparr>fr_text = fetch_reply buf ended, fr_urls = [cur], fr_double_free = False\<rparr>)"
  by pat_completeness auto
termination
  by (relation "measure (\<lambda>(rv, curl, hop, freed, cur). TOOL_FETCH_MAX_HOPS - hop)")
    (auto simp: fetch_next_def Let_def split: if_splits)

declare fetch_loop.simps [simp del]

definition tool_str_arg :: "string \<Rightarrow> string \<Rightarrow> nat \<Rightarrow> string option" where
  "tool_str_arg args key outsz =
     (case jfind_value args key of
        None \<Rightarrow> None
      | Some v \<Rightarrow> if v = [] \<or> hd v \<noteq> DQUOTE then None else map_option (\<lambda>r. cstr (fst r)) (jread_string outsz v))"

definition tool_fetch_url :: "resolver \<Rightarrow> (string \<Rightarrow> curl_run) \<Rightarrow> string \<Rightarrow> fetch_result" where
  "tool_fetch_url rv curl args =
     (case tool_str_arg args ''url'' 1024 of
        None \<Rightarrow> \<lparr>fr_text = ''error: missing string argument '' @ [CHR 0x27] @ ''url'' @ [CHR 0x27], fr_urls = [], fr_double_free = False\<rparr>
      | Some url \<Rightarrow>
          if \<not> (ci_prefix ''http://'' url \<or> ci_prefix ''https://'' url) \<or>
             list_ex (\<lambda>c. c \<in> set [CHR '' '', CR, LF, TAB, DQUOTE, CHR 0x27]) url
          then \<lparr>fr_text = ''error: url must be an absolute http(s) URL'', fr_urls = [], fr_double_free = False\<rparr>
          else fetch_loop rv curl 0 False url)"

section \<open>Which addresses are blocked\<close>

text \<open>An IPv4 address as a number, and the networks the test stands for.\<close>

definition v4_value :: "8 word list \<Rightarrow> nat" where
  "v4_value b = unat (b ! 0) * 2 ^ 24 + unat (b ! 1) * 2 ^ 16 + unat (b ! 2) * 2 ^ 8 + unat (b ! 3)"

definition net4 :: "nat \<Rightarrow> nat \<Rightarrow> nat \<Rightarrow> nat \<Rightarrow> nat" where
  "net4 a b c p = (a * 2 ^ 24 + b * 2 ^ 16 + c * 2 ^ 8) div 2 ^ (32 - p)"

definition in_net4 :: "nat \<times> nat \<times> nat \<times> nat \<Rightarrow> 8 word list \<Rightarrow> bool" where
  "in_net4 n x = (case n of (a, b, c, p) \<Rightarrow> v4_value x div 2 ^ (32 - p) = net4 a b c p)"

definition blocked_nets :: "(nat \<times> nat \<times> nat \<times> nat) list" where
  "blocked_nets =
     [(0, 0, 0, 8), (10, 0, 0, 8), (127, 0, 0, 8), (100, 64, 0, 10), (169, 254, 0, 16), (172, 16, 0, 12),
      (192, 0, 0, 16), (192, 2, 0, 16), (192, 168, 0, 16), (198, 18, 0, 15), (198, 51, 100, 24), (203, 0, 113, 24)]"

lemma unat_byte: "unat (w :: 8 word) < 256"
proof -
  have "unat w < 2 ^ LENGTH(8)" by (rule unsigned_less)
  then show ?thesis by simp
qed

lemma high_bits: "w AND NOT (mask k) = push_bit k (drop_bit k w)" for w :: "8 word"
  by (rule bit_word_eqI) (auto simp: bit_simps)

lemma high_bits_eq:
  fixes w c :: "8 word"
  assumes "c AND NOT (mask k) = c"
  shows "w AND NOT (mask k) = c \<longleftrightarrow> unat w div 2 ^ k = unat c div 2 ^ k"
proof -
  have "w AND NOT (mask k) = c \<longleftrightarrow> drop_bit k w = drop_bit k c"
  proof
    assume e: "w AND NOT (mask k) = c"
    show "drop_bit k w = drop_bit k c"
      unfolding e [symmetric] by (rule bit_word_eqI) (auto simp: bit_simps dest: bit_imp_le_length)
  next
    assume "drop_bit k w = drop_bit k c"
    then show "w AND NOT (mask k) = c" using high_bits [of w k] high_bits [of c k] assms by simp
  qed
  also have "\<dots> \<longleftrightarrow> unat (drop_bit k w) = unat (drop_bit k c)" by (rule word_eq_iff_unsigned)
  finally show ?thesis by (simp only: unat_drop_bit_eq drop_bit_nat_def)
qed

lemma byte_masks:
  fixes w :: "8 word"
  shows "w AND 0xc0 = 64 \<longleftrightarrow> unat w div 64 = 1" "w AND 0xf0 = 16 \<longleftrightarrow> unat w div 16 = 1" "w AND 0xfe = 18 \<longleftrightarrow> unat w div 2 = 9"
proof -
  have m: "NOT (mask 6) = (0xc0 :: 8 word)" "NOT (mask 4) = (0xf0 :: 8 word)" "NOT (mask 1) = (0xfe :: 8 word)" by code_simp+
  show "w AND 0xc0 = 64 \<longleftrightarrow> unat w div 64 = 1" using high_bits_eq [of 64 6 w, unfolded m] by simp
  show "w AND 0xf0 = 16 \<longleftrightarrow> unat w div 16 = 1" using high_bits_eq [of 16 4 w, unfolded m] by simp
  show "w AND 0xfe = 18 \<longleftrightarrow> unat w div 2 = 9" using high_bits_eq [of 18 1 w, unfolded m] by simp
qed

lemma byte_eq: "w = c \<longleftrightarrow> unat w = unat c" for w c :: "8 word"
  by (rule word_eq_iff_unsigned)

text \<open>The leading bits of an address, byte by byte.\<close>

lemma v4_value_div:
  fixes b :: "8 word list"
  shows "v4_value b div 2 ^ 24 = unat (b ! 0)"
    "v4_value b div 2 ^ 16 = unat (b ! 0) * 256 + unat (b ! 1)"
    "v4_value b div 2 ^ 8 = unat (b ! 0) * 65536 + unat (b ! 1) * 256 + unat (b ! 2)"
    "v4_value b div 2 ^ 22 = unat (b ! 0) * 4 + unat (b ! 1) div 64"
    "v4_value b div 2 ^ 20 = unat (b ! 0) * 16 + unat (b ! 1) div 16"
    "v4_value b div 2 ^ 17 = unat (b ! 0) * 128 + unat (b ! 1) div 2"
  using unat_byte [of "b ! 0"] unat_byte [of "b ! 1"] unat_byte [of "b ! 2"] unat_byte [of "b ! 3"]
  by (simp_all add: v4_value_def)

lemma digits_eq: "y < m \<Longrightarrow> y' < m \<Longrightarrow> x * m + y = x' * m + y' \<longleftrightarrow> x = x' \<and> y = y'" for x :: nat
  by (metis add.commute div_mult_self1_is_m div_mult_self3 less_nat_zero_code mod_less mod_mult_self3 neq0_conv add_diff_cancel_left' div_less add_0)

lemma net_checks:
  fixes b :: "8 word list"
  shows "in_net4 (n, 0, 0, 8) b \<longleftrightarrow> unat (b ! 0) = n"
    "in_net4 (100, 64, 0, 10) b \<longleftrightarrow> unat (b ! 0) = 100 \<and> unat (b ! 1) div 64 = 1"
    "in_net4 (172, 16, 0, 12) b \<longleftrightarrow> unat (b ! 0) = 172 \<and> unat (b ! 1) div 16 = 1"
    "in_net4 (198, 18, 0, 15) b \<longleftrightarrow> unat (b ! 0) = 198 \<and> unat (b ! 1) div 2 = 9"
    "m < 256 \<Longrightarrow> in_net4 (n, m, 0, 16) b \<longleftrightarrow> unat (b ! 0) = n \<and> unat (b ! 1) = m"
    "m < 256 \<Longrightarrow> k < 256 \<Longrightarrow> in_net4 (n, m, k, 24) b \<longleftrightarrow> unat (b ! 0) = n \<and> unat (b ! 1) = m \<and> unat (b ! 2) = k"
proof -
  note u = unat_byte [of "b ! 1"] unat_byte [of "b ! 2"]
  have small: "unat (b ! 1) div 64 < 4" "unat (b ! 1) div 16 < 16" "unat (b ! 1) div 2 < 128" using u by simp_all
  show "in_net4 (n, 0, 0, 8) b \<longleftrightarrow> unat (b ! 0) = n"
    using v4_value_div(1) [of b] by (simp add: in_net4_def net4_def)
  show "in_net4 (100, 64, 0, 10) b \<longleftrightarrow> unat (b ! 0) = 100 \<and> unat (b ! 1) div 64 = 1"
    using v4_value_div(4) [of b] digits_eq [OF small(1), of 1 "unat (b ! 0)" 100] by (simp add: in_net4_def net4_def)
  show "in_net4 (172, 16, 0, 12) b \<longleftrightarrow> unat (b ! 0) = 172 \<and> unat (b ! 1) div 16 = 1"
    using v4_value_div(5) [of b] digits_eq [OF small(2), of 1 "unat (b ! 0)" 172] by (simp add: in_net4_def net4_def)
  show "in_net4 (198, 18, 0, 15) b \<longleftrightarrow> unat (b ! 0) = 198 \<and> unat (b ! 1) div 2 = 9"
    using v4_value_div(6) [of b] digits_eq [OF small(3), of 9 "unat (b ! 0)" 198] by (simp add: in_net4_def net4_def)
  show "in_net4 (n, m, 0, 16) b \<longleftrightarrow> unat (b ! 0) = n \<and> unat (b ! 1) = m" if "m < 256"
    using v4_value_div(2) [of b] digits_eq [OF u(1) that, of "unat (b ! 0)" n] by (simp add: in_net4_def net4_def algebra_simps div_mult2_eq)
  have "(unat (b ! 0) * 256 + unat (b ! 1)) * 256 + unat (b ! 2) = (n * 256 + m) * 256 + k \<longleftrightarrow>
      unat (b ! 0) = n \<and> unat (b ! 1) = m \<and> unat (b ! 2) = k" if "m < 256" "k < 256"
    by (simp only: digits_eq [OF u(2) that(2)] digits_eq [OF u(1) that(1)] conj_assoc)
  then show "in_net4 (n, m, k, 24) b \<longleftrightarrow> unat (b ! 0) = n \<and> unat (b ! 1) = m \<and> unat (b ! 2) = k" if "m < 256" "k < 256"
    using v4_value_div(3) [of b] that by (simp add: in_net4_def net4_def algebra_simps)
qed

text \<open>
  The IPv4 test blocks exactly the listed networks.  An address is blocked iff it lies in 0/8, 10/8, 127/8,
  100.64/10, 169.254/16, 172.16/12, 192.0/16, 192.2/16, 192.168/16, 198.18/15, 198.51.100/24 or 203.0.113/24.
\<close>

theorem v4_blocked_exact: "v4_blocked b \<longleftrightarrow> list_ex (\<lambda>n. in_net4 n b) blocked_nets"
  unfolding v4_blocked_def blocked_nets_def
  by (simp add: byte_masks byte_eq [of "b ! 0"] byte_eq [of "b ! Suc 0"] byte_eq [of "b ! 2"] net_checks) blast

text \<open>
  The IPv6 networks, as an address and a number of leading bits: the unspecified address, loopback, link-local, site-local and
  unique-local; and the two forms in which an IPv6 address stands for an IPv4 address.
\<close>

definition in_net6 :: "8 word list \<times> nat \<Rightarrow> 8 word list \<Rightarrow> bool" where
  "in_net6 n x = (case n of (a, p) \<Rightarrow> list_all (\<lambda>i. addr_bit x i = addr_bit a i) [0..<p])"

definition internal6_nets :: "(8 word list \<times> nat) list" where
  "internal6_nets = [(replicate 16 0, 128), (replicate 15 0 @ [1], 128), ([0xfe, 0x80], 10), ([0xfe, 0xc0], 10), ([0xfc], 7)]"

definition embedded_nets :: "(8 word list \<times> nat) list" where
  "embedded_nets = [(replicate 10 0 @ [0xff, 0xff], 96), (replicate 12 0, 96)]"

definition internal_v4 :: "8 word list \<Rightarrow> bool" where
  "internal_v4 b \<longleftrightarrow> list_ex (\<lambda>n. in_net4 n b) blocked_nets"

fun internal :: "sockaddr \<Rightarrow> bool" where
  "internal (Sin b) \<longleftrightarrow> internal_v4 b"
| "internal (Sin6 b) \<longleftrightarrow>
     list_ex (\<lambda>n. in_net6 n b) internal6_nets \<or> (list_ex (\<lambda>n. in_net6 n b) embedded_nets \<and> internal_v4 (drop 12 b))"
| "internal SaOther \<longleftrightarrow> False"

lemma byte_bits: "x = y \<longleftrightarrow> (\<forall>k < 8. bit x (7 - k) = bit y (7 - k))" for x y :: "8 word"
proof
  assume h: "\<forall>k < 8. bit x (7 - k) = bit y (7 - k)"
  show "x = y"
  proof (rule bit_word_eqI)
    fix n assume "n < LENGTH(8)"
    then show "bit x n = bit y n" using h [rule_format, of "7 - n"] by simp
  qed
qed simp

lemma in_net6_bytes:
  assumes "length a = k" and "k \<le> length b"
  shows "in_net6 (a, 8 * k) b \<longleftrightarrow> take k b = a"
proof
  assume h: "in_net6 (a, 8 * k) b"
  show "take k b = a"
  proof (rule nth_equalityI)
    fix j assume "j < length (take k b)"
    then have j: "j < k" using assms by simp
    have "addr_bit b (8 * j + m) = addr_bit a (8 * j + m)" if "m < 8" for m
      using h j that by (simp add: in_net6_def list_all_iff)
    then show "take k b ! j = a ! j" using j by (simp add: byte_bits [of "b ! j"] addr_bit_def)
  qed (use assms in simp)
next
  assume h: "take k b = a"
  have "b ! (i div 8) = a ! (i div 8)" if "i < 8 * k" for i
    using h that by (metis less_mult_imp_div_less mult.commute nth_take)
  then show "in_net6 (a, 8 * k) b" by (simp add: in_net6_def list_all_iff addr_bit_def)
qed

lemma two_bits: "x AND 0xc0 = y AND 0xc0 \<longleftrightarrow> bit x 7 = bit y 7 \<and> bit x 6 = bit y 6" for x y :: "8 word"
proof -
  have m: "mask_bytes 2 1 ! 0 = (0xc0 :: 8 word)" by code_simp
  have "x AND 0xc0 = y AND 0xc0 \<longleftrightarrow> (\<forall>k < 8. k < 2 \<longrightarrow> bit x (7 - k) = bit y (7 - k))"
    using mask_byte_eq [of 0 1 x 2 y] unfolding m by simp
  also have "\<dots> \<longleftrightarrow> (\<forall>k < 2. bit x (7 - k) = bit y (7 - k))" by auto
  also have "\<dots> \<longleftrightarrow> bit x 7 = bit y 7 \<and> bit x 6 = bit y 6" by (auto simp: numeral_2_eq_2 All_less_Suc)
  finally show ?thesis .
qed

lemma seven_bits: "x AND 0xfe = y AND 0xfe \<longleftrightarrow> (\<forall>k < 7. bit x (7 - k) = bit y (7 - k))" for x y :: "8 word"
proof -
  have m: "mask_bytes 7 1 ! 0 = (0xfe :: 8 word)" by code_simp
  show ?thesis using mask_byte_eq [of 0 1 x 7 y] unfolding m by auto
qed

lemma in_net6_ten: "in_net6 ([x, y], 10) b \<longleftrightarrow> b ! 0 = x \<and> b ! 1 AND 0xc0 = y AND 0xc0"
proof -
  have "[0..<10] = [0..<8] @ [8, 9]" by (simp add: upt_rec)
  then have "in_net6 ([x, y], 10) b \<longleftrightarrow> list_all (\<lambda>i. addr_bit b i = addr_bit [x, y] i) [0..<8] \<and>
      bit (b ! 1) 7 = bit y 7 \<and> bit (b ! 1) 6 = bit y 6"
    by (simp add: in_net6_def addr_bit_def)
  moreover have "list_all (\<lambda>i. addr_bit b i = addr_bit [x, y] i) [0..<8] \<longleftrightarrow> b ! 0 = x"
    by (simp add: byte_bits [of "b ! 0"] list_all_iff addr_bit_def atLeast0LessThan lessThan_def)
  ultimately show ?thesis by (simp add: two_bits)
qed

lemma in_net6_seven: "in_net6 ([x], 7) b \<longleftrightarrow> b ! 0 AND 0xfe = x AND 0xfe"
  unfolding in_net6_def seven_bits by (simp add: list_all_iff addr_bit_def atLeast0LessThan lessThan_def)

text \<open>The test of an address blocks exactly the internal ones.\<close>

lemma addr_is_blocked_exact:
  assumes "\<And>b. a = Sin6 b \<Longrightarrow> length b = 16"
  shows "addr_is_blocked a \<longleftrightarrow> internal a"
proof (cases a)
  case (Sin6 b)
  then have l: "length b = 16" by (rule assms)
  have "in_net6 (replicate 16 0, 128) b \<longleftrightarrow> in6_unspecified b" "in_net6 (replicate 15 0 @ [1], 128) b \<longleftrightarrow> in6_loopback b"
    "in_net6 (replicate 10 0 @ [0xff, 0xff], 96) b \<longleftrightarrow> in6_v4mapped b"
    "in_net6 (replicate 12 0, 96) b \<longleftrightarrow> take 12 b = replicate 12 0"
    using in_net6_bytes [of "replicate 16 0" 16 b] in_net6_bytes [of "replicate 15 0 @ [1]" 16 b]
      in_net6_bytes [of "replicate 10 0 @ [0xff, 0xff]" 12 b] in_net6_bytes [of "replicate 12 0" 12 b] l
    by (simp_all add: in6_unspecified_def in6_loopback_def in6_v4mapped_def)
  moreover have "in_net6 ([0xfe, 0x80], 10) b \<longleftrightarrow> in6_linklocal b" "in_net6 ([0xfe, 0xc0], 10) b \<longleftrightarrow> in6_sitelocal b"
    "in_net6 ([0xfc], 7) b \<longleftrightarrow> b ! 0 AND 0xfe = 0xfc"
    by (simp_all add: in_net6_ten in_net6_seven in6_linklocal_def in6_sitelocal_def)
  ultimately show ?thesis
    unfolding Sin6 addr_is_blocked_def
    by (auto simp: internal6_nets_def embedded_nets_def in6_v4compat_def v4_blocked_exact internal_v4_def)
next
  case (Sin b)
  then show ?thesis by (simp add: addr_is_blocked_def v4_blocked_exact internal_v4_def)
qed (simp add: addr_is_blocked_def)

section \<open>The host of a URL\<close>

text \<open>
  The grammar: a scheme, \<open>://\<close>, an optional user part ended by \<open>@\<close>, the host (a name or IPv4 address, or an IPv6 address in
  brackets, of at most 511 bytes), an optional port, and then the end or a path, query or fragment.
\<close>

definition userinfo :: "string \<Rightarrow> bool" where
  "userinfo ui \<longleftrightarrow> ui = [] \<or> (\<exists>x. ui = x @ ''@'' \<and> set x \<inter> set ''/?#@'' = {})"

definition bracketed :: "string \<Rightarrow> string \<Rightarrow> bool" where
  "bracketed h lit \<longleftrightarrow> h = ''['' @ lit @ '']'' \<and> set lit \<inter> set ''/?#@]'' = {}"

definition host_name :: "string \<Rightarrow> bool" where
  "host_name h \<longleftrightarrow> h \<noteq> [] \<and> set h \<inter> set ''/:?#@[]'' = {}"

definition port_and_path :: "string \<Rightarrow> bool" where
  "port_and_path s \<longleftrightarrow> (\<exists>port rest. s = port @ rest \<and> (port = [] \<or> (\<exists>ds. port = CHR '':'' # ds \<and> (\<forall>d \<in> set ds. isdigit d))) \<and>
     (rest = [] \<or> hd rest \<in> set ''/?#''))"

definition names_host :: "string \<Rightarrow> string \<Rightarrow> bool" where
  "names_host url h \<longleftrightarrow> (\<exists>scheme ui tl'. url = scheme @ ''://'' @ ui @ h @ tl' \<and> CHR '':'' \<notin> set scheme \<and> userinfo ui \<and>
     (host_name h \<or> (\<exists>lit. bracketed h lit)) \<and> length h \<le> 511 \<and> port_and_path tl')"

text \<open>The addresses a host stands for: the value of an address literal, or everything the lookup returns.\<close>

definition stands_for :: "resolver \<Rightarrow> string \<Rightarrow> sockaddr list \<Rightarrow> bool" where
  "stands_for rv h as \<longleftrightarrow> (\<exists>lit. (bracketed h lit \<or> host_name h \<and> lit = h) \<and>
     (if length lit < 64 \<and> rv_pton4 rv lit \<noteq> None then as = [Sin (the (rv_pton4 rv lit))]
      else if length lit < 64 \<and> rv_pton6 rv lit \<noteq> None then as = [Sin6 (the (rv_pton6 rv lit))]
      else rv_lookup rv h = Some as))"

lemma strstr_scheme_end: "CHR '':'' \<notin> set s \<Longrightarrow> strstr (s @ ''://'' @ r) ''://'' = Some (''://'' @ r)"
  by (induction s) auto

lemma dropWhile_port:
  assumes "port_and_path s" and "dropWhile (\<lambda>c. c \<notin> set ''/?#@'') s \<noteq> []"
  shows "hd (dropWhile (\<lambda>c. c \<notin> set ''/?#@'') s) \<noteq> CHR ''@''"
proof -
  obtain port rest where s: "s = port @ rest" and p: "port = [] \<or> (\<exists>ds. port = CHR '':'' # ds \<and> (\<forall>d \<in> set ds. isdigit d))"
    and r: "rest = [] \<or> hd rest \<in> set ''/?#''"
    using assms(1) by (auto simp: port_and_path_def)
  have "\<not> isdigit c" if "c \<in> set ''/?#@''" for c using that by (auto simp: isdigit_def)
  then have "\<forall>c \<in> set port. c \<notin> set ''/?#@''" using p by fastforce
  then have "dropWhile (\<lambda>c. c \<notin> set ''/?#@'') s = dropWhile (\<lambda>c. c \<notin> set ''/?#@'') rest"
    unfolding s by (intro dropWhile_append2) blast
  then show ?thesis using r assms(2) by (cases rest) auto
qed

lemma host_found:
  assumes "names_host url h"
  shows "url_host url = Some h"
proof -
  obtain scheme ui s where u: "url = scheme @ ''://'' @ ui @ h @ s" and sc: "CHR '':'' \<notin> set scheme" and ui: "userinfo ui"
    and h: "host_name h \<or> (\<exists>lit. bracketed h lit)" and l: "length h \<le> 511" and s: "port_and_path s"
    using assms by (auto simp: names_host_def)
  have hc: "\<forall>c \<in> set h. c \<notin> set ''/?#@''" using h by (auto simp: host_name_def bracketed_def)
  let ?at = "dropWhile (\<lambda>c. c \<notin> set ''/?#@'') (ui @ h @ s)"
  have host: "(if ?at \<noteq> [] \<and> hd ?at = CHR ''@'' then tl ?at else ui @ h @ s) = h @ s"
  proof (cases "ui = []")
    case True
    have "?at = dropWhile (\<lambda>c. c \<notin> set ''/?#@'') s" unfolding True using hc by (simp add: dropWhile_append2)
    then show ?thesis using dropWhile_port [OF s] True by auto
  next
    case False
    then obtain x where x: "ui = x @ ''@''" "set x \<inter> set ''/?#@'' = {}" using ui by (auto simp: userinfo_def)
    have "?at = dropWhile (\<lambda>c. c \<notin> set ''/?#@'') (''@'' @ h @ s)"
      unfolding x(1) append_assoc using x(2) by (intro dropWhile_append2) blast
    then show ?thesis by simp
  qed
  have st: "s = [] \<or> hd s \<in> set '':/?#''" using s by (auto simp: port_and_path_def)
  have f: "(if h @ s \<noteq> [] \<and> hd (h @ s) = CHR ''['' then
      (case strchr (h @ s) (CHR '']'') of None \<Rightarrow> h @ s | Some cb \<Rightarrow> take (length (h @ s) - length cb + 1) (h @ s))
      else takeWhile (\<lambda>c. c \<notin> set ''/:?#'') (h @ s)) = h"
  proof (cases "host_name h")
    case True
    then have n: "h \<noteq> []" "\<forall>c \<in> set h. c \<notin> set ''/:?#@[]''" by (auto simp: host_name_def)
    have "takeWhile (\<lambda>c. c \<notin> set ''/:?#'') (h @ s) = h @ takeWhile (\<lambda>c. c \<notin> set ''/:?#'') s"
      using n(2) by (intro takeWhile_append2) auto
    moreover have "takeWhile (\<lambda>c. c \<notin> set ''/:?#'') s = []" using st by (cases s) auto
    moreover have "hd h \<noteq> CHR ''[''" using n by (cases h) auto
    ultimately show ?thesis using n(1) by simp
  next
    case False
    then obtain lit where b: "h = ''['' @ lit @ '']''" "CHR '']'' \<notin> set lit" using h by (auto simp: bracketed_def)
    have "strchr (h @ s) (CHR '']'') = Some ('']'' @ s)"
    proof -
      have "\<forall>x \<in> set (CHR ''['' # lit). x \<noteq> CHR '']''" using b(2) by auto
      then have "dropWhile (\<lambda>x. x \<noteq> CHR '']'') ((CHR ''['' # lit) @ '']'' @ s) = dropWhile (\<lambda>x. x \<noteq> CHR '']'') ('']'' @ s)"
        by (intro dropWhile_append2) blast
      then show ?thesis unfolding b(1) strchr_def by simp
    qed
    then show ?thesis using b(1) by simp
  qed
  have u1: "strstr url ''://'' = Some (''://'' @ ui @ h @ s)" unfolding u by (rule strstr_scheme_end [OF sc])
  have d: "drop 3 (''://'' @ ui @ h @ s) = ui @ h @ s" by simp
  show ?thesis unfolding url_host_def u1 option.case Let_def d host f using l by simp
qed

lemma host_addresses_stand:
  assumes "host_name h \<or> (\<exists>lit. bracketed h lit)" and "host_addresses rv h = Some as"
  shows "stands_for rv h as"
proof -
  have "\<exists>lit. (bracketed h lit \<or> host_name h \<and> lit = h) \<and> host_literal h = lit"
  proof (cases "host_name h")
    case True
    then have "h \<noteq> []" "CHR ''['' \<notin> set h" "CHR '']'' \<notin> set h" by (auto simp: host_name_def)
    moreover from this have "hd h \<noteq> CHR ''[''" "last h \<noteq> CHR '']''" using hd_in_set [of h] last_in_set [of h] by fastforce+
    ultimately have "host_literal h = h" by (simp add: host_literal_def)
    then show ?thesis using True by blast
  next
    case False
    then obtain lit where b: "bracketed h lit" using assms(1) by blast
    then have "host_literal h = lit" by (simp add: bracketed_def host_literal_def)
    then show ?thesis using b by blast
  qed
  then obtain lit where lit: "bracketed h lit \<or> host_name h \<and> lit = h" "host_literal h = lit" by blast
  then show ?thesis
    using assms(2) unfolding stands_for_def host_addresses_def Let_def lit(2)
    by (intro exI [of _ lit]) (auto split: if_splits option.splits)
qed

section \<open>No request goes to an internal address\<close>

text \<open>What the parsers and the lookup promise: an IPv6 address has 16 bytes.\<close>

definition resolver_ok :: "resolver \<Rightarrow> bool" where
  "resolver_ok rv \<longleftrightarrow> (\<forall>s b. rv_pton6 rv s = Some b \<longrightarrow> length b = 16) \<and>
     (\<forall>h as b. rv_lookup rv h = Some as \<and> Sin6 b \<in> set as \<longrightarrow> length b = 16)"

text \<open>A URL is for the outside: the host it names, if it names one, stands for at least one address, and for no internal one.\<close>

definition outside_only :: "resolver \<Rightarrow> string \<Rightarrow> bool" where
  "outside_only rv url \<longleftrightarrow>
     (\<forall>h. names_host url h \<longrightarrow> (\<exists>as. stands_for rv h as \<and> as \<noteq> [] \<and> (\<forall>a \<in> set as. \<not> internal a)))"

lemma unblocked_outside:
  assumes "resolver_ok rv" and "\<not> fetch_url_blocked rv url"
  shows "outside_only rv url"
  unfolding outside_only_def
proof (intro allI impI)
  fix h assume n: "names_host url h"
  then have k: "host_name h \<or> (\<exists>lit. bracketed h lit)" by (auto simp: names_host_def)
  then have "h \<noteq> []" by (auto simp: host_name_def bracketed_def)
  then obtain as where as: "host_addresses rv h = Some as" "as \<noteq> []" "\<forall>a \<in> set as. \<not> addr_is_blocked a"
    using assms(2) host_found [OF n] by (auto simp: fetch_url_blocked_def list_ex_iff split: option.splits if_splits)
  have "length b = 16" if "Sin6 b \<in> set as" for b
    using that as(1) assms(1) by (auto simp: host_addresses_def resolver_ok_def Let_def split: option.splits if_splits)
  then have "\<forall>a \<in> set as. \<not> internal a" using as(3) addr_is_blocked_exact by metis
  then show "\<exists>as. stands_for rv h as \<and> as \<noteq> [] \<and> (\<forall>a \<in> set as. \<not> internal a)"
    using host_addresses_stand [OF k as(1)] as(2) by blast
qed

lemma fetch_loop_safe:
  "resolver_ok rv \<Longrightarrow> (\<forall>u \<in> set (fr_urls (fetch_loop rv curl hop freed cur)). outside_only rv u) \<and>
   length (fr_urls (fetch_loop rv curl hop freed cur)) \<le> Suc (TOOL_FETCH_MAX_HOPS - hop)"
proof (induction rv curl hop freed cur rule: fetch_loop.induct)
  case (1 rv curl hop freed cur)
  show ?case
  proof (cases "fetch_url_blocked rv cur")
    case True
    then show ?thesis by (simp add: fetch_loop.simps [of rv curl hop])
  next
    case ok: False
    then have safe: "outside_only rv cur" using "1.prems" by (intro unblocked_outside)
    show ?thesis
    proof (cases "curl cur")
      case (Ran out ended)
      show ?thesis
      proof (cases "fetch_next cur hop (take TOOL_FETCH_READ_MAX out)")
        case None
        with ok Ran safe show ?thesis by (simp add: fetch_loop.simps [of rv curl hop] Let_def)
      next
        case (Some nxt)
        then have "hop < TOOL_FETCH_MAX_HOPS" by (auto simp: fetch_next_def Let_def split: if_splits)
        then have "Suc (TOOL_FETCH_MAX_HOPS - Suc hop) = TOOL_FETCH_MAX_HOPS - hop" by simp
        with "1.IH" [OF ok Ran refl Some "1.prems"] ok Ran Some safe show ?thesis
          by (simp add: fetch_loop.simps [of rv curl hop freed] Let_def)
      qed
    qed (use ok safe in \<open>simp_all add: fetch_loop.simps [of rv curl hop]\<close>)
  qed
qed

text \<open>
  (C22) The fetch tool asks for no internal address.  Whatever URL the model gives and whatever the servers
  redirect to, \<open>curl\<close> is started at most six times, and whenever a URL it gets names a host (by the grammar above, behind an
  optional user part and before an optional port), that host stands for at least one address and none of its
  addresses (its literal value, or everything the resolver returns) lies in one of the listed IPv4 and IPv6
  networks, directly or as an IPv4 address embedded in an IPv6 address.  A URL with an empty authority names no host: it
  passes unchecked, and \<open>curl\<close> connects to what follows (\<open>empty_authority_passes\<close>).
\<close>

theorem fetch_never_internal:
  assumes "resolver_ok rv"
  shows "list_all (outside_only rv) (fr_urls (tool_fetch_url rv curl args)) \<and> length (fr_urls (tool_fetch_url rv curl args)) \<le> 6"
  using fetch_loop_safe [OF assms, of curl 0 False]
  by (auto simp: tool_fetch_url_def TOOL_FETCH_MAX_HOPS_def list_all_iff split: option.splits)

definition demo_resolver :: resolver where
  "demo_resolver = \<lparr>rv_pton4 = (\<lambda>s. if s = ''8.8.8.8'' then Some [8, 8, 8, 8] else None), rv_pton6 = (\<lambda>_. None),
     rv_lookup = (\<lambda>h. if h = ''in.example'' then Some [Sin [10, 0, 0, 1]] else None)\<rparr>"

text \<open>A request for an address outside that is redirected to a name inside: one request, and its host stands for no internal address.\<close>

definition demo_args :: string where
  "demo_args = ''{'' @ [DQUOTE] @ ''url'' @ [DQUOTE] @ '':'' @ [DQUOTE] @ ''http://u@8.8.8.8:80/'' @ [DQUOTE] @ ''}''"

definition demo_curl :: "string \<Rightarrow> curl_run" where
  "demo_curl u = Ran (''HTTP/1.1 302 Found'' @ crlf @ ''Location: http://in.example/'' @ crlf @ crlf) (Some (Some 0))"

theorem fetch_never_internal_witness:
  "fr_urls (tool_fetch_url demo_resolver demo_curl demo_args) = [''http://u@8.8.8.8:80/''] \<and>
   (\<exists>as. stands_for demo_resolver ''8.8.8.8'' as \<and> as \<noteq> [] \<and> list_all (\<lambda>a. \<not> internal a) as)"
proof -
  have ok: "resolver_ok demo_resolver" by (auto simp: resolver_ok_def demo_resolver_def)
  have arg: "tool_str_arg demo_args ''url'' 1024 = Some ''http://u@8.8.8.8:80/''" by code_simp
  have g: "ci_prefix ''http://'' ''http://u@8.8.8.8:80/''"
    "\<not> list_ex (\<lambda>c. c \<in> set [CHR '' '', CR, LF, TAB, DQUOTE, CHR 0x27]) ''http://u@8.8.8.8:80/''" by code_simp+
  have b: "\<not> fetch_url_blocked demo_resolver ''http://u@8.8.8.8:80/''" "fetch_url_blocked demo_resolver ''http://in.example/''" by code_simp+
  define out where "out = ''HTTP/1.1 302 Found'' @ crlf @ ''Location: http://in.example/'' @ crlf @ crlf"
  have o: "take TOOL_FETCH_READ_MAX out = out" by (simp add: out_def TOOL_FETCH_READ_MAX_def TOOL_FETCH_MAX_def)
  have nx: "fetch_next ''http://u@8.8.8.8:80/'' 0 out = Some ''http://in.example/''" unfolding out_def by code_simp
  have c: "demo_curl u = Ran out (Some (Some 0))" for u by (simp add: demo_curl_def out_def)
  have u: "fr_urls (tool_fetch_url demo_resolver demo_curl demo_args) = [''http://u@8.8.8.8:80/'']"
    unfolding tool_fetch_url_def arg option.case
    using g b c o nx by (simp add: fetch_loop.simps [of _ _ 0] fetch_loop.simps [of _ _ "Suc 0"] Let_def)
  have "outside_only demo_resolver ''http://u@8.8.8.8:80/''" using fetch_never_internal [OF ok, of demo_curl demo_args] u by simp
  moreover have "names_host ''http://u@8.8.8.8:80/'' ''8.8.8.8''"
  proof -
    have "userinfo ''u@''" by (auto simp: userinfo_def intro!: exI [of _ "''u''"])
    moreover have "host_name ''8.8.8.8''" by (simp add: host_name_def)
    moreover have "port_and_path '':80/''"
      unfolding port_and_path_def by (rule exI [of _ "'':80''"], rule exI [of _ "''/''"]) (simp add: isdigit_def)
    moreover have "''http://u@8.8.8.8:80/'' = ''http'' @ ''://'' @ ''u@'' @ ''8.8.8.8'' @ '':80/''" by simp
    ultimately show ?thesis
      unfolding names_host_def
      by (intro exI [of _ "''http''"] exI [of _ "''u@''"] exI [of _ "'':80/''"] conjI) simp_all
  qed
  ultimately show ?thesis using u by (auto simp: outside_only_def list_all_iff)
qed

section \<open>What the guard leaves open\<close>

text \<open>
  An empty authority is not looked up at all, so a URL with three slashes passes the guard whatever address follows;
  \<open>curl\<close> drops the third slash and connects.
\<close>

theorem empty_authority_passes: "\<not> fetch_url_blocked rv (''http:///'' @ path)"
  by (simp add: fetch_url_blocked_def url_host_def strstr.simps Let_def)

text \<open>
  The buffer of a redirect reply is freed before the next round, and the pointer is kept: if the next target is
  blocked, the same block is freed a second time.
\<close>

theorem blocked_redirect_frees_twice:
  fixes rv :: resolver
  assumes "\<not> fetch_url_blocked rv cur" and "curl cur = Ran out ended" and "out \<noteq> []"
    and "fetch_next cur hop (take TOOL_FETCH_READ_MAX out) = Some target" and "fetch_url_blocked rv target"
  shows "fr_double_free (fetch_loop rv curl hop freed cur)"
proof -
  have "take TOOL_FETCH_READ_MAX out \<noteq> []" using assms(3) by (simp add: TOOL_FETCH_READ_MAX_def TOOL_FETCH_MAX_def)
  then have "fr_double_free (fetch_loop rv curl (hop + 1) (take TOOL_FETCH_READ_MAX out \<noteq> []) target)"
    using assms(5) by (simp add: fetch_loop.simps [of rv curl "Suc hop"])
  then show ?thesis using assms by (simp add: fetch_loop.simps [of rv curl hop] Let_def)
qed

text \<open>A protocol-relative redirect keeps the slashes of the base URL and of the target.\<close>

theorem protocol_relative_redirect_slashes:
  "resolve_redirect ''http://a/'' ''//b/'' 2048 = ''http:////b/''"
  by code_simp

end
