(* ===== verification/Calc.thy ===== *)
theory Calc
  imports Minijson Util
begin

text \<open>
  The \<open>calc\<close> tool of \<open>src/src/agent/tools.c\<close>: a recursive-descent evaluator that works on the text directly.  The
  floating-point operations and \<open>strtod\<close> are a parameter, the record \<open>fpu\<close>; the parser, its error flag and the
  splitting into several expressions are modelled.  The call depth is bounded by fuel, and \<open>calc_fuel\<close> of it is
  always enough (\<open>calc_total\<close>).
\<close>

record 'd fpu =
  fp_strtod :: "string \<Rightarrow> 'd \<times> string"
  fp_zero :: 'd
  fp_pi :: 'd
  fp_e :: 'd
  fp_neg :: "'d \<Rightarrow> 'd"
  fp_add :: "'d \<Rightarrow> 'd \<Rightarrow> 'd"
  fp_sub :: "'d \<Rightarrow> 'd \<Rightarrow> 'd"
  fp_mul :: "'d \<Rightarrow> 'd \<Rightarrow> 'd"
  fp_div :: "'d \<Rightarrow> 'd \<Rightarrow> 'd"
  fp_fmod :: "'d \<Rightarrow> 'd \<Rightarrow> 'd"
  fp_pow :: "'d \<Rightarrow> 'd \<Rightarrow> 'd"
  fp_fn :: "string \<Rightarrow> 'd \<Rightarrow> 'd"
  fp_is0 :: "'d \<Rightarrow> bool"
  fp_in_range :: "'d \<Rightarrow> bool"
  fp_print :: "'d \<Rightarrow> string"

text \<open>The functions of one argument the parser knows; \<open>fp_fn\<close> gives their values.\<close>

definition calc_fns :: "string list" where
  "calc_fns = [''sqrt'', ''cbrt'', ''abs'', ''ln'', ''log'', ''exp'', ''sin'', ''cos'', ''tan'']"

definition blank :: "char \<Rightarrow> bool" where
  "blank c \<longleftrightarrow> c = CHR '' '' \<or> c = TAB"

definition calc_ws :: "string \<Rightarrow> string" where
  "calc_ws s = dropWhile blank s"

section \<open>The parser\<close>

text \<open>
  A parser gets the rest of the text and the error flag, and returns a value, the new rest and the flag; \<open>None\<close> is
  exhausted fuel.  Parsing goes on after an error, the flag stays set.
\<close>

type_synonym 'd calc_result = "('d \<times> string \<times> bool) option"

definition calc_close :: "'d fpu \<Rightarrow> ('d \<Rightarrow> 'd option) \<Rightarrow> 'd \<times> string \<times> bool \<Rightarrow> 'd \<times> string \<times> bool" where
  "calc_close fp f r =
     (case r of (v, s, e) \<Rightarrow>
        let s1 = calc_ws s
        in if s1 = [] \<or> hd s1 \<noteq> CHR '')'' then (fp_zero fp, s1, True)
           else case f v of None \<Rightarrow> (fp_zero fp, tl s1, True) | Some w \<Rightarrow> (w, tl s1, e))"

text \<open>An identifier of at most 31 letters, in lower case, and the text behind it and its blanks.\<close>

definition calc_ident :: "string \<Rightarrow> string \<times> string" where
  "calc_ident s =
     (let name = take 31 (takeWhile isalpha s) in (map tolower name, calc_ws (drop (length name) s)))"

definition calc_fn :: "'d fpu \<Rightarrow> string \<Rightarrow> 'd \<Rightarrow> 'd option" where
  "calc_fn fp name a = (if name \<in> set calc_fns then Some (fp_fn fp name a) else None)"

definition calc_name :: "'d fpu \<Rightarrow> string \<Rightarrow> string \<Rightarrow> bool \<Rightarrow> 'd \<times> string \<times> bool" where
  "calc_name fp name s e =
     (if name = ''pi'' then (fp_pi fp, s, e) else if name = ''e'' then (fp_e fp, s, e) else (fp_zero fp, s, True))"

text \<open>
  The mutually recursive functions, each over \<open>rec\<close>, the parsers it calls; the two loops are parsers of their own,
  which carry the value so far.
\<close>

datatype 'd calc_goal = Expr | ExprLoop 'd | Term | TermLoop 'd | Unary | Power | Primary

type_synonym 'd calc_parser = "'d calc_goal \<Rightarrow> string \<Rightarrow> bool \<Rightarrow> 'd calc_result"

definition calc_expr :: "'d calc_parser \<Rightarrow> string \<Rightarrow> bool \<Rightarrow> 'd calc_result" where
  "calc_expr rec s e = Option.bind (rec Term s e) (\<lambda>(v, s', e'). rec (ExprLoop v) s' e')"

definition expr_loop :: "'d fpu \<Rightarrow> 'd calc_parser \<Rightarrow> 'd \<Rightarrow> string \<Rightarrow> bool \<Rightarrow> 'd calc_result" where
  "expr_loop fp rec v s e =
     (case calc_ws s of
        [] \<Rightarrow> Some (v, [], e)
      | c # t \<Rightarrow>
          if c = CHR ''+'' then Option.bind (rec Term t e) (\<lambda>(d, s', e'). rec (ExprLoop (fp_add fp v d)) s' e')
          else if c = CHR ''-'' then Option.bind (rec Term t e) (\<lambda>(d, s', e'). rec (ExprLoop (fp_sub fp v d)) s' e')
          else Some (v, c # t, e))"

definition calc_term :: "'d calc_parser \<Rightarrow> string \<Rightarrow> bool \<Rightarrow> 'd calc_result" where
  "calc_term rec s e = Option.bind (rec Unary s e) (\<lambda>(v, s', e'). rec (TermLoop v) s' e')"

definition term_loop :: "'d fpu \<Rightarrow> 'd calc_parser \<Rightarrow> 'd \<Rightarrow> string \<Rightarrow> bool \<Rightarrow> 'd calc_result" where
  "term_loop fp rec v s e =
     (case calc_ws s of
        [] \<Rightarrow> Some (v, [], e)
      | c # t \<Rightarrow>
          if c = CHR ''*'' then Option.bind (rec Unary t e) (\<lambda>(d, s', e'). rec (TermLoop (fp_mul fp v d)) s' e')
          else if c = CHR ''/'' then
            Option.bind (rec Unary t e)
              (\<lambda>(d, s', e'). if fp_is0 fp d then Some (fp_zero fp, s', True) else rec (TermLoop (fp_div fp v d)) s' e')
          else if c = CHR ''%'' then
            Option.bind (rec Unary t e)
              (\<lambda>(d, s', e'). if fp_is0 fp d then Some (fp_zero fp, s', True) else rec (TermLoop (fp_fmod fp v d)) s' e')
          else Some (v, c # t, e))"

definition calc_unary :: "'d fpu \<Rightarrow> 'd calc_parser \<Rightarrow> string \<Rightarrow> bool \<Rightarrow> 'd calc_result" where
  "calc_unary fp rec s e =
     (case calc_ws s of
        [] \<Rightarrow> rec Power [] e
      | c # t \<Rightarrow>
          if c = CHR ''-'' then Option.bind (rec Unary t e) (\<lambda>(v, s', e'). Some (fp_neg fp v, s', e'))
          else if c = CHR ''+'' then rec Unary t e
          else rec Power (c # t) e)"

definition calc_power :: "'d fpu \<Rightarrow> 'd calc_parser \<Rightarrow> string \<Rightarrow> bool \<Rightarrow> 'd calc_result" where
  "calc_power fp rec s e =
     Option.bind (rec Primary s e)
       (\<lambda>(base, s', e').
          case calc_ws s' of
            [] \<Rightarrow> Some (base, [], e')
          | c # t \<Rightarrow>
              if c = CHR ''^'' then Option.bind (rec Power t e') (\<lambda>(x, s'', e''). Some (fp_pow fp base x, s'', e''))
              else Some (base, c # t, e'))"

definition calc_primary :: "'d fpu \<Rightarrow> 'd calc_parser \<Rightarrow> string \<Rightarrow> bool \<Rightarrow> 'd calc_result" where
  "calc_primary fp rec s e =
     (case calc_ws s of
        [] \<Rightarrow> Some (fp_zero fp, [], True)
      | c # t \<Rightarrow>
          if c = CHR ''('' then Option.bind (rec Expr t e) (\<lambda>r. Some (calc_close fp Some r))
          else if isdigit c \<or> c = CHR ''.'' then
            (case fp_strtod fp (c # t) of
               (v, r) \<Rightarrow> if length r < length (c # t) then Some (v, r, e) else Some (fp_zero fp, c # t, True))
          else if isalpha c then
            (case calc_ident (c # t) of
               (name, r) \<Rightarrow>
                 if r \<noteq> [] \<and> hd r = CHR ''('' then Option.bind (rec Expr (tl r) e) (\<lambda>q. Some (calc_close fp (calc_fn fp name) q))
                 else Some (calc_name fp name r e))
          else Some (fp_zero fp, c # t, True))"

definition calc_step :: "'d fpu \<Rightarrow> 'd calc_parser \<Rightarrow> 'd calc_parser" where
  "calc_step fp rec g s e =
     (case g of
        Expr \<Rightarrow> calc_expr rec s e
      | ExprLoop v \<Rightarrow> expr_loop fp rec v s e
      | Term \<Rightarrow> calc_term rec s e
      | TermLoop v \<Rightarrow> term_loop fp rec v s e
      | Unary \<Rightarrow> calc_unary fp rec s e
      | Power \<Rightarrow> calc_power fp rec s e
      | Primary \<Rightarrow> calc_primary fp rec s e)"

primrec calc_run :: "'d fpu \<Rightarrow> nat \<Rightarrow> 'd calc_parser" where
  "calc_run fp 0 = (\<lambda>g s e. None)"
| "calc_run fp (Suc n) = calc_step fp (calc_run fp n)"

definition calc_fuel :: "string \<Rightarrow> nat" where
  "calc_fuel s = 8 * length s + 8"

definition calc_eval :: "'d fpu \<Rightarrow> string \<Rightarrow> 'd calc_result" where
  "calc_eval fp s = calc_run fp (calc_fuel s) Expr s False"

section \<open>The tool\<close>

fun calc_segments :: "string \<Rightarrow> string list" where
  "calc_segments [] = [[]]"
| "calc_segments (c # s) =
     (if c = LF \<or> c = CHR '';'' then [] # calc_segments s
      else case calc_segments s of [] \<Rightarrow> [[c]] | g # gs \<Rightarrow> (c # g) # gs)"

definition calc_blank :: "char \<Rightarrow> bool" where
  "calc_blank c \<longleftrightarrow> c = CHR '' '' \<or> c = TAB \<or> c = CR"

definition calc_trim :: "string \<Rightarrow> string" where
  "calc_trim s = rev (dropWhile calc_blank (rev (dropWhile calc_blank s)))"

text \<open>One expression: the printed value, or the error text.\<close>

definition calc_one :: "'d fpu \<Rightarrow> string \<Rightarrow> string + string" where
  "calc_one fp p =
     (case calc_eval fp p of
        None \<Rightarrow> Inl []
      | Some (v, s, e) \<Rightarrow>
          if e \<or> calc_ws s \<noteq> [] then Inl (''error: cannot parse expression '' @ [CHR 0x27] @ p @ [CHR 0x27])
          else if \<not> fp_in_range fp v then Inl ''error: result out of range''
          else Inr (take 63 (fp_print fp v)))"

fun calc_lines :: "'d fpu \<Rightarrow> bool \<Rightarrow> string list \<Rightarrow> string" where
  "calc_lines fp first [] = (if first then ''error: empty expression'' else [])"
| "calc_lines fp first (g # gs) =
     (let p = calc_trim g
      in if p = [] then calc_lines fp first gs
         else case calc_one fp p of
                Inl err \<Rightarrow> err
              | Inr out \<Rightarrow> (if first then [] else [LF]) @ out @ calc_lines fp False gs)"

definition calc_text :: "'d fpu \<Rightarrow> string \<Rightarrow> string" where
  "calc_text fp expr = calc_lines fp True (calc_segments expr)"

section \<open>The parser always returns\<close>

lemmas calc_defs = calc_expr_def expr_loop_def calc_term_def term_loop_def calc_unary_def calc_power_def calc_primary_def

lemma length_calc_ws: "length (calc_ws s) \<le> length s"
  by (simp add: calc_ws_def length_dropWhile_le)

lemma calc_close_shrinks: "length (fst (snd (calc_close fp f r))) \<le> length (fst (snd r))"
  using length_calc_ws [of "fst (snd r)"]
  by (auto simp: calc_close_def Let_def split: prod.splits option.splits)

text \<open>The fuel a parser needs on a text of length \<open>k\<close>.\<close>

primrec goal_fuel :: "'d calc_goal \<Rightarrow> nat" where
  "goal_fuel Expr = 5"
| "goal_fuel (ExprLoop v) = 1"
| "goal_fuel Term = 4"
| "goal_fuel (TermLoop v) = 1"
| "goal_fuel Unary = 3"
| "goal_fuel Power = 2"
| "goal_fuel Primary = 1"

definition returns :: "'d calc_result \<Rightarrow> nat \<Rightarrow> bool" where
  "returns r k \<longleftrightarrow> (\<exists>v s e. r = Some (v, s, e) \<and> length s \<le> k)"

lemma returns_bind:
  assumes "returns r k" and "\<And>v s e. length s \<le> k \<Longrightarrow> returns (f (v, s, e)) k'"
  shows "returns (Option.bind r f) k'"
  using assms by (auto simp: returns_def)

lemma returns_Some [simp]: "returns (Some (v, s, e)) k \<longleftrightarrow> length s \<le> k"
  by (simp add: returns_def)

lemma returns_if: "(c \<Longrightarrow> returns a k) \<Longrightarrow> (\<not> c \<Longrightarrow> returns b k) \<Longrightarrow> returns (if c then a else b) k"
  by simp

lemma returns_mono: "returns r k \<Longrightarrow> k \<le> k' \<Longrightarrow> returns r k'"
  by (auto simp: returns_def)

text \<open>What a level of the recursion needs from the level below.\<close>

definition enough :: "nat \<Rightarrow> 'd calc_parser \<Rightarrow> bool" where
  "enough n rec \<longleftrightarrow> (\<forall>g s e. 8 * length s + goal_fuel g \<le> n \<longrightarrow> returns (rec g s e) (length s))"

lemma enoughD: "enough n rec \<Longrightarrow> 8 * length s + goal_fuel g \<le> n \<Longrightarrow> length s \<le> k \<Longrightarrow> returns (rec g s e) k"
  unfolding enough_def by (blast intro: returns_mono)

lemma returns_call:
  assumes "enough n rec" and "8 * length t + goal_fuel g \<le> n"
    and "\<And>v s' e'. length s' \<le> length t \<Longrightarrow> returns (f (v, s', e')) k"
  shows "returns (Option.bind (rec g t e) f) k"
  by (rule returns_bind [OF enoughD [OF assms(1,2) order_refl]]) (rule assms(3))

lemma calc_ws_Cons: "calc_ws s = c # t \<Longrightarrow> Suc (length t) \<le> length s"
  using length_calc_ws [of s] by simp

lemma returns_expr:
  assumes "enough n rec" and "8 * length s + 5 \<le> Suc n"
  shows "returns (calc_expr rec s e) (length s)"
  using assms(2) unfolding calc_expr_def
  by (auto dest!: calc_ws_Cons split: list.split intro!: returns_if returns_call [OF assms(1)] enoughD [OF assms(1)])

lemma returns_term:
  assumes "enough n rec" and "8 * length s + 4 \<le> Suc n"
  shows "returns (calc_term rec s e) (length s)"
  using assms(2) unfolding calc_term_def
  by (auto dest!: calc_ws_Cons split: list.split intro!: returns_if returns_call [OF assms(1)] enoughD [OF assms(1)])

lemma returns_expr_loop:
  assumes "enough n rec" and "8 * length s + 1 \<le> Suc n"
  shows "returns (expr_loop fp rec v s e) (length s)"
  using assms(2) unfolding expr_loop_def
  by (auto dest!: calc_ws_Cons split: list.split intro!: returns_if returns_call [OF assms(1)] enoughD [OF assms(1)])

lemma returns_term_loop:
  assumes "enough n rec" and "8 * length s + 1 \<le> Suc n"
  shows "returns (term_loop fp rec v s e) (length s)"
  using assms(2) unfolding term_loop_def
  by (auto dest!: calc_ws_Cons split: list.split intro!: returns_if returns_call [OF assms(1)] enoughD [OF assms(1)])

lemma returns_unary:
  assumes "enough n rec" and "8 * length s + 3 \<le> Suc n"
  shows "returns (calc_unary fp rec s e) (length s)"
  using assms(2) unfolding calc_unary_def
  by (auto dest!: calc_ws_Cons split: list.split intro!: returns_if returns_call [OF assms(1)] enoughD [OF assms(1)])

lemma returns_power:
  assumes "enough n rec" and "8 * length s + 2 \<le> Suc n"
  shows "returns (calc_power fp rec s e) (length s)"
  using assms(2) unfolding calc_power_def
  by (auto dest!: calc_ws_Cons split: list.split intro!: returns_if returns_call [OF assms(1)] enoughD [OF assms(1)])

lemma returns_close: "length s \<le> k \<Longrightarrow> returns (Some (calc_close fp f (v, s, e))) k"
  using calc_close_shrinks [of fp f "(v, s, e)"] by (cases "calc_close fp f (v, s, e)") auto

lemma returns_name: "length s \<le> k \<Longrightarrow> returns (Some (calc_name fp nm s e)) k"
  by (auto simp: calc_name_def)

lemma calc_ident_shrinks: "length (snd (calc_ident s)) \<le> length s"
  using length_calc_ws [of "drop (length (take 31 (takeWhile isalpha s))) s"] by (simp add: calc_ident_def Let_def)

lemma returns_primary: "enough n rec \<Longrightarrow> 8 * length s + 1 \<le> Suc n \<Longrightarrow> returns (calc_primary fp rec s e) (length s)"
proof (cases "calc_ws s")
  case (Cons c t)
  assume a: "enough n rec" "8 * length s + 1 \<le> Suc n"
  note len = calc_ws_Cons [OF Cons]
  have sub: "returns (Option.bind (rec Expr u e) (\<lambda>r. Some (calc_close fp f r))) (length s)" if "length u \<le> length t" for u f
    using a(2) len that by (intro returns_call [OF a(1)] returns_close) auto
  obtain name r where i: "calc_ident (c # t) = (name, r)" by (cases "calc_ident (c # t)")
  have "length r \<le> length s" and "length (tl r) \<le> length t"
    using calc_ident_shrinks [of "c # t"] i len by auto
  then show ?thesis
    using Cons len sub i by (auto simp: calc_primary_def intro!: returns_name split: prod.split)
qed (simp add: calc_primary_def)

lemma calc_run_enough: "enough n (calc_run fp n)"
proof (induction n)
  case 0
  have "0 < goal_fuel g" for g :: "'a calc_goal" by (cases g) auto
  then show ?case unfolding enough_def by (metis add_is_0 le_zero_eq less_irrefl)
next
  case (Suc n)
  show ?case
    unfolding enough_def calc_run.simps calc_step_def
    by (auto split: calc_goal.split
        intro!: returns_expr [OF Suc] returns_expr_loop [OF Suc] returns_term [OF Suc] returns_term_loop [OF Suc]
          returns_unary [OF Suc] returns_power [OF Suc] returns_primary [OF Suc])
qed

text \<open>
  The calculator always terminates.  With fuel proportional to the length of the text, eight per character,
  the parser returns on every input, well formed or not, and whatever the floating-point operations give: the
  recursion of the seven functions is finite.
\<close>

theorem calc_total: "\<exists>v rest err. calc_eval fp s = Some (v, rest, err) \<and> length rest \<le> length s"
  using enoughD [OF calc_run_enough, of s Expr "calc_fuel s" "length s" fp False]
  by (simp add: calc_fuel_def calc_eval_def returns_def)

section \<open>Precedence and associativity\<close>

text \<open>A parser that returns keeps its result when it gets more fuel.\<close>

definition below :: "'d calc_result \<Rightarrow> 'd calc_result \<Rightarrow> bool" where
  "below x y \<longleftrightarrow> x = None \<or> x = y"

lemma below_refl [simp]: "below x x"
  by (simp add: below_def)

lemma below_bind:
  assumes "below x y" and "\<And>v s e. below (f (v, s, e)) (f' (v, s, e))"
  shows "below (Option.bind x f) (Option.bind y f')"
  using assms(1) unfolding below_def [of x y]
proof
  assume "x = y"
  with assms(2) show ?thesis by (cases y) auto
qed (simp add: below_def)

lemma below_if: "below a a' \<Longrightarrow> below b b' \<Longrightarrow> below (if c then a else b) (if c then a' else b')"
  by simp

lemma calc_defs_mono:
  assumes r: "\<And>g s e. below (rec g s e) (rec' g s e)"
  shows "below (calc_expr rec s e) (calc_expr rec' s e)" "below (calc_term rec s e) (calc_term rec' s e)"
    "below (expr_loop fp rec v s e) (expr_loop fp rec' v s e)" "below (term_loop fp rec v s e) (term_loop fp rec' v s e)"
    "below (calc_unary fp rec s e) (calc_unary fp rec' s e)" "below (calc_power fp rec s e) (calc_power fp rec' s e)"
    "below (calc_primary fp rec s e) (calc_primary fp rec' s e)"
  unfolding calc_defs by (auto split: list.split prod.split intro!: below_if below_bind r)

lemma calc_step_mono: "(\<And>g s e. below (rec g s e) (rec' g s e)) \<Longrightarrow> below (calc_step fp rec g s e) (calc_step fp rec' g s e)"
  unfolding calc_step_def by (cases g) (simp_all add: calc_defs_mono)

lemma below_step: "below (calc_run fp n g s e) (calc_run fp (Suc n) g s e)"
proof (induction n arbitrary: g s e)
  case (Suc n)
  then show ?case unfolding calc_run.simps(2) [of fp n] calc_run.simps(2) [of fp "Suc n"] by (rule calc_step_mono)
qed (simp add: below_def)

lemma more_fuel: "calc_run fp n g s e = Some r \<Longrightarrow> n \<le> m \<Longrightarrow> calc_run fp m g s e = Some r"
proof (induction m)
  case (Suc m)
  then show ?case using below_step [of fp m g s e] by (cases "n = Suc m") (auto simp: below_def simp del: calc_run.simps)
qed simp

text \<open>With enough fuel the parsers satisfy the recursive equations of the source, with no fuel in them.\<close>

definition calc_lim :: "'d fpu \<Rightarrow> 'd calc_parser" where
  "calc_lim fp g s e = calc_run fp (calc_fuel s) g s e"

lemma lim_some: "\<exists>r. calc_lim fp g s e = Some r"
proof -
  have "goal_fuel g \<le> 8" by (cases g) simp_all
  then show ?thesis
    using enoughD [OF calc_run_enough, of s g "calc_fuel s" "length s" fp e] by (auto simp: calc_lim_def calc_fuel_def returns_def)
qed

lemma below_lim: "below (calc_run fp n g s e) (calc_lim fp g s e)"
proof (cases "calc_run fp n g s e")
  case (Some r)
  obtain r' where r': "calc_lim fp g s e = Some r'" using lim_some [of fp g s e] by blast
  have "calc_run fp (max n (calc_fuel s)) g s e = Some r" using Some by (rule more_fuel) simp
  moreover have "calc_run fp (max n (calc_fuel s)) g s e = Some r'"
    using r' unfolding calc_lim_def by (rule more_fuel) simp
  ultimately show ?thesis using Some r' by (simp add: below_def)
qed (simp add: below_def)

lemma lim_unfold: "calc_lim fp g s e = calc_step fp (calc_lim fp) g s e"
proof -
  obtain r where r: "calc_lim fp g s e = Some r" using lim_some [of fp g s e] by blast
  then have "calc_run fp (Suc (calc_fuel s)) g s e = Some r" unfolding calc_lim_def by (rule more_fuel) simp
  then have "below (Some r) (calc_step fp (calc_lim fp) g s e)"
    using calc_step_mono [of "calc_run fp (calc_fuel s)" "calc_lim fp" fp g s e, OF below_lim] by (simp only: calc_run.simps)
  with r show ?thesis by (simp add: below_def)
qed

lemma lim_simps:
  "calc_lim fp Expr s e = calc_expr (calc_lim fp) s e"
  "calc_lim fp (ExprLoop v) s e = expr_loop fp (calc_lim fp) v s e"
  "calc_lim fp Term s e = calc_term (calc_lim fp) s e"
  "calc_lim fp (TermLoop v) s e = term_loop fp (calc_lim fp) v s e"
  "calc_lim fp Unary s e = calc_unary fp (calc_lim fp) s e"
  "calc_lim fp Power s e = calc_power fp (calc_lim fp) s e"
  "calc_lim fp Primary s e = calc_primary fp (calc_lim fp) s e"
  by (subst lim_unfold, simp add: calc_step_def)+

text \<open>Arithmetic expressions, their value, and their text with the parentheses that precedence makes necessary.\<close>

datatype calc_op = OAdd | OSub | OMul | ODiv | OMod | OPow

datatype aexp = Lit string | ConstPi | ConstE | Call string aexp | Neg aexp | Bin calc_op aexp aexp

fun op_value :: "'d fpu \<Rightarrow> calc_op \<Rightarrow> 'd \<Rightarrow> 'd \<Rightarrow> 'd option" where
  "op_value fp OAdd a b = Some (fp_add fp a b)"
| "op_value fp OSub a b = Some (fp_sub fp a b)"
| "op_value fp OMul a b = Some (fp_mul fp a b)"
| "op_value fp ODiv a b = (if fp_is0 fp b then None else Some (fp_div fp a b))"
| "op_value fp OMod a b = (if fp_is0 fp b then None else Some (fp_fmod fp a b))"
| "op_value fp OPow a b = Some (fp_pow fp a b)"

primrec avalue :: "'d fpu \<Rightarrow> aexp \<Rightarrow> 'd option" where
  "avalue fp (Lit d) = (if d \<noteq> [] \<and> list_all isdigit d then Some (fst (fp_strtod fp d)) else None)"
| "avalue fp ConstPi = Some (fp_pi fp)"
| "avalue fp ConstE = Some (fp_e fp)"
| "avalue fp (Call f a) = Option.bind (avalue fp a) (calc_fn fp f)"
| "avalue fp (Neg a) = map_option (fp_neg fp) (avalue fp a)"
| "avalue fp (Bin opr a b) = Option.bind (avalue fp a) (\<lambda>x. Option.bind (avalue fp b) (op_value fp opr x))"

text \<open>Levels: 1 sums, 2 products, 3 signs, 4 powers, 5 primaries.\<close>

definition paren :: "bool \<Rightarrow> string \<Rightarrow> string" where
  "paren b s = (if b then CHR ''('' # s @ '')'' else s)"

fun op_char :: "calc_op \<Rightarrow> char" where
  "op_char OAdd = CHR ''+''"
| "op_char OSub = CHR ''-''"
| "op_char OMul = CHR ''*''"
| "op_char ODiv = CHR ''/''"
| "op_char OMod = CHR ''%''"
| "op_char OPow = CHR ''^''"

fun op_levels :: "calc_op \<Rightarrow> nat \<times> nat \<times> nat" where
  "op_levels OAdd = (1, 1, 2)"
| "op_levels OSub = (1, 1, 2)"
| "op_levels OMul = (2, 2, 3)"
| "op_levels ODiv = (2, 2, 3)"
| "op_levels OMod = (2, 2, 3)"
| "op_levels OPow = (4, 5, 4)"

primrec ashow :: "aexp \<Rightarrow> nat \<Rightarrow> string" where
  "ashow (Lit d) l = d"
| "ashow ConstPi l = ''pi''"
| "ashow ConstE l = ''e''"
| "ashow (Call f a) l = f @ paren True (ashow a 1)"
| "ashow (Neg a) l = paren (3 < l) (CHR ''-'' # ashow a 3)"
| "ashow (Bin opr a b) l =
     (case op_levels opr of (k, la, lb) \<Rightarrow> paren (k < l) (ashow a la @ op_char opr # ashow b lb))"

text \<open>
  What the proof uses of \<open>strtod\<close>: it reads a number of decimal digits up to the operator, the parenthesis or the
  end behind it.
\<close>

definition follows :: "string \<Rightarrow> string \<Rightarrow> bool" where
  "follows ops r \<longleftrightarrow> r = [] \<or> hd r \<in> set ops"

definition strtod_reads :: "'d fpu \<Rightarrow> bool" where
  "strtod_reads fp \<longleftrightarrow>
     (\<forall>d r. d \<noteq> [] \<and> list_all isdigit d \<and> follows ''+-*/%^)'' r \<longrightarrow> fp_strtod fp (d @ r) = (fst (fp_strtod fp d), r))"

text \<open>A text with its value, at each level of the grammar.  The two loops go on with what follows.\<close>

definition ok_primary :: "'d fpu \<Rightarrow> string \<Rightarrow> 'd \<Rightarrow> bool" where
  "ok_primary fp s v \<longleftrightarrow> (\<forall>r. follows ''+-*/%^)'' r \<longrightarrow> calc_lim fp Primary (s @ r) False = Some (v, r, False))"

definition ok_power :: "'d fpu \<Rightarrow> string \<Rightarrow> 'd \<Rightarrow> bool" where
  "ok_power fp s v \<longleftrightarrow> (\<forall>r. follows ''+-*/%)'' r \<longrightarrow> calc_lim fp Power (s @ r) False = Some (v, r, False))"

definition ok_unary :: "'d fpu \<Rightarrow> string \<Rightarrow> 'd \<Rightarrow> bool" where
  "ok_unary fp s v \<longleftrightarrow> (\<forall>r. follows ''+-*/%)'' r \<longrightarrow> calc_lim fp Unary (s @ r) False = Some (v, r, False))"

definition ok_term :: "'d fpu \<Rightarrow> string \<Rightarrow> 'd \<Rightarrow> bool" where
  "ok_term fp s v \<longleftrightarrow> (\<forall>r. follows ''+-*/%)'' r \<longrightarrow> calc_lim fp Term (s @ r) False = calc_lim fp (TermLoop v) r False)"

definition ok_expr :: "'d fpu \<Rightarrow> string \<Rightarrow> 'd \<Rightarrow> bool" where
  "ok_expr fp s v \<longleftrightarrow> (\<forall>r. follows ''+-)'' r \<longrightarrow> calc_lim fp Expr (s @ r) False = calc_lim fp (ExprLoop v) r False)"

lemma follows_wider:
  "follows ''+-*/%)'' r \<Longrightarrow> follows ''+-*/%^)'' r" "follows ''+-)'' r \<Longrightarrow> follows ''+-*/%)'' r"
  by (auto simp: follows_def)

text \<open>From one level to the next.\<close>

definition starts :: "string \<Rightarrow> bool" where
  "starts s \<longleftrightarrow> s \<noteq> [] \<and> \<not> blank (hd s) \<and> hd s \<noteq> CHR ''-'' \<and> hd s \<noteq> CHR ''+''"

lemma starts_ws: "starts s \<Longrightarrow> calc_ws (s @ r) = s @ r"
  by (cases s) (auto simp: starts_def calc_ws_def)

lemma follows_cases:
  assumes "follows ops r"
  obtains "r = []" | c t where "r = c # t" "c \<in> set ops"
  using assms by (cases r) (auto simp: follows_def)

lemma operator_ws [simp]: "c \<in> set ''+-*/%^)('' \<Longrightarrow> calc_ws (c # t) = c # t"
  by (auto simp: calc_ws_def blank_def)

lemma calc_ws_Nil [simp]: "calc_ws [] = []"
  by (simp add: calc_ws_def)

lemma power_of_primary:
  assumes "ok_primary fp s v"
  shows "ok_power fp s v"
  unfolding ok_power_def
proof (intro allI impI)
  fix r
  assume f: "follows ''+-*/%)'' r"
  then have "calc_lim fp Primary (s @ r) False = Some (v, r, False)"
    using assms follows_wider(1) by (simp add: ok_primary_def)
  with f show "calc_lim fp Power (s @ r) False = Some (v, r, False)"
    by (cases rule: follows_cases) (auto simp: lim_simps(6) calc_power_def)
qed

lemma unary_of_power:
  assumes "ok_power fp s v" and "starts s"
  shows "ok_unary fp s v"
proof -
  obtain c u where s: "s = c # u" "c \<noteq> CHR ''-''" "c \<noteq> CHR ''+''" using assms(2) by (cases s) (auto simp: starts_def)
  then show ?thesis
    using assms starts_ws [OF assms(2)] by (auto simp: ok_unary_def ok_power_def lim_simps(5) calc_unary_def)
qed

lemma term_of_unary: "ok_unary fp s v \<Longrightarrow> ok_term fp s v"
  by (simp add: ok_term_def ok_unary_def lim_simps(3) calc_term_def)

lemma expr_of_term:
  assumes "ok_term fp s v"
  shows "ok_expr fp s v"
  unfolding ok_expr_def
proof (intro allI impI)
  fix r
  assume f: "follows ''+-)'' r"
  then have "calc_lim fp Term (s @ r) False = calc_lim fp (TermLoop v) r False"
    using assms follows_wider(2) by (simp add: ok_term_def)
  also have "\<dots> = Some (v, r, False)"
    using f by (cases rule: follows_cases) (auto simp: lim_simps(4) term_loop_def)
  finally show "calc_lim fp Expr (s @ r) False = calc_lim fp (ExprLoop v) r False"
    by (simp add: lim_simps(1) calc_expr_def)
qed

text \<open>An expression in parentheses, alone or as an argument.\<close>

lemma closed_expr:
  assumes "ok_expr fp s v"
  shows "calc_lim fp Expr (s @ CHR '')'' # r) False = Some (v, CHR '')'' # r, False)"
  using assms by (simp add: ok_expr_def follows_def lim_simps(2) expr_loop_def)

lemma primary_of_expr: "ok_expr fp s v \<Longrightarrow> ok_primary fp (paren True s) v"
  by (simp add: ok_primary_def paren_def lim_simps(7) calc_primary_def closed_expr calc_close_def)

lemma starts_paren [simp]: "starts (paren True s)"
  by (simp add: starts_def paren_def blank_def)

lemma ok_parens:
  assumes "ok_expr fp s v"
  shows "ok_primary fp (paren True s) v" "ok_power fp (paren True s) v" "ok_unary fp (paren True s) v" "ok_term fp (paren True s) v"
proof -
  show p: "ok_primary fp (paren True s) v" by (rule primary_of_expr [OF assms])
  show w: "ok_power fp (paren True s) v" by (rule power_of_primary [OF p])
  show u: "ok_unary fp (paren True s) v" by (rule unary_of_power [OF w starts_paren])
  show "ok_term fp (paren True s) v" by (rule term_of_unary [OF u])
qed

text \<open>The leaves.\<close>

lemma primary_literal:
  assumes "strtod_reads fp" and "d \<noteq> []" and "list_all isdigit d"
  shows "ok_primary fp d (fst (fp_strtod fp d))"
proof -
  obtain c u where d: "d = c # u" "isdigit c" using assms(2,3) by (cases d) auto
  have ne: "\<not> blank c" "c \<noteq> CHR ''(''" using d(2) by (auto simp: isdigit_def blank_def)
  have "fp_strtod fp (c # u @ r) = (fst (fp_strtod fp d), r)" if "follows ''+-*/%^)'' r" for r
    using assms that d(1) unfolding strtod_reads_def by (metis append_Cons)
  then show ?thesis using d ne by (auto simp: ok_primary_def lim_simps(7) calc_primary_def calc_ws_def)
qed

definition is_name :: "string \<Rightarrow> bool" where
  "is_name f \<longleftrightarrow> f \<noteq> [] \<and> list_all isalpha f \<and> length f \<le> 31 \<and> map tolower f = f"

lemma names_plain: "list_all is_name (''pi'' # ''e'' # calc_fns)"
  by code_simp

lemma alpha_head: "isalpha c \<Longrightarrow> \<not> isdigit c \<and> c \<noteq> CHR ''.'' \<and> c \<notin> set ''+-*/%^)('' \<and> \<not> blank c"
  by (auto simp: isalpha_def isdigit_def blank_def)

lemma ident_of_name:
  assumes "is_name f" and "r = [] \<or> \<not> isalpha (hd r)"
  shows "calc_ident (f @ r) = (f, calc_ws r)"
proof -
  have "takeWhile isalpha (f @ r) = f"
    using assms by (cases r) (auto simp: is_name_def list_all_iff takeWhile_append)
  then show ?thesis using assms(1) by (simp add: calc_ident_def is_name_def)
qed

text \<open>A name in front of anything but a letter: a call or a constant.\<close>

lemma primary_of_name:
  assumes "is_name f" and "r = [] \<or> \<not> isalpha (hd r)"
  shows "calc_lim fp Primary (f @ r) e =
    (if calc_ws r \<noteq> [] \<and> hd (calc_ws r) = CHR ''(''
     then Option.bind (calc_lim fp Expr (tl (calc_ws r)) e) (\<lambda>q. Some (calc_close fp (calc_fn fp f) q))
     else Some (calc_name fp f (calc_ws r) e))"
proof -
  obtain c u where c: "f = c # u" "isalpha c" using assms(1) by (cases f) (auto simp: is_name_def)
  have "calc_ws (f @ r) = c # u @ r" using c alpha_head [OF c(2)] by (simp add: calc_ws_def)
  then show ?thesis
    using alpha_head [OF c(2)] c ident_of_name [OF assms] by (simp add: lim_simps(7) calc_primary_def)
qed

lemma operators_not_alpha: "follows ''+-*/%^)'' r \<Longrightarrow> calc_ws r = r \<and> (r = [] \<or> \<not> isalpha (hd r) \<and> hd r \<noteq> CHR ''('')"
  by (erule follows_cases) (auto dest: alpha_head)

lemma primary_constants: "ok_primary fp ''pi'' (fp_pi fp)" "ok_primary fp ''e'' (fp_e fp)"
proof -
  have p: "is_name ''pi''" "is_name ''e''" using names_plain by simp_all
  show "ok_primary fp ''pi'' (fp_pi fp)" "ok_primary fp ''e'' (fp_e fp)"
    unfolding ok_primary_def
    using primary_of_name [OF p(1), where fp = fp and e = False] primary_of_name [OF p(2), where fp = fp and e = False]
    by (auto dest!: operators_not_alpha simp: calc_name_def)
qed

lemma primary_call:
  assumes "ok_expr fp s a" and "calc_fn fp f a = Some v"
  shows "ok_primary fp (f @ paren True s) v"
proof -
  have "is_name f" using assms(2) names_plain by (auto simp: calc_fn_def list_all_iff split: if_splits)
  moreover have "\<not> isalpha (CHR ''('')" using alpha_head [of "CHR ''(''"] by auto
  ultimately have "calc_lim fp Primary (f @ CHR ''('' # s @ CHR '')'' # r) False = Some (v, r, False)" for r
    using closed_expr [OF assms(1)] assms(2) by (simp add: primary_of_name calc_close_def)
  then show ?thesis by (simp add: ok_primary_def paren_def)
qed

text \<open>The operators.\<close>

lemma unary_neg: "ok_unary fp s v \<Longrightarrow> ok_unary fp (CHR ''-'' # s) (fp_neg fp v)"
  by (simp add: ok_unary_def lim_simps(5) [of _ "CHR ''-'' # _"] calc_unary_def)

lemma power_op:
  assumes "ok_primary fp s a" and "ok_power fp u b"
  shows "ok_power fp (s @ CHR ''^'' # u) (fp_pow fp a b)"
  using assms by (simp add: ok_power_def ok_primary_def follows_def lim_simps(6) [of _ "s @ _"] calc_power_def)

lemma term_op:
  assumes "ok_term fp s a" and "ok_unary fp u b" and "op_value fp opr a b = Some v" and "opr \<in> {OMul, ODiv, OMod}"
  shows "ok_term fp (s @ op_char opr # u) v"
  unfolding ok_term_def
proof (intro allI impI)
  fix r
  assume f: "follows ''+-*/%)'' r"
  have "calc_lim fp Term ((s @ op_char opr # u) @ r) False = calc_lim fp (TermLoop a) (op_char opr # u @ r) False"
    using assms(1,4) by (auto simp: ok_term_def follows_def)
  also have "\<dots> = calc_lim fp (TermLoop v) r False"
    using assms f by (auto simp: ok_unary_def lim_simps(4) [of _ _ "_ # _"] term_loop_def split: if_splits)
  finally show "calc_lim fp Term ((s @ op_char opr # u) @ r) False = calc_lim fp (TermLoop v) r False" .
qed

lemma expr_op:
  assumes "ok_expr fp s a" and "ok_term fp u b" and "op_value fp opr a b = Some v" and "opr \<in> {OAdd, OSub}"
  shows "ok_expr fp (s @ op_char opr # u) v"
  unfolding ok_expr_def
proof (intro allI impI)
  fix r
  assume f: "follows ''+-)'' r"
  have "calc_lim fp Expr ((s @ op_char opr # u) @ r) False = calc_lim fp (ExprLoop a) (op_char opr # u @ r) False"
    using assms(1,4) by (auto simp: ok_expr_def follows_def)
  moreover have "calc_lim fp Term (u @ r) False = Some (b, r, False)"
  proof -
    have "calc_lim fp Term (u @ r) False = calc_lim fp (TermLoop b) r False"
      using assms(2) follows_wider(2) [OF f] by (simp add: ok_term_def)
    also have "\<dots> = Some (b, r, False)" using f by (cases rule: follows_cases) (auto simp: lim_simps(4) term_loop_def)
    finally show ?thesis .
  qed
  ultimately show "calc_lim fp Expr ((s @ op_char opr # u) @ r) False = calc_lim fp (ExprLoop v) r False"
    using assms(3,4) by (auto simp: lim_simps(2) [of _ _ "_ # _"] expr_loop_def)
qed

text \<open>All levels together.\<close>

definition ok_levels :: "'d fpu \<Rightarrow> (nat \<Rightarrow> string) \<Rightarrow> 'd \<Rightarrow> bool" where
  "ok_levels fp s v \<longleftrightarrow>
     ok_expr fp (s 1) v \<and> ok_term fp (s 2) v \<and> ok_unary fp (s 3) v \<and> ok_power fp (s 4) v \<and> ok_primary fp (s 5) v \<and> starts (s 5)"

lemma levels_primary: "ok_primary fp s v \<Longrightarrow> starts s \<Longrightarrow> ok_levels fp (\<lambda>l. s) v"
  by (simp add: ok_levels_def power_of_primary unary_of_power term_of_unary expr_of_term)

lemma levels_power: "ok_power fp s v \<Longrightarrow> starts s \<Longrightarrow> ok_levels fp (\<lambda>l. paren (4 < l) s) v"
  by (simp add: ok_levels_def paren_def [of False] ok_parens unary_of_power term_of_unary expr_of_term)

lemma levels_unary: "ok_unary fp s v \<Longrightarrow> ok_levels fp (\<lambda>l. paren (3 < l) s) v"
  by (simp add: ok_levels_def paren_def [of False] ok_parens term_of_unary expr_of_term)

lemma levels_term: "ok_term fp s v \<Longrightarrow> ok_levels fp (\<lambda>l. paren (2 < l) s) v"
  by (simp add: ok_levels_def paren_def [of False] ok_parens expr_of_term)

lemma levels_expr: "ok_expr fp s v \<Longrightarrow> ok_levels fp (\<lambda>l. paren (1 < l) s) v"
  by (simp add: ok_levels_def paren_def [of False] ok_parens)

lemma starts_append: "starts s \<Longrightarrow> starts (s @ u)"
  by (auto simp: starts_def)

lemma starts_alpha: "is_name f \<Longrightarrow> starts (f @ u)"
  by (cases f) (auto simp: starts_def is_name_def dest: alpha_head)

lemma ashow_Bin:
  "op_levels opr = (k, la, lb) \<Longrightarrow> ashow (Bin opr a b) = (\<lambda>l. paren (k < l) (ashow a la @ op_char opr # ashow b lb))"
  by (simp add: fun_eq_iff)

lemma levels_bin:
  assumes "ok_levels fp (ashow a) x" and "ok_levels fp (ashow b) y" and v: "op_value fp opr x y = Some v"
  shows "ok_levels fp (ashow (Bin opr a b)) v"
proof -
  have a: "ok_expr fp (ashow a 1) x" "ok_term fp (ashow a 2) x" "ok_primary fp (ashow a 5) x" "starts (ashow a 5)"
    and b: "ok_term fp (ashow b 2) y" "ok_unary fp (ashow b 3) y" "ok_power fp (ashow b 4) y"
    using assms by (simp_all add: ok_levels_def)
  consider "opr \<in> {OAdd, OSub}" | "opr \<in> {OMul, ODiv, OMod}" | "opr = OPow" by (cases opr) auto
  then show ?thesis
  proof cases
    case 1
    then have "op_levels opr = (1, 1, 2)" by auto
    with levels_expr [OF expr_op [OF a(1) b(1) v 1]] show ?thesis by (simp only: ashow_Bin)
  next
    case 2
    then have "op_levels opr = (2, 2, 3)" by auto
    with levels_term [OF term_op [OF a(2) b(2) v 2]] show ?thesis by (simp only: ashow_Bin)
  next
    case 3
    with levels_power [OF power_op [OF a(3) b(3)] starts_append [OF a(4)]] v show ?thesis
      by (simp add: ashow_Bin del: ashow.simps)
  qed
qed

lemma levels_aexp:
  assumes "strtod_reads fp"
  shows "avalue fp a = Some v \<Longrightarrow> ok_levels fp (ashow a) v"
proof (induction a arbitrary: v)
  case (Lit d)
  then have d: "d \<noteq> []" "list_all isdigit d" "v = fst (fp_strtod fp d)" by (auto split: if_splits)
  have "starts d" using d(1,2) by (cases d) (auto simp: starts_def isdigit_def blank_def)
  with d primary_literal [OF assms d(1,2)] show ?case by (auto intro!: levels_primary)
next
  case ConstPi
  have "starts ''pi''" using starts_alpha [of "''pi''" "[]"] names_plain by simp
  with ConstPi show ?case by (auto intro!: levels_primary primary_constants)
next
  case ConstE
  have "starts ''e''" using starts_alpha [of "''e''" "[]"] names_plain by simp
  with ConstE show ?case by (auto intro!: levels_primary primary_constants)
next
  case (Call f a)
  then obtain x where x: "avalue fp a = Some x" "calc_fn fp f x = Some v" by (auto simp: bind_eq_Some_conv)
  then have "is_name f" using names_plain by (auto simp: calc_fn_def list_all_iff split: if_splits)
  with Call.IH [OF x(1)] x(2) show ?case by (auto simp: ok_levels_def [of _ "ashow a"] intro!: levels_primary primary_call starts_alpha)
next
  case (Neg a)
  then show ?case by (auto simp: ok_levels_def [of _ "ashow a"] intro!: levels_unary unary_neg)
next
  case (Bin opr a b)
  then show ?case by (auto simp: bind_eq_Some_conv simp del: ashow.simps intro!: levels_bin)
qed

text \<open>
  The calculator computes what the expression means.  For every arithmetic expression over decimal numbers,
  the constants, the nine functions, sign, sum, difference, product, quotient, remainder and power, written with
  only the parentheses the usual rules need (powers bind tightest and to the right, then signs, products and sums to
  the left), the parser consumes the whole text without an error and returns the value of the expression; the value
  is defined when no divisor is zero.  Used of \<open>strtod\<close>: it reads a run of decimal digits.
\<close>

theorem calc_precedence:
  fixes fp :: "'d fpu"
  assumes "strtod_reads fp" and "avalue fp a = Some v"
  shows "calc_eval fp (ashow a 1) = Some (v, [], False)"
proof -
  have "ok_expr fp (ashow a 1) v" using levels_aexp [OF assms] by (simp add: ok_levels_def)
  then have "calc_lim fp Expr (ashow a 1 @ []) False = calc_lim fp (ExprLoop v) [] False"
    unfolding ok_expr_def by (simp add: follows_def)
  then show ?thesis by (simp add: lim_simps(2) [of _ _ "[]"] expr_loop_def) (simp add: calc_lim_def calc_eval_def)
qed

text \<open>A floating-point unit over the integers, for evaluation.\<close>

definition int_fpu :: "int fpu" where
  "int_fpu = \<lparr>fp_strtod = (\<lambda>s. (int (dec_value (takeWhile isdigit s)), dropWhile isdigit s)), fp_zero = 0, fp_pi = 3, fp_e = 2,
     fp_neg = uminus, fp_add = (+), fp_sub = (-), fp_mul = (*), fp_div = (div), fp_fmod = (mod),
     fp_pow = (\<lambda>a b. a ^ nat b), fp_fn = (\<lambda>f a. a), fp_is0 = (\<lambda>d. d = 0), fp_in_range = (\<lambda>d. \<bar>d\<bar> < 1000),
     fp_print = int_dec\<rparr>"

lemma strtod_reads_int: "strtod_reads int_fpu"
  unfolding strtod_reads_def
proof (intro allI impI)
  fix d r
  assume a: "d \<noteq> [] \<and> list_all isdigit d \<and> follows ''+-*/%^)'' r"
  then have "follows ''+-*/%^)'' r" by simp
  then have r: "takeWhile isdigit r = [] \<and> dropWhile isdigit r = r" by (elim follows_cases) (auto simp: isdigit_def)
  have d: "takeWhile isdigit d = d" using a by (simp add: list_all_iff takeWhile_eq_all_conv)
  have "takeWhile isdigit (d @ r) = d" "dropWhile isdigit (d @ r) = r"
    using a r by (auto simp: list_all_iff takeWhile_append dropWhile_append)
  with d show "fp_strtod int_fpu (d @ r) = (fst (fp_strtod int_fpu d), r)"
    by (simp only: int_fpu_def fpu.select_convs fst_conv)
qed

definition demo_aexp :: aexp where
  "demo_aexp = Bin OSub (Bin OMul (Bin OAdd (Lit ''2'') (Lit ''3'')) (Neg (Bin OPow (Lit ''2'') (Lit ''2'')))) (Lit ''1'')"

theorem calc_precedence_witness:
  "strtod_reads int_fpu \<and> ashow demo_aexp 1 = ''(2+3)*-2^2-1'' \<and> calc_eval int_fpu (ashow demo_aexp 1) = Some (- 21, [], False)"
proof -
  have "avalue int_fpu demo_aexp = Some (- 21)" by code_simp
  then have "calc_eval int_fpu (ashow demo_aexp 1) = Some (- 21, [], False)" by (rule calc_precedence [OF strtod_reads_int])
  moreover have "ashow demo_aexp 1 = ''(2+3)*-2^2-1''" by code_simp
  ultimately show ?thesis using strtod_reads_int by blast
qed

text \<open>A failing expression puts its error text directly behind the results of the expressions before it.\<close>

theorem calc_error_glued: "calc_text int_fpu ''1;x'' = ''1error: cannot parse expression '' @ [CHR 0x27] @ ''x'' @ [CHR 0x27]"
  by code_simp

end
