(* ===== verification/Skills.thy ===== *)
theory Skills
  imports Auth_Basic Static_Files Minijson
begin

text \<open>
  The skill index, \<open>src/src/agent/skills.c\<close>: directories with a \<open>SKILL.md\<close> file under a few roots are listed for the
  system prompt, and a skill's text is read by its name.  The environment is a record; the file system is the one of
  the static files.  \<open>None\<close> as a result is a read behind a string by \<open>set_str_utf8\<close>.
\<close>

definition SKILL_NAME_MAX :: nat where "SKILL_NAME_MAX = 64"
definition SKILL_DESC_MAX :: nat where "SKILL_DESC_MAX = 160"
definition SKILL_MAX :: nat where "SKILL_MAX = 64"
definition SKILL_ROOTS_MAX :: nat where "SKILL_ROOTS_MAX = 8"
definition SKILL_IDX_TEXT_MAX :: nat where "SKILL_IDX_TEXT_MAX = SKILL_MAX * (SKILL_NAME_MAX + SKILL_DESC_MAX + 8)"

record SkillInfo =
  sk_name :: string
  sk_desc :: string
  sk_path :: string

record skill_env =
  se_allow :: "string option"
  se_dir :: "string option"
  se_extra :: "string option"
  se_cwd :: "string option"

text \<open>The tokens \<open>strtok\<close> cuts a list at its commas into, trimmed.\<close>

definition comma_tokens :: "nat \<Rightarrow> string \<Rightarrow> string list" where
  "comma_tokens sz s = map trim_whitespace (filter (\<lambda>t. t \<noteq> []) (split_on (CHR '','') (set_str sz s)))"

definition skill_allowed :: "string option \<Rightarrow> string \<Rightarrow> bool" where
  "skill_allowed allow name =
     (case allow of None \<Rightarrow> True | Some a \<Rightarrow> a = [] \<or> name \<in> set (comma_tokens 1024 a))"

section \<open>The roots\<close>

definition add_root :: "fs \<Rightarrow> string option \<Rightarrow> string list \<Rightarrow> string list" where
  "add_root fs path roots =
     (case path of
        None \<Rightarrow> roots
      | Some p \<Rightarrow>
          if p = [] \<or> length roots \<ge> SKILL_ROOTS_MAX \<or> p \<in> set roots then roots
          else roots @ [set_str MAX_PATH_SIZE (case fs_realpath fs p of None \<Rightarrow> p | Some r \<Rightarrow> r)])"

definition skill_roots :: "fs \<Rightarrow> skill_env \<Rightarrow> string list" where
  "skill_roots fs env =
     (let sub = (\<lambda>d. map_option (\<lambda>c. take (MAX_PATH_SIZE - 1) (c @ d)) (se_cwd env));
          r1 = add_root fs (sub ''/skills'') [];
          r2 = add_root fs (sub ''/skills/router'') r1;
          r3 = add_root fs (se_dir env) r2;
          r4 = add_root fs (sub ''/resolve-skills/skills'') r3
      in case se_extra env of
           None \<Rightarrow> r4
         | Some x \<Rightarrow> foldl (\<lambda>rs tok. add_root fs (Some tok) rs) r4 (comma_tokens (SKILL_ROOTS_MAX * MAX_PATH_SIZE) x))"

section \<open>Front matter\<close>

definition skip_blanks :: "string \<Rightarrow> string" where
  "skip_blanks s = dropWhile (\<lambda>c. c = CHR '' '' \<or> c = TAB) s"

text \<open>The two fields, name and description.\<close>

definition fm_scan_field :: "string \<times> string \<Rightarrow> string \<Rightarrow> (string \<times> string) option" where
  "fm_scan_field fm line =
     (let p = skip_blanks line
      in if take 5 p = ''name:'' then
           map_option (\<lambda>n. (n, snd fm)) (set_str_utf8 (SKILL_NAME_MAX + 1) (Some (skip_blanks (drop 5 p) @ [NUL])))
         else if take 12 p = ''description:'' then
           map_option (\<lambda>d. (fst fm, d)) (set_str_utf8 (SKILL_DESC_MAX + 1) (Some (skip_blanks (drop 12 p) @ [NUL])))
         else Some fm)"

fun fm_lines :: "bool \<Rightarrow> string list \<Rightarrow> string \<times> string \<Rightarrow> (string \<times> string) option" where
  "fm_lines fm_open [] fm = Some fm"
| "fm_lines fm_open (l # ls) fm =
     (let s = skip_blanks (cstr l)
      in if take 3 s = ''---'' then (if fm_open then Some fm else fm_lines True ls fm)
         else if fm_open then Option.bind (fm_scan_field fm (rtrim (\<lambda>c. c = LF \<or> c = CR) s)) (fm_lines fm_open ls)
         else fm_lines fm_open ls fm)"

definition parse_frontmatter :: "fs \<Rightarrow> string \<Rightarrow> (string \<times> string) option" where
  "parse_frontmatter fs path =
     (case fs_read fs path of None \<Rightarrow> Some ([], []) | Some content \<Rightarrow> fm_lines False (fgets_lines 512 content) ([], []))"

section \<open>The index\<close>

definition skill_md :: "string \<Rightarrow> string \<Rightarrow> string" where
  "skill_md dir name = dir @ ''/'' @ name @ ''/SKILL.md''"

definition add_skill :: "fs \<Rightarrow> skill_env \<Rightarrow> string \<Rightarrow> string \<Rightarrow> SkillInfo list \<Rightarrow> SkillInfo list option" where
  "add_skill fs env dir name sks =
     (if name = [] \<or> CHR ''/'' \<in> set name \<or> CHR 0x5C \<in> set name then Some sks
      else if \<not> skill_allowed (se_allow env) name then Some sks
      else if name \<in> set (map sk_name sks) then Some sks
      else if length (skill_md dir name) \<ge> MAX_PATH_SIZE then Some sks
      else if fs_read fs (skill_md dir name) = None then Some sks
      else case parse_frontmatter fs (skill_md dir name) of
             None \<Rightarrow> None
           | Some (n, d) \<Rightarrow>
               if length sks \<ge> SKILL_MAX then Some sks
               else Option.bind (set_str_utf8 (SKILL_NAME_MAX + 1) (Some ((if n \<noteq> [] then n else name) @ [NUL])))
                      (\<lambda>n'. Option.bind (set_str_utf8 (SKILL_DESC_MAX + 1) (Some (d @ [NUL])))
                        (\<lambda>d'. Some (sks @ [\<lparr>sk_name = n', sk_desc = d', sk_path = set_str (MAX_PATH_SIZE + 1) (skill_md dir name)\<rparr>]))))"

fun add_entries :: "fs \<Rightarrow> skill_env \<Rightarrow> string \<Rightarrow> string list \<Rightarrow> SkillInfo list \<Rightarrow> SkillInfo list option" where
  "add_entries fs env dir [] sks = Some sks"
| "add_entries fs env dir (e # es) sks =
     (if e \<noteq> [] \<and> hd e = CHR ''.'' then add_entries fs env dir es sks
      else Option.bind (add_skill fs env dir e sks) (add_entries fs env dir es))"

fun scan_roots :: "fs \<Rightarrow> skill_env \<Rightarrow> string list \<Rightarrow> SkillInfo list \<Rightarrow> SkillInfo list option" where
  "scan_roots fs env [] sks = Some sks"
| "scan_roots fs env (r # rs) sks =
     (case fs_readdir fs r of
        None \<Rightarrow> scan_roots fs env rs sks
      | Some es \<Rightarrow> Option.bind (add_entries fs env r es sks) (scan_roots fs env rs))"

definition index_line :: "SkillInfo \<Rightarrow> string" where
  "index_line k = ''- '' @ sk_name k @ '': '' @ sk_desc k @ [LF]"

text \<open>The text: every line goes behind the wanted length of those before, while that is inside the buffer.\<close>

fun render_index :: "nat \<Rightarrow> SkillInfo list \<Rightarrow> string" where
  "render_index off [] = []"
| "render_index off (k # ks) =
     (if off < SKILL_IDX_TEXT_MAX + 1 then
        take (SKILL_IDX_TEXT_MAX - off) (index_line k) @ render_index (off + length (index_line k)) ks
      else [])"

record skill_index =
  si_skills :: "SkillInfo list"
  si_text :: string

definition skills_init :: "fs \<Rightarrow> skill_env \<Rightarrow> skill_index option" where
  "skills_init fs env =
     map_option (\<lambda>sks. \<lparr>si_skills = sks, si_text = render_index 0 sks\<rparr>) (scan_roots fs env (skill_roots fs env) [])"

definition skills_get :: "skill_index \<Rightarrow> int \<Rightarrow> SkillInfo option" where
  "skills_get si i = (if i < 0 \<or> i \<ge> int (length (si_skills si)) then None else Some (si_skills si ! nat i))"

text \<open>
  The whole file of a skill: the bytes of the growable buffer, \<open>None\<close> when it was never allocated (an empty file).
\<close>

fun chunks4096 :: "string \<Rightarrow> string list" where
  "chunks4096 [] = []"
| "chunks4096 (c # s) = take 4096 (c # s) # chunks4096 (drop 4096 (c # s))"

definition skills_read :: "(nat \<Rightarrow> bool) \<Rightarrow> fs \<Rightarrow> skill_index \<Rightarrow> string \<Rightarrow> string option" where
  "skills_read alloc fs si name =
     (case find (\<lambda>k. sk_name k = name) (si_skills si) of
        None \<Rightarrow> None
      | Some k \<Rightarrow>
          (case fs_read fs (sk_path k) of
             None \<Rightarrow> None
           | Some content \<Rightarrow>
               let b = foldl (sb_mem alloc) zero_sbuf (chunks4096 content) in if sb_text b = [] then None else Some (cstr (sb_text b))))"

section \<open>What is indexed\<close>

text \<open>An index entry stands for the file \<open>SKILL.md\<close> of a plain, allowed directory entry of a root.\<close>

definition entry_of :: "fs \<Rightarrow> skill_env \<Rightarrow> string list \<Rightarrow> SkillInfo \<Rightarrow> bool" where
  "entry_of fs env roots k \<longleftrightarrow>
     (\<exists>dir \<in> set roots. \<exists>es. fs_readdir fs dir = Some es \<and>
        (\<exists>name \<in> set es. sk_path k = skill_md dir name \<and> name \<noteq> [] \<and> hd name \<noteq> CHR ''.'' \<and> CHR ''/'' \<notin> set name \<and>
           CHR 0x5C \<notin> set name \<and> skill_allowed (se_allow env) name)) \<and>
     length (sk_name k) \<le> SKILL_NAME_MAX \<and> length (sk_desc k) \<le> SKILL_DESC_MAX"

lemma utf8_prefix_loop_le: "utf8_prefix_loop mem mx pos e = Some r \<Longrightarrow> e \<le> mx \<Longrightarrow> r \<le> mx"
proof (induction mem mx pos e rule: utf8_prefix_loop.induct)
  case (1 mem mx pos e)
  then show ?case by (subst (asm) (2) utf8_prefix_loop.simps) (auto split: if_splits)
qed

lemma set_str_utf8_length: "set_str_utf8 (Suc n) (Some s) = Some t \<Longrightarrow> length t \<le> n"
  by (auto simp: set_str_utf8_def utf8_valid_prefix_def dest: utf8_prefix_loop_le split: option.splits)

lemma add_skill_entry:
  assumes "add_skill fs env dir name sks = Some sks'" and "list_all (entry_of fs env roots) sks"
    and "dir \<in> set roots" and "fs_readdir fs dir = Some es" and "name \<in> set es" and "name = [] \<or> hd name \<noteq> CHR ''.''"
    and "length sks \<le> SKILL_MAX"
  shows "list_all (entry_of fs env roots) sks' \<and> length sks' \<le> SKILL_MAX"
proof (cases "sks' = sks")
  case False
  with assms(1) obtain n' d' where s: "name \<noteq> []" "CHR ''/'' \<notin> set name" "CHR 0x5C \<notin> set name" "skill_allowed (se_allow env) name"
    "length (skill_md dir name) < MAX_PATH_SIZE" "length sks < SKILL_MAX" "length n' \<le> SKILL_NAME_MAX" "length d' \<le> SKILL_DESC_MAX"
    "sks' = sks @ [\<lparr>sk_name = n', sk_desc = d', sk_path = set_str (MAX_PATH_SIZE + 1) (skill_md dir name)\<rparr>]"
    by (auto simp: add_skill_def bind_eq_Some_conv split: if_splits option.splits dest!: set_str_utf8_length) blast+
  have "set_str (MAX_PATH_SIZE + 1) (skill_md dir name) = skill_md dir name" using s(5) by (simp add: set_str_def)
  then have "entry_of fs env roots \<lparr>sk_name = n', sk_desc = d', sk_path = set_str (MAX_PATH_SIZE + 1) (skill_md dir name)\<rparr>"
    using s assms(3-6) by (auto simp: entry_of_def)
  with s assms(2) show ?thesis by simp
qed (use assms in simp)

lemma add_entries_entry:
  "add_entries fs env dir ns sks = Some sks' \<Longrightarrow> list_all (entry_of fs env roots) sks \<Longrightarrow> dir \<in> set roots \<Longrightarrow>
   fs_readdir fs dir = Some es \<Longrightarrow> set ns \<subseteq> set es \<Longrightarrow> length sks \<le> SKILL_MAX \<Longrightarrow>
   list_all (entry_of fs env roots) sks' \<and> length sks' \<le> SKILL_MAX"
proof (induction ns arbitrary: sks)
  case (Cons n ns)
  show ?case
  proof (cases "n \<noteq> [] \<and> hd n = CHR ''.''")
    case True
    with Cons show ?thesis by simp
  next
    case False
    with Cons.prems(1) obtain s1 where s1: "add_skill fs env dir n sks = Some s1" "add_entries fs env dir ns s1 = Some sks'"
      by (auto simp: bind_eq_Some_conv)
    have "n \<in> set es" "n = [] \<or> hd n \<noteq> CHR ''.''" using Cons.prems(5) False by auto
    from add_skill_entry [OF s1(1) Cons.prems(2,3,4) this Cons.prems(6)] show ?thesis
      using Cons.IH [OF s1(2)] Cons.prems(3,4,5) by simp
  qed
qed simp

lemma scan_roots_entry:
  "scan_roots fs env rs sks = Some sks' \<Longrightarrow> list_all (entry_of fs env roots) sks \<Longrightarrow> set rs \<subseteq> set roots \<Longrightarrow>
   length sks \<le> SKILL_MAX \<Longrightarrow> list_all (entry_of fs env roots) sks' \<and> length sks' \<le> SKILL_MAX"
proof (induction rs arbitrary: sks)
  case (Cons r rs)
  show ?case
  proof (cases "fs_readdir fs r")
    case None
    with Cons show ?thesis by simp
  next
    case (Some es)
    with Cons.prems(1) obtain s1 where s1: "add_entries fs env r es sks = Some s1" "scan_roots fs env rs s1 = Some sks'"
      by (auto simp: bind_eq_Some_conv)
    have "r \<in> set roots" using Cons.prems(3) by simp
    from add_entries_entry [OF s1(1) Cons.prems(2) this Some order_refl Cons.prems(4)] show ?thesis
      using Cons.IH [OF s1(2)] Cons.prems(3) by simp
  qed
qed simp

lemma skills_init_entries:
  "skills_init fs env = Some si \<Longrightarrow> list_all (entry_of fs env (skill_roots fs env)) (si_skills si) \<and> length (si_skills si) \<le> SKILL_MAX"
  using scan_roots_entry [of fs env "skill_roots fs env" "[]" _ "skill_roots fs env"] by (auto simp: skills_init_def)

text \<open>The buffer of the index text has room for every line, so no line is cut.\<close>

lemma render_index_whole:
  assumes "list_all (\<lambda>k. length (sk_name k) \<le> SKILL_NAME_MAX \<and> length (sk_desc k) \<le> SKILL_DESC_MAX) ks"
    and "off + 229 * length ks \<le> SKILL_IDX_TEXT_MAX"
  shows "render_index off ks = concat (map index_line ks)"
  using assms
proof (induction ks arbitrary: off)
  case (Cons k ks)
  then have "length (index_line k) \<le> 229" by (simp add: index_line_def SKILL_NAME_MAX_def SKILL_DESC_MAX_def)
  with Cons show ?case by simp
qed simp

text \<open>Whatever allocations fail, the buffer holds a beginning of what was put into it.\<close>

lemma sb_puts_prefix: "\<exists>n. sb_text (foldl (sb_mem alloc) b ss) = sb_text b @ take n (concat ss)"
proof (induction ss arbitrary: b)
  case (Cons s ss)
  show ?case
  proof (cases "sb_oom (sb_mem alloc b s)")
    case True
    then have "sb_text (sb_mem alloc b s) = sb_text b" by (auto simp: sb_mem_def Let_def sb_reserve_text)
    with sb.puts_failed [OF True] show ?thesis by (auto intro: exI [of _ 0])
  next
    case False
    obtain n where "sb_text (foldl (sb_mem alloc) (sb_mem alloc b s) ss) = sb_text (sb_mem alloc b s) @ take n (concat ss)"
      using Cons by blast
    with sb.put_written [OF False] show ?thesis by (auto intro!: exI [of _ "length s + n"])
  qed
qed simp

lemma concat_chunks: "concat (chunks4096 s) = s"
proof (induction s rule: chunks4096.induct)
  case (2 c s)
  then show ?case using append_take_drop_id [of 4096 "c # s"] by (simp only: chunks4096.simps concat.simps)
qed simp

lemma skills_read_file:
  assumes "skills_read alloc fs si name = Some body"
  shows "\<exists>k \<in> set (si_skills si). \<exists>content n. sk_name k = name \<and> fs_read fs (sk_path k) = Some content \<and> body = take n content"
proof -
  obtain k content where k: "find (\<lambda>k. sk_name k = name) (si_skills si) = Some k" "fs_read fs (sk_path k) = Some content"
    "body = cstr (sb_text (foldl (sb_mem alloc) zero_sbuf (chunks4096 content)))"
    using assms by (auto simp: skills_read_def Let_def split: option.splits if_splits)
  obtain n where "body = cstr (take n content)"
    using k(3) sb_puts_prefix [of alloc zero_sbuf "chunks4096 content"] by (auto simp: concat_chunks zero_sbuf_def sb_text_def)
  then have "\<exists>m. body = take m content"
    by (metis cstr_def takeWhile_eq_take take_take)
  moreover have "k \<in> set (si_skills si)" "sk_name k = name" using k(1) by (auto simp: find_Some_iff)
  ultimately show ?thesis using k(2) by blast
qed

text \<open>
  Only skill files are ever read.  Every entry of the index stands for the file \<open>SKILL.md\<close> in a directory entry
  of one of the configured roots that is allowed by the profile, has no slash or backslash and does not start with a
  dot; the index has at most 64 entries; its text for the prompt is all their lines, none cut; and whatever name the
  model asks for, the text it gets is the beginning of such a file.
\<close>

theorem skills_confined:
  assumes "skills_init fs env = Some si"
  shows "list_all (entry_of fs env (skill_roots fs env)) (si_skills si) \<and>
    length (si_skills si) \<le> SKILL_MAX \<and>
    si_text si = concat (map index_line (si_skills si)) \<and>
    (\<forall>alloc name body. skills_read alloc fs si name = Some body \<longrightarrow>
       (\<exists>k \<in> set (si_skills si). \<exists>content n. sk_name k = name \<and> fs_read fs (sk_path k) = Some content \<and> body = take n content))"
proof (intro conjI allI impI skills_read_file)
  note e = skills_init_entries [OF assms]
  show "list_all (entry_of fs env (skill_roots fs env)) (si_skills si)" "length (si_skills si) \<le> SKILL_MAX" using e by simp_all
  have "list_all (\<lambda>k. length (sk_name k) \<le> SKILL_NAME_MAX \<and> length (sk_desc k) \<le> SKILL_DESC_MAX) (si_skills si)"
    using e by (auto simp: list_all_iff entry_of_def)
  with e render_index_whole [of "si_skills si" 0] assms show "si_text si = concat (map index_line (si_skills si))"
    by (auto simp: skills_init_def SKILL_MAX_def SKILL_IDX_TEXT_MAX_def SKILL_NAME_MAX_def SKILL_DESC_MAX_def)
qed

text \<open>A file system with one skill directory, whose front matter names the skill otherwise.\<close>

definition demo_skill_fs :: fs where
  "demo_skill_fs = \<lparr>fs_stat = (\<lambda>_. None),
     fs_read = (\<lambda>p. if p = ''/s/a/SKILL.md'' then Some (''---'' @ [LF] @ ''name: b'' @ [LF]) else None),
     fs_realpath = (\<lambda>_. None), fs_readdir = (\<lambda>d. if d = ''/s'' then Some [''.git'', ''a''] else None)\<rparr>"

definition demo_skill_env :: skill_env where
  "demo_skill_env = \<lparr>se_allow = Some ''a'', se_dir = Some ''/s'', se_extra = None, se_cwd = None\<rparr>"

lemma demo_skills:
  "skills_init demo_skill_fs demo_skill_env =
   Some \<lparr>si_skills = [\<lparr>sk_name = ''b'', sk_desc = [], sk_path = ''/s/a/SKILL.md''\<rparr>], si_text = ''- b: '' @ [LF]\<rparr>"
  by code_simp

theorem skills_confined_witness:
  "entry_of demo_skill_fs demo_skill_env (skill_roots demo_skill_fs demo_skill_env) \<lparr>sk_name = ''b'', sk_desc = [], sk_path = ''/s/a/SKILL.md''\<rparr>"
  using skills_confined [OF demo_skills] by simp

text \<open>
  The profile and the search for duplicates look at the directory name, the index holds the name of the front matter:
  a skill is listed under a name that the profile does not allow.
\<close>

theorem renamed_skill_passes_profile:
  "\<not> skill_allowed (se_allow demo_skill_env) ''b'' \<and>
   (\<exists>si. skills_init demo_skill_fs demo_skill_env = Some si \<and> sk_name (hd (si_skills si)) = ''b'')"
proof -
  have "\<not> skill_allowed (se_allow demo_skill_env) ''b''" by code_simp
  with demo_skills show ?thesis by simp
qed

end
