(* ===== verification/Tools.thy ===== *)
theory Tools
  imports Calc Fetch_Guard Agent_Memory Sql_Tools Skills
begin

text \<open>
  The tool registry of the agent and its built-in tools, \<open>src/src/agent/tools.c\<close>.  A registered tool carries a
  function of type \<open>'f\<close>; the built-in ones are named by the datatype \<open>tool_fn\<close>.  The calculator, the fetch tool, the
  memory and the SQL tools are the components they call.
\<close>

definition TOOL_NAME_MAX :: nat where "TOOL_NAME_MAX = 64"
definition TOOL_DESC_MAX :: nat where "TOOL_DESC_MAX = 2048"
definition TOOL_PARAMS_MAX :: nat where "TOOL_PARAMS_MAX = 4096"
definition TOOL_MAX :: nat where "TOOL_MAX = 256"
definition TOOL_READ_MAX :: nat where "TOOL_READ_MAX = 8192"
definition SKILL_BODY_MAX :: nat where "SKILL_BODY_MAX = 16384"

section \<open>The registry\<close>

record 'f ToolDef =
  td_name :: string
  td_desc :: string
  td_params :: string
  td_fn :: 'f

record 'f registry =
  g_tools :: "'f ToolDef list"
  g_schema_cache :: "string option"
  g_schema_dirty :: bool

definition empty_registry :: "'f registry" where
  "empty_registry = \<lparr>g_tools = [], g_schema_cache = None, g_schema_dirty = True\<rparr>"

text \<open>The profile: \<open>HARNESS_TOOLS_ALLOW\<close>, a list separated by commas.\<close>

definition tools_register_allowed :: "string option \<Rightarrow> string option \<Rightarrow> bool" where
  "tools_register_allowed env name =
     (case name of
        None \<Rightarrow> False
      | Some n \<Rightarrow>
          strstr n ''__'' \<noteq> None \<or>
          (case env of
             None \<Rightarrow> True
           | Some allow \<Rightarrow>
               allow = [] \<or> n \<in> set (comma_tokens 1024 allow)))"

text \<open>A copy of at most \<open>mx\<close> bytes that ends between two characters; \<open>None\<close> is a read behind the source.\<close>

definition utf8_copy :: "string \<Rightarrow> nat \<Rightarrow> string option" where
  "utf8_copy s mx = map_option (\<lambda>n. take n s) (utf8_valid_prefix (Some (s @ [NUL])) mx)"

definition tools_register ::
  "string option \<Rightarrow> string option \<Rightarrow> string option \<Rightarrow> string option \<Rightarrow> 'f option \<Rightarrow> 'f registry \<Rightarrow> (int \<times> 'f registry) option" where
  "tools_register env name desc params_json fn reg =
     (case (name, fn) of
        (Some n, Some f) \<Rightarrow>
          if length (g_tools reg) \<ge> TOOL_MAX then Some (- 1, reg)
          else if \<not> tools_register_allowed env name then Some (- 1, reg)
          else if list_ex (\<lambda>t. td_name t = n) (g_tools reg) then Some (- 1, reg)
          else
            let params = (case params_json of None \<Rightarrow> ''{}'' | Some p \<Rightarrow> if length p \<ge> TOOL_PARAMS_MAX then ''{}'' else p)
            in (case (utf8_copy n TOOL_NAME_MAX, utf8_copy (case desc of None \<Rightarrow> [] | Some d \<Rightarrow> d) TOOL_DESC_MAX, utf8_copy params TOOL_PARAMS_MAX) of
                  (Some n', Some d', Some p') \<Rightarrow>
                    Some (0, reg\<lparr>g_tools := g_tools reg @ [\<lparr>td_name = n', td_desc = d', td_params = p', td_fn = f\<rparr>], g_schema_dirty := True\<rparr>)
                | _ \<Rightarrow> None)
      | _ \<Rightarrow> Some (- 1, reg))"

definition tools_count :: "'f registry \<Rightarrow> nat" where
  "tools_count reg = length (g_tools reg)"

definition tools_get :: "'f registry \<Rightarrow> int \<Rightarrow> 'f ToolDef option" where
  "tools_get reg i = (if i < 0 \<or> i \<ge> int (length (g_tools reg)) then None else Some (g_tools reg ! nat i))"

text \<open>The tools array of a request: one entry per tool, its parameters as they were registered.\<close>

definition tool_params_or_empty :: "'f ToolDef \<Rightarrow> string" where
  "tool_params_or_empty t = (if td_params t \<noteq> [] then td_params t else ''{}'')"

definition tool_pieces :: "'f ToolDef \<Rightarrow> string list" where
  "tool_pieces t =
     [CHR ''{'' # jkey ''type'' @ json_quote ''function'' @ CHR '','' # jkey ''function'' @ CHR ''{'' # jkey ''name''] @
     json_pieces (td_name t) @ [CHR '','' # jkey ''description''] @ json_pieces (td_desc t) @
     [CHR '','' # jkey ''parameters'' @ CHR ''{'' # jkey ''type'' @ json_quote ''object'' @ CHR '','' # jkey ''properties''] @
     [tool_params_or_empty t] @ [CHR '','' # jkey ''required'' @ ''[]}}}'']"

definition schema_pieces :: "'f ToolDef list \<Rightarrow> string list" where
  "schema_pieces ts = [''[''] @ comma_sep (map tool_pieces ts) @ ['']'']"

text \<open>\<open>alloc\<close> says which allocations succeed; the cached copy is one of them.\<close>

definition tools_schema_json :: "(nat \<Rightarrow> bool) \<Rightarrow> 'f registry \<Rightarrow> string \<times> 'f registry" where
  "tools_schema_json alloc reg =
     (if \<not> g_schema_dirty reg \<and> g_schema_cache reg \<noteq> None then (the (g_schema_cache reg), reg)
      else
        let b = foldl (sb_mem alloc) zero_sbuf (schema_pieces (g_tools reg))
        in if sb_oom b then (''[]'', reg)
           else
             let fresh = sb_text b
             in if alloc (length fresh + 1) then (fresh, reg\<lparr>g_schema_cache := Some fresh, g_schema_dirty := False\<rparr>)
                else ((case g_schema_cache reg of None \<Rightarrow> ''[]'' | Some c \<Rightarrow> c), reg))"

text \<open>The per-request list; \<open>None\<close> entries are names that could not be read.\<close>

definition tools_schema_json_filtered :: "(nat \<Rightarrow> bool) \<Rightarrow> string option list \<Rightarrow> 'f registry \<Rightarrow> string" where
  "tools_schema_json_filtered alloc names reg =
     (let b = foldl (sb_mem alloc) zero_sbuf (schema_pieces (filter (\<lambda>t. Some (td_name t) \<in> set names) (g_tools reg)))
      in if sb_oom b then ''[]'' else sb_text b)"

section \<open>The built-in tools\<close>

text \<open>
  What the tools use of the process: the clock, floating point, files, the resolver and \<open>curl\<close>, the allocator, the
  disk (\<open>io\<close>), the skill index, the SQL engine and its database path, and the dynamic tools (scripts and MCP servers),
  which other components provide.
\<close>

datatype tool_fn =
  FGetTime | FCalc | FReadFile | FFetchUrl | FSkillRun | FRemember | FRecall |
  FSqlQuery | FSqlWrite | FSqlTables | FSqlSchema | FDynamic nat

record ('d, 'db) tool_env =
  te_now :: int
  te_fpu :: "'d fpu"
  te_fs :: fs
  te_web_root :: string
  te_resolver :: resolver
  te_curl :: "string \<Rightarrow> curl_run"
  te_alloc :: "nat \<Rightarrow> bool"
  te_io :: bool
  te_skills :: skill_index
  te_sql :: "'db sqlite"
  te_db_path :: "string option"
  te_dynamic :: "nat \<Rightarrow> string option \<Rightarrow> string \<Rightarrow> string"

text \<open>The state the tools change: the memory files and the database.\<close>

record 'db tool_state =
  ts_memory :: memory_files
  ts_db :: 'db

definition missing_arg :: "string \<Rightarrow> string" where
  "missing_arg key = ''error: missing string argument '' @ squoted key"

definition tool_calc :: "'d fpu \<Rightarrow> string \<Rightarrow> string" where
  "tool_calc fp args =
     (case tool_str_arg args ''expression'' 8192 of None \<Rightarrow> missing_arg ''expression'' | Some e \<Rightarrow> calc_text fp e)"

definition tool_get_time :: "int \<Rightarrow> string" where
  "tool_get_time now =
     (let g = gmtime (now + 8 * 3600)
      in ''server time (Beijing, UTC+8): '' @
         int_dec (tm_year g) @ ''-'' @ dec2 (int (tm_mon g) + 1) @ ''-'' @ dec2 (tm_mday g) @ '' '' @
         dec2 (tm_hour g) @ '':'' @ dec2 (tm_min g) @ '':'' @ dec2 (tm_sec g) @
         '' (HTTP date: '' @ format_http_date now @ '')'')"

text \<open>A directory can be opened but not read.\<close>

definition file_bytes :: "fs \<Rightarrow> string \<Rightarrow> string option" where
  "file_bytes fs p =
     (case fs_stat fs p of Some st \<Rightarrow> if st_isdir st then Some [] else fs_read fs p | None \<Rightarrow> fs_read fs p)"

definition tool_read_file :: "fs \<Rightarrow> string \<Rightarrow> string \<Rightarrow> string" where
  "tool_read_file fs web_root args =
     (case tool_str_arg args ''path'' 512 of
        None \<Rightarrow> missing_arg ''path''
      | Some p \<Rightarrow>
          if (p = [] \<or> hd p \<noteq> CHR ''/'') \<and> length p + 1 \<ge> 512 then ''error: path too long''
          else
            let path = (if p = [] \<or> hd p \<noteq> CHR ''/'' then CHR ''/'' # p else p)
            in case resolve_within fs web_root path MAX_PATH_SIZE of
                 None \<Rightarrow> ''error: path rejected (must stay inside the web root)''
               | Some real \<Rightarrow>
                   (case file_bytes fs real of
                      None \<Rightarrow> ''error: cannot open '' @ squoted path
                    | Some content \<Rightarrow>
                        if content = [] then ''(empty file)''
                        else take TOOL_READ_MAX content @
                             (if length content \<ge> TOOL_READ_MAX then LF # ''...[truncated at 8KB]'' else [])))"

definition tool_skill_run :: "(nat \<Rightarrow> bool) \<Rightarrow> fs \<Rightarrow> skill_index \<Rightarrow> string \<Rightarrow> string" where
  "tool_skill_run alloc fs si args =
     (case tool_str_arg args ''skill'' (SKILL_NAME_MAX + 1) of
        None \<Rightarrow> missing_arg ''skill''
      | Some name \<Rightarrow>
          (case skills_read alloc fs si name of
             None \<Rightarrow> ''error: unknown skill '' @ squoted name
           | Some body \<Rightarrow>
               (if length body > SKILL_BODY_MAX then ''[skill content truncated]'' @ [LF] else []) @
               name @ '':'' @ [LF] @ take SKILL_BODY_MAX body))"

definition no_session :: string where
  "no_session = ''error: memory requires a session; pass a sessionId in the request (memory is not global)''"

definition first_arg :: "string \<Rightarrow> string \<Rightarrow> string \<Rightarrow> nat \<Rightarrow> string option" where
  "first_arg args k1 k2 sz = (case tool_str_arg args k1 sz of Some v \<Rightarrow> Some v | None \<Rightarrow> tool_str_arg args k2 sz)"

definition tool_remember ::
  "(nat \<Rightarrow> bool) \<Rightarrow> bool \<Rightarrow> string \<Rightarrow> string \<Rightarrow> memory_files \<Rightarrow> (string \<times> memory_files) option" where
  "tool_remember alloc io args session_id mem =
     (if session_id = [] then Some (no_session, mem)
      else case first_arg args ''key'' ''name'' (SESSION_KEY_MAX + 1) of
             None \<Rightarrow> Some (missing_arg ''key'', mem)
           | Some key \<Rightarrow>
               (case first_arg args ''value'' ''fact'' (SESSION_VAL_MAX + 1) of
                  None \<Rightarrow> Some (missing_arg ''value'', mem)
                | Some val \<Rightarrow>
                    (case session_fact_set_file alloc io session_id key (Some val) mem of
                       None \<Rightarrow> None
                     | Some (rc, mem') \<Rightarrow>
                         if rc \<noteq> 0 then Some (''error: failed to persist memory (bad key or disk)'', mem')
                         else Some (''remembered '' @ key @ '' = '' @ val, mem'))))"

definition tool_recall :: "(nat \<Rightarrow> bool) \<Rightarrow> string \<Rightarrow> string \<Rightarrow> memory_files \<Rightarrow> string" where
  "tool_recall alloc args session_id mem =
     (if session_id = [] then no_session
      else case first_arg args ''key'' ''name'' (SESSION_KEY_MAX + 1) of
             None \<Rightarrow> missing_arg ''key''
           | Some key \<Rightarrow>
               (case session_fact_get_file alloc mem session_id key (SESSION_VAL_MAX + 3) of
                  None \<Rightarrow> ''error: no stored fact for '' @ squoted key
                | Some val \<Rightarrow> key @ '' = '' @ val))"

text \<open>
  The call through the table: the text for the model and the new state.  The arguments are a null pointer (\<open>None\<close>) when
  the model sent none: most tools read that as an empty text, the two SQL tools that take a query read through it, which
  kills the process (\<open>None\<close>).
\<close>

definition arg_text :: "string option \<Rightarrow> string" where
  "arg_text a = (case a of None \<Rightarrow> [] | Some s \<Rightarrow> s)"

definition run_tool ::
  "('d, 'db) tool_env \<Rightarrow> tool_fn \<Rightarrow> string option \<Rightarrow> string \<Rightarrow> 'db tool_state \<Rightarrow> (string \<times> 'db tool_state) option" where
  "run_tool ev fn a sid st =
     (let args = arg_text a; null_query = (a = None \<and> te_db_path ev \<noteq> None)
      in case fn of
        FGetTime \<Rightarrow> Some (tool_get_time (te_now ev), st)
      | FCalc \<Rightarrow> Some (tool_calc (te_fpu ev) args, st)
      | FReadFile \<Rightarrow> Some (tool_read_file (te_fs ev) (te_web_root ev) args, st)
      | FFetchUrl \<Rightarrow> Some (fr_text (tool_fetch_url (te_resolver ev) (te_curl ev) args), st)
      | FSkillRun \<Rightarrow> Some (tool_skill_run (te_alloc ev) (te_fs ev) (te_skills ev) args, st)
      | FRemember \<Rightarrow> map_option (\<lambda>(t, m). (t, st\<lparr>ts_memory := m\<rparr>)) (tool_remember (te_alloc ev) (te_io ev) args sid (ts_memory st))
      | FRecall \<Rightarrow> Some (tool_recall (te_alloc ev) args sid (ts_memory st), st)
      | FSqlQuery \<Rightarrow> if null_query then None else Some (tool_sql_query (te_sql ev) (te_db_path ev) args (ts_db st), st)
      | FSqlWrite \<Rightarrow>
          if null_query then None
          else (case tool_sql_write (te_sql ev) (te_db_path ev) args (ts_db st) of (t, db) \<Rightarrow> Some (t, st\<lparr>ts_db := db\<rparr>))
      | FSqlTables \<Rightarrow> Some (tool_sql_tables (te_sql ev) (te_db_path ev) (ts_db st), st)
      | FSqlSchema \<Rightarrow> Some (tool_sql_schema (te_sql ev) (te_db_path ev) (ts_db st), st)
      | FDynamic i \<Rightarrow> Some (te_dynamic ev i a sid, st))"

definition tools_dispatch ::
  "('d, 'db) tool_env \<Rightarrow> tool_fn registry \<Rightarrow> string \<Rightarrow> string option \<Rightarrow> string \<Rightarrow> 'db tool_state \<Rightarrow> (int \<times> string \<times> 'db tool_state) option" where
  "tools_dispatch ev reg name args sid st =
     (case find (\<lambda>t. td_name t = name) (g_tools reg) of
        Some t \<Rightarrow> map_option (\<lambda>(txt, st'). (0, txt, st')) (run_tool ev (td_fn t) args sid st)
      | None \<Rightarrow> Some (- 1, ''error: unknown tool '' @ squoted name, st))"

section \<open>Start-up\<close>

definition str_param :: "string \<Rightarrow> string \<Rightarrow> string" where
  "str_param k d = jkey k @ CHR ''{'' # jkey ''type'' @ json_quote ''string'' @ CHR '','' # jkey ''description'' @ json_quote d @ ''}''"

definition key_hint :: string where "key_hint = ''memory key (alnum, hyphen, underscore)''"

definition braces :: "string \<Rightarrow> string" where
  "braces s = CHR ''{'' # s @ ''}''"

definition builtin_tools :: "(string \<times> string \<times> string \<times> tool_fn) list" where
  "builtin_tools =
     [(''get_time'', ''Get the server'' @ [CHR 0x27] @ ''s current local date and time.'', ''{}'', FGetTime),
      (''calc'', ''Evaluate an arithmetic expression. Supports + - * / % ^ and parentheses, plus functions sqrt,cbrt,abs,ln,log,exp,sin,cos,tan and constants pi,e (e.g. sqrt(8)+sqrt(18)-sqrt(32)).'',
         braces (str_param ''expression'' ''e.g. (2+3)*7''), FCalc),
      (''read_file'', ''Read a file from the server'' @ [CHR 0x27] @ ''s web root (www/). Paths are relative; traversal outside the web root is refused.'',
         braces (str_param ''path'' ''e.g. index.html or test/''), FReadFile),
      (''fetch_url'', ''Fetch a web page or API over http(s) and return its body (first 16KB).'',
         braces (str_param ''url'' ''absolute http(s) URL''), FFetchUrl),
      (''skill-run'', ''Load a skill'' @ [CHR 0x27] @ ''s full instructions from the skills index by name.'',
         braces (str_param ''skill'' ''skill name from the index''), FSkillRun),
      (''remember'', ''Store a fact in long-term memory (session-scoped; global pool when no session).'',
         braces (str_param ''key'' key_hint @ CHR '','' # str_param ''value'' ''fact to remember''), FRemember),
      (''recall'', ''Read a stored fact from long-term memory by key.'', braces (str_param ''key'' key_hint), FRecall)]"

definition sql_tools :: "(string \<times> string \<times> string \<times> tool_fn) list" where
  "sql_tools =
     [(''sql_query'', ''Run a single read-only SELECT against the local SQLite database and return the result rows as JSON. Writes, DDL and multi-statements are refused.'',
         braces (str_param ''query'' ''single SELECT statement''), FSqlQuery),
      (''sql_write'', ''Run a single write statement against the local SQLite database: INSERT / UPDATE / DELETE (UPDATE/DELETE must carry a WHERE clause) or CREATE TABLE for a new table. DROP/ALTER/TRUNCATE/VACUUM/ATTACH/PRAGMA/GRANT/REVOKE and any write touching the portfolio mirror table are rejected.'',
         braces (str_param ''query'' ''single write statement''), FSqlWrite),
      (''sql_tables'', ''List the table names in the local SQLite database.'', ''{}'', FSqlTables),
      (''sql_schema'', ''Introspect the local SQLite database: tables, columns, row counts and sample values, as prompt text.'', ''{}'', FSqlSchema)]"

fun register_all :: "string option \<Rightarrow> (string \<times> string \<times> string \<times> 'f) list \<Rightarrow> 'f registry \<Rightarrow> 'f registry option" where
  "register_all env [] reg = Some reg"
| "register_all env ((n, d, p, f) # ts) reg =
     Option.bind (tools_register env (Some n) (Some d) (Some p) (Some f) reg) (\<lambda>(rc, reg'). register_all env ts reg')"

definition sqlite_tools_init :: "string option \<Rightarrow> string option \<Rightarrow> tool_fn registry \<Rightarrow> tool_fn registry option" where
  "sqlite_tools_init env db_path reg = (if db_path = None then Some reg else register_all env sql_tools reg)"

definition tools_init :: "string option \<Rightarrow> string option \<Rightarrow> tool_fn registry \<Rightarrow> tool_fn registry option" where
  "tools_init env db_path reg = Option.bind (register_all env builtin_tools reg) (sqlite_tools_init env db_path)"

section \<open>Reading files\<close>

text \<open>
  The file tool gives away nothing outside the web root.  Whatever path the model asks for, the answer is a
  function of the resolution of paths and of the files inside the web root alone: two file systems that differ only
  in files outside it, in whatever way, give the same answer.
\<close>

theorem read_file_confined:
  fixes fs fs' :: fs
  assumes "length root < MAX_PATH_SIZE" and "fs_realpath fs' = fs_realpath fs"
    and "\<And>p. inside_root root p \<Longrightarrow> fs_read fs' p = fs_read fs p \<and> fs_stat fs' p = fs_stat fs p"
  shows "tool_read_file fs' root args = tool_read_file fs root args"
proof -
  have r: "resolve_within fs' root d n = resolve_within fs root d n" for d n
    by (simp add: resolve_within_def assms(2))
  have "file_bytes fs' p = file_bytes fs p" if "resolve_within fs root d MAX_PATH_SIZE = Some p" for d p
    using assms(3) [OF resolve_within_inside [OF that assms(1)]] by (simp add: file_bytes_def split: option.split)
  then show ?thesis unfolding tool_read_file_def Let_def r by (auto split: option.split)
qed

definition demo_root_fs :: "string \<Rightarrow> fs" where
  "demo_root_fs secret = \<lparr>fs_stat = (\<lambda>_. None),
     fs_read = (\<lambda>p. if p = ''/w/a'' then Some ''hi'' else if p = ''/etc/key'' then Some secret else None),
     fs_realpath = (\<lambda>p. Some (if p = ''/w/../etc/key'' then ''/etc/key'' else p)), fs_readdir = (\<lambda>_. None)\<rparr>"

theorem read_file_confined_witness:
  "tool_read_file (demo_root_fs ''1'') ''/w'' (CHR ''{'' # jkey ''path'' @ json_quote ''../etc/key'' @ ''}'') =
   tool_read_file (demo_root_fs ''2'') ''/w'' (CHR ''{'' # jkey ''path'' @ json_quote ''../etc/key'' @ ''}'')"
proof (rule read_file_confined)
  show "fs_read (demo_root_fs ''1'') p = fs_read (demo_root_fs ''2'') p \<and> fs_stat (demo_root_fs ''1'') p = fs_stat (demo_root_fs ''2'') p"
    if "inside_root ''/w'' p" for p
    using that by (auto simp: demo_root_fs_def inside_root_iff)
qed (simp_all add: demo_root_fs_def MAX_PATH_SIZE_def)

section \<open>The registry as a map\<close>

definition tool_map :: "'f registry \<Rightarrow> string \<Rightarrow> 'f option" where
  "tool_map reg n = map_option td_fn (find (\<lambda>t. td_name t = n) (g_tools reg))"

lemma find_append: "find P (xs @ ys) = (case find P xs of Some x \<Rightarrow> Some x | None \<Rightarrow> find P ys)"
  by (induction xs) auto

lemma tool_map_None: "tool_map reg n = None \<longleftrightarrow> \<not> list_ex (\<lambda>t. td_name t = n) (g_tools reg)"
  by (auto simp: tool_map_def find_None_iff list_ex_iff)

lemma tool_map_append:
  "tool_map (reg\<lparr>g_tools := g_tools reg @ [t], g_schema_dirty := d\<rparr>) =
   (\<lambda>n. case tool_map reg n of Some f \<Rightarrow> Some f | None \<Rightarrow> if td_name t = n then Some (td_fn t) else None)"
  by (auto simp: tool_map_def find_append fun_eq_iff split: option.split)

lemma utf8_copy_whole: "utf8_wf s \<Longrightarrow> length s \<le> n \<Longrightarrow> utf8_copy s n = Some s"
proof -
  assume "utf8_wf s" "length s \<le> n"
  then obtain k where "utf8_prefix_loop (s @ [NUL]) n 0 0 = Some k" "k \<le> length s" "\<forall>m. utf8_wf (take m s) \<and> m \<le> n \<and> m \<le> length s \<longrightarrow> m \<le> k"
    using utf8_prefix_loop_wf [of s "[]" n] by auto
  then show ?thesis using \<open>utf8_wf s\<close> \<open>length s \<le> n\<close> by (auto simp: utf8_copy_def utf8_valid_prefix_def)
qed

lemma utf8_copy_some: "utf8_wf s \<Longrightarrow> \<exists>t. utf8_copy s n = Some t"
  using utf8_prefix_loop_wf [of s "[]" n] by (auto simp: utf8_copy_def utf8_valid_prefix_def)

definition fresh_tool :: "'f registry \<Rightarrow> string option \<Rightarrow> string \<Rightarrow> bool" where
  "fresh_tool reg env n \<longleftrightarrow> length (g_tools reg) < TOOL_MAX \<and> tools_register_allowed env (Some n) \<and> tool_map reg n = None"

lemma tools_register_refused:
  "\<not> fresh_tool reg env n \<Longrightarrow> tools_register env (Some n) d p (Some f) reg = Some (- 1, reg)"
  by (auto simp: tools_register_def fresh_tool_def tool_map_None)

text \<open>The parameters that are stored: those given, or an empty object when they are missing or too long.\<close>

definition kept_params :: "string option \<Rightarrow> string" where
  "kept_params p = (case p of None \<Rightarrow> ''{}'' | Some s \<Rightarrow> if TOOL_PARAMS_MAX \<le> length s then ''{}'' else s)"

lemma empty_object_wf: "utf8_wf ''{}''"
  by (auto intro!: utf8_wf.intros)

lemma kept_params_copy: "pred_option utf8_wf p \<Longrightarrow> utf8_copy (kept_params p) TOOL_PARAMS_MAX = Some (kept_params p)"
  by (rule utf8_copy_whole) (auto simp: kept_params_def TOOL_PARAMS_MAX_def empty_object_wf split: option.splits)

lemma tools_register_stores:
  assumes "fresh_tool reg env n" and "utf8_wf n" and "pred_option utf8_wf d" and "pred_option utf8_wf p"
  obtains n' d' where "utf8_copy n TOOL_NAME_MAX = Some n'"
    "tools_register env (Some n) d p (Some f) reg =
       Some (0, reg\<lparr>g_tools := g_tools reg @ [\<lparr>td_name = n', td_desc = d', td_params = kept_params p, td_fn = f\<rparr>], g_schema_dirty := True\<rparr>)"
proof -
  have "utf8_wf (case d of None \<Rightarrow> [] | Some s \<Rightarrow> s)" using assms(3) by (auto intro: utf8_wf.intros split: option.split)
  then obtain n' d' where c: "utf8_copy n TOOL_NAME_MAX = Some n'" "utf8_copy (case d of None \<Rightarrow> [] | Some s \<Rightarrow> s) TOOL_DESC_MAX = Some d'"
    using utf8_copy_some [OF assms(2)] utf8_copy_some by metis
  moreover have "\<not> TOOL_MAX \<le> length (g_tools reg)" "tools_register_allowed env (Some n)" "\<not> list_ex (\<lambda>t. td_name t = n) (g_tools reg)"
    using assms(1) by (auto simp: fresh_tool_def tool_map_None)
  ultimately have "tools_register env (Some n) d p (Some f) reg =
      Some (0, reg\<lparr>g_tools := g_tools reg @ [\<lparr>td_name = n', td_desc = d', td_params = kept_params p, td_fn = f\<rparr>], g_schema_dirty := True\<rparr>)"
    using kept_params_copy [OF assms(4)] by (simp add: tools_register_def kept_params_def [symmetric] Let_def)
  with c that show ?thesis by blast
qed

text \<open>
  (C23) The tool table is a map from names to tools.  For a name of at most 64 bytes and texts in UTF-8, registering
  a tool adds exactly that name to the map when the table has room, the profile allows the name and the name is
  new, and otherwise is refused and changes nothing; a call runs the tool the map gives for the name, and a name
  outside the map runs nothing.
\<close>

theorem registry_refines_map:
  fixes reg :: "tool_fn registry"
  assumes "utf8_wf n" "length n \<le> TOOL_NAME_MAX" "pred_option utf8_wf d" "pred_option utf8_wf p"
  shows "\<exists>rc reg'. tools_register env (Some n) d p (Some f) reg = Some (rc, reg') \<and>
    (if fresh_tool reg env n then rc = 0 \<and> tool_map reg' = (tool_map reg)(n \<mapsto> f) else rc = - 1 \<and> reg' = reg) \<and>
    tools_dispatch ev reg' m args sid st =
      (case tool_map reg' m of
         None \<Rightarrow> Some (- 1, ''error: unknown tool '' @ squoted m, st)
       | Some g \<Rightarrow> map_option (\<lambda>(txt, st'). (0, txt, st')) (run_tool ev g args sid st))"
proof -
  have disp: "tools_dispatch ev r m args sid st =
      (case tool_map r m of
         None \<Rightarrow> Some (- 1, ''error: unknown tool '' @ squoted m, st)
       | Some g \<Rightarrow> map_option (\<lambda>(txt, st'). (0, txt, st')) (run_tool ev g args sid st))" for r
    by (simp add: tools_dispatch_def tool_map_def split: option.split)
  show ?thesis
  proof (cases "fresh_tool reg env n")
    case True
    then have none: "tool_map reg n = None" by (simp add: fresh_tool_def)
    obtain n' d' where r: "utf8_copy n TOOL_NAME_MAX = Some n'"
      "tools_register env (Some n) d p (Some f) reg =
        Some (0, reg\<lparr>g_tools := g_tools reg @ [\<lparr>td_name = n', td_desc = d', td_params = kept_params p, td_fn = f\<rparr>], g_schema_dirty := True\<rparr>)"
      using tools_register_stores [OF True assms(1,3,4)] by metis
    have "n' = n" using r(1) utf8_copy_whole [OF assms(1,2)] by simp
    with none have "tool_map (reg\<lparr>g_tools := g_tools reg @ [\<lparr>td_name = n', td_desc = d', td_params = kept_params p, td_fn = f\<rparr>], g_schema_dirty := True\<rparr>)
        = (tool_map reg)(n \<mapsto> f)"
      by (auto simp: tool_map_append fun_eq_iff split: option.split)
    with True r(2) disp show ?thesis by auto
  next
    case False
    with tools_register_refused [OF False] disp show ?thesis by auto
  qed
qed

theorem registry_refines_map_witness:
  "\<exists>reg'. tools_register None (Some ''t'') None None (Some FCalc) empty_registry = Some (0, reg') \<and> tool_map reg' ''t'' = Some FCalc"
proof -
  have u: "utf8_wf ''t''" "length ''t'' \<le> TOOL_NAME_MAX" by (auto intro!: utf8_wf.intros simp: TOOL_NAME_MAX_def)
  have p: "pred_option utf8_wf None" by simp
  have f: "fresh_tool empty_registry None ''t''"
    by (simp add: fresh_tool_def empty_registry_def tool_map_def TOOL_MAX_def tools_register_allowed_def)
  obtain reg' where "tools_register None (Some ''t'') None None (Some FCalc) empty_registry = Some (0, reg')"
    "tool_map reg' = (tool_map empty_registry)(''t'' \<mapsto> FCalc)"
    using registry_refines_map [OF u p p, of None FCalc empty_registry undefined "''t''" None "[]" undefined] unfolding if_P [OF f] by blast
  moreover have "((tool_map empty_registry)(''t'' \<mapsto> FCalc)) ''t'' = Some FCalc" by simp
  ultimately show ?thesis by metis
qed

section \<open>The schema cache\<close>

definition tool_json :: "json \<Rightarrow> 'f ToolDef \<Rightarrow> json" where
  "tool_json params t =
     JObj [(''type'', JStr ''function''),
       (''function'', JObj [(''name'', JStr (td_name t)), (''description'', JStr (td_desc t)),
          (''parameters'', JObj [(''type'', JStr ''object''), (''properties'', params), (''required'', JArr [])])])]"

definition schema_text :: "'f ToolDef list \<Rightarrow> string" where
  "schema_text ts = concat (schema_pieces ts)"

lemma schema_keys:
  "jkey ''type'' = json_quote ''type'' @ '':''" "jkey ''function'' = json_quote ''function'' @ '':''"
  "jkey ''name'' = json_quote ''name'' @ '':''" "jkey ''description'' = json_quote ''description'' @ '':''"
  "jkey ''parameters'' = json_quote ''parameters'' @ '':''" "jkey ''properties'' = json_quote ''properties'' @ '':''"
  "jkey ''required'' = json_quote ''required'' @ '':''"
  by (simp_all add: jkey_def plain_quote)

lemma tool_pieces_json:
  assumes "td_params t = jprint j" and "td_params t \<noteq> []"
  shows "concat (tool_pieces t) = jprint (tool_json j t)"
proof -
  have p: "tool_params_or_empty t = jprint j" using assms by (simp add: tool_params_or_empty_def)
  show ?thesis by (simp add: tool_pieces_def tool_json_def p concat_json_pieces schema_keys)
qed

lemma jprint_not_empty: "jprint (JObj kvs) \<noteq> []"
  by simp

lemma list_all2_choice: "\<forall>t \<in> set ts. \<exists>j. P j t \<Longrightarrow> \<exists>js. list_all2 P js ts"
  by (induction ts) (auto simp: list_all2_Cons2)

lemma schema_text_json:
  assumes "list_all2 (\<lambda>j t. td_params t = jprint j \<and> td_params t \<noteq> []) js ts"
  shows "schema_text ts = jprint (JArr (map2 tool_json js ts))"
proof -
  have "map (concat \<circ> tool_pieces) ts = map jprint (map2 tool_json js ts)"
    using assms by (induction rule: list_all2_induct) (auto intro!: tool_pieces_json)
  then show ?thesis by (simp add: schema_text_def schema_pieces_def concat_comma_sep del: comma_sep.simps)
qed

text \<open>The registries the server can have: tools whose parameters are JSON objects are registered, schemas are asked for.\<close>

definition object_text :: "string \<Rightarrow> bool" where
  "object_text s \<longleftrightarrow> (\<exists>kvs. s = jprint (JObj kvs))"

inductive reg_reach :: "'f registry \<Rightarrow> bool" where
  reach_init: "reg_reach empty_registry"
| reach_register: "reg_reach (snd r)" if "reg_reach reg" "utf8_wf n" "pred_option utf8_wf d" "pred_option utf8_wf p"
    "pred_option object_text p" "tools_register env (Some n) d p (Some f) reg = Some r"
| reach_schema: "reg_reach (snd (tools_schema_json alloc reg))" if "reg_reach reg"

definition reg_ok :: "'f registry \<Rightarrow> bool" where
  "reg_ok reg \<longleftrightarrow> list_all (\<lambda>t. object_text (td_params t)) (g_tools reg) \<and> length (g_tools reg) \<le> TOOL_MAX \<and>
     (\<not> g_schema_dirty reg \<longrightarrow> g_schema_cache reg = Some (schema_text (g_tools reg)))"

lemma kept_params_object: "pred_option object_text p \<Longrightarrow> object_text (kept_params p)"
proof -
  have "object_text ''{}''" by (auto simp: object_text_def intro: exI [of _ "[]"])
  then show "pred_option object_text p \<Longrightarrow> object_text (kept_params p)" by (auto simp: kept_params_def split: option.split)
qed

lemma schema_built: "\<not> sb_oom (foldl (sb_mem alloc) zero_sbuf (schema_pieces ts)) \<Longrightarrow>
    sb_text (foldl (sb_mem alloc) zero_sbuf (schema_pieces ts)) = schema_text ts"
  using sb.puts_written [of alloc zero_sbuf "schema_pieces ts"] by (simp add: schema_text_def)

lemma reach_ok: "reg_reach reg \<Longrightarrow> reg_ok reg"
proof (induction rule: reg_reach.induct)
  case reach_init
  then show ?case by (simp add: reg_ok_def empty_registry_def)
next
  case (reach_register reg n d p env f r)
  show ?case
  proof (cases "fresh_tool reg env n")
    case True
    obtain n' d' where r: "tools_register env (Some n) d p (Some f) reg =
        Some (0, reg\<lparr>g_tools := g_tools reg @ [\<lparr>td_name = n', td_desc = d', td_params = kept_params p, td_fn = f\<rparr>], g_schema_dirty := True\<rparr>)"
      using tools_register_stores [OF True reach_register(2,3,4)] by metis
    have "length (g_tools reg) < TOOL_MAX" using True by (simp add: fresh_tool_def)
    with r reach_register(6,7) kept_params_object [OF reach_register(5)] show ?thesis by (auto simp: reg_ok_def)
  next
    case False
    with tools_register_refused [OF False] reach_register(6,7) show ?thesis by auto
  qed
next
  case (reach_schema reg alloc)
  then show ?case by (auto simp: tools_schema_json_def Let_def reg_ok_def schema_built)
qed

lemma object_text_json: "object_text s \<Longrightarrow> \<exists>j. s = jprint j \<and> s \<noteq> []"
proof -
  assume "object_text s"
  then obtain kvs where "s = jprint (JObj kvs)" by (auto simp only: object_text_def)
  then show ?thesis using jprint_not_empty [of kvs] by metis
qed

lemma schema_text_printed:
  assumes "list_all (\<lambda>t. object_text (td_params t)) ts"
  shows "\<exists>js. list_all2 (\<lambda>j t. td_params t = jprint j) js ts \<and> schema_text ts = jprint (JArr (map2 tool_json js ts))"
proof -
  have "\<exists>js. list_all2 (\<lambda>j t. td_params t = jprint j \<and> td_params t \<noteq> []) js ts"
    using assms object_text_json by (intro list_all2_choice) (simp only: list_all_iff, blast)
  then obtain js where js: "list_all2 (\<lambda>j t. td_params t = jprint j \<and> td_params t \<noteq> []) js ts" ..
  moreover have "list_all2 (\<lambda>j t. td_params t = jprint j) js ts" using js by (rule list_all2_mono) simp
  ultimately show ?thesis using schema_text_json by blast
qed

lemma schema_json_text: "reg_ok reg \<Longrightarrow> fst (tools_schema_json (\<lambda>_. True) reg) = schema_text (g_tools reg)"
  using sb_puts_alloc [of zero_sbuf "schema_pieces (g_tools reg)"]
  by (auto simp: tools_schema_json_def Let_def reg_ok_def schema_built)

lemma schema_filtered_text:
  "tools_schema_json_filtered (\<lambda>_. True) names reg = schema_text (filter (\<lambda>t. Some (td_name t) \<in> set names) (g_tools reg))"
  using sb_puts_alloc [of zero_sbuf "schema_pieces (filter (\<lambda>t. Some (td_name t) \<in> set names) (g_tools reg))"]
  by (simp add: tools_schema_json_filtered_def Let_def schema_built)

text \<open>
  The tools array is always valid and never stale.  After any sequence of registrations (with parameters that
  are JSON objects) and schema requests, under whatever allocation failures, a schema request that gets its memory
  returns the printed JSON array with one entry for every registered tool, in order, with its stored name, description
  and parameters; the cache never hides a tool, and parameters too long for their slot never cut the JSON.
\<close>

theorem schema_never_stale:
  assumes "reg_reach reg"
  shows "\<exists>js. list_all2 (\<lambda>j t. td_params t = jprint j) js (g_tools reg) \<and>
    fst (tools_schema_json (\<lambda>_. True) reg) = jprint (JArr (map2 tool_json js (g_tools reg)))"
  using schema_text_printed [of "g_tools reg"] schema_json_text [OF reach_ok [OF assms]] reach_ok [OF assms]
  by (simp add: reg_ok_def)

theorem schema_never_stale_witness:
  "fst (tools_schema_json (\<lambda>_. True) (empty_registry :: nat registry)) = ''[]''"
  using schema_never_stale [OF reach_init] by (auto simp: empty_registry_def)

text \<open>
  A duplicate is searched under the full name, but the name is stored cut to 64 bytes: two names that differ only
  behind that both register, under the same stored name, and the second tool is never reached.
\<close>

theorem long_names_collide:
  "case tools_register None (Some (replicate 64 (CHR ''a'') @ ''b'')) None None (Some (1 :: nat)) empty_registry of
     None \<Rightarrow> False
   | Some (_, r) \<Rightarrow>
       (case tools_register None (Some (replicate 64 (CHR ''a'') @ ''c'')) None None (Some 2) r of
          None \<Rightarrow> False
        | Some (rc, r') \<Rightarrow> rc = 0 \<and> map td_name (g_tools r') = [replicate 64 (CHR ''a''), replicate 64 (CHR ''a'')])"
  by code_simp

end
