(* ===== verification/Agent.thy ===== *)
theory Agent
  imports Tools Chatio
begin

text \<open>
  The chat loop of \<open>src/src/agent/agent.c\<close>: one upstream request per round, its event stream parsed line by line,
  the tool calls it asks for executed and their results put into the next request.  The upstream is a parameter: the
  outcome of the \<open>k\<close>-th \<open>curl\<close> process as a function of the request body it reads.  Events for the client go through
  a \<open>chat_port\<close>; the small buffers of a round are taken to be allocated.
\<close>

definition AGENT_ARGS_MAX :: nat where "AGENT_ARGS_MAX = 32768"
definition AGENT_TOOL_CALLS_MAX :: nat where "AGENT_TOOL_CALLS_MAX = 8"
definition AGENT_LINE_MAX :: nat where "AGENT_LINE_MAX = 65536"
definition AGENT_UPSTREAM_ATTEMPTS :: nat where "AGENT_UPSTREAM_ATTEMPTS = 3"
definition AGENT_MAX_ROUNDS_DEFAULT :: int where "AGENT_MAX_ROUNDS_DEFAULT = 8"
definition UP_ERR_NONE :: int where "UP_ERR_NONE = 0"
definition UP_ERR_LOCAL :: int where "UP_ERR_LOCAL = - 1"
definition UP_ERR_TIMEOUT :: int where "UP_ERR_TIMEOUT = - 2"
definition UP_ERR_EMPTY :: int where "UP_ERR_EMPTY = - 3"
definition UP_ERR_UPSTREAM :: int where "UP_ERR_UPSTREAM = - 4"
definition UP_ERR_HTTP_BASE :: int where "UP_ERR_HTTP_BASE = 1000"
definition EXEC_SIG_MAX :: nat where "EXEC_SIG_MAX = 64"
definition EXEC_SIG_LEN :: nat where "EXEC_SIG_LEN = 512"
definition AGENT_MAX_MESSAGE :: nat where "AGENT_MAX_MESSAGE = 2000"
definition AGENT_MAX_HISTORY :: nat where "AGENT_MAX_HISTORY = 12"
definition AGENT_HISTORY_MAX_CHARS :: nat where "AGENT_HISTORY_MAX_CHARS = 2000"
definition AGENT_SESSION_ID_MAX :: nat where "AGENT_SESSION_ID_MAX = 64"
definition AGENT_MAX_TOOL_FILTER :: nat where "AGENT_MAX_TOOL_FILTER = 32"
definition AGENT_TOOL_NAME_MAX :: nat where "AGENT_TOOL_NAME_MAX = 64"
definition AGENT_MODEL_MAX :: nat where "AGENT_MODEL_MAX = 64"
definition AGENT_SYSTEM_MAX :: nat where "AGENT_SYSTEM_MAX = 65535"

text \<open>The transport: an event, a heartbeat, and whether the client is still there.\<close>

record 'o chat_port =
  cp_event :: "'o \<Rightarrow> string \<Rightarrow> string option \<Rightarrow> 'o"
  cp_beat :: "'o \<Rightarrow> 'o"
  cp_ok :: "'o \<Rightarrow> bool"

text \<open>The SSE transport as a port; \<open>None\<close> is a send that has not returned.\<close>

definition sse_port :: "(nat \<Rightarrow> bool) \<Rightarrow> ChatOut option chat_port" where
  "sse_port alloc =
     \<lparr>cp_event = (\<lambda>o' t d. Option.bind o' (\<lambda>out. sse_event alloc out t d)),
      cp_beat = (\<lambda>o'. Option.bind o' sse_heartbeat),
      cp_ok = (\<lambda>o'. case o' of None \<Rightarrow> False | Some out \<Rightarrow> co_ok out)\<rparr>"

section \<open>Configuration\<close>

definition agent_max_rounds :: "string option \<Rightarrow> int" where
  "agent_max_rounds env =
     (let v = env_int env AGENT_MAX_ROUNDS_DEFAULT in if v > 0 \<and> v \<le> 30 then v else AGENT_MAX_ROUNDS_DEFAULT)"

definition agent_tool_source :: "string option \<Rightarrow> string" where
  "agent_tool_source env = (if env = Some ''gateway'' then ''gateway'' else ''local'')"

fun model_words :: "string \<Rightarrow> string list" where
  "model_words [] = [[]]"
| "model_words (c # s) =
     (if c = CHR '','' \<or> c = CHR '' '' then [] # model_words s
      else case model_words s of [] \<Rightarrow> [[c]] | w # ws \<Rightarrow> (c # w) # ws)"

definition model_allowed :: "string option \<Rightarrow> string \<Rightarrow> bool" where
  "model_allowed env m =
     (m \<noteq> [] \<and> (case env of None \<Rightarrow> True | Some allow \<Rightarrow> allow = [] \<or> m \<in> set (model_words allow)))"

section \<open>Tool calls of a round\<close>

text \<open>A buffer that was never written is \<open>None\<close>.\<close>

record RoundCall =
  rc_id :: "string option"
  rc_name :: "string option"
  rc_args :: "string option"

record RoundState =
  rs_calls :: "RoundCall list"
  rs_n :: nat
  rs_content :: bool
  rs_error :: bool

definition zero_round :: RoundState where
  "zero_round = \<lparr>rs_calls = replicate AGENT_TOOL_CALLS_MAX \<lparr>rc_id = None, rc_name = None, rc_args = None\<rparr>,
     rs_n = 0, rs_content = False, rs_error = False\<rparr>"

definition buf_text :: "string option \<Rightarrow> string" where
  "buf_text b = (case b of None \<Rightarrow> [] | Some s \<Rightarrow> s)"

definition quoted_member :: "string \<Rightarrow> string \<Rightarrow> string option" where
  "quoted_member obj key =
     (case jfind_value obj key of None \<Rightarrow> None | Some v \<Rightarrow> if v \<noteq> [] \<and> hd v = DQUOTE then Some v else None)"

definition read_text :: "nat \<Rightarrow> string \<Rightarrow> string option" where
  "read_text n v = map_option (\<lambda>r. cstr (fst r)) (jread_string n v)"

definition set_once :: "string option \<Rightarrow> string option \<Rightarrow> string option" where
  "set_once old v = (case old of Some s \<Rightarrow> Some s | None \<Rightarrow> (case v of None \<Rightarrow> None | Some q \<Rightarrow> read_text 128 q))"

definition add_fragment :: "string option \<Rightarrow> string option \<Rightarrow> string option" where
  "add_fragment old v =
     (case v of
        None \<Rightarrow> old
      | Some q \<Rightarrow>
          if length (buf_text old) \<le> AGENT_ARGS_MAX then
            (case read_text (length q + 1) q of
               None \<Rightarrow> old
             | Some frag \<Rightarrow>
                 let fl = take (AGENT_ARGS_MAX - length (buf_text old)) frag
                 in if fl = [] then old else Some (buf_text old @ fl))
          else old)"

definition call_index :: "string \<Rightarrow> int" where
  "call_index elem =
     (case jfind_value elem ''index'' of
        None \<Rightarrow> 0
      | Some iv \<Rightarrow> if iv \<noteq> [] \<and> isdigit (hd iv) then fst (strtol10 iv) else 0)"

definition tc_process_element :: "string \<Rightarrow> RoundState \<Rightarrow> RoundState" where
  "tc_process_element elem rs =
     (let index = call_index elem
      in if index < 0 \<or> index \<ge> int AGENT_TOOL_CALLS_MAX then rs
         else
           let i = nat index;
               c = rs_calls rs ! i;
               c1 = c\<lparr>rc_id := set_once (rc_id c) (quoted_member elem ''id'')\<rparr>;
               c2 = (case jfind_value elem ''function'' of
                       None \<Rightarrow> c1
                     | Some fn \<Rightarrow>
                         if fn = [] \<or> hd fn \<noteq> CHR ''{'' then c1
                         else c1\<lparr>rc_name := set_once (rc_name c1) (quoted_member fn ''name''),
                                 rc_args := add_fragment (rc_args c1) (quoted_member fn ''arguments'')\<rparr>)
           in rs\<lparr>rs_calls := (rs_calls rs)[i := c2], rs_n := max (rs_n rs) (i + 1)\<rparr>)"

function tc_loop :: "string \<Rightarrow> RoundState \<Rightarrow> RoundState" where
  "tc_loop q rs =
     (if q = [] \<or> hd q \<noteq> CHR ''{'' then rs
      else
        let rs1 = tc_process_element q rs
        in case jskip_value q of
             None \<Rightarrow> rs1
           | Some r \<Rightarrow>
               let s = jws r
               in if s \<noteq> [] \<and> hd s = CHR '','' then tc_loop (jws (tl s)) rs1 else rs1)"
  by pat_completeness auto
termination
proof (relation "measure (\<lambda>(q, rs). length q)", simp, goal_cases)
  case (1 q rs rs1 r s)
  then show ?case using jskip_value_shorter [of q r] length_jws [of r] length_jws [of "tl s"] by (cases "jws r") auto
qed

declare tc_loop.simps [simp del]

section \<open>A line of the stream\<close>

text \<open>What a round has so far: the port, the calls, the text for the capture buffer, and the flags.\<close>

record 'o round_io =
  io_out :: 'o
  io_rs :: RoundState
  io_started :: bool
  io_done :: bool
  io_finish :: "string option"
  io_cap :: string
  io_status :: int

definition gap :: "char \<Rightarrow> bool" where
  "gap c \<longleftrightarrow> c = LF \<or> c = CR \<or> c = CHR '' '' \<or> c = TAB"

definition error_text :: "string \<Rightarrow> string" where
  "error_text ev =
     (let em = (if ev \<noteq> [] \<and> hd ev = DQUOTE then Some ev else quoted_member ev ''message'');
          dflt = ''upstream sent an error event''
      in case em of None \<Rightarrow> dflt | Some q \<Rightarrow> (case read_text 512 q of None \<Rightarrow> dflt | Some m \<Rightarrow> m))"

definition finish_class :: "string \<Rightarrow> string" where
  "finish_class f = (if f = ''stop'' then ''stop'' else if f = ''tool_calls'' then ''tool_calls'' else ''other'')"

definition note_finish :: "string \<Rightarrow> 'o round_io \<Rightarrow> 'o round_io" where
  "note_finish obj io =
     (case io_finish io of
        Some f \<Rightarrow> io
      | None \<Rightarrow>
          (case quoted_member obj ''finish_reason'' of
             None \<Rightarrow> io
           | Some q \<Rightarrow> (case read_text 24 q of None \<Rightarrow> io | Some f \<Rightarrow> io\<lparr>io_finish := Some (finish_class f)\<rparr>)))"

definition relay_content :: "'o chat_port \<Rightarrow> nat \<Rightarrow> string \<Rightarrow> 'o round_io \<Rightarrow> 'o round_io" where
  "relay_content port sz delta io =
     (case quoted_member delta ''content'' of
        None \<Rightarrow> io
      | Some q \<Rightarrow>
          (case read_text sz q of
             None \<Rightarrow> io
           | Some t \<Rightarrow>
               let s = (if io_started io then t else dropWhile gap t)
               in if s = [] then io
                  else io\<lparr>io_started := True, io_out := cp_event port (io_out io) ''delta'' (Some s), io_cap := io_cap io @ s\<rparr>))"

definition handle_delta :: "'o chat_port \<Rightarrow> nat \<Rightarrow> string \<Rightarrow> 'o round_io \<Rightarrow> 'o round_io" where
  "handle_delta port sz obj io =
     (case jfind_value obj ''delta'' of
        None \<Rightarrow> io
      | Some delta \<Rightarrow>
          if delta = [] \<or> hd delta \<noteq> CHR ''{'' then io
          else
            let io1 = relay_content port sz delta io
            in case jfind_value delta ''tool_calls'' of
                 None \<Rightarrow> io1
               | Some tcs \<Rightarrow>
                   if tcs = [] \<or> hd tcs \<noteq> CHR ''['' then io1
                   else io1\<lparr>io_rs := tc_loop (jws (tl tcs)) (io_rs io1)\<rparr>)"

definition handle_payload :: "'o chat_port \<Rightarrow> nat \<Rightarrow> string \<Rightarrow> 'o round_io \<Rightarrow> 'o round_io" where
  "handle_payload port sz payload io =
     (if payload = ''[DONE]'' then io\<lparr>io_done := True\<rparr>
      else
        let err = (case jfind_value payload ''error'' of None \<Rightarrow> None | Some ev \<Rightarrow> if take 4 ev = ''null'' then None else Some ev)
        in case err of
             Some ev \<Rightarrow>
               io\<lparr>io_rs := (io_rs io)\<lparr>rs_error := True\<rparr>, io_out := cp_event port (io_out io) ''error'' (Some (error_text ev))\<rparr>
           | None \<Rightarrow>
               (case jfind_value payload ''choices'' of
                  None \<Rightarrow> io
                | Some ch \<Rightarrow>
                    if ch = [] \<or> hd ch \<noteq> CHR ''['' then io
                    else (case strchr ch (CHR ''{'') of
                            None \<Rightarrow> io
                          | Some obj \<Rightarrow> handle_delta port sz obj (note_finish obj io))))"

definition footer_status :: "string \<Rightarrow> int option" where
  "footer_status line =
     (if line \<noteq> [] \<and> isdigit (hd line)
      then (case strtol10 line of (st, r) \<Rightarrow> if r = [] \<and> 100 \<le> st \<and> st < 1000 then Some st else None)
      else None)"

definition handle_upstream_line :: "'o chat_port \<Rightarrow> string \<Rightarrow> 'o round_io \<Rightarrow> 'o round_io" where
  "handle_upstream_line port raw io =
     (let line = trim_whitespace (cstr raw)
      in case (if io_status io < 0 then footer_status line else None) of
           Some st \<Rightarrow> io\<lparr>io_status := st\<rparr>
         | None \<Rightarrow>
             if take 5 line = ''data:'' then handle_payload port (length line + 1) (jws (drop 5 line)) io
             else (case strchr line (CHR ''{'') of
                     None \<Rightarrow> io
                   | Some payload \<Rightarrow>
                       if jfind_value payload ''error'' = None then io
                       else handle_payload port (length line + 1) payload io))"

section \<open>The stream\<close>

text \<open>
  What \<open>select\<close> and \<open>read\<close> report, in order: bytes, a heartbeat interval without any, the deadline, an error, or the end
  of the stream.  A list that ends is the end of the stream.
\<close>

datatype up_event = UChunk string | UIdle | UDeadline | UFailed | UEof

text \<open>The line so far and whether it has overrun its limit.\<close>

definition line_buf_append :: "string \<Rightarrow> string \<times> bool \<Rightarrow> string \<times> bool" where
  "line_buf_append cur lb =
     (case lb of (line, ovf) \<Rightarrow>
        if length line \<ge> AGENT_LINE_MAX then (line, True)
        else if length cur > AGENT_LINE_MAX - length line then (line @ take (AGENT_LINE_MAX - length line) cur, True)
        else (line @ cur, ovf))"

definition end_line :: "'o chat_port \<Rightarrow> string \<times> bool \<Rightarrow> 'o round_io \<Rightarrow> 'o round_io" where
  "end_line port lb io = (if fst lb \<noteq> [] \<and> \<not> snd lb then handle_upstream_line port (fst lb) io else io)"

text \<open>One chunk: the lines in it, until the stream is done or the client has gone; the last flag is \<open>stop\<close>.\<close>

function feed_chunk :: "'o chat_port \<Rightarrow> string \<Rightarrow> string \<times> bool \<Rightarrow> 'o round_io \<Rightarrow> (string \<times> bool) \<times> 'o round_io \<times> bool" where
  "feed_chunk port cur lb io =
     (if cur = [] then (lb, io, False)
      else case dropWhile (\<lambda>c. c \<noteq> LF) cur of
             [] \<Rightarrow> (line_buf_append cur lb, io, False)
           | _ # rest \<Rightarrow>
               let io1 = end_line port (line_buf_append (takeWhile (\<lambda>c. c \<noteq> LF) cur) lb) io
               in if io_done io1 \<or> \<not> cp_ok port (io_out io1) then (([], False), io1, True)
                  else feed_chunk port rest ([], False) io1)"
  by pat_completeness auto
termination
proof (relation "measure (\<lambda>(port, cur, lb, io). length cur)", simp, goal_cases)
  case (1 port cur lb io c rest)
  then show ?case using length_dropWhile_le [of "\<lambda>c. c \<noteq> LF" cur] by simp
qed

declare feed_chunk.simps [simp del]

datatype stream_end = EndEof | EndTimeout | EndStop | EndOther

fun read_stream :: "'o chat_port \<Rightarrow> up_event list \<Rightarrow> string \<times> bool \<Rightarrow> 'o round_io \<Rightarrow> (string \<times> bool) \<times> 'o round_io \<times> stream_end" where
  "read_stream port [] lb io = (lb, io, EndEof)"
| "read_stream port (u # us) lb io =
     (case u of
        UEof \<Rightarrow> (lb, io, EndEof)
      | UDeadline \<Rightarrow> (lb, io, EndTimeout)
      | UFailed \<Rightarrow> (lb, io, EndOther)
      | UIdle \<Rightarrow>
          let io1 = io\<lparr>io_out := cp_beat port (io_out io)\<rparr>
          in if cp_ok port (io_out io1) then read_stream port us lb io1 else (lb, io1, EndOther)
      | UChunk c \<Rightarrow>
          (case feed_chunk port c lb io of
             (lb1, io1, stop) \<Rightarrow> if stop then (lb1, io1, EndStop) else read_stream port us lb1 io1))"

section \<open>One round\<close>

text \<open>
  The outcome of the upstream process: a local failure, or its stream and how it ended (\<open>None\<close>: it was reaped
  elsewhere; \<open>Some None\<close>: by a signal).
\<close>

datatype curl_outcome = UpPipeFailed | UpForkFailed | UpRan "up_event list" "nat option option"

definition json_flag :: "string \<Rightarrow> string \<Rightarrow> string" where
  "json_flag k v = CHR '','' # jkey k @ v"

definition request_body :: "string \<Rightarrow> string option \<Rightarrow> bool \<Rightarrow> string \<Rightarrow> string" where
  "request_body model tools_json choice_none messages =
     CHR ''{'' # jkey ''model'' @ json_quote model @ json_flag ''stream'' ''true'' @
     (case tools_json of None \<Rightarrow> [] | Some t \<Rightarrow> if t = [] then [] else json_flag ''tools'' t) @
     (if choice_none then json_flag ''tool_choice'' (json_quote ''none'') else []) @
     json_flag ''messages'' (if messages = [] then ''['' else messages) @ '']}''"

record agent_env =
  ae_model :: "string option"
  ae_allowed :: "string option"
  ae_rounds :: "string option"
  ae_source :: "string option"

definition round_model :: "agent_env \<Rightarrow> string \<Rightarrow> string" where
  "round_model env override =
     (if override \<noteq> [] \<and> model_allowed (ae_allowed env) override then override
      else case ae_model env of None \<Rightarrow> [] | Some m \<Rightarrow> m)"

definition start_io :: "'o \<Rightarrow> string \<Rightarrow> RoundState \<Rightarrow> 'o round_io" where
  "start_io o' cap rs =
     \<lparr>io_out = o', io_rs = rs, io_started = False, io_done = False, io_finish = None, io_cap = cap, io_status = - 1\<rparr>"

definition exit_code :: "nat option option \<Rightarrow> int" where
  "exit_code ended = (case ended of Some (Some c) \<Rightarrow> int c | _ \<Rightarrow> 0)"

definition round_verdict :: "bool \<Rightarrow> bool \<Rightarrow> bool \<Rightarrow> int \<Rightarrow> int \<Rightarrow> int \<times> int" where
  "round_verdict ok timed_out done' ec status =
     (if \<not> ok then (0, UP_ERR_NONE)
      else if timed_out then (- 1, UP_ERR_TIMEOUT)
      else if \<not> done' \<and> (ec \<noteq> 0 \<or> status < 0 \<or> status \<ge> 400) then
        (- 1, if status \<ge> 400 then UP_ERR_HTTP_BASE + status else if ec \<noteq> 0 then ec else 7)
      else (0, UP_ERR_NONE))"

text \<open>The return code, the error class and the round.  The last line may lack its line feed.\<close>

definition agent_round ::
  "'o chat_port \<Rightarrow> curl_outcome \<Rightarrow> 'o \<Rightarrow> string \<Rightarrow> RoundState \<Rightarrow> int \<times> int \<times> 'o round_io" where
  "agent_round port up o' cap rs =
     (case up of
        UpPipeFailed \<Rightarrow> (- 1, UP_ERR_LOCAL, start_io (cp_event port o' ''error'' (Some ''pipe failed'')) cap rs)
      | UpForkFailed \<Rightarrow> (- 1, UP_ERR_LOCAL, start_io (cp_event port o' ''error'' (Some ''fork failed'')) cap rs)
      | UpRan events ended \<Rightarrow>
          (case read_stream port events ([], False) (start_io o' cap rs) of
             (lb, io1, how) \<Rightarrow>
               let io2 = (if how \<noteq> EndStop \<and> cp_ok port (io_out io1) then end_line port lb io1 else io1);
                   io3 = io2\<lparr>io_rs := (io_rs io2)\<lparr>rs_content := io_started io2\<rparr>\<rparr>;
                   (rc, up_err) = round_verdict (cp_ok port (io_out io3)) (how = EndTimeout) (io_done io3) (exit_code ended) (io_status io3)
               in (rc, up_err, io3)))"

definition upstream_message :: "int \<Rightarrow> string" where
  "upstream_message up_err =
     (if up_err \<ge> UP_ERR_HTTP_BASE then
        let st = up_err - UP_ERR_HTTP_BASE
        in if st \<ge> 500 then
             ''upstream unavailable (HTTP '' @ int_dec st @ ''); the model pool was temporarily out of free quota''
           else if st = 429 then ''upstream rate limited (HTTP 429); wait a moment and retry''
           else ''upstream rejected the request (HTTP '' @ int_dec st @ '')''
      else if up_err = UP_ERR_EMPTY then ''upstream returned an empty response (HTTP 200, no content); retry in a moment''
      else if up_err = UP_ERR_TIMEOUT then ''upstream timeout''
      else if up_err = 127 then ''upstream engine unavailable on the server''
      else if up_err = 22 then ''upstream rejected the request''
      else ''upstream connection failed; retry in a moment'')"

definition agent_emit_upstream_error :: "'o chat_port \<Rightarrow> 'o \<Rightarrow> int \<Rightarrow> 'o" where
  "agent_emit_upstream_error port o' up_err =
     (if up_err = UP_ERR_LOCAL \<or> up_err = UP_ERR_NONE \<or> up_err = UP_ERR_UPSTREAM \<or> \<not> cp_ok port o' then o'
      else cp_event port o' ''error'' (Some (upstream_message up_err)))"

definition agent_retryable :: "int \<Rightarrow> bool" where
  "agent_retryable up_err =
     (if up_err = UP_ERR_TIMEOUT \<or> up_err = UP_ERR_EMPTY then True
      else if up_err \<ge> UP_ERR_HTTP_BASE then
        let st = up_err - UP_ERR_HTTP_BASE in st = 400 \<or> st = 429 \<or> st \<ge> 500
      else up_err > 0 \<and> up_err \<noteq> 22 \<and> up_err \<noteq> 127)"

section \<open>The conversation\<close>

text \<open>The messages array is kept as text, without its closing bracket.\<close>

definition msgs_sep :: "string \<Rightarrow> string" where
  "msgs_sep m = (if m \<noteq> [] then m @ '','' else m)"

definition msgs_system :: "string \<Rightarrow> string \<Rightarrow> string" where
  "msgs_system prompt extra =
     CHR ''['' # CHR ''{'' # jkey ''role'' @ json_quote ''system'' @ CHR '','' # jkey ''content'' @
     json_quote (prompt @ (if extra \<noteq> [] then [LF, LF] @ extra else [])) @ ''}''"

definition msgs_role_text :: "string \<Rightarrow> string \<Rightarrow> string \<Rightarrow> string" where
  "msgs_role_text role txt m =
     msgs_sep m @ CHR ''{'' # jkey ''role'' @ (DQUOTE # role @ [DQUOTE]) @ CHR '','' # jkey ''content'' @ json_quote txt @ ''}''"

definition call_json :: "RoundCall \<Rightarrow> string" where
  "call_json c =
     CHR ''{'' # jkey ''id'' @ json_quote (buf_text (rc_id c)) @ CHR '','' # jkey ''type'' @ json_quote ''function'' @
     CHR '','' # jkey ''function'' @ CHR ''{'' # jkey ''name'' @
     json_quote (case rc_name c of None \<Rightarrow> ''?'' | Some n \<Rightarrow> n) @ CHR '','' # jkey ''arguments'' @
     json_quote (case rc_args c of None \<Rightarrow> ''{}'' | Some a \<Rightarrow> a) @ ''}}''"

definition result_text :: "string \<Rightarrow> string" where
  "result_text r = (if r \<noteq> [] then r else ''(no output)'')"

definition tool_message :: "string \<Rightarrow> RoundCall \<times> string \<Rightarrow> string" where
  "tool_message m cr =
     msgs_sep m @ CHR ''{'' # jkey ''role'' @ json_quote ''tool'' @ CHR '','' # jkey ''tool_call_id'' @
     json_quote (buf_text (rc_id (fst cr))) @ CHR '','' # jkey ''content'' @ json_quote (result_text (snd cr)) @ ''}''"

definition msgs_append_round :: "RoundCall list \<Rightarrow> string list \<Rightarrow> string \<Rightarrow> string" where
  "msgs_append_round calls results m =
     foldl tool_message
       (msgs_sep m @ CHR ''{'' # jkey ''role'' @ json_quote ''assistant'' @ CHR '','' # jkey ''content'' @ ''null'' @
        CHR '','' # jkey ''tool_calls'' @ CHR ''['' # join (map call_json calls) @ '']}'')
       (zip calls results)"

section \<open>The loop\<close>

record ChatRequest =
  cr_message :: string
  cr_history :: "(string \<times> string) list"
  cr_session_id :: string
  cr_rounds :: int
  cr_tools :: "string list"
  cr_model :: string
  cr_system :: string

text \<open>
  The state of a run: the port, the capture buffer, the number of upstream processes started, and the state the
  tools change.  \<open>as_sent\<close> and \<open>as_ran\<close> record the request bodies and the tool calls; \<open>as_crashed\<close> is set when a
  tool has killed the process.
\<close>

record ('o, 's) agent_state =
  as_out :: 'o
  as_cap :: string
  as_tools :: 's
  as_sent :: "string list"
  as_ran :: "(string \<times> string) list"
  as_crashed :: bool

definition call_name :: "RoundCall \<Rightarrow> string" where
  "call_name c = (case rc_name c of None \<Rightarrow> ''?'' | Some n \<Rightarrow> n)"

definition exec_sig :: "RoundCall \<Rightarrow> string" where
  "exec_sig c = take (EXEC_SIG_LEN - 1) (call_name c @ ''('' @ buf_text (rc_args c) @ '')'')"

definition exec_sig_record :: "RoundCall \<Rightarrow> string list \<Rightarrow> string list" where
  "exec_sig_record c sigs = (if length sigs \<ge> EXEC_SIG_MAX then sigs else sigs @ [exec_sig c])"

definition round_calls :: "RoundState \<Rightarrow> RoundCall list" where
  "round_calls rs = take (rs_n rs) (rs_calls rs)"

text \<open>A round that gave nothing at all is a failure, final when the upstream has sent an error.\<close>

definition round_result :: "int \<Rightarrow> int \<Rightarrow> 'o round_io \<Rightarrow> int \<times> int" where
  "round_result rc err io =
     (if rc = 0 \<and> rs_n (io_rs io) = 0 \<and> \<not> rs_content (io_rs io) \<and> io_finish io = None
      then (- 1, if rs_error (io_rs io) then UP_ERR_UPSTREAM else UP_ERR_EMPTY) else (rc, err))"

text \<open>Before the next attempt: the client hears about a rate limit.\<close>

definition retry_note :: "'o chat_port \<Rightarrow> nat \<Rightarrow> int \<Rightarrow> ('o, 's) agent_state \<Rightarrow> ('o, 's) agent_state" where
  "retry_note port attempt err s =
     (if cp_ok port (as_out s) \<and> err = UP_ERR_HTTP_BASE + 429
      then s\<lparr>as_out := cp_event port (as_out s) ''note''
             (Some (''rate limited by upstream, retrying in '' @ (if attempt = 1 then ''15'' else ''40'') @
                    ''s (attempt '' @ nat_dec (attempt + 1) @ ''/3)''))\<rparr>
      else s)"

text \<open>The attempts at one round, \<open>left\<close> of them; \<open>up k\<close> is the outcome of the \<open>k\<close>-th process.\<close>

fun round_attempts ::
  "'o chat_port \<Rightarrow> (nat \<Rightarrow> string \<Rightarrow> curl_outcome) \<Rightarrow> string \<Rightarrow> nat \<Rightarrow> ('o, 's) agent_state \<Rightarrow>
   (int \<times> int \<times> RoundState) \<times> ('o, 's) agent_state" where
  "round_attempts port up body left s =
     (case agent_round port (up (length (as_sent s)) body) (as_out s) (as_cap s) zero_round of
        (rc0, err0, io) \<Rightarrow>
          (case round_result rc0 err0 io of
             (rc, err) \<Rightarrow>
               let s1 = s\<lparr>as_out := io_out io, as_cap := io_cap io, as_sent := as_sent s @ [body]\<rparr>
               in if rc = 0 \<or> \<not> agent_retryable err \<or> left \<le> 1 then ((rc, err, io_rs io), s1)
                  else round_attempts port up body (left - 1) (retry_note port (AGENT_UPSTREAM_ATTEMPTS - left + 1) err s1)))"

declare round_attempts.simps [simp del]

definition with_ids :: "RoundCall list \<Rightarrow> RoundCall list" where
  "with_ids calls =
     map2 (\<lambda>i c. case rc_id c of None \<Rightarrow> c\<lparr>rc_id := Some (''call_'' @ nat_dec i)\<rparr> | Some _ \<Rightarrow> c) [0..<length calls] calls"

fun announce :: "'o chat_port \<Rightarrow> RoundCall list \<Rightarrow> 'o \<Rightarrow> 'o" where
  "announce port [] o' = o'"
| "announce port (c # cs) o' =
     (if cp_ok port o'
      then announce port cs (cp_event port o' ''note'' (Some (''tool '' @ call_name c @ ''('' @ buf_text (rc_args c) @ '')'')))
      else o')"

text \<open>The calls of a round in order; \<open>run name args\<close> is the dispatch of the tools, \<open>None\<close> when it does not come back.\<close>

fun run_calls ::
  "(string \<Rightarrow> string option \<Rightarrow> 's \<Rightarrow> (string \<times> 's) option) \<Rightarrow> RoundCall list \<Rightarrow> string list \<Rightarrow> ('o, 's) agent_state \<Rightarrow>
   string list option \<times> string list \<times> ('o, 's) agent_state" where
  "run_calls run [] sigs s = (Some [], sigs, s)"
| "run_calls run (c # cs) sigs s =
     (let s1 = s\<lparr>as_ran := as_ran s @ [(call_name c, buf_text (rc_args c))]\<rparr>
      in case run (call_name c) (rc_args c) (as_tools s) of
           None \<Rightarrow> (None, sigs, s1\<lparr>as_crashed := True\<rparr>)
         | Some (txt, st) \<Rightarrow>
             (case run_calls run cs (exec_sig_record c sigs) (s1\<lparr>as_tools := st\<rparr>) of
                (res, sigs', s') \<Rightarrow> (map_option ((#) txt) res, sigs', s')))"

record ('o, 's) agent_ctx =
  ac_port :: "'o chat_port"
  ac_up :: "nat \<Rightarrow> string \<Rightarrow> curl_outcome"
  ac_run :: "string \<Rightarrow> string option \<Rightarrow> 's \<Rightarrow> (string \<times> 's) option"
  ac_model :: string
  ac_tools_json :: "string option"
  ac_gateway :: bool

definition round_note :: "'o chat_port \<Rightarrow> nat \<Rightarrow> nat \<Rightarrow> ('o, 's) agent_state \<Rightarrow> ('o, 's) agent_state" where
  "round_note port r n s =
     (if r > 1 then s\<lparr>as_out := cp_event port (as_out s) ''note'' (Some (''round '' @ nat_dec r @ ''/'' @ nat_dec n))\<rparr> else s)"

text \<open>After the attempts: the run ends (\<open>None\<close>), or goes on with the calls to execute.\<close>

definition round_decide ::
  "('o, 's) agent_ctx \<Rightarrow> string list \<Rightarrow> int \<times> int \<times> RoundState \<Rightarrow> ('o, 's) agent_state \<Rightarrow> RoundCall list option \<times> ('o, 's) agent_state" where
  "round_decide cx sigs r s =
     (case r of (rc, err, rs) \<Rightarrow>
        let port = ac_port cx
        in if rc \<noteq> 0 then (None, if cp_ok port (as_out s) then s\<lparr>as_out := agent_emit_upstream_error port (as_out s) err\<rparr> else s)
           else if rs_content rs \<and> rs_n rs > 0 \<and> list_all (\<lambda>c. exec_sig c \<in> set sigs) (round_calls rs) then (None, s)
           else if \<not> cp_ok port (as_out s) \<or> rs_n rs = 0 then (None, s)
           else if ac_gateway cx then
             (None, s\<lparr>as_out := cp_event port (as_out s) ''note'' (Some ''tool step handled by upstream gateway'')\<rparr>)
           else
             let calls = with_ids (round_calls rs); s2 = s\<lparr>as_out := announce port calls (as_out s)\<rparr>
             in if cp_ok port (as_out s2) then (Some calls, s2) else (None, s2))"

text \<open>Round \<open>n - left\<close> of \<open>n\<close>, with \<open>left\<close> more to come.\<close>

fun round_loop ::
  "('o, 's) agent_ctx \<Rightarrow> nat \<Rightarrow> nat \<Rightarrow> string \<Rightarrow> string list \<Rightarrow> ('o, 's) agent_state \<Rightarrow> ('o, 's) agent_state" where
  "round_loop cx n 0 msgs sigs s = s"
| "round_loop cx n (Suc left) msgs sigs s =
     (if \<not> cp_ok (ac_port cx) (as_out s) then s
      else
        case round_attempts (ac_port cx) (ac_up cx) (request_body (ac_model cx) (ac_tools_json cx) False msgs)
               AGENT_UPSTREAM_ATTEMPTS (round_note (ac_port cx) (n - left) n s) of
          (r, s1) \<Rightarrow>
            (case round_decide cx sigs r s1 of
               (None, s2) \<Rightarrow> s2
             | (Some calls, s2) \<Rightarrow>
                 (case run_calls (ac_run cx) calls sigs s2 of
                    (None, sigs', s3) \<Rightarrow> s3
                  | (Some results, sigs', s3) \<Rightarrow> round_loop cx n left (msgs_append_round calls results msgs) sigs' s3)))"

definition agent_system_default :: string where
  "agent_system_default =
     ''You are the assistant embedded in agent-httpd, a small C web server that implements its chat agent natively (ReAct with tool calls). Use the provided tools when they help; answer concisely.''"

definition first_messages :: "string \<Rightarrow> string \<Rightarrow> ChatRequest \<Rightarrow> string" where
  "first_messages base extra req =
     msgs_role_text ''user'' (cr_message req) (foldl (\<lambda>m h. msgs_role_text (fst h) (snd h) m) (msgs_system base extra) (cr_history req))"

definition run_rounds :: "agent_env \<Rightarrow> int \<Rightarrow> ChatRequest \<Rightarrow> nat" where
  "run_rounds env max_rounds req =
     nat (if cr_rounds req > 0 \<and> cr_rounds req < 64 then cr_rounds req
          else if max_rounds > 0 then max_rounds else agent_max_rounds (ae_rounds env))"

text \<open>
  The tools array of the request: none in gateway mode, the filtered one when the request names tools.  \<open>all_tools\<close> and
  \<open>some_tools\<close> are the two schema functions of the registry.
\<close>

definition run_tools_json :: "agent_env \<Rightarrow> string \<Rightarrow> (string list \<Rightarrow> string) \<Rightarrow> ChatRequest \<Rightarrow> string option" where
  "run_tools_json env all_tools some_tools req =
     (if agent_tool_source (ae_source env) = ''gateway'' then None
      else Some (if cr_tools req \<noteq> [] then some_tools (cr_tools req) else all_tools))"

definition dispatch_tool ::
  "('d, 'db) tool_env \<Rightarrow> tool_fn registry \<Rightarrow> string \<Rightarrow> string \<Rightarrow> string option \<Rightarrow> 'db tool_state \<Rightarrow> (string \<times> 'db tool_state) option" where
  "dispatch_tool ev reg sid name args st = map_option snd (tools_dispatch ev reg name args sid st)"

definition agent_run_inner ::
  "('d, 'db) tool_env \<Rightarrow> tool_fn registry \<Rightarrow> agent_env \<Rightarrow> 'o chat_port \<Rightarrow> (nat \<Rightarrow> string \<Rightarrow> curl_outcome) \<Rightarrow>
   ChatRequest \<Rightarrow> string \<Rightarrow> string \<Rightarrow> int \<Rightarrow> ('o, 'db tool_state) agent_state \<Rightarrow> ('o, 'db tool_state) agent_state" where
  "agent_run_inner ev reg env port up req base extra max_rounds s =
     (let tools_json = run_tools_json env (fst (tools_schema_json (te_alloc ev) reg))
            (\<lambda>names. tools_schema_json_filtered (te_alloc ev) (map Some names) reg) req;
          cx = \<lparr>ac_port = port, ac_up = up, ac_run = dispatch_tool ev reg (cr_session_id req), ac_model = round_model env (cr_model req),
            ac_tools_json = tools_json, ac_gateway = (agent_tool_source (ae_source env) = ''gateway'')\<rparr>;
          n = run_rounds env max_rounds req
      in round_loop cx n n (first_messages base extra req) [] s)"

definition agent_run_ex ::
  "('d, 'db) tool_env \<Rightarrow> tool_fn registry \<Rightarrow> agent_env \<Rightarrow> 'o chat_port \<Rightarrow> (nat \<Rightarrow> string \<Rightarrow> curl_outcome) \<Rightarrow>
   ChatRequest \<Rightarrow> string option \<Rightarrow> string \<Rightarrow> ('o, 'db tool_state) agent_state \<Rightarrow> ('o, 'db tool_state) agent_state" where
  "agent_run_ex ev reg env port up req base extra s =
     agent_run_inner ev reg env port up req (case base of None \<Rightarrow> agent_system_default | Some b \<Rightarrow> b) extra
       (agent_max_rounds (ae_rounds env)) s"

text \<open>\<open>slot\<close>: a concurrency slot was free within the waiting time.\<close>

definition agent_run ::
  "bool \<Rightarrow> ('d, 'db) tool_env \<Rightarrow> tool_fn registry \<Rightarrow> agent_env \<Rightarrow> 'o chat_port \<Rightarrow> (nat \<Rightarrow> string \<Rightarrow> curl_outcome) \<Rightarrow>
   ChatRequest \<Rightarrow> string \<Rightarrow> ('o, 'db tool_state) agent_state \<Rightarrow> ('o, 'db tool_state) agent_state" where
  "agent_run slot ev reg env port up req extra s =
     (if slot then agent_run_ex ev reg env port up req None extra s
      else s\<lparr>as_out := cp_event port (as_out s) ''error'' (Some ''server busy (AGENT_MAX_CONCURRENT reached), retry shortly'')\<rparr>)"

section \<open>The calls of a round stay in their bounds\<close>

definition rs_wf :: "RoundState \<Rightarrow> bool" where
  "rs_wf rs \<longleftrightarrow> length (rs_calls rs) = AGENT_TOOL_CALLS_MAX \<and> rs_n rs \<le> AGENT_TOOL_CALLS_MAX \<and>
     list_all (\<lambda>c. length (buf_text (rc_args c)) \<le> AGENT_ARGS_MAX) (rs_calls rs)"

lemma zero_round_wf: "rs_wf zero_round"
  by (simp add: rs_wf_def zero_round_def buf_text_def list_all_iff)

lemma add_fragment_bound: "length (buf_text old) \<le> AGENT_ARGS_MAX \<Longrightarrow> length (buf_text (add_fragment old v)) \<le> AGENT_ARGS_MAX"
  by (auto simp: add_fragment_def Let_def buf_text_def [of "Some _"] split: option.split)

lemma tc_process_element_wf:
  assumes "rs_wf rs"
  shows "rs_wf (tc_process_element elem rs)"
proof (cases "call_index elem < 0 \<or> call_index elem \<ge> int AGENT_TOOL_CALLS_MAX")
  case False
  define i where "i = nat (call_index elem)"
  have i: "i < AGENT_TOOL_CALLS_MAX" using False by (auto simp: i_def)
  have c: "length (buf_text (rc_args (rs_calls rs ! i))) \<le> AGENT_ARGS_MAX"
    using assms i by (simp add: rs_wf_def list_all_length)
  from assms i c add_fragment_bound [OF c] False show ?thesis
    by (auto simp: tc_process_element_def Let_def i_def [symmetric] rs_wf_def list_all_iff
        dest!: set_update_subset_insert [THEN subsetD] split: option.split)
qed (use assms in \<open>simp add: tc_process_element_def\<close>)

lemma tc_loop_wf: "rs_wf rs \<Longrightarrow> rs_wf (tc_loop q rs)"
proof (induction q rs rule: tc_loop.induct)
  case (1 q rs)
  then show ?case by (subst tc_loop.simps) (auto simp: Let_def tc_process_element_wf split: option.split)
qed

lemma rs_wf_flags [simp]: "rs_wf (rs\<lparr>rs_error := b\<rparr>) = rs_wf rs" "rs_wf (rs\<lparr>rs_content := b\<rparr>) = rs_wf rs"
  by (simp_all add: rs_wf_def)

lemma handle_upstream_line_wf:
  assumes "rs_wf (io_rs io)"
  shows "rs_wf (io_rs (handle_upstream_line port l io))"
proof -
  have n: "io_rs (note_finish obj io) = io_rs io" for obj and io :: "'a round_io"
    by (auto simp: note_finish_def split: option.split)
  have r: "io_rs (relay_content port sz d io) = io_rs io" for sz d and io :: "'a round_io"
    by (auto simp: relay_content_def Let_def split: option.split)
  have d: "rs_wf (io_rs io) \<Longrightarrow> rs_wf (io_rs (handle_delta port sz obj io))" for sz obj and io :: "'a round_io"
    by (auto simp: handle_delta_def Let_def r tc_loop_wf split: option.split)
  have "rs_wf (io_rs io) \<Longrightarrow> rs_wf (io_rs (handle_payload port sz p io))" for sz p and io :: "'a round_io"
    by (auto simp: handle_payload_def Let_def d n split: option.split)
  then show ?thesis using assms by (auto simp: handle_upstream_line_def Let_def split: option.split)
qed

lemma end_line_wf: "rs_wf (io_rs io) \<Longrightarrow> rs_wf (io_rs (end_line port lb io))"
  by (simp add: end_line_def handle_upstream_line_wf)

lemma feed_chunk_wf: "feed_chunk port c lb io = (lb', io', stop) \<Longrightarrow> rs_wf (io_rs io) \<Longrightarrow> rs_wf (io_rs io')"
proof (induction port c lb io rule: feed_chunk.induct)
  case (1 port cur lb io)
  then show ?case
    by (subst (asm) (2) feed_chunk.simps) (auto simp: Let_def end_line_wf split: if_splits list.splits)
qed

lemma read_stream_wf: "read_stream port us lb io = (lb', io', how) \<Longrightarrow> rs_wf (io_rs io) \<Longrightarrow> rs_wf (io_rs io')"
proof (induction us arbitrary: lb io)
  case (Cons u us)
  then show ?case
    by (cases u) (auto simp: Let_def split: if_splits prod.splits dest!: feed_chunk_wf dest: Cons.IH)
qed simp

lemma agent_round_wf:
  assumes "agent_round port up o' cap rs = (rc, err, io)" and "rs_wf rs"
  shows "rs_wf (io_rs io)"
proof (cases up)
  case (UpRan events ended)
  obtain lb io1 how where r: "read_stream port events ([], False) (start_io o' cap rs) = (lb, io1, how)" by (metis prod.exhaust)
  have "rs_wf (io_rs io1)" using read_stream_wf [OF r] assms(2) by (simp add: start_io_def)
  with assms(1) UpRan r show ?thesis by (auto simp: agent_round_def Let_def end_line_wf split: prod.splits if_splits)
qed (use assms in \<open>auto simp: agent_round_def start_io_def\<close>)

section \<open>Retries\<close>

text \<open>Up to three requests, all with the same body; nothing but the port, the capture and the record of requests changes.\<close>

lemma retry_note_same [simp]:
  "as_ran (retry_note port a err s) = as_ran s" "as_tools (retry_note port a err s) = as_tools s" "as_sent (retry_note port a err s) = as_sent s"
  by (simp_all add: retry_note_def)

lemma round_note_same [simp]:
  "as_ran (round_note port r n s) = as_ran s" "as_tools (round_note port r n s) = as_tools s" "as_sent (round_note port r n s) = as_sent s"
  by (simp_all add: round_note_def)

lemma round_attempts_step:
  fixes s s' :: "('o, 's) agent_state"
  assumes "round_attempts port up body left s = ((rc, err, rs), s')"
  obtains
    "rs_wf rs" "as_ran s' = as_ran s" "as_tools s' = as_tools s" "as_sent s' = as_sent s @ [body]"
  | s2 :: "('o, 's) agent_state" where "1 < left" "as_ran s2 = as_ran s" "as_tools s2 = as_tools s" "as_sent s2 = as_sent s @ [body]"
    "round_attempts port up body (left - 1) s2 = ((rc, err, rs), s')"
proof -
  obtain rc0 err0 io where r: "agent_round port (up (length (as_sent s)) body) (as_out s) (as_cap s) zero_round = (rc0, err0, io)"
    by (metis prod.exhaust)
  have wf: "rs_wf (io_rs io)" using agent_round_wf [OF r zero_round_wf] .
  obtain rc1 err1 where v: "round_result rc0 err0 io = (rc1, err1)" by (metis prod.exhaust)
  define s1 where "s1 = s\<lparr>as_out := io_out io, as_cap := io_cap io, as_sent := as_sent s @ [body]\<rparr>"
  have s1: "as_ran s1 = as_ran s" "as_tools s1 = as_tools s" "as_sent s1 = as_sent s @ [body]" by (simp_all add: s1_def)
  have u: "round_attempts port up body left s =
      (if rc1 = 0 \<or> \<not> agent_retryable err1 \<or> left \<le> 1 then ((rc1, err1, io_rs io), s1)
       else round_attempts port up body (left - 1) (retry_note port (AGENT_UPSTREAM_ATTEMPTS - left + 1) err1 s1))"
    by (subst round_attempts.simps) (simp add: r v s1_def)
  show ?thesis
  proof (cases "rc1 = 0 \<or> \<not> agent_retryable err1 \<or> left \<le> 1")
    case True
    then have "rs = io_rs io" "s' = s1" using assms u by simp_all
    with wf s1 show ?thesis by (intro that(1)) simp_all
  next
    case False
    with assms u s1 show ?thesis
      by (intro that(2) [of "retry_note port (AGENT_UPSTREAM_ATTEMPTS - left + 1) err1 s1"]) simp_all
  qed
qed

lemma round_attempts_facts:
  "round_attempts port up body left s = ((rc, err, rs), s') \<Longrightarrow>
   rs_wf rs \<and> as_ran s' = as_ran s \<and> as_tools s' = as_tools s \<and> (\<exists>k. as_sent s' = as_sent s @ replicate k body \<and> k \<le> max 1 left)"
proof (induction left arbitrary: s)
  case 0
  then show ?case by (cases rule: round_attempts_step) (auto intro!: exI [of _ 1])
next
  case (Suc l)
  from Suc.prems show ?case
  proof (cases rule: round_attempts_step)
    case 1
    then show ?thesis by (auto intro!: exI [of _ 1])
  next
    case (2 s2)
    from Suc.IH [of s2] 2 obtain k where "as_sent s' = as_sent s2 @ replicate k body" "k \<le> max 1 l"
      and o: "rs_wf rs" "as_ran s' = as_ran s2" "as_tools s' = as_tools s2" by auto
    then have "as_sent s' = as_sent s @ replicate (Suc k) body \<and> Suc k \<le> max 1 (Suc l)" using 2 by simp
    then have "\<exists>k. as_sent s' = as_sent s @ replicate k body \<and> k \<le> max 1 (Suc l)" by blast
    then show ?thesis using o 2(2,3) by (intro conjI) (simp_all only:)
  qed
qed

section \<open>Bounds of a run\<close>

lemma run_calls_facts:
  "run_calls run cs sigs s = (res, sigs', s') \<Longrightarrow>
   as_sent s' = as_sent s \<and>
   (\<exists>k \<le> length cs. as_ran s' = as_ran s @ map (\<lambda>c. (call_name c, buf_text (rc_args c))) (take k cs) \<and>
     (\<forall>r. res = Some r \<longrightarrow> k = length cs \<and> length r = length cs))"
proof (induction run cs sigs s arbitrary: res sigs' s' rule: run_calls.induct)
  case (2 run c cs sigs s)
  let ?s = "s\<lparr>as_ran := as_ran s @ [(call_name c, buf_text (rc_args c))]\<rparr>"
  show ?case
  proof (cases "run (call_name c) (rc_args c) (as_tools s)")
    case None
    with 2(2) show ?thesis by (auto intro!: exI [of _ 1])
  next
    case (Some ts)
    obtain tx st where ts: "ts = (tx, st)" by (cases ts)
    obtain res1 sigs1 s1 where r: "run_calls run cs (exec_sig_record c sigs) (?s\<lparr>as_tools := st\<rparr>) = (res1, sigs1, s1)" by (metis prod.exhaust)
    have eq: "res = map_option ((#) tx) res1" "s' = s1" using 2(2) Some ts r by simp_all
    from 2(1) [OF refl Some [unfolded ts] refl r] obtain k where k: "as_sent s1 = as_sent s" "k \<le> length cs"
      "as_ran s1 = as_ran s @ [(call_name c, buf_text (rc_args c))] @ map (\<lambda>c. (call_name c, buf_text (rc_args c))) (take k cs)"
      "\<forall>r. res1 = Some r \<longrightarrow> k = length cs \<and> length r = length cs" by auto
    show ?thesis using k eq by (auto intro!: exI [of _ "Suc k"])
  qed
qed auto

lemma with_ids_calls:
  "length (with_ids cs) = length cs \<and>
   map (\<lambda>c. (call_name c, buf_text (rc_args c))) (with_ids cs) = map (\<lambda>c. (call_name c, buf_text (rc_args c))) cs"
  by (auto simp: with_ids_def call_name_def intro!: nth_equalityI split: option.split)

lemma round_decide_same:
  "round_decide cx sigs r s = (d, s') \<Longrightarrow> as_ran s' = as_ran s \<and> as_tools s' = as_tools s \<and> as_sent s' = as_sent s"
  by (auto simp: round_decide_def Let_def split: prod.splits if_splits)

lemma round_decide_calls:
  "round_decide cx sigs (rc, err, rs) s = (Some calls, s') \<Longrightarrow> calls = with_ids (round_calls rs) \<and> \<not> ac_gateway cx"
  by (auto simp: round_decide_def Let_def split: if_splits)

lemma round_calls_bounds:
  assumes "rs_wf rs"
  shows "length (round_calls rs) \<le> 8 \<and> list_all (\<lambda>c. length (buf_text (rc_args c)) \<le> AGENT_ARGS_MAX) (round_calls rs)"
  using assms by (auto simp: rs_wf_def round_calls_def AGENT_TOOL_CALLS_MAX_def list_all_iff dest: in_set_takeD)

text \<open>One round as a whole: the requests of its attempts, the decision, and the calls.\<close>

lemma round_loop_cases:
  fixes s :: "('o, 's) agent_state"
  assumes "cp_ok (ac_port cx) (as_out s)"
  obtains
    (stop) k ran where "as_sent (round_loop cx n (Suc left) msgs sigs s) = as_sent s @ replicate k (request_body (ac_model cx) (ac_tools_json cx) False msgs)"
      "k \<le> 3" "as_ran (round_loop cx n (Suc left) msgs sigs s) = as_ran s @ ran" "length ran \<le> 8"
      "list_all (\<lambda>c. length (snd c) \<le> AGENT_ARGS_MAX) ran" "ac_gateway cx \<Longrightarrow> ran = []"
  | (go) k calls results sigs' and s3 :: "('o, 's) agent_state" where
      "as_sent s3 = as_sent s @ replicate k (request_body (ac_model cx) (ac_tools_json cx) False msgs)" "k \<le> 3"
      "as_ran s3 = as_ran s @ map (\<lambda>c. (call_name c, buf_text (rc_args c))) calls" "length results = length calls" "length calls \<le> 8"
      "list_all (\<lambda>c. length (buf_text (rc_args c)) \<le> AGENT_ARGS_MAX) calls" "\<not> ac_gateway cx"
      "list_all (\<lambda>c. rc_id c \<noteq> None) calls"
      "round_loop cx n (Suc left) msgs sigs s = round_loop cx n left (msgs_append_round calls results msgs) sigs' s3"
proof -
  obtain rc err rs s1 where r: "round_attempts (ac_port cx) (ac_up cx) (request_body (ac_model cx) (ac_tools_json cx) False msgs)
      AGENT_UPSTREAM_ATTEMPTS (round_note (ac_port cx) (n - left) n s) = ((rc, err, rs), s1)" by (metis prod.exhaust)
  obtain k where k: "as_sent s1 = as_sent s @ replicate k (request_body (ac_model cx) (ac_tools_json cx) False msgs)" "k \<le> 3"
    and s1: "rs_wf rs" "as_ran s1 = as_ran s"
    using round_attempts_facts [OF r] by (auto simp: AGENT_UPSTREAM_ATTEMPTS_def)
  obtain d s2 where d: "round_decide cx sigs (rc, err, rs) s1 = (d, s2)" by (metis prod.exhaust)
  note s2 = round_decide_same [OF d]
  show ?thesis
  proof (cases d)
    case None
    then have "round_loop cx n (Suc left) msgs sigs s = s2" using assms r d by simp
    with k s1 s2 stop [of k "[]"] show ?thesis by simp
  next
    case (Some calls)
    obtain res sigs' s3 where c: "run_calls (ac_run cx) calls sigs s2 = (res, sigs', s3)" by (metis prod.exhaust)
    have calls: "calls = with_ids (round_calls rs)" "\<not> ac_gateway cx" using round_decide_calls d Some by blast+
    have ids: "list_all (\<lambda>c. rc_id c \<noteq> None) calls"
      by (auto simp: calls with_ids_def list_all_length split: option.split)
    have args: "list_all (\<lambda>c. length (buf_text (rc_args c)) \<le> AGENT_ARGS_MAX) calls" and len: "length calls \<le> 8"
    proof -
      have m: "map (\<lambda>c. (call_name c, buf_text (rc_args c))) calls = map (\<lambda>c. (call_name c, buf_text (rc_args c))) (round_calls rs)"
        using with_ids_calls [of "round_calls rs"] calls by simp
      have "map (\<lambda>c. buf_text (rc_args c)) calls = map (\<lambda>c. buf_text (rc_args c)) (round_calls rs)"
        using arg_cong [OF m, of "map snd"] by (simp add: comp_def)
      then have "list_all (\<lambda>a. length a \<le> AGENT_ARGS_MAX) (map (\<lambda>c. buf_text (rc_args c)) calls)"
        using round_calls_bounds [OF s1(1)] by (simp add: list_all_iff)
      then show "list_all (\<lambda>c. length (buf_text (rc_args c)) \<le> AGENT_ARGS_MAX) calls" by (simp add: list_all_iff)
      show "length calls \<le> 8" using with_ids_calls [of "round_calls rs"] round_calls_bounds [OF s1(1)] calls by simp
    qed
    from run_calls_facts [OF c] obtain j where j: "as_sent s3 = as_sent s2" "j \<le> length calls"
      "as_ran s3 = as_ran s2 @ map (\<lambda>c. (call_name c, buf_text (rc_args c))) (take j calls)"
      "\<forall>r. res = Some r \<longrightarrow> j = length calls \<and> length r = length calls" by blast
    show ?thesis
    proof (cases res)
      case None
      then have e: "round_loop cx n (Suc left) msgs sigs s = s3" using assms r d Some c by simp
      have "list_all (\<lambda>c. length (snd c) \<le> AGENT_ARGS_MAX) (map (\<lambda>c. (call_name c, buf_text (rc_args c))) (take j calls))"
        using args by (auto simp: list_all_iff dest: in_set_takeD)
      then show ?thesis
        using stop [of k "map (\<lambda>c. (call_name c, buf_text (rc_args c))) (take j calls)"] e k s1 s2 j(1,3) len calls(2) by simp
    next
      case (Some results)
      have "round_loop cx n (Suc left) msgs sigs s = round_loop cx n left (msgs_append_round calls results msgs) sigs' s3"
        using assms r d \<open>d = Some calls\<close> c Some by simp
      with k s1 s2 j Some ids args len calls(2) go [of s3 k calls results sigs'] show ?thesis by simp
    qed
  qed
qed

lemma round_loop_bounds:
  "\<exists>sent ran. as_sent (round_loop cx n left msgs sigs s) = as_sent s @ sent \<and> as_ran (round_loop cx n left msgs sigs s) = as_ran s @ ran \<and>
     length sent \<le> 3 * left \<and> length ran \<le> 8 * left \<and> list_all (\<lambda>c. length (snd c) \<le> AGENT_ARGS_MAX) ran \<and>
     (ac_gateway cx \<longrightarrow> ran = [])"
proof (induction left arbitrary: msgs sigs s)
  case (Suc left)
  show ?case
  proof (cases "cp_ok (ac_port cx) (as_out s)")
    case True
    from True show ?thesis
    proof (cases rule: round_loop_cases [where n = n and left = left and msgs = msgs and sigs = sigs])
      case (stop k ran)
      then show ?thesis by (intro exI [of _ "replicate k _"] exI [of _ ran]) auto
    next
      case (go k calls results sigs' s3)
      obtain sent ran where b: "as_sent (round_loop cx n left (msgs_append_round calls results msgs) sigs' s3) = as_sent s3 @ sent"
        "as_ran (round_loop cx n left (msgs_append_round calls results msgs) sigs' s3) = as_ran s3 @ ran"
        "length sent \<le> 3 * left" "length ran \<le> 8 * left" "list_all (\<lambda>c. length (snd c) \<le> AGENT_ARGS_MAX) ran"
        using Suc by metis
      show ?thesis
        by (rule exI [of _ "replicate k (request_body (ac_model cx) (ac_tools_json cx) False msgs) @ sent"],
            rule exI [of _ "map (\<lambda>c. (call_name c, buf_text (rc_args c))) calls @ ran"])
          (use go b in \<open>auto simp: list_all_iff\<close>)
    qed
  qed simp
qed simp

lemma run_rounds_bound: "run_rounds env (agent_max_rounds e) req \<le> 63"
  by (auto simp: run_rounds_def agent_max_rounds_def AGENT_MAX_ROUNDS_DEFAULT_def Let_def)

lemma agent_run_ex_bounds:
  fixes s :: "('o, 'db tool_state) agent_state"
  shows "\<exists>sent ran. as_sent (agent_run_ex ev reg env port up req base extra s) = as_sent s @ sent \<and>
    as_ran (agent_run_ex ev reg env port up req base extra s) = as_ran s @ ran \<and> length sent \<le> 189 \<and> length ran \<le> 504 \<and>
    list_all (\<lambda>c. length (snd c) \<le> AGENT_ARGS_MAX) ran \<and> (agent_tool_source (ae_source env) = ''gateway'' \<longrightarrow> ran = [])"
proof -
  define n where "n = run_rounds env (agent_max_rounds (ae_rounds env)) req"
  have n: "n \<le> 63" unfolding n_def by (rule run_rounds_bound)
  obtain cx msgs where r: "agent_run_ex ev reg env port up req base extra s = round_loop cx n n msgs [] s"
    and g: "ac_gateway cx = (agent_tool_source (ae_source env) = ''gateway'')"
    unfolding agent_run_ex_def agent_run_inner_def Let_def n_def by simp
  obtain sent ran where b: "as_sent (round_loop cx n n msgs [] s) = as_sent s @ sent" "as_ran (round_loop cx n n msgs [] s) = as_ran s @ ran"
    "length sent \<le> 3 * n" "length ran \<le> 8 * n" "list_all (\<lambda>c. length (snd c) \<le> AGENT_ARGS_MAX) ran" "ac_gateway cx \<longrightarrow> ran = []"
    using round_loop_bounds [of cx n n msgs "[]" s] by metis
  have "length sent \<le> 189" "length ran \<le> 504" using b(3,4) n by linarith+
  with r g b show ?thesis by metis
qed

text \<open>
  (C29) An agent run is bounded.  Whatever the upstream answers and whatever the tools do, a run ends after at most 63
  rounds: it starts at most 189 upstream requests and executes at most 504 tool calls, each with at most 32768
  bytes of arguments; in gateway mode it executes none.
\<close>

theorem agent_run_bounded:
  fixes s :: "('o, 'db tool_state) agent_state"
  shows "\<exists>sent ran. as_sent (agent_run_ex ev reg env port up req base extra s) = as_sent s @ sent \<and>
    as_ran (agent_run_ex ev reg env port up req base extra s) = as_ran s @ ran \<and> length sent \<le> 189 \<and> length ran \<le> 504 \<and>
    list_all (\<lambda>c. length (snd c) \<le> AGENT_ARGS_MAX) ran \<and> (agent_tool_source (ae_source env) = ''gateway'' \<longrightarrow> ran = [])"
  by (rule agent_run_ex_bounds)

section \<open>The requests are well-formed conversations\<close>

datatype msg = MText string string | MCalls "(string \<times> string \<times> string) list" | MTool string string

fun msg_json :: "msg \<Rightarrow> json" where
  "msg_json (MText r t) = JObj [(''role'', JStr r), (''content'', JStr t)]"
| "msg_json (MCalls cs) =
     JObj [(''role'', JStr ''assistant''), (''content'', JAtom ''null''),
       (''tool_calls'', JArr (map (\<lambda>(i, n, a). JObj [(''id'', JStr i), (''type'', JStr ''function''),
          (''function'', JObj [(''name'', JStr n), (''arguments'', JStr a)])]) cs))]"
| "msg_json (MTool i t) = JObj [(''role'', JStr ''tool''), (''tool_call_id'', JStr i), (''content'', JStr t)]"

definition request_json :: "string \<Rightarrow> json option \<Rightarrow> msg list \<Rightarrow> json" where
  "request_json model tools ms =
     JObj ([(''model'', JStr model), (''stream'', JAtom ''true'')] @ (case tools of None \<Rightarrow> [] | Some j \<Rightarrow> [(''tools'', j)]) @
       [(''messages'', JArr (map msg_json ms))])"

text \<open>The text of an array that is still open.\<close>

definition open_text :: "msg list \<Rightarrow> string" where
  "open_text ms = CHR ''['' # join (map (\<lambda>m. jprint (msg_json m)) ms)"

lemma agent_keys:
  "jkey ''role'' = json_quote ''role'' @ '':''" "jkey ''content'' = json_quote ''content'' @ '':''"
  "jkey ''id'' = json_quote ''id'' @ '':''" "jkey ''type'' = json_quote ''type'' @ '':''" "jkey ''function'' = json_quote ''function'' @ '':''"
  "jkey ''name'' = json_quote ''name'' @ '':''" "jkey ''arguments'' = json_quote ''arguments'' @ '':''"
  "jkey ''tool_calls'' = json_quote ''tool_calls'' @ '':''" "jkey ''tool_call_id'' = json_quote ''tool_call_id'' @ '':''"
  "jkey ''model'' = json_quote ''model'' @ '':''" "jkey ''stream'' = json_quote ''stream'' @ '':''"
  "jkey ''tools'' = json_quote ''tools'' @ '':''" "jkey ''messages'' = json_quote ''messages'' @ '':''"
  by (simp_all add: jkey_def plain_quote)

lemma join_snoc: "join (xs @ [y]) = (if xs = [] then y else join xs @ CHR '','' # y)"
  by (induction xs) auto

lemma open_text_snoc: "c \<noteq> [] \<Longrightarrow> open_text (c @ [m]) = open_text c @ CHR '','' # jprint (msg_json m)"
  by (simp add: open_text_def join_snoc)

lemma msgs_sep_open: "msgs_sep (open_text c) = open_text c @ '',''"
  by (simp add: msgs_sep_def open_text_def)

lemma msgs_system_open: "msgs_system prompt extra = open_text [MText ''system'' (prompt @ (if extra \<noteq> [] then [LF, LF] @ extra else []))]"
  by (simp add: msgs_system_def open_text_def agent_keys)

definition plain_role :: "string \<Rightarrow> bool" where
  "plain_role r \<longleftrightarrow> r = ''user'' \<or> r = ''assistant''"

lemma msgs_role_open:
  assumes "plain_role r" and "c \<noteq> []"
  shows "msgs_role_text r x (open_text c) = open_text (c @ [MText r x])"
proof -
  have "DQUOTE # r @ [DQUOTE] = json_quote r" using assms(1) by (auto simp: plain_role_def plain_quote)
  then show ?thesis using assms(2) by (simp add: msgs_role_text_def msgs_sep_open open_text_snoc agent_keys)
qed

lemma history_open:
  "list_all (\<lambda>h. plain_role (fst h)) hs \<Longrightarrow> c \<noteq> [] \<Longrightarrow>
   foldl (\<lambda>m h. msgs_role_text (fst h) (snd h) m) (open_text c) hs = open_text (c @ map (\<lambda>h. MText (fst h) (snd h)) hs)"
  by (induction hs arbitrary: c) (simp_all add: msgs_role_open)

definition call_triple :: "RoundCall \<Rightarrow> string \<times> string \<times> string" where
  "call_triple c = (buf_text (rc_id c), call_name c, case rc_args c of None \<Rightarrow> ''{}'' | Some a \<Rightarrow> a)"

definition block :: "RoundCall list \<times> string list \<Rightarrow> msg list" where
  "block b = MCalls (map call_triple (fst b)) # map2 (\<lambda>c r. MTool (buf_text (rc_id c)) (result_text r)) (fst b) (snd b)"

lemma call_json_print: "call_json c = jprint ((\<lambda>(i, n, a). JObj [(''id'', JStr i), (''type'', JStr ''function''),
    (''function'', JObj [(''name'', JStr n), (''arguments'', JStr a)])]) (call_triple c))"
  by (simp add: call_json_def call_triple_def call_name_def agent_keys)

lemma tool_messages_open:
  "c \<noteq> [] \<Longrightarrow> foldl tool_message (open_text c) (zip cs rs) =
   open_text (c @ map2 (\<lambda>c r. MTool (buf_text (rc_id c)) (result_text r)) cs rs)"
proof (induction cs rs arbitrary: c rule: list_induct2')
  case (4 x xs y ys)
  have "tool_message (open_text c) (x, y) = open_text (c @ [MTool (buf_text (rc_id x)) (result_text y)])"
    using 4(2) by (simp add: tool_message_def msgs_sep_open open_text_snoc agent_keys)
  with 4(1) show ?case by simp
qed simp_all

lemma append_round_open:
  assumes "c \<noteq> []"
  shows "msgs_append_round calls results (open_text c) = open_text (c @ block (calls, results))"
proof -
  have j: "map call_json calls = map jprint (map (\<lambda>(i, n, a). JObj [(''id'', JStr i), (''type'', JStr ''function''),
      (''function'', JObj [(''name'', JStr n), (''arguments'', JStr a)])]) (map call_triple calls))"
    by (simp add: call_json_print)
  have "msgs_sep (open_text c) @ CHR ''{'' # jkey ''role'' @ json_quote ''assistant'' @ CHR '','' # jkey ''content'' @ ''null'' @
      CHR '','' # jkey ''tool_calls'' @ CHR ''['' # join (map call_json calls) @ '']}'' = open_text (c @ [MCalls (map call_triple calls)])"
    unfolding j using assms by (simp add: msgs_sep_open open_text_snoc agent_keys)
  then show ?thesis by (simp add: msgs_append_round_def tool_messages_open block_def)
qed

lemma request_body_print:
  assumes "tools_json = map_option jprint tools" and "pred_option (\<lambda>j. jprint j \<noteq> []) tools"
  shows "request_body model tools_json False (open_text c) = jprint (request_json model tools c)"
  using assms
  by (cases tools) (simp_all add: request_body_def request_json_def json_flag_def agent_keys open_text_def comp_def)

text \<open>The conversation of a run after some rounds, and what a round contributes: one result per call, every call with an id.\<close>

definition conversation :: "string \<Rightarrow> string \<Rightarrow> ChatRequest \<Rightarrow> (RoundCall list \<times> string list) list \<Rightarrow> msg list" where
  "conversation base extra req rounds =
     MText ''system'' (base @ (if extra \<noteq> [] then [LF, LF] @ extra else [])) #
     map (\<lambda>h. MText (fst h) (snd h)) (cr_history req) @ MText ''user'' (cr_message req) # concat (map block rounds)"

definition round_ok :: "RoundCall list \<times> string list \<Rightarrow> bool" where
  "round_ok b \<longleftrightarrow> length (snd b) = length (fst b) \<and> length (fst b) \<le> 8 \<and> list_all (\<lambda>c. rc_id c \<noteq> None) (fst b)"

lemma first_messages_open:
  "list_all (\<lambda>h. plain_role (fst h)) (cr_history req) \<Longrightarrow> first_messages base extra req = open_text (conversation base extra req [])"
  by (simp add: first_messages_def msgs_system_open history_open msgs_role_open conversation_def plain_role_def)

lemma round_loop_requests:
  assumes "c \<noteq> []"
  shows "\<exists>sent. as_sent (round_loop cx n left (open_text c) sigs s) = as_sent s @ sent \<and>
    (\<forall>b \<in> set sent. \<exists>rounds. b = request_body (ac_model cx) (ac_tools_json cx) False (open_text (c @ concat (map block rounds))) \<and>
       list_all round_ok rounds \<and> length rounds < left)"
  using assms
proof (induction left arbitrary: c sigs s)
  case (Suc left)
  show ?case
  proof (cases "cp_ok (ac_port cx) (as_out s)")
    case True
    let ?b = "request_body (ac_model cx) (ac_tools_json cx) False (open_text c)"
    from True show ?thesis
    proof (cases rule: round_loop_cases [where n = n and left = left and msgs = "open_text c" and sigs = sigs])
      case (stop k ran)
      then show ?thesis by (intro exI [of _ "replicate k ?b"]) (auto intro!: exI [of _ "[]"])
    next
      case (go k calls results sigs' s3)
      have "c @ block (calls, results) \<noteq> []" by (simp add: block_def)
      from Suc.IH [OF this, of sigs' s3] obtain sent where
        e: "as_sent (round_loop cx n left (open_text (c @ block (calls, results))) sigs' s3) = as_sent s3 @ sent"
        and w: "\<And>b. b \<in> set sent \<Longrightarrow> \<exists>rounds. b = request_body (ac_model cx) (ac_tools_json cx) False
            (open_text ((c @ block (calls, results)) @ concat (map block rounds))) \<and> list_all round_ok rounds \<and> length rounds < left"
        by metis
      have "\<exists>rounds. b = request_body (ac_model cx) (ac_tools_json cx) False (open_text (c @ concat (map block rounds))) \<and>
          list_all round_ok rounds \<and> length rounds < Suc left" if "b \<in> set (replicate k ?b @ sent)" for b
      proof (cases "b \<in> set sent")
        case True
        from w [OF this] obtain rounds where r: "b = request_body (ac_model cx) (ac_tools_json cx) False
            (open_text ((c @ block (calls, results)) @ concat (map block rounds)))" "list_all round_ok rounds" "length rounds < left"
          by blast
        show ?thesis by (rule exI [of _ "(calls, results) # rounds"]) (use r go in \<open>simp add: round_ok_def\<close>)
      next
        case False
        with that have "b = ?b" by auto
        then show ?thesis by (intro exI [of _ "[]"]) simp
      qed
      moreover have "as_sent (round_loop cx n (Suc left) (open_text c) sigs s) = as_sent s @ (replicate k ?b @ sent)"
        using go e append_round_open [OF Suc.prems, of calls results] by simp
      ultimately show ?thesis by blast
    qed
  qed (auto intro: exI [of _ "[]"])
qed (auto intro: exI [of _ "[]"])

lemma array_text: "\<exists>js. x = jprint (JArr js) \<Longrightarrow> \<exists>j. x = jprint j \<and> jprint j \<noteq> []"
proof -
  assume "\<exists>js. x = jprint (JArr js)"
  then obtain js where "x = jprint (JArr js)" ..
  moreover have "jprint (JArr js) \<noteq> []" by simp
  ultimately show ?thesis by blast
qed

lemma run_tools_json_print:
  assumes "reg_reach reg"
  shows "\<exists>tools. run_tools_json env (fst (tools_schema_json (\<lambda>_. True) reg)) (\<lambda>names. tools_schema_json_filtered (\<lambda>_. True) (map Some names) reg) req
    = map_option jprint tools \<and> pred_option (\<lambda>j. jprint j \<noteq> []) tools \<and> (tools = None \<longleftrightarrow> agent_tool_source (ae_source env) = ''gateway'')"
proof (cases "agent_tool_source (ae_source env) = ''gateway''")
  case True
  then show ?thesis by (intro exI [of _ None]) (simp add: run_tools_json_def)
next
  case False
  have ok: "reg_ok reg" by (rule reach_ok [OF assms])
  have p: "\<exists>js. schema_text (filter P (g_tools reg)) = jprint (JArr js)" for P
    using schema_text_printed [of "filter P (g_tools reg)"] ok by (auto simp only: reg_ok_def list_all_iff set_filter)
  have "\<exists>j. (if cr_tools req \<noteq> [] then tools_schema_json_filtered (\<lambda>_. True) (map Some (cr_tools req)) reg else fst (tools_schema_json (\<lambda>_. True) reg))
      = jprint j \<and> jprint j \<noteq> []"
  proof (intro array_text, cases "cr_tools req = []")
    case True
    have "filter (\<lambda>_. True) (g_tools reg) = g_tools reg" by simp
    then have "\<exists>js. schema_text (g_tools reg) = jprint (JArr js)" using p [of "\<lambda>_. True"] by (simp only:)
    with True show "\<exists>js. (if cr_tools req \<noteq> [] then tools_schema_json_filtered (\<lambda>_. True) (map Some (cr_tools req)) reg
        else fst (tools_schema_json (\<lambda>_. True) reg)) = jprint (JArr js)" by (simp only: schema_json_text [OF ok] simp_thms if_False)
  next
    case False
    with p show "\<exists>js. (if cr_tools req \<noteq> [] then tools_schema_json_filtered (\<lambda>_. True) (map Some (cr_tools req)) reg
        else fst (tools_schema_json (\<lambda>_. True) reg)) = jprint (JArr js)" by (simp only: schema_filtered_text simp_thms if_True)
  qed
  then obtain j where "(if cr_tools req \<noteq> [] then tools_schema_json_filtered (\<lambda>_. True) (map Some (cr_tools req)) reg else fst (tools_schema_json (\<lambda>_. True) reg))
      = jprint j" "jprint j \<noteq> []" by blast
  then show ?thesis using False by (intro exI [of _ "Some j"]) (simp add: run_tools_json_def)
qed

definition agent_request :: "agent_env \<Rightarrow> ChatRequest \<Rightarrow> string \<Rightarrow> string \<Rightarrow> string \<Rightarrow> bool" where
  "agent_request env req base extra body \<longleftrightarrow>
     (\<exists>tools rounds. body = jprint (request_json (round_model env (cr_model req)) tools (conversation base extra req rounds)) \<and>
        list_all round_ok rounds \<and> (tools = None \<longleftrightarrow> agent_tool_source (ae_source env) = ''gateway''))"

lemma agent_run_inner_requests:
  fixes s :: "('o, 'db tool_state) agent_state"
  assumes "reg_reach reg" and "te_alloc ev = (\<lambda>_. True)" and "list_all (\<lambda>h. plain_role (fst h)) (cr_history req)"
  shows "\<exists>sent. as_sent (agent_run_inner ev reg env port up req base extra m s) = as_sent s @ sent \<and> list_all (agent_request env req base extra) sent"
proof -
  obtain tools where t: "run_tools_json env (fst (tools_schema_json (te_alloc ev) reg))
      (\<lambda>names. tools_schema_json_filtered (te_alloc ev) (map Some names) reg) req = map_option jprint tools"
    "pred_option (\<lambda>j. jprint j \<noteq> []) tools" "tools = None \<longleftrightarrow> agent_tool_source (ae_source env) = ''gateway''"
    using run_tools_json_print [OF assms(1)] unfolding assms(2) by metis
  define n where "n = run_rounds env m req"
  obtain cx where r: "agent_run_inner ev reg env port up req base extra m s = round_loop cx n n (open_text (conversation base extra req [])) [] s"
    and cx: "ac_model cx = round_model env (cr_model req)" "ac_tools_json cx = map_option jprint tools"
    unfolding agent_run_inner_def Let_def n_def first_messages_open [OF assms(3)] t(1) by simp
  have c: "conversation base extra req [] \<noteq> []" by (simp add: conversation_def)
  from round_loop_requests [OF c, of cx n n "[]" s] obtain sent where
    e: "as_sent (round_loop cx n n (open_text (conversation base extra req [])) [] s) = as_sent s @ sent"
    and w: "\<And>b. b \<in> set sent \<Longrightarrow> \<exists>rounds. b = request_body (ac_model cx) (ac_tools_json cx) False
        (open_text (conversation base extra req [] @ concat (map block rounds))) \<and> list_all round_ok rounds \<and> length rounds < n" by metis
  have "agent_request env req base extra b" if b: "b \<in> set sent" for b
  proof -
    from w [OF b] obtain rounds where b: "b = request_body (ac_model cx) (ac_tools_json cx) False
        (open_text (conversation base extra req [] @ concat (map block rounds)))" "list_all round_ok rounds" by blast
    have "conversation base extra req [] @ concat (map block rounds) = conversation base extra req rounds" by (simp add: conversation_def)
    with b cx request_body_print [OF cx(2) t(2)] t(3) show ?thesis unfolding agent_request_def by (simp only:) blast
  qed
  then show ?thesis using e r by (intro exI [of _ sent]) (simp add: list_all_iff)
qed

text \<open>
  Every request to the model is a well-formed conversation.  Whatever the upstream streams back and the tools
  return, every request body is the printed JSON object with the model, the tools array (absent exactly in gateway
  mode) and the messages: the system prompt, the history, the user's message, and for every earlier round the
  assistant's calls followed by exactly one tool message per call, in order and under the call's id.  A failed
  attempt leaves nothing in the conversation.
\<close>

theorem requests_wellformed:
  fixes s :: "('o, 'db tool_state) agent_state"
  assumes "reg_reach reg" and "te_alloc ev = (\<lambda>_. True)" and "list_all (\<lambda>h. plain_role (fst h)) (cr_history req)"
    and "as_sent s = []" and "body \<in> set (as_sent (agent_run_inner ev reg env port up req base extra m s))"
  shows "\<exists>tools rounds. body = jprint (request_json (round_model env (cr_model req)) tools (conversation base extra req rounds)) \<and>
    list_all round_ok rounds \<and> (tools = None \<longleftrightarrow> agent_tool_source (ae_source env) = ''gateway'')"
  using agent_run_inner_requests [OF assms(1-3), of env port up base extra m s] assms(4,5)
  by (auto simp: list_all_iff agent_request_def)

text \<open>A small run for evaluation: a port that records events, no tools, an upstream that cannot be started.\<close>

definition list_port :: "(string \<times> string option) list chat_port" where
  "list_port = \<lparr>cp_event = (\<lambda>o' t d. o' @ [(t, d)]), cp_beat = (\<lambda>o'. o'), cp_ok = (\<lambda>_. True)\<rparr>"

definition demo_tool_env :: "(int, unit) tool_env" where
  "demo_tool_env = \<lparr>te_now = 0, te_fpu = int_fpu, te_fs = demo_skill_fs, te_web_root = [],
     te_resolver = \<lparr>rv_pton4 = (\<lambda>_. None), rv_pton6 = (\<lambda>_. None), rv_lookup = (\<lambda>_. None)\<rparr>, te_curl = (\<lambda>_. ForkFailed),
     te_alloc = (\<lambda>_. True), te_io = True, te_skills = \<lparr>si_skills = [], si_text = []\<rparr>,
     te_sql = \<lparr>sq_open = (\<lambda>_ _ _. False), sq_query = (\<lambda>_ _ _. Inl []), sq_exec = (\<lambda>_ _ d. (d, Inl []))\<rparr>,
     te_db_path = None, te_dynamic = (\<lambda>_ _ _. [])\<rparr>"

definition demo_request :: ChatRequest where
  "demo_request = \<lparr>cr_message = ''hi'', cr_history = [(''user'', ''a'')], cr_session_id = [], cr_rounds = 1, cr_tools = [], cr_model = [], cr_system = []\<rparr>"

definition demo_agent_env :: agent_env where
  "demo_agent_env = \<lparr>ae_model = Some ''m'', ae_allowed = None, ae_rounds = None, ae_source = Some ''gateway''\<rparr>"

definition demo_state :: "((string \<times> string option) list, unit tool_state) agent_state" where
  "demo_state = \<lparr>as_out = [], as_cap = [], as_tools = \<lparr>ts_memory = (\<lambda>_. NoFile), ts_db = ()\<rparr>, as_sent = [], as_ran = [], as_crashed = False\<rparr>"

definition demo_run :: "((string \<times> string option) list, unit tool_state) agent_state" where
  "demo_run = agent_run_inner demo_tool_env empty_registry demo_agent_env list_port (\<lambda>_ _. UpForkFailed) demo_request ''s'' [] 8 demo_state"

lemma demo_run_sent: "as_sent demo_run = [request_body ''m'' None False (open_text (conversation ''s'' [] demo_request []))]"
proof -
  have f: "first_messages ''s'' [] demo_request = open_text (conversation ''s'' [] demo_request [])"
    by (rule first_messages_open) (simp add: demo_request_def plain_role_def)
  have fields: "cr_rounds demo_request = 1" "cr_tools demo_request = []" "cr_model demo_request = []" "cr_session_id demo_request = []"
    by (simp_all add: demo_request_def)
  show ?thesis
    by (simp add: demo_run_def agent_run_inner_def f fields Let_def run_rounds_def list_port_def round_attempts.simps agent_round_def
        round_result_def agent_retryable_def round_note_def round_decide_def start_io_def UP_ERR_LOCAL_def UP_ERR_TIMEOUT_def
        UP_ERR_EMPTY_def UP_ERR_HTTP_BASE_def demo_state_def run_tools_json_def demo_agent_env_def agent_tool_source_def round_model_def)
qed

theorem requests_wellformed_witness:
  "\<exists>tools rounds. hd (as_sent demo_run) = jprint (request_json (round_model demo_agent_env (cr_model demo_request)) tools
      (conversation ''s'' [] demo_request rounds)) \<and> list_all round_ok rounds \<and>
      (tools = None \<longleftrightarrow> agent_tool_source (ae_source demo_agent_env) = ''gateway'')"
proof (rule requests_wellformed [OF reach_init])
  show "te_alloc demo_tool_env = (\<lambda>_. True)" by (simp add: demo_tool_env_def)
  show "list_all (\<lambda>h. plain_role (fst h)) (cr_history demo_request)" by (simp add: demo_request_def plain_role_def)
  show "as_sent demo_state = []" by (simp add: demo_state_def)
  show "hd (as_sent demo_run) \<in> set (as_sent (agent_run_inner demo_tool_env empty_registry demo_agent_env list_port (\<lambda>_ _. UpForkFailed)
      demo_request ''s'' [] 8 demo_state))"
    unfolding demo_run_def [symmetric] demo_run_sent by simp
qed

theorem agent_run_bounded_witness:
  "as_ran (agent_run_ex demo_tool_env empty_registry demo_agent_env list_port (\<lambda>_ _. UpForkFailed) demo_request None [] demo_state) = []"
  using agent_run_bounded [of demo_tool_env empty_registry demo_agent_env list_port "\<lambda>_ _. UpForkFailed" demo_request None "[]" demo_state]
  by (auto simp: demo_agent_env_def demo_state_def agent_tool_source_def)

section \<open>How the stream is cut does not matter\<close>

lemma append_short:
  "length l + length a + length b < AGENT_LINE_MAX \<Longrightarrow>
   line_buf_append (a @ b) (l, False) = line_buf_append b (line_buf_append a (l, False)) \<and> line_buf_append a (l, False) = (l @ a, False)"
  by (auto simp: line_buf_append_def)

lemma append_one: "length l + length a < AGENT_LINE_MAX \<Longrightarrow> line_buf_append a (l, False) = (l @ a, False)"
  by (auto simp: line_buf_append_def)

text \<open>Every line of the text, the last one too, is shorter than the limit.\<close>

fun short_lines :: "nat \<Rightarrow> string \<Rightarrow> bool" where
  "short_lines k [] = (k < AGENT_LINE_MAX)"
| "short_lines k (c # s) = (k < AGENT_LINE_MAX \<and> short_lines (if c = LF then 0 else k + 1) s)"

lemma short_lines_head: "short_lines k s \<Longrightarrow> k < AGENT_LINE_MAX"
  by (cases s) auto

lemma short_lines_plain: "LF \<notin> set a \<Longrightarrow> short_lines k (a @ b) \<Longrightarrow> short_lines (k + length a) b"
proof (induction a arbitrary: k)
  case (Cons c a)
  then show ?case using Cons.IH [of "k + 1"] by (auto split: if_splits)
qed simp

lemma no_break: "LF \<notin> set a \<Longrightarrow> dropWhile (\<lambda>c. c \<noteq> LF) (a @ r) = dropWhile (\<lambda>c. c \<noteq> LF) r \<and>
    takeWhile (\<lambda>c. c \<noteq> LF) (a @ r) = a @ takeWhile (\<lambda>c. c \<noteq> LF) r"
  by (induction a) auto

lemma feed_chunk_line:
  assumes "LF \<notin> set a"
  shows "feed_chunk port (a @ LF # r) lb io =
    (let io1 = end_line port (line_buf_append a lb) io
     in if io_done io1 \<or> \<not> cp_ok port (io_out io1) then (([], False), io1, True) else feed_chunk port r ([], False) io1)"
  by (subst feed_chunk.simps) (simp add: no_break [OF assms])

lemma feed_chunk_part: "LF \<notin> set a \<Longrightarrow> a \<noteq> [] \<Longrightarrow> feed_chunk port a lb io = (line_buf_append a lb, io, False)"
proof -
  assume "LF \<notin> set a" "a \<noteq> []"
  moreover from this have "dropWhile (\<lambda>c. c \<noteq> LF) a = []" by (auto simp: dropWhile_eq_Nil_conv)
  ultimately show ?thesis by (subst feed_chunk.simps) (simp only: list.case if_False)
qed

lemma feed_chunk_nil [simp]: "feed_chunk port [] lb io = (lb, io, False)"
  by (subst feed_chunk.simps) simp

lemma line_cases:
  obtains "LF \<notin> set s" | a r where "s = a @ LF # r" "LF \<notin> set a"
  by (metis split_list_first)

text \<open>Two chunks in a row are as good as one.\<close>

lemma feed_chunk_append:
  assumes "short_lines (length l) (a @ b)"
  shows "feed_chunk port (a @ b) (l, False) io =
    (case feed_chunk port a (l, False) io of (lb1, io1, stop) \<Rightarrow> if stop then (lb1, io1, True) else feed_chunk port b lb1 io1)"
  using assms
proof (induction "length a" arbitrary: a l io rule: less_induct)
  case less
  show ?case
  proof (cases rule: line_cases [of a])
    case 1
    have la: "short_lines (length l + length a) b" using short_lines_plain [OF 1 less.prems] .
    show ?thesis
    proof (cases "a = []")
      case False
      have fa: "feed_chunk port a (l, False) io = ((l @ a, False), io, False)"
        using feed_chunk_part [OF 1 False] append_one short_lines_head [OF la] by metis
      show ?thesis
      proof (cases rule: line_cases [of b])
        case b1: 1
        have "length l + length a + length b < AGENT_LINE_MAX"
          using short_lines_plain [of b "length l + length a" "[]"] b1 la by simp
        then have "line_buf_append (a @ b) (l, False) = line_buf_append b (l @ a, False)" using append_short by metis
        moreover have "LF \<notin> set (a @ b)" using 1 b1 by simp
        ultimately show ?thesis
          using fa False feed_chunk_part [of "a @ b" port "(l, False)" io] feed_chunk_part [OF b1, of port "(l @ a, False)" io]
          by (cases "b = []") simp_all
      next
        case (2 x r)
        have "short_lines (length l + length a + length x) (LF # r)" using short_lines_plain [OF 2(2)] la unfolding 2(1) by blast
        then have "length l + length a + length x < AGENT_LINE_MAX" by (rule short_lines_head)
        then have "line_buf_append (a @ x) (l, False) = line_buf_append x (l @ a, False)" using append_short by metis
        moreover have "LF \<notin> set (a @ x)" using 1 2 by simp
        ultimately show ?thesis
          using fa feed_chunk_line [of "a @ x" port r "(l, False)" io] feed_chunk_line [OF 2(2), of port r "(l @ a, False)" io] 2(1) by simp
      qed
    qed simp
  next
    case (2 x r)
    have sr: "short_lines 0 (r @ b)" using short_lines_plain [OF 2(2), of "length l" "LF # r @ b"] less.prems 2(1) by simp
    have "length r < length a" using 2(1) by simp
    from less.hyps [OF this, of "[]"] sr have ih: "feed_chunk port (r @ b) ([], False) i =
        (case feed_chunk port r ([], False) i of (lb1, io1, stop) \<Rightarrow> if stop then (lb1, io1, True) else feed_chunk port b lb1 io1)" for i
      by simp
    show ?thesis
      using feed_chunk_line [OF 2(2), of port "r @ b" "(l, False)" io] feed_chunk_line [OF 2(2), of port r "(l, False)" io] 2(1) ih
      by (simp add: Let_def)
  qed
qed

lemma feed_chunk_state:
  "feed_chunk port a lb io = (lb', io', False) \<Longrightarrow> short_lines (length (fst lb)) (a @ b) \<Longrightarrow> \<not> snd lb \<Longrightarrow>
   \<not> snd lb' \<and> short_lines (length (fst lb')) b"
proof (induction "length a" arbitrary: a lb io rule: less_induct)
  case less
  obtain l where lb: "lb = (l, False)" using less.prems(3) by (cases lb) auto
  show ?case
  proof (cases rule: line_cases [of a])
    case 1
    have s: "short_lines (length l + length a) b" using short_lines_plain [OF 1] less.prems(2) lb by simp
    show ?thesis
    proof (cases "a = []")
      case False
      then have "lb' = (l @ a, False)"
        using feed_chunk_part [OF 1 False, of port lb io] append_one [of l a] short_lines_head [OF s] less.prems(1) lb by simp
      with s show ?thesis by simp
    qed (use less.prems lb in simp)
  next
    case (2 x r)
    have sr: "short_lines 0 (r @ b)" using short_lines_plain [OF 2(2), of "length l" "LF # r @ b"] less.prems(2) 2(1) lb by simp
    have "length r < length a" using 2(1) by simp
    from less.hyps [OF this, of "([], False)"] sr less.prems(1) show ?thesis
      using feed_chunk_line [OF 2(2), of port r lb io] 2(1) by (auto simp: Let_def split: if_splits)
  qed
qed

text \<open>
  (C30) How the network cuts the stream does not matter.  For every stream whose lines are shorter than 65536 bytes, the
  events for the client, the text captured, the tool calls and all flags of a round are the same for every way of
  cutting the stream into chunks: they are those of the whole stream in one piece.
\<close>

theorem stream_cut_independent:
  assumes "short_lines 0 (concat chunks)"
  shows "read_stream port (map UChunk chunks) ([], False) io =
    (case feed_chunk port (concat chunks) ([], False) io of (lb, io', stop) \<Rightarrow> (lb, io', if stop then EndStop else EndEof))"
proof -
  have "read_stream port (map UChunk cs) lb io =
      (case feed_chunk port (concat cs) lb io of (lb, io', stop) \<Rightarrow> (lb, io', if stop then EndStop else EndEof))"
    if "short_lines (length (fst lb)) (concat cs)" "\<not> snd lb" for cs lb io
    using that
  proof (induction cs arbitrary: lb io)
    case (Cons c cs)
    obtain l where lb: "lb = (l, False)" using Cons.prems(2) by (cases lb) auto
    obtain lb1 io1 stop where f: "feed_chunk port c lb io = (lb1, io1, stop)" by (metis prod.exhaust)
    have app: "feed_chunk port (c @ concat cs) lb io = (if stop then (lb1, io1, True) else feed_chunk port (concat cs) lb1 io1)"
      using feed_chunk_append [of l c "concat cs" port io] Cons.prems(1) f lb by simp
    show ?case
    proof (cases stop)
      case False
      then have "\<not> snd lb1 \<and> short_lines (length (fst lb1)) (concat cs)"
        using feed_chunk_state [of port c lb io lb1 io1 "concat cs"] f Cons.prems by simp
      with Cons.IH [of lb1 io1] app f False show ?thesis by simp
    qed (use app f in simp)
  qed simp
  from this [of "([], False)" chunks io] assms show ?thesis by simp
qed

theorem stream_cut_independent_witness:
  "read_stream list_port (map UChunk [''dat'', ''a: [DONE]'' @ [LF]]) ([], False) (start_io [] [] zero_round) =
   (case feed_chunk list_port (concat [''dat'', ''a: [DONE]'' @ [LF]]) ([], False) (start_io [] [] zero_round) of
      (lb, io', stop) \<Rightarrow> (lb, io', if stop then EndStop else EndEof))"
  by (rule stream_cut_independent) (simp add: AGENT_LINE_MAX_def)

section \<open>Findings\<close>

text \<open>
  A call of \<open>sql_query\<close> or \<open>sql_write\<close> for which the model streams no arguments is dispatched with a null pointer,
  which these two tools read through: with a database configured the process is gone.
\<close>

theorem call_without_arguments_crashes:
  assumes "find (\<lambda>t. td_name t = name) (g_tools reg) = Some t" and "td_fn t = FSqlQuery \<or> td_fn t = FSqlWrite"
    and "te_db_path ev = Some db" and "rc_name c = Some name" and "rc_args c = None"
  shows "fst (run_calls (dispatch_tool ev reg sid) (c # cs) sigs s) = None \<and>
    as_crashed (snd (snd (run_calls (dispatch_tool ev reg sid) (c # cs) sigs s)))"
  using assms by (auto simp: dispatch_tool_def tools_dispatch_def run_tool_def call_name_def)

text \<open>
  A line of exactly the limit is used when its line feed comes in the same chunk as its last byte, and dropped as too
  long when it comes in the next one.
\<close>

theorem line_at_limit_depends_on_cut:
  assumes "length l = AGENT_LINE_MAX"
  shows "line_buf_append l ([], False) = (l, False) \<and> line_buf_append [] (line_buf_append l ([], False)) = (l, True)"
  using assms by (auto simp: line_buf_append_def AGENT_LINE_MAX_def)

text \<open>Calls are compared by their first 511 bytes only: a new call with a long common beginning counts as a repeat.\<close>

theorem long_calls_count_as_repeats:
  "exec_sig \<lparr>rc_id = None, rc_name = Some [], rc_args = Some (replicate 600 c @ a)\<rparr> =
   exec_sig \<lparr>rc_id = None, rc_name = Some [], rc_args = Some (replicate 600 c @ b)\<rparr>"
  by (simp add: exec_sig_def call_name_def buf_text_def EXEC_SIG_LEN_def take_Cons')

text \<open>A request for 64 rounds passes the parser's limit but is run with the server's default.\<close>

theorem rounds_64_ignored: "cr_rounds req = 64 \<Longrightarrow> m > 0 \<Longrightarrow> run_rounds env m req = nat m"
  by (simp add: run_rounds_def)

end
