(* ===== verification/Pse.thy ===== *)
theory Pse
  imports Agent
begin

text \<open>
  The three-role orchestrator of \<open>src/src/agent/pse.c\<close>: a planner without tools, the agent loop as the specialist, an
  evaluator without tools, and up to three cycles with the evaluator's feedback.  The upstream, the port and the tools
  are those of theory \<open>Agent\<close>; a file of a role prompt is read from the file system.
\<close>

definition PSE_SOUL_MAX :: nat where "PSE_SOUL_MAX = 262144"
definition PSE_MAX_ATTEMPTS :: nat where "PSE_MAX_ATTEMPTS = 3"

definition pse_enabled :: "string option \<Rightarrow> bool" where
  "pse_enabled env \<longleftrightarrow> env = Some ''true''"

section \<open>Role prompts\<close>

record soul_env =
  se_souls_dir :: "string option"
  se_cwd :: "string option"
  se_skills_dir :: "string option"

definition set_env :: "string option \<Rightarrow> string option" where
  "set_env v = (case v of None \<Rightarrow> None | Some x \<Rightarrow> if x = [] then None else Some x)"

definition find_souls :: "fs \<Rightarrow> soul_env \<Rightarrow> string option" where
  "find_souls fs env =
     (case set_env (se_souls_dir env) of
        Some d \<Rightarrow> Some (set_str (MAX_PATH_SIZE * 2) d)
      | None \<Rightarrow>
          (case se_cwd env of
             None \<Rightarrow> None
           | Some cwd \<Rightarrow>
               let r1 = take (MAX_PATH_SIZE * 2 - 1) (cwd @ ''/souls'')
               in if file_bytes fs r1 \<noteq> None then Some r1
                  else (case set_env (se_skills_dir env) of
                          None \<Rightarrow> None
                        | Some d \<Rightarrow>
                            let r2 = take (MAX_PATH_SIZE * 2 - 1) (d @ ''/../souls'')
                            in if file_bytes fs r2 \<noteq> None then Some r2 else None)))"

text \<open>The root is looked up once per process: the cache holds the answer of the first call, a failure too.\<close>

definition souls_root :: "fs \<Rightarrow> soul_env \<Rightarrow> string option option \<Rightarrow> string option" where
  "souls_root fs env cache = (case cache of Some r \<Rightarrow> r | None \<Rightarrow> find_souls fs env)"

text \<open>A file is read in pieces of 4096 bytes until more than the limit is there; \<open>None\<close> for no file and for an empty one.\<close>

fun read_pieces :: "string list \<Rightarrow> string \<Rightarrow> string" where
  "read_pieces [] got = got"
| "read_pieces (p # ps) got = (if length (got @ p) > PSE_SOUL_MAX then got @ p else read_pieces ps (got @ p))"

definition pse_read_soul :: "fs \<Rightarrow> string option \<Rightarrow> string \<Rightarrow> string option" where
  "pse_read_soul fs root role =
     (case root of
        None \<Rightarrow> None
      | Some r \<Rightarrow>
          if list_ex (\<lambda>c. c \<in> set [BSLASH, CHR ''/'', CHR ''.'']) role then None
          else (case file_bytes fs (take (MAX_PATH_SIZE * 2 - 1) (r @ ''/'' @ role @ ''/SOUL.md'')) of
                  None \<Rightarrow> None
                | Some content \<Rightarrow> if content = [] then None else Some (cstr (read_pieces (file_pieces content) []))))"

definition append_extra :: "string \<Rightarrow> string \<Rightarrow> string" where
  "append_extra base extra = base @ (if extra \<noteq> [] then [LF, LF] @ extra else [])"

definition PSE_PLANNER_DEFAULT :: string where
  "PSE_PLANNER_DEFAULT =
     uni [0x4F60, 0x662F] @ '' Planner'' @ uni [0x3002, 0x8BF7, 0x5C06, 0x4EFB, 0x52A1, 0x5206, 0x89E3, 0x4E3A,
     0x53EF, 0x6267, 0x884C, 0x6B65, 0x9AA4, 0x5E76, 0x8F93, 0x51FA, 0x8BA1, 0x5212, 0x3002, 0x4F60, 0x53EA, 0x8F93,
     0x51FA, 0x7EAF, 0x6587, 0x5B57, 0x8BA1, 0x5212, 0xFF0C, 0x7EDD, 0x4E0D, 0x6267, 0x884C, 0x5DE5, 0x5177, 0x3002]"

definition PSE_SPECIALIST_DEFAULT :: string where
  "PSE_SPECIALIST_DEFAULT =
     uni [0x4F60, 0x662F] @ '' Specialist'' @ uni [0x3002, 0x6309, 0x7167] @ '' Planner '' @ uni [0x7684, 0x6267,
     0x884C, 0x8BA1, 0x5212, 0xFF0C, 0x4F7F, 0x7528, 0x53EF, 0x7528, 0x5DE5, 0x5177, 0x5B8C, 0x6210, 0x4EFB, 0x52A1,
     0xFF0C, 0x8F93, 0x51FA, 0x5177, 0x4F53, 0x7ED3, 0x679C, 0x3002]"

definition PSE_EVALUATOR_DEFAULT :: string where
  "PSE_EVALUATOR_DEFAULT =
     uni [0x4F60, 0x662F] @ '' Evaluator'' @ uni [0x3002, 0x8BF7, 0x72EC, 0x7ACB, 0x8BC4, 0x5BA1, 0x6267, 0x884C,
     0x7ED3, 0x679C, 0xFF0C, 0x7B2C, 0x4E00, 0x884C, 0x8F93, 0x51FA] @ '' PASS / PARTIAL / FAIL '' @ uni [0x4E4B,
     0x4E00, 0xFF0C, 0x5E76, 0x7ED9, 0x51FA, 0x53CD, 0x9988, 0x3002]"

definition feedback_head :: string where
  "feedback_head =
     [LF] @ [LF] @ ''## '' @ uni [0x4E0A, 0x4E00, 0x8F6E] @ '' Evaluator '' @ uni [0x53CD, 0x9988] @ [LF]"

definition feedback_tail :: string where
  "feedback_tail =
     [LF] @ [LF] @ uni [0x8BF7, 0x6839, 0x636E, 0x53CD, 0x9988, 0x91CD, 0x65B0, 0x89C4, 0x5212, 0x6267, 0x884C,
     0x6B65, 0x9AA4, 0x3002]"

definition planner_task :: string where
  "planner_task =
     [LF] @ [LF] @ uni [0x8BF7, 0x8F93, 0x51FA, 0x7ED3, 0x6784, 0x5316, 0x6267, 0x884C, 0x8BA1, 0x5212, 0xFF1A] @
     ''1) '' @ uni [0x4EFB, 0x52A1, 0x5206, 0x89E3, 0xFF08, 0x5B50, 0x6B65, 0x9AA4, 0x5217, 0x8868, 0xFF09] @ ''2) ''
     @ uni [0x6BCF, 0x6B65, 0x6240, 0x9700, 0x5DE5, 0x5177] @ '' 3) '' @ uni [0x9A8C, 0x6536, 0x6807, 0x51C6, 0x3002,
     0x3010, 0x786C, 0x6027, 0x8981, 0x6C42, 0x3011, 0x4F60, 0x53EA, 0x8D1F, 0x8D23, 0x8F93, 0x51FA, 0x7EAF, 0x6587,
     0x5B57, 0x6267, 0x884C, 0x8BA1, 0x5212, 0xFF0C, 0x4E0D, 0x6267, 0x884C, 0x4EFB, 0x4F55, 0x5DE5, 0x5177, 0x3002,
     0x76F4, 0x63A5, 0x8F93, 0x51FA, 0x8BA1, 0x5212, 0x6B63, 0x6587, 0x3002]"

definition plan_head :: string where
  "plan_head =
     ''## Planner '' @ uni [0x6267, 0x884C, 0x8BA1, 0x5212] @ [LF]"

definition task_head :: string where
  "task_head =
     ''## '' @ uni [0x539F, 0x59CB, 0x4EFB, 0x52A1] @ [LF]"

definition eval_plan_head :: string where
  "eval_plan_head =
     [LF] @ [LF] @ ''## '' @ uni [0x6267, 0x884C, 0x8BA1, 0x5212] @ [LF]"

definition eval_result_head :: string where
  "eval_result_head =
     [LF] @ [LF] @ ''## Specialist '' @ uni [0x6267, 0x884C, 0x7ED3, 0x679C] @ [LF]"

definition eval_task :: string where
  "eval_task =
     [LF] @ [LF] @ uni [0x8BF7, 0x72EC, 0x7ACB, 0x8BC4, 0x5BA1, 0x4E0A, 0x8FF0, 0x6267, 0x884C, 0x7ED3, 0x679C,
     0x3002, 0x8F93, 0x51FA, 0x7B2C, 0x4E00, 0x884C, 0x5FC5, 0x987B, 0x662F, 0x4EE5, 0x4E0B, 0x4E4B, 0x4E00, 0xFF1A]
     @ [LF] @ ''- PASS '' @ uni [0x2014] @ '' '' @ uni [0x5B8C, 0x5168, 0x6EE1, 0x8DB3, 0x9A8C, 0x6536, 0x6807,
     0x51C6] @ [LF] @ ''- PARTIAL '' @ uni [0x2014] @ '' '' @ uni [0x90E8, 0x5206, 0x6EE1, 0x8DB3, 0xFF0C, 0x5217,
     0x51FA, 0x672A, 0x5B8C, 0x6210, 0x9879] @ [LF] @ ''- FAIL '' @ uni [0x2014] @ '' '' @ uni [0x672A, 0x6EE1,
     0x8DB3, 0xFF0C, 0x8BF4, 0x660E, 0x539F, 0x56E0, 0x548C, 0x6539, 0x8FDB, 0x5EFA, 0x8BAE]"

section \<open>Role output\<close>

definition starts_with_pass :: "string \<Rightarrow> bool" where
  "starts_with_pass s \<longleftrightarrow>
     ci_prefix ''PASS'' s \<and> (case drop 4 s of [] \<Rightarrow> True | c # _ \<Rightarrow> c \<in> set [LF, CR, CHR '' '', TAB, CHR ''.''])"

text \<open>The text behind a stray tag, at the second byte of its closing tag.\<close>

definition tag_end :: "string \<Rightarrow> string option" where
  "tag_end p =
     (if p \<noteq> [] \<and> hd p = CHR ''<'' \<and> (ci_prefix ''tool_call'' (tl p) \<or> ci_prefix ''parameter'' (tl p))
      then (case strstr p ''>'' of
              None \<Rightarrow> None
            | Some e \<Rightarrow> map_option tl (strstr e (if ci_prefix ''tool_call'' (tl p) then ''</tool_call>'' else ''</parameter>'')))
      else None)"

lemma tag_end_shorter: "tag_end p = Some q \<Longrightarrow> length q < length p"
proof -
  assume "tag_end p = Some q"
  then obtain e n r where "p \<noteq> []" "strstr p ''>'' = Some e" "strstr e n = Some r" "q = tl r"
    by (auto simp: tag_end_def split: if_splits option.splits)
  moreover from this have "length r \<le> length p" using strstr_length by (meson le_trans)
  ultimately show ?thesis by (cases p; cases r) auto
qed

function sanitize_role_output :: "string \<Rightarrow> string" where
  "sanitize_role_output p =
     (case p of
        [] \<Rightarrow> []
      | c # s \<Rightarrow> (case tag_end p of Some q \<Rightarrow> sanitize_role_output q | None \<Rightarrow> c # sanitize_role_output s))"
  by pat_completeness auto
termination by (relation "measure length") (auto dest: tag_end_shorter)

declare sanitize_role_output.simps [simp del]

section \<open>The phases\<close>

text \<open>One request with a system and a user message and no tools; the captured text is the middle component.\<close>

definition role_messages :: "string \<Rightarrow> string \<Rightarrow> string" where
  "role_messages sys user = msgs_role_text ''user'' user (msgs_system sys [])"

definition role_body :: "agent_env \<Rightarrow> string \<Rightarrow> string \<Rightarrow> string" where
  "role_body env sys user = request_body (round_model env []) (Some []) True (role_messages sys user)"

definition pse_round_once ::
  "agent_env \<Rightarrow> 'o chat_port \<Rightarrow> (nat \<Rightarrow> string \<Rightarrow> curl_outcome) \<Rightarrow> string \<Rightarrow> string \<Rightarrow> ('o, 's) agent_state \<Rightarrow>
   int \<times> string \<times> ('o, 's) agent_state" where
  "pse_round_once env port up sys user s =
     (case agent_round port (up (length (as_sent s)) (role_body env sys user)) (as_out s) [] zero_round of
        (rc, err, io) \<Rightarrow>
          let o1 = (if rc \<noteq> 0 then agent_emit_upstream_error port (io_out io) err else io_out io)
          in (rc, io_cap io, s\<lparr>as_out := o1, as_sent := as_sent s @ [role_body env sys user]\<rparr>))"

definition emit_note :: "'o chat_port \<Rightarrow> string \<Rightarrow> ('o, 's) agent_state \<Rightarrow> ('o, 's) agent_state" where
  "emit_note port msg s = s\<lparr>as_out := cp_event port (as_out s) ''note'' (Some msg)\<rparr>"

definition cycle_note :: "'o chat_port \<Rightarrow> nat \<Rightarrow> string \<Rightarrow> ('o, 's) agent_state \<Rightarrow> ('o, 's) agent_state" where
  "cycle_note port attempt what s = emit_note port (''PSE cycle '' @ nat_dec attempt @ ''/3 - '' @ what) s"

text \<open>
  The output of a role.  A buffer that was never written (\<open>had\<close> is false and nothing was captured) is replaced by a string
  literal, and the sanitiser stores its NUL there: the process is gone.
\<close>

definition role_output :: "bool \<Rightarrow> string \<Rightarrow> ('o, 's) agent_state \<Rightarrow> string option \<times> ('o, 's) agent_state" where
  "role_output had txt s =
     (if txt = [] \<and> \<not> had then (None, s\<lparr>as_crashed := True\<rparr>) else (Some (sanitize_role_output txt), s))"

text \<open>A role without tools: its request, the note, and its output unless the round failed or the client is gone.\<close>

definition role_phase ::
  "agent_env \<Rightarrow> 'o chat_port \<Rightarrow> (nat \<Rightarrow> string \<Rightarrow> curl_outcome) \<Rightarrow> nat \<Rightarrow> string \<Rightarrow> string \<Rightarrow> string \<Rightarrow> string \<Rightarrow> bool \<Rightarrow>
   ('o, 's) agent_state \<Rightarrow> string option \<times> ('o, 's) agent_state" where
  "role_phase env port up attempt title mark sys user had s =
     (let s1 = cycle_note port attempt title s
      in if \<not> cp_ok port (as_out s1) then (None, s1)
         else case pse_round_once env port up sys user s1 of
                (rc, txt, s2) \<Rightarrow>
                  let s3 = emit_note port mark s2
                  in if rc \<noteq> 0 \<or> \<not> cp_ok port (as_out s3) then (None, s3) else role_output had txt s3)"

definition planner_user :: "string \<Rightarrow> string option \<Rightarrow> string" where
  "planner_user task feedback =
     task @ (case set_env feedback of None \<Rightarrow> [] | Some f \<Rightarrow> feedback_head @ f @ feedback_tail) @ planner_task"

definition evaluator_user :: "string \<Rightarrow> string \<Rightarrow> string \<Rightarrow> string" where
  "evaluator_user task plan result =
     task_head @ task @ eval_plan_head @ plan @ eval_result_head @ result @ eval_task"

definition specialist_extra :: "string \<Rightarrow> string \<Rightarrow> string" where
  "specialist_extra extra plan = (if extra \<noteq> [] then extra @ [LF, LF] else []) @ plan_head @ plan"

definition specialist_request :: "ChatRequest \<Rightarrow> string \<Rightarrow> ChatRequest" where
  "specialist_request req task = req\<lparr>cr_message := task, cr_history := []\<rparr>"

text \<open>The agent loop with its text captured; the flag says whether the capture buffer has been written by now.\<close>

definition specialist_phase ::
  "('d, 'db) tool_env \<Rightarrow> tool_fn registry \<Rightarrow> agent_env \<Rightarrow> 'o chat_port \<Rightarrow> (nat \<Rightarrow> string \<Rightarrow> curl_outcome) \<Rightarrow> nat \<Rightarrow>
   ChatRequest \<Rightarrow> string \<Rightarrow> string \<Rightarrow> bool \<Rightarrow> ('o, 'db tool_state) agent_state \<Rightarrow> (string \<times> bool) option \<times> ('o, 'db tool_state) agent_state" where
  "specialist_phase ev reg env port up attempt spec soul extra had s =
     (let s1 = cycle_note port attempt ''Specialist (tools)'' s
      in if \<not> cp_ok port (as_out s1) then (None, s1)
         else
           let s2 = agent_run_ex ev reg env port up spec (Some soul) extra (s1\<lparr>as_cap := []\<rparr>)
           in if as_crashed s2 \<or> \<not> cp_ok port (as_out s2) then (None, s2)
              else (Some (if as_cap s2 = [] \<and> \<not> had then ''(no output)'' else as_cap s2, had \<or> as_cap s2 \<noteq> []), s2))"

section \<open>The cycles\<close>

record souls =
  so_planner :: string
  so_specialist :: string
  so_evaluator :: string

text \<open>One cycle with \<open>left\<close> more to come; whether the evaluator has passed the result.\<close>

fun pse_cycles ::
  "('d, 'db) tool_env \<Rightarrow> tool_fn registry \<Rightarrow> agent_env \<Rightarrow> 'o chat_port \<Rightarrow> (nat \<Rightarrow> string \<Rightarrow> curl_outcome) \<Rightarrow>
   souls \<Rightarrow> ChatRequest \<Rightarrow> string \<Rightarrow> nat \<Rightarrow> string option \<Rightarrow> bool \<Rightarrow> bool \<Rightarrow>
   ('o, 'db tool_state) agent_state \<Rightarrow> bool \<times> ('o, 'db tool_state) agent_state" where
  "pse_cycles ev reg env port up so req extra 0 feedback had_plan had_result s = (False, s)"
| "pse_cycles ev reg env port up so req extra (Suc left) feedback had_plan had_result s =
     (if \<not> cp_ok port (as_out s) then (False, s)
      else
        let attempt = PSE_MAX_ATTEMPTS - left; task = set_str (AGENT_MAX_MESSAGE + 1) (cr_message req)
        in case role_phase env port up attempt ''Planner'' ''[planner]'' (append_extra (so_planner so) extra)
                  (planner_user task feedback) had_plan s of
             (None, s1) \<Rightarrow> (False, s1)
           | (Some plan, s1) \<Rightarrow>
               (case specialist_phase ev reg env port up attempt (specialist_request req task) (so_specialist so)
                       (specialist_extra extra plan) had_result s1 of
                  (None, s2) \<Rightarrow> (False, s2)
                | (Some (result, had), s2) \<Rightarrow>
                    (case role_phase env port up attempt ''Evaluator'' ''[evaluator]'' (append_extra (so_evaluator so) extra)
                            (evaluator_user task plan result) False s2 of
                       (None, s3) \<Rightarrow> (False, s3)
                     | (Some verdict, s3) \<Rightarrow>
                         if starts_with_pass verdict then (True, s3)
                         else pse_cycles ev reg env port up so req extra left (Some verdict) True had
                                (cycle_note port attempt ''not PASS, retrying with feedback'' s3))))"

declare pse_cycles.simps(2) [simp del]

definition soul_or :: "string option \<Rightarrow> string \<Rightarrow> string" where
  "soul_or v dflt = (case v of None \<Rightarrow> dflt | Some x \<Rightarrow> x)"

definition read_souls :: "fs \<Rightarrow> string option \<Rightarrow> souls" where
  "read_souls fs root =
     \<lparr>so_planner = soul_or (pse_read_soul fs root ''planner'') PSE_PLANNER_DEFAULT,
      so_specialist = soul_or (pse_read_soul fs root ''specialist'') PSE_SPECIALIST_DEFAULT,
      so_evaluator = soul_or (pse_read_soul fs root ''evaluator'') PSE_EVALUATOR_DEFAULT\<rparr>"

definition pse_run ::
  "bool \<Rightarrow> ('d, 'db) tool_env \<Rightarrow> tool_fn registry \<Rightarrow> agent_env \<Rightarrow> 'o chat_port \<Rightarrow> (nat \<Rightarrow> string \<Rightarrow> curl_outcome) \<Rightarrow>
   string option \<Rightarrow> ChatRequest \<Rightarrow> string \<Rightarrow> ('o, 'db tool_state) agent_state \<Rightarrow> ('o, 'db tool_state) agent_state" where
  "pse_run slot ev reg env port up root req extra s =
     (if \<not> slot then s\<lparr>as_out := cp_event port (as_out s) ''error'' (Some ''server busy (AGENT_MAX_CONCURRENT reached), retry shortly'')\<rparr>
      else
        case pse_cycles ev reg env port up (read_souls (te_fs ev) root) req extra PSE_MAX_ATTEMPTS None False False s of
          (passed, s1) \<Rightarrow>
            if \<not> passed \<and> \<not> as_crashed s1 \<and> cp_ok port (as_out s1)
            then emit_note port ''PSE exhausted attempts; last Specialist output above is the result.'' s1 else s1)"

section \<open>What a run sends\<close>

lemma note_same [simp]:
  "as_ran (emit_note port m s) = as_ran s" "as_sent (emit_note port m s) = as_sent s" "as_ran (cycle_note port a w s) = as_ran s"
  "as_sent (cycle_note port a w s) = as_sent s"
  by (simp_all add: emit_note_def cycle_note_def)

lemma pse_round_once_sent:
  "pse_round_once env port up sys user s = (rc, tx, s') \<Longrightarrow> as_sent s' = as_sent s @ [role_body env sys user] \<and> as_ran s' = as_ran s"
  by (auto simp: pse_round_once_def Let_def split: prod.splits)

lemma role_output_same: "role_output had tx s = (r, s') \<Longrightarrow> as_sent s' = as_sent s \<and> as_ran s' = as_ran s"
  by (auto simp: role_output_def split: if_splits)

lemma role_phase_sent:
  assumes "role_phase env port up a title mark sys user had s = (r, s')"
  obtains "as_sent s' = as_sent s" "as_ran s' = as_ran s" | "as_sent s' = as_sent s @ [role_body env sys user]" "as_ran s' = as_ran s"
proof (cases "cp_ok port (as_out (cycle_note port a title s))")
  case True
  obtain rc tx s2 where r: "pse_round_once env port up sys user (cycle_note port a title s) = (rc, tx, s2)" by (metis prod.exhaust)
  have "as_sent s' = as_sent s2 \<and> as_ran s' = as_ran s2"
    using assms True r role_output_same [of had tx "emit_note port mark s2" r s'] by (auto simp: role_phase_def Let_def split: if_splits)
  with pse_round_once_sent [OF r] that(2) show ?thesis by simp
qed (use assms that(1) in \<open>auto simp: role_phase_def Let_def\<close>)

definition role_json :: "string \<Rightarrow> string \<Rightarrow> string \<Rightarrow> json" where
  "role_json model sys user =
     JObj [(''model'', JStr model), (''stream'', JAtom ''true''), (''tool_choice'', JStr ''none''),
       (''messages'', JArr (map msg_json [MText ''system'' sys, MText ''user'' user]))]"

lemma role_body_print: "role_body env sys user = jprint (role_json (round_model env []) sys user)"
proof -
  have k: "jkey ''tool_choice'' = json_quote ''tool_choice'' @ '':''" by (simp add: jkey_def plain_quote)
  have m: "role_messages sys user = open_text [MText ''system'' sys, MText ''user'' user]"
    by (simp add: role_messages_def msgs_system_open msgs_role_open plain_role_def)
  show ?thesis unfolding role_body_def m
    by (simp add: request_body_def role_json_def json_flag_def agent_keys k open_text_def)
qed

definition pse_request :: "agent_env \<Rightarrow> souls \<Rightarrow> ChatRequest \<Rightarrow> string \<Rightarrow> string \<Rightarrow> bool" where
  "pse_request env so req extra body \<longleftrightarrow>
     (\<exists>user. body = jprint (role_json (round_model env []) (append_extra (so_planner so) extra) user)) \<or>
     (\<exists>user. body = jprint (role_json (round_model env []) (append_extra (so_evaluator so) extra) user)) \<or>
     (\<exists>plan. agent_request env (specialist_request req (set_str (AGENT_MAX_MESSAGE + 1) (cr_message req))) (so_specialist so)
        (specialist_extra extra plan) body)"

lemma specialist_phase_sent:
  fixes s :: "('o, 'db tool_state) agent_state"
  assumes "reg_reach reg" and "te_alloc ev = (\<lambda>_. True)" and "cr_history spec = []"
    and "specialist_phase ev reg env port up a spec soul extra had s = (r, s')"
  obtains sent ran where "as_sent s' = as_sent s @ sent" "as_ran s' = as_ran s @ ran" "length sent \<le> 189" "length ran \<le> 504"
    "list_all (agent_request env spec soul extra) sent"
proof (cases "cp_ok port (as_out (cycle_note port a ''Specialist (tools)'' s))")
  case True
  define s1 where "s1 = (cycle_note port a ''Specialist (tools)'' s)\<lparr>as_cap := []\<rparr>"
  have s1: "as_sent s1 = as_sent s" "as_ran s1 = as_ran s" by (simp_all add: s1_def)
  define s2 where "s2 = agent_run_ex ev reg env port up spec (Some soul) extra s1"
  have e: "s' = s2" using assms(4) True by (auto simp: specialist_phase_def Let_def s1_def [symmetric] s2_def [symmetric] split: if_splits)
  obtain sent ran where b: "as_sent s2 = as_sent s @ sent" "as_ran s2 = as_ran s @ ran" "length sent \<le> 189" "length ran \<le> 504"
    using agent_run_ex_bounds [of ev reg env port up spec "Some soul" extra s1] unfolding s2_def [symmetric] s1 by metis
  have h: "list_all (\<lambda>h. plain_role (fst h)) (cr_history spec)" by (simp add: assms(3))
  have "s2 = agent_run_inner ev reg env port up spec soul extra (agent_max_rounds (ae_rounds env)) s1"
    by (simp add: s2_def agent_run_ex_def)
  with agent_run_inner_requests [OF assms(1,2) h, of env port up soul extra "agent_max_rounds (ae_rounds env)" s1] b(1) s1(1)
  have "list_all (agent_request env spec soul extra) sent" by auto
  with b e that show ?thesis by blast
next
  case False
  then show ?thesis using assms(4) that [of "[]" "[]"] by (auto simp: specialist_phase_def Let_def)
qed

text \<open>What a part of a run adds: at most \<open>n\<close> requests and \<open>m\<close> calls, every request one of the orchestrator's.\<close>

definition adds ::
  "(string \<Rightarrow> bool) \<Rightarrow> nat \<Rightarrow> nat \<Rightarrow> ('o, 's) agent_state \<Rightarrow> ('o, 's) agent_state \<Rightarrow> bool" where
  "adds P n m s s' \<longleftrightarrow> (\<exists>sent ran. as_sent s' = as_sent s @ sent \<and> as_ran s' = as_ran s @ ran \<and> length sent \<le> n \<and> length ran \<le> m \<and> list_all P sent)"

lemma adds_refl [simp]: "adds P n m s s"
  by (auto simp: adds_def)

lemma adds_mono: "adds P n m s s' \<Longrightarrow> n \<le> n' \<Longrightarrow> m \<le> m' \<Longrightarrow> adds P n' m' s s'"
  unfolding adds_def by (meson le_trans)

lemma adds_trans:
  assumes "adds P n m s s1" and "adds P n' m' s1 s2"
  shows "adds P (n + n') (m + m') s s2"
proof -
  obtain a b where "as_sent s1 = as_sent s @ a" "as_ran s1 = as_ran s @ b" "length a \<le> n" "length b \<le> m" "list_all P a"
    using assms(1) unfolding adds_def by blast
  moreover obtain a' b' where "as_sent s2 = as_sent s1 @ a'" "as_ran s2 = as_ran s1 @ b'" "length a' \<le> n'" "length b' \<le> m'" "list_all P a'"
    using assms(2) unfolding adds_def by blast
  ultimately have "as_sent s2 = as_sent s @ (a @ a') \<and> as_ran s2 = as_ran s @ (b @ b') \<and> length (a @ a') \<le> n + n' \<and>
      length (b @ b') \<le> m + m' \<and> list_all P (a @ a')" by simp
  then show ?thesis unfolding adds_def by blast
qed

lemma adds_cycle_note [simp]: "adds P n m s (cycle_note port a w s')= adds P n m s s'" "adds P n m s (emit_note port w s')= adds P n m s s'"
  by (simp_all add: adds_def)

lemma role_phase_adds:
  assumes "role_phase env port up a title mark sys user had s = (r, s')" and "P (role_body env sys user)"
  shows "adds P 1 0 s s'"
  using assms(1) by (cases rule: role_phase_sent) (use assms(2) in \<open>auto simp: adds_def\<close>)

lemma pse_cycles_adds:
  fixes s :: "('o, 'db tool_state) agent_state"
  assumes "reg_reach reg" and "te_alloc ev = (\<lambda>_. True)"
  shows "adds (pse_request env so req extra) (191 * left) (504 * left) s (snd (pse_cycles ev reg env port up so req extra left fb hp hr s))"
proof (induction left arbitrary: fb hp hr s)
  case (Suc left)
  let ?P = "pse_request env so req extra"
  let ?t = "set_str (AGENT_MAX_MESSAGE + 1) (cr_message req)"
  let ?a = "PSE_MAX_ATTEMPTS - left"
  let ?run = "snd (pse_cycles ev reg env port up so req extra (Suc left) fb hp hr s)"
  obtain p s1 where 1: "role_phase env port up ?a ''Planner'' ''[planner]'' (append_extra (so_planner so) extra) (planner_user ?t fb) hp s = (p, s1)"
    by (metis prod.exhaust)
  have a1: "adds ?P 1 0 s s1" using role_phase_adds [OF 1, of ?P] by (auto simp: pse_request_def role_body_print)
  show ?case
  proof (cases "cp_ok port (as_out s)")
    case ok: True
    show ?thesis
    proof (cases p)
      case None
      then have "?run = s1" using ok 1 by (simp add: pse_cycles.simps(2) Let_def)
      then show ?thesis using adds_mono [OF a1] by simp
    next
      case p: (Some plan)
      let ?spec = "specialist_request req ?t"
      obtain q s2 where 2: "specialist_phase ev reg env port up ?a ?spec (so_specialist so) (specialist_extra extra plan) hr s1 = (q, s2)"
        by (metis prod.exhaust)
      have "cr_history ?spec = []" by (simp add: specialist_request_def)
      from specialist_phase_sent [OF assms this 2] obtain sent ran where
        "as_sent s2 = as_sent s1 @ sent" "as_ran s2 = as_ran s1 @ ran" "length sent \<le> 189" "length ran \<le> 504"
        and w: "list_all (agent_request env ?spec (so_specialist so) (specialist_extra extra plan)) sent" by metis
      moreover have "list_all ?P sent" using w by (auto simp: list_all_iff pse_request_def)
      ultimately have "adds ?P 189 504 s1 s2" unfolding adds_def by blast
      with a1 have a2: "adds ?P 190 504 s s2" using adds_trans [of ?P 1 0 s s1 189 504 s2] by simp
      show ?thesis
      proof (cases q)
        case None
        then have "?run = s2" using ok 1 p 2 by (simp add: pse_cycles.simps(2) Let_def)
        then show ?thesis using adds_mono [OF a2] by simp
      next
        case q: (Some rh)
        obtain result had where rh: "rh = (result, had)" by (cases rh)
        obtain v s3 where 3: "role_phase env port up ?a ''Evaluator'' ''[evaluator]'' (append_extra (so_evaluator so) extra)
            (evaluator_user ?t plan result) False s2 = (v, s3)" by (metis prod.exhaust)
        have "adds ?P 1 0 s2 s3" using role_phase_adds [OF 3, of ?P] by (auto simp: pse_request_def role_body_print)
        with a2 have a3: "adds ?P 191 504 s s3" using adds_trans [of ?P 190 504 s s2 1 0 s3] by simp
        show ?thesis
        proof (cases "\<exists>x. v = Some x \<and> \<not> starts_with_pass x")
          case False
          then have "?run = s3" using ok 1 p 2 q rh 3 by (cases v) (auto simp: pse_cycles.simps(2) Let_def)
          then show ?thesis using adds_mono [OF a3] by simp
        next
          case True
          then obtain x where x: "v = Some x" "\<not> starts_with_pass x" by blast
          define s4 where "s4 = cycle_note port ?a ''not PASS, retrying with feedback'' s3"
          have "?run = snd (pse_cycles ev reg env port up so req extra left (Some x) True had s4)"
            using ok 1 p 2 q rh 3 x by (simp add: pse_cycles.simps(2) Let_def s4_def)
          moreover have "adds ?P 191 504 s s4" using a3 by (simp add: s4_def)
          ultimately show ?thesis using adds_trans [OF _ Suc.IH [of s4 "Some x" True had]] by simp
        qed
      qed
    qed
  qed (simp add: pse_cycles.simps(2))
qed simp

lemma pse_run_adds:
  fixes s :: "('o, 'db tool_state) agent_state"
  assumes "reg_reach reg" and "te_alloc ev = (\<lambda>_. True)"
  shows "adds (pse_request env (read_souls (te_fs ev) root) req extra) 573 1512 s (pse_run slot ev reg env port up root req extra s)"
proof -
  let ?so = "read_souls (te_fs ev) root"
  have "adds (pse_request env ?so req extra) 573 1512 s (snd (pse_cycles ev reg env port up ?so req extra PSE_MAX_ATTEMPTS None False False s))"
    using pse_cycles_adds [OF assms, of env ?so req extra PSE_MAX_ATTEMPTS] by (simp add: PSE_MAX_ATTEMPTS_def)
  then show ?thesis
    by (cases slot) (auto simp: pse_run_def adds_def [of _ _ _ s "s\<lparr>as_out := _\<rparr>"] split: prod.split)
qed

text \<open>
  (C28) What the orchestrator sends.  Whatever the model answers, a run makes at most 573 requests and 1512 tool calls, and
  every request is either a planner or evaluator request (its role prompt, one user message, no tools and
  \<open>tool_choice\<close> none) or a well-formed request of the agent loop for the specialist, with the plan in its
  system prompt and no history: the roles without tools are never offered any.
\<close>

theorem pse_requests:
  fixes s :: "('o, 'db tool_state) agent_state"
  assumes "reg_reach reg" and "te_alloc ev = (\<lambda>_. True)"
  shows "\<exists>sent ran. as_sent (pse_run slot ev reg env port up root req extra s) = as_sent s @ sent \<and>
    as_ran (pse_run slot ev reg env port up root req extra s) = as_ran s @ ran \<and> length sent \<le> 573 \<and> length ran \<le> 1512 \<and>
    list_all (pse_request env (read_souls (te_fs ev) root) req extra) sent"
  using pse_run_adds [OF assms, of env root req extra s slot port up] unfolding adds_def .

theorem pse_requests_witness:
  "\<exists>sent ran. as_sent (pse_run True demo_tool_env empty_registry demo_agent_env list_port (\<lambda>_ _. UpForkFailed) None demo_request [] demo_state) = [] @ sent \<and>
    as_ran (pse_run True demo_tool_env empty_registry demo_agent_env list_port (\<lambda>_ _. UpForkFailed) None demo_request [] demo_state) = [] @ ran \<and>
    length sent \<le> 573 \<and> length ran \<le> 1512 \<and>
    list_all (pse_request demo_agent_env (read_souls (te_fs demo_tool_env) None) demo_request []) sent"
proof -
  have "te_alloc demo_tool_env = (\<lambda>_. True)" "as_sent demo_state = []" "as_ran demo_state = []"
    by (simp_all add: demo_tool_env_def demo_state_def)
  with pse_requests [OF reach_init, of demo_tool_env True demo_agent_env list_port "\<lambda>_ _. UpForkFailed" None demo_request "[]" demo_state]
  show ?thesis by (simp only:)
qed

section \<open>Findings\<close>

text \<open>The scan goes on at the second byte of a closing tag: the rest of the tag stays in the text.\<close>

theorem closing_tag_left_in_output:
  "sanitize_role_output ''a<tool_call>x</tool_call>b'' = ''a/tool_call>b''"
  by code_simp

text \<open>A role that answers with nothing kills the process.\<close>

theorem silent_role_crashes: "role_output False [] s = (None, s\<lparr>as_crashed := True\<rparr>)"
  by (simp add: role_output_def)

text \<open>The root is looked up once: a souls directory that appears later is not used, whatever the file system then holds.\<close>

theorem souls_root_cached: "souls_root fs2 env2 (Some (souls_root fs1 env1 None)) = find_souls fs1 env1"
  by (simp add: souls_root_def)

text \<open>
  A planner whose request fails ends the run after one attempt, and the client is told that the attempts are exhausted
  and to look at a specialist output that does not exist.
\<close>

theorem failed_planner_reported_as_exhausted:
  "map fst (as_out (pse_run True demo_tool_env empty_registry demo_agent_env list_port (\<lambda>_ _. UpForkFailed) None demo_request [] demo_state)) =
     [''note'', ''error'', ''note'', ''note''] \<and>
   snd (last (as_out (pse_run True demo_tool_env empty_registry demo_agent_env list_port (\<lambda>_ _. UpForkFailed) None demo_request [] demo_state))) =
     Some ''PSE exhausted attempts; last Specialist output above is the result.''"
proof -
  have p: "cp_ok list_port x" "cp_event list_port o' a b = o' @ [(a, b)]" for x o' a b by (simp_all add: list_port_def)
  have s: "as_out demo_state = []" "as_crashed demo_state = False" by (simp_all add: demo_state_def)
  have "PSE_MAX_ATTEMPTS = Suc 2" by (simp add: PSE_MAX_ATTEMPTS_def)
  then show ?thesis unfolding pse_run_def \<open>PSE_MAX_ATTEMPTS = Suc 2\<close> pse_cycles.simps(2)
    by (simp add: Let_def role_phase_def pse_round_once_def agent_round_def start_io_def
        agent_emit_upstream_error_def emit_note_def cycle_note_def p s)
qed

end
