(* ===== verification/Chat_Request.thy ===== *)
theory Chat_Request
  imports Pse
begin

text \<open>
  The parts of \<open>src/src/agent/llm.c\<close> around the handler: the request body, the \<open>.env\<close> file, and the demo engine that
  answers without a model.  The character arrays of a request are strings; what the JSON reader stored up to the
  first NUL is what the C code sees.
\<close>

section \<open>The request body\<close>

definition empty_chat :: ChatRequest where
  "empty_chat = \<lparr>cr_message = [], cr_history = [], cr_session_id = [], cr_rounds = 0, cr_tools = [], cr_model = [], cr_system = []\<rparr>"

text \<open>The digits of a number and the value an \<open>int\<close> accumulates.\<close>

fun read_rounds :: "string \<Rightarrow> int \<Rightarrow> int \<times> string" where
  "read_rounds [] v = (v, [])"
| "read_rounds (c # p) v = (if isdigit c then read_rounds p (wrap32 (v * 10 + int (code c - 48))) else (v, c # p))"

function tool_items :: "string \<Rightarrow> string list \<Rightarrow> (string list \<times> string) option" where
  "tool_items p0 got =
     (case jws p0 of
        [] \<Rightarrow> None
      | c # p \<Rightarrow>
          if c = CHR '']'' then Some (got, p)
          else if c = CHR '','' then tool_items p got
          else if c \<noteq> DQUOTE \<or> length got \<ge> AGENT_MAX_TOOL_FILTER then None
          else (case jread_string (AGENT_TOOL_NAME_MAX + 1) (c # p) of
                  None \<Rightarrow> None
                | Some (s, q) \<Rightarrow> tool_items (skip_comma q) (got @ [cstr s])))"
  by pat_completeness auto
termination
proof (relation "measure (\<lambda>(p, g). length p)", simp, goal_cases)
  case (1 p0 got c p)
  then show ?case using length_jws [of p0] by auto
next
  case (2 p0 got c p sq s q)
  then show ?case
    using length_jws [of p0] jread_string_shorter [of "AGENT_TOOL_NAME_MAX + 1" "c # p" s q] length_skip_comma [of q] by auto
qed

declare tool_items.simps [simp del]

text \<open>The members of a history entry, behind its opening brace; \<open>None\<close> for a member that is absent.\<close>

function entry_members :: "string \<Rightarrow> string option \<Rightarrow> string option \<Rightarrow> (string option \<times> string option \<times> string) option" where
  "entry_members p0 role content =
     (case jws p0 of
        [] \<Rightarrow> None
      | c # p \<Rightarrow>
          if c = CHR ''}'' then Some (role, content, p)
          else (case member_start 32 (c # p) of
                  None \<Rightarrow> None
                | Some (hk, v) \<Rightarrow>
                    if hk = ''role'' then
                      (case jread_string 16 v of None \<Rightarrow> None | Some (s, q) \<Rightarrow> entry_members (skip_comma q) (Some (cstr s)) content)
                    else if hk = ''content'' then
                      (case jread_string (AGENT_HISTORY_MAX_CHARS + 1) v of
                         None \<Rightarrow> None
                       | Some (s, q) \<Rightarrow> entry_members (skip_comma q) role (Some (cstr s)))
                    else (case jskip_value v of None \<Rightarrow> None | Some q \<Rightarrow> entry_members (skip_comma q) role content)))"
  by pat_completeness auto
termination
proof (relation "measure (\<lambda>(p, r, c). length p)", simp, goal_cases)
  case (1 p0 role content c p mv hk v sq s q)
  then show ?case
    using length_jws [of p0] member_start_shorter [of 32 "c # p" hk v] jread_string_shorter [of 16 v s q] length_skip_comma [of q] by auto
next
  case (2 p0 role content c p mv hk v sq s q)
  then show ?case
    using length_jws [of p0] member_start_shorter [of 32 "c # p" hk v] jread_string_shorter [of "AGENT_HISTORY_MAX_CHARS + 1" v s q]
      length_skip_comma [of q] by auto
next
  case (3 p0 role content c p mv hk v q)
  then show ?case
    using length_jws [of p0] member_start_shorter [of 32 "c # p" hk v] jskip_value_shorter [of v q] length_skip_comma [of q] by auto
qed

declare entry_members.simps [simp del]

text \<open>The last twelve entries are kept.\<close>

definition push_history :: "string option \<Rightarrow> string option \<Rightarrow> (string \<times> string) list \<Rightarrow> (string \<times> string) list" where
  "push_history role content h =
     (case (role, content) of
        (Some r, Some c) \<Rightarrow>
          if r = ''user'' \<or> r = ''assistant'' then (if length h = AGENT_MAX_HISTORY then tl h else h) @ [(r, c)] else h
      | _ \<Rightarrow> h)"

text \<open>One turn of the loop: it ends, or goes on behind a member.\<close>

lemma entry_members_cases:
  assumes "entry_members p0 role content = Some (r, c, q)"
  obtains (stop) "jws p0 = CHR ''}'' # q" "r = role" "c = content"
  | (turn) d p hk v role' content' q' where "jws p0 = d # p" "member_start 32 (d # p) = Some (hk, v)" "length q' \<le> length v"
      "entry_members (skip_comma q') role' content' = Some (r, c, q)"
      "content' = content \<or> (\<exists>s. jread_string (AGENT_HISTORY_MAX_CHARS + 1) v = Some (s, q') \<and> content' = Some (cstr s))"
proof -
  from assms obtain d p where p: "jws p0 = d # p" by (auto simp: entry_members.simps [of p0] split: list.splits)
  show ?thesis
  proof (cases "d = CHR ''}''")
    case True
    with assms p stop show ?thesis by (simp add: entry_members.simps [of p0])
  next
    case False
    with assms p obtain hk v where m: "member_start 32 (d # p) = Some (hk, v)"
      by (auto simp: entry_members.simps [of p0] split: option.splits)
    consider (role) s q' where "jread_string 16 v = Some (s, q')" "entry_members (skip_comma q') (Some (cstr s)) content = Some (r, c, q)"
      | (content) s q' where "jread_string (AGENT_HISTORY_MAX_CHARS + 1) v = Some (s, q')"
          "entry_members (skip_comma q') role (Some (cstr s)) = Some (r, c, q)"
      | (other) q' where "jskip_value v = Some q'" "entry_members (skip_comma q') role content = Some (r, c, q)"
      using assms p m False by (auto simp: entry_members.simps [of p0] split: option.splits if_splits)
    then show ?thesis
    proof cases
      case role
      then show ?thesis using turn [OF p m _ role(2)] jread_string_shorter [OF role(1)] by simp
    next
      case content
      then show ?thesis using turn [OF p m _ content(2)] jread_string_shorter [OF content(1)] by simp
    next
      case other
      then show ?thesis using turn [OF p m _ other(2)] jskip_value_shorter [OF other(1)] by simp
    qed
  qed
qed

lemma entry_turn_shorter:
  "jws p0 = d # p \<Longrightarrow> member_start 32 (d # p) = Some (hk, v) \<Longrightarrow> length q' \<le> length v \<Longrightarrow> length (skip_comma q') < length p0"
  using member_start_shorter [of 32 "d # p" hk v] length_jws [of p0] length_skip_comma [of q'] by simp

lemma entry_members_shorter: "entry_members p r c = Some (r', c', q) \<Longrightarrow> length q < length p"
proof (induction "length p" arbitrary: p r c rule: less_induct)
  case less
  from less.prems show ?case
  proof (cases rule: entry_members_cases)
    case stop
    then show ?thesis using length_jws [of p] by simp
  next
    case (turn d p1 hk v role' content' q')
    note l = entry_turn_shorter [OF turn(1-3)]
    with less.hyps [OF l turn(4)] show ?thesis by simp
  qed
qed

function history_items :: "string \<Rightarrow> (string \<times> string) list \<Rightarrow> ((string \<times> string) list \<times> string) option" where
  "history_items p0 h =
     (case jws p0 of
        [] \<Rightarrow> None
      | c # p \<Rightarrow>
          if c = CHR '']'' then Some (h, p)
          else if c = CHR '','' then history_items p h
          else if c \<noteq> CHR ''{'' then None
          else (case entry_members p None None of
                  None \<Rightarrow> None
                | Some (role, content, q) \<Rightarrow> history_items (skip_comma q) (push_history role content h)))"
  by pat_completeness auto
termination
proof (relation "measure (\<lambda>(p, h). length p)", simp, goal_cases)
  case (1 p0 h c p)
  then show ?case using length_jws [of p0] by auto
next
  case (2 p0 h c p rcq role cq content q)
  then show ?case using length_jws [of p0] entry_members_shorter [of p None None role content q] length_skip_comma [of q] by auto
qed

declare history_items.simps [simp del]

text \<open>One member of the body: the request with it, and the rest of the text.\<close>

definition read_field :: "nat \<Rightarrow> string \<Rightarrow> (string \<Rightarrow> ChatRequest) \<Rightarrow> (ChatRequest \<times> string) option" where
  "read_field n p upd = (case jread_string n p of None \<Rightarrow> None | Some (s, q) \<Rightarrow> Some (upd (cstr s), q))"

definition parse_member :: "string \<Rightarrow> string \<Rightarrow> ChatRequest \<Rightarrow> (ChatRequest \<times> string) option" where
  "parse_member key p cr =
     (if key = ''message'' then read_field (AGENT_MAX_MESSAGE + 1) p (\<lambda>s. cr\<lparr>cr_message := s\<rparr>)
      else if key = ''rounds'' then
        (case read_rounds p 0 of (v, q) \<Rightarrow> if v < 1 \<or> v > 64 then None else Some (cr\<lparr>cr_rounds := v\<rparr>, q))
      else if key = ''tools'' then
        (if p = [] \<or> hd p \<noteq> CHR ''['' then None
         else map_option (\<lambda>(ts, q). (cr\<lparr>cr_tools := ts\<rparr>, q)) (tool_items (tl p) []))
      else if key = ''history'' then
        (if p = [] \<or> hd p \<noteq> CHR ''['' then None
         else map_option (\<lambda>(h, q). (cr\<lparr>cr_history := h\<rparr>, q)) (history_items (tl p) (cr_history cr)))
      else if key = ''model'' then read_field (AGENT_MODEL_MAX + 1) p (\<lambda>s. cr\<lparr>cr_model := s\<rparr>)
      else if key = ''system'' then read_field (AGENT_SYSTEM_MAX + 1) p (\<lambda>s. cr\<lparr>cr_system := s\<rparr>)
      else map_option (\<lambda>q. (cr, q)) (jskip_value p))"

lemma tool_items_shorter: "tool_items p g = Some (ts, q) \<Longrightarrow> length q < length p"
proof (induction p g rule: tool_items.induct)
  case (1 p0 got)
  from 1(3) obtain c p where p: "jws p0 = c # p" by (auto simp: tool_items.simps [of p0] split: list.splits)
  have len: "length (c # p) \<le> length p0" using length_jws [of p0] p by simp
  consider "c = CHR '']''" "q = p" | "c \<noteq> CHR '']''" "c = CHR '',''" "tool_items p got = Some (ts, q)"
    | s r where "c \<noteq> CHR '']''" "c \<noteq> CHR '',''" "\<not> (c \<noteq> DQUOTE \<or> length got \<ge> AGENT_MAX_TOOL_FILTER)"
        "jread_string (AGENT_TOOL_NAME_MAX + 1) (c # p) = Some (s, r)" "tool_items (skip_comma r) (got @ [cstr s]) = Some (ts, q)"
    using 1(3) p by (auto simp: tool_items.simps [of p0] split: if_splits option.splits)
  then show ?case
  proof cases
    case 2
    from 1(1) [OF p 2] len show ?thesis by simp
  next
    case 3
    from 1(2) [OF p 3(1-4) refl 3(5)] len jread_string_shorter [OF 3(4)] length_skip_comma [of r] show ?thesis by simp
  qed (use len in simp)
qed

lemma history_items_shorter: "history_items p h = Some (h', q) \<Longrightarrow> length q < length p"
proof (induction p h rule: history_items.induct)
  case (1 p0 h)
  from 1(3) obtain c p where p: "jws p0 = c # p" by (auto simp: history_items.simps [of p0] split: list.splits)
  have len: "length (c # p) \<le> length p0" using length_jws [of p0] p by simp
  consider "c = CHR '']''" "q = p" | "c \<noteq> CHR '']''" "c = CHR '',''" "history_items p h = Some (h', q)"
    | ro co r where "c \<noteq> CHR '']''" "c \<noteq> CHR '',''" "\<not> c \<noteq> CHR ''{''" "entry_members p None None = Some (ro, co, r)"
        "history_items (skip_comma r) (push_history ro co h) = Some (h', q)"
    using 1(3) p by (auto simp: history_items.simps [of p0] split: if_splits option.splits)
  then show ?case
  proof cases
    case 2
    from 1(1) [OF p 2] len show ?thesis by simp
  next
    case 3
    from 1(2) [OF p 3(1-4) refl refl 3(5)] len entry_members_shorter [OF 3(4)] length_skip_comma [of r] show ?thesis by simp
  qed (use len in simp)
qed

lemma read_rounds_shorter: "read_rounds p v = (w, q) \<Longrightarrow> length q \<le> length p"
  by (induction p v rule: read_rounds.induct) (auto split: if_splits)

lemma parse_member_shorter: "parse_member key p cr = Some (cr', q) \<Longrightarrow> length q \<le> length p"
proof -
  assume a: "parse_member key p cr = Some (cr', q)"
  have t: "length q \<le> length p" if "p \<noteq> []" "tool_items (tl p) [] = Some (ts, q)" for ts
    using tool_items_shorter [OF that(2)] that(1) by (cases p) auto
  have h: "length q \<le> length p" if "p \<noteq> []" "history_items (tl p) (cr_history cr) = Some (h, q)" for h
    using history_items_shorter [OF that(2)] that(1) by (cases p) auto
  have f: "length q \<le> length p" if "read_field n p u = Some (cr', q)" for n u
    using that jread_string_shorter [of n p] by (fastforce simp: read_field_def split: option.splits)
  show ?thesis using a
    by (auto simp: parse_member_def split: if_splits prod.splits intro: f t h dest: read_rounds_shorter jskip_value_shorter)
qed

function parse_members :: "string \<Rightarrow> ChatRequest \<Rightarrow> ChatRequest option" where
  "parse_members p0 cr =
     (case jws p0 of
        [] \<Rightarrow> None
      | c # p \<Rightarrow>
          if c = CHR ''}'' then Some cr
          else (case member_start 32 (c # p) of
                  None \<Rightarrow> None
                | Some (key, v) \<Rightarrow>
                    (case parse_member key v cr of
                       None \<Rightarrow> None
                     | Some (cr1, q) \<Rightarrow>
                         (case jws q of
                            [] \<Rightarrow> None
                          | d # r \<Rightarrow> if d = CHR '','' then parse_members r cr1 else if d = CHR ''}'' then Some cr1 else None))))"
  by pat_completeness auto
termination
proof (relation "measure (\<lambda>(p, cr). length p)", simp, goal_cases)
  case (1 p0 cr c p mv key v cq cr1 q d r)
  then show ?case
    using length_jws [of p0] member_start_shorter [of 32 "c # p" key v] parse_member_shorter [of key v cr cr1 q] length_jws [of q] by auto
qed

declare parse_members.simps [simp del]

definition chat_parse_body :: "string option \<Rightarrow> ChatRequest option" where
  "chat_parse_body body =
     (case body of
        None \<Rightarrow> None
      | Some b \<Rightarrow> (case jws b of [] \<Rightarrow> None | c # p \<Rightarrow> if c \<noteq> CHR ''{'' then None else parse_members p empty_chat))"

section \<open>The environment file\<close>

definition unquote :: "string \<Rightarrow> string" where
  "unquote v = (if length v \<ge> 2 \<and> hd v = last v \<and> (hd v = DQUOTE \<or> hd v = CHR 0x27) then butlast (tl v) else v)"

text \<open>A variable that is set already, even to nothing, wins; a nameless one cannot be set.\<close>

definition env_line :: "(string \<Rightarrow> string option) \<Rightarrow> string \<Rightarrow> string \<Rightarrow> string option" where
  "env_line env buf =
     (let s = dropWhile (\<lambda>c. c = CHR '' '' \<or> c = TAB) (cstr buf)
      in if s = [] \<or> hd s = CHR ''#'' \<or> hd s = LF then env
         else case strchr s (CHR ''='') of
                None \<Rightarrow> env
              | Some e \<Rightarrow>
                  let name = trim_whitespace (take (length s - length e) s)
                  in if name = [] \<or> env name \<noteq> None then env else env(name := Some (unquote (trim_whitespace (tl e)))))"

definition llm_env_init :: "string option \<Rightarrow> (string \<Rightarrow> string option) \<Rightarrow> string \<Rightarrow> string option" where
  "llm_env_init dotenv env = (case dotenv of None \<Rightarrow> env | Some content \<Rightarrow> foldl env_line env (fgets_lines 512 content))"

definition llm_env_or :: "(string \<Rightarrow> string option) \<Rightarrow> string \<Rightarrow> string \<Rightarrow> string" where
  "llm_env_or env name dflt = (case env name of None \<Rightarrow> dflt | Some v \<Rightarrow> if v = [] then dflt else v)"

section \<open>The demo engine\<close>

definition chat_token_len :: "string \<Rightarrow> nat" where
  "chat_token_len p = (if p \<noteq> [] \<and> gap (hd p) then length (takeWhile gap p) else length (takeWhile (\<lambda>c. \<not> gap c) p))"

definition starts_with_word :: "string \<Rightarrow> string \<Rightarrow> bool" where
  "starts_with_word m w \<longleftrightarrow> take (length w) m = w \<and> (case drop (length w) m of [] \<Rightarrow> True | c # _ \<Rightarrow> \<not> isalpha c)"

definition is_question :: "string \<Rightarrow> string \<Rightarrow> bool" where
  "is_question m trimmed \<longleftrightarrow> (trimmed \<noteq> [] \<and> last trimmed = CHR ''?'') \<or>
     list_ex (starts_with_word m)
       [''what'', ''why'', ''how'', ''when'', ''who'', ''where'', ''which'', ''can'', ''could'', ''does'', ''do'', ''is'', ''are'', ''tell'']"

function count_words :: "string \<Rightarrow> nat" where
  "count_words w =
     (if w = [] then 0 else (if hd w \<noteq> CHR '' '' \<and> hd w \<noteq> TAB then 1 else 0) + count_words (drop (chat_token_len w) w))"
  by pat_completeness auto
termination
proof (relation "measure length", simp, goal_cases)
  case (1 w)
  then show ?case by (cases w) (auto simp: chat_token_len_def)
qed

declare count_words.simps [simp del]

definition hello_reply :: string where
  "hello_reply =
     ''Hello! This reply is generated locally by agent-httpd'' @ [CHR 0x27] @ ''s C demo engine '' @ uni [0x2014] @
     '' no external calls. It is streamed token-by-token over SSE straight from the server process, exactly like a real LLM reply would be. Ask me about the server, or set LLM_API_KEY to talk to a real model.''"

definition server_reply :: string where
  "server_reply =
     ''agent-httpd is a ~3,000-line teaching HTTP server in C: keep-alive, a prefork worker pool with SCM_RIGHTS fd passing, FastCGI client+server, ETag/304, sendfile with Range/206, per-IP rate limiting and graceful drain. This chat page now rides the server''
     @ [CHR 0x27] @ ''s native SSE handler in src/agent/llm.c '' @ uni [0x2014] @
     '' the model call is forked curl, the envelope is written by C.''"

definition stream_reply :: string where
  "stream_reply =
     ''The stream works like this: the browser POSTs to /react/api/chat, the C server forks curl against the OpenAI-compatible endpoint, re-emits each upstream delta as a text/event-stream event, and the page reads them with fetch + ReadableStream. Tokens appear one by one because every delta is flushed the moment it arrives.''"

definition question_reply :: string where
  "question_reply =
     ''Good question '' @ uni [0x2014] @
     '' but I am the offline demo engine, so my answer is canned: I detect questions, echo a bit of structure, and pace the words to demonstrate streaming. Try asking about agent-httpd, streaming or SSE ''
     @ uni [0x2014] @ '' those I know. For real answers, set LLM_API_KEY and LLM_MODEL.''"

definition echo_middle :: string where
  "echo_middle =
     [DQUOTE] @ '' '' @ uni [0x2014] @ '' ''"

definition echo_end :: string where
  "echo_end =
     '' words received. As the demo engine I mostly mirror and pace; ask about agent-httpd, streaming or SSE, or plug in a real model via LLM_API_KEY.''"


definition echo_reply :: "string \<Rightarrow> string \<Rightarrow> string" where
  "echo_reply message trimmed =
     ''You said: '' @ [DQUOTE] @ take 80 message @ (if length message > 80 then ''...'' else []) @ echo_middle @
     nat_dec (count_words trimmed) @ echo_end"

definition canned_reply :: "string \<Rightarrow> string" where
  "canned_reply message =
     (let m = map tolower (take AGENT_MAX_MESSAGE message); trimmed = trim_whitespace (take AGENT_MAX_MESSAGE message)
      in take 1399
           (if list_ex (starts_with_word m) [''hi'', ''hello'', ''hey'', ''yo''] then hello_reply
            else if strstr m ''agent-httpd'' \<noteq> None \<or> strstr m ''server'' \<noteq> None then server_reply
            else if strstr m ''stream'' \<noteq> None \<or> strstr m ''sse'' \<noteq> None then stream_reply
            else if is_question m trimmed then question_reply
            else echo_reply message trimmed))"

definition skip_tokens :: "int \<Rightarrow> string \<Rightarrow> string" where
  "skip_tokens r p =
     (let q = drop (chat_token_len p) p in if r mod 5 < 2 then drop (chat_token_len q) q else q)"

lemma skip_tokens_shorter: "p \<noteq> [] \<Longrightarrow> length (skip_tokens r p) < length p"
  by (cases p) (auto simp: skip_tokens_def Let_def chat_token_len_def intro: le_less_trans [OF diff_le_self])

text \<open>One or two tokens per event; \<open>draw k\<close> is the value of the \<open>k\<close>-th call of \<open>rand\<close>.\<close>

function demo_loop :: "'o chat_port \<Rightarrow> (nat \<Rightarrow> int) \<Rightarrow> nat \<Rightarrow> string \<Rightarrow> 'o \<Rightarrow> 'o" where
  "demo_loop port draw k p o' =
     (if p = [] \<or> \<not> cp_ok port o' then o'
      else
        let rest = skip_tokens (draw k) p; span = take (length p - length rest) p
        in demo_loop port draw (Suc k) rest (cp_event port o' ''delta'' (Some (take 1535 span))))"
  by pat_completeness auto
termination by (relation "measure (\<lambda>(port, draw, k, p, o'). length p)") (auto intro: skip_tokens_shorter)

declare demo_loop.simps [simp del]

definition demo_note :: string where
  "demo_note = ''demo engine (set LLM_API_KEY + LLM_MODEL for a real model)''"

definition demo_reply :: "'o chat_port \<Rightarrow> (nat \<Rightarrow> int) \<Rightarrow> string \<Rightarrow> 'o \<Rightarrow> 'o" where
  "demo_reply port draw message o' =
     (let o1 = cp_event port o' ''note'' (Some demo_note)
      in if cp_ok port o1 then demo_loop port draw 0 (canned_reply message) o1 else o1)"

section \<open>A request fits its arrays\<close>

definition chat_ok :: "ChatRequest \<Rightarrow> bool" where
  "chat_ok cr \<longleftrightarrow> fits (AGENT_MAX_MESSAGE + 1) (cr_message cr) \<and> fits (AGENT_MODEL_MAX + 1) (cr_model cr) \<and>
     fits (AGENT_SYSTEM_MAX + 1) (cr_system cr) \<and> length (cr_history cr) \<le> AGENT_MAX_HISTORY \<and>
     list_all (\<lambda>h. plain_role (fst h) \<and> fits (AGENT_HISTORY_MAX_CHARS + 1) (snd h)) (cr_history cr) \<and>
     length (cr_tools cr) \<le> AGENT_MAX_TOOL_FILTER \<and> list_all (fits (AGENT_TOOL_NAME_MAX + 1)) (cr_tools cr) \<and>
     0 \<le> cr_rounds cr \<and> cr_rounds cr \<le> 64 \<and> cr_session_id cr = []"

lemma jread_string_fits: "jread_string n p = Some (s, q) \<Longrightarrow> 0 < n \<Longrightarrow> fits n (cstr s)"
  using jread_string_bound [of n p s q] length_cstr [of s] by (simp add: fits_def)

lemma entry_members_fits:
  "entry_members p r c = Some (r', c', q) \<Longrightarrow> pred_option (fits (AGENT_HISTORY_MAX_CHARS + 1)) c \<Longrightarrow>
   pred_option (fits (AGENT_HISTORY_MAX_CHARS + 1)) c'"
proof (induction "length p" arbitrary: p r c rule: less_induct)
  case less
  from less.prems(1) show ?case
  proof (cases rule: entry_members_cases)
    case stop
    then show ?thesis using less.prems(2) by simp
  next
    case (turn d p1 hk v role' content' q')
    have "pred_option (fits (AGENT_HISTORY_MAX_CHARS + 1)) content'" using turn(5) less.prems(2) jread_string_fits by auto
    with less.hyps [OF entry_turn_shorter [OF turn(1-3)] turn(4)] show ?thesis .
  qed
qed

definition history_ok :: "(string \<times> string) list \<Rightarrow> bool" where
  "history_ok h \<longleftrightarrow> length h \<le> AGENT_MAX_HISTORY \<and>
     list_all (\<lambda>h. plain_role (fst h) \<and> fits (AGENT_HISTORY_MAX_CHARS + 1) (snd h)) h"

lemma push_history_ok: "history_ok h \<Longrightarrow> pred_option (fits (AGENT_HISTORY_MAX_CHARS + 1)) c \<Longrightarrow> history_ok (push_history r c h)"
  by (cases h) (auto simp: push_history_def history_ok_def plain_role_def AGENT_MAX_HISTORY_def split: option.split)

lemma history_items_ok: "history_items p h = Some (h', q) \<Longrightarrow> history_ok h \<Longrightarrow> history_ok h'"
proof (induction p h rule: history_items.induct)
  case (1 p0 h)
  from 1(3) obtain c p where p: "jws p0 = c # p" by (auto simp: history_items.simps [of p0] split: list.splits)
  consider "h' = h" | "c \<noteq> CHR '']''" "c = CHR '',''" "history_items p h = Some (h', q)"
    | ro co r where "c \<noteq> CHR '']''" "c \<noteq> CHR '',''" "\<not> c \<noteq> CHR ''{''" "entry_members p None None = Some (ro, co, r)"
        "history_items (skip_comma r) (push_history ro co h) = Some (h', q)"
    using 1(3) p by (auto simp: history_items.simps [of p0] split: if_splits option.splits)
  then show ?case
  proof cases
    case 2
    from 1(1) [OF p 2] 1(4) show ?thesis by simp
  next
    case 3
    have "pred_option (fits (AGENT_HISTORY_MAX_CHARS + 1)) co" using entry_members_fits [OF 3(4)] by simp
    from 1(2) [OF p 3(1-4) refl refl 3(5) push_history_ok [OF 1(4) this]] show ?thesis .
  qed (use 1(4) in simp)
qed

definition tools_ok :: "string list \<Rightarrow> bool" where
  "tools_ok ts \<longleftrightarrow> length ts \<le> AGENT_MAX_TOOL_FILTER \<and> list_all (fits (AGENT_TOOL_NAME_MAX + 1)) ts"

lemma tool_items_ok: "tool_items p g = Some (ts, q) \<Longrightarrow> tools_ok g \<Longrightarrow> tools_ok ts"
proof (induction p g rule: tool_items.induct)
  case (1 p0 got)
  from 1(3) obtain c p where p: "jws p0 = c # p" by (auto simp: tool_items.simps [of p0] split: list.splits)
  consider "ts = got" | "c \<noteq> CHR '']''" "c = CHR '',''" "tool_items p got = Some (ts, q)"
    | s r where "c \<noteq> CHR '']''" "c \<noteq> CHR '',''" "\<not> (c \<noteq> DQUOTE \<or> length got \<ge> AGENT_MAX_TOOL_FILTER)"
        "jread_string (AGENT_TOOL_NAME_MAX + 1) (c # p) = Some (s, r)" "tool_items (skip_comma r) (got @ [cstr s]) = Some (ts, q)"
    using 1(3) p by (auto simp: tool_items.simps [of p0] split: if_splits option.splits)
  then show ?case
  proof cases
    case 2
    from 1(1) [OF p 2] 1(4) show ?thesis by simp
  next
    case 3
    have "tools_ok (got @ [cstr s])" using 1(4) 3(3) jread_string_fits [OF 3(4)] by (simp add: tools_ok_def)
    from 1(2) [OF p 3(1-4) refl 3(5) this] show ?thesis .
  qed (use 1(4) in simp)
qed

lemma chat_ok_parts: "chat_ok cr \<longleftrightarrow> fits (AGENT_MAX_MESSAGE + 1) (cr_message cr) \<and> fits (AGENT_MODEL_MAX + 1) (cr_model cr) \<and>
     fits (AGENT_SYSTEM_MAX + 1) (cr_system cr) \<and> history_ok (cr_history cr) \<and> tools_ok (cr_tools cr) \<and>
     0 \<le> cr_rounds cr \<and> cr_rounds cr \<le> 64 \<and> cr_session_id cr = []"
  by (auto simp: chat_ok_def history_ok_def tools_ok_def)

lemma read_field_ok:
  "read_field n p u = Some (cr', q) \<Longrightarrow> 0 < n \<Longrightarrow> (\<And>s. fits n s \<Longrightarrow> chat_ok (u s)) \<Longrightarrow> chat_ok cr'"
  by (auto simp: read_field_def dest: jread_string_fits split: option.splits)

lemma parse_member_ok:
  assumes "chat_ok cr" and "parse_member key p cr = Some (cr', q)"
  shows "chat_ok cr'"
proof -
  have t: "tools_ok ts" if "tool_items x [] = Some (ts, q)" for x ts
    using tool_items_ok [OF that] by (simp add: tools_ok_def)
  have h: "history_ok h" if "history_items x (cr_history cr) = Some (h, q)" for x h
    using history_items_ok [OF that] assms(1) by (simp add: chat_ok_parts)
  have f: "chat_ok cr'" if "read_field n p u = Some (cr', q)" "0 < n" "\<forall>s. fits n s \<longrightarrow> chat_ok (u s)" for n u
    using read_field_ok [OF that(1,2)] that(3) by blast
  have "chat_ok cr'" if "key = ''message''"
    using assms that by (intro f [of "AGENT_MAX_MESSAGE + 1" "\<lambda>s. cr\<lparr>cr_message := s\<rparr>"]) (simp_all add: parse_member_def chat_ok_parts)
  moreover have "chat_ok cr'" if "key = ''model''"
    using assms that by (intro f [of "AGENT_MODEL_MAX + 1" "\<lambda>s. cr\<lparr>cr_model := s\<rparr>"]) (simp_all add: parse_member_def chat_ok_parts)
  moreover have "chat_ok cr'" if "key = ''system''"
    using assms that by (intro f [of "AGENT_SYSTEM_MAX + 1" "\<lambda>s. cr\<lparr>cr_system := s\<rparr>"]) (simp_all add: parse_member_def chat_ok_parts)
  moreover have "chat_ok cr'" if "key \<noteq> ''message''" "key \<noteq> ''model''" "key \<noteq> ''system''"
    using assms that t h by (auto simp: parse_member_def chat_ok_parts split: if_splits prod.splits)
  ultimately show ?thesis by blast
qed

lemma parse_members_ok: "parse_members p cr = Some cr' \<Longrightarrow> chat_ok cr \<Longrightarrow> chat_ok cr'"
proof (induction p cr rule: parse_members.induct)
  case (1 p0 cr)
  from 1(2) obtain c p where p: "jws p0 = c # p" by (auto simp: parse_members.simps [of p0] split: list.splits)
  show ?case
  proof (cases "c = CHR ''}''")
    case True
    with 1(2,3) p show ?thesis by (simp add: parse_members.simps [of p0])
  next
    case False
    with 1(2) p obtain key v cr1 q d r where m: "member_start 32 (c # p) = Some (key, v)" and v: "parse_member key v cr = Some (cr1, q)"
      and q: "jws q = d # r" and e: "d = CHR '','' \<and> parse_members r cr1 = Some cr' \<or> d \<noteq> CHR '','' \<and> cr' = cr1"
      by (auto simp: parse_members.simps [of p0] split: option.splits list.splits if_splits)
    note ok = parse_member_ok [OF 1(3) v]
    from e 1(1) [OF p False m refl v refl q] ok show ?thesis by blast
  qed
qed

lemma chat_request_ok: "chat_parse_body body = Some cr \<Longrightarrow> chat_ok cr"
proof -
  have "chat_ok empty_chat" by (simp add: chat_ok_parts empty_chat_def fits_def history_ok_def tools_ok_def)
  then show "chat_parse_body body = Some cr \<Longrightarrow> chat_ok cr"
    by (auto simp: chat_parse_body_def dest: parse_members_ok split: option.splits list.splits if_splits)
qed

text \<open>
  A chat request fits its arrays.  Whatever the body, a request the parser accepts has its message, model, system
  prompt and tool names within their buffers, at most 32 tool names, at most twelve history entries, each of a user
  or an assistant and within its buffer, and a round limit of at most 64.
\<close>

theorem chat_request_bounded: "case chat_parse_body body of None \<Rightarrow> True | Some cr \<Rightarrow> chat_ok cr"
  using chat_request_ok by (auto split: option.split)

section \<open>A printed request is read back\<close>

definition entry_json :: "string \<times> string \<Rightarrow> json" where
  "entry_json h = JObj [(''role'', JStr (fst h)), (''content'', JStr (snd h))]"

definition chat_json :: "ChatRequest \<Rightarrow> json" where
  "chat_json cr =
     JObj ([(''message'', JStr (cr_message cr)), (''tools'', JArr (map JStr (cr_tools cr))),
        (''history'', JArr (map entry_json (cr_history cr))), (''model'', JStr (cr_model cr))] @
       (if cr_rounds cr = 0 then [] else [(''rounds'', JAtom (nat_dec (nat (cr_rounds cr))))]) @ [(''system'', JStr (cr_system cr))])"

lemma items_end: "tool_items (CHR '']'' # r) g = Some (g, r)" "history_items (CHR '']'' # r) h = Some (h, r)"
  by (subst tool_items.simps, simp add: jws_char json_ws_def) (subst history_items.simps, simp add: jws_char json_ws_def)

lemma tool_items_text:
  "list_all (fits (AGENT_TOOL_NAME_MAX + 1)) ts \<Longrightarrow> length got + length ts \<le> AGENT_MAX_TOOL_FILTER \<Longrightarrow>
   tool_items (join (map (\<lambda>x. json_quote x) ts) @ CHR '']'' # rest) got = Some (got @ ts, rest)"
proof (induction ts arbitrary: got)
  case Nil
  then show ?case by (simp add: items_end)
next
  case (Cons x ts)
  have one: "tool_items (json_quote x @ r) got = tool_items (skip_comma r) (got @ [x])" for r
  proof -
    obtain q where q: "json_quote x = DQUOTE # q" using json_quote_Cons by blast
    have f: "fits (AGENT_TOOL_NAME_MAX + 1) x" "cstr x = x" using Cons.prems(1) by (auto simp: fits_def intro: cstr_whole)
    have j: "jread_string (AGENT_TOOL_NAME_MAX + 1) (DQUOTE # q @ r) = Some (x, r)" using jread_fits [OF f(1), of r] q by simp
    have "length got < AGENT_MAX_TOOL_FILTER" using Cons.prems(2) by simp
    then show ?thesis unfolding q by (subst tool_items.simps) (simp add: jws_char json_ws_def j [simplified] f(2))
  qed
  show ?case using Cons.prems by (cases "ts = []") (simp_all add: one Cons.IH items_end)
qed

lemma entry_members_quote:
  assumes "fits 32 k"
  shows "entry_members (json_quote k @ CHR '':'' # json_quote x @ rest) role content =
    (if k = ''role'' then (case jread_string 16 (json_quote x @ rest) of None \<Rightarrow> None | Some (s, q) \<Rightarrow> entry_members (skip_comma q) (Some (cstr s)) content)
     else if k = ''content'' then
       (case jread_string (AGENT_HISTORY_MAX_CHARS + 1) (json_quote x @ rest) of None \<Rightarrow> None | Some (s, q) \<Rightarrow> entry_members (skip_comma q) role (Some (cstr s)))
     else (case jskip_value (json_quote x @ rest) of None \<Rightarrow> None | Some q \<Rightarrow> entry_members (skip_comma q) role content))"
proof -
  obtain q where q: "json_quote k = DQUOTE # q" using json_quote_Cons by blast
  define p where "p = json_quote k @ CHR '':'' # json_quote x @ rest"
  have p: "jws p = DQUOTE # q @ CHR '':'' # json_quote x @ rest" unfolding p_def jws_quote by (simp add: q)
  have m: "member_start 32 (DQUOTE # q @ CHR '':'' # json_quote x @ rest) = Some (k, json_quote x @ rest)"
    using member_start_quote [OF assms, of "json_quote x @ rest"] by (simp add: q jws_quote)
  show ?thesis unfolding p_def [symmetric]
    by (subst entry_members.simps) (simp only: p list.case m option.case prod.case char.inject simp_thms if_False)
qed

lemma entry_members_text:
  assumes "plain_role (fst h)" and "fits (AGENT_HISTORY_MAX_CHARS + 1) (snd h)"
  shows "entry_members (tl (jprint (entry_json h)) @ rest) None None = Some (Some (fst h), Some (snd h), rest)"
proof -
  have n: "fits 32 ''role''" "fits 32 ''content''" by (simp_all add: fits_def)
  have r: "fits 16 (fst h)" "cstr (fst h) = fst h" and c: "cstr (snd h) = snd h"
    using assms by (auto simp: plain_role_def fits_def intro!: cstr_whole)
  have "entry_members (json_quote ''content'' @ CHR '':'' # json_quote (snd h) @ CHR ''}'' # rest) (Some (fst h)) None =
      entry_members (CHR ''}'' # rest) (Some (fst h)) (Some (snd h))"
    using assms(2) c by (simp add: entry_members_quote [OF n(2)] jread_fits)
  also have "\<dots> = Some (Some (fst h), Some (snd h), rest)" by (subst entry_members.simps) (simp add: jws_char json_ws_def)
  finally show ?thesis
    using r by (simp add: entry_json_def entry_members_quote [OF n(1)] jread_fits)
qed

lemma history_items_text:
  "list_all (\<lambda>h. plain_role (fst h) \<and> fits (AGENT_HISTORY_MAX_CHARS + 1) (snd h)) hs \<Longrightarrow> length h0 + length hs \<le> AGENT_MAX_HISTORY \<Longrightarrow>
   history_items (join (map (\<lambda>h. jprint (entry_json h)) hs) @ CHR '']'' # rest) h0 = Some (h0 @ hs, rest)"
proof (induction hs arbitrary: h0)
  case Nil
  then show ?case by (simp add: items_end)
next
  case (Cons h hs)
  have one: "history_items (jprint (entry_json h) @ r) h0 = history_items (skip_comma r) (h0 @ [h])" for r
  proof -
    have e: "jprint (entry_json h) @ r = CHR ''{'' # tl (jprint (entry_json h)) @ r" by (simp add: entry_json_def)
    have "push_history (Some (fst h)) (Some (snd h)) h0 = h0 @ [h]"
      using Cons.prems by (cases h) (auto simp: push_history_def plain_role_def)
    moreover have "entry_members (tl (jprint (entry_json h)) @ r) None None = Some (Some (fst h), Some (snd h), r)"
      using Cons.prems by (intro entry_members_text) auto
    moreover have "jws (CHR ''{'' # x) = CHR ''{'' # x" for x by (simp add: jws_char json_ws_def)
    ultimately show ?thesis
      unfolding e by (subst history_items.simps) simp
  qed
  show ?case using Cons.prems by (cases "hs = []") (simp_all add: one Cons.IH items_end)
qed

lemma parse_members_one:
  assumes "fits 32 k" "parse_member k v cr = Some (cr1, q)" "jws v = v"
  shows "parse_members (json_quote k @ CHR '':'' # v) cr =
    (case jws q of [] \<Rightarrow> None | d # r \<Rightarrow> if d = CHR '','' then parse_members r cr1 else if d = CHR ''}'' then Some cr1 else None)"
proof -
  obtain kq where q: "json_quote k = DQUOTE # kq" using json_quote_Cons by blast
  define p where "p = json_quote k @ CHR '':'' # v"
  have p: "jws p = DQUOTE # kq @ CHR '':'' # v" unfolding p_def jws_quote by (simp add: q)
  have m: "member_start 32 (DQUOTE # kq @ CHR '':'' # v) = Some (k, v)"
    using member_start_quote [OF assms(1), of v] assms(3) by (simp add: q)
  show ?thesis unfolding p_def [symmetric] using assms(2) by (subst parse_members.simps) (simp add: p m)
qed

text \<open>The two ends of a member: a comma and the next one, or the closing brace.\<close>

lemma parse_members_next:
  assumes "fits 32 k" "parse_member k (v @ CHR '','' # r) cr = Some (cr1, CHR '','' # r)" "jws (v @ CHR '','' # r) = v @ CHR '','' # r"
  shows "parse_members (json_quote k @ CHR '':'' # v @ CHR '','' # r) cr = parse_members r cr1"
  using parse_members_one [OF assms] by (simp add: jws_char json_ws_def)

lemma parse_members_last:
  assumes "fits 32 k" "parse_member k (v @ ''}'') cr = Some (cr1, ''}'')" "jws (v @ ''}'') = v @ ''}''"
  shows "parse_members (json_quote k @ CHR '':'' # v @ ''}'') cr = Some cr1"
  using parse_members_one [OF assms] by (simp add: jws_char json_ws_def)

lemma field_keys: "fits 32 ''message''" "fits 32 ''tools''" "fits 32 ''history''" "fits 32 ''model''" "fits 32 ''rounds''" "fits 32 ''system''"
  by (simp_all add: fits_def)

lemma field_quote: "fits n x \<Longrightarrow> read_field n (json_quote x @ r) u = Some (u x, r)"
  by (simp add: read_field_def jread_fits cstr_whole fits_def)

lemma read_rounds_text: "n \<le> 64 \<Longrightarrow> read_rounds (nat_dec n @ CHR '','' # r) 0 = (int n, CHR '','' # r)"
proof -
  assume "n \<le> 64"
  have d: "isdigit (char_of (48 + k))" "code (char_of (48 + k)) - 48 = k" if "k < 10" for k
    using that by (simp_all add: isdigit_def)
  show ?thesis
  proof (cases "n < 10")
    case True
    then show ?thesis using d [of n] by (simp add: nat_dec.simps [of n] isdigit_def wrap32_id)
  next
    case False
    then have s: "n div 10 < 10" "n mod 10 < 10" "n = n div 10 * 10 + n mod 10" using \<open>n \<le> 64\<close> by auto
    have "wrap32 (int (n div 10)) = int (n div 10)" "wrap32 (int (n div 10) * 10 + int (n mod 10)) = int n"
      using s \<open>n \<le> 64\<close> by (subst wrap32_id; simp; presburger)+
    then show ?thesis using d [OF s(1)] d [OF s(2)] False s(1)
      by (simp add: nat_dec.simps [of n] nat_dec.simps [of "n div 10"] isdigit_def)
  qed
qed

text \<open>
  (C27) A printed request is read back.  The JSON text of every request that fits its arrays is parsed to exactly that
  request: all six members, the history in order, quotes, control characters and non-ASCII text included.
\<close>

theorem chat_body_roundtrip:
  assumes "chat_ok cr"
  shows "chat_parse_body (Some (jprint (chat_json cr))) = Some cr"
proof -
  have f: "fits (AGENT_MAX_MESSAGE + 1) (cr_message cr)" "fits (AGENT_MODEL_MAX + 1) (cr_model cr)" "fits (AGENT_SYSTEM_MAX + 1) (cr_system cr)"
    and ts: "list_all (fits (AGENT_TOOL_NAME_MAX + 1)) (cr_tools cr)" "length (cr_tools cr) \<le> AGENT_MAX_TOOL_FILTER"
    and hs: "list_all (\<lambda>h. plain_role (fst h) \<and> fits (AGENT_HISTORY_MAX_CHARS + 1) (snd h)) (cr_history cr)" "length (cr_history cr) \<le> AGENT_MAX_HISTORY"
    and n: "0 \<le> cr_rounds cr" "cr_rounds cr \<le> 64" and sid: "cr_session_id cr = []"
    using assms by (simp_all add: chat_ok_def)
  define c1 where "c1 = empty_chat\<lparr>cr_message := cr_message cr\<rparr>"
  define c2 where "c2 = c1\<lparr>cr_tools := cr_tools cr\<rparr>"
  define c3 where "c3 = c2\<lparr>cr_history := cr_history cr\<rparr>"
  define c4 where "c4 = c3\<lparr>cr_model := cr_model cr\<rparr>"
  define c5 where "c5 = c4\<lparr>cr_rounds := cr_rounds cr\<rparr>"
  define e6 where "e6 = json_quote ''system'' @ CHR '':'' # json_quote (cr_system cr) @ ''}''"
  define e5 where "e5 = (if cr_rounds cr = 0 then e6 else json_quote ''rounds'' @ CHR '':'' # nat_dec (nat (cr_rounds cr)) @ CHR '','' # e6)"
  define e4 where "e4 = json_quote ''model'' @ CHR '':'' # json_quote (cr_model cr) @ CHR '','' # e5"
  define e3 where "e3 = json_quote ''history'' @ CHR '':'' # (CHR ''['' # join (map (\<lambda>h. jprint (entry_json h)) (cr_history cr)) @ '']'') @ CHR '','' # e4"
  define e2 where "e2 = json_quote ''tools'' @ CHR '':'' # (CHR ''['' # join (map (\<lambda>x. json_quote x) (cr_tools cr)) @ '']'') @ CHR '','' # e3"
  define e1 where "e1 = json_quote ''message'' @ CHR '':'' # json_quote (cr_message cr) @ CHR '','' # e2"
  have w: "jws (CHR ''['' # x) = CHR ''['' # x" for x by (simp add: jws_char json_ws_def)
  have p1: "parse_members e1 empty_chat = parse_members e2 c1"
    unfolding e1_def c1_def by (rule parse_members_next [OF field_keys(1)]) (simp_all add: parse_member_def field_quote [OF f(1), simplified] jws_quote)
  have p2: "parse_members e2 c1 = parse_members e3 c2"
    unfolding e2_def c2_def
    by (rule parse_members_next [OF field_keys(2)]) (use tool_items_text [OF ts(1), of "[]"] ts(2) w in \<open>simp_all add: parse_member_def\<close>)
  have p3: "parse_members e3 c2 = parse_members e4 c3"
    unfolding e3_def c3_def
    by (rule parse_members_next [OF field_keys(3)])
      (use history_items_text [OF hs(1), of "[]"] hs(2) w in \<open>simp_all add: parse_member_def c2_def c1_def empty_chat_def\<close>)
  have p4: "parse_members e4 c3 = parse_members e5 c4"
    unfolding e4_def c4_def by (rule parse_members_next [OF field_keys(4)]) (simp_all add: parse_member_def field_quote [OF f(2), simplified] jws_quote)
  have p5: "parse_members e5 c4 = parse_members e6 c5"
  proof (cases "cr_rounds cr = 0")
    case True
    then have "c5 = c4" by (simp add: c5_def c4_def c3_def c2_def c1_def empty_chat_def)
    then show ?thesis using True by (simp add: e5_def)
  next
    case False
    obtain d ds where ds: "nat_dec (nat (cr_rounds cr)) = d # ds" "isdigit d"
      using nat_dec_value [of "nat (cr_rounds cr)"] by (cases "nat_dec (nat (cr_rounds cr))") auto
    then have "\<not> json_ws d" by (auto simp: isdigit_def json_ws_def)
    then have "jws (nat_dec (nat (cr_rounds cr)) @ x) = nat_dec (nat (cr_rounds cr)) @ x" for x by (simp add: ds jws_char)
    moreover have "nat (cr_rounds cr) \<le> 64" using n by simp
    note read_rounds_text [OF this, of e6]
    moreover have "e5 = json_quote ''rounds'' @ CHR '':'' # nat_dec (nat (cr_rounds cr)) @ CHR '','' # e6" using False by (simp add: e5_def)
    ultimately show ?thesis
      unfolding c5_def by (simp only:) (rule parse_members_next [OF field_keys(5)], use n False in \<open>simp_all add: parse_member_def\<close>)
  qed
  have p6: "parse_members e6 c5 = Some (c5\<lparr>cr_system := cr_system cr\<rparr>)"
    unfolding e6_def by (rule parse_members_last [OF field_keys(6)]) (simp_all add: parse_member_def field_quote [OF f(3), simplified] jws_quote)
  have c: "c5\<lparr>cr_system := cr_system cr\<rparr> = cr" using sid by (simp add: c5_def c4_def c3_def c2_def c1_def empty_chat_def)
  have "jprint (chat_json cr) = CHR ''{'' # e1"
    by (simp add: chat_json_def e1_def e2_def e3_def e4_def e5_def e6_def comp_def)
  then show ?thesis using p1 p2 p3 p4 p5 p6 c by (simp add: chat_parse_body_def jws_char json_ws_def)
qed

definition demo_chat :: ChatRequest where
  "demo_chat = empty_chat\<lparr>cr_message := ''hi'', cr_history := [(''user'', ''a''), (''assistant'', ''b'')], cr_rounds := 12\<rparr>"

theorem chat_body_roundtrip_witness: "chat_parse_body (Some (jprint (chat_json demo_chat))) = Some demo_chat"
proof (rule chat_body_roundtrip)
  show "chat_ok demo_chat"
    by (simp add: chat_ok_def demo_chat_def empty_chat_def fits_def plain_role_def AGENT_MAX_MESSAGE_def AGENT_MAX_HISTORY_def AGENT_HISTORY_MAX_CHARS_def)
qed

section \<open>The demo stream\<close>

lemma skip_tokens_suffix: "\<exists>d. p = d @ skip_tokens r p"
proof -
  have "\<exists>n. skip_tokens r p = drop n p" by (cases "r mod 5 < 2") (auto simp: skip_tokens_def Let_def)
  then show ?thesis by (metis append_take_drop_id)
qed

lemma demo_port: "cp_ok list_port o'" "cp_event list_port o' a b = o' @ [(a, b)]"
  by (simp_all add: list_port_def)

lemma demo_loop_deltas:
  assumes "length p \<le> 1535"
  shows "\<exists>ds. demo_loop list_port draw k p o' = o' @ map (\<lambda>d. (''delta'', Some d)) ds \<and> concat ds = p"
  using assms
proof (induction "length p" arbitrary: p k o' rule: less_induct)
  case less
  show ?case
  proof (cases "p = []")
    case True
    then show ?thesis by (intro exI [of _ "[]"]) (simp add: demo_loop.simps)
  next
    case False
    define rest where "rest = skip_tokens (draw k) p"
    obtain d where d: "p = d @ rest" using skip_tokens_suffix [of p "draw k"] by (auto simp: rest_def)
    have l: "length rest < length p" using skip_tokens_shorter [OF False] by (simp add: rest_def)
    have "demo_loop list_port draw k p o' = demo_loop list_port draw (Suc k) rest (o' @ [(''delta'', Some d)])"
    proof -
      have "take 1535 (take (length p - length rest) p) = d" using d less.prems by simp
      then show ?thesis using False by (subst demo_loop.simps) (simp add: rest_def [symmetric] Let_def demo_port del: take_take)
    qed
    moreover obtain ds where "demo_loop list_port draw (Suc k) rest (o' @ [(''delta'', Some d)]) =
        (o' @ [(''delta'', Some d)]) @ map (\<lambda>d. (''delta'', Some d)) ds" "concat ds = rest"
      using less.hyps [OF l, of "Suc k" "o' @ [(''delta'', Some d)]"] l less.prems by auto
    ultimately show ?thesis using d by (intro exI [of _ "d # ds"]) simp
  qed
qed

text \<open>
  The demo stream is lossless.  However the random steps fall, a client that stays receives one note and then deltas
  whose texts put together are exactly the canned reply to its message.
\<close>

theorem demo_stream_lossless:
  "\<exists>ds. demo_reply list_port draw message [] = (''note'', Some demo_note) # map (\<lambda>d. (''delta'', Some d)) ds \<and> concat ds = canned_reply message"
proof -
  have "length (canned_reply message) \<le> 1535" by (simp add: canned_reply_def Let_def)
  from demo_loop_deltas [OF this, of draw 0 "[(''note'', Some demo_note)]"] show ?thesis
    by (simp add: demo_reply_def Let_def demo_port)
qed

section \<open>The environment file never overrides\<close>

lemma env_line_keeps: "env x = Some v \<Longrightarrow> env_line env buf x = Some v"
  by (auto simp: env_line_def Let_def split: option.split)

lemma llm_env_init_keeps: "env x = Some v \<Longrightarrow> llm_env_init dotenv env x = Some v"
proof -
  have "env x = Some v \<Longrightarrow> foldl env_line env ls x = Some v" for ls and env :: "string \<Rightarrow> string option"
    by (induction ls arbitrary: env) (auto simp: env_line_keeps)
  then show "env x = Some v \<Longrightarrow> llm_env_init dotenv env x = Some v" by (simp add: llm_env_init_def split: option.split)
qed

section \<open>Findings\<close>

text \<open>The number of rounds is accumulated in an \<open>int\<close>: a large number comes out as a small one and is accepted.\<close>

theorem rounds_wrap: "map_option cr_rounds (chat_parse_body (Some (CHR ''{'' # json_quote ''rounds'' @ '':4294967298}''))) = Some 2"
  by code_simp

text \<open>A line feed between words counts as a word in the demo reply.\<close>

theorem line_feed_counts_as_word: "count_words (''a'' @ [LF] @ ''b'') = 3"
  by code_simp

end
