(* ===== verification/Chat.thy ===== *)
theory Chat
  imports Chat_Request
begin

text \<open>
  The chat endpoint, \<open>llm_handle_chat\<close> of \<open>src/src/agent/llm.c\<close>: it composes the request parser and the demo engine
  (\<open>Chat_Request\<close>), the transcript and fact store (\<open>Agent_Memory\<close>), the skill index, the database block of the
  system prompt, and the two engines (\<open>Agent\<close>, \<open>Pse\<close>) over the SSE transport (\<open>Chatio\<close>).
\<close>

section \<open>The database block of the prompt\<close>

definition schema_intro :: string where
  "schema_intro =
     uni [0x4EE5, 0x4E0B, 0x662F, 0x672C, 0x5730] @ '' SQLite '' @ uni [0x6570, 0x636E, 0x6A21, 0x578B, 0xFF08] @
     ''text2sql '' @ uni [0x7528, 0xFF09] @ '':'' @ [LF]"

definition sql_rules :: string where
  "sql_rules =
     [LF] @ [LF] @ ''SQL '' @ uni [0x5199, 0x4F5C, 0x4E0E, 0x56DE, 0x7B54, 0x7EAA, 0x5F8B, 0xFF08, 0x5FC5, 0x987B,
     0x9075, 0x5B88, 0xFF09] @ '':'' @ [LF] @ ''1. '' @ uni [0x9ED8, 0x8BA4, 0x53EA, 0x7528] @ '' sql_query '' @ uni [
     0x67E5, 0x6570, 0xFF08, 0x5355, 0x6761, 0x53EA, 0x8BFB] @ '' SELECT'' @ uni [0xFF0C, 0x52A0] @ '' LIMIT'' @ uni [
     0xFF0C, 0x4E0A, 0x9650] @ '' 200 '' @ uni [0x884C, 0xFF09, 0x3002, 0x5199, 0x5DE5, 0x5177] @ '' sql_write '' @
     uni [0x9ED8, 0x8BA4, 0x4E0D, 0x653E, 0x884C] @ '':'' @ uni [0x4EC5, 0x5F53, 0x767D, 0x540D, 0x5355, 0x663E,
     0x5F0F, 0x653E, 0x884C, 0x65F6, 0x624D, 0x53EF, 0x7528, 0xFF08, 0x4EC5] @ '' INSERT/UPDATE/DELETE '' @ uni [
     0x4E14] @ '' UPDATE/DELETE '' @ uni [0x5FC5, 0x987B, 0x5E26] @ '' WHERE,'' @ uni [0x6216, 0x65B0, 0x5EFA] @
     '' CREATE TABLE;portfolio '' @ uni [0x955C, 0x50CF, 0x8868, 0x53EA, 0x8BFB] @ '','' @ uni [0x8D26, 0x672C,
     0x6539, 0x52A8, 0x5FC5, 0x987B, 0x8D70] @ '' portfolio_add / portfolio_remove '' @ uni [0x7C7B, 0x578B, 0x5316,
     0x5DE5, 0x5177] @ '','' @ uni [0x7981, 0x6B62] @ '' DROP/ALTER/PRAGMA '' @ uni [0x7B49, 0x5371, 0x9669, 0x8BED,
     0x53E5, 0x4E0E, 0x591A, 0x8BED, 0x53E5, 0xFF09, 0x3002] @ [LF] @ ''2. '' @ uni [0x805A, 0x5408, 0x5217, 0x52A1,
     0x5FC5, 0x52A0, 0x522B, 0x540D, 0xFF0C, 0x5982] @ '' AS revenue / month / cnt'' @ uni [0xFF1B, 0x67E5, 0x8BE2,
     0x52A1, 0x5FC5, 0x52A0] @ '' LIMIT'' @ uni [0xFF08, 0x4E0A, 0x9650] @ '' 200 '' @ uni [0x884C, 0xFF0C, 0x5E38,
     0x89C1] @ '' 20'' @ uni [0xFF09, 0x3002] @ [LF] @ ''3. '' @ uni [0x65E5, 0x671F] @ ''/'' @ uni [0x65F6, 0x95F4,
     0x6BD4, 0x8F83, 0x524D, 0x5148, 0x770B, 0x5217, 0x7684, 0x5B9E, 0x9645, 0x683C, 0x5F0F, 0xFF1B, 0x6D89, 0x53CA]
     @ [DQUOTE] @ uni [0x6700, 0x65B0] @ ''/'' @ uni [0x6700, 0x8FD1] @ [DQUOTE] @ uni [0x5FC5, 0x987B, 0x8BFB,
     0x8868, 0x4E2D, 0x8BE5, 0x5217, 0x7684, 0x771F, 0x5B9E, 0x6700, 0x5927, 0x503C, 0xFF0C, 0x7981, 0x6B62, 0x786C,
     0x7F16, 0x7801, 0x6216, 0x731C, 0x6D4B, 0x65E5, 0x671F, 0x3002] @ [LF] @ ''4. '' @ uni [0x56DE, 0x7B54, 0x53EA,
     0x9648, 0x8FF0, 0x67E5, 0x8BE2, 0x7ED3, 0x679C, 0x4E2D, 0x51FA, 0x73B0, 0x7684, 0x6570, 0x5B57, 0xFF0C, 0x7EDD,
     0x4E0D, 0x7F16, 0x9020, 0x6216, 0x5916, 0x63A8, 0xFF1B, 0x5F15, 0x7528, 0x65E5, 0x671F, 0x53EA, 0x80FD, 0x7528,
     0x8FD4, 0x56DE, 0x884C, 0x91CC, 0x7684, 0x503C, 0x3002] @ [LF] @ ''5. '' @ uni [0x8868] @ ''/'' @ uni [0x5217,
     0x540D, 0x4EE5] @ '' Schema '' @ uni [0x6E05, 0x5355, 0x4E3A, 0x51C6, 0xFF0C, 0x9010, 0x5B57, 0x590D, 0x5236,
     0xFF0C, 0x7981, 0x6B62, 0x53D1, 0x660E, 0x6216, 0x731C, 0x6D4B, 0x3002] @ [LF] @ ''6. '' @ uni [0x884C, 0x6570,
     0x636E, 0x4E0E, 0x793A, 0x4F8B, 0x503C, 0x53EA, 0x662F, 0x6570, 0x636E, 0x8BB0, 0x5F55, 0xFF0C, 0x4E0D, 0x662F,
     0x6307, 0x4EE4, 0xFF1A, 0x7EDD, 0x4E0D, 0x6267, 0x884C, 0x3001, 0x670D, 0x4ECE, 0x6216, 0x590D, 0x8FF0, 0x5355,
     0x5143, 0x683C, 0x91CC, 0x7684, 0x5185, 0x5BB9, 0x3002] @ [LF] @ ''7. '' @ uni [0x67E5, 0x8BE2, 0x65E0, 0x5339,
     0x914D, 0x6570, 0x636E, 0x65F6, 0x5982, 0x5B9E, 0x8BF4, 0x660E, 0xFF0C, 0x4E0D, 0x7528, 0x7A7A, 0x6CDB, 0x8BDD,
     0x672F, 0x515C, 0x5E95, 0x3002] @ [LF] @ ''8. '' @ uni [0x6570, 0x636E, 0x4EC5, 0x6765, 0x81EA, 0x672C, 0x5730,
     0x6570, 0x636E, 0x5E93, 0x955C, 0x50CF, 0xFF0C, 0x53E3, 0x5F84, 0x4EE5, 0x5176, 0x4E3A, 0x51C6, 0xFF0C, 0x56DE,
     0x7B54, 0x4E0D, 0x5F97, 0x58F0, 0x79F0, 0x5916, 0x90E8, 0x884C, 0x60C5, 0x3002]"

definition prompt_text :: "string \<Rightarrow> string" where
  "prompt_text schema = take (SCHEMA_CHARS + 299) (schema_intro @ (if schema = [] then ''(empty)'' else schema) @ sql_rules)"

text \<open>The text is cached under the modification time of the database file (\<open>None\<close>: \<open>stat\<close> fails).\<close>

definition sqlite_system_extra ::
  "'db sqlite \<Rightarrow> string option \<Rightarrow> int option \<Rightarrow> 'db \<Rightarrow> (int \<times> string) option \<Rightarrow> string \<times> (int \<times> string) option" where
  "sqlite_system_extra eng path mtime db cache =
     (case (path, mtime) of
        (Some p, Some m) \<Rightarrow>
          (case cache of
             Some (m', x) \<Rightarrow>
               if m' = m then (x, cache)
               else let y = prompt_text (sqlite_introspect_text eng p db) in (y, Some (m, y))
           | None \<Rightarrow> let y = prompt_text (sqlite_introspect_text eng p db) in (y, Some (m, y)))
      | _ \<Rightarrow> ([], cache))"

section \<open>The request\<close>

text \<open>What the JSON reader has stored when it gives up.\<close>

function jread_stored :: "nat \<Rightarrow> string \<Rightarrow> string \<Rightarrow> string" where
  "jread_stored n [] got = got"
| "jread_stored n (c # p) got =
     (if c = DQUOTE then got
      else if c = BSLASH then
        (case jread_escape p of None \<Rightarrow> got | Some (cp, r) \<Rightarrow> jread_stored n r (utf8_put n got cp))
      else jread_stored n p (put_byte n got c))"
  by pat_completeness auto
termination by (relation "measure (\<lambda>(n, p, got). length p)") (auto dest: jread_escape_shorter)

text \<open>The session id of the request; an id the store would not accept is reported and dropped.\<close>

definition chat_session_id :: "'o chat_port \<Rightarrow> string \<Rightarrow> 'o \<Rightarrow> string \<times> 'o" where
  "chat_session_id port body o' =
     (case quoted_member body ''sessionId'' of
        None \<Rightarrow> ([], o')
      | Some v \<Rightarrow>
          (case read_text (AGENT_SESSION_ID_MAX + 1) v of
             None \<Rightarrow> (cstr (jread_stored (AGENT_SESSION_ID_MAX + 1) (tl v) []),
                      cp_event port o' ''error'' (Some ''sessionId must be a JSON string''))
           | Some sid \<Rightarrow>
               if sid \<noteq> [] \<and> \<not> session_id_valid sid then ([], cp_event port o' ''error'' (Some ''sessionId rejected''))
               else (sid, o')))"

text \<open>What the handler uses of the process and the state that outlives a request.\<close>

record ('d, 'db) chat_env =
  ct_env :: "string \<Rightarrow> string option"
  ct_dotenv :: "string option"
  ct_tools :: "('d, 'db) tool_env"
  ct_reg :: "tool_fn registry"
  ct_up :: "nat \<Rightarrow> string \<Rightarrow> curl_outcome"
  ct_slot :: bool
  ct_souls :: "string option"
  ct_db_mtime :: "int option"
  ct_draw :: "nat \<Rightarrow> int"
  ct_sends :: "send_result list"

record 'db chat_state =
  cs_tools :: "'db tool_state"
  cs_schema :: "(int \<times> string) option"

definition agent_env_of :: "(string \<Rightarrow> string option) \<Rightarrow> agent_env" where
  "agent_env_of env =
     \<lparr>ae_model = env ''LLM_MODEL'', ae_allowed = env ''LLM_ALLOWED_MODELS'', ae_rounds = env ''AGENT_MAX_ROUNDS'',
      ae_source = env ''AGENT_TOOL_SOURCE''\<rparr>"

definition block_text :: "string \<Rightarrow> string" where
  "block_text x = (if x = [] then [] else x @ [LF, LF])"

definition chat_extra :: "string \<Rightarrow> string option \<Rightarrow> string \<Rightarrow> Session \<Rightarrow> string \<Rightarrow> string option" where
  "chat_extra index env_extra sqlx sess system =
     map_option
       (\<lambda>mem. block_text index @ block_text (case env_extra of None \<Rightarrow> [] | Some x \<Rightarrow> x) @ block_text sqlx @ mem @
              (if system = [] then [] else [LF, LF] @ ''---'' @ [LF] @ system))
       (session_render_extra sess)"

text \<open>The stored transcript is replayed when the client has sent no history.\<close>

definition replay :: "Session \<Rightarrow> ChatRequest \<Rightarrow> ChatRequest" where
  "replay sess cr =
     (if cr_session_id cr \<noteq> [] \<and> cr_history cr = [] then cr\<lparr>cr_history := take AGENT_MAX_HISTORY (ss_msgs sess)\<rparr> else cr)"

text \<open>The turn is added to the transcript as it is on disk by then; \<open>None\<close> when a copy reads behind its source.\<close>

definition persist_turn :: "(nat \<Rightarrow> bool) \<Rightarrow> bool \<Rightarrow> string \<Rightarrow> string \<Rightarrow> string \<Rightarrow> memory_files \<Rightarrow> memory_files option" where
  "persist_turn alloc io sid message answer mem =
     (case session_append (snd (session_load alloc mem sid)) ''user'' message of
        None \<Rightarrow> None
      | Some s1 \<Rightarrow> map_option (\<lambda>s2. snd (session_save alloc io s2 mem)) (session_append s1 ''assistant'' answer))"

section \<open>The engines\<close>

type_synonym 'db chat_run = "(ChatOut option, 'db tool_state) agent_state"

definition chat_engine ::
  "('d, 'db) chat_env \<Rightarrow> (string \<Rightarrow> string option) \<Rightarrow> string \<Rightarrow> ChatRequest \<Rightarrow> string \<Rightarrow> 'db chat_run \<Rightarrow> 'db chat_run" where
  "chat_engine ce env path cr extra s =
     (let port = sse_port (te_alloc (ct_tools ce)); aenv = agent_env_of env
      in if path = ''/react/api/pse'' \<or> pse_enabled (env ''PSE_ENABLED'')
         then pse_run (ct_slot ce) (ct_tools ce) (ct_reg ce) aenv port (ct_up ce) (ct_souls ce) cr extra s
         else agent_run (ct_slot ce) (ct_tools ce) (ct_reg ce) aenv port (ct_up ce) cr extra s)"

text \<open>After the run: the turn is stored when there is a session, the client is still there, and something was said.\<close>

definition after_run :: "('d, 'db) chat_env \<Rightarrow> ChatRequest \<Rightarrow> 'db chat_run \<Rightarrow> 'db chat_run option" where
  "after_run ce cr s =
     (case as_out s of
        None \<Rightarrow> Some s
      | Some out \<Rightarrow>
          if \<not> as_crashed s \<and> cr_session_id cr \<noteq> [] \<and> co_ok out \<and> sb_text (co_cap out) \<noteq> []
          then map_option (\<lambda>m. s\<lparr>as_tools := (as_tools s)\<lparr>ts_memory := m\<rparr>\<rparr>)
                 (persist_turn (te_alloc (ct_tools ce)) (te_io (ct_tools ce)) (cr_session_id cr) (cr_message cr)
                    (cstr (sb_text (co_cap out))) (ts_memory (as_tools s)))
          else Some s)"

definition chat_with_model ::
  "('d, 'db) chat_env \<Rightarrow> (string \<Rightarrow> string option) \<Rightarrow> string \<Rightarrow> ChatRequest \<Rightarrow> (int \<times> string) option \<Rightarrow> 'db chat_run \<Rightarrow>
   ('db chat_run \<times> (int \<times> string) option) option" where
  "chat_with_model ce env path cr cache s =
     (let ev = ct_tools ce; sid = cr_session_id cr;
          sess = (if sid = [] then empty_session [] else snd (session_load (te_alloc ev) (ts_memory (as_tools s)) sid));
          cr1 = replay sess cr;
          (sqlx, cache1) = sqlite_system_extra (te_sql ev) (te_db_path ev) (ct_db_mtime ce) (ts_db (as_tools s)) cache
      in case chat_extra (si_text (te_skills ev)) (env ''LLM_SYSTEM_EXTRA'') sqlx sess (cr_system cr) of
           None \<Rightarrow> None
         | Some extra \<Rightarrow>
             let s1 = s\<lparr>as_out := map_option (\<lambda>out. out\<lparr>co_cap_on := (sid \<noteq> [])\<rparr>) (as_out s)\<rparr>
             in map_option (\<lambda>s2. (s2, cache1)) (after_run ce cr1 (chat_engine ce env path cr1 extra s1)))"

section \<open>The handler\<close>

text \<open>The size of a \<open>ChatRequest\<close> in bytes.\<close>

definition CHAT_REQUEST_SIZE :: nat where "CHAT_REQUEST_SIZE = 93972"

definition idle_run :: "('d, 'db) chat_env \<Rightarrow> 'db chat_state \<Rightarrow> 'db chat_run" where
  "idle_run ce st =
     \<lparr>as_out = Some \<lparr>co_ok = True, co_bytes = 0, co_cap_on = False, co_cap = zero_sbuf, co_wire = [], co_sched = ct_sends ce\<rparr>,
      as_cap = [], as_tools = cs_tools st, as_sent = [], as_ran = [], as_crashed = False\<rparr>"

definition start_run :: "('d, 'db) chat_env \<Rightarrow> 'db chat_state \<Rightarrow> 'db chat_run" where
  "start_run ce st = (let s = idle_run ce st in s\<lparr>as_out := Option.bind (as_out s) (\<lambda>out. chat_send out CHAT_SSE_HEAD)\<rparr>)"

definition event :: "('d, 'db) chat_env \<Rightarrow> string \<Rightarrow> string option \<Rightarrow> 'db chat_run \<Rightarrow> 'db chat_run" where
  "event ce t d s = s\<lparr>as_out := cp_event (sse_port (te_alloc (ct_tools ce))) (as_out s) t d\<rparr>"

text \<open>The answer to a parsed request with a message.\<close>

definition chat_answer ::
  "('d, 'db) chat_env \<Rightarrow> HttpRequest \<Rightarrow> ChatRequest \<Rightarrow> (int \<times> string) option \<Rightarrow> 'db chat_run \<Rightarrow>
   ('db chat_run \<times> (int \<times> string) option) option" where
  "chat_answer ce req cr cache s =
     (let port = sse_port (te_alloc (ct_tools ce));
          (sid, o1) = chat_session_id port (case rq_body req of None \<Rightarrow> [] | Some b \<Rightarrow> cstr b) (as_out s);
          cr1 = cr\<lparr>cr_session_id := sid\<rparr>; s1 = s\<lparr>as_out := o1\<rparr>;
          env = llm_env_init (ct_dotenv ce) (ct_env ce)
      in if llm_env_or env ''LLM_API_KEY'' [] \<noteq> [] then chat_with_model ce env (rq_path req) cr1 cache s1
         else Some (s1\<lparr>as_out := demo_reply port (ct_draw ce) (cr_message cr1) (as_out s1)\<rparr>, cache))"

definition chat_body ::
  "('d, 'db) chat_env \<Rightarrow> HttpRequest \<Rightarrow> (int \<times> string) option \<Rightarrow> 'db chat_run \<Rightarrow> ('db chat_run \<times> (int \<times> string) option) option" where
  "chat_body ce req cache s =
     (case chat_parse_body (map_option cstr (rq_body req)) of
        None \<Rightarrow> Some (event ce ''error'' (Some ''request body must be JSON: {message, history?}'') s, cache)
      | Some cr0 \<Rightarrow>
          let cr = cr0\<lparr>cr_message := trim_whitespace (cr_message cr0)\<rparr>
          in if cr_message cr = [] then Some (event ce ''error'' (Some ''empty message'') s, cache)
             else chat_answer ce req cr cache s)"

definition finish_chat :: "('d, 'db) chat_env \<Rightarrow> HttpResponse \<Rightarrow> 'db chat_run \<Rightarrow> HttpResponse \<times> 'db chat_run" where
  "finish_chat ce resp s =
     (let s1 = (if \<not> as_crashed s \<and> cp_ok (sse_port (te_alloc (ct_tools ce))) (as_out s) then event ce ''done'' None s else s)
      in (case as_out s1 of
            None \<Rightarrow> resp
          | Some out \<Rightarrow>
              if as_crashed s1 then resp
              else resp\<lparr>rs_status_code := 200, rs_status_text := ''OK'', rs_content_type := ''text/event-stream'',
                        rs_body_length := co_bytes out, rs_handled := True\<rparr>, s1))"

text \<open>
  The response, the run and the cache; \<open>None\<close> when a string was read behind its end, \<open>as_out\<close> is \<open>None\<close> when a send
  has not returned.
\<close>

definition llm_handle_chat ::
  "('d, 'db) chat_env \<Rightarrow> HttpRequest \<Rightarrow> HttpResponse \<Rightarrow> 'db chat_state \<Rightarrow>
   (HttpResponse \<times> 'db chat_run \<times> (int \<times> string) option) option" where
  "llm_handle_chat ce req resp st =
     (if rq_method req \<noteq> ''POST'' then
        Some (resp\<lparr>rs_status_code := 405, rs_status_text := ''Method Not Allowed''\<rparr>, idle_run ce st, cs_schema st)
      else if \<not> request_is_same_origin req then
        Some (resp\<lparr>rs_status_code := 403, rs_status_text := ''Forbidden''\<rparr>, idle_run ce st, cs_schema st)
      else
        map_option (\<lambda>(s, cache). case finish_chat ce resp s of (r, s1) \<Rightarrow> (r, s1, cache))
          (if te_alloc (ct_tools ce) CHAT_REQUEST_SIZE then chat_body ce req (cs_schema st) (start_run ce st)
           else Some (event ce ''error'' (Some ''out of memory'') (start_run ce st), cs_schema st)))"

section \<open>What the handler sends upstream\<close>

lemma session_load_msgs: "list_all msg_wf (ss_msgs (snd (session_load alloc files id')))"
proof (cases "id' = [] \<or> session_id_valid id'")
  case True
  obtain rc s where l: "session_load alloc files id' = (rc, s)" by (metis prod.exhaust)
  note e = empty_session_wf [OF True]
  have "s = empty_session id' \<or> (\<exists>p ok. load_members p (empty_session id') = (s, ok))"
    using l True by (auto simp: session_load_def Let_def split: stored.splits if_splits prod.splits)
  then have "body_wf s"
  proof (elim disjE exE)
    fix p ok
    assume "load_members p (empty_session id') = (s, ok)"
    from load_members_wf [OF this] e show ?thesis by (auto simp: session_wf_body)
  qed (use e in \<open>simp add: session_wf_body\<close>)
  then show ?thesis using l by (simp add: body_wf_def)
qed (simp add: session_load_def empty_session_def)

lemma msg_wf_role: "msg_wf m \<Longrightarrow> plain_role (fst m)"
  by (simp add: msg_wf_def plain_role_def)

lemma replay_plain:
  "list_all (\<lambda>h. plain_role (fst h)) (cr_history cr) \<Longrightarrow> list_all msg_wf (ss_msgs sess) \<Longrightarrow>
   list_all (\<lambda>h. plain_role (fst h)) (cr_history (replay sess cr))"
  using msg_wf_role by (auto simp: replay_def list_all_iff dest!: in_set_takeD)

lemma agent_run_requests:
  fixes s :: "('o, 'db tool_state) agent_state"
  assumes "reg_reach reg" and "te_alloc ev = (\<lambda>_. True)" and "list_all (\<lambda>h. plain_role (fst h)) (cr_history req)" and "as_sent s = []"
  shows "list_all (agent_request env req agent_system_default extra) (as_sent (agent_run slot ev reg env port up req extra s))"
  using agent_run_inner_requests [OF assms(1-3), of env port up agent_system_default extra "agent_max_rounds (ae_rounds env)" s] assms(4)
  by (auto simp: agent_run_def agent_run_ex_def)

definition engine_request :: "agent_env \<Rightarrow> souls \<Rightarrow> ChatRequest \<Rightarrow> string \<Rightarrow> string \<Rightarrow> bool" where
  "engine_request env so cr extra body \<longleftrightarrow> agent_request env cr agent_system_default extra body \<or> pse_request env so cr extra body"

lemma chat_engine_requests:
  assumes "reg_reach (ct_reg ce)" and "te_alloc (ct_tools ce) = (\<lambda>_. True)" and "list_all (\<lambda>h. plain_role (fst h)) (cr_history cr)"
    and "as_sent s = []"
  shows "list_all (engine_request (agent_env_of env) (read_souls (te_fs (ct_tools ce)) (ct_souls ce)) cr extra) (as_sent (chat_engine ce env path cr extra s))"
proof -
  let ?port = "sse_port (te_alloc (ct_tools ce))"
  have a: "list_all (agent_request (agent_env_of env) cr agent_system_default extra)
      (as_sent (agent_run (ct_slot ce) (ct_tools ce) (ct_reg ce) (agent_env_of env) ?port (ct_up ce) cr extra s))"
    by (rule agent_run_requests) (use assms in auto)
  have "adds (pse_request (agent_env_of env) (read_souls (te_fs (ct_tools ce)) (ct_souls ce)) cr extra) 573 1512 s
      (pse_run (ct_slot ce) (ct_tools ce) (ct_reg ce) (agent_env_of env) ?port (ct_up ce) (ct_souls ce) cr extra s)"
    by (rule pse_run_adds [OF assms(1,2)])
  then have "list_all (pse_request (agent_env_of env) (read_souls (te_fs (ct_tools ce)) (ct_souls ce)) cr extra)
      (as_sent (pse_run (ct_slot ce) (ct_tools ce) (ct_reg ce) (agent_env_of env) ?port (ct_up ce) (ct_souls ce) cr extra s))"
    using assms(4) by (auto simp: adds_def)
  with a show ?thesis by (auto simp: chat_engine_def Let_def engine_request_def list_all_iff)
qed

lemma after_run_sent: "after_run ce cr s = Some s' \<Longrightarrow> as_sent s' = as_sent s"
  by (auto simp: after_run_def split: option.splits if_splits)

lemma replay_message [simp]: "cr_message (replay sess cr) = cr_message cr"
  by (simp add: replay_def)

lemma chat_with_model_requests:
  assumes "reg_reach (ct_reg ce)" and "te_alloc (ct_tools ce) = (\<lambda>_. True)" and "list_all (\<lambda>h. plain_role (fst h)) (cr_history cr)"
    and "as_sent s = []" and "chat_with_model ce env path cr cache s = Some (s', cache')"
  obtains cr1 extra where "cr_message cr1 = cr_message cr"
    "list_all (engine_request (agent_env_of env) (read_souls (te_fs (ct_tools ce)) (ct_souls ce)) cr1 extra) (as_sent s')"
proof -
  define sess where "sess = (if cr_session_id cr = [] then empty_session []
      else snd (session_load (te_alloc (ct_tools ce)) (ts_memory (as_tools s)) (cr_session_id cr)))"
  have m: "list_all msg_wf (ss_msgs sess)" using session_load_msgs by (simp add: sess_def empty_session_def)
  define s1 where "s1 = s\<lparr>as_out := map_option (\<lambda>out. out\<lparr>co_cap_on := (cr_session_id cr \<noteq> [])\<rparr>) (as_out s)\<rparr>"
  have s1: "as_sent s1 = []" using assms(4) by (simp add: s1_def)
  from assms(5) obtain extra where r: "after_run ce (replay sess cr) (chat_engine ce env path (replay sess cr) extra s1) = Some s'"
    by (auto simp: chat_with_model_def Let_def sess_def [symmetric] s1_def [symmetric] split: prod.splits option.splits)
  have "list_all (\<lambda>h. plain_role (fst h)) (cr_history (replay sess cr))" by (rule replay_plain [OF assms(3) m])
  from chat_engine_requests [OF assms(1,2) this s1, of env extra path] after_run_sent [OF r] that [of "replay sess cr" extra]
  show ?thesis by simp
qed

lemma event_sent [simp]: "as_sent (event ce t d s) = as_sent s"
  by (simp add: event_def)

lemma start_run_sent [simp]: "as_sent (start_run ce st) = []" "as_sent (idle_run ce st) = []"
  by (simp_all add: start_run_def idle_run_def Let_def)

lemma finish_chat_sent: "finish_chat ce resp s = (r, s') \<Longrightarrow> as_sent s' = as_sent s"
  by (auto simp: finish_chat_def Let_def)

text \<open>
  (C24) What reaches the model comes from a chat request.  Every body the handler sends upstream is well-formed for one of the
  two engines, and it is sent only for a same-origin POST whose body parses, with the request's own trimmed, non-empty
  message as the user's message (or the task), and only when an API key is configured.
\<close>

theorem chat_upstream_sound:
  assumes "reg_reach (ct_reg ce)" and "te_alloc (ct_tools ce) = (\<lambda>_. True)"
    and "llm_handle_chat ce req resp st = Some (resp', s', cache')" and "body \<in> set (as_sent s')"
  shows "rq_method req = ''POST'' \<and> request_is_same_origin req \<and>
    llm_env_or (llm_env_init (ct_dotenv ce) (ct_env ce)) ''LLM_API_KEY'' [] \<noteq> [] \<and>
    (\<exists>cr0 cr extra. chat_parse_body (map_option cstr (rq_body req)) = Some cr0 \<and> cr_message cr = trim_whitespace (cr_message cr0) \<and>
       cr_message cr \<noteq> [] \<and> engine_request (agent_env_of (llm_env_init (ct_dotenv ce) (ct_env ce)))
         (read_souls (te_fs (ct_tools ce)) (ct_souls ce)) cr extra body)"
proof -
  have gate: "rq_method req = ''POST''" "request_is_same_origin req"
    using assms(3,4) by (auto simp: llm_handle_chat_def split: if_splits)
  obtain s1 c where b: "chat_body ce req (cs_schema st) (start_run ce st) = Some (s1, c)"
    using gate assms(2,3) by (cases "chat_body ce req (cs_schema st) (start_run ce st)") (auto simp: llm_handle_chat_def)
  have f: "finish_chat ce resp s1 = (resp', s')"
    using gate assms(2,3) b by (cases "finish_chat ce resp s1") (simp add: llm_handle_chat_def)
  have sent: "body \<in> set (as_sent s1)" using finish_chat_sent [OF f] assms(4) by simp
  obtain cr0 where cr0: "chat_parse_body (map_option cstr (rq_body req)) = Some cr0"
    using b sent by (auto simp: chat_body_def split: option.splits)
  define cr where "cr = cr0\<lparr>cr_message := trim_whitespace (cr_message cr0)\<rparr>"
  have cr: "cr_message cr \<noteq> []" "chat_answer ce req cr (cs_schema st) (start_run ce st) = Some (s1, c)"
    using b sent cr0 by (auto simp: chat_body_def Let_def cr_def split: if_splits)
  define env where "env = llm_env_init (ct_dotenv ce) (ct_env ce)"
  obtain sid o1 where so: "chat_session_id (sse_port (te_alloc (ct_tools ce))) (case rq_body req of None \<Rightarrow> [] | Some b \<Rightarrow> cstr b) (as_out (start_run ce st)) = (sid, o1)"
    by (metis prod.exhaust)
  have key: "llm_env_or env ''LLM_API_KEY'' [] \<noteq> []"
    and w: "chat_with_model ce env (rq_path req) (cr\<lparr>cr_session_id := sid\<rparr>) (cs_schema st) ((start_run ce st)\<lparr>as_out := o1\<rparr>) = Some (s1, c)"
    using cr(2) sent so by (auto simp: chat_answer_def Let_def env_def split: if_splits)
  have "chat_ok cr0" using chat_request_ok [OF cr0] .
  then have h: "list_all (\<lambda>h. plain_role (fst h)) (cr_history (cr\<lparr>cr_session_id := sid\<rparr>))"
    by (auto simp: chat_ok_def cr_def list_all_iff)
  have e: "as_sent ((start_run ce st)\<lparr>as_out := o1\<rparr>) = []" by simp
  from chat_with_model_requests [OF assms(1,2) h e w] obtain cr1 extra where c: "cr_message cr1 = cr_message cr"
    and l: "list_all (engine_request (agent_env_of env) (read_souls (te_fs (ct_tools ce)) (ct_souls ce)) cr1 extra) (as_sent s1)" by auto
  have "engine_request (agent_env_of env) (read_souls (te_fs (ct_tools ce)) (ct_souls ce)) cr1 extra body"
    using l sent by (simp add: list_all_iff)
  then show ?thesis using gate key cr0 cr(1) c unfolding env_def cr_def by auto
qed

definition demo_chat_env :: "(int, unit) chat_env" where
  "demo_chat_env =
     \<lparr>ct_env = [''LLM_API_KEY'' \<mapsto> ''k'', ''LLM_MODEL'' \<mapsto> ''m'', ''AGENT_TOOL_SOURCE'' \<mapsto> ''gateway''], ct_dotenv = None,
      ct_tools = demo_tool_env, ct_reg = empty_registry, ct_up = (\<lambda>_ _. UpForkFailed), ct_slot = True, ct_souls = None,
      ct_db_mtime = None, ct_draw = (\<lambda>_. 0), ct_sends = [Sent 1000, Sent 1000, Sent 1000, Sent 1000]\<rparr>"

definition demo_post :: HttpRequest where
  "demo_post = zero_request\<lparr>rq_method := ''POST'', rq_path := ''/react/api/chat'', rq_body := Some (CHR ''{'' # json_quote ''message'' @ CHR '':'' # json_quote ''hi'' @ ''}'')\<rparr>"

definition demo_chat_state :: "unit chat_state" where
  "demo_chat_state = \<lparr>cs_tools = \<lparr>ts_memory = (\<lambda>_. NoFile), ts_db = ()\<rparr>, cs_schema = None\<rparr>"

lemma failed_round_sent:
  assumes "cp_ok port (as_out s)"
  shows "length (as_sent (agent_run True ev reg env port (\<lambda>_ _. UpForkFailed) req extra s)) = Suc (length (as_sent s))"
proof -
  have "run_rounds env (agent_max_rounds (ae_rounds env)) req > 0"
    by (auto simp: run_rounds_def agent_max_rounds_def AGENT_MAX_ROUNDS_DEFAULT_def Let_def)
  then obtain m where "run_rounds env (agent_max_rounds (ae_rounds env)) req = Suc m" by (cases "run_rounds env (agent_max_rounds (ae_rounds env)) req") auto
  then show ?thesis
    using assms by (simp add: agent_run_def agent_run_ex_def agent_run_inner_def Let_def round_attempts.simps agent_round_def start_io_def
        round_result_def agent_retryable_def round_decide_def UP_ERR_LOCAL_def UP_ERR_TIMEOUT_def UP_ERR_EMPTY_def UP_ERR_HTTP_BASE_def)
qed

lemma after_run_no_session: "cr_session_id cr = [] \<Longrightarrow> after_run ce cr s = Some s"
  by (simp add: after_run_def split: option.split)

lemma demo_post_parsed:
  "rq_method demo_post = ''POST''" "rq_path demo_post = ''/react/api/chat''" "request_is_same_origin demo_post"
  "chat_parse_body (map_option cstr (rq_body demo_post)) = Some (empty_chat\<lparr>cr_message := ''hi''\<rparr>)"
  "quoted_member (case rq_body demo_post of None \<Rightarrow> [] | Some b \<Rightarrow> cstr b) ''sessionId'' = None" "trim_whitespace ''hi'' = ''hi''"
  by (simp add: demo_post_def, simp add: demo_post_def, code_simp+)

lemma demo_head: "\<exists>out. as_out (start_run demo_chat_env demo_chat_state) = Some out \<and> co_ok out"
proof -
  have "0 < length CHAT_SSE_HEAD \<and> length CHAT_SSE_HEAD \<le> 1000" by code_simp
  moreover have "0 < length h \<Longrightarrow> length h \<le> 1000 \<Longrightarrow> \<exists>d rs. net_write_all [Sent 1000, Sent 1000, Sent 1000, Sent 1000] h = (Some 0, d, rs)" for h
    by (cases h) auto
  ultimately have "\<exists>d rs. net_write_all [Sent 1000, Sent 1000, Sent 1000, Sent 1000] CHAT_SSE_HEAD = (Some 0, d, rs)" by blast
  then show ?thesis
    by (auto simp: start_run_def idle_run_def Let_def chat_send_def demo_chat_env_def)
qed

lemma demo_chat_runs:
  "\<exists>r s c body. llm_handle_chat demo_chat_env demo_post zero_response demo_chat_state = Some (r, s, c) \<and> body \<in> set (as_sent s)"
proof -
  let ?env = "llm_env_init (ct_dotenv demo_chat_env) (ct_env demo_chat_env)"
  let ?s0 = "start_run demo_chat_env demo_chat_state"
  let ?cr = "empty_chat\<lparr>cr_message := ''hi''\<rparr>"
  have env: "llm_env_or ?env ''LLM_API_KEY'' [] \<noteq> []" "?env ''LLM_SYSTEM_EXTRA'' = None" "?env ''PSE_ENABLED'' = None"
    by (simp_all add: demo_chat_env_def llm_env_init_def llm_env_or_def)
  obtain out where out: "as_out ?s0 = Some out" "co_ok out" using demo_head by blast
  define s1 where "s1 = ?s0\<lparr>as_out := Some (out\<lparr>co_cap_on := False\<rparr>)\<rparr>"
  define s2 where "s2 = chat_engine demo_chat_env ?env ''/react/api/chat'' ?cr [] s1"
  have "length (as_sent s2) = Suc 0"
  proof -
    have "cp_ok (sse_port (te_alloc (ct_tools demo_chat_env))) (as_out s1)" using out by (simp add: s1_def sse_port_def)
    moreover have "as_sent s1 = []" by (simp add: s1_def)
    moreover have "ct_slot demo_chat_env" "ct_up demo_chat_env = (\<lambda>_ _. UpForkFailed)" by (simp_all add: demo_chat_env_def)
    ultimately show ?thesis
      by (simp add: s2_def chat_engine_def Let_def env pse_enabled_def failed_round_sent)
  qed
  then obtain body where body: "body \<in> set (as_sent s2)" by (cases "as_sent s2") auto
  have c: "si_text (te_skills (ct_tools demo_chat_env)) = []" "te_db_path (ct_tools demo_chat_env) = None" "te_alloc (ct_tools demo_chat_env) = (\<lambda>_. True)"
    by (simp_all add: demo_chat_env_def demo_tool_env_def)
  have cr: "cr_session_id ?cr = []" "cr_system ?cr = []" "cr_message ?cr = ''hi''" "?cr\<lparr>cr_session_id := []\<rparr> = ?cr" by (simp_all add: empty_chat_def)
  have r: "session_render_extra (empty_session []) = Some []" by (simp add: session_render_extra_def empty_session_def set_str_def)
  have m: "chat_with_model demo_chat_env ?env ''/react/api/chat'' ?cr None ?s0 = Some (s2, None)"
    using out by (simp add: chat_with_model_def Let_def cr env c sqlite_system_extra_def chat_extra_def r block_text_def replay_def
        after_run_no_session s2_def s1_def)
  have "chat_answer demo_chat_env demo_post ?cr None ?s0 = Some (s2, None)"
    using m by (simp add: chat_answer_def Let_def chat_session_id_def demo_post_parsed cr env)
  then have b: "chat_body demo_chat_env demo_post (cs_schema demo_chat_state) ?s0 = Some (s2, None)"
    by (simp add: chat_body_def demo_post_parsed Let_def cr demo_chat_state_def)
  obtain rr ss where f: "finish_chat demo_chat_env zero_response s2 = (rr, ss)" by (metis prod.exhaust)
  have "llm_handle_chat demo_chat_env demo_post zero_response demo_chat_state = Some (rr, ss, None)"
    by (simp add: llm_handle_chat_def demo_post_parsed c b f)
  then show ?thesis using body finish_chat_sent [OF f] by metis
qed

theorem chat_upstream_sound_witness:
  "\<exists>cr extra body. cr_message cr = ''hi'' \<and> engine_request (agent_env_of (llm_env_init (ct_dotenv demo_chat_env) (ct_env demo_chat_env)))
     (read_souls (te_fs (ct_tools demo_chat_env)) (ct_souls demo_chat_env)) cr extra body"
proof -
  obtain r s c body where d: "llm_handle_chat demo_chat_env demo_post zero_response demo_chat_state = Some (r, s, c)" "body \<in> set (as_sent s)"
    using demo_chat_runs by blast
  have "reg_reach (ct_reg demo_chat_env)" "te_alloc (ct_tools demo_chat_env) = (\<lambda>_. True)"
    by (simp_all add: demo_chat_env_def demo_tool_env_def reach_init)
  from chat_upstream_sound [OF this d] show ?thesis by (auto simp: demo_post_parsed)
qed

section \<open>A turn is remembered\<close>

lemma utf8_first_char:
  assumes "utf8_wf x" and "x \<noteq> []"
  shows "\<exists>m. 1 \<le> m \<and> m \<le> 4 \<and> m \<le> length x \<and> utf8_wf (take m x)"
  using assms(1)
proof cases
  case (wf_1 a s)
  then show ?thesis by (intro exI [of _ 1]) (auto intro: utf8_wf.intros)
next
  case (wf_2 a b s)
  then show ?thesis by (intro exI [of _ 2]) (auto simp: numeral_2_eq_2 intro: utf8_wf.intros)
next
  case (wf_3 a b c s)
  then show ?thesis by (intro exI [of _ 3]) (auto simp: numeral_3_eq_3 intro: utf8_wf.intros)
next
  case (wf_4 a b c d s)
  then show ?thesis by (intro exI [of _ 4]) (auto simp: eval_nat_numeral intro: utf8_wf.intros)
qed (use assms(2) in simp)

definition kept_msgs :: "(string \<times> string) list \<Rightarrow> (string \<times> string) list" where
  "kept_msgs ms = (if length ms \<ge> SESSION_MSG_MAX then tl ms else ms)"

lemma kept_msgs_twice:
  "length ms \<le> SESSION_MSG_MAX \<Longrightarrow>
   kept_msgs (kept_msgs ms @ [u]) @ [a] = drop (length (ms @ [u, a]) - SESSION_MSG_MAX) (ms @ [u, a])"
proof (cases ms)
  case (Cons m ms')
  assume l: "length ms \<le> SESSION_MSG_MAX"
  show ?thesis
  proof (cases "length ms = SESSION_MSG_MAX")
    case True
    then have "SESSION_MSG_MAX = Suc (length ms')" using Cons by simp
    then show ?thesis using Cons by (cases ms') (simp_all add: kept_msgs_def SESSION_MSG_MAX_def)
  next
    case False
    then have "length ms < SESSION_MSG_MAX" using l by simp
    then show ?thesis using Cons by (cases "Suc (length ms) = SESSION_MSG_MAX") (auto simp: kept_msgs_def)
  qed
qed (simp add: kept_msgs_def SESSION_MSG_MAX_def)

text \<open>The longest front part of whole characters within \<open>n\<close> bytes.\<close>

definition whole_chars :: "nat \<Rightarrow> string \<Rightarrow> string \<Rightarrow> bool" where
  "whole_chars n x y \<longleftrightarrow> (\<exists>k \<le> length x. y = take k x \<and> k \<le> n \<and> utf8_wf y \<and>
     (\<forall>m \<le> length x. m \<le> n \<and> utf8_wf (take m x) \<longrightarrow> m \<le> k))"

lemma whole_chars_short: "utf8_wf x \<Longrightarrow> length x \<le> n \<Longrightarrow> whole_chars n x y \<Longrightarrow> y = x"
  by (auto simp: whole_chars_def)

lemma session_append_turn:
  assumes "session_wf s" and "role = ''user'' \<or> role = ''assistant''" and "utf8_wf x" and "x \<noteq> []"
  shows "\<exists>y. session_append s role x = Some (s\<lparr>ss_msgs := kept_msgs (ss_msgs s) @ [(role, y)]\<rparr>) \<and>
    session_wf (s\<lparr>ss_msgs := kept_msgs (ss_msgs s) @ [(role, y)]\<rparr>) \<and> whole_chars SESSION_CONTENT_MAX x y"
proof -
  have r: "set_str 16 role = role" using assms(2) by (auto simp: set_str_def)
  obtain k where k: "set_str_utf8 (SESSION_CONTENT_MAX + 1) (Some (x @ [NUL])) = Some (take k x)" "k < SESSION_CONTENT_MAX + 1" "k \<le> length x"
      "utf8_wf (take k x)" "\<forall>m. utf8_wf (take m x) \<and> m < SESSION_CONTENT_MAX + 1 \<and> m \<le> length x \<longrightarrow> m \<le> k"
    using set_str_utf8_wf [OF assms(3), of "SESSION_CONTENT_MAX + 1"] by auto
  obtain m where "1 \<le> m" "m \<le> 4" "m \<le> length x" "utf8_wf (take m x)" using utf8_first_char [OF assms(3,4)] by blast
  then have "1 \<le> k" using k(5) by (fastforce simp: SESSION_CONTENT_MAX_def)
  then have "take k x \<noteq> []" using assms(4) by simp
  moreover have "NUL \<notin> set (take k x)" using utf8_wf_no_NUL [OF k(4)] .
  ultimately have w: "msg_wf (role, take k x)" using assms(2) k(2) by (auto simp: msg_wf_def fits_def)
  have "length (kept_msgs (ss_msgs s)) < SESSION_MSG_MAX" "list_all msg_wf (kept_msgs (ss_msgs s))"
    using assms(1) by (cases "ss_msgs s"; auto simp: kept_msgs_def session_wf_def SESSION_MSG_MAX_def)+
  then have "session_wf (s\<lparr>ss_msgs := kept_msgs (ss_msgs s) @ [(role, take k x)]\<rparr>)" using assms(1) w by (simp add: session_wf_def)
  moreover have "whole_chars SESSION_CONTENT_MAX x (take k x)"
    unfolding whole_chars_def using k(2-5) by (intro exI [of _ k]) auto
  ultimately show ?thesis using k(1) r by (intro exI [of _ "take k x"]) (simp add: session_append_def kept_msgs_def Let_def)
qed

text \<open>
  (C26) A turn is remembered.  After a run with a valid session id whose file is missing or can be read, for which the
  client is still there and something was said, loading the session gives the last ten messages of the list that
  consists of the transcript on disk, the user's message and the answer, each of these two cut to the longest front part
  of whole characters within 2000 bytes (uncut when it is not longer); the facts are as they were, and every other session
  is unchanged.  (A file that cannot be read is overwritten: \<open>unreadable_session_overwritten\<close>.)
\<close>

theorem chat_turn_remembered:
  assumes "te_alloc (ct_tools ce) = (\<lambda>_. True)" and "te_io (ct_tools ce)" and "\<not> as_crashed s" and "as_out s = Some out" and "co_ok out"
    and "session_id_valid (cr_session_id cr)" and "session_load (\<lambda>_. True) (ts_memory (as_tools s)) (cr_session_id cr) = (rc, old)" and "0 \<le> rc"
    and "utf8_wf (cr_message cr)" and "cr_message cr \<noteq> []"
    and "utf8_wf (sb_text (co_cap out))" and "sb_text (co_cap out) \<noteq> []"
  shows "\<exists>s' q a msgs. after_run ce cr s = Some s' \<and>
    whole_chars SESSION_CONTENT_MAX (cr_message cr) q \<and> whole_chars SESSION_CONTENT_MAX (sb_text (co_cap out)) a \<and>
    msgs = ss_msgs old @ [(''user'', q), (''assistant'', a)] \<and>
    session_load (\<lambda>_. True) (ts_memory (as_tools s')) (cr_session_id cr) = (0, old\<lparr>ss_msgs := drop (length msgs - SESSION_MSG_MAX) msgs\<rparr>) \<and>
    (length (cr_message cr) \<le> SESSION_CONTENT_MAX \<longrightarrow> q = cr_message cr) \<and>
    (length (sb_text (co_cap out)) \<le> SESSION_CONTENT_MAX \<longrightarrow> a = sb_text (co_cap out)) \<and>
    (\<forall>j. j \<noteq> cr_session_id cr \<longrightarrow>
       session_load (\<lambda>_. True) (ts_memory (as_tools s')) j = session_load (\<lambda>_. True) (ts_memory (as_tools s)) j)"
proof -
  let ?mem = "ts_memory (as_tools s)" and ?sid = "cr_session_id cr" and ?ans = "sb_text (co_cap out)"
  have old: "session_wf old" "ss_id old = ?sid" using session_load_wf [OF assms(7,8)] by simp_all
  obtain s1 q where a1: "session_append old ''user'' (cr_message cr) = Some s1" "session_wf s1"
      "s1 = old\<lparr>ss_msgs := kept_msgs (ss_msgs old) @ [(''user'', q)]\<rparr>" "whole_chars SESSION_CONTENT_MAX (cr_message cr) q"
    using session_append_turn [OF old(1), of "''user''" "cr_message cr"] assms(9,10) by auto
  obtain s2 a where a2: "session_append s1 ''assistant'' ?ans = Some s2" "session_wf s2"
      "s2 = s1\<lparr>ss_msgs := kept_msgs (ss_msgs s1) @ [(''assistant'', a)]\<rparr>" "whole_chars SESSION_CONTENT_MAX ?ans a"
    using session_append_turn [OF a1(2), of "''assistant''" ?ans] assms(11,12) by auto
  define msgs where "msgs = ss_msgs old @ [(''user'', q), (''assistant'', a)]"
  have "length (ss_msgs old) \<le> SESSION_MSG_MAX" using old(1) by (simp add: session_wf_def)
  then have s2: "s2 = old\<lparr>ss_msgs := drop (length msgs - SESSION_MSG_MAX) msgs\<rparr>"
    using kept_msgs_twice a2(3) a1(3) by (simp add: msgs_def)
  have id2: "ss_id s2 = ?sid" by (simp add: s2 old)
  have sv: "session_save (\<lambda>_. True) True s2 ?mem = (0, ?mem(session_path ?sid := Stored (session_text s2)))"
    using session_save_ok [of s2 ?mem] id2 assms(6) by simp
  have sid: "?sid \<noteq> []" using assms(6) by (auto simp: session_id_valid_def)
  have "NUL \<notin> set ?ans" using utf8_wf_no_NUL [OF assms(11)] .
  define s' where "s' = s\<lparr>as_tools := (as_tools s)\<lparr>ts_memory := ?mem(session_path ?sid := Stored (session_text s2))\<rparr>\<rparr>"
  have mem: "ts_memory (as_tools s') = ?mem(session_path ?sid := Stored (session_text s2))" by (simp add: s'_def)
  have cs: "cstr ?ans = ?ans" by (rule cstr_whole [OF \<open>NUL \<notin> set ?ans\<close>])
  have run: "after_run ce cr s = Some (s\<lparr>as_tools := (as_tools s)\<lparr>ts_memory := ?mem(session_path ?sid := Stored (session_text s2))\<rparr>\<rparr>)"
    using assms(1-5,7,12) sid a1(1) a2(1) sv cs by (simp add: after_run_def persist_turn_def)
  have load: "session_load (\<lambda>_. True) (?mem(session_path ?sid := Stored (session_text s2))) ?sid = (0, s2)"
    using session_load_saved [OF a2(2), of ?mem] id2 by simp
  have rest: "session_load (\<lambda>_. True) (?mem(session_path ?sid := Stored (session_text s2))) j = session_load (\<lambda>_. True) ?mem j"
    if "j \<noteq> ?sid" for j using session_load_other [OF sv] that id2 by simp
  show ?thesis
  proof (rule exI [of _ s'], rule exI [of _ q], rule exI [of _ a], rule exI [of _ msgs], intro conjI)
    show "after_run ce cr s = Some s'" unfolding s'_def by (rule run)
    show "session_load (\<lambda>_. True) (ts_memory (as_tools s')) ?sid = (0, old\<lparr>ss_msgs := drop (length msgs - SESSION_MSG_MAX) msgs\<rparr>)"
      unfolding mem load by (simp only: s2)
  qed (use rest a1(4) a2(4) whole_chars_short [OF assms(9) _ a1(4)] whole_chars_short [OF assms(11) _ a2(4)] in
      \<open>simp_all add: msgs_def mem\<close>)
qed

definition demo_turn :: ChatRequest where
  "demo_turn = empty_chat\<lparr>cr_message := ''hi'', cr_session_id := ''s1''\<rparr>"

definition demo_turn_run :: "unit chat_run" where
  "demo_turn_run =
     \<lparr>as_out = Some \<lparr>co_ok = True, co_bytes = 0, co_cap_on = True, co_cap = sb_str (\<lambda>_. True) zero_sbuf ''b'', co_wire = [], co_sched = []\<rparr>,
      as_cap = [], as_tools = \<lparr>ts_memory = (\<lambda>_. NoFile), ts_db = ()\<rparr>, as_sent = [], as_ran = [], as_crashed = False\<rparr>"

theorem chat_turn_remembered_witness:
  "\<exists>s'. after_run demo_chat_env demo_turn demo_turn_run = Some s' \<and>
     ss_msgs (snd (session_load (\<lambda>_. True) (ts_memory (as_tools s')) ''s1'')) = [(''user'', ''hi''), (''assistant'', ''b'')]"
proof -
  have e: "te_alloc (ct_tools demo_chat_env) = (\<lambda>_. True)" "te_io (ct_tools demo_chat_env)"
    by (simp_all add: demo_chat_env_def demo_tool_env_def)
  define out where "out = \<lparr>co_ok = True, co_bytes = 0, co_cap_on = True, co_cap = sb_str (\<lambda>_. True) zero_sbuf ''b'', co_wire = [], co_sched = []\<rparr>"
  have o: "\<not> as_crashed demo_turn_run" "as_out demo_turn_run = Some out" "co_ok out" by (simp_all add: demo_turn_run_def out_def)
  have c: "cr_session_id demo_turn = ''s1''" "cr_message demo_turn = ''hi''" by (simp_all add: demo_turn_def)
  have v: "session_id_valid ''s1''" by code_simp
  have l: "session_load (\<lambda>_. True) (ts_memory (as_tools demo_turn_run)) (cr_session_id demo_turn) = (1, empty_session ''s1'')"
    using v by (simp add: session_load_def demo_turn_run_def c)
  have t: "sb_text (co_cap out) = ''b''" unfolding out_def by code_simp
  have u: "utf8_wf ''hi''" "utf8_wf ''b''" by (auto intro!: utf8_wf.intros)
  have m: "ss_msgs (empty_session ''s1'') = []" by (simp add: empty_session_def)
  obtain s' where "after_run demo_chat_env demo_turn demo_turn_run = Some s'"
    "session_load (\<lambda>_. True) (ts_memory (as_tools s')) ''s1'' = (0, (empty_session ''s1'')\<lparr>ss_msgs := [(''user'', ''hi''), (''assistant'', ''b'')]\<rparr>)"
    using chat_turn_remembered [OF e o, of demo_turn 1 "empty_session ''s1''"] v l t u
    by (auto simp: c m SESSION_CONTENT_MAX_def SESSION_MSG_MAX_def)
  then show ?thesis by (intro exI [of _ s']) simp
qed

section \<open>Findings\<close>

text \<open>
  The result of the second load is not looked at: when the session file cannot be read at that moment, it is replaced by one
  that has only this turn, and all facts are lost.
\<close>

theorem unreadable_session_overwritten:
  assumes "session_id_valid sid" and "mem (session_path sid) = NoAccess" and "utf8_wf q" "q \<noteq> []" and "utf8_wf a" "a \<noteq> []"
  shows "\<exists>mem' s. persist_turn (\<lambda>_. True) True sid q a mem = Some mem' \<and> session_load (\<lambda>_. True) mem' sid = (0, s) \<and>
    length (ss_msgs s) = 2 \<and> ss_facts s = []"
proof -
  have l: "session_load (\<lambda>_. True) mem sid = (- 1, empty_session sid)" using assms(1,2) by (simp add: session_load_def)
  have e: "session_wf (empty_session sid)" "ss_id (empty_session sid) = sid" "ss_msgs (empty_session sid) = []" "ss_facts (empty_session sid) = []"
    using empty_session_wf [of sid] assms(1) by (auto simp: empty_session_def)
  obtain s1 where s1: "session_append (empty_session sid) ''user'' q = Some s1" "session_wf s1" "ss_id s1 = sid" "length (ss_msgs s1) = 1" "ss_facts s1 = []"
    using session_append_turn [OF e(1), of "''user''" q] assms(3,4) e by (auto simp: kept_msgs_def SESSION_MSG_MAX_def)
  obtain s2 where s2: "session_append s1 ''assistant'' a = Some s2" "session_wf s2" "ss_id s2 = sid" "length (ss_msgs s2) = 2" "ss_facts s2 = []"
    using session_append_turn [OF s1(2), of "''assistant''" a] assms(5,6) s1 by (auto simp: kept_msgs_def SESSION_MSG_MAX_def)
  have "session_save (\<lambda>_. True) True s2 mem = (0, mem(session_path sid := Stored (session_text s2)))"
    using session_save_ok [of s2 mem] s2(3) assms(1) by simp
  then have "persist_turn (\<lambda>_. True) True sid q a mem = Some (mem(session_path sid := Stored (session_text s2)))"
    by (simp add: persist_turn_def l s1(1) s2(1))
  with session_load_saved [OF s2(2), of mem] s2 show ?thesis by (intro exI conjI) simp_all
qed

text \<open>
  The buffer of the database block has room for 300 bytes besides a schema of full size, but the text around the schema has
  more than 1200: of the eight rules the model is to follow, only the beginning of the first is left.
\<close>

lemma length_uni: "list_all (\<lambda>c. 0x800 \<le> c \<and> c < 0x10000) cps \<Longrightarrow> length (uni cps) = 3 * length cps"
  by (induction cps) (auto simp: uni_def utf8_bytes_def)

theorem rules_cut_for_large_schema:
  assumes "length schema = SCHEMA_CHARS"
  shows "prompt_text schema = schema_intro @ schema @ take 244 sql_rules \<and> length sql_rules = 1197"
proof -
  have l: "length schema_intro = 55" "length sql_rules = 1197" by (simp_all add: schema_intro_def sql_rules_def length_uni)
  have s: "schema \<noteq> []" using assms by (auto simp: SCHEMA_CHARS_def)
  show ?thesis using l s assms by (simp add: prompt_text_def)
qed

text \<open>
  A session id that cannot be read is reported, but what was read of it stays: this body passes the parser, and the request
  goes on under an id that was never checked.
\<close>

definition odd_body :: string where
  "odd_body =
     CHR ''{'' # json_quote ''message'' @ CHR '':'' # json_quote ''x'' @ CHR '','' # json_quote ''history'' @ '':[{'' @ json_quote ''a'' @ '':b'' @
     [DQUOTE] @ ''}],'' @ json_quote ''q'' @ CHR '':'' # json_quote ''],'' @ ''} '' @ [DQUOTE] @ '':1,'' @ json_quote ''sessionId'' @ CHR '':'' #
     [DQUOTE] @ ''../x''"

theorem partial_session_id_kept:
  "chat_parse_body (Some odd_body) \<noteq> None \<and> fst (chat_session_id list_port odd_body []) = ''../x''"
  by code_simp

end
