(* ===== verification/Chat_Stream.thy ===== *)
theory Chat_Stream
  imports Chat
begin

text \<open>
  What a client of the chat endpoint receives.  The engines write through a \<open>chat_port\<close> only, so whatever its two
  operations preserve holds at the end of every run; with the SSE transport as the port this gives the shape of the
  whole stream.
\<close>

locale port_invariant =
  fixes port :: "'o chat_port"
    and P :: "'o \<Rightarrow> bool"
  assumes event: "P o' \<Longrightarrow> P (cp_event port o' t d)"
    and beat: "P o' \<Longrightarrow> P (cp_beat port o')"
begin

lemma upstream_line:
  assumes "P (io_out io)"
  shows "P (io_out (handle_upstream_line port l io))"
proof -
  have n: "io_out (note_finish obj io) = io_out io" for obj and io :: "'o round_io"
    by (auto simp: note_finish_def split: option.split)
  have r: "P (io_out io) \<Longrightarrow> P (io_out (relay_content port sz d io))" for sz d and io :: "'o round_io"
    by (auto simp: relay_content_def Let_def event split: option.split)
  have d: "P (io_out io) \<Longrightarrow> P (io_out (handle_delta port sz obj io))" for sz obj and io :: "'o round_io"
    by (auto simp: handle_delta_def Let_def r split: option.split)
  have "P (io_out io) \<Longrightarrow> P (io_out (handle_payload port sz p io))" for sz p and io :: "'o round_io"
    by (auto simp: handle_payload_def Let_def d n event split: option.split)
  then show ?thesis using assms by (auto simp: handle_upstream_line_def Let_def split: option.split)
qed

lemma line_end: "P (io_out io) \<Longrightarrow> P (io_out (end_line port lb io))"
  by (simp add: end_line_def upstream_line)

lemma chunk: "feed_chunk port c lb io = (lb', io', stop) \<Longrightarrow> P (io_out io) \<Longrightarrow> P (io_out io')"
proof (induction c arbitrary: lb io rule: length_induct)
  case (1 c)
  have l: "length rest < length c" if "dropWhile (\<lambda>c. c \<noteq> LF) c = d # rest" for d rest
    using length_dropWhile_le [of "\<lambda>c. c \<noteq> LF" c] that by simp
  from 1(2,3) show ?case
    by (subst (asm) feed_chunk.simps)
      (auto simp: Let_def line_end split: if_splits list.splits dest!: 1(1) [rule_format, OF l])
qed

lemma stream: "read_stream port us lb io = (lb', io', how) \<Longrightarrow> P (io_out io) \<Longrightarrow> P (io_out io')"
proof (induction us arbitrary: lb io)
  case (Cons u us)
  then show ?case
    by (cases u) (auto simp: Let_def beat split: if_splits prod.splits dest!: chunk dest: Cons.IH)
qed simp

lemma round: "agent_round port up o' cap rs = (rc, err, io) \<Longrightarrow> P o' \<Longrightarrow> P (io_out io)"
proof (cases up)
  case (UpRan events ended)
  assume a: "agent_round port up o' cap rs = (rc, err, io)" "P o'"
  obtain lb io1 how where r: "read_stream port events ([], False) (start_io o' cap rs) = (lb, io1, how)" by (metis prod.exhaust)
  have "P (io_out io1)" using stream [OF r] a(2) by (simp add: start_io_def)
  with a(1) UpRan r show ?thesis by (auto simp: agent_round_def Let_def line_end split: prod.splits if_splits)
qed (auto simp: agent_round_def start_io_def event)

lemma upstream_error: "P o' \<Longrightarrow> P (agent_emit_upstream_error port o' e)"
  by (simp add: agent_emit_upstream_error_def event)

lemma attempts: "round_attempts port up body left s = (r, s') \<Longrightarrow> P (as_out s) \<Longrightarrow> P (as_out s')"
proof (induction left arbitrary: s)
  case 0
  then show ?case by (subst (asm) round_attempts.simps) (auto simp: Let_def split: prod.splits dest!: round)
next
  case (Suc left)
  obtain rc0 err0 io where r: "agent_round port (up (length (as_sent s)) body) (as_out s) (as_cap s) zero_round = (rc0, err0, io)"
    by (metis prod.exhaust)
  obtain rc err where v: "round_result rc0 err0 io = (rc, err)" by (metis prod.exhaust)
  have "P (io_out io)" using round [OF r] Suc.prems(2) .
  then have n: "P (as_out (retry_note port a err (s\<lparr>as_out := io_out io, as_cap := io_cap io, as_sent := as_sent s @ [body]\<rparr>)))" for a
    by (simp add: retry_note_def event)
  from Suc.prems(1) \<open>P (io_out io)\<close> Suc.IH n show ?case
    by (subst (asm) round_attempts.simps) (auto simp: r v Let_def split: if_splits)
qed

lemma announced: "P o' \<Longrightarrow> P (announce port cs o')"
  by (induction cs arbitrary: o') (auto simp: event)

lemma decided:
  assumes "round_decide cx sigs r s = (d, s')" and port: "ac_port cx = port" and "P (as_out s)"
  shows "P (as_out s')"
  using assms(1,3) by (auto simp: round_decide_def Let_def port event upstream_error announced split: prod.splits if_splits)

lemma calls_run: "run_calls run cs sigs s = (res, sigs', s') \<Longrightarrow> as_out s' = as_out s"
  by (induction run cs sigs s arbitrary: res sigs' s' rule: run_calls.induct) (fastforce simp: Let_def split: option.splits prod.splits)+

lemma loop:
  assumes "ac_port cx = port" and "P (as_out s)"
  shows "P (as_out (round_loop cx n left msgs sigs s))"
  using assms(2)
proof (induction left arbitrary: msgs sigs s)
  case (Suc left)
  let ?b = "request_body (ac_model cx) (ac_tools_json cx) False msgs"
  obtain r s1 where r: "round_attempts port (ac_up cx) ?b AGENT_UPSTREAM_ATTEMPTS (round_note port (n - left) n s) = (r, s1)" by (metis prod.exhaust)
  have "P (as_out (round_note port (n - left) n s))" using Suc.prems by (simp add: round_note_def event)
  then have s1: "P (as_out s1)" using attempts [OF r] by simp
  obtain d s2 where d: "round_decide cx sigs r s1 = (d, s2)" by (metis prod.exhaust)
  have s2: "P (as_out s2)" using decided [OF d assms(1) s1] .
  show ?case
  proof (cases "cp_ok port (as_out s)")
    case ok: True
    show ?thesis
    proof (cases d)
      case None
      then show ?thesis using ok r d s2 by (simp add: assms(1))
    next
      case (Some calls)
      obtain res sigs' s3 where c: "run_calls (ac_run cx) calls sigs s2 = (res, sigs', s3)" by (metis prod.exhaust)
      have s3: "P (as_out s3)" using calls_run [OF c] s2 by simp
      show ?thesis using ok r d Some c s3 Suc.IH [OF s3] by (cases res) (simp_all add: assms(1))
    qed
  qed (use Suc.prems in \<open>simp add: assms(1)\<close>)
qed simp

lemma run_ex: "P (as_out s) \<Longrightarrow> P (as_out (agent_run_ex ev reg env port up req base extra s))"
  by (simp add: agent_run_ex_def agent_run_inner_def Let_def loop)

lemma run: "P (as_out s) \<Longrightarrow> P (as_out (agent_run slot ev reg env port up req extra s))"
  by (simp add: agent_run_def run_ex event)

lemma noted: "P (as_out s) \<Longrightarrow> P (as_out (emit_note port m s))" "P (as_out s) \<Longrightarrow> P (as_out (cycle_note port a w s))"
  by (simp_all add: emit_note_def cycle_note_def event)

lemma round_once: "pse_round_once env port up sys user s = (rc, tx, s') \<Longrightarrow> P (as_out s) \<Longrightarrow> P (as_out s')"
  by (auto simp: pse_round_once_def Let_def upstream_error split: prod.splits if_splits dest!: round)

lemma role: "role_phase env port up a title mark sys user had s = (r, s') \<Longrightarrow> P (as_out s) \<Longrightarrow> P (as_out s')"
proof -
  assume a: "role_phase env port up a title mark sys user had s = (r, s')" "P (as_out s)"
  obtain rc tx s2 where o: "pse_round_once env port up sys user (cycle_note port a title s) = (rc, tx, s2)" by (metis prod.exhaust)
  have s2: "P (as_out s2)" using round_once [OF o] noted(2) a(2) by blast
  have "as_out (snd (role_output had tx (emit_note port mark s2))) = as_out (emit_note port mark s2)" by (simp add: role_output_def)
  with a o s2 show ?thesis by (auto simp: role_phase_def Let_def noted split: if_splits)
qed

lemma specialist: "specialist_phase ev reg env port up a spec soul extra had s = (r, s') \<Longrightarrow> P (as_out s) \<Longrightarrow> P (as_out s')"
  by (auto simp: specialist_phase_def Let_def noted run_ex split: if_splits)

lemma cycles: "P (as_out s) \<Longrightarrow> P (as_out (snd (pse_cycles ev reg env port up so req extra left fb hp hr s)))"
proof (induction left arbitrary: fb hp hr s)
  case (Suc left)
  then show ?case
    by (auto simp: pse_cycles.simps(2) Let_def noted split: prod.split option.split dest!: role specialist)
qed simp

lemma pse: "P (as_out s) \<Longrightarrow> P (as_out (pse_run slot ev reg env port up root req extra s))"
  using cycles [of s ev reg env up "read_souls (te_fs ev) root" req extra PSE_MAX_ATTEMPTS None False False]
  by (auto simp: pse_run_def event noted split: prod.split)

lemma demo: "P o' \<Longrightarrow> P (demo_reply port draw message o')"
proof -
  have "P o' \<Longrightarrow> P (demo_loop port draw k p o')" for k p o'
  proof (induction "length p" arbitrary: p k o' rule: less_induct)
    case less
    then show ?case by (subst demo_loop.simps) (auto simp: Let_def event intro!: less.hyps skip_tokens_shorter)
  qed
  then show "P o' \<Longrightarrow> P (demo_reply port draw message o')" by (simp add: demo_reply_def Let_def event)
qed

lemma session_id: "chat_session_id port body o' = (sid, o1) \<Longrightarrow> P o' \<Longrightarrow> P o1"
  by (auto simp: chat_session_id_def event split: option.splits if_splits)

end

section \<open>The SSE stream\<close>

datatype frame = Frame string "string option" | Heartbeat

definition frame_text :: "frame \<Rightarrow> string" where
  "frame_text f = (case f of Frame t d \<Rightarrow> sb_text (sse_frame (\<lambda>_. True) t d) | Heartbeat \<Rightarrow> '':'' @ [LF, LF])"

text \<open>What was sent is a prefix of the head and a sequence of frames, and all of it as long as no send has failed.\<close>

definition streamed :: "ChatOut option \<Rightarrow> bool" where
  "streamed o' \<longleftrightarrow> (case o' of None \<Rightarrow> True
     | Some out \<Rightarrow> \<exists>fs rest. co_wire out @ rest = CHAT_SSE_HEAD @ concat (map frame_text fs) \<and> (co_ok out \<longrightarrow> rest = []))"

lemma chat_send_streamed:
  assumes "streamed (Some out)" and "chat_send out (frame_text f) = Some out'"
  shows "streamed (Some out')"
proof (cases "co_ok out")
  case True
  then obtain fs where fs: "co_wire out = CHAT_SSE_HEAD @ concat (map frame_text fs)" using assms(1) by (auto simp: streamed_def)
  obtain res d rs where n: "net_write_all (co_sched out) (frame_text f) = (res, d, rs)" by (metis prod.exhaust)
  from net_write_all_prefix [OF n] obtain e where e: "frame_text f = d @ e" "res = Some 0 \<longrightarrow> e = []" by blast
  have "co_wire out' @ e = CHAT_SSE_HEAD @ concat (map frame_text (fs @ [f])) \<and> (co_ok out' \<longrightarrow> e = [])"
    using assms(2) True n fs e by (auto simp: chat_send_def Let_def split: option.splits if_splits)
  then show ?thesis unfolding streamed_def by (simp only: option.case) blast
qed (use assms in \<open>auto simp: chat_send_def\<close>)

lemma streamed_flags:
  "streamed (Some out) \<Longrightarrow> streamed (Some (out\<lparr>co_ok := False\<rparr>))" "streamed (Some (out\<lparr>co_cap := b\<rparr>)) = streamed (Some out)"
  "streamed (Some (out\<lparr>co_cap_on := c\<rparr>)) = streamed (Some out)"
  by (auto simp: streamed_def)

lemma event_streamed:
  assumes "streamed o'"
  shows "streamed (cp_event (sse_port (\<lambda>_. True)) o' t d)"
proof (cases o')
  case (Some out)
  have f: "frame_text (Frame t d) = sb_text (sse_frame (\<lambda>_. True) t d)" by (simp add: frame_text_def)
  define r where "r = (if sb_oom (sse_frame (\<lambda>_. True) t d) then Some (out\<lparr>co_ok := False\<rparr>) else chat_send out (frame_text (Frame t d)))"
  have "streamed r"
    using assms Some streamed_flags(1) [of out] chat_send_streamed [of out "Frame t d"]
    by (cases "chat_send out (frame_text (Frame t d))") (auto simp: r_def streamed_def [of None])
  define x where "x = (case d of None \<Rightarrow> [] | Some x \<Rightarrow> x)"
  define b where "b = (\<lambda>o1 :: ChatOut. d \<noteq> None \<and> \<not> sb_oom (sse_frame (\<lambda>_. True) t d) \<and> t = ''delta'' \<and> co_cap_on o1)"
  have ev: "sse_event (\<lambda>_. True) out t d = (case r of None \<Rightarrow> None | Some o1 \<Rightarrow> (case d of None \<Rightarrow> Some o1
      | Some d' \<Rightarrow> Some (if \<not> sb_oom (sse_frame (\<lambda>_. True) t d) \<and> t = ''delta'' \<and> co_cap_on o1
                        then o1\<lparr>co_cap := sb_str (\<lambda>_. True) (co_cap o1) d'\<rparr> else o1)))"
    unfolding sse_event_def Let_def r_def f ..
  also have "\<dots> = map_option (\<lambda>o1. if b o1 then o1\<lparr>co_cap := sb_str (\<lambda>_. True) (co_cap o1) x\<rparr> else o1) r"
    by (cases r; cases d; simp only: option.case option.map b_def x_def simp_thms option.distinct if_False if_cancel)
  finally have b: "sse_event (\<lambda>_. True) out t d = map_option (\<lambda>o1. if b o1 then o1\<lparr>co_cap := sb_str (\<lambda>_. True) (co_cap o1) x\<rparr> else o1) r" .
  show ?thesis
  proof (cases r)
    case None
    with b Some show ?thesis by (simp add: sse_port_def streamed_def)
  next
    case (Some o1)
    with \<open>streamed r\<close> have "streamed (Some (if b o1 then o1\<lparr>co_cap := sb_str (\<lambda>_. True) (co_cap o1) x\<rparr> else o1))"
      by (cases "b o1") (simp_all add: streamed_flags)
    with b Some \<open>o' = Some out\<close> show ?thesis by (simp add: sse_port_def)
  qed
qed (simp add: sse_port_def streamed_def)

interpretation sse: port_invariant "sse_port (\<lambda>_. True)" streamed
proof
  show "streamed o' \<Longrightarrow> streamed (cp_event (sse_port (\<lambda>_. True)) o' t d)" for o' t d by (rule event_streamed)
  show "streamed o' \<Longrightarrow> streamed (cp_beat (sse_port (\<lambda>_. True)) o')" for o'
  proof (cases o')
    case (Some out)
    assume s: "streamed o'"
    have h: "sse_heartbeat out = chat_send out (frame_text Heartbeat)" by (simp add: sse_heartbeat_def frame_text_def)
    show ?thesis
    proof (cases "chat_send out (frame_text Heartbeat)")
      case None
      then show ?thesis using Some h by (simp add: sse_port_def streamed_def)
    next
      case (Some out')
      then show ?thesis using chat_send_streamed [OF _ Some] s \<open>o' = _\<close> h by (simp add: sse_port_def)
    qed
  qed (simp add: sse_port_def streamed_def)
qed

lemma engine_streamed:
  assumes "te_alloc (ct_tools ce) = (\<lambda>_. True)" and "streamed (as_out s)"
  shows "streamed (as_out (chat_engine ce env path cr extra s))"
  using assms by (simp add: chat_engine_def Let_def sse.run sse.pse)

lemma after_run_out: "after_run ce cr s = Some s' \<Longrightarrow> as_out s' = as_out s"
  by (auto simp: after_run_def split: option.splits if_splits)

lemma chat_with_model_streamed:
  assumes "te_alloc (ct_tools ce) = (\<lambda>_. True)" and "streamed (as_out s)" and "chat_with_model ce env path cr cache s = Some (s', c)"
  shows "streamed (as_out s')"
proof -
  define s1 where "s1 = s\<lparr>as_out := map_option (\<lambda>out. out\<lparr>co_cap_on := (cr_session_id cr \<noteq> [])\<rparr>) (as_out s)\<rparr>"
  have "streamed (as_out s1)" using assms(2) by (cases "as_out s") (simp_all add: s1_def streamed_flags)
  moreover obtain cr1 extra where "after_run ce cr1 (chat_engine ce env path cr1 extra s1) = Some s'"
    using assms(3) by (auto simp: chat_with_model_def Let_def s1_def [symmetric] split: prod.splits option.splits)
  ultimately show ?thesis using engine_streamed [OF assms(1)] after_run_out by metis
qed

lemma chat_answer_streamed:
  assumes "te_alloc (ct_tools ce) = (\<lambda>_. True)" and "streamed (as_out s)" and "chat_answer ce req cr cache s = Some (s', c)"
  shows "streamed (as_out s')"
proof -
  obtain sid o1 where so: "chat_session_id (sse_port (\<lambda>_. True)) (case rq_body req of None \<Rightarrow> [] | Some b \<Rightarrow> cstr b) (as_out s) = (sid, o1)"
    by (metis prod.exhaust)
  have o1: "streamed o1" using sse.session_id [OF so assms(2)] .
  show ?thesis
    using assms(3) so o1 chat_with_model_streamed [OF assms(1), of "s\<lparr>as_out := o1\<rparr>"] sse.demo [OF o1]
    by (auto simp: chat_answer_def Let_def assms(1) split: if_splits)
qed

lemma event_out: "te_alloc (ct_tools ce) = (\<lambda>_. True) \<Longrightarrow> streamed (as_out s) \<Longrightarrow> streamed (as_out (event ce t d s))"
  by (simp add: event_def event_streamed)

lemma chat_body_streamed:
  assumes "te_alloc (ct_tools ce) = (\<lambda>_. True)" and "streamed (as_out s)" and "chat_body ce req cache s = Some (s', c)"
  shows "streamed (as_out s')"
  using assms(3) event_out [OF assms(1,2)] chat_answer_streamed [OF assms(1,2)]
  by (auto simp: chat_body_def Let_def split: option.splits if_splits)

lemma start_run_streamed: "streamed (as_out (start_run ce st))"
proof -
  define out where "out = \<lparr>co_ok = True, co_bytes = 0, co_cap_on = False, co_cap = zero_sbuf, co_wire = [], co_sched = ct_sends ce\<rparr>"
  have r: "as_out (start_run ce st) = chat_send out CHAT_SSE_HEAD" by (simp add: start_run_def idle_run_def Let_def out_def)
  obtain res d rs where n: "net_write_all (ct_sends ce) CHAT_SSE_HEAD = (res, d, rs)" by (metis prod.exhaust)
  from net_write_all_prefix [OF n] obtain e where e: "CHAT_SSE_HEAD = d @ e" "res = Some 0 \<longrightarrow> e = []" by blast
  show ?thesis
  proof (cases "chat_send out CHAT_SSE_HEAD")
    case (Some out')
    have "co_wire out' @ e = CHAT_SSE_HEAD @ concat (map frame_text []) \<and> (co_ok out' \<longrightarrow> e = [])"
      using Some n e by (auto simp: chat_send_def out_def Let_def split: option.splits if_splits)
    then show ?thesis unfolding r Some streamed_def by (simp only: option.case) blast
  qed (simp add: r streamed_def)
qed

text \<open>
  (C25) What the client receives.  For an accepted request the bytes sent are the response head followed by whole event frames
  and heartbeats, or a prefix of that when a send has failed; unless a send has failed or the handler has crashed, the stream ends with
  the \<open>done\<close> event, on every path: an error in the request, the demo engine, the agent or the orchestrator.  (The crashes
  of the model are real: \<open>silent_role_crashes\<close> and \<open>call_without_arguments_crashes\<close>; the worker dies and
  the stream stops behind a whole frame.)  A refused request gets not a byte from the handler.
\<close>

theorem chat_stream_framed:
  assumes "te_alloc (ct_tools ce) = (\<lambda>_. True)" and "llm_handle_chat ce req resp st = Some (resp', s', c')" and "as_out s' = Some out"
  shows "if rq_method req = ''POST'' \<and> request_is_same_origin req
    then \<exists>fs rest. co_wire out @ rest = CHAT_SSE_HEAD @ concat (map frame_text fs) \<and>
           (co_ok out \<longrightarrow> rest = []) \<and> (co_ok out \<and> \<not> as_crashed s' \<longrightarrow> fs \<noteq> [] \<and> last fs = Frame ''done'' None)
    else co_wire out = []"
proof (cases "rq_method req = ''POST'' \<and> request_is_same_origin req")
  case gate: True
  obtain s1 c where b: "chat_body ce req (cs_schema st) (start_run ce st) = Some (s1, c)"
    using gate assms(1,2) by (cases "chat_body ce req (cs_schema st) (start_run ce st)") (auto simp: llm_handle_chat_def)
  have f: "finish_chat ce resp s1 = (resp', s')"
    using gate assms(1,2) b by (cases "finish_chat ce resp s1") (simp add: llm_handle_chat_def)
  have s1: "streamed (as_out s1)" by (rule chat_body_streamed [OF assms(1) start_run_streamed b])
  show ?thesis
  proof (cases "\<not> as_crashed s1 \<and> cp_ok (sse_port (\<lambda>_. True)) (as_out s1)")
    case True
    then obtain o1 where o1: "as_out s1 = Some o1" "co_ok o1" by (cases "as_out s1") (auto simp: sse_port_def)
    have e: "s' = event ce ''done'' None s1" using f True assms(1) by (simp add: finish_chat_def Let_def)
    obtain fs where fs: "co_wire o1 = CHAT_SSE_HEAD @ concat (map frame_text fs)" using s1 o1 by (auto simp: streamed_def)
    have d: "frame_text (Frame ''done'' None) = sb_text (sse_frame (\<lambda>_. True) ''done'' None)" by (simp add: frame_text_def)
    obtain rest where r: "co_wire out @ rest = CHAT_SSE_HEAD @ concat (map frame_text (fs @ [Frame ''done'' None]))" "co_ok out \<longrightarrow> rest = []"
    proof (cases "sb_oom (sse_frame (\<lambda>_. True) ''done'' None)")
      case True
      then have "out = o1\<lparr>co_ok := False\<rparr>" using assms(1,3) e o1 by (simp add: event_def sse_port_def sse_event_def Let_def)
      then show ?thesis using fs that [of "frame_text (Frame ''done'' None)"] by simp
    next
      case False
      then have c: "chat_send o1 (frame_text (Frame ''done'' None)) = Some out"
        using assms(1,3) e o1 d by (simp add: event_def sse_port_def sse_event_def Let_def split: option.splits)
      obtain res x rs where n: "net_write_all (co_sched o1) (frame_text (Frame ''done'' None)) = (res, x, rs)" by (metis prod.exhaust)
      from net_write_all_prefix [OF n] obtain y where y: "frame_text (Frame ''done'' None) = x @ y" "res = Some 0 \<longrightarrow> y = []" by blast
      have "co_wire out = co_wire o1 @ x \<and> (co_ok out \<longrightarrow> y = [])"
        using c n y(2) o1 by (auto simp: chat_send_def Let_def split: option.splits if_splits)
      then show ?thesis using fs y(1) that [of y] by simp
    qed
    then show ?thesis using gate by (simp only: simp_thms if_True) (intro exI [of _ "fs @ [Frame ''done'' None]"] exI [of _ rest], simp)
  next
    case False
    then have e: "s' = s1" using f assms(1) by (auto simp: finish_chat_def Let_def split: if_splits)
    then have "\<not> (co_ok out \<and> \<not> as_crashed s')" using False assms(3) by (auto simp: sse_port_def)
    then show ?thesis using gate s1 assms(3) e by (auto simp: streamed_def)
  qed
next
  case False
  then show ?thesis using assms(2,3) by (auto simp: llm_handle_chat_def idle_run_def split: if_splits)
qed

lemma small_send:
  assumes "co_ok out" and "co_sched out = Sent 1000 # rs" and "0 < length x" and "length x \<le> 1000"
  shows "\<exists>out'. chat_send out x = Some out' \<and> co_ok out' \<and> co_sched out' = rs"
proof -
  have "net_write_all (Sent 1000 # rs) x = (Some 0, x, rs)" using assms(3,4) by (cases x) simp_all
  then show ?thesis using assms(1,2) by (simp add: chat_send_def Let_def)
qed

lemma small_event:
  assumes "co_ok out" and "co_sched out = Sent 1000 # rs" and "\<not> sb_oom (sse_frame (\<lambda>_. True) t d)"
    and "0 < length (sb_text (sse_frame (\<lambda>_. True) t d)) \<and> length (sb_text (sse_frame (\<lambda>_. True) t d)) \<le> 1000"
  shows "\<exists>out'. cp_event (sse_port (\<lambda>_. True)) (Some out) t d = Some out' \<and> co_ok out' \<and> co_sched out' = rs"
proof -
  obtain o1 where "chat_send out (sb_text (sse_frame (\<lambda>_. True) t d)) = Some o1" "co_ok o1" "co_sched o1 = rs"
    using small_send [OF assms(1,2)] assms(4) by blast
  then show ?thesis using assms(3) by (cases d) (simp_all add: sse_port_def sse_event_def Let_def)
qed

theorem chat_stream_framed_witness:
  "\<exists>out fs. (\<exists>r s c. llm_handle_chat demo_chat_env (zero_request\<lparr>rq_method := ''POST''\<rparr>) zero_response demo_chat_state = Some (r, s, c) \<and>
     as_out s = Some out) \<and> co_wire out = CHAT_SSE_HEAD @ concat (map frame_text fs) \<and> last fs = Frame ''done'' None"
proof -
  let ?req = "zero_request\<lparr>rq_method := ''POST''\<rparr>"
  define msg where "msg = Some ''request body must be JSON: {message, history?}''"
  have alloc: "te_alloc (ct_tools demo_chat_env) = (\<lambda>_. True)" by (simp add: demo_chat_env_def demo_tool_env_def)
  have gate: "rq_method ?req = ''POST''" "request_is_same_origin ?req" "rq_body ?req = None" by (simp, code_simp, simp add: zero_request_def)
  define o0 where "o0 = \<lparr>co_ok = True, co_bytes = 0, co_cap_on = False, co_cap = zero_sbuf, co_wire = [], co_sched = [Sent 1000, Sent 1000, Sent 1000, Sent 1000]\<rparr>"
  have "0 < length CHAT_SSE_HEAD" "length CHAT_SSE_HEAD \<le> 1000" by code_simp+
  then obtain o1 where o1: "chat_send o0 CHAT_SSE_HEAD = Some o1" "co_ok o1" "co_sched o1 = [Sent 1000, Sent 1000, Sent 1000]"
    using small_send [of o0] by (auto simp: o0_def)
  have "\<not> sb_oom (sse_frame (\<lambda>_. True) ''error'' msg)" "0 < length (sb_text (sse_frame (\<lambda>_. True) ''error'' msg)) \<and> length (sb_text (sse_frame (\<lambda>_. True) ''error'' msg)) \<le> 1000"
    unfolding msg_def by code_simp+
  then obtain o2 where o2: "cp_event (sse_port (\<lambda>_. True)) (Some o1) ''error'' msg = Some o2" "co_ok o2" "co_sched o2 = [Sent 1000, Sent 1000]"
    using small_event [OF o1(2,3)] by blast
  have "\<not> sb_oom (sse_frame (\<lambda>_. True) ''done'' None)" "0 < length (sb_text (sse_frame (\<lambda>_. True) ''done'' None)) \<and> length (sb_text (sse_frame (\<lambda>_. True) ''done'' None)) \<le> 1000"
    by code_simp+
  then obtain o3 where o3: "cp_event (sse_port (\<lambda>_. True)) (Some o2) ''done'' None = Some o3" "co_ok o3"
    using small_event [OF o2(2,3)] by blast
  define s1 where "s1 = event demo_chat_env ''error'' msg (start_run demo_chat_env demo_chat_state)"
  have st: "as_out (start_run demo_chat_env demo_chat_state) = Some o1" "\<not> as_crashed (start_run demo_chat_env demo_chat_state)"
    using o1(1) by (simp_all add: start_run_def idle_run_def Let_def o0_def demo_chat_env_def)
  have s1: "as_out s1 = Some o2" "\<not> as_crashed s1" using o2(1) st by (simp_all add: s1_def event_def alloc)
  have b: "chat_body demo_chat_env ?req (cs_schema demo_chat_state) (start_run demo_chat_env demo_chat_state) = Some (s1, cs_schema demo_chat_state)"
    by (simp add: chat_body_def gate chat_parse_body_def s1_def msg_def)
  define s2 where "s2 = event demo_chat_env ''done'' None s1"
  have s2: "as_out s2 = Some o3" "\<not> as_crashed s2" using o3(1) s1 by (simp_all add: s2_def event_def alloc)
  have ok: "cp_ok (sse_port (\<lambda>_. True)) (Some o2)" using o2(2) by (simp add: sse_port_def)
  obtain r where f: "finish_chat demo_chat_env zero_response s1 = (r, s2)"
    using s1 ok by (simp add: finish_chat_def Let_def alloc s2_def)
  have h: "llm_handle_chat demo_chat_env ?req zero_response demo_chat_state = Some (r, s2, cs_schema demo_chat_state)"
    using b f gate by (simp add: llm_handle_chat_def alloc)
  from chat_stream_framed [OF alloc h s2(1)] gate o3(2) s2(2) obtain fs where
    "co_wire o3 = CHAT_SSE_HEAD @ concat (map frame_text fs)" "last fs = Frame ''done'' None" by auto
  with h s2(1) show ?thesis by blast
qed

end
