(* ===== verification/Mcp_Config.thy ===== *)
theory Mcp_Config
  imports Tools
begin

text \<open>
  The configuration of the MCP client, the first part of \<open>src/src/agent/mcp.c\<close>: the allow-list, the walk over an array
  of server objects, one server's command line, and the three places the servers come from.  Standard error, which only
  carries notes, is left out.
\<close>

definition MCP_SERVERS_MAX :: nat where "MCP_SERVERS_MAX = 12"
definition MCP_ARGS_MAX :: nat where "MCP_ARGS_MAX = 24"

text \<open>A server of the table; the number of arguments is the length of the list.\<close>

record McpServerCfg =
  sc_id :: string
  sc_argv :: "string list"
  sc_approval :: bool

definition mcp_allowed :: "string option \<Rightarrow> string \<Rightarrow> bool" where
  "mcp_allowed allow ident =
     (case allow of None \<Rightarrow> True | Some a \<Rightarrow> a = [] \<or> ident \<in> set (comma_tokens 1024 a))"

text \<open>
  The walk to the brace that closes the first one: the number of bytes up to and with it.  Strings are passed over,
  an escaped byte with its backslash.
\<close>

fun obj_scan :: "string \<Rightarrow> bool \<Rightarrow> nat \<times> int \<Rightarrow> nat option" where
  "obj_scan [] in_str (n, depth) = None"
| "obj_scan (c # q) in_str (n, depth) =
     (if in_str then
        (if c = BSLASH \<and> q \<noteq> [] then obj_scan (tl q) True (n + 2, depth)
         else obj_scan q (c \<noteq> DQUOTE) (n + 1, depth))
      else if c = DQUOTE then obj_scan q True (n + 1, depth)
      else if c = CHR ''{'' then obj_scan q False (n + 1, depth + 1)
      else if c = CHR ''}'' then
        (if depth - 1 = 0 then Some (n + 1) else obj_scan q False (n + 1, depth - 1))
      else obj_scan q False (n + 1, depth))"

text \<open>The next object and the text behind it.\<close>

definition cfg_next_obj :: "nat \<Rightarrow> string \<Rightarrow> (string \<times> string) option" where
  "cfg_next_obj bufsz pp =
     (let p = jws pp
      in if p = [] \<or> hd p \<noteq> CHR ''{'' then None
         else case obj_scan p False (0, 0) of
                None \<Rightarrow> None
              | Some n \<Rightarrow> if n \<ge> bufsz then None else Some (take n p, drop n p))"

text \<open>The words \<open>strtok\<close> finds.\<close>

function strtok_words :: "(char \<Rightarrow> bool) \<Rightarrow> string \<Rightarrow> string list" where
  "strtok_words d s =
     (let t = dropWhile d s
      in if t = [] then [] else takeWhile (\<lambda>c. \<not> d c) t # strtok_words d (dropWhile (\<lambda>c. \<not> d c) t))"
  by pat_completeness auto
termination
proof (relation "measure (\<lambda>(d, s). length s)", simp, goal_cases)
  case (1 d s t)
  then have "t \<noteq> []" "\<not> d (hd t)" using hd_dropWhile [of d s] by simp_all
  then have "length (dropWhile (\<lambda>c. \<not> d c) t) < length t"
    using length_dropWhile_le [of "\<lambda>c. \<not> d c" "tl t"] by (cases t) simp_all
  also have "length t \<le> length s" using 1 length_dropWhile_le [of d s] by simp
  finally show ?case by simp
qed

declare strtok_words.simps [simp del]

definition arg_blank :: "char \<Rightarrow> bool" where
  "arg_blank c \<longleftrightarrow> c = CHR '' '' \<or> c = TAB"

definition cfg_split_args :: "string \<Rightarrow> string \<Rightarrow> string list" where
  "cfg_split_args command args =
     set_str MAX_PATH_SIZE command #
     map (set_str MAX_PATH_SIZE)
       (take (MCP_ARGS_MAX - 1) (strtok_words arg_blank (set_str (MCP_ARGS_MAX * MAX_PATH_SIZE) args)))"

text \<open>A member that may be a string: not there (or no string), a string that breaks off, or its text.\<close>

datatype jstr_read = Absent | Broken | Text string

definition read_jstr :: "nat \<Rightarrow> string option \<Rightarrow> jstr_read" where
  "read_jstr n v =
     (case v of
        None \<Rightarrow> Absent
      | Some p \<Rightarrow>
          if p = [] \<or> hd p \<noteq> DQUOTE then Absent
          else (case jread_string n p of None \<Rightarrow> Broken | Some (s, _) \<Rightarrow> Text (cstr s)))"

text \<open>What \<open>cfg_add_server\<close> reads of an object.\<close>

definition other_transport :: "jstr_read \<Rightarrow> bool" where
  "other_transport t = (case t of Text x \<Rightarrow> x \<noteq> ''stdio'' | _ \<Rightarrow> False)"

definition cfg_id :: "string list \<Rightarrow> jstr_read \<Rightarrow> string option" where
  "cfg_id argv iv =
     (case iv of
        Absent \<Rightarrow> Some (set_str 32 (hd argv))
      | Broken \<Rightarrow> None
      | Text i \<Rightarrow> Some i)"

definition cfg_server :: "string \<Rightarrow> McpServerCfg option" where
  "cfg_server obj =
     (if other_transport (read_jstr 16 (jfind_value obj ''transport'')) then None
      else case read_jstr MAX_PATH_SIZE (jfind_value obj ''command'') of
             Absent \<Rightarrow> None
           | Broken \<Rightarrow> None
           | Text command \<Rightarrow>
               let av = read_jstr MAX_PATH_SIZE (jfind_value obj ''args'');
                   argv = cfg_split_args command (case av of Text a \<Rightarrow> a | _ \<Rightarrow> []);
                   ap = jfind_value obj ''approval''
               in if av = Broken then None
                  else map_option
                         (\<lambda>i. \<lparr>sc_id = i, sc_argv = argv,
                                sc_approval = (case ap of Some (c # _) \<Rightarrow> c = CHR ''t'' | _ \<Rightarrow> False)\<rparr>)
                         (cfg_id argv (read_jstr 32 (jfind_value obj ''id''))))"

definition cfg_add_server :: "string option \<Rightarrow> string \<Rightarrow> McpServerCfg list \<Rightarrow> McpServerCfg list" where
  "cfg_add_server allow obj servers =
     (if length servers \<ge> MCP_SERVERS_MAX then servers
      else case cfg_server obj of
             None \<Rightarrow> servers
           | Some s \<Rightarrow>
               if \<not> mcp_allowed allow (sc_id s) then servers
               else if list_ex (\<lambda>t. sc_id t = sc_id s) servers then servers
               else servers @ [s])"

lemma obj_scan_pos: "obj_scan p b s = Some n \<Longrightarrow> fst s < n \<and> n \<le> fst s + length p"
proof (induction p b s rule: obj_scan.induct)
  case (2 c q in_str m depth)
  then show ?case by (cases q) (auto split: if_splits)
qed simp

lemma cfg_next_obj_shorter:
  assumes "cfg_next_obj n p = Some (ob, r)"
  shows "length r < length p"
proof -
  from assms obtain k where k: "obj_scan (jws p) False (0, 0) = Some k" "r = drop k (jws p)"
    by (auto simp: cfg_next_obj_def Let_def split: if_splits option.splits)
  have "0 < k" "k \<le> length (jws p)" using obj_scan_pos [OF k(1)] by simp_all
  then show ?thesis unfolding k(2) length_drop using length_jws [of p] by linarith
qed

function cfg_objects :: "string option \<Rightarrow> string \<Rightarrow> McpServerCfg list \<Rightarrow> McpServerCfg list" where
  "cfg_objects allow p servers =
     (case jws p of
        [] \<Rightarrow> servers
      | c # q \<Rightarrow>
          if c = CHR '','' then cfg_objects allow q servers
          else if c \<noteq> CHR ''{'' then servers
          else (case cfg_next_obj 4096 (c # q) of
                  None \<Rightarrow> servers
                | Some (ob, r) \<Rightarrow> cfg_objects allow r (cfg_add_server allow ob servers)))"
  by pat_completeness auto
termination
proof (relation "measure (\<lambda>(a, p, s). length p)", simp, goal_cases)
  case (1 allow p servers c q)
  then show ?case using length_jws [of p] by simp
next
  case (2 allow p servers c q x ob r)
  then show ?case using length_jws [of p] cfg_next_obj_shorter [of 4096 "c # q" ob r] by simp
qed

declare cfg_objects.simps [simp del]

definition cfg_from_text :: "string option \<Rightarrow> string option \<Rightarrow> McpServerCfg list \<Rightarrow> McpServerCfg list" where
  "cfg_from_text allow txt0 servers =
     (case txt0 of
        None \<Rightarrow> servers
      | Some p \<Rightarrow> cfg_objects allow (if p \<noteq> [] \<and> hd p = CHR ''['' then tl p else p) servers)"

text \<open>The two files, then \<open>MCP_SERVERS\<close>; an empty file leaves the buffer null.\<close>

definition cfg_file :: "fs \<Rightarrow> string \<Rightarrow> string option" where
  "cfg_file fs path = (case file_bytes fs path of None \<Rightarrow> None | Some b \<Rightarrow> if b = [] then None else Some (cstr b))"

definition mcp_config_load :: "fs \<Rightarrow> string option \<Rightarrow> string option \<Rightarrow> McpServerCfg list \<Rightarrow> McpServerCfg list" where
  "mcp_config_load fs allow env servers =
     foldl (\<lambda>ss t. cfg_from_text allow t ss) servers
       [cfg_file fs ''.data/mcp-servers.json'', cfg_file fs ''.data/mcp-servers-router.json'', env]"

section \<open>Walks over printed values\<close>

lemma hex04_in_string: "list_all (\<lambda>c. c \<noteq> DQUOTE \<and> c \<noteq> BSLASH) (hex04 n)"
proof -
  have "hexdigit k \<noteq> DQUOTE \<and> hexdigit k \<noteq> BSLASH" if "k < 16" for k
    using hexval_hexdigit [OF that] by (auto simp: hexval_def isdigit_def split: if_splits)
  then show ?thesis by (simp add: hex04_def)
qed

lemma length_hex04: "length (hex04 n) = 4" "hex04 n \<noteq> []"
  by (simp_all add: hex04_def)

text \<open>
  The client meets JSON text with loops that count braces and pass over strings.  What such a loop promises: how it
  treats an escape, a byte inside a string, a quote, and the two braces; \<open>skip\<close> is what passing bytes does to
  its state, \<open>down\<close> what an opening brace does.
\<close>

locale json_walker =
  fixes walk :: "string \<Rightarrow> bool \<Rightarrow> 's \<Rightarrow> 'o"
    and skip :: "nat \<Rightarrow> 's \<Rightarrow> 's"
    and down :: "'s \<Rightarrow> 's"
    and inside :: "'s \<Rightarrow> bool"
  assumes in_escape: "inside s \<Longrightarrow> walk (BSLASH # c # q) True s = walk q True (skip 2 s)"
    and in_byte: "inside s \<Longrightarrow> c \<noteq> BSLASH \<Longrightarrow> walk (c # q) True s = walk q (c \<noteq> DQUOTE) (skip 1 s)"
    and at_quote: "inside s \<Longrightarrow> walk (DQUOTE # q) False s = walk q True (skip 1 s)"
    and at_byte: "inside s \<Longrightarrow> c \<noteq> DQUOTE \<Longrightarrow> c \<noteq> CHR ''{'' \<Longrightarrow> c \<noteq> CHR ''}'' \<Longrightarrow> walk (c # q) False s = walk q False (skip 1 s)"
    and at_open: "inside s \<Longrightarrow> walk (CHR ''{'' # q) False s = walk q False (down (skip 1 s))"
    and at_close: "inside s \<Longrightarrow> walk (CHR ''}'' # q) False (down s) = walk q False (skip 1 s)"
    and skip_skip: "skip m (skip n s) = skip (n + m) s"
    and skip_down: "skip n (down s) = down (skip n s)"
    and inside_skip: "inside s \<Longrightarrow> inside (skip n s)"
    and inside_down: "inside s \<Longrightarrow> inside (down s)"
begin

text \<open>Text the walk passes over without a change of depth.\<close>

definition passed :: "string \<Rightarrow> bool" where
  "passed xs \<longleftrightarrow> (\<forall>rest s. inside s \<longrightarrow> xs \<noteq> [] \<longrightarrow> walk (xs @ rest) False s = walk rest False (skip (length xs) s))"

lemma passed_append:
  assumes "passed xs" and "passed ys"
  shows "passed (xs @ ys)"
proof (cases "xs = [] \<or> ys = []")
  case False
  with assms show ?thesis by (simp add: passed_def inside_skip skip_skip)
qed (use assms in auto)

lemma passed_Nil: "passed []"
  by (simp add: passed_def)

lemma passed_byte: "c \<noteq> DQUOTE \<Longrightarrow> c \<noteq> CHR ''{'' \<Longrightarrow> c \<noteq> CHR ''}'' \<Longrightarrow> passed [c]"
  by (simp add: passed_def at_byte)

lemma passed_bytes: "list_all (\<lambda>c. c \<noteq> DQUOTE \<and> c \<noteq> CHR ''{'' \<and> c \<noteq> CHR ''}'') xs \<Longrightarrow> passed xs"
proof (induction xs)
  case (Cons x xs)
  then show ?case using passed_append [of "[x]" xs] passed_byte [of x] by simp
qed (simp add: passed_Nil)

lemma in_bytes:
  "list_all (\<lambda>c. c \<noteq> DQUOTE \<and> c \<noteq> BSLASH) xs \<Longrightarrow> xs \<noteq> [] \<Longrightarrow> inside s \<Longrightarrow> walk (xs @ q) True s = walk q True (skip (length xs) s)"
proof (induction xs arbitrary: s)
  case (Cons x xs)
  then show ?case by (cases "xs = []") (simp_all add: in_byte inside_skip skip_skip)
qed simp

lemma in_esc:
  assumes "inside s"
  shows "walk (json_esc c @ q) True s = walk q True (skip (length (json_esc c)) s)"
proof (cases "\<exists>x. json_esc c = [BSLASH, x]")
  case True
  then show ?thesis using assms by (auto simp: in_escape numeral_2_eq_2)
next
  case False
  show ?thesis
  proof (cases "json_esc c = [c]")
    case True
    then have "c \<noteq> DQUOTE" "c \<noteq> BSLASH" by (auto simp: json_esc_def)
    then show ?thesis using assms True by (simp add: in_byte)
  next
    case False
    with \<open>\<not> (\<exists>x. json_esc c = [BSLASH, x])\<close> have e: "json_esc c = BSLASH # CHR ''u'' # hex04 (code c)"
      by (auto simp: json_esc_def split: if_splits)
    show ?thesis using assms e in_bytes [OF hex04_in_string, of "code c" "skip 2 s" q]
      by (simp add: in_escape inside_skip skip_skip length_hex04)
  qed
qed

lemma in_escs:
  "inside s \<Longrightarrow> cs \<noteq> [] \<Longrightarrow> walk (concat (map json_esc cs) @ q) True s = walk q True (skip (length (concat (map json_esc cs))) s)"
proof (induction cs arbitrary: s)
  case (Cons c cs)
  then show ?case by (cases "cs = []") (simp_all add: in_esc inside_skip skip_skip)
qed simp

lemma passed_quote: "passed (json_quote t)"
proof -
  have "walk (json_quote t @ rest) False s = walk rest False (skip (length (json_quote t)) s)" if i: "inside s" for rest s
  proof (cases "t = []")
    case True
    then show ?thesis using i in_byte [of "skip 1 s" DQUOTE rest]
      by (simp add: json_quote_def at_quote inside_skip skip_skip)
  next
    case False
    then show ?thesis
      using i in_escs [of "skip 1 s" t "DQUOTE # rest"] in_byte [of "skip (Suc (length (concat (map json_esc t)))) s" DQUOTE rest]
      by (simp add: json_quote_def at_quote inside_skip skip_skip)
  qed
  then show ?thesis by (simp add: passed_def)
qed

lemma passed_braces:
  assumes "passed xs"
  shows "passed (CHR ''{'' # xs @ [CHR ''}''])"
proof -
  have "walk (CHR ''{'' # xs @ CHR ''}'' # rest) False s = walk rest False (skip (length xs + 2) s)" if "inside s" for rest s
  proof (cases "xs = []")
    case True
    then show ?thesis using that by (simp add: at_open at_close inside_skip skip_skip numeral_2_eq_2)
  next
    case False
    then show ?thesis using that assms
      by (simp add: at_open passed_def inside_skip inside_down skip_down skip_skip at_close)
  qed
  then show ?thesis by (simp add: passed_def)
qed

lemma passed_join: "(\<And>x. x \<in> set xs \<Longrightarrow> passed x) \<Longrightarrow> passed (join xs)"
proof (induction xs)
  case (Cons x xs)
  have "passed ([CHR '',''] @ join xs)" using Cons by (intro passed_append passed_byte) simp_all
  with Cons show ?case by (auto intro: passed_append)
qed (simp add: passed_Nil)

lemma passed_jprint: "json_wf v \<Longrightarrow> passed (jprint v)"
proof (induction v rule: jprint.induct)
  case (1 a)
  then show ?case using atom_char_plain by (auto simp: list_all_iff json_stop_def intro!: passed_bytes)
next
  case (3 vs)
  have "passed ([CHR ''[''] @ join (map jprint vs) @ [CHR '']''])"
    by (intro passed_append passed_byte passed_join) (use 3 in \<open>auto simp: list_all_iff\<close>)
  then show ?case by simp
next
  case (4 kvs)
  have "passed (json_quote (fst kv) @ [CHR '':''] @ jprint (snd kv))" if "kv \<in> set kvs" for kv
    by (intro passed_append passed_byte passed_quote) (use 4 that in \<open>auto simp: list_all_iff\<close>)
  then show ?case unfolding jprint.simps by (intro passed_braces passed_join) auto
qed (simp add: passed_quote)

lemma walk_jprint:
  "json_wf v \<Longrightarrow> inside s \<Longrightarrow> walk (jprint v @ rest) False s = walk rest False (skip (length (jprint v)) s)"
  using passed_jprint [of v] jprint_hd [of v] by (simp add: passed_def)

end

interpretation obj_walk: json_walker obj_scan "\<lambda>k (n, d). (n + k, d)" "\<lambda>(n, d). (n, d + 1)" "\<lambda>(n, d). 1 \<le> d"
  by unfold_locales auto

section \<open>The server table\<close>

definition server_ok :: "string option \<Rightarrow> McpServerCfg \<Rightarrow> bool" where
  "server_ok allow s \<longleftrightarrow>
     mcp_allowed allow (sc_id s) \<and> fits 32 (sc_id s) \<and> sc_argv s \<noteq> [] \<and> length (sc_argv s) \<le> MCP_ARGS_MAX \<and>
     list_all (fits MAX_PATH_SIZE) (sc_argv s)"

definition servers_ok :: "string option \<Rightarrow> McpServerCfg list \<Rightarrow> bool" where
  "servers_ok allow ss \<longleftrightarrow> length ss \<le> MCP_SERVERS_MAX \<and> distinct (map sc_id ss) \<and> list_all (server_ok allow) ss"

lemma read_jstr_fits: "read_jstr n v = Text t \<Longrightarrow> 0 < n \<Longrightarrow> fits n t"
  using jread_loop_bound [of n _ "[]"]
  by (fastforce simp: read_jstr_def jread_string_def fits_def split: option.splits if_splits list.splits
      intro: le_less_trans [OF length_cstr])

lemma strtok_words_chars: "w \<in> set (strtok_words d s) \<Longrightarrow> c \<in> set w \<Longrightarrow> c \<in> set s"
proof (induction d s rule: strtok_words.induct)
  case (1 d s)
  then show ?case
    by (subst (asm) (2) strtok_words.simps) (auto simp: Let_def dest: set_takeWhileD set_dropWhileD split: if_splits)
qed

lemma cfg_split_args_ok:
  assumes "NUL \<notin> set command" and "NUL \<notin> set args"
  shows "cfg_split_args command args \<noteq> [] \<and> length (cfg_split_args command args) \<le> MCP_ARGS_MAX \<and>
    list_all (fits MAX_PATH_SIZE) (cfg_split_args command args)"
proof -
  have "NUL \<notin> set w" if "w \<in> set (take k (strtok_words arg_blank (set_str m args)))" for w k m
    using strtok_words_chars [OF in_set_takeD [OF that], of NUL] assms(2)
    by (auto simp: set_str_def dest: in_set_takeD split: if_splits)
  then show ?thesis using assms(1)
    by (auto simp: cfg_split_args_def list_all_iff MCP_ARGS_MAX_def MAX_PATH_SIZE_def intro!: set_str_fits)
qed

lemma cfg_server_ok:
  assumes "cfg_server obj = Some s" and "mcp_allowed allow (sc_id s)"
  shows "server_ok allow s"
proof -
  define av where "av = read_jstr MAX_PATH_SIZE (jfind_value obj ''args'')"
  define args where "args = (case av of Text a \<Rightarrow> a | _ \<Rightarrow> [])"
  from assms(1) obtain command i where c: "read_jstr MAX_PATH_SIZE (jfind_value obj ''command'') = Text command"
      and i: "cfg_id (cfg_split_args command args) (read_jstr 32 (jfind_value obj ''id'')) = Some i"
      and s: "sc_id s = i" "sc_argv s = cfg_split_args command args"
    by (auto simp: cfg_server_def Let_def args_def av_def split: if_splits jstr_read.splits)
  have "NUL \<notin> set command" using read_jstr_fits [OF c] by (simp add: fits_def MAX_PATH_SIZE_def)
  moreover have "NUL \<notin> set args"
    using read_jstr_fits [of MAX_PATH_SIZE "jfind_value obj ''args''"]
    by (auto simp: args_def av_def fits_def MAX_PATH_SIZE_def split: jstr_read.split)
  ultimately have a: "sc_argv s \<noteq> []" "length (sc_argv s) \<le> MCP_ARGS_MAX" "list_all (fits MAX_PATH_SIZE) (sc_argv s)"
    using cfg_split_args_ok unfolding s by simp_all
  have "NUL \<notin> set (hd (sc_argv s))" using a(1,3) by (cases "sc_argv s") (simp_all add: fits_def)
  then have "fits 32 (sc_id s)"
    using i read_jstr_fits [of 32 "jfind_value obj ''id''"] set_str_fits [of "hd (sc_argv s)" 32]
    unfolding s by (auto simp: cfg_id_def split: jstr_read.splits)
  with a assms(2) show ?thesis by (simp add: server_ok_def)
qed

lemma cfg_add_server_ok: "servers_ok allow ss \<Longrightarrow> servers_ok allow (cfg_add_server allow obj ss)"
  using cfg_server_ok [of obj _ allow]
  by (auto simp: cfg_add_server_def servers_ok_def list_ex_iff split: option.split)

lemma cfg_objects_ok: "servers_ok allow ss \<Longrightarrow> servers_ok allow (cfg_objects allow p ss)"
proof (induction allow p ss rule: cfg_objects.induct)
  case (1 allow p ss)
  then show ?case
    by (subst cfg_objects.simps) (auto simp: cfg_add_server_ok split: list.split option.split)
qed

text \<open>
  The server table after any configuration.  Whatever the two files and the environment hold, the table has at most
  twelve servers with distinct names; every server's name passes the allow-list and fits its field, and its command
  line has at least the command and at most twenty-four words that fit theirs.
\<close>

theorem mcp_config_sound: "servers_ok allow (mcp_config_load fs allow env [])"
proof -
  have "servers_ok allow ss \<Longrightarrow> servers_ok allow (cfg_from_text allow t ss)" for ss t
    by (auto simp: cfg_from_text_def cfg_objects_ok split: option.split)
  then show ?thesis by (simp add: mcp_config_load_def servers_ok_def)
qed

section \<open>Reading a printed configuration\<close>

record server_entry =
  en_id :: string
  en_command :: string
  en_args :: "string list"
  en_approval :: bool

definition entry_json :: "server_entry \<Rightarrow> (string \<times> json) list" where
  "entry_json e =
     [(''id'', JStr (en_id e)), (''transport'', JStr ''stdio''), (''command'', JStr (en_command e)),
      (''args'', JStr (concat (map (\<lambda>w. w @ '' '') (en_args e)))),
      (''approval'', JAtom (if en_approval e then ''true'' else ''false''))]"

definition entry_ok :: "server_entry \<Rightarrow> bool" where
  "entry_ok e \<longleftrightarrow>
     fits 32 (en_id e) \<and> fits MAX_PATH_SIZE (en_command e) \<and>
     list_all (\<lambda>w. w \<noteq> [] \<and> NUL \<notin> set w \<and> list_all (\<lambda>c. \<not> arg_blank c) w) (en_args e) \<and>
     length (en_args e) < MCP_ARGS_MAX \<and> length (concat (map (\<lambda>w. w @ '' '') (en_args e))) < MAX_PATH_SIZE \<and>
     length (jprint (JObj (entry_json e))) < 4096"

definition entry_cfg :: "server_entry \<Rightarrow> McpServerCfg" where
  "entry_cfg e = \<lparr>sc_id = en_id e, sc_argv = en_command e # en_args e, sc_approval = en_approval e\<rparr>"

lemma obj_scan_printed:
  assumes "members_wf kvs"
  shows "obj_scan (jprint (JObj kvs) @ rest) False (0, 0) = Some (length (jprint (JObj kvs)))"
proof -
  define body where "body = jmembers kvs"
  have p: "jprint (JObj kvs) = CHR ''{'' # body @ [CHR ''}'']" by (simp add: body_def jmembers_def)
  have "obj_walk.passed (json_quote (fst kv) @ [CHR '':''] @ jprint (snd kv))" if "kv \<in> set kvs" for kv
    by (intro obj_walk.passed_append obj_walk.passed_byte obj_walk.passed_quote obj_walk.passed_jprint)
      (use assms that in \<open>auto simp: members_wf_def list_all_iff\<close>)
  then have "obj_walk.passed body" unfolding body_def jmembers_def by (intro obj_walk.passed_join) auto
  then have "body \<noteq> [] \<Longrightarrow> obj_scan (body @ r) False (1, 1) = obj_scan r False (1 + length body, 1)" for r
    unfolding obj_walk.passed_def by fastforce
  then show ?thesis unfolding p by (cases "body = []") simp_all
qed

lemma strtok_words_printed:
  assumes "list_all (\<lambda>w. w \<noteq> [] \<and> list_all (\<lambda>c. \<not> d c) w) ws" and "d b"
  shows "strtok_words d (concat (map (\<lambda>w. w @ [b]) ws)) = ws"
  using assms(1)
proof (induction ws)
  case (Cons w ws)
  then obtain c w' where w: "w = c # w'" by (cases w) auto
  have "takeWhile (\<lambda>c. \<not> d c) (w @ b # r) = w" "dropWhile (\<lambda>c. \<not> d c) (w @ b # r) = b # r" for r
    using Cons(2) assms(2) by (auto simp: list_all_iff takeWhile_append2 dropWhile_append2)
  moreover have "strtok_words d (b # r) = strtok_words d r" for r
    using assms(2) by (subst (1 2) strtok_words.simps) simp
  moreover have "dropWhile d (w @ r) = w @ r" for r using Cons(2) w by simp
  ultimately show ?case using Cons w by (subst strtok_words.simps) (simp add: Let_def)
qed (simp add: strtok_words.simps)

lemma read_jstr_printed:
  assumes "members_wf kvs" and "map_of kvs key = Some (JStr s)" and "fits n s" and "0 < n"
  shows "read_jstr n (jfind_value (jprint (JObj kvs)) key) = Text s"
proof -
  obtain tail where "jfind_value (jprint (JObj kvs)) key = Some (json_quote s @ tail)"
    using jfind_value_printed [OF assms(1), of "[]" key] assms(2) by (auto simp del: jprint.simps(4))
  moreover have "json_quote s \<noteq> []" "hd (json_quote s) = DQUOTE" by (simp_all add: json_quote_def)
  moreover have "take (n - 1) s = s" using assms(3) by (auto simp: fits_def)
  ultimately show ?thesis using jread_string_quoted [of n s tail] assms(4) fits_cstr [OF assms(3)]
    by (simp add: read_jstr_def fits_def)
qed

lemma entry_members_wf: "entry_ok e \<Longrightarrow> members_wf (entry_json e)"
  by (auto simp: entry_ok_def entry_json_def members_wf_def fits_def atom_char_def isalnum_def isalpha_def list_all_iff)

lemma cfg_server_printed:
  assumes "entry_ok e"
  shows "cfg_server (jprint (JObj (entry_json e))) = Some (entry_cfg e)"
proof -
  define obj where "obj = jprint (JObj (entry_json e))"
  define args where "args = concat (map (\<lambda>w. w @ '' '') (en_args e))"
  note wf = entry_members_wf [OF assms]
  have f: "fits 32 (en_id e)" "fits MAX_PATH_SIZE (en_command e)" "fits MAX_PATH_SIZE args" "fits 16 ''stdio''"
    using assms by (auto simp: entry_ok_def args_def fits_def list_all_iff)
  have r: "read_jstr 16 (jfind_value obj ''transport'') = Text ''stdio''"
    "read_jstr MAX_PATH_SIZE (jfind_value obj ''command'') = Text (en_command e)"
    "read_jstr MAX_PATH_SIZE (jfind_value obj ''args'') = Text args"
    "read_jstr 32 (jfind_value obj ''id'') = Text (en_id e)"
    unfolding obj_def by (rule read_jstr_printed [OF wf]; use f in \<open>simp add: entry_json_def args_def MAX_PATH_SIZE_def\<close>)+
  obtain tail where "jfind_value obj ''approval'' = Some ((if en_approval e then ''true'' else ''false'') @ tail)"
    using jfind_value_printed [OF wf, of "[]" "''approval''"]
    by (auto simp: obj_def entry_json_def simp del: jprint.simps(4))
  then have a: "(case jfind_value obj ''approval'' of Some (c # _) \<Rightarrow> c = CHR ''t'' | _ \<Rightarrow> False) = en_approval e"
    by simp
  have "set_str MAX_PATH_SIZE w = w" if "w \<in> set (en_args e)" for w
  proof -
    have "length w \<le> length args" using that unfolding args_def by (induction "en_args e" rule: rev_induct) (auto dest: split_list)
    then show ?thesis using f(3) by (simp add: set_str_def fits_def)
  qed
  then have "map (set_str MAX_PATH_SIZE) (en_args e) = en_args e" by (simp add: map_idI)
  moreover have "strtok_words arg_blank args = en_args e"
    unfolding args_def by (rule strtok_words_printed) (use assms in \<open>auto simp: entry_ok_def list_all_iff arg_blank_def\<close>)
  ultimately have "cfg_split_args (en_command e) args = en_command e # en_args e"
    using assms f by (simp add: cfg_split_args_def entry_ok_def set_str_def fits_def MCP_ARGS_MAX_def)
  then show ?thesis unfolding obj_def [symmetric]
    by (simp add: cfg_server_def r a other_transport_def cfg_id_def entry_cfg_def Let_def)
qed

lemma cfg_objects_printed:
  assumes "list_all entry_ok es" and "list_all (\<lambda>e. mcp_allowed allow (en_id e)) es"
    and "distinct (map sc_id ss @ map en_id es)" and "length ss + length es \<le> MCP_SERVERS_MAX"
  shows "cfg_objects allow (join (map (\<lambda>e. jprint (JObj (entry_json e))) es) @ '']'') ss = ss @ map entry_cfg es"
  using assms
proof (induction es arbitrary: ss)
  case Nil
  then show ?case by (simp add: cfg_objects.simps jws_def json_ws_def)
next
  case (Cons e es)
  define obj where "obj = jprint (JObj (entry_json e))"
  define rest where "rest = (if es = [] then '']'' else CHR '','' # join (map (\<lambda>e. jprint (JObj (entry_json e))) es) @ '']'')"
  obtain body where body: "obj = CHR ''{'' # body" by (simp add: obj_def)
  have shape: "join (map (\<lambda>e. jprint (JObj (entry_json e))) (e # es)) @ '']'' = obj @ rest"
    by (simp add: rest_def obj_def del: jprint.simps)
  have ws: "jws (obj @ rest) = obj @ rest" by (simp add: body jws_id json_ws_def)
  have "obj_scan (obj @ rest) False (0, 0) = Some (length obj)" "length obj < 4096"
    using obj_scan_printed [OF entry_members_wf, of e rest] Cons(2) by (simp_all add: obj_def entry_ok_def del: jprint.simps)
  moreover have "obj \<noteq> []" "hd (obj @ rest) = CHR ''{''" by (simp_all add: body)
  ultimately have n: "cfg_next_obj 4096 (obj @ rest) = Some (obj, rest)" by (simp add: cfg_next_obj_def ws)
  have s: "cfg_server obj = Some (entry_cfg e)" using cfg_server_printed [of e] Cons(2) by (simp add: obj_def del: jprint.simps)
  have "\<not> list_ex (\<lambda>t. sc_id t = en_id e) ss" using Cons(4) by (auto simp: list_ex_iff image_iff)
  then have "cfg_add_server allow obj ss = ss @ [entry_cfg e]"
    using Cons(3,5) s by (simp add: cfg_add_server_def entry_cfg_def)
  then have step: "cfg_objects allow (obj @ rest) ss = cfg_objects allow rest (ss @ [entry_cfg e])"
    using n by (subst cfg_objects.simps) (simp add: body jws_id json_ws_def)
  have tail: "cfg_objects allow rest (ss @ [entry_cfg e]) =
      cfg_objects allow (join (map (\<lambda>e. jprint (JObj (entry_json e))) es) @ '']'') (ss @ [entry_cfg e])"
    by (subst (1) cfg_objects.simps)
      (cases "es = []", simp_all add: rest_def jws_def json_ws_def cfg_objects.simps [of allow "'']''"] del: jprint.simps)
  show ?case unfolding shape step tail
    by (subst Cons.IH) (use Cons(2-5) in \<open>simp_all add: entry_cfg_def\<close>)
qed

text \<open>
  Writing a configuration and loading it.  For any list of at most twelve servers with distinct allowed names, each
  of a size that fits, loading the printed array gives exactly those servers, in order: the name, the command followed
  by its arguments, and the approval flag; special characters in the strings do not matter.
\<close>

theorem mcp_config_roundtrip:
  assumes "list_all entry_ok es" and "list_all (\<lambda>e. mcp_allowed allow (en_id e)) es"
    and "distinct (map en_id es)" and "length es \<le> MCP_SERVERS_MAX"
  shows "cfg_from_text allow (Some (jprint (JArr (map (\<lambda>e. JObj (entry_json e)) es)))) [] = map entry_cfg es"
  using cfg_objects_printed [OF assms(1,2), of "[]"] assms(3,4)
  by (simp add: cfg_from_text_def comp_def del: jprint.simps(4))

definition demo_entry :: server_entry where
  "demo_entry = \<lparr>en_id = ''fs'', en_command = ''npx'', en_args = [''-y'', ''a{b''], en_approval = True\<rparr>"

theorem mcp_config_roundtrip_witness:
  "cfg_from_text (Some ''echo, fs'') (Some (jprint (JArr [JObj (entry_json demo_entry)]))) [] = [entry_cfg demo_entry]"
proof -
  have "entry_ok demo_entry \<and> mcp_allowed (Some ''echo, fs'') (en_id demo_entry)" by code_simp
  then show ?thesis using mcp_config_roundtrip [of "[demo_entry]" "Some ''echo, fs''"]
    by (simp add: MCP_SERVERS_MAX_def del: jprint.simps)
qed

text \<open>
  A file whose array is not its first byte: the loader only looks for the bracket at the very start, so after a blank
  or a line feed nothing is loaded.
\<close>

lemma leading_blank_drops_config:
  "json_ws b \<Longrightarrow> cfg_from_text allow (Some (b # CHR ''['' # rest)) ss = ss"
  by (auto simp: cfg_from_text_def json_ws_def cfg_objects.simps jws_def)

end
