(* ===== verification/Mcp_Wire.thy ===== *)
theory Mcp_Wire
  imports Mcp_Config
begin

text \<open>
  The exchange with an MCP server, the middle part of \<open>src/src/agent/mcp.c\<close>: when the bytes read from the pipe are a
  whole response, the line a request is, and the text made of a response.  What \<open>poll\<close> and \<open>read\<close> report is a list of
  events, \<open>jq\<close> is an argument that gives the pieces its output is read in.
\<close>

definition MCP_RESP_MAX :: nat where "MCP_RESP_MAX = 8388608"
definition MCP_STRUC_MAX :: nat where "MCP_STRUC_MAX = 8192"
definition MCP_TEXT_MAX :: nat where "MCP_TEXT_MAX = 32768"
definition MCP_ITEM_MAX :: nat where "MCP_ITEM_MAX = 131072"
definition MCP_FINAL_MAX :: nat where "MCP_FINAL_MAX = 65536"

section \<open>Reading a response\<close>

definition id_key :: string where
  "id_key = [DQUOTE] @ ''id'' @ [DQUOTE]"

lemma strstr_not_Nil: "strstr p key = Some s \<Longrightarrow> key \<noteq> [] \<Longrightarrow> s \<noteq> []"
  by (induction p) (auto split: if_splits)

lemma id_key_shorter: "strstr p id_key = Some s \<Longrightarrow> length (drop 4 s) < length p"
  using strstr_not_Nil [of p id_key s] strstr_length [of p id_key s] by (cases s) (auto simp: id_key_def)

function carries_response :: "string \<Rightarrow> int \<Rightarrow> bool" where
  "carries_response p ident =
     (case strstr p id_key of
        None \<Rightarrow> False
      | Some s \<Rightarrow>
          let s1 = dropWhile arg_blank (drop 4 s)
          in if s1 = [] \<or> hd s1 \<noteq> CHR '':'' then carries_response s1 ident
             else let s2 = dropWhile arg_blank (tl s1); v = strtol10 s2
                  in (snd v \<noteq> s2 \<and> fst v = ident) \<or> carries_response s2 ident)"
  by pat_completeness auto
termination
proof (relation "measure (\<lambda>(p, i). length p)", simp, goal_cases)
  case (1 p ident s s1)
  then show ?case using id_key_shorter [of p s] length_dropWhile_le [of arg_blank "drop 4 s"] by simp
next
  case (2 p ident s s1 s2 v)
  then show ?case
    using id_key_shorter [of p s] length_dropWhile_le [of arg_blank "drop 4 s"] length_dropWhile_le [of arg_blank "tl s1"]
    by simp
qed

declare carries_response.simps [simp del]

fun complete_scan :: "string \<Rightarrow> bool \<Rightarrow> nat \<Rightarrow> bool" where
  "complete_scan [] in_str depth = (depth = 0)"
| "complete_scan (c # r) in_str depth =
     (if in_str then
        (if c = BSLASH \<and> r \<noteq> [] then complete_scan (tl r) True depth else complete_scan r (c \<noteq> DQUOTE) depth)
      else if c = DQUOTE then complete_scan r True depth
      else if c = CHR ''{'' then complete_scan r False (depth + 1)
      else if c = CHR ''}'' then (if depth = 0 then False else complete_scan r False (depth - 1))
      else complete_scan r False depth)"

definition json_complete :: "string \<Rightarrow> bool" where
  "json_complete p =
     (let q = rtrim json_ws p
      in q \<noteq> [] \<and> last q = CHR ''}'' \<and> complete_scan q False 0)"

text \<open>
  One turn of the loop: the deadline, an error of \<open>poll\<close> or \<open>read\<close> or the end of the pipe (\<open>RdStop\<close>), a call a signal
  broke off, or a chunk.  At the end of the list the deadline has passed.  The result is what was read with the
  response, if it came, and the events that are left.
\<close>

datatype rd_event = RdStop | RdIntr | RdChunk string

fun mcpproc_read_response :: "(nat \<Rightarrow> bool) \<Rightarrow> int \<Rightarrow> rd_event list \<Rightarrow> sbuf \<Rightarrow> string option \<times> rd_event list" where
  "mcpproc_read_response alloc ident [] acc = (None, [])"
| "mcpproc_read_response alloc ident (RdStop # es) acc = (None, es)"
| "mcpproc_read_response alloc ident (RdIntr # es) acc = mcpproc_read_response alloc ident es acc"
| "mcpproc_read_response alloc ident (RdChunk c # es) acc =
     (let acc' = sb_mem alloc acc c
      in if sb_oom acc' \<or> length (sb_text acc') > MCP_RESP_MAX then (None, es)
         else if carries_response (cstr (sb_text acc')) ident \<and> json_complete (cstr (sb_text acc')) then (Some (sb_text acc'), es)
         else mcpproc_read_response alloc ident es acc')"

section \<open>Writing a request\<close>

definition mcp_request :: "int \<Rightarrow> string \<Rightarrow> string option \<Rightarrow> string" where
  "mcp_request ident m params =
     CHR ''{'' # json_quote ''jsonrpc'' @ CHR '':'' # json_quote ''2.0'' @ CHR '','' # json_quote ''id'' @ CHR '':'' # int_dec ident @
     CHR '','' # json_quote ''method'' @ CHR '':'' # json_quote m @
     (case params of None \<Rightarrow> [] | Some p \<Rightarrow> if p = [] then [] else CHR '','' # json_quote ''params'' @ CHR '':'' # p) @
     ''}'' @ [LF]"

definition mcp_notification :: "string \<Rightarrow> string" where
  "mcp_notification m =
     CHR ''{'' # json_quote ''jsonrpc'' @ CHR '':'' # json_quote ''2.0'' @ CHR '','' # json_quote ''method'' @ CHR '':'' # json_quote m @
     ''}'' @ [LF]"

definition MCP_INIT_PARAMS :: string where
  "MCP_INIT_PARAMS =
     CHR ''{'' # json_quote ''protocolVersion'' @ CHR '':'' # json_quote ''2025-06-18'' @ CHR '','' # json_quote ''capabilities'' @ '':{},'' @
     json_quote ''clientInfo'' @ '':{'' @ json_quote ''name'' @ CHR '':'' # json_quote ''agent-httpd'' @ CHR '','' #
     json_quote ''version'' @ CHR '':'' # json_quote ''1.0'' @ ''}}''"

definition tools_call_params :: "string \<Rightarrow> string option \<Rightarrow> string" where
  "tools_call_params tool args =
     CHR ''{'' # json_quote ''name'' @ CHR '':'' # json_quote tool @ CHR '','' # json_quote ''arguments'' @ CHR '':'' #
     (case args of None \<Rightarrow> ''{}'' | Some a \<Rightarrow> a) @ ''}''"

section \<open>The text of a result\<close>

definition frame_key :: string where
  "frame_key = CHR ''{'' # json_quote ''jsonrpc''"

definition json_body :: "string option \<Rightarrow> string option" where
  "json_body buf =
     (case buf of
        None \<Rightarrow> None
      | Some b \<Rightarrow> (case strstr b frame_key of Some jr \<Rightarrow> Some jr | None \<Rightarrow> strchr b (CHR ''{'')))"

text \<open>The output of \<open>jq\<close>, read until it is longer than the limit.\<close>

fun jq_read :: "string list \<Rightarrow> nat \<Rightarrow> string \<Rightarrow> string" where
  "jq_read [] n out = out"
| "jq_read (c # cs) n out =
     (let r = length c
      in if n + r > MCP_STRUC_MAX then out @ take (if MCP_STRUC_MAX - n > r then r else MCP_STRUC_MAX - n) c
         else jq_read cs (n + r) (out @ c))"

text \<open>The copy of one item of \<open>content\<close>: as many bytes as the item has, if they fit.\<close>

fun item_scan :: "string \<Rightarrow> bool \<Rightarrow> nat \<times> int \<Rightarrow> nat option" where
  "item_scan [] in_str (n, depth) = None"
| "item_scan (c # q) in_str (n, depth) =
     (if n \<ge> MCP_ITEM_MAX - 2 then None
      else if in_str then
        (if c = BSLASH \<and> q \<noteq> [] then item_scan (tl q) True (n + 2, depth)
         else item_scan q (c \<noteq> DQUOTE) (n + 1, depth))
      else if c = DQUOTE then item_scan q True (n + 1, depth)
      else if c = CHR ''{'' then item_scan q False (n + 1, depth + 1)
      else if c = CHR ''}'' then
        (if depth - 1 = 0 then Some (n + 1) else item_scan q False (n + 1, depth - 1))
      else item_scan q False (n + 1, depth))"

definition truncation_mark :: string where
  "truncation_mark = LF # ''[tool output truncated at 32KB]''"

definition marked :: "string \<Rightarrow> string" where
  "marked t = t @ (if length t \<ge> MCP_TEXT_MAX - 1 then truncation_mark else [])"

lemma item_scan_pos: "item_scan p b s = Some n \<Longrightarrow> fst s < n \<and> n \<le> fst s + length p"
proof (induction p b s rule: item_scan.induct)
  case (2 c q in_str m depth)
  then show ?case by (cases q) (auto split: if_splits)
qed simp

text \<open>The walk over \<open>content\<close>; \<open>first\<close> and \<open>emitted\<close> are each other's negation.\<close>

function content_loop :: "string \<Rightarrow> string \<Rightarrow> bool \<Rightarrow> string \<times> bool" where
  "content_loop q out emitted =
     (if q = [] \<or> hd q \<noteq> CHR ''{'' \<or> length out \<ge> MCP_FINAL_MAX then (out, emitted)
      else case item_scan q False (0, 0) of
             None \<Rightarrow> (out, emitted)
           | Some n \<Rightarrow>
               let st = (case read_jstr MCP_TEXT_MAX (jfind_value (take n q) ''text'') of
                           Text t \<Rightarrow> (out @ (if emitted then [LF] else []) @ marked t, True)
                         | _ \<Rightarrow> (out, emitted));
                   r = jws (drop n q)
               in if r \<noteq> [] \<and> hd r = CHR '','' then content_loop (jws (tl r)) (fst st) (snd st) else st)"
  by pat_completeness auto
termination
proof (relation "measure (\<lambda>(q, out, e). length q)", simp, goal_cases)
  case (1 q out emitted n st r)
  have "0 < n" "n \<le> length q" using item_scan_pos [of q False "(0, 0)" n] 1 by simp_all
  moreover have "length r \<le> length q - n" using 1 length_jws [of "drop n q"] by simp
  moreover have "length (jws (tl r)) \<le> length r" using length_jws [of "tl r"] by simp
  ultimately have "length (jws (tl r)) < length q" by linarith
  then show ?case by simp
qed

declare content_loop.simps [simp del]

definition is_open :: "char \<Rightarrow> string option \<Rightarrow> bool" where
  "is_open c v \<longleftrightarrow> (case v of Some (d # _) \<Rightarrow> d = c | _ \<Rightarrow> False)"

definition structured_text :: "(string \<Rightarrow> string list) \<Rightarrow> string \<Rightarrow> string \<Rightarrow> string" where
  "structured_text jq sc out =
     (let copy = set_str (MCP_STRUC_MAX + 1) sc; out' = jq_read (jq copy) 0 out
      in if out' \<noteq> [] then rtrim (\<lambda>c. c = LF) out' else out @ copy)"

definition flat_text :: "string \<Rightarrow> string" where
  "flat_text res =
     (case read_jstr MCP_TEXT_MAX (jfind_value res ''text'') of Text t \<Rightarrow> marked t | _ \<Rightarrow> take MCP_FINAL_MAX res)"

definition rest_of_result :: "(string \<Rightarrow> string list) \<Rightarrow> string \<Rightarrow> string \<Rightarrow> string" where
  "rest_of_result jq res out =
     (let sc = jfind_value res ''structuredContent''
      in if is_open (CHR ''{'') sc then structured_text jq (the sc) out else out @ flat_text res)"

definition mcp_error_text :: "string \<Rightarrow> string" where
  "mcp_error_text err =
     ''error: '' @ (case read_jstr 256 (jfind_value err ''message'') of Text m \<Rightarrow> m | _ \<Rightarrow> ''mcp tool failed'')"

definition mcp_format_result :: "(string \<Rightarrow> string list) \<Rightarrow> string option \<Rightarrow> string \<Rightarrow> string" where
  "mcp_format_result jq resp0 out =
     (case json_body (map_option cstr resp0) of
        None \<Rightarrow> out @ ''error: no JSON in mcp response''
      | Some resp \<Rightarrow>
          let err = jfind_value resp ''error''; res = jfind_value resp ''result''
          in if is_open (CHR ''{'') err then out @ mcp_error_text (the err)
             else if \<not> is_open (CHR ''{'') res then out @ ''error: no result field in mcp response''
             else let content = jfind_value (the res) ''content''
                  in if is_open (CHR ''['') content then
                       (case content_loop (jws (tl (the content))) out False of
                          (out', emitted) \<Rightarrow> if emitted then out' else rest_of_result jq (the res) out')
                     else rest_of_result jq (the res) out)"

section \<open>When a response is complete\<close>

interpretation complete_walk: json_walker complete_scan "\<lambda>k d. d" Suc "\<lambda>_. True"
  by unfold_locales auto

lemma item_scan_eq:
  "item_scan p b s = (case obj_scan p b s of None \<Rightarrow> None | Some k \<Rightarrow> if k \<le> MCP_ITEM_MAX - 2 then Some k else None)"
proof (induction p b s rule: item_scan.induct)
  case (2 c q b n d)
  show ?case
  proof (cases "n \<ge> MCP_ITEM_MAX - 2")
    case True
    have "k > n" if "obj_scan (c # q) b (n, d) = Some k" for k using obj_scan_pos [OF that] by simp
    with True show ?thesis by (cases "obj_scan (c # q) b (n, d)") (fastforce simp del: obj_scan.simps)+
  next
    case False
    note IH = 2 [OF False]
    show ?thesis
    proof (cases b)
      case True
      then show ?thesis using IH(1,2) False by (cases "c = BSLASH \<and> q \<noteq> []") simp_all
    next
      case out: False
      then show ?thesis using IH(3-6) False
        by (cases "c = DQUOTE"; cases "c = CHR ''{''"; cases "c = CHR ''}''"; cases "d - 1 = 0") simp_all
    qed
  qed
qed simp

text \<open>A text that is complete from an open depth has the brace that closes it; longer text does not move it.\<close>

lemma complete_closes: "complete_scan x b d \<Longrightarrow> 0 < d \<Longrightarrow> \<exists>n. obj_scan x b (m, int d) = Some n"
proof (induction x b d arbitrary: m rule: complete_scan.induct)
  case (2 c r b d)
  have "0 < d \<Longrightarrow> int (d - 1) = int d - 1" by auto
  with 2 show ?case by (auto simp: add.commute split: if_splits simp del: of_nat_diff)
qed simp

lemma obj_scan_append: "obj_scan x b s = Some n \<Longrightarrow> obj_scan (x @ y) b s = Some n"
proof (induction x b s rule: obj_scan.induct)
  case (2 c q b m d)
  then show ?case by (cases "q = []") (auto split: if_splits)
qed simp

lemma complete_printed:
  assumes "members_wf kvs"
  shows "complete_scan (jprint (JObj kvs)) False 0"
proof -
  have "json_wf (JObj kvs)" using assms by (auto simp: members_wf_def list_all_iff)
  then show ?thesis using complete_walk.walk_jprint [of "JObj kvs" "[]" 0] by (simp del: jprint.simps)
qed

lemma prefix_not_complete:
  assumes "members_wf kvs" and "jprint (JObj kvs) = x @ y" and "y \<noteq> []"
  shows "x = [] \<or> \<not> complete_scan x False 0"
proof (cases x)
  case (Cons c x')
  have c: "c = CHR ''{''" using assms(2) Cons by simp
  have "obj_scan (x @ y) False (0, 0) = Some (length (x @ y))"
    using obj_scan_printed [OF assms(1), of "[]"] assms(2) by (simp del: jprint.simps)
  moreover have "n \<le> length x" if "obj_scan x False (0, 0) = Some n" for n using obj_scan_pos [OF that] by simp
  ultimately have "obj_scan x False (0, 0) \<noteq> Some n" for n using obj_scan_append [of x False "(0, 0)" n y] assms(3) by fastforce
  then have "obj_scan x' False (1, 1) \<noteq> Some n" for n using Cons c by simp
  then show ?thesis using complete_closes [of x' False 1 1] Cons c by auto
qed simp

text \<open>Start-up noise of a server: text without quotes and braces.\<close>

definition noise :: "string \<Rightarrow> bool" where
  "noise s \<longleftrightarrow> list_all (\<lambda>c. c \<noteq> DQUOTE \<and> c \<noteq> CHR ''{'' \<and> c \<noteq> CHR ''}'' \<and> c \<noteq> NUL) s"

lemma complete_noise: "noise s \<Longrightarrow> complete_scan (s @ x) False d = complete_scan x False d"
  using complete_walk.passed_bytes [of s]
  by (cases "s = []") (auto simp: noise_def complete_walk.passed_def list_all_iff)

lemma rtrim_append: "rtrim P (x @ y) = (if rtrim P y = [] then rtrim P x else x @ rtrim P y)"
  by (auto simp: rtrim_def dropWhile_append)

lemma rtrim_all: "list_all P y \<Longrightarrow> rtrim P y = []"
  by (simp add: rtrim_def list_all_iff)

lemma json_complete_prefix:
  assumes "noise s" and "members_wf kvs" and "jprint (JObj kvs) = x @ y" and "y \<noteq> []"
  shows "\<not> json_complete (s @ x)"
proof
  define q where "q = rtrim json_ws (s @ x)"
  assume "json_complete (s @ x)"
  then have q: "last q = CHR ''}''" "q \<noteq> []" "complete_scan q False 0" by (simp_all add: json_complete_def q_def Let_def)
  obtain w where w: "s @ x = q @ w" unfolding q_def rtrim_def
    by (metis rev_append rev_rev_ident takeWhile_dropWhile_id)
  show False
  proof (cases "length q \<le> length s")
    case True
    then have "set q \<subseteq> set s" using w set_take_subset [of "length q" s] by (metis append_eq_append_conv_if)
    with q(1,2) assms(1) show False by (auto simp: noise_def list_all_iff dest!: last_in_set)
  next
    case False
    then obtain q' where q': "q = s @ q'" "x = q' @ w" "q' \<noteq> []" using w by (auto simp: append_eq_append_conv2)
    with q(3) complete_noise [OF assms(1)] have "complete_scan q' False 0" by simp
    with prefix_not_complete [OF assms(2), of q' "w @ y"] assms(3,4) q' show False by simp
  qed
qed

lemma json_complete_whole:
  assumes "noise s" and "members_wf kvs" and "list_all json_ws w"
  shows "json_complete (s @ jprint (JObj kvs) @ w)"
proof -
  obtain u where u: "jprint (JObj kvs) = u @ [CHR ''}'']" by simp
  have "rtrim json_ws (jprint (JObj kvs)) = jprint (JObj kvs)" "jprint (JObj kvs) \<noteq> []" unfolding u by (simp_all add: rtrim_def json_ws_def)
  then have "rtrim json_ws (s @ jprint (JObj kvs) @ w) = s @ jprint (JObj kvs)"
    using rtrim_append [of json_ws "s @ jprint (JObj kvs)" w] rtrim_append [of json_ws s "jprint (JObj kvs)"] rtrim_all [OF assms(3)]
    by (simp del: jprint.simps)
  then show ?thesis using complete_printed [OF assms(2)] complete_noise [OF assms(1)]
    by (simp add: json_complete_def Let_def)
qed

section \<open>Responses cut anywhere\<close>

text \<open>A response: the protocol tag, the number of the request, and the rest of its members.\<close>

definition response_members :: "nat \<Rightarrow> (string \<times> json) list \<Rightarrow> (string \<times> json) list" where
  "response_members ident kvs = [(''jsonrpc'', JStr ''2.0''), (''id'', JAtom (nat_dec ident))] @ kvs"

definition response_frame :: "nat \<Rightarrow> (string \<times> json) list \<Rightarrow> string" where
  "response_frame ident kvs = jprint (JObj (response_members ident kvs))"

lemma response_members_wf: "members_wf kvs \<Longrightarrow> members_wf (response_members ident kvs)"
  using nat_dec_value [of ident]
  by (auto simp: members_wf_def response_members_def atom_char_def isalnum_def list_all_iff)

lemma response_frame_head:
  "\<exists>r. response_frame ident kvs = frame_key @ '':'' @ [DQUOTE] @ ''2.0'' @ [DQUOTE] @ '','' @ id_key @ '':'' @ nat_dec ident @ r \<and>
    r \<noteq> [] \<and> \<not> isdigit (hd r)"
proof -
  have q: "json_quote ''id'' = id_key" "json_quote ''2.0'' = [DQUOTE] @ ''2.0'' @ [DQUOTE]"
    by (simp_all add: id_key_def json_quote_def json_esc_def)
  show ?thesis
    by (cases "kvs = []")
      (simp_all add: response_frame_def response_members_def q frame_key_def isdigit_def)
qed

lemma strstr_noise: "noise s \<Longrightarrow> key \<noteq> [] \<Longrightarrow> hd key = DQUOTE \<or> hd key = CHR ''{'' \<Longrightarrow> strstr (s @ x) key = strstr x key"
proof (induction s)
  case (Cons c s)
  then have "take (length key) (c # s @ x) \<noteq> key" by (cases key) (auto simp: noise_def)
  with Cons show ?case by (simp add: noise_def)
qed simp

lemma carries_response_frame:
  assumes "noise s" and "int ident \<le> LONG_MAX"
  shows "carries_response (s @ response_frame ident kvs @ w) (int ident)"
proof -
  obtain r where r: "response_frame ident kvs = frame_key @ '':'' @ [DQUOTE] @ ''2.0'' @ [DQUOTE] @ '','' @ id_key @ '':'' @ nat_dec ident @ r"
      "r \<noteq> []" "\<not> isdigit (hd r)" using response_frame_head [of ident kvs] by auto
  have fk: "frame_key = CHR ''{'' # DQUOTE # ''jsonrpc'' @ [DQUOTE]"
    by (simp add: frame_key_def json_quote_def json_esc_def)
  define t where "t = '':'' @ nat_dec ident @ r @ w"
  have "strstr (response_frame ident kvs @ w) id_key = Some (id_key @ t)"
    unfolding r(1) fk by (simp add: id_key_def t_def)
  then have s: "strstr (s @ response_frame ident kvs @ w) id_key = Some (id_key @ t)"
    using strstr_noise [OF assms(1), of id_key] by (simp add: id_key_def)
  have d: "isdigit (hd (nat_dec ident))" "nat_dec ident \<noteq> []" using nat_dec_value [of ident] by (cases "nat_dec ident", auto)
  then have b: "dropWhile arg_blank (nat_dec ident @ r @ w) = nat_dec ident @ r @ w"
    by (cases "nat_dec ident") (auto simp: arg_blank_def isdigit_def)
  have v: "strtol10 (nat_dec ident @ r @ w) = (int ident, r @ w)" using strtol10_nat_dec [of "r @ w" ident] r(2,3) assms(2) by simp
  have "dropWhile arg_blank t = t" "hd t = CHR '':''" "t \<noteq> []" "tl t = nat_dec ident @ r @ w" by (simp_all add: t_def arg_blank_def)
  then show ?thesis using s b v d(2) by (subst carries_response.simps) (simp add: id_key_def)
qed

fun chunks :: "rd_event list \<Rightarrow> string" where
  "chunks [] = []"
| "chunks (RdChunk c # es) = c @ chunks es"
| "chunks (_ # es) = chunks es"

lemma sb_mem_whole: "\<not> sb_oom b \<Longrightarrow> \<not> sb_oom (sb_mem (\<lambda>_. True) b c) \<and> sb_text (sb_mem (\<lambda>_. True) b c) = sb_text b @ c"
  by (simp add: sb_mem_def sb_reserve_def Let_def)

lemma cstr_id: "NUL \<notin> set s \<Longrightarrow> cstr s = s"
  by (simp add: cstr_def takeWhile_eq_all_conv) metis


lemma jprint_no_NUL: "json_wf v \<Longrightarrow> NUL \<notin> set (jprint v)"
proof (induction v rule: jprint.induct)
  case (1 a)
  then show ?case by (auto simp: list_all_iff atom_char_def isalnum_def isalpha_def isdigit_def)
next
  case (3 vs)
  have "NUL \<notin> set x" if "x \<in> set (map jprint vs)" for x using 3 that by (auto simp: list_all_iff)
  then show ?case using join_no_NUL [of "map jprint vs"] by simp
next
  case (4 kvs)
  have "NUL \<notin> set x" if "x \<in> set (map (\<lambda>kv. json_quote (fst kv) @ CHR '':'' # jprint (snd kv)) kvs)" for x
    using 4 that json_quote_no_NUL by (auto simp: list_all_iff)
  then show ?case using join_no_NUL by simp
qed (simp add: json_quote_no_NUL)

lemma noise_no_NUL: "noise s \<Longrightarrow> NUL \<notin> set s"
  by (induction s) (auto simp: noise_def)

lemma ws_no_NUL: "list_all json_ws w \<Longrightarrow> NUL \<notin> set w"
  by (induction w) (auto simp: json_ws_def)

lemma cut_not_complete:
  assumes "noise s" and "members_wf kvs" and "a @ b = s @ jprint (JObj kvs)" and "b \<noteq> []"
  shows "\<not> json_complete a"
proof (cases "length a \<le> length s")
  case True
  then have "a = take (length a) s" using assms(3) by (metis append_eq_append_conv_if)
  then have "noise a" using assms(1) unfolding noise_def list_all_iff by (metis in_set_takeD)
  then show ?thesis using json_complete_prefix [OF _ assms(2), of a "[]"] jprint_not_empty [of kvs] by (simp del: jprint.simps)
next
  case False
  then obtain x where "a = s @ x" "jprint (JObj kvs) = x @ b"
    using assms(3) by (auto simp: append_eq_append_conv2 simp del: jprint.simps)
  then show ?thesis using json_complete_prefix [OF assms(1,2), of x b] assms(4) by simp
qed

text \<open>
  The response arrives whatever the pipe does to it: cut into pieces anywhere, with interrupted calls between them,
  after noise and with white space behind it, what the reader returns is the noise, the frame and some of the white
  space, never less.
\<close>

lemma read_response_cut:
  assumes "noise s" and "members_wf kvs" and "int ident \<le> LONG_MAX" and "list_all json_ws w"
    and "length (s @ response_frame ident kvs @ w) \<le> MCP_RESP_MAX"
    and "RdStop \<notin> set es" and "\<not> sb_oom acc" and "sb_text acc @ chunks es = s @ response_frame ident kvs @ w"
    and "length (sb_text acc) < length (s @ response_frame ident kvs)"
  shows "\<exists>k es'. mcpproc_read_response (\<lambda>_. True) (int ident) es acc = (Some (s @ response_frame ident kvs @ take k w), es')"
  using assms(6-)
proof (induction es arbitrary: acc rule: chunks.induct)
  case (2 c es)
  define F where "F = response_frame ident kvs"
  note wf = response_members_wf [OF assms(2), of ident]
  define acc' where "acc' = sb_mem (\<lambda>_. True) acc c"
  have a: "sb_text acc' = sb_text acc @ c" "\<not> sb_oom acc'" using sb_mem_whole [OF 2(3)] by (simp_all add: acc'_def)
  have T: "sb_text acc' @ chunks es = s @ F @ w" using 2(4) by (simp add: a F_def)
  then have "length (sb_text acc') \<le> length (s @ F @ w)" by (metis length_append le_add1)
  then have len: "length (sb_text acc') \<le> MCP_RESP_MAX" using assms(5) by (simp add: F_def)
  have "NUL \<notin> set F" using wf jprint_no_NUL [of "JObj (response_members ident kvs)"]
    by (auto simp: F_def response_frame_def members_wf_def list_all_iff simp del: jprint.simps)
  moreover note noise_no_NUL [OF assms(1)] ws_no_NUL [OF assms(4)]
  moreover have "set (sb_text acc') \<subseteq> set (s @ F @ w)" unfolding T [symmetric] by simp
  ultimately have "NUL \<notin> set (sb_text acc')" by (simp only: set_append) blast
  then have nul: "cstr (sb_text acc') = sb_text acc'" by (rule cstr_id)
  show ?case
  proof (cases "length (sb_text acc') < length (s @ F)")
    case True
    then obtain b where b: "sb_text acc' @ b = s @ F" "b \<noteq> []"
      using T by (metis append_Nil2 append_eq_append_conv2 append_assoc less_irrefl length_append not_add_less1)
    have "\<not> json_complete (cstr (sb_text acc'))"
      using cut_not_complete [OF assms(1) wf, of "sb_text acc'" b] b nul by (simp add: F_def response_frame_def)
    moreover have "\<exists>k es'. mcpproc_read_response (\<lambda>_. True) (int ident) es acc' = (Some (s @ F @ take k w), es')"
      unfolding F_def by (rule 2(1)) (use 2(2) T True a in \<open>simp_all add: F_def\<close>)
    ultimately show ?thesis using a len by (simp add: acc'_def [symmetric] F_def)
  next
    case False
    define k where "k = length (sb_text acc') - length (s @ F)"
    have k: "sb_text acc' = s @ F @ take k w"
      using False T unfolding k_def by (simp add: append_eq_conv_conj)
    have "json_complete (sb_text acc')" "carries_response (sb_text acc') (int ident)"
      unfolding k F_def
      using json_complete_whole [OF assms(1) wf, of "take k w"] assms(4) carries_response_frame [OF assms(1,3)]
      by (auto simp: response_frame_def list_all_iff dest: in_set_takeD simp del: jprint.simps)
    then show ?thesis using a(2) len nul k by (intro exI [of _ k] exI [of _ es]) (simp add: acc'_def [symmetric] F_def)
  qed
qed auto

section \<open>The texts of a result\<close>

definition text_item :: "string \<Rightarrow> (string \<times> json) list" where
  "text_item t = [(''type'', JStr ''text''), (''text'', JStr t)]"

definition text_result :: "string list \<Rightarrow> (string \<times> json) list" where
  "text_result ts = [(''result'', JObj [(''content'', JArr (map (\<lambda>t. JObj (text_item t)) ts))])]"

primrec text_lines :: "bool \<Rightarrow> string list \<Rightarrow> string" where
  "text_lines e [] = []"
| "text_lines e (t # ts) = (if e then [LF] else []) @ t @ text_lines True ts"

definition part_ok :: "string \<Rightarrow> bool" where
  "part_ok t \<longleftrightarrow> fits (MCP_TEXT_MAX - 1) t \<and> length (jprint (JObj (text_item t))) \<le> MCP_ITEM_MAX - 2"

lemma text_item_wf: "NUL \<notin> set t \<Longrightarrow> members_wf (text_item t)"
  by (simp add: members_wf_def text_item_def)

lemma read_text_item:
  assumes "part_ok t"
  shows "read_jstr MCP_TEXT_MAX (jfind_value (jprint (JObj (text_item t))) ''text'') = Text t" and "marked t = t"
proof -
  have "fits MCP_TEXT_MAX t" "NUL \<notin> set t" using assms by (auto simp: part_ok_def fits_def MCP_TEXT_MAX_def)
  then show "read_jstr MCP_TEXT_MAX (jfind_value (jprint (JObj (text_item t))) ''text'') = Text t"
    by (intro read_jstr_printed text_item_wf) (simp_all add: text_item_def MCP_TEXT_MAX_def)
  show "marked t = t" using assms by (simp add: marked_def part_ok_def fits_def)
qed

lemma content_loop_item:
  assumes "part_ok t" and "length out < MCP_FINAL_MAX" and "r \<noteq> []" and "\<not> json_ws (hd r)"
  shows "content_loop (jprint (JObj (text_item t)) @ r) out e =
    (let out' = out @ (if e then [LF] else []) @ t
     in if hd r = CHR '','' then content_loop (jws (tl r)) out' True else (out', True))"
proof -
  define j where "j = jprint (JObj (text_item t))"
  have j: "j \<noteq> []" "hd (j @ r) = CHR ''{''" by (simp_all add: j_def)
  have "NUL \<notin> set t" "length j \<le> MCP_ITEM_MAX - 2" using assms(1) by (auto simp: part_ok_def fits_def j_def)
  then have "item_scan (j @ r) False (0, 0) = Some (length j)"
    using obj_scan_printed [OF text_item_wf, of t r] by (simp add: item_scan_eq j_def del: jprint.simps)
  moreover have "jws r = r" using assms(3,4) by (simp add: jws_id)
  moreover note read_text_item [OF assms(1), folded j_def]
  ultimately show ?thesis unfolding j_def [symmetric]
    using j assms(2,3) by (subst content_loop.simps) (simp add: Let_def)
qed

lemma content_loop_printed:
  assumes "list_all part_ok ts" and "length out + length (text_lines e ts) < MCP_FINAL_MAX" and "ts \<noteq> []"
  shows "content_loop (join (map (\<lambda>t. jprint (JObj (text_item t))) ts) @ '']'' @ rest) out e = (out @ text_lines e ts, True)"
  using assms
proof (induction ts arbitrary: out e)
  case (Cons t ts)
  define r where "r = (if ts = [] then '']'' @ rest else CHR '','' # join (map (\<lambda>t. jprint (JObj (text_item t))) ts) @ '']'' @ rest)"
  define out' where "out' = out @ (if e then [LF] else []) @ t"
  have shape: "join (map (\<lambda>t. jprint (JObj (text_item t))) (t # ts)) @ '']'' @ rest = jprint (JObj (text_item t)) @ r"
    by (simp add: r_def del: jprint.simps)
  have r: "r \<noteq> []" "\<not> json_ws (hd r)" by (simp_all add: r_def json_ws_def)
  have step: "content_loop (jprint (JObj (text_item t)) @ r) out e =
      (if hd r = CHR '','' then content_loop (jws (tl r)) out' True else (out', True))"
    using content_loop_item [OF _ _ r, of t out e] Cons(2,3) by (simp add: out'_def)
  show ?case
  proof (cases "ts = []")
    case True
    then show ?thesis unfolding shape step by (simp add: r_def out'_def)
  next
    case False
    then obtain t' ts' where "ts = t' # ts'" by (cases ts) auto
    then have "jws (tl r) = tl r" by (cases ts') (auto simp: r_def jws_id json_ws_def)
    moreover have "content_loop (tl r) out' True = (out' @ text_lines True ts, True)"
      using Cons.IH [of out' True] Cons(2,3) False by (simp add: r_def out'_def del: jprint.simps)
    ultimately show ?thesis unfolding shape step using False by (simp add: r_def out'_def del: jprint.simps)
  qed
qed simp

lemma text_result_wf: "list_all part_ok ts \<Longrightarrow> members_wf (text_result ts)"
  by (auto simp: members_wf_def text_result_def text_item_def part_ok_def fits_def list_all_iff)

lemma json_body_frame: "noise s \<Longrightarrow> json_body (Some (s @ response_frame ident kvs @ w)) = Some (response_frame ident kvs @ w)"
proof -
  assume "noise s"
  then have "strstr (s @ response_frame ident kvs @ w) frame_key = strstr (response_frame ident kvs @ w) frame_key"
    by (intro strstr_noise) (simp_all add: frame_key_def)
  moreover obtain r where "response_frame ident kvs = frame_key @ r" using response_frame_head [of ident kvs] by auto
  moreover have "strstr (frame_key @ x) frame_key = Some (frame_key @ x)" for x by (simp add: frame_key_def)
  ultimately show ?thesis by (simp add: json_body_def)
qed

lemma format_texts:
  assumes "noise s" and "list_all part_ok ts" and "ts \<noteq> []" and "length (text_lines False ts) < MCP_FINAL_MAX"
    and "list_all json_ws w"
  shows "mcp_format_result jq (Some (s @ response_frame ident (text_result ts) @ w)) [] = text_lines False ts"
proof -
  define kvs where "kvs = response_members ident (text_result ts)"
  define items where "items = map (\<lambda>t. JObj (text_item t)) ts"
  define F where "F = response_frame ident (text_result ts)"
  have F: "F = jprint (JObj kvs)" by (simp add: F_def response_frame_def kvs_def)
  note wf = response_members_wf [OF text_result_wf [OF assms(2)], of ident, folded kvs_def]
  have cw: "members_wf [(''content'', JArr items)]"
    using text_result_wf [OF assms(2)] by (simp add: members_wf_def text_result_def items_def)
  have "map_of kvs ''error'' = None" "map_of kvs ''result'' = Some (JObj [(''content'', JArr items)])"
    by (simp_all add: kvs_def response_members_def text_result_def items_def)
  then obtain tail where e: "jfind_value (F @ w) ''error'' = None"
      and r: "jfind_value (F @ w) ''result'' = Some (jprint (JObj [(''content'', JArr items)]) @ tail)"
    using jfind_value_printed [OF wf, of w "''error''"] jfind_value_printed [OF wf, of w "''result''"] unfolding F
    by (auto simp del: jprint.simps)
  define res where "res = jprint (JObj [(''content'', JArr items)]) @ tail"
  obtain tail2 where c: "jfind_value res ''content'' = Some (jprint (JArr items) @ tail2)"
    using jfind_value_printed [OF cw, of tail "''content''"] by (auto simp: res_def simp del: jprint.simps)
  have p: "jprint (JArr items) @ tail2 = CHR ''['' # join (map (\<lambda>t. jprint (JObj (text_item t))) ts) @ '']'' @ tail2"
    by (simp add: items_def comp_def del: jprint.simps(4))
  have ws: "jws (join (map (\<lambda>t. jprint (JObj (text_item t))) ts) @ '']'' @ tail2) = join (map (\<lambda>t. jprint (JObj (text_item t))) ts) @ '']'' @ tail2"
    using assms(3) by (cases ts; cases "tl ts") (auto simp: jws_id json_ws_def)
  have loop: "content_loop (jws (join (map (\<lambda>t. jprint (JObj (text_item t))) ts) @ '']'' @ tail2)) [] False = (text_lines False ts, True)"
    unfolding ws using content_loop_printed [OF assms(2), of "[]" False tail2] assms(3,4) by simp
  have "NUL \<notin> set F" unfolding F by (rule jprint_no_NUL) (use wf in \<open>auto simp: members_wf_def list_all_iff\<close>)
  then have "cstr (s @ F @ w) = s @ F @ w" using noise_no_NUL [OF assms(1)] ws_no_NUL [OF assms(5)] by (intro cstr_id) simp
  then have "json_body (map_option cstr (Some (s @ F @ w))) = Some (F @ w)" using json_body_frame [OF assms(1)] by (simp add: F_def)
  moreover have "is_open (CHR ''{'') (Some res)" by (simp add: is_open_def res_def)
  moreover have "is_open (CHR ''['') (Some (jprint (JArr items) @ tail2))" by (simp add: is_open_def)
  ultimately show ?thesis unfolding F_def [symmetric] mcp_format_result_def
    using e r [folded res_def] c loop by (simp add: Let_def p is_open_def [of _ None] del: jprint.simps)
qed

section \<open>Where the reader and the writer of texts go wrong\<close>

text \<open>
  The number of a request is looked for anywhere in the text, so a notification that mentions the number inside its
  parameters ends the wait for the response.
\<close>

definition progress_note :: string where
  "progress_note = jprint (JObj [(''jsonrpc'', JStr ''2.0''), (''method'', JStr ''notifications/progress''),
     (''params'', JObj [(''id'', JAtom ''3'')])])"

lemma notification_taken_for_response:
  "mcpproc_read_response (\<lambda>_. True) 3 [RdChunk progress_note, RdChunk (response_frame 3 kvs)] zero_sbuf =
     (Some progress_note, [RdChunk (response_frame 3 kvs)])"
proof -
  have "carries_response (cstr progress_note) 3 \<and> json_complete (cstr progress_note) \<and> length progress_note \<le> 200"
    by code_simp
  then show ?thesis using sb_mem_whole [of zero_sbuf progress_note]
    by (simp add: zero_sbuf_def sb_text_def MCP_RESP_MAX_def)
qed

text \<open>
  A closing brace in the noise hides every response behind it; after an odd number of quotes the braces of the response
  are taken for text, and a response that is cut off passes for complete.
\<close>

lemma brace_noise_hides_response: "\<not> json_complete (CHR ''}'' # x)"
proof
  assume "json_complete (CHR ''}'' # x)"
  moreover have "rtrim json_ws (CHR ''}'' # x) = CHR ''}'' # rtrim json_ws x"
    using rtrim_append [of json_ws "''}''" x] by (auto simp: rtrim_def json_ws_def)
  ultimately show False by (simp add: json_complete_def)
qed

definition nested_result :: string where
  "nested_result = response_frame 1 [(''result'', JArr [JObj [], JAtom ''7''])]"

lemma quote_noise_cuts_response:
  "carries_response (DQUOTE # take 36 nested_result) 1 \<and> json_complete (DQUOTE # take 36 nested_result) \<and> 36 < length nested_result"
  by code_simp

text \<open>
  \<open>jq\<close>, here one that echoes its input, gets the structured content with the rest of the response behind it, and a
  result of an unknown form is returned with the brace of the frame around it.
\<close>

lemma structured_content_takes_rest:
  "mcp_format_result (\<lambda>s. [s]) (Some (response_frame 3 [(''result'', JObj [(''structuredContent'', JObj [])])])) [] = ''{}}}''"
proof -
  define F where "F = response_frame 3 [(''result'', JObj [(''structuredContent'', JObj [])])]"
  define R where "R = CHR ''{'' # json_quote ''structuredContent'' @ '':{}}}''"
  have f: "json_body (map_option cstr (Some F)) = Some F" "jfind_value F ''error'' = None" "jfind_value F ''result'' = Some R"
    "jfind_value R ''content'' = None" "jfind_value R ''structuredContent'' = Some ''{}}}''"
    unfolding F_def R_def by code_simp+
  have "is_open (CHR ''{'') (Some R)" by (simp add: is_open_def R_def)
  moreover have "structured_text (\<lambda>s. [s]) ''{}}}'' [] = ''{}}}''"
    by (simp add: structured_text_def set_str_def MCP_STRUC_MAX_def rtrim_def)
  ultimately show ?thesis unfolding F_def [symmetric] mcp_format_result_def
    using f by (simp add: Let_def rest_of_result_def is_open_def [of _ None] is_open_def [of _ "Some ''{}}}''"])
qed

lemma raw_result_takes_rest:
  "mcp_format_result jq (Some (response_frame 3 [(''result'', JObj [])])) [] = ''{}}''"
proof -
  define F where "F = response_frame 3 [(''result'', JObj [])]"
  have f: "json_body (map_option cstr (Some F)) = Some F" "jfind_value F ''error'' = None" "jfind_value F ''result'' = Some ''{}}''"
    "jfind_value ''{}}'' ''content'' = None" "jfind_value ''{}}'' ''structuredContent'' = None" "jfind_value ''{}}'' ''text'' = None"
    unfolding F_def by code_simp+
  then show ?thesis unfolding F_def [symmetric] mcp_format_result_def
    by (simp add: Let_def rest_of_result_def is_open_def flat_text_def read_jstr_def MCP_FINAL_MAX_def)
qed

end
