(* ===== verification/Mcp.thy ===== *)
theory Mcp
  imports Mcp_Wire
begin

text \<open>
  The MCP client itself, the last part of \<open>src/src/agent/mcp.c\<close>: the table of tools harvested from the servers, the
  resident connections, a call, and the start.  What the operating system does is the argument \<open>mcp_world\<close>, whose
  answers may depend on all that happened before: the list of actions in the state.
\<close>

definition MCP_TOOLS_MAX :: nat where "MCP_TOOLS_MAX = 256"
definition MCP_BOOT_TIMEOUT :: int where "MCP_BOOT_TIMEOUT = 120"
definition MCP_CALL_TIMEOUT :: int where "MCP_CALL_TIMEOUT = 900"
definition TOOL_ITEM_SIZE :: nat where "TOOL_ITEM_SIZE = 262144"

record McpToolInfo =
  mt_name :: string
  mt_server :: string
  mt_tool :: string
  mt_desc :: string
  mt_props :: string

text \<open>A resident connection: its process and pipe pair, if it has one, and the next request number.\<close>

record McpConn =
  cn_pid :: "nat option"
  cn_pipe :: "nat option"
  cn_alive :: bool
  cn_seq :: nat

text \<open>What the client does to the world, in order.\<close>

datatype mcp_act =
    Spawned nat "string list" "(string \<times> string) list" nat
  | Sent_line nat string
  | Awaited nat nat int
  | Drained nat
  | Killed nat
  | Clocked

text \<open>
  \<open>mw_spawn\<close>: the process number of a new child, or a failure; \<open>mw_write\<close>: whether the line went out whole; \<open>mw_read\<close>:
  what the loop that waits for a response sees; \<open>mw_gone\<close>: whether a child has ended; \<open>mw_env\<close>: the environment.
\<close>

record mcp_world =
  mw_spawn :: "mcp_act list \<Rightarrow> nat option"
  mw_write :: "mcp_act list \<Rightarrow> string \<Rightarrow> bool"
  mw_read :: "mcp_act list \<Rightarrow> rd_event list"
  mw_gone :: "mcp_act list \<Rightarrow> nat \<Rightarrow> bool"
  mw_now :: "mcp_act list \<Rightarrow> int"
  mw_env :: "(string \<times> string) list"
  mw_alloc :: "nat \<Rightarrow> bool"
  mw_jq :: "string \<Rightarrow> string list"

record 'f mcp_state =
  ms_servers :: "McpServerCfg list"
  ms_tools :: "McpToolInfo list"
  ms_reg :: "'f registry"
  ms_conns :: "McpConn list"
  ms_pipes :: "nat list"
  ms_next :: nat
  ms_trace :: "mcp_act list"

definition env_value :: "mcp_world \<Rightarrow> string \<Rightarrow> string option" where
  "env_value w k = map_of (mw_env w) k"

section \<open>The catalogue of a server\<close>

text \<open>
  The copy of one entry of \<open>tools\<close> into the buffer: the bytes stored, whether the NUL was written, whether bytes were
  dropped, and the text behind the entry.  An escape that no longer fits is dropped without a mark, and its second byte
  is then read like any other.
\<close>

fun tool_scan :: "string \<Rightarrow> bool \<Rightarrow> string \<Rightarrow> int \<Rightarrow> bool \<Rightarrow> (string \<times> bool \<times> bool \<times> string) option" where
  "tool_scan [] in_str item depth overflow = None"
| "tool_scan (c # r) in_str item depth overflow =
     (let fits1 = length item < TOOL_ITEM_SIZE - 1
      in if in_str \<and> c = BSLASH \<and> r \<noteq> [] then
           (if length item + 2 < TOOL_ITEM_SIZE - 1 then tool_scan (tl r) True (item @ [c, hd r]) depth overflow
            else tool_scan r True item depth overflow)
         else if \<not> in_str \<and> c = CHR ''}'' \<and> depth - 1 = 0 then
           Some (if fits1 then item @ [c] else item, fits1, overflow, r)
         else tool_scan r (if in_str then c \<noteq> DQUOTE else c = DQUOTE) (if fits1 then item @ [c] else item)
                (if in_str then depth
                 else if c = CHR ''{'' then depth + 1 else if c = CHR ''}'' then depth - 1 else depth)
                (overflow \<or> \<not> fits1))"

text \<open>The bytes \<open>jread_string\<close> leaves in a zeroed buffer, also when it gives up at an escape it does not know.\<close>

function jread_stored :: "nat \<Rightarrow> string \<Rightarrow> string \<Rightarrow> string" where
  "jread_stored n [] out = out"
| "jread_stored n (c # p) out =
     (if c = DQUOTE then out
      else if c = BSLASH then
        (case jread_escape p of None \<Rightarrow> out | Some (cp, r) \<Rightarrow> jread_stored n r (utf8_put n out cp))
      else jread_stored n p (put_byte n out c))"
  by pat_completeness auto
termination
  by (relation "measure (\<lambda>(n, p, out). length p)") (auto dest: jread_escape_shorter)

definition stored_text :: "nat \<Rightarrow> string option \<Rightarrow> string" where
  "stored_text n v =
     (case v of
        Some (c # p) \<Rightarrow> if c = DQUOTE then cstr (jread_stored n p []) else []
      | _ \<Rightarrow> [])"

definition copy_json_value :: "nat \<Rightarrow> string \<Rightarrow> string" where
  "copy_json_value outsz v =
     (case jskip_value v of
        None \<Rightarrow> []
      | Some p \<Rightarrow>
          let n = length v - length p
          in if n = 0 then [] else if n > outsz - 1 then ''{}'' else take n v)"

definition tool_props :: "string \<Rightarrow> string" where
  "tool_props item =
     (let iv = jfind_value item ''inputSchema''
      in if \<not> is_open (CHR ''{'') iv then ''{}''
         else let props = jfind_value (the iv) ''properties''
              in if is_open (CHR ''{'') props then copy_json_value (TOOL_PARAMS_MAX + 1) (the props) else ''{}'')"

definition mcp_tool_name :: "string \<Rightarrow> string \<Rightarrow> string" where
  "mcp_tool_name ident name = take TOOL_NAME_MAX (ident @ ''__'' @ name)"

text \<open>The entry for one tool; \<open>None\<close> is a read behind a text.\<close>

definition tool_info :: "McpServerCfg \<Rightarrow> string \<Rightarrow> string \<Rightarrow> McpToolInfo option" where
  "tool_info s name item =
     (let mcp_name = mcp_tool_name (sc_id s) name;
          desc = stored_text (TOOL_DESC_MAX + 1) (jfind_value item ''description'')
      in case (utf8_copy name 47, utf8_copy (if desc \<noteq> [] then desc else mcp_name) TOOL_DESC_MAX) of
           (Some n, Some d) \<Rightarrow>
             Some \<lparr>mt_name = mcp_name, mt_server = set_str 32 (sc_id s), mt_tool = n, mt_desc = d, mt_props = tool_props item\<rparr>
         | _ \<Rightarrow> None)"

definition after_comma :: "string \<Rightarrow> string option" where
  "after_comma r = (case jws r of c # q \<Rightarrow> if c = CHR '','' then Some (jws q) else None | [] \<Rightarrow> None)"

lemma tool_scan_shorter: "tool_scan p b item d ov = Some (x, t, o', r) \<Longrightarrow> length r < length p"
proof (induction p b item d ov rule: tool_scan.induct)
  case (2 c p b item d ov)
  show ?case
  proof (cases "b \<and> c = BSLASH \<and> p \<noteq> []")
    case True
    then show ?thesis using 2 by (cases "length item + 2 < TOOL_ITEM_SIZE - 1") (fastforce simp: Let_def)+
  next
    case False
    then show ?thesis using 2(3) [OF refl False] 2(4)
      by (cases "\<not> b \<and> c = CHR ''}'' \<and> d - 1 = 0") (auto simp: Let_def)
  qed
qed simp

lemma after_comma_shorter: "after_comma r = Some q \<Longrightarrow> length q < length r"
proof -
  assume "after_comma r = Some q"
  then obtain x where "jws r = CHR '','' # x" "q = jws x" by (auto simp: after_comma_def split: list.splits if_splits)
  then show ?thesis using length_jws [of r] length_jws [of x] by simp
qed

text \<open>
  One entry: whether the walk goes on, and the tables.  The registry may refuse a tool, the table takes it all the
  same.
\<close>

definition digest_entry ::
  "string option \<Rightarrow> (nat \<Rightarrow> 'f) \<Rightarrow> McpServerCfg \<Rightarrow> string \<Rightarrow> McpToolInfo list \<times> 'f registry \<Rightarrow>
   (bool \<times> McpToolInfo list \<times> 'f registry) option" where
  "digest_entry profile runner s item st =
     (let nv = read_jstr 48 (jfind_value item ''name''); name = (case nv of Text n \<Rightarrow> n | _ \<Rightarrow> [])
      in if nv = Broken then Some (False, st)
         else if list_ex (\<lambda>t. mt_name t = mcp_tool_name (sc_id s) name) (fst st) then Some (True, st)
         else case tool_info s name item of
                None \<Rightarrow> None
              | Some t \<Rightarrow>
                  map_option (\<lambda>(rc, reg). (True, fst st @ [t], reg))
                    (tools_register profile (Some (mt_name t)) (Some (mt_desc t)) (Some (mt_props t))
                       (Some (runner (length (fst st)))) (snd st)))"

text \<open>\<open>None\<close>: a read behind the buffer of an entry that filled it without its NUL.\<close>

function digest_loop ::
  "string option \<Rightarrow> (nat \<Rightarrow> 'f) \<Rightarrow> McpServerCfg \<Rightarrow> string \<Rightarrow> McpToolInfo list \<times> 'f registry \<Rightarrow> (McpToolInfo list \<times> 'f registry) option" where
  "digest_loop profile runner s q st =
     (if q = [] \<or> hd q \<noteq> CHR ''{'' \<or> length (fst st) \<ge> MCP_TOOLS_MAX then Some st
      else case tool_scan q False [] 0 False of
             None \<Rightarrow> Some st
           | Some (item, terminated, overflow, r) \<Rightarrow>
               if overflow then digest_loop profile runner s (case after_comma r of Some q' \<Rightarrow> q' | None \<Rightarrow> jws r) st
               else if \<not> terminated then None
               else case digest_entry profile runner s item st of
                      None \<Rightarrow> None
                    | Some (go, st1) \<Rightarrow>
                        if \<not> go then Some st1
                        else (case after_comma r of None \<Rightarrow> Some st1 | Some q' \<Rightarrow> digest_loop profile runner s q' st1))"
  by pat_completeness auto
termination
proof (relation "measure (\<lambda>(e, f, s, q, st). length q)", simp, goal_cases)
  case (1 profile runner s q st a b c d e f r)
  then have "length r < length q" using tool_scan_shorter [of q False "[]" 0 False] by (auto dest: sym)
  moreover have "length (case after_comma r of Some q' \<Rightarrow> q' | None \<Rightarrow> jws r) \<le> length r"
    using after_comma_shorter [of r] length_jws [of r] by (auto split: option.split)
  ultimately have "length (case after_comma r of Some q' \<Rightarrow> q' | None \<Rightarrow> jws r) < length q" by linarith
  then show ?case using 1 by simp
next
  case (2 profile runner s q st a b c d e f r g h i q')
  then have "length r < length q" "length q' < length r"
    using tool_scan_shorter [of q False "[]" 0 False] after_comma_shorter [of r q'] by (auto dest: sym)
  then show ?case by simp
qed

declare digest_loop.simps [simp del]

definition mcp_digest_tools ::
  "mcp_world \<Rightarrow> (nat \<Rightarrow> 'f) \<Rightarrow> McpServerCfg \<Rightarrow> string \<Rightarrow> 'f mcp_state \<Rightarrow> 'f mcp_state option" where
  "mcp_digest_tools w runner s resp st =
     (if \<not> mcp_allowed (env_value w ''MCP_ALLOW'') (sc_id s) then Some st
      else let res = (case json_body (Some (cstr resp)) of None \<Rightarrow> None | Some b \<Rightarrow> jfind_value b ''result'');
               tools = (if is_open (CHR ''{'') res then jfind_value (the res) ''tools'' else None)
           in if \<not> is_open (CHR ''['') tools then Some st
              else map_option (\<lambda>(ts, reg). st\<lparr>ms_tools := ts, ms_reg := reg\<rparr>)
                     (digest_loop (env_value w ''HARNESS_TOOLS_ALLOW'') runner s (jws (tl (the tools))) (ms_tools st, ms_reg st)))"

section \<open>Connections\<close>

definition act :: "mcp_act \<Rightarrow> 'f mcp_state \<Rightarrow> 'f mcp_state" where
  "act a st = st\<lparr>ms_trace := ms_trace st @ [a]\<rparr>"

definition credentials :: "string list" where
  "credentials = [''LLM_API_KEY'', ''LLM_API_URL'', ''LLM_MODEL'']"

definition child_env :: "(string \<times> string) list \<Rightarrow> (string \<times> string) list" where
  "child_env env = filter (\<lambda>kv. fst kv \<notin> set credentials) env"

text \<open>A new child with its pipe pair, numbered in the order they are made.\<close>

definition mcpproc_spawn :: "mcp_world \<Rightarrow> McpServerCfg \<Rightarrow> 'f mcp_state \<Rightarrow> (nat \<times> nat) option \<times> 'f mcp_state" where
  "mcpproc_spawn w s st =
     (case mw_spawn w (ms_trace st) of
        None \<Rightarrow> (None, st)
      | Some pid \<Rightarrow>
          let p = ms_next st
          in (Some (pid, p), act (Spawned p (sc_argv s) (child_env (mw_env w)) pid) (st\<lparr>ms_pipes := ms_pipes st @ [p], ms_next := p + 1\<rparr>)))"

definition mcpproc_send :: "mcp_world \<Rightarrow> nat \<Rightarrow> string \<Rightarrow> 'f mcp_state \<Rightarrow> bool \<times> 'f mcp_state" where
  "mcpproc_send w p line st = (mw_write w (ms_trace st) line, act (Sent_line p line) st)"

definition await_response :: "mcp_world \<Rightarrow> nat \<Rightarrow> nat \<Rightarrow> int \<Rightarrow> 'f mcp_state \<Rightarrow> string option \<times> 'f mcp_state" where
  "await_response w p ident tmo st =
     (let st' = act (Awaited p ident tmo) st
      in (fst (mcpproc_read_response (mw_alloc w) (int ident) (mw_read w (ms_trace st')) zero_sbuf), st'))"

text \<open>The handshake both places share: \<open>initialize\<close>, the notification, \<open>tools/list\<close>.\<close>

definition mcp_handshake ::
  "mcp_world \<Rightarrow> (nat \<Rightarrow> 'f) \<Rightarrow> McpServerCfg \<Rightarrow> nat \<Rightarrow> int \<Rightarrow> 'f mcp_state \<Rightarrow> (bool \<times> 'f mcp_state) option" where
  "mcp_handshake w runner s p tmo st =
     (case mcpproc_send w p (mcp_request 1 ''initialize'' (Some MCP_INIT_PARAMS)) st of
        (False, st1) \<Rightarrow> Some (False, st1)
      | (True, st1) \<Rightarrow>
          (case await_response w p 1 tmo st1 of
             (None, st2) \<Rightarrow> Some (False, st2)
           | (Some _, st2) \<Rightarrow>
               (case mcpproc_send w p (mcp_notification ''notifications/initialized'') st2 of
                  (_, st3) \<Rightarrow>
                    (case mcpproc_send w p (mcp_request 2 ''tools/list'' None) st3 of
                       (False, st4) \<Rightarrow> Some (False, st4)
                     | (True, st4) \<Rightarrow>
                         (case await_response w p 2 tmo st4 of
                            (None, st5) \<Rightarrow> Some (False, st5)
                          | (Some resp, st5) \<Rightarrow> map_option (Pair True) (mcp_digest_tools w runner s resp st5))))))"

definition set_conn :: "nat \<Rightarrow> McpConn \<Rightarrow> 'f mcp_state \<Rightarrow> 'f mcp_state" where
  "set_conn i c st = st\<lparr>ms_conns := (ms_conns st)[i := c]\<rparr>"

definition close_pipe :: "nat option \<Rightarrow> 'f mcp_state \<Rightarrow> 'f mcp_state" where
  "close_pipe p st = (case p of None \<Rightarrow> st | Some x \<Rightarrow> st\<lparr>ms_pipes := remove1 x (ms_pipes st)\<rparr>)"

definition mcp_conn_kill :: "nat \<Rightarrow> 'f mcp_state \<Rightarrow> 'f mcp_state" where
  "mcp_conn_kill i st =
     (let c = ms_conns st ! i; st1 = close_pipe (cn_pipe c) st
      in set_conn i (c\<lparr>cn_pid := None, cn_pipe := None, cn_alive := False\<rparr>)
           (case cn_pid c of None \<Rightarrow> st1 | Some pid \<Rightarrow> act (Killed pid) st1))"

definition reset_conn :: "nat \<Rightarrow> 'f mcp_state \<Rightarrow> 'f mcp_state" where
  "reset_conn i st =
     (let st1 = (if cn_alive (ms_conns st ! i) then mcp_conn_kill i st else st)
      in set_conn i \<lparr>cn_pid = None, cn_pipe = None, cn_alive = False, cn_seq = 3\<rparr> st1)"

definition mcp_conn_reset_all :: "'f mcp_state \<Rightarrow> 'f mcp_state" where
  "mcp_conn_reset_all st = foldl (\<lambda>st i. reset_conn i st) st [0..<MCP_SERVERS_MAX]"

definition mcp_conn_dead :: "mcp_world \<Rightarrow> McpConn \<Rightarrow> 'f mcp_state \<Rightarrow> bool" where
  "mcp_conn_dead w c st = (case cn_pid c of None \<Rightarrow> True | Some pid \<Rightarrow> mw_gone w (ms_trace st) pid)"

text \<open>
  Spawn and handshake for the server at index \<open>i\<close>.  The old process number and pipe are forgotten before the new child
  is made: nothing closes them.
\<close>

definition mcp_conn_start ::
  "mcp_world \<Rightarrow> (nat \<Rightarrow> 'f) \<Rightarrow> McpServerCfg \<Rightarrow> nat \<Rightarrow> int \<Rightarrow> 'f mcp_state \<Rightarrow> (bool \<times> 'f mcp_state) option" where
  "mcp_conn_start w runner s i tmo st =
     (let c = ms_conns st ! i; st0 = set_conn i (c\<lparr>cn_pid := None, cn_pipe := None\<rparr>) st
      in case mcpproc_spawn w s st0 of
           (None, st1) \<Rightarrow> Some (False, st1)
         | (Some (pid, p), st1) \<Rightarrow>
             (case mcp_handshake w runner s p tmo (set_conn i (c\<lparr>cn_pid := Some pid, cn_pipe := Some p\<rparr>) st1) of
                None \<Rightarrow> None
              | Some (ok, st2) \<Rightarrow>
                  Some (ok, if ok then set_conn i ((ms_conns st2 ! i)\<lparr>cn_alive := True, cn_seq := 3\<rparr>) st2 else mcp_conn_kill i st2)))"

section \<open>Calls\<close>

definition ensure_conn ::
  "mcp_world \<Rightarrow> (nat \<Rightarrow> 'f) \<Rightarrow> McpServerCfg \<Rightarrow> nat \<Rightarrow> 'f mcp_state \<Rightarrow> (bool \<times> 'f mcp_state) option" where
  "ensure_conn w runner s i st =
     (let c = ms_conns st ! i
      in if \<not> cn_alive c \<or> mcp_conn_dead w c st then mcp_conn_start w runner s i MCP_BOOT_TIMEOUT st else Some (True, st))"

text \<open>The exchange on a live connection; a failure drops the child.\<close>

definition call_exchange :: "mcp_world \<Rightarrow> nat \<Rightarrow> string \<Rightarrow> string option \<Rightarrow> 'f mcp_state \<Rightarrow> string option \<times> 'f mcp_state" where
  "call_exchange w i tool args st0 =
     (let c = ms_conns st0 ! i; p = the (cn_pipe c); st = act (Drained p) st0; ident = cn_seq c;
          st1 = set_conn i (c\<lparr>cn_seq := ident + 1\<rparr>) st
      in case mcpproc_send w p (mcp_request (int ident) ''tools/call'' (Some (tools_call_params tool args))) st1 of
           (False, st2) \<Rightarrow> (None, mcp_conn_kill i st2)
         | (True, st2) \<Rightarrow>
             (case await_response w p ident MCP_CALL_TIMEOUT st2 of
                (None, st3) \<Rightarrow> (None, mcp_conn_kill i st3)
              | (Some resp, st3) \<Rightarrow> (Some resp, st3)))"

definition mcp_tools_call_raw ::
  "mcp_world \<Rightarrow> (nat \<Rightarrow> 'f) \<Rightarrow> nat \<Rightarrow> string \<Rightarrow> string option \<Rightarrow> 'f mcp_state \<Rightarrow> (string option \<times> 'f mcp_state) option" where
  "mcp_tools_call_raw w runner i tool args st =
     (if i \<ge> length (ms_servers st) then Some (None, st)
      else case ensure_conn w runner (ms_servers st ! i) i st of
             None \<Rightarrow> None
           | Some (False, st1) \<Rightarrow> Some (None, st1)
           | Some (True, st1) \<Rightarrow> Some (call_exchange w i tool args st1))"

definition find_server :: "string \<Rightarrow> McpServerCfg list \<Rightarrow> nat option" where
  "find_server ident ss = find (\<lambda>i. sc_id (ss ! i) = ident) [0..<length ss]"

definition find_tool :: "string \<Rightarrow> McpToolInfo list \<Rightarrow> McpToolInfo option" where
  "find_tool name ts = find (\<lambda>t. mt_name t = name) (rev ts)"

text \<open>
  A call: the bytes in the result buffer and the length that is left in its header.  The last line of the function cuts
  the length, not the bytes.
\<close>

definition mcp_call ::
  "mcp_world \<Rightarrow> (nat \<Rightarrow> 'f) \<Rightarrow> string \<Rightarrow> string option \<Rightarrow> 'f mcp_state \<Rightarrow> (string \<times> nat \<times> 'f mcp_state) option" where
  "mcp_call w runner mcp_name args st =
     (case find_tool mcp_name (ms_tools st) of
        None \<Rightarrow> let r = ''error: unknown mcp tool '' @ squoted mcp_name in Some (r, length r, st)
      | Some t \<Rightarrow>
          (case find_server (mt_server t) (ms_servers st) of
             None \<Rightarrow> let r = ''error: mcp server '' @ squoted (mt_server t) @ '' not configured'' in Some (r, length r, st)
           | Some i \<Rightarrow>
               (case mcp_tools_call_raw w runner i (mt_tool t) args st of
                  None \<Rightarrow> None
                | Some (None, st1) \<Rightarrow>
                    let r = ''error: mcp server '' @ squoted (sc_id (ms_servers st ! i)) @ '' failed (spawn error or timeout)''
                    in Some (r, length r, st1)
                | Some (Some resp, st1) \<Rightarrow>
                    let r = mcp_format_result (mw_jq w) (Some resp) [] in Some (r, min (length r) MCP_FINAL_MAX, st1))))"

text \<open>The registered function: the index the tool was registered with selects it.\<close>

definition mcp_tool_runner ::
  "mcp_world \<Rightarrow> (nat \<Rightarrow> 'f) \<Rightarrow> nat \<Rightarrow> string option \<Rightarrow> 'f mcp_state \<Rightarrow> (string \<times> nat \<times> 'f mcp_state) option" where
  "mcp_tool_runner w runner idx args st =
     (if idx \<ge> length (ms_tools st) then
        let r = ''error: internal mcp tool index out of range'' in Some (r, length r, st)
      else mcp_call w runner (mt_name (ms_tools st ! idx)) args st)"

section \<open>Start\<close>

text \<open>One server of the start loop; its handshake may take what is left of the budget, at least 1 and at most 25 seconds.\<close>

definition init_timeout :: "int option \<Rightarrow> int \<Rightarrow> int" where
  "init_timeout deadline now =
     (case deadline of None \<Rightarrow> 25 | Some d \<Rightarrow> let left = d - now in if left < 1 then 1 else if left > 25 then 25 else left)"

definition init_server ::
  "mcp_world \<Rightarrow> (nat \<Rightarrow> 'f) \<Rightarrow> int option \<Rightarrow> nat \<Rightarrow> 'f mcp_state \<Rightarrow> 'f mcp_state option" where
  "init_server w runner deadline i st =
     (let tmo = init_timeout deadline (mw_now w (ms_trace st)); c = ms_conns st ! i;
          st0 = set_conn i (c\<lparr>cn_alive := False\<rparr>) (if deadline = None then st else act Clocked st)
      in map_option snd (mcp_conn_start w runner (ms_servers st ! i) i tmo st0))"

fun init_loop :: "mcp_world \<Rightarrow> (nat \<Rightarrow> 'f) \<Rightarrow> int option \<Rightarrow> nat list \<Rightarrow> 'f mcp_state \<Rightarrow> 'f mcp_state option" where
  "init_loop w runner deadline [] st = Some st"
| "init_loop w runner deadline (i # is) st =
     (let now = mw_now w (ms_trace st); st' = (if deadline = None then st else act Clocked st)
      in case deadline of
           Some d \<Rightarrow> if now \<ge> d then Some st'
                     else Option.bind (init_server w runner deadline i st') (init_loop w runner deadline is)
         | None \<Rightarrow> Option.bind (init_server w runner deadline i st') (init_loop w runner deadline is))"

definition init_deadline :: "mcp_world \<Rightarrow> 'f mcp_state \<Rightarrow> int option" where
  "init_deadline w st =
     (let budget = (case env_value w ''MCP_INIT_BUDGET_SECONDS'' of None \<Rightarrow> 240 | Some s \<Rightarrow> wrap32 (fst (strtol10 s)))
      in if budget > 0 then Some (mw_now w (ms_trace st) + budget) else None)"

text \<open>The number of tools, which is returned, is the length of the table.\<close>

definition mcp_init :: "mcp_world \<Rightarrow> fs \<Rightarrow> (nat \<Rightarrow> 'f) \<Rightarrow> 'f mcp_state \<Rightarrow> 'f mcp_state option" where
  "mcp_init w fs runner st0 =
     (let st1 = mcp_conn_reset_all (st0\<lparr>ms_servers := []\<rparr>);
          st2 = st1\<lparr>ms_servers := mcp_config_load fs (env_value w ''MCP_ALLOW'') (env_value w ''MCP_SERVERS'') []\<rparr>
      in if ms_servers st2 = [] then Some st2
         else init_loop w runner (init_deadline w st2) [0..<length (ms_servers st2)] (act Clocked st2))"

definition mcp_server :: "'f mcp_state \<Rightarrow> int \<Rightarrow> McpServerCfg option" where
  "mcp_server st i = (if i < 0 \<or> i \<ge> int (length (ms_servers st)) then None else Some (ms_servers st ! nat i))"

definition mcp_tool :: "'f mcp_state \<Rightarrow> int \<Rightarrow> McpToolInfo option" where
  "mcp_tool st i = (if i < 0 \<or> i \<ge> int (length (ms_tools st)) then None else Some (ms_tools st ! nat i))"

section \<open>The catalogue is well-formed\<close>

definition tool_ok :: "McpToolInfo \<Rightarrow> bool" where
  "tool_ok t \<longleftrightarrow>
     length (mt_name t) \<le> TOOL_NAME_MAX \<and> length (mt_server t) < 32 \<and> length (mt_tool t) < 48 \<and>
     length (mt_desc t) \<le> TOOL_DESC_MAX \<and> length (mt_props t) \<le> TOOL_PARAMS_MAX"

definition tools_ok :: "McpToolInfo list \<Rightarrow> bool" where
  "tools_ok ts \<longleftrightarrow> length ts \<le> MCP_TOOLS_MAX \<and> distinct (map mt_name ts) \<and> list_all tool_ok ts"

lemma utf8_copy_length: "utf8_copy s n = Some t \<Longrightarrow> length t \<le> n"
proof -
  assume "utf8_copy s n = Some t"
  then obtain k where k: "utf8_valid_prefix (Some (s @ [NUL])) n = Some k" "t = take k s" by (auto simp: utf8_copy_def)
  then have "set_str_utf8 (Suc n) (Some (s @ [NUL])) = Some (take k (s @ [NUL]))" by (simp add: set_str_utf8_def)
  then show ?thesis using set_str_utf8_length [of n "s @ [NUL]"] k(2) by fastforce
qed

lemma tool_info_ok: "tool_info s name item = Some t \<Longrightarrow> tool_ok t \<and> mt_name t = mcp_tool_name (sc_id s) name"
  using utf8_copy_length [of name 47] utf8_copy_length [of _ TOOL_DESC_MAX]
  by (fastforce simp: tool_info_def tool_ok_def Let_def mcp_tool_name_def set_str_def tool_props_def copy_json_value_def TOOL_PARAMS_MAX_def
      split: option.splits if_splits)

lemma digest_entry_ok:
  assumes "digest_entry profile runner s item st = Some (go, st')" and "tools_ok (fst st)" and "length (fst st) < MCP_TOOLS_MAX"
  shows "tools_ok (fst st')"
proof -
  have "tools_ok (fst st @ [t])" if "tool_info s name item = Some t" "\<not> list_ex (\<lambda>t. mt_name t = mcp_tool_name (sc_id s) name) (fst st)" for t name
    using tool_info_ok [OF that(1)] that(2) assms(2,3) by (auto simp: tools_ok_def list_ex_iff)
  then show ?thesis using assms by (auto simp: digest_entry_def Let_def split: if_splits option.splits)
qed

lemma digest_loop_ok:
  "digest_loop profile runner s q st = Some st' \<Longrightarrow> tools_ok (fst st) \<Longrightarrow> tools_ok (fst st')"
proof (induction profile runner s q st rule: digest_loop.induct)
  case (1 profile runner s q st)
  show ?case
  proof (cases "q = [] \<or> hd q \<noteq> CHR ''{'' \<or> length (fst st) \<ge> MCP_TOOLS_MAX")
    case True
    then show ?thesis using 1(3,4) by (simp add: digest_loop.simps [of profile runner s q st])
  next
    case False
    note eq = 1(3) [unfolded digest_loop.simps [of profile runner s q st] if_not_P [OF False]]
    show ?thesis
    proof (cases "tool_scan q False [] 0 False")
      case None
      then show ?thesis using eq 1(4) by simp
    next
      case (Some x)
      obtain item term' ov r where x: "x = (item, term', ov, r)" by (cases x)
      show ?thesis
      proof (cases ov)
        case True
        then show ?thesis using 1(1) [OF False Some x [symmetric] refl refl] eq Some x 1(4) by simp
      next
        case no: False
        then obtain go st1 where e: "digest_entry profile runner s item st = Some (go, st1)" and t: "term'"
          using eq Some x by (auto split: if_splits option.splits)
        have ok: "tools_ok (fst st1)" using digest_entry_ok [OF e 1(4)] False by simp
        show ?thesis
        proof (cases "go \<and> after_comma r \<noteq> None")
          case True
          then obtain q' where q': "after_comma r = Some q'" by auto
          have "digest_loop profile runner s q' st1 = Some st'" using eq Some x no e t True q' by simp
          then show ?thesis using 1(2) [OF False Some x [symmetric] refl refl no _ e refl _ q'] t True ok by simp
        next
          case False
          then show ?thesis using eq Some x no e t ok by (auto split: if_splits option.splits)
        qed
      qed
    qed
  qed
qed

lemma digest_tools_ok:
  "mcp_digest_tools w runner s resp st = Some st' \<Longrightarrow> tools_ok (ms_tools st) \<Longrightarrow> tools_ok (ms_tools st')"
  using digest_loop_ok [of "env_value w ''HARNESS_TOOLS_ALLOW''" runner s _ "(ms_tools st, ms_reg st)"]
  by (fastforce simp: mcp_digest_tools_def Let_def split: if_splits)

section \<open>The connections belong to their servers\<close>

definition handshake_lines :: "string list" where
  "handshake_lines =
     [mcp_request 1 ''initialize'' (Some MCP_INIT_PARAMS), mcp_notification ''notifications/initialized'', mcp_request 2 ''tools/list'' None]"

definition hand_act :: "nat \<Rightarrow> mcp_act \<Rightarrow> bool" where
  "hand_act p a = (case a of Sent_line q l \<Rightarrow> q = p \<and> l \<in> set handshake_lines | Awaited q _ _ \<Rightarrow> q = p | _ \<Rightarrow> False)"

lemma digest_frame:
  "mcp_digest_tools w runner s resp st = Some st' \<Longrightarrow> \<exists>ts reg. st' = st\<lparr>ms_tools := ts, ms_reg := reg\<rparr>"
proof (cases st)
  case (fields a b c d e f g)
  then show "mcp_digest_tools w runner s resp st = Some st' \<Longrightarrow> \<exists>ts reg. st' = st\<lparr>ms_tools := ts, ms_reg := reg\<rparr>"
    by (auto simp: mcp_digest_tools_def Let_def split: if_splits)
qed

lemma act_trace [simp]: "ms_trace (act a st) = ms_trace st @ [a]" "ms_servers (act a st) = ms_servers st"
  "ms_tools (act a st) = ms_tools st" "ms_conns (act a st) = ms_conns st" "ms_next (act a st) = ms_next st"
  "ms_pipes (act a st) = ms_pipes st" "ms_reg (act a st) = ms_reg st"
  by (simp_all add: act_def)

text \<open>What a handshake may change: the tables of tools, and lines of its own on its own pipe in the trace.\<close>

definition handshook :: "nat \<Rightarrow> 'f mcp_state \<Rightarrow> 'f mcp_state \<Rightarrow> bool" where
  "handshook p st st' \<longleftrightarrow>
     (\<exists>new. ms_trace st' = ms_trace st @ new \<and> list_all (hand_act p) new) \<and> ms_servers st' = ms_servers st \<and>
     ms_conns st' = ms_conns st \<and> ms_next st' = ms_next st \<and> ms_pipes st' = ms_pipes st \<and>
     (tools_ok (ms_tools st) \<longrightarrow> tools_ok (ms_tools st'))"

lemma handshook_refl: "handshook p st st"
  by (simp add: handshook_def)

lemma handshook_trans: "handshook p a b \<Longrightarrow> handshook p b c \<Longrightarrow> handshook p a c"
  by (auto simp: handshook_def)

lemma handshook_act: "hand_act p a \<Longrightarrow> handshook p st (act a st)"
  by (simp add: handshook_def)

lemma handshook_digest: "mcp_digest_tools w runner s resp st = Some st' \<Longrightarrow> handshook p st st'"
  using digest_frame [of w runner s resp st st'] digest_tools_ok [of w runner s resp st st'] by (auto simp: handshook_def)

lemma handshook_send:
  "mcpproc_send w p l st = (ok, st') \<Longrightarrow> l \<in> set handshake_lines \<Longrightarrow> handshook p st st'"
  by (auto simp: mcpproc_send_def intro: handshook_act simp: hand_act_def)

lemma handshook_await: "await_response w p k tmo st = (r, st') \<Longrightarrow> handshook p st st'"
  by (auto simp: await_response_def Let_def intro: handshook_act simp: hand_act_def)

lemma handshake_frame:
  assumes "mcp_handshake w runner s p tmo st = Some (ok, st')"
  shows "handshook p st st'"
proof -
  obtain b1 s1 where 1: "mcpproc_send w p (mcp_request 1 ''initialize'' (Some MCP_INIT_PARAMS)) st = (b1, s1)" by force
  obtain r2 s2 where 2: "await_response w p 1 tmo s1 = (r2, s2)" by force
  obtain b3 s3 where 3: "mcpproc_send w p (mcp_notification ''notifications/initialized'') s2 = (b3, s3)" by force
  obtain b4 s4 where 4: "mcpproc_send w p (mcp_request 2 ''tools/list'' None) s3 = (b4, s4)" by force
  obtain r5 s5 where 5: "await_response w p 2 tmo s4 = (r5, s5)" by force
  have h: "handshook p st s1" "handshook p s1 s2" "handshook p s2 s3" "handshook p s3 s4" "handshook p s4 s5"
    using handshook_send [OF 1] handshook_await [OF 2] handshook_send [OF 3] handshook_send [OF 4] handshook_await [OF 5]
    by (simp_all add: handshake_lines_def)
  then have h2: "handshook p st s2" and h4: "handshook p st s4" and h5: "handshook p st s5"
    by (blast intro: handshook_trans)+
  have "st' = s1 \<or> st' = s2 \<or> st' = s4 \<or> st' = s5 \<or> (\<exists>resp. mcp_digest_tools w runner s resp s5 = Some st')"
    using assms unfolding mcp_handshake_def 1 2 3 4 5 prod.case
    by (auto simp: 2 3 4 5 split: bool.splits option.splits)
  then show ?thesis using h(1) h2 h4 h5 handshook_digest handshook_trans by metis
qed

fun pipe_of :: "mcp_act \<Rightarrow> nat list" where
  "pipe_of (Spawned p _ _ _) = [p]"
| "pipe_of _ = []"

definition owns :: "mcp_act list \<Rightarrow> McpServerCfg \<Rightarrow> nat \<Rightarrow> bool" where
  "owns tr s p \<longleftrightarrow> (\<exists>env pid. Spawned p (sc_argv s) env pid \<in> set tr)"

lemma owns_append: "owns tr s p \<Longrightarrow> owns (tr @ new) s p"
  unfolding owns_def by fastforce

definition child_of :: "mcp_act list \<Rightarrow> McpServerCfg \<Rightarrow> nat \<Rightarrow> bool" where
  "child_of tr s pid \<longleftrightarrow> (\<exists>p env. Spawned p (sc_argv s) env pid \<in> set tr)"

lemma child_of_append: "child_of tr s pid \<Longrightarrow> child_of (tr @ new) s pid"
  unfolding child_of_def by fastforce

text \<open>
  No two children share a pipe; the pipe of the connection at an index was made for the server at that index, and its
  process was started for that server; a live connection has a pipe.
\<close>

definition conn_ok :: "'f mcp_state \<Rightarrow> nat \<Rightarrow> bool" where
  "conn_ok st i \<longleftrightarrow>
     (\<forall>p. cn_pipe (ms_conns st ! i) = Some p \<longrightarrow> owns (ms_trace st) (ms_servers st ! i) p) \<and>
     (\<forall>pid. cn_pid (ms_conns st ! i) = Some pid \<longrightarrow> child_of (ms_trace st) (ms_servers st ! i) pid) \<and>
     (cn_alive (ms_conns st ! i) \<longrightarrow> cn_pid (ms_conns st ! i) = None \<or> cn_pipe (ms_conns st ! i) \<noteq> None)"

definition mcp_inv :: "'f mcp_state \<Rightarrow> bool" where
  "mcp_inv st \<longleftrightarrow>
     length (ms_conns st) = MCP_SERVERS_MAX \<and> length (ms_servers st) \<le> MCP_SERVERS_MAX \<and>
     distinct (concat (map pipe_of (ms_trace st))) \<and> (\<forall>p \<in> set (concat (map pipe_of (ms_trace st))). p < ms_next st) \<and>
     (\<forall>i < length (ms_servers st). conn_ok st i)"

lemma hand_act_pipe: "list_all (hand_act p) new \<Longrightarrow> concat (map pipe_of new) = []"
  by (induction new) (auto simp: hand_act_def split: mcp_act.splits)

lemma handshook_inv:
  assumes "handshook p st st'" and "mcp_inv st"
  shows "mcp_inv st'"
proof -
  obtain new where new: "ms_trace st' = ms_trace st @ new" "list_all (hand_act p) new"
      "ms_servers st' = ms_servers st" "ms_conns st' = ms_conns st" "ms_next st' = ms_next st"
    using assms(1) by (auto simp: handshook_def)
  have "conn_ok st i \<Longrightarrow> conn_ok st' i" for i by (auto simp: conn_ok_def new owns_append child_of_append)
  moreover have pipes: "concat (map pipe_of (ms_trace st @ new)) = concat (map pipe_of (ms_trace st))"
    by (simp only: map_append concat_append hand_act_pipe [OF new(2)] append_Nil2)
  ultimately show ?thesis using assms(2) unfolding mcp_inv_def new pipes by simp
qed

lemma act_inv: "mcp_inv st \<Longrightarrow> pipe_of a = [] \<Longrightarrow> mcp_inv (act a st)"
  by (auto simp: mcp_inv_def conn_ok_def owns_append child_of_append)

lemma set_conn_fields [simp]: "ms_trace (set_conn i c st) = ms_trace st" "ms_servers (set_conn i c st) = ms_servers st"
  "ms_tools (set_conn i c st) = ms_tools st" "ms_next (set_conn i c st) = ms_next st" "ms_pipes (set_conn i c st) = ms_pipes st"
  "ms_conns (set_conn i c st) = (ms_conns st)[i := c]" "ms_reg (set_conn i c st) = ms_reg st"
  by (simp_all add: set_conn_def)

lemma set_conn_inv:
  assumes "mcp_inv st" and "\<And>p. i < length (ms_servers st) \<Longrightarrow> cn_pipe c = Some p \<Longrightarrow> owns (ms_trace st) (ms_servers st ! i) p"
    and "\<And>pid. i < length (ms_servers st) \<Longrightarrow> cn_pid c = Some pid \<Longrightarrow> child_of (ms_trace st) (ms_servers st ! i) pid"
    and "cn_alive c \<Longrightarrow> cn_pid c = None \<or> cn_pipe c \<noteq> None"
  shows "mcp_inv (set_conn i c st)"
proof -
  have "conn_ok (set_conn i c st) j" if "j < length (ms_servers st)" for j
    using assms that by (cases "j = i") (auto simp: mcp_inv_def conn_ok_def)
  then show ?thesis using assms(1) by (simp add: mcp_inv_def)
qed

lemma close_pipe_fields [simp]: "ms_trace (close_pipe p st) = ms_trace st" "ms_servers (close_pipe p st) = ms_servers st"
  "ms_tools (close_pipe p st) = ms_tools st" "ms_next (close_pipe p st) = ms_next st" "ms_conns (close_pipe p st) = ms_conns st"
  "ms_reg (close_pipe p st) = ms_reg st"
  by (simp_all add: close_pipe_def split: option.split)

lemma close_pipe_inv: "mcp_inv st \<Longrightarrow> mcp_inv (close_pipe p st)"
  by (simp add: mcp_inv_def conn_ok_def)

definition kill_act :: "mcp_act \<Rightarrow> bool" where
  "kill_act a = (case a of Killed _ \<Rightarrow> True | _ \<Rightarrow> False)"

lemma kill_frame:
  "(\<exists>new. ms_trace (mcp_conn_kill i st) = ms_trace st @ new \<and> list_all kill_act new) \<and>
   ms_servers (mcp_conn_kill i st) = ms_servers st \<and> ms_tools (mcp_conn_kill i st) = ms_tools st"
  by (auto simp: mcp_conn_kill_def Let_def kill_act_def split: option.split)

lemma kill_inv: "mcp_inv st \<Longrightarrow> mcp_inv (mcp_conn_kill i st)"
  unfolding mcp_conn_kill_def Let_def
  by (intro set_conn_inv) (auto split: option.split intro: act_inv close_pipe_inv)

lemma spawn_inv:
  assumes "mcp_inv st" and "mcpproc_spawn w s st = (Some (pid, p), st')"
  shows "mcp_inv st' \<and> ms_trace st' = ms_trace st @ [Spawned p (sc_argv s) (child_env (mw_env w)) pid] \<and>
    ms_servers st' = ms_servers st \<and> ms_tools st' = ms_tools st"
proof -
  have s: "p = ms_next st" "st' = act (Spawned p (sc_argv s) (child_env (mw_env w)) pid) (st\<lparr>ms_pipes := ms_pipes st @ [p], ms_next := p + 1\<rparr>)"
    using assms(2) by (auto simp: mcpproc_spawn_def Let_def split: option.splits)
  have "p \<notin> set (concat (map pipe_of (ms_trace st)))" using assms(1) by (auto simp: mcp_inv_def s(1))
  moreover have "conn_ok st i \<Longrightarrow> conn_ok st' i" for i by (auto simp: s(2) conn_ok_def owns_append child_of_append)
  ultimately have "mcp_inv st'" using assms(1) by (auto simp: mcp_inv_def s less_Suc_eq)
  then show ?thesis by (simp add: s(2))
qed

section \<open>What a call does\<close>

text \<open>
  What may be done on behalf of one server: start its command with the credentials removed, send the lines of the
  handshake or the given call to a pipe made for that server, wait for or drain such a pipe, and kill a process that was
  started for that server.  A step that \<open>serves\<close> the server at an index does nothing else and leaves every other
  connection as it is.
\<close>

definition server_act :: "mcp_world \<Rightarrow> McpServerCfg \<Rightarrow> string set \<Rightarrow> mcp_act list \<Rightarrow> mcp_act \<Rightarrow> bool" where
  "server_act w s calls tr a =
     (case a of
        Spawned p argv env pid \<Rightarrow> argv = sc_argv s \<and> env = child_env (mw_env w)
      | Sent_line p l \<Rightarrow> owns tr s p \<and> (l \<in> set handshake_lines \<or> l \<in> calls)
      | Awaited p _ _ \<Rightarrow> owns tr s p
      | Drained p \<Rightarrow> owns tr s p
      | Killed pid \<Rightarrow> child_of tr s pid
      | Clocked \<Rightarrow> False)"

definition serves :: "mcp_world \<Rightarrow> nat \<Rightarrow> string set \<Rightarrow> 'f mcp_state \<Rightarrow> 'f mcp_state \<Rightarrow> bool" where
  "serves w i calls st st' \<longleftrightarrow>
     ms_servers st' = ms_servers st \<and> (\<forall>j. j \<noteq> i \<longrightarrow> ms_conns st' ! j = ms_conns st ! j) \<and>
     (\<exists>new. ms_trace st' = ms_trace st @ new \<and> (\<forall>a \<in> set new. server_act w (ms_servers st ! i) calls (ms_trace st') a))"

lemma server_act_append: "server_act w s calls tr a \<Longrightarrow> server_act w s calls (tr @ new) a"
  by (auto simp: server_act_def owns_append child_of_append split: mcp_act.splits)

lemma serves_trans:
  assumes "serves w i calls a b" and "serves w i calls b c"
  shows "serves w i calls a c"
proof -
  let ?s = "ms_servers a ! i"
  obtain n1 n2 where "ms_trace b = ms_trace a @ n1" "ms_trace c = ms_trace b @ n2"
      "\<forall>x \<in> set n1. server_act w ?s calls (ms_trace b) x" "\<forall>x \<in> set n2. server_act w ?s calls (ms_trace c) x"
    using assms by (auto simp: serves_def)
  moreover have "server_act w ?s calls (ms_trace b @ n2) x" if "server_act w ?s calls (ms_trace b) x" for x
    using that by (rule server_act_append)
  ultimately have "ms_trace c = ms_trace a @ (n1 @ n2)" "\<forall>x \<in> set (n1 @ n2). server_act w ?s calls (ms_trace c) x"
    by auto
  then show ?thesis using assms unfolding serves_def by auto
qed

lemma serves_refl: "serves w i calls st st"
  by (simp add: serves_def)

lemma serves_quiet: "serves w i calls st (set_conn i c st)"
  by (simp add: serves_def)

lemma serves_kill:
  assumes "mcp_inv st" and "i < length (ms_servers st)"
  shows "serves w i calls st (mcp_conn_kill i st)"
  using assms by (auto simp: mcp_inv_def conn_ok_def serves_def server_act_def mcp_conn_kill_def Let_def child_of_append split: option.splits)

lemma serves_handshook:
  assumes "handshook p st st'" and "owns (ms_trace st) (ms_servers st ! i) p"
  shows "serves w i calls st st'"
proof -
  let ?s = "ms_servers st ! i"
  obtain new where new: "ms_trace st' = ms_trace st @ new" "list_all (hand_act p) new" "ms_servers st' = ms_servers st" "ms_conns st' = ms_conns st"
    using assms(1) by (auto simp: handshook_def)
  have "server_act w ?s calls (ms_trace st') a" if "hand_act p a" for a
    using that owns_append [OF assms(2), of new] by (auto simp: new(1) hand_act_def server_act_def split: mcp_act.splits)
  then show ?thesis using new by (auto simp: serves_def list_all_iff)
qed

lemma conn_start_ok:
  assumes "mcp_inv st" and "i < length (ms_servers st)" and "ms_servers st ! i = s"
    and "mcp_conn_start w runner s i tmo st = Some (ok, st')"
  shows "mcp_inv st' \<and> serves w i calls st st' \<and> (ok \<longrightarrow> cn_pipe (ms_conns st' ! i) \<noteq> None) \<and>
    (tools_ok (ms_tools st) \<longrightarrow> tools_ok (ms_tools st'))"
proof -
  define c where "c = ms_conns st ! i"
  define st0 where "st0 = set_conn i (c\<lparr>cn_pid := None, cn_pipe := None\<rparr>) st"
  have len: "i < length (ms_conns st)" using assms(1,2) by (simp add: mcp_inv_def)
  have i0: "mcp_inv st0" unfolding st0_def by (rule set_conn_inv [OF assms(1)]) simp_all
  have q0: "serves w i calls st st0" unfolding st0_def by (rule serves_quiet)
  obtain sp st1 where sp: "mcpproc_spawn w s st0 = (sp, st1)" by force
  show ?thesis
  proof (cases sp)
    case None
    then have "st1 = st0" using sp by (auto simp: mcpproc_spawn_def Let_def split: option.splits)
    then have "ok = False" "st' = st0" using assms(4) sp None by (simp_all add: mcp_conn_start_def st0_def c_def Let_def)
    then show ?thesis using i0 q0 by (simp add: st0_def)
  next
    case (Some x)
    then obtain pid p where x: "mcpproc_spawn w s st0 = (Some (pid, p), st1)" using sp by (cases x) simp
    note s1 = spawn_inv [OF i0 x]
    define st1' where "st1' = set_conn i (c\<lparr>cn_pid := Some pid, cn_pipe := Some p\<rparr>) st1"
    have own: "owns (ms_trace st1) s p" "child_of (ms_trace st1) s pid" using s1 by (auto simp: owns_def child_of_def)
    have i1: "mcp_inv st1'" unfolding st1'_def by (rule set_conn_inv) (use s1 own assms(3) in \<open>auto simp: st0_def\<close>)
    have q1: "serves w i calls st0 st1'" using s1 assms(3) x
      by (auto simp: serves_def st1'_def st0_def server_act_def mcpproc_spawn_def Let_def split: option.splits)
    obtain st2 where h: "mcp_handshake w runner s p tmo st1' = Some (ok, st2)"
      and st': "st' = (if ok then set_conn i ((ms_conns st2 ! i)\<lparr>cn_alive := True, cn_seq := 3\<rparr>) st2 else mcp_conn_kill i st2)"
      using assms(4) x by (auto simp: mcp_conn_start_def st0_def c_def st1'_def Let_def split: option.splits)
    note hs = handshake_frame [OF h]
    have c2: "ms_conns st2 ! i = c\<lparr>cn_pid := Some pid, cn_pipe := Some p\<rparr>" "ms_conns st2 = ms_conns st1'" "ms_servers st2 = ms_servers st"
      using hs len s1 x by (auto simp: handshook_def st1'_def st0_def mcpproc_spawn_def Let_def split: option.splits)
    have t2: "tools_ok (ms_tools st) \<longrightarrow> tools_ok (ms_tools st2)" using hs s1 by (simp add: handshook_def st1'_def st0_def)
    have i2: "mcp_inv st2" by (rule handshook_inv [OF hs i1])
    have q2: "serves w i calls st1' st2" by (rule serves_handshook [OF hs]) (use own s1 assms(3) in \<open>simp add: st1'_def st0_def\<close>)
    have q: "serves w i calls st st2" using serves_trans [OF serves_trans [OF q0 q1] q2] .
    show ?thesis
    proof (cases ok)
      case True
      have "\<exists>new. ms_trace st2 = ms_trace st1' @ new" using hs by (auto simp: handshook_def)
      then have "owns (ms_trace st2) s p" "child_of (ms_trace st2) s pid"
        using owns_append [OF own(1)] child_of_append [OF own(2)] by (auto simp: st1'_def)
      then have "mcp_inv st'" unfolding st' using True
        by (simp, intro set_conn_inv [OF i2]) (use c2 assms(3) in auto)
      moreover have "serves w i calls st2 st'" unfolding st' using True by (simp add: serves_quiet)
      moreover have "i < length (ms_conns st2)" using len c2(2) s1 x
        by (auto simp: st1'_def st0_def mcpproc_spawn_def Let_def split: option.splits)
      ultimately show ?thesis using serves_trans [OF q] st' True c2 t2 by simp
    next
      case False
      then show ?thesis using kill_inv [OF i2] serves_trans [OF q serves_kill [OF i2]] assms(2) c2(3) st' t2 kill_frame [of i st2] by simp
    qed
  qed
qed

lemma ensure_conn_ok:
  assumes "mcp_inv st" and "i < length (ms_servers st)" and "ms_servers st ! i = s"
    and "ensure_conn w runner s i st = Some (ok, st')"
  shows "mcp_inv st' \<and> serves w i calls st st' \<and> (ok \<longrightarrow> cn_pipe (ms_conns st' ! i) \<noteq> None)"
proof (cases "\<not> cn_alive (ms_conns st ! i) \<or> mcp_conn_dead w (ms_conns st ! i) st")
  case True
  then show ?thesis using conn_start_ok [OF assms(1-3)] assms(4) by (simp add: ensure_conn_def Let_def)
next
  case False
  then have "cn_alive (ms_conns st ! i)" "cn_pid (ms_conns st ! i) \<noteq> None" by (auto simp: mcp_conn_dead_def split: option.splits)
  then have "cn_pipe (ms_conns st ! i) \<noteq> None" using assms(1,2) by (auto simp: mcp_inv_def conn_ok_def)
  moreover have "ok \<and> st' = st" using False assms(4) by (simp add: ensure_conn_def Let_def)
  ultimately show ?thesis using assms(1) by (simp add: serves_refl)
qed

definition call_line :: "nat \<Rightarrow> string \<Rightarrow> string option \<Rightarrow> string" where
  "call_line k tool args = mcp_request (int k) ''tools/call'' (Some (tools_call_params tool args))"

lemma call_exchange_ok:
  assumes "mcp_inv st" and "i < length (ms_servers st)" and "ms_servers st ! i = s" and "cn_pipe (ms_conns st ! i) = Some p"
    and "call_exchange w i tool args st = (r, st')"
  shows "mcp_inv st' \<and> serves w i (range (\<lambda>k. call_line k tool args)) st st'"
proof -
  define c where "c = ms_conns st ! i"
  define C where "C = range (\<lambda>k. call_line k tool args)"
  define st1 where "st1 = set_conn i (c\<lparr>cn_seq := cn_seq c + 1\<rparr>) (act (Drained p) st)"
  define st2 where "st2 = act (Sent_line p (call_line (cn_seq c) tool args)) st1"
  define st3 where "st3 = act (Awaited p (cn_seq c) MCP_CALL_TIMEOUT) st2"
  have own: "owns (ms_trace st) s p" "\<And>pid. cn_pid c = Some pid \<Longrightarrow> child_of (ms_trace st) s pid" "cn_alive c \<longrightarrow> cn_pid c = None \<or> cn_pipe c \<noteq> None"
    using assms(1-4) by (auto simp: mcp_inv_def conn_ok_def c_def)
  have i1: "mcp_inv st1" unfolding st1_def
    by (rule set_conn_inv) (use assms(1,3,4) own in \<open>auto simp: c_def intro: act_inv owns_append child_of_append\<close>)
  have i2: "mcp_inv st2" "mcp_inv st3" unfolding st3_def st2_def using i1 by (simp_all add: act_inv)
  have o: "owns (ms_trace st @ new) s p" for new by (rule owns_append [OF own(1)])
  have q1: "serves w i C st st1" using o assms(3) by (auto simp: serves_def st1_def server_act_def)
  have q2: "serves w i C st1 st2" using o assms(3) by (auto simp: serves_def st1_def st2_def server_act_def C_def)
  have q3: "serves w i C st2 st3" using o assms(3) by (auto simp: serves_def st1_def st2_def st3_def server_act_def)
  have q: "serves w i C st st2" "serves w i C st st3" using serves_trans [OF q1 q2] serves_trans [OF serves_trans [OF q1 q2] q3] .
  have l: "i < length (ms_servers st2)" "i < length (ms_servers st3)" using assms(2) by (simp_all add: st1_def st2_def st3_def)
  have "st' = mcp_conn_kill i st2 \<or> st' = mcp_conn_kill i st3 \<or> st' = st3"
    using assms(4,5)
    by (auto simp: call_exchange_def Let_def c_def st1_def st2_def st3_def mcpproc_send_def await_response_def call_line_def
        split: bool.splits option.splits)
  then show ?thesis using i2 kill_inv [OF i2(1), of i] kill_inv [OF i2(2), of i] q
      serves_trans [OF q(1) serves_kill [OF i2(1)]] serves_trans [OF q(2) serves_kill [OF i2(2)]] l
    unfolding C_def by metis
qed

lemma find_tool_some: "find_tool name ts = Some t \<Longrightarrow> t \<in> set ts \<and> mt_name t = name"
  by (auto simp: find_tool_def find_Some_iff) (metis in_set_conv_nth length_rev rev_nth set_rev nth_mem)

lemma find_server_some: "find_server ident ss = Some i \<Longrightarrow> i < length ss \<and> sc_id (ss ! i) = ident"
  by (auto simp: find_server_def find_Some_iff)

text \<open>
  (C31) Whom a call reaches.  A name that is not in the table changes nothing.  For a tool of the table, all the client does
  is on behalf of the one server that tool was listed by: it starts only that server's configured command, with the
  LLM credentials taken out of the environment, writes only to pipes made for that server, only the handshake and
  calls of that tool with the given arguments, and kills only processes started for that server; the connections of the
  other servers are unchanged, and all keep belonging to their servers.
\<close>

theorem mcp_call_routed:
  assumes "mcp_inv st" and "mcp_call w runner name args st = Some (out, n, st')"
  shows "mcp_inv st' \<and>
    (case find_tool name (ms_tools st) of
       None \<Rightarrow> st' = st
     | Some t \<Rightarrow> t \<in> set (ms_tools st) \<and> mt_name t = name \<and>
         (st' = st \<or>
          (\<exists>i < length (ms_servers st). sc_id (ms_servers st ! i) = mt_server t \<and> serves w i (range (\<lambda>k. call_line k (mt_tool t) args)) st st')))"
proof (cases "find_tool name (ms_tools st)")
  case None
  then show ?thesis using assms by (simp add: mcp_call_def Let_def)
next
  case (Some t)
  note t = find_tool_some [OF Some]
  show ?thesis
  proof (cases "find_server (mt_server t) (ms_servers st)")
    case None
    then show ?thesis using assms Some t by (simp add: mcp_call_def Let_def)
  next
    case fs: (Some i)
    note i = find_server_some [OF fs]
    define s where "s = ms_servers st ! i"
    define C where "C = range (\<lambda>k. call_line k (mt_tool t) args)"
    obtain ok st1 where e: "ensure_conn w runner s i st = Some (ok, st1)"
      using assms(2) Some fs i by (auto simp: mcp_call_def mcp_tools_call_raw_def s_def Let_def split: option.splits)
    note c = ensure_conn_ok [OF assms(1) conjunct1 [OF i] s_def [symmetric] e, of C]
    have "mcp_inv st' \<and> serves w i C st st'"
    proof (cases ok)
      case False
      then have "st' = st1" using assms(2) Some fs i e by (simp add: mcp_call_def mcp_tools_call_raw_def s_def Let_def)
      then show ?thesis using c by simp
    next
      case True
      then obtain p where p: "cn_pipe (ms_conns st1 ! i) = Some p" using c by auto
      obtain r st2 where x: "call_exchange w i (mt_tool t) args st1 = (r, st2)" by force
      have "ms_servers st1 = ms_servers st" using c by (simp add: serves_def)
      then have k: "mcp_inv st2 \<and> serves w i C st1 st2"
        unfolding C_def by (intro call_exchange_ok [OF _ _ _ p x]) (use c i in \<open>auto simp: s_def\<close>)
      have "st' = st2" using assms(2) Some fs i e x True
        by (auto simp: mcp_call_def mcp_tools_call_raw_def s_def Let_def split: option.splits)
      then show ?thesis using k serves_trans c by blast
    qed
    moreover note i
    ultimately show ?thesis using Some t unfolding C_def by auto
  qed
qed

text \<open>A small world for the witnesses: one server with one tool on a live connection that answers at once.\<close>

definition demo_server :: McpServerCfg where
  "demo_server = \<lparr>sc_id = ''echo'', sc_argv = [''python3'', ''echo.py''], sc_approval = False\<rparr>"

definition demo_tool :: McpToolInfo where
  "demo_tool = \<lparr>mt_name = ''echo__pong'', mt_server = ''echo'', mt_tool = ''pong'', mt_desc = ''pong'', mt_props = ''{}''\<rparr>"

definition demo_mcp :: "nat mcp_state" where
  "demo_mcp =
     \<lparr>ms_servers = [demo_server], ms_tools = [demo_tool], ms_reg = empty_registry,
      ms_conns = \<lparr>cn_pid = Some 7, cn_pipe = Some 0, cn_alive = True, cn_seq = 3\<rparr> #
        replicate 11 \<lparr>cn_pid = None, cn_pipe = None, cn_alive = False, cn_seq = 3\<rparr>,
      ms_pipes = [0], ms_next = 1, ms_trace = [Spawned 0 [''python3'', ''echo.py''] [] 7]\<rparr>"

definition demo_world :: "rd_event list \<Rightarrow> mcp_world" where
  "demo_world es =
     \<lparr>mw_spawn = (\<lambda>_. None), mw_write = (\<lambda>_ _. True), mw_read = (\<lambda>_. es), mw_gone = (\<lambda>_ _. False), mw_now = (\<lambda>_. 0),
      mw_env = [(''LLM_API_KEY'', ''k'')], mw_alloc = (\<lambda>_. True), mw_jq = (\<lambda>_. [])\<rparr>"

lemma demo_mcp_inv: "mcp_inv demo_mcp"
  by (auto simp: mcp_inv_def conn_ok_def demo_mcp_def demo_server_def owns_def child_of_def MCP_SERVERS_MAX_def)

theorem mcp_call_routed_witness:
  "\<exists>out n st'. mcp_call (demo_world [RdStop]) id ''echo__pong'' None demo_mcp = Some (out, n, st') \<and>
     (st' = demo_mcp \<or> serves (demo_world [RdStop]) 0 (range (\<lambda>k. call_line k ''pong'' None)) demo_mcp st')"
proof -
  have "find_tool ''echo__pong'' (ms_tools demo_mcp) = Some demo_tool" "find_server ''echo'' (ms_servers demo_mcp) = Some 0"
    by (simp_all add: demo_mcp_def demo_tool_def demo_server_def find_tool_def find_server_def)
  moreover obtain r st1 where "mcp_tools_call_raw (demo_world [RdStop]) id 0 ''pong'' None demo_mcp = Some (r, st1)"
    by (cases "call_exchange (demo_world [RdStop]) 0 ''pong'' None demo_mcp")
      (simp add: mcp_tools_call_raw_def ensure_conn_def mcp_conn_dead_def demo_mcp_def demo_world_def)
  ultimately obtain out n st' where c: "mcp_call (demo_world [RdStop]) id ''echo__pong'' None demo_mcp = Some (out, n, st')"
    by (cases r) (auto simp: mcp_call_def Let_def demo_tool_def)
  have "length (ms_servers demo_mcp) = 1" "find_tool ''echo__pong'' (ms_tools demo_mcp) = Some demo_tool"
    by (simp_all add: demo_mcp_def demo_tool_def find_tool_def)
  then show ?thesis using mcp_call_routed [OF demo_mcp_inv c] c by (auto simp: demo_tool_def)
qed

text \<open>
  (C32) What comes back.  On a live connection, when the server answers the call with a list of texts, in whatever pieces the
  pipe delivers its answer, after noise and followed by white space, the result of the call is those texts, one per
  line; the connection stays alive and its next request has a new number.
\<close>

theorem mcp_call_delivers:
  assumes "mcp_inv st" and "find_tool name (ms_tools st) = Some t" and "find_server (mt_server t) (ms_servers st) = Some i"
    and "ms_conns st ! i = c" and "cn_alive c" and "cn_pid c = Some pid" and "cn_pipe c = Some p"
    and "\<not> mw_gone w (ms_trace st) pid" and "mw_alloc w = (\<lambda>_. True)" and "\<And>tr l. mw_write w tr l"
    and "\<And>tr. mw_read w (tr @ [Awaited p (cn_seq c) MCP_CALL_TIMEOUT]) = es" and "RdStop \<notin> set es"
    and "chunks es = s @ response_frame (cn_seq c) (text_result ts) @ ws"
    and "noise s" and "list_all json_ws ws" and "list_all part_ok ts" and "ts \<noteq> []"
    and "length (text_lines False ts) < MCP_FINAL_MAX" and "length (chunks es) \<le> MCP_RESP_MAX" and "int (cn_seq c) \<le> LONG_MAX"
  shows "\<exists>st'. mcp_call w runner name args st = Some (text_lines False ts, length (text_lines False ts), st') \<and>
    ms_conns st' ! i = c\<lparr>cn_seq := cn_seq c + 1\<rparr>"
proof -
  define k where "k = cn_seq c"
  define st1 where "st1 = set_conn i (c\<lparr>cn_seq := k + 1\<rparr>) (act (Drained p) st)"
  define st2 where "st2 = act (Sent_line p (call_line k (mt_tool t) args)) st1"
  define st3 where "st3 = act (Awaited p k MCP_CALL_TIMEOUT) st2"
  note i = find_server_some [OF assms(3)]
  have len: "i < length (ms_conns st)" using assms(1) i by (simp add: mcp_inv_def)
  have e: "ensure_conn w runner (ms_servers st ! i) i st = Some (True, st)"
    using assms(4-6,8) by (simp add: ensure_conn_def mcp_conn_dead_def Let_def)
  have z: "\<not> sb_oom zero_sbuf" "sb_text zero_sbuf = []" by (simp_all add: zero_sbuf_def sb_text_def)
  have "response_frame k (text_result ts) \<noteq> []" by (simp add: response_frame_def)
  then obtain j es' where "mcpproc_read_response (\<lambda>_. True) (int k) es zero_sbuf =
      (Some (s @ response_frame k (text_result ts) @ take j ws), es')"
    using read_response_cut [OF assms(14) text_result_wf [OF assms(16)] assms(20,15) _ assms(12), of zero_sbuf] assms(13,19) z
    by (auto simp: k_def)
  then have aw: "await_response w p k MCP_CALL_TIMEOUT st2 = (Some (s @ response_frame k (text_result ts) @ take j ws), st3)"
    using assms(9,11) by (simp add: await_response_def st3_def k_def Let_def)
  then have x: "call_exchange w i (mt_tool t) args st = (Some (s @ response_frame k (text_result ts) @ take j ws), st3)"
    using assms(4,7,10) by (simp add: call_exchange_def Let_def mcpproc_send_def k_def st1_def st2_def call_line_def)
  have "list_all json_ws (take j ws)" using assms(15) by (auto simp: list_all_iff dest: in_set_takeD)
  then have "mcp_format_result (mw_jq w) (Some (s @ response_frame k (text_result ts) @ take j ws)) [] = text_lines False ts"
    by (rule format_texts [OF assms(14,16,17,18)])
  then have "mcp_call w runner name args st = Some (text_lines False ts, length (text_lines False ts), st3)"
    using e x i assms(2,3,18) by (simp add: mcp_call_def mcp_tools_call_raw_def Let_def)
  moreover have "ms_conns st3 ! i = c\<lparr>cn_seq := cn_seq c + 1\<rparr>" using len by (simp add: st3_def st2_def st1_def k_def)
  ultimately show ?thesis by blast
qed

definition demo_reply :: string where
  "demo_reply = ''ready'' @ [LF] @ response_frame 3 (text_result [''a}b'', ''c'']) @ [LF]"

definition demo_events :: "rd_event list" where
  "demo_events = [RdChunk (take 30 demo_reply), RdIntr, RdChunk (drop 30 demo_reply)]"

theorem mcp_call_delivers_witness:
  "\<exists>st'. mcp_call (demo_world demo_events) id ''echo__pong'' (Some ''{}'') demo_mcp = Some (''a}b'' @ [LF] @ ''c'', 5, st')"
proof -
  have "\<exists>st'. mcp_call (demo_world demo_events) id ''echo__pong'' (Some ''{}'') demo_mcp =
      Some (text_lines False [''a}b'', ''c''], length (text_lines False [''a}b'', ''c'']), st') \<and>
      ms_conns st' ! 0 = (ms_conns demo_mcp ! 0)\<lparr>cn_seq := cn_seq (ms_conns demo_mcp ! 0) + 1\<rparr>"
  proof (rule mcp_call_delivers [OF demo_mcp_inv _ _ refl, where t = demo_tool and pid = 7 and p = 0 and es = demo_events
        and s = "''ready'' @ [LF]" and ws = "[LF]"])
    show "list_all part_ok [''a}b'', ''c'']"
      by (simp add: part_ok_def fits_def MCP_TEXT_MAX_def MCP_ITEM_MAX_def text_item_def json_quote_def json_esc_def)
    have l: "length demo_reply \<le> 200" by code_simp
    have c: "chunks demo_events = demo_reply" by (simp add: demo_events_def)
    with l show "length (chunks demo_events) \<le> MCP_RESP_MAX" by (simp add: MCP_RESP_MAX_def)
    show "chunks demo_events = (''ready'' @ [LF]) @ response_frame (cn_seq (ms_conns demo_mcp ! 0)) (text_result [''a}b'', ''c'']) @ [LF]"
      unfolding c by (simp add: demo_reply_def demo_mcp_def)
  qed (simp_all add: demo_mcp_def demo_world_def demo_tool_def demo_server_def find_tool_def find_server_def demo_events_def demo_reply_def
      noise_def json_ws_def MCP_FINAL_MAX_def LONG_MAX_def)
  then show ?thesis by auto
qed

section \<open>The start\<close>

definition spawn_ok :: "mcp_world \<Rightarrow> McpServerCfg list \<Rightarrow> mcp_act \<Rightarrow> bool" where
  "spawn_ok w ss a =
     (case a of
        Spawned p argv env pid \<Rightarrow> argv \<in> sc_argv ` set ss \<and> (\<forall>k \<in> set credentials. map_of env k = None)
      | _ \<Rightarrow> True)"

definition boots :: "mcp_world \<Rightarrow> 'f mcp_state \<Rightarrow> 'f mcp_state \<Rightarrow> bool" where
  "boots w st st' \<longleftrightarrow>
     ms_servers st' = ms_servers st \<and> (tools_ok (ms_tools st) \<longrightarrow> tools_ok (ms_tools st')) \<and>
     (\<exists>new. ms_trace st' = ms_trace st @ new \<and> list_all (spawn_ok w (ms_servers st)) new)"

lemma boots_trans: "boots w a b \<Longrightarrow> boots w b c \<Longrightarrow> boots w a c"
  by (auto simp: boots_def)

lemma child_env_clean: "k \<in> set credentials \<Longrightarrow> map_of (child_env env) k = None"
  by (auto simp: child_env_def map_of_eq_None_iff)

lemma serves_boots:
  assumes "serves w i calls st st'" and "i < length (ms_servers st)" and "tools_ok (ms_tools st) \<longrightarrow> tools_ok (ms_tools st')"
  shows "boots w st st'"
proof -
  have "server_act w (ms_servers st ! i) calls tr a \<Longrightarrow> spawn_ok w (ms_servers st) a" for tr a
    using assms(2) child_env_clean by (auto simp: server_act_def spawn_ok_def split: mcp_act.splits)
  then show ?thesis using assms(1,3) by (fastforce simp: boots_def serves_def list_all_iff)
qed

lemma boots_clock: "boots w st (act Clocked st)"
  by (simp add: boots_def spawn_ok_def)

lemma boots_refl: "boots w st st"
  by (simp add: boots_def)

lemma init_server_ok:
  assumes "mcp_inv st" and "i < length (ms_servers st)" and "init_server w runner deadline i st = Some st'"
  shows "mcp_inv st' \<and> boots w st st'"
proof -
  define stc where "stc = (if deadline = None then st else act Clocked st)"
  define st0 where "st0 = set_conn i ((ms_conns st ! i)\<lparr>cn_alive := False\<rparr>) stc"
  have c: "mcp_inv stc" "boots w st stc" "ms_conns stc = ms_conns st" "ms_servers stc = ms_servers st"
    using assms(1) act_inv [of st Clocked] boots_clock [of w st] boots_refl [of w st] by (auto simp: stc_def)
  have i0: "mcp_inv st0" unfolding st0_def
    by (rule set_conn_inv [OF c(1)]) (use c assms(1) in \<open>auto simp: mcp_inv_def conn_ok_def\<close>)
  have b0: "boots w stc st0" by (simp add: boots_def st0_def)
  obtain ok where "mcp_conn_start w runner (ms_servers st ! i) i (init_timeout deadline (mw_now w (ms_trace st))) st0 = Some (ok, st')"
    using assms(3) by (auto simp: init_server_def Let_def st0_def stc_def)
  from conn_start_ok [OF i0 _ _ this, of "{}"] have s: "mcp_inv st'" "serves w i {} st0 st'"
      "tools_ok (ms_tools st0) \<longrightarrow> tools_ok (ms_tools st')"
    using assms(2) c(4) by (simp_all add: st0_def)
  have "boots w st0 st'" by (rule serves_boots [OF s(2) _ s(3)]) (use assms(2) c(4) in \<open>simp add: st0_def\<close>)
  then show ?thesis using s(1) boots_trans c(2) b0 by blast
qed

lemma init_loop_ok:
  "init_loop w runner deadline js st = Some st' \<Longrightarrow> mcp_inv st \<Longrightarrow> \<forall>i \<in> set js. i < length (ms_servers st) \<Longrightarrow>
   mcp_inv st' \<and> boots w st st'"
proof (induction js arbitrary: st)
  case (Cons i js)
  define stc where "stc = (if deadline = None then st else act Clocked st)"
  have c: "mcp_inv stc" "boots w st stc" "ms_servers stc = ms_servers st"
    using Cons(3) act_inv [of st Clocked] boots_clock [of w st] boots_refl [of w st] by (auto simp: stc_def)
  consider "st' = stc" | st1 where "init_server w runner deadline i stc = Some st1" "init_loop w runner deadline js st1 = Some st'"
    using Cons(2) by (auto simp: Let_def stc_def split: option.splits if_splits elim!: bind_eq_Some_conv [THEN iffD1, elim_format])
  then show ?case
  proof cases
    case 2
    have "mcp_inv st1 \<and> boots w stc st1" by (rule init_server_ok [OF c(1) _ 2(1)]) (use Cons(4) c(3) in simp)
    moreover from this have "mcp_inv st' \<and> boots w st1 st'"
      using Cons.IH [OF 2(2)] Cons(4) c(3) by (simp add: boots_def)
    ultimately show ?thesis using boots_trans c(2) by blast
  qed (use c in simp)
qed (simp add: boots_refl)

definition blank_conn :: McpConn where
  "blank_conn = \<lparr>cn_pid = None, cn_pipe = None, cn_alive = False, cn_seq = 3\<rparr>"

lemma reset_conn_ok:
  assumes "mcp_inv st" and "ms_servers st = []"
  shows "mcp_inv (reset_conn i st) \<and> ms_servers (reset_conn i st) = [] \<and> ms_conns (reset_conn i st) = (ms_conns st)[i := blank_conn] \<and>
    ms_tools (reset_conn i st) = ms_tools st \<and> (\<exists>new. ms_trace (reset_conn i st) = ms_trace st @ new \<and> list_all kill_act new)"
proof -
  have "mcp_inv (reset_conn i st)" unfolding reset_conn_def Let_def
    by (rule set_conn_inv) (use assms kill_inv [OF assms(1), of i] in simp_all)
  moreover have "ms_conns (mcp_conn_kill i st) = (ms_conns st)[i := (ms_conns st ! i)\<lparr>cn_pid := None, cn_pipe := None, cn_alive := False\<rparr>]"
    by (simp add: mcp_conn_kill_def Let_def split: option.split)
  ultimately show ?thesis using assms(2) kill_frame [of i st] by (auto simp: reset_conn_def Let_def blank_conn_def)
qed

lemma reset_all_ok:
  assumes "mcp_inv st" and "ms_servers st = []"
  shows "let st' = foldl (\<lambda>st i. reset_conn i st) st [0..<n]
    in mcp_inv st' \<and> ms_servers st' = [] \<and> ms_tools st' = ms_tools st \<and> (\<forall>i < n. i < length (ms_conns st') \<longrightarrow> ms_conns st' ! i = blank_conn) \<and>
      (\<exists>new. ms_trace st' = ms_trace st @ new \<and> list_all kill_act new)"
proof (induction n)
  case (Suc n)
  define s1 where "s1 = foldl (\<lambda>st i. reset_conn i st) st [0..<n]"
  have s1: "mcp_inv s1" "ms_servers s1 = []" "ms_tools s1 = ms_tools st" "\<forall>i < n. i < length (ms_conns s1) \<longrightarrow> ms_conns s1 ! i = blank_conn"
      "\<exists>new. ms_trace s1 = ms_trace st @ new \<and> list_all kill_act new"
    using Suc by (simp_all add: s1_def Let_def)
  have "foldl (\<lambda>st i. reset_conn i st) st [0..<Suc n] = reset_conn n s1" by (simp add: s1_def)
  then show ?case using reset_conn_ok [OF s1(1,2), of n] s1
    by (auto simp: Let_def less_Suc_eq nth_list_update)
qed (simp add: assms)

text \<open>
  (C33) The state after a start or a reload, from any earlier state.  The server table is well-formed for the allow-list, the
  table of tools is within its bounds with distinct names, every connection belongs to the server at its index, and
  the processes started run commands of the server table only, none of them with an LLM credential in its environment.
\<close>

theorem mcp_init_sound:
  assumes "mcp_inv st" and "tools_ok (ms_tools st)" and "mcp_init w fs runner st = Some st'"
  shows "mcp_inv st' \<and> servers_ok (env_value w ''MCP_ALLOW'') (ms_servers st') \<and> tools_ok (ms_tools st') \<and>
    (\<exists>new. ms_trace st' = ms_trace st @ new \<and> list_all (spawn_ok w (ms_servers st')) new)"
proof -
  define st1 where "st1 = mcp_conn_reset_all (st\<lparr>ms_servers := []\<rparr>)"
  define st2 where "st2 = st1\<lparr>ms_servers := mcp_config_load fs (env_value w ''MCP_ALLOW'') (env_value w ''MCP_SERVERS'') []\<rparr>"
  have "mcp_inv (st\<lparr>ms_servers := []\<rparr>)" using assms(1) by (simp add: mcp_inv_def)
  from reset_all_ok [OF this, of MCP_SERVERS_MAX] obtain new where s1: "mcp_inv st1" "ms_tools st1 = ms_tools st"
      "\<forall>i < MCP_SERVERS_MAX. i < length (ms_conns st1) \<longrightarrow> ms_conns st1 ! i = blank_conn"
      "ms_trace st1 = ms_trace st @ new" "list_all kill_act new"
    by (auto simp: st1_def mcp_conn_reset_all_def Let_def)
  have srv: "servers_ok (env_value w ''MCP_ALLOW'') (ms_servers st2)" using mcp_config_sound by (simp add: st2_def)
  then have l: "length (ms_servers st2) \<le> MCP_SERVERS_MAX" by (simp add: servers_ok_def)
  have "conn_ok st2 i" if "i < length (ms_servers st2)" for i
    using that l s1(1,3) by (simp add: conn_ok_def st2_def blank_conn_def mcp_inv_def)
  then have i2: "mcp_inv st2" using s1(1) l by (simp add: mcp_inv_def st2_def)
  have k: "list_all (spawn_ok w ss) new" for ss
    using s1(5) by (auto simp: list_all_iff kill_act_def spawn_ok_def split: mcp_act.splits)
  have "mcp_inv st' \<and> boots w st2 st'"
  proof (cases "ms_servers st2 = []")
    case True
    then show ?thesis using assms(3) i2 by (simp add: mcp_init_def Let_def st2_def st1_def boots_refl)
  next
    case False
    then have "init_loop w runner (init_deadline w st2) [0..<length (ms_servers st2)] (act Clocked st2) = Some st'"
      using assms(3) by (simp add: mcp_init_def Let_def st2_def st1_def)
    from init_loop_ok [OF this] have "mcp_inv st' \<and> boots w (act Clocked st2) st'" using act_inv [OF i2, of Clocked] by simp
    then show ?thesis using boots_trans [OF boots_clock] by blast
  qed
  then show ?thesis using srv s1 k assms(2) by (auto simp: boots_def st2_def)
qed

lemma init_loop_silent:
  assumes "mw_read w = (\<lambda>_. [])"
  shows "\<exists>st'. init_loop w runner deadline js st = Some st'"
proof -
  have "\<exists>st'. mcp_handshake w runner s p tmo st = Some (False, st')" for s p tmo and st :: "'a mcp_state"
    using assms by (auto simp: mcp_handshake_def await_response_def Let_def split: prod.split bool.split)
  note h = this
  have "\<exists>r. mcp_conn_start w runner s i tmo st = Some r" for s i tmo and st :: "'a mcp_state"
  proof -
    define st0 where "st0 = set_conn i ((ms_conns st ! i)\<lparr>cn_pid := None, cn_pipe := None\<rparr>) st"
    obtain sp st1 where sp: "mcpproc_spawn w s st0 = (sp, st1)" by force
    show ?thesis
    proof (cases sp)
      case None
      then show ?thesis using sp by (auto simp: mcp_conn_start_def st0_def Let_def)
    next
      case (Some x)
      obtain pid p where x: "x = (pid, p)" by force
      obtain st2 where "mcp_handshake w runner s p tmo (set_conn i ((ms_conns st ! i)\<lparr>cn_pid := Some pid, cn_pipe := Some p\<rparr>) st1) = Some (False, st2)"
        using h by blast
      then show ?thesis using sp Some x by (auto simp: mcp_conn_start_def st0_def Let_def)
    qed
  qed
  then have s: "\<exists>st'. init_server w runner deadline i st = Some st'" for i and st :: "'a mcp_state"
    by (fastforce simp: init_server_def Let_def)
  show ?thesis
  proof (induction js arbitrary: st)
    case (Cons j js)
    obtain s1 where "init_server w runner deadline j (if deadline = None then st else act Clocked st) = Some s1" using s by blast
    then show ?case using Cons by (auto simp: Let_def split: option.split)
  qed simp
qed

lemma mcp_init_silent: "mw_read w = (\<lambda>_. []) \<Longrightarrow> \<exists>st'. mcp_init w fs runner st = Some st'"
  by (simp add: mcp_init_def Let_def init_loop_silent)

definition boot_world :: mcp_world where
  "boot_world = (demo_world [])\<lparr>mw_spawn := (\<lambda>_. Some 9),
     mw_env := [(''LLM_API_KEY'', ''k''), (''MCP_SERVERS'', jprint (JArr [JObj (entry_json demo_entry)]))]\<rparr>"

theorem mcp_init_sound_witness:
  "\<exists>st' new. mcp_init boot_world (demo_root_fs ''/'') id demo_mcp = Some st' \<and> mcp_inv st' \<and>
     ms_trace st' = ms_trace demo_mcp @ new \<and> list_all (spawn_ok boot_world (ms_servers st')) new"
proof -
  have "tools_ok (ms_tools demo_mcp)"
    by (simp add: tools_ok_def demo_mcp_def demo_tool_def tool_ok_def MCP_TOOLS_MAX_def TOOL_NAME_MAX_def TOOL_DESC_MAX_def TOOL_PARAMS_MAX_def)
  moreover have "mw_read boot_world = (\<lambda>_. [])" by (simp add: boot_world_def demo_world_def)
  then obtain st' where "mcp_init boot_world (demo_root_fs ''/'') id demo_mcp = Some st'"
    using mcp_init_silent by blast
  ultimately show ?thesis using mcp_init_sound [OF demo_mcp_inv] by blast
qed

section \<open>Where the client goes wrong\<close>

text \<open>
  An entry of exactly the size of the buffer fills it without its NUL and without the mark for an entry that is too
  long: the lookups that follow read behind the buffer.
\<close>

lemma tool_scan_blanks:
  "length item + k \<le> TOOL_ITEM_SIZE - 1 \<Longrightarrow>
   tool_scan (replicate k (CHR '' '') @ r) False item d ov = tool_scan r False (item @ replicate k (CHR '' '')) d ov"
  by (induction k arbitrary: item) (simp_all add: Let_def)

lemma full_tool_entry_unterminated:
  assumes "length ts < MCP_TOOLS_MAX"
  shows "digest_loop profile runner s (CHR ''{'' # replicate (TOOL_ITEM_SIZE - 2) (CHR '' '') @ ''}]'') (ts, reg) = None"
proof -
  define b where "b = replicate (TOOL_ITEM_SIZE - 2) (CHR '' '')"
  have "tool_scan (CHR ''{'' # b @ ''}]'') False [] 0 False = tool_scan (b @ ''}]'') False ''{'' 1 False"
    by (simp add: Let_def TOOL_ITEM_SIZE_def)
  also have "\<dots> = tool_scan ''}]'' False (CHR ''{'' # b) 1 False"
    using tool_scan_blanks [of "''{''" "TOOL_ITEM_SIZE - 2" "''}]''" 1 False] by (simp add: b_def TOOL_ITEM_SIZE_def)
  also have "\<dots> = Some (CHR ''{'' # b, False, False, '']'')" by (simp add: b_def TOOL_ITEM_SIZE_def Let_def)
  finally show ?thesis using assms unfolding b_def [symmetric] by (subst digest_loop.simps) simp
qed

text \<open>An escaped quote that no longer fits is taken apart, and the quote ends the string.\<close>

lemma escape_at_limit_ends_string:
  "length item = TOOL_ITEM_SIZE - 3 \<Longrightarrow>
   tool_scan (BSLASH # DQUOTE # r) True item d ov = tool_scan r False (item @ [DQUOTE]) d ov"
  by (simp add: Let_def TOOL_ITEM_SIZE_def)

text \<open>Tools of a server that agree in the first sixty-four bytes of their combined name are one tool.\<close>

lemma long_tool_names_collide:
  "length (ident @ ''__'' @ n) \<ge> TOOL_NAME_MAX \<Longrightarrow> mcp_tool_name ident (n @ x) = mcp_tool_name ident (n @ y)"
proof -
  assume l: "length (ident @ ''__'' @ n) \<ge> TOOL_NAME_MAX"
  have "mcp_tool_name ident (n @ z) = take TOOL_NAME_MAX (ident @ ''__'' @ n)" for z
    using take_append [of TOOL_NAME_MAX "ident @ ''__'' @ n" z] l by (simp add: mcp_tool_name_def del: take_append)
  then show ?thesis by simp
qed

text \<open>A child that died is replaced without closing its pipe: no connection knows the pipe any more, and it stays open.\<close>

lemma respawn_leaks_pipe:
  assumes "mcp_inv st" and "i < length (ms_servers st)" and "cn_pipe (ms_conns st ! i) = Some p" and "p \<in> set (ms_pipes st)" and "p < ms_next st"
    and "mcp_conn_start w runner s i tmo st = Some (ok, st')"
  shows "p \<in> set (ms_pipes st') \<and> cn_pipe (ms_conns st' ! i) \<noteq> Some p"
proof -
  define c where "c = ms_conns st ! i"
  define st0 where "st0 = set_conn i (c\<lparr>cn_pid := None, cn_pipe := None\<rparr>) st"
  have len: "i < length (ms_conns st)" using assms(1,2) by (simp add: mcp_inv_def)
  show ?thesis
  proof (cases "mw_spawn w (ms_trace st)")
    case None
    then have "st' = st0" using assms(6) by (simp add: mcp_conn_start_def mcpproc_spawn_def st0_def c_def Let_def)
    then show ?thesis using assms(4) len by (simp add: st0_def)
  next
    case (Some pid)
    define q where "q = ms_next st"
    define st1 where "st1 = set_conn i (c\<lparr>cn_pid := Some pid, cn_pipe := Some q\<rparr>)
      (act (Spawned q (sc_argv s) (child_env (mw_env w)) pid) (st0\<lparr>ms_pipes := ms_pipes st @ [q], ms_next := q + 1\<rparr>))"
    obtain st2 where h: "mcp_handshake w runner s q tmo st1 = Some (ok, st2)"
      and st': "st' = (if ok then set_conn i ((ms_conns st2 ! i)\<lparr>cn_alive := True, cn_seq := 3\<rparr>) st2 else mcp_conn_kill i st2)"
      using assms(6) Some by (auto simp: mcp_conn_start_def mcpproc_spawn_def st0_def c_def q_def st1_def Let_def split: option.splits)
    have f: "ms_pipes st2 = ms_pipes st @ [q]" "ms_conns st2 ! i = c\<lparr>cn_pid := Some pid, cn_pipe := Some q\<rparr>" "i < length (ms_conns st2)"
      using handshake_frame [OF h] len by (auto simp: handshook_def st1_def st0_def)
    have "p \<noteq> q" using assms(5) by (simp add: q_def)
    then show ?thesis using st' f assms(4)
      by (auto simp: mcp_conn_kill_def close_pipe_def Let_def remove1_append)
  qed
qed

end
