(* ===== verification/Tools_Api.thy ===== *)
theory Tools_Api
  imports Mcp Route
begin

text \<open>
  The HTTP surface of the tool table, \<open>src/src/agent/tools_api.c\<close>: the listing and the call of a tool for a remote peer.
  The path predicates are in theory \<open>Route\<close>; \<open>alloc\<close> says which allocations succeed; a request without a body is a null
  pointer, and the model of the handler gives \<open>None\<close> where the code reads through it.
\<close>

definition origin_ok :: "HttpRequest \<Rightarrow> bool" where
  "origin_ok req = request_is_same_origin req"

definition reply_json :: "(nat \<Rightarrow> bool) \<Rightarrow> int \<Rightarrow> string \<Rightarrow> string \<Rightarrow> HttpResponse \<Rightarrow> HttpResponse" where
  "reply_json alloc status body status_text resp =
     (let r = resp\<lparr>rs_status_code := status, rs_status_text := status_text, rs_content_type := ''application/json''\<rparr>
      in if alloc (length body + 1) then r\<lparr>rs_body := Some body, rs_body_length := int (length body)\<rparr> else r\<lparr>rs_body := None\<rparr>)"

definition quote_pieces :: "char \<Rightarrow> string list" where
  "quote_pieces c =
     (if c = DQUOTE \<or> c = BSLASH then [[BSLASH], [c]]
      else if c = LF then [[BSLASH, CHR ''n'']]
      else if c = CR then [[BSLASH, CHR ''r'']]
      else if c = TAB then [[BSLASH, CHR ''t'']]
      else if code c < 32 then [BSLASH # CHR ''u'' # hex04 (code c)]
      else [[c]])"

definition quote_parts :: "string \<Rightarrow> string list" where
  "quote_parts s = [[DQUOTE]] @ concat (map quote_pieces (cstr s)) @ [[DQUOTE]]"

definition quote :: "(nat \<Rightarrow> bool) \<Rightarrow> sbuf \<Rightarrow> string \<Rightarrow> sbuf" where
  "quote alloc b s = foldl (sb_mem alloc) b (quote_parts s)"

definition text_or :: "string \<Rightarrow> sbuf \<Rightarrow> string" where
  "text_or dflt b = (case sb_p b of None \<Rightarrow> dflt | Some s \<Rightarrow> s)"

definition key_part :: "string \<Rightarrow> string" where
  "key_part k = DQUOTE # k @ [DQUOTE, CHR '':'']"

section \<open>The listing\<close>

definition list_entry :: "(nat \<Rightarrow> bool) \<Rightarrow> bool \<Rightarrow> McpToolInfo \<Rightarrow> sbuf \<Rightarrow> sbuf" where
  "list_entry alloc sep t b0 =
     (let b1 = (if sep then sb_chr alloc b0 (CHR '','') else b0);
          b2 = quote alloc (sb_str alloc b1 (CHR ''{'' # key_part ''name'')) (mt_name t);
          b3 = quote alloc (sb_str alloc b2 (CHR '','' # key_part ''server'')) (mt_server t);
          b4 = (if mt_desc t \<noteq> [] then quote alloc (sb_str alloc b3 (CHR '','' # key_part ''desc'')) (mt_desc t) else b3)
      in sb_chr alloc b4 (CHR ''}''))"

fun list_loop :: "(nat \<Rightarrow> bool) \<Rightarrow> McpToolInfo list \<Rightarrow> bool \<Rightarrow> sbuf \<Rightarrow> sbuf" where
  "list_loop alloc [] written b = b"
| "list_loop alloc (t # ts) written b =
     (if mt_name t = [] then list_loop alloc ts written b else list_loop alloc ts True (list_entry alloc written t b))"

definition empty_list :: string where
  "empty_list = CHR ''{'' # key_part ''ok'' @ ''true,'' @ key_part ''tools'' @ ''[]}''"

definition list_text :: "(nat \<Rightarrow> bool) \<Rightarrow> McpToolInfo list \<Rightarrow> string" where
  "list_text alloc ts =
     text_or empty_list
       (sb_str alloc (list_loop alloc ts False (sb_str alloc zero_sbuf (CHR ''{'' # key_part ''ok'' @ ''true,'' @ key_part ''tools'' @ ''[''))) '']}'')"

section \<open>The call\<close>

definition error_body :: "string \<Rightarrow> string" where
  "error_body m = CHR ''{'' # key_part ''ok'' @ ''false,'' @ key_part ''error'' @ DQUOTE # m @ [DQUOTE] @ ''}''"

definition call_failed :: "string \<Rightarrow> bool" where
  "call_failed result = starts_with ''error:'' result"

definition call_head :: "bool \<Rightarrow> string" where
  "call_head failed = CHR ''{'' # key_part ''ok'' @ (if failed then ''false,'' @ key_part ''error'' else ''true,'' @ key_part ''result'')"

definition call_text :: "(nat \<Rightarrow> bool) \<Rightarrow> string \<Rightarrow> string \<Rightarrow> string" where
  "call_text alloc result tool =
     (let b1 = quote alloc (sb_str alloc zero_sbuf (call_head (call_failed result))) result;
          b2 = quote alloc (sb_str alloc b1 (CHR '','' # key_part ''tool'')) tool
      in text_or (error_body ''empty'') (sb_chr alloc b2 (CHR ''}'')))"

text \<open>Run the tool and answer; the result is taken as a C string from the buffer, not by the length in its header.\<close>

definition run_call ::
  "mcp_world \<Rightarrow> (nat \<Rightarrow> 'f) \<Rightarrow> (nat \<Rightarrow> bool) \<Rightarrow> string \<Rightarrow> string \<Rightarrow> HttpResponse \<Rightarrow> 'f mcp_state \<Rightarrow> (HttpResponse \<times> 'f mcp_state) option" where
  "run_call w runner alloc tool args resp st =
     (case mcp_call w runner tool (Some args) st of
        None \<Rightarrow> None
      | Some (result, n, st') \<Rightarrow>
          let failed = call_failed result
          in Some (reply_json alloc (if failed then 502 else 200) (call_text alloc result tool)
                     (if failed then ''Bad Gateway'' else ''OK'') resp, st'))"

definition bad_request :: "(nat \<Rightarrow> bool) \<Rightarrow> string \<Rightarrow> HttpResponse \<Rightarrow> HttpResponse" where
  "bad_request alloc m resp = reply_json alloc 400 (error_body m) ''Bad Request'' resp"

definition handle_call ::
  "mcp_world \<Rightarrow> (nat \<Rightarrow> 'f) \<Rightarrow> (nat \<Rightarrow> bool) \<Rightarrow> string \<Rightarrow> HttpResponse \<Rightarrow> 'f mcp_state \<Rightarrow> (HttpResponse \<times> 'f mcp_state) option" where
  "handle_call w runner alloc body resp st =
     (case read_jstr 256 (jfind_value body ''name'') of
        Absent \<Rightarrow> Some (bad_request alloc ''body must be JSON: {name, arguments?}'' resp, st)
      | Broken \<Rightarrow> Some (bad_request alloc ''name must be a non-empty string'' resp, st)
      | Text tool \<Rightarrow>
          if tool = [] then Some (bad_request alloc ''name must be a non-empty string'' resp, st)
          else let args = (case jfind_value body ''arguments'' of None \<Rightarrow> jfind_value body ''args'' | Some a \<Rightarrow> Some a)
               in case args of
                    None \<Rightarrow> run_call w runner alloc tool ''{}'' resp st
                  | Some a \<Rightarrow>
                      (case (if a \<noteq> [] \<and> (hd a = CHR ''{'' \<or> hd a = CHR ''['') then jskip_value a else None) of
                         None \<Rightarrow> Some (bad_request alloc ''arguments must be a JSON object or array'' resp, st)
                       | Some p \<Rightarrow>
                           let len = length a - length p
                           in if \<not> alloc (len + 1) then Some (reply_json alloc 500 (error_body ''out of memory'') ''Internal Server Error'' resp, st)
                              else run_call w runner alloc tool (take len a) resp st))"

definition tools_api_handle ::
  "mcp_world \<Rightarrow> (nat \<Rightarrow> 'f) \<Rightarrow> (nat \<Rightarrow> bool) \<Rightarrow> string \<Rightarrow> HttpRequest \<Rightarrow> HttpResponse \<Rightarrow> 'f mcp_state \<Rightarrow>
   (HttpResponse \<times> 'f mcp_state) option" where
  "tools_api_handle w runner alloc public_paths req resp st =
     (if rq_path req = ''/react/api/tools'' then Some (reply_json alloc 200 (list_text alloc (ms_tools st)) ''OK'' resp, st)
      else if is_public_path public_paths (Some (rq_path req)) then
        Some (reply_json alloc 403 (error_body ''tool execution is not available on a public path'') ''Forbidden'' resp, st)
      else if \<not> origin_ok req then
        Some (reply_json alloc 403 (error_body ''cross-origin request rejected'') ''Forbidden'' resp, st)
      else case rq_body req of
             None \<Rightarrow> None
           | Some body \<Rightarrow> handle_call w runner alloc (cstr body) resp st)"

section \<open>Who may run a tool\<close>

text \<open>What a call is run with: the value of \<open>arguments\<close>, else that of \<open>args\<close>.\<close>

definition given_arguments :: "string \<Rightarrow> string option" where
  "given_arguments body = (case jfind_value body ''arguments'' of None \<Rightarrow> jfind_value body ''args'' | Some a \<Rightarrow> Some a)"

text \<open>
  (C34) A tool runs only for a request that is neither on a public path nor from another origin, and only the tool named
  in the body, with exactly the arguments of the body.  If the state of the client changed at all, the path is not listed as
  public, the request passed the same-origin test, its body names a tool, and the change is that of one call of it.  The
  arguments of the call are \<open>{}\<close> only when the body has neither an \<open>arguments\<close> nor an \<open>args\<close> member (or has that
  text there); otherwise the member begins with a brace or bracket and the arguments are its text up to where the
  value ends, which is the whole printed value when a JSON value is printed there.
\<close>

theorem tools_call_guarded:
  assumes "tools_api_handle w runner alloc public_paths req resp st = Some (resp', st')" and "st' \<noteq> st"
  shows "rq_path req \<noteq> ''/react/api/tools'' \<and> \<not> is_public_path public_paths (Some (rq_path req)) \<and> request_is_same_origin req \<and>
    (\<exists>body tool args out n. rq_body req = Some body \<and> read_jstr 256 (jfind_value (cstr body) ''name'') = Text tool \<and>
       mcp_call w runner tool (Some args) st = Some (out, n, st') \<and>
       (case given_arguments (cstr body) of
          None \<Rightarrow> args = ''{}''
        | Some a \<Rightarrow> a \<noteq> [] \<and> (hd a = CHR ''{'' \<or> hd a = CHR ''['') \<and>
            (\<exists>rest. jskip_value a = Some rest \<and> args = take (length a - length rest) a) \<and>
            (\<forall>v d rest. a = jprint v @ d # rest \<and> json_wf v \<and> json_stop d \<longrightarrow> args = jprint v)))"
proof -
  obtain body where b: "rq_body req = Some body" "handle_call w runner alloc (cstr body) resp st = Some (resp', st')"
    and g: "rq_path req \<noteq> ''/react/api/tools''" "\<not> is_public_path public_paths (Some (rq_path req))" "request_is_same_origin req"
    using assms by (auto simp: tools_api_handle_def origin_ok_def split: if_splits option.splits)
  obtain tool where tool: "read_jstr 256 (jfind_value (cstr body) ''name'') = Text tool" "tool \<noteq> []"
    using b(2) assms(2) by (auto simp: handle_call_def split: jstr_read.splits if_splits)
  note ga = given_arguments_def [of "cstr body", symmetric]
  have run: "\<exists>out n. mcp_call w runner tool (Some args) st = Some (out, n, st')"
    if "run_call w runner alloc tool args resp st = Some (resp', st')" for args
    using that by (auto simp: run_call_def Let_def split: option.splits)
  show ?thesis
  proof (cases "given_arguments (cstr body)")
    case None
    then have "run_call w runner alloc tool ''{}'' resp st = Some (resp', st')"
      using b(2) tool by (simp add: handle_call_def ga)
    then show ?thesis using run g b(1) tool(1) None by auto
  next
    case (Some v)
    then obtain p where k: "v \<noteq> []" "hd v = CHR ''{'' \<or> hd v = CHR ''[''" "jskip_value v = Some p"
      and r: "run_call w runner alloc tool (take (length v - length p) v) resp st = Some (resp', st')"
      using b(2) tool assms(2) by (auto simp: handle_call_def ga Let_def split: if_splits option.splits)
    have "take (length v - length p) v = jprint j" if "v = jprint j @ d # rest" "json_wf j" "json_stop d" for j d rest
      using jskip_value_jprint [OF that(2,3), of rest] that(1) k(3) by simp
    then show ?thesis using run [OF r] g b(1) tool(1) Some k by auto
  qed
qed

definition tools_request :: "string \<Rightarrow> HttpRequest" where
  "tools_request body = zero_request\<lparr>rq_method := ''POST'', rq_path := ''/react/api/tools/call'', rq_body := Some body\<rparr>"

definition pong_body :: string where
  "pong_body = CHR ''{'' # key_part ''name'' @ DQUOTE # ''echo__pong'' @ [DQUOTE] @ ''}''"

theorem tools_call_guarded_witness:
  "\<exists>resp' st'. tools_api_handle (demo_world [RdStop]) id (\<lambda>_. True) ''/health'' (tools_request pong_body) zero_response demo_mcp = Some (resp', st') \<and>
     st' \<noteq> demo_mcp \<and> request_is_same_origin (tools_request pong_body)"
proof -
  have g: "\<not> is_public_path ''/health'' (Some ''/react/api/tools/call'')" "request_is_same_origin (tools_request pong_body)"
    "read_jstr 256 (jfind_value (cstr pong_body) ''name'') = Text ''echo__pong''" "jfind_value (cstr pong_body) ''arguments'' = None"
    "jfind_value (cstr pong_body) ''args'' = None"
    by code_simp+
  have f: "find_tool ''echo__pong'' (ms_tools demo_mcp) = Some demo_tool" "find_server ''echo'' (ms_servers demo_mcp) = Some 0"
    by (simp_all add: demo_mcp_def demo_tool_def demo_server_def find_tool_def find_server_def)
  define st1 where "st1 = snd (call_exchange (demo_world [RdStop]) 0 ''pong'' (Some ''{}'') demo_mcp)"
  have x: "call_exchange (demo_world [RdStop]) 0 ''pong'' (Some ''{}'') demo_mcp = (None, st1)" "length (ms_trace st1) = 5"
    unfolding st1_def
    by (simp_all add: call_exchange_def demo_mcp_def demo_world_def mcpproc_send_def await_response_def mcp_conn_kill_def Let_def)
  have "mcp_tools_call_raw (demo_world [RdStop]) id 0 ''pong'' (Some ''{}'') demo_mcp = Some (None, st1)"
    using x(1) by (simp add: mcp_tools_call_raw_def ensure_conn_def mcp_conn_dead_def demo_mcp_def demo_world_def)
  then obtain out n where "mcp_call (demo_world [RdStop]) id ''echo__pong'' (Some ''{}'') demo_mcp = Some (out, n, st1)"
    using f by (auto simp: mcp_call_def Let_def demo_tool_def)
  then obtain resp' where h: "tools_api_handle (demo_world [RdStop]) id (\<lambda>_. True) ''/health'' (tools_request pong_body) zero_response demo_mcp = Some (resp', st1)"
    using g by (simp add: tools_api_handle_def tools_request_def origin_ok_def handle_call_def run_call_def Let_def)
  moreover have "st1 \<noteq> demo_mcp" using x(2) by (auto simp: demo_mcp_def)
  ultimately show ?thesis using tools_call_guarded [OF h] by blast
qed

section \<open>Reading the reply\<close>

definition quoted_text :: "string \<Rightarrow> string" where
  "quoted_text s = concat (quote_parts s)"

lemma jread_loop_pieces: "jread_loop n (concat (quote_pieces c) @ p) out = jread_loop n p (put_byte n out c)"
proof (cases "c \<in> {DQUOTE, BSLASH, LF, CR, TAB}")
  case True
  then show ?thesis
    by (elim insertE emptyE; hypsubst; simp add: quote_pieces_def jread_escape_def utf8_put_ascii esc_chars)
next
  case False
  show ?thesis
  proof (cases "code c < 32")
    case True
    then have "quote_pieces c = [BSLASH # CHR ''u'' # hex04 (code c)]" using False by (simp add: quote_pieces_def)
    with True show ?thesis by (simp add: jread_escape_def jread_unicode_hex04 utf8_put_ascii)
  next
    case big: False
    then have "quote_pieces c = [[c]]" using False by (simp add: quote_pieces_def)
    with False show ?thesis by simp
  qed
qed

lemma jread_loop_parts:
  "jread_loop n (concat (concat (map quote_pieces s)) @ DQUOTE # p) (take (n - 1) pre) = Some (take (n - 1) (pre @ s), p)"
proof (induction s arbitrary: pre)
  case (Cons c s)
  then show ?case using Cons [of "pre @ [c]"]
    by (simp only: list.map concat.simps concat_append append_assoc jread_loop_pieces put_byte_take) simp
qed simp

lemma jread_quoted_text: "jread_string n (quoted_text s @ p) = Some (take (n - 1) (cstr s), p)"
  using jread_loop_parts [of n "cstr s" p "[]"] by (simp add: jread_string_def quoted_text_def quote_parts_def)

lemma quoted_text_hd: "quoted_text s \<noteq> []" "hd (quoted_text s @ r) = DQUOTE"
  by (simp_all add: quoted_text_def quote_parts_def)

lemma jskip_quoted_text: "jskip_value (quoted_text s @ p) = Some p"
  using jread_quoted_text [of 8 s p] quoted_text_hd(1) [of s] quoted_text_hd(2) [of s p]
  by (cases "quoted_text s @ p") (auto simp: jskip_value_def jws_id json_ws_def Let_def)

lemma quote_whole:
  "\<not> sb_oom b \<Longrightarrow> sb_text (quote (\<lambda>_. True) b s) = sb_text b @ quoted_text s \<and> \<not> sb_oom (quote (\<lambda>_. True) b s)"
proof -
  assume b: "\<not> sb_oom b"
  have "\<not> sb_oom (foldl (sb_mem (\<lambda>_. True)) b ps)" for ps
    using b by (induction ps arbitrary: b) (simp_all add: sb_mem_whole)
  then show ?thesis using sb.puts_written [of "\<lambda>_. True" b "quote_parts s"] by (simp add: quote_def quoted_text_def)
qed

lemma call_text_shape:
  "call_text (\<lambda>_. True) result tool =
     call_head (call_failed result) @ quoted_text result @ CHR '','' # key_part ''tool'' @ quoted_text tool @ ''}''"
proof -
  define T where "T = (\<lambda>_ :: nat. True)"
  define b0 where "b0 = sb_str T zero_sbuf (call_head (call_failed result))"
  define b1 where "b1 = quote T b0 result"
  define b2 where "b2 = sb_str T b1 (CHR '','' # key_part ''tool'')"
  define b3 where "b3 = quote T b2 tool"
  define b4 where "b4 = sb_chr T b3 (CHR ''}'')"
  have 0: "sb_text b0 = call_head (call_failed result) \<and> \<not> sb_oom b0"
    using sb_mem_whole [of zero_sbuf] by (simp add: b0_def T_def sb_str_def zero_sbuf_def sb_text_def)
  have 1: "sb_text b1 = sb_text b0 @ quoted_text result \<and> \<not> sb_oom b1" using quote_whole 0 by (simp add: b1_def T_def)
  have 2: "sb_text b2 = sb_text b1 @ CHR '','' # key_part ''tool'' \<and> \<not> sb_oom b2"
    using sb_mem_whole 1 by (simp add: b2_def T_def sb_str_def)
  have 3: "sb_text b3 = sb_text b2 @ quoted_text tool \<and> \<not> sb_oom b3" using quote_whole 2 by (simp add: b3_def T_def)
  have 4: "sb_text b4 = sb_text b3 @ ''}''" using sb_mem_whole 3 by (simp add: b4_def T_def sb_chr_def)
  have "text_or d b4 = sb_text b4" for d using 4 by (auto simp: text_or_def sb_text_def split: option.splits)
  moreover have "call_text T result tool = text_or (error_body ''empty'') b4"
    by (simp add: call_text_def b4_def b3_def b2_def b1_def b0_def Let_def)
  ultimately show ?thesis using 0 1 2 3 4 by (simp add: T_def)
qed

text \<open>One member of a text whose value is known to end at a comma or at the closing brace.\<close>

lemma jfind_key:
  assumes "json_quote k = DQUOTE # k @ [DQUOTE]" and "NUL \<notin> set k" and "length k < 64"
    and "v \<noteq> []" and "\<not> json_ws (hd v)" and "jskip_value v = Some (c # r)" and "\<not> json_ws c"
  shows "jfind_loop (key_part k @ v) key = (if k = key then Some v else if c = CHR '','' then jfind_loop r key else None)"
proof -
  have q: "key_part k @ v = json_quote k @ CHR '':'' # v" using assms(1) by (simp add: key_part_def)
  have "cstr (take 63 k) = k" using assms(2,3) cstr_id [of k] by simp
  moreover have "jws v = v" using assms(4,5) by (simp add: jws_id)
  ultimately have m: "jmember (json_quote k @ CHR '':'' # v) = Some (k, v)"
    using jread_string_quoted [of 64 k "CHR '':'' # v"] by (simp add: jmember_def jws_id json_ws_def json_quote_def)
  have "jws (json_quote k @ CHR '':'' # v) = json_quote k @ CHR '':'' # v" by (simp add: json_quote_def jws_id json_ws_def)
  moreover have "jws (c # r) = c # r" using assms(7) by (simp add: jws_id)
  ultimately show ?thesis unfolding q using m assms(6) by (subst jfind_loop.simps) simp
qed

lemma reply_keys: "json_quote k = DQUOTE # k @ [DQUOTE] \<and> NUL \<notin> set k \<and> length k < 64"
  if "k \<in> {''ok'', ''error'', ''result'', ''tool''}"
  using that by (elim insertE emptyE; hypsubst) (simp_all add: json_quote_def json_esc_def)

text \<open>
  A peer can read the reply of a call back.  Whatever bytes the tool returned, the reply has a member \<open>ok\<close> that says
  whether the call failed, a member \<open>result\<close> (or \<open>error\<close>) whose string is exactly the tool's text, and a member
  \<open>tool\<close> with the name, both cut only by the reader's own buffer.
\<close>

theorem tools_reply_readable:
  "(\<exists>r. jfind_value (call_text (\<lambda>_. True) result tool) ''ok'' = Some ((if call_failed result then ''false'' else ''true'') @ r)) \<and>
   (\<exists>v r. jfind_value (call_text (\<lambda>_. True) result tool) (if call_failed result then ''error'' else ''result'') = Some v \<and>
      jread_string n v = Some (take (n - 1) (cstr result), r)) \<and>
   (\<exists>v r. jfind_value (call_text (\<lambda>_. True) result tool) ''tool'' = Some v \<and> jread_string n v = Some (take (n - 1) (cstr tool), r))"
proof -
  define reply where "reply = call_text (\<lambda>_. True) result tool"
  define flag where "flag = (if call_failed result then ''false'' else ''true'')"
  define kr where "kr = (if call_failed result then ''error'' else ''result'')"
  define v3 where "v3 = quoted_text tool @ ''}''"
  define v2 where "v2 = quoted_text result @ CHR '','' # key_part ''tool'' @ v3"
  define v1 where "v1 = flag @ CHR '','' # key_part kr @ v2"
  have R: "reply = CHR ''{'' # key_part ''ok'' @ v1"
    by (simp add: reply_def call_text_shape call_head_def v1_def v2_def v3_def flag_def kr_def)
  have hd: "v1 \<noteq> []" "\<not> json_ws (hd v1)" "v2 \<noteq> []" "\<not> json_ws (hd v2)" "v3 \<noteq> []" "\<not> json_ws (hd v3)"
    using quoted_text_hd by (simp_all add: v1_def flag_def v2_def v3_def json_ws_def)
  have "jskip_value v1 = Some (CHR '','' # key_part kr @ v2)"
    by (simp add: v1_def flag_def jskip_value_def jws_id json_ws_def json_stop_def Let_def)
  note f1 = jfind_key [OF _ _ _ hd(1,2) this]
  have s2: "jskip_value v2 = Some (CHR '','' # key_part ''tool'' @ v3)" by (simp add: v2_def jskip_quoted_text)
  note f2 = jfind_key [OF _ _ _ hd(3,4) s2]
  have s3: "jskip_value v3 = Some (CHR ''}'' # [])" by (simp add: v3_def jskip_quoted_text)
  note f3 = jfind_key [OF _ _ _ hd(5,6) s3]
  note k = reply_keys [of "''ok''"] reply_keys [of kr] reply_keys [of "''tool''"]
  have kr: "kr \<in> {''error'', ''result''}" by (simp add: kr_def)
  have open': "jfind_value (reply) x = jfind_loop (key_part ''ok'' @ v1) x" for x
    by (simp add: R jfind_value_def jws_id json_ws_def)
  have "jfind_value (reply) ''ok'' = Some v1" unfolding open' using f1 [of "''ok''" "''ok''"] k by (simp add: json_ws_def)
  moreover have "jfind_value (reply) kr = Some v2"
    unfolding open' using f1 [of "''ok''" kr] f2 [of kr kr] k kr by (auto simp: json_ws_def)
  moreover have "jfind_value (reply) ''tool'' = Some v3"
    unfolding open' using f1 [of "''ok''" "''tool''"] f2 [of kr "''tool''"] f3 [of "''tool''" "''tool''"] k kr by (auto simp: json_ws_def)
  ultimately show ?thesis unfolding reply_def kr_def using jread_quoted_text [of n] by (auto simp: v1_def flag_def v2_def v3_def)
qed

text \<open>A call without a body is read through a null pointer, which ends the worker.\<close>

lemma call_without_body_crashes:
  "rq_body req = None \<Longrightarrow> rq_path req = ''/react/api/tools/call'' \<Longrightarrow> \<not> is_public_path public_paths (Some (rq_path req)) \<Longrightarrow>
   request_is_same_origin req \<Longrightarrow> tools_api_handle w runner alloc public_paths req resp st = None"
  by (simp add: tools_api_handle_def origin_ok_def)

end
