(* ===== verification/Router.thy ===== *)
theory Router
  imports Mcp_Config
begin

text \<open>
  The catalogue of a remote router, \<open>src/src/core/router.c\<close>: at start the server asks the router for its MCP servers, its
  skills and its tools, writes a configuration and skill files, and keeps a table of tools that are run by the router.
  What the code does to the outside is a trace of actions; clock, \<open>curl\<close>, directories and files answer as functions of
  the trace so far.  Messages on standard output and error are left out, and single strings can always be allocated.
\<close>

definition ROUTER_JSON_MAX :: nat where "ROUTER_JSON_MAX = 1024 * 1024"
definition ROUTER_PATH_MAX :: nat where "ROUTER_PATH_MAX = 1024"
definition ROUTER_TOOL_MAX :: nat where "ROUTER_TOOL_MAX = 64"
definition ROUTER_SYNC_BUDGET_DEFAULT :: int where "ROUTER_SYNC_BUDGET_DEFAULT = 10"

datatype router_act = RClock int | RCurl "string list" | RMkdir string | RWrite string string

text \<open>
  \<open>rw_curl\<close>: what the parent reads from the pipe, \<open>None\<close> when there is no pipe or no child; \<open>rw_mkdir\<close>: the directory
  is there afterwards; \<open>rw_open\<close>, \<open>rw_close\<close>: \<open>fopen\<close> for writing and \<open>fclose\<close> succeed; \<open>rw_env\<close>: the environment
  after \<open>llm_env_init\<close>.
\<close>

datatype pipe_read = PBytes string | PIntr | PFailed | PEof

record router_world =
  rw_now :: "router_act list \<Rightarrow> int"
  rw_curl :: "router_act list \<Rightarrow> string list \<Rightarrow> pipe_read list option"
  rw_mkdir :: "router_act list \<Rightarrow> string \<Rightarrow> bool"
  rw_open :: "router_act list \<Rightarrow> string \<Rightarrow> bool"
  rw_close :: "router_act list \<Rightarrow> string \<Rightarrow> bool"
  rw_env :: "string \<Rightarrow> string option"
  rw_alloc :: "nat \<Rightarrow> bool"

record RouterTool =
  rt_name :: string
  rt_desc :: string
  rt_params :: string

text \<open>The deadline of the running synchronisation (0: none), the table of tools and the trace.\<close>

record router_state =
  g_sync_deadline :: int
  g_router_tools :: "RouterTool list"
  g_trace :: "router_act list"

definition log_act :: "router_act \<Rightarrow> router_state \<Rightarrow> router_state" where
  "log_act a st = st\<lparr>g_trace := g_trace st @ [a]\<rparr>"

definition now_s :: "router_world \<Rightarrow> router_state \<Rightarrow> int \<times> router_state" where
  "now_s w st = (let t = rw_now w (g_trace st) in (t, log_act (RClock t) st))"

definition sync_budget_expired :: "router_world \<Rightarrow> router_state \<Rightarrow> bool \<times> router_state" where
  "sync_budget_expired w st =
     (if g_sync_deadline st = 0 then (False, st)
      else case now_s w st of (t, st') \<Rightarrow> (t \<ge> g_sync_deadline st, st'))"

definition sync_seconds_left :: "router_world \<Rightarrow> router_state \<Rightarrow> int \<times> router_state" where
  "sync_seconds_left w st =
     (if g_sync_deadline st = 0 then (8, st)
      else case now_s w st of
             (t, st') \<Rightarrow>
               let left = g_sync_deadline st - t in (if left < 1 then 0 else wrap32 left, st'))"

section \<open>Requests\<close>

text \<open>A variable that is unset or empty.\<close>

definition nonempty :: "string option \<Rightarrow> string option" where
  "nonempty v = (case v of Some (c # s) \<Rightarrow> Some (c # s) | _ \<Rightarrow> None)"

definition router_base :: "router_world \<Rightarrow> string option" where
  "router_base w = (case nonempty (rw_env w ''ROUTER_API_URL'') of Some u \<Rightarrow> Some u | None \<Rightarrow> rw_env w ''LLM_API_URL'')"

definition curl_argv :: "string \<Rightarrow> string \<Rightarrow> int \<Rightarrow> string option \<Rightarrow> string list" where
  "curl_argv url auth left post_body =
     (let mt = int_dec (if left > 8 then 8 else if left < 1 then 1 else left);
          start = [''curl'', ''-sS'', ''--http1.1'', ''-L'', ''--max-time'', mt, ''--proto'', ''=http,https'']
      in case post_body of
           Some b \<Rightarrow> start @ [''-X'', ''POST'', ''-H'', auth, ''-H'', ''Content-Type: application/json'', ''-d'', b, url]
         | None \<Rightarrow> start @ [''-H'', auth, url])"

fun curl_read :: "(nat \<Rightarrow> bool) \<Rightarrow> pipe_read list \<Rightarrow> sbuf \<times> nat \<Rightarrow> sbuf" where
  "curl_read alloc [] (b, n) = b"
| "curl_read alloc (r # rs) (b, n) =
     (case r of
        PIntr \<Rightarrow> curl_read alloc rs (b, n)
      | PFailed \<Rightarrow> b
      | PEof \<Rightarrow> b
      | PBytes chunk \<Rightarrow>
          (let b' = sb_mem alloc b chunk; n' = n + length chunk
           in if n' \<ge> ROUTER_JSON_MAX then b' else curl_read alloc rs (b', n')))"

definition router_curl_exec ::
  "router_world \<Rightarrow> string \<Rightarrow> string \<Rightarrow> int \<Rightarrow> string option \<Rightarrow> router_state \<Rightarrow> string option \<times> router_state" where
  "router_curl_exec w url auth left post_body st =
     (let argv = curl_argv url auth left post_body
      in case rw_curl w (g_trace st) argv of
           None \<Rightarrow> (None, st)
         | Some reads \<Rightarrow>
             let b = curl_read (rw_alloc w) reads (zero_sbuf, 0); st' = log_act (RCurl argv) st
             in if sb_oom b \<or> cstr (sb_text b) = [] then (None, st') else (Some (cstr (sb_text b)), st'))"

definition router_auth :: "string \<Rightarrow> string" where
  "router_auth key = ''Authorization: Bearer '' @ key"

definition router_get :: "router_world \<Rightarrow> string \<Rightarrow> router_state \<Rightarrow> string option \<times> router_state" where
  "router_get w endpoint st =
     (case (nonempty (router_base w), nonempty (rw_env w ''LLM_API_KEY'')) of
        (Some base, Some key) \<Rightarrow>
          (case sync_budget_expired w st of
             (True, st1) \<Rightarrow> (None, st1)
           | (False, st1) \<Rightarrow>
               (case sync_seconds_left w st1 of
                  (left, st2) \<Rightarrow>
                    let url = base @ ''/'' @ endpoint; auth = router_auth key
                    in if left < 1 then (None, st2)
                       else if length url \<ge> ROUTER_PATH_MAX then (None, st2)
                       else if length auth \<ge> 256 then (None, st2)
                       else router_curl_exec w url auth left None st2))
      | _ \<Rightarrow> (None, st))"

section \<open>Lists of objects\<close>

text \<open>The bytes of the object at the start of a text: braces are counted, wherever they stand.\<close>

fun brace_scan :: "string \<Rightarrow> int \<Rightarrow> nat" where
  "brace_scan [] depth = 0"
| "brace_scan (c # q) depth =
     (if c = CHR ''{'' then Suc (brace_scan q (depth + 1))
      else if c = CHR ''}'' then (if depth - 1 = 0 then 1 else Suc (brace_scan q (depth - 1)))
      else Suc (brace_scan q depth))"

definition grab_object :: "string \<Rightarrow> nat option" where
  "grab_object p = (let slen = brace_scan p 0 in if slen \<ge> 4096 then None else Some slen)"

text \<open>
  The loop over an array: the objects it takes, with \<open>grab\<close> for the length of the one at the start (\<open>None\<close> or 0: the
  loop ends there).
\<close>

function cat_objects :: "(string \<Rightarrow> nat option) \<Rightarrow> string \<Rightarrow> string list" where
  "cat_objects grab p0 =
     (case jws p0 of
        [] \<Rightarrow> []
      | c # p \<Rightarrow>
          if c = CHR '']'' then []
          else if c = CHR '','' then cat_objects grab p
          else if c \<noteq> CHR ''{'' then []
          else (case grab (c # p) of
                  None \<Rightarrow> []
                | Some n \<Rightarrow> if n = 0 then [] else take n (c # p) # cat_objects grab (drop n (c # p))))"
  by pat_completeness auto
termination
proof (relation "measure (\<lambda>(grab, p). length p)", simp, goal_cases)
  case (1 grab p0 c p)
  then show ?case using length_jws [of p0] by simp
next
  case (2 grab p0 c p n)
  then show ?case using length_jws [of p0] by simp
qed

declare cat_objects.simps [simp del]

text \<open>The text behind the bracket of the array under a key.\<close>

definition array_under :: "string \<Rightarrow> string \<Rightarrow> string option" where
  "array_under json key =
     (case jfind_value json key of Some (c # p) \<Rightarrow> if c = CHR ''['' then Some p else None | _ \<Rightarrow> None)"

section \<open>Skills\<close>

record RouterSkill =
  rs_name :: string
  rs_desc :: string

text \<open>The index of the last byte that is no continuation byte, or 0.\<close>

fun lead_index :: "string \<Rightarrow> nat \<Rightarrow> nat" where
  "lead_index s i = (if i > 0 \<and> 0x80 \<le> code (s ! i) \<and> code (s ! i) < 0xC0 then lead_index s (i - 1) else i)"

declare lead_index.simps [simp del]

definition lead_width :: "nat \<Rightarrow> nat" where
  "lead_width b = (if b \<ge> 0xF0 then 4 else if b \<ge> 0xE0 then 3 else if b \<ge> 0xC2 then 2 else 1)"

definition utf8_trim_tail :: "string \<Rightarrow> string" where
  "utf8_trim_tail s =
     (if s = [] then []
      else let n = length s; i = lead_index s (n - 1)
           in if i + lead_width (code (s ! i)) \<noteq> n then take i s else s)"

definition parse_skill :: "string \<Rightarrow> RouterSkill option" where
  "parse_skill obj =
     (case read_jstr 256 (jfind_value obj ''name'') of
        Text name \<Rightarrow>
          Some \<lparr>rs_name = name,
                rs_desc = (case read_jstr 512 (jfind_value obj ''description'') of Text d \<Rightarrow> utf8_trim_tail d | _ \<Rightarrow> [])\<rparr>
      | _ \<Rightarrow> None)"

definition parse_skills :: "string \<Rightarrow> RouterSkill list" where
  "parse_skills json =
     (case array_under json ''skills'' of
        None \<Rightarrow> []
      | Some p \<Rightarrow> List.map_filter parse_skill (cat_objects grab_object p))"

text \<open>The file of a skill; \<open>body\<close> is the JSON text from the value on.\<close>

definition skill_body :: "string \<Rightarrow> string" where
  "skill_body body =
     (if hd body = DQUOTE then
        (case jread_string (length body) body of Some (plain, _) \<Rightarrow> cstr plain | None \<Rightarrow> tl body)
      else body)"

definition skill_text :: "string \<Rightarrow> string \<Rightarrow> string \<Rightarrow> string" where
  "skill_text name desc body =
     ''---'' @ [LF] @ ''name: '' @ name @ [LF] @
     (if desc = [] then []
      else ''description: '' @ map (\<lambda>d. if d = LF \<or> d = CR then CHR '' '' else d) desc @ [LF]) @
     ''---'' @ [LF, LF] @ skill_body body"

fun mkdirs :: "router_world \<Rightarrow> string list \<Rightarrow> router_state \<Rightarrow> bool \<times> router_state" where
  "mkdirs w [] st = (True, st)"
| "mkdirs w (d # ds) st =
     (let ok = rw_mkdir w (g_trace st) d; st' = log_act (RMkdir d) st
      in if ok then mkdirs w ds st' else (False, st'))"

definition skill_dir :: "string \<Rightarrow> string" where
  "skill_dir name = ''skills/router/'' @ name"

definition materialize_skill ::
  "router_world \<Rightarrow> string \<Rightarrow> string \<Rightarrow> string \<Rightarrow> router_state \<Rightarrow> bool \<times> router_state" where
  "materialize_skill w name desc body st =
     (let dir = skill_dir name; path = dir @ ''/SKILL.md''
      in if name = [] \<or> body = [] then (False, st)
         else if CHR ''/'' \<in> set name \<or> BSLASH \<in> set name \<or> strstr name ''..'' \<noteq> None then (False, st)
         else if length dir \<ge> ROUTER_PATH_MAX then (False, st)
         else case mkdirs w [''skills'', ''skills/router'', dir] st of
                (False, st1) \<Rightarrow> (False, st1)
              | (True, st1) \<Rightarrow>
                  if length path \<ge> ROUTER_PATH_MAX then (False, st1)
                  else if \<not> rw_open w (g_trace st1) path then (False, st1)
                  else let st2 = log_act (RWrite path (skill_text name desc body)) st1
                       in (rw_close w (g_trace st2) path, st2))"

definition skill_endpoint :: "string \<Rightarrow> string" where
  "skill_endpoint name = ''skills/'' @ name"

text \<open>One skill: counters of those written and those not allowed, and the state.\<close>

definition sync_skill :: "router_world \<Rightarrow> (nat \<times> nat) \<times> router_state \<Rightarrow> RouterSkill \<Rightarrow> (nat \<times> nat) \<times> router_state" where
  "sync_skill w cs s =
     (case cs of
        ((ok, skipped), st) \<Rightarrow>
          if \<not> skill_allowed (rw_env w ''HARNESS_SKILLS_ALLOW'') (rs_name s) then ((ok, skipped + 1), st)
          else if length (skill_endpoint (rs_name s)) \<ge> ROUTER_PATH_MAX then ((ok, skipped), st)
          else case router_get w (skill_endpoint (rs_name s)) st of
                 (None, st1) \<Rightarrow> ((ok, skipped), st1)
               | (Some body, st1) \<Rightarrow>
                   (case jfind_value body ''body'' of
                      Some (c # v) \<Rightarrow>
                        if c = DQUOTE then
                          (case materialize_skill w (rs_name s) (rs_desc s) (c # v) st1 of
                             (wrote, st2) \<Rightarrow> ((if wrote then ok + 1 else ok, skipped), st2))
                        else ((ok, skipped), st1)
                    | _ \<Rightarrow> ((ok, skipped), st1)))"

definition sync_skills :: "router_world \<Rightarrow> router_state \<Rightarrow> (nat \<times> nat) \<times> router_state" where
  "sync_skills w st =
     (case router_get w ''skills'' st of
        (None, st1) \<Rightarrow> ((0, 0), st1)
      | (Some json, st1) \<Rightarrow> foldl (sync_skill w) ((0, 0), st1) (parse_skills json))"

section \<open>MCP servers\<close>

record RouterMcpTemplate =
  tpl_id :: string
  tpl_command :: string
  tpl_args :: string

definition k_known_mcps :: "RouterMcpTemplate list" where
  "k_known_mcps =
     [\<lparr>tpl_id = ''fs'', tpl_command = ''npx'', tpl_args = ''-y @modelcontextprotocol/server-filesystem@2026.8.31 $FSROOT''\<rparr>,
      \<lparr>tpl_id = ''think'', tpl_command = ''npx'', tpl_args = ''-y @modelcontextprotocol/server-sequential-thinking@2026.8.31''\<rparr>,
      \<lparr>tpl_id = ''memory'', tpl_command = ''npx'', tpl_args = ''-y @modelcontextprotocol/server-memory@2026.8.31''\<rparr>]"

definition template_args :: "router_world \<Rightarrow> RouterMcpTemplate \<Rightarrow> string option" where
  "template_args w t =
     (case strstr (tpl_args t) ''$FSROOT'' of
        Some ph \<Rightarrow>
          (case nonempty (rw_env w ''MCP_FS_ROOT'') of
             None \<Rightarrow> None
           | Some root \<Rightarrow>
               let pre = length (tpl_args t) - length ph
               in if pre + length root + length (drop 7 ph) \<ge> ROUTER_PATH_MAX then None
                  else Some (take pre (tpl_args t) @ root @ drop 7 ph))
      | None \<Rightarrow> if length (tpl_args t) \<ge> ROUTER_PATH_MAX then None else Some (tpl_args t))"

definition mcp_line_pieces :: "string \<Rightarrow> string \<Rightarrow> string \<Rightarrow> string list" where
  "mcp_line_pieces name command args =
     [''  {'' @ json_quote ''id'' @ '': ''] @ json_pieces name @
     ['', '' @ json_quote ''transport'' @ '': '' @ json_quote ''stdio'' @ '', '' @ json_quote ''command'' @ '': ''] @ json_pieces command @
     ['', '' @ json_quote ''args'' @ '': ''] @ json_pieces args @
     ['', '' @ json_quote ''approval'' @ '': false}'']"

text \<open>The line an object of the list leads to, if any.\<close>

definition mcp_line :: "router_world \<Rightarrow> string \<Rightarrow> string option" where
  "mcp_line w obj =
     (case read_jstr 128 (jfind_value obj ''name'') of
        Text name \<Rightarrow>
          if name = [] then None
          else (case find (\<lambda>t. tpl_id t = name) k_known_mcps of
                  None \<Rightarrow> None
                | Some t \<Rightarrow>
                    map_option
                      (\<lambda>args. sb_text (foldl (sb_mem (rw_alloc w)) zero_sbuf (mcp_line_pieces name (tpl_command t) args)))
                      (template_args w t))
      | _ \<Rightarrow> None)"

fun sep_lines :: "bool \<Rightarrow> string list \<Rightarrow> string" where
  "sep_lines wrote [] = []"
| "sep_lines wrote (l # ls) = (if wrote then '','' @ [LF] else []) @ l @ sep_lines True ls"

definition mcps_file :: "router_world \<Rightarrow> string \<Rightarrow> string" where
  "mcps_file w p = ''['' @ [LF] @ sep_lines False (List.map_filter (mcp_line w) (cat_objects grab_object p)) @ [LF] @ '']'' @ [LF]"

definition router_mcp_path :: string where
  "router_mcp_path = ''.data/mcp-servers-router.json''"

definition sync_mcps :: "router_world \<Rightarrow> router_state \<Rightarrow> router_state" where
  "sync_mcps w st =
     (case router_get w ''mcps'' st of
        (None, st1) \<Rightarrow> st1
      | (Some json, st1) \<Rightarrow>
          (case array_under json ''mcps'' of
             None \<Rightarrow> st1
           | Some p \<Rightarrow>
               if \<not> rw_open w (g_trace st1) router_mcp_path then st1
               else log_act (RWrite router_mcp_path (mcps_file w p)) st1))"

section \<open>Tools\<close>

text \<open>The text behind the quote that ends a string, from inside it.\<close>

fun string_rest :: "string \<Rightarrow> string option" where
  "string_rest [] = None"
| "string_rest (c # q) =
     (if c = DQUOTE then Some q
      else if c = BSLASH \<and> q \<noteq> [] then string_rest (tl q)
      else string_rest q)"

lemma string_rest_shorter: "string_rest p = Some q \<Longrightarrow> length q < length p"
proof (induction p rule: string_rest.induct)
  case (2 c p)
  then show ?case by (cases p) (auto split: if_splits)
qed simp

text \<open>The text behind the object at the start of a text; strings are passed over.\<close>

function tool_rest :: "string \<Rightarrow> int \<Rightarrow> string option" where
  "tool_rest [] depth = None"
| "tool_rest (c # q) depth =
     (if c = DQUOTE then (case string_rest q of None \<Rightarrow> None | Some r \<Rightarrow> tool_rest r depth)
      else if c = CHR ''{'' then tool_rest q (depth + 1)
      else if c = CHR ''}'' then (if depth - 1 = 0 then Some q else tool_rest q (depth - 1))
      else tool_rest q depth)"
  by pat_completeness auto
termination
  by (relation "measure (\<lambda>(p, depth). length p)") (auto dest: string_rest_shorter)

definition grab_tool :: "string \<Rightarrow> nat option" where
  "grab_tool p = map_option (\<lambda>r. length p - length r) (tool_rest p 0)"

definition json_string_dup :: "string \<Rightarrow> string \<Rightarrow> string option" where
  "json_string_dup obj key =
     (case jfind_value obj key of
        None \<Rightarrow> None
      | Some v \<Rightarrow>
          if v = [] \<or> hd v \<noteq> DQUOTE then None
          else map_option (\<lambda>r. cstr (fst r)) (jread_string (length v + 1) v))"

definition json_value_dup :: "string \<Rightarrow> string \<Rightarrow> string option" where
  "json_value_dup obj key =
     (case jfind_value obj key of
        None \<Rightarrow> None
      | Some v \<Rightarrow> map_option (\<lambda>q. take (length v - length q) v) (jskip_value v))"

definition add_router_tool :: "RouterTool list \<Rightarrow> string \<Rightarrow> RouterTool list" where
  "add_router_tool tools obj =
     (if length tools \<ge> ROUTER_TOOL_MAX then tools
      else case nonempty (json_string_dup obj ''name'') of
             None \<Rightarrow> tools
           | Some name \<Rightarrow>
               if (case json_string_dup obj ''source'' of Some source \<Rightarrow> take 4 source = ''mcp:'' | None \<Rightarrow> False) then tools
               else tools @ [\<lparr>rt_name = name,
                               rt_desc = (case json_string_dup obj ''description'' of Some d \<Rightarrow> d | None \<Rightarrow> []),
                               rt_params = (case json_value_dup obj ''parameters'' of Some p \<Rightarrow> p | None \<Rightarrow> ''{}'')\<rparr>])"

definition sync_tools :: "router_world \<Rightarrow> router_state \<Rightarrow> router_state" where
  "sync_tools w st =
     (case router_get w ''tools'' st of
        (None, st1) \<Rightarrow> st1
      | (Some json, st1) \<Rightarrow>
          (case array_under json ''tools'' of
             None \<Rightarrow> st1\<lparr>g_router_tools := []\<rparr>
           | Some p \<Rightarrow> st1\<lparr>g_router_tools := foldl add_router_tool [] (cat_objects grab_tool p)\<rparr>))"

definition invoke_pieces :: "string \<Rightarrow> string option \<Rightarrow> string list" where
  "invoke_pieces tool args =
     [CHR ''{'' # jkey ''name''] @ json_pieces tool @ [CHR '','' # jkey ''args''] @
     [case nonempty args of Some a \<Rightarrow> a | None \<Rightarrow> ''{}''] @ [''}'']"

definition router_invoke ::
  "router_world \<Rightarrow> string \<Rightarrow> string option \<Rightarrow> router_state \<Rightarrow> string option \<times> router_state" where
  "router_invoke w tool args st =
     (case (nonempty (router_base w), nonempty (rw_env w ''LLM_API_KEY'')) of
        (Some base, Some key) \<Rightarrow>
          (case sync_seconds_left w st of
             (left0, st1) \<Rightarrow>
               let left = (if left0 < 1 then 8 else left0); url = base @ ''/tools/invoke''; auth = router_auth key;
                   body = foldl (sb_mem (rw_alloc w)) zero_sbuf (invoke_pieces tool args)
               in if length url \<ge> ROUTER_PATH_MAX then (None, st1)
                  else if length auth \<ge> 256 then (None, st1)
                  else if sb_oom body then (None, st1)
                  else router_curl_exec w url auth left (Some (sb_text body)) st1)
      | _ \<Rightarrow> (None, st))"

text \<open>What the tool writes for the model: the pieces it appends.\<close>

definition tool_rejected :: "string \<Rightarrow> string \<Rightarrow> string list" where
  "tool_rejected tool r =
     [''error: router tool '' @ [CHR 0x27], tool, CHR 0x27 # '' rejected''] @
     (case jfind_value r ''error'' of
        None \<Rightarrow> []
      | Some ev \<Rightarrow>
          (case read_jstr 256 (jfind_value ev ''message'') of
             Text msg \<Rightarrow> ['': '', msg]
           | _ \<Rightarrow> []))"

definition tool_answer :: "string \<Rightarrow> string option \<Rightarrow> string list" where
  "tool_answer tool resp =
     (case resp of
        None \<Rightarrow> [''error: router tool '' @ [CHR 0x27], tool, CHR 0x27 # '' failed (router unreachable or timed out)'']
      | Some r \<Rightarrow>
          (case jfind_value r ''result'' of
             Some (c # v) \<Rightarrow>
               if c = DQUOTE then
                 (case jread_string (length (c # v) + 1) (c # v) of
                    Some (plain, _) \<Rightarrow> [cstr plain]
                  | None \<Rightarrow> [''error: malformed response from router tool '' @ [CHR 0x27], tool, [CHR 0x27]])
               else tool_rejected tool r
           | _ \<Rightarrow> tool_rejected tool r))"

definition router_tool_proxy ::
  "router_world \<Rightarrow> string \<Rightarrow> string option \<Rightarrow> sbuf \<Rightarrow> router_state \<Rightarrow> sbuf \<times> router_state" where
  "router_tool_proxy w tool args out st =
     (case router_invoke w tool args st of
        (resp, st') \<Rightarrow> (foldl (sb_str (rw_alloc w)) out (tool_answer tool resp), st'))"

text \<open>
  The number of tools the registry took, and the registry; \<open>proxy\<close> is the function of the tool with a name, \<open>None\<close> a
  read behind a string while the registry copies it.
\<close>

fun router_register_tools ::
  "string option \<Rightarrow> (string \<Rightarrow> 'f) \<Rightarrow> RouterTool list \<Rightarrow> nat \<times> 'f registry \<Rightarrow> (nat \<times> 'f registry) option" where
  "router_register_tools profile proxy [] (ok, reg) = Some (ok, reg)"
| "router_register_tools profile proxy (t # ts) (ok, reg) =
     (case tools_register profile (Some (rt_name t)) (Some (rt_desc t)) (Some (rt_params t)) (Some (proxy (rt_name t))) reg of
        None \<Rightarrow> None
      | Some (rc, reg') \<Rightarrow> router_register_tools profile proxy ts (if rc = 0 then ok + 1 else ok, reg'))"

definition sync_budget :: "router_world \<Rightarrow> int" where
  "sync_budget w = (case rw_env w ''ROUTER_SYNC_BUDGET_SECONDS'' of Some b \<Rightarrow> atoi b | None \<Rightarrow> ROUTER_SYNC_BUDGET_DEFAULT)"

text \<open>The deadline is armed for the three parts and taken away afterwards.\<close>

definition arm_budget :: "router_world \<Rightarrow> router_state \<Rightarrow> router_state" where
  "arm_budget w st =
     (if sync_budget w > 0 then (case now_s w st of (t, st') \<Rightarrow> st'\<lparr>g_sync_deadline := t + sync_budget w\<rparr>)
      else st\<lparr>g_sync_deadline := 0\<rparr>)"

definition router_sync_all :: "router_world \<Rightarrow> router_state \<Rightarrow> router_state" where
  "router_sync_all w st =
     (if nonempty (router_base w) = None then st
      else case mkdirs w [''.data''] st of
             (False, st1) \<Rightarrow> st1
           | (True, st1) \<Rightarrow>
               (sync_tools w (snd (sync_skills w (sync_mcps w (arm_budget w st1)))))\<lparr>g_sync_deadline := 0\<rparr>)"

section \<open>What a synchronisation does to the outside\<close>

text \<open>
  The contract of the parts of a synchronisation.  \<open>Q\<close> is a law about pieces of the trace that holds for the empty
  piece and for two pieces one after the other, and that a request, the storing of an allowed skill and the writing of
  the configuration keep; then the three parts keep it.  \<open>D\<close> is the deadline all of them see.
\<close>

definition extends :: "(router_act list \<Rightarrow> bool) \<Rightarrow> router_state \<Rightarrow> router_state \<Rightarrow> bool" where
  "extends Q st st' \<longleftrightarrow> g_sync_deadline st' = g_sync_deadline st \<and> (\<exists>acts. g_trace st' = g_trace st @ acts \<and> Q acts)"

text \<open>What a synchronisation asks the router for: the three lists, and one text per allowed skill.\<close>

definition sync_endpoint :: "router_world \<Rightarrow> string \<Rightarrow> bool" where
  "sync_endpoint w ep \<longleftrightarrow> ep \<in> set [''mcps'', ''skills'', ''tools''] \<or>
     (\<exists>n. ep = ''skills/'' @ n \<and> skill_allowed (rw_env w ''HARNESS_SKILLS_ALLOW'') n)"

locale trace_law =
  fixes w :: router_world and D :: int and Q :: "router_act list \<Rightarrow> bool"
  assumes law_nil: "Q []"
    and law_append: "Q xs \<Longrightarrow> Q ys \<Longrightarrow> Q (xs @ ys)"
    and law_get: "sync_endpoint w ep \<Longrightarrow> g_sync_deadline st = D \<Longrightarrow> router_get w ep st = (r, st') \<Longrightarrow> extends Q st st'"
    and law_store: "skill_allowed (rw_env w ''HARNESS_SKILLS_ALLOW'') name \<Longrightarrow>
      materialize_skill w name desc body st = (b, st') \<Longrightarrow> extends Q st st'"
    and law_config: "Q [RWrite router_mcp_path c]"
begin

lemma law_list: "ep \<in> set [''mcps'', ''skills'', ''tools''] \<Longrightarrow> g_sync_deadline st = D \<Longrightarrow> router_get w ep st = (r, st') \<Longrightarrow> extends Q st st'"
  by (rule law_get) (simp_all add: sync_endpoint_def)

lemma extends_refl: "extends Q st st"
  by (simp add: extends_def law_nil)

lemma extends_trans: "extends Q st st' \<Longrightarrow> extends Q st' st'' \<Longrightarrow> extends Q st st''"
  by (auto simp: extends_def intro: law_append)

lemma extends_deadline: "extends Q st st' \<Longrightarrow> g_sync_deadline st' = g_sync_deadline st"
  by (simp add: extends_def)

lemma mcps_extend:
  assumes "g_sync_deadline st = D"
  shows "extends Q st (sync_mcps w st)"
proof -
  obtain r st1 where g: "router_get w ''mcps'' st = (r, st1)" by fastforce
  have "extends Q st1 (log_act (RWrite router_mcp_path c) st1)" for c
    by (simp add: extends_def log_act_def law_config)
  with law_list [OF _ assms g] show ?thesis
    by (auto simp: sync_mcps_def g intro: extends_trans split: option.split)
qed

lemma skill_extends:
  assumes "g_sync_deadline st = D" and "sync_skill w (n, st) s = (n', st')"
  shows "extends Q st st'"
proof -
  obtain r st1 where g: "router_get w (skill_endpoint (rs_name s)) st = (r, st1)" by fastforce
  have m: "extends Q st1 st2"
    if "skill_allowed (rw_env w ''HARNESS_SKILLS_ALLOW'') (rs_name s)" "materialize_skill w (rs_name s) (rs_desc s) v st1 = (b, st2)" for v b st2
    using law_store [OF that] .
  have e: "extends Q st st1" if "skill_allowed (rw_env w ''HARNESS_SKILLS_ALLOW'') (rs_name s)"
    by (rule law_get [OF _ assms(1) g]) (use that in \<open>simp add: sync_endpoint_def skill_endpoint_def\<close>)
  show ?thesis using assms(2) extends_refl [of st] e extends_trans [OF e m]
    by (cases n) (auto simp: sync_skill_def g split: if_splits option.splits list.splits prod.splits)
qed

lemma skill_list_extends:
  "g_sync_deadline st = D \<Longrightarrow> extends Q st (snd (foldl (sync_skill w) (n, st) ss))"
proof (induction ss arbitrary: n st)
  case (Cons s ss)
  obtain n' st' where s: "sync_skill w (n, st) s = (n', st')" by fastforce
  note e = skill_extends [OF Cons(2) s]
  then have "g_sync_deadline st' = D" using extends_deadline [OF e] Cons(2) by simp
  from extends_trans [OF e Cons(1) [OF this]] show ?case by (simp add: s)
qed (simp add: extends_refl)

lemma skills_extend:
  assumes "g_sync_deadline st = D"
  shows "extends Q st (snd (sync_skills w st))"
proof -
  obtain r st1 where g: "router_get w ''skills'' st = (r, st1)" by fastforce
  have e: "extends Q st st1" by (rule law_list [OF _ assms g]) simp
  then have "g_sync_deadline st1 = D" using extends_deadline [OF e] assms by simp
  from extends_trans [OF e skill_list_extends [OF this]] e show ?thesis
    by (simp add: sync_skills_def g split: option.split)
qed

lemma tools_extend:
  assumes "g_sync_deadline st = D"
  shows "extends Q st (sync_tools w st)"
proof -
  obtain r st1 where g: "router_get w ''tools'' st = (r, st1)" by fastforce
  have "extends Q st st1" by (rule law_list [OF _ assms g]) simp
  then show ?thesis
    by (simp add: sync_tools_def g extends_def split: option.split)
qed

lemma parts_extend:
  assumes "g_sync_deadline st = D"
  shows "extends Q st (sync_tools w (snd (sync_skills w (sync_mcps w st))))"
proof -
  note m = mcps_extend [OF assms]
  then have d1: "g_sync_deadline (sync_mcps w st) = D" using assms extends_deadline by simp
  note s = skills_extend [OF d1]
  then have "g_sync_deadline (snd (sync_skills w (sync_mcps w st))) = D" using d1 extends_deadline by simp
  from extends_trans [OF m extends_trans [OF s tools_extend [OF this]]] show ?thesis .
qed

end

text \<open>
  The first law: which requests, directories and files there are.  A request is the argument vector \<open>curl\<close> is started with; what
  \<open>curl\<close> does on a redirect (the vector has \<open>-L\<close>) is its own.
\<close>

definition safe_name :: "string \<Rightarrow> bool" where
  "safe_name n \<longleftrightarrow> n \<noteq> [] \<and> CHR ''/'' \<notin> set n \<and> BSLASH \<notin> set n \<and> strstr n ''..'' = None"

definition skill_permitted :: "router_world \<Rightarrow> string \<Rightarrow> bool" where
  "skill_permitted w n \<longleftrightarrow> safe_name n \<and> skill_allowed (rw_env w ''HARNESS_SKILLS_ALLOW'') n"

definition request_to_base :: "router_world \<Rightarrow> string list \<Rightarrow> bool" where
  "request_to_base w argv \<longleftrightarrow>
     (\<exists>base key ep left. router_base w = Some base \<and> rw_env w ''LLM_API_KEY'' = Some key \<and> 1 \<le> left \<and> sync_endpoint w ep \<and>
        argv = curl_argv (base @ ''/'' @ ep) (router_auth key) left None)"

definition act_permitted :: "router_world \<Rightarrow> router_act \<Rightarrow> bool" where
  "act_permitted w a =
     (case a of
        RClock t \<Rightarrow> True
      | RCurl argv \<Rightarrow> request_to_base w argv
      | RMkdir d \<Rightarrow> d \<in> set [''.data'', ''skills'', ''skills/router''] \<or> (\<exists>n. d = skill_dir n \<and> skill_permitted w n)
      | RWrite p c \<Rightarrow> p = router_mcp_path \<or> (\<exists>n. p = skill_dir n @ ''/SKILL.md'' \<and> skill_permitted w n))"

lemma extends_all:
  "extends (list_all P) st st' \<longleftrightarrow> g_sync_deadline st' = g_sync_deadline st \<and> (\<exists>acts. g_trace st' = g_trace st @ acts \<and> list_all P acts)"
  by (simp add: extends_def)

lemma nonempty_Some: "nonempty v = Some s \<longleftrightarrow> v = Some s \<and> s \<noteq> []"
  by (auto simp: nonempty_def split: option.splits list.splits)

text \<open>A request reads the clock at most twice and starts \<open>curl\<close> at most once, at the end.\<close>

lemma budget_cases:
  obtains (none) "g_sync_deadline st = 0" "sync_budget_expired w st = (False, st)"
  | (clock) t where "g_sync_deadline st \<noteq> 0" "sync_budget_expired w st = (g_sync_deadline st \<le> t, log_act (RClock t) st)"
  by (auto simp: sync_budget_expired_def now_s_def Let_def)

lemma seconds_cases:
  obtains (none) "g_sync_deadline st = 0" "sync_seconds_left w st = (8, st)"
  | (clock) t where "g_sync_deadline st \<noteq> 0"
      "sync_seconds_left w st = (if g_sync_deadline st - t < 1 then 0 else wrap32 (g_sync_deadline st - t), log_act (RClock t) st)"
  by (auto simp: sync_seconds_left_def now_s_def Let_def)

lemma curl_exec_state:
  "snd (router_curl_exec w url auth left b st) = st \<or> snd (router_curl_exec w url auth left b st) = log_act (RCurl (curl_argv url auth left b)) st"
  by (simp add: router_curl_exec_def Let_def split: option.split)

lemma log_act_simps [simp]: "g_sync_deadline (log_act a st) = g_sync_deadline st" "g_trace (log_act a st) = g_trace st @ [a]"
  by (simp_all add: log_act_def)

lemma wrap32_le: "0 \<le> x \<Longrightarrow> wrap32 x \<le> x"
  by (simp add: wrap32_def) (smt (verit) zmod_le_nonneg_dividend pos_mod_bound)

definition clock_act :: "router_act \<Rightarrow> bool" where
  "clock_act a = (case a of RClock t \<Rightarrow> True | _ \<Rightarrow> False)"

text \<open>The pieces of the trace a request may leave when the deadline is \<open>D\<close>.\<close>

definition get_acts :: "router_world \<Rightarrow> int \<Rightarrow> string \<Rightarrow> router_act list \<Rightarrow> bool" where
  "get_acts w D ep acts \<longleftrightarrow>
     list_all clock_act acts \<or>
     (\<exists>cs t base key left. acts = cs @ [RCurl (curl_argv (base @ ''/'' @ ep) (router_auth key) left None)] \<and>
        router_base w = Some base \<and> rw_env w ''LLM_API_KEY'' = Some key \<and> 1 \<le> left \<and> list_all clock_act cs \<and>
        (D = 0 \<or> cs \<noteq> [] \<and> last cs = RClock t \<and> left \<le> D - t))"

lemma get_acts_clocks: "list_all clock_act acts \<Longrightarrow> get_acts w D ep acts"
  by (simp add: get_acts_def)

lemma get_acts_curl:
  assumes "router_base w = Some base" "rw_env w ''LLM_API_KEY'' = Some key" "1 \<le> left" "list_all clock_act cs"
    "D = 0 \<or> cs \<noteq> [] \<and> last cs = RClock t \<and> left \<le> D - t"
  shows "get_acts w D ep (cs @ [RCurl (curl_argv (base @ ''/'' @ ep) (router_auth key) left None)])"
  using assms unfolding get_acts_def by blast

lemma seconds_left_acts:
  assumes "sync_seconds_left w st = (left, st')"
  shows "\<exists>cs t. g_sync_deadline st' = g_sync_deadline st \<and> g_trace st' = g_trace st @ cs \<and> list_all clock_act cs \<and>
    (g_sync_deadline st = 0 \<or> left < 1 \<or> cs = [RClock t] \<and> left \<le> g_sync_deadline st - t)"
proof (cases rule: seconds_cases [of st w])
  case none
  then show ?thesis using assms by auto
next
  case (clock t)
  then show ?thesis using assms wrap32_le [of "g_sync_deadline st - t"]
    by (intro exI [of _ "[RClock t]"] exI [of _ t]) (auto simp: clock_act_def split: if_splits)
qed

lemma curl_exec_acts:
  assumes "router_curl_exec w (base @ ''/'' @ ep) (router_auth key) left None st = (r, st')"
    and "router_base w = Some base" "rw_env w ''LLM_API_KEY'' = Some key" "1 \<le> left" "list_all clock_act cs"
    and "D = 0 \<or> cs \<noteq> [] \<and> last cs = RClock t \<and> left \<le> D - t"
  shows "\<exists>ys. g_sync_deadline st' = g_sync_deadline st \<and> g_trace st' = g_trace st @ ys \<and> get_acts w D ep (cs @ ys)"
  using curl_exec_state [of w "base @ ''/'' @ ep" "router_auth key" left None st] assms(1)
    get_acts_curl [OF assms(2-6)] get_acts_clocks [OF assms(5)]
  by (auto simp del: append_assoc)

lemma router_get_acts:
  assumes "router_get w ep st = (r, st')"
  shows "extends (get_acts w (g_sync_deadline st) ep) st st'"
proof (cases "\<exists>base key. nonempty (router_base w) = Some base \<and> nonempty (rw_env w ''LLM_API_KEY'') = Some key")
  case False
  then have "st' = st" using assms by (auto simp: router_get_def split: option.splits)
  then show ?thesis by (simp add: extends_def get_acts_clocks)
next
  case True
  then obtain base key where bk: "nonempty (router_base w) = Some base" "nonempty (rw_env w ''LLM_API_KEY'') = Some key" by blast
  obtain expired st1 where e: "sync_budget_expired w st = (expired, st1)" by fastforce
  obtain left st2 where l: "sync_seconds_left w st1 = (left, st2)" by fastforce
  obtain c1 where c1: "g_sync_deadline st1 = g_sync_deadline st" "g_trace st1 = g_trace st @ c1" "list_all clock_act c1"
    by (cases rule: budget_cases [of st w]) (use e in \<open>auto simp: clock_act_def\<close>)
  from seconds_left_acts [OF l] obtain c2 t where c2: "g_sync_deadline st2 = g_sync_deadline st1" "g_trace st2 = g_trace st1 @ c2"
    "list_all clock_act c2" "g_sync_deadline st1 = 0 \<or> left < 1 \<or> c2 = [RClock t] \<and> left \<le> g_sync_deadline st1 - t" by blast
  consider "st' = st1" | "st' = st2"
    | "1 \<le> left" "router_curl_exec w (base @ ''/'' @ ep) (router_auth key) left None st2 = (r, st')"
    using assms by (cases expired) (simp_all add: router_get_def bk e l Let_def split: if_splits)
  then show ?thesis
  proof cases
    case 3
    have "g_sync_deadline st = 0 \<or> c1 @ c2 \<noteq> [] \<and> last (c1 @ c2) = RClock t \<and> left \<le> g_sync_deadline st - t"
      using c2(4) c1(1) 3(1) by auto
    from curl_exec_acts [OF 3(2) _ _ 3(1) _ this] bk c1(3) c2(3) obtain ys where
      "g_sync_deadline st' = g_sync_deadline st2" "g_trace st' = g_trace st2 @ ys" "get_acts w (g_sync_deadline st) ep ((c1 @ c2) @ ys)"
      by (auto simp: nonempty_Some)
    then show ?thesis using c1 c2 by (simp add: extends_def)
  qed (use c1 c2 in \<open>auto simp: extends_def intro: get_acts_clocks\<close>)
qed

lemma mkdirs_acts: "mkdirs w ds st = (b, st') \<Longrightarrow> extends (list_all (\<lambda>a. a \<in> RMkdir ` set ds)) st st'"
proof (induction w ds st rule: mkdirs.induct)
  case (2 w d ds st)
  show ?case
  proof (cases "rw_mkdir w (g_trace st) d")
    case True
    with 2 obtain acts where "g_sync_deadline st' = g_sync_deadline st" "g_trace st' = g_trace st @ RMkdir d # acts"
      "list_all (\<lambda>a. a \<in> RMkdir ` set ds) acts"
      by (auto simp: extends_def)
    then show ?thesis by (auto simp: extends_def list_all_iff)
  next
    case False
    then show ?thesis using 2(2) by (auto simp: extends_def)
  qed
qed (simp add: extends_def)

text \<open>What storing a skill does.\<close>

definition store_act :: "string \<Rightarrow> router_act \<Rightarrow> bool" where
  "store_act n a \<longleftrightarrow> safe_name n \<and> (a \<in> RMkdir ` set [''skills'', ''skills/router'', skill_dir n] \<or> (\<exists>c. a = RWrite (skill_dir n @ ''/SKILL.md'') c))"

lemma materialize_acts:
  assumes "materialize_skill w name desc body st = (b, st')"
  shows "extends (list_all (store_act name)) st st'"
proof (cases "safe_name name \<and> st' \<noteq> st")
  case True
  define ds where "ds = [''skills'', ''skills/router'', skill_dir name]"
  obtain ok st1 where m: "mkdirs w ds st = (ok, st1)" by fastforce
  from mkdirs_acts [OF m] obtain acts where a: "g_sync_deadline st1 = g_sync_deadline st" "g_trace st1 = g_trace st @ acts"
    "list_all (\<lambda>a. a \<in> RMkdir ` set ds) acts" by (auto simp: extends_def)
  have s: "list_all (store_act name) acts" using a(3) True by (simp add: store_act_def ds_def list_all_iff)
  have "st' = st1 \<or> (\<exists>c. st' = log_act (RWrite (skill_dir name @ ''/SKILL.md'') c) st1)"
    using assms True m by (cases ok) (simp_all add: materialize_skill_def ds_def [symmetric] Let_def split: if_splits, blast)
  then show ?thesis using a s True by (auto simp: extends_def store_act_def)
next
  case False
  then have "st' = st" using assms by (auto simp: materialize_skill_def safe_name_def Let_def split: if_splits)
  then show ?thesis by (simp add: extends_def)
qed

lemma extends_mono: "extends P st st' \<Longrightarrow> (\<And>acts. P acts \<Longrightarrow> Q acts) \<Longrightarrow> extends Q st st'"
  by (auto simp: extends_def)

lemma clock_permitted: "list_all clock_act acts \<Longrightarrow> list_all (act_permitted w) acts"
  by (auto simp: list_all_iff clock_act_def act_permitted_def split: router_act.splits)

lemma get_permitted: "sync_endpoint w ep \<Longrightarrow> get_acts w D ep acts \<Longrightarrow> list_all (act_permitted w) acts"
  unfolding get_acts_def using clock_permitted [of _ w]
  by (auto simp: act_permitted_def request_to_base_def) blast+

lemma store_permitted:
  assumes "skill_allowed (rw_env w ''HARNESS_SKILLS_ALLOW'') n" "list_all (store_act n) acts"
  shows "list_all (act_permitted w) acts"
proof -
  have "act_permitted w a" if "store_act n a" for a
    using that assms(1) by (cases a) (auto simp: store_act_def act_permitted_def skill_permitted_def)
  then show ?thesis using assms(2) by (simp add: list_all_iff)
qed

interpretation confined: trace_law w D "list_all (act_permitted w)" for w D
proof unfold_locales
  show "extends (list_all (act_permitted w)) st st'" if "sync_endpoint w ep" "router_get w ep st = (r, st')" for ep r st st'
    by (rule extends_mono [OF router_get_acts [OF that(2)]]) (rule get_permitted [OF that(1)])
  show "extends (list_all (act_permitted w)) st st'"
    if "skill_allowed (rw_env w ''HARNESS_SKILLS_ALLOW'') name" "materialize_skill w name desc body st = (b, st')" for name desc body b st st'
    by (rule extends_mono [OF materialize_acts [OF that(2)]]) (rule store_permitted [OF that(1)])
qed (simp_all add: act_permitted_def)

text \<open>The second law: every request starts right after a look at the clock, and may take the time that is left then at most.\<close>

fun paced :: "int \<Rightarrow> router_act option \<Rightarrow> router_act list \<Rightarrow> bool" where
  "paced D before [] = True"
| "paced D before (a # acts) =
     ((\<forall>argv. a = RCurl argv \<longrightarrow>
         (\<exists>t url auth left. before = Some (RClock t) \<and> argv = curl_argv url auth left None \<and> 1 \<le> left \<and> left \<le> D - t)) \<and>
      paced D (Some a) acts)"

lemma paced_mono: "paced D None acts \<Longrightarrow> paced D before acts"
  by (cases acts) auto

lemma paced_append: "paced D before xs \<Longrightarrow> paced D None ys \<Longrightarrow> paced D before (xs @ ys)"
  by (induction xs arbitrary: before) (auto intro: paced_mono)

lemma paced_quiet: "list_all (\<lambda>a. \<forall>argv. a \<noteq> RCurl argv) acts \<Longrightarrow> paced D before acts"
  by (induction acts arbitrary: before) auto

lemma paced_request:
  assumes "list_all clock_act cs" "cs \<noteq> []" "last cs = RClock t" "1 \<le> left" "left \<le> D - t"
  shows "paced D before (cs @ [RCurl (curl_argv url auth left None)])"
  using assms
proof (induction cs arbitrary: before)
  case (Cons c cs)
  have "c \<noteq> RCurl argv" for argv using Cons(2) by (auto simp: clock_act_def)
  then show ?case using Cons by (cases "cs = []") auto
qed simp

lemma clock_quiet: "list_all clock_act acts \<Longrightarrow> list_all (\<lambda>a. \<forall>argv. a \<noteq> RCurl argv) acts"
  by (auto simp: list_all_iff clock_act_def)

lemma get_paced: "get_acts w D ep acts \<Longrightarrow> D \<noteq> 0 \<Longrightarrow> paced D None acts"
  unfolding get_acts_def by (auto intro: paced_quiet clock_quiet paced_request)

interpretation budget: trace_law w D "\<lambda>acts. D \<noteq> 0 \<longrightarrow> paced D None acts" for w D
proof unfold_locales
  show "extends (\<lambda>acts. D \<noteq> 0 \<longrightarrow> paced D None acts) st st'" if "g_sync_deadline st = D" "router_get w ep st = (r, st')" for ep r st st'
    by (rule extends_mono [OF router_get_acts [OF that(2)]]) (simp add: that(1) get_paced)
  show "extends (\<lambda>acts. D \<noteq> 0 \<longrightarrow> paced D None acts) st st'" if "materialize_skill w name desc body st = (b, st')" for name desc body b st st'
    by (rule extends_mono [OF materialize_acts [OF that]]) (auto simp: store_act_def list_all_iff intro!: paced_quiet)
qed (auto intro: paced_append)

section \<open>The catalogue of tools\<close>

text \<open>The walk of the tools passes over strings, so it keeps in step with whatever values the objects hold.\<close>

definition tool_walk :: "string \<Rightarrow> bool \<Rightarrow> int \<Rightarrow> string option" where
  "tool_walk p in_str depth =
     (if in_str then (case string_rest p of None \<Rightarrow> None | Some r \<Rightarrow> tool_rest r depth) else tool_rest p depth)"

interpretation tool_objects: json_walker tool_walk "\<lambda>n d. d" "\<lambda>d. d + 1" "\<lambda>d. 1 \<le> d"
  by unfold_locales (auto simp: tool_walk_def)

lemma grab_tool_printed:
  assumes "json_wf (JObj kvs)"
  shows "grab_tool (jprint (JObj kvs) @ rest) = Some (length (jprint (JObj kvs)))"
proof -
  define body where "body = jmembers kvs"
  have obj: "jprint (JObj kvs) = CHR ''{'' # body @ ''}''" by (simp add: body_def jmembers_def)
  have "tool_objects.passed (json_quote (fst kv) @ [CHR '':''] @ jprint (snd kv))" if "kv \<in> set kvs" for kv
    by (intro tool_objects.passed_append tool_objects.passed_byte tool_objects.passed_quote tool_objects.passed_jprint)
      (use assms that in \<open>auto simp: list_all_iff\<close>)
  then have "tool_objects.passed body" unfolding body_def jmembers_def by (intro tool_objects.passed_join) auto
  then have "tool_walk (body @ ''}'' @ rest) False 1 = tool_walk (''}'' @ rest) False 1"
    by (cases "body = []") (simp_all add: tool_objects.passed_def)
  then have "tool_rest (jprint (JObj kvs) @ rest) 0 = Some rest" by (simp add: obj tool_walk_def del: jprint.simps)
  then show ?thesis by (simp add: grab_tool_def del: jprint.simps)
qed

lemma cat_objects_printed:
  assumes "\<And>o' rest. o' \<in> set objs \<Longrightarrow> grab (o' @ rest) = Some (length o')"
    and "\<And>o'. o' \<in> set objs \<Longrightarrow> o' \<noteq> [] \<and> hd o' = CHR ''{''"
  shows "cat_objects grab (join objs @ CHR '']'' # rest) = objs"
  using assms
proof (induction objs)
  case Nil
  then show ?case by (simp add: cat_objects.simps jws_id json_ws_def)
next
  case (Cons o' objs)
  define tail where "tail = (if objs = [] then CHR '']'' # rest else CHR '','' # join objs @ CHR '']'' # rest)"
  have shape: "join (o' # objs) @ CHR '']'' # rest = o' @ tail" by (simp add: tail_def)
  obtain b where o': "o' = CHR ''{'' # b" using Cons(3) [of o'] by (cases o') auto
  have "cat_objects grab (o' @ tail) = o' # cat_objects grab tail"
    using Cons(2) [of o' tail] by (subst cat_objects.simps) (simp add: o' jws_id json_ws_def)
  moreover have "cat_objects grab tail = cat_objects grab (join objs @ CHR '']'' # rest)"
    by (cases "objs = []") (simp_all add: tail_def, simp add: cat_objects.simps [of grab "CHR '','' # x" for x] jws_id json_ws_def)
  ultimately show ?case unfolding shape using Cons by simp
qed

lemma jprint_quote: "json_wf v \<Longrightarrow> hd (jprint v @ r) = DQUOTE \<longleftrightarrow> (\<exists>s. v = JStr s)"
proof (cases v)
  case (JAtom a)
  assume "json_wf v"
  then have "a \<noteq> []" "\<forall>c \<in> set a. c \<noteq> DQUOTE" using JAtom atom_char_plain by (auto simp: list_all_iff)
  then show ?thesis using JAtom by (cases a) auto
qed (auto simp: json_quote_def)

lemma length_json_quote: "length s \<le> length (json_quote s)"
proof -
  have "length s \<le> length (concat (map json_esc s))" proof (induction s)
    case (Cons c s)
    have "1 \<le> length (json_esc c)" by (simp add: json_esc_def)
    then show ?case using Cons by (simp del: One_nat_def)
  qed simp
  then show ?thesis by (simp add: json_quote_def)
qed

lemma json_string_dup_printed:
  assumes "members_wf kvs"
  shows "json_string_dup (jprint (JObj kvs)) key = (case map_of kvs key of Some (JStr s) \<Rightarrow> Some s | _ \<Rightarrow> None)"
proof (cases "map_of kvs key")
  case None
  then show ?thesis using jfind_value_printed [OF assms, of "[]" key] by (simp add: json_string_dup_def del: jprint.simps)
next
  case (Some v)
  then obtain tail where f: "jfind_value (jprint (JObj kvs)) key = Some (jprint v @ tail)"
    using jfind_value_printed [OF assms, of "[]" key] by (auto simp del: jprint.simps)
  have wf: "json_wf v" using assms map_of_SomeD [OF Some] by (auto simp: members_wf_def list_all_iff)
  show ?thesis
  proof (cases "\<exists>s. v = JStr s")
    case True
    then obtain s where s: "v = JStr s" by blast
    have "take (length (json_quote s @ tail)) s = s" using length_json_quote [of s] by simp
    then show ?thesis using f wf s Some jread_string_quoted [of "length (json_quote s @ tail) + 1" s tail]
      by (simp add: json_string_dup_def cstr_whole) (simp add: json_quote_def)
  next
    case False
    then have "hd (jprint v @ tail) \<noteq> DQUOTE" using jprint_quote [OF wf] by blast
    then show ?thesis using f False Some by (auto simp: json_string_dup_def split: json.splits)
  qed
qed

lemma json_value_dup_printed:
  assumes "members_wf kvs"
  shows "json_value_dup (jprint (JObj kvs)) key = map_option jprint (map_of kvs key)"
  using jfind_value_printed [OF assms, of "[]" key]
  by (cases "map_of kvs key") (auto simp: json_value_dup_def simp del: jprint.simps)

text \<open>What an entry of the catalogue stands for.\<close>

definition entry_tool :: "(string \<times> json) list \<Rightarrow> RouterTool option" where
  "entry_tool kvs =
     (case map_of kvs ''name'' of
        Some (JStr (c # n)) \<Rightarrow>
          if (case map_of kvs ''source'' of Some (JStr s) \<Rightarrow> take 4 s = ''mcp:'' | _ \<Rightarrow> False) then None
          else Some \<lparr>rt_name = c # n,
                     rt_desc = (case map_of kvs ''description'' of Some (JStr d) \<Rightarrow> d | _ \<Rightarrow> []),
                     rt_params = (case map_of kvs ''parameters'' of Some v \<Rightarrow> jprint v | None \<Rightarrow> ''{}'')\<rparr>
      | _ \<Rightarrow> None)"

lemma add_router_tool_printed:
  assumes "members_wf kvs" and "length tools \<le> ROUTER_TOOL_MAX"
  shows "add_router_tool tools (jprint (JObj kvs)) =
    take ROUTER_TOOL_MAX (tools @ (case entry_tool kvs of Some t \<Rightarrow> [t] | None \<Rightarrow> []))"
proof (cases "length tools = ROUTER_TOOL_MAX")
  case True
  then show ?thesis by (simp add: add_router_tool_def)
next
  case False
  then have room: "\<not> ROUTER_TOOL_MAX \<le> length tools" using assms(2) by simp
  define obj where "obj = jprint (JObj kvs)"
  have s: "json_string_dup obj k = (case map_of kvs k of Some (JStr s) \<Rightarrow> Some s | _ \<Rightarrow> None)" for k
    unfolding obj_def by (rule json_string_dup_printed [OF assms(1)])
  have v: "json_value_dup obj k = map_option jprint (map_of kvs k)" for k
    unfolding obj_def by (rule json_value_dup_printed [OF assms(1)])
  have "nonempty (json_string_dup obj ''name'') = None \<and> entry_tool kvs = None" if "\<nexists>c n. map_of kvs ''name'' = Some (JStr (c # n))"
    using that by (auto simp: s entry_tool_def nonempty_def split: option.split json.split list.split)
  note other = this
  show ?thesis
  proof (cases "\<exists>c n. map_of kvs ''name'' = Some (JStr (c # n))")
    case True
    then obtain c n where 1: "map_of kvs ''name'' = Some (JStr (c # n))" by (elim exE)
    then have n: "nonempty (json_string_dup obj ''name'') = Some (c # n)" by (simp add: s nonempty_def)
    have m: "(case json_string_dup obj ''source'' of Some source \<Rightarrow> take 4 source = ''mcp:'' | None \<Rightarrow> False) =
        (case map_of kvs ''source'' of Some (JStr s) \<Rightarrow> take 4 s = ''mcp:'' | _ \<Rightarrow> False)"
      unfolding s by (simp split: option.split json.split)
    have d: "(case json_string_dup obj ''description'' of Some d \<Rightarrow> d | None \<Rightarrow> []) =
        (case map_of kvs ''description'' of Some (JStr d) \<Rightarrow> d | _ \<Rightarrow> [])"
      unfolding s by (simp split: option.split json.split)
    have p: "(case json_value_dup obj ''parameters'' of Some p \<Rightarrow> p | None \<Rightarrow> ''{}'') =
        (case map_of kvs ''parameters'' of Some v \<Rightarrow> jprint v | None \<Rightarrow> ''{}'')"
      unfolding v by (simp split: option.split)
    show ?thesis unfolding obj_def [symmetric] add_router_tool_def entry_tool_def 1 n m d p using room by simp
  next
    case False
    then show ?thesis using room other unfolding obj_def [symmetric] add_router_tool_def by simp
  qed
qed

lemma add_router_tools_printed:
  assumes "list_all members_wf objs" and "length tools \<le> ROUTER_TOOL_MAX"
  shows "foldl add_router_tool tools (map (\<lambda>kvs. jprint (JObj kvs)) objs) = take ROUTER_TOOL_MAX (tools @ List.map_filter entry_tool objs)"
  using assms
proof (induction objs arbitrary: tools)
  case (Cons kvs objs)
  then show ?case
    by (cases "entry_tool kvs"; cases "ROUTER_TOOL_MAX - length tools")
      (simp_all add: add_router_tool_printed List.map_filter_simps diff_Suc del: jprint.simps)
qed (simp add: List.map_filter_simps)

lemma array_under_printed:
  assumes "members_wf reply" and "map_of reply key = Some (JArr vs)"
  shows "\<exists>tail. array_under (jprint (JObj reply)) key = Some (join (map jprint vs) @ CHR '']'' # tail)"
  using jfind_value_printed [OF assms(1), of "[]" key] assms(2)
  by (auto simp: array_under_def simp del: jprint.simps(4))

lemma sync_tools_printed:
  assumes "router_get w ''tools'' st = (Some (jprint (JObj reply)), st1)" and "members_wf reply"
    and "map_of reply ''tools'' = Some (JArr (map JObj objs))" and "list_all members_wf objs"
  shows "g_router_tools (sync_tools w st) = take ROUTER_TOOL_MAX (List.map_filter entry_tool objs)"
proof -
  define texts where "texts = map (\<lambda>kvs. jprint (JObj kvs)) objs"
  have wf: "list_all (\<lambda>kvs. json_wf (JObj kvs)) objs" using assms(4) by (auto simp: list_all_iff members_wf_def)
  have texts: "\<exists>kvs \<in> set objs. x = jprint (JObj kvs)" if "x \<in> set texts" for x
    using that by (auto simp: texts_def simp del: jprint.simps)
  obtain tail where a: "array_under (jprint (JObj reply)) ''tools'' = Some (join texts @ CHR '']'' # tail)"
    using array_under_printed [OF assms(2,3)] by (auto simp: texts_def comp_def simp del: jprint.simps)
  have "cat_objects grab_tool (join texts @ CHR '']'' # tail) = texts"
  proof (rule cat_objects_printed)
    show "grab_tool (o' @ rest) = Some (length o')" if "o' \<in> set texts" for o' rest
      using texts [OF that] wf grab_tool_printed by (auto simp: list_all_iff simp del: jprint.simps json_wf.simps)
    show "o' \<noteq> [] \<and> hd o' = CHR ''{''" if "o' \<in> set texts" for o'
      using texts [OF that] by auto
  qed
  then show ?thesis using add_router_tools_printed [OF assms(4), of "[]"] assms(1) a
    by (simp add: sync_tools_def texts_def del: jprint.simps)
qed

section \<open>Properties\<close>

lemma sync_all_cases:
  obtains (nothing) "router_sync_all w st = st"
  | (no_dir) "router_sync_all w st = log_act (RMkdir ''.data'') st"
  | (ran) st1 where "st1 = arm_budget w (log_act (RMkdir ''.data'') st)"
      "router_sync_all w st = (sync_tools w (snd (sync_skills w (sync_mcps w st1))))\<lparr>g_sync_deadline := 0\<rparr>"
  by (cases "nonempty (router_base w) = None"; cases "rw_mkdir w (g_trace st) ''.data''") (simp_all add: router_sync_all_def)

text \<open>
  (C36) A synchronisation keeps to its own places, whatever the router answers.  Every URL it gives to \<open>curl\<close> is the
  configured base followed by \<open>/mcps\<close>, \<open>/skills\<close>, \<open>/tools\<close> or \<open>/skills/\<close> and a name on the list of allowed skills, with the
  configured key; it only makes the directories \<open>.data\<close>, \<open>skills\<close>, \<open>skills/router\<close> and one for a skill, and only
  writes the configuration of the MCP servers and files \<open>skills/router/<name>/SKILL.md\<close>, where the name is on the list of
  allowed skills and has no separator and no two dots in a row.  The statement is about the URLs \<open>curl\<close> is started with: it is
  told to follow redirects, and a name with two dots is asked for before it is refused as a directory.
\<close>

theorem router_sync_confined:
  "\<exists>acts. g_trace (router_sync_all w st) = g_trace st @ acts \<and> list_all (act_permitted w) acts"
proof (cases rule: sync_all_cases [of w st])
  case (ran st1)
  have d: "act_permitted w (RMkdir ''.data'')" "act_permitted w (RClock t)" for t by (simp_all add: act_permitted_def)
  then have "\<exists>acts. g_trace st1 = g_trace st @ acts \<and> list_all (act_permitted w) acts"
    by (auto simp: ran(1) arm_budget_def now_s_def Let_def)
  moreover have "\<exists>acts. g_trace (router_sync_all w st) = g_trace st1 @ acts \<and> list_all (act_permitted w) acts"
    using confined.parts_extend [of st1 "g_sync_deadline st1" w] ran(2) by (simp add: extends_def)
  ultimately show ?thesis by force
qed (simp_all add: act_permitted_def)

text \<open>
  The budget of a synchronisation.  When a budget is set and the clock is not negative, every request is started right
  after a look at the clock, with at least one second left, and what is left bounds the time \<open>curl\<close> may take.
\<close>

theorem router_budget_kept:
  assumes "0 < sync_budget w" and "\<And>tr. 0 \<le> rw_now w tr" and "g_trace (router_sync_all w st) = g_trace st @ a # b # acts"
  shows "\<exists>t. b = RClock t \<and> paced (t + sync_budget w) None acts"
proof (cases rule: sync_all_cases [of w st])
  case (ran st1)
  define t where "t = rw_now w (g_trace st @ [RMkdir ''.data''])"
  have s: "g_trace st1 = g_trace st @ [RMkdir ''.data'', RClock t]" "g_sync_deadline st1 = t + sync_budget w"
    using assms(1) by (simp_all add: ran(1) arm_budget_def now_s_def Let_def t_def)
  have "t + sync_budget w \<noteq> 0" using assms(1) assms(2) [of "g_trace st @ [RMkdir ''.data'']"] by (simp add: t_def)
  then have "\<exists>xs. g_trace (router_sync_all w st) = g_trace st1 @ xs \<and> paced (t + sync_budget w) None xs"
    using budget.parts_extend [OF s(2), of w] ran(2) by (simp add: extends_def)
  then show ?thesis using assms(3) s(1) by auto
qed (use assms(3) in simp_all)

text \<open>
  The catalogue of tools is read exactly.  When the router answers with an object that holds an array of objects
  under \<open>tools\<close>, whatever other members there are and whatever braces, quotes or escapes stand in the strings, the
  table holds the tools of the entries, in order, at most 64: those with a name and a source outside \<open>mcp:\<close>, with the
  description and the text of the parameters, or empty ones.
\<close>

theorem router_catalogue_exact:
  assumes "router_get w ''tools'' st = (Some (jprint (JObj reply)), st1)" and "members_wf reply"
    and "map_of reply ''tools'' = Some (JArr (map JObj objs))" and "list_all members_wf objs"
  shows "g_router_tools (sync_tools w st) = take ROUTER_TOOL_MAX (List.map_filter entry_tool objs)"
  by (rule sync_tools_printed [OF assms])

lemma router_get_answer:
  assumes "nonempty (router_base w) = Some base" "nonempty (rw_env w ''LLM_API_KEY'') = Some key" "g_sync_deadline st = 0"
    and "length (base @ ''/'' @ ep) < ROUTER_PATH_MAX" "length (router_auth key) < 256" "rw_alloc w = (\<lambda>_. True)"
    and "\<And>argv. rw_curl w (g_trace st) argv = Some [PBytes s, PEof]" "NUL \<notin> set s" "s \<noteq> []"
  shows "router_get w ep st = (Some s, log_act (RCurl (curl_argv (base @ ''/'' @ ep) (router_auth key) 8 None)) st)"
proof -
  have "sb_text (sb_mem (\<lambda>_. True) zero_sbuf s) = s" "\<not> sb_oom (sb_mem (\<lambda>_. True) zero_sbuf s)"
    by (simp_all add: sb_mem_def sb_reserve_def zero_sbuf_def sb_text_def Let_def)
  then show ?thesis using assms
    by (simp add: router_get_def sync_budget_expired_def sync_seconds_left_def router_curl_exec_def cstr_whole Let_def)
qed

section \<open>Descriptions\<close>

lemma lead_index_prefix: "n < length u \<Longrightarrow> lead_index (u @ v) n = lead_index u n"
proof (induction n)
  case (Suc n)
  then show ?case by (subst (1 2) lead_index.simps) (simp add: nth_append)
qed (simp add: lead_index.simps)

lemma lead_index_back:
  assumes "list_all utf8_cont cs" and "x = [] \<or> \<not> utf8_cont a"
  shows "lead_index (x @ a # cs) (length x + length cs) = length x"
  using assms
proof (induction cs rule: rev_induct)
  case Nil
  then show ?case by (subst lead_index.simps) auto
next
  case (snoc c cs)
  have "lead_index (x @ a # cs @ [c]) (length x + length cs) = lead_index (x @ a # cs) (length x + length cs)"
    using lead_index_prefix [of "length x + length cs" "x @ a # cs" "[c]"] by simp
  moreover have "lead_index (x @ a # cs @ [c]) (length x + length (cs @ [c])) = lead_index (x @ a # cs @ [c]) (length x + length cs)"
    using snoc(2) by (subst lead_index.simps) (simp add: nth_append)
  ultimately show ?case using snoc by simp
qed

lemma utf8_wf_append: "utf8_wf x \<Longrightarrow> utf8_wf y \<Longrightarrow> utf8_wf (x @ y)"
  by (induction rule: utf8_wf.induct) (auto intro: utf8_wf.intros)

text \<open>A character: a lead byte and as many continuation bytes as it asks for; and one that is cut off.\<close>

definition utf8_char :: "char \<Rightarrow> string \<Rightarrow> bool" where
  "utf8_char a cs \<longleftrightarrow> \<not> utf8_cont a \<and> list_all utf8_cont cs \<and> Suc (length cs) = lead_width (code a)"

definition utf8_stub :: "char \<Rightarrow> string \<Rightarrow> bool" where
  "utf8_stub a cs \<longleftrightarrow> \<not> utf8_cont a \<and> list_all utf8_cont cs \<and> Suc (length cs) < lead_width (code a)"

lemma utf8_wf_chars:
  assumes "utf8_wf s"
  shows "\<exists>chs. s = concat (map (\<lambda>(a, cs). a # cs) chs) \<and> list_all (\<lambda>(a, cs). utf8_char a cs \<and> utf8_wf (a # cs)) chs"
  using assms
proof (induction rule: utf8_wf.induct)
  case wf_Nil
  then show ?case by (intro exI [of _ "[]"]) simp
next
  case (wf_1 a s)
  then obtain chs where "s = concat (map (\<lambda>(a, cs). a # cs) chs)" "list_all (\<lambda>(a, cs). utf8_char a cs \<and> utf8_wf (a # cs)) chs" by blast
  then show ?case using wf_1(1,2)
    by (intro exI [of _ "(a, []) # chs"]) (simp add: utf8_char_def lead_width_def utf8_wf.intros)
next
  case (wf_2 a b s)
  then obtain chs where "s = concat (map (\<lambda>(a, cs). a # cs) chs)" "list_all (\<lambda>(a, cs). utf8_char a cs \<and> utf8_wf (a # cs)) chs" by blast
  then show ?case using wf_2(1-3)
    by (intro exI [of _ "(a, [b]) # chs"]) (simp add: utf8_char_def lead_width_def utf8_wf.intros)
next
  case (wf_3 a b c s)
  then obtain chs where "s = concat (map (\<lambda>(a, cs). a # cs) chs)" "list_all (\<lambda>(a, cs). utf8_char a cs \<and> utf8_wf (a # cs)) chs" by blast
  then show ?case using wf_3(1-4)
    by (intro exI [of _ "(a, [b, c]) # chs"]) (simp add: utf8_char_def lead_width_def utf8_wf.intros)
next
  case (wf_4 a b c d s)
  then obtain chs where "s = concat (map (\<lambda>(a, cs). a # cs) chs)" "list_all (\<lambda>(a, cs). utf8_char a cs \<and> utf8_wf (a # cs)) chs" by blast
  then show ?case using wf_4(1-5)
    by (intro exI [of _ "(a, [b, c, d]) # chs"]) (simp add: utf8_char_def lead_width_def utf8_wf.intros)
qed

text \<open>A prefix of well-formed text: whole characters, or whole characters and one that is cut off.\<close>

lemma utf8_prefix_cases:
  assumes "list_all (\<lambda>(a, cs). utf8_char a cs \<and> utf8_wf (a # cs)) chs"
  shows "take n (concat (map (\<lambda>(a, cs). a # cs) chs)) = [] \<or>
    (\<exists>p a cs. take n (concat (map (\<lambda>(a, cs). a # cs) chs)) = p @ a # cs \<and> utf8_wf p \<and>
       (utf8_char a cs \<and> utf8_wf (a # cs) \<or> utf8_stub a cs))"
  using assms
proof (induction chs arbitrary: n)
  case (Cons ch chs)
  obtain a cs where ch: "ch = (a, cs)" by force
  have c: "utf8_char a cs" "utf8_wf (a # cs)" using Cons(2) ch by simp_all
  show ?case
  proof (cases "n \<le> length cs")
    case True
    have "utf8_stub a (take (n - 1) cs)" if "0 < n"
      using c(1) True that by (auto simp: utf8_char_def utf8_stub_def list_all_iff dest: in_set_takeD)
    then show ?thesis using True ch wf_Nil by (cases n) (auto intro!: exI [of _ "[]"])
  next
    case False
    define m where "m = n - Suc (length cs)"
    have n: "take n (concat (map (\<lambda>(a, cs). a # cs) (ch # chs))) = (a # cs) @ take m (concat (map (\<lambda>(a, cs). a # cs) chs))"
      using False ch by (cases n) (simp_all add: m_def)
    have "list_all (\<lambda>(a, cs). utf8_char a cs \<and> utf8_wf (a # cs)) chs" using Cons(2) by simp
    from Cons(1) [OF this, of m] show ?thesis
    proof (elim disjE exE conjE)
      assume e: "take m (concat (map (\<lambda>(a, cs). a # cs) chs)) = []"
      show ?thesis unfolding n e using c wf_Nil by (intro disjI2 exI [of _ "[]"]) auto
    next
      fix p b ds assume "take m (concat (map (\<lambda>(a, cs). a # cs) chs)) = p @ b # ds" "utf8_wf p" "utf8_char b ds" "utf8_wf (b # ds)"
      then show ?thesis unfolding n using utf8_wf_append [OF c(2), of p] by (intro disjI2 exI [of _ "(a # cs) @ p"]) auto
    next
      fix p b ds assume "take m (concat (map (\<lambda>(a, cs). a # cs) chs)) = p @ b # ds" "utf8_wf p" "utf8_stub b ds"
      then show ?thesis unfolding n using utf8_wf_append [OF c(2), of p] by (intro disjI2 exI [of _ "(a # cs) @ p"]) auto
    qed
  qed
qed simp

lemma trim_at_lead:
  assumes "list_all utf8_cont cs" and "\<not> utf8_cont a"
  shows "utf8_trim_tail (p @ a # cs) = (if Suc (length cs) = lead_width (code a) then p @ a # cs else p)"
proof -
  have "length (p @ a # cs) - 1 = length p + length cs" by simp
  then show ?thesis using lead_index_back [of cs p a] assms
    unfolding utf8_trim_tail_def Let_def by simp
qed

lemma trim_whole: "utf8_char a cs \<Longrightarrow> utf8_trim_tail (p @ a # cs) = p @ a # cs"
  by (simp add: trim_at_lead utf8_char_def)

lemma trim_stub: "utf8_stub a cs \<Longrightarrow> utf8_trim_tail (p @ a # cs) = p"
  by (simp add: trim_at_lead utf8_stub_def)

text \<open>
  A description that was cut at the end of its buffer.  Whatever number of bytes of a text in UTF-8 fit, after the trim
  the text is again well-formed, it is a prefix that misses three bytes at most, and nothing goes missing when the cut
  fell between two characters.
\<close>

theorem utf8_trim_repairs:
  assumes "utf8_wf s"
  shows "utf8_wf (utf8_trim_tail (take n s)) \<and>
    (\<exists>k \<le> 3. utf8_trim_tail (take n s) = take (length (take n s) - k) (take n s)) \<and>
    (utf8_wf (take n s) \<longrightarrow> utf8_trim_tail (take n s) = take n s)"
proof -
  obtain chs where "s = concat (map (\<lambda>(a, cs). a # cs) chs)" "list_all (\<lambda>(a, cs). utf8_char a cs \<and> utf8_wf (a # cs)) chs"
    using utf8_wf_chars [OF assms] by blast
  from utf8_prefix_cases [OF this(2), of n] consider "take n s = []"
    | p a cs where "take n s = p @ a # cs" "utf8_wf p" "utf8_char a cs" "utf8_wf (a # cs)"
    | p a cs where "take n s = p @ a # cs" "utf8_wf p" "utf8_stub a cs"
    unfolding \<open>s = _\<close> by blast
  then show ?thesis
  proof cases
    case 1
    then show ?thesis by (intro conjI exI [of _ 0]) (auto simp: utf8_trim_tail_def wf_Nil)
  next
    case 2
    then show ?thesis unfolding 2(1) trim_whole [OF 2(3)] using utf8_wf_append [OF 2(2,4)] by auto
  next
    case (3 p a cs)
    have "length (a # cs) \<le> 3" using 3(3) by (auto simp: utf8_stub_def lead_width_def split: if_splits)
    moreover have "\<not> utf8_wf (p @ a # cs)"
    proof
      assume "utf8_wf (p @ a # cs)"
      then obtain ds where d: "p @ a # cs = concat (map (\<lambda>(a, cs). a # cs) ds)" "list_all (\<lambda>(a, cs). utf8_char a cs \<and> utf8_wf (a # cs)) ds"
        using utf8_wf_chars by blast
      then have "ds \<noteq> []" by auto
      then obtain es b bs where "ds = es @ [(b, bs)]" by (metis rev_exhaust surj_pair)
      then have "p @ a # cs = concat (map (\<lambda>(a, cs). a # cs) es) @ b # bs" "utf8_char b bs" using d by simp_all
      then show False using trim_whole trim_stub [OF 3(3), of p] by (metis append_self_conv list.distinct(1))
    qed
    ultimately show ?thesis unfolding 3(1) trim_stub [OF 3(3)] using 3(2) by (auto intro!: exI [of _ "length (a # cs)"])
  qed
qed

section \<open>The configuration is read back\<close>

text \<open>Members printed with a blank behind the colon and the comma.\<close>

lemma jmember_spaced:
  assumes "json_wf v" and "NUL \<notin> set k"
  shows "jmember (json_quote k @ CHR '':'' # CHR '' '' # jprint v @ rest) = Some (take 63 k, jprint v @ rest)"
proof -
  have "jws (jprint v @ rest) = jprint v @ rest"
    using jprint_hd [OF assms(1)] by (intro jws_id) auto
  then have "jws (CHR '' '' # jprint v @ rest) = jprint v @ rest" by (simp add: jws_def json_ws_def)
  moreover have "cstr (take 63 k) = take 63 k" using assms(2) by (intro cstr_whole) (auto dest: in_set_takeD)
  moreover have "hd (json_quote k @ CHR '':'' # CHR '' '' # jprint v @ rest) = DQUOTE" by (simp add: json_quote_def)
  ultimately show ?thesis
    using jread_string_quoted [of 64 k] jws_id [of "CHR '':'' # CHR '' '' # jprint v @ rest"]
    by (simp add: jmember_def json_ws_def json_quote_def)
qed

lemma jfind_spaced:
  assumes "json_wf v" and "NUL \<notin> set k" and "length k < 64" and "json_stop d"
  shows "jfind_loop (json_quote k @ CHR '':'' # CHR '' '' # jprint v @ d # tail) key =
    (if k = key then Some (jprint v @ d # tail) else if d = CHR '','' then jfind_loop tail key else None)"
proof -
  have ws: "jws (json_quote k @ r) = json_quote k @ r" for r
    by (simp add: json_quote_def jws_id json_ws_def)
  have "\<not> json_ws d" using assms(4) by (auto simp: json_stop_def json_ws_def)
  then have "jws (d # tail) = d # tail" by (simp add: jws_id)
  moreover have "take 63 k = k" using assms(3) by simp
  ultimately show ?thesis
    by (subst jfind_loop.simps)
      (simp only: ws jmember_spaced [OF assms(1,2)] jskip_value_jprint [OF assms(1,4)] prod.case option.case list.case)
qed

lemma jfind_blank: "jfind_loop (CHR '' '' # p) key = jfind_loop p key"
  by (subst (1 2) jfind_loop.simps) (simp add: jws_def json_ws_def)

definition spaced_member :: "string \<times> json \<Rightarrow> string" where
  "spaced_member kv = json_quote (fst kv) @ '': '' @ jprint (snd kv)"

fun spaced_members :: "(string \<times> json) list \<Rightarrow> string" where
  "spaced_members [] = []"
| "spaced_members (kv # kvs) = spaced_member kv @ (if kvs = [] then [] else '', '' @ spaced_members kvs)"

definition spaced_object :: "(string \<times> json) list \<Rightarrow> string" where
  "spaced_object kvs = CHR ''{'' # spaced_members kvs @ ''}''"

lemma jfind_spaced_members:
  assumes "members_wf kvs" and "map_of kvs key = Some v"
  shows "\<exists>tail. jfind_loop (spaced_members kvs @ CHR ''}'' # rest) key = Some (jprint v @ tail)"
  using assms
proof (induction kvs)
  case (Cons kv kvs)
  obtain k u where kv: "kv = (k, u)" by force
  have wf: "json_wf u" "NUL \<notin> set k" "length k < 64" "members_wf kvs" using Cons(2) kv by (simp_all add: members_wf_def)
  show ?case
  proof (cases "kvs = []")
    case True
    then show ?thesis using jfind_spaced [OF wf(1-3), of "CHR ''}''" rest key] Cons(3) kv
      by (auto simp: spaced_member_def json_stop_def split: if_splits)
  next
    case False
    have "jfind_loop (spaced_members (kv # kvs) @ CHR ''}'' # rest) key =
        (if k = key then Some (jprint u @ CHR '','' # CHR '' '' # spaced_members kvs @ CHR ''}'' # rest)
         else jfind_loop (spaced_members kvs @ CHR ''}'' # rest) key)"
      using jfind_spaced [OF wf(1-3), of "CHR '',''" "CHR '' '' # spaced_members kvs @ CHR ''}'' # rest" key] False kv
      by (simp add: spaced_member_def json_stop_def jfind_blank)
    then show ?thesis using Cons(1) [OF wf(4)] Cons(3) kv by (cases "k = key") auto
  qed
qed simp

lemma read_jstr_spaced:
  assumes "members_wf kvs" and "map_of kvs key = Some (JStr s)" and "fits n s" and "0 < n"
  shows "read_jstr n (jfind_value (spaced_object kvs) key) = Text s"
proof -
  obtain tail where "jfind_loop (spaced_members kvs @ ''}'') key = Some (json_quote s @ tail)"
    using jfind_spaced_members [OF assms(1,2), of "[]"] by auto
  then have "jfind_value (spaced_object kvs) key = Some (json_quote s @ tail)"
    by (simp add: jfind_value_def spaced_object_def jws_id json_ws_def)
  moreover have "json_quote s \<noteq> []" "hd (json_quote s) = DQUOTE" by (simp_all add: json_quote_def)
  moreover have "take (n - 1) s = s" using assms(3) by (auto simp: fits_def)
  ultimately show ?thesis using jread_string_quoted [of n s tail] assms(4) fits_cstr [OF assms(3)]
    by (simp add: read_jstr_def fits_def)
qed

lemma obj_scan_spaced:
  assumes "members_wf kvs"
  shows "obj_scan (spaced_object kvs @ rest) False (0, 0) = Some (length (spaced_object kvs))"
proof -
  have one: "obj_walk.passed (json_quote (fst kv) @ '': '' @ jprint (snd kv))" if "kv \<in> set kvs" for kv
    by (intro obj_walk.passed_append obj_walk.passed_bytes obj_walk.passed_quote obj_walk.passed_jprint)
      (use assms that in \<open>auto simp: members_wf_def list_all_iff\<close>)
  have "obj_walk.passed (spaced_members xs)" if "set xs \<subseteq> set kvs" for xs
    using that
  proof (induction xs)
    case (Cons x xs)
    have "obj_walk.passed '', ''" by (rule obj_walk.passed_bytes) simp
    then have "obj_walk.passed ('', '' @ spaced_members xs)" using Cons by (intro obj_walk.passed_append) simp_all
    then show ?case using Cons(2) one [of x] obj_walk.passed_append [of "spaced_member x"]
      by (simp add: spaced_member_def)
  qed (simp add: obj_walk.passed_Nil)
  then have "spaced_members kvs \<noteq> [] \<Longrightarrow> obj_scan (spaced_members kvs @ r) False (1, 1) = obj_scan r False (1 + length (spaced_members kvs), 1)" for r
    unfolding obj_walk.passed_def by fastforce
  then show ?thesis unfolding spaced_object_def by (cases "spaced_members kvs = []") simp_all
qed

text \<open>The server a line stands for, and what the loader does with it.\<close>

definition line_members :: "string \<Rightarrow> string \<Rightarrow> string \<Rightarrow> (string \<times> json) list" where
  "line_members name command args =
     [(''id'', JStr name), (''transport'', JStr ''stdio''), (''command'', JStr command), (''args'', JStr args), (''approval'', JAtom ''false'')]"

definition line_server :: "string \<Rightarrow> string \<Rightarrow> string \<Rightarrow> McpServerCfg" where
  "line_server name command args = \<lparr>sc_id = name, sc_argv = cfg_split_args command args, sc_approval = False\<rparr>"

definition admit :: "string option \<Rightarrow> McpServerCfg list \<Rightarrow> McpServerCfg \<Rightarrow> McpServerCfg list" where
  "admit allow ss s =
     (if length ss < MCP_SERVERS_MAX \<and> mcp_allowed allow (sc_id s) \<and> sc_id s \<notin> sc_id ` set ss then ss @ [s] else ss)"

definition recipe :: "router_world \<Rightarrow> string \<Rightarrow> (string \<times> string \<times> string) option" where
  "recipe w obj =
     (case read_jstr 128 (jfind_value obj ''name'') of
        Text name \<Rightarrow>
          if name = [] then None
          else Option.bind (find (\<lambda>t. tpl_id t = name) k_known_mcps) (\<lambda>t. map_option (\<lambda>args. (name, tpl_command t, args)) (template_args w t))
      | _ \<Rightarrow> None)"

lemma mcp_line_recipe:
  assumes "rw_alloc w = (\<lambda>_. True)"
  shows "mcp_line w obj = map_option (\<lambda>(n, c, a). ''  '' @ spaced_object (line_members n c a)) (recipe w obj)"
proof -
  have "sb_text (foldl (sb_mem (\<lambda>_. True)) zero_sbuf xs) = concat xs" for xs
    using sb_puts_alloc [of zero_sbuf xs] sb.puts_written [of "\<lambda>_. True" zero_sbuf xs] by (simp add: zero_sbuf_def sb_text_def)
  moreover have "concat (mcp_line_pieces n c a) = ''  '' @ spaced_object (line_members n c a)" for n c a
    by (simp add: mcp_line_pieces_def spaced_object_def line_members_def spaced_member_def concat_json_pieces)
  ultimately show ?thesis
    by (simp add: mcp_line_def recipe_def assms option.map_comp comp_def split: jstr_read.split option.split)
qed

lemma cfg_server_line:
  assumes "fits 32 n" "fits MAX_PATH_SIZE c" "fits MAX_PATH_SIZE a"
  shows "cfg_server (spaced_object (line_members n c a)) = Some (line_server n c a)" "members_wf (line_members n c a)"
proof -
  show wf: "members_wf (line_members n c a)"
    using assms by (simp add: members_wf_def line_members_def fits_def atom_char_def isalnum_def isalpha_def)
  define obj where "obj = spaced_object (line_members n c a)"
  have stdio: "fits 16 ''stdio''" by (simp add: fits_def)
  have r: "read_jstr 16 (jfind_value obj ''transport'') = Text ''stdio''"
    "read_jstr MAX_PATH_SIZE (jfind_value obj ''command'') = Text c"
    "read_jstr MAX_PATH_SIZE (jfind_value obj ''args'') = Text a"
    "read_jstr 32 (jfind_value obj ''id'') = Text n"
    unfolding obj_def by (rule read_jstr_spaced [OF wf]; use assms stdio in \<open>simp add: line_members_def MAX_PATH_SIZE_def\<close>)+
  obtain tail where "jfind_loop (spaced_members (line_members n c a) @ ''}'') ''approval'' = Some (''false'' @ tail)"
    using jfind_spaced_members [OF wf, of "''approval''" "JAtom ''false''" "[]"] by (auto simp: line_members_def)
  then have "jfind_value obj ''approval'' = Some (''false'' @ tail)"
    by (simp add: jfind_value_def obj_def spaced_object_def jws_id json_ws_def)
  then show "cfg_server (spaced_object (line_members n c a)) = Some (line_server n c a)" unfolding obj_def [symmetric]
    by (simp add: cfg_server_def r other_transport_def cfg_id_def line_server_def Let_def)
qed

definition line_ok :: "string \<times> string \<times> string \<Rightarrow> bool" where
  "line_ok r = (case r of (n, c, a) \<Rightarrow>
     fits 32 n \<and> fits MAX_PATH_SIZE c \<and> fits MAX_PATH_SIZE a \<and> length (spaced_object (line_members n c a)) < 4096)"

lemma cfg_objects_ws: "list_all json_ws ws \<Longrightarrow> cfg_objects allow (ws @ p) ss = cfg_objects allow p ss"
  by (subst (1 2) cfg_objects.simps) (simp add: jws_def dropWhile_append2 list_all_iff)

lemma cfg_objects_line:
  assumes "line_ok (n, c, a)" and "rest \<noteq> []"
  shows "cfg_objects allow (''  '' @ spaced_object (line_members n c a) @ rest) ss = cfg_objects allow rest (admit allow ss (line_server n c a))"
proof -
  define obj where "obj = spaced_object (line_members n c a)"
  obtain body where body: "obj = CHR ''{'' # body" by (simp add: obj_def spaced_object_def)
  have l: "fits 32 n" "fits MAX_PATH_SIZE c" "fits MAX_PATH_SIZE a" "length obj < 4096" using assms(1) by (simp_all add: line_ok_def obj_def)
  note s = cfg_server_line [OF l(1-3), folded obj_def]
  have ws: "jws (obj @ rest) = obj @ rest" by (simp add: body jws_id json_ws_def)
  have "cfg_next_obj 4096 (obj @ rest) = Some (obj, rest)"
    using obj_scan_spaced [OF s(2), of rest, folded obj_def] l(4) by (simp add: cfg_next_obj_def ws) (simp add: body)
  then have "cfg_objects allow (obj @ rest) ss = cfg_objects allow rest (cfg_add_server allow obj ss)"
    by (subst cfg_objects.simps) (simp add: body jws_id json_ws_def)
  moreover have "cfg_add_server allow obj ss = admit allow ss (line_server n c a)"
    by (auto simp: cfg_add_server_def s(1) admit_def list_ex_iff line_server_def image_iff)
  moreover have "cfg_objects allow (''  '' @ obj @ rest) ss = cfg_objects allow (obj @ rest) ss"
    by (rule cfg_objects_ws) (simp add: json_ws_def)
  ultimately show ?thesis by (simp add: obj_def)
qed

lemma cfg_objects_lines:
  assumes "list_all line_ok rs"
  shows "cfg_objects allow (sep_lines wrote (map (\<lambda>(n, c, a). ''  '' @ spaced_object (line_members n c a)) rs) @ [LF] @ '']'' @ [LF]) ss =
    foldl (admit allow) ss (map (\<lambda>(n, c, a). line_server n c a) rs)"
  using assms
proof (induction rs arbitrary: wrote ss)
  case Nil
  then show ?case by (subst cfg_objects.simps) (simp add: jws_def json_ws_def)
next
  case (Cons r rs)
  obtain n c a where r: "r = (n, c, a)" by (cases r)
  define rest where "rest = sep_lines True (map (\<lambda>(n, c, a). ''  '' @ spaced_object (line_members n c a)) rs) @ [LF] @ '']'' @ [LF]"
  have "cfg_objects allow ('','' @ [LF] @ p) ss = cfg_objects allow p ss" for p
    using cfg_objects_ws [of "[LF]" allow p ss] by (subst cfg_objects.simps) (simp add: jws_def json_ws_def)
  then have "cfg_objects allow (sep_lines wrote (map (\<lambda>(n, c, a). ''  '' @ spaced_object (line_members n c a)) (r # rs)) @ [LF] @ '']'' @ [LF]) ss =
      cfg_objects allow (''  '' @ spaced_object (line_members n c a) @ rest) ss"
    by (cases wrote) (simp_all add: r rest_def)
  also have "\<dots> = cfg_objects allow rest (admit allow ss (line_server n c a))"
    by (rule cfg_objects_line) (use Cons(2) r in \<open>simp_all add: rest_def\<close>)
  finally show ?case using Cons r by (simp add: rest_def)
qed

lemma template_args_cases:
  assumes "t \<in> set k_known_mcps" and "template_args w t = Some a"
  shows "tpl_command t = ''npx'' \<and> length a < MAX_PATH_SIZE \<and> length (tpl_id t) < 8 \<and> NUL \<notin> set (tpl_id t) \<and>
    (\<exists>x root. a = x @ root \<and> length x < 100 \<and> NUL \<notin> set x \<and> (root = [] \<or> rw_env w ''MCP_FS_ROOT'' = Some root))"
proof -
  define fs_t where "fs_t = k_known_mcps ! 0"
  have f: "strstr (tpl_args fs_t) ''$FSROOT'' = Some ''$FSROOT''" "length (tpl_args fs_t) < 100" "NUL \<notin> set (tpl_args fs_t)"
    "tpl_command fs_t = ''npx''" "length (tpl_id fs_t) < 8" "NUL \<notin> set (tpl_id fs_t)"
    unfolding fs_t_def by code_simp+
  have k: "list_all (\<lambda>t. strstr (tpl_args t) ''$FSROOT'' = None \<and> length (tpl_args t) < 100 \<and> NUL \<notin> set (tpl_args t) \<and>
      tpl_command t = ''npx'' \<and> length (tpl_id t) < 8 \<and> NUL \<notin> set (tpl_id t)) (tl k_known_mcps)" by code_simp
  consider "t = fs_t" | "t \<in> set (tl k_known_mcps)" using assms(1) by (auto simp: fs_t_def k_known_mcps_def)
  then show ?thesis
  proof cases
    case 1
    define x where "x = take (length (tpl_args fs_t) - length ''$FSROOT'') (tpl_args fs_t)"
    obtain root where "rw_env w ''MCP_FS_ROOT'' = Some root" "a = x @ root" "length x + length root < ROUTER_PATH_MAX"
      using assms(2) f(1) 1 by (auto simp: template_args_def nonempty_Some x_def Let_def split: option.splits if_splits)
    moreover have "length x < 100" "NUL \<notin> set x" using f(2,3) by (auto simp: x_def dest: in_set_takeD)
    ultimately show ?thesis using f(4-6) 1 by (auto simp: ROUTER_PATH_MAX_def MAX_PATH_SIZE_def)
  next
    case 2
    then have s: "strstr (tpl_args t) ''$FSROOT'' = None" "length (tpl_args t) < 100" "NUL \<notin> set (tpl_args t)"
      "tpl_command t = ''npx''" "length (tpl_id t) < 8" "NUL \<notin> set (tpl_id t)"
      using k by (simp_all add: list_all_iff)
    then have "a = tpl_args t @ []" using assms(2) by (simp add: template_args_def split: if_splits)
    then show ?thesis using s by (auto simp: MAX_PATH_SIZE_def)
  qed
qed

lemma length_json_quote_append: "length (json_quote (x @ y)) = length (concat (map json_esc x)) + length (json_quote y)"
  by (simp add: json_quote_def)

lemma length_json_escs: "length (concat (map json_esc x)) \<le> 6 * length x"
proof (induction x)
  case (Cons c x)
  have "length (json_esc c) \<le> 6" by (simp add: json_esc_def hex04_def)
  then show ?case using Cons by simp
qed simp

definition root_ok :: "router_world \<Rightarrow> bool" where
  "root_ok w = pred_option (\<lambda>r. NUL \<notin> set r \<and> length (json_quote r) < 3000) (rw_env w ''MCP_FS_ROOT'')"

lemma recipe_line_ok:
  assumes "root_ok w" and "recipe w obj = Some r"
  shows "line_ok r"
proof -
  have find: "t \<in> set ts \<and> P t" if "find P ts = Some t" for P t and ts :: "RouterMcpTemplate list"
    using that by (auto simp: find_Some_iff)
  obtain t a where t: "t \<in> set k_known_mcps" "template_args w t = Some a" "r = (tpl_id t, tpl_command t, a)"
    using assms(2) by (auto simp: recipe_def Option.bind_eq_Some_conv dest!: find split: jstr_read.splits if_splits)
  from template_args_cases [OF t(1,2)] obtain x root where c: "tpl_command t = ''npx''" "length a < MAX_PATH_SIZE" "length (tpl_id t) < 8"
    "NUL \<notin> set (tpl_id t)" "a = x @ root" "length x < 100" "NUL \<notin> set x" "root = [] \<or> rw_env w ''MCP_FS_ROOT'' = Some root" by blast
  have r: "NUL \<notin> set root" "length (json_quote root) < 3000" using c(8) assms(1) by (auto simp: root_ok_def json_quote_def)
  have "length (json_quote (tpl_id t)) \<le> 50" using length_json_escs [of "tpl_id t"] c(3) by (simp add: json_quote_def)
  moreover have "length (json_quote a) \<le> 3600" using length_json_escs [of x] c(5,6) r(2) by (simp add: length_json_quote_append)
  moreover have "length (spaced_object (line_members n ''npx'' a)) = 77 + length (json_quote n) + length (json_quote a)" for n
  proof -
    have q: "length (json_quote ''id'') = 4" "length (json_quote ''transport'') = 11" "length (json_quote ''stdio'') = 7" "length (json_quote ''command'') = 9"
      "length (json_quote ''npx'') = 5" "length (json_quote ''args'') = 6" "length (json_quote ''approval'') = 10" by code_simp+
    show ?thesis by (simp add: spaced_object_def line_members_def spaced_member_def q)
  qed
  ultimately show ?thesis using c(1-5,7) r(1) by (simp add: line_ok_def t(3) fits_def MAX_PATH_SIZE_def)
qed

text \<open>
  (C37) The router cannot choose what is started.  The configuration a synchronisation writes, whatever list the router
  sent, is read back by the MCP client as exactly the recipes of the built-in table the list names, in order (the
  loader's own limits apply to each: its number of servers, its list of allowed names, one server per name): \<open>npx\<close> with
  the pinned package, and the directory of \<open>MCP_FS_ROOT\<close> for the file server.
\<close>

theorem router_mcps_read_back:
  assumes "rw_alloc w = (\<lambda>_. True)" and "root_ok w"
  shows "cfg_from_text allow (Some (mcps_file w p)) ss =
    foldl (admit allow) ss (map (\<lambda>(n, c, a). line_server n c a) (List.map_filter (recipe w) (cat_objects grab_object p)))"
proof -
  define rs where "rs = List.map_filter (recipe w) (cat_objects grab_object p)"
  have "list_all line_ok rs"
    using recipe_line_ok [OF assms(2)] by (auto simp: rs_def list_all_iff List.map_filter_def)
  note l = cfg_objects_lines [OF this, of allow False ss]
  have "List.map_filter (mcp_line w) objs = map (\<lambda>(n, c, a). ''  '' @ spaced_object (line_members n c a)) (List.map_filter (recipe w) objs)" for objs
    by (induction objs) (simp_all add: List.map_filter_simps mcp_line_recipe [OF assms(1)] split: option.split)
  then have "mcps_file w p = CHR ''['' # LF # sep_lines False (map (\<lambda>(n, c, a). ''  '' @ spaced_object (line_members n c a)) rs) @ [LF] @ '']'' @ [LF]"
    by (simp add: mcps_file_def rs_def)
  then have "cfg_from_text allow (Some (mcps_file w p)) ss =
      cfg_objects allow ([LF] @ sep_lines False (map (\<lambda>(n, c, a). ''  '' @ spaced_object (line_members n c a)) rs) @ [LF] @ '']'' @ [LF]) ss"
    by (simp add: cfg_from_text_def)
  also have "\<dots> = foldl (admit allow) ss (map (\<lambda>(n, c, a). line_server n c a) rs)"
    unfolding l [symmetric] by (rule cfg_objects_ws) (simp add: json_ws_def)
  finally show ?thesis by (simp add: rs_def)
qed

section \<open>Registration\<close>

lemma tools_register_grows:
  assumes "tools_register env n d p (Some f) reg = Some (rc, reg')"
  shows "rc = - 1 \<and> reg' = reg \<or> rc = 0 \<and> (\<exists>t dirty. td_fn t = f \<and> reg' = reg\<lparr>g_tools := g_tools reg @ [t], g_schema_dirty := dirty\<rparr>)"
proof (cases n)
  case None
  then show ?thesis using assms by (simp add: tools_register_def)
next
  case (Some m)
  show ?thesis
  proof (cases "TOOL_MAX \<le> length (g_tools reg) \<or> \<not> tools_register_allowed env n \<or> list_ex (\<lambda>t. td_name t = m) (g_tools reg)")
    case True
    then have "\<not> fresh_tool reg env m" using Some by (auto simp: fresh_tool_def tool_map_None)
    from tools_register_refused [OF this, of d p f] show ?thesis using assms Some by simp
  next
    case False
    then obtain a b c where "rc = 0" "reg' = reg\<lparr>g_tools := g_tools reg @ [\<lparr>td_name = a, td_desc = b, td_params = c, td_fn = f\<rparr>], g_schema_dirty := True\<rparr>"
      using assms Some by (auto simp: tools_register_def Let_def split: option.splits)
    then show ?thesis by (intro disjI2 conjI exI [of _ "\<lparr>td_name = a, td_desc = b, td_params = c, td_fn = f\<rparr>"] exI [of _ True]) simp_all
  qed
qed

text \<open>
  The tools of the router never displace a tool that is there: every name keeps the function it had, a new function is
  the proxy of an entry of the catalogue, and the count is the number of tools that were added.
\<close>

theorem local_tools_win:
  assumes "router_register_tools profile proxy ts (ok, reg) = Some (ok', reg')"
  shows "tool_map reg \<subseteq>\<^sub>m tool_map reg' \<and> ran (tool_map reg') \<subseteq> ran (tool_map reg) \<union> proxy ` rt_name ` set ts \<and>
    length (g_tools reg') + ok = length (g_tools reg) + ok'"
  using assms
proof (induction ts arbitrary: ok reg)
  case (Cons t ts)
  obtain rc reg1 where r: "tools_register profile (Some (rt_name t)) (Some (rt_desc t)) (Some (rt_params t)) (Some (proxy (rt_name t))) reg = Some (rc, reg1)"
    "router_register_tools profile proxy ts (if rc = 0 then ok + 1 else ok, reg1) = Some (ok', reg')"
    using Cons(2) by (auto split: option.splits)
  note ih = Cons(1) [OF r(2)]
  from tools_register_grows [OF r(1)] show ?case
  proof (elim disjE conjE exE)
    assume "rc = - 1" "reg1 = reg"
    then show ?thesis using ih by auto
  next
    fix u dirty assume u: "rc = 0" "td_fn u = proxy (rt_name t)" "reg1 = reg\<lparr>g_tools := g_tools reg @ [u], g_schema_dirty := dirty\<rparr>"
    have m: "tool_map reg1 = (\<lambda>n. case tool_map reg n of Some f \<Rightarrow> Some f | None \<Rightarrow> if td_name u = n then Some (td_fn u) else None)"
      unfolding u(3) by (rule tool_map_append)
    have "tool_map reg \<subseteq>\<^sub>m tool_map reg1" by (auto simp: m map_le_def split: option.split)
    moreover have "ran (tool_map reg1) \<subseteq> insert (proxy (rt_name t)) (ran (tool_map reg))"
      by (auto simp: m ran_def u(2) split: option.splits if_splits)
    moreover have "length (g_tools reg1) = length (g_tools reg) + 1" by (simp add: u(3))
    ultimately show ?thesis using ih u(1) map_le_trans by fastforce
  qed
qed simp

section \<open>Running a tool of the router\<close>

lemma tool_answer_result:
  assumes "members_wf reply" and "map_of reply ''result'' = Some (JStr s)"
  shows "tool_answer tool (Some (jprint (JObj reply))) = [s]"
proof -
  obtain tail where f: "jfind_value (jprint (JObj reply)) ''result'' = Some (json_quote s @ tail)"
    using jfind_value_printed [OF assms(1), of "[]" "''result''"] assms(2) by (auto simp del: jprint.simps(4))
  have s: "NUL \<notin> set s" using assms(1) map_of_SomeD [OF assms(2)] by (auto simp: members_wf_def list_all_iff)
  obtain q where q: "json_quote s @ tail = DQUOTE # q" by (simp add: json_quote_def)
  have "take (length (json_quote s @ tail)) s = s" using length_json_quote [of s] by simp
  then have "jread_string (length (DQUOTE # q) + 1) (DQUOTE # q) = Some (s, tail)"
    using jread_string_quoted [of "length (json_quote s @ tail) + 1" s tail] by (simp only: q [symmetric] add_diff_cancel_right')
  then show ?thesis using s unfolding tool_answer_def option.case f q by (simp add: cstr_whole)
qed

lemma invoke_body:
  "concat (invoke_pieces tool (Some (jprint v))) = jprint (JObj [(''name'', JStr tool), (''args'', v)])" if "json_wf v"
  using jprint_hd [OF that] by (cases "jprint v") (simp_all add: invoke_pieces_def concat_json_pieces nonempty_def jkey_def json_quote_def json_esc_def)

text \<open>
  A tool of the router answers with the text the router returns: when the configured router answers the call with an
  object that has a string under \<open>result\<close>, that string is appended, whole, to what the model gets.
\<close>

theorem proxy_relays_result:
  assumes "router_invoke w tool args st = (Some (jprint (JObj reply)), st')" "members_wf reply" "map_of reply ''result'' = Some (JStr s)"
    and "rw_alloc w = (\<lambda>_. True)" "\<not> sb_oom out"
  shows "sb_text (fst (router_tool_proxy w tool args out st)) = sb_text out @ s \<and> snd (router_tool_proxy w tool args out st) = st'"
  using assms sb.puts_written [of "\<lambda>_. True" out "[s]"] sb_puts_alloc [of out "[s]"]
  by (simp add: router_tool_proxy_def tool_answer_result sb_str_def del: jprint.simps)

section \<open>Where the code goes wrong\<close>

text \<open>
  The walk over the skills counts braces inside strings: after a closing brace in a description the object is cut
  there, its description is lost, and so are all skills behind it.
\<close>

definition brace_catalogue :: string where
  "brace_catalogue = jprint (JObj [(''skills'', JArr [JObj [(''name'', JStr ''a''), (''description'', JStr ''use }'')], JObj [(''name'', JStr ''b'')]])])"

lemma brace_drops_skills:
  "parse_skills brace_catalogue = [\<lparr>rs_name = ''a'', rs_desc = []\<rparr>]"
  by code_simp

text \<open>A name with a line feed passes the test and puts lines of its own into the front matter.\<close>

lemma line_feed_in_name:
  "safe_name (''a'' @ [LF] @ ''name: b'')"
  "\<exists>rest. skill_text (''a'' @ [LF] @ ''name: b'') [] body = ''---'' @ [LF] @ ''name: a'' @ [LF] @ ''name: b'' @ [LF] @ rest"
  by (simp_all add: safe_name_def skill_text_def)

text \<open>A directory with a blank is split: the file server is given two other directories.\<close>

lemma blank_splits_root:
  "sc_argv (line_server ''fs'' ''npx'' (''-y pkg '' @ ''/srv/my data'')) = [''npx'', ''-y'', ''pkg'', ''/srv/my'', ''data'']"
proof -
  have "strtok_words arg_blank (''-y pkg '' @ ''/srv/my data'') = [''-y'', ''pkg'', ''/srv/my'', ''data'']" by code_simp
  then show ?thesis by (simp add: line_server_def cfg_split_args_def set_str_def MAX_PATH_SIZE_def MCP_ARGS_MAX_def)
qed

text \<open>The arguments go into the request as they are: they can close their member and name another tool.\<close>

lemma args_rename_tool:
  "concat (invoke_pieces ''calc'' (Some (''{},'' @ jkey ''name'' @ json_quote ''shell''))) =
   jprint (JObj [(''name'', JStr ''calc''), (''args'', JObj []), (''name'', JStr ''shell'')])"
  by code_simp

section \<open>Witnesses\<close>

definition demo_router :: "string \<Rightarrow> router_world" where
  "demo_router reply =
     \<lparr>rw_now = (\<lambda>_. 100), rw_curl = (\<lambda>_ _. Some [PBytes reply, PEof]), rw_mkdir = (\<lambda>_ _. True), rw_open = (\<lambda>_ _. True),
      rw_close = (\<lambda>_ _. True),
      rw_env = map_of [(''LLM_API_URL'', ''http://r/v1''), (''LLM_API_KEY'', ''k''), (''MCP_FS_ROOT'', ''/srv'')],
      rw_alloc = (\<lambda>_. True)\<rparr>"

definition router_idle :: router_state where
  "router_idle = \<lparr>g_sync_deadline = 0, g_router_tools = [], g_trace = []\<rparr>"

definition demo_tools :: "(string \<times> json) list list" where
  "demo_tools =
     [[(''name'', JStr ''echo''), (''description'', JStr ''say } or {'')],
      [(''name'', JStr ''x''), (''source'', JStr ''mcp:fs'')],
      [(''name'', JStr ''now''), (''parameters'', JObj [(''tz'', JStr ''s'')])]]"

definition demo_catalogue :: "(string \<times> json) list" where
  "demo_catalogue = [(''tools'', JArr (map JObj demo_tools))]"

theorem router_catalogue_exact_witness:
  "g_router_tools (sync_tools (demo_router (jprint (JObj demo_catalogue))) router_idle) =
   [\<lparr>rt_name = ''echo'', rt_desc = ''say } or {'', rt_params = ''{}''\<rparr>,
    \<lparr>rt_name = ''now'', rt_desc = [], rt_params = CHR ''{'' # json_quote ''tz'' @ '':'' @ json_quote ''s'' @ ''}''\<rparr>]"
proof -
  define w where "w = demo_router (jprint (JObj demo_catalogue))"
  have e: "nonempty (router_base w) = Some ''http://r/v1''" "nonempty (rw_env w ''LLM_API_KEY'') = Some ''k''" "rw_alloc w = (\<lambda>_. True)"
    by (simp_all add: w_def demo_router_def router_base_def nonempty_def)
  have c: "rw_curl w tr argv = Some [PBytes (jprint (JObj demo_catalogue)), PEof]" for tr argv
    by (simp add: w_def demo_router_def del: jprint.simps)
  have j: "members_wf demo_catalogue" "NUL \<notin> set (jprint (JObj demo_catalogue))" "jprint (JObj demo_catalogue) \<noteq> []" "list_all members_wf demo_tools"
    by code_simp+
  have "router_get w ''tools'' router_idle =
      (Some (jprint (JObj demo_catalogue)), log_act (RCurl (curl_argv (''http://r/v1'' @ ''/'' @ ''tools'') (router_auth ''k'') 8 None)) router_idle)"
    by (rule router_get_answer [OF e(1,2) _ _ _ e(3) c j(2,3)]) (simp_all add: router_idle_def router_auth_def ROUTER_PATH_MAX_def)
  then have "g_router_tools (sync_tools w router_idle) = take ROUTER_TOOL_MAX (List.map_filter entry_tool demo_tools)"
    by (rule router_catalogue_exact [OF _ j(1) _ j(4)]) (simp add: demo_catalogue_def)
  moreover have "List.map_filter entry_tool demo_tools =
      [\<lparr>rt_name = ''echo'', rt_desc = ''say } or {'', rt_params = ''{}''\<rparr>,
       \<lparr>rt_name = ''now'', rt_desc = [], rt_params = CHR ''{'' # json_quote ''tz'' @ '':'' @ json_quote ''s'' @ ''}''\<rparr>]"
    by code_simp
  ultimately show ?thesis by (simp add: w_def ROUTER_TOOL_MAX_def del: jprint.simps)
qed

definition demo_mcps :: string where
  "demo_mcps = join [jprint (JObj [(''name'', JStr ''evil'')]), jprint (JObj [(''name'', JStr ''fs'')])] @ '']}''"

theorem router_mcps_read_back_witness:
  "cfg_from_text None (Some (mcps_file (demo_router []) demo_mcps)) [] =
   [line_server ''fs'' ''npx'' (''-y @modelcontextprotocol/server-filesystem@2026.8.31 '' @ ''/srv'')]"
proof -
  have "root_ok (demo_router [])" "rw_alloc (demo_router []) = (\<lambda>_. True)"
    by (simp_all add: root_ok_def demo_router_def json_quote_def json_esc_def)
  note t = router_mcps_read_back [OF this(2,1), of None demo_mcps "[]"]
  have "cat_objects grab_object demo_mcps = [jprint (JObj [(''name'', JStr ''evil'')]), jprint (JObj [(''name'', JStr ''fs'')])]" by code_simp
  moreover have "recipe (demo_router []) (jprint (JObj [(''name'', JStr ''evil'')])) = None" by code_simp
  moreover have "recipe (demo_router []) (jprint (JObj [(''name'', JStr ''fs'')])) =
      Some (''fs'', ''npx'', ''-y @modelcontextprotocol/server-filesystem@2026.8.31 '' @ ''/srv'')" by code_simp
  ultimately show ?thesis unfolding t
    by (simp add: List.map_filter_simps admit_def mcp_allowed_def MCP_SERVERS_MAX_def del: jprint.simps)
qed

end
