(* ===== verification/Spec2Isabelle.thy ===== *)
theory Spec2Isabelle
  imports Util Chunked Http_Parse Login_Limit Rate_Limit Minijson Chatio Auth_Basic Auth_Session
    Http_Date Http_Resp Static_Files Framework Cgi Metrics Login_Form Route Worker_Pool
    Http_Log Vite Gate Event Connection Fastcgi Sql_Guard Sql_Tools
    Agent_Memory Fetch_Guard Calc Skills Tools Agent Chat_Stream Tools_Api Db_Layer Router
begin

text \<open>
  A verification library for AgentHTTPD, a prefork HTTP/1.1 server in C with CGI, FastCGI, static
  files and a chat agent.  The sources are under \<open>src/src/\<close>.

  \<^bold>\<open>The program.\<close>  The master process runs an event loop (\<open>core/event.c\<close>) that accepts connections,
  answers cheap requests itself (the fast path) and hands every other connection over to a pool of
  worker processes (\<open>core/worker.c\<close>), which serve it with the blocking handler of \<open>http/http.c\<close>.  Both
  parse with \<open>http/http_parse.c\<close>, pass the rate limiter and the authentication of \<open>security/\<close>, dispatch
  with \<open>http/http_route.c\<close> to the login form, custom routes (\<open>core/framework.c\<close>), CGI (\<open>cgi/cgi.c\<close>) or
  static files (\<open>http/static.c\<close>), and serialise with \<open>http/http_resp.c\<close>.  Chat requests run the agent of
  \<open>agent/\<close>: rounds of a request to an upstream model and the tool calls it asks for.

  \<^bold>\<open>Modelling conventions\<close> (theory \<open>Prelude\<close>).  A C string is a \<open>string\<close> without its NUL; bounded
  stores are \<open>take (n - 1)\<close>; a pointer into a string is the suffix it points at; C structures are
  records; a function that can write outside an array or read behind one returns \<open>None\<close> or a
  constructor that says so; signed overflow is \<open>wrap32\<close>, unsigned integers are words.  Sockets are
  records that hold what the peer will send and what was sent; the file system, the clock, the
  environment and library routines (\<open>crypt\<close>, \<open>inet_pton\<close>, SQLite) are parameters.

  \<^bold>\<open>Theories and the code they model.\<close>
  \<^item> \<open>Httpd_Types\<close> (\<open>httpd.h\<close>): \<open>HttpRequest\<close> and \<open>HttpResponse\<close> with their well-formedness.
  \<^item> \<open>Util\<close> (\<open>core/util.c\<close>), \<open>Chunked\<close> (\<open>http/http_chunk.c\<close>), \<open>Http_Parse\<close> (\<open>http/http_parse.c\<close>): the
    text of a request.  The parser accepts exactly the CRLF grammar, keeps every field in its array
    and flags oversized bodies; the chunked decoder inverts the encoding for every split of the input
    whose length a \<open>long\<close> holds (locale \<open>incremental_decoder\<close>); its sums wrap, and a size near the largest \<open>long\<close> defeats the cap.
  \<^item> \<open>Slot_Table\<close>, \<open>Login_Limit\<close>, \<open>Rate_Limit\<close> (\<open>security/loginlimit.c\<close>, \<open>security/ratelimit.c\<close>): the
    open-addressing tables (locale \<open>slot_table\<close>), the lockout schedule and the token buckets.  The
    number of passwords compared for a pair is bounded over every interleaving of the checks and failures of several
    workers (relation \<open>guess_run\<close>), and so is what the rate limiter admits for a key.
  \<^item> \<open>Minijson\<close>, \<open>Chatio\<close> (\<open>core/minijson.c\<close>, \<open>http/chatio.c\<close>): the JSON writer and tolerant reader
    (locale \<open>byte_sink\<close>) and the server-sent event frames.
  \<^item> \<open>Auth_Basic\<close>, \<open>Auth_Session\<close> (\<open>security/auth.c\<close>): the password file, Basic credentials, logout, and the
    session store as a refinement of a list of live sessions.
  \<^item> \<open>Http_Date\<close>, \<open>Http_Resp\<close>, \<open>Static_Files\<close> (\<open>http/static.c\<close>, \<open>http/http_resp.c\<close>): dates, validators,
    ranges, resolution below the document root, and the serialised response.
  \<^item> \<open>Framework\<close>, \<open>Cgi\<close>, \<open>Login_Form\<close>, \<open>Metrics\<close>, \<open>Route\<close> (\<open>core/framework.c\<close>, \<open>cgi/cgi.c\<close>,
    \<open>http/http_route.c\<close>, \<open>core/metrics.c\<close>): the handlers and \<open>process_request\<close>.
  \<^item> \<open>Worker_Pool\<close> (\<open>core/worker.c\<close>, the slots of \<open>agent/agent.c\<close>): the token pipe and the workers as a
    step relation; tokens are conserved and every run ends with everything served.
  \<^item> \<open>Http_Log\<close>, \<open>Vite\<close> (\<open>http/http_log.c\<close>, \<open>cgi/vite.c\<close>): log entries and the header filter.
  \<^item> \<open>Gate\<close>: the checks before dispatch that the fast path and the connection handler share.
  \<^item> \<open>Event\<close> (\<open>core/event.c\<close>): connection table, slow queue (locale \<open>bounded_fifo\<close>), one turn of the loop
    and its reachable states, with sweeps at any time.  Every waiting connection has an entry in the queue, and entries
    leave it in order; an entry may outlive its connection.
  \<^item> \<open>Connection\<close> (\<open>http/http.c\<close>): the keep-alive loop with every way of reading a body.  A kept connection goes on
    behind the request just answered, except after a 400 for a header block that does not parse and after a 408.
  \<^item> \<open>Fastcgi\<close> (\<open>cgi/fastcgi.c\<close>): the record codec, the relay and the server side.
  \<^item> \<open>Sql_Guard\<close>, \<open>Sql_Tools\<close> (\<open>agent/sqlite_tool.c\<close>): which statements the agent may run, stated over a
    lexical grammar of SQL, and the tools around SQLite.
  \<^item> \<open>Agent_Memory\<close> (\<open>agent/session.c\<close>): transcripts and facts in JSON files (locale \<open>persistent_store\<close>); a saved session is
    loaded again, up to empty texts.
  \<^item> \<open>Fetch_Guard\<close>, \<open>Calc\<close>, \<open>Tools\<close> (\<open>agent/tools.c\<close>), \<open>Skills\<close> (\<open>agent/skills.c\<close>): the tool registry with its
    schema cache and profile, and the built-in tools.  The fetch tool asks for no host with an internal address (a URL
    with an empty authority names no host and passes), the calculator computes the value of an expression and always returns, the file and skill tools stay inside their
    roots, and the registry is a map whose schema is never stale.
  \<^item> \<open>Agent\<close> (\<open>agent/agent.c\<close>): one upstream round (request, event stream, verdict) and the loop of rounds and tool
    calls.  Every request is a well-formed conversation, a run is bounded, and the cuts of the stream do not matter.
  \<^item> \<open>Pse\<close> (\<open>agent/pse.c\<close>): the planner, specialist and evaluator cycles over the agent loop.
  \<^item> \<open>Chat_Request\<close>, \<open>Chat\<close>, \<open>Chat_Stream\<close> (\<open>agent/llm.c\<close>): the body of a chat request (a printed request is read back),
    the \<open>.env\<close> file, the demo engine, and the handler that composes memory, prompt, engines and transport: what it
    sends upstream, what it stores, and (locale \<open>port_invariant\<close>) what the client receives.
  \<^item> \<open>Mcp_Config\<close>, \<open>Mcp_Wire\<close>, \<open>Mcp\<close> (\<open>agent/mcp.c\<close>): the MCP client.  The server table and its configuration (a
    printed one is read back); the loops that count braces in JSON text (locale \<open>json_walker\<close>, interpreted on two of
    them, and on a third in \<open>Router\<close>), when a response is complete, and the text of a result; the tool catalogue, the resident connections and
    the calls over an explicit list of actions: a call reaches only the server that listed the tool and leaves the other connections alone, and its texts come
    back whatever pieces the pipe delivers.
  \<^item> \<open>Tools_Api\<close> (\<open>agent/tools_api.c\<close>): the HTTP surface of the tool table: who may run a tool, and replies a peer can
    read back.
  \<^item> \<open>Db_Layer\<close> (\<open>agent/db_layer.c\<close>): the choice of a database driver, the connection pools of the two optional drivers
    (locale \<open>db_driver\<close>, interpreted on reading and writing with either), and the numbering of placeholders.
  \<^item> \<open>Router\<close> (\<open>core/router.c\<close>): the catalogue of a remote router over an explicit list of actions.  Which
    URLs \<open>curl\<close> is started with, what a synchronisation may write and how long its requests may take are two laws of that list (locale
    \<open>trace_law\<close>, interpreted on both); the MCP configuration it writes is read back by \<open>Mcp_Config\<close>, the tools of a
    printed catalogue are found exactly, local tools win, and a description that was cut ends with a whole character.

  \<^bold>\<open>Bounds and termination.\<close>  Loops over a string or a socket are total functions with the number of
  bytes left as measure.  Two definitions use fuel: the keep-alive loop, whose bound is the code's own limit on
  requests per connection, and the calculator, with eight units per character of the text (\<open>calc_total\<close> shows
  that this is enough for every input).

  \<^bold>\<open>Not modelled.\<close>  Process set-up (\<open>core/main.c\<close>, \<open>agenthttpd_run\<close>, signal handlers, listeners), forks
    and \<open>curl\<close>/\<open>jq\<close> children (what they report is an input), the epoll/kqueue calls (their events are inputs), the
    client libraries of PostgreSQL and MySQL, and the Blowfish rounds and tables of \<open>security/bcrypt.c\<close>, whose
    verdict is a parameter of the password check.
\<close>

end
